(* ===== verification/Ts_Prelude.thy ===== *)
theory Ts_Prelude
  imports Complex_Main "HOL-Library.Word" "HOL-Library.Monad_Syntax" "HOL-Library.Sublist"
begin

text \<open>
  Shared vocabulary of the development: C integers, C strings, the digits of a number, the
  search functions of \<^verbatim>\<open>string.h\<close> the runtime calls, and the lemmas about them that several
  components use. A C routine that can reach undefined behaviour (a NULL or dangling pointer,
  a signed overflow, a read past a buffer) is a function into \<open>'a option\<close>; \<open>None\<close> is the
  undefined outcome and the \<open>do\<close> notation threads it.
\<close>

subsection \<open>Collections of facts\<close>

named_theorems heap_simps \<open>reading the object store after an update or an allocation\<close>
named_theorems chars \<open>membership facts of the character classes\<close>

subsection \<open>C integers\<close>

definition int32_max :: int where
  "int32_max = 2147483647"

definition int32_min :: int where
  "int32_min = - 2147483648"

definition fits32 :: "int \<Rightarrow> bool" where
  "fits32 n \<longleftrightarrow> int32_min \<le> n \<and> n \<le> int32_max"

text \<open>Signed arithmetic of width 32: an overflow is undefined behaviour.\<close>

definition ck32 :: "int \<Rightarrow> int option" where
  "ck32 n = (if fits32 n then Some n else None)"

lemma ck32_Some [simp]: "fits32 n \<Longrightarrow> ck32 n = Some n"
  by (simp add: ck32_def)

lemma ck32_eq_Some [simp]: "ck32 n = Some m \<longleftrightarrow> fits32 n \<and> m = n"
  by (auto simp: ck32_def)

lemma fits32I [intro]: "0 \<le> n \<Longrightarrow> n \<le> int32_max \<Longrightarrow> fits32 n"
  by (simp add: fits32_def int32_min_def)

lemma fits32_mono: "fits32 m \<Longrightarrow> 0 \<le> n \<Longrightarrow> n \<le> m \<Longrightarrow> fits32 n"
  by (simp add: fits32_def int32_min_def)

text \<open>C integer division and remainder truncate towards zero.\<close>

definition c_div :: "int \<Rightarrow> int \<Rightarrow> int" where
  "c_div a b = sgn a * sgn b * (\<bar>a\<bar> div \<bar>b\<bar>)"

definition c_mod :: "int \<Rightarrow> int \<Rightarrow> int" where
  "c_mod a b = a - b * c_div a b"

lemma c_div_nonneg [simp]: "0 \<le> a \<Longrightarrow> 0 < b \<Longrightarrow> c_div a b = a div b"
  by (cases "a = 0") (simp_all add: c_div_def)

lemma c_mod_nonneg [simp]: "0 \<le> a \<Longrightarrow> 0 < b \<Longrightarrow> c_mod a b = a mod b"
  by (simp add: c_mod_def minus_mult_div_eq_mod)

lemma c_div_minus: "c_div (- a) b = - c_div a b"
  by (simp add: c_div_def)

lemma c_mod_minus: "c_mod (- a) b = - c_mod a b"
  by (simp add: c_mod_def c_div_minus)

subsection \<open>C strings\<close>

abbreviation NUL :: char where
  "NUL \<equiv> CHR 0x00"

abbreviation NL :: char where
  "NL \<equiv> CHR 0x0A"

abbreviation CR :: char where
  "CR \<equiv> CHR 0x0D"

abbreviation TAB :: char where
  "TAB \<equiv> CHR 0x09"

abbreviation DQUOTE :: char where
  "DQUOTE \<equiv> CHR 0x22"

abbreviation BACKSLASH :: char where
  "BACKSLASH \<equiv> CHR 0x5C"

text \<open>What a function that stops at the terminator sees of a byte buffer.\<close>

definition cstr :: "string \<Rightarrow> string" where
  "cstr s = takeWhile (\<lambda>c. c \<noteq> NUL) s"

definition strlen :: "string \<Rightarrow> int" where
  "strlen s = int (length (cstr s))"

lemma cstr_id: "NUL \<notin> set s \<Longrightarrow> cstr s = s"
  by (auto simp: cstr_def takeWhile_eq_all_conv)

lemma cstr_Nil [simp]: "cstr [] = []"
  by (simp add: cstr_def)

lemma cstr_Cons [simp]: "cstr (c # s) = (if c = NUL then [] else c # cstr s)"
  by (simp add: cstr_def)

lemma NUL_notin_cstr [simp]: "NUL \<notin> set (cstr s)"
  by (auto simp: cstr_def dest: set_takeWhileD)

lemma cstr_idem [simp]: "cstr (cstr s) = cstr s"
  by (simp add: cstr_id)

lemma length_cstr_le: "length (cstr s) \<le> length s"
  by (simp add: cstr_def length_takeWhile_le)

text \<open>\<^verbatim>\<open>strstr\<close>, \<^verbatim>\<open>strchr\<close> and \<^verbatim>\<open>strrchr\<close>, as offsets.\<close>

fun strstr :: "string \<Rightarrow> string \<Rightarrow> nat option" where
  "strstr [] n = (if n = [] then Some 0 else None)"
| "strstr (c # h) n = (if prefix n (c # h) then Some 0 else map_option Suc (strstr h n))"

fun strchr :: "string \<Rightarrow> char \<Rightarrow> nat option" where
  "strchr [] x = None"
| "strchr (c # h) x = (if c = x then Some 0 else map_option Suc (strchr h x))"

definition strrchr :: "string \<Rightarrow> char \<Rightarrow> nat option" where
  "strrchr h x = map_option (\<lambda>i. length h - Suc i) (strchr (rev h) x)"

lemma strstr_Some:
  "strstr h n = Some i \<Longrightarrow> i + length n \<le> length h \<and> take (length n) (drop i h) = n"
proof (induction h n arbitrary: i rule: strstr.induct)
  case (2 c h n)
  show ?case
  proof (cases "prefix n (c # h)")
    case True
    with "2.prems" have "i = 0" by simp
    with True show ?thesis
      by (metis add_0 append_eq_conv_conj drop0 prefix_def prefix_length_le)
  next
    case False
    with "2.prems" obtain j where "strstr h n = Some j" "i = Suc j" by auto
    with "2.IH" False show ?thesis by auto
  qed
qed (auto split: if_splits)

lemma strstr_least: "strstr h n = Some i \<Longrightarrow> j < i \<Longrightarrow> \<not> prefix n (drop j h)"
proof (induction h n arbitrary: i j rule: strstr.induct)
  case (2 c h n)
  then show ?case by (cases j) (auto split: if_splits)
qed (auto split: if_splits)

lemma strstr_None: "strstr h n = None \<longleftrightarrow> \<not> sublist n h"
proof (induction h n rule: strstr.induct)
  case (2 c h n)
  then show ?case by (auto simp: sublist_Cons_right)
qed auto

lemma strstr_prefix: "prefix n h \<Longrightarrow> strstr h n = Some 0"
  by (cases h) auto

lemma strchr_None: "strchr h x = None \<longleftrightarrow> x \<notin> set h"
  by (induction h) auto

lemma strchr_Some:
  "strchr h x = Some i \<Longrightarrow> i < length h \<and> h ! i = x \<and> x \<notin> set (take i h)"
  by (induction h arbitrary: i) (auto split: if_splits)

lemma strchr_append:
  "strchr (a @ b) x = (case strchr a x of Some i \<Rightarrow> Some i | None \<Rightarrow> map_option ((+) (length a)) (strchr b x))"
proof (induction a)
  case Nil
  show ?case by (cases "strchr b x") auto
next
  case (Cons c a)
  show ?case
  proof (cases "c = x")
    case False
    with Cons show ?thesis by (cases "strchr a x"; cases "strchr b x") auto
  qed simp
qed

lemma strchr_append_notin: "x \<notin> set a \<Longrightarrow> strchr (a @ b) x = map_option ((+) (length a)) (strchr b x)"
  using strchr_None [of a x] by (simp add: strchr_append)

lemma strrchr_None: "strrchr h x = None \<longleftrightarrow> x \<notin> set h"
  by (simp add: strrchr_def strchr_None)

lemma strrchr_Some:
  assumes "strrchr h x = Some i"
  shows "i < length h" "h ! i = x" "x \<notin> set (drop (Suc i) h)"
proof -
  from assms obtain j where j: "strchr (rev h) x = Some j" and i: "i = length h - Suc j"
    by (auto simp: strrchr_def)
  from strchr_Some [OF j] have *: "j < length h" "rev h ! j = x" "x \<notin> set (take j (rev h))"
    by auto
  from * i show "i < length h" by simp
  from * i show "h ! i = x" by (simp add: rev_nth)
  from * i have "take j (rev h) = rev (drop (Suc i) h)"
    by (simp add: take_rev Suc_diff_Suc)
  with * show "x \<notin> set (drop (Suc i) h)" by simp
qed

lemma strrchr_split: "x \<notin> set b \<Longrightarrow> strrchr (a @ x # b) x = Some (length a)"
  by (simp add: strrchr_def strchr_append_notin)

subsection \<open>Characters and digits\<close>

definition is_ws :: "char \<Rightarrow> bool" where
  "is_ws c \<longleftrightarrow> c = CHR '' '' \<or> c = TAB \<or> c = NL \<or> c = CR"

definition is_digit :: "char \<Rightarrow> bool" where
  "is_digit c \<longleftrightarrow> 48 \<le> (of_char c :: nat) \<and> (of_char c :: nat) \<le> 57"

definition digit_val :: "char \<Rightarrow> nat" where
  "digit_val c = of_char c - 48"

definition digit_char :: "nat \<Rightarrow> char" where
  "digit_char d = char_of (48 + d)"

lemma of_char_digit_char [simp]: "d < 10 \<Longrightarrow> of_char (digit_char d) = 48 + d"
  by (simp add: digit_char_def)

lemma is_digit_digit_char [simp]: "d < 10 \<Longrightarrow> is_digit (digit_char d)"
  by (simp add: is_digit_def)

lemma digit_val_digit_char [simp]: "d < 10 \<Longrightarrow> digit_val (digit_char d) = d"
  by (simp add: digit_val_def)

lemma digit_char_0: "digit_char 0 = CHR ''0''"
  unfolding digit_char_def by code_simp

lemma digit_char_eq_0_iff: "d < 10 \<Longrightarrow> digit_char d = CHR ''0'' \<longleftrightarrow> d = 0"
  by (metis digit_char_0 digit_val_digit_char zero_less_numeral)

text \<open>The number of digits of a natural number in a base, and its decimal notation.\<close>

fun ndig :: "nat \<Rightarrow> nat \<Rightarrow> nat" where
  "ndig b n = (if n = 0 \<or> b < 2 then 0 else Suc (ndig b (n div b)))"

declare ndig.simps [simp del]

fun dec_str :: "nat \<Rightarrow> string" where
  "dec_str n = (if n < 10 then [digit_char n] else dec_str (n div 10) @ [digit_char (n mod 10)])"

declare dec_str.simps [simp del]

fun digits_val :: "nat \<Rightarrow> string \<Rightarrow> nat" where
  "digits_val acc [] = acc"
| "digits_val acc (c # cs) = digits_val (10 * acc + digit_val c) cs"

definition int_str :: "int \<Rightarrow> string" where
  "int_str n = (if n < 0 then CHR ''-'' # dec_str (nat (- n)) else dec_str (nat n))"

lemma ndig_0 [simp]: "ndig b 0 = 0"
  by (simp add: ndig.simps)

lemma ndig_pos: "0 < n \<Longrightarrow> 2 \<le> b \<Longrightarrow> ndig b n = Suc (ndig b (n div b))"
  by (simp add: ndig.simps [of b n])

lemma ndig_bounds:
  assumes "2 \<le> b" "0 < n"
  shows "b ^ (ndig b n - 1) \<le> n \<and> n < b ^ ndig b n \<and> 0 < ndig b n"
  using assms
proof (induction b n rule: ndig.induct)
  case (1 b n)
  show ?case
  proof (cases "n div b = 0")
    case True
    with "1.prems" show ?thesis
      by (auto simp: ndig_pos div_eq_0_iff)
  next
    case False
    with "1.prems" "1.IH"
    have IH: "b ^ (ndig b (n div b) - 1) \<le> n div b" "n div b < b ^ ndig b (n div b)"
        "0 < ndig b (n div b)" by auto
    then obtain k where k: "ndig b (n div b) = Suc k" using gr0_conv_Suc by blast
    from IH k have "b * b ^ k \<le> n"
      using "1.prems" by (simp add: less_eq_div_iff_mult_less_eq mult.commute)
    moreover have "n < b * b ^ Suc k"
      using IH k "1.prems" by (metis div_less_iff_less_mult less_le_trans mult.commute pos2)
    ultimately show ?thesis using k "1.prems" by (simp add: ndig_pos)
  qed
qed

lemma ndig_le: "2 \<le> b \<Longrightarrow> n < b ^ k \<Longrightarrow> ndig b n \<le> k"
proof (cases "n = 0")
  case False
  assume "2 \<le> b" "n < b ^ k"
  with False ndig_bounds [of b n] have "b ^ (ndig b n - 1) < b ^ k" by linarith
  with \<open>2 \<le> b\<close> have "ndig b n - 1 < k" by (simp add: power_strict_increasing_iff)
  then show ?thesis by linarith
qed simp

lemma length_dec_str: "0 < n \<Longrightarrow> length (dec_str n) = ndig 10 n"
  by (induction n rule: dec_str.induct) (simp add: dec_str.simps ndig_pos)

lemma dec_str_mult_10: "0 < n \<Longrightarrow> dec_str (n * 10 ^ k) = dec_str n @ replicate k (CHR ''0'')"
proof (induction k)
  case (Suc k)
  have "dec_str (n * 10 ^ k * 10) = dec_str (n * 10 ^ k) @ [digit_char 0]"
    using Suc.prems by (subst dec_str.simps) simp
  also have "n * 10 ^ k * 10 = n * 10 ^ Suc k" by simp
  also have "dec_str (n * 10 ^ k) = dec_str n @ replicate k (CHR ''0'')" using Suc by simp
  finally show ?case by (simp add: digit_char_0 replicate_append_same)
qed simp

lemma dec_str_digits: "c \<in> set (dec_str n) \<Longrightarrow> is_digit c"
proof (induction n arbitrary: c rule: dec_str.induct)
  case (1 n)
  then show ?case
    by (cases "n < 10") (auto simp: dec_str.simps [of n])
qed

lemma dec_str_not_Nil [simp]: "dec_str n \<noteq> []"
  by (subst dec_str.simps) simp

lemma digits_val_append: "digits_val acc (a @ b) = digits_val (digits_val acc a) b"
  by (induction a arbitrary: acc) auto

lemma digits_val_dec_str [simp]: "digits_val 0 (dec_str n) = n"
proof (induction n rule: dec_str.induct)
  case (1 n)
  then show ?case
    by (cases "n < 10") (simp_all add: dec_str.simps [of n] digits_val_append)
qed

subsection \<open>A fallible fold\<close>

fun foldo :: "('a \<Rightarrow> 'b \<Rightarrow> 'a option) \<Rightarrow> 'a \<Rightarrow> 'b list \<Rightarrow> 'a option" where
  "foldo f a [] = Some a"
| "foldo f a (x # xs) = do { a' \<leftarrow> f a x; foldo f a' xs }"

lemma foldo_append: "foldo f a (xs @ ys) = do { b \<leftarrow> foldo f a xs; foldo f b ys }"
  by (induction xs arbitrary: a) (auto split: bind_splits)

end
