(* ===== verification/Ts_Double.thy ===== *)
theory Ts_Double
  imports Ts_Prelude
begin

text \<open>
  The C \<^verbatim>\<open>double\<close> and the two library routines the runtime uses on it: \<^verbatim>\<open>snprintf("%g")\<close>, by
  which every number is printed, and \<^verbatim>\<open>strtod\<close>/\<^verbatim>\<open>atof\<close>, by which every number is read. A
  finite double is its exact rational value; \<open>rnd\<close> rounds a rational to the nearest binary64
  value, ties to even, with overflow to infinity and gradual underflow.
\<close>

datatype dbl = DFin rat | DNegZero | DInf | DNegInf | DNaN

subsection \<open>Comparisons and conversions\<close>

fun deq :: "dbl \<Rightarrow> dbl \<Rightarrow> bool" where
  "deq (DFin a) (DFin b) = (a = b)"
| "deq (DFin a) DNegZero = (a = 0)"
| "deq DNegZero (DFin b) = (b = 0)"
| "deq DNegZero DNegZero = True"
| "deq DInf DInf = True"
| "deq DNegInf DNegInf = True"
| "deq _ _ = False"

fun dle :: "dbl \<Rightarrow> dbl \<Rightarrow> bool" where
  "dle DNaN _ = False"
| "dle _ DNaN = False"
| "dle DNegInf _ = True"
| "dle _ DInf = True"
| "dle DInf _ = False"
| "dle _ DNegInf = False"
| "dle (DFin a) (DFin b) = (a \<le> b)"
| "dle (DFin a) DNegZero = (a \<le> 0)"
| "dle DNegZero (DFin b) = (0 \<le> b)"
| "dle DNegZero DNegZero = True"

definition dlt :: "dbl \<Rightarrow> dbl \<Rightarrow> bool" where
  "dlt a b \<longleftrightarrow> dle a b \<and> \<not> deq a b"

abbreviation d_isnan :: "dbl \<Rightarrow> bool" where
  "d_isnan x \<equiv> x = DNaN"

abbreviation dint :: "int \<Rightarrow> dbl" where
  "dint n \<equiv> DFin (of_int n)"

text \<open>The conversion \<open>(int)d\<close> truncates; out of the range of the type it is undefined.\<close>

definition rtrunc :: "rat \<Rightarrow> int" where
  "rtrunc r = (if 0 \<le> r then \<lfloor>r\<rfloor> else - \<lfloor>- r\<rfloor>)"

fun d_to_int :: "dbl \<Rightarrow> int option" where
  "d_to_int (DFin r) = (if fits32 (rtrunc r) then Some (rtrunc r) else None)"
| "d_to_int DNegZero = Some 0"
| "d_to_int _ = None"

lemma rtrunc_of_int [simp]: "rtrunc (of_int n) = n"
  by (simp add: rtrunc_def)

lemma d_to_int_dint [simp]: "fits32 n \<Longrightarrow> d_to_int (dint n) = Some n"
  by simp

lemma deq_refl: "deq x x \<longleftrightarrow> x \<noteq> DNaN"
  by (cases x) auto

lemma deq_sym: "deq x y = deq y x"
  by (cases x; cases y) auto

subsection \<open>Rounding\<close>

definition rpow :: "nat \<Rightarrow> int \<Rightarrow> rat" where
  "rpow b e = (if 0 \<le> e then of_nat b ^ nat e else 1 / of_nat b ^ nat (- e))"

text \<open>The integer part of the logarithm of a positive rational.\<close>

definition flog :: "nat \<Rightarrow> rat \<Rightarrow> int" where
  "flog b a = (if 1 \<le> a then int (ndig b (nat \<lfloor>a\<rfloor>)) - 1
               else - int (ndig b (nat (\<lceil>1 / a\<rceil> - 1))))"

text \<open>Round to an integer, ties to even.\<close>

definition rhe :: "rat \<Rightarrow> int" where
  "rhe r = (let f = \<lfloor>r\<rfloor>; d = r - of_int f in
     if d < 1 / 2 then f else if d > 1 / 2 then f + 1 else if even f then f else f + 1)"

definition rnd :: "rat \<Rightarrow> dbl" where
  "rnd r = (if r = 0 then DFin 0 else
     (let a = \<bar>r\<bar>; q = max (flog 2 a - 52) (- 1074);
          v = of_int (rhe (a / rpow 2 q)) * rpow 2 q
      in if rpow 2 1024 \<le> v then (if 0 < r then DInf else DNegInf)
         else if v = 0 then (if 0 < r then DFin 0 else DNegZero)
         else DFin (if 0 < r then v else - v)))"

lemma rhe_of_int [simp]: "rhe (of_int n) = n"
  by (simp add: rhe_def Let_def)

lemma rpow_neg: "e \<le> 0 \<Longrightarrow> rpow b e = 1 / of_nat b ^ nat (- e)"
  by (cases "e = 0") (auto simp: rpow_def)

lemma flog_of_nat:
  assumes "0 < n" "2 \<le> b" shows "flog b (of_nat n) = int (ndig b n) - 1"
  using assms by (simp add: flog_def)

text \<open>Every integer of at most 53 bits is a double.\<close>

lemma rnd_of_nat:
  assumes "0 < n" "n < 2 ^ 53"
  shows "rnd (of_nat n) = DFin (of_nat n)" "rnd (- of_nat n) = DFin (- of_nat n)"
proof -
  have l: "ndig 2 n \<le> 53" using assms by (intro ndig_le) auto
  define q where "q = max (flog 2 (of_nat n :: rat) - 52) (- 1074)"
  have q: "q \<le> 0" using l assms by (simp add: q_def flog_of_nat)
  have p: "rpow 2 q = 1 / 2 ^ nat (- q)" using q by (simp add: rpow_neg)
  have "(of_nat n :: rat) / rpow 2 q = of_int (int n * 2 ^ nat (- q))" by (simp add: p)
  then have v: "of_int (rhe ((of_nat n :: rat) / rpow 2 q)) * rpow 2 q = of_nat n"
    by (simp only: rhe_of_int) (simp add: p)
  have "(of_nat n :: rat) < of_nat (2 ^ 53)" using assms(2) by (simp only: of_nat_less_iff)
  also have "\<dots> \<le> 2 ^ 1024" unfolding of_nat_power of_nat_numeral by (rule power_increasing) simp_all
  finally have big: "\<not> rpow 2 1024 \<le> (of_nat n :: rat)" by (simp add: rpow_def)
  have n0: "(of_nat n :: rat) \<noteq> 0" "(0 :: rat) < of_nat n" "\<not> (0 :: rat) < - of_nat n"
    using assms by simp_all
  show "rnd (of_nat n) = DFin (of_nat n)"
    unfolding rnd_def Let_def abs_of_nat q_def [symmetric] v using big n0 by simp
  show "rnd (- of_nat n) = DFin (- of_nat n)"
    unfolding rnd_def Let_def abs_minus_cancel abs_of_nat q_def [symmetric] v using big n0 by simp
qed

lemma rnd_of_int:
  assumes "\<bar>n\<bar> < 2 ^ 53" shows "rnd (of_int n) = dint n"
proof (cases "n = 0")
  case False
  then have "0 < nat \<bar>n\<bar>" by simp
  moreover have "nat \<bar>n\<bar> < 2 ^ 53" using assms by (simp add: nat_less_iff)
  ultimately show ?thesis
    using rnd_of_nat [of "nat \<bar>n\<bar>"] by (cases "0 \<le> n") auto
qed (simp add: rnd_def)

subsection \<open>\<^verbatim>\<open>%g\<close>\<close>

text \<open>
  Six significant digits, in fixed notation when the decimal exponent is between -4 and 5 and
  in scientific notation otherwise, trailing zeros of the fraction removed.
\<close>

definition strip_zeros :: "string \<Rightarrow> string" where
  "strip_zeros s = rev (dropWhile (\<lambda>c. c = CHR ''0'') (rev s))"

definition with_frac :: "string \<Rightarrow> string \<Rightarrow> string" where
  "with_frac i f = (let z = strip_zeros f in if z = [] then i else i @ ''.'' @ z)"

definition exp_str :: "int \<Rightarrow> string" where
  "exp_str x = (let d = dec_str (nat \<bar>x\<bar>) in
     (if x < 0 then ''e-'' else ''e+'') @ (if length d < 2 then CHR ''0'' # d else d))"

definition fmt_pos :: "rat \<Rightarrow> string" where
  "fmt_pos a =
    (let e0 = flog 10 a;
         m0 = nat (rhe (a / rpow 10 (e0 - 5)));
         (m, x) = (if m0 = 1000000 then (100000, e0 + 1) else (m0, e0));
         ds = dec_str m
     in if x < - 4 \<or> 6 \<le> x then with_frac (take 1 ds) (drop 1 ds) @ exp_str x
        else if 0 \<le> x then with_frac (take (nat x + 1) ds) (drop (nat x + 1) ds)
        else with_frac ''0'' (replicate (nat (- x) - 1) (CHR ''0'') @ ds))"

fun fmt_g :: "dbl \<Rightarrow> string" where
  "fmt_g DNaN = ''nan''"
| "fmt_g DInf = ''inf''"
| "fmt_g DNegInf = ''-inf''"
| "fmt_g DNegZero = ''-0''"
| "fmt_g (DFin r) = (if r = 0 then ''0'' else if r < 0 then CHR ''-'' # fmt_pos (- r) else fmt_pos r)"

lemma strip_zeros_replicate [simp]: "strip_zeros (replicate k (CHR ''0'')) = []"
  by (simp add: strip_zeros_def dropWhile_replicate)

lemma fmt_pos_of_nat:
  assumes "0 < n" "n < 1000000" shows "fmt_pos (of_nat n) = dec_str n"
proof -
  have l: "ndig 10 n \<le> 6" using assms by (intro ndig_le) auto
  have b: "0 < ndig 10 n" "n < 10 ^ ndig 10 n" using ndig_bounds [of 10 n] assms by auto
  define k where "k = 6 - ndig 10 n"
  have e: "flog 10 (of_nat n) = int (ndig 10 n) - 1" using assms by (simp add: flog_of_nat)
  have "int (ndig 10 n) - 1 - 5 = - int k" using l by (simp add: k_def)
  then have "(of_nat n :: rat) / rpow 10 (int (ndig 10 n) - 1 - 5) = of_int (int (n * 10 ^ k))"
    by (simp add: rpow_neg)
  then have m0: "nat (rhe ((of_nat n :: rat) / rpow 10 (int (ndig 10 n) - 1 - 5))) = n * 10 ^ k"
    by (simp only: rhe_of_int nat_int)
  have "n * 10 ^ k < 10 ^ ndig 10 n * 10 ^ k" using b by simp
  also have "\<dots> = 1000000" using l by (simp add: k_def flip: power_add)
  finally have m1: "n * 10 ^ k \<noteq> 1000000" by simp
  have ds: "dec_str (n * 10 ^ k) = dec_str n @ replicate k (CHR ''0'')"
    using assms by (simp add: dec_str_mult_10)
  have len: "length (dec_str n) = nat (int (ndig 10 n) - 1) + 1"
    using assms b by (simp add: length_dec_str)
  show ?thesis
    using l b m0 m1 len
    by (simp add: fmt_pos_def Let_def e ds with_frac_def)
qed

text \<open>An integer of at most six digits is printed exactly.\<close>

lemma fmt_g_of_int:
  assumes "\<bar>n\<bar> < 1000000" shows "fmt_g (dint n) = int_str n"
proof -
  have "of_nat (nat n) = (of_int n :: rat)" if "0 < n" using that by simp
  moreover have "of_nat (nat (- n)) = (- of_int n :: rat)" if "n < 0" using that by simp
  moreover have "dec_str 0 = ''0''" by (simp add: dec_str.simps digit_char_0)
  ultimately show ?thesis
    using assms fmt_pos_of_nat [of "nat n"] fmt_pos_of_nat [of "nat (- n)"]
    by (cases "n = 0"; cases "0 < n") (auto simp: int_str_def)
qed

subsection \<open>\<^verbatim>\<open>strtod\<close>\<close>

definition is_space :: "char \<Rightarrow> bool" where
  "is_space c \<longleftrightarrow> c = CHR '' '' \<or> (9 \<le> (of_char c :: nat) \<and> (of_char c :: nat) \<le> 13)"

definition lower :: "char \<Rightarrow> char" where
  "lower c = (if 65 \<le> (of_char c :: nat) \<and> (of_char c :: nat) \<le> 90
              then char_of ((of_char c :: nat) + 32) else c)"

definition hex_val :: "char \<Rightarrow> nat option" where
  "hex_val c = (let n = (of_char (lower c) :: nat) in
     if is_digit c then Some (digit_val c)
     else if 97 \<le> n \<and> n \<le> 102 then Some (n - 87) else None)"

fun hex_digits_val :: "nat \<Rightarrow> string \<Rightarrow> nat" where
  "hex_digits_val acc [] = acc"
| "hex_digits_val acc (c # cs) = hex_digits_val (16 * acc + the (hex_val c)) cs"

text \<open>A digit string of the class \<open>p\<close>, and an optional fraction.\<close>

definition read_mant :: "(char \<Rightarrow> bool) \<Rightarrow> string \<Rightarrow> (string \<times> string \<times> string) option" where
  "read_mant p s = (let i = takeWhile p s; r = dropWhile p s in
     case r of
       c # r' \<Rightarrow> (if c = CHR ''.'' then
                    (let f = takeWhile p r' in if i = [] \<and> f = [] then None
                     else Some (i, f, dropWhile p r'))
                  else if i = [] then None else Some (i, [], r))
     | [] \<Rightarrow> if i = [] then None else Some (i, [], r))"

text \<open>An optional exponent introduced by \<open>e\<close>: its value and what follows.\<close>

definition read_exp :: "char \<Rightarrow> string \<Rightarrow> int \<times> string" where
  "read_exp e s = (case s of
     c # r \<Rightarrow> (if lower c = e then
        (let (sg, r1) = (case r of
               d # r' \<Rightarrow> if d = CHR ''-'' then (-1, r') else if d = CHR ''+'' then (1, r') else (1, r)
             | [] \<Rightarrow> (1, r));
             ds = takeWhile is_digit r1
         in if ds = [] then (0, s) else (sg * int (digits_val 0 ds), dropWhile is_digit r1))
        else (0, s))
   | [] \<Rightarrow> (0, s))"

definition dsigned :: "bool \<Rightarrow> dbl \<Rightarrow> dbl" where
  "dsigned neg x = (if \<not> neg then x else case x of
     DFin r \<Rightarrow> if r = 0 then DNegZero else DFin (- r)
   | DNegZero \<Rightarrow> DFin 0 | DInf \<Rightarrow> DNegInf | DNegInf \<Rightarrow> DInf | DNaN \<Rightarrow> DNaN)"

definition strtod_mag :: "string \<Rightarrow> (dbl \<times> string) option" where
  "strtod_mag s =
    (if map lower (take 8 s) = ''infinity'' then Some (DInf, drop 8 s)
     else if map lower (take 3 s) = ''inf'' then Some (DInf, drop 3 s)
     else if map lower (take 3 s) = ''nan'' then Some (DNaN, drop 3 s)
     else case (if map lower (take 2 s) = ''0x''
                then read_mant (\<lambda>c. hex_val c \<noteq> None) (drop 2 s) else None) of
       Some (i, f, r) \<Rightarrow> (let (e, r') = read_exp (CHR ''p'') r in
         Some (rnd (of_nat (hex_digits_val 0 (i @ f)) * rpow 2 (e - 4 * int (length f))), r'))
     | None \<Rightarrow> (case read_mant is_digit s of
         Some (i, f, r) \<Rightarrow> (let (e, r') = read_exp (CHR ''e'') r in
           Some (rnd (of_nat (digits_val 0 (i @ f)) * rpow 10 (e - int (length f))), r'))
       | None \<Rightarrow> None))"

definition strtod :: "string \<Rightarrow> dbl \<times> string" where
  "strtod s = (let s1 = dropWhile is_space s;
     (neg, s2) = (case s1 of
        c # r \<Rightarrow> if c = CHR ''-'' then (True, r) else if c = CHR ''+'' then (False, r) else (False, s1)
      | [] \<Rightarrow> (False, s1))
   in case strtod_mag s2 of Some (d, r) \<Rightarrow> (dsigned neg d, r) | None \<Rightarrow> (DFin 0, s))"

definition atof :: "string \<Rightarrow> dbl" where
  "atof s = fst (strtod s)"

lemma lower_digit: "is_digit c \<Longrightarrow> lower c = c"
  by (auto simp: is_digit_def lower_def)

text \<open>A decimal numeral is read back.\<close>

lemma strtod_mag_dec_str: "strtod_mag (dec_str n) = Some (rnd (of_nat n), [])"
proof -
  let ?s = "dec_str n"
  have dig: "\<And>c. c \<in> set ?s \<Longrightarrow> is_digit c" by (rule dec_str_digits)
  have low: "map lower (take k ?s) = take k ?s" for k
    using dig by (auto intro!: map_idI lower_digit dest: in_set_takeD)
  have no: "c \<in> set l \<Longrightarrow> \<not> is_digit c \<Longrightarrow> take k ?s \<noteq> l" for c k l
    using dig by (metis in_set_takeD)
  have tw: "takeWhile is_digit ?s = ?s" "dropWhile is_digit ?s = []"
    using dig by (auto simp: takeWhile_eq_all_conv)
  have "read_mant is_digit ?s = Some (?s, [], [])"
    by (simp only: read_mant_def Let_def tw) simp
  moreover have "take 8 ?s \<noteq> ''infinity''" "take 3 ?s \<noteq> ''inf''" "take 3 ?s \<noteq> ''nan''" "take 2 ?s \<noteq> ''0x''"
    by (rule no[of "CHR ''i''"] no[of "CHR ''a''"] no[of "CHR ''x''"]; simp add: is_digit_def)+
  ultimately show ?thesis
    by (simp add: strtod_mag_def low read_exp_def rpow_def)
qed

lemma strtod_int_str:
  assumes "\<bar>n\<bar> < 2 ^ 53" shows "strtod (int_str n) = (dint n, [])"
proof -
  have d: "\<exists>c s. dec_str m = c # s \<and> is_digit c" for m
    using dec_str_not_Nil[of m] dec_str_digits[of _ m] by (cases "dec_str m") auto
  have np: "\<not> is_space c \<and> c \<noteq> CHR ''-'' \<and> c \<noteq> CHR ''+''" if "is_digit c" for c
    using that by (auto simp: is_digit_def is_space_def)
  have sp: "\<not> is_space (CHR ''-'')" by (simp add: is_space_def)
  show ?thesis
  proof (cases "0 \<le> n")
    case True
    then have "rnd (of_nat (nat n)) = dint n" using rnd_of_int[OF assms] by simp
    moreover obtain c s where "dec_str (nat n) = c # s" "is_digit c" using d by blast
    ultimately show ?thesis using True np[of c] strtod_mag_dec_str[of "nat n"]
      by (simp add: strtod_def int_str_def dsigned_def)
  next
    case False
    then have "rnd (of_nat (nat (- n))) = dint (- n)" using rnd_of_int[of "- n"] assms by simp
    then show ?thesis using False sp strtod_mag_dec_str[of "nat (- n)"]
      by (simp add: strtod_def int_str_def dsigned_def)
  qed
qed

end
