(* ===== verification/Ts_Heap.thy ===== *)
theory Ts_Heap
  imports Ts_Double
begin

text \<open>
  The data model of \<^verbatim>\<open>runtime/include/runtime.h\<close>: the tagged union \<^verbatim>\<open>Value\<close>, the objects its
  pointers lead to, and the store that holds them. An address is a natural number with 0 for
  NULL. Strings, arrays and tagged objects live in three typed parts of the store; an address
  that a part does not map is dangling, and reading it is undefined (\<open>None\<close>). Allocation takes
  the next unused address; \<^verbatim>\<open>malloc\<close> is assumed to succeed, and the collection that an
  allocation may start is the subject of theory \<open>Ts_Gc\<close>.
\<close>

type_synonym addr = nat

subsection \<open>Value\<close>

datatype value_tag =
  TAG_NUMBER | TAG_STRING | TAG_BOOLEAN | TAG_NULL | TAG_OBJECT | TAG_ARRAY | TAG_FUNCTION | TAG_SYMBOL

datatype tsvalue =
  VNumber dbl
| VString addr
| VBoolean int
| VNull
| VObject addr
| VArray addr
| VFunction addr
| VSymbol int

fun vtag :: "tsvalue \<Rightarrow> value_tag" where
  "vtag (VNumber _) = TAG_NUMBER"
| "vtag (VString _) = TAG_STRING"
| "vtag (VBoolean _) = TAG_BOOLEAN"
| "vtag VNull = TAG_NULL"
| "vtag (VObject _) = TAG_OBJECT"
| "vtag (VArray _) = TAG_ARRAY"
| "vtag (VFunction _) = TAG_FUNCTION"
| "vtag (VSymbol _) = TAG_SYMBOL"

definition ts_value_undefined :: "tsvalue" where
  "ts_value_undefined = VNull"

definition ts_value_null :: "tsvalue" where
  "ts_value_null = VNull"

definition ts_value_boolean :: "bool \<Rightarrow> tsvalue" where
  "ts_value_boolean b = VBoolean (if b then 1 else 0)"

subsection \<open>Strings, arrays and hash maps\<close>

text \<open>
  A string is its reference count and its \<^verbatim>\<open>length\<close> bytes; the terminating NUL after them is
  implied. An array keeps its whole buffer of \<^verbatim>\<open>capacity\<close> slots, \<open>None\<close> for a slot nothing has
  been stored in. A hash map keeps its table, \<open>None\<close> for an entry that is not occupied; a key
  is kept by its bytes.
\<close>

record tsstring =
  s_refcount :: int
  s_data :: string

record 'v tsarray =
  a_refcount :: int
  a_length :: int
  a_capacity :: int
  a_items :: "'v option list"

record 'v hashmap =
  m_refcount :: int
  m_size :: int
  m_capacity :: int
  m_entries :: "(string \<times> 'v) option list"

subsection \<open>Tagged objects\<close>

datatype promise_state = PROMISE_PENDING | PROMISE_FULFILLED | PROMISE_REJECTED

record promise =
  p_state :: promise_state
  p_result :: "tsvalue"
  p_onFulfilled :: "tsvalue"
  p_onRejected :: "tsvalue"
  p_onFinally :: "tsvalue"
  p_then :: addr

record bound_fn =
  b_fn :: addr
  b_caps :: "tsvalue list"
  b_ncaps :: int

record resolver =
  r_promise :: addr
  r_is_reject :: bool

record stream_body =
  sb_chunks :: addr
  sb_delay :: int

record url =
  u_href :: addr
  u_protocol :: addr
  u_host :: addr
  u_hostname :: addr
  u_port :: addr
  u_pathname :: addr
  u_search :: addr
  u_hash :: addr
  u_origin :: addr

record blob =
  bl_data :: addr
  bl_type :: addr

record buffer =
  bf_data :: "8 word list"
  bf_length :: int
  bf_capacity :: int

record fetch_response =
  f_status :: int
  f_statusText :: addr
  f_body :: addr
  f_headers :: addr
  f_url :: addr
  f_stream :: addr
  f_body_complete :: bool

text \<open>The object behind a \<^verbatim>\<open>TAG_OBJECT\<close> value, told apart at run time by its first word.\<close>

datatype object =
  OMap "tsvalue hashmap"
| OPromise promise
| OBound bound_fn
| OResolver resolver
| OStream stream_body
| OUrl url
| OBlob blob
| OBuffer buffer
| OResponse fetch_response

subsection \<open>The store\<close>

record heap =
  nxt :: addr
  strs :: "addr \<Rightarrow> tsstring option"
  arrs :: "addr \<Rightarrow> tsvalue tsarray option"
  objs :: "addr \<Rightarrow> object option"

definition empty_heap :: heap where
  "empty_heap = \<lparr>nxt = 1, strs = Map.empty, arrs = Map.empty, objs = Map.empty\<rparr>"

text \<open>Well-formed: NULL and the addresses not yet handed out hold nothing.\<close>

definition heap_ok :: "heap \<Rightarrow> bool" where
  "heap_ok h \<longleftrightarrow> 0 < nxt h \<and> strs h 0 = None \<and> arrs h 0 = None \<and> objs h 0 = None \<and>
     (\<forall>p \<ge> nxt h. strs h p = None \<and> arrs h p = None \<and> objs h p = None)"

definition new_str :: "heap \<Rightarrow> string \<Rightarrow> addr \<times> heap" where
  "new_str h s = (nxt h, h\<lparr>nxt := Suc (nxt h),
      strs := (strs h)(nxt h \<mapsto> \<lparr>s_refcount = 1, s_data = s\<rparr>)\<rparr>)"

definition new_arr :: "heap \<Rightarrow> tsvalue tsarray \<Rightarrow> addr \<times> heap" where
  "new_arr h a = (nxt h, h\<lparr>nxt := Suc (nxt h), arrs := (arrs h)(nxt h \<mapsto> a)\<rparr>)"

definition new_obj :: "heap \<Rightarrow> object \<Rightarrow> addr \<times> heap" where
  "new_obj h a = (nxt h, h\<lparr>nxt := Suc (nxt h), objs := (objs h)(nxt h \<mapsto> a)\<rparr>)"

definition put_str :: "heap \<Rightarrow> addr \<Rightarrow> tsstring \<Rightarrow> heap" where
  "put_str h p s = h\<lparr>strs := (strs h)(p \<mapsto> s)\<rparr>"

definition put_arr :: "heap \<Rightarrow> addr \<Rightarrow> tsvalue tsarray \<Rightarrow> heap" where
  "put_arr h p a = h\<lparr>arrs := (arrs h)(p \<mapsto> a)\<rparr>"

definition put_obj :: "heap \<Rightarrow> addr \<Rightarrow> object \<Rightarrow> heap" where
  "put_obj h p a = h\<lparr>objs := (objs h)(p \<mapsto> a)\<rparr>"

definition del_str :: "heap \<Rightarrow> addr \<Rightarrow> heap" where
  "del_str h p = h\<lparr>strs := (strs h)(p := None)\<rparr>"

definition del_arr :: "heap \<Rightarrow> addr \<Rightarrow> heap" where
  "del_arr h p = h\<lparr>arrs := (arrs h)(p := None)\<rparr>"

definition del_obj :: "heap \<Rightarrow> addr \<Rightarrow> heap" where
  "del_obj h p = h\<lparr>objs := (objs h)(p := None)\<rparr>"

lemmas new_defs = new_str_def new_arr_def new_obj_def
lemmas put_defs = put_str_def put_arr_def put_obj_def del_str_def del_arr_def del_obj_def

text \<open>The bytes of a live string.\<close>

definition str_data :: "heap \<Rightarrow> addr \<Rightarrow> string option" where
  "str_data h p = map_option s_data (strs h p)"

definition str_at :: "heap \<Rightarrow> addr \<Rightarrow> string \<Rightarrow> bool" where
  "str_at h p s \<longleftrightarrow> p \<noteq> 0 \<and> (\<exists>n. strs h p = Some \<lparr>s_refcount = n, s_data = s\<rparr>)"

definition get_map :: "heap \<Rightarrow> addr \<Rightarrow> tsvalue hashmap option" where
  "get_map h p = (case objs h p of Some (OMap m) \<Rightarrow> Some m | _ \<Rightarrow> None)"

lemma str_at_data [simp]: "str_at h p s \<Longrightarrow> str_data h p = Some s"
  by (auto simp: str_at_def str_data_def)

lemma str_at_nonnull: "str_at h p s \<Longrightarrow> p \<noteq> 0"
  by (simp add: str_at_def)

lemma get_map_objs: "objs h p = Some (OMap m) \<Longrightarrow> get_map h p = Some m"
  by (simp add: get_map_def)

lemma get_map_Some: "get_map h p = Some m \<longleftrightarrow> objs h p = Some (OMap m)"
  by (auto simp: get_map_def split: option.splits object.splits)

subsection \<open>Reading the store after an update\<close>

lemma put_reads [heap_simps]:
  "strs (put_str h p s) = (strs h)(p \<mapsto> s)" "arrs (put_str h p s) = arrs h"
  "objs (put_str h p s) = objs h" "nxt (put_str h p s) = nxt h"
  "strs (put_arr h p a) = strs h" "arrs (put_arr h p a) = (arrs h)(p \<mapsto> a)"
  "objs (put_arr h p a) = objs h" "nxt (put_arr h p a) = nxt h"
  "strs (put_obj h p x) = strs h" "arrs (put_obj h p x) = arrs h"
  "objs (put_obj h p x) = (objs h)(p \<mapsto> x)" "nxt (put_obj h p x) = nxt h"
  "strs (del_str h p) = (strs h)(p := None)" "arrs (del_str h p) = arrs h"
  "objs (del_str h p) = objs h" "nxt (del_str h p) = nxt h"
  by (simp_all add: put_defs)

lemma new_reads [heap_simps]:
  "fst (new_str h s) = nxt h" "fst (new_arr h a) = nxt h" "fst (new_obj h x) = nxt h"
  "strs (snd (new_str h s)) = (strs h)(nxt h \<mapsto> \<lparr>s_refcount = 1, s_data = s\<rparr>)"
  "arrs (snd (new_str h s)) = arrs h" "objs (snd (new_str h s)) = objs h"
  "nxt (snd (new_str h s)) = Suc (nxt h)"
  "strs (snd (new_arr h a)) = strs h" "arrs (snd (new_arr h a)) = (arrs h)(nxt h \<mapsto> a)"
  "objs (snd (new_arr h a)) = objs h" "nxt (snd (new_arr h a)) = Suc (nxt h)"
  "strs (snd (new_obj h x)) = strs h" "arrs (snd (new_obj h x)) = arrs h"
  "objs (snd (new_obj h x)) = (objs h)(nxt h \<mapsto> x)" "nxt (snd (new_obj h x)) = Suc (nxt h)"
  by (simp_all add: new_defs)

lemma put_put [heap_simps]:
  "put_arr (put_arr h p a) p b = put_arr h p b" "put_obj (put_obj h p x) p y = put_obj h p y"
  "put_str (put_str h p s) p t = put_str h p t"
  by (simp_all add: put_defs)

lemma put_same [heap_simps]:
  "arrs h p = Some a \<Longrightarrow> put_arr h p a = h" "objs h p = Some x \<Longrightarrow> put_obj h p x = h"
  by (simp_all add: put_defs map_upd_triv)

lemma heap_ok_empty [simp]: "heap_ok empty_heap"
  by (simp add: heap_ok_def empty_heap_def)

lemma heap_ok_new [heap_simps]:
  "heap_ok h \<Longrightarrow> heap_ok (snd (new_str h s))"
  "heap_ok h \<Longrightarrow> heap_ok (snd (new_arr h a))"
  "heap_ok h \<Longrightarrow> heap_ok (snd (new_obj h x))"
  by (auto simp: heap_ok_def heap_simps)

lemma heap_ok_fresh:
  assumes "heap_ok h"
  shows "strs h (nxt h) = None" "arrs h (nxt h) = None" "objs h (nxt h) = None" "nxt h \<noteq> 0"
  using assms by (auto simp: heap_ok_def)

lemma heap_ok_dom:
  assumes "heap_ok h"
  shows "strs h p = Some s \<Longrightarrow> p < nxt h \<and> p \<noteq> 0"
    and "arrs h p = Some a \<Longrightarrow> p < nxt h \<and> p \<noteq> 0"
    and "objs h p = Some x \<Longrightarrow> p < nxt h \<and> p \<noteq> 0"
  using assms by (metis heap_ok_def not_le option.distinct(1))+

lemma heap_ok_put [heap_simps]:
  "heap_ok h \<Longrightarrow> strs h p \<noteq> None \<Longrightarrow> heap_ok (put_str h p s)"
  "heap_ok h \<Longrightarrow> arrs h p \<noteq> None \<Longrightarrow> heap_ok (put_arr h p a)"
  "heap_ok h \<Longrightarrow> objs h p \<noteq> None \<Longrightarrow> heap_ok (put_obj h p x)"
  "heap_ok h \<Longrightarrow> heap_ok (del_str h p)"
  by (auto simp: heap_ok_def put_defs intro!: Nat.gr0I)

lemma str_at_new [heap_simps]: "heap_ok h \<Longrightarrow> str_at (snd (new_str h s)) (nxt h) s"
  by (auto simp: str_at_def heap_simps heap_ok_def)

lemma str_at_new_other [heap_simps]:
  "heap_ok h \<Longrightarrow> str_at h p s \<Longrightarrow> str_at (snd (new_str h s')) p s"
  using heap_ok_fresh(1) [of h] by (auto simp: str_at_def heap_simps)

text \<open>The store only grew: everything that was there is still there, unchanged.\<close>

definition heap_ext :: "heap \<Rightarrow> heap \<Rightarrow> bool" where
  "heap_ext h h' \<longleftrightarrow> nxt h \<le> nxt h' \<and> strs h \<subseteq>\<^sub>m strs h' \<and> arrs h \<subseteq>\<^sub>m arrs h' \<and> objs h \<subseteq>\<^sub>m objs h'"

lemma heap_ext_refl [simp]: "heap_ext h h"
  by (simp add: heap_ext_def)

lemma heap_ext_trans: "heap_ext a b \<Longrightarrow> heap_ext b c \<Longrightarrow> heap_ext a c"
  by (auto simp: heap_ext_def intro: map_le_trans)

lemma heap_ext_new:
  assumes "heap_ok h"
  shows "heap_ext h (snd (new_str h s))" "heap_ext h (snd (new_arr h a))" "heap_ext h (snd (new_obj h x))"
  using heap_ok_fresh [OF assms] by (auto simp: heap_ext_def heap_simps map_le_def)

lemma str_at_ext: "heap_ext h h' \<Longrightarrow> str_at h p s \<Longrightarrow> str_at h' p s"
  by (auto simp: heap_ext_def str_at_def map_le_def dom_def)

end
