(* ===== verification/Ts_Gc.thy ===== *)
theory Ts_Gc
  imports Ts_Heap
begin

text \<open>
  \<^verbatim>\<open>runtime/src/gc.c\<close>: the tracked heap and its mark-and-sweep collector. The list of headers
  is kept in the order of the linked list \<^verbatim>\<open>g_heap\<close>; a header is named by the address of its
  payload, and the \<^verbatim>\<open>marked\<close> bytes are a map from these addresses. A payload is what the
  marker can see in it: the machine words it scans. The words of the registered root slots,
  of the static data and of the stack are given by an environment, since they belong to the
  running program. \<^verbatim>\<open>size_t\<close> counters are natural numbers.
\<close>

datatype gc_kind = GC_KIND_RAW | GC_KIND_STRING | GC_KIND_ARRAY | GC_KIND_HASHMAP | GC_KIND_CLOSURE | GC_KIND_PROMISE

subsection \<open>Objects\<close>

datatype payload =
  PString
| PArray "addr list"
| PHashmap "(addr \<times> addr list) option list"
| PClosure "addr list"
| PPromise "addr list" "addr list" "addr list" "addr list" addr
| PRaw "addr list"

record gc_header =
  h_addr :: addr
  h_size :: nat
  h_payload :: payload

definition GC_HDR_SIZE :: nat where
  "GC_HDR_SIZE = 24"

record gc_state =
  g_heap :: "gc_header list"
  g_bytes_live :: nat
  g_bytes_since_collect :: nat
  g_object_count :: nat
  g_threshold :: nat
  g_collect_count :: nat
  g_initialized :: bool
  g_collecting :: bool
  g_stack_bottom :: bool
  g_roots :: "addr list"

record gc_env =
  e_slot :: "addr \<Rightarrow> addr"
  e_static :: "addr list"
  e_stack :: "addr list"

definition GC_MAX_ROOTS :: nat where
  "GC_MAX_ROOTS = 256"

subsection \<open>Marking\<close>

definition ptr_in_object :: "gc_header \<Rightarrow> addr \<Rightarrow> bool" where
  "ptr_in_object h p \<longleftrightarrow> h_addr h \<le> p \<and> p < h_addr h + h_size h"

fun find_object :: "gc_header list \<Rightarrow> addr \<Rightarrow> gc_header option" where
  "find_object [] p = None"
| "find_object (h # hs) p =
    (if p = 0 then None
     else if h_addr h = p then Some h
     else if ptr_in_object h p then Some h
     else find_object hs p)"

text \<open>
  The words a payload is scanned for: nothing in a string, the stored elements of an array,
  key and value of every occupied entry, the captured variables, the four values and the
  chained promise, the whole of a raw object.
\<close>

fun payload_words :: "payload \<Rightarrow> addr list" where
  "payload_words PString = []"
| "payload_words (PArray ws) = ws"
| "payload_words (PHashmap es) =
     concat (map (\<lambda>e. case e of None \<Rightarrow> [] | Some (k, ws) \<Rightarrow> k # ws) es)"
| "payload_words (PClosure ws) = ws"
| "payload_words (PPromise r f j n t) = r @ f @ j @ n @ [t]"
| "payload_words (PRaw ws) = ws"

text \<open>
  \<^verbatim>\<open>scan_range\<close> and \<^verbatim>\<open>mark_object\<close> call each other; the fuel is the depth of the C recursion.
\<close>

fun scan_range :: "gc_header list \<Rightarrow> nat \<Rightarrow> addr list \<Rightarrow> (addr \<Rightarrow> bool) \<Rightarrow> (addr \<Rightarrow> bool) option"
and mark_object :: "gc_header list \<Rightarrow> nat \<Rightarrow> gc_header \<Rightarrow> (addr \<Rightarrow> bool) \<Rightarrow> (addr \<Rightarrow> bool) option" where
  "scan_range hs n [] mk = Some mk"
| "scan_range hs n (w # ws) mk = do {
     mk1 \<leftarrow> (case find_object hs w of
               None \<Rightarrow> Some mk
             | Some h \<Rightarrow> if mk (h_addr h) then Some mk else mark_object hs n h mk);
     scan_range hs n ws mk1 }"
| "mark_object hs 0 h mk = (if mk (h_addr h) then Some mk else None)"
| "mark_object hs (Suc n) h mk =
    (if mk (h_addr h) then Some mk
     else scan_range hs n (payload_words (h_payload h)) (mk(h_addr h := True)))"

subsection \<open>Heap operations\<close>

definition ts_gc_init :: "gc_state \<Rightarrow> gc_state" where
  "ts_gc_init s = (if g_initialized s then s else
     s\<lparr>g_initialized := True, g_heap := [], g_bytes_live := 0, g_bytes_since_collect := 0,
       g_object_count := 0, g_threshold := 4 * 1024 * 1024, g_collect_count := 0,
       g_roots := [], g_stack_bottom := False\<rparr>)"

definition ts_gc_set_stack_bottom :: "gc_state \<Rightarrow> bool \<Rightarrow> gc_state" where
  "ts_gc_set_stack_bottom s b = s\<lparr>g_stack_bottom := b\<rparr>"

definition ts_gc_set_threshold :: "gc_state \<Rightarrow> nat \<Rightarrow> gc_state" where
  "ts_gc_set_threshold s bytes =
     s\<lparr>g_threshold := (if bytes < 256 * 1024 then 256 * 1024 else bytes)\<rparr>"

definition ts_gc_add_root :: "gc_state \<Rightarrow> addr \<Rightarrow> gc_state" where
  "ts_gc_add_root s slot =
    (if slot = 0 then s
     else if length (g_roots s) < GC_MAX_ROOTS then s\<lparr>g_roots := g_roots s @ [slot]\<rparr> else s)"

text \<open>Removal moves the last root into the hole.\<close>

fun index_of_root :: "addr list \<Rightarrow> addr \<Rightarrow> nat option" where
  "index_of_root [] x = None"
| "index_of_root (r # rs) x = (if r = x then Some 0 else map_option Suc (index_of_root rs x))"

definition ts_gc_remove_root :: "gc_state \<Rightarrow> addr \<Rightarrow> gc_state" where
  "ts_gc_remove_root s slot =
    (if slot = 0 then s
     else case index_of_root (g_roots s) slot of
       None \<Rightarrow> s
     | Some i \<Rightarrow> s\<lparr>g_roots := butlast ((g_roots s)[i := last (g_roots s)])\<rparr>)"

text \<open>Unlink one header, with the guarded subtraction of its bytes.\<close>

definition free_header :: "gc_state \<Rightarrow> gc_header \<Rightarrow> gc_state" where
  "free_header s h = s\<lparr>
     g_heap := filter (\<lambda>k. h_addr k \<noteq> h_addr h) (g_heap s),
     g_bytes_live := (if g_bytes_live s \<ge> h_size h + GC_HDR_SIZE
                      then g_bytes_live s - (h_size h + GC_HDR_SIZE) else 0),
     g_object_count := (if g_object_count s > 0 then g_object_count s - 1 else g_object_count s)\<rparr>"

fun sweep :: "gc_header list \<Rightarrow> (addr \<Rightarrow> bool) \<Rightarrow> gc_state \<Rightarrow> gc_state" where
  "sweep [] mk s = s"
| "sweep (h # hs) mk s = sweep hs mk (if \<not> mk (h_addr h) then free_header s h else s)"

definition root_words :: "gc_state \<Rightarrow> gc_env \<Rightarrow> addr list" where
  "root_words s env = map (e_slot env) (g_roots s) @ e_static env @
     (if g_stack_bottom s then e_stack env else [])"

definition ts_gc_collect :: "gc_env \<Rightarrow> gc_state \<Rightarrow> gc_state option" where
  "ts_gc_collect env s0 =
    (let s = ts_gc_init s0 in
     if g_collecting s then Some s
     else do {
       mk \<leftarrow> scan_range (g_heap s) (length (g_heap s)) (root_words s env) (\<lambda>_. False);
       let s1 = sweep (g_heap s) mk s;
       let next_th = g_bytes_live s1 * 2;
       Some (s1\<lparr>g_bytes_since_collect := 0, g_collect_count := g_collect_count s1 + 1,
                g_threshold := (if next_th < 1024 * 1024 then 1024 * 1024 else next_th)\<rparr>) })"

definition ts_gc_maybe_collect :: "gc_env \<Rightarrow> gc_state \<Rightarrow> gc_state option" where
  "ts_gc_maybe_collect env s =
    (if g_bytes_since_collect s \<ge> g_threshold s then ts_gc_collect env s else Some s)"

definition ts_gc_maybe_collect_idle :: "gc_env \<Rightarrow> gc_state \<Rightarrow> gc_state option" where
  "ts_gc_maybe_collect_idle env s =
    (if g_bytes_since_collect s \<ge> g_threshold s div 4 \<and> g_bytes_since_collect s > 64 * 1024
     then ts_gc_collect env s else Some s)"

text \<open>A fresh payload is zeroed memory.\<close>

fun zero_payload :: "gc_kind \<Rightarrow> nat \<Rightarrow> payload" where
  "zero_payload GC_KIND_STRING n = PString"
| "zero_payload GC_KIND_ARRAY n = PArray []"
| "zero_payload GC_KIND_HASHMAP n = PHashmap []"
| "zero_payload GC_KIND_CLOSURE n = PClosure []"
| "zero_payload GC_KIND_PROMISE n = PPromise [0, 0] [0, 0] [0, 0] [0, 0] 0"
| "zero_payload GC_KIND_RAW n = PRaw (replicate (n div 8) 0)"

text \<open>
  Allocation; \<open>m1\<close> and \<open>m2\<close> are the payload addresses of what \<^verbatim>\<open>malloc\<close> returns at the first
  attempt and, after a collection, at the second (\<open>None\<close> for NULL).
\<close>

definition ts_gc_alloc_kind ::
  "gc_env \<Rightarrow> addr option \<Rightarrow> addr option \<Rightarrow> gc_state \<Rightarrow> nat \<Rightarrow> gc_kind \<Rightarrow> (addr option \<times> gc_state) option" where
  "ts_gc_alloc_kind env m1 m2 s0 sz kind = do {
     let s1 = ts_gc_init s0;
     s2 \<leftarrow> (if g_bytes_since_collect s1 \<ge> g_threshold s1 \<and> \<not> g_collecting s1
            then ts_gc_collect env s1 else Some s1);
     (p, s3) \<leftarrow> (case m1 of
         Some p \<Rightarrow> Some (Some p, s2)
       | None \<Rightarrow> if \<not> g_collecting s2 then do { s \<leftarrow> ts_gc_collect env s2; Some (m2, s) }
                 else Some (None, s2));
     case p of
       None \<Rightarrow> Some (None, s3)
     | Some a \<Rightarrow>
         (let total = GC_HDR_SIZE + sz in
          Some (Some a, s3\<lparr>
            g_heap := \<lparr>h_addr = a, h_size = sz, h_payload = zero_payload kind sz\<rparr> # g_heap s3,
            g_bytes_live := g_bytes_live s3 + total,
            g_bytes_since_collect := g_bytes_since_collect s3 + total,
            g_object_count := g_object_count s3 + 1\<rparr>)) }"

definition ts_gc_alloc ::
  "gc_env \<Rightarrow> addr option \<Rightarrow> addr option \<Rightarrow> gc_state \<Rightarrow> nat \<Rightarrow> (addr option \<times> gc_state) option" where
  "ts_gc_alloc env m1 m2 s sz = ts_gc_alloc_kind env m1 m2 s sz GC_KIND_RAW"

text \<open>The flag of the result: the pointer was not the heap's and went to plain \<^verbatim>\<open>free\<close>.\<close>

definition ts_gc_free_object :: "gc_state \<Rightarrow> addr \<Rightarrow> gc_state \<times> bool" where
  "ts_gc_free_object s p =
    (if p = 0 then (s, False)
     else case find (\<lambda>h. h_addr h = p) (g_heap s) of
       Some h \<Rightarrow> (free_header s h, False)
     | None \<Rightarrow> (s, True))"

definition ts_gc_is_managed :: "gc_state \<Rightarrow> addr \<Rightarrow> bool" where
  "ts_gc_is_managed s p \<longleftrightarrow> p \<noteq> 0 \<and> find_object (g_heap s) p \<noteq> None"


subsection \<open>Reachability\<close>

text \<open>
  The specification of the collector: the objects some root word points into, and those the
  scanned words of a reachable object point into.
\<close>

inductive gc_reach :: "gc_header list \<Rightarrow> addr list \<Rightarrow> addr \<Rightarrow> bool" for hs ws where
  root: "w \<in> set ws \<Longrightarrow> find_object hs w = Some h \<Longrightarrow> gc_reach hs ws (h_addr h)"
| step: "gc_reach hs ws (h_addr h) \<Longrightarrow> h \<in> set hs \<Longrightarrow> w \<in> set (payload_words (h_payload h)) \<Longrightarrow>
         find_object hs w = Some h' \<Longrightarrow> gc_reach hs ws (h_addr h')"

lemma find_object_in: "find_object hs p = Some h \<Longrightarrow> h \<in> set hs"
  by (induction hs) (auto split: if_splits)

lemma find_object_base: "h \<in> set hs \<Longrightarrow> find_object hs (h_addr h) = None \<Longrightarrow> h_addr h = 0"
  by (induction hs) (auto split: if_splits)

lemma gc_reach_mono: "gc_reach hs ws a \<Longrightarrow> set ws \<subseteq> set vs \<Longrightarrow> gc_reach hs vs a"
  by (induction rule: gc_reach.induct) (auto intro: gc_reach.intros)

lemma gc_reach_trans:
  assumes "gc_reach hs (payload_words (h_payload h)) a" "gc_reach hs ws (h_addr h)" "h \<in> set hs"
  shows "gc_reach hs ws a"
  using assms by (induction rule: gc_reach.induct) (auto intro: gc_reach.intros)

text \<open>What is left to mark, the measure of the recursion.\<close>

definition unmarked :: "gc_header list \<Rightarrow> (addr \<Rightarrow> bool) \<Rightarrow> nat" where
  "unmarked hs mk = card {a \<in> h_addr ` set hs. \<not> mk a}"

lemma unmarked_le: "unmarked hs mk \<le> length hs"
proof -
  have "unmarked hs mk \<le> card (h_addr ` set hs)"
    unfolding unmarked_def by (rule card_mono) auto
  also have "\<dots> \<le> card (set hs)" by (rule card_image_le) simp
  also have "\<dots> \<le> length hs" by (rule card_length)
  finally show ?thesis .
qed

lemma unmarked_mono: "mk \<le> mk' \<Longrightarrow> unmarked hs mk' \<le> unmarked hs mk"
  unfolding unmarked_def by (rule card_mono) (auto simp: le_fun_def)

lemma unmarked_upd:
  assumes "h \<in> set hs" "\<not> mk (h_addr h)"
  shows "unmarked hs mk = Suc (unmarked hs (mk(h_addr h := True)))"
proof -
  have "{a \<in> h_addr ` set hs. \<not> mk a} =
        insert (h_addr h) {a \<in> h_addr ` set hs. \<not> (mk(h_addr h := True)) a}"
    using assms by auto
  then show ?thesis unfolding unmarked_def by simp
qed

definition marked_children :: "gc_header list \<Rightarrow> gc_header \<Rightarrow> (addr \<Rightarrow> bool) \<Rightarrow> bool" where
  "marked_children hs h mk \<longleftrightarrow>
     (\<forall>w \<in> set (payload_words (h_payload h)). \<forall>k. find_object hs w = Some k \<longrightarrow> mk (h_addr k))"

text \<open>
  One call of the marker, from marks \<open>mk\<close> to marks \<open>mk'\<close>: marks only grow, a new mark is
  reachable from the words scanned, and a newly marked object has its children marked.
\<close>

definition mark_post :: "gc_header list \<Rightarrow> (addr \<Rightarrow> bool) \<Rightarrow> (addr \<Rightarrow> bool) \<Rightarrow> (addr \<Rightarrow> bool) \<Rightarrow> bool" where
  "mark_post hs R mk mk' \<longleftrightarrow> mk \<le> mk' \<and> (\<forall>a. mk' a \<longrightarrow> mk a \<or> R a) \<and>
     (\<forall>h \<in> set hs. mk' (h_addr h) \<longrightarrow> \<not> mk (h_addr h) \<longrightarrow> marked_children hs h mk')"

lemma marked_children_mono: "marked_children hs h mk \<Longrightarrow> mk \<le> mk' \<Longrightarrow> marked_children hs h mk'"
  by (auto simp: marked_children_def le_fun_def)

lemma mark_post_refl: "mark_post hs R mk mk"
  by (simp add: mark_post_def)

lemma mark_post_trans:
  assumes "mark_post hs R mk mk1" "mark_post hs R mk1 mk2"
  shows "mark_post hs R mk mk2"
proof -
  have le: "mk \<le> mk1" "mk1 \<le> mk2" using assms by (auto simp: mark_post_def)
  have "marked_children hs h mk2" if "h \<in> set hs" "mk2 (h_addr h)" "\<not> mk (h_addr h)" for h
    using assms that marked_children_mono[OF _ le(2)] unfolding mark_post_def by blast
  then show ?thesis using assms order_trans[OF le] unfolding mark_post_def by blast
qed

lemma mark_post_weaken:
  "mark_post hs R mk mk' \<Longrightarrow> (\<And>a. R a \<Longrightarrow> R' a) \<Longrightarrow> mark_post hs R' mk mk'"
  unfolding mark_post_def by blast

lemma mark_correct:
  shows "distinct (map h_addr hs) \<Longrightarrow> unmarked hs mk \<le> n \<Longrightarrow>
    \<exists>mk'. scan_range hs n ws mk = Some mk' \<and> mark_post hs (gc_reach hs ws) mk mk' \<and>
      (\<forall>w \<in> set ws. \<forall>k. find_object hs w = Some k \<longrightarrow> mk' (h_addr k))"
  and "distinct (map h_addr hs) \<Longrightarrow> unmarked hs mk \<le> n \<Longrightarrow> h \<in> set hs \<Longrightarrow>
    \<exists>mk'. mark_object hs n h mk = Some mk' \<and>
      mark_post hs (\<lambda>a. a = h_addr h \<or> gc_reach hs (payload_words (h_payload h)) a) mk mk' \<and>
      mk' (h_addr h)"
proof (induction hs n ws mk and hs n h mk rule: scan_range_mark_object.induct)
  case (1 hs n mk)
  then show ?case by (simp add: mark_post_refl)
next
  case (2 hs n w ws mk)
  define st where "st = (case find_object hs w of None \<Rightarrow> Some mk
    | Some h \<Rightarrow> if mk (h_addr h) then Some mk else mark_object hs n h mk)"
  have "\<exists>mk1. st = Some mk1 \<and> mark_post hs (gc_reach hs (w # ws)) mk mk1 \<and>
          (\<forall>k. find_object hs w = Some k \<longrightarrow> mk1 (h_addr k))"
  proof (cases "find_object hs w")
    case None
    then show ?thesis by (simp add: st_def mark_post_refl)
  next
    case (Some h)
    show ?thesis
    proof (cases "mk (h_addr h)")
      case True
      then show ?thesis using Some by (simp add: st_def mark_post_refl)
    next
      case False
      have hin: "h \<in> set hs" using Some by (rule find_object_in)
      obtain mk1 where m: "mark_object hs n h mk = Some mk1"
        "mark_post hs (\<lambda>a. a = h_addr h \<or> gc_reach hs (payload_words (h_payload h)) a) mk mk1"
        "mk1 (h_addr h)"
        using "2.IH"(1)[OF Some False "2.prems" hin] by blast
      have r: "gc_reach hs (w # ws) (h_addr h)" using Some by (auto intro: gc_reach.root)
      have "mark_post hs (gc_reach hs (w # ws)) mk mk1"
        by (rule mark_post_weaken[OF m(2)]) (auto intro: r gc_reach_trans[OF _ r hin])
      then show ?thesis using Some False m by (simp add: st_def)
    qed
  qed
  then obtain mk1 where s1: "st = Some mk1" "mark_post hs (gc_reach hs (w # ws)) mk mk1"
    "\<forall>k. find_object hs w = Some k \<longrightarrow> mk1 (h_addr k)" by blast
  have "mk \<le> mk1" using s1(2) by (simp add: mark_post_def)
  then have u: "unmarked hs mk1 \<le> n" using "2.prems"(2) unmarked_mono le_trans by blast
  obtain mk2 where s2: "scan_range hs n ws mk1 = Some mk2" "mark_post hs (gc_reach hs ws) mk1 mk2"
    "\<forall>w \<in> set ws. \<forall>k. find_object hs w = Some k \<longrightarrow> mk2 (h_addr k)"
    using "2.IH"(2)[OF s1(1)[unfolded st_def] "2.prems"(1) u] by blast
  have "mark_post hs (gc_reach hs (w # ws)) mk1 mk2"
    by (rule mark_post_weaken[OF s2(2)]) (auto intro: gc_reach_mono)
  then have "mark_post hs (gc_reach hs (w # ws)) mk mk2" using s1(2) mark_post_trans by blast
  moreover have "scan_range hs n (w # ws) mk = Some mk2"
    using s1(1) s2(1) by (simp add: st_def)
  moreover have "mk1 \<le> mk2" using s2(2) by (simp add: mark_post_def)
  ultimately show ?case using s1(3) s2(3) by (auto simp: le_fun_def)
next
  case (3 hs h mk)
  have "mk (h_addr h)"
    using 3 unfolding unmarked_def by auto
  then show ?case by (simp add: mark_post_refl)
next
  case (4 hs n h mk)
  show ?case
  proof (cases "mk (h_addr h)")
    case True
    then show ?thesis by (simp add: mark_post_refl)
  next
    case False
    let ?mk = "mk(h_addr h := True)"
    have u: "unmarked hs ?mk \<le> n"
      using unmarked_upd[of h hs mk] "4.prems" False by simp
    obtain mk' where s: "scan_range hs n (payload_words (h_payload h)) ?mk = Some mk'"
      "mark_post hs (gc_reach hs (payload_words (h_payload h))) ?mk mk'"
      "\<forall>w \<in> set (payload_words (h_payload h)). \<forall>k. find_object hs w = Some k \<longrightarrow> mk' (h_addr k)"
      using "4.IH"[OF False "4.prems"(1) u] by blast
    have same: "k = h" if "k \<in> set hs" "h_addr k = h_addr h" for k
      using that "4.prems"(1,3) by (auto simp: distinct_map inj_on_def)
    have "marked_children hs h mk'" using s(3) by (simp add: marked_children_def)
    then have "mark_post hs (\<lambda>a. a = h_addr h \<or> gc_reach hs (payload_words (h_payload h)) a) mk mk'"
      using s(2) same unfolding mark_post_def by (auto simp: le_fun_def split: if_splits)
    moreover have "mk' (h_addr h)" using s(2) by (auto simp: mark_post_def le_fun_def)
    ultimately show ?thesis using s(1) False by simp
  qed
qed

lemma scan_roots_reach:
  assumes "distinct (map h_addr hs)"
  shows "\<exists>mk. scan_range hs (length hs) ws (\<lambda>_. False) = Some mk \<and> (\<forall>a. mk a \<longleftrightarrow> gc_reach hs ws a)"
proof -
  obtain mk where m: "scan_range hs (length hs) ws (\<lambda>_. False) = Some mk"
    "mark_post hs (gc_reach hs ws) (\<lambda>_. False) mk"
    "\<forall>w \<in> set ws. \<forall>k. find_object hs w = Some k \<longrightarrow> mk (h_addr k)"
    using mark_correct(1)[OF assms unmarked_le] by blast
  have "mk a" if "gc_reach hs ws a" for a
    using that
  proof (induction rule: gc_reach.induct)
    case (root w h)
    then show ?case using m(3) by blast
  next
    case (step h w h')
    then have "marked_children hs h mk" using m(2) by (simp add: mark_post_def)
    then show ?case using step.hyps by (auto simp: marked_children_def)
  qed
  then show ?thesis using m(1,2) by (auto simp: mark_post_def)
qed


subsection \<open>The invariant of the tracked heap\<close>

text \<open>
  Payload addresses lie above their header, are distinct and do not overlap; the byte and
  object counters agree with the list.
\<close>

definition h_total :: "gc_header \<Rightarrow> nat" where
  "h_total h = h_size h + GC_HDR_SIZE"

definition h_disjoint :: "gc_header \<Rightarrow> gc_header \<Rightarrow> bool" where
  "h_disjoint h k \<longleftrightarrow> h_addr h + h_size h \<le> h_addr k - GC_HDR_SIZE \<or>
                     h_addr k + h_size k \<le> h_addr h - GC_HDR_SIZE"

definition gc_inv :: "gc_state \<Rightarrow> bool" where
  "gc_inv s \<longleftrightarrow> sorted_wrt h_disjoint (g_heap s) \<and> (\<forall>h \<in> set (g_heap s). GC_HDR_SIZE \<le> h_addr h) \<and>
     g_bytes_live s = sum_list (map h_total (g_heap s)) \<and> g_object_count s = length (g_heap s) \<and>
     length (g_roots s) \<le> GC_MAX_ROOTS"

lemma h_disjoint_sym: "h_disjoint h k \<Longrightarrow> h_disjoint k h"
  by (auto simp: h_disjoint_def)

lemma h_disjoint_addr:
  "h_disjoint h k \<Longrightarrow> GC_HDR_SIZE \<le> h_addr h \<Longrightarrow> GC_HDR_SIZE \<le> h_addr k \<Longrightarrow> h_addr h \<noteq> h_addr k"
  by (auto simp: h_disjoint_def GC_HDR_SIZE_def)

lemma disjoint_distinct:
  "sorted_wrt h_disjoint hs \<Longrightarrow> \<forall>h \<in> set hs. GC_HDR_SIZE \<le> h_addr h \<Longrightarrow> distinct (map h_addr hs)"
proof (induction hs)
  case (Cons h hs)
  have "h_addr h \<noteq> h_addr k" if "k \<in> set hs" for k
    using Cons.prems that by (intro h_disjoint_addr) auto
  then show ?case using Cons by auto
qed simp

lemma gc_inv_distinct: "gc_inv s \<Longrightarrow> distinct (map h_addr (g_heap s))"
  by (simp add: gc_inv_def disjoint_distinct)

lemma gc_inv_init [intro]: "gc_inv s \<Longrightarrow> gc_inv (ts_gc_init s)"
  by (simp add: gc_inv_def ts_gc_init_def)

lemma sum_list_remove:
  assumes "distinct (map h_addr hs)" "h \<in> set hs"
  shows "sum_list (map h_total hs) =
           h_total h + sum_list (map h_total (filter (\<lambda>k. h_addr k \<noteq> h_addr h) hs)) \<and>
         length hs = Suc (length (filter (\<lambda>k. h_addr k \<noteq> h_addr h) hs))"
  using assms
proof (induction hs)
  case (Cons k hs)
  show ?case
  proof (cases "k = h")
    case True
    then have "filter (\<lambda>k. h_addr k \<noteq> h_addr h) hs = hs"
      using Cons.prems by (intro filter_True) (auto simp: image_iff eq_commute)
    then show ?thesis using True by simp
  next
    case False
    then have "h \<in> set hs" "h_addr k \<noteq> h_addr h" using Cons.prems by auto
    then show ?thesis using Cons by simp
  qed
qed simp

lemma free_header_sel [simp]:
  "g_heap (free_header s h) = filter (\<lambda>k. h_addr k \<noteq> h_addr h) (g_heap s)"
  "g_roots (free_header s h) = g_roots s"
  "g_collecting (free_header s h) = g_collecting s"
  "g_initialized (free_header s h) = g_initialized s"
  "g_stack_bottom (free_header s h) = g_stack_bottom s"
  "g_collect_count (free_header s h) = g_collect_count s"
  "g_bytes_since_collect (free_header s h) = g_bytes_since_collect s"
  "g_threshold (free_header s h) = g_threshold s"
  by (simp_all add: free_header_def)

lemma free_header_inv:
  assumes "gc_inv s" "h \<in> set (g_heap s)"
  shows "gc_inv (free_header s h)"
  using sum_list_remove[OF gc_inv_distinct[OF assms(1)] assms(2)] assms(1)
  by (auto simp: gc_inv_def free_header_def h_total_def sorted_wrt_filter)

lemma sweep_sel [simp]:
  "g_roots (sweep hs mk s) = g_roots s"
  "g_collecting (sweep hs mk s) = g_collecting s"
  "g_initialized (sweep hs mk s) = g_initialized s"
  "g_stack_bottom (sweep hs mk s) = g_stack_bottom s"
  "g_collect_count (sweep hs mk s) = g_collect_count s"
  by (induction hs mk s rule: sweep.induct) auto

lemma sweep_heap_gen:
  "g_heap (sweep hs mk s) = filter (\<lambda>k. mk (h_addr k) \<or> h_addr k \<notin> h_addr ` set hs) (g_heap s)"
proof (induction hs mk s rule: sweep.induct)
  case (2 h hs mk s)
  show ?case
    by (auto simp: 2 intro!: filter_cong)
qed simp

lemma sweep_heap: "g_heap (sweep (g_heap s) mk s) = filter (\<lambda>k. mk (h_addr k)) (g_heap s)"
  by (auto simp: sweep_heap_gen intro!: filter_cong)

lemma sweep_inv:
  assumes "gc_inv s" "distinct (map h_addr hs)" "set hs \<subseteq> set (g_heap s)"
  shows "gc_inv (sweep hs mk s)"
  using assms
proof (induction hs mk s rule: sweep.induct)
  case (2 h hs mk s)
  have "set hs \<subseteq> set (g_heap (if \<not> mk (h_addr h) then free_header s h else s))"
    using "2.prems" by (auto simp: image_iff)
  moreover have "gc_inv (if \<not> mk (h_addr h) then free_header s h else s)"
    using "2.prems" by (simp add: free_header_inv)
  ultimately show ?case using 2 by simp
qed simp

definition live :: "gc_env \<Rightarrow> gc_state \<Rightarrow> addr \<Rightarrow> bool" where
  "live env s a \<longleftrightarrow> gc_reach (g_heap s) (root_words s env) a"

lemma ts_gc_init_id [simp]: "g_initialized s \<Longrightarrow> ts_gc_init s = s"
  by (simp add: ts_gc_init_def)

lemma ts_gc_init_collecting [simp]: "g_collecting (ts_gc_init s) = g_collecting s"
  by (simp add: ts_gc_init_def)

lemma collect_ok:
  assumes "gc_inv s0" "\<not> g_collecting s0"
  shows "\<exists>s'. ts_gc_collect env s0 = Some s' \<and> gc_inv s' \<and>
     g_heap s' = filter (\<lambda>h. live env (ts_gc_init s0) (h_addr h)) (g_heap (ts_gc_init s0)) \<and>
     g_bytes_since_collect s' = 0 \<and> g_collect_count s' = Suc (g_collect_count (ts_gc_init s0)) \<and>
     g_threshold s' = max (1024 * 1024) (2 * g_bytes_live s') \<and>
     g_roots s' = g_roots (ts_gc_init s0) \<and> g_collecting s' = g_collecting s0"
proof -
  let ?s = "ts_gc_init s0"
  have i: "gc_inv ?s" using assms by auto
  obtain mk where m: "scan_range (g_heap ?s) (length (g_heap ?s)) (root_words ?s env) (\<lambda>_. False) = Some mk"
    "\<forall>a. mk a \<longleftrightarrow> gc_reach (g_heap ?s) (root_words ?s env) a"
    using scan_roots_reach[OF gc_inv_distinct[OF i]] by blast
  have "gc_inv (sweep (g_heap ?s) mk ?s)"
    using i by (intro sweep_inv gc_inv_distinct) auto
  moreover have "g_heap (sweep (g_heap ?s) mk ?s) =
      filter (\<lambda>h. live env ?s (h_addr h)) (g_heap ?s)"
    by (simp add: sweep_heap live_def m(2))
  ultimately show ?thesis using m(1) assms(2)
    by (simp add: ts_gc_collect_def Let_def gc_inv_def max_def mult.commute)
qed


subsection \<open>Every run of the heap keeps the invariant\<close>

text \<open>
  What \<^verbatim>\<open>malloc\<close> promises: the block it returns overlaps no block still allocated. The other
  blocks are those behind the new head of the list.
\<close>

definition block_free :: "gc_header list \<Rightarrow> addr \<Rightarrow> nat \<Rightarrow> bool" where
  "block_free hs a sz \<longleftrightarrow> GC_HDR_SIZE \<le> a \<and>
     (\<forall>h \<in> set hs. a + sz \<le> h_addr h - GC_HDR_SIZE \<or> h_addr h + h_size h \<le> a - GC_HDR_SIZE)"

text \<open>The running program writes into the payload of an object.\<close>

definition write_payload :: "gc_state \<Rightarrow> addr \<Rightarrow> payload \<Rightarrow> gc_state" where
  "write_payload s a p =
     s\<lparr>g_heap := map (\<lambda>h. if h_addr h = a then h\<lparr>h_payload := p\<rparr> else h) (g_heap s)\<rparr>"

inductive gc_step :: "gc_state \<Rightarrow> gc_state \<Rightarrow> bool" where
  alloc: "ts_gc_alloc_kind env m1 m2 s sz k = Some (Some a, s') \<Longrightarrow>
          block_free (tl (g_heap s')) a sz \<Longrightarrow> gc_step s s'"
| alloc_fail: "ts_gc_alloc_kind env m1 m2 s sz k = Some (None, s') \<Longrightarrow> gc_step s s'"
| free: "gc_step s (fst (ts_gc_free_object s p))"
| collect: "ts_gc_collect env s = Some s' \<Longrightarrow> gc_step s s'"
| maybe: "ts_gc_maybe_collect env s = Some s' \<Longrightarrow> gc_step s s'"
| idle: "ts_gc_maybe_collect_idle env s = Some s' \<Longrightarrow> gc_step s s'"
| add_root: "gc_step s (ts_gc_add_root s r)"
| remove_root: "gc_step s (ts_gc_remove_root s r)"
| threshold: "gc_step s (ts_gc_set_threshold s n)"
| bottom: "gc_step s (ts_gc_set_stack_bottom s b)"
| init: "gc_step s (ts_gc_init s)"
| put: "gc_step s (write_payload s a p)"

definition gc_start :: gc_state where
  "gc_start = \<lparr>g_heap = [], g_bytes_live = 0, g_bytes_since_collect = 0, g_object_count = 0,
     g_threshold = 4 * 1024 * 1024, g_collect_count = 0, g_initialized = False,
     g_collecting = False, g_stack_bottom = False, g_roots = []\<rparr>"

definition gc_idle_inv :: "gc_state \<Rightarrow> bool" where
  "gc_idle_inv s \<longleftrightarrow> gc_inv s \<and> \<not> g_collecting s"

lemma collect_inv:
  "gc_idle_inv s \<Longrightarrow> ts_gc_collect env s = Some s' \<Longrightarrow> gc_idle_inv s'"
  using collect_ok[of s env] by (auto simp: gc_idle_inv_def)

lemma push_header_inv:
  assumes "gc_inv s" "block_free (g_heap s) a sz"
  shows "gc_inv (s\<lparr>g_heap := \<lparr>h_addr = a, h_size = sz, h_payload = p\<rparr> # g_heap s,
            g_bytes_live := g_bytes_live s + (GC_HDR_SIZE + sz),
            g_bytes_since_collect := b, g_object_count := g_object_count s + 1\<rparr>)"
  using assms by (auto simp: gc_inv_def block_free_def h_disjoint_def h_total_def)

lemma alloc_inv:
  assumes i: "gc_idle_inv s" and r: "ts_gc_alloc_kind env m1 m2 s sz k = Some (q, s')"
    and f: "\<And>a. q = Some a \<Longrightarrow> block_free (tl (g_heap s')) a sz"
  shows "gc_idle_inv s'"
proof -
  let ?s1 = "ts_gc_init s"
  have i1: "gc_idle_inv ?s1" using i by (auto simp: gc_idle_inv_def)
  have c: "\<exists>s'. ts_gc_collect env t = Some s' \<and> gc_idle_inv s'" if "gc_idle_inv t" for t
    using collect_ok[of t env] that unfolding gc_idle_inv_def by blast
  obtain s2 where s2: "(if g_bytes_since_collect ?s1 \<ge> g_threshold ?s1 \<and> \<not> g_collecting ?s1
            then ts_gc_collect env ?s1 else Some ?s1) = Some s2" "gc_idle_inv s2"
    using i1 c[OF i1] by (cases "g_bytes_since_collect ?s1 \<ge> g_threshold ?s1 \<and> \<not> g_collecting ?s1") auto
  have n2: "\<not> g_collecting s2" using s2(2) by (simp add: gc_idle_inv_def)
  obtain s3 where s3: "(case m1 of Some p \<Rightarrow> Some (Some p, s2)
       | None \<Rightarrow> if \<not> g_collecting s2 then do { s \<leftarrow> ts_gc_collect env s2; Some (m2, s) }
                 else Some (None, s2)) = Some (if m1 = None then m2 else m1, s3)" "gc_idle_inv s3"
    using s2(2) c[OF s2(2)] n2 by (cases m1) auto
  have e: "(case (if m1 = None then m2 else m1) of
       None \<Rightarrow> Some (None, s3)
     | Some a \<Rightarrow> Some (Some a, s3\<lparr>
            g_heap := \<lparr>h_addr = a, h_size = sz, h_payload = zero_payload k sz\<rparr> # g_heap s3,
            g_bytes_live := g_bytes_live s3 + (GC_HDR_SIZE + sz),
            g_bytes_since_collect := g_bytes_since_collect s3 + (GC_HDR_SIZE + sz),
            g_object_count := g_object_count s3 + 1\<rparr>)) = Some (q, s')"
    using r unfolding ts_gc_alloc_kind_def Let_def by (simp only: s2(1) s3(1) bind.simps prod.case)
  show ?thesis
  proof (cases "if m1 = None then m2 else m1")
    case None
    then show ?thesis using e s3(2) by simp
  next
    case (Some a)
    then have "block_free (g_heap s3) a sz" using e f by (auto split: if_splits)
    then show ?thesis
      using push_header_inv[of s3 a sz] s3(2) e Some by (auto simp: gc_idle_inv_def)
  qed
qed

lemma write_inv: "gc_inv s \<Longrightarrow> gc_inv (write_payload s a p)"
proof -
  assume i: "gc_inv s"
  let ?f = "\<lambda>h. if h_addr h = a then h\<lparr>h_payload := p\<rparr> else h"
  have t: "h_total (?f h) = h_total h" "h_addr (?f h) = h_addr h" for h
    by (auto simp: h_total_def)
  have d: "h_disjoint (?f h) (?f k) = h_disjoint h k" for h k
    by (auto simp: h_disjoint_def)
  have "sorted_wrt h_disjoint (map ?f (g_heap s))"
    using i by (simp only: sorted_wrt_map d gc_inv_def)
  moreover have "map h_total (map ?f (g_heap s)) = map h_total (g_heap s)"
    by (simp only: map_map o_def t)
  moreover have "\<forall>h \<in> set (map ?f (g_heap s)). GC_HDR_SIZE \<le> h_addr h"
    using i by (auto simp: gc_inv_def)
  moreover have "gc_inv (write_payload s a p) \<longleftrightarrow>
      sorted_wrt h_disjoint (map ?f (g_heap s)) \<and> (\<forall>h \<in> set (map ?f (g_heap s)). GC_HDR_SIZE \<le> h_addr h) \<and>
      g_bytes_live s = sum_list (map h_total (map ?f (g_heap s))) \<and>
      g_object_count s = length (g_heap s) \<and> length (g_roots s) \<le> GC_MAX_ROOTS"
    by (simp add: gc_inv_def write_payload_def del: map_map set_map)
  ultimately show "gc_inv (write_payload s a p)"
    using i by (simp only: gc_inv_def)
qed

lemma remove_root_length: "length (g_roots (ts_gc_remove_root s r)) \<le> length (g_roots s)"
  by (simp add: ts_gc_remove_root_def split: option.split)

lemma gc_step_inv: "gc_step s s' \<Longrightarrow> gc_idle_inv s \<Longrightarrow> gc_idle_inv s'"
proof (induction rule: gc_step.induct)
  case (alloc env m1 m2 s sz k a s')
  show ?case by (rule alloc_inv[OF alloc.prems alloc.hyps(1)]) (use alloc.hyps(2) in simp)
next
  case (alloc_fail env m1 m2 s sz k s')
  show ?case by (rule alloc_inv[OF alloc_fail.prems alloc_fail.hyps(1)]) simp
next
  case (free s p)
  then show ?case
    by (auto simp: ts_gc_free_object_def gc_idle_inv_def find_Some_iff in_set_conv_nth
             split: option.split intro!: free_header_inv)
next
  case (add_root s r)
  then show ?case by (auto simp: ts_gc_add_root_def gc_idle_inv_def gc_inv_def)
next
  case (remove_root s r)
  moreover have "g_heap (ts_gc_remove_root s r) = g_heap s"
    "g_bytes_live (ts_gc_remove_root s r) = g_bytes_live s"
    "g_object_count (ts_gc_remove_root s r) = g_object_count s"
    "g_collecting (ts_gc_remove_root s r) = g_collecting s"
    by (simp_all add: ts_gc_remove_root_def split: option.split)
  ultimately show ?case using remove_root_length[of s r]
    by (auto simp: gc_idle_inv_def gc_inv_def)
next
  case (put s a p)
  then show ?case using write_inv[of s a p] by (simp add: gc_idle_inv_def write_payload_def)
qed (auto simp: ts_gc_maybe_collect_def ts_gc_maybe_collect_idle_def split: if_splits
     intro: collect_inv,
     auto simp: gc_idle_inv_def gc_inv_def ts_gc_set_threshold_def ts_gc_set_stack_bottom_def ts_gc_init_def)

lemma gc_run_inv: "gc_step\<^sup>*\<^sup>* gc_start s \<Longrightarrow> gc_idle_inv s"
proof (induction rule: rtranclp_induct)
  case base
  show ?case by (simp add: gc_idle_inv_def gc_inv_def gc_start_def)
qed (rule gc_step_inv)

text \<open>Freeing an object that is on the list removes that object only.\<close>

lemma free_object_ok:
  assumes "gc_inv s" "h \<in> set (g_heap s)" "h_addr h = p"
  shows "ts_gc_free_object s p = (free_header s h, False)"
proof -
  have p: "p \<noteq> 0" using assms by (auto simp: gc_inv_def GC_HDR_SIZE_def)
  obtain k where k: "find (\<lambda>h. h_addr h = p) (g_heap s) = Some k"
    using assms by (cases "find (\<lambda>h. h_addr h = p) (g_heap s)") (auto simp: find_None_iff)
  then have "k \<in> set (g_heap s)" "h_addr k = p" by (auto simp: find_Some_iff)
  then have "k = h"
    using gc_inv_distinct[OF assms(1)] assms by (auto simp: distinct_map inj_on_def)
  then show ?thesis using k p by (simp add: ts_gc_free_object_def)
qed

subsection \<open>Properties\<close>

text \<open>C1. A collection returns, and what stays on the heap is exactly, and in the order it
  had, the objects reachable from the registered roots, the static data and the stack: no
  reachable object is freed and no unreachable one survives.\<close>

theorem ts_gc_collect_exact:
  assumes "gc_step\<^sup>*\<^sup>* gc_start s"
  shows "\<exists>s'. ts_gc_collect env s = Some s' \<and>
    g_heap s' = filter (\<lambda>h. gc_reach (g_heap (ts_gc_init s)) (root_words (ts_gc_init s) env) (h_addr h))
      (g_heap (ts_gc_init s)) \<and>
    g_threshold s' = max (1024 * 1024) (2 * g_bytes_live s')"
  using collect_ok[of s env] gc_run_inv[OF assms] by (auto simp: gc_idle_inv_def live_def)

text \<open>C2. In every state the heap can get into, its blocks do not overlap, the live-byte
  counter is the sum of the block sizes with their headers, the object counter is the length
  of the list and at most 256 roots are registered; so the guarded subtractions of the code
  never clamp.\<close>

theorem gc_run_invariant:
  assumes "gc_step\<^sup>*\<^sup>* gc_start s"
  shows "distinct (map h_addr (g_heap s)) \<and> sorted_wrt h_disjoint (g_heap s) \<and>
    g_bytes_live s = sum_list (map h_total (g_heap s)) \<and>
    g_object_count s = length (g_heap s) \<and> length (g_roots s) \<le> GC_MAX_ROOTS"
  using gc_run_inv[OF assms] gc_inv_distinct[of s] by (auto simp: gc_idle_inv_def gc_inv_def)


subsection \<open>A concrete run\<close>

text \<open>Two strings are allocated and the static data point to the first only.\<close>

definition demo_env :: gc_env where
  "demo_env = \<lparr>e_slot = (\<lambda>_. 0), e_static = [1000], e_stack = []\<rparr>"

definition demo_one :: gc_state where
  "demo_one = \<lparr>g_heap = [\<lparr>h_addr = 1000, h_size = 16, h_payload = PString\<rparr>],
     g_bytes_live = 40, g_bytes_since_collect = 40, g_object_count = 1,
     g_threshold = 4 * 1024 * 1024, g_collect_count = 0, g_initialized = True,
     g_collecting = False, g_stack_bottom = False, g_roots = []\<rparr>"

definition demo_two :: gc_state where
  "demo_two = demo_one\<lparr>g_heap := \<lparr>h_addr = 2000, h_size = 8, h_payload = PString\<rparr> # g_heap demo_one,
     g_bytes_live := 72, g_bytes_since_collect := 72, g_object_count := 2\<rparr>"

lemma demo_run: "gc_step\<^sup>*\<^sup>* gc_start demo_two"
proof -
  have "ts_gc_alloc_kind demo_env (Some 1000) None gc_start 16 GC_KIND_STRING = Some (Some 1000, demo_one)"
    by (simp add: ts_gc_alloc_kind_def gc_start_def ts_gc_init_def demo_one_def GC_HDR_SIZE_def
        Let_def)
  then have "gc_step gc_start demo_one"
    by (rule gc_step.alloc) (simp add: block_free_def demo_one_def GC_HDR_SIZE_def)
  moreover have "ts_gc_alloc_kind demo_env (Some 2000) None demo_one 8 GC_KIND_STRING = Some (Some 2000, demo_two)"
    by (simp add: ts_gc_alloc_kind_def demo_two_def demo_one_def GC_HDR_SIZE_def Let_def)
  then have "gc_step demo_one demo_two"
    by (rule gc_step.alloc) (simp add: block_free_def demo_two_def demo_one_def GC_HDR_SIZE_def)
  ultimately show ?thesis by (meson rtranclp.simps)
qed

lemma demo_collect:
  "map_option (\<lambda>s. map h_addr (g_heap s)) (ts_gc_collect demo_env demo_two) = Some [1000]"
  by (simp add: ts_gc_collect_def demo_env_def demo_two_def demo_one_def root_words_def
      ptr_in_object_def free_header_def GC_HDR_SIZE_def Let_def)

lemma ts_gc_collect_exact_witness:
  "\<exists>s'. ts_gc_collect demo_env demo_two = Some s' \<and> map h_addr (g_heap s') = [1000] \<and>
    g_threshold s' = max (1024 * 1024) (2 * g_bytes_live s')"
  using ts_gc_collect_exact[OF demo_run, of demo_env] demo_collect by auto

lemma gc_run_invariant_witness:
  "length (g_heap demo_two) = 2 \<and> g_bytes_live demo_two = sum_list (map h_total (g_heap demo_two)) \<and>
   distinct (map h_addr (g_heap demo_two))"
  using gc_run_invariant[OF demo_run] by (simp add: demo_two_def demo_one_def)

end
