(* ===== verification/Ts_String.thy ===== *)
theory Ts_String
  imports Ts_Heap
begin

text \<open>
  \<^verbatim>\<open>runtime/src/string_ops.c\<close>: the operations on \<^verbatim>\<open>TSString\<close>. Each takes the store and the
  addresses of its strings and returns the address of its result with the new store, or
  \<open>None\<close> where the C is undefined (a dangling or unchecked NULL pointer, an \<^verbatim>\<open>int32_t\<close> length
  that overflows). A guarded NULL is a branch of the model, as in the source.
\<close>

subsection \<open>Construction\<close>

definition ts_string_new_len :: "heap \<Rightarrow> string \<Rightarrow> int \<Rightarrow> (addr \<times> heap) option" where
  "ts_string_new_len h d len =
    (let n = (if len < 0 then 0 else nat len) in
     if n \<le> length d then Some (new_str h (take n d)) else None)"

definition ts_string_new :: "heap \<Rightarrow> string \<Rightarrow> (addr \<times> heap) option" where
  "ts_string_new h s = do { n \<leftarrow> ck32 (strlen s); ts_string_new_len h (cstr s) n }"

text \<open>\<^verbatim>\<open>a && a->data ? ... : empty\<close>\<close>

definition data_or_empty :: "heap \<Rightarrow> addr \<Rightarrow> string option" where
  "data_or_empty h p = (if p = 0 then Some [] else str_data h p)"

definition ts_string_concat :: "heap \<Rightarrow> addr \<Rightarrow> addr \<Rightarrow> (addr \<times> heap) option" where
  "ts_string_concat h a b = do {
     x \<leftarrow> data_or_empty h a;
     y \<leftarrow> data_or_empty h b;
     totalLen \<leftarrow> ck32 (int (length x) + int (length y));
     ts_string_new_len h (x @ y) totalLen }"

subsection \<open>Release and append\<close>

definition ts_string_free :: "heap \<Rightarrow> addr \<Rightarrow> heap option" where
  "ts_string_free h p =
    (if p = 0 then Some h
     else do {
       s \<leftarrow> strs h p;
       let n = s_refcount s - 1;
       Some (if n \<le> 0 then del_str h p else put_str h p (s\<lparr>s_refcount := n\<rparr>)) })"

definition ts_string_append :: "heap \<Rightarrow> addr \<Rightarrow> addr \<Rightarrow> (addr \<times> heap) option" where
  "ts_string_append h a b = do {
     y \<leftarrow> data_or_empty h b;
     if y = [] then Some (a, h)
     else do {
       x \<leftarrow> data_or_empty h a;
       if x = [] then do {
         h1 \<leftarrow> ts_string_free h a;
         z \<leftarrow> data_or_empty h1 b;
         ts_string_new_len h1 z (int (length z)) }
       else do {
         totalLen \<leftarrow> ck32 (int (length x) + int (length y));
         s \<leftarrow> strs h a;
         if s_refcount s = 1 then
           (if a = b then None else Some (a, put_str h a (s\<lparr>s_data := x @ y\<rparr>)))
         else do {
           h1 \<leftarrow> ts_string_free h a;
           ts_string_new_len h1 (x @ y) totalLen } } } }"

definition ts_string_append_char :: "heap \<Rightarrow> addr \<Rightarrow> char \<Rightarrow> (addr \<times> heap) option" where
  "ts_string_append_char h a c = do {
     x \<leftarrow> data_or_empty h a;
     if x = [] then do {
       h1 \<leftarrow> ts_string_free h a;
       ts_string_new_len h1 [c] 1 }
     else do {
       totalLen \<leftarrow> ck32 (int (length x) + 1);
       s \<leftarrow> strs h a;
       if s_refcount s = 1 then Some (a, put_str h a (s\<lparr>s_data := x @ [c]\<rparr>))
       else do {
         h1 \<leftarrow> ts_string_free h a;
         ts_string_new_len h1 (x @ [c]) totalLen } } }"

subsection \<open>Queries\<close>

definition ts_string_equals :: "heap \<Rightarrow> addr \<Rightarrow> addr \<Rightarrow> bool option" where
  "ts_string_equals h a b = do {
     x \<leftarrow> str_data h a;
     y \<leftarrow> str_data h b;
     if length x \<noteq> length y then Some False else Some (x = y) }"

definition ts_number_to_string :: "heap \<Rightarrow> dbl \<Rightarrow> (addr \<times> heap) option" where
  "ts_number_to_string h n = ts_string_new h (fmt_g n)"

definition ts_string_char_at :: "heap \<Rightarrow> addr \<Rightarrow> int \<Rightarrow> char option" where
  "ts_string_char_at h p index = do {
     x \<leftarrow> str_data h p;
     if index < 0 \<or> index \<ge> int (length x) then Some NUL else Some (x ! nat index) }"

definition ts_string_repeat :: "heap \<Rightarrow> addr \<Rightarrow> int \<Rightarrow> (addr \<times> heap) option" where
  "ts_string_repeat h p count =
    (if p = 0 \<or> count \<le> 0 then ts_string_new h []
     else do {
       x \<leftarrow> str_data h p;
       totalLen \<leftarrow> ck32 (int (length x) * count);
       ts_string_new_len h (concat (replicate (nat count) x)) totalLen })"

definition ts_string_index_of :: "heap \<Rightarrow> addr \<Rightarrow> addr \<Rightarrow> int option" where
  "ts_string_index_of h haystack needle =
    (if haystack = 0 \<or> needle = 0 then Some (- 1)
     else do {
       x \<leftarrow> str_data h haystack;
       y \<leftarrow> str_data h needle;
       Some (case strstr (cstr x) (cstr y) of None \<Rightarrow> - 1 | Some i \<Rightarrow> int i) })"

definition ts_string_includes :: "heap \<Rightarrow> addr \<Rightarrow> addr \<Rightarrow> bool option" where
  "ts_string_includes h haystack needle =
    (if haystack = 0 \<or> needle = 0 then Some False
     else do {
       x \<leftarrow> str_data h haystack;
       y \<leftarrow> str_data h needle;
       Some (strstr (cstr x) (cstr y) \<noteq> None) })"

definition ts_string_starts_with :: "heap \<Rightarrow> addr \<Rightarrow> addr \<Rightarrow> bool option" where
  "ts_string_starts_with h s p =
    (if s = 0 \<or> p = 0 then Some False
     else do {
       x \<leftarrow> str_data h s;
       y \<leftarrow> str_data h p;
       if length y > length x then Some False else Some (take (length y) x = y) })"

definition ts_string_ends_with :: "heap \<Rightarrow> addr \<Rightarrow> addr \<Rightarrow> bool option" where
  "ts_string_ends_with h s p =
    (if s = 0 \<or> p = 0 then Some False
     else do {
       x \<leftarrow> str_data h s;
       y \<leftarrow> str_data h p;
       if length y > length x then Some False else Some (drop (length x - length y) x = y) })"

subsection \<open>Derived strings\<close>

definition ts_string_substring :: "heap \<Rightarrow> addr \<Rightarrow> int \<Rightarrow> int \<Rightarrow> (addr \<times> heap) option" where
  "ts_string_substring h p start end =
    (if p = 0 then ts_string_new h []
     else do {
       x \<leftarrow> str_data h p;
       let st = (if start < 0 then 0 else start);
       let en = (if end > int (length x) then int (length x) else end);
       if st \<ge> en then ts_string_new h []
       else ts_string_new_len h (drop (nat st) x) (en - st) })"

definition to_lower_char :: "char \<Rightarrow> char" where
  "to_lower_char c = (if 65 \<le> (of_char c :: nat) \<and> (of_char c :: nat) \<le> 90
                      then char_of ((of_char c :: nat) + 32) else c)"

definition to_upper_char :: "char \<Rightarrow> char" where
  "to_upper_char c = (if 97 \<le> (of_char c :: nat) \<and> (of_char c :: nat) \<le> 122
                      then char_of ((of_char c :: nat) - 32) else c)"

definition ts_string_to_lower :: "heap \<Rightarrow> addr \<Rightarrow> (addr \<times> heap) option" where
  "ts_string_to_lower h p =
    (if p = 0 then ts_string_new h []
     else do {
       x \<leftarrow> str_data h p;
       ts_string_new_len h (map to_lower_char x) (int (length x)) })"

definition ts_string_to_upper :: "heap \<Rightarrow> addr \<Rightarrow> (addr \<times> heap) option" where
  "ts_string_to_upper h p =
    (if p = 0 then ts_string_new h []
     else do {
       x \<leftarrow> str_data h p;
       ts_string_new_len h (map to_upper_char x) (int (length x)) })"

text \<open>The two scanning loops of \<^verbatim>\<open>ts_string_trim\<close>.\<close>

fun trim_start :: "string \<Rightarrow> nat \<Rightarrow> nat \<Rightarrow> nat" where
  "trim_start x 0 start = start"
| "trim_start x (Suc k) start = (if is_ws (x ! start) then trim_start x k (Suc start) else start)"

fun trim_end :: "string \<Rightarrow> nat \<Rightarrow> nat \<Rightarrow> nat" where
  "trim_end x start 0 = 0"
| "trim_end x start (Suc e) =
     (if Suc e > start \<and> is_ws (x ! e) then trim_end x start e else Suc e)"

definition ts_string_trim :: "heap \<Rightarrow> addr \<Rightarrow> (addr \<times> heap) option" where
  "ts_string_trim h p =
    (if p = 0 then ts_string_new h []
     else do {
       x \<leftarrow> str_data h p;
       let start = trim_start x (length x) 0;
       let end = trim_end x start (length x);
       ts_string_substring h p (int start) (int end) })"

definition ts_string_replace :: "heap \<Rightarrow> addr \<Rightarrow> addr \<Rightarrow> addr \<Rightarrow> (addr \<times> heap) option" where
  "ts_string_replace h s search replacement =
    (if s = 0 then ts_string_new h []
     else do {
       x \<leftarrow> str_data h s;
       y \<leftarrow> data_or_empty h search;
       if y = [] then ts_string_new_len h x (int (length x))
       else do {
         z \<leftarrow> data_or_empty h replacement;
         case strstr (cstr x) (cstr y) of
           None \<Rightarrow> ts_string_new_len h x (int (length x))
         | Some prefixLen \<Rightarrow>
             (if length x < prefixLen + length y then None
              else do {
                totalLen \<leftarrow> ck32 (int prefixLen + int (length z) +
                              (int (length x) - int prefixLen - int (length y)));
                ts_string_new_len h
                  (take prefixLen x @ z @ drop (prefixLen + length y) x) totalLen }) } })"

subsection \<open>Contracts\<close>

text \<open>
  For live arguments each operation returns a fresh string with the expected bytes and leaves
  the rest of the store alone; \<open>str_ops\<close> collects these equations, by which the components
  above compute with string contents.
\<close>

named_theorems str_ops \<open>what the string operations return for live arguments\<close>

lemma data_or_empty_at [simp]: "str_at h p s \<Longrightarrow> data_or_empty h p = Some s"
  by (simp add: data_or_empty_def str_at_nonnull)

lemma data_or_empty_NULL [simp]: "data_or_empty h 0 = Some []"
  by (simp add: data_or_empty_def)

lemma ts_string_new_len_full [str_ops, simp]:
  "ts_string_new_len h s (int (length s)) = Some (new_str h s)"
  by (simp add: ts_string_new_len_def)

lemma ts_string_new_len_take [str_ops]:
  "0 \<le> n \<Longrightarrow> n \<le> int (length s) \<Longrightarrow> ts_string_new_len h s n = Some (new_str h (take (nat n) s))"
  by (auto simp: ts_string_new_len_def Let_def)

lemma ts_string_new_eq [str_ops]:
  "NUL \<notin> set s \<Longrightarrow> int (length s) \<le> int32_max \<Longrightarrow> ts_string_new h s = Some (new_str h s)"
  by (simp add: ts_string_new_def strlen_def cstr_id fits32I)

lemma ts_string_new_Nil [str_ops, simp]: "ts_string_new h [] = Some (new_str h [])"
  by (rule ts_string_new_eq) (simp_all add: int32_max_def)

lemma ts_string_concat_eq [str_ops]:
  assumes "data_or_empty h a = Some x" "data_or_empty h b = Some y"
    and "int (length x) + int (length y) \<le> int32_max"
  shows "ts_string_concat h a b = Some (new_str h (x @ y))"
  using assms ts_string_new_len_full [of h "x @ y"]
  by (simp add: ts_string_concat_def fits32I del: ts_string_new_len_full)

lemma ts_string_concat_overflow:
  assumes "data_or_empty h a = Some x" "data_or_empty h b = Some y"
    and "int (length x) + int (length y) > int32_max"
  shows "ts_string_concat h a b = None"
  using assms by (simp add: ts_string_concat_def ck32_def fits32_def)

lemma ts_string_free_rc1 [str_ops]:
  "p \<noteq> 0 \<Longrightarrow> strs h p = Some s \<Longrightarrow> s_refcount s \<le> 1 \<Longrightarrow> ts_string_free h p = Some (del_str h p)"
  by (simp add: ts_string_free_def)

lemma ts_string_free_shared [str_ops]:
  "p \<noteq> 0 \<Longrightarrow> strs h p = Some s \<Longrightarrow> 1 < s_refcount s \<Longrightarrow>
   ts_string_free h p = Some (put_str h p (s\<lparr>s_refcount := s_refcount s - 1\<rparr>))"
  by (simp add: ts_string_free_def)

lemma ts_string_free_NULL [str_ops, simp]: "ts_string_free h 0 = Some h"
  by (simp add: ts_string_free_def)

lemma ts_string_free_dangling: "p \<noteq> 0 \<Longrightarrow> strs h p = None \<Longrightarrow> ts_string_free h p = None"
  by (simp add: ts_string_free_def)

lemma ts_string_free_new [str_ops]:
  assumes "heap_ok h"
  shows "ts_string_free (snd (new_str h s)) (nxt h) = Some (h\<lparr>nxt := Suc (nxt h)\<rparr>)"
proof -
  have "strs h = (strs h)(nxt h := None)" using heap_ok_fresh(1) [OF assms] by (auto simp: fun_eq_iff)
  then show ?thesis
    using heap_ok_fresh(4) [OF assms]
    by (simp add: ts_string_free_def new_str_def del_str_def)
qed

lemma ts_string_equals_eq [str_ops]:
  "str_data h a = Some x \<Longrightarrow> str_data h b = Some y \<Longrightarrow> ts_string_equals h a b = Some (x = y)"
  by (auto simp: ts_string_equals_def)

lemma ts_string_substring_eq [str_ops]:
  assumes "str_at h p x" "0 \<le> st" "st \<le> en" "en \<le> int (length x)"
  shows "ts_string_substring h p st en = Some (new_str h (take (nat (en - st)) (drop (nat st) x)))"
  using assms by (auto simp: ts_string_substring_def str_at_nonnull ts_string_new_len_take nat_diff_distrib)

subsection \<open>Trimming\<close>

text \<open>The reference: drop the leading and the trailing blanks.\<close>

definition trim_spec :: "string \<Rightarrow> string" where
  "trim_spec x = rev (dropWhile is_ws (rev (dropWhile is_ws x)))"

lemma trim_start_eq:
  "st + k = length x \<Longrightarrow> trim_start x k st = st + length (takeWhile is_ws (drop st x))"
proof (induction x k st rule: trim_start.induct)
  case (2 x k st)
  then have "drop st x = x ! st # drop (Suc st) x" by (simp add: Cons_nth_drop_Suc)
  with 2 show ?case by auto
qed simp

lemma trim_end_eq:
  "st \<le> e \<Longrightarrow> e \<le> length x \<Longrightarrow>
   drop st (take (trim_end x st e) x) = rev (dropWhile is_ws (rev (drop st (take e x)))) \<and>
   st \<le> trim_end x st e \<and> trim_end x st e \<le> e"
proof (induction x st e rule: trim_end.induct)
  case (2 x st e)
  show ?case
  proof (cases "st \<le> e")
    case True
    then have *: "drop st (take (Suc e) x) = drop st (take e x) @ [x ! e]"
      using "2.prems" by (simp add: take_Suc_conv_app_nth)
    show ?thesis using 2 True by (auto simp: *)
  next
    case False
    with "2.prems" have "st = Suc e" by simp
    then show ?thesis by simp
  qed
qed simp

lemma ts_string_trim_eq [str_ops]:
  assumes "str_at h p x"
  shows "ts_string_trim h p = Some (new_str h (trim_spec x))"
proof -
  define st where "st = trim_start x (length x) 0"
  define en where "en = trim_end x st (length x)"
  have st: "st = length (takeWhile is_ws x)" by (simp add: st_def trim_start_eq)
  then have le: "st \<le> length x" by (simp add: length_takeWhile_le)
  have dr: "drop st x = dropWhile is_ws x" by (simp add: st dropWhile_eq_drop)
  from trim_end_eq [OF le order_refl]
  have en: "drop st (take en x) = trim_spec x" "st \<le> en" "en \<le> length x"
    by (simp_all add: en_def trim_spec_def dr)
  have "ts_string_trim h p = ts_string_substring h p (int st) (int en)"
    using assms by (simp add: ts_string_trim_def str_at_nonnull st_def en_def Let_def)
  also have "\<dots> = Some (new_str h (take (en - st) (drop st x)))"
    using assms en by (subst ts_string_substring_eq) (auto simp: nat_diff_distrib)
  finally show ?thesis using en by (simp add: take_drop)
qed

subsection \<open>Search and replace\<close>

definition replace_spec :: "string \<Rightarrow> string \<Rightarrow> string \<Rightarrow> string" where
  "replace_spec x y z = (if y = [] then x else
     case strstr x y of None \<Rightarrow> x | Some i \<Rightarrow> take i x @ z @ drop (i + length y) x)"

lemma ts_string_replace_eq [str_ops]:
  assumes "str_at h s x" "str_at h p y" "str_at h r z"
    and "NUL \<notin> set x" "NUL \<notin> set y"
    and "int (length x) + int (length z) \<le> int32_max"
  shows "ts_string_replace h s p r = Some (new_str h (replace_spec x y z))"
proof (cases "y = [] \<or> strstr x y = None")
  case True
  then show ?thesis
    using assms by (auto simp: ts_string_replace_def replace_spec_def str_at_nonnull cstr_id)
next
  case False
  then obtain i where i: "strstr x y = Some i" and y: "y \<noteq> []" by auto
  from strstr_Some [OF i] have le: "i + length y \<le> length x" by simp
  let ?res = "take i x @ z @ drop (i + length y) x"
  have len: "int i + int (length z) + (int (length x) - int i - int (length y)) = int (length ?res)"
    using le by simp
  have "fits32 (int (length ?res))"
    using assms(6) le by (intro fits32I) auto
  then have "ts_string_replace h s p r = ts_string_new_len h ?res (int (length ?res))"
    using assms(1-5) i y le
    by (simp add: ts_string_replace_def str_at_nonnull cstr_id len del: ts_string_new_len_full)
  also have "\<dots> = Some (new_str h ?res)" by (rule ts_string_new_len_full)
  finally show ?thesis using i y by (simp add: replace_spec_def)
qed

lemma ts_string_index_of_eq [str_ops]:
  assumes "str_at h s x" "str_at h p y" "NUL \<notin> set x" "NUL \<notin> set y"
  shows "ts_string_index_of h s p = Some (case strstr x y of None \<Rightarrow> - 1 | Some i \<Rightarrow> int i)"
  using assms by (simp add: ts_string_index_of_def str_at_nonnull cstr_id)

lemma ts_string_includes_eq [str_ops]:
  assumes "str_at h s x" "str_at h p y" "NUL \<notin> set x" "NUL \<notin> set y"
  shows "ts_string_includes h s p = Some (sublist y x)"
  using assms by (simp add: ts_string_includes_def str_at_nonnull cstr_id strstr_None)

lemma ts_string_starts_with_eq [str_ops]:
  assumes "str_at h s x" "str_at h p y"
  shows "ts_string_starts_with h s p = Some (prefix y x)"
  using assms
  by (auto simp: ts_string_starts_with_def str_at_nonnull prefix_def dest: sym)
     (metis append_take_drop_id)

lemma ts_string_ends_with_eq [str_ops]:
  assumes "str_at h s x" "str_at h p y"
  shows "ts_string_ends_with h s p = Some (suffix y x)"
  using assms
  by (auto simp: ts_string_ends_with_def str_at_nonnull suffix_def)
     (metis append_take_drop_id)

lemma ts_string_repeat_eq [str_ops]:
  assumes "str_at h p x" "0 \<le> n" "int (length x) * n \<le> int32_max"
  shows "ts_string_repeat h p n = Some (new_str h (concat (replicate (nat n) x)))"
proof (cases "n = 0")
  case False
  have "length (concat (replicate k x)) = length x * k" for k
    by (induction k) auto
  then have "int (length x) * n = int (length (concat (replicate (nat n) x)))"
    using assms by simp
  moreover have "fits32 (int (length x) * n)" using assms by (intro fits32I) auto
  ultimately show ?thesis
    using assms False by (simp add: ts_string_repeat_def str_at_nonnull)
qed (use assms in \<open>simp add: ts_string_repeat_def\<close>)

subsection \<open>Append\<close>

text \<open>
  Sole owner: the buffer grows in place and the address is kept. Shared: a fresh copy is
  returned and the count of the old string drops.
\<close>

lemma ts_string_append_owner [str_ops]:
  assumes "strs h a = Some s" "a \<noteq> 0" "s_refcount s = 1" "s_data s \<noteq> []"
    and "str_at h b y" "a \<noteq> b" "int (length (s_data s)) + int (length y) \<le> int32_max"
  shows "ts_string_append h a b = Some (a, put_str h a (s\<lparr>s_data := s_data s @ y\<rparr>))"
proof (cases "y = []")
  case True
  then have "put_str h a (s\<lparr>s_data := s_data s @ y\<rparr>) = h"
    using assms by (simp add: put_str_def map_upd_triv)
  then show ?thesis using assms True by (simp add: ts_string_append_def)
next
  case False
  then show ?thesis
    using assms by (simp add: ts_string_append_def data_or_empty_def [of h a] str_data_def [of h a] fits32I)
qed

lemma ts_string_append_shared [str_ops]:
  assumes "strs h a = Some s" "a \<noteq> 0" "1 < s_refcount s" "s_data s \<noteq> []" "y \<noteq> []"
    and "str_at h b y" "int (length (s_data s)) + int (length y) \<le> int32_max"
  shows "ts_string_append h a b =
    Some (new_str (put_str h a (s\<lparr>s_refcount := s_refcount s - 1\<rparr>)) (s_data s @ y))"
proof -
  have "ts_string_new_len g (s_data s @ y) (int (length (s_data s)) + int (length y)) =
      Some (new_str g (s_data s @ y))" for g
    using ts_string_new_len_full [of g "s_data s @ y"] by (simp del: ts_string_new_len_full)
  then show ?thesis
    using assms
    by (simp add: ts_string_append_def data_or_empty_def [of h a] str_data_def [of h a] fits32I
        ts_string_free_shared)
qed

text \<open>
  Appending a string to itself reads the old buffer after \<^verbatim>\<open>realloc\<close> has released it.
\<close>

lemma ts_string_append_self:
  assumes "strs h a = Some s" "a \<noteq> 0" "s_refcount s = 1" "s_data s \<noteq> []"
  shows "ts_string_append h a a = None"
  using assms by (simp add: ts_string_append_def data_or_empty_def str_data_def bind_eq_None_conv)

end
