(* ===== verification/Ts_Array.thy ===== *)
theory Ts_Array
  imports Ts_String
begin

text \<open>
  \<^verbatim>\<open>runtime/src/array_ops.c\<close> and the splitting of a string into an array. The operations on
  one \<^verbatim>\<open>TSArray\<close> are functions on its record, buffer and capacity included; those that call
  back into the program, compare strings or allocate work on the store. \<open>arr_vals\<close> is the
  list an array stands for, \<open>arr_ok\<close> the invariant that ties length, capacity and buffer.
\<close>

definition INITIAL_CAPACITY :: int where
  "INITIAL_CAPACITY = 16"

definition arr_vals :: "'v tsarray \<Rightarrow> 'v list" where
  "arr_vals a = map the (take (nat (a_length a)) (a_items a))"

definition arr_ok :: "'v tsarray \<Rightarrow> bool" where
  "arr_ok a \<longleftrightarrow> 0 \<le> a_length a \<and> a_length a \<le> a_capacity a \<and> 0 < a_capacity a \<and>
     a_capacity a \<le> int32_max \<and> a_capacity a = int (length (a_items a)) \<and>
     None \<notin> set (take (nat (a_length a)) (a_items a))"

subsection \<open>Operations on one array\<close>

definition ts_array_new :: "'v tsarray" where
  "ts_array_new = \<lparr>a_refcount = 1, a_length = 0, a_capacity = INITIAL_CAPACITY,
     a_items = replicate (nat INITIAL_CAPACITY) None\<rparr>"

text \<open>\<^verbatim>\<open>realloc\<close> of the buffer: the old slots are kept, new ones hold nothing yet.\<close>

definition realloc_items :: "'v option list \<Rightarrow> int \<Rightarrow> 'v option list" where
  "realloc_items xs n = take (nat n) xs @ replicate (nat n - length xs) None"

definition write_item :: "'v option list \<Rightarrow> int \<Rightarrow> 'v \<Rightarrow> 'v option list option" where
  "write_item xs i v = (if 0 \<le> i \<and> i < int (length xs) then Some (xs[nat i := Some v]) else None)"

definition read_item :: "'v option list \<Rightarrow> int \<Rightarrow> 'v option" where
  "read_item xs i = (if 0 \<le> i \<and> i < int (length xs) then xs ! nat i else None)"

text \<open>\<^verbatim>\<open>memmove\<close> inside one buffer and \<^verbatim>\<open>memcpy\<close> into it.\<close>

definition blit :: "'a list \<Rightarrow> int \<Rightarrow> int \<Rightarrow> int \<Rightarrow> 'a list option" where
  "blit xs dst src n =
    (if 0 \<le> n \<and> 0 \<le> src \<and> 0 \<le> dst \<and> src + n \<le> int (length xs) \<and> dst + n \<le> int (length xs)
     then Some (take (nat dst) xs @ take (nat n) (drop (nat src) xs) @ drop (nat (dst + n)) xs)
     else None)"

definition copy_in :: "'a list \<Rightarrow> int \<Rightarrow> 'a list \<Rightarrow> 'a list option" where
  "copy_in xs dst ys =
    (if 0 \<le> dst \<and> dst + int (length ys) \<le> int (length xs)
     then Some (take (nat dst) xs @ ys @ drop (nat dst + length ys) xs) else None)"

definition ts_array_from_values :: "'v list \<Rightarrow> 'v tsarray option" where
  "ts_array_from_values vs = do {
     count \<leftarrow> ck32 (int (length vs));
     let cap = (if count > INITIAL_CAPACITY then count else INITIAL_CAPACITY);
     items \<leftarrow> copy_in (realloc_items (a_items ts_array_new) cap) 0 (map Some vs);
     Some (ts_array_new\<lparr>a_length := count, a_capacity := cap, a_items := items\<rparr>) }"

definition ts_array_push :: "'v tsarray \<Rightarrow> 'v \<Rightarrow> 'v tsarray option" where
  "ts_array_push a v = do {
     cap \<leftarrow> (if a_length a \<ge> a_capacity a then ck32 (a_capacity a * 2) else Some (a_capacity a));
     let xs = (if a_length a \<ge> a_capacity a then realloc_items (a_items a) cap else a_items a);
     xs' \<leftarrow> write_item xs (a_length a) v;
     Some (a\<lparr>a_length := a_length a + 1, a_capacity := cap, a_items := xs'\<rparr>) }"

definition ts_array_get :: "tsvalue tsarray \<Rightarrow> int \<Rightarrow> tsvalue option" where
  "ts_array_get a i =
    (if i < 0 \<or> i \<ge> a_length a then Some ts_value_undefined else read_item (a_items a) i)"

definition ts_array_set :: "'v tsarray \<Rightarrow> int \<Rightarrow> 'v \<Rightarrow> 'v tsarray option" where
  "ts_array_set a i v =
    (if i \<ge> 0 \<and> i < a_length a
     then do { xs \<leftarrow> write_item (a_items a) i v; Some (a\<lparr>a_items := xs\<rparr>) }
     else Some a)"

definition ts_array_pop :: "tsvalue tsarray \<Rightarrow> (tsvalue \<times> tsvalue tsarray) option" where
  "ts_array_pop a =
    (if a_length a = 0 then Some (ts_value_undefined, a)
     else do {
       v \<leftarrow> read_item (a_items a) (a_length a - 1);
       Some (v, a\<lparr>a_length := a_length a - 1\<rparr>) })"

definition ts_array_splice :: "'v tsarray \<Rightarrow> int \<Rightarrow> int \<Rightarrow> 'v list \<Rightarrow> 'v tsarray option" where
  "ts_array_splice a start0 deleteCount0 items = do {
     let start1 = (if start0 < 0 then 0 else start0);
     let start = (if start1 > a_length a then a_length a else start1);
     let deleteCount = (if deleteCount0 > a_length a - start then a_length a - start else deleteCount0);
     newLen \<leftarrow> ck32 (a_length a - deleteCount + int (length items));
     let cap = (if newLen > a_capacity a then newLen else a_capacity a);
     let xs = (if newLen > a_capacity a then realloc_items (a_items a) cap else a_items a);
     xs1 \<leftarrow> blit xs (start + int (length items)) (start + deleteCount)
                   (a_length a - start - deleteCount);
     xs2 \<leftarrow> copy_in xs1 start (map Some items);
     Some (a\<lparr>a_length := newLen, a_capacity := cap, a_items := xs2\<rparr>) }"

subsection \<open>Arrays in the store\<close>

definition arr_push_at :: "heap \<Rightarrow> addr \<Rightarrow> tsvalue \<Rightarrow> heap option" where
  "arr_push_at h p v = do { a \<leftarrow> arrs h p; a' \<leftarrow> ts_array_push a v; Some (put_arr h p a') }"

definition ts_array_free :: "heap \<Rightarrow> addr \<Rightarrow> heap option" where
  "ts_array_free h p =
    (if p = 0 then Some h
     else do {
       a \<leftarrow> arrs h p;
       let n = a_refcount a - 1;
       Some (if n \<le> 0 then del_arr h p else put_arr h p (a\<lparr>a_refcount := n\<rparr>)) })"

text \<open>Elements are compared by number, string contents or boolean; any null matches a null.\<close>

fun same_value :: "heap \<Rightarrow> tsvalue \<Rightarrow> tsvalue \<Rightarrow> bool option" where
  "same_value h (VNumber x) (VNumber y) = Some (deq x y)"
| "same_value h (VString p) (VString q) = ts_string_equals h p q"
| "same_value h (VBoolean x) (VBoolean y) = Some (x = y)"
| "same_value h VNull VNull = Some True"
| "same_value h _ _ = Some False"

fun index_of_from :: "heap \<Rightarrow> tsvalue option list \<Rightarrow> tsvalue \<Rightarrow> int \<Rightarrow> int option" where
  "index_of_from h [] v i = Some (- 1)"
| "index_of_from h (None # xs) v i = None"
| "index_of_from h (Some x # xs) v i = do {
     b \<leftarrow> same_value h x v;
     if b then Some i else index_of_from h xs v (i + 1) }"

definition ts_array_index_of :: "heap \<Rightarrow> tsvalue tsarray \<Rightarrow> tsvalue \<Rightarrow> int option" where
  "ts_array_index_of h a v = index_of_from h (take (nat (a_length a)) (a_items a)) v 0"

subsection \<open>Operations with a callback\<close>

text \<open>
  The callbacks are code of the compiled program: a parameter that may change the store. The
  loops read the length and the elements anew at every turn, so a callback that keeps pushing
  onto the array it runs over makes them run for ever: \<open>partial_function\<close>, \<open>None\<close> when the
  loop does not return.
\<close>

type_synonym 'r callback = "tsvalue \<Rightarrow> heap \<Rightarrow> ('r \<times> heap) option"

partial_function (option) filter_loop ::
  "bool callback \<Rightarrow> addr \<Rightarrow> addr \<Rightarrow> int \<Rightarrow> heap \<Rightarrow> heap option" where
  "filter_loop f p r i h = do {
     a \<leftarrow> arrs h p;
     if i < a_length a then do {
       v \<leftarrow> read_item (a_items a) i;
       (b, h1) \<leftarrow> f v h;
       h2 \<leftarrow> (if b then do {
                 a1 \<leftarrow> arrs h1 p;
                 w \<leftarrow> read_item (a_items a1) i;
                 arr_push_at h1 r w }
              else Some h1);
       filter_loop f p r (i + 1) h2 }
     else Some h }"

definition ts_array_filter :: "bool callback \<Rightarrow> heap \<Rightarrow> addr \<Rightarrow> (addr \<times> heap) option" where
  "ts_array_filter f h p = do {
     let (r, h1) = new_arr h ts_array_new;
     h2 \<leftarrow> filter_loop f p r 0 h1;
     Some (r, h2) }"

partial_function (option) map_loop ::
  "tsvalue callback \<Rightarrow> addr \<Rightarrow> addr \<Rightarrow> int \<Rightarrow> heap \<Rightarrow> heap option" where
  "map_loop f p r i h = do {
     a \<leftarrow> arrs h p;
     if i < a_length a then do {
       v \<leftarrow> read_item (a_items a) i;
       (w, h1) \<leftarrow> f v h;
       h2 \<leftarrow> arr_push_at h1 r w;
       map_loop f p r (i + 1) h2 }
     else Some h }"

definition ts_array_map :: "tsvalue callback \<Rightarrow> heap \<Rightarrow> addr \<Rightarrow> (addr \<times> heap) option" where
  "ts_array_map f h p = do {
     let (r, h1) = new_arr h ts_array_new;
     h2 \<leftarrow> map_loop f p r 0 h1;
     Some (r, h2) }"

text \<open>
  \<^verbatim>\<open>some\<close>, \<^verbatim>\<open>every\<close> and \<^verbatim>\<open>find\<close> share one loop: the index of the first element whose predicate
  equals \<open>want\<close>.
\<close>

partial_function (option) search_loop ::
  "bool callback \<Rightarrow> bool \<Rightarrow> addr \<Rightarrow> int \<Rightarrow> heap \<Rightarrow> (int option \<times> heap) option" where
  "search_loop f want p i h = do {
     a \<leftarrow> arrs h p;
     if i < a_length a then do {
       v \<leftarrow> read_item (a_items a) i;
       (b, h1) \<leftarrow> f v h;
       if b = want then Some (Some i, h1) else search_loop f want p (i + 1) h1 }
     else Some (None, h) }"

definition ts_array_some :: "bool callback \<Rightarrow> heap \<Rightarrow> addr \<Rightarrow> (bool \<times> heap) option" where
  "ts_array_some f h p = do { (r, h1) \<leftarrow> search_loop f True p 0 h; Some (r \<noteq> None, h1) }"

definition ts_array_every :: "bool callback \<Rightarrow> heap \<Rightarrow> addr \<Rightarrow> (bool \<times> heap) option" where
  "ts_array_every f h p = do { (r, h1) \<leftarrow> search_loop f False p 0 h; Some (r = None, h1) }"

definition ts_array_find :: "bool callback \<Rightarrow> heap \<Rightarrow> addr \<Rightarrow> (tsvalue \<times> heap) option" where
  "ts_array_find f h p = do {
     (r, h1) \<leftarrow> search_loop f True p 0 h;
     case r of
       None \<Rightarrow> Some (ts_value_undefined, h1)
     | Some i \<Rightarrow> do { a \<leftarrow> arrs h1 p; v \<leftarrow> read_item (a_items a) i; Some (v, h1) } }"

partial_function (option) reduce_loop ::
  "(tsvalue \<Rightarrow> tsvalue callback) \<Rightarrow> addr \<Rightarrow> int \<Rightarrow> tsvalue \<Rightarrow> heap \<Rightarrow> (tsvalue \<times> heap) option" where
  "reduce_loop f p i acc h = do {
     a \<leftarrow> arrs h p;
     if i < a_length a then do {
       v \<leftarrow> read_item (a_items a) i;
       (acc', h1) \<leftarrow> f acc v h;
       reduce_loop f p (i + 1) acc' h1 }
     else Some (acc, h) }"

definition ts_array_reduce ::
  "(tsvalue \<Rightarrow> tsvalue callback) \<Rightarrow> heap \<Rightarrow> addr \<Rightarrow> tsvalue \<Rightarrow> (tsvalue \<times> heap) option" where
  "ts_array_reduce f h p initialValue = reduce_loop f p 0 initialValue h"

definition ts_array_foreach :: "unit callback \<Rightarrow> heap \<Rightarrow> addr \<Rightarrow> heap option" where
  "ts_array_foreach f h p = do {
     (_, h1) \<leftarrow> reduce_loop (\<lambda>_ v h. do { (_, h') \<leftarrow> f v h; Some (VNull, h') }) p 0 VNull h;
     Some h1 }"

subsection \<open>Splitting a string\<close>

text \<open>
  The segments between the occurrences of a separator: \<open>strstr\<close> on the rest of the string is
  the inner loop, the first \<open>i \<ge> start\<close> at which \<^verbatim>\<open>memcmp\<close> finds the separator.
\<close>

function split_loop :: "string \<Rightarrow> string \<Rightarrow> nat \<Rightarrow> string list" where
  "split_loop x sep start =
    (if start \<le> length x \<and> sep \<noteq> [] then
       (case strstr (drop start x) sep of
          None \<Rightarrow> [drop start x]
        | Some i \<Rightarrow> take i (drop start x) # split_loop x sep (start + i + length sep))
     else [])"
  by pat_completeness auto
termination
  by (relation "measure (\<lambda>(x, sep, start). Suc (length x) - start)") (auto dest!: strstr_Some simp flip: length_greater_0_conv)

declare split_loop.simps [simp del]

definition split_segs :: "string \<Rightarrow> string \<Rightarrow> string list" where
  "split_segs x sep = (if x = [] then [[]]
     else if sep = [] then map (\<lambda>c. [c]) x
     else split_loop x sep 0)"

definition push_str :: "addr \<Rightarrow> heap \<Rightarrow> string \<Rightarrow> heap option" where
  "push_str r h s = do {
     (p, h1) \<leftarrow> ts_string_new_len h s (int (length s));
     arr_push_at h1 r (VString p) }"

definition ts_string_split :: "heap \<Rightarrow> addr \<Rightarrow> addr \<Rightarrow> (addr \<times> heap) option" where
  "ts_string_split h s separator = do {
     let (r, h1) = new_arr h ts_array_new;
     x \<leftarrow> data_or_empty h1 s;
     sep \<leftarrow> data_or_empty h1 separator;
     h2 \<leftarrow> foldo (push_str r) h1 (split_segs x sep);
     Some (r, h2) }"

subsection \<open>What the operations do to the list\<close>

lemma arr_ok_new [simp]: "arr_ok ts_array_new"
  by (simp add: arr_ok_def ts_array_new_def INITIAL_CAPACITY_def int32_max_def)

lemma arr_vals_new [simp]: "arr_vals ts_array_new = []"
  by (simp add: arr_vals_def ts_array_new_def)

lemma length_arr_vals: "arr_ok a \<Longrightarrow> int (length (arr_vals a)) = a_length a"
  by (auto simp: arr_vals_def arr_ok_def min_def)

lemma read_item_arr:
  assumes "arr_ok a" "0 \<le> i" "i < a_length a"
  shows "read_item (a_items a) i = Some (arr_vals a ! nat i)"
proof -
  have n: "nat i < nat (a_length a)" "nat i < length (a_items a)" using assms by (auto simp: arr_ok_def)
  then have "a_items a ! nat i \<in> set (take (nat (a_length a)) (a_items a))"
    by (metis in_set_conv_nth length_take min_less_iff_conj nth_take)
  then have "a_items a ! nat i \<noteq> None" using assms(1) by (metis arr_ok_def)
  then obtain v where v: "a_items a ! nat i = Some v" by auto
  with n have "arr_vals a ! nat i = v" by (simp add: arr_vals_def)
  with n v assms show ?thesis by (auto simp: read_item_def)
qed

text \<open>A buffer whose first slots are filled, and what writing one of them does.\<close>

lemma arr_okI:
  assumes "a_items a = map Some vs @ rest" "a_length a = int (length vs)"
    and "a_capacity a = int (length (a_items a))" "0 < a_capacity a" "a_capacity a \<le> int32_max"
  shows "arr_ok a" "arr_vals a = vs"
  using assms by (auto simp: arr_ok_def arr_vals_def)

lemma arr_okE:
  assumes "arr_ok a"
  obtains rest where "a_items a = map Some (arr_vals a) @ rest" "a_length a = int (length (arr_vals a))"
proof
  have "map Some (arr_vals a) = take (nat (a_length a)) (a_items a)"
    using assms unfolding arr_ok_def arr_vals_def
    by (metis (no_types, lifting) map_idI map_map comp_apply option.collapse)
  then show "a_items a = map Some (arr_vals a) @ drop (nat (a_length a)) (a_items a)" by simp
  show "a_length a = int (length (arr_vals a))" using length_arr_vals [OF assms] by simp
qed

definition ARR_LIMIT :: nat where
  "ARR_LIMIT = 1073741824"

lemma ts_array_push_ok:
  assumes ok: "arr_ok a" and lim: "length (arr_vals a) < ARR_LIMIT"
  shows "\<exists>a'. ts_array_push a v = Some a' \<and> arr_ok a' \<and> arr_vals a' = arr_vals a @ [v]"
proof -
  from ok obtain rest where it: "a_items a = map Some (arr_vals a) @ rest"
    and len: "a_length a = int (length (arr_vals a))" by (rule arr_okE)
  let ?n = "length (arr_vals a)"
  have cap: "a_capacity a = int (length (a_items a))" "0 < a_capacity a" "a_capacity a \<le> int32_max"
    using ok by (auto simp: arr_ok_def)
  show ?thesis
  proof (cases "rest = []")
    case True
    then have full: "a_capacity a = int ?n" using it cap by simp
    define xs where "xs = realloc_items (a_items a) (a_capacity a * 2)"
    have xs: "xs = map Some (arr_vals a) @ replicate ?n None"
      using True it full by (simp add: xs_def realloc_items_def nat_mult_distrib)
    have fit: "fits32 (a_capacity a * 2)"
      using lim full cap by (auto intro!: fits32I simp: ARR_LIMIT_def int32_max_def)
    have pos: "0 < ?n" using full cap by simp
    let ?a' = "a\<lparr>a_length := a_length a + 1, a_capacity := a_capacity a * 2,
        a_items := xs[?n := Some v]\<rparr>"
    have "ts_array_push a v = Some ?a'"
      using full len fit xs pos by (simp add: ts_array_push_def xs_def write_item_def)
    moreover have "xs[?n := Some v] = map Some (arr_vals a @ [v]) @ replicate (?n - 1) None"
      using xs pos by (cases ?n) (simp_all add: list_update_append)
    then have "arr_ok ?a' \<and> arr_vals ?a' = arr_vals a @ [v]"
      using arr_okI [of ?a' "arr_vals a @ [v]" "replicate (?n - 1) None"] full len fit pos
      by (simp add: fits32_def)
    ultimately show ?thesis by blast
  next
    case False
    then obtain r rs where r: "rest = r # rs" by (cases rest) auto
    let ?a' = "a\<lparr>a_length := a_length a + 1, a_items := map Some (arr_vals a @ [v]) @ rs\<rparr>"
    have lt: "a_length a < a_capacity a" using r it cap len by simp
    have "(a_items a)[?n := Some v] = map Some (arr_vals a @ [v]) @ rs"
      using it r by (simp add: list_update_append)
    then have "ts_array_push a v = Some ?a'"
      using lt len cap by (simp add: ts_array_push_def write_item_def)
    moreover have "arr_ok ?a' \<and> arr_vals ?a' = arr_vals a @ [v]"
      using arr_okI [of ?a' "arr_vals a @ [v]" rs] it r len cap by simp
    ultimately show ?thesis by blast
  qed
qed

lemma ts_array_set_ok:
  assumes ok: "arr_ok a" and i: "0 \<le> i" "i < a_length a"
  shows "\<exists>a'. ts_array_set a i v = Some a' \<and> arr_ok a' \<and> arr_vals a' = (arr_vals a)[nat i := v]"
proof -
  from ok obtain rest where it: "a_items a = map Some (arr_vals a) @ rest"
    and len: "a_length a = int (length (arr_vals a))" by (rule arr_okE)
  let ?a' = "a\<lparr>a_items := map Some ((arr_vals a)[nat i := v]) @ rest\<rparr>"
  have lt: "nat i < length (arr_vals a)" using i len by simp
  have "(a_items a)[nat i := Some v] = map Some ((arr_vals a)[nat i := v]) @ rest"
    using lt by (simp add: it list_update_append map_update)
  moreover have "i < int (length (a_items a))" using i len by (simp add: it)
  ultimately have "ts_array_set a i v = Some ?a'" using i by (simp add: ts_array_set_def write_item_def)
  moreover have "arr_ok ?a' \<and> arr_vals ?a' = (arr_vals a)[nat i := v]"
    using arr_okI [of ?a' "(arr_vals a)[nat i := v]" rest] ok it len by (simp add: arr_ok_def)
  ultimately show ?thesis by blast
qed

lemma ts_array_get_ok:
  assumes "arr_ok a"
  shows "ts_array_get a i =
    Some (if 0 \<le> i \<and> i < a_length a then arr_vals a ! nat i else ts_value_undefined)"
  using assms by (simp add: ts_array_get_def read_item_arr)

lemma ts_array_pop_ok:
  assumes ok: "arr_ok a" and ne: "arr_vals a \<noteq> []"
  shows "\<exists>a'. ts_array_pop a = Some (last (arr_vals a), a') \<and> arr_ok a' \<and>
    arr_vals a' = butlast (arr_vals a)"
proof -
  from ok obtain rest where it: "a_items a = map Some (arr_vals a) @ rest"
    and len: "a_length a = int (length (arr_vals a))" by (rule arr_okE)
  have pos: "0 < a_length a" using ne len by simp
  have sp: "arr_vals a = butlast (arr_vals a) @ [last (arr_vals a)]" using ne by simp
  let ?a' = "a\<lparr>a_length := a_length a - 1\<rparr>"
  have it': "a_items a = map Some (butlast (arr_vals a)) @ Some (last (arr_vals a)) # rest"
    by (subst it, subst sp, subst map_append, simp)
  have "read_item (a_items a) (a_length a - 1) = Some (last (arr_vals a))"
    using read_item_arr [OF ok, of "a_length a - 1"] pos len ne
    by (simp add: last_conv_nth nat_diff_distrib)
  then have "ts_array_pop a = Some (last (arr_vals a), ?a')"
    using pos by (simp add: ts_array_pop_def)
  moreover have "arr_ok ?a' \<and> arr_vals ?a' = butlast (arr_vals a)"
    using arr_okI [of ?a' "butlast (arr_vals a)" "Some (last (arr_vals a)) # rest"] it' len ne ok
    by (auto simp: arr_ok_def of_nat_diff Suc_le_eq)
  ultimately show ?thesis by blast
qed

lemma blit_nat:
  "src + n \<le> length xs \<Longrightarrow> dst + n \<le> length xs \<Longrightarrow>
   blit xs (int dst) (int src) (int n) =
     Some (take dst xs @ take n (drop src xs) @ drop (dst + n) xs)"
  by (simp add: blit_def flip: of_nat_add)

lemma copy_in_nat:
  "dst + length ys \<le> length xs \<Longrightarrow>
   copy_in xs (int dst) ys = Some (take dst xs @ ys @ drop (dst + length ys) xs)"
  by (simp add: copy_in_def flip: of_nat_add)

text \<open>
  Splicing with a non-negative \<^verbatim>\<open>deleteCount\<close>: the removed run is cut out and the new items take
  its place, whatever the start.
\<close>

definition splice_start :: "int \<Rightarrow> int \<Rightarrow> nat" where
  "splice_start n s = nat (min (max s 0) n)"

lemma ts_array_splice_ok:
  fixes items :: "'v list" and s :: int
  assumes ok: "arr_ok a" and d: "0 \<le> d"
    and lim: "int (length (arr_vals a)) + int (length items) \<le> int32_max"
  defines "st \<equiv> splice_start (a_length a) s"
  defines "vs' \<equiv> take st (arr_vals a) @ items @ drop (st + nat d) (arr_vals a)"
  shows "\<exists>a'. ts_array_splice a s d items = Some a' \<and> arr_ok a' \<and> arr_vals a' = vs'"
proof -
  let ?vs = "arr_vals a" and ?k = "length items"
  let ?n = "length (arr_vals a)"
  from ok obtain rest where it: "a_items a = map Some ?vs @ rest"
    and len: "a_length a = int ?n" by (rule arr_okE)
  have cap: "a_capacity a = int (length (a_items a))" "0 < a_capacity a" "a_capacity a \<le> int32_max"
    using ok by (auto simp: arr_ok_def)
  have st: "st \<le> ?n" by (simp add: st_def splice_start_def len)
  have start: "(if (if s < 0 then 0 else s) > a_length a then a_length a else (if s < 0 then 0 else s)) = int st"
    by (simp add: st_def splice_start_def len)
  define dd where "dd = min (nat d) (?n - st)"
  have dd: "st + dd \<le> ?n" using st by (simp add: dd_def)
  have del: "(if d > a_length a - int st then a_length a - int st else d) = int dd"
    using d st by (auto simp: dd_def len)
  have drp: "drop (st + nat d) ?vs = drop (st + dd) ?vs" using st by (auto simp: dd_def min_def)
  define m where "m = ?n - dd + ?k"
  have newLen: "a_length a - int dd + int ?k = int m" using dd by (simp add: m_def len)
  have vs': "length vs' = m" using dd by (simp add: vs'_def drp m_def)
  have fit: "fits32 (int m)" using lim by (intro fits32I) (auto simp: m_def)
  define c where "c = (if int m > a_capacity a then int m else a_capacity a)"
  define xs where "xs = (if int m > a_capacity a then realloc_items (a_items a) c else a_items a)"
  have lxs: "length xs = nat c" "m \<le> length xs" "?n \<le> length xs"
    using cap it by (auto simp: xs_def c_def realloc_items_def)
  have "take (nat c) (a_items a) = a_items a" using cap by (intro take_all) (simp add: c_def)
  then have "realloc_items (a_items a) c = map Some ?vs @ rest @ replicate (nat c - length (a_items a)) None"
    by (simp only: realloc_items_def) (simp only: it append_assoc)
  then obtain rest' where xs: "xs = map Some ?vs @ rest'"
    using it by (cases "int m > a_capacity a") (auto simp: xs_def)
  define tl where "tl = ?n - st - dd"
  have tl: "a_length a - int st - int dd = int tl" using dd by (simp add: tl_def len)
  have b: "blit xs (int st + int ?k) (int st + int dd) (int tl) =
      Some (take (st + ?k) xs @ map Some (drop (st + dd) ?vs) @ drop (st + ?k + tl) xs)"
  proof -
    have "st + ?k + tl = m" using dd st by (simp add: m_def tl_def)
    moreover have "take tl (drop (st + dd) xs) = map Some (drop (st + dd) ?vs)"
      using dd by (simp add: xs tl_def drop_map)
    ultimately show ?thesis
      using lxs dd blit_nat [of "st + dd" tl xs "st + ?k"] by (simp add: tl_def)
  qed
  have cp: "copy_in (take (st + ?k) xs @ map Some (drop (st + dd) ?vs) @ drop (st + ?k + tl) xs)
      (int st) (map Some items) = Some (map Some vs' @ drop (st + ?k + tl) xs)"
  proof -
    have "st + ?k \<le> length xs" using dd lxs by (simp add: m_def)
    moreover have "take st xs = map Some (take st ?vs)" using st by (simp add: xs take_map)
    ultimately show ?thesis by (simp add: copy_in_nat vs'_def drp)
  qed
  let ?a' = "a\<lparr>a_length := int m, a_capacity := c, a_items := map Some vs' @ drop (st + ?k + tl) xs\<rparr>"
  have "ts_array_splice a s d items = Some ?a'"
    by (simp only: ts_array_splice_def Let_def start del newLen ck32_Some [OF fit] Option.bind.simps
        c_def [symmetric] xs_def [symmetric] tl b cp)
  moreover have "arr_ok ?a' \<and> arr_vals ?a' = vs'"
  proof -
    have "st + ?k + tl = m" using dd st by (simp add: m_def tl_def)
    then show ?thesis
      using arr_okI [of ?a' vs' "drop m xs"] vs' lxs fit cap
      by (auto simp: c_def fits32_def split: if_splits)
  qed
  ultimately show ?thesis by blast
qed

subsection \<open>The interface of a growable sequence\<close>

text \<open>
  What the clients of an array rely on when they build one: pushing appends, as long as the
  list stays below the limit at which doubling the capacity overflows.
\<close>

locale growable =
  fixes vals :: "'a \<Rightarrow> 'v list" and invar :: "'a \<Rightarrow> bool" and limit :: nat
    and empty :: 'a and push :: "'a \<Rightarrow> 'v \<Rightarrow> 'a option"
  assumes invar_empty: "invar empty"
    and vals_empty: "vals empty = []"
    and push_ok: "invar a \<Longrightarrow> length (vals a) < limit \<Longrightarrow>
      \<exists>a'. push a v = Some a' \<and> invar a' \<and> vals a' = vals a @ [v]"
begin

lemma push_all:
  "invar a \<Longrightarrow> length (vals a) + length vs \<le> limit \<Longrightarrow>
   \<exists>a'. foldo push a vs = Some a' \<and> invar a' \<and> vals a' = vals a @ vs"
proof (induction vs arbitrary: a)
  case (Cons v vs)
  then obtain a1 where a1: "push a v = Some a1" "invar a1" "vals a1 = vals a @ [v]"
    using push_ok [of a v] by auto
  moreover from Cons.IH [of a1] Cons.prems a1 obtain a2
    where "foldo push a1 vs = Some a2" "invar a2" "vals a2 = vals a1 @ vs" by auto
  ultimately show ?case by auto
qed simp

lemma build: "length vs \<le> limit \<Longrightarrow> \<exists>a. foldo push empty vs = Some a \<and> invar a \<and> vals a = vs"
  using push_all [of empty vs] invar_empty vals_empty by simp

end

interpretation tsa: growable arr_vals arr_ok ARR_LIMIT ts_array_new ts_array_push
  by unfold_locales (simp_all add: ts_array_push_ok)

lemma arr_push_at_ok:
  assumes "arrs h p = Some a" "arr_ok a" "length (arr_vals a) < ARR_LIMIT"
  obtains a' where "arr_push_at h p v = Some (put_arr h p a')" "arr_ok a'" "arr_vals a' = arr_vals a @ [v]"
proof -
  from tsa.push_ok [OF assms(2,3)] obtain a' where
    "ts_array_push a v = Some a'" "arr_ok a'" "arr_vals a' = arr_vals a @ [v]" by blast
  with assms(1) that show thesis by (auto simp: arr_push_at_def)
qed

subsection \<open>Loops with a pure callback\<close>

definition pure_cb :: "(tsvalue \<Rightarrow> 'r) \<Rightarrow> 'r callback" where
  "pure_cb P = (\<lambda>v h. Some (P v, h))"

lemma filter_loop_pure:
  assumes "arrs h p = Some a" "arr_ok a" "p \<noteq> r" "arrs h r = Some b" "arr_ok b"
    and "length (arr_vals b) + length (arr_vals a) \<le> ARR_LIMIT + i" "i \<le> length (arr_vals a)"
  shows "\<exists>b'. filter_loop (pure_cb P) p r (int i) h = Some (put_arr h r b') \<and> arr_ok b' \<and>
    arr_vals b' = arr_vals b @ filter P (drop i (arr_vals a))"
  using assms
proof (induction "length (arr_vals a) - i" arbitrary: i h b)
  case 0
  then have "\<not> int i < a_length a" using length_arr_vals by force
  with 0 show ?case
    by (intro exI [of _ b]) (subst filter_loop.simps, simp add: heap_simps)
next
  case (Suc k)
  then have lt: "int i < a_length a" "i < length (arr_vals a)" using length_arr_vals by force+
  have rd: "read_item (a_items a) (int i) = Some (arr_vals a ! i)"
    using Suc.prems lt by (simp add: read_item_arr)
  have dr: "drop i (arr_vals a) = arr_vals a ! i # drop (Suc i) (arr_vals a)"
    using lt by (simp add: Cons_nth_drop_Suc)
  have k: "k = length (arr_vals a) - Suc i" using Suc.hyps(2) by simp
  have step: "int i + 1 = int (Suc i)" by simp
  show ?case
  proof (cases "P (arr_vals a ! i)")
    case True
    have "length (arr_vals b) < ARR_LIMIT" using Suc.prems lt by simp
    from arr_push_at_ok [OF Suc.prems(4,5) this] obtain b1 where b1:
      "arr_push_at h r (arr_vals a ! i) = Some (put_arr h r b1)" "arr_ok b1"
      "arr_vals b1 = arr_vals b @ [arr_vals a ! i]" by blast
    have "\<exists>b'. filter_loop (pure_cb P) p r (int (Suc i)) (put_arr h r b1) = Some (put_arr (put_arr h r b1) r b') \<and>
      arr_ok b' \<and> arr_vals b' = arr_vals b1 @ filter P (drop (Suc i) (arr_vals a))"
      using Suc.prems lt b1 by (intro Suc.hyps(1)) (auto simp: k heap_simps)
    with b1 True lt rd Suc.prems(1) show ?thesis
      by (subst filter_loop.simps) (auto simp: pure_cb_def dr step heap_simps simp del: of_nat_Suc)
  next
    case False
    have "\<exists>b'. filter_loop (pure_cb P) p r (int (Suc i)) h = Some (put_arr h r b') \<and>
      arr_ok b' \<and> arr_vals b' = arr_vals b @ filter P (drop (Suc i) (arr_vals a))"
      using Suc.prems lt by (intro Suc.hyps(1)) (auto simp: k)
    with False lt rd Suc.prems(1) show ?thesis
      by (subst filter_loop.simps) (auto simp: pure_cb_def dr step simp del: of_nat_Suc)
  qed
qed

lemma map_loop_pure:
  assumes "arrs h p = Some a" "arr_ok a" "p \<noteq> r" "arrs h r = Some b" "arr_ok b"
    and "length (arr_vals b) + length (arr_vals a) \<le> ARR_LIMIT + i" "i \<le> length (arr_vals a)"
  shows "\<exists>b'. map_loop (pure_cb f) p r (int i) h = Some (put_arr h r b') \<and> arr_ok b' \<and>
    arr_vals b' = arr_vals b @ map f (drop i (arr_vals a))"
  using assms
proof (induction "length (arr_vals a) - i" arbitrary: i h b)
  case 0
  then have "\<not> int i < a_length a" using length_arr_vals by force
  with 0 show ?case
    by (intro exI [of _ b]) (subst map_loop.simps, simp add: heap_simps)
next
  case (Suc k)
  then have lt: "int i < a_length a" "i < length (arr_vals a)" using length_arr_vals by force+
  have rd: "read_item (a_items a) (int i) = Some (arr_vals a ! i)"
    using Suc.prems lt by (simp add: read_item_arr)
  have dr: "drop i (arr_vals a) = arr_vals a ! i # drop (Suc i) (arr_vals a)"
    using lt by (simp add: Cons_nth_drop_Suc)
  have k: "k = length (arr_vals a) - Suc i" using Suc.hyps(2) by simp
  have step: "int i + 1 = int (Suc i)" by simp
  have "length (arr_vals b) < ARR_LIMIT" using Suc.prems lt by simp
  from arr_push_at_ok [OF Suc.prems(4,5) this] obtain b1 where b1:
    "arr_push_at h r (f (arr_vals a ! i)) = Some (put_arr h r b1)" "arr_ok b1"
    "arr_vals b1 = arr_vals b @ [f (arr_vals a ! i)]" by blast
  have "\<exists>b'. map_loop (pure_cb f) p r (int (Suc i)) (put_arr h r b1) = Some (put_arr (put_arr h r b1) r b') \<and>
    arr_ok b' \<and> arr_vals b' = arr_vals b1 @ map f (drop (Suc i) (arr_vals a))"
    using Suc.prems lt b1 by (intro Suc.hyps(1)) (auto simp: k heap_simps)
  with b1 lt rd Suc.prems(1) show ?case
    by (subst map_loop.simps) (auto simp: pure_cb_def dr step heap_simps simp del: of_nat_Suc)
qed

lemma search_loop_pure:
  assumes "arrs h p = Some a" "arr_ok a" "i \<le> length (arr_vals a)"
  shows "search_loop (pure_cb P) want p (int i) h =
    Some (case find (\<lambda>j. P (arr_vals a ! j) = want) [i..<length (arr_vals a)] of
            None \<Rightarrow> None | Some j \<Rightarrow> Some (int j), h)"
  using assms
proof (induction "length (arr_vals a) - i" arbitrary: i)
  case 0
  then have "\<not> int i < a_length a" "length (arr_vals a) \<le> i" using length_arr_vals by force+
  with 0 show ?case by (subst search_loop.simps) simp
next
  case (Suc k)
  then have lt: "int i < a_length a" "i < length (arr_vals a)" using length_arr_vals by force+
  have rd: "read_item (a_items a) (int i) = Some (arr_vals a ! i)"
    using Suc.prems lt by (simp add: read_item_arr)
  have up: "[i..<length (arr_vals a)] = i # [Suc i..<length (arr_vals a)]"
    using lt by (simp add: upt_conv_Cons)
  have step: "int i + 1 = int (Suc i)" by simp
  have "search_loop (pure_cb P) want p (int (Suc i)) h =
    Some (case find (\<lambda>j. P (arr_vals a ! j) = want) [Suc i..<length (arr_vals a)] of
            None \<Rightarrow> None | Some j \<Rightarrow> Some (int j), h)"
    using Suc.prems lt Suc.hyps(2) by (intro Suc.hyps(1)) auto
  with lt rd Suc.prems(1) show ?case
    by (subst search_loop.simps) (auto simp: pure_cb_def up step simp del: of_nat_Suc)
qed

lemma reduce_loop_pure:
  assumes "arrs h p = Some a" "arr_ok a" "i \<le> length (arr_vals a)"
  shows "reduce_loop (\<lambda>acc. pure_cb (f acc)) p (int i) acc h =
    Some (foldl f acc (drop i (arr_vals a)), h)"
  using assms
proof (induction "length (arr_vals a) - i" arbitrary: i acc)
  case 0
  then have "\<not> int i < a_length a" "length (arr_vals a) \<le> i" using length_arr_vals by force+
  with 0 show ?case by (subst reduce_loop.simps) simp
next
  case (Suc k)
  then have lt: "int i < a_length a" "i < length (arr_vals a)" using length_arr_vals by force+
  have rd: "read_item (a_items a) (int i) = Some (arr_vals a ! i)"
    using Suc.prems lt by (simp add: read_item_arr)
  have dr: "drop i (arr_vals a) = arr_vals a ! i # drop (Suc i) (arr_vals a)"
    using lt by (simp add: Cons_nth_drop_Suc)
  have step: "int i + 1 = int (Suc i)" by simp
  have "reduce_loop (\<lambda>acc. pure_cb (f acc)) p (int (Suc i)) (f acc (arr_vals a ! i)) h =
    Some (foldl f (f acc (arr_vals a ! i)) (drop (Suc i) (arr_vals a)), h)"
    using Suc.prems lt Suc.hyps(2) by (intro Suc.hyps(1)) auto
  with lt rd Suc.prems(1) show ?case
    by (subst reduce_loop.simps) (simp add: pure_cb_def dr step del: of_nat_Suc)
qed

subsection \<open>Splitting and joining\<close>

fun join_strs :: "string \<Rightarrow> string list \<Rightarrow> string" where
  "join_strs sep [] = []"
| "join_strs sep [x] = x"
| "join_strs sep (x # y # r) = x @ sep @ join_strs sep (y # r)"

lemma join_strs_Cons: "r \<noteq> [] \<Longrightarrow> join_strs sep (x # r) = x @ sep @ join_strs sep r"
  by (cases r) auto

lemma split_loop_not_Nil: "sep \<noteq> [] \<Longrightarrow> start \<le> length x \<Longrightarrow> split_loop x sep start \<noteq> []"
  by (subst split_loop.simps) (auto split: option.splits)

lemma split_loop_join:
  "sep \<noteq> [] \<Longrightarrow> start \<le> length x \<Longrightarrow> join_strs sep (split_loop x sep start) = drop start x"
proof (induction x sep start rule: split_loop.induct)
  case (1 x sep start)
  show ?case
  proof (cases "strstr (drop start x) sep")
    case None
    then show ?thesis using "1.prems" by (subst split_loop.simps) simp
  next
    case (Some i)
    from strstr_Some [OF Some] have i: "i + length sep \<le> length x - start"
      "take (length sep) (drop i (drop start x)) = sep" by auto
    have le: "start + i + length sep \<le> length x" using i "1.prems" by simp
    have "join_strs sep (split_loop x sep start) =
        take i (drop start x) @ sep @ join_strs sep (split_loop x sep (start + i + length sep))"
      using Some "1.prems" le
      by (subst split_loop.simps) (simp add: join_strs_Cons split_loop_not_Nil)
    also have "\<dots> = take i (drop start x) @ sep @ drop (length sep) (drop i (drop start x))"
      using "1.IH" [of i] Some "1.prems" le by (simp add: add.commute add.left_commute)
    also have "\<dots> = drop start x"
      using i(2) by (metis append_take_drop_id)
    finally show ?thesis .
  qed
qed

lemma no_sep_before:
  assumes "strstr d sep = Some i" "sep \<noteq> []" shows "\<not> sublist sep (take i d)"
proof
  assume "sublist sep (take i d)"
  then obtain u w where uw: "take i d = u @ sep @ w" by (auto simp: sublist_def)
  then have "prefix sep (drop (length u) d)"
    by (metis append_eq_conv_conj append_take_drop_id drop_append prefix_append prefixI append.assoc)
  moreover have "length (take i d) = length u + length sep + length w" using uw by simp
  then have "length u < i" using assms(2) by (cases sep) auto
  ultimately show False using strstr_least [OF assms(1)] by blast
qed

lemma split_loop_no_sep:
  "sep \<noteq> [] \<Longrightarrow> seg \<in> set (split_loop x sep start) \<Longrightarrow> \<not> sublist sep seg"
proof (induction x sep start rule: split_loop.induct)
  case (1 x sep start)
  show ?case
  proof (cases "start \<le> length x")
    case True
    show ?thesis
    proof (cases "strstr (drop start x) sep")
      case None
      then have "seg = drop start x"
        using "1.prems" True by (subst (asm) split_loop.simps) simp
      with None show ?thesis by (simp add: strstr_None)
    next
      case (Some i)
      then have "seg = take i (drop start x) \<or> seg \<in> set (split_loop x sep (start + i + length sep))"
        using "1.prems" True by (subst (asm) split_loop.simps) simp
      with Some "1.IH" [of i] "1.prems" True no_sep_before [OF Some] show ?thesis by blast
    qed
  next
    case False
    then show ?thesis using "1.prems" by (subst (asm) split_loop.simps) simp
  qed
qed

end
