(* ===== verification/Ts_Standards.thy ===== *)
theory Ts_Standards
  imports Complex_Main "HOL-Library.Word"
begin

unbundle bit_operations_syntax

text \<open>
  The standards that parts of the runtime implement, written down from their texts and not from the
  code, so that no definition of the code occurs here: SHA-1 and SHA-256 of FIPS 180-4, MD5 of RFC 1321,
  HMAC of RFC 2104, and base 64 and base 16 of RFC 4648. Numbers are read from bytes and written as
  bytes by arithmetic.
\<close>

subsection \<open>Numbers and bytes\<close>

text \<open>The number whose digits to the base 256 are given, the highest first, and its lowest \<open>k\<close> digits.\<close>

definition be_nat :: "8 word list \<Rightarrow> nat" where
  "be_nat bs = foldl (\<lambda>n b. 256 * n + unat b) 0 bs"

definition be_bytes :: "nat \<Rightarrow> nat \<Rightarrow> 8 word list" where
  "be_bytes k n = rev (map (\<lambda>i. word_of_nat (n div 256 ^ i)) [0..<k])"

text \<open>The word at place \<open>t\<close> of a block that is cut into words of \<open>k\<close> bytes.\<close>

definition block_bytes :: "nat \<Rightarrow> 8 word list \<Rightarrow> nat \<Rightarrow> 8 word list" where
  "block_bytes k block t = take k (drop (k * t) block)"

subsection \<open>Padding and blocks\<close>

text \<open>
  A bit one and the fewest zeros after which the length falls on \<open>L\<close> modulo the size \<open>B\<close> of a block, in
  bytes; then the length of the message in bits, as \<open>len\<close> writes it.
\<close>

definition std_zeros :: "nat \<Rightarrow> nat \<Rightarrow> nat \<Rightarrow> nat" where
  "std_zeros B L n = hd (filter (\<lambda>z. (n + 1 + z) mod B = L) [0..<B])"

definition std_pad :: "nat \<Rightarrow> nat \<Rightarrow> (nat \<Rightarrow> 8 word list) \<Rightarrow> 8 word list \<Rightarrow> 8 word list" where
  "std_pad B L len m = m @ 0x80 # replicate (std_zeros B L (length m)) 0 @ len (8 * length m)"

definition std_blocks :: "nat \<Rightarrow> 8 word list \<Rightarrow> 8 word list list" where
  "std_blocks B m = map (block_bytes B m) [0..<length m div B]"

subsection \<open>SHA-1\<close>

type_synonym five_words = "32 word \<times> 32 word \<times> 32 word \<times> 32 word \<times> 32 word"

fun std_sha1_w :: "8 word list \<Rightarrow> nat \<Rightarrow> 32 word" where
  "std_sha1_w block t = (if t < 16 then word_of_nat (be_nat (block_bytes 4 block t))
     else word_rotl 1 (std_sha1_w block (t - 3) XOR std_sha1_w block (t - 8) XOR std_sha1_w block (t - 14) XOR std_sha1_w block (t - 16)))"

declare std_sha1_w.simps [simp del]

definition std_ch :: "'a::len word \<Rightarrow> 'a word \<Rightarrow> 'a word \<Rightarrow> 'a word" where
  "std_ch x y z = (x AND y) XOR (NOT x AND z)"

definition std_maj :: "'a::len word \<Rightarrow> 'a word \<Rightarrow> 'a word \<Rightarrow> 'a word" where
  "std_maj x y z = (x AND y) XOR (x AND z) XOR (y AND z)"

definition std_parity :: "'a::len word \<Rightarrow> 'a word \<Rightarrow> 'a word \<Rightarrow> 'a word" where
  "std_parity x y z = x XOR y XOR z"

text \<open>The function and the constant of the twenty rounds around \<open>t\<close>.\<close>

definition std_sha1_fk :: "nat \<Rightarrow> (32 word \<Rightarrow> 32 word \<Rightarrow> 32 word \<Rightarrow> 32 word) \<times> 32 word" where
  "std_sha1_fk t = [(std_ch, 0x5a827999), (std_parity, 0x6ed9eba1), (std_maj, 0x8f1bbcdc), (std_parity, 0xca62c1d6)] ! (t div 20)"

definition std_sha1_round :: "8 word list \<Rightarrow> nat \<Rightarrow> five_words \<Rightarrow> five_words" where
  "std_sha1_round block t s = (case s of (a, b, c, d, e) \<Rightarrow> case std_sha1_fk t of (f, k) \<Rightarrow>
     (word_rotl 5 a + f b c d + e + k + std_sha1_w block t, a, word_rotl 30 b, c, d))"

definition std_sha1_block :: "five_words \<Rightarrow> 8 word list \<Rightarrow> five_words" where
  "std_sha1_block s block = (case s of (a, b, c, d, e) \<Rightarrow>
     case fold (std_sha1_round block) [0..<80] s of (a', b', c', d', e') \<Rightarrow> (a' + a, b' + b, c' + c, d' + d, e' + e))"

definition std_sha1 :: "8 word list \<Rightarrow> 8 word list" where
  "std_sha1 m =
    (case foldl std_sha1_block (0x67452301, 0xefcdab89, 0x98badcfe, 0x10325476, 0xc3d2e1f0) (std_blocks 64 (std_pad 64 56 (be_bytes 8) m)) of
      (a, b, c, d, e) \<Rightarrow> concat (map (\<lambda>x. be_bytes 4 (unat x)) [a, b, c, d, e]))"

subsection \<open>SHA-256\<close>

text \<open>
  The constants of the rounds are the first thirty-two bits of the fractional parts of the cube roots of
  the first sixty-four primes, the first hash value those of the square roots of the first eight.
\<close>

definition std_primes :: "nat list" where
  "std_primes = [2, 3, 5, 7, 11, 13, 17, 19, 23, 29, 31, 37, 41, 43, 47, 53, 59, 61, 67, 71, 73, 79, 83, 89, 97,
     101, 103, 107, 109, 113, 127, 131, 137, 139, 149, 151, 157, 163, 167, 173, 179, 181, 191, 193, 197, 199,
     211, 223, 227, 229, 233, 239, 241, 251, 257, 263, 269, 271, 277, 281, 283, 293, 307, 311]"

definition root_bits :: "nat \<Rightarrow> nat \<Rightarrow> 32 word" where
  "root_bits k p = word_of_nat (nat \<lfloor>2 ^ 32 * root k (real p)\<rfloor>)"

definition std_sha256_k :: "nat \<Rightarrow> 32 word" where
  "std_sha256_k t = root_bits 3 (std_primes ! t)"

type_synonym eight_words = "32 word \<times> 32 word \<times> 32 word \<times> 32 word \<times> 32 word \<times> 32 word \<times> 32 word \<times> 32 word"

definition std_sha256_iv :: eight_words where
  "std_sha256_iv = (root_bits 2 2, root_bits 2 3, root_bits 2 5, root_bits 2 7, root_bits 2 11, root_bits 2 13,
     root_bits 2 17, root_bits 2 19)"

fun std_sha256_w :: "8 word list \<Rightarrow> nat \<Rightarrow> 32 word" where
  "std_sha256_w block t = (if t < 16 then word_of_nat (be_nat (block_bytes 4 block t))
     else (let w2 = std_sha256_w block (t - 2); w15 = std_sha256_w block (t - 15) in
       (word_rotr 17 w2 XOR word_rotr 19 w2 XOR drop_bit 10 w2) + std_sha256_w block (t - 7) +
       (word_rotr 7 w15 XOR word_rotr 18 w15 XOR drop_bit 3 w15) + std_sha256_w block (t - 16)))"

declare std_sha256_w.simps [simp del]

definition std_sha256_round :: "8 word list \<Rightarrow> nat \<Rightarrow> eight_words \<Rightarrow> eight_words" where
  "std_sha256_round block t s = (case s of (a, b, c, d, e, f, g, h) \<Rightarrow>
     let t1 = h + (word_rotr 6 e XOR word_rotr 11 e XOR word_rotr 25 e) + std_ch e f g + std_sha256_k t + std_sha256_w block t;
         t2 = (word_rotr 2 a XOR word_rotr 13 a XOR word_rotr 22 a) + std_maj a b c
     in (t1 + t2, a, b, c, d + t1, e, f, g))"

definition std_sha256_block :: "eight_words \<Rightarrow> 8 word list \<Rightarrow> eight_words" where
  "std_sha256_block s block = (case s of (a, b, c, d, e, f, g, h) \<Rightarrow>
     case fold (std_sha256_round block) [0..<64] s of (a', b', c', d', e', f', g', h') \<Rightarrow>
       (a' + a, b' + b, c' + c, d' + d, e' + e, f' + f, g' + g, h' + h))"

definition std_sha256 :: "8 word list \<Rightarrow> 8 word list" where
  "std_sha256 m =
    (case foldl std_sha256_block std_sha256_iv (std_blocks 64 (std_pad 64 56 (be_bytes 8) m)) of
      (a, b, c, d, e, f, g, h) \<Rightarrow> concat (map (\<lambda>x. be_bytes 4 (unat x)) [a, b, c, d, e, f, g, h]))"

subsection \<open>MD5\<close>

text \<open>
  Words are read and written with the lowest byte first. The initial words are given by their bytes,
  the table by its sixty-four entries.
\<close>

type_synonym four_words = "32 word \<times> 32 word \<times> 32 word \<times> 32 word"

definition le_word :: "8 word list \<Rightarrow> 32 word" where
  "le_word bs = word_of_nat (be_nat (rev bs))"

definition std_md5_iv :: four_words where
  "std_md5_iv = (le_word [0x01, 0x23, 0x45, 0x67], le_word [0x89, 0xab, 0xcd, 0xef], le_word [0xfe, 0xdc, 0xba, 0x98],
     le_word [0x76, 0x54, 0x32, 0x10])"

text \<open>The integer parts of 4294967296 times the absolute values of the sines of 1 to 64.\<close>

definition std_md5_T :: "32 word list" where
  "std_md5_T = concat [
     [0xd76aa478, 0xe8c7b756, 0x242070db, 0xc1bdceee], [0xf57c0faf, 0x4787c62a, 0xa8304613, 0xfd469501],
     [0x698098d8, 0x8b44f7af, 0xffff5bb1, 0x895cd7be], [0x6b901122, 0xfd987193, 0xa679438e, 0x49b40821],
     [0xf61e2562, 0xc040b340, 0x265e5a51, 0xe9b6c7aa], [0xd62f105d, 0x02441453, 0xd8a1e681, 0xe7d3fbc8],
     [0x21e1cde6, 0xc33707d6, 0xf4d50d87, 0x455a14ed], [0xa9e3e905, 0xfcefa3f8, 0x676f02d9, 0x8d2a4c8a],
     [0xfffa3942, 0x8771f681, 0x6d9d6122, 0xfde5380c], [0xa4beea44, 0x4bdecfa9, 0xf6bb4b60, 0xbebfbc70],
     [0x289b7ec6, 0xeaa127fa, 0xd4ef3085, 0x04881d05], [0xd9d4d039, 0xe6db99e5, 0x1fa27cf8, 0xc4ac5665],
     [0xf4292244, 0x432aff97, 0xab9423a7, 0xfc93a039], [0x655b59c3, 0x8f0ccc92, 0xffeff47d, 0x85845dd1],
     [0x6fa87e4f, 0xfe2ce6e0, 0xa3014314, 0x4e0811a1], [0xf7537e82, 0xbd3af235, 0x2ad7d2bb, 0xeb86d391]]"

definition std_md5_fun :: "nat \<Rightarrow> 32 word \<Rightarrow> 32 word \<Rightarrow> 32 word \<Rightarrow> 32 word" where
  "std_md5_fun i x y z =
    (if i < 16 then (x AND y) OR (NOT x AND z) else if i < 32 then (x AND z) OR (y AND NOT z)
     else if i < 48 then x XOR y XOR z else y XOR (x OR NOT z))"

definition std_md5_index :: "nat \<Rightarrow> nat" where
  "std_md5_index i = (if i < 16 then i else if i < 32 then (5*i + 1) mod 16 else if i < 48 then (3*i + 5) mod 16 else (7*i) mod 16)"

definition std_md5_shift :: "nat \<Rightarrow> nat" where
  "std_md5_shift i = [[7, 12, 17, 22], [5, 9, 14, 20], [4, 11, 16, 23], [6, 10, 15, 21]] ! (i div 16) ! (i mod 4)"

definition std_md5_step :: "8 word list \<Rightarrow> nat \<Rightarrow> four_words \<Rightarrow> four_words" where
  "std_md5_step block i v = (case v of (a, b, c, d) \<Rightarrow>
     (d, b + word_rotl (std_md5_shift i) (a + std_md5_fun i b c d + le_word (block_bytes 4 block (std_md5_index i)) + std_md5_T ! i), b, c))"

definition std_md5_block :: "four_words \<Rightarrow> 8 word list \<Rightarrow> four_words" where
  "std_md5_block s block = (case s of (a, b, c, d) \<Rightarrow>
     case fold (std_md5_step block) [0..<64] s of (a', b', c', d') \<Rightarrow> (a + a', b + b', c + c', d + d'))"

definition std_md5 :: "8 word list \<Rightarrow> 8 word list" where
  "std_md5 m =
    (case foldl std_md5_block std_md5_iv (std_blocks 64 (std_pad 64 56 (\<lambda>n. rev (be_bytes 8 n)) m)) of
      (a, b, c, d) \<Rightarrow> concat (map (\<lambda>x. rev (be_bytes 4 (unat x))) [a, b, c, d]))"

subsection \<open>HMAC\<close>

definition std_hmac :: "(8 word list \<Rightarrow> 8 word list) \<Rightarrow> nat \<Rightarrow> 8 word list \<Rightarrow> 8 word list \<Rightarrow> 8 word list" where
  "std_hmac H B key text =
    (let k = (if B < length key then H key else key); k0 = k @ replicate (B - length k) 0;
         pad = (\<lambda>byte. map2 (XOR) k0 (replicate B byte))
     in H (pad 0x5c @ H (pad 0x36 @ text)))"

subsection \<open>Base 16 and base 64\<close>

definition std_hex :: "8 word list \<Rightarrow> string" where
  "std_hex bs = concat (map (\<lambda>b. [''0123456789abcdef'' ! (unat b div 16), ''0123456789abcdef'' ! (unat b mod 16)]) bs)"

text \<open>The bytes of a text.\<close>

definition octets :: "string \<Rightarrow> 8 word list" where
  "octets t = map (\<lambda>c. word_of_nat (of_char c)) t"

text \<open>The digit that a character of the alphabet stands for: the letters, the figures, plus and slash; no digit
  is 64.\<close>

definition std_b64_digit :: "char \<Rightarrow> nat" where
  "std_b64_digit c = (let n = of_char c in
     if 65 \<le> n \<and> n \<le> 90 then n - 65 else if 97 \<le> n \<and> n \<le> 122 then n - 71
     else if 48 \<le> n \<and> n \<le> 57 then n + 4 else if c = CHR ''+'' then 62 else if c = CHR ''/'' then 63 else 64)"

text \<open>Four characters are three bytes; a group that ends in one or two signs of equality ends the text.\<close>

fun std_b64_decode :: "string \<Rightarrow> 8 word list" where
  "std_b64_decode (w # x # y # z # s) =
    (let d = std_b64_digit in
     if y = CHR ''='' then take 1 (be_bytes 3 (d w * 64 ^ 3 + d x * 64 ^ 2))
     else if z = CHR ''='' then take 2 (be_bytes 3 (d w * 64 ^ 3 + d x * 64 ^ 2 + d y * 64))
     else be_bytes 3 (d w * 64 ^ 3 + d x * 64 ^ 2 + d y * 64 + d z) @ std_b64_decode s)"
| "std_b64_decode _ = []"

subsection \<open>The constants computed\<close>

text \<open>A root lies between two whole numbers when their powers lie around its argument.\<close>

lemma root_bits_eq:
  assumes "0 < k" "r ^ k \<le> p * 2 ^ (32 * k)" "p * 2 ^ (32 * k) < (r + 1) ^ k"
  shows "root_bits k p = word_of_nat r"
proof -
  have e: "(2 ^ 32 * root k (real p)) ^ k = real (p * 2 ^ (32 * k))"
    using assms(1) by (simp add: power_mult_distrib power_mult)
  have nn: "0 \<le> 2 ^ 32 * root k (real p)" using assms(1) by simp
  have "real r ^ k \<le> (2 ^ 32 * root k (real p)) ^ k"
    unfolding e of_nat_power [symmetric] of_nat_le_iff by (rule assms(2))
  then have lo: "real r \<le> 2 ^ 32 * root k (real p)" using power_mono_iff [of "real r", OF _ nn assms(1)] by simp
  have "(2 ^ 32 * root k (real p)) ^ k < real (r + 1) ^ k"
    unfolding e of_nat_power [symmetric] of_nat_less_iff by (rule assms(3))
  then have hi: "2 ^ 32 * root k (real p) < real (r + 1)" by (rule power_less_imp_less_base) simp
  have "\<lfloor>2 ^ 32 * root k (real p)\<rfloor> = int r" using lo hi by (intro floor_unique) auto
  then show ?thesis by (simp add: root_bits_def)
qed

subsection \<open>Reading and writing bytes\<close>

lemma be_step: "(word_of_nat (256 * n + unat (b :: 8 word)) :: 32 word) = push_bit 8 (word_of_nat n) OR ucast b"
proof -
  have "push_bit 8 (word_of_nat n :: 32 word) AND ucast b = 0"
    by (rule bit_word_eqI) (auto simp: bit_simps dest: bit_imp_le_length)
  then have "push_bit 8 (word_of_nat n) OR ucast b = push_bit 8 (word_of_nat n :: 32 word) + ucast b"
    by (simp add: disjunctive_add_eq_or)
  then show ?thesis by (simp add: push_bit_eq_mult mult.commute)
qed

text \<open>Four bytes put together by shifts are the number they write.\<close>

lemma be_word4:
  "word_of_nat (be_nat [a, b, c, d]) =
    (push_bit 24 (ucast a) OR push_bit 16 (ucast b) OR push_bit 8 (ucast c) OR ucast d :: 32 word)"
proof -
  have "word_of_nat (be_nat [a, b, c, d]) = push_bit 8 (push_bit 8 (push_bit 8 (push_bit 8 0 OR ucast a) OR ucast b) OR ucast c) OR (ucast d :: 32 word)"
    unfolding be_nat_def foldl.simps be_step by simp
  then show ?thesis by (simp add: push_bit_or or.assoc)
qed

text \<open>The bytes of a word are its shifts by whole bytes.\<close>

lemma byte_shift: "word_of_nat (unat x div 256 ^ i) = (ucast (drop_bit (8 * i) x) :: 8 word)" for x :: "'a::len word"
proof -
  have "unat x div 256 ^ i = unat (drop_bit (8 * i) x)" by (simp only: unat_drop_bit_eq) (simp add: drop_bit_eq_div power_mult)
  then show ?thesis by simp
qed

lemma be_bytes_shifts: "be_bytes k (unat x) = rev (map (\<lambda>i. ucast (drop_bit (8 * i) x)) [0..<k])" for x :: "'a::len word"
  by (simp add: be_bytes_def byte_shift)

lemma length_be_bytes [simp]: "length (be_bytes k n) = k"
  by (simp add: be_bytes_def)

lemma byte_eq_iff: "(word_of_nat a = (word_of_nat b :: 8 word)) \<longleftrightarrow> a mod 256 = b mod 256"
  by (simp add: word_of_nat_eq_iff take_bit_eq_mod)

text \<open>Eight bytes hold the lowest sixty-four bits.\<close>

lemma be_bytes_wrap: "be_bytes 8 (unat (word_of_nat n :: 64 word)) = be_bytes 8 n"
proof -
  have "(word_of_nat (n mod 2 ^ 64 div 256 ^ i) :: 8 word) = word_of_nat (n div 256 ^ i)" if "i < 8" for i
  proof -
    have "take_bit 8 (drop_bit (8 * i) (take_bit 64 n)) = take_bit 8 (drop_bit (8 * i) n)"
      using that by (intro bit_eqI) (auto simp: bit_simps)
    then show ?thesis by (simp add: byte_eq_iff take_bit_eq_mod drop_bit_eq_div power_mult)
  qed
  then show ?thesis by (simp add: be_bytes_def unat_of_nat)
qed

subsection \<open>The number of zeros\<close>

lemma wrap_mod: "m < 2 * B \<Longrightarrow> m mod B = (if m < B then m else m - B)" for m B :: nat
  by (cases "m < B") (simp_all add: le_mod_geq)

lemma zeros_unique:
  fixes L B z n :: nat
  assumes "0 < L" "L < B" "z < B"
  shows "(n + 1 + z) mod B = L \<longleftrightarrow> z = (B + L - 1 - n mod B) mod B"
proof -
  define r where "r = n mod B"
  have r: "r < B" using assms by (simp add: r_def)
  have "(n + 1 + z) mod B = (r + 1 + z) mod B" unfolding r_def by (metis add.assoc mod_add_left_eq)
  moreover have "(r + 1 + z) mod B = (if r + 1 + z < B then r + 1 + z else r + 1 + z - B)"
    using r assms(3) by (intro wrap_mod) linarith
  moreover have "(B + L - 1 - r) mod B = (if B + L - 1 - r < B then B + L - 1 - r else B + L - 1 - r - B)"
    using assms by (intro wrap_mod) linarith
  ultimately show ?thesis unfolding r_def [symmetric] using r assms by (auto split: if_splits)
qed

lemma filter_unique:
  assumes "x < B" "\<And>z. z < B \<Longrightarrow> P z \<longleftrightarrow> z = x"
  shows "filter P [0..<B] = [x]"
proof -
  have "[0..<B] = [0..<x] @ x # [Suc x..<B]"
    using assms(1) by (metis upt_add_eq_append upt_conv_Cons less_imp_le_nat le_add_diff_inverse zero_le)
  moreover have "filter P [0..<x] = []" "filter P [Suc x..<B] = []" using assms by (auto simp: filter_empty_conv)
  ultimately show ?thesis using assms by simp
qed

lemma std_zeros_eq:
  assumes "0 < L" "L < B"
  shows "std_zeros B L n = (B + L - 1 - n mod B) mod B"
proof -
  have "filter (\<lambda>z. (n + 1 + z) mod B = L) [0..<B] = [(B + L - 1 - n mod B) mod B]"
    using assms by (intro filter_unique zeros_unique) simp_all
  then show ?thesis by (simp add: std_zeros_def)
qed

end
