(* ===== verification/Ts_Buffer.thy ===== *)
theory Ts_Buffer
  imports Ts_Array Ts_Standards
begin

unbundle bit_operations_syntax

text \<open>
  The \<^verbatim>\<open>Buffer\<close> part of \<^verbatim>\<open>runtime/src/runtime.c\<close>: byte buffers behind a \<^verbatim>\<open>TAG_OBJECT\<close> value.
  A buffer keeps its \<^verbatim>\<open>capacity\<close> bytes; the bytes beyond \<^verbatim>\<open>length\<close> are never read, and are
  kept as zero where the C leaves them uninitialised.
\<close>

subsection \<open>Tagged objects\<close>

text \<open>
  The pattern every accessor of a tagged object begins with: \<^verbatim>\<open>TAG_OBJECT\<close>, not NULL, and the
  expected \<^verbatim>\<open>type_tag\<close>. The outer option is the definedness of the read of the tag.
\<close>

definition tagged :: "(object \<Rightarrow> 'a option) \<Rightarrow> heap \<Rightarrow> tsvalue \<Rightarrow> 'a option option" where
  "tagged sel h v = (case v of
      VObject p \<Rightarrow> if p = 0 then Some None else do { x \<leftarrow> objs h p; Some (sel x) }
    | _ \<Rightarrow> Some None)"

fun sel_buffer :: "object \<Rightarrow> buffer option" where
  "sel_buffer (OBuffer b) = Some b"
| "sel_buffer _ = None"

definition as_buffer :: "heap \<Rightarrow> tsvalue \<Rightarrow> buffer option option" where
  "as_buffer = tagged sel_buffer"

definition new_value :: "heap \<Rightarrow> object \<Rightarrow> tsvalue \<times> heap" where
  "new_value h x = (let (p, h') = new_obj h x in (VObject p, h'))"

subsection \<open>Construction\<close>

definition byte_of :: "char \<Rightarrow> 8 word" where
  "byte_of c = word_of_nat (of_char c)"

definition char_of_byte :: "8 word \<Rightarrow> char" where
  "char_of_byte b = char_of (unat b)"

definition ts_buffer_new :: "heap \<Rightarrow> int \<Rightarrow> tsvalue \<times> heap" where
  "ts_buffer_new h n = (let cap = (if n > 0 then n else 16) in
     new_value h (OBuffer \<lparr>bf_data = replicate (nat cap) 0, bf_length = n, bf_capacity = cap\<rparr>))"

text \<open>A buffer holding the given bytes, in at least \<open>cap0\<close> bytes when there are none.\<close>

definition buffer_of :: "8 word list \<Rightarrow> int \<Rightarrow> buffer" where
  "buffer_of bs cap0 = (let n = int (length bs); cap = (if n > 0 then n else cap0) in
     \<lparr>bf_data = bs @ replicate (nat cap - length bs) 0, bf_length = n, bf_capacity = cap\<rparr>)"

definition ts_buffer_from_string :: "heap \<Rightarrow> addr \<Rightarrow> (tsvalue \<times> heap) option" where
  "ts_buffer_from_string h p =
    (if p = 0 then Some (ts_buffer_new h 0)
     else do {
       s \<leftarrow> str_data h p;
       Some (new_value h (OBuffer (buffer_of (map byte_of s) 16))) })"

definition ts_to_number :: "heap \<Rightarrow> tsvalue \<Rightarrow> dbl option" where
  "ts_to_number h v = (case v of
      VNumber d \<Rightarrow> Some d
    | VBoolean b \<Rightarrow> Some (if b \<noteq> 0 then DFin 1 else DFin 0)
    | VString p \<Rightarrow> do { s \<leftarrow> str_data h p; Some (atof (cstr s)) }
    | VNull \<Rightarrow> Some (DFin 0)
    | _ \<Rightarrow> Some DNaN)"

text \<open>The conversion \<^verbatim>\<open>(uint8_t)d\<close>, undefined when the truncated value is not a byte.\<close>

definition d_to_u8 :: "dbl \<Rightarrow> 8 word option" where
  "d_to_u8 d = do { n \<leftarrow> d_to_int d; if 0 \<le> n \<and> n \<le> 255 then Some (word_of_int n) else None }"

definition ts_buffer_from_array :: "heap \<Rightarrow> addr \<Rightarrow> (tsvalue \<times> heap) option" where
  "ts_buffer_from_array h p =
    (if p = 0 then Some (ts_buffer_new h 0)
     else do {
       a \<leftarrow> arrs h p;
       if a_length a = 0 then Some (ts_buffer_new h 0)
       else do {
         bs \<leftarrow> foldo (\<lambda>bs i. do {
                 v \<leftarrow> read_item (a_items a) i;
                 d \<leftarrow> ts_to_number h v;
                 b \<leftarrow> d_to_u8 d;
                 Some (bs @ [b]) }) [] [0..a_length a - 1];
         Some (new_value h (OBuffer (buffer_of bs 0))) } })"

definition ts_buffer_alloc :: "heap \<Rightarrow> int \<Rightarrow> tsvalue \<times> heap" where
  "ts_buffer_alloc h n = ts_buffer_new h n"

definition ts_buffer_allocUnsafe :: "heap \<Rightarrow> int \<Rightarrow> tsvalue \<times> heap" where
  "ts_buffer_allocUnsafe h n = ts_buffer_new h n"

subsection \<open>Reading and writing\<close>

definition ts_buffer_length :: "heap \<Rightarrow> tsvalue \<Rightarrow> int option" where
  "ts_buffer_length h v = do {
     r \<leftarrow> as_buffer h v; Some (case r of Some b \<Rightarrow> bf_length b | None \<Rightarrow> 0) }"

text \<open>\<^verbatim>\<open>memcpy\<close> out of a buffer: defined inside the buffer only.\<close>

definition bytes_at :: "buffer \<Rightarrow> int \<Rightarrow> int \<Rightarrow> 8 word list option" where
  "bytes_at b off n =
    (if 0 \<le> off \<and> 0 \<le> n \<and> off + n \<le> int (length (bf_data b))
     then Some (take (nat n) (drop (nat off) (bf_data b))) else None)"

definition ts_buffer_readUInt8 :: "heap \<Rightarrow> tsvalue \<Rightarrow> int \<Rightarrow> 8 word option" where
  "ts_buffer_readUInt8 h v offset = do {
     r \<leftarrow> as_buffer h v;
     case r of
       Some b \<Rightarrow> (if offset \<ge> 0 \<and> offset < bf_length b
                  then map_option hd (bytes_at b offset 1) else Some 0)
     | None \<Rightarrow> Some 0 }"

definition ts_buffer_writeUInt8 :: "heap \<Rightarrow> tsvalue \<Rightarrow> int \<Rightarrow> 8 word \<Rightarrow> heap option" where
  "ts_buffer_writeUInt8 h v offset x = do {
     r \<leftarrow> as_buffer h v;
     case (r, v) of
       (Some b, VObject p) \<Rightarrow>
         (if offset \<ge> 0 \<and> offset < bf_length b
          then (if nat offset < length (bf_data b)
                then Some (put_obj h p (OBuffer (b\<lparr>bf_data := (bf_data b)[nat offset := x]\<rparr>)))
                else None)
          else Some h)
     | _ \<Rightarrow> Some h }"

definition ts_buffer_concat :: "heap \<Rightarrow> tsvalue list \<Rightarrow> (tsvalue \<times> heap) option" where
  "ts_buffer_concat h vs = do {
     totalLen \<leftarrow> foldo (\<lambda>n v. do {
         r \<leftarrow> as_buffer h v;
         case r of Some b \<Rightarrow> ck32 (n + bf_length b) | None \<Rightarrow> Some n }) 0 vs;
     bs \<leftarrow> foldo (\<lambda>bs v. do {
         r \<leftarrow> as_buffer h v;
         case r of Some b \<Rightarrow> do { d \<leftarrow> bytes_at b 0 (bf_length b); Some (bs @ d) }
         | None \<Rightarrow> Some bs }) [] vs;
     if int (length bs) = totalLen
     then Some (new_value h (OBuffer (buffer_of bs 16))) else None }"

definition ts_buffer_slice :: "heap \<Rightarrow> tsvalue \<Rightarrow> int \<Rightarrow> int \<Rightarrow> (tsvalue \<times> heap) option" where
  "ts_buffer_slice h v start0 end0 = do {
     r \<leftarrow> as_buffer h v;
     case r of
       None \<Rightarrow> Some (ts_buffer_new h 0)
     | Some b \<Rightarrow>
        (let start = (if start0 < 0 then 0 else start0);
             end = (if end0 < 0 \<or> end0 > bf_length b then bf_length b else end0)
         in if start \<ge> end then Some (ts_buffer_new h 0)
            else do {
              d \<leftarrow> bytes_at b start (end - start);
              Some (new_value h (OBuffer (buffer_of d 0))) }) }"

definition ts_buffer_isBuffer :: "heap \<Rightarrow> tsvalue \<Rightarrow> bool option" where
  "ts_buffer_isBuffer h v = do { r \<leftarrow> as_buffer h v; Some (r \<noteq> None) }"

subsection \<open>Text\<close>

definition ts_buffer_toString_utf8 :: "heap \<Rightarrow> tsvalue \<Rightarrow> (addr \<times> heap) option" where
  "ts_buffer_toString_utf8 h v = do {
     r \<leftarrow> as_buffer h v;
     case r of
       None \<Rightarrow> ts_string_new h []
     | Some b \<Rightarrow> ts_string_new_len h (map char_of_byte (bf_data b)) (bf_length b) }"

definition hex_digit :: "nat \<Rightarrow> char" where
  "hex_digit n = ''0123456789abcdef'' ! n"

definition hex_byte :: "8 word \<Rightarrow> string" where
  "hex_byte b = [hex_digit (unat b div 16), hex_digit (unat b mod 16)]"

definition ts_buffer_toString_hex :: "heap \<Rightarrow> tsvalue \<Rightarrow> (addr \<times> heap) option" where
  "ts_buffer_toString_hex h v = do {
     r \<leftarrow> as_buffer h v;
     case r of
       None \<Rightarrow> ts_string_new h []
     | Some b \<Rightarrow> do {
         _ \<leftarrow> ck32 (bf_length b * 2 + 1);
         bs \<leftarrow> bytes_at b 0 (bf_length b);
         ts_string_new h (concat (map hex_byte bs)) } }"

definition b64_table :: string where
  "b64_table = ''ABCDEFGHIJKLMNOPQRSTUVWXYZabcdefghijklmnopqrstuvwxyz0123456789+/''"

definition b64_triple :: "8 word \<Rightarrow> 8 word \<Rightarrow> 8 word \<Rightarrow> 32 word" where
  "b64_triple a b c = (push_bit 16 (ucast a) OR push_bit 8 (ucast b)) OR ucast c"

definition b64_char :: "32 word \<Rightarrow> nat \<Rightarrow> char" where
  "b64_char w k = b64_table ! unat (drop_bit k w AND 0x3F)"

text \<open>The loop over the bytes, three at a time.\<close>

fun b64_loop :: "8 word list \<Rightarrow> string" where
  "b64_loop [] = []"
| "b64_loop [a] = (let t = b64_triple a 0 0 in [b64_char t 18, b64_char t 12, CHR ''='', CHR ''=''])"
| "b64_loop [a, b] = (let t = b64_triple a b 0 in [b64_char t 18, b64_char t 12, b64_char t 6, CHR ''=''])"
| "b64_loop (a # b # c # bs) = (let t = b64_triple a b c in
     [b64_char t 18, b64_char t 12, b64_char t 6, b64_char t 0] @ b64_loop bs)"

text \<open>A negative length is no turn of the loop; below -4 the allocation fails.\<close>

definition ts_buffer_toString_base64 :: "heap \<Rightarrow> tsvalue \<Rightarrow> (addr \<times> heap) option" where
  "ts_buffer_toString_base64 h v = do {
     r \<leftarrow> as_buffer h v;
     case r of
       None \<Rightarrow> ts_string_new h []
     | Some b \<Rightarrow> do {
         _ \<leftarrow> ck32 (bf_length b + 2);
         size \<leftarrow> ck32 (c_div (bf_length b + 2) 3 * 4 + 1);
         bs \<leftarrow> (if bf_length b < 0 then if 0 < size then Some [] else None else bytes_at b 0 (bf_length b));
         ts_string_new h (b64_loop bs) } }"

subsection \<open>The invariant and the contents\<close>

definition buf_ok :: "buffer \<Rightarrow> bool" where
  "buf_ok b \<longleftrightarrow> 0 \<le> bf_length b \<and> bf_length b \<le> bf_capacity b \<and> bf_capacity b = int (length (bf_data b))"

definition buf_bytes :: "buffer \<Rightarrow> 8 word list" where
  "buf_bytes b = take (nat (bf_length b)) (bf_data b)"

definition buf_at :: "heap \<Rightarrow> tsvalue \<Rightarrow> 8 word list \<Rightarrow> bool" where
  "buf_at h v bs \<longleftrightarrow> (\<exists>p b. v = VObject p \<and> p \<noteq> 0 \<and> objs h p = Some (OBuffer b) \<and> buf_ok b \<and> buf_bytes b = bs)"

lemma length_buf_bytes: "buf_ok b \<Longrightarrow> int (length (buf_bytes b)) = bf_length b"
  by (auto simp: buf_ok_def buf_bytes_def)

lemma buffer_of_ok:
  "0 \<le> cap \<Longrightarrow> buf_ok (buffer_of bs cap) \<and> buf_bytes (buffer_of bs cap) = bs"
  by (auto simp: buf_ok_def buffer_of_def buf_bytes_def Let_def)

lemma buffer_of_sel [simp]: "bf_length (buffer_of bs cap) = int (length bs)"
  by (simp add: buffer_of_def Let_def)

lemma bytes_at_ok:
  assumes "buf_ok b" "0 \<le> off" "0 \<le> n" "off + n \<le> bf_length b"
  shows "bytes_at b off n = Some (take (nat n) (drop (nat off) (buf_bytes b)))"
  using assms by (auto simp: bytes_at_def buf_ok_def buf_bytes_def drop_take min_def nat_diff_distrib' le_nat_iff)

lemma as_buffer_at:
  assumes "buf_at h v bs"
  obtains b where "as_buffer h v = Some (Some b)" "buf_ok b" "buf_bytes b = bs" "bf_length b = int (length bs)"
  using assms length_buf_bytes by (auto simp: buf_at_def as_buffer_def tagged_def)

lemma buf_at_new:
  assumes "heap_ok h" "0 \<le> cap"
  shows "buf_at (snd (new_value h (OBuffer (buffer_of bs cap)))) (fst (new_value h (OBuffer (buffer_of bs cap)))) bs"
  using assms buffer_of_ok[of cap bs] heap_ok_fresh(4)[of h]
  by (auto simp: buf_at_def new_value_def new_obj_def)


subsection \<open>What the operations compute\<close>

lemma unat_byte: "unat (b :: 8 word) < 256"
  using unsigned_less[where ?'a = nat, of b] by simp

lemma hex_val_digit:
  assumes "n < 16" shows "hex_val (hex_digit n) = Some n"
proof -
  have "list_all (\<lambda>k. hex_val (hex_digit k) = Some k) [0..<16]"
    by (simp add: upt_rec hex_digit_def hex_val_def lower_def is_digit_def digit_val_def)
  then show ?thesis using assms by (simp add: list_all_iff)
qed

lemma hex_byte_inverse:
  "word_of_nat (16 * the (hex_val (hex_byte b ! 0)) + the (hex_val (hex_byte b ! 1))) = b"
  by (simp add: hex_byte_def hex_val_digit unat_byte less_mult_imp_div_less)

lemma hex_val_NUL: "hex_val NUL = None"
  by (simp add: hex_val_def lower_def is_digit_def)

lemma hex_byte_text: "NUL \<notin> set (hex_byte b)" "length (hex_byte b) = 2"
  using hex_val_NUL hex_val_digit[of "unat b div 16"] hex_val_digit[of "unat b mod 16"] unat_byte[of b]
  by (auto simp: hex_byte_def less_mult_imp_div_less)

text \<open>The standard decoders, as specifications.\<close>

fun hex_dec :: "string \<Rightarrow> 8 word list" where
  "hex_dec (x # y # s) = word_of_nat (16 * the (hex_val x) + the (hex_val y)) # hex_dec s"
| "hex_dec _ = []"

lemma hex_dec_enc: "hex_dec (concat (map hex_byte bs)) = bs"
proof (induction bs)
  case (Cons b bs)
  obtain x y where xy: "hex_byte b = [x, y]" by (simp add: hex_byte_def)
  then show ?case using Cons hex_byte_inverse[of b] by simp
qed simp

lemma hex_text: "NUL \<notin> set (concat (map hex_byte bs))" "length (concat (map hex_byte bs)) = 2 * length bs"
  by (induction bs) (auto simp: hex_byte_text)

lemma b64_table_distinct: "distinct b64_table" "length b64_table = 64" "CHR ''='' \<notin> set b64_table"
  "NUL \<notin> set b64_table"
  by (simp_all add: b64_table_def)

lemma std_b64_digit_nth: "i < 64 \<Longrightarrow> std_b64_digit (b64_table ! i) = i"
proof -
  have "\<forall>i \<in> set [0..<64]. std_b64_digit (b64_table ! i) = i" by (simp add: upt_rec std_b64_digit_def b64_table_def)
  then show "i < 64 \<Longrightarrow> std_b64_digit (b64_table ! i) = i" by simp
qed

text \<open>The decoder of the standard with its three bytes written out.\<close>

lemma std_b64_decode_group:
  "std_b64_decode (w # x # y # z # s) =
    (let d = std_b64_digit; n = d w * 262144 + d x * 4096 + d y * 64 + d z in
     if y = CHR ''='' then [word_of_nat ((d w * 262144 + d x * 4096) div 65536)]
     else if z = CHR ''='' then
       (let m = d w * 262144 + d x * 4096 + d y * 64 in [word_of_nat (m div 65536), word_of_nat (m div 256)])
     else word_of_nat (n div 65536) # word_of_nat (n div 256) # word_of_nat n # std_b64_decode s)"
  by (simp add: Let_def be_bytes_def upt_rec)

lemma nth_b64: "i < 64 \<Longrightarrow> b64_table ! i \<noteq> CHR ''='' \<and> b64_table ! i \<noteq> NUL"
  using b64_table_distinct nth_mem[of i b64_table] by metis

lemma unat_triple: "unat (b64_triple a b c) = unat a * 65536 + unat b * 256 + unat c"
proof -
  let ?a = "ucast a :: 32 word" and ?b = "ucast b :: 32 word" and ?c = "ucast c :: 32 word"
  have lt: "unat a < 256" "unat b < 256" "unat c < 256"
    by (rule unat_byte)+
  have u: "unat ?a = unat a" "unat ?b = unat b" "unat ?c = unat c"
    using lt by (simp_all add: unsigned_ucast_eq take_bit_nat_eq_self_iff)
  have "push_bit 8 ?b OR ?c = push_bit 8 ?b + ?c"
    by (rule sym, rule disjunctive_add) (auto simp: bit_simps dest: bit_imp_le_length)
  have "b64_triple a b c = push_bit 16 ?a + push_bit 8 ?b + ?c"
    unfolding b64_triple_def
    by (subst disjunctive_add[symmetric], force simp: bit_simps dest: bit_imp_le_length)+ simp
  also have "\<dots> = of_nat (unat a * 65536 + unat b * 256 + unat c)"
    by (simp add: push_bit_eq_mult flip: u)
  finally have e: "b64_triple a b c = word_of_nat (unat a * 65536 + unat b * 256 + unat c)" .
  have "unat (word_of_nat (unat a * 65536 + unat b * 256 + unat c) :: 32 word) =
      take_bit 32 (unat a * 65536 + unat b * 256 + unat c)"
    by (simp only: unsigned_of_nat len_num1 len_bit0 mult_1 flip: numeral.simps) simp
  moreover have "unat a * 65536 + unat b * 256 + unat c < 2 ^ 32" using lt by simp
  ultimately show ?thesis unfolding e by (simp only: take_bit_nat_eq_self)
qed

lemma b64_char_triple:
  "b64_char (b64_triple a b c) k = b64_table ! ((unat a * 65536 + unat b * 256 + unat c) div 2 ^ k mod 64)"
proof -
  have lt: "unat (b64_triple a b c) < 2 ^ 32"
    using unsigned_less[where ?'a = nat, of "b64_triple a b c"] by simp
  have "drop_bit k (b64_triple a b c) AND 0x3F = take_bit 6 (drop_bit k (b64_triple a b c))"
    by (simp add: take_bit_eq_mask mask_eq_exp_minus_1)
  then have "unat (drop_bit k (b64_triple a b c) AND 0x3F) =
      take_bit 6 (drop_bit k (take_bit 32 (unat (b64_triple a b c))))"
    by (simp add: unsigned_take_bit_eq unsigned_drop_bit_eq)
  then have "unat (drop_bit k (b64_triple a b c) AND 0x3F) = unat (b64_triple a b c) div 2 ^ k mod 64"
    using lt by (simp add: take_bit_eq_mod drop_bit_eq_div)
  then show ?thesis by (simp add: b64_char_def unat_triple)
qed


text \<open>The four base-64 digits of a number of 24 bits, and its three bytes.\<close>

lemma digits64:
  fixes n :: nat
  assumes "n < 16777216"
  shows "n div 2 ^ 18 mod 64 * 262144 + n div 2 ^ 12 mod 64 * 4096 = n div 4096 * 4096"
    "n div 4096 * 4096 + n div 2 ^ 6 mod 64 * 64 = n div 64 * 64"
    "n div 64 * 64 + n div 2 ^ 0 mod 64 = n"
proof -
  define p where "p = n div 64"
  define q where "q = p div 64"
  define r where "r = q div 64"
  have d: "n div 2 ^ 6 = p" "n div 64 = p" "n div 2 ^ 12 = q" "n div 4096 = q" "n div 2 ^ 18 = r" "n div 2 ^ 0 = n"
    by (simp_all add: p_def q_def r_def flip: div_mult2_eq)
  have "r < 64" using assms by (simp add: p_def q_def r_def less_mult_imp_div_less flip: div_mult2_eq)
  then have "r mod 64 = r" by simp
  moreover have "r * 64 + q mod 64 = q" "q * 64 + p mod 64 = p" "p * 64 + n mod 64 = n"
    by (simp_all add: p_def q_def r_def)
  ultimately show "n div 2 ^ 18 mod 64 * 262144 + n div 2 ^ 12 mod 64 * 4096 = n div 4096 * 4096"
    "n div 4096 * 4096 + n div 2 ^ 6 mod 64 * 64 = n div 64 * 64"
    "n div 64 * 64 + n div 2 ^ 0 mod 64 = n" unfolding d by linarith+
qed

lemma trunc_div:
  "(n div 4096 * 4096) div 65536 = n div (65536 :: nat)" "(n div 64 * 64) div 65536 = n div (65536 :: nat)"
  "(n div 64 * 64) div 256 = n div (256 :: nat)"
proof -
  have d: "(n div k * k) div (m * k) = n div (m * k)" if "0 < k" for k m :: nat
    using that by (simp add: mult.commute[of m] div_mult2_eq)
  show "(n div 4096 * 4096) div 65536 = n div (65536 :: nat)" "(n div 64 * 64) div 65536 = n div (65536 :: nat)"
    "(n div 64 * 64) div 256 = n div (256 :: nat)"
    using d[of 4096 16] d[of 64 1024] d[of 64 4] by simp_all
qed

lemma byte_of_mult: "(word_of_nat (k * 256 + unat b) :: 8 word) = b"
proof -
  have "(256 :: 8 word) = 0" by transfer (simp add: take_bit_eq_mod)
  then have "word_of_nat k * (256 :: 8 word) = 0" by (simp only: mult_zero_right)
  then show ?thesis by (simp only: of_nat_add of_nat_mult of_nat_numeral) simp
qed

lemma triple_bytes:
  fixes a b c :: "8 word"
  assumes "n = unat a * 65536 + unat b * 256 + unat c"
  shows "word_of_nat (n div 65536) = a" "word_of_nat (n div 256) = b" "word_of_nat n = c" "n < 16777216"
proof -
  have "n = unat a * 65536 + (unat b * 256 + unat c)" "unat b * 256 + unat c < 65536"
    using assms unat_byte[of b] unat_byte[of c] by simp_all
  then have "n div 65536 = unat a" by simp
  then show "word_of_nat (n div 65536) = a" by simp
  have "n = (unat a * 256 + unat b) * 256 + unat c" using assms by simp
  then have e: "n div 256 = unat a * 256 + unat b" using unat_byte[of c] by simp
  show "word_of_nat (n div 256) = b" unfolding e by (rule byte_of_mult)
  have e: "n = (unat a * 256 + unat b) * 256 + unat c" using assms by simp
  show "word_of_nat n = c" unfolding e by (rule byte_of_mult)
  show "n < 16777216" using assms unat_byte[of a] unat_byte[of b] unat_byte[of c] by simp
qed

lemma std_b64_loop: "std_b64_decode (b64_loop bs) = bs"
proof (induction bs rule: b64_loop.induct)
  case (2 a)
  define n where n: "n = unat a * 65536 + unat (0 :: 8 word) * 256 + unat (0 :: 8 word)"
  note t = triple_bytes[OF n]
  show ?case
    unfolding b64_loop.simps Let_def b64_char_triple n[symmetric]
    by (simp only: std_b64_decode_group simp_thms if_True Let_def std_b64_digit_nth mod_less_divisor zero_less_numeral
        digits64(1)[OF t(4)] trunc_div t)
next
  case (3 a b)
  define n where n: "n = unat a * 65536 + unat b * 256 + unat (0 :: 8 word)"
  note t = triple_bytes[OF n]
  show ?case
    unfolding b64_loop.simps Let_def b64_char_triple n[symmetric]
    by (simp only: std_b64_decode_group simp_thms if_True if_False Let_def std_b64_digit_nth nth_b64
        mod_less_divisor zero_less_numeral digits64[OF t(4)] trunc_div t)
next
  case (4 a b c bs)
  define n where n: "n = unat a * 65536 + unat b * 256 + unat c"
  note t = triple_bytes[OF n]
  show ?case
    unfolding b64_loop.simps Let_def b64_char_triple n[symmetric] append.simps
    by (simp only: std_b64_decode_group simp_thms if_True if_False Let_def std_b64_digit_nth nth_b64
        mod_less_divisor zero_less_numeral digits64[OF t(4)] t 4)
qed simp


lemma b64_loop_text: "NUL \<notin> set (b64_loop bs) \<and> length (b64_loop bs) = (length bs + 2) div 3 * 4"
proof (induction bs rule: b64_loop.induct)
  case (4 a b c bs)
  have "(length (a # b # c # bs) + 2) div 3 = Suc ((length bs + 2) div 3)" by simp
  then show ?case using 4
    by (simp add: Let_def b64_char_triple nth_b64[THEN conjunct2, THEN not_sym] del: add_2_eq_Suc')
qed (auto simp: Let_def b64_char_triple nth_b64[THEN conjunct2, THEN not_sym])

subsection \<open>Properties\<close>

text \<open>C27. Base64: the text of a buffer is four characters for every three bytes, padded, and
  the decoder of RFC 4648 reads the buffer's bytes back from it.\<close>

theorem ts_buffer_base64_roundtrip:
  assumes "heap_ok h" "buf_at h v bs" "length bs < 1000000000"
  shows "\<exists>p h' s. ts_buffer_toString_base64 h v = Some (p, h') \<and> str_at h' p s \<and>
    length s = (length bs + 2) div 3 * 4 \<and> std_b64_decode s = bs"
proof -
  obtain b where b: "as_buffer h v = Some (Some b)" "buf_ok b" "buf_bytes b = bs" "bf_length b = int (length bs)"
    using as_buffer_at[OF assms(2)] by blast
  have "bytes_at b 0 (bf_length b) = Some bs" using bytes_at_ok[OF b(2), of 0 "bf_length b"] b by simp
  moreover have "fits32 (bf_length b + 2)" "fits32 ((bf_length b + 2) div 3 * 4 + 1)"
    using assms(3) b(4) by (auto intro!: fits32I simp: int32_max_def)
  moreover have "ts_string_new h (b64_loop bs) = Some (new_str h (b64_loop bs))"
    using assms(3) b64_loop_text[of bs] by (intro ts_string_new_eq) (auto simp: int32_max_def)
  ultimately show ?thesis
    using b assms(1) b64_loop_text[of bs] std_b64_loop[of bs] str_at_new[OF assms(1), of "b64_loop bs"]
    by (auto simp: ts_buffer_toString_base64_def new_str_def)
qed

text \<open>Hex: the text of a buffer is two digits per byte and reads back as its bytes.\<close>

theorem ts_buffer_hex_roundtrip:
  assumes "heap_ok h" "buf_at h v bs" "length bs < 1000000000"
  shows "\<exists>p h' s. ts_buffer_toString_hex h v = Some (p, h') \<and> str_at h' p s \<and>
    length s = 2 * length bs \<and> hex_dec s = bs"
proof -
  obtain b where b: "as_buffer h v = Some (Some b)" "buf_ok b" "buf_bytes b = bs" "bf_length b = int (length bs)"
    using as_buffer_at[OF assms(2)] by blast
  have "bytes_at b 0 (bf_length b) = Some bs" using bytes_at_ok[OF b(2), of 0 "bf_length b"] b by simp
  moreover have "fits32 (bf_length b * 2 + 1)"
    using assms(3) b(4) by (auto intro!: fits32I simp: int32_max_def)
  moreover have "ts_string_new h (concat (map hex_byte bs)) = Some (new_str h (concat (map hex_byte bs)))"
    using assms(3) hex_text[of bs] by (intro ts_string_new_eq) (auto simp: int32_max_def)
  ultimately show ?thesis
    using b hex_text[of bs] hex_dec_enc[of bs] str_at_new[OF assms(1), of "concat (map hex_byte bs)"]
    by (auto simp: ts_buffer_toString_hex_def new_str_def)
qed

text \<open>A slice is a new buffer that holds the clamped range of the bytes and shares nothing
  with the buffer it is taken from, which keeps its contents.\<close>

theorem ts_buffer_slice_copy:
  assumes "heap_ok h" "buf_at h v bs"
  shows "\<exists>w h'. ts_buffer_slice h v start end = Some (w, h') \<and> v \<noteq> w \<and> buf_at h' v bs \<and>
    buf_at h' w (let e = (if end < 0 then length bs else min (nat end) (length bs))
                 in drop (nat start) (take e bs))"
proof -
  obtain b where b: "as_buffer h v = Some (Some b)" "buf_ok b" "buf_bytes b = bs" "bf_length b = int (length bs)"
    using as_buffer_at[OF assms(2)] by blast
  have keep: "fst (new_value h x) \<noteq> v \<and> buf_at (snd (new_value h x)) v bs" for x
    using assms heap_ok_fresh(3)[OF assms(1)] by (auto simp: buf_at_def new_value_def new_obj_def)
  have n0: "ts_buffer_new h 0 = new_value h (OBuffer (buffer_of [] 16))"
    by (simp add: ts_buffer_new_def buffer_of_def)
  define st where "st = (if start < 0 then 0 else start)"
  define en where "en = (if end < 0 \<or> end > bf_length b then bf_length b else end)"
  have e: "nat en = (if end < 0 then length bs else min (nat end) (length bs))" "0 \<le> en" "en \<le> bf_length b"
    using b(4) by (auto simp: en_def)
  have st: "nat st = nat start" "0 \<le> st" by (auto simp: st_def)
  show ?thesis
  proof (cases "st \<ge> en")
    case True
    then have "drop (nat start) (take (nat en) bs) = []" using st by simp
    then show ?thesis
      using True b(1) keep[of "OBuffer (buffer_of [] 16)"] buf_at_new[OF assms(1), of 16 "[]"]
      by (simp add: ts_buffer_slice_def Let_def n0 flip: st_def en_def e(1)) (metis prod.collapse)
  next
    case False
    define d where "d = take (nat (en - st)) (drop (nat st) bs)"
    have "bytes_at b st (en - st) = Some d" using False b e st by (simp add: bytes_at_ok d_def)
    moreover have "d = drop (nat start) (take (nat en) bs)"
      using False st e(2) by (simp add: d_def drop_take nat_diff_distrib)
    ultimately show ?thesis
      using False b(1) keep[of "OBuffer (buffer_of d 0)"] buf_at_new[OF assms(1), of 0 d]
      by (simp add: ts_buffer_slice_def Let_def flip: st_def en_def e(1)) (metis prod.collapse)
  qed
qed


subsection \<open>At a concrete buffer\<close>

definition demo_buf :: "tsvalue \<times> heap" where
  "demo_buf = new_value empty_heap (OBuffer (buffer_of [77, 97, 110, 33] 16))"

lemma demo_buf_at: "heap_ok (snd demo_buf)" "buf_at (snd demo_buf) (fst demo_buf) [77, 97, 110, 33]"
proof -
  show "heap_ok (snd demo_buf)"
    using heap_ok_new(3)[OF heap_ok_empty] by (simp add: demo_buf_def new_value_def case_prod_beta)
  show "buf_at (snd demo_buf) (fst demo_buf) [77, 97, 110, 33]"
    unfolding demo_buf_def by (rule buf_at_new) simp_all
qed

lemma ts_buffer_base64_roundtrip_witness:
  "\<exists>p h' s. ts_buffer_toString_base64 (snd demo_buf) (fst demo_buf) = Some (p, h') \<and> str_at h' p s \<and>
    length s = 8 \<and> std_b64_decode s = [77, 97, 110, 33]"
  using ts_buffer_base64_roundtrip[OF demo_buf_at] by simp

lemma ts_buffer_hex_roundtrip_witness:
  "\<exists>p h' s. ts_buffer_toString_hex (snd demo_buf) (fst demo_buf) = Some (p, h') \<and> str_at h' p s \<and>
    length s = 8 \<and> hex_dec s = [77, 97, 110, 33]"
  using ts_buffer_hex_roundtrip[OF demo_buf_at] by simp

lemma ts_buffer_slice_copy_witness:
  "\<exists>w h'. ts_buffer_slice (snd demo_buf) (fst demo_buf) 1 3 = Some (w, h') \<and> fst demo_buf \<noteq> w \<and>
    buf_at h' (fst demo_buf) [77, 97, 110, 33] \<and> buf_at h' w [97, 110]"
  using ts_buffer_slice_copy[OF demo_buf_at, of 1 3] by (simp add: numeral_eq_Suc)

end
