(* ===== verification/Ts_Hashmap.thy ===== *)
theory Ts_Hashmap
  imports Ts_Array
begin

text \<open>
  \<^verbatim>\<open>runtime/src/hashmap.c\<close>: an open-addressing table with linear probing, the djb2 hash on 32-bit
  words and doubling at a load of three quarters. The operations are functions on the table's
  record; \<open>hm_ok\<close> is its invariant and \<open>hm_lookup\<close> the finite map it stands for. The probe
  loops may run for ever on a full table, so they are \<open>partial_function\<close>s, and that they stop
  on every table the operations build is part of what is proved.
\<close>

definition HASHMAP_INITIAL_CAPACITY :: int where
  "HASHMAP_INITIAL_CAPACITY = 64"

subsection \<open>Hashing\<close>

definition hash_step :: "32 word \<Rightarrow> char \<Rightarrow> 32 word" where
  "hash_step hash c = (push_bit 5 hash + hash) + word_of_nat (of_char c)"

definition hash_string :: "string \<Rightarrow> 32 word" where
  "hash_string str = foldl hash_step 5381 (cstr str)"

type_synonym 'v entries = "(string \<times> 'v) option list"

text \<open>The slot a key is looked for first: \<^verbatim>\<open>hash_string(key->data) % map->capacity\<close>.\<close>

definition home :: "int \<Rightarrow> string \<Rightarrow> nat" where
  "home cap key = unat (hash_string key) mod nat cap"

text \<open>
  The probe loop: on from \<open>idx\<close> while the entry is occupied by another key.
\<close>

partial_function (option) probe :: "'v entries \<Rightarrow> int \<Rightarrow> string \<Rightarrow> nat \<Rightarrow> nat option" where
  "probe es cap key idx =
    (if idx < length es then
       (case es ! idx of
          None \<Rightarrow> Some idx
        | Some (k, v) \<Rightarrow> if k = key then Some idx else probe es cap key ((idx + 1) mod nat cap))
     else None)"

subsection \<open>Operations\<close>

definition ts_hashmap_new :: "'v hashmap" where
  "ts_hashmap_new = \<lparr>m_refcount = 1, m_size = 0, m_capacity = HASHMAP_INITIAL_CAPACITY,
     m_entries = replicate (nat HASHMAP_INITIAL_CAPACITY) None\<rparr>"

text \<open>The tail of \<^verbatim>\<open>ts_hashmap_set\<close>: probe, store, count a new entry.\<close>

definition hm_store :: "'v hashmap \<Rightarrow> string \<Rightarrow> 'v \<Rightarrow> 'v hashmap option" where
  "hm_store m key v = do {
     idx \<leftarrow> probe (m_entries m) (m_capacity m) key (home (m_capacity m) key);
     let was_new = (m_entries m ! idx = None);
     Some (m\<lparr>m_entries := (m_entries m)[idx := Some (key, v)],
             m_size := (if was_new then m_size m + 1 else m_size m)\<rparr>) }"

text \<open>\<^verbatim>\<open>(int32_t)(map->capacity * 0.75)\<close>\<close>

definition load_limit :: "int \<Rightarrow> int" where
  "load_limit cap = c_div (3 * cap) 4"

text \<open>A table of twice the capacity with the old entries set again, one by one.\<close>

definition hm_grow :: "('v hashmap \<Rightarrow> string \<Rightarrow> 'v \<Rightarrow> 'v hashmap option) \<Rightarrow> 'v hashmap \<Rightarrow> 'v hashmap option" where
  "hm_grow put m = do {
     cap \<leftarrow> ck32 (m_capacity m * 2);
     foldo (\<lambda>m' e. case e of None \<Rightarrow> Some m' | Some (k, v) \<Rightarrow> put m' k v)
       (m\<lparr>m_capacity := cap, m_entries := replicate (nat cap) None, m_size := 0\<rparr>)
       (m_entries m) }"

lemma foldo_mono [partial_function_mono]:
  assumes "\<And>a x. mono_option (\<lambda>f. F f a x)"
  shows "mono_option (\<lambda>f. foldo (F f) a xs)"
proof (induction xs arbitrary: a)
  case Nil
  show ?case by (simp add: monotone_def option.leq_refl)
next
  case (Cons x xs)
  show ?case
    unfolding foldo.simps by (rule bind_mono [OF assms Cons])
qed

lemma hm_grow_mono [partial_function_mono]:
  "mono_option (\<lambda>f. hm_grow (\<lambda>m k v. f ((m, k), v)) m)"
proof -
  have "mono_option (\<lambda>f. case x of None \<Rightarrow> Some a | Some (k, v) \<Rightarrow> f ((a, k), v))" for x a
    by (cases x) (auto intro: partial_function_mono)
  then show ?thesis
    unfolding hm_grow_def by (intro bind_mono foldo_mono option.const_mono)
qed

partial_function (option) ts_hashmap_set :: "'v hashmap \<Rightarrow> string \<Rightarrow> 'v \<Rightarrow> 'v hashmap option" where
  "ts_hashmap_set m key v = do {
     m1 \<leftarrow> (if m_size m \<ge> load_limit (m_capacity m) then hm_grow ts_hashmap_set m else Some m);
     hm_store m1 key v }"

definition ts_hashmap_resize :: "'v hashmap \<Rightarrow> 'v hashmap option" where
  "ts_hashmap_resize = hm_grow ts_hashmap_set"

definition ts_hashmap_find :: "'v hashmap \<Rightarrow> string \<Rightarrow> 'v option option" where
  "ts_hashmap_find m key = do {
     idx \<leftarrow> probe (m_entries m) (m_capacity m) key (home (m_capacity m) key);
     Some (map_option snd (m_entries m ! idx)) }"

definition ts_hashmap_get :: "tsvalue hashmap \<Rightarrow> string \<Rightarrow> tsvalue option" where
  "ts_hashmap_get m key = do {
     r \<leftarrow> ts_hashmap_find m key;
     Some (case r of Some v \<Rightarrow> v | None \<Rightarrow> ts_value_undefined) }"

definition ts_hashmap_has :: "'v hashmap \<Rightarrow> string \<Rightarrow> bool option" where
  "ts_hashmap_has m key = do { r \<leftarrow> ts_hashmap_find m key; Some (r \<noteq> None) }"

definition ts_hashmap_for_each ::
  "'v hashmap \<Rightarrow> (string \<Rightarrow> 'v \<Rightarrow> 'c \<Rightarrow> 'c option) \<Rightarrow> 'c \<Rightarrow> 'c option" where
  "ts_hashmap_for_each m callback ctx =
    foldo (\<lambda>c e. case e of None \<Rightarrow> Some c | Some (k, v) \<Rightarrow> callback k v c) ctx (m_entries m)"

definition ts_hashmap_count :: "'v hashmap \<Rightarrow> int" where
  "ts_hashmap_count m = int (length (filter (\<lambda>e. e \<noteq> None) (m_entries m)))"

subsection \<open>The invariant and the map\<close>

definition hm_pairs :: "'v entries \<Rightarrow> (string \<times> 'v) list" where
  "hm_pairs es = map the (filter (\<lambda>e. e \<noteq> None) es)"

definition hm_lookup :: "'v hashmap \<Rightarrow> string \<Rightarrow> 'v option" where
  "hm_lookup m = map_of (hm_pairs (m_entries m))"

definition slot :: "int \<Rightarrow> string \<Rightarrow> nat \<Rightarrow> nat" where
  "slot cap key d = (home cap key + d) mod nat cap"

text \<open>
  A key sits in one slot only, and every slot a search for it passes before is occupied.
\<close>

definition uniq_keys :: "'v entries \<Rightarrow> bool" where
  "uniq_keys es \<longleftrightarrow> (\<forall>i < length es. \<forall>j < length es. \<forall>k v w.
     es ! i = Some (k, v) \<longrightarrow> es ! j = Some (k, w) \<longrightarrow> i = j)"

definition chained :: "int \<Rightarrow> 'v entries \<Rightarrow> bool" where
  "chained cap es \<longleftrightarrow> (\<forall>i < length es. \<forall>k v. es ! i = Some (k, v) \<longrightarrow>
     (\<exists>d < length es. slot cap k d = i \<and> (\<forall>j < d. es ! slot cap k j \<noteq> None)))"

definition hm_ok :: "'v hashmap \<Rightarrow> bool" where
  "hm_ok m \<longleftrightarrow> 2 \<le> m_capacity m \<and> m_capacity m \<le> int32_max \<and>
     m_capacity m = int (length (m_entries m)) \<and>
     m_size m = int (length (hm_pairs (m_entries m))) \<and>
     m_size m \<le> load_limit (m_capacity m) \<and>
     uniq_keys (m_entries m) \<and> chained (m_capacity m) (m_entries m)"

lemma load_limit_eq: "0 \<le> cap \<Longrightarrow> load_limit cap = (3 * cap) div 4"
  by (simp add: load_limit_def)

lemma hm_pairs_simps [simp]:
  "hm_pairs [] = []" "hm_pairs (None # es) = hm_pairs es" "hm_pairs (Some x # es) = x # hm_pairs es"
  "hm_pairs (es @ fs) = hm_pairs es @ hm_pairs fs" "hm_pairs (replicate n None) = []"
  by (simp_all add: hm_pairs_def)

lemma set_hm_pairs: "x \<in> set (hm_pairs es) \<longleftrightarrow> Some x \<in> set es"
  by (force simp: hm_pairs_def)

lemma length_hm_pairs_le: "length (hm_pairs es) \<le> length es"
  by (simp add: hm_pairs_def)

lemma hm_pairs_full: "length (hm_pairs es) < length es \<Longrightarrow> \<exists>i < length es. es ! i = None"
proof (rule ccontr)
  assume lt: "length (hm_pairs es) < length es" and "\<not> (\<exists>i < length es. es ! i = None)"
  then have "\<forall>e \<in> set es. e \<noteq> None" by (auto simp: in_set_conv_nth)
  then have "filter (\<lambda>e. e \<noteq> None) es = es" by simp
  with lt show False by (simp add: hm_pairs_def)
qed

lemma length_hm_pairs_new:
  "i < length es \<Longrightarrow> es ! i = None \<Longrightarrow> length (hm_pairs (es[i := Some x])) = Suc (length (hm_pairs es))"
proof -
  assume i: "i < length es" "es ! i = None"
  then have "es = take i es @ None # drop (Suc i) es" by (metis id_take_nth_drop)
  then have "length (hm_pairs es) = length (hm_pairs (take i es)) + length (hm_pairs (drop (Suc i) es))"
    by (metis hm_pairs_simps(2,4) length_append)
  with i show ?thesis by (simp add: upd_conv_take_nth_drop)
qed

lemma length_hm_pairs_old:
  "i < length es \<Longrightarrow> es ! i = Some y \<Longrightarrow> length (hm_pairs (es[i := Some x])) = length (hm_pairs es)"
proof -
  assume i: "i < length es" "es ! i = Some y"
  then have "es = take i es @ Some y # drop (Suc i) es" by (metis id_take_nth_drop)
  then have "length (hm_pairs es) = length (hm_pairs (take i es)) + Suc (length (hm_pairs (drop (Suc i) es)))"
    by (metis hm_pairs_simps(3,4) length_append length_Cons)
  with i show ?thesis by (simp add: upd_conv_take_nth_drop)
qed

lemma uniq_keys_Cons: "uniq_keys (e # es) \<Longrightarrow> uniq_keys es"
  unfolding uniq_keys_def by (metis Suc_less_eq length_Cons nat.inject nth_Cons_Suc)

lemma uniq_keys_head:
  assumes "uniq_keys (Some (k, v) # es)" shows "Some (k, w) \<notin> set es"
proof
  assume "Some (k, w) \<in> set es"
  then obtain i where "i < length es" "es ! i = Some (k, w)" by (auto simp: in_set_conv_nth)
  with assms have "0 = Suc i"
    unfolding uniq_keys_def by (metis Suc_less_eq length_Cons nth_Cons_0 nth_Cons_Suc zero_less_Suc)
  then show False by simp
qed

lemma distinct_hm_pairs: "uniq_keys es \<Longrightarrow> distinct (map fst (hm_pairs es))"
proof (induction es)
  case (Cons e es)
  then have IH: "distinct (map fst (hm_pairs es))" using uniq_keys_Cons by blast
  show ?case
  proof (cases e)
    case (Some kv)
    obtain k v where "kv = (k, v)" by (cases kv)
    with Some Cons.prems IH show ?thesis by (auto simp: set_hm_pairs dest: uniq_keys_head)
  qed (use IH in simp)
qed simp

lemma hm_lookup_Some:
  "uniq_keys (m_entries m) \<Longrightarrow> hm_lookup m k = Some v \<longleftrightarrow> Some (k, v) \<in> set (m_entries m)"
  by (simp add: hm_lookup_def map_of_eq_Some_iff distinct_hm_pairs set_hm_pairs)

lemma hm_lookup_None:
  "hm_lookup m k = None \<longleftrightarrow> (\<forall>v. Some (k, v) \<notin> set (m_entries m))"
proof -
  have "hm_lookup m k = None \<longleftrightarrow> k \<notin> fst ` set (hm_pairs (m_entries m))"
    by (simp add: hm_lookup_def map_of_eq_None_iff)
  also have "\<dots> \<longleftrightarrow> (\<forall>v. Some (k, v) \<notin> set (m_entries m))"
    by (force simp flip: set_hm_pairs)
  finally show ?thesis .
qed

subsection \<open>Probing\<close>

definition stops :: "'v entries \<Rightarrow> string \<Rightarrow> nat \<Rightarrow> bool" where
  "stops es key i \<longleftrightarrow> (case es ! i of None \<Rightarrow> True | Some (k, v) \<Rightarrow> k = key)"

lemma probe_hits:
  assumes "nat cap = length es" "idx < length es"
    and "stops es key ((idx + d) mod length es)"
    and "\<And>j. j < d \<Longrightarrow> \<not> stops es key ((idx + j) mod length es)"
  shows "probe es cap key idx = Some ((idx + d) mod length es)"
  using assms
proof (induction d arbitrary: idx)
  case 0
  then show ?case by (subst probe.simps) (auto simp: stops_def split: option.splits)
next
  case (Suc d)
  let ?i = "(idx + 1) mod length es"
  have "0 < length es" using Suc.prems(2) by linarith
  then have i: "?i < length es" by simp
  have sh: "(?i + j) mod length es = (idx + Suc j) mod length es" for j
    by (simp add: mod_add_left_eq)
  have "probe es cap key ?i = Some ((?i + d) mod length es)"
  proof (rule Suc.IH [OF Suc.prems(1) i])
    show "stops es key ((?i + d) mod length es)" unfolding sh by (rule Suc.prems(3))
  next
    fix j assume "j < d"
    then show "\<not> stops es key ((?i + j) mod length es)" unfolding sh by (intro Suc.prems(4)) simp
  qed
  moreover have "\<not> stops es key idx" using Suc.prems(4) [of 0] Suc.prems(2) by simp
  ultimately show ?case
    using Suc.prems(1,2) sh [of d]
    by (subst probe.simps) (auto simp: stops_def split: option.splits)
qed

lemma hm_ok_basic:
  assumes "hm_ok m"
  shows "nat (m_capacity m) = length (m_entries m)" "0 < length (m_entries m)"
    "home (m_capacity m) k < length (m_entries m)"
    "slot (m_capacity m) k d = (home (m_capacity m) k + d) mod length (m_entries m)"
    "slot (m_capacity m) k d < length (m_entries m)"
proof -
  show n: "nat (m_capacity m) = length (m_entries m)" "0 < length (m_entries m)"
    using assms by (auto simp: hm_ok_def)
  from n show "home (m_capacity m) k < length (m_entries m)" by (simp add: home_def)
  from n show s: "slot (m_capacity m) k d = (home (m_capacity m) k + d) mod length (m_entries m)"
    by (simp add: slot_def)
  with n show "slot (m_capacity m) k d < length (m_entries m)" by simp
qed

text \<open>A key of the table is found where it sits.\<close>

lemma probe_present:
  assumes ok: "hm_ok m" and i: "i < length (m_entries m)" "m_entries m ! i = Some (k, v)"
  shows "probe (m_entries m) (m_capacity m) k (home (m_capacity m) k) = Some i"
proof -
  let ?es = "m_entries m"
  note b = hm_ok_basic [OF ok]
  from ok i obtain d where d: "d < length ?es" "slot (m_capacity m) k d = i"
    "\<forall>j < d. ?es ! slot (m_capacity m) k j \<noteq> None"
    unfolding hm_ok_def chained_def by blast
  have "\<not> stops ?es k (slot (m_capacity m) k j)" if j: "j < d" for j
  proof
    assume st: "stops ?es k (slot (m_capacity m) k j)"
    from d(3) j obtain kw where kw: "?es ! slot (m_capacity m) k j = Some kw" by auto
    with st obtain w where "kw = (k, w)" by (cases kw) (auto simp: stops_def)
    with kw i b(5) ok have "slot (m_capacity m) k j = i" unfolding hm_ok_def uniq_keys_def by metis
    with d(2) have "(home (m_capacity m) k + j) mod length ?es = (home (m_capacity m) k + d) mod length ?es"
      by (simp add: b)
    then have "length ?es dvd (home (m_capacity m) k + d) - (home (m_capacity m) k + j)"
      using j by (metis add_le_cancel_left less_imp_le mod_eq_dvd_iff_nat)
    with j d(1) show False by (auto dest: dvd_imp_le)
  qed
  moreover have "stops ?es k (slot (m_capacity m) k d)" using d(2) i(2) by (simp add: stops_def)
  ultimately show ?thesis
    using probe_hits [OF b(1) b(3) [of k], where key = k and d = d] d(2) by (simp add: b)
qed

text \<open>The search for a key the table does not hold ends at a free slot on its path.\<close>

lemma probe_absent:
  assumes ok: "hm_ok m" and no: "hm_lookup m k = None"
  obtains d where "d < length (m_entries m)"
    "probe (m_entries m) (m_capacity m) k (home (m_capacity m) k) = Some (slot (m_capacity m) k d)"
    "m_entries m ! slot (m_capacity m) k d = None"
    "\<And>j. j < d \<Longrightarrow> m_entries m ! slot (m_capacity m) k j \<noteq> None"
proof -
  let ?es = "m_entries m" and ?n = "length (m_entries m)" and ?h = "home (m_capacity m) k"
  note b = hm_ok_basic [OF ok]
  have "length (hm_pairs ?es) < ?n"
    using ok b(2) by (auto simp: hm_ok_def load_limit_eq)
  then obtain f where f: "f < ?n" "?es ! f = None" using hm_pairs_full by blast
  let ?d0 = "(f + ?n - ?h) mod ?n"
  have "?h + (f + ?n - ?h) = f + ?n" using b(3) [of k] by linarith
  then have "(?h + ?d0) mod ?n = f" using f(1) by (simp add: mod_add_right_eq)
  with f(2) have ex: "?es ! slot (m_capacity m) k ?d0 = None" by (simp add: b)
  define d where "d = (LEAST d. ?es ! slot (m_capacity m) k d = None)"
  have free: "?es ! slot (m_capacity m) k d = None" unfolding d_def by (rule LeastI, rule ex)
  have occ: "?es ! slot (m_capacity m) k j \<noteq> None" if "j < d" for j
    using that not_less_Least unfolding d_def by blast
  have "d \<le> ?d0" unfolding d_def by (rule Least_le, rule ex)
  then have dn: "d < ?n" using b(2) by (meson le_less_trans mod_less_divisor)
  have "\<not> stops ?es k (slot (m_capacity m) k j)" if "j < d" for j
  proof
    assume "stops ?es k (slot (m_capacity m) k j)"
    with occ [OF that] obtain w where "?es ! slot (m_capacity m) k j = Some (k, w)"
      by (auto simp: stops_def split: option.splits)
    with no b(5) [of k j] show False by (auto simp: hm_lookup_None dest!: nth_mem)
  qed
  then have "probe ?es (m_capacity m) k ?h = Some (slot (m_capacity m) k d)"
    using probe_hits [OF b(1) b(3) [of k], where key = k and d = d] free by (simp add: b stops_def)
  with dn free occ that show thesis by blast
qed

subsection \<open>Storing\<close>

lemma option_eq_iff: "(\<And>w. a = Some w \<longleftrightarrow> b = Some w) \<Longrightarrow> a = b"
  by (cases a; cases b) auto

lemma entries_update:
  fixes es :: "'v entries"
  assumes u: "uniq_keys es" and c: "chained cap es" and i: "i < length es"
    and own: "\<And>k' w. es ! i = Some (k', w) \<Longrightarrow> k' = k"
    and only: "\<And>j w. j < length es \<Longrightarrow> es ! j = Some (k, w) \<Longrightarrow> j = i"
    and path: "d < length es" "slot cap k d = i" "\<And>j. j < d \<Longrightarrow> es ! slot cap k j \<noteq> None"
  shows "uniq_keys (es[i := Some (k, v)])" "chained cap (es[i := Some (k, v)])"
    and "k' \<noteq> k \<Longrightarrow> Some (k', w) \<in> set (es[i := Some (k, v)]) \<longleftrightarrow> Some (k', w) \<in> set es"
proof -
  let ?es = "es[i := Some (k, v)]"
  show "uniq_keys ?es"
    unfolding uniq_keys_def
  proof (intro allI impI)
    fix a b k' x y
    assume ab: "a < length ?es" "b < length ?es" "?es ! a = Some (k', x)" "?es ! b = Some (k', y)"
    show "a = b"
    proof (cases "k' = k")
      case True
      have "a = i" if "a \<noteq> i" using that ab only [of a x] True by simp
      moreover have "b = i" if "b \<noteq> i" using that ab only [of b y] True by simp
      ultimately show ?thesis by blast
    next
      case False
      then have "a \<noteq> i" "b \<noteq> i" using ab i by auto
      with ab u show ?thesis unfolding uniq_keys_def by simp
    qed
  qed
  have keep: "?es ! j \<noteq> None" if "es ! j \<noteq> None" for j
    using that i by (cases "j = i") auto
  show "chained cap ?es"
    unfolding chained_def
  proof (intro allI impI)
    fix a k' x assume a: "a < length ?es" "?es ! a = Some (k', x)"
    show "\<exists>d < length ?es. slot cap k' d = a \<and> (\<forall>j < d. ?es ! slot cap k' j \<noteq> None)"
    proof (cases "a = i")
      case True
      with a i have "k' = k" by simp
      with True path keep show ?thesis by auto
    next
      case False
      with a have "a < length es" "es ! a = Some (k', x)" by auto
      with c obtain d' where "d' < length es" "slot cap k' d' = a" "\<forall>j < d'. es ! slot cap k' j \<noteq> None"
        unfolding chained_def by blast
      with keep show ?thesis by auto
    qed
  qed
  assume ne: "k' \<noteq> k"
  have "es ! j = Some (k', w) \<longleftrightarrow> ?es ! j = Some (k', w)" if "j < length es" for j
    using ne own that by (cases "j = i") auto
  then show "Some (k', w) \<in> set ?es \<longleftrightarrow> Some (k', w) \<in> set es"
    by (auto simp: in_set_conv_nth)
qed

lemma hm_store_ok:
  fixes m :: "'v hashmap"
  assumes ok: "hm_ok m" and room: "m_size m < load_limit (m_capacity m)"
  shows "\<exists>m'. hm_store m k v = Some m' \<and> hm_ok m' \<and> hm_lookup m' = (hm_lookup m)(k \<mapsto> v) \<and>
    m_capacity m' = m_capacity m \<and>
    m_size m' = m_size m + (if hm_lookup m k = None then 1 else 0)"
proof -
  let ?es = "m_entries m" and ?cap = "m_capacity m"
  have u: "uniq_keys ?es" and c: "chained ?cap ?es" using ok by (auto simp: hm_ok_def)
  obtain i d where i: "probe ?es ?cap k (home ?cap k) = Some i" "i < length ?es"
    and own: "\<And>k' w. ?es ! i = Some (k', w) \<Longrightarrow> k' = k"
    and only: "\<And>j w. j < length ?es \<Longrightarrow> ?es ! j = Some (k, w) \<Longrightarrow> j = i"
    and path: "d < length ?es" "slot ?cap k d = i" "\<And>j. j < d \<Longrightarrow> ?es ! slot ?cap k j \<noteq> None"
    and none: "?es ! i = None \<longleftrightarrow> hm_lookup m k = None"
  proof (cases "hm_lookup m k")
    case None
    from probe_absent [OF ok None] obtain d where d: "d < length ?es"
      "probe ?es ?cap k (home ?cap k) = Some (slot ?cap k d)" "?es ! slot ?cap k d = None"
      "\<And>j. j < d \<Longrightarrow> ?es ! slot ?cap k j \<noteq> None" by blast
    have no: "j < length ?es \<Longrightarrow> ?es ! j \<noteq> Some (k, w)" for j w
      using None by (metis hm_lookup_None nth_mem)
    show thesis
      by (rule that [of "slot ?cap k d" d]) (use d None no hm_ok_basic(5) [OF ok] in auto)
  next
    case (Some w)
    then have "Some (k, w) \<in> set ?es" using u by (simp add: hm_lookup_Some)
    then obtain i where i: "i < length ?es" "?es ! i = Some (k, w)" by (auto simp: in_set_conv_nth)
    from c i obtain d where d: "d < length ?es" "slot ?cap k d = i"
      "\<forall>j < d. ?es ! slot ?cap k j \<noteq> None" unfolding chained_def by blast
    have only: "j < length ?es \<Longrightarrow> ?es ! j = Some (k, w') \<Longrightarrow> j = i" for j w'
      using u i unfolding uniq_keys_def by metis
    show thesis
    proof (rule that [of i d])
      show "probe ?es ?cap k (home ?cap k) = Some i" by (rule probe_present [OF ok i])
      show "i < length ?es" by (rule i(1))
      show "k' = k" if "?es ! i = Some (k', w)" for k' w using that i by simp
      show "j = i" if "j < length ?es" "?es ! j = Some (k, w)" for j w using only that by blast
      show "d < length ?es" "slot ?cap k d = i" by (fact d(1), fact d(2))
      show "?es ! slot ?cap k j \<noteq> None" if "j < d" for j using d(3) that by blast
      show "?es ! i = None \<longleftrightarrow> hm_lookup m k = None" using i Some by simp
    qed
  qed
  let ?es' = "?es[i := Some (k, v)]"
  let ?m' = "m\<lparr>m_entries := ?es', m_size := (if ?es ! i = None then m_size m + 1 else m_size m)\<rparr>"
  note upd = entries_update [OF u c i(2) own only path, where v = v]
  have size: "int (length (hm_pairs ?es')) = (if ?es ! i = None then m_size m + 1 else m_size m)"
    using ok i(2) length_hm_pairs_new [of i ?es] length_hm_pairs_old [of i ?es]
    by (cases "?es ! i") (auto simp: hm_ok_def)
  have "hm_lookup ?m' k' = ((hm_lookup m)(k \<mapsto> v)) k'" for k'
  proof (rule option_eq_iff)
    fix w
    show "hm_lookup ?m' k' = Some w \<longleftrightarrow> ((hm_lookup m)(k \<mapsto> v)) k' = Some w"
    proof (cases "k' = k")
      case True
      have "Some (k, v) \<in> set ?es'" using i(2) by (simp add: set_update_memI)
      then have "hm_lookup ?m' k = Some v" using upd(1) by (simp add: hm_lookup_Some)
      with True show ?thesis by simp
    next
      case False
      then show ?thesis using upd(1,3) u by (simp add: hm_lookup_Some)
    qed
  qed
  moreover have "hm_ok ?m'" using ok upd(1,2) size room by (simp add: hm_ok_def)
  moreover have "hm_store m k v = Some ?m'" using i by (simp add: hm_store_def Let_def)
  ultimately show ?thesis using none by (intro exI [of _ ?m']) auto
qed

subsection \<open>Growing\<close>

definition set_entry :: "'v hashmap \<Rightarrow> (string \<times> 'v) option \<Rightarrow> 'v hashmap option" where
  "set_entry m e = (case e of None \<Rightarrow> Some m | Some (k, v) \<Rightarrow> ts_hashmap_set m k v)"

lemma set_entry_simps [simp]:
  "set_entry m None = Some m" "set_entry m (Some (k, v)) = ts_hashmap_set m k v"
  by (simp_all add: set_entry_def)

lemma set_no_grow:
  assumes "m_size m < load_limit (m_capacity m)"
  shows "ts_hashmap_set m k v = hm_store m k v"
  using assms by (subst ts_hashmap_set.simps) simp

lemma reinsert:
  assumes "hm_ok m" "m_size m + int (length (hm_pairs es)) \<le> load_limit (m_capacity m)"
    and "distinct (map fst (hm_pairs es))"
  shows "\<exists>m'. foldo set_entry m es = Some m' \<and> hm_ok m' \<and>
    hm_lookup m' = hm_lookup m ++ map_of (hm_pairs es) \<and> m_capacity m' = m_capacity m \<and>
    m_size m' \<le> m_size m + int (length (hm_pairs es))"
  using assms
proof (induction es arbitrary: m)
  case (Cons e es)
  show ?case
  proof (cases e)
    case None
    with Cons show ?thesis by (simp add: set_entry_def)
  next
    case (Some kv)
    obtain k v where kv: "kv = (k, v)" by (cases kv)
    have room: "m_size m < load_limit (m_capacity m)" using Cons.prems Some by simp
    from hm_store_ok [OF Cons.prems(1) room, of k v] obtain m1 where m1:
      "hm_store m k v = Some m1" "hm_ok m1" "hm_lookup m1 = (hm_lookup m)(k \<mapsto> v)"
      "m_capacity m1 = m_capacity m" "m_size m1 \<le> m_size m + 1" by (auto split: if_splits)
    have "\<exists>m2. foldo set_entry m1 es = Some m2 \<and> hm_ok m2 \<and>
      hm_lookup m2 = hm_lookup m1 ++ map_of (hm_pairs es) \<and> m_capacity m2 = m_capacity m1 \<and>
      m_size m2 \<le> m_size m1 + int (length (hm_pairs es))"
      using Cons.prems Some m1 by (intro Cons.IH) auto
    then obtain m2 where m2: "foldo set_entry m1 es = Some m2" "hm_ok m2"
      "hm_lookup m2 = hm_lookup m1 ++ map_of (hm_pairs es)" "m_capacity m2 = m_capacity m1"
      "m_size m2 \<le> m_size m1 + int (length (hm_pairs es))" by blast
    have "k \<notin> fst ` set (hm_pairs es)" using Cons.prems(3) Some kv by auto
    then have "map_of (hm_pairs es) k = None" by (simp add: map_of_eq_None_iff)
    then have "(hm_lookup m)(k \<mapsto> v) ++ map_of (hm_pairs es) = hm_lookup m ++ map_of (hm_pairs (e # es))"
      using Some kv by (auto simp: fun_eq_iff map_add_def split: option.split)
    with m1 m2 have lk: "hm_lookup m2 = hm_lookup m ++ map_of (hm_pairs (e # es))"
      by (simp only: m1(3) m2(3))
    have fo: "foldo set_entry m (e # es) = Some m2"
      using Some kv room m1(1) m2(1) by (simp add: set_no_grow)
    have sz: "m_size m2 \<le> m_size m + int (length (hm_pairs (e # es)))" using m1 m2 Some by simp
    show ?thesis
      by (rule exI [of _ m2], intro conjI) (fact fo, fact m2(2), fact lk, simp add: m1 m2, fact sz)
  qed
qed simp

lemma hm_grow_ok:
  assumes ok: "hm_ok m" and cap: "2 * m_capacity m \<le> int32_max"
  shows "\<exists>m'. hm_grow ts_hashmap_set m = Some m' \<and> hm_ok m' \<and> hm_lookup m' = hm_lookup m \<and>
    m_capacity m' = 2 * m_capacity m \<and> m_size m' \<le> m_size m"
proof -
  let ?c = "m_capacity m * 2"
  let ?m0 = "m\<lparr>m_capacity := ?c, m_entries := replicate (nat ?c) None, m_size := 0\<rparr>"
  have c: "2 \<le> m_capacity m" "m_size m = int (length (hm_pairs (m_entries m)))"
    "m_size m \<le> load_limit (m_capacity m)" "uniq_keys (m_entries m)"
    using ok by (auto simp: hm_ok_def)
  have "hm_ok ?m0"
    using c cap by (auto simp: hm_ok_def uniq_keys_def chained_def load_limit_eq)
  moreover have "m_size ?m0 + int (length (hm_pairs (m_entries m))) \<le> load_limit (m_capacity ?m0)"
    using c by (simp add: load_limit_eq)
  ultimately obtain m' where m': "foldo set_entry ?m0 (m_entries m) = Some m'" "hm_ok m'"
    "hm_lookup m' = hm_lookup ?m0 ++ map_of (hm_pairs (m_entries m))"
    "m_capacity m' = ?c" "m_size m' \<le> int (length (hm_pairs (m_entries m)))"
    using reinsert [of ?m0 "m_entries m"] distinct_hm_pairs [OF c(4)] by auto
  have "fits32 ?c" using c cap by (intro fits32I) auto
  moreover have "set_entry = (\<lambda>(m' :: 'a hashmap) e. case e of None \<Rightarrow> Some m' | Some (k, v) \<Rightarrow> ts_hashmap_set m' k v)"
    by (simp add: fun_eq_iff set_entry_def)
  ultimately have "hm_grow ts_hashmap_set m = Some m'" using m'(1) by (simp add: hm_grow_def)
  moreover have "hm_lookup m' = hm_lookup m" using m'(3) by (simp add: hm_lookup_def)
  ultimately show ?thesis using m' c by auto
qed

subsection \<open>The operations on a table in use\<close>

lemma m_size_card:
  assumes "hm_ok m" shows "m_size m = int (card (dom (hm_lookup m)))"
proof -
  have d: "distinct (map fst (hm_pairs (m_entries m)))" using assms by (simp add: hm_ok_def distinct_hm_pairs)
  have "card (dom (hm_lookup m)) = card (set (map fst (hm_pairs (m_entries m))))"
    by (simp add: hm_lookup_def dom_map_of_conv_image_fst)
  also have "\<dots> = length (hm_pairs (m_entries m))" using distinct_card [OF d] by simp
  finally show ?thesis using assms by (simp add: hm_ok_def)
qed

text \<open>
  The table only grows when it is three quarters full, so its capacity is bounded by its
  size; below the limit, doubling it does not overflow.
\<close>

definition hm_inv :: "'v hashmap \<Rightarrow> bool" where
  "hm_inv m \<longleftrightarrow> hm_ok m \<and> (m_capacity m \<le> HASHMAP_INITIAL_CAPACITY \<or> 3 * m_capacity m \<le> 8 * m_size m + 6)"

definition HM_LIMIT :: nat where
  "HM_LIMIT = 268435456"

lemma hm_inv_ok: "hm_inv m \<Longrightarrow> hm_ok m"
  by (simp add: hm_inv_def)

lemma hm_inv_new [simp]: "hm_inv ts_hashmap_new"
  by (simp add: hm_inv_def hm_ok_def ts_hashmap_new_def HASHMAP_INITIAL_CAPACITY_def int32_max_def
      load_limit_eq uniq_keys_def chained_def)

lemma hm_lookup_new [simp]: "hm_lookup ts_hashmap_new = Map.empty"
  by (simp add: hm_lookup_def ts_hashmap_new_def)

lemma hm_set_ok:
  assumes inv: "hm_inv m" and lim: "card (dom (hm_lookup m)) < HM_LIMIT"
  shows "\<exists>m'. ts_hashmap_set m k v = Some m' \<and> hm_inv m' \<and> hm_lookup m' = (hm_lookup m)(k \<mapsto> v)"
proof -
  have ok: "hm_ok m" using inv by (rule hm_inv_ok)
  have sz: "m_size m < int HM_LIMIT" using lim by (simp add: m_size_card [OF ok])
  have c2: "2 \<le> m_capacity m" using ok by (simp add: hm_ok_def)
  have "\<exists>m1. (if m_size m \<ge> load_limit (m_capacity m) then hm_grow ts_hashmap_set m else Some m) = Some m1 \<and>
      hm_ok m1 \<and> hm_lookup m1 = hm_lookup m \<and> m_size m1 < load_limit (m_capacity m1) \<and>
      (m_capacity m1 \<le> HASHMAP_INITIAL_CAPACITY \<or> 3 * m_capacity m1 \<le> 8 * m_size m1 + 6)"
  proof (cases "m_size m \<ge> load_limit (m_capacity m)")
    case True
    then have ge: "(3 * m_capacity m) div 4 \<le> m_size m" using c2 by (simp add: load_limit_eq)
    have "2 * m_capacity m \<le> int32_max"
      using inv sz by (auto simp: hm_inv_def HM_LIMIT_def int32_max_def HASHMAP_INITIAL_CAPACITY_def)
    from hm_grow_ok [OF ok this] obtain m1 where m1: "hm_grow ts_hashmap_set m = Some m1" "hm_ok m1"
      "hm_lookup m1 = hm_lookup m" "m_capacity m1 = 2 * m_capacity m" by blast
    then have s1: "m_size m1 = m_size m" using ok by (simp add: m_size_card)
    have "m_size m \<le> (3 * m_capacity m) div 4" using ok c2 by (auto simp: hm_ok_def load_limit_eq)
    with ge c2 have "m_size m < (3 * (2 * m_capacity m)) div 4" "3 * (2 * m_capacity m) \<le> 8 * m_size m + 6"
      by linarith+
    with m1 s1 c2 True show ?thesis by (simp add: load_limit_eq)
  qed (use inv ok in \<open>simp add: hm_inv_def\<close>)
  then obtain m1 where m1:
    "(if m_size m \<ge> load_limit (m_capacity m) then hm_grow ts_hashmap_set m else Some m) = Some m1"
    "hm_ok m1" "hm_lookup m1 = hm_lookup m" "m_size m1 < load_limit (m_capacity m1)"
    "m_capacity m1 \<le> HASHMAP_INITIAL_CAPACITY \<or> 3 * m_capacity m1 \<le> 8 * m_size m1 + 6" by blast
  from hm_store_ok [OF m1(2,4), of k v] obtain m2 where m2: "hm_store m1 k v = Some m2" "hm_ok m2"
    "hm_lookup m2 = (hm_lookup m1)(k \<mapsto> v)" "m_capacity m2 = m_capacity m1" "m_size m1 \<le> m_size m2"
    by auto
  have "ts_hashmap_set m k v = Some m2" using m1(1) m2(1) by (subst ts_hashmap_set.simps) simp
  moreover have "hm_inv m2" using m1 m2 by (auto simp: hm_inv_def)
  ultimately show ?thesis using m1 m2 by auto
qed

lemma hm_find_ok:
  assumes ok: "hm_ok m" shows "ts_hashmap_find m k = Some (hm_lookup m k)"
proof (cases "hm_lookup m k")
  case None
  from probe_absent [OF ok None] obtain d where
    "probe (m_entries m) (m_capacity m) k (home (m_capacity m) k) = Some (slot (m_capacity m) k d)"
    "m_entries m ! slot (m_capacity m) k d = None" by blast
  with None show ?thesis by (simp add: ts_hashmap_find_def)
next
  case (Some v)
  then have "Some (k, v) \<in> set (m_entries m)" using ok by (simp add: hm_lookup_Some hm_ok_def)
  then obtain i where i: "i < length (m_entries m)" "m_entries m ! i = Some (k, v)"
    by (auto simp: in_set_conv_nth)
  with probe_present [OF ok i] Some show ?thesis by (simp add: ts_hashmap_find_def)
qed

lemma hm_count_ok: "hm_ok m \<Longrightarrow> ts_hashmap_count m = int (card (dom (hm_lookup m)))"
  by (simp add: ts_hashmap_count_def flip: m_size_card) (simp add: hm_ok_def hm_pairs_def)

text \<open>The iteration visits the entries of the map, each once, in table order.\<close>

lemma hm_for_each_ok:
  "ts_hashmap_for_each m callback ctx = foldo (\<lambda>c (k, v). callback k v c) ctx (hm_pairs (m_entries m))"
proof -
  have "foldo (\<lambda>c e. case e of None \<Rightarrow> Some c | Some (k, v) \<Rightarrow> callback k v c) c es =
      foldo (\<lambda>c (k, v). callback k v c) c (hm_pairs es)" for es c
  proof (induction es arbitrary: c)
    case (Cons e es)
    then show ?case by (cases e) auto
  qed simp
  then show ?thesis by (simp add: ts_hashmap_for_each_def)
qed

subsection \<open>The interface of a string-keyed map\<close>

locale string_map =
  fixes lookup :: "'m \<Rightarrow> string \<Rightarrow> 'v option" and invar :: "'m \<Rightarrow> bool" and limit :: nat
    and empty :: 'm and update :: "'m \<Rightarrow> string \<Rightarrow> 'v \<Rightarrow> 'm option"
    and find :: "'m \<Rightarrow> string \<Rightarrow> 'v option option"
  assumes invar_empty: "invar empty" and lookup_empty: "lookup empty = Map.empty"
    and update_ok: "invar m \<Longrightarrow> card (dom (lookup m)) < limit \<Longrightarrow>
      \<exists>m'. update m k v = Some m' \<and> invar m' \<and> lookup m' = (lookup m)(k \<mapsto> v)"
    and find_ok: "invar m \<Longrightarrow> find m k = Some (lookup m k)"
    and finite_dom: "finite (dom (lookup m))"
begin

lemma find_empty: "find empty k = Some None"
  by (simp add: find_ok invar_empty lookup_empty)

lemma find_update:
  "invar m \<Longrightarrow> card (dom (lookup m)) < limit \<Longrightarrow>
   \<exists>m'. update m k v = Some m' \<and> find m' k = Some (Some v) \<and>
     (\<forall>j. j \<noteq> k \<longrightarrow> find m' j = find m j)"
  using update_ok [of m k v] by (auto simp: find_ok)

lemma card_update:
  "lookup m' = (lookup m)(k \<mapsto> v) \<Longrightarrow> card (dom (lookup m')) \<le> Suc (card (dom (lookup m)))"
  using finite_dom [of m] by (simp add: card_insert_if)

text \<open>A run of updates: the last value of every key wins.\<close>

lemma update_all:
  "invar m \<Longrightarrow> card (dom (lookup m)) + length kvs \<le> limit \<Longrightarrow>
   \<exists>m'. foldo (\<lambda>m (k, v). update m k v) m kvs = Some m' \<and> invar m' \<and>
     lookup m' = lookup m ++ map_of (rev kvs)"
proof (induction kvs arbitrary: m)
  case (Cons kv kvs)
  obtain k v where kv: "kv = (k, v)" by (cases kv)
  from Cons.prems update_ok [of m k v] obtain m1 where m1: "update m k v = Some m1" "invar m1"
    "lookup m1 = (lookup m)(k \<mapsto> v)" by auto
  have "card (dom (lookup m1)) + length kvs \<le> limit"
    using card_update [OF m1(3)] Cons.prems by simp
  from Cons.IH [OF m1(2) this] obtain m2 where "foldo (\<lambda>m (k, v). update m k v) m1 kvs = Some m2"
    "invar m2" "lookup m2 = lookup m1 ++ map_of (rev kvs)" by blast
  with kv m1 show ?case by (auto simp: map_add_def fun_eq_iff split: option.split)
qed simp

end

interpretation hm: string_map hm_lookup hm_inv HM_LIMIT ts_hashmap_new ts_hashmap_set ts_hashmap_find
proof unfold_locales
  fix m :: "'a hashmap"
  show "finite (dom (hm_lookup m))" by (simp add: hm_lookup_def finite_dom_map_of)
qed (simp_all add: hm_set_ok hm_find_ok hm_inv_ok)

subsection \<open>The table refines the map\<close>

lemma for_each_collects:
  "ts_hashmap_for_each m (\<lambda>k v acc. Some (acc @ [(k, v)])) acc = Some (acc @ hm_pairs (m_entries m))"
proof -
  have "foldo (\<lambda>c (k, v). Some (c @ [(k, v)])) acc kvs = Some (acc @ kvs)" for kvs and acc :: "(string \<times> 'a) list"
    by (induction kvs arbitrary: acc) auto
  then show ?thesis by (simp add: hm_for_each_ok)
qed

text \<open>C10. A table filled by any run of \<^verbatim>\<open>ts_hashmap_set\<close> is the finite map in which the last value of
  every key wins: the run returns, whatever the order of the keys, the collisions and the
  growing; \<^verbatim>\<open>get\<close> and \<^verbatim>\<open>has\<close> return what the map says, \<^verbatim>\<open>count\<close> counts its keys, and
  \<^verbatim>\<open>for_each\<close> visits every entry once.\<close>

theorem hashmap_refines_map:
  assumes "length kvs \<le> HM_LIMIT"
  defines "f \<equiv> map_of (rev kvs)"
  shows "\<exists>m. foldo (\<lambda>m (k, v). ts_hashmap_set m k v) ts_hashmap_new kvs = Some m \<and> hm_inv m \<and>
    ts_hashmap_get m k = Some (case f k of Some v \<Rightarrow> v | None \<Rightarrow> ts_value_undefined) \<and>
    ts_hashmap_has m k = Some (k \<in> dom f) \<and> ts_hashmap_count m = int (card (fst ` set kvs)) \<and>
    (\<exists>ps. ts_hashmap_for_each m (\<lambda>k v acc. Some (acc @ [(k, v)])) [] = Some ps \<and>
      distinct (map fst ps) \<and> map_of ps = f)"
proof -
  from hm.update_all [of ts_hashmap_new kvs] assms(1) obtain m where m:
    "foldo (\<lambda>m (k, v). ts_hashmap_set m k v) ts_hashmap_new kvs = Some m" "hm_inv m" "hm_lookup m = f"
    by (auto simp: f_def)
  have ok: "hm_ok m" using m(2) by (rule hm_inv_ok)
  have "distinct (map fst (hm_pairs (m_entries m)))" "map_of (hm_pairs (m_entries m)) = f"
    using ok m(3) by (simp_all add: hm_ok_def distinct_hm_pairs hm_lookup_def)
  moreover have "ts_hashmap_count m = int (card (fst ` set kvs))"
    by (simp add: hm_count_ok [OF ok] m(3) f_def dom_map_of_conv_image_fst)
  moreover have "ts_hashmap_get m k = Some (case f k of Some v \<Rightarrow> v | None \<Rightarrow> ts_value_undefined)"
    "ts_hashmap_has m k = Some (k \<in> dom f)"
    by (auto simp: ts_hashmap_get_def ts_hashmap_has_def hm_find_ok [OF ok] m(3))
  ultimately show ?thesis using m by (auto simp: for_each_collects)
qed

lemma hashmap_refines_map_witness:
  defines "kvs \<equiv> [(''a'', VNull), (''b'', VBoolean 1), (''a'', VBoolean 0)]"
  shows "\<exists>m. foldo (\<lambda>m (k, v). ts_hashmap_set m k v) ts_hashmap_new kvs = Some m \<and>
    ts_hashmap_get m ''a'' = Some (VBoolean 0) \<and> ts_hashmap_count m = 2"
proof -
  have "card (fst ` set kvs) = 2" by (simp add: kvs_def card_insert_if)
  then show ?thesis using hashmap_refines_map [of kvs "''a''"] by (auto simp: kvs_def HM_LIMIT_def)
qed

end
