(* ===== verification/Ts_Coerce.thy ===== *)
theory Ts_Coerce
  imports Ts_Buffer Ts_Hashmap
begin

text \<open>
  The coercions of \<^verbatim>\<open>runtime/src/runtime.c\<close> (\<^verbatim>\<open>ts_to_string\<close>, \<^verbatim>\<open>ts_to_boolean\<close>, \<^verbatim>\<open>ts_typeof\<close>),
  \<^verbatim>\<open>ts_hashmap_to_string\<close> of \<^verbatim>\<open>hashmap.c\<close>, and the \<^verbatim>\<open>Blob\<close> accessors. The conversions to a
  string work on the store, because they release strings; a value that contains itself makes
  them run for ever, which is \<open>None\<close>.
\<close>

subsection \<open>Blob\<close>

fun sel_blob :: "object \<Rightarrow> blob option" where
  "sel_blob (OBlob b) = Some b"
| "sel_blob _ = None"

definition as_blob :: "heap \<Rightarrow> tsvalue \<Rightarrow> blob option option" where
  "as_blob = tagged sel_blob"

definition ts_blob_new :: "heap \<Rightarrow> (tsvalue \<times> heap) option" where
  "ts_blob_new h = do {
     (d, h1) \<leftarrow> ts_string_new h [];
     (t, h2) \<leftarrow> ts_string_new h1 [];
     Some (new_value h2 (OBlob \<lparr>bl_data = d, bl_type = t\<rparr>)) }"

definition ts_blob_from_string :: "heap \<Rightarrow> addr \<Rightarrow> addr \<Rightarrow> (tsvalue \<times> heap) option" where
  "ts_blob_from_string h data type = do {
     (t, h1) \<leftarrow> (if type \<noteq> 0 then Some (type, h) else ts_string_new h []);
     Some (new_value h1 (OBlob \<lparr>bl_data = data, bl_type = t\<rparr>)) }"

definition ts_blob_text :: "heap \<Rightarrow> tsvalue \<Rightarrow> (addr \<times> heap) option" where
  "ts_blob_text h v = do {
     r \<leftarrow> as_blob h v;
     case r of Some b \<Rightarrow> Some (bl_data b, h) | None \<Rightarrow> ts_string_new h [] }"

definition ts_blob_size :: "heap \<Rightarrow> tsvalue \<Rightarrow> dbl option" where
  "ts_blob_size h v = do {
     r \<leftarrow> as_blob h v;
     case r of
       Some b \<Rightarrow> do { d \<leftarrow> str_data h (bl_data b); Some (dint (int (length d))) }
     | None \<Rightarrow> Some (dint 0) }"

definition ts_blob_type :: "heap \<Rightarrow> tsvalue \<Rightarrow> (addr \<times> heap) option" where
  "ts_blob_type h v = do {
     r \<leftarrow> as_blob h v;
     case r of Some b \<Rightarrow> Some (bl_type b, h) | None \<Rightarrow> ts_string_new h [] }"

subsection \<open>Building a string piece by piece\<close>

text \<open>
  The idiom \<^verbatim>\<open>tmp = ts_string_concat(result, s); ts_string_free(result); result = tmp\<close>, and the
  same with a literal that is released afterwards.
\<close>

definition cat_free :: "heap \<Rightarrow> addr \<Rightarrow> addr \<Rightarrow> (addr \<times> heap) option" where
  "cat_free h r s = do {
     (t, h1) \<leftarrow> ts_string_concat h r s;
     h2 \<leftarrow> ts_string_free h1 r;
     Some (t, h2) }"

definition cat_lit :: "heap \<Rightarrow> addr \<Rightarrow> string \<Rightarrow> (addr \<times> heap) option" where
  "cat_lit h r l = do {
     (c, h1) \<leftarrow> ts_string_new h l;
     (t, h2) \<leftarrow> cat_free h1 r c;
     h3 \<leftarrow> ts_string_free h2 c;
     Some (t, h3) }"

text \<open>\<^verbatim>\<open>snprintf\<close> into a buffer of \<open>n\<close> bytes.\<close>

definition snprintf :: "nat \<Rightarrow> string \<Rightarrow> string" where
  "snprintf n s = take (n - 1) (cstr s)"

subsection \<open>To string\<close>

type_synonym to_str = "heap \<Rightarrow> tsvalue \<Rightarrow> (addr \<times> heap) option"

text \<open>The text of a value inside an object: strings in quotes, the rest by \<^verbatim>\<open>ts_to_string\<close>.\<close>

definition cat_value :: "to_str \<Rightarrow> tsvalue \<Rightarrow> heap \<Rightarrow> addr \<Rightarrow> (addr \<times> heap) option" where
  "cat_value rec v h r = (case v of
     VString p \<Rightarrow> do {
       (q, h1) \<leftarrow> ts_string_new h [DQUOTE];
       (r1, h2) \<leftarrow> cat_free h1 r q;
       (s, h3) \<leftarrow> (if p \<noteq> 0 then Some (p, h2) else ts_string_new h2 []);
       (r2, h4) \<leftarrow> cat_free h3 r1 s;
       (r3, h5) \<leftarrow> cat_free h4 r2 q;
       h6 \<leftarrow> ts_string_free h5 q;
       Some (r3, h6) }
   | _ \<Rightarrow> do {
       (s, h1) \<leftarrow> rec h v;
       (r1, h2) \<leftarrow> cat_free h1 r s;
       h3 \<leftarrow> ts_string_free h2 s;
       Some (r1, h3) })"

text \<open>Keys are kept by contents: the key of an entry is concatenated as a string that is not
  released.\<close>

definition cat_key :: "heap \<Rightarrow> addr \<Rightarrow> string \<Rightarrow> (addr \<times> heap) option" where
  "cat_key h r k = do {
     x \<leftarrow> data_or_empty h r;
     n \<leftarrow> ck32 (int (length x) + int (length k));
     (t, h1) \<leftarrow> ts_string_new_len h (x @ k) n;
     h2 \<leftarrow> ts_string_free h1 r;
     Some (t, h2) }"

definition object_to_string_callback ::
  "to_str \<Rightarrow> string \<Rightarrow> tsvalue \<Rightarrow> (addr \<times> bool) \<times> heap \<Rightarrow> ((addr \<times> bool) \<times> heap) option" where
  "object_to_string_callback rec k v ctx = (case ctx of ((r, first), h) \<Rightarrow> do {
     (r0, h0) \<leftarrow> (if \<not> first then cat_lit h r '', '' else Some (r, h));
     (q, h1) \<leftarrow> ts_string_new h0 [DQUOTE];
     (r1, h2) \<leftarrow> cat_free h1 r0 q;
     (r2, h3) \<leftarrow> cat_key h2 r1 k;
     (r3, h4) \<leftarrow> cat_free h3 r2 q;
     h5 \<leftarrow> ts_string_free h4 q;
     (r4, h6) \<leftarrow> cat_lit h5 r3 '': '';
     (r5, h7) \<leftarrow> cat_value rec v h6 r4;
     Some ((r5, False), h7) })"

definition object_to_string :: "to_str \<Rightarrow> heap \<Rightarrow> tsvalue hashmap \<Rightarrow> (addr \<times> heap) option" where
  "object_to_string rec h m = do {
     (r, h1) \<leftarrow> ts_string_new h ''{'';
     ((r1, _), h2) \<leftarrow> ts_hashmap_for_each m (object_to_string_callback rec) ((r, True), h1);
     cat_lit h2 r1 ''}'' }"

definition array_to_string :: "to_str \<Rightarrow> heap \<Rightarrow> tsvalue tsarray \<Rightarrow> (addr \<times> heap) option" where
  "array_to_string rec h a = do {
     s0 \<leftarrow> ts_string_new h ''['';
     s1 \<leftarrow> foldo (\<lambda>s i. do {
         v \<leftarrow> read_item (a_items a) i;
         (e, h2) \<leftarrow> rec (snd s) v;
         (r1, h3) \<leftarrow> cat_free h2 (fst s) e;
         h4 \<leftarrow> ts_string_free h3 e;
         if i < a_length a - 1 then cat_lit h4 r1 '', '' else Some (r1, h4) }) s0 [0..a_length a - 1];
     cat_lit (snd s1) (fst s1) '']'' }"

subsection \<open>Monotonicity, for the recursion through the loops\<close>

lemma case_prod_mono_opt:
  "(\<And>a b. mono_option (\<lambda>f. G f a b)) \<Longrightarrow> mono_option (\<lambda>f. case x of (a, b) \<Rightarrow> G f a b)"
  by (cases x) simp

lemma case_value_mono:
  assumes "\<And>p. x = VString p \<Longrightarrow> mono_option (\<lambda>f. F f p)" "mono_option G"
  shows "mono_option (\<lambda>f. case x of VString p \<Rightarrow> F f p | _ \<Rightarrow> G f)"
  using assms by (cases x) simp_all

lemma const_mono_opt: "mono_option (\<lambda>f. c)"
  by (simp add: monotone_def option.leq_refl)

lemma if_mono_opt:
  "mono_option F \<Longrightarrow> mono_option G \<Longrightarrow> mono_option (\<lambda>f. if b then F f else G f)"
  by (cases b) simp_all

lemma case_option_mono_opt:
  "mono_option F \<Longrightarrow> (\<And>a. mono_option (\<lambda>f. G f a)) \<Longrightarrow>
   mono_option (\<lambda>f. case x of None \<Rightarrow> F f | Some a \<Rightarrow> G f a)"
  by (cases x) simp_all

lemmas mono_opt = bind_mono foldo_mono case_prod_mono_opt case_value_mono if_mono_opt
  case_option_mono_opt const_mono_opt

lemma to_str_call_mono: "mono_option (\<lambda>f. f (h, v))"
  by (rule call_mono)

lemma object_to_string_mono [partial_function_mono]:
  "mono_option (\<lambda>f. object_to_string (\<lambda>h v. f (h, v)) h m)"
  unfolding object_to_string_def ts_hashmap_for_each_def object_to_string_callback_def cat_value_def
  by (intro mono_opt to_str_call_mono)

lemma array_to_string_mono [partial_function_mono]:
  "mono_option (\<lambda>f. array_to_string (\<lambda>h v. f (h, v)) h a)"
  unfolding array_to_string_def by (intro mono_opt to_str_call_mono)

subsection \<open>\<^verbatim>\<open>ts_to_string\<close>\<close>

partial_function (option) ts_to_string :: "heap \<Rightarrow> tsvalue \<Rightarrow> (addr \<times> heap) option" where
  "ts_to_string h v = (case v of
     VNumber d \<Rightarrow> ts_string_new h (snprintf 256 (fmt_g d))
   | VBoolean b \<Rightarrow> ts_string_new h (if b \<noteq> 0 then ''true'' else ''false'')
   | VString p \<Rightarrow> Some (p, h)
   | VNull \<Rightarrow> ts_string_new h ''null''
   | VArray p \<Rightarrow>
       (if p = 0 then ts_string_new h ''[]''
        else do {
          a \<leftarrow> arrs h p;
          if a_length a = 0 then ts_string_new h ''[]'' else array_to_string ts_to_string h a })
   | VFunction p \<Rightarrow> ts_string_new h ''[Function]''
   | VObject p \<Rightarrow>
       (if p = 0 then ts_string_new h ''[object Object]''
        else do {
          x \<leftarrow> objs h p;
          case x of
            OResponse r \<Rightarrow> do {
              s \<leftarrow> str_data h (f_statusText r);
              ts_string_new h (snprintf 64 (''Response { status: '' @ int_str (f_status r) @
                '', statusText: '' @ [DQUOTE] @ cstr s @ [DQUOTE] @ '', url: '' @ [DQUOTE] @
                ''stub-url'' @ [DQUOTE] @ '' }'')) }
          | OBlob b \<Rightarrow> do {
              d \<leftarrow> str_data h (bl_data b);
              t \<leftarrow> str_data h (bl_type b);
              ts_string_new h (snprintf 64 (''Blob { size: '' @ int_str (int (length d)) @
                '', type: '' @ [DQUOTE] @ cstr t @ [DQUOTE] @ '' }'')) }
          | OUrl u \<Rightarrow> Some (u_href u, h)
          | OBuffer b \<Rightarrow> ts_buffer_toString_utf8 h v
          | OMap m \<Rightarrow> object_to_string ts_to_string h m
          | _ \<Rightarrow> None })
   | VSymbol n \<Rightarrow> ts_string_new h ''[object Object]'')"

definition ts_object_to_string :: "heap \<Rightarrow> addr \<Rightarrow> (addr \<times> heap) option" where
  "ts_object_to_string h p =
    (if p = 0 then ts_string_new h ''[object Object]''
     else do { m \<leftarrow> get_map h p; object_to_string ts_to_string h m })"

text \<open>
  \<^verbatim>\<open>ts_hashmap_to_string\<close> differs from \<^verbatim>\<open>ts_object_to_string\<close> in the place where the quote is
  released: before its second use.
\<close>

definition hm_to_string_entry ::
  "(string \<times> tsvalue) option \<Rightarrow> (addr \<times> bool) \<times> heap \<Rightarrow> ((addr \<times> bool) \<times> heap) option" where
  "hm_to_string_entry e ctx = (case e of None \<Rightarrow> Some ctx | Some (k, v) \<Rightarrow>
    (case ctx of ((r, first), h) \<Rightarrow> do {
     (r0, h0) \<leftarrow> (if \<not> first then cat_lit h r '', '' else Some (r, h));
     (q, h1) \<leftarrow> ts_string_new h0 [DQUOTE];
     (r1, h2) \<leftarrow> cat_free h1 r0 q;
     h3 \<leftarrow> ts_string_free h2 q;
     (r2, h4) \<leftarrow> cat_key h3 r1 k;
     (r3, h5) \<leftarrow> cat_free h4 r2 q;
     (r4, h6) \<leftarrow> cat_lit h5 r3 '': '';
     (r5, h7) \<leftarrow> cat_value ts_to_string v h6 r4;
     Some ((r5, False), h7) }))"

definition ts_hashmap_to_string :: "heap \<Rightarrow> addr \<Rightarrow> (addr \<times> heap) option" where
  "ts_hashmap_to_string h p =
    (if p = 0 then ts_string_new h ''{}''
     else do {
       m \<leftarrow> get_map h p;
       if m_size m = 0 then ts_string_new h ''{}''
       else do {
         (r, h1) \<leftarrow> ts_string_new h ''{'';
         ((r1, _), h2) \<leftarrow> foldo (\<lambda>c e. hm_to_string_entry e c) ((r, True), h1) (m_entries m);
         cat_lit h2 r1 ''}'' } })"

subsection \<open>To boolean, typeof\<close>

definition ts_to_boolean :: "heap \<Rightarrow> tsvalue \<Rightarrow> bool option" where
  "ts_to_boolean h v = (case v of
      VNumber d \<Rightarrow> Some (\<not> deq d (DFin 0) \<and> \<not> d_isnan d)
    | VBoolean b \<Rightarrow> Some (b \<noteq> 0)
    | VString p \<Rightarrow> do { s \<leftarrow> str_data h p; Some (length s > 0) }
    | VNull \<Rightarrow> Some False
    | _ \<Rightarrow> Some True)"

definition typeof_name :: "tsvalue \<Rightarrow> string" where
  "typeof_name v = (case vtag v of
      TAG_NUMBER \<Rightarrow> ''number'' | TAG_STRING \<Rightarrow> ''string'' | TAG_BOOLEAN \<Rightarrow> ''boolean''
    | TAG_NULL \<Rightarrow> ''object'' | TAG_OBJECT \<Rightarrow> ''object'' | TAG_ARRAY \<Rightarrow> ''object''
    | TAG_FUNCTION \<Rightarrow> ''function'' | TAG_SYMBOL \<Rightarrow> ''symbol'')"

definition ts_typeof :: "heap \<Rightarrow> tsvalue \<Rightarrow> (tsvalue \<times> heap) option" where
  "ts_typeof h v = do { (p, h1) \<leftarrow> ts_string_new h (typeof_name v); Some (VString p, h1) }"

definition ts_error_new :: "heap \<Rightarrow> addr \<Rightarrow> (tsvalue \<times> heap) option" where
  "ts_error_new h message = do {
     (p, h1) \<leftarrow> (if message \<noteq> 0 then Some (message, h) else ts_string_new h []);
     Some (VString p, h1) }"


subsection \<open>Contracts of the building blocks\<close>

text \<open>\<open>r\<close> is a live string that only its holder knows.\<close>

definition owned :: "heap \<Rightarrow> addr \<Rightarrow> string \<Rightarrow> bool" where
  "owned h r x \<longleftrightarrow> r \<noteq> 0 \<and> strs h r = Some \<lparr>s_refcount = 1, s_data = x\<rparr>"

lemma owned_data [simp]: "owned h r x \<Longrightarrow> data_or_empty h r = Some x"
  by (simp add: owned_def data_or_empty_def str_data_def)

lemma owned_str_at: "owned h r x \<Longrightarrow> str_at h r x"
  by (auto simp: owned_def str_at_def)

text \<open>\<open>h'\<close> is \<open>h\<close> with the owned string \<open>r\<close> replaced by a fresh one.\<close>

definition replaced :: "heap \<Rightarrow> addr \<Rightarrow> heap \<Rightarrow> addr \<Rightarrow> string \<Rightarrow> bool" where
  "replaced h r h' r' y \<longleftrightarrow> heap_ok h' \<and> owned h' r' y \<and> nxt h \<le> r' \<and> nxt h \<le> nxt h' \<and>
     strs h' = (strs h)(r := None, r' \<mapsto> \<lparr>s_refcount = 1, s_data = y\<rparr>) \<and>
     arrs h' = arrs h \<and> objs h' = objs h"

lemma cat_free_ok:
  assumes "heap_ok h" "owned h r x" "str_at h s y" "int (length x) + int (length y) \<le> int32_max"
  shows "\<exists>r' h'. cat_free h r s = Some (r', h') \<and> replaced h r h' r' (x @ y)"
proof -
  have n: "r < nxt h" "r \<noteq> 0" using heap_ok_dom(1)[OF assms(1)] assms(2) by (auto simp: owned_def)
  let ?h1 = "snd (new_str h (x @ y))"
  have "ts_string_concat h r s = Some (nxt h, ?h1)"
    using ts_string_concat_eq[of h r x s y] assms by (simp add: new_str_def)
  moreover have "ts_string_free ?h1 r = Some (del_str ?h1 r)"
    using assms(2) n by (intro ts_string_free_rc1) (auto simp: owned_def heap_simps)
  moreover have "replaced h r (del_str ?h1 r) (nxt h) (x @ y)"
    using assms(1) n heap_ok_fresh(4)[OF assms(1)] by (auto simp: replaced_def owned_def heap_simps)
  ultimately show ?thesis by (auto simp: cat_free_def)
qed

lemma cat_lit_ok:
  assumes "heap_ok h" "owned h r x" "NUL \<notin> set l" "int (length x) + int (length l) \<le> int32_max"
  shows "\<exists>r' h'. cat_lit h r l = Some (r', h') \<and> replaced h r h' r' (x @ l)"
proof -
  let ?c = "nxt h" and ?h1 = "snd (new_str h l)"
  have n: "r < nxt h" using heap_ok_dom(1)[OF assms(1)] assms(2) by (auto simp: owned_def)
  have 1: "ts_string_new h l = Some (?c, ?h1)"
    using ts_string_new_eq[of l h] assms by (simp add: new_str_def)
  have o1: "owned ?h1 r x" "str_at ?h1 ?c l" "heap_ok ?h1"
    using assms(1,2) n by (auto simp: owned_def heap_simps)
  obtain t h2 where 2: "cat_free ?h1 r ?c = Some (t, h2)" "replaced ?h1 r h2 t (x @ l)"
    using cat_free_ok[OF o1(3,1,2)] assms(4) by blast
  have t: "Suc (nxt h) \<le> t" using 2(2) by (simp add: replaced_def heap_simps)
  have sc: "strs h2 ?c = Some \<lparr>s_refcount = 1, s_data = l\<rparr>"
    using 2(2) n t by (simp add: replaced_def heap_simps)
  have 3: "ts_string_free h2 ?c = Some (del_str h2 ?c)"
    using sc heap_ok_fresh(4)[OF assms(1)] by (intro ts_string_free_rc1) auto
  have "strs (del_str h2 ?c) = (strs h)(r := None, t \<mapsto> \<lparr>s_refcount = 1, s_data = x @ l\<rparr>)"
    using 2(2) n t heap_ok_fresh(1)[OF assms(1)] by (auto simp: replaced_def heap_simps fun_eq_iff)
  then have "replaced h r (del_str h2 ?c) t (x @ l)"
    using 2(2) t by (auto simp: replaced_def owned_def heap_simps)
  then show ?thesis using 1 2(1) 3 by (auto simp: cat_lit_def)
qed

subsection \<open>Undefined: the quote used after it was released\<close>

lemma cat_free_dead:
  assumes "r \<noteq> s" "s \<noteq> 0" "strs h s = None"
  shows "cat_free h r s = None"
  using assms by (simp add: cat_free_def ts_string_concat_def data_or_empty_def str_data_def)

lemma cat_key_keeps_dead:
  assumes "cat_key h r k = Some (t, h')" "s < nxt h" "strs h s = None"
  shows "strs h' s = None"
  using assms
  by (auto simp: cat_key_def ts_string_new_len_def new_str_def ts_string_free_def del_str_def put_str_def
      Let_def bind_eq_Some_conv split: if_splits)

lemma ts_string_new_fresh:
  "ts_string_new h s = Some (p, h') \<Longrightarrow> p = nxt h \<and> nxt h' = Suc (nxt h) \<and>
     strs h' p = Some \<lparr>s_refcount = 1, s_data = cstr s\<rparr>"
  by (auto simp: ts_string_new_def ts_string_new_len_def strlen_def new_str_def Let_def bind_eq_Some_conv
      split: if_splits)

lemma ts_string_free_nxt: "ts_string_free h p = Some h' \<Longrightarrow> nxt h' = nxt h"
  by (auto simp: ts_string_free_def del_str_def put_str_def Let_def bind_eq_Some_conv split: if_splits)

lemma cat_free_keeps:
  assumes "cat_free h r s = Some (t, h')" "q \<noteq> r" "q < nxt h"
  shows "strs h' q = strs h q \<and> q < nxt h' \<and> t = nxt h"
proof -
  obtain h1 where h1: "ts_string_concat h r s = Some (t, h1)" "ts_string_free h1 r = Some h'"
    using assms(1) by (auto simp: cat_free_def bind_eq_Some_conv)
  have "t = nxt h \<and> nxt h1 = Suc (nxt h) \<and> strs h1 q = strs h q"
    using h1(1) assms(3)
    by (auto simp: ts_string_concat_def ts_string_new_len_def new_str_def Let_def bind_eq_Some_conv
        split: if_splits)
  moreover have "strs h' q = strs h1 q \<and> nxt h' = nxt h1"
    using h1(2) assms(2)
    by (auto simp: ts_string_free_def del_str_def put_str_def Let_def bind_eq_Some_conv split: if_splits)
  ultimately show ?thesis using assms(3) by simp
qed

lemma hm_to_string_entry_dead:
  assumes "0 < nxt h" "r < nxt h"
  shows "hm_to_string_entry (Some (k, v)) ((r, True), h) = None"
proof (rule ccontr)
  assume "hm_to_string_entry (Some (k, v)) ((r, True), h) \<noteq> None"
  then obtain q h1 r1 h2 h3 r2 h4 r3 h5 where
    s: "ts_string_new h [DQUOTE] = Some (q, h1)" "cat_free h1 r q = Some (r1, h2)"
      "ts_string_free h2 q = Some h3" "cat_key h3 r1 k = Some (r2, h4)" "cat_free h4 r2 q = Some (r3, h5)"
    by (auto simp: hm_to_string_entry_def bind_eq_Some_conv)
  have q: "q = nxt h" "nxt h1 = Suc (nxt h)" "strs h1 q = Some \<lparr>s_refcount = 1, s_data = [DQUOTE]\<rparr>"
    using ts_string_new_fresh[OF s(1)] by auto
  have k: "strs h2 q = strs h1 q" "q < nxt h2"
    using cat_free_keeps[OF s(2), of q] q assms(2) by auto
  have d: "strs h3 q = None"
    using s(3) k q(3) assms(1) q(1) by (auto simp: ts_string_free_def del_str_def Let_def)
  have "q < nxt h3" using k ts_string_free_nxt[OF s(3)] by simp
  then have "strs h4 q = None" using cat_key_keeps_dead[OF s(4) _ d] by simp
  moreover have "r2 \<noteq> q"
    using s(4) \<open>q < nxt h3\<close>
    by (auto simp: cat_key_def ts_string_new_len_def new_str_def Let_def bind_eq_Some_conv split: if_splits)
  ultimately have "cat_free h4 r2 q = None" using assms(1) q(1) by (intro cat_free_dead) auto
  then show False using s(5) by simp
qed

lemma hm_to_string_loop_dead:
  assumes "0 < nxt h" "r < nxt h" "Some kv \<in> set es"
  shows "foldo (\<lambda>c e. hm_to_string_entry e c) ((r, True), h) es = None"
  using assms(3)
proof (induction es)
  case (Cons e es)
  show ?case
  proof (cases e)
    case None
    then show ?thesis using Cons by (simp add: hm_to_string_entry_def)
  next
    case (Some kv)
    then show ?thesis using hm_to_string_entry_dead[OF assms(1,2)] by (cases kv) simp
  qed
qed simp

text \<open>The text of a map that is not empty is undefined: \<^verbatim>\<open>ts_hashmap_to_string\<close> reads a
  quote string after releasing it, at the first entry it meets.\<close>

theorem ts_hashmap_to_string_use_after_free:
  assumes "heap_ok h" "objs h p = Some (OMap m)" "hm_ok m" "hm_lookup m \<noteq> Map.empty"
  shows "ts_hashmap_to_string h p = None"
proof -
  have p: "p \<noteq> 0" using heap_ok_dom(3)[OF assms(1,2)] by simp
  obtain k v where "hm_lookup m k = Some v" using assms(4) by (metis not_None_eq ext)
  moreover have "uniq_keys (m_entries m)" using assms(3) by (simp add: hm_ok_def)
  ultimately have e: "Some (k, v) \<in> set (m_entries m)" using hm_lookup_Some[of m k v] by simp
  then have "hm_pairs (m_entries m) \<noteq> []" using set_hm_pairs[of "(k, v)"] by force
  then have "m_size m \<noteq> 0" using assms(3) by (simp add: hm_ok_def)
  moreover obtain r h1 where r: "ts_string_new h ''{'' = Some (r, h1)" "r = nxt h" "nxt h1 = Suc (nxt h)"
    using ts_string_new_eq[of "''{''" h] by (auto simp: new_str_def int32_max_def)
  ultimately show ?thesis
    using p assms(2) hm_to_string_loop_dead[OF _ _ e, of h1 r] r
    by (simp add: ts_hashmap_to_string_def get_map_objs)
qed


lemma ts_hashmap_to_string_use_after_free_witness:
  "\<exists>m. ts_hashmap_set ts_hashmap_new ''k'' VNull = Some m \<and>
    ts_hashmap_to_string (snd (new_obj empty_heap (OMap m))) 1 = None"
proof -
  obtain m where m: "ts_hashmap_set ts_hashmap_new ''k'' VNull = Some m" "hm_inv m"
    "hm_lookup m = (hm_lookup ts_hashmap_new)(''k'' \<mapsto> VNull)"
    using hm_set_ok[OF hm_inv_new, of "''k''" VNull] by (auto simp: HM_LIMIT_def)
  let ?h = "snd (new_obj empty_heap (OMap m))"
  have "heap_ok ?h" by (rule heap_ok_new(3)) simp
  moreover have "objs ?h 1 = Some (OMap m)" by (simp add: new_obj_def empty_heap_def)
  ultimately show ?thesis
    using ts_hashmap_to_string_use_after_free[of ?h 1 m] m by (auto simp: hm_inv_ok)
qed

subsection \<open>The text of an array\<close>

text \<open>The text of a scalar, and the strings of a list of values.\<close>

fun scalar_text :: "heap \<Rightarrow> tsvalue \<Rightarrow> string option" where
  "scalar_text h (VNumber d) = Some (snprintf 256 (fmt_g d))"
| "scalar_text h (VBoolean b) = Some (if b \<noteq> 0 then ''true'' else ''false'')"
| "scalar_text h (VString p) = (if p \<noteq> 0 \<and> map_option s_refcount (strs h p) = Some 1 then str_data h p else None)"
| "scalar_text h VNull = Some ''null''"
| "scalar_text h (VFunction p) = Some ''[Function]''"
| "scalar_text h _ = None"

fun str_ptrs :: "tsvalue list \<Rightarrow> addr list" where
  "str_ptrs [] = []"
| "str_ptrs (VString p # vs) = p # str_ptrs vs"
| "str_ptrs (_ # vs) = str_ptrs vs"

fun join_texts :: "string list \<Rightarrow> string" where
  "join_texts [] = []"
| "join_texts [t] = t"
| "join_texts (t # ts) = t @ '', '' @ join_texts ts"

lemma NUL_notin_snprintf: "NUL \<notin> set (snprintf n s)"
  by (auto simp: snprintf_def dest: in_set_takeD)

text \<open>Converting a scalar to a string gives an owned string: fresh, or the element itself.\<close>

lemma scalar_to_string:
  assumes "heap_ok h" "scalar_text h v = Some t" "int (length t) \<le> int32_max"
  shows "\<exists>e h1. ts_to_string h v = Some (e, h1) \<and> heap_ok h1 \<and> owned h1 e t \<and> nxt h \<le> nxt h1 \<and>
     arrs h1 = arrs h \<and> objs h1 = objs h \<and>
     ((\<exists>p. v = VString p \<and> e = p \<and> h1 = h) \<or>
      ((\<forall>p. v \<noteq> VString p) \<and> e = nxt h \<and> nxt h1 = Suc (nxt h) \<and> strs h1 = (strs h)(e \<mapsto> \<lparr>s_refcount = 1, s_data = t\<rparr>)))"
proof (cases "\<exists>p. v = VString p")
  case True
  then show ?thesis using assms
    by (subst ts_to_string.simps) (auto simp: owned_def str_data_def split: if_splits)
next
  case False
  have n: "NUL \<notin> set t" using assms(2) NUL_notin_snprintf False
    by (cases v) (auto split: if_splits)
  have "ts_to_string h v = ts_string_new h t"
    using assms(2) False by (subst ts_to_string.simps) (cases v; auto)
  then have "ts_to_string h v = Some (nxt h, snd (new_str h t))"
    using n assms(3) by (simp add: ts_string_new_eq new_str_def)
  then show ?thesis using assms(1) False heap_ok_fresh(4)[OF assms(1)]
    by (auto simp: owned_def heap_simps)
qed

text \<open>
  One turn of the loop: the accumulator is replaced, and an element that is a string is gone.
\<close>

definition freed :: "heap \<Rightarrow> addr list \<Rightarrow> heap \<Rightarrow> addr \<Rightarrow> string \<Rightarrow> bool" where
  "freed h ps h' r acc \<longleftrightarrow> heap_ok h' \<and> owned h' r acc \<and> nxt h \<le> r \<and> nxt h \<le> nxt h' \<and>
     arrs h' = arrs h \<and> objs h' = objs h \<and>
     (\<forall>q < nxt h. strs h' q = (if q \<in> set ps then None else strs h q)) \<and>
     (\<forall>q \<ge> nxt h. q \<noteq> r \<longrightarrow> strs h' q = None)"

lemma freed_replaced:
  "freed h ps h' r acc \<Longrightarrow> replaced h' r h'' r' y \<Longrightarrow> freed h ps h'' r' y"
  by (auto simp: freed_def replaced_def)

definition elem_step :: "heap \<Rightarrow> addr \<Rightarrow> tsvalue \<Rightarrow> (addr \<times> heap) option" where
  "elem_step h r v = do {
     (e, h2) \<leftarrow> ts_to_string h v;
     (r1, h3) \<leftarrow> cat_free h2 r e;
     h4 \<leftarrow> ts_string_free h3 e;
     Some (r1, h4) }"

lemma elem_step_ok:
  assumes f: "freed h ps h' r acc" and t: "scalar_text h v = Some t"
    and d: "\<And>p. v = VString p \<Longrightarrow> p \<notin> set ps" and hok: "heap_ok h"
    and len: "int (length acc) + int (length t) \<le> int32_max"
  shows "\<exists>r' h''. elem_step h' r v = Some (r', h'') \<and> freed h (ps @ str_ptrs [v]) h'' r' (acc @ t)"
proof -
  have hok': "heap_ok h'" using f by (simp add: freed_def)
  have lo: "p < nxt h" if "v = VString p" for p
    using that t heap_ok_dom(1)[OF hok] by (auto simp: str_data_def split: if_splits)
  have "scalar_text h' v = Some t"
    using t f d lo by (cases v) (auto simp: freed_def str_data_def split: if_splits)
  then obtain e h2 where e: "ts_to_string h' v = Some (e, h2)" "heap_ok h2" "owned h2 e t" "nxt h' \<le> nxt h2"
    "arrs h2 = arrs h'" "objs h2 = objs h'"
    "(\<exists>p. v = VString p \<and> e = p \<and> h2 = h') \<or>
      ((\<forall>p. v \<noteq> VString p) \<and> e = nxt h' \<and> nxt h2 = Suc (nxt h') \<and> strs h2 = (strs h')(e \<mapsto> \<lparr>s_refcount = 1, s_data = t\<rparr>))"
    using scalar_to_string[OF hok', of v t] len by auto
  have r: "r < nxt h'" "nxt h \<le> r" "owned h' r acc"
    using f heap_ok_dom(1)[OF hok'] by (auto simp: freed_def owned_def)
  have er: "e \<noteq> r" using e(7) r lo by fastforce
  have o2: "owned h2 r acc" using e(7) r er by (auto simp: owned_def)
  obtain r' h3 where c: "cat_free h2 r e = Some (r', h3)" "replaced h2 r h3 r' (acc @ t)"
    using cat_free_ok[OF e(2) o2 owned_str_at[OF e(3)] len] by blast
  have en: "e < nxt h2" using heap_ok_dom(1)[OF e(2)] e(3) by (auto simp: owned_def)
  have se: "strs h3 e = Some \<lparr>s_refcount = 1, s_data = t\<rparr>" "e \<noteq> 0" "e \<noteq> r'"
    using c(2) e(3) er en by (auto simp: replaced_def owned_def)
  have fr: "ts_string_free h3 e = Some (del_str h3 e)" using se by (intro ts_string_free_rc1) auto
  have n3: "nxt h \<le> r'" "nxt h \<le> nxt h3" using c(2) e(4) f by (auto simp: replaced_def freed_def)
  have "freed h (ps @ str_ptrs [v]) (del_str h3 e) r' (acc @ t)"
    using e(7)
  proof (elim disjE exE conjE)
    fix p assume p: "v = VString p" "e = p" "h2 = h'"
    show ?thesis
      unfolding freed_def using c(2) f se p n3 r lo[OF p(1)] e(2)
      by (auto simp: replaced_def freed_def heap_simps owned_def)
  next
    assume p: "\<forall>p. v \<noteq> VString p" "e = nxt h'" "nxt h2 = Suc (nxt h')"
      "strs h2 = (strs h')(e \<mapsto> \<lparr>s_refcount = 1, s_data = t\<rparr>)"
    then have "str_ptrs [v] = []" by (cases v) auto
    then show ?thesis
      unfolding freed_def using c(2) f se p n3 r e(5,6)
      by (auto simp: replaced_def freed_def heap_simps owned_def)
  qed
  then show ?thesis using e(1) c(1) fr by (auto simp: elem_step_def)
qed


text \<open>The loop of \<^verbatim>\<open>ts_to_string\<close> over the elements from \<open>i\<close> on.\<close>

fun texts_cat :: "string list \<Rightarrow> string" where
  "texts_cat [] = []"
| "texts_cat [t] = t"
| "texts_cat (t # u # ts) = t @ '', '' @ texts_cat (u # ts)"

definition array_step :: "tsvalue tsarray \<Rightarrow> addr \<times> heap \<Rightarrow> int \<Rightarrow> (addr \<times> heap) option" where
  "array_step a s i = do {
     v \<leftarrow> read_item (a_items a) i;
     (r1, h4) \<leftarrow> elem_step (snd s) (fst s) v;
     if i < a_length a - 1 then cat_lit h4 r1 '', '' else Some (r1, h4) }"

lemma array_to_string_steps:
  "array_to_string ts_to_string h a = do {
     s0 \<leftarrow> ts_string_new h ''['';
     s1 \<leftarrow> foldo (array_step a) s0 [0..a_length a - 1];
     cat_lit (snd s1) (fst s1) '']'' }"
proof -
  have "(\<lambda>s i. do {
         v \<leftarrow> read_item (a_items a) i;
         (e, h2) \<leftarrow> ts_to_string (snd s) v;
         (r1, h3) \<leftarrow> cat_free h2 (fst s) e;
         h4 \<leftarrow> ts_string_free h3 e;
         if i < a_length a - 1 then cat_lit h4 r1 '', '' else Some (r1, h4) }) = array_step a"
    by (auto simp: array_step_def elem_step_def fun_eq_iff split: prod.splits bind_splits)
  then show ?thesis by (simp only: array_to_string_def)
qed


lemma str_ptrs_append: "str_ptrs (xs @ ys) = str_ptrs xs @ str_ptrs ys"
  by (induction xs rule: str_ptrs.induct) auto

lemma str_ptrs_in: "i < length vs \<Longrightarrow> vs ! i = VString p \<Longrightarrow> p \<in> set (str_ptrs (drop i vs))"
  by (simp flip: Cons_nth_drop_Suc)

lemma array_steps_ok:
  assumes ok: "arr_ok a" and hok: "heap_ok h" and ts: "map (scalar_text h) (arr_vals a) = map Some ts"
    and d: "distinct (str_ptrs (arr_vals a))"
  shows "freed h (str_ptrs (take i (arr_vals a))) h' r acc \<Longrightarrow> i \<le> length ts \<Longrightarrow>
    int (length acc) + int (length (texts_cat (drop i ts))) \<le> int32_max \<Longrightarrow>
    \<exists>r' h''. foldo (array_step a) (r, h') [int i..a_length a - 1] = Some (r', h'') \<and>
      freed h (str_ptrs (arr_vals a)) h'' r' (acc @ texts_cat (drop i ts))"
proof (induction "length ts - i" arbitrary: i h' r acc)
  case 0
  have "length (arr_vals a) = length ts" using map_eq_imp_length_eq[OF ts] .
  then show ?case using 0 length_arr_vals[OF ok] by simp
next
  case (Suc k)
  let ?vs = "arr_vals a"
  have len: "length ?vs = length ts" "a_length a = int (length ts)"
    using map_eq_imp_length_eq[OF ts] length_arr_vals[OF ok] by auto
  have i: "i < length ts" using Suc.hyps(2) by simp
  have rd: "read_item (a_items a) (int i) = Some (?vs ! i)" using read_item_arr[OF ok] i len by simp
  have t: "scalar_text h (?vs ! i) = Some (ts ! i)"
    using arg_cong[OF ts, of "\<lambda>xs. xs ! i"] i len by simp
  have tk: "str_ptrs (take (Suc i) ?vs) = str_ptrs (take i ?vs) @ str_ptrs [?vs ! i]"
    using i len by (simp add: take_Suc_conv_app_nth flip: str_ptrs_append)
  have nd: "p \<notin> set (str_ptrs (take i ?vs))" if "?vs ! i = VString p" for p
    using d str_ptrs_in[OF _ that] i len str_ptrs_append[of "take i ?vs" "drop i ?vs"] by auto
  obtain u us where dr: "drop i ts = ts ! i # us" "us = drop (Suc i) ts" using i by (metis Cons_nth_drop_Suc)
  have tc: "texts_cat (drop i ts) = (if us = [] then ts ! i else ts ! i @ '', '' @ texts_cat us)"
    unfolding dr(1) by (cases us) simp_all
  obtain r1 h1 where e: "elem_step h' r (?vs ! i) = Some (r1, h1)"
    "freed h (str_ptrs (take (Suc i) ?vs)) h1 r1 (acc @ ts ! i)"
    using elem_step_ok[OF Suc.prems(1) t nd hok] Suc.prems(3) tc tk by (fastforce split: if_splits)
  have up: "[int i..a_length a - 1] = int i # [int (Suc i)..a_length a - 1]"
    using i len by (simp add: upto.simps add.commute)
  show ?case
  proof (cases "us = []")
    case True
    then have "length ts = Suc i" using dr i by simp
    then show ?thesis
      using Suc.hyps(1)[of "Suc i", OF _ e(2)] Suc.hyps(2) rd e(1) up tc True dr Suc.prems(3) len
      by (simp add: array_step_def)
  next
    case False
    then have lt: "int i < a_length a - 1" using dr i len by simp
    have o1: "heap_ok h1" "owned h1 r1 (acc @ ts ! i)" using e(2) by (auto simp: freed_def)
    obtain r2 h2 where c: "cat_lit h1 r1 '', '' = Some (r2, h2)" "replaced h1 r1 h2 r2 ((acc @ ts ! i) @ '', '')"
      using cat_lit_ok[OF o1, of "'', ''"] Suc.prems(3) tc False by auto
    show ?thesis
      using Suc.hyps(1)[of "Suc i", OF _ freed_replaced[OF e(2) c(2)]] Suc.hyps(2) rd e(1) c(1) up tc False dr
        Suc.prems(3) lt i
      by (simp add: array_step_def)
  qed
qed

text \<open>Converting an array of scalars to a string yields the texts of its elements between
  brackets, joined by commas, in a fresh string, and releases every string element of the
  array: what the array still points to is gone from the store.\<close>

theorem ts_to_string_array_frees_elements:
  assumes "heap_ok h" "arrs h p = Some a" "arr_ok a" "arr_vals a \<noteq> []"
    and "map (scalar_text h) (arr_vals a) = map Some ts" "distinct (str_ptrs (arr_vals a))"
    and "int (length (texts_cat ts)) + 2 \<le> int32_max"
  shows "\<exists>r h'. ts_to_string h (VArray p) = Some (r, h') \<and> str_at h' r (''['' @ texts_cat ts @ '']'') \<and>
    arrs h' p = Some a \<and>
    (\<forall>q < nxt h. strs h' q = (if VString q \<in> set (arr_vals a) then None else strs h q))"
proof -
  have p: "p \<noteq> 0" using heap_ok_dom(2)[OF assms(1,2)] by simp
  have n: "a_length a \<noteq> 0" using assms(4) length_arr_vals[OF assms(3)] by auto
  let ?h0 = "snd (new_str h ''['')"
  have s0: "ts_string_new h ''['' = Some (nxt h, ?h0)"
    by (simp add: ts_string_new_eq int32_max_def new_str_def)
  have "freed h (str_ptrs (take 0 (arr_vals a))) ?h0 (nxt h) ''[''"
    using assms(1) heap_ok_fresh[OF assms(1)] by (auto simp: freed_def owned_def heap_simps heap_ok_def)
  then obtain r1 h1 where l: "foldo (array_step a) (nxt h, ?h0) [0..a_length a - 1] = Some (r1, h1)"
    "freed h (str_ptrs (arr_vals a)) h1 r1 (''['' @ texts_cat ts)"
    using array_steps_ok[OF assms(3,1,5,6), of 0 ?h0 "nxt h" "''[''"] assms(7) by auto
  obtain r2 h2 where c: "cat_lit h1 r1 '']'' = Some (r2, h2)" "replaced h1 r1 h2 r2 ((''['' @ texts_cat ts) @ '']'')"
    using cat_lit_ok[of h1 r1 "''['' @ texts_cat ts" "'']''"] l(2) assms(7) by (auto simp: freed_def)
  have f: "freed h (str_ptrs (arr_vals a)) h2 r2 ((''['' @ texts_cat ts) @ '']'')"
    by (rule freed_replaced[OF l(2) c(2)])
  have "ts_to_string h (VArray p) = Some (r2, h2)"
    using p n assms(2) by (subst ts_to_string.simps) (simp add: array_to_string_steps s0 l(1) c(1))
  moreover have "q \<in> set (str_ptrs vs) \<longleftrightarrow> VString q \<in> set vs" for q vs
    by (induction vs rule: str_ptrs.induct) auto
  ultimately show ?thesis using f assms(2) by (auto simp: freed_def intro: owned_str_at)
qed


lemma ts_to_string_array_frees_elements_witness:
  defines "h1 \<equiv> snd (new_str empty_heap ''x'')"
  defines "h \<equiv> snd (new_arr h1 (ts_array_new\<lparr>a_length := 1, a_items := (a_items ts_array_new)[0 := Some (VString 1)]\<rparr>))"
  shows "\<exists>r h'. ts_to_string h (VArray 2) = Some (r, h') \<and> str_at h' r ''[x]'' \<and> strs h 1 \<noteq> None \<and> strs h' 1 = None"
proof -
  let ?a = "ts_array_new\<lparr>a_length := 1, a_items := (a_items ts_array_new)[0 := Some (VString 1)]\<rparr>"
  have a: "arr_ok ?a" "arr_vals ?a = [VString 1]"
    by (simp_all add: arr_ok_def arr_vals_def ts_array_new_def INITIAL_CAPACITY_def int32_max_def numeral_eq_Suc)
  have "heap_ok h1" unfolding h1_def by (rule heap_ok_new(1)) simp
  then have h: "heap_ok h" "arrs h 2 = Some ?a" "nxt h = 3"
    by (simp_all add: h_def heap_simps) (simp_all add: h1_def heap_simps empty_heap_def)
  have s: "strs h 1 = Some \<lparr>s_refcount = 1, s_data = ''x''\<rparr>"
    by (simp add: h_def h1_def heap_simps empty_heap_def)
  show ?thesis
    using ts_to_string_array_frees_elements[OF h(1,2) a(1), of "[''x'']"] a(2) s h(3)
    by (auto simp: str_data_def int32_max_def)
qed

end
