(* ===== verification/Ts_Console.thy ===== *)
theory Ts_Console
  imports Ts_Coerce
begin

text \<open>
  \<^verbatim>\<open>ts_inspect\<close> and the console of \<^verbatim>\<open>runtime/src/runtime.c\<close>. \<^verbatim>\<open>ts_inspect\<close> prints into a buffer
  of 4096 bytes through a position that only grows; the model keeps what has been written and
  that position, and is undefined where the C writes past the buffer. The two output streams
  are the text written to them so far.
\<close>

subsection \<open>The inspection buffer\<close>

text \<open>
  \<^verbatim>\<open>*pos += snprintf(out + *pos, cap - *pos, ...)\<close>: \<^verbatim>\<open>snprintf\<close> returns the length of the whole
  text whatever it wrote; a position beyond \<^verbatim>\<open>cap\<close> makes the size a huge \<^verbatim>\<open>size_t\<close> and the
  write an overflow.
\<close>

type_synonym outbuf = "string \<times> int"

definition emit :: "int \<Rightarrow> string \<Rightarrow> outbuf \<Rightarrow> outbuf option" where
  "emit cap s b = (case b of (out, pos) \<Rightarrow>
     if pos > cap then None
     else Some (out @ take (nat (cap - pos - 1)) (cstr s), pos + int (length (cstr s))))"

definition emits :: "int \<Rightarrow> int \<Rightarrow> string \<Rightarrow> outbuf \<Rightarrow> outbuf option" where
  "emits cap n s b = foldo (\<lambda>b _. emit cap s b) b [1..n]"

definition is_simple :: "tsvalue \<Rightarrow> bool" where
  "is_simple v \<longleftrightarrow> vtag v \<in> {TAG_NUMBER, TAG_BOOLEAN, TAG_STRING, TAG_NULL}"

text \<open>The bytes of a buffer, at most 50 and as far as the output has room.\<close>

fun inspect_bytes :: "int \<Rightarrow> 8 word list \<Rightarrow> outbuf \<Rightarrow> outbuf option" where
  "inspect_bytes cap [] b = Some b"
| "inspect_bytes cap (x # xs) b =
    (if snd b \<ge> cap - 8 then Some b
     else do { b1 \<leftarrow> emit cap ('' '' @ hex_byte x) b; inspect_bytes cap xs b1 })"

definition inspect_buffer :: "int \<Rightarrow> buffer \<Rightarrow> outbuf \<Rightarrow> outbuf option" where
  "inspect_buffer cap bf b = (let n = bf_length bf; shown = (if n > 50 then 50 else n) in do {
     b1 \<leftarrow> emit cap ''<Buffer'' b;
     bs \<leftarrow> (if shown \<le> 0 then Some [] else bytes_at bf 0 shown);
     b2 \<leftarrow> inspect_bytes cap bs b1;
     b3 \<leftarrow> (if n > shown then emit cap ('' ... '' @ int_str (n - shown) @ '' more bytes'') b2 else Some b2);
     emit cap ''>'' b3 })"

text \<open>
  The recursion; the first argument is the number of levels left, \<^verbatim>\<open>11 - depth\<close>: at a depth
  above 10 the code prints a placeholder.
\<close>

fun ts_inspect_impl :: "nat \<Rightarrow> heap \<Rightarrow> tsvalue \<Rightarrow> int \<Rightarrow> int \<Rightarrow> outbuf \<Rightarrow> outbuf option" where
  "ts_inspect_impl 0 h v indent cap b = emit cap ''[Object]'' b"
| "ts_inspect_impl (Suc n) h v indent cap b =
    (if snd b \<ge> cap - 64 then Some b else case v of
      VNumber d \<Rightarrow> emit cap (fmt_g d) b
    | VBoolean x \<Rightarrow> emit cap (if x \<noteq> 0 then ''true'' else ''false'') b
    | VString p \<Rightarrow> do { s \<leftarrow> (if p \<noteq> 0 then str_data h p else Some []); emit cap s b }
    | VNull \<Rightarrow> emit cap ''null'' b
    | VFunction p \<Rightarrow> emit cap ''[Function]'' b
    | VArray p \<Rightarrow>
       (if p = 0 then emit cap ''[]'' b
        else do {
          a \<leftarrow> arrs h p;
          if a_length a = 0 then emit cap ''[]'' b
          else if list_all (\<lambda>x. case x of Some w \<Rightarrow> is_simple w | None \<Rightarrow> False)
                    (take (nat (a_length a)) (a_items a)) \<and> a_length a \<le> 8
          then do {
            b1 \<leftarrow> emit cap ''[ '' b;
            b2 \<leftarrow> foldo (\<lambda>b i. do {
                w \<leftarrow> read_item (a_items a) i;
                b' \<leftarrow> ts_inspect_impl n h w indent cap b;
                if i < a_length a - 1 then emit cap '', '' b' else Some b' }) b1 [0..a_length a - 1];
            emit cap '' ]'' b2 }
          else do {
            b1 \<leftarrow> emit cap (''['' @ [NL]) b;
            b2 \<leftarrow> foldo (\<lambda>b i. do {
                b0 \<leftarrow> emits cap (indent + 1) ''  '' b;
                w \<leftarrow> read_item (a_items a) i;
                b' \<leftarrow> ts_inspect_impl n h w (indent + 1) cap b0;
                b'' \<leftarrow> (if i < a_length a - 1 then emit cap '','' b' else Some b');
                emit cap [NL] b'' }) b1 [0..a_length a - 1];
            b3 \<leftarrow> emits cap indent ''  '' b2;
            emit cap '']'' b3 } })
    | VObject p \<Rightarrow>
       (if p = 0 then emit cap ''{}'' b
        else do {
          x \<leftarrow> objs h p;
          case x of
            OResponse r \<Rightarrow> do {
              s \<leftarrow> str_data h (f_statusText r);
              emit cap (''Response { status: '' @ int_str (f_status r) @ '', statusText: '' @ [CHR 0x27] @
                cstr s @ [CHR 0x27] @ '' }'') b }
          | OBlob bl \<Rightarrow> do {
              d \<leftarrow> str_data h (bl_data bl);
              t \<leftarrow> str_data h (bl_type bl);
              emit cap (''Blob { size: '' @ int_str (int (length d)) @ '', type: '' @ [CHR 0x27] @
                cstr t @ [CHR 0x27] @ '' }'') b }
          | OUrl u \<Rightarrow> do {
              s \<leftarrow> str_data h (u_href u);
              emit cap (''URL { href: '' @ [CHR 0x27] @ cstr s @ [CHR 0x27] @ '' }'') b }
          | OBuffer bf \<Rightarrow> inspect_buffer cap bf b
          | OMap m \<Rightarrow>
             (let kvs = hm_pairs (m_entries m); count = int (length kvs) in
              if count = 0 then emit cap ''{}'' b
              else do {
                b1 \<leftarrow> emit cap (''{'' @ [NL]) b;
                b2 \<leftarrow> foldo (\<lambda>b i. do {
                    b0 \<leftarrow> emits cap (indent + 1) ''  '' b;
                    b0' \<leftarrow> emit cap (cstr (fst (kvs ! nat i)) @ '': '') b0;
                    b' \<leftarrow> ts_inspect_impl n h (snd (kvs ! nat i)) (indent + 1) cap b0';
                    b'' \<leftarrow> (if i + 1 < count then emit cap '','' b' else Some b');
                    emit cap [NL] b'' }) b1 [0..count - 1];
                b3 \<leftarrow> emits cap indent ''  '' b2;
                emit cap ''}'' b3 })
          | _ \<Rightarrow> None })
    | VSymbol k \<Rightarrow> emit cap ''[object Object]'' b)"

definition ts_inspect :: "heap \<Rightarrow> tsvalue \<Rightarrow> (addr \<times> heap) option" where
  "ts_inspect h v = do {
     (out, pos) \<leftarrow> ts_inspect_impl 11 h v 0 4095 ([], 0);
     if pos \<le> 4095 then ts_string_new h out else None }"

subsection \<open>The console\<close>

record console =
  c_out :: string
  c_err :: string
  g_count_list :: "(string \<times> int) list"
  g_group_depth :: int

definition puts_out :: "string \<Rightarrow> console \<Rightarrow> console" where
  "puts_out s c = c\<lparr>c_out := c_out c @ cstr s\<rparr>"

definition puts_err :: "string \<Rightarrow> console \<Rightarrow> console" where
  "puts_err s c = c\<lparr>c_err := c_err c @ cstr s\<rparr>"

text \<open>The string \<^verbatim>\<open>ts_inspect\<close> makes is printed and released: its text is all that stays.\<close>

definition inspect_text :: "heap \<Rightarrow> tsvalue \<Rightarrow> string option" where
  "inspect_text h v = do { (p, h1) \<leftarrow> ts_inspect h v; str_data h1 p }"

definition ESC :: char where
  "ESC = CHR 0x1B"

definition ts_console_write_line :: "heap \<Rightarrow> tsvalue \<Rightarrow> string option" where
  "ts_console_write_line h v = (case v of
      VString p \<Rightarrow>
        (if p \<noteq> 0 then do { s \<leftarrow> str_data h p; Some (cstr s @ [NL]) }
         else do { s \<leftarrow> inspect_text h v; Some (s @ [NL]) })
    | VNumber d \<Rightarrow> Some (snprintf 64 (fmt_g d) @ [NL])
    | VBoolean b \<Rightarrow> Some ((if b \<noteq> 0 then ''true'' else ''false'') @ [NL])
    | VNull \<Rightarrow> Some (''null'' @ [NL])
    | _ \<Rightarrow> do { s \<leftarrow> inspect_text h v; Some (s @ [NL]) })"

definition ts_console_log :: "heap \<Rightarrow> tsvalue \<Rightarrow> console \<Rightarrow> console option" where
  "ts_console_log h v c = do { s \<leftarrow> ts_console_write_line h v; Some (puts_out s c) }"

definition concat_multi_args :: "heap \<Rightarrow> tsvalue list \<Rightarrow> string option" where
  "concat_multi_args h args = (case args of [] \<Rightarrow> Some []
   | v # vs \<Rightarrow> do {
       s0 \<leftarrow> inspect_text h v;
       foldo (\<lambda>acc w. do {
         s \<leftarrow> inspect_text h w;
         _ \<leftarrow> ck32 (int (length acc) + 1 + int (length s));
         Some (acc @ '' '' @ s) }) s0 vs })"

definition ts_console_log_multi :: "heap \<Rightarrow> tsvalue list \<Rightarrow> console \<Rightarrow> console option" where
  "ts_console_log_multi h args c =
    (case args of [v] \<Rightarrow> ts_console_log h v c
     | _ \<Rightarrow> do { s \<leftarrow> concat_multi_args h args; Some (puts_out (s @ [NL]) c) })"

text \<open>The coloured lines: an escape code, the text, a reset.\<close>

definition plain_text :: "heap \<Rightarrow> tsvalue \<Rightarrow> string option" where
  "plain_text h v = (case v of
      VString p \<Rightarrow> if p \<noteq> 0 then map_option cstr (str_data h p) else inspect_text h v
    | _ \<Rightarrow> inspect_text h v)"

definition coloured :: "string \<Rightarrow> string \<Rightarrow> string" where
  "coloured code s = [ESC] @ ''['' @ code @ ''m'' @ s @ [ESC] @ ''[0m'' @ [NL]"

definition ts_console_info :: "heap \<Rightarrow> tsvalue \<Rightarrow> console \<Rightarrow> console option" where
  "ts_console_info h v c = do { s \<leftarrow> plain_text h v; Some (puts_out (coloured ''34'' s) c) }"

definition ts_console_warn :: "heap \<Rightarrow> tsvalue \<Rightarrow> console \<Rightarrow> console option" where
  "ts_console_warn h v c = do { s \<leftarrow> plain_text h v; Some (puts_err (coloured ''33'' s) c) }"

definition ts_console_error :: "heap \<Rightarrow> tsvalue \<Rightarrow> console \<Rightarrow> console option" where
  "ts_console_error h v c = do { s \<leftarrow> plain_text h v; Some (puts_err (coloured ''31'' s) c) }"

definition ts_console_debug :: "heap \<Rightarrow> tsvalue \<Rightarrow> console \<Rightarrow> console option" where
  "ts_console_debug h v c = do { s \<leftarrow> plain_text h v; Some (puts_out (coloured ''90'' s) c) }"

definition ts_console_info_multi :: "heap \<Rightarrow> tsvalue list \<Rightarrow> console \<Rightarrow> console option" where
  "ts_console_info_multi h args c = (case args of [v] \<Rightarrow> ts_console_info h v c
     | _ \<Rightarrow> do { s \<leftarrow> concat_multi_args h args; Some (puts_out (coloured ''34'' s) c) })"

definition ts_console_warn_multi :: "heap \<Rightarrow> tsvalue list \<Rightarrow> console \<Rightarrow> console option" where
  "ts_console_warn_multi h args c = (case args of [v] \<Rightarrow> ts_console_warn h v c
     | _ \<Rightarrow> do { s \<leftarrow> concat_multi_args h args; Some (puts_err (coloured ''33'' s) c) })"

definition ts_console_error_multi :: "heap \<Rightarrow> tsvalue list \<Rightarrow> console \<Rightarrow> console option" where
  "ts_console_error_multi h args c = (case args of [v] \<Rightarrow> ts_console_error h v c
     | _ \<Rightarrow> do { s \<leftarrow> concat_multi_args h args; Some (puts_err (coloured ''31'' s) c) })"

definition ts_console_debug_multi :: "heap \<Rightarrow> tsvalue list \<Rightarrow> console \<Rightarrow> console option" where
  "ts_console_debug_multi h args c = (case args of [v] \<Rightarrow> ts_console_debug h v c
     | _ \<Rightarrow> do { s \<leftarrow> concat_multi_args h args; Some (puts_out (coloured ''90'' s) c) })"

definition ts_console_assert :: "heap \<Rightarrow> tsvalue \<Rightarrow> tsvalue \<Rightarrow> console \<Rightarrow> console option" where
  "ts_console_assert h condition v c = do {
     b \<leftarrow> ts_to_boolean h condition;
     if \<not> b then do {
       s \<leftarrow> inspect_text h v;
       Some (puts_err (coloured ''31'' (''Assertion failed: '' @ s)) c) }
     else Some c }"

definition ts_console_clear :: "console \<Rightarrow> console" where
  "ts_console_clear c = puts_out ([ESC] @ ''[2J'' @ [ESC] @ ''[H'') c"

text \<open>The three operations that print \<^verbatim>\<open>ts_to_string\<close> and release the string.\<close>

definition print_string :: "heap \<Rightarrow> tsvalue \<Rightarrow> (string \<times> heap) option" where
  "print_string h v = do {
     (p, h1) \<leftarrow> ts_to_string h v;
     s \<leftarrow> str_data h1 p;
     h2 \<leftarrow> ts_string_free h1 p;
     Some (cstr s, h2) }"

definition ts_console_dir :: "heap \<Rightarrow> tsvalue \<Rightarrow> console \<Rightarrow> (console \<times> heap) option" where
  "ts_console_dir h v c = do { (s, h1) \<leftarrow> print_string h v; Some (puts_out (s @ [NL]) c, h1) }"

definition ts_console_table :: "heap \<Rightarrow> tsvalue \<Rightarrow> console \<Rightarrow> (console \<times> heap) option" where
  "ts_console_table h v c = do { (s, h1) \<leftarrow> print_string h v; Some (puts_out (s @ [NL]) c, h1) }"

definition ts_console_trace :: "heap \<Rightarrow> tsvalue \<Rightarrow> console \<Rightarrow> (console \<times> heap) option" where
  "ts_console_trace h v c = do { (s, h1) \<leftarrow> print_string h v; Some (puts_err (''Trace: '' @ s @ [NL]) c, h1) }"

subsection \<open>Counters and groups\<close>

definition get_count_entry :: "string \<Rightarrow> (string \<times> int) list \<Rightarrow> nat \<times> (string \<times> int) list" where
  "get_count_entry label es =
    (case find (\<lambda>i. fst (es ! i) = label) [0..<length es] of
       Some i \<Rightarrow> (i, es)
     | None \<Rightarrow> (0, (snprintf 64 label, 0) # es))"

definition count_label :: "heap \<Rightarrow> addr \<Rightarrow> string option" where
  "count_label h p = (if p \<noteq> 0 then map_option cstr (str_data h p) else Some ''default'')"

definition ts_console_count :: "heap \<Rightarrow> addr \<Rightarrow> console \<Rightarrow> console option" where
  "ts_console_count h label c = do {
     l \<leftarrow> count_label h label;
     let (i, es) = get_count_entry l (g_count_list c);
     n \<leftarrow> ck32 (snd (es ! i) + 1);
     Some (puts_out (l @ '': '' @ int_str n @ [NL]) (c\<lparr>g_count_list := es[i := (fst (es ! i), n)]\<rparr>)) }"

definition ts_console_count_reset :: "heap \<Rightarrow> addr \<Rightarrow> console \<Rightarrow> console option" where
  "ts_console_count_reset h label c = do {
     l \<leftarrow> count_label h label;
     let (i, es) = get_count_entry l (g_count_list c);
     Some (c\<lparr>g_count_list := es[i := (fst (es ! i), 0)]\<rparr>) }"

definition ts_console_group :: "console \<Rightarrow> console option" where
  "ts_console_group c = do { n \<leftarrow> ck32 (g_group_depth c + 1); Some (c\<lparr>g_group_depth := n\<rparr>) }"

definition ts_console_group_end :: "console \<Rightarrow> console" where
  "ts_console_group_end c =
    (if g_group_depth c > 0 then c\<lparr>g_group_depth := g_group_depth c - 1\<rparr> else c)"


subsection \<open>Inspecting a string\<close>

lemma ts_inspect_string_eq:
  assumes "p \<noteq> 0" "str_data h p = Some s"
  shows "ts_inspect h (VString p) =
    (if length (cstr s) \<le> 4095 then ts_string_new h (take 4094 (cstr s)) else None)"
  using assms by (simp add: ts_inspect_def emit_def numeral_eq_Suc)

lemma inspect_text_string:
  assumes "p \<noteq> 0" "str_data h p = Some s"
  shows "inspect_text h (VString p) = (if length (cstr s) \<le> 4095 then Some (take 4094 (cstr s)) else None)"
proof -
  have "ts_string_new h (take 4094 (cstr s)) = Some (new_str h (take 4094 (cstr s)))"
    by (intro ts_string_new_eq) (auto dest: in_set_takeD simp: int32_max_def)
  then show ?thesis
    using ts_inspect_string_eq[OF assms] by (simp add: inspect_text_def new_str_def str_data_def)
qed

text \<open>C35. Logging several values writes past the 4096-byte inspection buffer as soon as the first
  of them is a string of more than 4095 characters; a shorter one is printed (its first 4094
  characters). With a single argument the string is printed whatever its length.\<close>

theorem console_log_string_limit:
  assumes "p \<noteq> 0" "str_data h p = Some s"
  shows "ts_console_log_multi h [VString p] c = Some (puts_out (cstr s @ [NL]) c) \<and>
    (length (cstr s) > 4095 \<longrightarrow> ts_console_log_multi h (VString p # v # vs) c = None) \<and>
    (length (cstr s) \<le> 4095 \<longrightarrow> ts_console_log_multi h [VString p, VNull] c =
      Some (puts_out (take 4094 (cstr s) @ '' null'' @ [NL]) c))"
proof (intro conjI impI)
  show "ts_console_log_multi h [VString p] c = Some (puts_out (cstr s @ [NL]) c)"
    using assms by (simp add: ts_console_log_multi_def ts_console_log_def ts_console_write_line_def)
  show "length (cstr s) > 4095 \<Longrightarrow> ts_console_log_multi h (VString p # v # vs) c = None"
    by (simp add: ts_console_log_multi_def concat_multi_args_def inspect_text_string[OF assms])
next
  have "inspect_text h VNull = Some ''null''"
    by (simp add: inspect_text_def ts_inspect_def emit_def numeral_eq_Suc new_str_def str_data_def
        ts_string_new_def ts_string_new_len_def strlen_def Let_def ck32_def fits32_def int32_max_def int32_min_def)
  moreover assume "length (cstr s) \<le> 4095"
  then have "fits32 (int (length (take 4094 (cstr s))) + 1 + int (length ''null''))"
    by (intro fits32I) (auto simp: int32_max_def)
  ultimately show "ts_console_log_multi h [VString p, VNull] c =
      Some (puts_out (take 4094 (cstr s) @ '' null'' @ [NL]) c)"
    using \<open>length (cstr s) \<le> 4095\<close>
    by (simp add: ts_console_log_multi_def concat_multi_args_def inspect_text_string[OF assms])
qed

subsection \<open>Counting\<close>

definition count_of :: "(string \<times> int) list \<Rightarrow> string \<Rightarrow> int" where
  "count_of es l = (case map_of es l of Some n \<Rightarrow> n | None \<Rightarrow> 0)"

lemma find_index:
  "find (\<lambda>i. fst (es ! i) = l) [0..<length es] = None \<longleftrightarrow> l \<notin> fst ` set es"
  by (auto simp: find_None_iff set_conv_nth)

lemma map_of_nth_first:
  assumes "find (\<lambda>i. fst (es ! i) = l) [0..<length es] = Some i"
  shows "i < length es" "fst (es ! i) = l" "map_of es l = Some (snd (es ! i))"
    "map_of (es[i := (l, n)]) = (map_of es)(l \<mapsto> n)"
proof -
  have *: "i < length es \<and> fst (es ! i) = l \<and> (\<forall>j < i. fst (es ! j) \<noteq> l)"
    using assms by (auto simp: find_Some_iff)
  then show "i < length es" "fst (es ! i) = l" by auto
  have e: "es = take i es @ (l, snd (es ! i)) # drop (Suc i) es"
    using * by (metis id_take_nth_drop prod.collapse)
  have n: "map_of (take i es) l = None"
    using * by (force simp: map_of_eq_None_iff in_set_conv_nth)
  show "map_of es l = Some (snd (es ! i))"
    by (subst e) (simp add: n map_add_def)
  have "es[i := (l, n)] = take i es @ (l, n) # drop (Suc i) es" using * by (simp add: upd_conv_take_nth_drop)
  then show "map_of (es[i := (l, n)]) = (map_of es)(l \<mapsto> n)"
    by (subst e) (simp add: n map_add_def fun_eq_iff split: option.split)
qed

text \<open>\<^verbatim>\<open>console.count\<close> prints one more than the label's count and leaves the other labels
  alone, for a label of at most 63 characters. A longer label never finds its entry again:
  it prints 1 each time, and each time adds an entry.\<close>

theorem ts_console_count_counts:
  assumes "count_label h p = Some l" "0 \<le> count_of (g_count_list c) l" "count_of (g_count_list c) l < int32_max"
  shows "(length l \<le> 63 \<longrightarrow> (\<exists>c'. ts_console_count h p c = Some c' \<and>
      c_out c' = c_out c @ l @ '': '' @ int_str (count_of (g_count_list c) l + 1) @ [NL] \<and>
      count_of (g_count_list c') = (count_of (g_count_list c))(l := count_of (g_count_list c) l + 1))) \<and>
    (length l > 63 \<and> l \<notin> fst ` set (g_count_list c) \<longrightarrow> (\<exists>c'. ts_console_count h p c = Some c' \<and>
      c_out c' = c_out c @ l @ '': 1'' @ [NL] \<and> l \<notin> fst ` set (g_count_list c') \<and>
      length (g_count_list c') = Suc (length (g_count_list c))))"
proof (intro conjI impI; (elim conjE)?)
  have lc: "cstr l = l" using assms(1) by (auto simp: count_label_def split: if_splits)
  have ic: "cstr (int_str n) = int_str n" for n
    by (rule cstr_id) (auto simp: int_str_def is_digit_def dest: dec_str_digits)
  have pc: "cstr (l @ '': '' @ int_str n @ [NL]) = l @ '': '' @ int_str n @ [NL]" for n
    using lc ic[of n] NUL_notin_cstr[of l] NUL_notin_cstr[of "int_str n"] by (intro cstr_id) auto
  let ?es = "g_count_list c"
  have fit: "fits32 (count_of ?es l + 1)" using assms by (intro fits32I) auto
  show "\<exists>c'. ts_console_count h p c = Some c' \<and>
      c_out c' = c_out c @ l @ '': '' @ int_str (count_of ?es l + 1) @ [NL] \<and>
      count_of (g_count_list c') = (count_of ?es)(l := count_of ?es l + 1)" if len: "length l \<le> 63"
  proof (cases "find (\<lambda>i. fst (?es ! i) = l) [0..<length ?es]")
    case None
    then have "map_of ?es l = None" by (simp add: find_index map_of_eq_None_iff)
    then show ?thesis
      using None assms(1) fit pc len lc
      by (auto simp: ts_console_count_def get_count_entry_def puts_out_def count_of_def snprintf_def fun_eq_iff)
  next
    case (Some i)
    note m = map_of_nth_first[OF Some]
    then show ?thesis
      using Some assms(1) fit pc
      by (auto simp: ts_console_count_def get_count_entry_def puts_out_def count_of_def fun_eq_iff)
  qed
  show "\<exists>c'. ts_console_count h p c = Some c' \<and> c_out c' = c_out c @ l @ '': 1'' @ [NL] \<and>
      l \<notin> fst ` set (g_count_list c') \<and> length (g_count_list c') = Suc (length ?es)"
    if len: "length l > 63" and new: "l \<notin> fst ` set ?es"
  proof -
    have "find (\<lambda>i. fst (?es ! i) = l) [0..<length ?es] = None" using new by (simp add: find_index)
    moreover have "int_str 1 = ''1''" by (simp add: int_str_def dec_str.simps digit_char_def) code_simp
    moreover have "l \<noteq> take 63 l" using len by (metis length_take min_less_iff_conj nat_neq_iff)
    ultimately show ?thesis
      using assms(1) pc[of 1] new lc
      by (auto simp: ts_console_count_def get_count_entry_def puts_out_def snprintf_def ck32_def fits32_def
          int32_max_def int32_min_def)
  qed
qed


lemma console_log_string_limit_witness:
  defines "h \<equiv> snd (new_str empty_heap (replicate 5000 (CHR ''x'')))"
  shows "\<forall>c. ts_console_log_multi h [VString 1, VNull] c = None \<and>
    ts_console_log_multi h [VString 1] c = Some (puts_out (replicate 5000 (CHR ''x'') @ [NL]) c) \<and>
    (\<exists>c'. ts_console_log_multi (snd (new_str empty_heap ''hi'')) [VString 1, VNull] c = Some c')"
proof -
  have s: "str_data h 1 = Some (replicate 5000 (CHR ''x''))"
    by (simp add: h_def new_str_def empty_heap_def str_data_def)
  have t: "str_data (snd (new_str empty_heap ''hi'')) 1 = Some ''hi''"
    by (simp add: new_str_def empty_heap_def str_data_def)
  have c: "cstr (replicate 5000 (CHR ''x'')) = replicate 5000 (CHR ''x'')" by (rule cstr_id) simp
  show ?thesis
    using console_log_string_limit[OF _ s] console_log_string_limit[OF _ t] c by simp
qed

lemma ts_console_count_counts_witness:
  defines "c \<equiv> \<lparr>c_out = [], c_err = [], g_count_list = [(''a'', 2)], g_group_depth = 0\<rparr>"
    and "h \<equiv> snd (new_str empty_heap ''a'')" and "g \<equiv> snd (new_str empty_heap (replicate 64 (CHR ''x'')))"
  shows "(\<exists>c'. ts_console_count h 1 c = Some c' \<and> count_of (g_count_list c') ''a'' = 3) \<and>
    (\<exists>c'. ts_console_count g 1 c = Some c' \<and> length (g_count_list c') = 2)"
proof -
  have "count_label h 1 = Some ''a''" by (simp add: count_label_def h_def new_str_def empty_heap_def str_data_def)
  moreover have "count_label g 1 = Some (replicate 64 (CHR ''x''))"
    by (simp add: count_label_def g_def new_str_def empty_heap_def str_data_def cstr_id)
  moreover have "replicate 64 (CHR ''x'') \<noteq> ''a''" by (simp add: numeral_eq_Suc)
  moreover have "count_of (g_count_list c) ''a'' = 2" "count_of (g_count_list c) (replicate 64 (CHR ''x'')) = 0"
    using calculation(3) by (simp_all add: c_def count_of_def)
  ultimately have "\<exists>c'. ts_console_count h 1 c = Some c' \<and> count_of (g_count_list c') = (count_of (g_count_list c))(''a'' := 3)"
    "\<exists>c'. ts_console_count g 1 c = Some c' \<and> length (g_count_list c') = Suc (length (g_count_list c))"
    using ts_console_count_counts[of h 1 "''a''" c] ts_console_count_counts[of g 1 "replicate 64 (CHR ''x'')" c]
    by (auto simp: int32_max_def) (auto simp: c_def)
  then show ?thesis by (auto simp: c_def)
qed

end
