(* ===== verification/Ts_Json.thy ===== *)
theory Ts_Json
  imports Ts_Coerce "HOL-Library.Multiset"
begin

text \<open>
  The JSON part of \<^verbatim>\<open>runtime/src/runtime.c\<close>. \<^verbatim>\<open>JSON.stringify\<close> only reads the store; its
  strings are all fresh, so the model returns their text. \<^verbatim>\<open>JSON.parse\<close> builds its value in
  the store. The position \<^verbatim>\<open>p\<close> of the parser is the rest of the text; the empty rest is the
  terminating NUL, and advancing past it is undefined.
\<close>

subsection \<open>Stringify\<close>

text \<open>\<^verbatim>\<open>ts_string_concat\<close> and \<^verbatim>\<open>ts_string_new\<close> on contents.\<close>

definition scat :: "string \<Rightarrow> string \<Rightarrow> string option" where
  "scat x y = do { _ \<leftarrow> ck32 (int (length x) + int (length y)); Some (x @ y) }"

definition snew :: "string \<Rightarrow> string option" where
  "snew s = do { _ \<leftarrow> ck32 (strlen s); Some (cstr s) }"

fun esc_char :: "char \<Rightarrow> string" where
  "esc_char c = (if c = DQUOTE then [BACKSLASH, DQUOTE]
     else if c = BACKSLASH then [BACKSLASH, BACKSLASH]
     else if c = NL then [BACKSLASH, CHR ''n'']
     else if c = TAB then [BACKSLASH, CHR ''t'']
     else if c = CR then [BACKSLASH, CHR ''r'']
     else [c])"

definition json_quote :: "string \<Rightarrow> string option" where
  "json_quote s = do {
     _ \<leftarrow> ck32 (int (length s) * 2 + 3);
     snew ([DQUOTE] @ concat (map esc_char s) @ [DQUOTE]) }"

definition json_stringify_callback ::
  "(tsvalue \<Rightarrow> string option) \<Rightarrow> string \<Rightarrow> tsvalue \<Rightarrow> string \<times> bool \<Rightarrow> (string \<times> bool) option" where
  "json_stringify_callback rec k v ctx = do {
     r0 \<leftarrow> (if \<not> snd ctx then scat (fst ctx) '', '' else Some (fst ctx));
     ks \<leftarrow> json_quote k;
     r1 \<leftarrow> scat r0 ks;
     r2 \<leftarrow> scat r1 '': '';
     vs \<leftarrow> rec v;
     r3 \<leftarrow> scat r2 vs;
     Some (r3, False) }"

definition stringify_object :: "(tsvalue \<Rightarrow> string option) \<Rightarrow> tsvalue hashmap \<Rightarrow> string option" where
  "stringify_object rec m = do {
     r \<leftarrow> ts_hashmap_for_each m (json_stringify_callback rec) (''{'', True);
     scat (fst r) ''}'' }"

definition stringify_array :: "(tsvalue \<Rightarrow> string option) \<Rightarrow> tsvalue tsarray \<Rightarrow> string option" where
  "stringify_array rec a = do {
     r \<leftarrow> foldo (\<lambda>acc i. do {
         r0 \<leftarrow> (if i > 0 then scat acc '', '' else Some acc);
         v \<leftarrow> read_item (a_items a) i;
         e \<leftarrow> rec v;
         scat r0 e }) ''['' [0..a_length a - 1];
     scat r '']'' }"

lemma stringify_mono [partial_function_mono]:
  "mono_option (\<lambda>f. stringify_object (\<lambda>v. f (h, v)) m)"
  "mono_option (\<lambda>f. stringify_array (\<lambda>v. f (h, v)) a)"
  unfolding stringify_object_def stringify_array_def ts_hashmap_for_each_def json_stringify_callback_def
  by (intro mono_opt call_mono)+

partial_function (option) ts_json_stringify :: "heap \<Rightarrow> tsvalue \<Rightarrow> string option" where
  "ts_json_stringify h v = (case v of
      VNumber d \<Rightarrow> snew (snprintf 64 (fmt_g d))
    | VBoolean b \<Rightarrow> Some (if b \<noteq> 0 then ''true'' else ''false'')
    | VString p \<Rightarrow> do { s \<leftarrow> str_data h p; json_quote s }
    | VNull \<Rightarrow> Some ''null''
    | VArray p \<Rightarrow> do { a \<leftarrow> arrs h p; stringify_array (\<lambda>v. ts_json_stringify h v) a }
    | VObject p \<Rightarrow>
        (if p = 0 then Some ''{}''
         else do { m \<leftarrow> get_map h p; stringify_object (\<lambda>v. ts_json_stringify h v) m })
    | _ \<Rightarrow> Some ''null'')"

subsection \<open>Stringify with indentation\<close>

text \<open>
  \<^verbatim>\<open>build_indent\<close> clamps the width to 256 and then writes the terminator at that index of a
  buffer of 256 bytes.
\<close>

definition build_indent :: "int \<Rightarrow> int \<Rightarrow> string option" where
  "build_indent depth indent =
    (if indent \<le> 0 then Some []
     else do {
       t \<leftarrow> ck32 (depth * indent);
       let total = (if t > 256 then 256 else t);
       if total < 256 then Some (replicate (nat total) (CHR '' '')) else None })"

definition json_indent_callback ::
  "(tsvalue \<Rightarrow> string option) \<Rightarrow> string \<Rightarrow> string \<Rightarrow> tsvalue \<Rightarrow> string \<times> bool \<Rightarrow> (string \<times> bool) option" where
  "json_indent_callback rec indBuf1 k v ctx = do {
     r0 \<leftarrow> (if \<not> snd ctx then scat (fst ctx) ('','' @ [NL]) else Some (fst ctx));
     r1 \<leftarrow> scat r0 indBuf1;
     ks \<leftarrow> json_quote k;
     r2 \<leftarrow> scat r1 ks;
     r3 \<leftarrow> scat r2 '': '';
     vs \<leftarrow> rec v;
     r4 \<leftarrow> scat r3 vs;
     Some (r4, False) }"

definition indent_object ::
  "(tsvalue \<Rightarrow> string option) \<Rightarrow> string \<Rightarrow> string \<Rightarrow> tsvalue hashmap \<Rightarrow> string option" where
  "indent_object rec indBuf indBuf1 m = do {
     r \<leftarrow> ts_hashmap_for_each m (json_indent_callback rec indBuf1) (''{'' @ [NL], True);
     r1 \<leftarrow> scat (fst r) [NL];
     r2 \<leftarrow> scat r1 indBuf;
     scat r2 ''}'' }"

definition indent_array ::
  "(tsvalue \<Rightarrow> string option) \<Rightarrow> string \<Rightarrow> string \<Rightarrow> tsvalue tsarray \<Rightarrow> string option" where
  "indent_array rec indBuf indBuf1 a = do {
     r \<leftarrow> foldo (\<lambda>acc i. do {
         v \<leftarrow> read_item (a_items a) i;
         e \<leftarrow> rec v;
         r0 \<leftarrow> scat acc indBuf1;
         r1 \<leftarrow> scat r0 e;
         if i < a_length a - 1 then scat r1 ('','' @ [NL]) else Some r1 }) (''['' @ [NL]) [0..a_length a - 1];
     r1 \<leftarrow> scat r [NL];
     r2 \<leftarrow> scat r1 indBuf;
     scat r2 '']'' }"

lemma indent_mono [partial_function_mono]:
  "mono_option (\<lambda>f. indent_object (\<lambda>v. f (((h, v), i), d)) x y m)"
  "mono_option (\<lambda>f. indent_array (\<lambda>v. f (((h, v), i), d)) x y a)"
  unfolding indent_object_def indent_array_def ts_hashmap_for_each_def json_indent_callback_def
  by (intro mono_opt call_mono)+

partial_function (option) json_stringify_indent :: "heap \<Rightarrow> tsvalue \<Rightarrow> int \<Rightarrow> int \<Rightarrow> string option" where
  "json_stringify_indent h v indent depth =
    (if indent \<le> 0 then ts_json_stringify h v
     else do {
       indBuf \<leftarrow> build_indent depth indent;
       indBuf1 \<leftarrow> build_indent (depth + 1) indent;
       case v of
         VNumber d \<Rightarrow> snew (snprintf 64 (fmt_g d))
       | VBoolean b \<Rightarrow> Some (if b \<noteq> 0 then ''true'' else ''false'')
       | VString p \<Rightarrow> do { s \<leftarrow> str_data h p; json_quote s }
       | VNull \<Rightarrow> Some ''null''
       | VArray p \<Rightarrow> do {
           a \<leftarrow> arrs h p;
           if a_length a = 0 then Some ''[]''
           else indent_array (\<lambda>v. json_stringify_indent h v indent (depth + 1)) indBuf indBuf1 a }
       | VObject p \<Rightarrow>
           (if p = 0 then do { r1 \<leftarrow> scat (''{'' @ [NL] @ [NL]) indBuf; scat r1 ''}'' }
            else do {
              m \<leftarrow> get_map h p;
              indent_object (\<lambda>v. json_stringify_indent h v indent (depth + 1)) indBuf indBuf1 m })
       | _ \<Rightarrow> Some ''null'' })"

definition ts_json_stringify_indent :: "heap \<Rightarrow> tsvalue \<Rightarrow> int \<Rightarrow> string option" where
  "ts_json_stringify_indent h v indent = json_stringify_indent h v indent 0"

subsection \<open>Parse\<close>

fun unesc :: "char \<Rightarrow> char" where
  "unesc c = (if c = CHR ''n'' then NL else if c = CHR ''t'' then TAB else if c = CHR ''r'' then CR else c)"

text \<open>The body of a string literal, up to the quote, the end or the size of the buffer.\<close>

fun read_str :: "nat \<Rightarrow> string \<Rightarrow> string \<Rightarrow> (string \<times> string) option" where
  "read_str mx [] acc = Some (acc, [])"
| "read_str mx [c] acc =
    (if c = DQUOTE \<or> length acc \<ge> mx then Some (acc, [c])
     else if c = BACKSLASH then None else read_str mx [] (acc @ [c]))"
| "read_str mx (c # d # r) acc =
    (if c = DQUOTE \<or> length acc \<ge> mx then Some (acc, c # d # r)
     else if c = BACKSLASH then read_str mx r (acc @ [unesc d])
     else read_str mx (d # r) (acc @ [c]))"

definition skip_ws :: "string \<Rightarrow> string" where
  "skip_ws s = dropWhile is_ws s"

definition is_open :: "char \<Rightarrow> bool" where
  "is_open c \<longleftrightarrow> c = CHR ''['' \<or> c = CHR ''{''"

definition is_close :: "char \<Rightarrow> bool" where
  "is_close c \<longleftrightarrow> c = CHR '']'' \<or> c = CHR ''}''"

text \<open>The extent of a member's text: brackets are counted, string literals are not seen.\<close>

fun scan_val :: "nat \<Rightarrow> string \<Rightarrow> string \<times> string" where
  "scan_val depth [] = ([], [])"
| "scan_val depth (c # s) =
    (if is_close c \<and> depth = 0 \<or> c = CHR '','' \<and> depth = 0 then ([], c # s)
     else (let (a, b) = scan_val (if is_open c then depth + 1 else if is_close c then depth - 1 else depth) s
           in (c # a, b)))"

definition skip_char :: "char \<Rightarrow> string \<Rightarrow> string" where
  "skip_char c s = (case s of d # r \<Rightarrow> if d = c then r else s | [] \<Rightarrow> [])"

text \<open>
  The parser and its two loops as one recursion: a value, the rest of an array whose elements
  so far are at an address, the rest of an object whose map is at an address. A loop that
  makes no progress does not return.
\<close>

datatype jtask = JValue string | JArr addr string | JObj addr string

partial_function (option) json_run :: "jtask \<Rightarrow> heap \<Rightarrow> (tsvalue \<times> heap) option" where
  "json_run t h = (case t of
     JValue s0 \<Rightarrow>
       (let s = skip_ws s0 in
        if prefix ''null'' s then Some (VNull, h)
        else if prefix ''true'' s then Some (VBoolean 1, h)
        else if prefix ''false'' s then Some (VBoolean 0, h)
        else if s \<noteq> [] \<and> (hd s = CHR ''-'' \<or> is_digit (hd s)) \<and> snd (strtod s) \<noteq> s
          then Some (VNumber (fst (strtod s)), h)
        else if s \<noteq> [] \<and> hd s = DQUOTE then do {
          (b, _) \<leftarrow> read_str 4095 (tl s) [];
          (p, h1) \<leftarrow> ts_string_new h b;
          Some (VString p, h1) }
        else if s \<noteq> [] \<and> hd s = CHR ''['' then
          (let (a, h1) = new_arr h ts_array_new in json_run (JArr a (tl s)) h1)
        else if s \<noteq> [] \<and> hd s = CHR ''{'' then
          (let (q, h1) = new_obj h (OMap ts_hashmap_new) in json_run (JObj q (tl s)) h1)
        else Some (VNull, h))
   | JArr a s \<Rightarrow>
       (if s = [] \<or> hd s = CHR '']'' then Some (VArray a, h)
        else (let p = skip_ws s in
          if p \<noteq> [] \<and> hd p = CHR '']'' then Some (VArray a, h)
          else (let (sub, r) = scan_val 0 p in do {
            (v, h1) \<leftarrow> json_run (JValue sub) h;
            h2 \<leftarrow> arr_push_at h1 a v;
            json_run (JArr a (skip_char (CHR '','') (skip_ws r))) h2 })))
   | JObj q s \<Rightarrow>
       (if s = [] \<or> hd s = CHR ''}'' then Some (VObject q, h)
        else (let p = skip_ws s in
          if p = [] \<or> hd p \<noteq> DQUOTE then Some (VObject q, h)
          else do {
            (k, r) \<leftarrow> read_str 1023 (tl p) [];
            if r = [] then None
            else (let r1 = skip_ws (skip_char (CHR '':'') (skip_ws (tl r)));
                      (sub, r2) = scan_val 0 r1 in do {
              (v, h1) \<leftarrow> json_run (JValue sub) h;
              m \<leftarrow> get_map h1 q;
              m' \<leftarrow> ts_hashmap_set m (cstr k) v;
              json_run (JObj q (skip_char (CHR '','') (skip_ws r2))) (put_obj h1 q (OMap m')) }) })))"

definition ts_json_parse :: "heap \<Rightarrow> addr \<Rightarrow> (tsvalue \<times> heap) option" where
  "ts_json_parse h p =
    (if p = 0 then Some (VNull, h) else do { s \<leftarrow> str_data h p; json_run (JValue (cstr s)) h })"

definition ts_json_is_raw_json :: "heap \<Rightarrow> tsvalue \<Rightarrow> bool option" where
  "ts_json_is_raw_json h v = (case v of
      VString p \<Rightarrow> do {
        s \<leftarrow> str_data h p;
        Some (s \<noteq> [] \<and> (hd s = CHR ''{'' \<or> hd s = CHR ''['')) }
    | _ \<Rightarrow> Some False)"

definition ts_json_raw_json :: "heap \<Rightarrow> addr \<Rightarrow> (tsvalue \<times> heap) option" where
  "ts_json_raw_json h raw = ts_json_parse h raw"


subsection \<open>JSON trees and their text\<close>

datatype json = JNull | JBool bool | JNum dbl | JStr string | JArrT "json list" | JObjT "(string \<times> json) list"

fun comma_join :: "string list \<Rightarrow> string" where
  "comma_join [] = []"
| "comma_join [t] = t"
| "comma_join (t # u # ts) = t @ '', '' @ comma_join (u # ts)"

definition quoted :: "string \<Rightarrow> string" where
  "quoted s = [DQUOTE] @ concat (map esc_char s) @ [DQUOTE]"

fun render :: "json \<Rightarrow> string" where
  "render JNull = ''null''"
| "render (JBool b) = (if b then ''true'' else ''false'')"
| "render (JNum d) = fmt_g d"
| "render (JStr s) = quoted s"
| "render (JArrT ts) = ''['' @ comma_join (map render ts) @ '']''"
| "render (JObjT kts) = ''{'' @ comma_join (map (\<lambda>kt. quoted (fst kt) @ '': '' @ render (snd kt)) kts) @ ''}''"

text \<open>
  The value \<open>v\<close> in the store stands for the tree; with \<open>ord\<close> the members of an object are
  listed in the order of its table, otherwise in any order.
\<close>

inductive reads :: "bool \<Rightarrow> heap \<Rightarrow> tsvalue \<Rightarrow> json \<Rightarrow> bool" for ord h where
  null: "reads ord h VNull JNull"
| bool: "reads ord h (VBoolean b) (JBool (b \<noteq> 0))"
| num: "reads ord h (VNumber d) (JNum d)"
| str: "str_at h p s \<Longrightarrow> reads ord h (VString p) (JStr s)"
| arr: "p \<noteq> 0 \<Longrightarrow> arrs h p = Some a \<Longrightarrow> arr_ok a \<Longrightarrow> list_all2 (reads ord h) (arr_vals a) ts \<Longrightarrow>
        reads ord h (VArray p) (JArrT ts)"
| obj: "p \<noteq> 0 \<Longrightarrow> objs h p = Some (OMap m) \<Longrightarrow> hm_inv m \<Longrightarrow>
        (if ord then kvs = hm_pairs (m_entries m) else mset kvs = mset (hm_pairs (m_entries m))) \<Longrightarrow>
        list_all2 (\<lambda>kv kt. fst kv = fst kt \<and> reads ord h (snd kv) (snd kt)) kvs kts \<Longrightarrow>
        reads ord h (VObject p) (JObjT kts)"

text \<open>
  The trees whose text the parser understands: numbers that \<^verbatim>\<open>%g\<close> prints exactly, strings that
  fit the parser's buffers and, since it does not see string literals when it looks for the
  end of a member, contain no brackets, braces or commas.
\<close>

definition structural :: "char set" where
  "structural = {CHR ''['', CHR '']'', CHR ''{'', CHR ''}'', CHR '',''}"

definition plain_str :: "nat \<Rightarrow> string \<Rightarrow> bool" where
  "plain_str n s \<longleftrightarrow> NUL \<notin> set s \<and> set s \<inter> structural = {} \<and> length s \<le> n"

fun plain :: "json \<Rightarrow> bool" where
  "plain JNull = True"
| "plain (JBool b) = True"
| "plain (JNum d) = (\<exists>n :: int. \<bar>n\<bar> < 1000000 \<and> d = dint n)"
| "plain (JStr s) = plain_str 4095 s"
| "plain (JArrT ts) = (length ts \<le> ARR_LIMIT \<and> list_all plain ts)"
| "plain (JObjT kts) = (length kts \<le> HM_LIMIT \<and> distinct (map fst kts) \<and>
     list_all (\<lambda>kt. plain_str 1023 (fst kt) \<and> plain (snd kt)) kts)"

declare fmt_g.simps [simp del]

subsection \<open>What stringify prints\<close>

lemma scat_Some: "int (length x) + int (length y) \<le> int32_max \<Longrightarrow> scat x y = Some (x @ y)"
  by (simp add: scat_def fits32I)

lemma NUL_esc: "NUL \<notin> set s \<Longrightarrow> NUL \<notin> set (quoted s)"
  by (auto simp: quoted_def split: if_splits)

lemma length_escaped:
  "length s \<le> length (concat (map esc_char s))" "length (concat (map esc_char s)) \<le> 2 * length s"
  by (induction s) auto

lemma length_quoted: "length s + 2 \<le> length (quoted s)" "length (quoted s) \<le> 2 * length s + 2"
  using length_escaped[of s] by (simp_all add: quoted_def)

lemma json_quote_eq:
  assumes "NUL \<notin> set s" "length s \<le> 1000000000" shows "json_quote s = Some (quoted s)"
proof -
  have "int (length (quoted s)) \<le> int32_max"
    using length_quoted(2)[of s] assms(2) by (simp add: int32_max_def)
  moreover have "fits32 (int (length s) * 2 + 3)" using assms(2) by (intro fits32I) (auto simp: int32_max_def)
  ultimately show ?thesis
    using NUL_esc[OF assms(1)] unfolding json_quote_def quoted_def[symmetric]
    by (simp add: snew_def strlen_def cstr_id fits32I)
qed

lemma int_str_text: "NUL \<notin> set (int_str n)" "set (int_str n) \<inter> structural = {}" "int_str n \<noteq> []"
  "hd (int_str n) = CHR ''-'' \<or> is_digit (hd (int_str n))"
proof -
  have "is_digit c \<Longrightarrow> c \<noteq> NUL \<and> c \<notin> structural" for c by (auto simp: is_digit_def structural_def)
  then show "NUL \<notin> set (int_str n)" "set (int_str n) \<inter> structural = {}" "int_str n \<noteq> []"
    "hd (int_str n) = CHR ''-'' \<or> is_digit (hd (int_str n))"
    using dec_str_digits[of _ "nat n"] dec_str_digits[of _ "nat (- n)"] hd_in_set[OF dec_str_not_Nil[of "nat n"]]
    by (auto simp: int_str_def structural_def)
qed

lemma length_int_str: "\<bar>n\<bar> < 1000000 \<Longrightarrow> length (int_str n) \<le> 7"
proof -
  have *: "length (dec_str m) \<le> 6" if "m < 1000000" for m
    using that length_dec_str[of m] ndig_le[of 10 m 6] by (cases "m = 0") (auto simp: dec_str.simps)
  assume n: "\<bar>n\<bar> < 1000000"
  have "length (dec_str (nat n)) \<le> 6" "length (dec_str (nat (- n))) \<le> 6" using n * by simp_all
  then show "length (int_str n) \<le> 7" by (simp add: int_str_def)
qed

text \<open>The loops over the elements of an array and the members of an object.\<close>

lemma length_comma_join_snoc:
  "comma_join (ts @ [t]) = (if ts = [] then t else comma_join ts @ '', '' @ t)"
  by (induction ts rule: comma_join.induct) auto

lemma length_comma_join_mono: "length (comma_join (take i ts)) \<le> length (comma_join ts)"
proof (induction ts arbitrary: i rule: comma_join.induct)
  case (3 t u ts)
  show ?case using 3[of "i - 1"] by (cases i; cases "i - 1") auto
qed (auto simp: take_Cons split: nat.split)

definition arr_step :: "(tsvalue \<Rightarrow> string option) \<Rightarrow> tsvalue tsarray \<Rightarrow> string \<Rightarrow> int \<Rightarrow> string option" where
  "arr_step rec a acc i = do {
     r0 \<leftarrow> (if i > 0 then scat acc '', '' else Some acc);
     v \<leftarrow> read_item (a_items a) i;
     e \<leftarrow> rec v;
     scat r0 e }"

lemma stringify_array_ok:
  assumes ok: "arr_ok a" and r: "map rec (arr_vals a) = map Some ts"
    and len: "int (length (comma_join ts)) + 2 \<le> int32_max"
  shows "stringify_array rec a = Some (''['' @ comma_join ts @ '']'')"
proof -
  let ?vs = "arr_vals a"
  have n: "length ?vs = length ts" "a_length a = int (length ts)"
    using map_eq_imp_length_eq[OF r] length_arr_vals[OF ok] by auto
  have "k \<le> length ts \<Longrightarrow> foldo (arr_step rec a) ''['' [0..int k - 1] = Some (''['' @ comma_join (take k ts))" for k
  proof (induction k)
    case (Suc k)
    have k: "k < length ts" using Suc.prems by simp
    have "[0..int (Suc k) - 1] = [0..int k - 1] @ [int k]"
      using upto_rec2[of 0 "int k"] by simp
    moreover have "read_item (a_items a) (int k) = Some (?vs ! k)" using read_item_arr[OF ok] k n by simp
    moreover have "rec (?vs ! k) = Some (ts ! k)" using arg_cong[OF r, of "\<lambda>xs. xs ! k"] k n by simp
    moreover have tk: "comma_join (take (Suc k) ts) =
        (if k = 0 then ts ! k else comma_join (take k ts) @ '', '' @ ts ! k)"
      using k by (auto simp: take_Suc_conv_app_nth length_comma_join_snoc)
    moreover have "length (comma_join (take (Suc k) ts)) \<le> length (comma_join ts)"
      by (rule length_comma_join_mono)
    ultimately show ?case using Suc.IH k len
      by (cases "k = 0") (simp_all add: foldo_append arr_step_def scat_Some)
  qed simp
  from this[of "length ts"] have "foldo (arr_step rec a) ''['' [0..a_length a - 1] = Some (''['' @ comma_join ts)"
    using n by simp
  then show ?thesis using len by (simp add: stringify_array_def scat_Some flip: arr_step_def)
qed

lemma stringify_object_ok:
  assumes r: "map (\<lambda>kv. rec (snd kv)) (hm_pairs (m_entries m)) = map (\<lambda>kt. Some (render (snd kt))) kts"
    and k: "map fst (hm_pairs (m_entries m)) = map fst kts"
    and q: "\<And>k. k \<in> fst ` set kts \<Longrightarrow> json_quote k = Some (quoted k)"
    and len: "int (length (render (JObjT kts))) \<le> int32_max"
  shows "stringify_object rec m = Some (render (JObjT kts))"
proof -
  let ?kvs = "hm_pairs (m_entries m)" and ?f = "\<lambda>kt. quoted (fst kt) @ '': '' @ render (snd kt)"
  have "i \<le> length kts \<Longrightarrow> foldo (\<lambda>c (k, v). json_stringify_callback rec k v c) (''{'', True) (take i ?kvs) =
      Some (''{'' @ comma_join (map ?f (take i kts)), i = 0)" for i
  proof (induction i)
    case (Suc i)
    have i: "i < length kts" "i < length ?kvs" using Suc.prems map_eq_imp_length_eq[OF k] by auto
    have e: "rec (snd (?kvs ! i)) = Some (render (snd (kts ! i)))" "fst (?kvs ! i) = fst (kts ! i)"
      using arg_cong[OF r, of "\<lambda>xs. xs ! i"] arg_cong[OF k, of "\<lambda>xs. xs ! i"] i by simp_all
    have jq: "json_quote (fst (kts ! i)) = Some (quoted (fst (kts ! i)))" using q i by simp
    have tk: "comma_join (map ?f (take (Suc i) kts)) =
        (if i = 0 then ?f (kts ! i) else comma_join (map ?f (take i kts)) @ '', '' @ ?f (kts ! i))"
      using i by (auto simp: take_Suc_conv_app_nth length_comma_join_snoc)
    have l: "length (comma_join (map ?f (take (Suc i) kts))) \<le> length (comma_join (map ?f kts))"
      unfolding take_map[symmetric] by (rule length_comma_join_mono)
    show ?case using Suc i e jq tk l len
      by (cases "i = 0")
        (simp_all add: foldo_append take_Suc_conv_app_nth case_prod_beta json_stringify_callback_def scat_Some)
  qed simp
  from this[of "length kts"] have "foldo (\<lambda>c (k, v). json_stringify_callback rec k v c) (''{'', True) ?kvs =
      Some (''{'' @ comma_join (map ?f kts), kts = [])"
    using map_eq_imp_length_eq[OF k] by simp
  then show ?thesis using len by (simp add: stringify_object_def hm_for_each_ok scat_Some)
qed


lemma render_arg_le:
  "t \<in> set ts \<Longrightarrow> length t \<le> length (comma_join ts)"
  by (induction ts rule: comma_join.induct) auto

lemma json_quote_key:
  assumes "k \<in> fst ` set kts" "plain (JObjT kts)" shows "json_quote k = Some (quoted k)"
  using assms by (auto simp: list_all_iff plain_str_def intro!: json_quote_eq)

lemma plain_num: "plain (JNum d) \<Longrightarrow> \<exists>n. \<bar>n\<bar> < 1000000 \<and> d = dint n \<and> fmt_g d = int_str n"
  using fmt_g_of_int by auto

lemma snprintf_int_str: "\<bar>n\<bar> < 1000000 \<Longrightarrow> snew (snprintf 64 (int_str n)) = Some (int_str n)"
  using length_int_str[of n] int_str_text(1)[of n]
  by (simp add: snprintf_def cstr_id snew_def strlen_def fits32I int32_max_def)

text \<open>What \<^verbatim>\<open>JSON.stringify\<close> returns for a value that stands for a tree.\<close>

lemma ts_json_stringify_render:
  assumes "reads True h v t" "plain t" "length (render t) \<le> 2000000000"
  shows "ts_json_stringify h v = Some (render t)"
  using assms
proof (induction rule: reads.induct)
  case (num d)
  then show ?case using plain_num[of d] snprintf_int_str
    by (subst ts_json_stringify.simps) auto
next
  case (str p s)
  then show ?case
    by (subst ts_json_stringify.simps)
      (simp add: json_quote_eq plain_str_def quoted_def)
next
  case (arr p a ts)
  have rec: "map (ts_json_stringify h) (arr_vals a) = map Some (map render ts)"
  proof (rule nth_equalityI)
    show len: "length (map (ts_json_stringify h) (arr_vals a)) = length (map Some (map render ts))"
      using arr.IH by (simp add: list_all2_lengthD)
    fix i assume "i < length (map (ts_json_stringify h) (arr_vals a))"
    then have i: "i < length ts" "i < length (arr_vals a)" using len by simp_all
    have "length (render (ts ! i)) \<le> length (comma_join (map render ts))"
      using i by (intro render_arg_le) simp
    then show "map (ts_json_stringify h) (arr_vals a) ! i = map Some (map render ts) ! i"
      using list_all2_nthD[OF arr.IH i(2)] arr.prems i by (simp add: list_all_length)
  qed
  then show ?case
    using arr.hyps arr.prems stringify_array_ok[OF arr.hyps(3) rec]
    by (subst ts_json_stringify.simps) (simp add: int32_max_def)
next
  case (obj p m kvs kts)
  have kvs: "kvs = hm_pairs (m_entries m)" using obj.hyps(4) by simp
  let ?f = "\<lambda>kt. quoted (fst kt) @ '': '' @ render (snd kt)"
  have len: "length kvs = length kts" using obj.IH by (simp add: list_all2_lengthD)
  have e: "fst (kvs ! i) = fst (kts ! i) \<and> ts_json_stringify h (snd (kvs ! i)) = Some (render (snd (kts ! i)))"
    if i: "i < length kts" for i
  proof -
    have "length (?f (kts ! i)) \<le> length (comma_join (map ?f kts))"
      using i by (intro render_arg_le) auto
    then show ?thesis
      using list_all2_nthD[OF obj.IH, of i] obj.prems i len by (simp add: list_all_length)
  qed
  have "map (\<lambda>kv. ts_json_stringify h (snd kv)) kvs = map (\<lambda>kt. Some (render (snd kt))) kts" "map fst kvs = map fst kts"
    using e len by (auto intro!: nth_equalityI)
  then have "stringify_object (\<lambda>v. ts_json_stringify h v) m = Some (render (JObjT kts))"
    using obj.prems json_quote_key[OF _ obj.prems(1)] unfolding kvs
    by (intro stringify_object_ok) (auto simp: int32_max_def)
  then show ?case
    using obj.hyps by (subst ts_json_stringify.simps) (simp add: get_map_objs)
qed (subst ts_json_stringify.simps, simp)+


subsection \<open>The extent of a member\<close>

definition transparent :: "nat \<Rightarrow> string \<Rightarrow> bool" where
  "transparent d s \<longleftrightarrow> (\<forall>e \<ge> d. \<forall>r. scan_val e (s @ r) = (s @ fst (scan_val e r), snd (scan_val e r)))"

lemma transparent_Nil [intro]: "transparent d []"
  by (simp add: transparent_def)

lemma transparent_append [intro]: "transparent d a \<Longrightarrow> transparent d b \<Longrightarrow> transparent d (a @ b)"
  by (simp add: transparent_def)

lemma transparent_mono: "transparent d a \<Longrightarrow> d \<le> e \<Longrightarrow> transparent e a"
  by (auto simp: transparent_def)

lemma transparent_chars: "set s \<inter> structural = {} \<Longrightarrow> transparent d s"
proof (induction s)
  case (Cons c s)
  then show ?case
    by (auto simp: transparent_def structural_def is_open_def is_close_def case_prod_beta)
qed auto

lemma transparent_comma: "transparent (Suc d) '', ''"
  by (auto simp: transparent_def is_open_def is_close_def case_prod_beta)

lemma transparent_join:
  "(\<And>t. t \<in> set ts \<Longrightarrow> transparent (Suc d) t) \<Longrightarrow> transparent (Suc d) (comma_join ts)"
proof (induction ts rule: comma_join.induct)
  case (3 t u ts)
  have "transparent (Suc d) (t @ ('', '' @ comma_join (u # ts)))"
    using 3 by (intro transparent_append transparent_comma) auto
  then show ?case by simp
qed auto

lemma transparent_brackets:
  assumes "transparent 1 s" "is_open a" "is_close b" shows "transparent 0 ([a] @ s @ [b])"
proof -
  have n: "\<not> is_close a" "a \<noteq> CHR '',''" "\<not> is_open b" "b \<noteq> CHR '',''"
    using assms(2,3) by (auto simp: is_open_def is_close_def)
  have "scan_val (Suc e) (s @ b # r) = (s @ fst (scan_val (Suc e) (b # r)), snd (scan_val (Suc e) (b # r)))" for e r
    using assms(1) by (simp add: transparent_def)
  moreover have "scan_val (Suc e) (b # r) = (b # fst (scan_val e r), snd (scan_val e r))" for e r
    using assms(3) n by (simp add: case_prod_beta)
  ultimately show ?thesis using assms(2) n by (simp add: transparent_def case_prod_beta)
qed

lemma structural_esc: "set s \<inter> structural = {} \<Longrightarrow> set (quoted s) \<inter> structural = {}"
  by (auto simp: quoted_def structural_def split: if_splits)

lemma transparent_render: "plain t \<Longrightarrow> transparent 0 (render t)"
proof (induction t)
  case (JNum d)
  then obtain n where "fmt_g d = int_str n" using plain_num by blast
  then show ?case by (simp add: transparent_chars int_str_text(2) del: fmt_g.simps)
next
  case (JStr s)
  then show ?case by (simp add: plain_str_def structural_esc transparent_chars)
next
  case (JArrT ts)
  have "transparent 1 (comma_join (map render ts))"
    using JArrT transparent_mono[of 0] unfolding One_nat_def
    by (intro transparent_join) (auto simp: list_all_iff)
  then show ?case
    using transparent_brackets[of _ "CHR ''[''" "CHR '']''"] by (simp add: is_open_def is_close_def)
next
  case (JObjT kts)
  have "transparent 1 (comma_join (map (\<lambda>kt. quoted (fst kt) @ '': '' @ render (snd kt)) kts))"
    unfolding One_nat_def
  proof (intro transparent_join)
    fix x assume "x \<in> set (map (\<lambda>kt. quoted (fst kt) @ '': '' @ render (snd kt)) kts)"
    then obtain kt where kt: "kt \<in> set kts" "x = quoted (fst kt) @ '': '' @ render (snd kt)" by auto
    have "transparent 0 (quoted (fst kt))" "transparent 0 '': ''"
      using JObjT.prems kt(1) by (auto intro!: transparent_chars structural_esc
          simp: list_all_iff plain_str_def structural_def)
    moreover have "snd kt \<in> Basic_BNFs.snds kt" by (cases kt) simp
    then have "transparent 0 (render (snd kt))"
      using JObjT.IH[OF kt(1)] JObjT.prems kt(1) by (simp add: list_all_iff)
    ultimately have "transparent 0 x"
      unfolding kt(2) by (intro transparent_append)
    then show "transparent (Suc 0) x" by (rule transparent_mono) simp
  qed
  then show ?case
    using transparent_brackets[of _ "CHR ''{''" "CHR ''}''"] by (simp add: is_open_def is_close_def)
qed (auto intro!: transparent_chars simp: structural_def)

lemma scan_val_stop:
  "transparent 0 s \<Longrightarrow> r = [] \<or> is_close (hd r) \<or> hd r = CHR '','' \<Longrightarrow> scan_val 0 (s @ r) = (s, r)"
proof -
  assume t: "transparent 0 s" and r: "r = [] \<or> is_close (hd r) \<or> hd r = CHR '','' "
  have "scan_val 0 (s @ r) = (s @ fst (scan_val 0 r), snd (scan_val 0 r))"
    using t by (simp add: transparent_def)
  moreover have "scan_val 0 r = ([], r)" using r by (cases r) auto
  ultimately show ?thesis by simp
qed

text \<open>The text of a tree begins with none of the characters the loops test for.\<close>

lemma render_first:
  assumes "plain t"
  shows "render t \<noteq> []" "\<not> is_ws (hd (render t))" "\<not> is_close (hd (render t))"
proof -
  have "render t \<noteq> [] \<and> \<not> is_ws (hd (render t)) \<and> \<not> is_close (hd (render t))"
  proof (cases t)
    case (JNum d)
    moreover obtain n where n: "fmt_g d = int_str n" using assms JNum plain_num by blast
    moreover have "is_digit c \<Longrightarrow> \<not> is_ws c \<and> \<not> is_close c" for c
      by (auto simp: is_digit_def is_ws_def is_close_def)
    moreover have "\<not> is_ws (CHR ''-'') \<and> \<not> is_close (CHR ''-'')" by (simp add: is_ws_def is_close_def)
    ultimately show ?thesis using int_str_text(3)[of n] int_str_text(4)[of n] by fastforce
  qed (auto simp: is_ws_def is_close_def quoted_def)
  then show "render t \<noteq> []" "\<not> is_ws (hd (render t))" "\<not> is_close (hd (render t))" by auto
qed

lemma skip_ws_render: "plain t \<Longrightarrow> skip_ws (render t @ r) = render t @ r"
  using render_first[of t] by (cases "render t") (auto simp: skip_ws_def)

text \<open>A string literal is read back.\<close>

lemma read_str_quoted:
  assumes "length acc + length s \<le> n" "NUL \<notin> set s"
  shows "read_str n (concat (map esc_char s) @ DQUOTE # r) acc = Some (acc @ s, DQUOTE # r)"
  using assms
proof (induction s arbitrary: acc)
  case Nil
  then show ?case by (cases r) simp_all
next
  case (Cons c s)
  obtain x xs where x: "concat (map esc_char s) @ DQUOTE # r = x # xs"
    by (cases "concat (map esc_char s) @ DQUOTE # r") auto
  have "read_str n (x # xs) (acc @ [c]) = Some ((acc @ [c]) @ s, DQUOTE # r)"
    unfolding x[symmetric] by (rule Cons.IH) (use Cons.prems in auto)
  moreover have "length acc < n" using Cons.prems(1) by simp
  moreover have "concat (map esc_char (c # s)) @ DQUOTE # r = esc_char c @ x # xs"
    unfolding x[symmetric] by simp
  moreover have "esc_char c = [c] \<and> c \<noteq> DQUOTE \<and> c \<noteq> BACKSLASH \<or> (\<exists>d. esc_char c = [BACKSLASH, d] \<and> unesc d = c)"
    by simp
  ultimately show ?case by (elim disjE exE conjE) (simp_all del: esc_char.simps unesc.simps)
qed


subsection \<open>What the parser builds\<close>

text \<open>The part of the store that lies at or above an address.\<close>

definition above :: "addr \<Rightarrow> heap \<Rightarrow> heap" where
  "above n h = h\<lparr>strs := (strs h) |` {n..}, arrs := (arrs h) |` {n..}, objs := (objs h) |` {n..}\<rparr>"

lemma above_sel [simp]:
  "strs (above n h) p = (if n \<le> p then strs h p else None)"
  "arrs (above n h) p = (if n \<le> p then arrs h p else None)"
  "objs (above n h) p = (if n \<le> p then objs h p else None)"
  by (simp_all add: above_def restrict_map_def)

lemma list_all2_reads_mono:
  "list_all2 R xs ys \<Longrightarrow> (\<And>x y. R x y \<Longrightarrow> S x y) \<Longrightarrow> list_all2 S xs ys"
  by (rule list_all2_mono)

lemma reads_mono:
  assumes "reads ord h v t"
    and "\<And>p s. strs h p = Some s \<Longrightarrow> strs h' p = Some s" "\<And>p a. arrs h p = Some a \<Longrightarrow> arrs h' p = Some a"
    and "\<And>p x. objs h p = Some x \<Longrightarrow> objs h' p = Some x"
  shows "reads ord h' v t"
  using assms(1)
proof (induction rule: reads.induct)
  case (str p s)
  then show ?case using assms(2) by (auto simp: str_at_def intro!: reads.str)
next
  case (arr p a ts)
  have "list_all2 (reads ord h') (arr_vals a) ts" using arr.IH by (rule list_all2_mono) simp
  then show ?case using arr.hyps assms(3) by (intro reads.arr)
next
  case (obj p m kvs kts)
  have "list_all2 (\<lambda>kv kt. fst kv = fst kt \<and> reads ord h' (snd kv) (snd kt)) kvs kts"
    using obj.IH by (rule list_all2_mono) simp
  then show ?case using obj.hyps assms(4) by (intro reads.obj)
qed (auto intro: reads.intros)

lemma reads_above_mono: "reads ord (above n h) v t \<Longrightarrow> m \<le> n \<Longrightarrow> reads ord (above m h) v t"
  by (erule reads_mono) (auto split: if_splits)

lemma reads_above_ext: "reads ord (above n h) v t \<Longrightarrow> heap_ext h h' \<Longrightarrow> reads ord (above n h') v t"
  by (erule reads_mono) (auto simp: heap_ext_def map_le_def dom_def split: if_splits)

lemma reads_above_all: "reads ord (above n h) v t \<Longrightarrow> reads ord h v t"
  by (erule reads_mono) (auto split: if_splits)

text \<open>Updating an object below \<open>n\<close> changes nothing above.\<close>

lemma above_put:
  "p < n \<Longrightarrow> above n (put_arr h p a) = above n h" "p < n \<Longrightarrow> above n (put_obj h p x) = above n h"
  by (auto simp: above_def put_defs restrict_map_def fun_eq_iff)

text \<open>A growing container at \<open>c\<close>: everything else of the old store is kept.\<close>

definition ext_but :: "addr \<Rightarrow> heap \<Rightarrow> heap \<Rightarrow> bool" where
  "ext_but c h h' \<longleftrightarrow> nxt h \<le> nxt h' \<and> (\<forall>p. strs h p \<noteq> None \<longrightarrow> strs h' p = strs h p) \<and>
     (\<forall>p. p \<noteq> c \<longrightarrow> arrs h p \<noteq> None \<longrightarrow> arrs h' p = arrs h p) \<and>
     (\<forall>p. p \<noteq> c \<longrightarrow> objs h p \<noteq> None \<longrightarrow> objs h' p = objs h p)"

lemma ext_but_trans: "ext_but c h h1 \<Longrightarrow> ext_but c h1 h2 \<Longrightarrow> ext_but c h h2"
  unfolding ext_but_def by (metis order_trans)

lemma heap_ext_but: "heap_ext h h' \<Longrightarrow> ext_but c h h'"
  by (auto simp: heap_ext_def ext_but_def map_le_def dom_def)

lemma ext_but_put: "ext_but c h (put_arr h c a)" "ext_but c h (put_obj h c x)"
  by (auto simp: ext_but_def put_defs)

text \<open>What is to be shown of the text of a tree.\<close>

definition parse_spec :: "json \<Rightarrow> bool" where
  "parse_spec t \<longleftrightarrow> (\<forall>h. heap_ok h \<longrightarrow> (\<exists>v h'. json_run (JValue (render t)) h = Some (v, h') \<and>
     heap_ok h' \<and> heap_ext h h' \<and> reads False (above (nxt h) h') v t))"

lemma parse_specD:
  "parse_spec t \<Longrightarrow> heap_ok h \<Longrightarrow> \<exists>v h'. json_run (JValue (render t)) h = Some (v, h') \<and>
     heap_ok h' \<and> heap_ext h h' \<and> reads False (above (nxt h) h') v t"
  by (simp add: parse_spec_def)


text \<open>What follows a member: the closing bracket, or a comma, a space and the other members.\<close>

definition rest_of :: "char \<Rightarrow> string list \<Rightarrow> string" where
  "rest_of c ss = (if ss = [] then [c] else '', '' @ comma_join ss @ [c])"

definition after_comma :: "char \<Rightarrow> string list \<Rightarrow> string" where
  "after_comma c ss = (if ss = [] then [c] else '' '' @ comma_join ss @ [c])"

lemma comma_join_rest: "comma_join (s # ss) @ [c] = s @ rest_of c ss"
  by (cases ss) (auto simp: rest_of_def)

lemma rest_of_steps:
  assumes "is_close c"
  shows "skip_char (CHR '','') (skip_ws (rest_of c ss)) = after_comma c ss"
    "is_close (hd (rest_of c ss)) \<or> hd (rest_of c ss) = CHR '',''"
  using assms
  by (auto simp: rest_of_def after_comma_def skip_ws_def skip_char_def is_ws_def is_close_def)

lemma scan_render: "plain t \<Longrightarrow> is_close c \<Longrightarrow> scan_val 0 (render t @ rest_of c ss) = (render t, rest_of c ss)"
  using rest_of_steps(2)[of c ss] transparent_render[of t] by (intro scan_val_stop) auto

definition arr_state :: "heap \<Rightarrow> addr \<Rightarrow> json list \<Rightarrow> bool" where
  "arr_state h a ts \<longleftrightarrow> heap_ok h \<and> a \<noteq> 0 \<and> (\<exists>x. arrs h a = Some x \<and> arr_ok x \<and>
     list_all2 (reads False (above (Suc a) h)) (arr_vals x) ts)"

lemma arr_state_push:
  assumes "arr_state h a ts" "length ts < ARR_LIMIT" "heap_ok h1" "heap_ext h h1"
    and "reads False (above (nxt h) h1) v t"
  shows "\<exists>h2. arr_push_at h1 a v = Some h2 \<and> arr_state h2 a (ts @ [t]) \<and> ext_but a h h2"
proof -
  obtain x where x: "heap_ok h" "a \<noteq> 0" "arrs h a = Some x" "arr_ok x"
    "list_all2 (reads False (above (Suc a) h)) (arr_vals x) ts"
    using assms(1) by (auto simp: arr_state_def)
  have len: "length (arr_vals x) = length ts" using x(5) by (rule list_all2_lengthD)
  have x1: "arrs h1 a = Some x" using assms(4) x(3) by (auto simp: heap_ext_def map_le_def dom_def)
  have a: "Suc a \<le> nxt h" using heap_ok_dom(2)[OF x(1,3)] by simp
  obtain x' where x': "ts_array_push x v = Some x'" "arr_ok x'" "arr_vals x' = arr_vals x @ [v]"
    using ts_array_push_ok[OF x(4), of v] assms(2) len by auto
  let ?h2 = "put_arr h1 a x'"
  have ab: "above (Suc a) ?h2 = above (Suc a) h1" by (rule above_put) simp
  have "list_all2 (reads False (above (Suc a) h1)) (arr_vals x) ts"
    using x(5) by (rule list_all2_mono) (rule reads_above_ext[OF _ assms(4)])
  moreover have "reads False (above (Suc a) h1) v t" using reads_above_mono[OF assms(5) a] .
  ultimately have "list_all2 (reads False (above (Suc a) ?h2)) (arr_vals x') (ts @ [t])"
    unfolding ab x'(3) by (simp add: list_all2_appendI)
  moreover have "heap_ok ?h2" using assms(3) x1 by (simp add: heap_simps)
  ultimately have "arr_state ?h2 a (ts @ [t])" using x' x(2) by (auto simp: arr_state_def heap_simps)
  moreover have "ext_but a h ?h2" using ext_but_trans[OF heap_ext_but[OF assms(4)] ext_but_put(1)] .
  ultimately show ?thesis using x1 x'(1) by (simp add: arr_push_at_def)
qed

lemma json_arr_loop:
  assumes "list_all plain ts" "list_all parse_spec ts"
  shows "arr_state h a pre \<Longrightarrow> length pre + length ts \<le> ARR_LIMIT \<Longrightarrow>
    s = (if lead then after_comma else (\<lambda>c ss. comma_join ss @ [c])) (CHR '']'') (map render ts) \<Longrightarrow>
    \<exists>h'. json_run (JArr a s) h = Some (VArray a, h') \<and> arr_state h' a (pre @ ts) \<and> ext_but a h h'"
  using assms
proof (induction ts arbitrary: h pre s lead)
  case Nil
  then have "s = '']''" by (auto simp: after_comma_def)
  then show ?case using Nil.prems
    by (subst json_run.simps) (simp add: ext_but_def)
next
  case (Cons t ts)
  have pt: "plain t" "parse_spec t" using Cons.prems by auto
  define r where "r = rest_of (CHR '']'') (map render ts)"
  have cl: "is_close (CHR '']'')" by (simp add: is_close_def)
  have s: "s = (if lead then '' '' else []) @ render t @ r"
    using Cons.prems(3) comma_join_rest[of "render t" "map render ts" "CHR '']''"]
    by (auto simp: after_comma_def r_def)
  note f = render_first[OF pt(1)]
  have sk: "skip_ws s = render t @ r"
    using skip_ws_render[OF pt(1), of r] s by (auto simp: skip_ws_def is_ws_def)
  have g: "s \<noteq> []" "hd s \<noteq> CHR '']''" "render t @ r \<noteq> []" "hd (render t @ r) \<noteq> CHR '']''"
    using f s by (auto simp: is_close_def hd_append)
  have hok: "heap_ok h" using Cons.prems(1) by (simp add: arr_state_def)
  obtain v h1 where v: "json_run (JValue (render t)) h = Some (v, h1)" "heap_ok h1" "heap_ext h h1"
    "reads False (above (nxt h) h1) v t" using parse_specD[OF pt(2) hok] by blast
  obtain h2 where h2: "arr_push_at h1 a v = Some h2" "arr_state h2 a (pre @ [t])" "ext_but a h h2"
    using arr_state_push[OF Cons.prems(1) _ v(2,3,4)] Cons.prems(2) by auto
  have st: "json_run (JArr a s) h = json_run (JArr a (after_comma (CHR '']'') (map render ts))) h2"
    using g v(1) h2(1) scan_render[OF pt(1) cl, of "map render ts"] rest_of_steps(1)[OF cl, of "map render ts"]
    by (subst json_run.simps) (simp add: sk r_def)
  obtain h' where h': "json_run (JArr a (after_comma (CHR '']'') (map render ts))) h2 = Some (VArray a, h')"
    "arr_state h' a ((pre @ [t]) @ ts)" "ext_but a h2 h'"
    using Cons.IH[OF h2(2), of "after_comma (CHR '']'') (map render ts)" True] Cons.prems by auto
  then show ?case using st ext_but_trans[OF h2(3) h'(3)] by auto
qed


text \<open>The members of a map as a multiset.\<close>

lemma mset_hm_pairs:
  assumes "hm_ok m"
  shows "mset (hm_pairs (m_entries m)) = mset_set {(k, v). hm_lookup m k = Some v}"
proof -
  have u: "uniq_keys (m_entries m)" using assms by (simp add: hm_ok_def)
  then have "distinct (hm_pairs (m_entries m))" using distinct_hm_pairs[OF u] by (simp add: distinct_map)
  moreover have "set (hm_pairs (m_entries m)) = {(k, v). hm_lookup m k = Some v}"
    using hm_lookup_Some[OF u] set_hm_pairs by fast
  ultimately show ?thesis by (metis mset_set_set)
qed

lemma mset_hm_pairs_update:
  assumes "hm_ok m" "hm_ok m'" "hm_lookup m' = (hm_lookup m)(k \<mapsto> v)" "hm_lookup m k = None"
  shows "mset (hm_pairs (m_entries m')) = add_mset (k, v) (mset (hm_pairs (m_entries m)))"
proof -
  let ?G = "{(k, v). hm_lookup m k = Some v}"
  have "{(k, v). hm_lookup m' k = Some v} = insert (k, v) ?G"
    using assms(3,4) by (auto split: if_splits)
  moreover have "finite ?G"
    by (rule finite_subset[of _ "set (hm_pairs (m_entries m))"])
      (auto simp: hm_lookup_def dest: map_of_SomeD)
  moreover have "(k, v) \<notin> ?G" using assms(4) by simp
  ultimately have "mset_set {(k, v). hm_lookup m' k = Some v} = add_mset (k, v) (mset_set ?G)"
    by (simp only: mset_set.insert not_False_eq_True)
  then show ?thesis using mset_hm_pairs[OF assms(1)] mset_hm_pairs[OF assms(2)] by simp
qed

lemma keys_of_reads:
  assumes "mset kvs = mset (hm_pairs (m_entries m))" "list_all2 (\<lambda>kv kt. fst kv = fst kt \<and> R (snd kv) (snd kt)) kvs kts"
  shows "dom (hm_lookup m) = fst ` set kts"
proof -
  have "map fst kvs = map fst kts" using assms(2) by (induction rule: list_all2_induct) auto
  then have "fst ` set kvs = fst ` set kts" by (metis list.set_map)
  moreover have "set kvs = set (hm_pairs (m_entries m))" using assms(1) by (metis set_mset_mset)
  ultimately show ?thesis by (simp add: hm_lookup_def dom_map_of_conv_image_fst)
qed

definition obj_state :: "heap \<Rightarrow> addr \<Rightarrow> (string \<times> json) list \<Rightarrow> bool" where
  "obj_state h q kts \<longleftrightarrow> heap_ok h \<and> q \<noteq> 0 \<and> (\<exists>m kvs. objs h q = Some (OMap m) \<and> hm_inv m \<and>
     mset kvs = mset (hm_pairs (m_entries m)) \<and>
     list_all2 (\<lambda>kv kt. fst kv = fst kt \<and> reads False (above (Suc q) h) (snd kv) (snd kt)) kvs kts)"

lemma obj_state_set:
  assumes st: "obj_state h q kts" and lim: "length kts < HM_LIMIT" and new: "k \<notin> fst ` set kts"
    and h1: "heap_ok h1" "heap_ext h h1" and v: "reads False (above (nxt h) h1) v t"
  shows "\<exists>m m'. get_map h1 q = Some m \<and> ts_hashmap_set m k v = Some m' \<and>
    obj_state (put_obj h1 q (OMap m')) q (kts @ [(k, t)]) \<and> ext_but q h (put_obj h1 q (OMap m'))"
proof -
  obtain m kvs where m: "heap_ok h" "q \<noteq> 0" "objs h q = Some (OMap m)" "hm_inv m"
    "mset kvs = mset (hm_pairs (m_entries m))"
    "list_all2 (\<lambda>kv kt. fst kv = fst kt \<and> reads False (above (Suc q) h) (snd kv) (snd kt)) kvs kts"
    using st by (auto simp: obj_state_def)
  have d: "dom (hm_lookup m) = fst ` set kts" using keys_of_reads[OF m(5,6)] .
  then have "card (dom (hm_lookup m)) \<le> length kts"
    by (metis card_length length_map list.set_map)
  then obtain m' where m': "ts_hashmap_set m k v = Some m'" "hm_inv m'" "hm_lookup m' = (hm_lookup m)(k \<mapsto> v)"
    using hm_set_ok[OF m(4), of k v] lim by auto
  have "hm_lookup m k = None" using new d by blast
  then have ms: "mset (kvs @ [(k, v)]) = mset (hm_pairs (m_entries m'))"
    using mset_hm_pairs_update[OF hm_inv_ok[OF m(4)] hm_inv_ok[OF m'(2)] m'(3)] m(5) by simp
  have m1: "objs h1 q = Some (OMap m)" using h1(2) m(3) by (auto simp: heap_ext_def map_le_def dom_def)
  have q: "Suc q \<le> nxt h" using heap_ok_dom(3)[OF m(1,3)] by simp
  let ?h2 = "put_obj h1 q (OMap m')"
  have ab: "above (Suc q) ?h2 = above (Suc q) h1" by (rule above_put) simp
  have "list_all2 (\<lambda>kv kt. fst kv = fst kt \<and> reads False (above (Suc q) h1) (snd kv) (snd kt)) kvs kts"
    using m(6) by (rule list_all2_mono) (auto intro: reads_above_ext[OF _ h1(2)])
  moreover have "reads False (above (Suc q) h1) v t" using reads_above_mono[OF v q] .
  ultimately have "list_all2 (\<lambda>kv kt. fst kv = fst kt \<and> reads False (above (Suc q) ?h2) (snd kv) (snd kt))
      (kvs @ [(k, v)]) (kts @ [(k, t)])"
    unfolding ab by (simp add: list_all2_appendI)
  moreover have "heap_ok ?h2" using h1(1) m1 by (simp add: heap_simps)
  ultimately have "obj_state ?h2 q (kts @ [(k, t)])"
    using m'(2) m(2) ms by (auto simp: obj_state_def heap_simps intro!: exI[of _ "kvs @ [(k, v)]"])
  moreover have "ext_but q h ?h2" using ext_but_trans[OF heap_ext_but[OF h1(2)] ext_but_put(2)] .
  ultimately show ?thesis using m1 m'(1) by (auto simp: get_map_objs)
qed

definition member_text :: "string \<times> json \<Rightarrow> string" where
  "member_text kt = quoted (fst kt) @ '': '' @ render (snd kt)"

lemma json_obj_loop:
  assumes "list_all (\<lambda>kt. plain_str 1023 (fst kt) \<and> plain (snd kt)) kts" "list_all (\<lambda>kt. parse_spec (snd kt)) kts"
    and "distinct (map fst kts)"
  shows "obj_state h q pre \<Longrightarrow> length pre + length kts \<le> HM_LIMIT \<Longrightarrow> fst ` set pre \<inter> fst ` set kts = {} \<Longrightarrow>
    s = (if lead then after_comma else (\<lambda>c ss. comma_join ss @ [c])) (CHR ''}'') (map member_text kts) \<Longrightarrow>
    \<exists>h'. json_run (JObj q s) h = Some (VObject q, h') \<and> obj_state h' q (pre @ kts) \<and> ext_but q h h'"
  using assms
proof (induction kts arbitrary: h pre s lead)
  case Nil
  then have "s = ''}''" by (auto simp: after_comma_def)
  then show ?case using Nil.prems
    by (subst json_run.simps) (simp add: ext_but_def)
next
  case (Cons kt kts)
  obtain k t where kt: "kt = (k, t)" by (cases kt)
  have pt: "plain t" "parse_spec t" and pk: "plain_str 1023 k" using Cons.prems kt by auto
  define r where "r = rest_of (CHR ''}'') (map member_text kts)"
  have cl: "is_close (CHR ''}'')" by (simp add: is_close_def)
  have mt: "member_text kt = quoted k @ '': '' @ render t" by (simp add: kt member_text_def)
  have s: "s = (if lead then '' '' else []) @ quoted k @ '': '' @ render t @ r"
    using Cons.prems(4) comma_join_rest[of "member_text kt" "map member_text kts" "CHR ''}''"]
      mt by (auto simp: after_comma_def r_def)
  have sk: "skip_ws s = DQUOTE # concat (map esc_char k) @ DQUOTE # '': '' @ render t @ r"
    using s by (auto simp: skip_ws_def is_ws_def quoted_def)
  have g: "s \<noteq> []" "hd s \<noteq> CHR ''}''" using s by (auto simp: quoted_def)
  have rs: "read_str 1023 (concat (map esc_char k) @ DQUOTE # '': '' @ render t @ r) [] =
      Some (k, DQUOTE # '': '' @ render t @ r)"
    using read_str_quoted[of "[]" k 1023] pk by (simp add: plain_str_def)
  have c: "skip_ws (skip_char (CHR '':'') (skip_ws ('': '' @ render t @ r))) = render t @ r"
    using skip_ws_render[OF pt(1), of r] by (simp add: skip_ws_def skip_char_def is_ws_def)
  have hok: "heap_ok h" using Cons.prems(1) by (simp add: obj_state_def)
  obtain v h1 where v: "json_run (JValue (render t)) h = Some (v, h1)" "heap_ok h1" "heap_ext h h1"
    "reads False (above (nxt h) h1) v t" using parse_specD[OF pt(2) hok] by blast
  obtain m m' where m: "get_map h1 q = Some m" "ts_hashmap_set m k v = Some m'"
    "obj_state (put_obj h1 q (OMap m')) q (pre @ [kt])" "ext_but q h (put_obj h1 q (OMap m'))"
    using obj_state_set[OF Cons.prems(1) _ _ v(2,3,4), of k] Cons.prems(2,3) kt by auto
  have ck: "cstr k = k" using pk by (simp add: plain_str_def cstr_id)
  have st: "json_run (JObj q s) h =
      json_run (JObj q (after_comma (CHR ''}'') (map member_text kts))) (put_obj h1 q (OMap m'))"
    using g v(1) m(1,2) rs c ck scan_render[OF pt(1) cl, of "map member_text kts"]
      rest_of_steps(1)[OF cl, of "map member_text kts"]
    by (subst json_run.simps) (simp add: sk r_def)
  obtain h' where h': "json_run (JObj q (after_comma (CHR ''}'') (map member_text kts))) (put_obj h1 q (OMap m')) =
      Some (VObject q, h')"
    "obj_state h' q ((pre @ [kt]) @ kts)" "ext_but q (put_obj h1 q (OMap m')) h'"
    using Cons.IH[OF m(3), of "after_comma (CHR ''}'') (map member_text kts)" True] Cons.prems by auto
  then show ?case using st ext_but_trans[OF m(4) h'(3)] by auto
qed

lemma reads_arr_above:
  "arr_state h a ts \<Longrightarrow> reads False (above a h) (VArray a) (JArrT ts)"
proof -
  assume "arr_state h a ts"
  then obtain x where x: "a \<noteq> 0" "arrs h a = Some x" "arr_ok x"
    "list_all2 (reads False (above (Suc a) h)) (arr_vals x) ts" by (auto simp: arr_state_def)
  have "list_all2 (reads False (above a h)) (arr_vals x) ts"
    using x(4) by (rule list_all2_mono) (erule reads_above_mono, simp)
  then show ?thesis using x by (intro reads.arr) auto
qed

lemma reads_obj_above:
  "obj_state h q kts \<Longrightarrow> reads False (above q h) (VObject q) (JObjT kts)"
proof -
  assume "obj_state h q kts"
  then obtain m kvs where m: "q \<noteq> 0" "objs h q = Some (OMap m)" "hm_inv m"
    "mset kvs = mset (hm_pairs (m_entries m))"
    "list_all2 (\<lambda>kv kt. fst kv = fst kt \<and> reads False (above (Suc q) h) (snd kv) (snd kt)) kvs kts"
    by (auto simp: obj_state_def)
  have "list_all2 (\<lambda>kv kt. fst kv = fst kt \<and> reads False (above q h) (snd kv) (snd kt)) kvs kts"
    using m(5) by (rule list_all2_mono) (auto intro: reads_above_mono)
  then show ?thesis using m by (intro reads.obj[where m = m and kvs = kvs]) auto
qed

lemma heap_ext_fresh:
  assumes "heap_ok h" "ext_but (nxt h) h1 h'" "h1 = snd (new_arr h x) \<or> h1 = snd (new_obj h y)"
  shows "heap_ext h h'"
proof -
  have e: "heap_ext h h1" using assms(1,3) heap_ext_new by blast
  have k: "nxt h1 \<le> nxt h'" "strs h1 p = Some u \<Longrightarrow> strs h' p = Some u"
    "p \<noteq> nxt h \<Longrightarrow> arrs h1 p = Some z \<Longrightarrow> arrs h' p = Some z"
    "p \<noteq> nxt h \<Longrightarrow> objs h1 p = Some w \<Longrightarrow> objs h' p = Some w" for p u z w
    using assms(2) by (auto simp: ext_but_def)
  have g: "strs h p = Some u \<Longrightarrow> strs h1 p = Some u" "arrs h p = Some z \<Longrightarrow> arrs h1 p = Some z \<and> p \<noteq> nxt h"
    "objs h p = Some w \<Longrightarrow> objs h1 p = Some w \<and> p \<noteq> nxt h" for p u z w
    using e heap_ok_fresh(2,3)[OF assms(1)] by (auto simp: heap_ext_def map_le_def dom_def)
  have "nxt h \<le> nxt h1" using e by (simp add: heap_ext_def)
  then show ?thesis using k(1) g k(2-) unfolding heap_ext_def map_le_def dom_def by fastforce
qed


text \<open>Every plain tree is parsed back from its text.\<close>

lemma json_value_first:
  "s \<noteq> [] \<Longrightarrow> hd s = CHR ''['' \<Longrightarrow> json_run (JValue s) h =
     (let (a, h1) = new_arr h ts_array_new in json_run (JArr a (tl s)) h1)"
  "s \<noteq> [] \<Longrightarrow> hd s = CHR ''{'' \<Longrightarrow> json_run (JValue s) h =
     (let (q, h1) = new_obj h (OMap ts_hashmap_new) in json_run (JObj q (tl s)) h1)"
  by (subst json_run.simps, cases s, simp, simp add: skip_ws_def is_ws_def is_digit_def)+

lemma parse_render: "plain t \<Longrightarrow> parse_spec t"
proof (induction t)
  case (JNum d)
  then obtain n where n: "\<bar>n\<bar> < 1000000" "d = dint n" "fmt_g d = int_str n" using plain_num by blast
  have st: "strtod (int_str n) = (dint n, [])" using n(1) by (intro strtod_int_str) simp
  note i = int_str_text(3,4)[of n]
  have sk: "skip_ws (int_str n) = int_str n" using skip_ws_render[OF JNum, of "[]"] n(3) by simp
  have "\<not> prefix x (int_str n)" if "x \<noteq> []" "hd x \<noteq> CHR ''-''" "\<not> is_digit (hd x)" for x
    using i that by (cases x; cases "int_str n") auto
  then have "\<not> prefix ''null'' (int_str n)" "\<not> prefix ''true'' (int_str n)" "\<not> prefix ''false'' (int_str n)"
    by (simp_all add: is_digit_def)
  then have "json_run (JValue (int_str n)) h = Some (VNumber d, h)" for h
    using i n(2) st by (subst json_run.simps) (simp add: sk)
  then show ?case using n(3) by (auto simp: parse_spec_def intro: reads.num)
next
  case (JStr s)
  then have p: "plain_str 4095 s" by simp
  have "json_run (JValue (quoted s)) h = Some (VString (nxt h), snd (new_str h s))" for h
  proof -
    have "read_str 4095 (concat (map esc_char s) @ [DQUOTE]) [] = Some (s, [DQUOTE])"
      using read_str_quoted[of "[]" s 4095 "[]"] p by (simp add: plain_str_def)
    moreover have "ts_string_new h s = Some (nxt h, snd (new_str h s))"
      using p by (simp add: ts_string_new_eq plain_str_def int32_max_def new_str_def)
    ultimately show ?thesis
      by (subst json_run.simps) (simp add: quoted_def skip_ws_def is_ws_def is_digit_def)
  qed
  then show ?case
    using heap_ok_new(1) heap_ext_new(1) heap_ok_fresh(4)
    by (auto simp: parse_spec_def str_at_def heap_simps intro!: reads.str)
next
  case (JArrT ts)
  then have pl: "list_all plain ts" "length ts \<le> ARR_LIMIT" by auto
  have ps: "list_all parse_spec ts" using JArrT by (simp add: list_all_iff)
  show ?case unfolding parse_spec_def
  proof (intro allI impI)
    fix h assume h: "heap_ok h"
    let ?h1 = "snd (new_arr h ts_array_new)"
    have "arr_state ?h1 (nxt h) []"
      using heap_ok_new(2)[OF h] heap_ok_fresh(4)[OF h] by (simp add: arr_state_def heap_simps)
    then obtain h' where h': "json_run (JArr (nxt h) (comma_join (map render ts) @ '']'')) ?h1 = Some (VArray (nxt h), h')"
      "arr_state h' (nxt h) ts" "ext_but (nxt h) ?h1 h'"
      using json_arr_loop[OF pl(1) ps, of ?h1 "nxt h" "[]" _ False] pl(2) by auto
    have "json_run (JValue (render (JArrT ts))) h = Some (VArray (nxt h), h')"
      using h'(1) json_value_first(1)[of "render (JArrT ts)" h] by (simp add: new_arr_def)
    then show "\<exists>v h'. json_run (JValue (render (JArrT ts))) h = Some (v, h') \<and> heap_ok h' \<and> heap_ext h h' \<and>
        reads False (above (nxt h) h') v (JArrT ts)"
      using reads_arr_above[OF h'(2)] h'(2) heap_ext_fresh[OF h h'(3)] by (auto simp: arr_state_def)
  qed
next
  case (JObjT kts)
  then have pl: "list_all (\<lambda>kt. plain_str 1023 (fst kt) \<and> plain (snd kt)) kts" "length kts \<le> HM_LIMIT"
    "distinct (map fst kts)" by auto
  have "snd kt \<in> Basic_BNFs.snds kt" for kt :: "string \<times> json" by (cases kt) simp
  then have ps: "list_all (\<lambda>kt. parse_spec (snd kt)) kts"
    using JObjT.IH pl(1) by (simp add: list_all_iff)
  have rt: "render (JObjT kts) = ''{'' @ comma_join (map member_text kts) @ ''}''"
    by (simp add: member_text_def cong: map_cong)
  show ?case unfolding parse_spec_def
  proof (intro allI impI)
    fix h assume h: "heap_ok h"
    let ?h1 = "snd (new_obj h (OMap ts_hashmap_new))"
    have "obj_state ?h1 (nxt h) []"
      using heap_ok_new(3)[OF h] heap_ok_fresh(4)[OF h] by (simp add: obj_state_def heap_simps ts_hashmap_new_def)
        (simp flip: ts_hashmap_new_def)
    then obtain h' where h': "json_run (JObj (nxt h) (comma_join (map member_text kts) @ ''}'')) ?h1 = Some (VObject (nxt h), h')"
      "obj_state h' (nxt h) kts" "ext_but (nxt h) ?h1 h'"
      using json_obj_loop[OF pl(1) ps pl(3), of ?h1 "nxt h" "[]" _ False] pl(2) by auto
    have "json_run (JValue (render (JObjT kts))) h = Some (VObject (nxt h), h')"
      using h'(1) json_value_first(2)[of "render (JObjT kts)" h] unfolding rt by (simp add: new_obj_def)
    then show "\<exists>v h'. json_run (JValue (render (JObjT kts))) h = Some (v, h') \<and> heap_ok h' \<and> heap_ext h h' \<and>
        reads False (above (nxt h) h') v (JObjT kts)"
      using reads_obj_above[OF h'(2)] h'(2) heap_ext_fresh[OF h h'(3)] by (auto simp: obj_state_def)
  qed
next
  case JNull
  have "json_run (JValue ''null'') h = Some (VNull, h)" for h
    by (subst json_run.simps) (simp add: skip_ws_def is_ws_def)
  then show ?case by (auto simp: parse_spec_def intro: reads.null)
next
  case (JBool b)
  have "json_run (JValue ''true'') h = Some (VBoolean 1, h)" "json_run (JValue ''false'') h = Some (VBoolean 0, h)" for h
    by (subst json_run.simps, simp add: skip_ws_def is_ws_def)+
  then show ?case
    using reads.bool[of False _ 1] reads.bool[of False _ 0] by (cases b) (auto simp: parse_spec_def)
qed


subsection \<open>Properties\<close>

lemma NUL_comma_join: "(\<And>t. t \<in> set ts \<Longrightarrow> NUL \<notin> set t) \<Longrightarrow> NUL \<notin> set (comma_join ts)"
  by (induction ts rule: comma_join.induct) auto

lemma NUL_render: "plain t \<Longrightarrow> NUL \<notin> set (render t)"
proof (induction t)
  case (JNum d)
  then obtain n where "fmt_g d = int_str n" using plain_num by blast
  then show ?case using int_str_text(1) by simp
next
  case (JStr s)
  then show ?case using NUL_esc by (simp add: plain_str_def)
next
  case (JArrT ts)
  then have "NUL \<notin> set (comma_join (map render ts))"
    by (intro NUL_comma_join) (auto simp: list_all_iff)
  then show ?case by simp
next
  case (JObjT kts)
  have "NUL \<notin> set (comma_join (map (\<lambda>kt. quoted (fst kt) @ '': '' @ render (snd kt)) kts))"
  proof (intro NUL_comma_join)
    fix x assume "x \<in> set (map (\<lambda>kt. quoted (fst kt) @ '': '' @ render (snd kt)) kts)"
    then obtain kt where kt: "kt \<in> set kts" "x = quoted (fst kt) @ '': '' @ render (snd kt)" by auto
    have "snd kt \<in> Basic_BNFs.snds kt" by (cases kt) simp
    then show "NUL \<notin> set x"
      using JObjT.IH[OF kt(1)] JObjT.prems kt NUL_esc[of "fst kt"] by (auto simp: list_all_iff plain_str_def)
  qed
  then show ?case by simp
qed auto

text \<open>C3. JSON round trip: for a value that stands for a plain tree (exact numbers, strings free
  of brackets, braces and commas), \<^verbatim>\<open>JSON.stringify\<close> returns the text of the tree, and
  \<^verbatim>\<open>JSON.parse\<close> of that text, in any store, returns a new value that stands for the same tree
  (up to the order of an object's members) and leaves everything in the store as it was.\<close>

theorem json_roundtrip:
  assumes "reads True h v t" "plain t" "length (render t) \<le> 2000000000"
  shows "\<exists>s. ts_json_stringify h v = Some s \<and>
    (\<forall>h1 p. heap_ok h1 \<longrightarrow> str_at h1 p s \<longrightarrow>
      (\<exists>w h2. ts_json_parse h1 p = Some (w, h2) \<and> heap_ok h2 \<and> heap_ext h1 h2 \<and> reads False h2 w t))"
proof (intro exI[of _ "render t"] conjI allI impI)
  show "ts_json_stringify h v = Some (render t)" using ts_json_stringify_render[OF assms] .
  fix h1 p assume h: "heap_ok h1" "str_at h1 p (render t)"
  obtain w h2 where w: "json_run (JValue (render t)) h1 = Some (w, h2)" "heap_ok h2" "heap_ext h1 h2"
    "reads False (above (nxt h1) h2) w t"
    using parse_specD[OF parse_render[OF assms(2)] h(1)] by blast
  then show "\<exists>w h2. ts_json_parse h1 p = Some (w, h2) \<and> heap_ok h2 \<and> heap_ext h1 h2 \<and> reads False h2 w t"
    using h(2) NUL_render[OF assms(2)] reads_above_all str_at_nonnull[OF h(2)]
    by (auto simp: ts_json_parse_def cstr_id)
qed

text \<open>The parser looks for the end of a member without regard to string literals: the text
  of an array with the one string \<^verbatim>\<open>a,b\<close> is read as an array of two members, the string
  \<^verbatim>\<open>a\<close> and \<^verbatim>\<open>null\<close>. So what \<^verbatim>\<open>JSON.stringify\<close> prints is not always read back.\<close>

theorem json_parse_splits_strings:
  assumes "heap_ok h"
  shows "\<exists>v h'. json_run (JValue (render (JArrT [JStr ''a,b'']))) h = Some (v, h') \<and>
    reads False h' v (JArrT [JStr ''a'', JNull])"
proof -
  let ?a = "nxt h" and ?h1 = "snd (new_arr h ts_array_new)"
  have s0: "arr_state ?h1 ?a []"
    using heap_ok_new(2)[OF assms] heap_ok_fresh(4)[OF assms] by (simp add: arr_state_def heap_simps)
  let ?p = "nxt ?h1" and ?h2 = "snd (new_str ?h1 ''a'')"
  have ok1: "heap_ok ?h1" using s0 by (simp add: arr_state_def)
  have v1: "json_run (JValue [DQUOTE, CHR ''a'']) ?h1 = Some (VString ?p, ?h2)"
    by (subst json_run.simps)
      (simp add: skip_ws_def is_ws_def is_digit_def ts_string_new_eq int32_max_def new_str_def)
  have ra: "reads False (above (nxt ?h1) ?h2) (VString ?p) (JStr ''a'')"
    using heap_ok_fresh(4)[OF ok1] by (intro reads.str) (simp add: str_at_def heap_simps)
  obtain h3 where h3: "arr_push_at ?h2 ?a (VString ?p) = Some h3" "arr_state h3 ?a [JStr ''a'']"
    using arr_state_push[OF s0 _ heap_ok_new(1)[OF ok1] heap_ext_new(1)[OF ok1] ra] by (auto simp: ARR_LIMIT_def)
  have v2: "json_run (JValue [CHR ''b'', DQUOTE]) h3 = Some (VNull, h3)"
    by (subst json_run.simps) (simp add: skip_ws_def is_ws_def is_digit_def)
  have ok3: "heap_ok h3" using h3(2) by (simp add: arr_state_def)
  obtain h4 where h4: "arr_push_at h3 ?a VNull = Some h4" "arr_state h4 ?a [JStr ''a'', JNull]"
    using arr_state_push[OF h3(2) _ ok3 heap_ext_refl reads.null] by (auto simp: ARR_LIMIT_def)
  have r0: "render (JArrT [JStr ''a,b'']) = [CHR ''['', DQUOTE, CHR ''a'', CHR '','', CHR ''b'', DQUOTE, CHR '']'']"
    by (simp add: quoted_def)
  have r4: "json_run (JArr ?a '']'') h4 = Some (VArray ?a, h4)" by (subst json_run.simps) simp
  have r3: "json_run (JArr ?a [CHR ''b'', DQUOTE, CHR '']'']) h3 = Some (VArray ?a, h4)"
    using v2 h4(1) r4
    by (subst json_run.simps) (simp add: skip_ws_def is_ws_def is_open_def is_close_def skip_char_def)
  have "json_run (JArr ?a [DQUOTE, CHR ''a'', CHR '','', CHR ''b'', DQUOTE, CHR '']'']) ?h1 = Some (VArray ?a, h4)"
    using v1 h3(1) r3
    by (subst json_run.simps) (simp add: skip_ws_def is_ws_def is_open_def is_close_def skip_char_def)
  then have "json_run (JValue (render (JArrT [JStr ''a,b'']))) h = Some (VArray ?a, h4)"
    unfolding r0 by (subst json_value_first(1)) (simp_all add: new_arr_def)
  then show ?thesis using reads_arr_above[OF h4(2)] reads_above_all by blast
qed

lemma json_run_stuck:
  assumes "json_run t h = Some y" shows "\<forall>a s. t \<noteq> JArr a (CHR ''}'' # s)"
proof (rule json_run.raw_induct[OF _ assms, where P = "\<lambda>t h y. \<forall>a s. t \<noteq> JArr a (CHR ''}'' # s)"], goal_cases)
  case (1 run t h y)
  show ?case
  proof (intro allI notI)
    fix a s assume t: "t = JArr a (CHR ''}'' # s)"
    have sk: "skip_ws (CHR ''}'' # s) = CHR ''}'' # s" by (simp add: skip_ws_def is_ws_def)
    have sc: "scan_val 0 (CHR ''}'' # s) = ([], CHR ''}'' # s)" by (simp add: is_close_def)
    from 1(2) obtain h2 where "run (JArr a (CHR ''}'' # s)) h2 = Some y"
      unfolding t by (auto simp: sk sc skip_char_def bind_eq_Some_conv simp del: scan_val.simps split: prod.splits)
    then show False using 1(1) by blast
  qed
qed

text \<open>\<^verbatim>\<open>JSON.parse\<close> does not return on a text that begins with \<^verbatim>\<open>[}\<close>: the loop over the
  elements stops at the brace without consuming it, pushes a null and starts again.\<close>

theorem json_parse_diverges:
  shows "json_run (JValue (''[}'' @ s)) h = None"
proof -
  have "json_run (JArr a (CHR ''}'' # s)) h1 = None" for a h1
    using json_run_stuck[of "JArr a (CHR ''}'' # s)" h1] by (cases "json_run (JArr a (CHR ''}'' # s)) h1") auto
  then show ?thesis using json_value_first(1)[of "''[}'' @ s" h] by (simp add: new_arr_def)
qed

text \<open>\<^verbatim>\<open>JSON.stringify\<close> with an indentation writes one byte past its 256-byte indentation
  buffer whenever the width of the next level reaches 256: at the top level for an indentation
  of 256 or more, whatever the value.\<close>

theorem json_indent_overflow:
  assumes "0 < indent" "256 \<le> indent * (depth + 1)"
  shows "json_stringify_indent h v indent depth = None \<and>
    (0 \<le> depth \<and> fits32 ((depth + 1) * indent) \<longrightarrow> (build_indent depth indent = None \<longleftrightarrow> 256 \<le> depth * indent))"
proof (intro conjI impI; (elim conjE)?)
  have "build_indent (depth + 1) indent = None"
    using assms by (cases "ck32 ((depth + 1) * indent)") (auto simp: build_indent_def Let_def mult.commute)
  then show "json_stringify_indent h v indent depth = None"
    using assms(1) by (subst json_stringify_indent.simps) (simp add: bind_eq_None_conv)
  assume d: "0 \<le> depth" "fits32 ((depth + 1) * indent)"
  then have "fits32 (depth * indent)"
    using assms(1) by (intro fits32_mono[OF d(2)]) (auto simp: distrib_right)
  then show "build_indent depth indent = None \<longleftrightarrow> 256 \<le> depth * indent"
    using assms(1) by (auto simp: build_indent_def Let_def)
qed


subsection \<open>Concrete instances\<close>

lemma json_roundtrip_witness:
  defines "a \<equiv> ts_array_new\<lparr>a_length := 2, a_items := (a_items ts_array_new)[0 := Some (VNumber (dint 7)), 1 := Some (VString 1)]\<rparr>"
    and "t \<equiv> JArrT [JNum (dint 7), JStr ''x'']"
  defines "h \<equiv> snd (new_arr (snd (new_str empty_heap ''x'')) a)"
  shows "\<exists>s. ts_json_stringify h (VArray 2) = Some s \<and>
    (\<exists>w h2. ts_json_parse (snd (new_str h s)) (nxt h) = Some (w, h2) \<and> reads False h2 w t)"
proof -
  have "arr_ok a" "arr_vals a = [VNumber (dint 7), VString 1]"
    by (simp_all add: a_def arr_ok_def arr_vals_def ts_array_new_def INITIAL_CAPACITY_def int32_max_def numeral_eq_Suc)
  moreover have "arrs h 2 = Some a" "str_at h 1 ''x''" "heap_ok h"
    using heap_ok_new(2)[OF heap_ok_new(1)[OF heap_ok_empty]]
    by (simp_all add: h_def heap_simps str_at_def) (simp_all add: empty_heap_def)
  ultimately have r: "reads True h (VArray 2) t"
    unfolding t_def by (intro reads.arr) (auto intro: reads.intros)
  have p: "plain t" by (auto simp: t_def plain_str_def structural_def ARR_LIMIT_def intro!: exI[of _ 7])
  have "fmt_g (dint 7) = int_str 7" by (rule fmt_g_of_int) simp
  then have l: "length (render t) \<le> 2000000000"
    using length_int_str[of 7] length_quoted(2)[of "''x''"] by (simp add: t_def)
  obtain s where s: "ts_json_stringify h (VArray 2) = Some s"
    "\<forall>h1 p. heap_ok h1 \<longrightarrow> str_at h1 p s \<longrightarrow>
      (\<exists>w h2. ts_json_parse h1 p = Some (w, h2) \<and> heap_ok h2 \<and> heap_ext h1 h2 \<and> reads False h2 w t)"
    using json_roundtrip[OF r p l] by blast
  have "heap_ok (snd (new_str h s))" "str_at (snd (new_str h s)) (nxt h) s"
    using \<open>heap_ok h\<close> by (simp_all add: heap_simps)
  then show ?thesis using s by blast
qed

lemma json_parse_splits_strings_witness:
  "\<exists>v h'. json_run (JValue (render (JArrT [JStr ''a,b'']))) empty_heap = Some (v, h') \<and>
    reads False h' v (JArrT [JStr ''a'', JNull])"
  using json_parse_splits_strings[OF heap_ok_empty] .

lemma json_indent_overflow_witness:
  "ts_json_stringify_indent empty_heap VNull 256 = None \<and> build_indent 127 2 \<noteq> None \<and> build_indent 128 2 = None"
  using json_indent_overflow[of 256 0] json_indent_overflow[of 2 127] json_indent_overflow[of 2 128]
  by (simp add: ts_json_stringify_indent_def fits32_def int32_max_def int32_min_def)

end
