(* ===== verification/Ts_Promise.thy ===== *)
theory Ts_Promise
  imports Ts_Coerce
begin

text \<open>
  \<^verbatim>\<open>runtime/src/promise.c\<close> and the calling of function values in \<^verbatim>\<open>runtime/src/runtime.c\<close>. The
  functions of the compiled program are a parameter \<open>call\<close>: a code address, the arguments and
  the store give a value and a new store. A promise settles synchronously: its handlers run
  inside \<^verbatim>\<open>resolve\<close>, and so on down the chain of promises returned by \<^verbatim>\<open>then\<close>.
\<close>

type_synonym code = "addr \<Rightarrow> tsvalue list \<Rightarrow> heap \<Rightarrow> (tsvalue \<times> heap) option"

subsection \<open>Promises in the store\<close>

fun sel_promise :: "object \<Rightarrow> promise option" where
  "sel_promise (OPromise p) = Some p"
| "sel_promise _ = None"

definition as_promise :: "heap \<Rightarrow> tsvalue \<Rightarrow> promise option option" where
  "as_promise = tagged sel_promise"

definition get_promise :: "heap \<Rightarrow> addr \<Rightarrow> promise option" where
  "get_promise h p = (case objs h p of Some (OPromise x) \<Rightarrow> Some x | _ \<Rightarrow> None)"

definition ts_value_is_promise :: "heap \<Rightarrow> tsvalue \<Rightarrow> bool option" where
  "ts_value_is_promise h v = do { r \<leftarrow> as_promise h v; Some (r \<noteq> None) }"

definition fresh_promise :: promise where
  "fresh_promise = \<lparr>p_state = PROMISE_PENDING, p_result = ts_value_undefined,
     p_onFulfilled = ts_value_undefined, p_onRejected = ts_value_undefined,
     p_onFinally = ts_value_undefined, p_then = 0\<rparr>"

definition ts_promise_new :: "heap \<Rightarrow> tsvalue \<times> heap" where
  "ts_promise_new h = new_value h (OPromise fresh_promise)"

text \<open>A handler is called only when it is a plain function; anything else counts as absent.\<close>

fun fun_of :: "tsvalue \<Rightarrow> addr option" where
  "fun_of (VFunction f) = (if f \<noteq> 0 then Some f else None)"
| "fun_of _ = None"

subsection \<open>Settling\<close>

text \<open>
  \<^verbatim>\<open>run_handlers\<close>, with \<^verbatim>\<open>ts_promise_resolve\<close> and \<^verbatim>\<open>ts_promise_reject\<close> of the next promise
  unfolded into it. The promise is read again after each call into the program.
\<close>

definition settle_with ::
  "(heap \<Rightarrow> addr \<Rightarrow> heap option) \<Rightarrow> heap \<Rightarrow> addr \<Rightarrow> promise_state \<Rightarrow> tsvalue \<Rightarrow> heap option" where
  "settle_with run h p st v = do {
     x \<leftarrow> get_promise h p;
     if p_state x \<noteq> PROMISE_PENDING then Some h
     else run (put_obj h p (OPromise (x\<lparr>p_state := st, p_result := v\<rparr>))) p }"

definition dispatch ::
  "code \<Rightarrow> (heap \<Rightarrow> addr \<Rightarrow> heap option) \<Rightarrow> heap \<Rightarrow> addr \<Rightarrow> heap option" where
  "dispatch call run h p = do {
     x \<leftarrow> get_promise h p;
     case fun_of (if p_state x = PROMISE_FULFILLED then p_onFulfilled x else p_onRejected x) of
       Some f \<Rightarrow> do {
         (out, h1) \<leftarrow> call f [p_result x] h;
         x1 \<leftarrow> get_promise h1 p;
         if p_then x1 \<noteq> 0 then settle_with run h1 (p_then x1) PROMISE_FULFILLED out else Some h1 }
     | None \<Rightarrow>
         if p_then x \<noteq> 0
         then settle_with run h (p_then x)
                (if p_state x = PROMISE_FULFILLED then PROMISE_FULFILLED else PROMISE_REJECTED) (p_result x)
         else Some h }"

lemma dispatch_mono [partial_function_mono]:
  "mono_option (\<lambda>f. dispatch call (\<lambda>h p. f ((c, h), p)) h p)"
  unfolding dispatch_def settle_with_def by (intro mono_opt call_mono)

partial_function (option) run_handlers_with :: "code \<Rightarrow> heap \<Rightarrow> addr \<Rightarrow> heap option" where
  "run_handlers_with call h p = do {
     x \<leftarrow> get_promise h p;
     if p_state x = PROMISE_PENDING then Some h
     else do {
       h1 \<leftarrow> dispatch call (\<lambda>h p. run_handlers_with call h p) h p;
       x1 \<leftarrow> get_promise h1 p;
       case fun_of (p_onFinally x1) of
         Some g \<Rightarrow> do { (_, h2) \<leftarrow> call g [] h1; Some h2 }
       | None \<Rightarrow> Some h1 } }"

definition run_handlers :: "code \<Rightarrow> heap \<Rightarrow> addr \<Rightarrow> heap option" where
  "run_handlers call h p = (if p = 0 then Some h else run_handlers_with call h p)"

definition settle :: "code \<Rightarrow> promise_state \<Rightarrow> heap \<Rightarrow> tsvalue \<Rightarrow> tsvalue \<Rightarrow> (tsvalue \<times> heap) option" where
  "settle call st h pv v = do {
     r \<leftarrow> as_promise h pv;
     case (r, pv) of
       (Some x, VObject p) \<Rightarrow> do {
         h1 \<leftarrow> settle_with (run_handlers call) h p st v; Some (pv, h1) }
     | _ \<Rightarrow> Some (pv, h) }"

definition ts_promise_resolve :: "code \<Rightarrow> heap \<Rightarrow> tsvalue \<Rightarrow> tsvalue \<Rightarrow> (tsvalue \<times> heap) option" where
  "ts_promise_resolve call h pv v = settle call PROMISE_FULFILLED h pv v"

definition ts_promise_reject :: "code \<Rightarrow> heap \<Rightarrow> tsvalue \<Rightarrow> tsvalue \<Rightarrow> (tsvalue \<times> heap) option" where
  "ts_promise_reject call h pv err = settle call PROMISE_REJECTED h pv err"

definition ts_promise_then ::
  "code \<Rightarrow> heap \<Rightarrow> tsvalue \<Rightarrow> tsvalue \<Rightarrow> tsvalue \<Rightarrow> (tsvalue \<times> heap) option" where
  "ts_promise_then call h pv onFulfilled onRejected = do {
     r \<leftarrow> as_promise h pv;
     let q = nxt h;
     let h1 = snd (ts_promise_new h);
     case (r, pv) of
       (Some x, VObject p) \<Rightarrow> do {
         let x' = x\<lparr>p_onFulfilled := onFulfilled, p_onRejected := onRejected, p_then := q\<rparr>;
         let h2 = put_obj h1 p (OPromise x');
         h3 \<leftarrow> (if p_state x' \<noteq> PROMISE_PENDING then run_handlers call h2 p else Some h2);
         Some (VObject q, h3) }
     | _ \<Rightarrow> do { (_, h2) \<leftarrow> ts_promise_resolve call h1 (VObject q) pv; Some (VObject q, h2) } }"

definition ts_promise_catch :: "code \<Rightarrow> heap \<Rightarrow> tsvalue \<Rightarrow> tsvalue \<Rightarrow> (tsvalue \<times> heap) option" where
  "ts_promise_catch call h pv onRejected = ts_promise_then call h pv ts_value_undefined onRejected"

definition ts_promise_finally :: "code \<Rightarrow> heap \<Rightarrow> tsvalue \<Rightarrow> tsvalue \<Rightarrow> (tsvalue \<times> heap) option" where
  "ts_promise_finally call h pv onFinally = do {
     r \<leftarrow> as_promise h pv;
     case (r, pv) of
       (Some x, VObject p) \<Rightarrow> do {
         let h1 = put_obj h p (OPromise (x\<lparr>p_onFinally := onFinally\<rparr>));
         h2 \<leftarrow> (if p_state x \<noteq> PROMISE_PENDING then run_handlers call h1 p else Some h1);
         Some (pv, h2) }
     | _ \<Rightarrow> Some (pv, h) }"

subsection \<open>Calling a function value\<close>

definition ts_bind_function :: "heap \<Rightarrow> addr \<Rightarrow> tsvalue list \<Rightarrow> int \<Rightarrow> tsvalue \<times> heap" where
  "ts_bind_function h fn caps ncaps0 =
    (let ncaps = (if ncaps0 > 4 then 4 else if ncaps0 < 0 then 0 else ncaps0) in
     new_value h (OBound \<lparr>b_fn = fn,
       b_caps = map (\<lambda>i. if int i < ncaps \<and> i < length caps then caps ! i else ts_value_undefined) [0..<4],
       b_ncaps = ncaps\<rparr>))"

definition pad4 :: "tsvalue list \<Rightarrow> tsvalue list" where
  "pad4 vs = take 4 (vs @ replicate 4 ts_value_undefined)"

definition ts_value_call :: "code \<Rightarrow> heap \<Rightarrow> tsvalue \<Rightarrow> tsvalue list \<Rightarrow> (tsvalue \<times> heap) option" where
  "ts_value_call call h callee args = (case callee of
     VObject p \<Rightarrow>
       (if p = 0 then Some (ts_value_undefined, h)
        else do {
          x \<leftarrow> objs h p;
          case x of
            OBound b \<Rightarrow>
              (if b_fn b = 0 then Some (ts_value_undefined, h)
               else call (b_fn b) (pad4 (take (nat (b_ncaps b)) (b_caps b) @ args)) h)
          | OStream s \<Rightarrow> Some (callee, h)
          | OResolver r \<Rightarrow> do {
              let v = (case args of a # _ \<Rightarrow> a | [] \<Rightarrow> ts_value_undefined);
              (_, h1) \<leftarrow> (if r_promise r \<noteq> 0
                then (if r_is_reject r then ts_promise_reject call h (VObject (r_promise r)) v
                      else ts_promise_resolve call h (VObject (r_promise r)) v)
                else Some (ts_value_undefined, h));
              Some (ts_value_undefined, h1) }
          | _ \<Rightarrow> Some (ts_value_undefined, h) })
   | VFunction f \<Rightarrow> (if f = 0 then Some (ts_value_undefined, h) else call f (pad4 args) h)
   | _ \<Rightarrow> Some (ts_value_undefined, h))"

definition ts_value_call0 :: "code \<Rightarrow> heap \<Rightarrow> tsvalue \<Rightarrow> (tsvalue \<times> heap) option" where
  "ts_value_call0 call h v = ts_value_call call h v []"

definition make_resolver :: "heap \<Rightarrow> addr \<Rightarrow> bool \<Rightarrow> tsvalue \<times> heap" where
  "make_resolver h p is_reject = new_value h (OResolver \<lparr>r_promise = p, r_is_reject = is_reject\<rparr>)"

definition Promise_constructor :: "code \<Rightarrow> heap \<Rightarrow> tsvalue \<Rightarrow> (tsvalue \<times> heap) option" where
  "Promise_constructor call h executor = do {
     let p = nxt h;
     let h1 = snd (ts_promise_new h);
     let (resolve, h2) = make_resolver h1 p False;
     let (reject, h3) = make_resolver h2 p True;
     callable \<leftarrow> (case executor of
         VFunction f \<Rightarrow> Some True
       | VObject q \<Rightarrow> if q = 0 then Some False
                     else do { x \<leftarrow> objs h3 q; Some (case x of OBound b \<Rightarrow> True | _ \<Rightarrow> False) }
       | _ \<Rightarrow> Some False);
     if callable then do { (_, h4) \<leftarrow> ts_value_call call h3 executor [resolve, reject]; Some (VObject p, h4) }
     else Some (VObject p, h3) }"

subsection \<open>Await\<close>

text \<open>
  The event loop is a parameter over the whole state of the program: its polls and queries,
  and how the promise is read off the state. A rejection is thrown.
\<close>

datatype outcome = Returned "tsvalue" | Thrown "tsvalue"

record 's event_loop =
  el_promise :: "'s \<Rightarrow> addr \<Rightarrow> promise option"
  el_timers_pending :: "'s \<Rightarrow> bool"
  el_timers_poll :: "'s \<Rightarrow> int \<times> 's"
  el_completion_poll :: "'s \<Rightarrow> int \<times> 's"
  el_jobs_pending :: "'s \<Rightarrow> bool"
  el_completion_wait :: "'s \<Rightarrow> 's"

partial_function (option) await_loop :: "'s event_loop \<Rightarrow> addr \<Rightarrow> 's \<Rightarrow> 's option" where
  "await_loop el p s = do {
     x \<leftarrow> el_promise el s p;
     if p_state x \<noteq> PROMISE_PENDING then Some s
     else (let (t, s1) = (if el_timers_pending el s then el_timers_poll el s else (0, s)) in do {
       x1 \<leftarrow> el_promise el s1 p;
       if p_state x1 \<noteq> PROMISE_PENDING then Some s1
       else (let (n, s2) = el_completion_poll el s1 in do {
         x2 \<leftarrow> el_promise el s2 p;
         if p_state x2 \<noteq> PROMISE_PENDING then Some s2
         else if n = 0 \<and> t = 0 then
           (if el_jobs_pending el s2 then await_loop el p (el_completion_wait el s2)
            else if el_timers_pending el s2 then await_loop el p (snd (el_timers_poll el s2))
            else Some s2)
         else await_loop el p s2 }) }) }"

definition ts_await :: "'s event_loop \<Rightarrow> addr \<Rightarrow> 's \<Rightarrow> (outcome \<times> 's) option" where
  "ts_await el p s = do {
     s1 \<leftarrow> await_loop el p s;
     x \<leftarrow> el_promise el s1 p;
     Some (case p_state x of
         PROMISE_REJECTED \<Rightarrow> Thrown (p_result x)
       | PROMISE_FULFILLED \<Rightarrow> Returned (p_result x)
       | PROMISE_PENDING \<Rightarrow> Returned ts_value_undefined, s1) }"


subsection \<open>Settled promises stay settled\<close>

text \<open>The promises settled in \<open>h\<close> are settled the same way in \<open>h'\<close>.\<close>

definition keeps_settled :: "heap \<Rightarrow> heap \<Rightarrow> bool" where
  "keeps_settled h h' \<longleftrightarrow> (\<forall>p x. objs h p = Some (OPromise x) \<longrightarrow> p_state x \<noteq> PROMISE_PENDING \<longrightarrow>
     (\<exists>x'. objs h' p = Some (OPromise x') \<and> p_state x' = p_state x \<and> p_result x' = p_result x))"

definition code_keeps :: "code \<Rightarrow> bool" where
  "code_keeps call \<longleftrightarrow> (\<forall>f args h out h'. heap_ok h \<longrightarrow> call f args h = Some (out, h') \<longrightarrow>
     heap_ok h' \<and> keeps_settled h h')"

lemma keeps_refl [simp]: "keeps_settled h h"
  by (simp add: keeps_settled_def)

lemma keeps_trans: "keeps_settled a b \<Longrightarrow> keeps_settled b c \<Longrightarrow> keeps_settled a c"
  unfolding keeps_settled_def by metis

lemma keeps_put:
  assumes "objs h p = Some (OPromise x)" "p_state x \<noteq> PROMISE_PENDING \<Longrightarrow> p_state y = p_state x \<and> p_result y = p_result x"
  shows "keeps_settled h (put_obj h p (OPromise y))"
  using assms by (auto simp: keeps_settled_def heap_simps)

lemma keeps_new: "heap_ok h \<Longrightarrow> keeps_settled h (snd (new_value h x))"
  using heap_ok_fresh(3)[of h] by (auto simp: keeps_settled_def new_value_def new_obj_def)

lemma heap_ok_new_value: "heap_ok h \<Longrightarrow> heap_ok (snd (new_value h x))"
  using heap_ok_new(3)[of h x] by (simp add: new_value_def case_prod_beta)

lemma get_promise_Some: "get_promise h p = Some x \<longleftrightarrow> objs h p = Some (OPromise x)"
  by (auto simp: get_promise_def split: option.splits object.splits)

definition run_ok :: "(heap \<Rightarrow> addr \<Rightarrow> heap option) \<Rightarrow> bool" where
  "run_ok run \<longleftrightarrow> (\<forall>h p h'. heap_ok h \<longrightarrow> run h p = Some h' \<longrightarrow> heap_ok h' \<and> keeps_settled h h')"

lemma settle_with_keeps:
  assumes "run_ok run" "heap_ok h" "settle_with run h p st v = Some h'"
  shows "heap_ok h' \<and> keeps_settled h h'"
proof -
  obtain x where x: "objs h p = Some (OPromise x)"
    using assms(3) by (auto simp: settle_with_def bind_eq_Some_conv get_promise_Some)
  show ?thesis
  proof (cases "p_state x = PROMISE_PENDING")
    case True
    let ?h = "put_obj h p (OPromise (x\<lparr>p_state := st, p_result := v\<rparr>))"
    have "run ?h p = Some h'" using assms(3) x True by (simp add: settle_with_def get_promise_def)
    moreover have "heap_ok ?h" using assms(2) x by (simp add: heap_simps)
    moreover have "keeps_settled h ?h" using x True by (intro keeps_put) auto
    ultimately show ?thesis using assms(1) keeps_trans by (auto simp: run_ok_def)
  next
    case False
    then show ?thesis using assms(2,3) x by (simp add: settle_with_def get_promise_def)
  qed
qed

lemma dispatch_keeps:
  assumes "code_keeps call" "run_ok run" "heap_ok h" "dispatch call run h p = Some h'"
  shows "heap_ok h' \<and> keeps_settled h h'"
proof -
  obtain x where x: "get_promise h p = Some x"
    using assms(4) by (auto simp: dispatch_def bind_eq_Some_conv)
  show ?thesis
  proof (cases "fun_of (if p_state x = PROMISE_FULFILLED then p_onFulfilled x else p_onRejected x)")
    case None
    then show ?thesis
      using assms x settle_with_keeps[OF assms(2,3)] by (auto simp: dispatch_def split: if_splits)
  next
    case (Some f)
    then obtain out h1 x1 where c: "call f [p_result x] h = Some (out, h1)" "get_promise h1 p = Some x1"
      "(if p_then x1 \<noteq> 0 then settle_with run h1 (p_then x1) PROMISE_FULFILLED out else Some h1) = Some h'"
      using assms(4) x by (auto simp: dispatch_def bind_eq_Some_conv split: option.splits)
    have k: "heap_ok h1" "keeps_settled h h1" using assms(1,3) c(1) by (auto simp: code_keeps_def)
    show ?thesis
      using c(3) k settle_with_keeps[OF assms(2) k(1)] keeps_trans[OF k(2)] by (auto split: if_splits)
  qed
qed

lemma run_handlers_with_keeps:
  assumes "code_keeps call" "run_handlers_with call h p = Some h'"
  shows "heap_ok h \<longrightarrow> heap_ok h' \<and> keeps_settled h h'"
proof -
  let ?P = "\<lambda>call h (p :: addr) h'. code_keeps call \<longrightarrow> heap_ok h \<longrightarrow> heap_ok h' \<and> keeps_settled h h'"
  have "?P call h p h'"
  proof (rule run_handlers_with.raw_induct[OF _ assms(2), where P = ?P], intro impI, goal_cases)
  case (1 run call h p h')
  have r: "run_ok (run call)" using 1 by (auto simp: run_ok_def)
  obtain x where x: "get_promise h p = Some x" using 1(2) by (auto simp: bind_eq_Some_conv)
  show ?case
  proof (cases "p_state x = PROMISE_PENDING")
    case True
    then show ?thesis using 1 x by simp
  next
    case False
    then obtain h1 x1 where d: "dispatch call (run call) h p = Some h1" "get_promise h1 p = Some x1"
      "(case fun_of (p_onFinally x1) of
         Some g \<Rightarrow> do { (_, h2) \<leftarrow> call g [] h1; Some h2 } | None \<Rightarrow> Some h1) = Some h'"
      using 1(2) x by (auto simp: bind_eq_Some_conv)
    have k: "heap_ok h1" "keeps_settled h h1" using dispatch_keeps[OF 1(3) r 1(4) d(1)] by auto
    show ?thesis
    proof (cases "fun_of (p_onFinally x1)")
      case None
      then show ?thesis using d(3) k by simp
    next
      case (Some g)
      then obtain out where "call g [] h1 = Some (out, h')" using d(3) by (auto simp: bind_eq_Some_conv)
      then show ?thesis using 1(3) k keeps_trans by (auto simp: code_keeps_def)
    qed
  qed
  qed
  then show ?thesis using assms(1) by simp
qed

lemma run_handlers_keeps: "code_keeps call \<Longrightarrow> run_ok (run_handlers call)"
  using run_handlers_with_keeps by (auto simp: run_ok_def run_handlers_def split: if_splits)


lemma settle_keeps:
  assumes "code_keeps call" "heap_ok h" "settle call st h pv v = Some (w, h')"
  shows "heap_ok h' \<and> keeps_settled h h'"
  using assms(3) settle_with_keeps[OF run_handlers_keeps[OF assms(1)] assms(2)] assms(2)
  by (auto simp: settle_def bind_eq_Some_conv split: option.splits "tsvalue.splits")

lemma ts_promise_then_keeps:
  assumes "code_keeps call" "heap_ok h" "ts_promise_then call h pv f g = Some (w, h')"
  shows "heap_ok h' \<and> keeps_settled h h'"
proof -
  let ?h1 = "snd (ts_promise_new h)"
  have h1: "heap_ok ?h1" "keeps_settled h ?h1"
    unfolding ts_promise_new_def using assms(2) by (simp_all add: heap_ok_new_value keeps_new)
  obtain r where r: "as_promise h pv = Some r" using assms(3) by (auto simp: ts_promise_then_def bind_eq_Some_conv)
  show ?thesis
  proof (cases r)
    case None
    then obtain u where "settle call PROMISE_FULFILLED ?h1 (VObject (nxt h)) pv = Some (u, h')"
      using assms(3) r by (auto simp: ts_promise_then_def ts_promise_resolve_def Let_def bind_eq_Some_conv)
    then show ?thesis using settle_keeps[OF assms(1) h1(1)] keeps_trans[OF h1(2)] by blast
  next
    case (Some x)
    then obtain p where p: "pv = VObject p" "objs h p = Some (OPromise x)"
      using r by (auto simp: as_promise_def tagged_def bind_eq_Some_conv split: "tsvalue.splits" if_splits elim: sel_promise.elims)
    have px: "objs ?h1 p = Some (OPromise x)"
      using p(2) heap_ok_dom(3)[OF assms(2) p(2)] by (auto simp: ts_promise_new_def new_value_def new_obj_def)
    let ?y = "x\<lparr>p_onFulfilled := f, p_onRejected := g, p_then := nxt h\<rparr>"
    let ?h2 = "put_obj ?h1 p (OPromise ?y)"
    have h2: "heap_ok ?h2" "keeps_settled ?h1 ?h2"
      using h1(1) px by (auto simp: heap_simps intro: keeps_put)
    have "(if p_state x \<noteq> PROMISE_PENDING then run_handlers call ?h2 p else Some ?h2) = Some h'"
      using assms(3) r Some p(1) by (auto simp: ts_promise_then_def Let_def bind_eq_Some_conv split: if_splits)
    then have "heap_ok h' \<and> keeps_settled ?h2 h'"
      using run_handlers_keeps[OF assms(1)] h2(1) by (auto simp: run_ok_def split: if_splits)
    then show ?thesis using keeps_trans[OF h1(2) keeps_trans[OF h2(2)]] by blast
  qed
qed

lemma ts_promise_finally_keeps:
  assumes "code_keeps call" "heap_ok h" "ts_promise_finally call h pv f = Some (w, h')"
  shows "heap_ok h' \<and> keeps_settled h h'"
proof -
  obtain r where r: "as_promise h pv = Some r" using assms(3) by (auto simp: ts_promise_finally_def bind_eq_Some_conv)
  show ?thesis
  proof (cases r)
    case None
    then show ?thesis using assms(2,3) r by (auto simp: ts_promise_finally_def)
  next
    case (Some x)
    then obtain p where p: "pv = VObject p" "objs h p = Some (OPromise x)"
      using r by (auto simp: as_promise_def tagged_def bind_eq_Some_conv split: "tsvalue.splits" if_splits elim: sel_promise.elims)
    let ?h2 = "put_obj h p (OPromise (x\<lparr>p_onFinally := f\<rparr>))"
    have h2: "heap_ok ?h2" "keeps_settled h ?h2"
      using assms(2) p(2) by (auto simp: heap_simps intro: keeps_put)
    have "(if p_state x \<noteq> PROMISE_PENDING then run_handlers call ?h2 p else Some ?h2) = Some h'"
      using assms(3) r Some p(1) by (auto simp: ts_promise_finally_def Let_def bind_eq_Some_conv split: if_splits)
    then have "heap_ok h' \<and> keeps_settled ?h2 h'"
      using run_handlers_keeps[OF assms(1)] h2(1) by (auto simp: run_ok_def split: if_splits)
    then show ?thesis using keeps_trans[OF h2(2)] by blast
  qed
qed

lemma ts_value_call_keeps:
  assumes "code_keeps call" "heap_ok h" "ts_value_call call h callee args = Some (w, h')"
  shows "heap_ok h' \<and> keeps_settled h h'"
proof -
  have c: "heap_ok h' \<and> keeps_settled h h'" if "call f as h = Some (w, h')" for f as
    using assms(1,2) that by (auto simp: code_keeps_def)
  have i: "heap_ok h' \<and> keeps_settled h h'" if "Some (u, h) = Some (w, h')" for u
    using assms(2) that by simp
  show ?thesis
  proof (cases callee)
    case (VObject p)
    show ?thesis
    proof (cases "p = 0")
      case False
      then obtain x where x: "objs h p = Some x" using assms(3) VObject by (auto simp: ts_value_call_def bind_eq_Some_conv)
      show ?thesis
      proof (cases x)
        case (OResolver r)
        then obtain u where "(if r_promise r \<noteq> 0
                then (if r_is_reject r then ts_promise_reject call h (VObject (r_promise r)) (case args of a # _ \<Rightarrow> a | [] \<Rightarrow> ts_value_undefined)
                      else ts_promise_resolve call h (VObject (r_promise r)) (case args of a # _ \<Rightarrow> a | [] \<Rightarrow> ts_value_undefined))
                else Some (ts_value_undefined, h)) = Some (u, h')"
          using assms(3) VObject False x by (auto simp: ts_value_call_def Let_def bind_eq_Some_conv)
        then show ?thesis
          using settle_keeps[OF assms(1,2)] assms(2)
          unfolding ts_promise_reject_def ts_promise_resolve_def by (metis Pair_inject keeps_refl option.inject)
      qed (use assms(3) VObject False x c i in \<open>simp_all add: ts_value_call_def split: if_splits\<close>)
    qed (use assms(3) VObject i in \<open>simp add: ts_value_call_def\<close>)
  qed (use assms(3) c i in \<open>simp_all add: ts_value_call_def split: if_splits\<close>)
qed

subsection \<open>Programs\<close>

text \<open>
  What a function of the program can do to the store: the operations of promises, calls of function
  values and the making of promises with an executor; making strings, arrays and objects; and
  changing those that are not promises. An access that the program cannot make is undefined.
\<close>

datatype act =
  AResolve "tsvalue" "tsvalue" | AReject "tsvalue" "tsvalue" | AThen "tsvalue" "tsvalue" "tsvalue"
| AFinally "tsvalue" "tsvalue" | ACall "tsvalue" "tsvalue list" | APromise "tsvalue"
| ANewString string | ANewArray "tsvalue tsarray" | ANewObject object
| ASetString addr tsstring | ASetArray addr "tsvalue tsarray" | ASetObject addr object

text \<open>The body of a function: it looks at the store, acts on it, and goes on with the value of the act.\<close>

datatype body = BReturn "tsvalue" | BDo "heap \<Rightarrow> act" "tsvalue \<Rightarrow> body"

fun run_act :: "code \<Rightarrow> act \<Rightarrow> heap \<Rightarrow> (tsvalue \<times> heap) option" where
  "run_act call (AResolve p v) h = ts_promise_resolve call h p v"
| "run_act call (AReject p v) h = ts_promise_reject call h p v"
| "run_act call (AThen p f g) h = ts_promise_then call h p f g"
| "run_act call (AFinally p f) h = ts_promise_finally call h p f"
| "run_act call (ACall f args) h = ts_value_call call h f args"
| "run_act call (APromise f) h = Promise_constructor call h f"
| "run_act call (ANewString s) h = (let (p, h1) = new_str h s in Some (VString p, h1))"
| "run_act call (ANewArray a) h = (let (p, h1) = new_arr h a in Some (VArray p, h1))"
| "run_act call (ANewObject x) h = Some (new_value h x)"
| "run_act call (ASetString p s) h = do { _ \<leftarrow> strs h p; Some (VString p, put_str h p s) }"
| "run_act call (ASetArray p a) h = do { _ \<leftarrow> arrs h p; Some (VArray p, put_arr h p a) }"
| "run_act call (ASetObject p x) h = do {
     y \<leftarrow> objs h p;
     if sel_promise y = None then Some (VObject p, put_obj h p x) else None }"

primrec run_body :: "code \<Rightarrow> body \<Rightarrow> heap \<Rightarrow> (tsvalue \<times> heap) option" where
  "run_body call (BReturn v) h = Some (v, h)"
| "run_body call (BDo a k) h = do { (v, h1) \<leftarrow> run_act call (a h) h; run_body call (k v) h1 }"

text \<open>The functions of a program whose calls are nested less than \<open>n\<close> deep.\<close>

fun program :: "(addr \<Rightarrow> tsvalue list \<Rightarrow> body) \<Rightarrow> nat \<Rightarrow> code" where
  "program src 0 f args h = None"
| "program src (Suc n) f args h = run_body (program src n) (src f args) h"

lemma Promise_constructor_keeps:
  assumes "code_keeps call" "heap_ok h" "Promise_constructor call h f = Some (w, h')"
  shows "heap_ok h' \<and> keeps_settled h h'"
proof -
  let ?h1 = "snd (ts_promise_new h)"
  let ?h2 = "snd (make_resolver ?h1 (nxt h) False)"
  let ?h3 = "snd (make_resolver ?h2 (nxt h) True)"
  have ok: "heap_ok ?h1" "heap_ok ?h2" "heap_ok ?h3"
    using assms(2) by (simp_all add: ts_promise_new_def make_resolver_def heap_ok_new_value)
  have k: "keeps_settled h ?h3"
  proof -
    have "keeps_settled h ?h1" "keeps_settled ?h1 ?h2" "keeps_settled ?h2 ?h3"
      using keeps_new [OF assms(2)] keeps_new [OF ok(1)] keeps_new [OF ok(2)] by (simp_all only: ts_promise_new_def make_resolver_def)
    then show ?thesis using keeps_trans by blast
  qed
  have "h' = ?h3 \<or> (\<exists>u r s. ts_value_call call ?h3 f [r, s] = Some (u, h'))"
    using assms(3) by (auto simp: Promise_constructor_def Let_def case_prod_beta bind_eq_Some_conv split: if_splits)
  then show ?thesis
    using ok(3) k ts_value_call_keeps [OF assms(1) ok(3)] keeps_trans [OF k] by blast
qed

lemma run_act_keeps:
  assumes "code_keeps call" "heap_ok h" "run_act call a h = Some (w, h')"
  shows "heap_ok h' \<and> keeps_settled h h'"
proof (cases a)
  case (ANewString s)
  with assms(2,3) show ?thesis by (auto simp: heap_simps keeps_settled_def case_prod_beta)
next
  case (ANewArray s)
  with assms(2,3) show ?thesis by (auto simp: heap_simps keeps_settled_def case_prod_beta)
next
  case (ANewObject x)
  with assms(2,3) heap_ok_new_value [OF assms(2)] keeps_new [OF assms(2)] show ?thesis by (metis run_act.simps(9) option.inject snd_conv)
next
  case (ASetString p s)
  with assms(2,3) heap_ok_dom [OF assms(2)] show ?thesis
    by (auto simp: heap_simps keeps_settled_def bind_eq_Some_conv simp del: not_gr_zero)
next
  case (ASetArray p s)
  with assms(2,3) heap_ok_dom [OF assms(2)] show ?thesis
    by (auto simp: heap_simps keeps_settled_def bind_eq_Some_conv simp del: not_gr_zero)
next
  case (ASetObject p x)
  with assms(2,3) show ?thesis by (auto simp: heap_simps keeps_settled_def bind_eq_Some_conv split: if_splits)
qed (use assms settle_keeps [OF assms(1,2)] ts_promise_then_keeps [OF assms(1,2)] ts_promise_finally_keeps [OF assms(1,2)]
      ts_value_call_keeps [OF assms(1,2)] Promise_constructor_keeps [OF assms(1,2)]
      in \<open>simp_all add: ts_promise_resolve_def ts_promise_reject_def\<close>)

lemma run_body_keeps:
  "code_keeps call \<Longrightarrow> heap_ok h \<Longrightarrow> run_body call b h = Some (w, h') \<Longrightarrow> heap_ok h' \<and> keeps_settled h h'"
proof (induction b arbitrary: h)
  case (BDo a k)
  then obtain v h1 where v: "run_act call (a h) h = Some (v, h1)" "run_body call (k v) h1 = Some (w, h')"
    by (auto simp: bind_eq_Some_conv)
  from run_act_keeps [OF BDo.prems(1,2) v(1)] have "heap_ok h1" "keeps_settled h h1" by auto
  with BDo.IH [OF rangeI BDo.prems(1) _ v(2)] show ?case using keeps_trans by blast
qed simp

text \<open>The functions of any program keep settled promises: no hypothesis on them is needed.\<close>

lemma program_keeps: "code_keeps (program src n)"
proof (induction n)
  case (Suc n)
  show ?case unfolding code_keeps_def
    by (intro allI impI, simp only: program.simps) (rule run_body_keeps [OF Suc.IH])
qed (simp add: code_keeps_def)

subsection \<open>Properties\<close>

text \<open>C4. A promise settles once: whatever the operation (resolve, reject, then, catch, finally, the
  call of a function value, or a whole function of the program), and however often and in whatever
  order the functions of the program that it calls come back to the promises, to any depth of calls, a
  promise that is fulfilled or rejected keeps its state and its result. The functions are any bodies
  made of looks at the store, operations of promises, calls, and changes of what is no promise.\<close>

theorem promise_settles_once:
  assumes "call = program src n" "heap_ok h" "objs h p = Some (OPromise x)" "p_state x \<noteq> PROMISE_PENDING"
    and "(\<exists>pv v. ts_promise_resolve call h pv v = Some (w, h')) \<or>
         (\<exists>pv v. ts_promise_reject call h pv v = Some (w, h')) \<or>
         (\<exists>pv f g. ts_promise_then call h pv f g = Some (w, h')) \<or>
         (\<exists>pv g. ts_promise_catch call h pv g = Some (w, h')) \<or>
         (\<exists>pv g. ts_promise_finally call h pv g = Some (w, h')) \<or>
         (\<exists>c args. ts_value_call call h c args = Some (w, h')) \<or>
         (\<exists>b. run_body call b h = Some (w, h'))"
  shows "\<exists>x'. objs h' p = Some (OPromise x') \<and> p_state x' = p_state x \<and> p_result x' = p_result x"
proof -
  have c: "code_keeps call" unfolding assms(1) by (rule program_keeps)
  have "keeps_settled h h'" if "settle call st h pv v = Some (w, h')" for st pv v using settle_keeps [OF c assms(2) that] by simp
  moreover have "keeps_settled h h'" if "ts_promise_then call h pv f g = Some (w, h')" for pv f g
    using ts_promise_then_keeps [OF c assms(2) that] by simp
  moreover have "keeps_settled h h'" if "ts_promise_finally call h pv g = Some (w, h')" for pv g
    using ts_promise_finally_keeps [OF c assms(2) that] by simp
  moreover have "keeps_settled h h'" if "ts_value_call call h f args = Some (w, h')" for f args
    using ts_value_call_keeps [OF c assms(2) that] by simp
  moreover have "keeps_settled h h'" if "run_body call b h = Some (w, h')" for b using run_body_keeps [OF c assms(2) that] by simp
  ultimately have "keeps_settled h h'"
    using assms(5) unfolding ts_promise_resolve_def ts_promise_reject_def ts_promise_catch_def by metis
  then show ?thesis using assms(3,4) by (auto simp: keeps_settled_def)
qed

text \<open>A chain of pending promises without plain-function handlers.\<close>

definition no_handlers :: "promise \<Rightarrow> bool" where
  "no_handlers x \<longleftrightarrow> p_state x = PROMISE_PENDING \<and> fun_of (p_onFulfilled x) = None \<and>
     fun_of (p_onRejected x) = None \<and> fun_of (p_onFinally x) = None"

fun promise_chain :: "heap \<Rightarrow> addr list \<Rightarrow> bool" where
  "promise_chain h [] = False"
| "promise_chain h [p] = (p \<noteq> 0 \<and> (\<exists>x. objs h p = Some (OPromise x) \<and> no_handlers x \<and> p_then x = 0))"
| "promise_chain h (p # q # ps) = (p \<noteq> 0 \<and> p \<notin> set (q # ps) \<and>
     (\<exists>x. objs h p = Some (OPromise x) \<and> no_handlers x \<and> p_then x = q) \<and> promise_chain h (q # ps))"

lemma promise_chain_put:
  "p \<notin> set ps \<Longrightarrow> promise_chain (put_obj h p y) ps = promise_chain h ps"
  by (induction h ps rule: promise_chain.induct) (auto simp: heap_simps)

lemma promise_chain_nonnull: "promise_chain h (p # ps) \<Longrightarrow> p \<noteq> 0"
  by (cases ps) auto

lemma settle_chain:
  assumes "st \<noteq> PROMISE_PENDING"
  shows "promise_chain h (p # ps) \<Longrightarrow> \<exists>h'. settle_with (run_handlers call) h p st v = Some h' \<and>
    (\<forall>q \<in> set (p # ps). \<exists>x. objs h' q = Some (OPromise x) \<and> p_state x = st \<and> p_result x = v) \<and>
    (\<forall>q. q \<notin> set (p # ps) \<longrightarrow> objs h' q = objs h q)"
proof (induction ps arbitrary: h p)
  case Nil
  then obtain x where x: "p \<noteq> 0" "objs h p = Some (OPromise x)" "no_handlers x" "p_then x = 0" by auto
  let ?x = "x\<lparr>p_state := st, p_result := v\<rparr>"
  have "run_handlers call (put_obj h p (OPromise ?x)) p = Some (put_obj h p (OPromise ?x))"
    using x assms unfolding run_handlers_def
    by (subst run_handlers_with.simps) (simp add: get_promise_def heap_simps dispatch_def no_handlers_def)
  then show ?case using x by (auto simp: settle_with_def get_promise_def no_handlers_def heap_simps)
next
  case (Cons q ps)
  then obtain x where x: "p \<noteq> 0" "objs h p = Some (OPromise x)" "no_handlers x" "p_then x = q" "p \<notin> set (q # ps)"
    "promise_chain h (q # ps)" by auto
  let ?x = "x\<lparr>p_state := st, p_result := v\<rparr>"
  let ?h = "put_obj h p (OPromise ?x)"
  have "promise_chain ?h (q # ps)" by (simp only: promise_chain_put[OF x(5)] x(6))
  then obtain h' where h': "settle_with (run_handlers call) ?h q st v = Some h'"
    "\<forall>r \<in> set (q # ps). \<exists>x. objs h' r = Some (OPromise x) \<and> p_state x = st \<and> p_result x = v"
    "\<forall>r. r \<notin> set (q # ps) \<longrightarrow> objs h' r = objs ?h r"
    using Cons.IH by blast
  have q: "q \<noteq> 0" using x(6) promise_chain_nonnull by blast
  have px: "objs h' p = Some (OPromise ?x)" using h'(3) x(5) by (simp add: heap_simps)
  have sw: "settle_with (run_handlers_with call) ?h q st v = Some h'"
  proof -
    have "settle_with (run_handlers call) ?h q st v = settle_with (run_handlers_with call) ?h q st v"
      using q by (simp add: settle_with_def run_handlers_def cong: if_cong)
    then show ?thesis using h'(1) by simp
  qed
  have "(if p_state ?x = PROMISE_FULFILLED then PROMISE_FULFILLED else PROMISE_REJECTED) = st"
    using assms by (cases st) auto
  then have "dispatch call (run_handlers_with call) ?h p = Some h'"
    using x q sw assms by (cases st) (simp_all add: dispatch_def get_promise_def heap_simps no_handlers_def)
  then have "run_handlers call ?h p = Some h'"
    using x assms px unfolding run_handlers_def
    by (subst run_handlers_with.simps) (simp add: get_promise_def heap_simps no_handlers_def)
  then have "settle_with (run_handlers call) h p st v = Some h'"
    using x by (simp add: settle_with_def get_promise_def no_handlers_def)
  moreover have "\<forall>r. r \<notin> set (p # q # ps) \<longrightarrow> objs h' r = objs h r" using h'(3) by (simp add: heap_simps)
  ultimately show ?case using h'(2) px by auto
qed

text \<open>A settlement runs down a chain of promises: when none of them has a handler that is a
  plain function, resolving or rejecting the first settles every one of them with the same value,
  the first in the same state as the last, whatever the functions of the program do. A handler
  with captured variables is a bound-function object and not a plain function, so it is among
  the handlers that are passed over.\<close>

theorem promise_chain_settles:
  assumes "promise_chain h (p # ps)" "st \<noteq> PROMISE_PENDING"
  shows "\<exists>h'. settle call st h (VObject p) v = Some (VObject p, h') \<and>
    (\<forall>q \<in> set (p # ps). \<exists>x. objs h' q = Some (OPromise x) \<and> p_state x = st \<and> p_result x = v)"
proof -
  obtain x where "p \<noteq> 0" "objs h p = Some (OPromise x)" using assms(1) by (cases ps) auto
  then show ?thesis
    using settle_chain[OF assms(2,1), of call v] by (auto simp: settle_def as_promise_def tagged_def)
qed

text \<open>Only the last \<^verbatim>\<open>then\<close> counts: of two promises taken from one pending promise, the first
  is never settled, its handlers \<open>f1\<close> and \<open>g1\<close> are dropped, and only the second gets the value.\<close>

theorem promise_then_overwrites:
  assumes "heap_ok h" "objs h p = Some (OPromise x)" "no_handlers x" "p_then x = 0"
  shows "\<exists>h1 h2 h3 x1. ts_promise_then call h (VObject p) f1 g1 = Some (VObject (nxt h), h1) \<and>
    ts_promise_then call h1 (VObject p) ts_value_undefined ts_value_undefined = Some (VObject (Suc (nxt h)), h2) \<and>
    ts_promise_resolve call h2 (VObject p) v = Some (VObject p, h3) \<and>
    objs h3 (nxt h) = Some (OPromise x1) \<and> p_state x1 = PROMISE_PENDING \<and>
    (\<exists>x2. objs h3 (Suc (nxt h)) = Some (OPromise x2) \<and> p_state x2 = PROMISE_FULFILLED \<and> p_result x2 = v)"
proof -
  have p: "p \<noteq> 0" "p < nxt h" using heap_ok_dom(3)[OF assms(1,2)] by auto
  let ?q = "nxt h"
  define h1 where "h1 = put_obj (snd (ts_promise_new h)) p (OPromise (x\<lparr>p_onFulfilled := f1, p_onRejected := g1, p_then := ?q\<rparr>))"
  have pend: "p_state x = PROMISE_PENDING" using assms(3) by (simp add: no_handlers_def)
  have t1: "ts_promise_then call h (VObject p) f1 g1 = Some (VObject ?q, h1)"
    using p assms(2) pend by (simp add: ts_promise_then_def as_promise_def tagged_def Let_def h1_def)
  have o1: "objs h1 p = Some (OPromise (x\<lparr>p_onFulfilled := f1, p_onRejected := g1, p_then := ?q\<rparr>))"
    "objs h1 ?q = Some (OPromise fresh_promise)" "nxt h1 = Suc ?q"
    using p by (auto simp: h1_def heap_simps ts_promise_new_def new_value_def new_obj_def)
  let ?x2 = "x\<lparr>p_onFulfilled := ts_value_undefined, p_onRejected := ts_value_undefined, p_then := Suc ?q\<rparr>"
  define h2 where "h2 = put_obj (snd (ts_promise_new h1)) p (OPromise ?x2)"
  have t2: "ts_promise_then call h1 (VObject p) ts_value_undefined ts_value_undefined = Some (VObject (Suc ?q), h2)"
    using p o1 pend by (simp add: ts_promise_then_def as_promise_def tagged_def Let_def h2_def)
  have o2: "objs h2 p = Some (OPromise ?x2)" "objs h2 ?q = Some (OPromise fresh_promise)"
    "objs h2 (Suc ?q) = Some (OPromise fresh_promise)"
    using p o1 by (auto simp: h2_def heap_simps ts_promise_new_def new_value_def new_obj_def)
  have "promise_chain h2 [p, Suc ?q]"
    using p o2 assms(3) by (auto simp: no_handlers_def fresh_promise_def ts_value_undefined_def)
  then obtain h3 where "settle_with (run_handlers call) h2 p PROMISE_FULFILLED v = Some h3"
    "\<forall>q \<in> {p, Suc ?q}. \<exists>x. objs h3 q = Some (OPromise x) \<and> p_state x = PROMISE_FULFILLED \<and> p_result x = v"
    "\<forall>q. q \<notin> {p, Suc ?q} \<longrightarrow> objs h3 q = objs h2 q"
    using settle_chain[of PROMISE_FULFILLED h2 p "[Suc ?q]" call v] by auto
  then show ?thesis
    using t1 t2 p o2 by (auto simp: ts_promise_resolve_def settle_def as_promise_def tagged_def fresh_promise_def)
qed

text \<open>\<^verbatim>\<open>finally\<close> on a promise that is already fulfilled runs its fulfilment handler a second
  time: if that call does not return, neither does \<^verbatim>\<open>finally\<close>.\<close>

theorem promise_finally_reruns_handler:
  assumes "p \<noteq> 0" "objs h p = Some (OPromise x)" "p_state x = PROMISE_FULFILLED" "p_onFulfilled x = VFunction f" "f \<noteq> 0"
    and "call f [p_result x] (put_obj h p (OPromise (x\<lparr>p_onFinally := g\<rparr>))) = None"
  shows "ts_promise_finally call h (VObject p) g = None"
proof -
  have "run_handlers call (put_obj h p (OPromise (x\<lparr>p_onFinally := g\<rparr>))) p = None"
    using assms unfolding run_handlers_def
    by (subst run_handlers_with.simps) (simp add: get_promise_def heap_simps dispatch_def)
  then show ?thesis using assms by (simp add: ts_promise_finally_def as_promise_def tagged_def Let_def)
qed

subsection \<open>Concrete instances\<close>

definition no_code :: code where
  "no_code f args h = Some (ts_value_undefined, h)"

definition one_promise :: "promise \<Rightarrow> heap" where
  "one_promise x = snd (new_obj empty_heap (OPromise x))"

lemma one_promise_ok: "heap_ok (one_promise x)" "objs (one_promise x) 1 = Some (OPromise x)" "nxt (one_promise x) = 2"
  using heap_ok_new(3)[OF heap_ok_empty] by (simp_all add: one_promise_def heap_simps) (simp_all add: empty_heap_def)

text \<open>
  A program whose function 5, called with the value of a promise, rejects the promise at 1, resolves it
  again and returns its argument: as a handler of that promise it runs when the promise is settled, and
  changes nothing of it.
\<close>

definition demo_src :: "addr \<Rightarrow> tsvalue list \<Rightarrow> body" where
  "demo_src f args = (if f = 5
     then BDo (\<lambda>h. AReject (VObject 1) (VBoolean 0)) (\<lambda>v. BDo (\<lambda>h. AResolve (VObject 1) VNull) (\<lambda>v. BReturn (hd args)))
     else BReturn VNull)"

definition demo_settled :: promise where
  "demo_settled = fresh_promise\<lparr>p_state := PROMISE_FULFILLED, p_result := VBoolean 1\<rparr>"

text \<open>The store after \<^verbatim>\<open>then\<close>: the promise with its handler, and the next one settled with what it returned.\<close>

definition demo_then :: heap where
  "demo_then = put_obj (put_obj (snd (ts_promise_new (one_promise demo_settled))) 1
     (OPromise (demo_settled\<lparr>p_onFulfilled := VFunction 5, p_onRejected := VNull, p_then := 2\<rparr>)))
     2 (OPromise (fresh_promise\<lparr>p_state := PROMISE_FULFILLED, p_result := VBoolean 1\<rparr>))"

lemma demo_then_runs:
  "ts_promise_then (program demo_src (Suc 0)) (one_promise demo_settled) (VObject (Suc 0)) (VFunction 5) VNull = Some (VObject 2, demo_then)"
proof -
  let ?x = "demo_settled\<lparr>p_onFulfilled := VFunction 5, p_onRejected := VNull, p_then := 2\<rparr>"
  let ?h1 = "snd (ts_promise_new (one_promise demo_settled))"
  let ?h2 = "put_obj ?h1 (Suc 0) (OPromise ?x)"
  have o: "objs (one_promise demo_settled) (Suc 0) = Some (OPromise demo_settled)" "nxt (one_promise demo_settled) = 2"
    using one_promise_ok by simp_all
  have o2: "objs ?h2 (Suc 0) = Some (OPromise ?x)" "objs ?h2 2 = Some (OPromise fresh_promise)" "objs demo_then (Suc 0) = Some (OPromise ?x)"
    "objs demo_then 2 = Some (OPromise (fresh_promise\<lparr>p_state := PROMISE_FULFILLED, p_result := VBoolean 1\<rparr>))"
    "put_obj ?h2 2 (OPromise (fresh_promise\<lparr>p_state := PROMISE_FULFILLED, p_result := VBoolean 1\<rparr>)) = demo_then"
    using o by (simp_all add: demo_then_def heap_simps ts_promise_new_def new_value_def new_obj_def)
  have st: "p_state ?x = PROMISE_FULFILLED" "p_result ?x = VBoolean 1" "p_state fresh_promise = PROMISE_PENDING" "fun_of (p_onFinally ?x) = None"
    "fun_of (p_onFulfilled fresh_promise) = None" "fun_of (p_onFinally fresh_promise) = None" "p_then fresh_promise = 0"
    by (simp_all add: demo_settled_def fresh_promise_def ts_value_undefined_def)
  have set: "settle call st ?h2 (VObject (Suc 0)) v = Some (VObject (Suc 0), ?h2)" for call st v
    using o2(1) st(1) by (simp add: settle_def as_promise_def tagged_def settle_with_def get_promise_def)
  have call: "program demo_src (Suc 0) 5 [VBoolean 1] ?h2 = Some (VBoolean 1, ?h2)"
    by (simp add: demo_src_def ts_promise_reject_def ts_promise_resolve_def set)
  have r2: "run_handlers_with (program demo_src (Suc 0)) demo_then 2 = Some demo_then"
    using o2(4) st by (subst run_handlers_with.simps) (simp add: get_promise_def dispatch_def)
  have "settle_with (run_handlers_with (program demo_src (Suc 0))) ?h2 2 PROMISE_FULFILLED (VBoolean 1) = Some demo_then"
    using o2 st(3) r2 by (simp add: settle_with_def get_promise_def)
  then have "run_handlers (program demo_src (Suc 0)) ?h2 (Suc 0) = Some demo_then"
    using o2 st call by (simp add: run_handlers_def run_handlers_with.simps [of _ _ "Suc 0"] get_promise_def dispatch_def demo_settled_def)
  then show ?thesis
    using o by (simp add: ts_promise_then_def as_promise_def tagged_def Let_def demo_settled_def)
qed

lemma promise_settles_once_witness:
  "ts_promise_then (program demo_src 1) (one_promise demo_settled) (VObject 1) (VFunction 5) VNull = Some (VObject 2, demo_then) \<and>
   demo_then \<noteq> one_promise demo_settled \<and>
   (\<exists>x'. objs demo_then 1 = Some (OPromise x') \<and> p_state x' = PROMISE_FULFILLED \<and> p_result x' = VBoolean 1)"
proof -
  have "p_state demo_settled \<noteq> PROMISE_PENDING" by (simp add: demo_settled_def)
  from promise_settles_once [OF refl one_promise_ok(1,2) this, of demo_src 1 "VObject 2" demo_then] demo_then_runs [folded One_nat_def]
  obtain x' where "objs demo_then 1 = Some (OPromise x')" "p_state x' = p_state demo_settled" "p_result x' = p_result demo_settled" by blast
  moreover have "nxt demo_then \<noteq> nxt (one_promise demo_settled)" by (simp add: demo_then_def heap_simps ts_promise_new_def new_value_def new_obj_def)
  ultimately show ?thesis using demo_then_runs [folded One_nat_def] by (auto simp: demo_settled_def)
qed

lemma promise_chain_settles_witness:
  "\<exists>h'. settle no_code PROMISE_REJECTED (one_promise fresh_promise) (VObject 1) (VBoolean 0) = Some (VObject 1, h') \<and>
    (\<exists>x. objs h' 1 = Some (OPromise x) \<and> p_state x = PROMISE_REJECTED \<and> p_result x = VBoolean 0)"
  using promise_chain_settles[of "one_promise fresh_promise" 1 "[]" PROMISE_REJECTED no_code "VBoolean 0"]
    one_promise_ok[of fresh_promise]
  by (auto simp: no_handlers_def fresh_promise_def ts_value_undefined_def)

lemma promise_then_overwrites_witness:
  "\<exists>h1 h2 h3 x1. ts_promise_then no_code (one_promise fresh_promise) (VObject 1) (VFunction 9) VNull = Some (VObject 2, h1) \<and>
    ts_promise_then no_code h1 (VObject 1) VNull VNull = Some (VObject 3, h2) \<and>
    ts_promise_resolve no_code h2 (VObject 1) (VBoolean 1) = Some (VObject 1, h3) \<and>
    objs h3 2 = Some (OPromise x1) \<and> p_state x1 = PROMISE_PENDING"
  using promise_then_overwrites[OF one_promise_ok(1,2), of fresh_promise no_code "VFunction 9" VNull "VBoolean 1"]
    one_promise_ok(3)[of fresh_promise]
  by (auto simp: no_handlers_def fresh_promise_def ts_value_undefined_def numeral_eq_Suc)

lemma promise_finally_reruns_handler_witness:
  "ts_promise_finally (\<lambda>f args h. None)
     (one_promise (fresh_promise\<lparr>p_state := PROMISE_FULFILLED, p_onFulfilled := VFunction 5\<rparr>)) (VObject 1) VNull = None"
  using promise_finally_reruns_handler[OF _ one_promise_ok(2), of "fresh_promise\<lparr>p_state := PROMISE_FULFILLED, p_onFulfilled := VFunction 5\<rparr>" 5]
  by simp

end
