(* ===== verification/Ts_Builtins.thy ===== *)
theory Ts_Builtins
  imports Ts_Coerce
begin

text \<open>
  \<^verbatim>\<open>runtime/src/builtins.c\<close> but for the timers: the arithmetic of doubles, the \<^verbatim>\<open>Math\<close> functions
  that are more than a call into the C library, number parsing, the conversion between bases,
  the console timers and the three dialogs. Standard input is the text still to be read.
\<close>

subsection \<open>Arithmetic of doubles\<close>

fun fin :: "dbl \<Rightarrow> rat option" where
  "fin (DFin r) = Some r"
| "fin DNegZero = Some 0"
| "fin _ = None"

text \<open>The sign bit; that of NaN does not matter.\<close>

fun sgn_neg :: "dbl \<Rightarrow> bool" where
  "sgn_neg (DFin r) = (r < 0)"
| "sgn_neg DNegZero = True"
| "sgn_neg DNegInf = True"
| "sgn_neg _ = False"

definition inf_of :: "bool \<Rightarrow> dbl" where
  "inf_of neg = (if neg then DNegInf else DInf)"

definition zero_of :: "bool \<Rightarrow> dbl" where
  "zero_of neg = (if neg then DNegZero else DFin 0)"

definition dneg :: "dbl \<Rightarrow> dbl" where
  "dneg x = dsigned True x"

definition dadd :: "dbl \<Rightarrow> dbl \<Rightarrow> dbl" where
  "dadd x y = (case (fin x, fin y) of
     (Some a, Some b) \<Rightarrow> if x = DNegZero \<and> y = DNegZero then DNegZero else rnd (a + b)
   | (Some a, None) \<Rightarrow> y
   | (None, Some b) \<Rightarrow> x
   | (None, None) \<Rightarrow> if x = y then x else DNaN)"

definition dsub :: "dbl \<Rightarrow> dbl \<Rightarrow> dbl" where
  "dsub x y = dadd x (dneg y)"

definition dmul :: "dbl \<Rightarrow> dbl \<Rightarrow> dbl" where
  "dmul x y = (let neg = (sgn_neg x \<noteq> sgn_neg y) in
     if x = DNaN \<or> y = DNaN then DNaN
     else case (fin x, fin y) of
       (Some a, Some b) \<Rightarrow> if a * b = 0 then zero_of neg else rnd (a * b)
     | (Some a, None) \<Rightarrow> if a = 0 then DNaN else inf_of neg
     | (None, Some b) \<Rightarrow> if b = 0 then DNaN else inf_of neg
     | (None, None) \<Rightarrow> inf_of neg)"

definition ddiv :: "dbl \<Rightarrow> dbl \<Rightarrow> dbl" where
  "ddiv x y = (let neg = (sgn_neg x \<noteq> sgn_neg y) in
     if x = DNaN \<or> y = DNaN then DNaN
     else case (fin x, fin y) of
       (Some a, Some b) \<Rightarrow>
         if b = 0 then (if a = 0 then DNaN else inf_of neg)
         else if a = 0 then zero_of neg else rnd (a / b)
     | (Some a, None) \<Rightarrow> zero_of neg
     | (None, Some b) \<Rightarrow> inf_of neg
     | (None, None) \<Rightarrow> DNaN)"

subsection \<open>Math\<close>

text \<open>A rounding function on doubles: infinities and NaN are kept, and so is the sign of a zero.\<close>

definition d_round_with :: "(rat \<Rightarrow> int) \<Rightarrow> dbl \<Rightarrow> dbl" where
  "d_round_with f x = (case fin x of
     Some r \<Rightarrow> if f r = 0 then zero_of (sgn_neg x) else dint (f r)
   | None \<Rightarrow> x)"

definition ts_math_floor :: "dbl \<Rightarrow> dbl" where
  "ts_math_floor x = d_round_with floor x"

definition ts_math_ceil :: "dbl \<Rightarrow> dbl" where
  "ts_math_ceil x = d_round_with ceiling x"

text \<open>C's \<^verbatim>\<open>round\<close>: halves away from zero.\<close>

definition ts_math_round :: "dbl \<Rightarrow> dbl" where
  "ts_math_round x = d_round_with (\<lambda>r. if 0 \<le> r then \<lfloor>r + 1 / 2\<rfloor> else \<lceil>r - 1 / 2\<rceil>) x"

definition ts_math_abs :: "dbl \<Rightarrow> dbl" where
  "ts_math_abs x = (if sgn_neg x then dneg x else x)"

definition ts_math_max :: "dbl \<Rightarrow> dbl \<Rightarrow> dbl" where
  "ts_math_max a b = (if dlt b a then a else b)"

definition ts_math_min :: "dbl \<Rightarrow> dbl \<Rightarrow> dbl" where
  "ts_math_min a b = (if dlt a b then a else b)"

definition ts_is_nan :: "dbl \<Rightarrow> bool" where
  "ts_is_nan x \<longleftrightarrow> x = DNaN"

definition ts_is_finite :: "dbl \<Rightarrow> bool" where
  "ts_is_finite x \<longleftrightarrow> fin x \<noteq> None"

definition ts_parse_float :: "heap \<Rightarrow> addr \<Rightarrow> dbl option" where
  "ts_parse_float h p = do { s \<leftarrow> str_data h p; Some (atof (cstr s)) }"

subsection \<open>Conversion between bases\<close>

definition char_to_digit :: "char \<Rightarrow> int" where
  "char_to_digit c = (let n = int (of_char c) in
     if 48 \<le> n \<and> n \<le> 57 then n - 48
     else if 65 \<le> n \<and> n \<le> 90 then n - 65 + 10
     else if 97 \<le> n \<and> n \<le> 122 then n - 97 + 10 else - 1)"

definition digit_to_char :: "int \<Rightarrow> char" where
  "digit_to_char d = (if d < 10 then char_of (48 + nat d) else char_of (65 + nat (d - 10)))"

fun cb_int :: "int \<Rightarrow> string \<Rightarrow> dbl \<Rightarrow> dbl \<times> string" where
  "cb_int b [] r = (r, [])"
| "cb_int b (c # s) r =
    (if c = CHR ''.'' then (r, c # s)
     else let d = char_to_digit c in
       if d < 0 \<or> d \<ge> b then (r, c # s)
       else cb_int b s (dadd (dmul r (dint b)) (dint d)))"

fun cb_frac :: "int \<Rightarrow> string \<Rightarrow> dbl \<Rightarrow> dbl \<Rightarrow> dbl" where
  "cb_frac b [] fraction base_power = fraction"
| "cb_frac b (c # s) fraction base_power =
    (let d = char_to_digit c in
     if d < 0 \<or> d \<ge> b then fraction
     else cb_frac b s (dadd fraction (dmul (dint d) base_power)) (ddiv base_power (dint b)))"

text \<open>
  The digits of the integer part, written from the end of a buffer of which \<open>room\<close> bytes are
  free.
\<close>

fun cb_digits :: "nat \<Rightarrow> int \<Rightarrow> int \<Rightarrow> string \<Rightarrow> string" where
  "cb_digits 0 b n acc = acc"
| "cb_digits (Suc room) b n acc =
    (if n > 0 then cb_digits room b (n div b) (digit_to_char (n mod b) # acc) else acc)"

fun cb_frac_digits :: "nat \<Rightarrow> nat \<Rightarrow> int \<Rightarrow> dbl \<Rightarrow> string option" where
  "cb_frac_digits 0 room b f = Some []"
| "cb_frac_digits (Suc k) room b f =
    (if deq f (DFin 0) \<or> room = 0 then Some []
     else do {
       let f1 = dmul f (dint b);
       digit \<leftarrow> d_to_int f1;
       s \<leftarrow> cb_frac_digits k (room - 1) b (dsub f1 (dint digit));
       Some (digit_to_char digit # s) })"

definition llong_max :: int where
  "llong_max = 9223372036854775807"

text \<open>The conversion \<^verbatim>\<open>(long long)d\<close>, undefined out of range.\<close>

definition d_to_llong :: "dbl \<Rightarrow> int option" where
  "d_to_llong d = (case fin d of
     Some r \<Rightarrow> if - llong_max - 1 \<le> rtrunc r \<and> rtrunc r \<le> llong_max then Some (rtrunc r) else None
   | None \<Rightarrow> None)"

definition cb_value :: "string \<Rightarrow> int \<Rightarrow> bool \<times> dbl" where
  "cb_value input fromBase =
    (let (negative, s) = (case input of
           c # r \<Rightarrow> if c = CHR ''-'' then (True, r) else if c = CHR ''+'' then (False, r) else (False, input)
         | [] \<Rightarrow> (False, []));
         (r, s1) = cb_int fromBase s (DFin 0);
         r1 = (case s1 of
           c # s2 \<Rightarrow> if c = CHR ''.'' then dadd r (cb_frac fromBase s2 (DFin 0) (ddiv (DFin 1) (dint fromBase))) else r
         | [] \<Rightarrow> r)
     in (negative, if negative then dneg r1 else r1))"

definition ts_convert_base :: "heap \<Rightarrow> addr \<Rightarrow> int \<Rightarrow> int \<Rightarrow> (addr \<times> heap) option" where
  "ts_convert_base h p fromBase toBase =
    (if fromBase < 2 \<or> fromBase > 36 \<or> toBase < 2 \<or> toBase > 36 then ts_string_new h []
     else do {
       input \<leftarrow> str_data h p;
       let (negative, result) = cb_value (cstr input) fromBase;
       if deq result (DFin 0) then ts_string_new h ''0''
       else do {
         i0 \<leftarrow> d_to_llong result;
         let f0 = dsub result (dint i0);
         let intPart = (if i0 < 0 then - i0 else i0);
         let fracPart = (if i0 < 0 then dneg f0 else f0);
         let ds = (if intPart = 0 then ''0'' else cb_digits 255 toBase intPart []);
         let ds' = (if negative \<and> length ds < 255 then CHR ''-'' # ds else ds);
         fr \<leftarrow> (if deq fracPart (DFin 0) then Some []
               else map_option (\<lambda>s. CHR ''.'' # s) (cb_frac_digits 32 (511 - Suc (length ds')) toBase fracPart));
         ts_string_new h (ds' @ fr) } })"

subsection \<open>Console timers\<close>

text \<open>\<^verbatim>\<open>printf("%.3f")\<close> of a finite double, and the processor time in ticks.\<close>

definition fmt_f3 :: "rat \<Rightarrow> string" where
  "fmt_f3 r = (let n = rhe (\<bar>r\<bar> * 1000); d = dec_str (nat (n mod 1000)) in
     (if r < 0 then ''-'' else []) @ dec_str (nat (n div 1000)) @ ''.'' @ replicate (3 - length d) (CHR ''0'') @ d)"

type_synonym timer_list = "(addr \<times> int) list"

definition ts_console_time :: "addr \<Rightarrow> int \<Rightarrow> timer_list \<Rightarrow> timer_list" where
  "ts_console_time label now es = (label, now) # es"

fun take_timer :: "heap \<Rightarrow> addr \<Rightarrow> timer_list \<Rightarrow> (int option \<times> timer_list) option" where
  "take_timer h label [] = Some (None, [])"
| "take_timer h label (e # es) = do {
     b \<leftarrow> ts_string_equals h (fst e) label;
     if b then Some (Some (snd e), es)
     else do { (r, es') \<leftarrow> take_timer h label es; Some (r, e # es') } }"

definition ts_console_time_end ::
  "int \<Rightarrow> heap \<Rightarrow> addr \<Rightarrow> int \<Rightarrow> timer_list \<Rightarrow> (string \<times> timer_list) option" where
  "ts_console_time_end CLOCKS_PER_SEC h label now es = do {
     s \<leftarrow> str_data h label;
     (r, es') \<leftarrow> take_timer h label es;
     case r of
       Some start \<Rightarrow> (let ms = dmul (ddiv (dint (now - start)) (dint CLOCKS_PER_SEC)) (dint 1000) in
         case fin ms of
           Some m \<Rightarrow> Some (cstr s @ '': '' @ fmt_f3 m @ ''ms'' @ [NL], es')
         | None \<Rightarrow> None)
     | None \<Rightarrow> Some (cstr s @ '': 0.000ms'' @ [NL], es') }"

subsection \<open>Dialogs\<close>

text \<open>\<^verbatim>\<open>fgets\<close> with room for \<open>n\<close> characters: up to and including a newline.\<close>

fun fgets :: "nat \<Rightarrow> string \<Rightarrow> string \<times> string" where
  "fgets 0 s = ([], s)"
| "fgets (Suc n) [] = ([], [])"
| "fgets (Suc n) (c # s) = (if c = NL then ([c], s) else (let (a, b) = fgets n s in (c # a, b)))"

definition ts_trim_crlf :: "string \<Rightarrow> string" where
  "ts_trim_crlf s = rev (dropWhile (\<lambda>c. c = NL \<or> c = CR) (rev (cstr s)))"

definition ts_read_line :: "nat \<Rightarrow> string \<Rightarrow> (string option \<times> string)" where
  "ts_read_line cap inp =
    (if cap = 0 \<or> inp = [] then (None, inp)
     else (let (l, r) = fgets (cap - 1) inp in (Some (ts_trim_crlf l), r)))"

definition skip_blank :: "string \<Rightarrow> string" where
  "skip_blank s = dropWhile (\<lambda>c. c = CHR '' '' \<or> c = TAB) s"

text \<open>The answer a line gives: none for a line that is asked again.\<close>

definition confirm_line :: "string \<Rightarrow> bool option" where
  "confirm_line l = (case skip_blank l of
     [] \<Rightarrow> None
   | c # rest \<Rightarrow>
       if skip_blank rest \<noteq> [] then None
       else if lower c = CHR ''y'' then Some True
       else if lower c = CHR ''n'' then Some False else None)"

lemma fgets_shorter: "n \<noteq> 0 \<Longrightarrow> s \<noteq> [] \<Longrightarrow> length (snd (fgets n s)) < length s"
proof (induction n s rule: fgets.induct)
  case (3 n c s)
  show ?case
  proof (cases "n = 0 \<or> s = []")
    case True
    then show ?thesis by (cases n) auto
  next
    case False
    then show ?thesis using 3 by (auto simp: case_prod_beta)
  qed
qed auto

text \<open>The loop prints the question before each line it reads; at the end of input it gives up.\<close>

function confirm_loop :: "string \<Rightarrow> string \<Rightarrow> bool \<times> string \<times> string" where
  "confirm_loop q inp =
    (if inp = [] then (False, q, [])
     else case confirm_line (ts_trim_crlf (fst (fgets 63 inp))) of
       Some b \<Rightarrow> (b, q, snd (fgets 63 inp))
     | None \<Rightarrow> (let (b, out, r) = confirm_loop q (snd (fgets 63 inp)) in (b, q @ out, r)))"
  by pat_completeness auto
termination
  by (relation "measure (\<lambda>(q, inp). length inp)") (auto intro!: fgets_shorter)

declare confirm_loop.simps [simp del]

definition ts_confirm :: "heap \<Rightarrow> tsvalue \<Rightarrow> string \<Rightarrow> ((bool \<times> string \<times> string) \<times> heap) option" where
  "ts_confirm h message inp = do {
     (p, h1) \<leftarrow> ts_to_string h message;
     msg \<leftarrow> (if p \<noteq> 0 then str_data h1 p else Some []);
     Some (confirm_loop (cstr msg @ '' [y/N] '') inp, h1) }"

definition ts_alert :: "heap \<Rightarrow> tsvalue \<Rightarrow> string \<Rightarrow> ((string \<times> string) \<times> heap) option" where
  "ts_alert h message inp = do {
     (p, h1) \<leftarrow> ts_to_string h message;
     msg \<leftarrow> (if p \<noteq> 0 then str_data h1 p else Some []);
     Some ((cstr msg @ [NL] @ ''[Press Enter to continue] '', snd (ts_read_line 1024 inp)), h1) }"

definition ts_prompt :: "heap \<Rightarrow> tsvalue \<Rightarrow> string \<Rightarrow> ((tsvalue \<times> string \<times> string) \<times> heap) option" where
  "ts_prompt h message inp = do {
     (p, h1) \<leftarrow> ts_to_string h message;
     m \<leftarrow> (if p \<noteq> 0 then str_data h1 p else Some []);
     let msg = cstr m;
     let out = msg @ (if msg = [] \<or> last msg \<notin> {CHR '' '', TAB, NL} then '' '' else []);
     let (l, r) = ts_read_line 4096 inp;
     case l of
       None \<Rightarrow> Some ((VNull, out, r), h1)
     | Some line \<Rightarrow>
         (if line = [] then Some ((VNull, out, r), h1)
          else do { (q, h2) \<leftarrow> ts_string_new h1 line; Some ((VString q, out, r), h2) }) }"


subsection \<open>The conversion of whole numbers\<close>

text \<open>The numeral of a number in a base, and its value.\<close>

function numeral_of :: "nat \<Rightarrow> nat \<Rightarrow> string" where
  "numeral_of b n = (if b < 2 then [] else if n < b then [digit_to_char (int n)]
     else numeral_of b (n div b) @ [digit_to_char (int (n mod b))])"
  by pat_completeness auto
termination by (relation "measure snd") auto

declare numeral_of.simps [simp del]

definition numeral_val :: "nat \<Rightarrow> string \<Rightarrow> nat" where
  "numeral_val b s = foldl (\<lambda>a c. a * b + nat (char_to_digit c)) 0 s"

definition is_numeral :: "nat \<Rightarrow> string \<Rightarrow> bool" where
  "is_numeral b s \<longleftrightarrow> s \<noteq> [] \<and> (\<forall>c \<in> set s. 0 \<le> char_to_digit c \<and> char_to_digit c < int b)"

lemma digit_roundtrip:
  assumes "d < 36" shows "char_to_digit (digit_to_char (int d)) = int d" "digit_to_char (int d) \<noteq> NUL"
proof -
  have "(of_char (digit_to_char (int d)) :: nat) = (if d < 10 then 48 + d else 55 + d)"
    using assms by (auto simp: digit_to_char_def nat_diff_distrib')
  then show "char_to_digit (digit_to_char (int d)) = int d" "digit_to_char (int d) \<noteq> NUL"
    using assms by (auto simp: char_to_digit_def Let_def split: if_splits)
qed

lemma char_to_digit_special [simp]: "char_to_digit (CHR ''.'') = - 1" "char_to_digit (CHR ''-'') = - 1"
  "char_to_digit (CHR ''+'') = - 1" "char_to_digit NUL = - 1"
  by (simp_all add: char_to_digit_def)

lemma cb_int_numeral:
  assumes "\<forall>c \<in> set s. 0 \<le> char_to_digit c \<and> char_to_digit c < int b" "2 \<le> b"
    and "foldl (\<lambda>a c. a * b + nat (char_to_digit c)) m s < 2 ^ 53"
  shows "cb_int (int b) s (dint (int m)) = (dint (int (foldl (\<lambda>a c. a * b + nat (char_to_digit c)) m s)), [])"
  using assms
proof (induction s arbitrary: m)
  case (Cons c s)
  let ?d = "nat (char_to_digit c)" and ?f = "\<lambda>a c. a * b + nat (char_to_digit c)"
  have d: "0 \<le> char_to_digit c" "char_to_digit c < int b" using Cons.prems by auto
  have mono: "k \<le> foldl ?f k t" for k t
  proof (induction t arbitrary: k)
    case (Cons x t)
    have "k \<le> ?f k x" using assms(2) by (cases b) auto
    then show ?case using Cons[of "?f k x"] by simp
  qed simp
  have lt: "m * b + ?d < 2 ^ 53" using Cons.prems(3) mono[of "m * b + ?d" s] by simp
  then have lt2: "int m * int b < 2 ^ 53"
    by (metis add_lessD1 of_nat_less_iff of_nat_mult of_nat_numeral of_nat_power)
  have "rnd (of_int (int m * int b)) = dint (int m * int b)" using lt2 by (intro rnd_of_int) simp
  then have m1: "dmul (dint (int m)) (dint (int b)) = dint (int m * int b)"
    by (auto simp: dmul_def zero_of_def)
  have "int (m * b + ?d) < 2 ^ 53" using lt by (metis of_nat_less_iff of_nat_numeral of_nat_power)
  then have "rnd (of_int (int m * int b + char_to_digit c)) = dint (int m * int b + char_to_digit c)"
    using d by (intro rnd_of_int) simp
  then have a1: "dadd (dint (int m * int b)) (dint (char_to_digit c)) = dint (int (m * b + ?d))"
    using d by (simp add: dadd_def)
  have "c \<noteq> CHR ''.''" using d by auto
  then have "cb_int (int b) (c # s) (dint (int m)) = cb_int (int b) s (dint (int (m * b + ?d)))"
    unfolding cb_int.simps Let_def m1 a1 using d by auto
  moreover have "\<dots> = (dint (int (foldl ?f (m * b + ?d) s)), [])" by (rule Cons.IH) (use Cons.prems in auto)
  ultimately show ?case by simp
qed simp

lemma cb_digits_numeral:
  "2 \<le> b \<Longrightarrow> 0 < n \<Longrightarrow> n < b ^ room \<Longrightarrow> cb_digits room (int b) (int n) acc = numeral_of b n @ acc"
proof (induction room arbitrary: n acc)
  case (Suc room)
  have d: "digit_to_char (int n mod int b) = digit_to_char (int (n mod b))" by (simp add: zmod_int)
  show ?case
  proof (cases "n < b")
    case True
    have "cb_digits room (int b) 0 a = a" for a by (cases room) simp_all
    then show ?thesis using Suc.prems True by (subst numeral_of.simps) (simp add: d flip: zdiv_int)
  next
    case False
    have "n div b < b ^ room" using Suc.prems by (metis less_mult_imp_div_less mult.commute power_Suc)
    moreover have "0 < n div b" using False Suc.prems by (simp add: div_greater_zero_iff)
    ultimately show ?thesis using Suc False
      by (subst numeral_of.simps) (simp add: d flip: zdiv_int)
  qed
qed simp

lemma numeral_of_ok:
  assumes "2 \<le> b" "b \<le> 36"
  shows "is_numeral b (numeral_of b n)" "numeral_val b (numeral_of b n) = n" "NUL \<notin> set (numeral_of b n)"
proof -
  have "is_numeral b (numeral_of b n) \<and> numeral_val b (numeral_of b n) = n \<and> NUL \<notin> set (numeral_of b n)"
    using assms
  proof (induction b n rule: numeral_of.induct)
    case (1 b n)
    show ?case
    proof (cases "n < b")
      case True
      then show ?thesis using 1 digit_roundtrip[of n]
        by (subst (1 2 3) numeral_of.simps) (auto simp: is_numeral_def numeral_val_def)
    next
      case False
      have m: "n mod b < b" "n mod b < 36" using 1 by (auto intro: less_le_trans[of _ b])
      then show ?thesis using 1 False digit_roundtrip[OF m(2)]
        by (subst (1 2 3) numeral_of.simps) (auto simp: is_numeral_def numeral_val_def)
    qed
  qed
  then show "is_numeral b (numeral_of b n)" "numeral_val b (numeral_of b n) = n" "NUL \<notin> set (numeral_of b n)" by auto
qed

lemma length_numeral_of: "2 \<le> b \<Longrightarrow> 0 < k \<Longrightarrow> n < 2 ^ k \<Longrightarrow> length (numeral_of b n) \<le> k"
proof (induction k arbitrary: n)
  case (Suc k)
  show ?case
  proof (cases "n < b")
    case True
    then show ?thesis using Suc.prems by (subst numeral_of.simps) auto
  next
    case False
    have "n div b \<le> n div 2" using Suc.prems by (simp add: div_le_mono2)
    then have lt: "n div b < 2 ^ k" using Suc.prems(3) by auto
    have "k \<noteq> 0"
    proof
      assume "k = 0"
      then have "n div b = 0" using lt by simp
      then show False using False Suc.prems by (simp add: div_eq_0_iff)
    qed
    then have "length (numeral_of b (n div b)) \<le> k" using Suc lt by auto
    then show ?thesis using False Suc.prems by (subst numeral_of.simps) auto
  qed
qed simp

text \<open>C29. Whole numbers below \<open>2^53\<close> are converted exactly: from a numeral in any base from 2 to 36
  to the numeral of the same number in any other; and back again to a numeral of the same
  value.\<close>

theorem ts_convert_base_exact:
  assumes "heap_ok h" "str_at h p s" "2 \<le> a" "a \<le> 36" "2 \<le> b" "b \<le> 36"
    and "is_numeral a s" "numeral_val a s < 2 ^ 53"
  shows "\<exists>q h'. ts_convert_base h p (int a) (int b) = Some (q, h') \<and> heap_ok h' \<and>
    str_at h' q (numeral_of b (numeral_val a s)) \<and>
    (\<exists>r h2 t. ts_convert_base h' q (int b) (int a) = Some (r, h2) \<and> str_at h2 r t \<and>
      numeral_val a t = numeral_val a s)"
proof -
  have conv: "ts_convert_base g r (int c) (int d) = Some (new_str g (numeral_of d (numeral_val c t)))"
    if r: "str_at g r t" "2 \<le> c" "c \<le> 36" "2 \<le> d" "d \<le> 36" "is_numeral c t" "numeral_val c t < 2 ^ 53" for g r t c d
  proof -
    let ?n = "numeral_val c t"
    have nul: "NUL \<notin> set t" using r(6) by (auto simp: is_numeral_def)
    obtain x xs where t: "t = x # xs" "0 \<le> char_to_digit x"
      using r(6) by (cases t) (auto simp: is_numeral_def)
    then have x: "t = x # xs" "x \<noteq> CHR ''-''" "x \<noteq> CHR ''+''" by auto
    have "cb_int (int c) t (dint (int 0)) = (dint (int ?n), [])"
      using cb_int_numeral[of t c 0] r by (simp add: is_numeral_def numeral_val_def)
    then have "cb_value t (int c) = (False, dint (int ?n))"
      using x(2,3) unfolding cb_value_def x(1) by (simp del: cb_int.simps)
    then have v: "cb_value (cstr t) (int c) = (False, dint (int ?n))" by (simp only: cstr_id[OF nul])
    have i: "int ?n < 2 ^ 53" using r(7) by (metis of_nat_less_iff of_nat_numeral of_nat_power)
    have tx: "ts_string_new g (numeral_of d ?n) = Some (new_str g (numeral_of d ?n))"
      using numeral_of_ok(3)[OF r(4,5)] length_numeral_of[OF r(4) _ r(7)]
      by (intro ts_string_new_eq) (auto simp: int32_max_def)
    show ?thesis
    proof (cases "?n = 0")
      case True
      have "numeral_of d 0 = ''0''"
        using r(4) by (subst numeral_of.simps) (simp add: digit_to_char_def digit_char_0[unfolded digit_char_def, simplified])
      then show ?thesis using r v True tx by (simp add: ts_convert_base_def)
    next
      case False
      have "(2::nat) ^ 53 \<le> d ^ 53" using r(4) by (rule power_mono) simp
      also have "\<dots> \<le> d ^ 255" using r(4) by (intro power_increasing) auto
      finally have dg: "cb_digits 255 (int d) (int ?n) [] = numeral_of d ?n"
        using cb_digits_numeral[OF r(4), of ?n 255 "[]"] False r(7) by simp
      have ll: "d_to_llong (dint (int ?n)) = Some (int ?n)"
        using i by (simp add: d_to_llong_def llong_max_def del: of_int_of_nat_eq)
      have "dsub (dint (int ?n)) (dint (int ?n)) = DFin 0"
        using False by (simp add: dsub_def dneg_def dsigned_def dadd_def rnd_def)
      then show ?thesis
        using r v False tx dg ll by (simp add: ts_convert_base_def Let_def del: of_int_of_nat_eq)
    qed
  qed
  let ?n = "numeral_val a s"
  have 1: "ts_convert_base h p (int a) (int b) = Some (new_str h (numeral_of b ?n))" using conv assms by blast
  let ?h = "snd (new_str h (numeral_of b ?n))"
  have st: "str_at ?h (nxt h) (numeral_of b ?n)" "heap_ok ?h" using assms(1) by (simp_all add: heap_simps)
  have 2: "ts_convert_base ?h (nxt h) (int b) (int a) = Some (new_str ?h (numeral_of a ?n))"
    using conv[OF st(1) assms(5,6,3,4)] numeral_of_ok[OF assms(5,6)] assms(8) by simp
  show ?thesis
    using 1 2 st numeral_of_ok(2)[OF assms(3,4), of ?n] str_at_new[OF st(2)]
    by (auto simp: new_str_def)
qed


lemma ts_convert_base_exact_witness:
  "\<exists>q h'. ts_convert_base (snd (new_str empty_heap ''ff'')) 1 16 2 = Some (q, h') \<and> str_at h' q (numeral_of 2 255)"
proof -
  let ?h = "snd (new_str empty_heap ''ff'')"
  have d: "char_to_digit (CHR ''f'') = 15" by (simp add: char_to_digit_def)
  have "heap_ok ?h" "str_at ?h 1 ''ff''"
    using heap_ok_new(1)[OF heap_ok_empty] by (simp_all add: str_at_def new_str_def empty_heap_def)
  moreover have "is_numeral 16 ''ff''" "numeral_val 16 ''ff'' = 255"
    by (simp_all add: is_numeral_def numeral_val_def d)
  ultimately show ?thesis
    using ts_convert_base_exact[of ?h 1 "''ff''" 16 2] by auto
qed

subsection \<open>The confirm dialog\<close>

lemma fgets_line:
  "NL \<notin> set l \<Longrightarrow> length l < n \<Longrightarrow> fgets n (l @ NL # r) = (l @ [NL], r)"
proof (induction l arbitrary: n)
  case Nil
  then show ?case by (cases n) auto
next
  case (Cons c l)
  then show ?case by (cases n) auto
qed

lemma fgets_piece: "NL \<notin> set l \<Longrightarrow> fgets (length l) (l @ r) = (l, r)"
  by (induction l) auto

lemma trim_line: "NUL \<notin> set l \<Longrightarrow> ts_trim_crlf (l @ [NL]) = ts_trim_crlf l"
  by (simp add: ts_trim_crlf_def cstr_id)

text \<open>\<^verbatim>\<open>confirm\<close> always returns, and for input made of lines of at most 62 characters its answer
  is that of the first line that is an answer, or no when there is none. A longer line is not one
  answer: it is read in pieces of 63 characters, so that the tail of a line of junk is taken for
  an answer.\<close>

theorem ts_confirm_answers:
  shows "((\<forall>l \<in> set ls. length l \<le> 62 \<and> NL \<notin> set l \<and> NUL \<notin> set l) \<longrightarrow>
      fst (confirm_loop q (concat (map (\<lambda>l. l @ [NL]) ls))) =
      (case find (\<lambda>l. confirm_line (ts_trim_crlf l) \<noteq> None) ls of
         Some l \<Rightarrow> the (confirm_line (ts_trim_crlf l)) | None \<Rightarrow> False)) \<and>
    (length x = 63 \<and> NL \<notin> set x \<and> confirm_line (ts_trim_crlf x) = None \<longrightarrow>
      fst (confirm_loop q (x @ ''y'' @ [NL])) = True)"
proof (intro conjI impI; (elim conjE)?)
  show "fst (confirm_loop q (concat (map (\<lambda>l. l @ [NL]) ls))) =
      (case find (\<lambda>l. confirm_line (ts_trim_crlf l) \<noteq> None) ls of
         Some l \<Rightarrow> the (confirm_line (ts_trim_crlf l)) | None \<Rightarrow> False)"
    if "\<forall>l \<in> set ls. length l \<le> 62 \<and> NL \<notin> set l \<and> NUL \<notin> set l"
    using that
  proof (induction ls)
    case Nil
    show ?case by (subst confirm_loop.simps) simp
  next
    case (Cons l ls)
    then have f: "fgets 63 (l @ NL # concat (map (\<lambda>l. l @ [NL]) ls)) = (l @ [NL], concat (map (\<lambda>l. l @ [NL]) ls))"
      by (intro fgets_line) auto
    show ?case
    proof (cases "confirm_line (ts_trim_crlf l)")
      case None
      then show ?thesis using Cons f
        by (subst confirm_loop.simps) (simp add: trim_line case_prod_beta)
    next
      case (Some b)
      then show ?thesis using Cons.prems f by (subst confirm_loop.simps) (simp add: trim_line)
    qed
  qed
  assume x: "length x = 63" "NL \<notin> set x" "confirm_line (ts_trim_crlf x) = None"
  have f: "fgets 63 (x @ ''y'' @ [NL]) = (x, ''y'' @ [NL])" using fgets_piece[OF x(2)] x(1) by simp
  have g: "fgets 63 (''y'' @ [NL]) = (''y'' @ [NL], [])" using fgets_line[of "''y''" 63 "[]"] by simp
  have "confirm_line (ts_trim_crlf (''y'' @ [NL])) = Some True"
    by (simp add: trim_line) (simp add: ts_trim_crlf_def confirm_line_def skip_blank_def lower_def)
  then have "fst (confirm_loop q (''y'' @ [NL])) = True"
    using g by (subst confirm_loop.simps) simp
  then show "fst (confirm_loop q (x @ ''y'' @ [NL])) = True"
    using f x by (subst confirm_loop.simps) (simp add: case_prod_beta)
qed

lemma ts_confirm_answers_witness:
  "\<forall>q. fst (confirm_loop q (concat (map (\<lambda>l. l @ [NL]) [''what'', ''n'', ''y'']))) = False \<and>
   fst (confirm_loop q (replicate 63 (CHR ''x'') @ ''y'' @ [NL])) = True"
proof -
  have a: "confirm_line (ts_trim_crlf ''what'') = None" "confirm_line (ts_trim_crlf ''n'') = Some False"
    by (simp_all add: ts_trim_crlf_def confirm_line_def skip_blank_def lower_def)
  have "ts_trim_crlf (replicate 63 (CHR ''x'')) = replicate 63 (CHR ''x'')"
    by (simp add: ts_trim_crlf_def cstr_id dropWhile_replicate)
  then have "confirm_line (ts_trim_crlf (replicate 63 (CHR ''x''))) = None"
    by (simp add: confirm_line_def skip_blank_def dropWhile_replicate numeral_eq_Suc)
  moreover have "find (\<lambda>l. confirm_line (ts_trim_crlf l) \<noteq> None) [''what'', ''n'', ''y''] = Some ''n''"
    using a by (simp only: find.simps if_True if_False simp_thms option.simps)
  moreover have "\<forall>l \<in> set [''what'', ''n'', ''y'']. length l \<le> 62 \<and> NL \<notin> set l \<and> NUL \<notin> set l" by simp
  ultimately show ?thesis
    using ts_confirm_answers[of "[''what'', ''n'', ''y'']" _ "replicate 63 (CHR ''x'')"] a(2)
    by (auto simp only: option.simps length_replicate set_replicate_conv_if) simp_all
qed

end
