(* ===== verification/Ts_Timers.thy ===== *)
theory Ts_Timers
  imports Ts_Builtins "HOL-Library.Multiset"
begin

text \<open>
  The timers of \<^verbatim>\<open>runtime/src/builtins.c\<close>: \<^verbatim>\<open>setTimeout\<close>, \<^verbatim>\<open>setInterval\<close>, the two ways to clear
  them, and the polling loop that fires them. The linked list \<^verbatim>\<open>g_timers\<close> is a list with the
  newest timer first; a \<^verbatim>\<open>TsTimer *\<close> is followed by the identifier of its timer, which no two
  timers of the list share. The readings of the clock are a parameter, one for each call of
  \<^verbatim>\<open>ts_now_ms\<close>, and so is the running of a callback, which may do to the timers anything that the
  code can do, adding, clearing and polling included.
\<close>

subsection \<open>State\<close>

record timer =
  tm_id :: int
  tm_active :: bool
  tm_repeating :: bool
  tm_next_fire :: dbl
  tm_interval :: dbl
  tm_callback :: "tsvalue"
  tm_args :: "tsvalue list"

record tstate =
  g_timers :: "timer list"
  g_next_timer_id :: int
  t_reads :: nat
  t_slept :: "int list"
  t_heap :: heap

text \<open>The clock and the effect of \<^verbatim>\<open>ts_value_call\<close>.\<close>

record tenv =
  te_clock :: "nat \<Rightarrow> dbl"
  te_run :: "tsvalue \<Rightarrow> tsvalue list \<Rightarrow> tstate \<Rightarrow> tstate option"

definition ts_now_ms :: "tenv \<Rightarrow> tstate \<Rightarrow> dbl \<times> tstate" where
  "ts_now_ms env s = (te_clock env (t_reads s), s\<lparr>t_reads := Suc (t_reads s)\<rparr>)"

definition ts_sleep_ms :: "int \<Rightarrow> tstate \<Rightarrow> tstate" where
  "ts_sleep_ms ms s = (if ms > 0 then s\<lparr>t_slept := t_slept s @ [ms]\<rparr> else s)"

subsection \<open>Adding and clearing\<close>

text \<open>
  The arguments past the fourth are dropped, and a negative count is none. The arguments that
  are read must be there.
\<close>

definition timer_args :: "tsvalue list \<Rightarrow> int \<Rightarrow> tsvalue list option" where
  "timer_args args argc = (let n = (if argc > 4 then 4 else if argc < 0 then 0 else nat argc) in
     if n \<le> length args then Some (take n args) else None)"

definition timer_delay :: "dbl \<Rightarrow> dbl" where
  "timer_delay d = (if dlt d (DFin 0) \<or> d_isnan d then DFin 0 else d)"

definition ts_timer_add ::
  "tenv \<Rightarrow> tstate \<Rightarrow> tsvalue \<Rightarrow> tsvalue \<Rightarrow> tsvalue list \<Rightarrow> int \<Rightarrow> bool \<Rightarrow> (dbl \<times> tstate) option" where
  "ts_timer_add env s callback delayMs args argc repeating = do {
     d \<leftarrow> ts_to_number (t_heap s) delayMs;
     nid \<leftarrow> ck32 (g_next_timer_id s + 1);
     as \<leftarrow> timer_args args argc;
     (let delay = timer_delay d; id = g_next_timer_id s; (now, s1) = ts_now_ms env s;
          t = \<lparr>tm_id = id, tm_active = True, tm_repeating = repeating, tm_next_fire = dadd now delay,
               tm_interval = delay, tm_callback = callback, tm_args = as\<rparr>
      in Some (dint id, s1\<lparr>g_timers := t # g_timers s1, g_next_timer_id := nid\<rparr>)) }"

fun deactivate :: "int \<Rightarrow> timer list \<Rightarrow> timer list" where
  "deactivate i [] = []"
| "deactivate i (t # ts) = (if tm_id t = i then t\<lparr>tm_active := False\<rparr> # ts else t # deactivate i ts)"

definition ts_timer_clear :: "tstate \<Rightarrow> tsvalue \<Rightarrow> tstate option" where
  "ts_timer_clear s idVal = do {
     d \<leftarrow> ts_to_number (t_heap s) idVal;
     i \<leftarrow> d_to_int d;
     Some (s\<lparr>g_timers := deactivate i (g_timers s)\<rparr>) }"

definition ts_set_timeout ::
  "tenv \<Rightarrow> tstate \<Rightarrow> tsvalue \<Rightarrow> tsvalue \<Rightarrow> tsvalue list \<Rightarrow> int \<Rightarrow> (dbl \<times> tstate) option" where
  "ts_set_timeout env s callback delayMs args argc = ts_timer_add env s callback delayMs args argc False"

definition ts_set_interval ::
  "tenv \<Rightarrow> tstate \<Rightarrow> tsvalue \<Rightarrow> tsvalue \<Rightarrow> tsvalue list \<Rightarrow> int \<Rightarrow> (dbl \<times> tstate) option" where
  "ts_set_interval env s callback delayMs args argc = ts_timer_add env s callback delayMs args argc True"

definition ts_clear_timeout :: "tstate \<Rightarrow> tsvalue \<Rightarrow> tstate option" where
  "ts_clear_timeout s i = ts_timer_clear s i"

definition ts_clear_interval :: "tstate \<Rightarrow> tsvalue \<Rightarrow> tstate option" where
  "ts_clear_interval s i = ts_timer_clear s i"

definition ts_timers_pending :: "tstate \<Rightarrow> bool" where
  "ts_timers_pending s = (\<exists>t \<in> set (g_timers s). tm_active t)"

definition ts_timers_gc_inactive :: "tstate \<Rightarrow> tstate" where
  "ts_timers_gc_inactive s = s\<lparr>g_timers := filter tm_active (g_timers s)\<rparr>"

subsection \<open>Polling\<close>

definition ts_timer_call :: "tenv \<Rightarrow> timer \<Rightarrow> tstate \<Rightarrow> tstate option" where
  "ts_timer_call env t s = te_run env (tm_callback t) (tm_args t) s"

text \<open>
  Reading the timer after the callback, and the timer after it: undefined when a nested poll has
  freed it.
\<close>

fun timer_at :: "int \<Rightarrow> timer list \<Rightarrow> timer option" where
  "timer_at i [] = None"
| "timer_at i (t # ts) = (if tm_id t = i then Some t else timer_at i ts)"

fun timers_after :: "int \<Rightarrow> timer list \<Rightarrow> timer list option" where
  "timers_after i [] = None"
| "timers_after i (t # ts) = (if tm_id t = i then Some ts else timers_after i ts)"

fun set_timer :: "timer \<Rightarrow> timer list \<Rightarrow> timer list" where
  "set_timer u [] = []"
| "set_timer u (t # ts) = (if tm_id t = tm_id u then u # ts else t # set_timer u ts)"

definition timer_due :: "dbl \<Rightarrow> timer \<Rightarrow> bool" where
  "timer_due now t = dle (tm_next_fire t) (dadd now (DFin (1 / 2)))"

definition fire_timer :: "tenv \<Rightarrow> timer \<Rightarrow> tstate \<Rightarrow> tstate option" where
  "fire_timer env t s =
     (if tm_repeating t then do {
        s1 \<leftarrow> ts_timer_call env t s;
        t1 \<leftarrow> timer_at (tm_id t) (g_timers s1);
        if tm_active t1 then
          (let (now, s2) = ts_now_ms env s1 in
           Some (s2\<lparr>g_timers := set_timer (t1\<lparr>tm_next_fire := dadd now (tm_interval t1)\<rparr>) (g_timers s2)\<rparr>))
        else Some s1 }
      else ts_timer_call env t (s\<lparr>g_timers := deactivate (tm_id t) (g_timers s)\<rparr>))"

partial_function (option) poll_loop ::
  "tenv \<Rightarrow> dbl \<Rightarrow> timer list \<Rightarrow> dbl \<Rightarrow> bool \<Rightarrow> tstate \<Rightarrow> (dbl \<times> bool \<times> tstate) option" where
  "poll_loop env now ts next fired s = (case ts of
     [] \<Rightarrow> Some (next, fired, s)
   | t # r \<Rightarrow>
       if \<not> tm_active t then poll_loop env now r next fired s
       else if timer_due now t then do {
         s1 \<leftarrow> fire_timer env t s;
         r1 \<leftarrow> timers_after (tm_id t) (g_timers s1);
         poll_loop env now r1 next True s1 }
       else poll_loop env now r
              (if dlt next (DFin 0) \<or> dlt (tm_next_fire t) next then tm_next_fire t else next) fired s)"

definition poll_sleep :: "tenv \<Rightarrow> dbl \<Rightarrow> bool \<Rightarrow> tstate \<Rightarrow> tstate option" where
  "poll_sleep env next fired s =
     (if \<not> fired \<and> dlt (DFin 0) next then
        (let (now, s1) = ts_now_ms env s in do {
           ms \<leftarrow> d_to_int (dsub next now);
           Some (ts_sleep_ms (min 50 (max 1 ms)) s1) })
      else if \<not> fired then Some (ts_sleep_ms 1 s)
      else Some s)"

definition ts_timers_poll :: "tenv \<Rightarrow> tstate \<Rightarrow> (bool \<times> tstate) option" where
  "ts_timers_poll env s =
     (if \<not> ts_timers_pending s then Some (False, s)
      else (let (now, s1) = ts_now_ms env s in do {
        (next, fired, s2) \<leftarrow> poll_loop env now (g_timers s1) (DFin (- 1)) False s1;
        s3 \<leftarrow> poll_sleep env next fired s2;
        Some (fired, ts_timers_gc_inactive s3) }))"

partial_function (option) ts_timers_run :: "tenv \<Rightarrow> tstate \<Rightarrow> tstate option" where
  "ts_timers_run env s =
     (if ts_timers_pending s then do { (f, s1) \<leftarrow> ts_timers_poll env s; ts_timers_run env s1 }
      else Some (ts_timers_gc_inactive s))"


subsection \<open>Well-formed timer lists\<close>

text \<open>The newest timer comes first, so that the identifiers decrease along the list.\<close>

definition timers_wf :: "tstate \<Rightarrow> bool" where
  "timers_wf s \<longleftrightarrow> sorted_wrt (>) (map tm_id (g_timers s)) \<and> (\<forall>i \<in> set (map tm_id (g_timers s)). i < g_next_timer_id s)"

abbreviation ids :: "timer list \<Rightarrow> int list" where
  "ids ts \<equiv> map tm_id ts"

lemma timers_wf_distinct: "timers_wf s \<Longrightarrow> distinct (ids (g_timers s))"
proof -
  have "sorted_wrt (>) xs \<Longrightarrow> distinct xs" for xs :: "int list" by (induction xs) auto
  then show "timers_wf s \<Longrightarrow> distinct (ids (g_timers s))" by (simp add: timers_wf_def)
qed

lemma ids_deactivate [simp]: "ids (deactivate i ts) = ids ts"
  by (induction ts) auto

lemma ids_set_timer [simp]: "ids (set_timer u ts) = ids ts"
  by (induction ts) auto

lemma timers_wf_add:
  assumes "timers_wf s" "ts_timer_add env s cb delay args argc rep = Some (d, s')"
  shows "timers_wf s'"
  using assms
  by (auto simp: ts_timer_add_def timers_wf_def ts_now_ms_def Let_def bind_eq_Some_conv ck32_def less_imp_le split: if_splits)

lemma timers_wf_clear:
  assumes "timers_wf s" "ts_timer_clear s v = Some s'"
  shows "timers_wf s'"
proof -
  obtain i where s': "s' = s\<lparr>g_timers := deactivate i (g_timers s)\<rparr>"
    using assms(2) by (auto simp: ts_timer_clear_def bind_eq_Some_conv)
  then show ?thesis
    using assms(1) by (simp del: list.set_map add: timers_wf_def)
qed

lemma timers_wf_gc: "timers_wf s \<Longrightarrow> timers_wf (ts_timers_gc_inactive s)"
  by (auto simp: timers_wf_def ts_timers_gc_inactive_def sorted_wrt_map intro: sorted_wrt_filter)

subsection \<open>Lookup by identifier\<close>

lemma deactivate_split:
  "tm_id t \<notin> set (ids pre) \<Longrightarrow> deactivate (tm_id t) (pre @ t # post) = pre @ t\<lparr>tm_active := False\<rparr> # post"
  by (induction pre) auto

lemma set_timer_split:
  "tm_id u = tm_id t \<Longrightarrow> tm_id t \<notin> set (ids pre) \<Longrightarrow> set_timer u (pre @ t # post) = pre @ u # post"
  by (induction pre) auto

lemma timer_at_split: "tm_id t = i \<Longrightarrow> i \<notin> set (ids pre) \<Longrightarrow> timer_at i (pre @ t # post) = Some t"
  by (induction pre) auto

lemma timers_after_split: "tm_id t = i \<Longrightarrow> i \<notin> set (ids pre) \<Longrightarrow> timers_after i (pre @ t # post) = Some post"
  by (induction pre) auto

lemma timers_after_None: "timers_after i ts = None \<longleftrightarrow> i \<notin> set (ids ts)"
  by (induction ts) auto

lemma deactivate_fires:
  assumes "distinct (ids ts)"
  shows "filter (\<lambda>t. tm_active t \<and> P t) (deactivate i ts) = filter (\<lambda>t. tm_id t \<noteq> i \<and> tm_active t \<and> P t) ts"
  using assms by (induction ts) (auto intro!: filter_cong simp: image_iff)

subsection \<open>Callbacks that leave the timers alone\<close>

text \<open>Callbacks whose effect is on the store only, given by \<open>eff\<close>.\<close>

definition quiet :: "(nat \<Rightarrow> dbl) \<Rightarrow> (tsvalue \<Rightarrow> tsvalue list \<Rightarrow> heap \<Rightarrow> heap) \<Rightarrow> tenv" where
  "quiet clock eff = \<lparr>te_clock = clock, te_run = \<lambda>cb args s. Some (s\<lparr>t_heap := eff cb args (t_heap s)\<rparr>)\<rparr>"

definition to_fire :: "dbl \<Rightarrow> timer list \<Rightarrow> timer list" where
  "to_fire now ts = filter (\<lambda>t. tm_active t \<and> timer_due now t) ts"

text \<open>Running the callbacks of some timers, from the first of the list to the last.\<close>

definition run_all :: "(tsvalue \<Rightarrow> tsvalue list \<Rightarrow> heap \<Rightarrow> heap) \<Rightarrow> timer list \<Rightarrow> heap \<Rightarrow> heap" where
  "run_all eff ts h = fold (\<lambda>t. eff (tm_callback t) (tm_args t)) ts h"

text \<open>
  What is left of the timers: those not due, and the due intervals, each put off by its interval
  from the reading of the clock that follows its callback.
\<close>

fun remaining :: "(nat \<Rightarrow> dbl) \<Rightarrow> dbl \<Rightarrow> nat \<Rightarrow> timer list \<Rightarrow> timer list" where
  "remaining clock now n [] = []"
| "remaining clock now n (t # ts) =
     (if \<not> tm_active t then remaining clock now n ts
      else if \<not> timer_due now t then t # remaining clock now n ts
      else if tm_repeating t then t\<lparr>tm_next_fire := dadd (clock n) (tm_interval t)\<rparr> # remaining clock now (Suc n) ts
      else remaining clock now n ts)"

lemma ts_timer_call_quiet [simp]:
  "ts_timer_call (quiet clock eff) t s = Some (s\<lparr>t_heap := eff (tm_callback t) (tm_args t) (t_heap s)\<rparr>)"
  by (simp add: ts_timer_call_def quiet_def)

lemma ts_now_quiet [simp]: "ts_now_ms (quiet clock eff) s = (clock (t_reads s), s\<lparr>t_reads := Suc (t_reads s)\<rparr>)"
  by (simp add: ts_now_ms_def quiet_def)

lemma fire_timer_quiet:
  assumes "g_timers s = pre @ t # post" "tm_id t \<notin> set (ids pre)" "tm_active t"
  shows "fire_timer (quiet clock eff) t s = Some
    (if tm_repeating t
     then s\<lparr>g_timers := pre @ t\<lparr>tm_next_fire := dadd (clock (t_reads s)) (tm_interval t)\<rparr> # post,
            t_reads := Suc (t_reads s), t_heap := eff (tm_callback t) (tm_args t) (t_heap s)\<rparr>
     else s\<lparr>g_timers := pre @ t\<lparr>tm_active := False\<rparr> # post,
            t_heap := eff (tm_callback t) (tm_args t) (t_heap s)\<rparr>)"
  using assms by (simp add: fire_timer_def timer_at_split deactivate_split set_timer_split)

lemmas poll_loop_Nil = poll_loop.simps[of _ _ "[]", simplified]
lemmas poll_loop_Cons = poll_loop.simps[of _ _ "t # r" for t r, simplified]

lemma poll_loop_quiet:
  assumes "g_timers s = pre @ ts" "distinct (ids (pre @ ts))"
  shows "\<exists>next' s'. poll_loop (quiet clock eff) now ts next fired s = Some (next', fired \<or> to_fire now ts \<noteq> [], s') \<and>
    next' \<in> insert next (tm_next_fire ` set ts) \<and>
    filter tm_active (g_timers s') = filter tm_active pre @ remaining clock now (t_reads s) ts \<and>
    t_heap s' = run_all eff (to_fire now ts) (t_heap s) \<and> t_reads s \<le> t_reads s' \<and>
    g_next_timer_id s' = g_next_timer_id s \<and> t_slept s' = t_slept s"
  using assms
proof (induction ts arbitrary: pre s "next" fired)
  case Nil
  then show ?case by (simp add: poll_loop_Nil to_fire_def run_all_def)
next
  case (Cons t ts)
  let ?env = "quiet clock eff"
  show ?case
  proof (cases "tm_active t \<and> timer_due now t")
    case True
    let ?t = "if tm_repeating t then t\<lparr>tm_next_fire := dadd (clock (t_reads s)) (tm_interval t)\<rparr> else t\<lparr>tm_active := False\<rparr>"
    define s1 where "s1 = the (fire_timer ?env t s)"
    have s1: "fire_timer ?env t s = Some s1" "g_timers s1 = pre @ ?t # ts"
      "t_heap s1 = eff (tm_callback t) (tm_args t) (t_heap s)" "g_next_timer_id s1 = g_next_timer_id s" "t_slept s1 = t_slept s"
      "t_reads s1 = (if tm_repeating t then Suc (t_reads s) else t_reads s)"
      using fire_timer_quiet[OF Cons.prems(1), of clock eff] Cons.prems(2) True by (simp_all add: s1_def)
    have "timers_after (tm_id t) (g_timers s1) = Some ts"
      using Cons.prems(2) s1(2) by (auto intro!: timers_after_split)
    moreover have "g_timers s1 = (pre @ [?t]) @ ts" "distinct (ids ((pre @ [?t]) @ ts))"
      using Cons.prems(2) s1(2) by auto
    ultimately show ?thesis
      using Cons.IH[of s1 "pre @ [?t]" "next" True] s1 True
      by (cases "tm_repeating t") (auto simp: poll_loop_Cons to_fire_def run_all_def)
  next
    case False
    have "g_timers s = (pre @ [t]) @ ts" "distinct (ids ((pre @ [t]) @ ts))" using Cons.prems by auto
    note IH = Cons.IH[OF this]
    show ?thesis
    proof (cases "tm_active t")
      case act: True
      let ?n = "if dlt next (DFin 0) \<or> dlt (tm_next_fire t) next then tm_next_fire t else next"
      show ?thesis using IH[of ?n fired] act False by (auto simp: poll_loop_Cons to_fire_def)
    next
      case act: False
      show ?thesis using IH[of "next" fired] act by (auto simp: poll_loop_Cons to_fire_def)
    qed
  qed
qed


lemma run_all_append: "run_all eff (xs @ ys) h = run_all eff ys (run_all eff xs h)"
  by (simp add: run_all_def)

lemma poll_quiet:
  assumes "distinct (ids (g_timers s))" "ts_timers_pending s"
  shows "\<exists>next' s'. poll_loop (quiet clock eff) (clock (t_reads s)) (g_timers s) (DFin (- 1)) False
        (s\<lparr>t_reads := Suc (t_reads s)\<rparr>) = Some (next', to_fire (clock (t_reads s)) (g_timers s) \<noteq> [], s') \<and>
    next' \<in> insert (DFin (- 1)) (tm_next_fire ` set (g_timers s)) \<and>
    filter tm_active (g_timers s') = remaining clock (clock (t_reads s)) (Suc (t_reads s)) (g_timers s) \<and>
    t_heap s' = run_all eff (to_fire (clock (t_reads s)) (g_timers s)) (t_heap s) \<and> Suc (t_reads s) \<le> t_reads s' \<and>
    g_next_timer_id s' = g_next_timer_id s \<and> t_slept s' = t_slept s"
  using poll_loop_quiet[of "s\<lparr>t_reads := Suc (t_reads s)\<rparr>" "[]" "g_timers s" clock eff "clock (t_reads s)" "DFin (- 1)" False] assms
  by simp

text \<open>C5. When the callbacks leave the timers alone, that is set none, clear none and do not poll
  (they may do anything to the heap), a poll that finds a timer due at the reading it starts with fires
  the timers due then, each once, the last added first whatever the times they were due at. The one-shot
  timers among them and the cleared ones are removed, the intervals put off, the others kept.\<close>

theorem ts_timers_poll_exact:
  assumes "timers_wf s" "to_fire (clock (t_reads s)) (g_timers s) \<noteq> []"
  shows "\<exists>s'. ts_timers_poll (quiet clock eff) s = Some (True, s') \<and>
    t_heap s' = run_all eff (to_fire (clock (t_reads s)) (g_timers s)) (t_heap s) \<and>
    g_timers s' = remaining clock (clock (t_reads s)) (Suc (t_reads s)) (g_timers s) \<and>
    t_slept s' = t_slept s \<and> g_next_timer_id s' = g_next_timer_id s"
proof -
  have "ts_timers_pending s"
    using assms(2) by (auto simp: to_fire_def ts_timers_pending_def filter_empty_conv)
  from poll_quiet[OF timers_wf_distinct[OF assms(1)] this, of clock eff] this assms(2) show ?thesis
    by (auto simp: ts_timers_poll_def poll_sleep_def ts_timers_gc_inactive_def)
qed

subsection \<open>Running until no timer is left\<close>

lemma remaining_one_shot:
  "\<forall>t \<in> set ts. \<not> tm_repeating t \<Longrightarrow>
   remaining clock now n ts = filter (\<lambda>t. tm_active t \<and> \<not> timer_due now t) ts"
  by (induction ts arbitrary: n) auto

lemma fired_and_remaining:
  "mset (to_fire now ts) + mset (filter (\<lambda>t. tm_active t \<and> \<not> timer_due now t) ts) = mset (filter tm_active ts)"
  by (induction ts) (auto simp: to_fire_def)

lemma distinct_ids_filter: "distinct (ids ts) \<Longrightarrow> distinct (ids (filter P ts))"
  by (induction ts) auto

lemma poll_one_shot:
  assumes "distinct (ids (g_timers s))" "ts_timers_pending s" "\<forall>t \<in> set (g_timers s). \<not> tm_repeating t"
    and conv: "\<And>t n. t \<in> set (g_timers s) \<Longrightarrow> d_to_int (dsub (tm_next_fire t) (clock n)) \<noteq> None"
  shows "\<exists>f s'. ts_timers_poll (quiet clock eff) s = Some (f, s') \<and> t_reads s < t_reads s' \<and>
    g_timers s' = filter (\<lambda>t. tm_active t \<and> \<not> timer_due (clock (t_reads s)) t) (g_timers s) \<and>
    t_heap s' = run_all eff (to_fire (clock (t_reads s)) (g_timers s)) (t_heap s)"
proof -
  obtain next' s2 where p: "poll_loop (quiet clock eff) (clock (t_reads s)) (g_timers s) (DFin (- 1)) False
        (s\<lparr>t_reads := Suc (t_reads s)\<rparr>) = Some (next', to_fire (clock (t_reads s)) (g_timers s) \<noteq> [], s2)"
    "next' \<in> insert (DFin (- 1)) (tm_next_fire ` set (g_timers s))"
    "filter tm_active (g_timers s2) = filter (\<lambda>t. tm_active t \<and> \<not> timer_due (clock (t_reads s)) t) (g_timers s)"
    "t_heap s2 = run_all eff (to_fire (clock (t_reads s)) (g_timers s)) (t_heap s)" "Suc (t_reads s) \<le> t_reads s2"
    using poll_quiet[OF assms(1,2), of clock eff] remaining_one_shot[OF assms(3)] by auto
  let ?f = "to_fire (clock (t_reads s)) (g_timers s) \<noteq> []"
  have "\<exists>s3. poll_sleep (quiet clock eff) next' ?f s2 = Some s3 \<and> g_timers s3 = g_timers s2 \<and>
      t_heap s3 = t_heap s2 \<and> t_reads s2 \<le> t_reads s3"
  proof (cases "\<not> ?f \<and> dlt (DFin 0) next'")
    case True
    then have "next' \<noteq> DFin (- 1)" by (auto simp: dlt_def)
    then have "d_to_int (dsub next' (clock (t_reads s2))) \<noteq> None" using p(2) conv by auto
    then show ?thesis using True by (auto simp: poll_sleep_def ts_sleep_ms_def)
  qed (auto simp: poll_sleep_def ts_sleep_ms_def)
  then obtain s3 where "poll_sleep (quiet clock eff) next' ?f s2 = Some s3" "g_timers s3 = g_timers s2"
    "t_heap s3 = t_heap s2" "t_reads s2 \<le> t_reads s3" by blast
  with p assms(2) have "ts_timers_poll (quiet clock eff) s = Some (?f, ts_timers_gc_inactive s3)"
    by (simp add: ts_timers_poll_def)
  with p \<open>g_timers s3 = g_timers s2\<close> \<open>t_heap s3 = t_heap s2\<close> \<open>t_reads s2 \<le> t_reads s3\<close> show ?thesis
    by (intro exI[of _ ?f] exI[of _ "ts_timers_gc_inactive s3"]) (simp add: ts_timers_gc_inactive_def)
qed


subsection \<open>A callback that polls\<close>

lemma poll_skips:
  assumes "to_fire now pre = []"
  shows "\<exists>next'. poll_loop env now (pre @ ts) next fired s = poll_loop env now ts next' fired s"
  using assms
proof (induction pre arbitrary: "next")
  case (Cons t pre)
  then show ?case by (auto simp: to_fire_def poll_loop_Cons split: if_splits)
qed auto

lemma ids_remaining: "set (ids (remaining clock now n ts)) \<subseteq> tm_id ` {t \<in> set ts. tm_active t}"
proof (induction ts arbitrary: n)
  case (Cons t ts)
  show ?case using Cons[of n] Cons[of "Suc n"] by auto
qed simp

lemma poll_quiet_drops:
  assumes "distinct (ids (g_timers s))" "ts_timers_pending s" "ts_timers_poll (quiet clock eff) s = Some (f, s')"
  shows "set (ids (g_timers s')) \<subseteq> tm_id ` {t \<in> set (g_timers s). tm_active t}"
proof -
  have "g_timers s3 = g_timers s2" if "poll_sleep (quiet clock eff) nx g s2 = Some s3" for nx g s2 s3
    using that by (auto simp: poll_sleep_def ts_sleep_ms_def bind_eq_Some_conv split: if_splits)
  then have "g_timers s' = remaining clock (clock (t_reads s)) (Suc (t_reads s)) (g_timers s)"
    using poll_quiet[OF assms(1,2), of clock eff] assms(2,3)
    by (fastforce simp: ts_timers_poll_def ts_timers_gc_inactive_def bind_eq_Some_conv)
  then show ?thesis using ids_remaining by simp
qed

text \<open>When the callback of a one-shot timer polls, as it does to await a promise, and another
  timer is pending, the inner poll frees the timer that is firing, and the outer one goes on to
  read it: the outer poll is undefined.\<close>

theorem ts_timers_nested_poll:
  assumes "timers_wf s" "g_timers s = pre @ t # post" "to_fire (te_clock env (t_reads s)) pre = []"
    and "tm_active t" "\<not> tm_repeating t" "timer_due (te_clock env (t_reads s)) t"
    and "te_run env (tm_callback t) (tm_args t) = (\<lambda>s. map_option snd (ts_timers_poll (quiet clock eff) s))"
    and "u \<in> set (pre @ post)" "tm_active u"
  shows "ts_timers_poll env s = None"
proof -
  let ?s1 = "s\<lparr>t_reads := Suc (t_reads s)\<rparr>" and ?now = "te_clock env (t_reads s)"
  let ?s2 = "?s1\<lparr>g_timers := pre @ t\<lparr>tm_active := False\<rparr> # post\<rparr>"
  have d: "distinct (ids (pre @ t # post))" using timers_wf_distinct[OF assms(1)] assms(2) by simp
  have "deactivate (tm_id t) (g_timers ?s1) = pre @ t\<lparr>tm_active := False\<rparr> # post"
    using deactivate_split[of t pre post] d assms(2) by auto
  then have fire: "fire_timer env t ?s1 = map_option snd (ts_timers_poll (quiet clock eff) ?s2)"
    using assms(5,7) by (simp add: fire_timer_def ts_timer_call_def)
  have pend: "ts_timers_pending ?s2" using assms(8,9) by (auto simp: ts_timers_pending_def)
  have gone: "tm_id t \<notin> set (ids (g_timers s3))" if "ts_timers_poll (quiet clock eff) ?s2 = Some (f, s3)" for f s3
  proof -
    have "distinct (ids (g_timers ?s2))" using d by simp
    moreover have "tm_id t \<noteq> tm_id x" if "x \<in> set (g_timers ?s2)" "tm_active x" for x
    proof
      assume e: "tm_id t = tm_id x"
      have "x \<in> set pre \<union> set post"
        using that by auto
      then have "tm_id x \<in> set (ids pre) \<union> set (ids post)" by auto
      moreover have "tm_id t \<notin> set (ids pre) \<union> set (ids post)" using d by auto
      ultimately show False unfolding e by blast
    qed
    then have "tm_id t \<notin> tm_id ` {x \<in> set (g_timers ?s2). tm_active x}" by blast
    ultimately show ?thesis using poll_quiet_drops[OF _ pend that] by blast
  qed
  obtain nx where skip: "poll_loop env ?now (pre @ t # post) (DFin (- 1)) False ?s1 = poll_loop env ?now (t # post) nx False ?s1"
    using poll_skips[OF assms(3)] by blast
  have "poll_loop env ?now (t # post) nx False ?s1 = None"
    using fire gone assms(4,6)
    by (cases "ts_timers_poll (quiet clock eff) ?s2") (auto simp: poll_loop_Cons bind_eq_None_conv timers_after_None)
  moreover have "ts_timers_pending s" using assms(2,4) by (simp add: ts_timers_pending_def)
  ultimately show ?thesis
    using skip assms(2) by (simp add: ts_timers_poll_def ts_now_ms_def)
qed


subsection \<open>Times in whole milliseconds\<close>

lemma rnd_half:
  assumes "0 < n" "n < 2 ^ 52"
  shows "rnd (of_nat n + 1 / 2) = DFin (of_nat n + 1 / 2)"
proof -
  let ?a = "of_nat n + 1 / 2 :: rat"
  have l: "ndig 2 n \<le> 52" using assms by (intro ndig_le) auto
  have "\<lfloor>?a\<rfloor> = int n" by (intro floor_unique) auto
  then have f: "flog 2 ?a = int (ndig 2 n) - 1" using assms by (simp add: flog_def)
  define q where "q = max (flog 2 ?a - 52) (- 1074)"
  have q: "q \<le> - 1" using l f by (simp add: q_def)
  then obtain k where k: "nat (- q) = Suc k" by (cases "nat (- q)") auto
  have p: "rpow 2 q = 1 / 2 ^ Suc k" using q k by (simp add: rpow_neg)
  have "?a / rpow 2 q = of_int ((2 * int n + 1) * 2 ^ k)" by (simp add: p field_simps)
  then have v: "of_int (rhe (?a / rpow 2 q)) * rpow 2 q = ?a"
    by (simp only: rhe_of_int) (simp add: p field_simps)
  have "(of_nat n :: rat) + 1 \<le> of_nat (2 ^ 52)" using assms(2) by (metis Suc_leI of_nat_Suc of_nat_le_iff add.commute)
  also have "(of_nat (2 ^ 52) :: rat) \<le> 2 ^ 1024" unfolding of_nat_power of_nat_numeral by (rule power_increasing) simp_all
  finally have big: "\<not> rpow 2 1024 \<le> ?a" by (simp add: rpow_def)
  have pos: "0 < ?a" "?a \<noteq> 0" using assms by (simp_all add: add_nonneg_eq_0_iff)
  show ?thesis
    unfolding rnd_def Let_def abs_of_pos[OF pos(1)] q_def[symmetric] v using big pos by simp
qed

lemma timer_due_int:
  assumes "tm_next_fire t = dint m" "0 < now" "now < 2 ^ 52"
  shows "timer_due (dint now) t \<longleftrightarrow> m \<le> now"
proof -
  have "rnd (of_int now + 1 / 2) = DFin (of_int now + 1 / 2)"
    using rnd_half[of "nat now"] assms(2,3) by (simp add: nat_less_iff)
  moreover have "((of_int m :: rat) \<le> of_int now + 1 / 2) \<longleftrightarrow> m \<le> now"
  proof -
    have "((of_int m :: rat) \<le> of_int now + 1 / 2) \<longleftrightarrow> of_int (2 * m) \<le> (of_int (2 * now + 1) :: rat)"
      by (simp add: field_simps)
    also have "\<dots> \<longleftrightarrow> m \<le> now" unfolding of_int_le_iff by presburger
    finally show ?thesis .
  qed
  ultimately show ?thesis using assms(1) by (simp add: timer_due_def dadd_def)
qed

subsection \<open>Concrete instances\<close>

definition demo_timer :: "int \<Rightarrow> bool \<Rightarrow> timer" where
  "demo_timer i rep = \<lparr>tm_id = i, tm_active = True, tm_repeating = rep, tm_next_fire = DFin (of_int (10 * i)),
     tm_interval = DFin 5, tm_callback = VFunction (nat i), tm_args = []\<rparr>"

definition demo_timers :: "bool \<Rightarrow> tstate" where
  "demo_timers rep = \<lparr>g_timers = [demo_timer 3 False, demo_timer 2 rep, demo_timer 1 False],
     g_next_timer_id = 4, t_reads = 0, t_slept = [], t_heap = empty_heap\<rparr>"

text \<open>An effect that can be read off the store: a fresh string for each callback.\<close>

definition demo_eff :: "tsvalue \<Rightarrow> tsvalue list \<Rightarrow> heap \<Rightarrow> heap" where
  "demo_eff v args h = snd (new_str h (case v of VFunction n \<Rightarrow> replicate n (CHR ''x'') | _ \<Rightarrow> []))"

abbreviation at_20 :: "nat \<Rightarrow> dbl" where
  "at_20 \<equiv> \<lambda>n. DFin 20"

lemma demo_timers_wf: "timers_wf (demo_timers rep)"
  by (simp add: timers_wf_def demo_timers_def demo_timer_def)

lemma rnd_25: "rnd 25 = DFin 25"
  using rnd_of_int[of 25] by simp

lemma demo_due: "timer_due (DFin 20) (demo_timer i rep) \<longleftrightarrow> i \<le> 2"
  using timer_due_int[of "demo_timer i rep" "10 * i" 20] by (auto simp: demo_timer_def)

lemma demo_timer_fields [simp]: "tm_active (demo_timer i rep)" "tm_repeating (demo_timer i rep) = rep"
  "tm_callback (demo_timer i rep) = VFunction (nat i)" "tm_args (demo_timer i rep) = []" "tm_id (demo_timer i rep) = i"
  by (simp_all add: demo_timer_def)

lemma ts_timers_poll_exact_witness:
  "\<exists>s'. ts_timers_poll (quiet at_20 demo_eff) (demo_timers True) = Some (True, s') \<and>
    g_timers s' = [demo_timer 3 False, (demo_timer 2 True)\<lparr>tm_next_fire := DFin 25\<rparr>] \<and>
    str_data (t_heap s') 1 = Some ''xx'' \<and> str_data (t_heap s') 2 = Some ''x''"
proof -
  have "to_fire (DFin 20) (g_timers (demo_timers True)) = [demo_timer 2 True, demo_timer 1 False]"
    by (simp add: to_fire_def demo_timers_def demo_due)
  moreover have "tm_interval (demo_timer 2 True) = DFin 5" by (simp add: demo_timer_def)
  then have "remaining at_20 (DFin 20) 1 (g_timers (demo_timers True)) =
      [demo_timer 3 False, (demo_timer 2 True)\<lparr>tm_next_fire := DFin 25\<rparr>]"
    by (simp add: demo_timers_def demo_due dadd_def rnd_25)
  ultimately show ?thesis
    using ts_timers_poll_exact[OF demo_timers_wf, of at_20 True demo_eff]
    by (auto simp: run_all_def demo_eff_def demo_timers_def str_data_def new_str_def empty_heap_def numeral_eq_Suc)
qed


lemma ts_timers_nested_poll_witness:
  "ts_timers_poll \<lparr>te_clock = at_20, te_run = \<lambda>f args s. map_option snd (ts_timers_poll (quiet at_20 demo_eff) s)\<rparr>
     (demo_timers False) = None"
  using ts_timers_nested_poll[OF demo_timers_wf, of False "[demo_timer 3 False]" "demo_timer 2 False" "[demo_timer 1 False]"
      "\<lparr>te_clock = at_20, te_run = \<lambda>f args s. map_option snd (ts_timers_poll (quiet at_20 demo_eff) s)\<rparr>" at_20 demo_eff "demo_timer 1 False"]
  by (simp add: demo_timers_def to_fire_def demo_due)

end
