(* ===== verification/Ts_Objmap.thy ===== *)
theory Ts_Objmap
  imports Ts_Coerce
begin

text \<open>
  What the modules written over plain objects share: reading and writing a hash map that lives in
  the store, the text of a value as a C function sees it, and the strings it returns.
\<close>

subsection \<open>Objects\<close>

definition map_get :: "heap \<Rightarrow> addr \<Rightarrow> string \<Rightarrow> tsvalue option" where
  "map_get h p k = do { m \<leftarrow> get_map h p; ts_hashmap_get m k }"

definition map_set :: "heap \<Rightarrow> addr \<Rightarrow> string \<Rightarrow> tsvalue \<Rightarrow> heap option" where
  "map_set h p k v = do {
     m \<leftarrow> get_map h p;
     m' \<leftarrow> ts_hashmap_set m k v;
     Some (put_obj h p (OMap m')) }"

definition new_map :: "heap \<Rightarrow> addr \<times> heap" where
  "new_map h = new_obj h (OMap ts_hashmap_new)"

text \<open>The object at \<open>p\<close> holds exactly the properties \<open>f\<close>.\<close>

definition map_at :: "heap \<Rightarrow> addr \<Rightarrow> (string \<rightharpoonup> tsvalue) \<Rightarrow> bool" where
  "map_at h p f \<longleftrightarrow> (\<exists>m. objs h p = Some (OMap m) \<and> hm_inv m \<and> hm_lookup m = f)"

definition prop_of :: "(string \<rightharpoonup> tsvalue) \<Rightarrow> string \<Rightarrow> tsvalue" where
  "prop_of f k = (case f k of Some v \<Rightarrow> v | None \<Rightarrow> ts_value_undefined)"

lemma prop_of_upd [simp]: "prop_of (f(k \<mapsto> v)) j = (if j = k then v else prop_of f j)"
  "prop_of Map.empty j = VNull"
  by (simp_all add: prop_of_def ts_value_undefined_def)

lemma map_get_at: "map_at h p f \<Longrightarrow> map_get h p k = Some (prop_of f k)"
  by (auto simp: map_at_def map_get_def get_map_def ts_hashmap_get_def hm_find_ok hm_inv_ok prop_of_def)

lemma map_set_at:
  assumes "map_at h p f" "card (dom f) < HM_LIMIT"
  shows "\<exists>x. map_set h p k v = Some (put_obj h p x) \<and> map_at (put_obj h p x) p (f(k \<mapsto> v))"
proof -
  obtain m where m: "objs h p = Some (OMap m)" "hm_inv m" "hm_lookup m = f"
    using assms(1) by (auto simp: map_at_def)
  obtain m' where "ts_hashmap_set m k v = Some m'" "hm_inv m'" "hm_lookup m' = f(k \<mapsto> v)"
    using hm_set_ok[OF m(2), of k v] m(3) assms(2) by auto
  with m show ?thesis by (auto simp: map_set_def get_map_def map_at_def heap_simps)
qed

lemma map_at_new: "map_at (snd (new_map h)) (nxt h) Map.empty" "fst (new_map h) = nxt h"
  by (simp_all add: map_at_def new_map_def heap_simps)

text \<open>A run of assignments to one object.\<close>

lemma map_sets_at:
  assumes "map_at h p f" "card (dom f) + length kvs \<le> HM_LIMIT"
  shows "\<exists>x. foldo (\<lambda>h (k, v). map_set h p k v) h kvs = Some (put_obj h p x) \<and>
    map_at (put_obj h p x) p (f ++ map_of (rev kvs))"
  using assms
proof (induction kvs arbitrary: h f)
  case Nil
  then obtain m where "objs h p = Some (OMap m)" by (auto simp: map_at_def)
  with Nil show ?case by (intro exI[of _ "OMap m"]) (simp add: heap_simps)
next
  case (Cons kv kvs)
  obtain k v where kv: "kv = (k, v)" by (cases kv)
  from Cons.prems map_set_at[of h p f k v] obtain x where x: "map_set h p k v = Some (put_obj h p x)"
    "map_at (put_obj h p x) p (f(k \<mapsto> v))" by auto
  have "finite (dom f)" using Cons.prems(1) by (auto simp: map_at_def hm_lookup_def finite_dom_map_of)
  then have "card (dom (f(k \<mapsto> v))) + length kvs \<le> HM_LIMIT"
    using Cons.prems(2) by (simp add: card_insert_if)
  from Cons.IH[OF x(2) this] obtain y where
    "foldo (\<lambda>h (k, v). map_set h p k v) (put_obj h p x) kvs = Some (put_obj h p y)"
    "map_at (put_obj h p y) p (f(k \<mapsto> v) ++ map_of (rev kvs))" unfolding put_put by blast
  moreover have "f(k \<mapsto> v) ++ map_of (rev kvs) = f ++ map_of (rev (kv # kvs))"
    by (simp add: kv map_add_def fun_eq_iff split: option.split)
  moreover have "foldo (\<lambda>h (k, v). map_set h p k v) h (kv # kvs) =
      foldo (\<lambda>h (k, v). map_set h p k v) (put_obj h p x) kvs" by (simp add: kv x(1))
  ultimately show ?case by (metis (no_types, lifting))
qed

lemma map_at_other:
  "p \<noteq> q \<Longrightarrow> map_at (put_obj h q x) p f = map_at h p f"
  "map_at (put_arr h q a) p f = map_at h p f"
  "map_at (put_str h q s) p f = map_at h p f"
  by (simp_all add: map_at_def heap_simps)

lemma map_at_ext: "heap_ext h h' \<Longrightarrow> map_at h p f \<Longrightarrow> map_at h' p f"
  by (auto simp: map_at_def heap_ext_def map_le_def dom_def)

subsection \<open>Text\<close>

text \<open>
  The string \<^verbatim>\<open>ts_to_string\<close> gives; \<open>None\<close> in the result is a NULL pointer. The second reads the
  string without a check.
\<close>

definition text_or_null :: "heap \<Rightarrow> tsvalue \<Rightarrow> (string option \<times> heap) option" where
  "text_or_null h v = do {
     (p, h1) \<leftarrow> ts_to_string h v;
     if p = 0 then Some (None, h1) else do { s \<leftarrow> str_data h1 p; Some (Some s, h1) } }"

definition text_of :: "heap \<Rightarrow> tsvalue \<Rightarrow> (string \<times> heap) option" where
  "text_of h v = do {
     (r, h1) \<leftarrow> text_or_null h v;
     case r of None \<Rightarrow> None | Some s \<Rightarrow> Some (s, h1) }"

definition new_text :: "heap \<Rightarrow> string \<Rightarrow> (tsvalue \<times> heap) option" where
  "new_text h s = do { (p, h1) \<leftarrow> ts_string_new h s; Some (VString p, h1) }"

lemma text_or_null_string: "str_at h p s \<Longrightarrow> text_or_null h (VString p) = Some (Some s, h)"
  by (simp add: text_or_null_def ts_to_string.simps[of h "VString p"] str_at_nonnull)

lemma text_of_string: "str_at h p s \<Longrightarrow> text_of h (VString p) = Some (s, h)"
  by (simp add: text_of_def text_or_null_string)

lemma new_text_eq:
  "NUL \<notin> set s \<Longrightarrow> int (length s) \<le> int32_max \<Longrightarrow> new_text h s = Some (VString (nxt h), snd (new_str h s))"
  by (simp add: new_text_def ts_string_new_eq) (simp add: new_str_def)

lemma cstr_append: "NUL \<notin> set a \<Longrightarrow> cstr (a @ b) = a @ cstr b"
  by (induction a) auto

lemma snprintf_id: "NUL \<notin> set s \<Longrightarrow> length s < n \<Longrightarrow> snprintf n s = s"
  by (simp add: snprintf_def cstr_id)

lemma NUL_snprintf [simp]: "NUL \<notin> set (snprintf n s)"
  by (auto simp: snprintf_def dest: in_set_takeD)

lemma cstr_snprintf [simp]: "cstr (snprintf n s) = snprintf n s"
  by (simp add: cstr_id)


subsection \<open>Steps\<close>

text \<open>What an assignment and a new string leave as it was.\<close>

lemma map_set_step:
  assumes "map_at h p f" "heap_ok h" "card (dom f) < HM_LIMIT"
  shows "\<exists>h'. map_set h p k v = Some h' \<and> map_at h' p (f(k \<mapsto> v)) \<and> heap_ok h' \<and> strs h' = strs h \<and>
    arrs h' = arrs h \<and> nxt h' = nxt h \<and> (\<forall>q. q \<noteq> p \<longrightarrow> objs h' q = objs h q)"
proof -
  obtain x where "map_set h p k v = Some (put_obj h p x)" "map_at (put_obj h p x) p (f(k \<mapsto> v))"
    using map_set_at[OF assms(1,3)] by blast
  moreover have "objs h p \<noteq> None" using assms(1) by (auto simp: map_at_def)
  ultimately show ?thesis using assms(2) by (auto simp: heap_simps)
qed

lemma new_text_step:
  assumes "NUL \<notin> set s" "length s \<le> 5000" "heap_ok h"
  shows "\<exists>q h'. new_text h s = Some (VString q, h') \<and> heap_ok h' \<and> str_at h' q s \<and>
    heap_ext h h' \<and> objs h' = objs h \<and> arrs h' = arrs h"
  using assms by (auto simp: int32_max_def heap_simps heap_ext_new new_text_eq)

lemma map_at_cong: "objs h' p = objs h p \<Longrightarrow> map_at h' p f = map_at h p f"
  by (simp add: map_at_def)

lemma str_at_cong: "strs h' = strs h \<Longrightarrow> str_at h' p s = str_at h p s"
  by (simp add: str_at_def)


subsection \<open>Loops over an array\<close>

text \<open>A loop that reads the elements by index is a loop over the elements.\<close>

lemma foldo_index:
  assumes "\<And>s i. I s \<Longrightarrow> i < length vs \<Longrightarrow> F s (int i) = G s (vs ! i)"
    and "\<And>s x s'. I s \<Longrightarrow> G s x = Some s' \<Longrightarrow> I s'" and "I s"
  shows "foldo F s [0..int (length vs) - 1] = foldo G s vs"
proof -
  have "foldo F s [0..int k - 1] = foldo G s (take k vs) \<and> (\<forall>t. foldo G s (take k vs) = Some t \<longrightarrow> I t)"
    if "k \<le> length vs" for k
    using that
  proof (induction k)
    case 0
    then show ?case using assms(3) by simp
  next
    case (Suc k)
    have u: "[0..int (Suc k) - 1] = [0..int k - 1] @ [int k]" using upto_rec2[of 0 "int k"] by simp
    have t: "take (Suc k) vs = take k vs @ [vs ! k]" using Suc.prems by (simp add: take_Suc_conv_app_nth)
    show ?case
    proof (cases "foldo G s (take k vs)")
      case None
      then show ?thesis using Suc unfolding u t by (simp add: foldo_append)
    next
      case (Some r)
      then have "I r" "foldo F s [0..int k - 1] = Some r" using Suc by simp_all
      moreover have "F r (int k) = G r (vs ! k)" using assms(1)[OF \<open>I r\<close>] Suc.prems by simp
      ultimately show ?thesis using Some assms(2) unfolding u t by (auto simp: foldo_append bind_eq_Some_conv)
    qed
  qed
  from this[of "length vs"] show ?thesis by simp
qed

lemma foldo_push_at:
  assumes "arrs h p = Some b" "arr_ok b" "length (arr_vals b) + length vs \<le> ARR_LIMIT"
  shows "\<exists>b'. foldo (\<lambda>h v. arr_push_at h p v) h vs = Some (put_arr h p b') \<and> arr_ok b' \<and> arr_vals b' = arr_vals b @ vs"
  using assms
proof (induction vs arbitrary: h b)
  case Nil
  then show ?case by (intro exI[of _ b]) (simp add: heap_simps)
next
  case (Cons v vs)
  from Cons.prems obtain c where c: "arr_push_at h p v = Some (put_arr h p c)" "arr_ok c" "arr_vals c = arr_vals b @ [v]"
    using arr_push_at_ok[of h p b v] by auto
  from Cons.IH[of "put_arr h p c" c] Cons.prems c obtain d where
    "foldo (\<lambda>h v. arr_push_at h p v) (put_arr h p c) vs = Some (put_arr h p d)" "arr_ok d" "arr_vals d = arr_vals c @ vs"
    by (auto simp: heap_simps)
  then show ?case using c by auto
qed

end
