(* ===== verification/Ts_Path.thy ===== *)
theory Ts_Path
  imports Ts_Objmap
begin

text \<open>
  \<^verbatim>\<open>runtime/src/builtins/node_path.c\<close>. The choice the preprocessor makes between Windows and the
  rest is the argument \<open>win\<close>. The fixed buffers truncate as \<^verbatim>\<open>snprintf\<close> does.
\<close>

definition PATH_SEP :: "bool \<Rightarrow> char" where
  "PATH_SEP win = (if win then CHR 0x5C else CHR ''/'')"

text \<open>Reading a character of a string and the NUL after it.\<close>

definition char_of_text :: "string \<Rightarrow> nat \<Rightarrow> char" where
  "char_of_text s i = (if i < length s then s ! i else NUL)"

definition join_path :: "bool \<Rightarrow> nat \<Rightarrow> string \<Rightarrow> string \<Rightarrow> string" where
  "join_path win bufSize a b =
    (if a \<noteq> [] \<and> last a \<noteq> PATH_SEP win \<and> last a \<noteq> CHR ''/''
     then snprintf bufSize (a @ [PATH_SEP win] @ cstr b)
     else snprintf bufSize (a @ cstr b))"

definition node_path_join :: "bool \<Rightarrow> heap \<Rightarrow> tsvalue list \<Rightarrow> (tsvalue \<times> heap) option" where
  "node_path_join win h args = (case args of
     [] \<Rightarrow> new_text h []
   | v # vs \<Rightarrow> do {
       (first, h1) \<leftarrow> text_of h v;
       (buf, h2) \<leftarrow> foldo (\<lambda>(buf, h) v. do {
           (part, h') \<leftarrow> text_of h v;
           Some (snprintf 4096 (join_path win 4096 buf part), h') }) (snprintf 4096 first, h1) vs;
       new_text h2 buf })"

definition restarts :: "bool \<Rightarrow> string \<Rightarrow> bool" where
  "restarts win part \<longleftrightarrow> char_of_text part 0 = PATH_SEP win \<or>
     (char_of_text part 0 = CHR ''.'' \<and> length part > 1 \<and> char_of_text part 1 = PATH_SEP win)"

definition node_path_resolve :: "bool \<Rightarrow> heap \<Rightarrow> tsvalue list \<Rightarrow> (tsvalue \<times> heap) option" where
  "node_path_resolve win h args = (case args of
     [] \<Rightarrow> new_text h []
   | v # vs \<Rightarrow> do {
       (first, h1) \<leftarrow> text_of h v;
       (buf, h2) \<leftarrow> foldo (\<lambda>(buf, h) v. do {
           (part, h') \<leftarrow> text_of h v;
           Some (if restarts win part then snprintf 4096 part
                 else snprintf 4096 (join_path win 4096 buf part), h') }) (snprintf 4096 first, h1) vs;
       new_text h2 buf })"

text \<open>The last separator: the platform's, and a slash when there is none.\<close>

definition last_sep :: "bool \<Rightarrow> string \<Rightarrow> nat option" where
  "last_sep win s = (case strrchr (cstr s) (PATH_SEP win) of
     Some i \<Rightarrow> Some i | None \<Rightarrow> strrchr (cstr s) (CHR ''/''))"

definition path_base :: "bool \<Rightarrow> string \<Rightarrow> string" where
  "path_base win s = (case last_sep win s of Some i \<Rightarrow> drop (Suc i) (cstr s) | None \<Rightarrow> cstr s)"

definition ends_with :: "string \<Rightarrow> string \<Rightarrow> bool" where
  "ends_with base ext \<longleftrightarrow> length base \<ge> length ext \<and> cstr (drop (length base - length ext) base) = cstr ext"

definition node_path_basename :: "bool \<Rightarrow> heap \<Rightarrow> tsvalue \<Rightarrow> tsvalue \<Rightarrow> (tsvalue \<times> heap) option" where
  "node_path_basename win h path ext = do {
     (s, h1) \<leftarrow> text_of h path;
     let base = path_base win s;
     if vtag ext \<noteq> TAG_NULL then do {
       (e, h2) \<leftarrow> text_of h1 ext;
       if ends_with base e then new_text h2 (snprintf 1024 (take (length base - length e) base))
       else new_text h2 base }
     else new_text h1 base }"

definition node_path_dirname :: "bool \<Rightarrow> heap \<Rightarrow> tsvalue \<Rightarrow> (tsvalue \<times> heap) option" where
  "node_path_dirname win h path = do {
     (s, h1) \<leftarrow> text_of h path;
     case last_sep win s of
       None \<Rightarrow> new_text h1 ''.''
     | Some i \<Rightarrow> if i = 0 then new_text h1 [PATH_SEP win] else new_text h1 (snprintf 1024 (take i s)) }"

definition node_path_extname :: "bool \<Rightarrow> heap \<Rightarrow> tsvalue \<Rightarrow> (tsvalue \<times> heap) option" where
  "node_path_extname win h path = do {
     (s, h1) \<leftarrow> text_of h path;
     let base = path_base win s;
     case strrchr base (CHR ''.'') of
       None \<Rightarrow> new_text h1 []
     | Some i \<Rightarrow> if i = 0 then new_text h1 [] else new_text h1 (drop i base) }"

definition node_path_normalize :: "heap \<Rightarrow> tsvalue \<Rightarrow> (tsvalue \<times> heap) option" where
  "node_path_normalize h path = do { (s, h1) \<leftarrow> text_of h path; new_text h1 s }"

definition is_letter :: "char \<Rightarrow> bool" where
  "is_letter c \<longleftrightarrow> (65 \<le> (of_char c :: nat) \<and> (of_char c :: nat) \<le> 90) \<or>
     (97 \<le> (of_char c :: nat) \<and> (of_char c :: nat) \<le> 122)"

definition is_any_sep :: "char \<Rightarrow> bool" where
  "is_any_sep c \<longleftrightarrow> c = CHR ''/'' \<or> c = CHR 0x5C"

definition node_path_isAbsolute :: "bool \<Rightarrow> heap \<Rightarrow> tsvalue \<Rightarrow> (tsvalue \<times> heap) option" where
  "node_path_isAbsolute win h path = do {
     (r, h1) \<leftarrow> text_or_null h path;
     case r of
       None \<Rightarrow> Some (ts_value_boolean False, h1)
     | Some s \<Rightarrow> (let p = char_of_text s in
         if s = [] then Some (ts_value_boolean False, h1)
         else if win then
           (if is_any_sep (p 0) then Some (ts_value_boolean True, h1)
            else Some (ts_value_boolean (is_letter (p 0) \<and> p 1 = CHR '':'' \<and> (is_any_sep (p 2) \<or> p 2 = NUL)), h1))
         else Some (ts_value_boolean (p 0 = CHR ''/''), h1)) }"

definition path_root :: "bool \<Rightarrow> string \<Rightarrow> string" where
  "path_root win s = (let p = char_of_text s in
     if win then
       (if is_letter (p 0) \<and> p 1 = CHR '':'' then [p 0, CHR '':''] @ (if is_any_sep (p 2) then [p 2] else [])
        else if is_any_sep (p 0) then [p 0] else [])
     else if p 0 = CHR ''/'' then ''/'' else [])"

definition node_path_parse :: "bool \<Rightarrow> heap \<Rightarrow> tsvalue \<Rightarrow> (tsvalue \<times> heap) option" where
  "node_path_parse win h path = do {
     (r, h1) \<leftarrow> text_or_null h path;
     let (m, h2) = new_map h1;
     (rootVal, h3) \<leftarrow> new_text h2 (path_root win (case r of Some s \<Rightarrow> s | None \<Rightarrow> []));
     h4 \<leftarrow> map_set h3 m ''root'' rootVal;
     (dirVal, h5) \<leftarrow> node_path_dirname win h4 path;
     (baseVal, h6) \<leftarrow> node_path_basename win h5 path ts_value_null;
     (extVal, h7) \<leftarrow> node_path_extname win h6 path;
     h8 \<leftarrow> map_set h7 m ''dir'' dirVal;
     h9 \<leftarrow> map_set h8 m ''base'' baseVal;
     h10 \<leftarrow> map_set h9 m ''ext'' extVal;
     (base, h11) \<leftarrow> text_of h10 baseVal;
     (ext, h12) \<leftarrow> text_of h11 extVal;
     (nameVal, h13) \<leftarrow> new_text h12 (snprintf 1024
        (if length ext > 0 \<and> ends_with base ext then take (length base - length ext) base else base));
     h14 \<leftarrow> map_set h13 m ''name'' nameVal;
     Some (VObject m, h14) }"

text \<open>\<^verbatim>\<open>v.tag == TAG_STRING && v.as.string && v.as.string->data\<close>\<close>

definition string_prop :: "heap \<Rightarrow> tsvalue \<Rightarrow> string option option" where
  "string_prop h v = (case v of
     VString p \<Rightarrow> if p = 0 then Some None else do { s \<leftarrow> str_data h p; Some (Some s) }
   | _ \<Rightarrow> Some None)"

definition node_path_format :: "bool \<Rightarrow> heap \<Rightarrow> tsvalue \<Rightarrow> (tsvalue \<times> heap) option" where
  "node_path_format win h v = (case v of
     VObject m \<Rightarrow>
       if m = 0 then new_text h [] else do {
         dirV \<leftarrow> map_get h m ''dir'';
         rootV \<leftarrow> map_get h m ''root'';
         baseV \<leftarrow> map_get h m ''base'';
         nameV \<leftarrow> map_get h m ''name'';
         extV \<leftarrow> map_get h m ''ext'';
         b \<leftarrow> string_prop h baseV;
         (base, h1) \<leftarrow> (case b of
             Some s \<Rightarrow> Some (snprintf 1024 s, h)
           | None \<Rightarrow> do {
               (name, ha) \<leftarrow> text_or_null h nameV;
               (ext, hb) \<leftarrow> text_or_null ha extV;
               Some (snprintf 1024 (cstr (case name of Some s \<Rightarrow> s | None \<Rightarrow> []) @
                                    cstr (case ext of Some s \<Rightarrow> s | None \<Rightarrow> [])), hb) });
         d \<leftarrow> string_prop h1 dirV;
         r \<leftarrow> string_prop h1 rootV;
         let dir = (case d of
             Some s \<Rightarrow> if length s > 0 then snprintf 2048 s
                        else (case r of Some t \<Rightarrow> snprintf 2048 t | None \<Rightarrow> [])
           | None \<Rightarrow> (case r of Some t \<Rightarrow> snprintf 2048 t | None \<Rightarrow> []));
         if dir = [] then new_text h1 base
         else if is_any_sep (last dir) then new_text h1 (snprintf 4096 (dir @ base))
         else new_text h1 (snprintf 4096 (dir @ [PATH_SEP win] @ base)) }
   | _ \<Rightarrow> new_text h [])"

definition node_path_relative :: "heap \<Rightarrow> tsvalue \<Rightarrow> tsvalue \<Rightarrow> (tsvalue \<times> heap) option" where
  "node_path_relative h from to = do {
     (a, h1) \<leftarrow> text_or_null h from;
     (b, h2) \<leftarrow> text_or_null h1 to;
     case b of
       None \<Rightarrow> new_text h2 []
     | Some t \<Rightarrow> (case a of
           Some s \<Rightarrow> if cstr s = cstr t then new_text h2 [] else new_text h2 t
         | None \<Rightarrow> new_text h2 t) }"


subsection \<open>Taking a path apart and putting it together\<close>

lemma last_sep_split:
  assumes "NUL \<notin> set (d @ CHR ''/'' # b)" "CHR ''/'' \<notin> set b"
  shows "last_sep False (d @ CHR ''/'' # b) = Some (length d)"
  using assms by (simp add: last_sep_def PATH_SEP_def cstr_id strrchr_split)

lemma last_sep_none:
  "NUL \<notin> set s \<Longrightarrow> CHR ''/'' \<notin> set s \<Longrightarrow> last_sep False s = None"
  using strrchr_None[of s "CHR ''/''"] by (simp add: last_sep_def PATH_SEP_def cstr_id)

text \<open>The object \<^verbatim>\<open>parse\<close> returns, of its five strings.\<close>

definition path_object :: "heap \<Rightarrow> tsvalue \<Rightarrow> string \<Rightarrow> string \<Rightarrow> string \<Rightarrow> bool" where
  "path_object h v rt dir base \<longleftrightarrow> (\<exists>m f pr pd pb. v = VObject m \<and> m \<noteq> 0 \<and> map_at h m f \<and>
     prop_of f ''root'' = VString pr \<and> str_at h pr rt \<and>
     prop_of f ''dir'' = VString pd \<and> str_at h pd dir \<and>
     prop_of f ''base'' = VString pb \<and> str_at h pb base)"

lemma format_of_object:
  assumes "path_object h v rt dir base" "NUL \<notin> set dir" "NUL \<notin> set base" "length dir < 2000" "length base < 1024"
    and "dir \<noteq> []" "heap_ok h"
  shows "\<exists>q h'. node_path_format False h v = Some (VString q, h') \<and>
    str_at h' q (dir @ (if is_any_sep (last dir) then [] else ''/'') @ base)"
proof -
  obtain m f pr pd pb where o: "v = VObject m" "m \<noteq> 0" "map_at h m f"
    "prop_of f ''root'' = VString pr" "str_at h pr rt" "prop_of f ''dir'' = VString pd" "str_at h pd dir"
    "prop_of f ''base'' = VString pb" "str_at h pb base"
    using assms(1) by (auto simp: path_object_def)
  let ?t = "dir @ (if is_any_sep (last dir) then [] else ''/'') @ base"
  have len: "NUL \<notin> set ?t" "length ?t \<le> 5000" "length ?t < 4096" using assms by auto
  have "snprintf 4096 ?t = ?t" using len by (simp add: snprintf_id)
  then have "node_path_format False h v = new_text h ?t"
    using o assms(2-6)
    by (simp add: node_path_format_def map_get_at string_prop_def str_at_nonnull snprintf_id PATH_SEP_def Let_def)
  then show ?thesis using new_text_step[OF len(1,2) assms(7)] by auto
qed


definition path_dir :: "string \<Rightarrow> string" where
  "path_dir s = (case last_sep False s of None \<Rightarrow> ''.'' | Some i \<Rightarrow> if i = 0 then ''/'' else take i s)"

lemma path_parts_ok:
  assumes "NUL \<notin> set s" "length s < 1024"
  shows "NUL \<notin> set (path_dir s)" "length (path_dir s) < 1024" "NUL \<notin> set (path_base False s)"
    "length (path_base False s) < 1024" "path_dir s = [] \<longleftrightarrow> False"
  using assms strrchr_Some(1)[of s "CHR ''/''"]
  by (auto simp: path_dir_def path_base_def last_sep_def PATH_SEP_def cstr_id dest: in_set_takeD in_set_dropD
      split: option.splits)

lemma path_dirname_eq:
  assumes "str_at h p s" "NUL \<notin> set s" "length s < 1024"
  shows "node_path_dirname False h (VString p) = new_text h (path_dir s)"
proof -
  have "snprintf 1024 (take i s) = take i s" for i
    using assms by (intro snprintf_id) (auto dest: in_set_takeD)
  then show ?thesis
    using assms by (simp add: node_path_dirname_def text_of_string path_dir_def PATH_SEP_def split: option.split)
qed

lemma path_basename_eq:
  "str_at h p s \<Longrightarrow> node_path_basename False h (VString p) ts_value_null = new_text h (path_base False s)"
  by (simp add: node_path_basename_def text_of_string ts_value_null_def)

definition path_ext :: "string \<Rightarrow> string" where
  "path_ext s = (let base = path_base False s in
     case strrchr base (CHR ''.'') of None \<Rightarrow> [] | Some i \<Rightarrow> if i = 0 then [] else drop i base)"

lemma path_extname_eq:
  "str_at h p s \<Longrightarrow> node_path_extname False h (VString p) = new_text h (path_ext s)"
  by (simp add: node_path_extname_def text_of_string path_ext_def Let_def split: option.split)

lemma parse_makes_object:
  assumes "heap_ok h" "str_at h p s" "NUL \<notin> set s" "length s < 1024"
  shows "\<exists>v h'. node_path_parse False h (VString p) = Some (v, h') \<and> heap_ok h' \<and>
    path_object h' v (path_root False s) (path_dir s) (path_base False s)"
proof -
  note parts = path_parts_ok[OF assms(3,4)]
  have rt: "NUL \<notin> set (path_root False s)" "length (path_root False s) \<le> 5000"
    by (auto simp: path_root_def Let_def)
  have ext: "NUL \<notin> set (path_ext s)" "length (path_ext s) \<le> 5000"
    using parts(3,4) by (auto simp: path_ext_def Let_def dest: in_set_dropD split: option.split)
  define m where "m = nxt h"
  define h2 where "h2 = snd (new_map h)"
  have h2: "map_at h2 m Map.empty" "heap_ok h2" "m \<noteq> 0" "str_at h2 p s" "new_map h = (m, h2)"
    using assms(1,2) heap_ok_fresh(4)[OF assms(1)] map_at_new[of h] heap_ok_new(3)[OF assms(1), of "OMap ts_hashmap_new"]
    by (simp_all add: m_def h2_def prod_eq_iff) (simp_all add: new_map_def heap_simps str_at_def)
  obtain pr h3 where h3: "new_text h2 (path_root False s) = Some (VString pr, h3)" "heap_ok h3"
    "str_at h3 pr (path_root False s)" "heap_ext h2 h3" "objs h3 = objs h2"
    using new_text_step[OF rt h2(2)] by blast
  have "map_at h3 m Map.empty" using h2(1) h3(5) by (simp add: map_at_def)
  from map_set_step[OF this h3(2), of "''root''" "VString pr"] obtain h4 where h4:
    "map_set h3 m ''root'' (VString pr) = Some h4" "map_at h4 m [''root'' \<mapsto> VString pr]" "heap_ok h4" "strs h4 = strs h3"
    by (auto simp: HM_LIMIT_def)
  have p4: "str_at h4 p s" "str_at h4 pr (path_root False s)"
    using h2(4) h3(3,4) h4(4) by (auto simp: str_at_cong[OF h4(4)] intro: str_at_ext)
  obtain pd h5 where h5: "new_text h4 (path_dir s) = Some (VString pd, h5)" "heap_ok h5"
    "str_at h5 pd (path_dir s)" "heap_ext h4 h5" "objs h5 = objs h4"
    using new_text_step[OF parts(1) _ h4(3)] parts(2) by auto
  obtain pb h6 where h6: "new_text h5 (path_base False s) = Some (VString pb, h6)" "heap_ok h6"
    "str_at h6 pb (path_base False s)" "heap_ext h5 h6" "objs h6 = objs h5"
    using new_text_step[OF parts(3) _ h5(2)] parts(4) by auto
  obtain pe h7 where h7: "new_text h6 (path_ext s) = Some (VString pe, h7)" "heap_ok h7"
    "str_at h7 pe (path_ext s)" "heap_ext h6 h7" "objs h7 = objs h6"
    using new_text_step[OF ext h6(2)] by blast
  note p5 = p4[THEN str_at_ext[OF h5(4)]] h5(3)
  note p6 = p5[THEN str_at_ext[OF h6(4)]] h6(3)
  note p7 = p6[THEN str_at_ext[OF h7(4)]] h7(3)
  have "map_at h7 m [''root'' \<mapsto> VString pr]" using h4(2) h5(5) h6(5) h7(5) by (simp add: map_at_def)
  from map_set_step[OF this h7(2), of "''dir''" "VString pd"] obtain h8 where h8:
    "map_set h7 m ''dir'' (VString pd) = Some h8" "map_at h8 m [''root'' \<mapsto> VString pr, ''dir'' \<mapsto> VString pd]"
    "heap_ok h8" "strs h8 = strs h7"
    by (auto simp: HM_LIMIT_def)
  from map_set_step[OF h8(2,3), of "''base''" "VString pb"] obtain h9 where h9: "map_set h8 m ''base'' (VString pb) = Some h9"
    "map_at h9 m [''root'' \<mapsto> VString pr, ''dir'' \<mapsto> VString pd, ''base'' \<mapsto> VString pb]" "heap_ok h9" "strs h9 = strs h8"
    by (auto simp: HM_LIMIT_def)
  from map_set_step[OF h9(2,3), of "''ext''" "VString pe"] obtain h10 where h10: "map_set h9 m ''ext'' (VString pe) = Some h10"
    "map_at h10 m [''root'' \<mapsto> VString pr, ''dir'' \<mapsto> VString pd, ''base'' \<mapsto> VString pb, ''ext'' \<mapsto> VString pe]"
    "heap_ok h10" "strs h10 = strs h9"
    by (auto simp: HM_LIMIT_def)
  have "strs h10 = strs h7" using h8(4) h9(4) h10(4) by simp
  note p10 = p7[folded str_at_cong[OF this]]
  define nm where "nm = snprintf 1024 (if length (path_ext s) > 0 \<and> ends_with (path_base False s) (path_ext s)
      then take (length (path_base False s) - length (path_ext s)) (path_base False s) else path_base False s)"
  have nm: "NUL \<notin> set nm" "length nm \<le> 5000" by (auto simp: nm_def snprintf_def dest: in_set_takeD)
  obtain pn h13 where h13: "new_text h10 nm = Some (VString pn, h13)" "heap_ok h13" "heap_ext h10 h13" "objs h13 = objs h10"
    using new_text_step[OF nm h10(3)] by blast
  note p13 = p10[THEN str_at_ext[OF h13(3)]]
  have "map_at h13 m [''root'' \<mapsto> VString pr, ''dir'' \<mapsto> VString pd, ''base'' \<mapsto> VString pb, ''ext'' \<mapsto> VString pe]"
    using h10(2) h13(4) by (simp add: map_at_def)
  from map_set_step[OF this h13(2), of "''name''" "VString pn"] obtain h14 where h14:
    "map_set h13 m ''name'' (VString pn) = Some h14" "heap_ok h14" "strs h14 = strs h13"
    "map_at h14 m [''root'' \<mapsto> VString pr, ''dir'' \<mapsto> VString pd, ''base'' \<mapsto> VString pb, ''ext'' \<mapsto> VString pe, ''name'' \<mapsto> VString pn]"
    by (auto simp: HM_LIMIT_def)
  note p14 = p13[folded str_at_cong[OF h14(3)]]
  have "node_path_parse False h (VString p) = Some (VObject m, h14)"
    using assms h2(5) h3(1) h4(1) h5(1) h6(1) h7(1) h8(1) h9(1) h10(1) h13(1) h14(1) p4(1) p5(1) p6(1) p10
    by (simp add: node_path_parse_def text_or_null_string text_of_string path_dirname_eq path_basename_eq path_extname_eq nm_def)
  moreover have "path_object h14 (VObject m) (path_root False s) (path_dir s) (path_base False s)"
    using h14(4) h2(3) p14 by (auto simp: path_object_def)
  ultimately show ?thesis using h14(2) by blast
qed

text \<open>C34. Putting together what \<^verbatim>\<open>path.parse\<close> took apart gives the path back when it has a directory
  part that is the root or does not end in a separator, and puts \<^verbatim>\<open>./\<close> before a bare file name.\<close>

theorem node_path_parse_format:
  assumes "heap_ok h" "str_at h p s" "NUL \<notin> set s" "length s < 1024"
    and "s = d @ ''/'' @ b \<and> (d = [] \<or> \<not> is_any_sep (last d)) \<or> d = [] \<and> s = b" "CHR ''/'' \<notin> set b"
  shows "\<exists>v h' q h2. node_path_parse False h (VString p) = Some (v, h') \<and>
    node_path_format False h' v = Some (VString q, h2) \<and> str_at h2 q (if s = b then ''./'' @ b else s)"
proof -
  note parts = path_parts_ok[OF assms(3,4)]
  obtain v h' where v: "node_path_parse False h (VString p) = Some (v, h')" "heap_ok h'"
    "path_object h' v (path_root False s) (path_dir s) (path_base False s)"
    using parse_makes_object[OF assms(1-4)] by blast
  have "path_dir s @ (if is_any_sep (last (path_dir s)) then [] else ''/'') @ path_base False s =
      (if s = b then ''./'' @ b else s)"
    using assms(5)
  proof
    assume "d = [] \<and> s = b"
    then show ?thesis using last_sep_none[of s] assms(3,6)
      by (simp add: path_dir_def path_base_def is_any_sep_def cstr_id)
  next
    assume "s = d @ ''/'' @ b \<and> (d = [] \<or> \<not> is_any_sep (last d))"
    then have s: "s = d @ ''/'' @ b" and d: "d = [] \<or> \<not> is_any_sep (last d)" by blast+
    have "last_sep False s = Some (length d)" using last_sep_split[of d b] assms(3,6) s by simp
    moreover have "s \<noteq> b" using s by simp
    ultimately show ?thesis using d s assms(3)
      by (cases "d = []") (auto simp: path_dir_def path_base_def is_any_sep_def cstr_id)
  qed
  moreover obtain q h2 where "node_path_format False h' v = Some (VString q, h2)"
    "str_at h2 q (path_dir s @ (if is_any_sep (last (path_dir s)) then [] else ''/'') @ path_base False s)"
    using format_of_object[OF v(3) parts(1,3) _ parts(4) _ v(2)] parts(2,5) by auto
  ultimately show ?thesis using v(1) by auto
qed

lemma node_path_parse_format_witness:
  "\<exists>v h' q h2. node_path_parse False (snd (new_str empty_heap ''/usr/lib.so'')) (VString 1) = Some (v, h') \<and>
    node_path_format False h' v = Some (VString q, h2) \<and> str_at h2 q ''/usr/lib.so''"
proof -
  let ?h = "snd (new_str empty_heap ''/usr/lib.so'')"
  have "heap_ok ?h" "str_at ?h 1 ''/usr/lib.so''"
    using heap_ok_new(1)[OF heap_ok_empty] str_at_new[OF heap_ok_empty] by (simp_all add: empty_heap_def)
  from node_path_parse_format[OF this, of "''/usr''" "''lib.so''"] show ?thesis
    by (simp add: is_any_sep_def)
qed

end
