(* ===== verification/Ts_Events.thy ===== *)
theory Ts_Events
  imports Ts_Objmap Ts_Promise
begin

text \<open>
  \<^verbatim>\<open>runtime/src/builtins/node_events.c\<close>. An emitter is a plain object whose property \<^verbatim>\<open>_events\<close> is
  an object from event names to arrays of entries, and an entry is an object with the properties
  \<^verbatim>\<open>fn\<close> and \<^verbatim>\<open>once\<close>. The state is the store, the default limit and what was written to the error
  stream. The listeners are the functions of the compiled program: a parameter, which may do
  anything to the state, adding and removing listeners included.
\<close>

record evs =
  ev_heap :: heap
  g_default_max_listeners :: int
  ev_err :: string

type_synonym ev_code = "addr \<Rightarrow> tsvalue list \<Rightarrow> evs \<Rightarrow> (tsvalue \<times> evs) option"

definition DEFAULT_MAX_LISTENERS :: int where
  "DEFAULT_MAX_LISTENERS = 10"

definition as_map :: "tsvalue \<Rightarrow> addr" where
  "as_map v = (case v of VObject p \<Rightarrow> p | _ \<Rightarrow> 0)"

definition is_emitter :: "heap \<Rightarrow> tsvalue \<Rightarrow> bool option" where
  "is_emitter h ee =
    (if as_map ee = 0 then Some False
     else do {
       t \<leftarrow> map_get h (as_map ee) ''_type'';
       case t of
         VString p \<Rightarrow> if p \<noteq> 0 then do { s \<leftarrow> str_data h p; Some (cstr s = ''EventEmitter'') } else Some False
       | _ \<Rightarrow> Some False })"

definition ensure_events_map :: "heap \<Rightarrow> addr \<Rightarrow> (addr \<times> heap) option" where
  "ensure_events_map h ee = do {
     ev \<leftarrow> map_get h ee ''_events'';
     if as_map ev \<noteq> 0 then Some (as_map ev, h)
     else do {
       let (events, h1) = new_map h;
       h2 \<leftarrow> map_set h1 ee ''_events'' (VObject events);
       Some (events, h2) } }"

definition array_of :: "tsvalue \<Rightarrow> addr" where
  "array_of v = (case v of VArray p \<Rightarrow> p | _ \<Rightarrow> 0)"

definition ensure_listener_array :: "heap \<Rightarrow> addr \<Rightarrow> string \<Rightarrow> (addr \<times> heap) option" where
  "ensure_listener_array h events eventName = do {
     arrVal \<leftarrow> map_get h events eventName;
     if array_of arrVal \<noteq> 0 then Some (array_of arrVal, h)
     else do {
       let (arr, h1) = new_arr h ts_array_new;
       h2 \<leftarrow> map_set h1 events eventName (VArray arr);
       Some (arr, h2) } }"

definition make_listener_entry :: "heap \<Rightarrow> tsvalue \<Rightarrow> bool \<Rightarrow> (tsvalue \<times> heap) option" where
  "make_listener_entry h fn once = do {
     let (entry, h1) = new_map h;
     h2 \<leftarrow> map_set h1 entry ''fn'' fn;
     h3 \<leftarrow> map_set h2 entry ''once'' (ts_value_boolean once);
     Some (VObject entry, h3) }"

definition get_entry_fn :: "heap \<Rightarrow> tsvalue \<Rightarrow> tsvalue option" where
  "get_entry_fn h entry =
    (if as_map entry = 0 then Some ts_value_undefined else map_get h (as_map entry) ''fn'')"

definition entry_is_once :: "heap \<Rightarrow> tsvalue \<Rightarrow> bool option" where
  "entry_is_once h entry =
    (if as_map entry = 0 then Some False
     else do { v \<leftarrow> map_get h (as_map entry) ''once''; ts_to_boolean h v })"

definition warn_max_listeners :: "string \<Rightarrow> int \<Rightarrow> int \<Rightarrow> string" where
  "warn_max_listeners eventName count mx =
    (if mx \<le> 0 \<or> count \<le> mx then []
     else ''MaxListenersExceededWarning: Possible EventEmitter memory leak detected. '' @ int_str count @ '' '' @
       cstr eventName @ '' listeners added. Use emitter.setMaxListeners() to increase limit'' @ [NL])"

definition push_range :: "heap \<Rightarrow> addr \<Rightarrow> addr \<Rightarrow> int \<Rightarrow> heap option" where
  "push_range h arr neu n = foldo (\<lambda>h i. do {
     a \<leftarrow> arrs h arr;
     v \<leftarrow> ts_array_get a i;
     arr_push_at h neu v }) h [0..n - 1]"

definition is_function :: "tsvalue \<Rightarrow> bool" where
  "is_function v = (case v of VFunction f \<Rightarrow> f \<noteq> 0 | _ \<Rightarrow> False)"

definition max_of :: "evs \<Rightarrow> heap \<Rightarrow> addr \<Rightarrow> int option" where
  "max_of s h ee = do {
     v \<leftarrow> map_get h ee ''_maxListeners'';
     case v of VNumber d \<Rightarrow> d_to_int d | _ \<Rightarrow> Some (g_default_max_listeners s) }"

definition add_listener :: "evs \<Rightarrow> tsvalue \<Rightarrow> tsvalue \<Rightarrow> tsvalue \<Rightarrow> bool \<Rightarrow> bool \<Rightarrow> (tsvalue \<times> evs) option" where
  "add_listener s ee event listener once prepend = do {
     e \<leftarrow> is_emitter (ev_heap s) ee;
     if \<not> e \<or> \<not> is_function listener then Some (ee, s)
     else do {
       (events, h1) \<leftarrow> ensure_events_map (ev_heap s) (as_map ee);
       (nm, h2) \<leftarrow> text_or_null h1 event;
       let evName = (case nm of Some n \<Rightarrow> n | None \<Rightarrow> []);
       (arr, h3) \<leftarrow> ensure_listener_array h2 events evName;
       (entry, h4) \<leftarrow> make_listener_entry h3 listener once;
       (arr', h5) \<leftarrow> (if prepend then do {
            let (neu, ha) = new_arr h4 ts_array_new;
            hb \<leftarrow> arr_push_at ha neu entry;
            a \<leftarrow> arrs hb arr;
            hc \<leftarrow> push_range hb arr neu (a_length a);
            hd \<leftarrow> map_set hc events evName (VArray neu);
            Some (neu, hd) }
          else do { ha \<leftarrow> arr_push_at h4 arr entry; Some (arr, ha) });
       mx \<leftarrow> max_of s h5 (as_map ee);
       a \<leftarrow> arrs h5 arr';
       Some (ee, s\<lparr>ev_heap := h5, ev_err := ev_err s @ warn_max_listeners evName (a_length a) mx\<rparr>) } }"

definition same_fn :: "tsvalue \<Rightarrow> tsvalue \<Rightarrow> bool" where
  "same_fn a b = (case (a, b) of (VFunction f, VFunction g) \<Rightarrow> f = g | _ \<Rightarrow> False)"

text \<open>The properties of the emitter that the rest of the operations start from.\<close>

definition events_of :: "heap \<Rightarrow> tsvalue \<Rightarrow> addr option" where
  "events_of h ee = do {
     e \<leftarrow> is_emitter h ee;
     if \<not> e then Some 0
     else do { v \<leftarrow> map_get h (as_map ee) ''_events''; Some (as_map v) } }"

definition remove_listener :: "evs \<Rightarrow> tsvalue \<Rightarrow> tsvalue \<Rightarrow> tsvalue \<Rightarrow> (tsvalue \<times> evs) option" where
  "remove_listener s ee event listener = do {
     events \<leftarrow> events_of (ev_heap s) ee;
     if events = 0 then Some (ee, s)
     else do {
       (evName, h1) \<leftarrow> text_of (ev_heap s) event;
       arrVal \<leftarrow> map_get h1 events evName;
       if array_of arrVal = 0 then Some (ee, s\<lparr>ev_heap := h1\<rparr>)
       else do {
         let arr = array_of arrVal;
         let (neu, h2) = new_arr h1 ts_array_new;
         a0 \<leftarrow> arrs h2 arr;
         (removed, h3) \<leftarrow> foldo (\<lambda>(removed, h) i. do {
             a \<leftarrow> arrs h arr;
             entry \<leftarrow> ts_array_get a i;
             fn \<leftarrow> get_entry_fn h entry;
             if \<not> removed \<and> same_fn fn listener then Some (True, h)
             else do { h' \<leftarrow> arr_push_at h neu entry; Some (removed, h') } }) (False, h2) [0..a_length a0 - 1];
         h4 \<leftarrow> map_set h3 events evName (VArray neu);
         Some (ee, s\<lparr>ev_heap := h4\<rparr>) } } }"

definition call_listener :: "ev_code \<Rightarrow> tsvalue \<Rightarrow> tsvalue list \<Rightarrow> evs \<Rightarrow> evs option" where
  "call_listener call fnVal args s =
    (case fnVal of
       VFunction f \<Rightarrow> if f = 0 then Some s else
         map_option snd (call f (map (\<lambda>i. if i < length args then args ! i else ts_value_undefined) [0..<4]) s)
     | _ \<Rightarrow> Some s)"

subsection \<open>Operations\<close>

definition node_events_EventEmitter :: "evs \<Rightarrow> (tsvalue \<times> evs) option" where
  "node_events_EventEmitter s = do {
     let (ee, h1) = new_map (ev_heap s);
     (t, h2) \<leftarrow> new_text h1 ''EventEmitter'';
     h3 \<leftarrow> map_set h2 ee ''_type'' t;
     h4 \<leftarrow> map_set h3 ee ''_maxListeners'' (VNumber (dint (g_default_max_listeners s)));
     let (events, h5) = new_map h4;
     h6 \<leftarrow> map_set h5 ee ''_events'' (VObject events);
     Some (VObject ee, s\<lparr>ev_heap := h6\<rparr>) }"

definition node_events_on :: "evs \<Rightarrow> tsvalue \<Rightarrow> tsvalue \<Rightarrow> tsvalue \<Rightarrow> (tsvalue \<times> evs) option" where
  "node_events_on s ee event listener = add_listener s ee event listener False False"

definition node_events_addListener :: "evs \<Rightarrow> tsvalue \<Rightarrow> tsvalue \<Rightarrow> tsvalue \<Rightarrow> (tsvalue \<times> evs) option" where
  "node_events_addListener s ee event listener = add_listener s ee event listener False False"

definition node_events_once :: "evs \<Rightarrow> tsvalue \<Rightarrow> tsvalue \<Rightarrow> tsvalue \<Rightarrow> (tsvalue \<times> evs) option" where
  "node_events_once s ee event listener = add_listener s ee event listener True False"

definition node_events_prependListener :: "evs \<Rightarrow> tsvalue \<Rightarrow> tsvalue \<Rightarrow> tsvalue \<Rightarrow> (tsvalue \<times> evs) option" where
  "node_events_prependListener s ee event listener = add_listener s ee event listener False True"

definition node_events_prependOnceListener :: "evs \<Rightarrow> tsvalue \<Rightarrow> tsvalue \<Rightarrow> tsvalue \<Rightarrow> (tsvalue \<times> evs) option" where
  "node_events_prependOnceListener s ee event listener = add_listener s ee event listener True True"

definition node_events_off :: "evs \<Rightarrow> tsvalue \<Rightarrow> tsvalue \<Rightarrow> tsvalue \<Rightarrow> (tsvalue \<times> evs) option" where
  "node_events_off s ee event listener = remove_listener s ee event listener"

definition node_events_removeListener :: "evs \<Rightarrow> tsvalue \<Rightarrow> tsvalue \<Rightarrow> tsvalue \<Rightarrow> (tsvalue \<times> evs) option" where
  "node_events_removeListener s ee event listener = remove_listener s ee event listener"

text \<open>The loop over the snapshot; \<open>remaining\<close> collects the entries to keep.\<close>

fun emit_loop :: "ev_code \<Rightarrow> tsvalue list \<Rightarrow> addr \<Rightarrow> tsvalue list \<Rightarrow> evs \<Rightarrow> evs option" where
  "emit_loop call args remaining [] s = Some s"
| "emit_loop call args remaining (entry # snap) s = do {
     fn \<leftarrow> get_entry_fn (ev_heap s) entry;
     once \<leftarrow> entry_is_once (ev_heap s) entry;
     s1 \<leftarrow> call_listener call fn args s;
     h2 \<leftarrow> (if \<not> once then arr_push_at (ev_heap s1) remaining entry else Some (ev_heap s1));
     emit_loop call args remaining snap (s1\<lparr>ev_heap := h2\<rparr>) }"

definition node_events_emit :: "ev_code \<Rightarrow> evs \<Rightarrow> tsvalue \<Rightarrow> tsvalue \<Rightarrow> tsvalue list \<Rightarrow> (outcome \<times> evs) option" where
  "node_events_emit call s ee event args = do {
     events \<leftarrow> events_of (ev_heap s) ee;
     if events = 0 then Some (Returned (ts_value_boolean False), s)
     else do {
       (evName, h1) \<leftarrow> text_of (ev_heap s) event;
       arrVal \<leftarrow> map_get h1 events evName;
       n \<leftarrow> (if array_of arrVal = 0 then Some 0 else do { a \<leftarrow> arrs h1 (array_of arrVal); Some (a_length a) });
       if n = 0 then
         (if cstr evName = ''error'' then
            (case args of
               a # _ \<Rightarrow> Some (Thrown a, s\<lparr>ev_heap := h1\<rparr>)
             | [] \<Rightarrow> do { (m, h2) \<leftarrow> new_text h1 ''Unhandled error event''; Some (Thrown m, s\<lparr>ev_heap := h2\<rparr>) })
          else Some (Returned (ts_value_boolean False), s\<lparr>ev_heap := h1\<rparr>))
       else do {
         a \<leftarrow> arrs h1 (array_of arrVal);
         snap \<leftarrow> foldo (\<lambda>vs i. do { v \<leftarrow> ts_array_get a i; Some (vs @ [v]) }) [] [0..n - 1];
         let (remaining, h2) = new_arr h1 ts_array_new;
         s3 \<leftarrow> emit_loop call args remaining snap (s\<lparr>ev_heap := h2\<rparr>);
         h4 \<leftarrow> map_set (ev_heap s3) events evName (VArray remaining);
         Some (Returned (ts_value_boolean True), s3\<lparr>ev_heap := h4\<rparr>) } } }"

definition node_events_removeAllListeners :: "evs \<Rightarrow> tsvalue \<Rightarrow> tsvalue \<Rightarrow> (tsvalue \<times> evs) option" where
  "node_events_removeAllListeners s ee event = do {
     e \<leftarrow> is_emitter (ev_heap s) ee;
     if \<not> e then Some (ee, s)
     else if vtag event = TAG_NULL then do {
       let (m, h1) = new_map (ev_heap s);
       h2 \<leftarrow> map_set h1 (as_map ee) ''_events'' (VObject m);
       Some (ee, s\<lparr>ev_heap := h2\<rparr>) }
     else do {
       events \<leftarrow> events_of (ev_heap s) ee;
       if events = 0 then Some (ee, s)
       else do {
         (evName, h1) \<leftarrow> text_of (ev_heap s) event;
         let (a, h2) = new_arr h1 ts_array_new;
         h3 \<leftarrow> map_set h2 events evName (VArray a);
         Some (ee, s\<lparr>ev_heap := h3\<rparr>) } } }"

definition node_events_listenerCount :: "evs \<Rightarrow> tsvalue \<Rightarrow> tsvalue \<Rightarrow> (tsvalue \<times> evs) option" where
  "node_events_listenerCount s ee event = do {
     events \<leftarrow> events_of (ev_heap s) ee;
     if events = 0 then Some (VNumber (dint 0), s)
     else do {
       (evName, h1) \<leftarrow> text_of (ev_heap s) event;
       arrVal \<leftarrow> map_get h1 events evName;
       if array_of arrVal = 0 then Some (VNumber (dint 0), s\<lparr>ev_heap := h1\<rparr>)
       else do { a \<leftarrow> arrs h1 (array_of arrVal); Some (VNumber (dint (a_length a)), s\<lparr>ev_heap := h1\<rparr>) } } }"

definition node_events_listeners :: "evs \<Rightarrow> tsvalue \<Rightarrow> tsvalue \<Rightarrow> (tsvalue \<times> evs) option" where
  "node_events_listeners s ee event = do {
     let (out, h1) = new_arr (ev_heap s) ts_array_new;
     events \<leftarrow> events_of h1 ee;
     if events = 0 then Some (VArray out, s\<lparr>ev_heap := h1\<rparr>)
     else do {
       (evName, h2) \<leftarrow> text_of h1 event;
       arrVal \<leftarrow> map_get h2 events evName;
       if array_of arrVal = 0 then Some (VArray out, s\<lparr>ev_heap := h2\<rparr>)
       else do {
         let arr = array_of arrVal;
         a0 \<leftarrow> arrs h2 arr;
         h3 \<leftarrow> foldo (\<lambda>h i. do {
             a \<leftarrow> arrs h arr;
             entry \<leftarrow> ts_array_get a i;
             fn \<leftarrow> get_entry_fn h entry;
             arr_push_at h out fn }) h2 [0..a_length a0 - 1];
         Some (VArray out, s\<lparr>ev_heap := h3\<rparr>) } } }"

definition node_events_rawListeners :: "evs \<Rightarrow> tsvalue \<Rightarrow> tsvalue \<Rightarrow> (tsvalue \<times> evs) option" where
  "node_events_rawListeners s ee event = node_events_listeners s ee event"

text \<open>The names are kept by their bytes, so that each is a string of its own here.\<close>

definition collect_event_name :: "addr \<Rightarrow> string \<Rightarrow> tsvalue \<Rightarrow> heap \<Rightarrow> heap option" where
  "collect_event_name names key v h = (let (p, h1) = new_str h key in arr_push_at h1 names (VString p))"

definition node_events_eventNames :: "evs \<Rightarrow> tsvalue \<Rightarrow> (tsvalue \<times> evs) option" where
  "node_events_eventNames s ee = do {
     let (names, h1) = new_arr (ev_heap s) ts_array_new;
     events \<leftarrow> events_of h1 ee;
     if events = 0 then Some (VArray names, s\<lparr>ev_heap := h1\<rparr>)
     else do {
       m \<leftarrow> get_map h1 events;
       h2 \<leftarrow> ts_hashmap_for_each m (collect_event_name names) h1;
       Some (VArray names, s\<lparr>ev_heap := h2\<rparr>) } }"

definition node_events_setMaxListeners :: "evs \<Rightarrow> tsvalue \<Rightarrow> tsvalue \<Rightarrow> (tsvalue \<times> evs) option" where
  "node_events_setMaxListeners s ee n = do {
     e \<leftarrow> is_emitter (ev_heap s) ee;
     if \<not> e then Some (ee, s)
     else do {
       d \<leftarrow> ts_to_number (ev_heap s) n;
       h1 \<leftarrow> map_set (ev_heap s) (as_map ee) ''_maxListeners'' (VNumber d);
       Some (ee, s\<lparr>ev_heap := h1\<rparr>) } }"

definition node_events_getMaxListeners :: "evs \<Rightarrow> tsvalue \<Rightarrow> tsvalue option" where
  "node_events_getMaxListeners s ee = do {
     e \<leftarrow> is_emitter (ev_heap s) ee;
     if \<not> e then Some (VNumber (dint (g_default_max_listeners s)))
     else do {
       v \<leftarrow> map_get (ev_heap s) (as_map ee) ''_maxListeners'';
       Some (case v of VNumber d \<Rightarrow> v | _ \<Rightarrow> VNumber (dint (g_default_max_listeners s))) } }"

definition node_events_getEventListeners :: "evs \<Rightarrow> tsvalue \<Rightarrow> tsvalue \<Rightarrow> (tsvalue \<times> evs) option" where
  "node_events_getEventListeners s ee event = node_events_listeners s ee event"

definition node_events_defaultMaxListeners :: "evs \<Rightarrow> tsvalue" where
  "node_events_defaultMaxListeners s = VNumber (dint (g_default_max_listeners s))"

definition node_events_setDefaultMaxListeners :: "evs \<Rightarrow> tsvalue \<Rightarrow> (tsvalue \<times> evs) option" where
  "node_events_setDefaultMaxListeners s n = do {
     d \<leftarrow> ts_to_number (ev_heap s) n;
     i \<leftarrow> d_to_int d;
     Some (VNumber (dint i), s\<lparr>g_default_max_listeners := i\<rparr>) }"


subsection \<open>Emitters in the store\<close>

definition emitter :: "heap \<Rightarrow> addr \<Rightarrow> addr \<Rightarrow> bool" where
  "emitter h p ev \<longleftrightarrow> p \<noteq> 0 \<and> ev \<noteq> 0 \<and> p \<noteq> ev \<and> (\<exists>f q d. map_at h p f \<and>
     prop_of f ''_type'' = VString q \<and> str_at h q ''EventEmitter'' \<and>
     prop_of f ''_events'' = VObject ev \<and> prop_of f ''_maxListeners'' = VNumber d \<and> d_to_int d \<noteq> None)"

text \<open>An entry, for a function and its being for one call only.\<close>

definition is_entry :: "heap \<Rightarrow> tsvalue \<Rightarrow> addr \<times> bool \<Rightarrow> bool" where
  "is_entry h v fo \<longleftrightarrow> fst fo \<noteq> 0 \<and> (\<exists>e g. v = VObject e \<and> e \<noteq> 0 \<and> map_at h e g \<and>
     prop_of g ''fn'' = VFunction (fst fo) \<and> prop_of g ''once'' = ts_value_boolean (snd fo))"

text \<open>The array \<open>arr\<close> with the entries \<open>es\<close> is what the object of events has for the name.\<close>

definition registered :: "heap \<Rightarrow> addr \<Rightarrow> string \<Rightarrow> addr \<Rightarrow> tsvalue list \<Rightarrow> bool" where
  "registered h ev name arr es \<longleftrightarrow> arr \<noteq> 0 \<and> (\<exists>ef a. map_at h ev ef \<and> card (dom ef) < HM_LIMIT \<and>
     VObject ev \<notin> set es \<and> ef name = Some (VArray arr) \<and> arrs h arr = Some a \<and> arr_ok a \<and> arr_vals a = es)"

lemma emitter_events_of: "emitter h p ev \<Longrightarrow> events_of h (VObject p) = Some ev"
  by (auto simp: emitter_def events_of_def is_emitter_def as_map_def map_get_at str_at_nonnull cstr_id)

lemma emitter_is: "emitter h p ev \<Longrightarrow> is_emitter h (VObject p) = Some True"
  by (auto simp: emitter_def is_emitter_def as_map_def map_get_at str_at_nonnull cstr_id)

lemma entry_reads:
  assumes "is_entry h v (f, once)"
  shows "get_entry_fn h v = Some (VFunction f)" "entry_is_once h v = Some once" "f \<noteq> 0"
  using assms by (auto simp: is_entry_def get_entry_fn_def entry_is_once_def as_map_def map_get_at ts_to_boolean_def ts_value_boolean_def)

text \<open>Objects other than the given ones, and all strings, are as they were.\<close>

definition kept :: "addr set \<Rightarrow> heap \<Rightarrow> heap \<Rightarrow> bool" where
  "kept P h h' \<longleftrightarrow> strs h \<subseteq>\<^sub>m strs h' \<and> (\<forall>q. q \<notin> P \<longrightarrow> objs h q \<noteq> None \<longrightarrow> objs h' q = objs h q)"

lemma kept_refl [simp]: "kept P h h"
  by (simp add: kept_def)

lemma kept_trans: "kept P h h' \<Longrightarrow> kept P h' h'' \<Longrightarrow> kept P h h''"
  by (fastforce simp: kept_def intro: map_le_trans)

lemma kept_map_at: "kept P h h' \<Longrightarrow> q \<notin> P \<Longrightarrow> map_at h q f \<Longrightarrow> map_at h' q f"
  by (auto simp: kept_def map_at_def)

lemma kept_str_at: "kept P h h' \<Longrightarrow> str_at h q s \<Longrightarrow> str_at h' q s"
  by (auto simp: kept_def str_at_def map_le_def dom_def)

lemma kept_emitter:
  assumes "kept {ev} h h'" "emitter h p ev" shows "emitter h' p ev"
proof -
  obtain f q d where "p \<noteq> 0" "ev \<noteq> 0" "p \<noteq> ev" "map_at h p f" "prop_of f ''_type'' = VString q" "str_at h q ''EventEmitter''"
    "prop_of f ''_events'' = VObject ev" "prop_of f ''_maxListeners'' = VNumber d" "d_to_int d \<noteq> None"
    using assms(2) by (auto simp: emitter_def)
  then show ?thesis
    using kept_map_at[OF assms(1), of p f] kept_str_at[OF assms(1), of q] unfolding emitter_def by blast
qed

lemma kept_entry:
  assumes "kept {ev} h h'" "is_entry h v fo" "v \<noteq> VObject ev" shows "is_entry h' v fo"
proof -
  obtain e g where "fst fo \<noteq> 0" "v = VObject e" "e \<noteq> 0" "map_at h e g" "prop_of g ''fn'' = VFunction (fst fo)"
    "prop_of g ''once'' = ts_value_boolean (snd fo)"
    using assms(2) by (auto simp: is_entry_def)
  then show ?thesis using kept_map_at[OF assms(1), of e g] assms(3) unfolding is_entry_def by blast
qed

lemma make_entry_ok:
  assumes "heap_ok h" "f \<noteq> 0"
  shows "\<exists>h'. make_listener_entry h (VFunction f) once = Some (VObject (nxt h), h') \<and> heap_ok h' \<and>
    is_entry h' (VObject (nxt h)) (f, once) \<and> kept {} h h' \<and> arrs h' = arrs h \<and> strs h' = strs h \<and> nxt h' = Suc (nxt h)"
proof -
  let ?h1 = "snd (new_map h)" and ?e = "nxt h"
  have h1: "map_at ?h1 ?e Map.empty" "heap_ok ?h1" "new_map h = (?e, ?h1)"
    using map_at_new[of h] heap_ok_new(3)[OF assms(1)] by (auto simp: new_map_def prod_eq_iff)
  obtain h2 where h2: "map_set ?h1 ?e ''fn'' (VFunction f) = Some h2" "map_at h2 ?e [''fn'' \<mapsto> VFunction f]"
    "heap_ok h2" "strs h2 = strs ?h1" "arrs h2 = arrs ?h1" "nxt h2 = nxt ?h1" "\<forall>q. q \<noteq> ?e \<longrightarrow> objs h2 q = objs ?h1 q"
    using map_set_step[OF h1(1,2), of "''fn''" "VFunction f"] by (auto simp: HM_LIMIT_def)
  obtain h3 where h3: "map_set h2 ?e ''once'' (ts_value_boolean once) = Some h3"
    "map_at h3 ?e [''fn'' \<mapsto> VFunction f, ''once'' \<mapsto> ts_value_boolean once]"
    "heap_ok h3" "strs h3 = strs h2" "arrs h3 = arrs h2" "nxt h3 = nxt h2" "\<forall>q. q \<noteq> ?e \<longrightarrow> objs h3 q = objs h2 q"
    using map_set_step[OF h2(2,3), of "''once''" "ts_value_boolean once"] by (auto simp: HM_LIMIT_def)
  have "kept {} h h3"
    using h2(4,7) h3(4,7) heap_ok_fresh(3)[OF assms(1)]
    by (auto simp: kept_def new_map_def heap_simps) (metis option.distinct(1))
  moreover have "is_entry h3 (VObject ?e) (f, once)"
    using h3(2) assms heap_ok_fresh(4)[OF assms(1)] by (auto simp: is_entry_def)
  moreover have "make_listener_entry h (VFunction f) once = Some (VObject ?e, h3)"
    using map_at_new(2)[of h] h2(1) h3(1) by (simp add: make_listener_entry_def case_prod_beta)
  moreover have "arrs h3 = arrs h" "strs h3 = strs h" "nxt h3 = Suc (nxt h)"
    using h2(4-6) h3(4-6) by (simp_all add: new_map_def heap_simps)
  ultimately show ?thesis using h3(3) by blast
qed

lemma push_range_ok:
  assumes "arrs h arr = Some a" "arr_ok a" "arrs h neu = Some b" "arr_ok b" "arr \<noteq> neu"
    and "length (arr_vals b) + length (arr_vals a) \<le> ARR_LIMIT"
  shows "\<exists>b'. push_range h arr neu (a_length a) = Some (put_arr h neu b') \<and> arr_ok b' \<and> arr_vals b' = arr_vals b @ arr_vals a"
proof -
  have len: "a_length a = int (length (arr_vals a))" using length_arr_vals[OF assms(2)] by simp
  have "push_range h arr neu (a_length a) = foldo (\<lambda>h v. arr_push_at h neu v) h (arr_vals a)"
    unfolding push_range_def len
  proof (rule foldo_index[where I = "\<lambda>h. arrs h arr = Some a"])
    show "arrs s arr = Some a \<Longrightarrow> i < length (arr_vals a) \<Longrightarrow>
      do { a \<leftarrow> arrs s arr; v \<leftarrow> ts_array_get a (int i); arr_push_at s neu v } = arr_push_at s neu (arr_vals a ! i)" for s i
      using len by (simp add: ts_array_get_ok[OF assms(2)])
    show "arrs s arr = Some a \<Longrightarrow> arr_push_at s neu x = Some s' \<Longrightarrow> arrs s' arr = Some a" for s x s'
      using assms(5) by (auto simp: arr_push_at_def bind_eq_Some_conv heap_simps)
  qed (rule assms(1))
  then show ?thesis using foldo_push_at[OF assms(3,4,6)] by simp
qed


lemma kept_put_arr [simp]: "kept P h (put_arr h' p a) = kept P h h'"
  by (simp add: kept_def heap_simps)

lemma max_of_emitter: "emitter h p ev \<Longrightarrow> max_of s h p \<noteq> None"
  by (auto simp: emitter_def max_of_def map_get_at)

lemma add_listener_ok:
  assumes ok: "heap_ok (ev_heap s)" and em: "emitter (ev_heap s) p ev" and rg: "registered (ev_heap s) ev name arr es"
    and nm: "str_at (ev_heap s) q name" and f: "f \<noteq> 0" and len: "length es + 1 < ARR_LIMIT"
  shows "\<exists>s' arr'. add_listener s (VObject p) (VString q) (VFunction f) once prepend = Some (VObject p, s') \<and>
    heap_ok (ev_heap s') \<and> emitter (ev_heap s') p ev \<and>
    registered (ev_heap s') ev name arr' (if prepend then VObject (nxt (ev_heap s)) # es else es @ [VObject (nxt (ev_heap s))]) \<and>
    is_entry (ev_heap s') (VObject (nxt (ev_heap s))) (f, once) \<and> kept {ev} (ev_heap s) (ev_heap s') \<and>
    (\<forall>r. r \<noteq> arr \<and> r < nxt (ev_heap s) \<longrightarrow> arrs (ev_heap s') r = arrs (ev_heap s) r)"
proof -
  define h where "h = ev_heap s"
  obtain ef a where rg': "arr \<noteq> 0" "map_at h ev ef" "card (dom ef) < HM_LIMIT" "VObject ev \<notin> set es"
    "ef name = Some (VArray arr)" "arrs h arr = Some a" "arr_ok a" "arr_vals a = es"
    using rg by (auto simp: registered_def h_def)
  let ?e = "VObject (nxt h)"
  have ev: "ev \<noteq> nxt h" "arr < nxt h"
    using rg'(2,6) heap_ok_dom(2)[OF ok] heap_ok_fresh(3)[OF ok] by (auto simp: map_at_def h_def)
  obtain h4 where h4: "make_listener_entry h (VFunction f) once = Some (?e, h4)" "heap_ok h4" "is_entry h4 ?e (f, once)"
    "kept {} h h4" "arrs h4 = arrs h" "strs h4 = strs h" "nxt h4 = Suc (nxt h)"
    using make_entry_ok[OF ok f, of once] unfolding h_def by blast
  have k4: "kept {ev} h h4" using h4(4) by (auto simp: kept_def)
  have ev4: "map_at h4 ev ef" using kept_map_at[OF h4(4) _ rg'(2)] by simp
  have start: "is_emitter h (VObject p) = Some True" "ensure_events_map h p = Some (ev, h)"
    "text_or_null h (VString q) = Some (Some name, h)" "ensure_listener_array h ev name = Some (arr, h)"
    using emitter_is[OF em] em rg' text_or_null_string[OF nm]
    by (auto simp: h_def ensure_events_map_def ensure_listener_array_def emitter_def map_get_at as_map_def array_of_def prop_of_def[of ef])
  have fin: "add_listener s (VObject p) (VString q) (VFunction f) once prepend = Some (VObject p,
      s\<lparr>ev_heap := h5, ev_err := ev_err s @ warn_max_listeners name (a_length b) (the (max_of s h5 p))\<rparr>)"
    if "(if prepend then do {
            let (neu, ha) = new_arr h4 ts_array_new;
            hb \<leftarrow> arr_push_at ha neu ?e;
            a \<leftarrow> arrs hb arr;
            hc \<leftarrow> push_range hb arr neu (a_length a);
            hd \<leftarrow> map_set hc ev name (VArray neu);
            Some (neu, hd) }
          else do { ha \<leftarrow> arr_push_at h4 arr ?e; Some (arr, ha) }) = Some (arr', h5)"
      "arrs h5 arr' = Some b" "emitter h5 p ev" for arr' h5 b
  proof -
    have "max_of s h5 p \<noteq> None" using max_of_emitter[OF that(3)] .
    then obtain mx where "max_of s h5 p = Some mx" by blast
    then show ?thesis
      using start h4(1) f that(1,2) unfolding h_def[symmetric]
      by (simp add: add_listener_def is_function_def as_map_def h_def[symmetric] split del: if_split)
  qed
  have em4: "emitter h4 p ev" using kept_emitter[OF k4] em by (simp add: h_def)
  show ?thesis
  proof (cases prepend)
    case False
    obtain b where b: "arr_push_at h4 arr ?e = Some (put_arr h4 arr b)" "arr_ok b" "arr_vals b = es @ [?e]"
      using arr_push_at_ok[of h4 arr a ?e] rg'(6-8) h4(5) len by auto
    let ?h5 = "put_arr h4 arr b"
    have "emitter ?h5 p ev" using em4 by (rule kept_emitter[rotated]) simp
    moreover have "arrs ?h5 arr = Some b" by (simp add: heap_simps)
    moreover have "heap_ok ?h5" using h4(2,5) rg'(6) by (simp add: heap_simps)
    moreover have "registered ?h5 ev name arr (es @ [?e])"
      using rg' ev4 b ev by (auto simp: registered_def map_at_other heap_simps)
    moreover have "is_entry ?h5 ?e (f, once)" using h4(3) by (simp add: is_entry_def map_at_other)
    ultimately show ?thesis
      using fin[of arr ?h5 b] b(1) False k4 h4(5) by (auto simp: h_def heap_simps)
  next
    case True
    let ?neu = "nxt h4" and ?ha = "snd (new_arr h4 ts_array_new)"
    have ha: "heap_ok ?ha" "new_arr h4 ts_array_new = (?neu, ?ha)" "arrs ?ha ?neu = Some ts_array_new" "arrs ?ha arr = Some a"
      "?neu \<noteq> arr" "map_at ?ha ev ef"
      using h4(2,5) rg'(6) heap_ok_fresh(2)[OF h4(2)] ev4
      by (auto simp: heap_simps prod_eq_iff map_at_def)
    obtain b where b: "arr_push_at ?ha ?neu ?e = Some (put_arr ?ha ?neu b)" "arr_ok b" "arr_vals b = [?e]"
      using arr_push_at_ok[of ?ha ?neu ts_array_new ?e] ha(3) by (auto simp: ARR_LIMIT_def)
    let ?hb = "put_arr ?ha ?neu b"
    obtain c where c: "push_range ?hb arr ?neu (a_length a) = Some (put_arr ?hb ?neu c)" "arr_ok c" "arr_vals c = ?e # es"
      using push_range_ok[of ?hb arr a ?neu b] ha(4,5) rg'(7,8) b len by (auto simp: heap_simps)
    let ?hc = "put_arr ?hb ?neu c"
    have "map_at ?hc ev ef" "heap_ok ?hc" using ha by (simp_all add: map_at_other heap_simps)
    from map_set_step[OF this rg'(3), of name "VArray ?neu"] obtain hd where hd:
      "map_set ?hc ev name (VArray ?neu) = Some hd" "map_at hd ev (ef(name \<mapsto> VArray ?neu))" "heap_ok hd"
      "strs hd = strs ?hc" "arrs hd = arrs ?hc" "\<forall>q. q \<noteq> ev \<longrightarrow> objs hd q = objs ?hc q" by blast
    have "kept {ev} h4 hd" using hd(4,6) by (auto simp: kept_def heap_simps)
    moreover have "emitter hd p ev" using kept_emitter[OF \<open>kept {ev} h4 hd\<close> em4] .
    moreover have "arrs hd ?neu = Some c" using hd(5) by (simp add: heap_simps)
    moreover have "dom (ef(name \<mapsto> VArray ?neu)) = dom ef" using rg'(5) by auto
    then have "registered hd ev name ?neu (?e # es)"
      using rg' hd(2) c(2,3) ev \<open>arrs hd ?neu = Some c\<close> heap_ok_fresh(4)[OF h4(2)] unfolding registered_def
      by (intro conjI exI[of _ "ef(name \<mapsto> VArray ?neu)"] exI[of _ c]) auto
    moreover have "is_entry hd ?e (f, once)" using kept_entry[OF \<open>kept {ev} h4 hd\<close> h4(3)] ev by simp
    moreover have "(\<forall>r. r \<noteq> arr \<and> r < nxt h \<longrightarrow> arrs hd r = arrs h r)"
      using hd(5) h4(5,7) by (simp add: heap_simps)
    moreover have "arrs ?hb arr = Some a" using ha(4,5) by (simp add: heap_simps)
    moreover have "new_arr h4 ts_array_new = (?neu, ?ha)" using ha(2) .
    moreover define t where
      "t = s\<lparr>ev_heap := hd, ev_err := ev_err s @ warn_max_listeners name (a_length c) (the (max_of s hd p))\<rparr>"
    ultimately have "add_listener s (VObject p) (VString q) (VFunction f) once prepend = Some (VObject p, t)"
      unfolding t_def using True b(1) c(1) hd(1) by (intro fin) (simp_all add: Let_def case_prod_beta heap_simps)
    moreover have "ev_heap t = hd" by (simp add: t_def)
    moreover have "kept {ev} h hd" using kept_trans[OF k4 \<open>kept {ev} h4 hd\<close>] .
    ultimately show ?thesis
      using True hd(3) \<open>emitter hd p ev\<close> \<open>registered hd ev name ?neu (?e # es)\<close> \<open>is_entry hd ?e (f, once)\<close>
        \<open>\<forall>r. r \<noteq> arr \<and> r < nxt h \<longrightarrow> arrs hd r = arrs h r\<close>
      by (intro exI[of _ t] exI[of _ ?neu]) (simp add: h_def)
  qed
qed


text \<open>Adding a listener puts one entry for it at the end of the event's list, or at its head when
  it is prepended, marked when it is for one call only; the listeners already there stay, in
  their order, and the emitter stays one.\<close>

theorem node_events_add:
  assumes "heap_ok (ev_heap s)" "emitter (ev_heap s) p ev" "registered (ev_heap s) ev name arr es"
    and "list_all2 (is_entry (ev_heap s)) es fs" "str_at (ev_heap s) q name" "f \<noteq> 0" "length es + 1 < ARR_LIMIT"
  shows "\<exists>s' arr' es'. add_listener s (VObject p) (VString q) (VFunction f) once prepend = Some (VObject p, s') \<and>
    heap_ok (ev_heap s') \<and> emitter (ev_heap s') p ev \<and> registered (ev_heap s') ev name arr' es' \<and>
    list_all2 (is_entry (ev_heap s')) es' (if prepend then (f, once) # fs else fs @ [(f, once)])"
proof -
  let ?e = "VObject (nxt (ev_heap s))"
  obtain s' arr' where s': "add_listener s (VObject p) (VString q) (VFunction f) once prepend = Some (VObject p, s')"
    "heap_ok (ev_heap s')" "emitter (ev_heap s') p ev"
    "registered (ev_heap s') ev name arr' (if prepend then ?e # es else es @ [?e])"
    "is_entry (ev_heap s') ?e (f, once)" "kept {ev} (ev_heap s) (ev_heap s')"
    using add_listener_ok[OF assms(1-3,5-7)] by blast
  have "VObject ev \<notin> set es" using assms(3) by (auto simp: registered_def)
  then have "list_all2 (is_entry (ev_heap s')) es fs"
    using assms(4) kept_entry[OF s'(6)] by (auto simp: list_all2_conv_all_nth in_set_conv_nth)
  then have "list_all2 (is_entry (ev_heap s')) (if prepend then ?e # es else es @ [?e])
      (if prepend then (f, once) # fs else fs @ [(f, once)])"
    using s'(5) by (simp add: list_all2_appendI)
  then show ?thesis using s'(1-4) by blast
qed

subsection \<open>Emitting\<close>

text \<open>
  What the listeners of an event may do while it is emitted: anything that returns, leaves the
  entries being called alone, keeps the emitter an emitter and the name one of its events, and
  does not reach into the array that collects the entries to keep, whose address they are not
  given.
\<close>

definition emitting :: "addr \<Rightarrow> addr \<Rightarrow> addr \<Rightarrow> string \<Rightarrow> tsvalue list \<Rightarrow> (addr \<times> bool) list \<Rightarrow> heap \<Rightarrow> bool" where
  "emitting p ev q name es fs h \<longleftrightarrow> heap_ok h \<and> emitter h p ev \<and> str_at h q name \<and>
     list_all2 (is_entry h) es fs \<and> VObject ev \<notin> set es \<and>
     (\<exists>ef. map_at h ev ef \<and> card (dom ef) < HM_LIMIT \<and> name \<in> dom ef)"

definition polite :: "ev_code \<Rightarrow> addr \<Rightarrow> addr \<Rightarrow> addr \<Rightarrow> string \<Rightarrow> tsvalue list \<Rightarrow> (addr \<times> bool) list \<Rightarrow> addr \<Rightarrow> bool" where
  "polite call p ev q name es fs r \<longleftrightarrow> (\<forall>f vs s. emitting p ev q name es fs (ev_heap s) \<longrightarrow> arrs (ev_heap s) r \<noteq> None \<longrightarrow>
     (\<exists>v s'. call f vs s = Some (v, s') \<and> emitting p ev q name es fs (ev_heap s') \<and>
        arrs (ev_heap s') r = arrs (ev_heap s) r))"

lemma emitting_put_arr:
  "emitting p ev q name es fs h \<Longrightarrow> arrs h r \<noteq> None \<Longrightarrow> emitting p ev q name es fs (put_arr h r b)"
  by (auto simp: emitting_def heap_simps map_at_other is_entry_def list_all2_conv_all_nth str_at_def emitter_def)

lemma emit_loop_ok:
  assumes "polite call p ev q name es0 fs0 r" "emitting p ev q name es0 fs0 (ev_heap s)"
    and "list_all2 (\<lambda>e f. \<exists>i < length es0. es0 ! i = e \<and> fs0 ! i = f) es fs"
    and "arrs (ev_heap s) r = Some a" "arr_ok a" "length (arr_vals a) + length es \<le> ARR_LIMIT"
  shows "\<exists>s' b. emit_loop call args r es s = Some s' \<and> emitting p ev q name es0 fs0 (ev_heap s') \<and>
    arrs (ev_heap s') r = Some b \<and> arr_ok b \<and>
    arr_vals b = arr_vals a @ map fst (filter (\<lambda>(e, f, once). \<not> once) (zip es fs))"
  using assms(2-)
proof (induction es arbitrary: s fs a)
  case Nil
  then show ?case by auto
next
  case (Cons e es)
  obtain f once gs where fs: "fs = (f, once) # gs"
    using Cons.prems(2) by (auto simp: list_all2_Cons1)
  obtain i where i: "i < length es0" "es0 ! i = e" "fs0 ! i = (f, once)" using Cons.prems(2) fs by auto
  have "is_entry (ev_heap s) e (f, once)"
    using Cons.prems(1) i by (auto simp: emitting_def dest: list_all2_nthD)
  note e = entry_reads[OF this]
  have "arrs (ev_heap s) r \<noteq> None" using Cons.prems(3) by simp
  then obtain v s1 where
    "call f (map (\<lambda>i. if i < length args then args ! i else ts_value_undefined) [0..<4]) s = Some (v, s1)"
    and k: "emitting p ev q name es0 fs0 (ev_heap s1)" "arrs (ev_heap s1) r = Some a"
    using assms(1)[unfolded polite_def, rule_format, OF Cons.prems(1)] unfolding Cons.prems(3) by blast
  then have c: "call_listener call (VFunction f) args s = Some s1" using e(3) by (simp add: call_listener_def)
  have rest: "list_all2 (\<lambda>e f. \<exists>i < length es0. es0 ! i = e \<and> fs0 ! i = f) es gs" using Cons.prems(2) fs by simp
  show ?case
  proof (cases once)
    case True
    then show ?thesis using Cons.IH[OF k(1) rest k(2) Cons.prems(4)] Cons.prems(5) fs e c by simp
  next
    case False
    obtain b where b: "arr_push_at (ev_heap s1) r e = Some (put_arr (ev_heap s1) r b)" "arr_ok b" "arr_vals b = arr_vals a @ [e]"
      using arr_push_at_ok[OF k(2) Cons.prems(4), of e] Cons.prems(5) by auto
    let ?s2 = "s1\<lparr>ev_heap := put_arr (ev_heap s1) r b\<rparr>"
    have "emitting p ev q name es0 fs0 (ev_heap ?s2)" using emitting_put_arr[OF k(1), of r] k(2) by simp
    from Cons.IH[OF this rest _ b(2)] b(3) Cons.prems(5) show ?thesis
      using fs False e c b(1) by (simp add: heap_simps)
  qed
qed


subsection \<open>Concrete instances\<close>

text \<open>A listener that removes every listener of its event.\<close>

definition clearing :: ev_code where
  "clearing f vs s = node_events_removeAllListeners s (VObject 6) (VString 1)"

lemma clearing_polite:
  "polite clearing 6 ev 1 name es fs r"
  unfolding polite_def
proof (intro allI impI)
  fix f vs and s :: evs
  assume em: "emitting 6 ev 1 name es fs (ev_heap s)" and r: "arrs (ev_heap s) r \<noteq> None"
  define h where "h = ev_heap s"
  obtain ef where ef: "map_at h ev ef" "card (dom ef) < HM_LIMIT" "name \<in> dom ef" and em': "heap_ok h" "emitter h 6 ev"
    "str_at h 1 name" "list_all2 (is_entry h) es fs" "VObject ev \<notin> set es"
    using em by (auto simp: emitting_def h_def)
  let ?h2 = "snd (new_arr h ts_array_new)"
  have "map_at ?h2 ev ef" "heap_ok ?h2" using ef(1) em'(1) by (simp_all add: map_at_def heap_simps)
  from map_set_step[OF this ef(2), of name "VArray (nxt h)"] obtain h3 where h3:
    "map_set ?h2 ev name (VArray (nxt h)) = Some h3" "map_at h3 ev (ef(name \<mapsto> VArray (nxt h)))" "heap_ok h3"
    "strs h3 = strs ?h2" "arrs h3 = arrs ?h2" "\<forall>q. q \<noteq> ev \<longrightarrow> objs h3 q = objs ?h2 q" by blast
  have k: "kept {ev} h h3" using h3(4,6) by (auto simp: kept_def heap_simps)
  have "dom (ef(name \<mapsto> VArray (nxt h))) = dom ef" using ef(3) by auto
  moreover have "list_all2 (is_entry h3) es fs"
    using em'(4,5) kept_entry[OF k] by (auto simp: list_all2_conv_all_nth in_set_conv_nth)
  ultimately have "emitting 6 ev 1 name es fs h3"
    using h3(2,3) em' ef kept_emitter[OF k] kept_str_at[OF k] unfolding emitting_def by metis
  moreover have "arrs h3 r = arrs h r"
    using h3(5) r heap_ok_fresh(2)[OF em'(1)] by (auto simp: heap_simps h_def)
  moreover have "clearing f vs s = Some (VObject 6, s\<lparr>ev_heap := h3\<rparr>)"
    using emitter_is[OF em'(2)] emitter_events_of[OF em'(2)] em'(2) text_of_string[OF em'(3)] h3(1)
    by (simp add: clearing_def node_events_removeAllListeners_def h_def emitter_def case_prod_beta heap_simps)
  ultimately show "\<exists>v s'. clearing f vs s = Some (v, s') \<and> emitting 6 ev 1 name es fs (ev_heap s') \<and>
      arrs (ev_heap s') r = arrs (ev_heap s) r"
    by (auto simp: h_def)
qed


text \<open>An emitter at 6 with one listener for \<^verbatim>\<open>data\<close>, the function 7.\<close>

lemma demo_emitter:
  "\<exists>s :: evs. heap_ok (ev_heap s) \<and> emitter (ev_heap s) 6 5 \<and> registered (ev_heap s) 5 ''data'' 3 [VObject 4] \<and>
     is_entry (ev_heap s) (VObject 4) (7, False) \<and> str_at (ev_heap s) 1 ''data''"
proof -
  have lim: "card (dom (hm_lookup (ts_hashmap_new :: tsvalue hashmap))) + 3 \<le> HM_LIMIT" by (simp add: HM_LIMIT_def)
  obtain m4 :: "tsvalue hashmap" where m4: "hm_inv m4" "hm_lookup m4 = [''fn'' \<mapsto> VFunction 7, ''once'' \<mapsto> ts_value_boolean False]"
    using hm.update_all[OF hm_inv_new, of "[(''fn'', VFunction 7), (''once'', ts_value_boolean False)]"] lim by fastforce
  obtain m5 :: "tsvalue hashmap" where m5: "hm_inv m5" "hm_lookup m5 = [''data'' \<mapsto> VArray 3]"
    using hm.update_all[OF hm_inv_new, of "[(''data'', VArray 3)]"] lim by fastforce
  obtain m6 :: "tsvalue hashmap" where m6: "hm_inv m6"
    "hm_lookup m6 = [''_type'' \<mapsto> VString 2, ''_maxListeners'' \<mapsto> VNumber (dint 10), ''_events'' \<mapsto> VObject 5]"
    using hm.update_all[OF hm_inv_new, of "[(''_type'', VString 2), (''_maxListeners'', VNumber (dint 10)), (''_events'', VObject 5)]"] lim
    by fastforce
  obtain a :: "tsvalue tsarray" where a: "arr_ok a" "arr_vals a = [VObject 4]"
    using tsa.build[of "[VObject 4]"] by (auto simp: ARR_LIMIT_def)
  define h where "h = \<lparr>nxt = 7, strs = [1 \<mapsto> \<lparr>s_refcount = 1, s_data = ''data''\<rparr>, 2 \<mapsto> \<lparr>s_refcount = 1, s_data = ''EventEmitter''\<rparr>],
    arrs = [3 \<mapsto> a], objs = [4 \<mapsto> OMap m4, 5 \<mapsto> OMap m5, 6 \<mapsto> OMap m6]\<rparr>"
  have maps: "map_at h 4 (hm_lookup m4)" "map_at h 5 (hm_lookup m5)" "map_at h 6 (hm_lookup m6)"
    using m4 m5 m6 by (simp_all add: h_def map_at_def)
  have "heap_ok h" by (auto simp: heap_ok_def h_def)
  moreover have "str_at h 1 ''data''" "str_at h 2 ''EventEmitter''" by (simp_all add: str_at_def h_def)
  moreover have "emitter h 6 5"
    using maps(3) \<open>str_at h 2 ''EventEmitter''\<close> m6(2)
    using d_to_int_dint[of 10]
    by (auto simp: emitter_def fits32_def int32_max_def int32_min_def intro!: exI[of _ "hm_lookup m6"] simp del: d_to_int.simps)
  moreover have "card (dom (hm_lookup m5)) < HM_LIMIT" by (simp add: m5(2) HM_LIMIT_def)
  then have "registered h 5 ''data'' 3 [VObject 4]"
    using maps(2) a unfolding registered_def
    by (intro conjI exI[of _ "hm_lookup m5"] exI[of _ a]) (simp_all add: m5(2) h_def)
  moreover have "is_entry h (VObject 4) (7, False)"
    using maps(1) m4(2) by (auto simp: is_entry_def intro!: exI[of _ "hm_lookup m4"])
  ultimately show ?thesis
    by (intro exI[of _ "\<lparr>ev_heap = h, g_default_max_listeners = 10, ev_err = []\<rparr>"]) simp
qed

lemma node_events_add_witness:
  "\<exists>s s' arr es. add_listener s (VObject 6) (VString 1) (VFunction 9) True False = Some (VObject 6, s') \<and>
    registered (ev_heap s) 5 ''data'' 3 [VObject 4] \<and> registered (ev_heap s') 5 ''data'' arr es \<and>
    list_all2 (is_entry (ev_heap s')) es [(7, False), (9, True)]"
proof -
  obtain s :: evs where s: "heap_ok (ev_heap s)" "emitter (ev_heap s) 6 5" "registered (ev_heap s) 5 ''data'' 3 [VObject 4]"
    "is_entry (ev_heap s) (VObject 4) (7, False)" "str_at (ev_heap s) 1 ''data''"
    using demo_emitter by blast
  have "list_all2 (is_entry (ev_heap s)) [VObject 4] [(7, False)]" using s(4) by simp
  from node_events_add[OF s(1-3) this s(5), of 9 True False] s(3) show ?thesis
    by (simp add: ARR_LIMIT_def) metis
qed


end
