(* ===== verification/Ts_Url.thy ===== *)
theory Ts_Url
  imports Ts_Objmap
begin

text \<open>
  The \<^verbatim>\<open>URL\<close> of \<^verbatim>\<open>runtime/src/runtime.c\<close>: the parser and the accessors. The scanning is a function of
  the text; the three lengths it computes by subtracting pointers are undefined when negative,
  since they go to \<^verbatim>\<open>malloc\<close> and \<^verbatim>\<open>memcpy\<close>.
\<close>

subsection \<open>Scanning\<close>

record url_text =
  ut_protocol :: "nat option"
  ut_host :: string
  ut_hostname :: string
  ut_port :: string
  ut_pathname :: "string option"
  ut_search :: "string option"
  ut_hash :: "string option"

definition first_of :: "nat option list \<Rightarrow> nat \<Rightarrow> nat" where
  "first_of os d = (case filter (\<lambda>x. x \<noteq> None) os of Some i # _ \<Rightarrow> i | _ \<Rightarrow> d)"

text \<open>The text from one offset to another.\<close>

definition text_span :: "string \<Rightarrow> nat \<Rightarrow> nat \<Rightarrow> string option" where
  "text_span s i e = (if i \<le> e then Some (take (e - i) (drop i s)) else None)"

definition url_scan :: "string \<Rightarrow> url_text option" where
  "url_scan text = (let
      proto = strstr text ''://'';
      s = (case proto of Some i \<Rightarrow> drop (i + 3) text | None \<Rightarrow> text);
      pathStart = strchr s (CHR ''/'');
      queryStart = strchr s (CHR ''?'');
      hashStart = strchr s (CHR ''#'');
      hostEnd = first_of [pathStart, queryStart, hashStart] (length s);
      hostBuf = take (if hostEnd \<ge> 1024 then 1023 else hostEnd) s;
      colon = strchr hostBuf (CHR '':'')
    in do {
      path \<leftarrow> (case pathStart of None \<Rightarrow> Some None
                | Some i \<Rightarrow> map_option Some (text_span s i (first_of [queryStart, hashStart] (length s))));
      search \<leftarrow> (case queryStart of None \<Rightarrow> Some None
                  | Some i \<Rightarrow> map_option Some (text_span s i (first_of [hashStart] (length s))));
      Some \<lparr>ut_protocol = map_option (\<lambda>i. i + 3) proto, ut_host = hostBuf,
            ut_hostname = (case colon of Some i \<Rightarrow> take i hostBuf | None \<Rightarrow> hostBuf),
            ut_port = (case colon of Some i \<Rightarrow> drop (Suc i) hostBuf | None \<Rightarrow> []),
            ut_pathname = path, ut_search = search,
            ut_hash = map_option (\<lambda>i. drop i s) hashStart\<rparr> })"

subsection \<open>Construction\<close>

definition or_keep :: "heap \<Rightarrow> addr \<Rightarrow> string option \<Rightarrow> (addr \<times> heap) option" where
  "or_keep h p s = (case s of Some t \<Rightarrow> ts_string_new h t | None \<Rightarrow> Some (p, h))"

definition ts_url_new :: "heap \<Rightarrow> addr \<Rightarrow> (tsvalue \<times> heap) option" where
  "ts_url_new h urlStr = do {
     data \<leftarrow> str_data h urlStr;
     (pr0, h1) \<leftarrow> ts_string_new h [];
     (ho0, h2) \<leftarrow> ts_string_new h1 [];
     (hn0, h3) \<leftarrow> ts_string_new h2 [];
     (po0, h4) \<leftarrow> ts_string_new h3 [];
     (pa0, h5) \<leftarrow> ts_string_new h4 ''/'';
     (se0, h6) \<leftarrow> ts_string_new h5 [];
     (ha0, h7) \<leftarrow> ts_string_new h6 [];
     (or0, h8) \<leftarrow> ts_string_new h7 [];
     u \<leftarrow> url_scan (cstr data);
     (pr, h9) \<leftarrow> (case ut_protocol u of
         Some n \<Rightarrow> ts_string_substring h8 urlStr 0 (int n) | None \<Rightarrow> Some (pr0, h8));
     (ho, h10) \<leftarrow> ts_string_new h9 (ut_host u);
     (hn, h11) \<leftarrow> ts_string_new h10 (ut_hostname u);
     (po, h12) \<leftarrow> ts_string_new h11 (ut_port u);
     (pa, h13) \<leftarrow> or_keep h12 pa0 (ut_pathname u);
     (se, h14) \<leftarrow> or_keep h13 se0 (ut_search u);
     (ha, h15) \<leftarrow> or_keep h14 ha0 (ut_hash u);
     (orig, h16) \<leftarrow> ts_string_concat h15 pr ho;
     Some (new_value h16 (OUrl \<lparr>u_href = urlStr, u_protocol = pr, u_host = ho, u_hostname = hn, u_port = po,
       u_pathname = pa, u_search = se, u_hash = ha, u_origin = orig\<rparr>)) }"

subsection \<open>Accessors\<close>

fun sel_url :: "object \<Rightarrow> url option" where
  "sel_url (OUrl u) = Some u"
| "sel_url _ = None"

definition url_field :: "(url \<Rightarrow> addr) \<Rightarrow> heap \<Rightarrow> tsvalue \<Rightarrow> (addr \<times> heap) option" where
  "url_field f h v = do {
     r \<leftarrow> tagged sel_url h v;
     case r of Some u \<Rightarrow> Some (f u, h) | None \<Rightarrow> ts_string_new h [] }"

definition ts_url_href :: "heap \<Rightarrow> tsvalue \<Rightarrow> (addr \<times> heap) option" where
  "ts_url_href h v = url_field u_href h v"

definition ts_url_protocol :: "heap \<Rightarrow> tsvalue \<Rightarrow> (addr \<times> heap) option" where
  "ts_url_protocol h v = url_field u_protocol h v"

definition ts_url_host :: "heap \<Rightarrow> tsvalue \<Rightarrow> (addr \<times> heap) option" where
  "ts_url_host h v = url_field u_host h v"

definition ts_url_hostname :: "heap \<Rightarrow> tsvalue \<Rightarrow> (addr \<times> heap) option" where
  "ts_url_hostname h v = url_field u_hostname h v"

definition ts_url_port :: "heap \<Rightarrow> tsvalue \<Rightarrow> (addr \<times> heap) option" where
  "ts_url_port h v = url_field u_port h v"

definition ts_url_pathname :: "heap \<Rightarrow> tsvalue \<Rightarrow> (addr \<times> heap) option" where
  "ts_url_pathname h v = url_field u_pathname h v"

definition ts_url_search :: "heap \<Rightarrow> tsvalue \<Rightarrow> (addr \<times> heap) option" where
  "ts_url_search h v = url_field u_search h v"

definition ts_url_hash :: "heap \<Rightarrow> tsvalue \<Rightarrow> (addr \<times> heap) option" where
  "ts_url_hash h v = url_field u_hash h v"

definition ts_url_toString :: "heap \<Rightarrow> tsvalue \<Rightarrow> (addr \<times> heap) option" where
  "ts_url_toString h v = ts_url_href h v"

definition ts_url_origin :: "heap \<Rightarrow> tsvalue \<Rightarrow> (addr \<times> heap) option" where
  "ts_url_origin h v = url_field u_origin h v"

subsection \<open>The scan of a well-formed URL\<close>

text \<open>The parts of a URL, and the text they make.\<close>

record url_parts =
  pt_scheme :: string
  pt_hostname :: string
  pt_port :: "string option"
  pt_path :: string
  pt_search :: string
  pt_hash :: string

definition host_of :: "url_parts \<Rightarrow> string" where
  "host_of u = pt_hostname u @ (case pt_port u of Some p \<Rightarrow> '':'' @ p | None \<Rightarrow> [])"

definition url_string :: "url_parts \<Rightarrow> string" where
  "url_string u = pt_scheme u @ ''://'' @ host_of u @ pt_path u @ pt_search u @ pt_hash u"

definition url_ok :: "url_parts \<Rightarrow> bool" where
  "url_ok u \<longleftrightarrow> CHR '':'' \<notin> set (pt_scheme u) \<and> CHR '':'' \<notin> set (pt_hostname u) \<and>
     set (host_of u) \<inter> {CHR ''/'', CHR ''?'', CHR ''#''} = {} \<and> length (host_of u) < 1024 \<and>
     (pt_path u = [] \<or> hd (pt_path u) = CHR ''/'') \<and> set (pt_path u) \<inter> {CHR ''?'', CHR ''#''} = {} \<and>
     (pt_search u = [] \<or> hd (pt_search u) = CHR ''?'') \<and> CHR ''#'' \<notin> set (pt_search u) \<and>
     (pt_hash u = [] \<or> hd (pt_hash u) = CHR ''#'') \<and>
     (pt_search u = [] \<longrightarrow> CHR ''?'' \<notin> set (pt_hash u)) \<and>
     (pt_path u = [] \<longrightarrow> CHR ''/'' \<notin> set (pt_search u @ pt_hash u)) \<and>
     NUL \<notin> set (url_string u) \<and> length (url_string u) \<le> 5000"

lemma strstr_sep:
  "CHR '':'' \<notin> set a \<Longrightarrow> strstr (a @ ''://'' @ r) ''://'' = Some (length a)"
  by (induction a) auto

lemma strchr_at: "x \<notin> set a \<Longrightarrow> strchr (a @ x # r) x = Some (length a)"
  by (simp add: strchr_append_notin)

lemma strchr_none: "x \<notin> set a \<Longrightarrow> strchr a x = None"
  by (simp add: strchr_None)

text \<open>Where a part that is empty or begins with its mark starts.\<close>

lemma strchr_part:
  assumes "x \<notin> set a" "b = [] \<or> hd b = x" "b = [] \<Longrightarrow> x \<notin> set c"
  shows "strchr (a @ b @ c) x = (if b = [] then None else Some (length a))"
proof (cases b)
  case Nil
  then show ?thesis using assms by (simp add: strchr_none)
next
  case (Cons y ys)
  then show ?thesis using assms(1,2) strchr_at[of x a "ys @ c"] by simp
qed

lemma url_scan_ok:
  assumes "url_ok u"
  shows "url_scan (url_string u) = Some \<lparr>ut_protocol = Some (length (pt_scheme u) + 3), ut_host = host_of u,
    ut_hostname = pt_hostname u, ut_port = (case pt_port u of Some p \<Rightarrow> p | None \<Rightarrow> []),
    ut_pathname = (if pt_path u = [] then None else Some (pt_path u)),
    ut_search = (if pt_search u = [] then None else Some (pt_search u)),
    ut_hash = (if pt_hash u = [] then None else Some (pt_hash u))\<rparr>"
proof -
  let ?h = "host_of u" and ?p = "pt_path u" and ?q = "pt_search u" and ?f = "pt_hash u"
  define s where "s = ?h @ ?p @ ?q @ ?f"
  note ok = assms[unfolded url_ok_def]
  have proto: "strstr (url_string u) ''://'' = Some (length (pt_scheme u))"
    unfolding url_string_def using ok by (intro strstr_sep) blast
  have rest: "drop (length (pt_scheme u) + 3) (url_string u) = s"
    by (simp add: url_string_def s_def numeral_eq_Suc)
  have path: "strchr s (CHR ''/'') = (if ?p = [] then None else Some (length ?h))"
    unfolding s_def using ok by (intro strchr_part) auto
  have query: "strchr s (CHR ''?'') = (if ?q = [] then None else Some (length ?h + length ?p))"
    using strchr_part[of "CHR ''?''" "?h @ ?p" ?q ?f] ok by (auto simp: s_def)
  have hash: "strchr s (CHR ''#'') = (if ?f = [] then None else Some (length ?h + length ?p + length ?q))"
    using strchr_part[of "CHR ''#''" "?h @ ?p @ ?q" ?f "[]"] ok by (auto simp: s_def)
  have host: "first_of [strchr s (CHR ''/''), strchr s (CHR ''?''), strchr s (CHR ''#'')] (length s) = length ?h"
    by (simp add: path query hash first_of_def) (simp add: s_def)
  have len: "\<not> 1024 \<le> length ?h" "take (length ?h) s = ?h" using ok by (simp_all add: s_def)
  have port: "strchr ?h (CHR '':'') = (case pt_port u of Some p \<Rightarrow> Some (length (pt_hostname u)) | None \<Rightarrow> None)"
    using ok strchr_at[of "CHR '':''" "pt_hostname u"] strchr_none[of "CHR '':''" "pt_hostname u"]
    by (simp add: host_of_def split: option.split)
  have hn: "(case strchr ?h (CHR '':'') of Some i \<Rightarrow> take i ?h | None \<Rightarrow> ?h) = pt_hostname u"
    "(case strchr ?h (CHR '':'') of Some i \<Rightarrow> drop (Suc i) ?h | None \<Rightarrow> []) = (case pt_port u of Some p \<Rightarrow> p | None \<Rightarrow> [])"
    unfolding port by (simp_all add: host_of_def split: option.split)
  have pathname: "text_span s (length ?h) (first_of [strchr s (CHR ''?''), strchr s (CHR ''#'')] (length s)) = Some ?p"
    by (simp add: query hash first_of_def text_span_def) (simp add: s_def)
  have search: "text_span s (length ?h + length ?p) (first_of [strchr s (CHR ''#'')] (length s)) = Some ?q"
    by (simp add: hash first_of_def text_span_def) (simp add: s_def)
  have h: "drop (length ?h + length ?p + length ?q) s = ?f" by (simp add: s_def)
  show ?thesis
    unfolding url_scan_def Let_def proto option.simps rest host if_not_P[OF len(1)] len(2) hn
    using pathname search h by (auto simp: path query hash)
qed


subsection \<open>The object\<close>

definition field_is :: "(heap \<Rightarrow> tsvalue \<Rightarrow> (addr \<times> heap) option) \<Rightarrow> heap \<Rightarrow> tsvalue \<Rightarrow> string \<Rightarrow> bool" where
  "field_is f h v s \<longleftrightarrow> (\<exists>q. f h v = Some (q, h) \<and> str_at h q s)"

text \<open>A fresh string, and what it leaves as it was.\<close>

lemma new_string_step:
  assumes "heap_ok h" "NUL \<notin> set s" "length s \<le> 5000"
  shows "\<exists>q h'. ts_string_new h s = Some (q, h') \<and> heap_ok h' \<and> heap_ext h h' \<and> str_at h' q s"
  using new_text_step[OF assms(2,3,1)] by (auto simp: new_text_def bind_eq_Some_conv)

lemma fresh_step:
  assumes "heap_ok h" "r = Some (new_str h s)"
  shows "\<exists>q h'. r = Some (q, h') \<and> heap_ok h' \<and> heap_ext h h' \<and> str_at h' q s"
  using assms by (cases "new_str h s") (metis heap_ext_new(1) heap_ok_new(1) new_reads(1) str_at_new fst_conv snd_conv)

text \<open>A part that is empty keeps the string it had.\<close>

lemma or_keep_step:
  assumes "heap_ok h" "NUL \<notin> set x" "length x \<le> 5000" "str_at h p t0"
  shows "\<exists>q h'. or_keep h p (if x = [] then None else Some x) = Some (q, h') \<and> heap_ok h' \<and> heap_ext h h' \<and>
    str_at h' q (if x = [] then t0 else x)"
  using assms(1,4) new_string_step[OF assms(1-3)] by (auto simp: or_keep_def)

lemma ts_url_new_ok:
  assumes "heap_ok h" "str_at h p (url_string u)" "url_ok u"
  shows "\<exists>v h'. ts_url_new h p = Some (v, h') \<and> field_is ts_url_href h' v (url_string u) \<and>
    field_is ts_url_protocol h' v (pt_scheme u @ ''://'') \<and> field_is ts_url_host h' v (host_of u) \<and>
    field_is ts_url_hostname h' v (pt_hostname u) \<and>
    field_is ts_url_port h' v (case pt_port u of Some x \<Rightarrow> x | None \<Rightarrow> []) \<and>
    field_is ts_url_pathname h' v (if pt_path u = [] then ''/'' else pt_path u) \<and>
    field_is ts_url_search h' v (pt_search u) \<and> field_is ts_url_hash h' v (pt_hash u) \<and>
    field_is ts_url_origin h' v (pt_scheme u @ ''://'' @ host_of u)"
proof -
  note ok = assms(3)[unfolded url_ok_def]
  have nul: "NUL \<notin> set (url_string u)" "length (url_string u) \<le> 5000" using ok by blast+
  have parts: "NUL \<notin> set (host_of u)" "length (host_of u) \<le> 5000" "NUL \<notin> set (pt_hostname u)" "length (pt_hostname u) \<le> 5000"
    "NUL \<notin> set (pt_path u)" "length (pt_path u) \<le> 5000" "NUL \<notin> set (pt_search u)" "length (pt_search u) \<le> 5000"
    "NUL \<notin> set (pt_hash u)" "length (pt_hash u) \<le> 5000"
    "NUL \<notin> set (case pt_port u of Some x \<Rightarrow> x | None \<Rightarrow> [])" "length (case pt_port u of Some x \<Rightarrow> x | None \<Rightarrow> []) \<le> 5000"
    "length (pt_scheme u) + length (host_of u) \<le> 5000"
    using nul by (auto simp: url_string_def host_of_def split: option.splits)
  have scan: "url_scan (cstr (url_string u)) = url_scan (url_string u)" using nul by (simp add: cstr_id)
  note step = new_string_step[where s = "[]", simplified]
  obtain a1 h1 where 1: "ts_string_new h [] = Some (a1, h1)" "heap_ok h1" "heap_ext h h1" using step[OF assms(1)] by auto
  obtain a2 h2 where 2: "ts_string_new h1 [] = Some (a2, h2)" "heap_ok h2" "heap_ext h1 h2" using step[OF 1(2)] by auto
  obtain a3 h3 where 3: "ts_string_new h2 [] = Some (a3, h3)" "heap_ok h3" "heap_ext h2 h3" using step[OF 2(2)] by auto
  obtain a4 h4 where 4: "ts_string_new h3 [] = Some (a4, h4)" "heap_ok h4" "heap_ext h3 h4" using step[OF 3(2)] by auto
  obtain a5 h5 where 5: "ts_string_new h4 ''/'' = Some (a5, h5)" "heap_ok h5" "heap_ext h4 h5" "str_at h5 a5 ''/''"
    using new_string_step[OF 4(2), of "''/''"] by auto
  obtain a6 h6 where 6: "ts_string_new h5 [] = Some (a6, h6)" "heap_ok h6" "heap_ext h5 h6" "str_at h6 a6 []" using step[OF 5(2)] by auto
  obtain a7 h7 where 7: "ts_string_new h6 [] = Some (a7, h7)" "heap_ok h7" "heap_ext h6 h7" "str_at h7 a7 []" using step[OF 6(2)] by auto
  obtain a8 h8 where 8: "ts_string_new h7 [] = Some (a8, h8)" "heap_ok h8" "heap_ext h7 h8" using step[OF 7(2)] by auto
  note ext = heap_ext_trans
  have e8: "heap_ext h h8" "heap_ext h5 h8" "heap_ext h6 h8" "heap_ext h7 h8"
    using 1(3) 2(3) 3(3) 4(3) 5(3) 6(3) 7(3) 8(3) by (blast intro: ext)+
  let ?pr = "pt_scheme u @ ''://''"
  have "ts_string_substring h8 p 0 (int (length (pt_scheme u) + 3)) = Some (new_str h8 ?pr)"
    using ts_string_substring_eq[of h8 p "url_string u" 0 "int (length (pt_scheme u) + 3)"] str_at_ext[OF e8(1) assms(2)]
    by (simp add: url_string_def int32_max_def nat_add_distrib)
  from fresh_step[OF 8(2) this] obtain b1 h9 where 9: "ts_string_substring h8 p 0 (int (length (pt_scheme u) + 3)) = Some (b1, h9)"
    "heap_ok h9" "heap_ext h8 h9" "str_at h9 b1 ?pr" by blast
  obtain b2 h10 where 10: "ts_string_new h9 (host_of u) = Some (b2, h10)" "heap_ok h10" "heap_ext h9 h10" "str_at h10 b2 (host_of u)"
    using new_string_step[OF 9(2) parts(1,2)] by blast
  obtain b3 h11 where 11: "ts_string_new h10 (pt_hostname u) = Some (b3, h11)" "heap_ok h11" "heap_ext h10 h11" "str_at h11 b3 (pt_hostname u)"
    using new_string_step[OF 10(2) parts(3,4)] by blast
  obtain b4 h12 where 12: "ts_string_new h11 (case pt_port u of Some x \<Rightarrow> x | None \<Rightarrow> []) = Some (b4, h12)"
    "heap_ok h12" "heap_ext h11 h12" "str_at h12 b4 (case pt_port u of Some x \<Rightarrow> x | None \<Rightarrow> [])"
    using new_string_step[OF 11(2) parts(11,12)] by blast
  have e12: "heap_ext h9 h12" "heap_ext h10 h12" "heap_ext h11 h12" "heap_ext h8 h12"
    using 9(3) 10(3) 11(3) 12(3) by (blast intro: ext)+
  obtain b5 h13 where 13: "or_keep h12 a5 (if pt_path u = [] then None else Some (pt_path u)) = Some (b5, h13)"
    "heap_ok h13" "heap_ext h12 h13" "str_at h13 b5 (if pt_path u = [] then ''/'' else pt_path u)"
    using or_keep_step[OF 12(2) parts(5,6) str_at_ext[OF e12(4) str_at_ext[OF e8(2) 5(4)]]] by blast
  obtain b6 h14 where 14: "or_keep h13 a6 (if pt_search u = [] then None else Some (pt_search u)) = Some (b6, h14)"
    "heap_ok h14" "heap_ext h13 h14" "str_at h14 b6 (if pt_search u = [] then [] else pt_search u)"
    using or_keep_step[OF 13(2) parts(7,8) str_at_ext[OF ext[OF e12(4) 13(3)] str_at_ext[OF e8(3) 6(4)]]] by blast
  obtain b7 h15 where 15: "or_keep h14 a7 (if pt_hash u = [] then None else Some (pt_hash u)) = Some (b7, h15)"
    "heap_ok h15" "heap_ext h14 h15" "str_at h15 b7 (if pt_hash u = [] then [] else pt_hash u)"
    using or_keep_step[OF 14(2) parts(9,10) str_at_ext[OF ext[OF ext[OF e12(4) 13(3)] 14(3)] str_at_ext[OF e8(4) 7(4)]]] by blast
  have e15: "heap_ext h12 h15" "heap_ext h13 h15" using 13(3) 14(3) 15(3) by (blast intro: ext)+
  have "str_at h15 b1 ?pr" "str_at h15 b2 (host_of u)"
    using str_at_ext[OF ext[OF e12(1) e15(1)] 9(4)] str_at_ext[OF ext[OF e12(2) e15(1)] 10(4)] by blast+
  then have "ts_string_concat h15 b1 b2 = Some (new_str h15 (?pr @ host_of u))"
    using parts(13) by (simp add: ts_string_concat_eq[of h15 b1 ?pr b2 "host_of u"] data_or_empty_def str_at_nonnull int32_max_def)
  from fresh_step[OF 15(2) this] obtain b8 h16 where 16: "ts_string_concat h15 b1 b2 = Some (b8, h16)" "heap_ok h16"
    "heap_ext h15 h16" "str_at h16 b8 (?pr @ host_of u)" by blast
  have e16: "heap_ext h h16" "heap_ext h9 h16" "heap_ext h10 h16" "heap_ext h11 h16" "heap_ext h12 h16" "heap_ext h13 h16" "heap_ext h14 h16"
    using e8(1) 9(3) e12 e15 15(3) 16(3) by (blast intro: ext)+
  let ?o = "OUrl \<lparr>u_href = p, u_protocol = b1, u_host = b2, u_hostname = b3, u_port = b4,
       u_pathname = b5, u_search = b6, u_hash = b7, u_origin = b8\<rparr>"
  let ?h' = "snd (new_obj h16 ?o)" and ?v = "VObject (nxt h16)"
  have new: "ts_url_new h p = Some (?v, ?h')"
    using str_at_data[OF assms(2)] 1(1) 2(1) 3(1) 4(1) 5(1) 6(1) 7(1) 8(1) 9(1) 10(1) 11(1) 12(1) 13(1) 14(1) 15(1) 16(1)
    by (simp add: ts_url_new_def scan url_scan_ok[OF assms(3)] new_value_def case_prod_beta new_reads(3)
        split del: if_split del: ts_string_new_Nil)
  have fld: "field_is (url_field f) ?h' ?v s" if "str_at h16 (f \<lparr>u_href = p, u_protocol = b1, u_host = b2, u_hostname = b3,
       u_port = b4, u_pathname = b5, u_search = b6, u_hash = b7, u_origin = b8\<rparr>) s" for f s
    using that heap_ok_fresh(4)[OF 16(2)]
    by (simp add: field_is_def url_field_def tagged_def heap_simps str_at_def)
  have acc: "ts_url_href = url_field u_href" "ts_url_protocol = url_field u_protocol" "ts_url_host = url_field u_host"
    "ts_url_hostname = url_field u_hostname" "ts_url_port = url_field u_port" "ts_url_pathname = url_field u_pathname"
    "ts_url_search = url_field u_search" "ts_url_hash = url_field u_hash" "ts_url_origin = url_field u_origin"
    by (simp_all add: fun_eq_iff ts_url_href_def ts_url_protocol_def ts_url_host_def ts_url_hostname_def ts_url_port_def
        ts_url_pathname_def ts_url_search_def ts_url_hash_def ts_url_origin_def)
  have keep: "(if x = [] then [] else x) = x" for x :: string by simp
  show ?thesis
    unfolding acc
    by (intro exI[of _ ?v] exI[of _ ?h'] conjI new fld)
      (use str_at_ext[OF e16(1) assms(2)] str_at_ext[OF e16(2) 9(4)] str_at_ext[OF e16(3) 10(4)]
        str_at_ext[OF e16(4) 11(4)] str_at_ext[OF e16(5) 12(4)] str_at_ext[OF e16(6) 13(4)]
        str_at_ext[OF e16(7) 14(4)[unfolded keep]] str_at_ext[OF 16(3) 15(4)[unfolded keep]] 16(4) in simp_all)
qed


text \<open>C32. The parser takes a well-formed URL apart into its parts, an empty path standing for \<^verbatim>\<open>/\<close>; the
  protocol keeps its \<^verbatim>\<open>://\<close>, so that the origin is the protocol and the host. It assumes that
  the first slash belongs to the path: a slash in the query of a URL without a path makes the
  length of the path negative, which is undefined.\<close>

theorem ts_url_new_parts:
  assumes "heap_ok h" "str_at h p s"
  shows "(url_ok u \<and> s = url_string u \<longrightarrow> (\<exists>v h'. ts_url_new h p = Some (v, h') \<and>
      field_is ts_url_href h' v (url_string u) \<and>
      field_is ts_url_protocol h' v (pt_scheme u @ ''://'') \<and> field_is ts_url_host h' v (host_of u) \<and>
      field_is ts_url_hostname h' v (pt_hostname u) \<and>
      field_is ts_url_port h' v (case pt_port u of Some x \<Rightarrow> x | None \<Rightarrow> []) \<and>
      field_is ts_url_pathname h' v (if pt_path u = [] then ''/'' else pt_path u) \<and>
      field_is ts_url_search h' v (pt_search u) \<and> field_is ts_url_hash h' v (pt_hash u) \<and>
      field_is ts_url_origin h' v (pt_scheme u @ ''://'' @ host_of u))) \<and>
    (s = scheme @ ''://'' @ host @ ''?'' @ q @ ''/'' @ r \<and> CHR '':'' \<notin> set scheme \<and> NUL \<notin> set s \<and>
       CHR ''/'' \<notin> set (host @ q) \<and> CHR ''?'' \<notin> set host \<longrightarrow> ts_url_new h p = None)"
proof (intro conjI impI)
  assume u: "url_ok u \<and> s = url_string u"
  have "str_at h p (url_string u)" using u assms(2) by blast
  from ts_url_new_ok[OF assms(1) this conjunct1[OF u]] show "\<exists>v h'. ts_url_new h p = Some (v, h') \<and>
      field_is ts_url_href h' v (url_string u) \<and>
      field_is ts_url_protocol h' v (pt_scheme u @ ''://'') \<and> field_is ts_url_host h' v (host_of u) \<and>
      field_is ts_url_hostname h' v (pt_hostname u) \<and>
      field_is ts_url_port h' v (case pt_port u of Some x \<Rightarrow> x | None \<Rightarrow> []) \<and>
      field_is ts_url_pathname h' v (if pt_path u = [] then ''/'' else pt_path u) \<and>
      field_is ts_url_search h' v (pt_search u) \<and> field_is ts_url_hash h' v (pt_hash u) \<and>
      field_is ts_url_origin h' v (pt_scheme u @ ''://'' @ host_of u)" .
next
  assume a: "s = scheme @ ''://'' @ host @ ''?'' @ q @ ''/'' @ r \<and> CHR '':'' \<notin> set scheme \<and> NUL \<notin> set s \<and>
       CHR ''/'' \<notin> set (host @ q) \<and> CHR ''?'' \<notin> set host"
  define t where "t = host @ CHR ''?'' # q @ CHR ''/'' # r"
  have s: "s = scheme @ ''://'' @ t" "NUL \<notin> set s" using a by (auto simp: t_def)
  have "strstr s ''://'' = Some (length scheme)" unfolding s(1) using a by (intro strstr_sep) blast
  moreover have "drop (length scheme + 3) s = t" by (simp add: s(1) numeral_eq_Suc)
  moreover have "strchr t (CHR ''/'') = Some (length host + Suc (length q))"
    using a strchr_at[of "CHR ''/''" "host @ CHR ''?'' # q" r] by (simp add: t_def)
  moreover have "strchr t (CHR ''?'') = Some (length host)"
    using a strchr_at[of "CHR ''?''" host] by (simp add: t_def)
  ultimately have "url_scan s = None"
    by (simp add: url_scan_def Let_def text_span_def first_of_def)
  then show "ts_url_new h p = None"
    using str_at_data[OF assms(2)] s(2) by (simp add: ts_url_new_def cstr_id bind_eq_None_conv split: prod.split)
qed

lemma ts_url_new_parts_witness:
  "(\<exists>v h'. ts_url_new (snd (new_str empty_heap ''http://a.io:80/x?k#z'')) 1 = Some (v, h') \<and>
     field_is ts_url_hostname h' v ''a.io'' \<and> field_is ts_url_port h' v ''80'' \<and> field_is ts_url_pathname h' v ''/x'' \<and>
     field_is ts_url_search h' v ''?k'' \<and> field_is ts_url_hash h' v ''#z'' \<and> field_is ts_url_origin h' v ''http://a.io:80'') \<and>
   ts_url_new (snd (new_str empty_heap ''http://a.io?k=/x'')) 1 = None"
proof -
  have *: "heap_ok (snd (new_str empty_heap s))" "str_at (snd (new_str empty_heap s)) 1 s" for s
    using heap_ok_new(1)[OF heap_ok_empty] str_at_new[OF heap_ok_empty] by (simp_all add: empty_heap_def)
  define u where "u = \<lparr>pt_scheme = ''http'', pt_hostname = ''a.io'', pt_port = Some ''80'', pt_path = ''/x'', pt_search = ''?k'', pt_hash = ''#z''\<rparr>"
  have "url_ok u" "url_string u = ''http://a.io:80/x?k#z''" by (simp_all add: u_def url_ok_def url_string_def host_of_def)
  then show ?thesis
    using ts_url_new_parts[OF *(1,2)[of "''http://a.io:80/x?k#z''"], where u = u]
      ts_url_new_parts[OF *(1,2)[of "''http://a.io?k=/x''"], where scheme = "''http''" and host = "''a.io''" and q = "''k=''" and r = "''x''"]
    by (simp add: u_def host_of_def) metis
qed

end
