(* ===== verification/Ts_Date.thy ===== *)
theory Ts_Date
  imports Ts_Builtins
begin

text \<open>
  The dates of \<^verbatim>\<open>runtime/src/runtime.c\<close>: a timestamp is a double of milliseconds since 1970, taken
  apart by counting years and months from there. \<^verbatim>\<open>long\<close> has 64 bits. A conversion of a double
  that does not fit the integer type is undefined.
\<close>

subsection \<open>The calendar\<close>

definition is_leap_year :: "int \<Rightarrow> bool" where
  "is_leap_year y \<longleftrightarrow> c_mod y 4 = 0 \<and> (c_mod y 100 \<noteq> 0 \<or> c_mod y 400 = 0)"

definition year_len :: "int \<Rightarrow> int" where
  "year_len y = 365 + (if is_leap_year y then 1 else 0)"

definition month_lens :: "int \<Rightarrow> int list" where
  "month_lens y = [31, if is_leap_year y then 29 else 28, 31, 30, 31, 30, 31, 31, 30, 31, 30, 31]"

text \<open>The counting loops run over the years from 1970 and the months before the given one; a month
  past the table reads beyond it.\<close>

definition days_from_epoch :: "int \<Rightarrow> int \<Rightarrow> int \<Rightarrow> int option" where
  "days_from_epoch year month day =
    (if month > 13 then None
     else ck32 (sum_list (map year_len [1970..year - 1]) +
                sum_list (take (nat (month - 1)) (month_lens year)) + (day - 1)))"

subsection \<open>Parsing\<close>

record iso_date =
  dt_year :: int
  dt_month :: int
  dt_day :: int
  dt_hour :: int
  dt_min :: int
  dt_sec :: int
  dt_ms :: int

definition digit_at :: "string \<Rightarrow> nat \<Rightarrow> int option" where
  "digit_at s i = (if i < length s then Some (int (of_char (s ! i)) - 48)
                   else if i = length s then Some (- 48) else None)"

text \<open>
  The digits are read without a check. The string holds \<^verbatim>\<open>char\<close>s, taken to be below 128. The
  position just after the text is its NUL; a position further on is outside the string.
\<close>

definition digits2 :: "string \<Rightarrow> nat \<Rightarrow> int option" where
  "digits2 s i = do { a \<leftarrow> digit_at s i; b \<leftarrow> digit_at s (i + 1); Some (a * 10 + b) }"

definition parse_iso_date :: "string \<Rightarrow> iso_date option" where
  "parse_iso_date s = do {
     (y, mo, d) \<leftarrow> (if length s \<ge> 10 then do {
         a \<leftarrow> digit_at s 0; b \<leftarrow> digit_at s 1; c \<leftarrow> digit_at s 2; e \<leftarrow> digit_at s 3;
         mo \<leftarrow> digits2 s 5;
         d \<leftarrow> digits2 s 8;
         Some (a * 1000 + b * 100 + c * 10 + e, mo, d) } else Some (0, 0, 0));
     (h, mi, sc) \<leftarrow> (if length s \<ge> 13 \<and> s ! 10 = CHR ''T'' then do {
         h \<leftarrow> digits2 s 11; mi \<leftarrow> digits2 s 14; sc \<leftarrow> digits2 s 17; Some (h, mi, sc) } else Some (0, 0, 0));
     ms \<leftarrow> (if length s \<ge> 20 \<and> s ! 19 = CHR ''.'' then do {
         a \<leftarrow> digit_at s 20; b \<leftarrow> digit_at s 21; c \<leftarrow> digit_at s 22; Some (a * 100 + b * 10 + c) } else Some 0);
     Some \<lparr>dt_year = y, dt_month = mo, dt_day = d, dt_hour = h, dt_min = mi, dt_sec = sc, dt_ms = ms\<rparr> }"

definition date_parse_ts :: "heap \<Rightarrow> addr \<Rightarrow> dbl option" where
  "date_parse_ts h p =
    (if p = 0 then Some (dint 0)
     else do {
       s \<leftarrow> str_data h p;
       t \<leftarrow> parse_iso_date (cstr s);
       days \<leftarrow> days_from_epoch (dt_year t) (dt_month t) (dt_day t);
       Some (dadd (dadd (dadd (dadd (dmul (dint days) (dint 86400000)) (dmul (dint (dt_hour t)) (dint 3600000)))
                              (dmul (dint (dt_min t)) (dint 60000)))
                        (dmul (dint (dt_sec t)) (dint 1000)))
                  (dint (dt_ms t))) })"

subsection \<open>Taking a timestamp apart\<close>

definition d_to_int64 :: "dbl \<Rightarrow> int option" where
  "d_to_int64 d = (case fin d of
     Some r \<Rightarrow> (if - (2 ^ 63) \<le> rtrunc r \<and> rtrunc r < 2 ^ 63 then Some (rtrunc r) else None)
   | None \<Rightarrow> None)"

text \<open>The conversion of a wide integer to \<^verbatim>\<open>int\<close>.\<close>

definition to_int :: "int \<Rightarrow> int" where
  "to_int n = sint (word_of_int n :: 32 word)"

lemma year_len_bounds: "365 \<le> year_len y" "year_len y \<le> 366"
  by (simp_all add: year_len_def)

function year_up :: "int \<Rightarrow> int \<Rightarrow> int \<times> int" where
  "year_up y days = (if 0 \<le> days then
     (if days < year_len y then (y, days) else year_up (y + 1) (days - year_len y)) else (y, days))"
  by auto
termination
proof (relation "measure (\<lambda>(y, d). nat d)", goal_cases)
  case (2 y days)
  then show ?case using year_len_bounds[of y] by auto
qed simp

function year_down :: "int \<Rightarrow> int \<Rightarrow> int \<times> int" where
  "year_down y days = (if days < 0 then year_down (y - 1) (days + year_len (y - 1)) else (y, days))"
  by auto
termination
proof (relation "measure (\<lambda>(y, d). nat (- d))", goal_cases)
  case (2 y days)
  then show ?case using year_len_bounds[of "y - 1"] by auto
qed simp

declare year_up.simps [simp del] year_down.simps [simp del]

fun month_loop :: "int list \<Rightarrow> int \<Rightarrow> int \<Rightarrow> int \<times> int" where
  "month_loop [] m days = (m, days)"
| "month_loop (l # ls) m days = (if days \<ge> l then month_loop ls (m + 1) (days - l) else (m, days))"

definition timestamp_to_components :: "dbl \<Rightarrow> iso_date option" where
  "timestamp_to_components timestamp = do {
     ts \<leftarrow> d_to_int64 (ddiv timestamp (dint 1000));
     whole \<leftarrow> d_to_int64 timestamp;
     let ts1 = c_div ts 60; ts2 = c_div ts1 60; days0 = c_div ts2 24;
         (y1, d1) = year_up 1970 days0;
         (y, d) = year_down y1 d1;
         (m, day) = month_loop (month_lens y) 0 d
     in Some \<lparr>dt_year = to_int y, dt_month = m + 1, dt_day = to_int day + 1, dt_hour = c_mod ts2 24,
           dt_min = c_mod ts1 60, dt_sec = c_mod ts 60, dt_ms = c_mod whole 1000\<rparr> }"

definition date_getFullYear_ts :: "dbl \<Rightarrow> int option" where
  "date_getFullYear_ts ts = map_option dt_year (timestamp_to_components ts)"

definition date_getMonth_ts :: "dbl \<Rightarrow> int option" where
  "date_getMonth_ts ts = map_option (\<lambda>t. dt_month t - 1) (timestamp_to_components ts)"

definition date_getDate_ts :: "dbl \<Rightarrow> int option" where
  "date_getDate_ts ts = map_option dt_day (timestamp_to_components ts)"

definition date_getDay_ts :: "dbl \<Rightarrow> int option" where
  "date_getDay_ts ts = do {
     td \<leftarrow> d_to_int64 (ddiv ts (dint 86400000));
     td' \<leftarrow> (if dlt ts (DFin 0) then do {
               n \<leftarrow> d_to_int64 ts;
               Some (if c_mod n 86400000 \<noteq> 0 then td - 1 else td) }
            else Some td);
     Some (c_mod (td' + 4) 7) }"

definition date_getHours_ts :: "dbl \<Rightarrow> int option" where
  "date_getHours_ts ts = map_option dt_hour (timestamp_to_components ts)"

definition date_getMinutes_ts :: "dbl \<Rightarrow> int option" where
  "date_getMinutes_ts ts = map_option dt_min (timestamp_to_components ts)"

definition date_getSeconds_ts :: "dbl \<Rightarrow> int option" where
  "date_getSeconds_ts ts = map_option dt_sec (timestamp_to_components ts)"

definition date_getMilliseconds_ts :: "dbl \<Rightarrow> int option" where
  "date_getMilliseconds_ts ts = map_option dt_ms (timestamp_to_components ts)"

definition date_getTime_ts :: "dbl \<Rightarrow> dbl" where
  "date_getTime_ts ts = ts"

subsection \<open>Printing\<close>

definition dayNames :: "string list" where
  "dayNames = [''Sun'', ''Mon'', ''Tue'', ''Wed'', ''Thu'', ''Fri'', ''Sat'']"

definition monthNames :: "string list" where
  "monthNames = [''Jan'', ''Feb'', ''Mar'', ''Apr'', ''May'', ''Jun'', ''Jul'', ''Aug'', ''Sep'', ''Oct'', ''Nov'', ''Dec'']"

definition name_at :: "string list \<Rightarrow> int \<Rightarrow> string option" where
  "name_at ns i = (if 0 \<le> i \<and> i < int (length ns) then Some (ns ! nat i) else None)"

text \<open>\<^verbatim>\<open>%0nd\<close>\<close>

definition zpad :: "nat \<Rightarrow> int \<Rightarrow> string" where
  "zpad w n = (if n < 0 then CHR ''-'' # replicate (w - 1 - length (dec_str (nat (- n)))) (CHR ''0'') @ dec_str (nat (- n))
               else replicate (w - length (dec_str (nat n))) (CHR ''0'') @ dec_str (nat n))"

definition iso_text :: "iso_date \<Rightarrow> string" where
  "iso_text t = zpad 4 (dt_year t) @ ''-'' @ zpad 2 (dt_month t) @ ''-'' @ zpad 2 (dt_day t) @ ''T'' @
     zpad 2 (dt_hour t) @ '':'' @ zpad 2 (dt_min t) @ '':'' @ zpad 2 (dt_sec t) @ ''.'' @ zpad 3 (dt_ms t) @ ''Z''"

definition date_toISOString_ts :: "heap \<Rightarrow> dbl \<Rightarrow> (addr \<times> heap) option" where
  "date_toISOString_ts h ts = do {
     t \<leftarrow> timestamp_to_components ts;
     ts_string_new h (snprintf 32 (iso_text t)) }"

definition date_toDateString_ts :: "heap \<Rightarrow> dbl \<Rightarrow> (addr \<times> heap) option" where
  "date_toDateString_ts h ts = do {
     t \<leftarrow> timestamp_to_components ts;
     wd \<leftarrow> date_getDay_ts ts;
     dn \<leftarrow> name_at dayNames wd;
     mn \<leftarrow> name_at monthNames (dt_month t - 1);
     ts_string_new h (snprintf 64 (dn @ '' '' @ mn @ '' '' @ int_str (dt_day t) @ '' '' @ int_str (dt_year t))) }"

definition date_toTimeString_ts :: "heap \<Rightarrow> dbl \<Rightarrow> (addr \<times> heap) option" where
  "date_toTimeString_ts h ts = do {
     t \<leftarrow> timestamp_to_components ts;
     ts_string_new h (snprintf 32 (zpad 2 (dt_hour t) @ '':'' @ zpad 2 (dt_min t) @ '':'' @ zpad 2 (dt_sec t) @ '' GMT'')) }"

definition date_toLocaleString_ts :: "heap \<Rightarrow> dbl \<Rightarrow> (addr \<times> heap) option" where
  "date_toLocaleString_ts h ts = do {
     t \<leftarrow> timestamp_to_components ts;
     wd \<leftarrow> date_getDay_ts ts;
     dn \<leftarrow> name_at dayNames wd;
     mn \<leftarrow> name_at monthNames (dt_month t - 1);
     ts_string_new h (snprintf 64 (dn @ '' '' @ mn @ '' '' @ int_str (dt_day t) @ '' '' @ int_str (dt_year t) @ '' '' @
       zpad 2 (dt_hour t) @ '':'' @ zpad 2 (dt_min t) @ '':'' @ zpad 2 (dt_sec t) @ '' GMT'')) }"


subsection \<open>Rounding a quotient\<close>

lemma rhe_bounds: "\<lfloor>r\<rfloor> \<le> rhe r" "of_int (rhe r) \<le> r + 1 / 2"
proof -
  show "\<lfloor>r\<rfloor> \<le> rhe r" by (simp add: rhe_def Let_def)
  have "of_int \<lfloor>r\<rfloor> \<le> r" by simp
  then show "of_int (rhe r) \<le> r + 1 / 2"
    by (cases "r - of_int \<lfloor>r\<rfloor> < 1 / 2"; cases "r - of_int \<lfloor>r\<rfloor> > 1 / 2")
      (simp_all add: rhe_def Let_def, linarith+)
qed

text \<open>
  A quotient below \<open>2 ^ b\<close> that is not too close to the next integer keeps its integer part when
  it is rounded to a double.
\<close>

lemma rnd_floor:
  assumes "0 < x" "x < 2 ^ b" "b \<le> 50" "x + 1 / 2 ^ (54 - b) < of_int \<lfloor>x\<rfloor> + 1"
  shows "\<exists>v. rnd x = DFin v \<and> 0 \<le> v \<and> \<lfloor>v\<rfloor> = \<lfloor>x\<rfloor>"
proof -
  have "flog 2 x \<le> int b - 1"
  proof (cases "1 \<le> x")
    case True
    have "of_int \<lfloor>x\<rfloor> < (of_int (2 ^ b) :: rat)" using assms(2) by (simp add: floor_less_iff)
    then have "nat \<lfloor>x\<rfloor> < 2 ^ b" using assms(1) unfolding of_int_less_iff by (simp add: nat_less_iff)
    then have "ndig 2 (nat \<lfloor>x\<rfloor>) \<le> b" using True by (intro ndig_le) auto
    then show ?thesis using True by (simp add: flog_def)
  next
    case False
    have "1 < 1 / x" using False assms(1) by simp
    then have "0 < nat (\<lceil>1 / x\<rceil> - 1)" by (simp add: less_ceiling_iff)
    then have "0 < ndig 2 (nat (\<lceil>1 / x\<rceil> - 1))" by (simp add: ndig_pos)
    then show ?thesis using False by (simp add: flog_def)
  qed
  define q where "q = max (flog 2 x - 52) (- 1074)"
  define t where "t = nat (- q)"
  have q: "q \<le> int b - 53" "q \<le> 0" using \<open>flog 2 x \<le> int b - 1\<close> assms(3) by (auto simp: q_def)
  have t: "53 - b \<le> t" using q by (simp add: t_def)
  have p: "rpow 2 q = 1 / 2 ^ t" using q by (simp add: rpow_neg t_def)
  define v where "v = of_int (rhe (x * 2 ^ t)) / (2 ^ t :: rat)"
  have "(of_int (\<lfloor>x\<rfloor> * 2 ^ t) :: rat) \<le> x * 2 ^ t" by simp
  then have "\<lfloor>x\<rfloor> * 2 ^ t \<le> rhe (x * 2 ^ t)" using rhe_bounds(1)[of "x * 2 ^ t"] unfolding le_floor_iff[symmetric] by linarith
  then have "(of_int (\<lfloor>x\<rfloor> * 2 ^ t) :: rat) \<le> of_int (rhe (x * 2 ^ t))" by (simp only: of_int_le_iff)
  then have lo: "of_int \<lfloor>x\<rfloor> \<le> v" by (simp add: v_def field_simps)
  have "v \<le> (x * 2 ^ t + 1 / 2) / 2 ^ t" unfolding v_def by (intro divide_right_mono rhe_bounds) simp
  also have "\<dots> = x + 1 / 2 ^ Suc t" by (simp add: field_simps)
  also have "\<dots> \<le> x + 1 / 2 ^ (54 - b)"
    using t assms(3) by (intro add_left_mono divide_left_mono power_increasing) auto
  finally have hi: "v < of_int \<lfloor>x\<rfloor> + 1" using assms(4) by linarith
  have fl: "\<lfloor>v\<rfloor> = \<lfloor>x\<rfloor>" using lo hi by (intro floor_unique) auto
  have "0 \<le> \<lfloor>x\<rfloor>" using assms(1) by simp
  then have v0: "0 \<le> v" using lo by (meson of_int_0_le_iff order_trans)
  have "v < 2 ^ b + 1" using hi assms(2) of_int_floor_le[of x] by linarith
  also have "\<dots> \<le> 2 ^ 51" using power_increasing[of b 50 "2 :: rat"] assms(3) by simp
  also have "(2 :: rat) ^ 51 \<le> 2 ^ 1024" by (rule power_increasing) simp_all
  finally have big: "\<not> rpow 2 1024 \<le> v" by (simp add: rpow_def)
  have v: "of_int (rhe (x / rpow 2 q)) * rpow 2 q = v" by (simp add: p v_def)
  have "rnd x = (if v = 0 then DFin 0 else DFin v)"
    unfolding rnd_def Let_def abs_of_pos[OF assms(1)] q_def[symmetric] v using big assms(1) by simp
  then show ?thesis using fl v0 by (intro exI[of _ v]) auto
qed

text \<open>The quotient of two integers.\<close>

lemma ddiv_floor:
  assumes "0 \<le> n" "0 < m" "m < 2 ^ (54 - b)" "n < m * 2 ^ b" "b \<le> 50"
  shows "d_to_int64 (ddiv (dint n) (dint m)) = Some (n div m)"
proof (cases "n = 0")
  case True
  then show ?thesis using assms by (simp add: ddiv_def Let_def zero_of_def d_to_int64_def rtrunc_def)
next
  case False
  let ?x = "of_int n / of_int m :: rat"
  have x: "0 < ?x" using assms False by simp
  have "(of_int n :: rat) < of_int (m * 2 ^ b)" using assms(4) by (simp only: of_int_less_iff)
  then have "?x < 2 ^ b" using assms(2) by (simp add: field_simps)
  have fl: "\<lfloor>?x\<rfloor> = n div m" by (simp add: floor_divide_of_int_eq)
  have "n + 1 \<le> (n div m + 1) * m" 
  proof -
    have "(n div m + 1) * m = m * (n div m) + m" by (simp add: algebra_simps)
    then show ?thesis using pos_mod_bound[OF assms(2), of n] mult_div_mod_eq[of m n] by linarith
  qed
  then have "(of_int (n + 1) :: rat) \<le> of_int ((n div m + 1) * m)" by (simp only: of_int_le_iff)
  then have "?x + 1 / of_int m \<le> of_int \<lfloor>?x\<rfloor> + 1" using assms(2) by (simp add: fl field_simps)
  moreover have "(of_int m :: rat) < of_int (2 ^ (54 - b))" using assms(3) by (simp only: of_int_less_iff)
  then have "(1 :: rat) / 2 ^ (54 - b) < 1 / of_int m" using assms(2) by (intro divide_strict_left_mono) auto
  ultimately obtain v where v: "rnd ?x = DFin v" "0 \<le> v" "\<lfloor>v\<rfloor> = n div m"
    using rnd_floor[OF x \<open>?x < 2 ^ b\<close>] assms(5) fl by fastforce
  have "n div m \<le> n" using zdiv_mono2[of n 1 m] assms(1,2) by simp
  have "m * 2 ^ b \<le> 2 ^ (54 - b) * 2 ^ b" using assms(3) by (intro mult_right_mono) auto
  also have "\<dots> = (2 :: int) ^ 54" using assms(5) by (simp flip: power_add)
  finally have "n < 2 ^ 54" using assms(4) by linarith
  then have "n div m < 2 ^ 63" using \<open>n div m \<le> n\<close> by simp
  moreover have "0 \<le> n div m" using assms(1,2) by (simp add: pos_imp_zdiv_nonneg_iff)
  moreover have "rtrunc v = n div m" using v(2,3) by (simp add: rtrunc_def)
  moreover have "ddiv (dint n) (dint m) = DFin v" using False assms(2) v(1) by (simp add: ddiv_def)
  ultimately show ?thesis by (simp add: d_to_int64_def)
qed


text \<open>Sums and products of integers that stay below \<open>2 ^ 53\<close> are exact.\<close>

lemma dmul_int: "0 \<le> a \<Longrightarrow> 0 \<le> b \<Longrightarrow> a * b < 2 ^ 53 \<Longrightarrow> dmul (dint a) (dint b) = dint (a * b)"
  using rnd_of_int[of "a * b"] by (auto simp: dmul_def Let_def zero_of_def not_less)

lemma dadd_int: "0 \<le> a \<Longrightarrow> 0 \<le> b \<Longrightarrow> a + b < 2 ^ 53 \<Longrightarrow> dadd (dint a) (dint b) = dint (a + b)"
  using rnd_of_int[of "a + b"] by (simp add: dadd_def)

subsection \<open>The calendar\<close>

lemma leap_mod: "is_leap_year y \<longleftrightarrow> y mod 4 = 0 \<and> (y mod 100 \<noteq> 0 \<or> y mod 400 = 0)" if "0 \<le> y"
  using that by (simp add: is_leap_year_def)

text \<open>The number of leap years up to a year.\<close>

definition leaps :: "int \<Rightarrow> int" where
  "leaps y = y div 4 - y div 100 + y div 400"

lemma div_pred:
  assumes "(0 :: int) < k" shows "y div k = (y - 1) div k + (if y mod k = 0 then 1 else 0)"
proof (cases "y mod k = 0")
  case True
  have "y - 1 = k * (y div k - 1) + (k - 1)" using True mult_div_mod_eq[of k y] by (simp add: right_diff_distrib)
  then have "(y - 1) div k = y div k - 1" using assms int_div_pos_eq[of "y - 1" k "y div k - 1" "k - 1"] by simp
  then show ?thesis using True by simp
next
  case False
  have "0 < y mod k" using False pos_mod_sign[OF assms, of y] by simp
  moreover have "y - 1 = k * (y div k) + (y mod k - 1)" using mult_div_mod_eq[of k y] by linarith
  ultimately have "(y - 1) div k = y div k" 
    using int_div_pos_eq[of "y - 1" k "y div k" "y mod k - 1"] pos_mod_bound[OF assms, of y] by simp
  then show ?thesis using False by simp
qed

lemma leaps_step:
  assumes "0 \<le> y" shows "leaps y = leaps (y - 1) + (if is_leap_year y then 1 else 0)"
proof -
  have *: "y mod 400 = 0 \<longrightarrow> y mod 100 = 0" "y mod 100 = 0 \<longrightarrow> y mod 4 = 0"
    unfolding mod_eq_0_iff_dvd using dvd_trans[of 100 400 y] dvd_trans[of 4 100 y] by simp_all
  have arith: "(r \<longrightarrow> q) \<Longrightarrow> (q \<longrightarrow> p) \<Longrightarrow> (a + (if p then 1 else 0)) - (b + (if q then 1 else 0)) + (c + (if r then 1 else 0)) =
      a - b + c + (if p \<and> (\<not> q \<or> r) then 1 else 0)" for a b c :: int and p q r
    by (cases p; cases q; cases r) simp_all
  have d: "y div 4 = (y - 1) div 4 + (if y mod 4 = 0 then 1 else 0)" "y div 100 = (y - 1) div 100 + (if y mod 100 = 0 then 1 else 0)"
    "y div 400 = (y - 1) div 400 + (if y mod 400 = 0 then 1 else 0)"
    by (rule div_pred, simp)+
  show ?thesis unfolding leaps_def[of y] d leap_mod[OF assms] arith[OF *] leaps_def[of "y - 1"] ..
qed

definition years_days :: "int \<Rightarrow> int" where
  "years_days y = sum_list (map year_len [1970..y - 1])"

lemma years_days_simps: "years_days 1970 = 0" "1970 \<le> y \<Longrightarrow> years_days (y + 1) = years_days y + year_len y"
  using upto_rec2[of 1970 y] by (simp_all add: years_days_def)

lemma years_days_eq: "1970 \<le> y \<Longrightarrow> years_days y = 365 * (y - 1970) + leaps (y - 1) - 477"
proof (induction y rule: int_ge_induct)
  case base
  show ?case by (simp add: years_days_simps leaps_def)
next
  case (step y)
  then show ?case using leaps_step[of y] by (simp add: years_days_simps year_len_def)
qed

lemma year_up_ok:
  "0 \<le> d \<Longrightarrow> 1970 \<le> y \<Longrightarrow> \<exists>y' r. year_up y d = (y', r) \<and> y \<le> y' \<and> 0 \<le> r \<and> r < year_len y' \<and>
     years_days y + d = years_days y' + r"
proof (induction y d rule: year_up.induct)
  case (1 y d)
  show ?case
  proof (cases "d < year_len y")
    case True
    then show ?thesis using "1.prems" by (subst year_up.simps) simp
  next
    case False
    then obtain y' r where "year_up (y + 1) (d - year_len y) = (y', r)" "y + 1 \<le> y'" "0 \<le> r" "r < year_len y'"
      "years_days (y + 1) + (d - year_len y) = years_days y' + r"
      using "1.IH"[OF "1.prems"(1) False] "1.prems" by auto
    with False show ?thesis using "1.prems" by (subst year_up.simps) (simp add: years_days_simps)
  qed
qed

lemma month_loop_ok:
  "0 \<le> d \<Longrightarrow> d < sum_list ls \<Longrightarrow> \<exists>k r. month_loop ls m d = (m + int k, r) \<and> k < length ls \<and> 0 \<le> r \<and> r < ls ! k \<and>
     d = sum_list (take k ls) + r"
proof (induction ls arbitrary: m d)
  case (Cons l ls)
  show ?case
  proof (cases "d \<ge> l")
    case True
    then obtain k r where "month_loop ls (m + 1) (d - l) = (m + 1 + int k, r)" "k < length ls" "0 \<le> r" "r < ls ! k"
      "d - l = sum_list (take k ls) + r"
      using Cons.IH[of "d - l" "m + 1"] Cons.prems by auto
    then show ?thesis using True by (intro exI[of _ "Suc k"] exI[of _ r]) auto
  next
    case False
    then show ?thesis using Cons.prems by (intro exI[of _ 0] exI[of _ d]) auto
  qed
qed simp

lemma month_lens_ok: "sum_list (month_lens y) = year_len y" "length (month_lens y) = 12"
  by (simp_all add: month_lens_def year_len_def)

lemma month_len_le: "k < 12 \<Longrightarrow> month_lens y ! k \<le> 31"
  by (auto simp: month_lens_def numeral_eq_Suc less_Suc_eq nth_Cons')

lemma days_sum_nonneg: "0 \<le> years_days y" "k \<le> 12 \<Longrightarrow> 0 \<le> sum_list (take k (month_lens y))"
proof -
  show "0 \<le> years_days y" unfolding years_days_def by (intro sum_list_nonneg) (auto simp: year_len_def)
  show "0 \<le> sum_list (take k (month_lens y))" by (intro sum_list_nonneg) (auto simp: month_lens_def dest!: in_set_takeD)
qed


subsection \<open>Components\<close>

text \<open>The first millisecond of the year 10000.\<close>

definition DATE_LIMIT :: int where
  "DATE_LIMIT = 253402300800000"

lemma years_to_10000: "years_days 10000 = 2932897"
  by (simp add: years_days_eq leaps_def)

lemma years_days_mono: "y \<le> z \<Longrightarrow> 1970 \<le> y \<Longrightarrow> years_days y \<le> years_days z"
proof (induction z rule: int_ge_induct)
  case (step z)
  then show ?case using year_len_bounds(1)[of z] by (simp add: years_days_simps)
qed simp

lemma to_int_id: "fits32 n \<Longrightarrow> to_int n = n"
  unfolding to_int_def sint_sbintrunc'
  by (rule signed_take_bit_int_eq_self) (simp_all add: fits32_def int32_max_def int32_min_def)

lemma d_to_int64_dint: "0 \<le> n \<Longrightarrow> n < 2 ^ 63 \<Longrightarrow> d_to_int64 (dint n) = Some n"
  by (simp add: d_to_int64_def)

lemma components_ok:
  assumes "0 \<le> n" "n < DATE_LIMIT"
  shows "\<exists>t. timestamp_to_components (dint n) = Some t \<and> 1970 \<le> dt_year t \<and> dt_year t \<le> 9999 \<and>
    1 \<le> dt_month t \<and> dt_month t \<le> 12 \<and> 1 \<le> dt_day t \<and> dt_day t \<le> 31 \<and>
    0 \<le> dt_hour t \<and> dt_hour t < 24 \<and> 0 \<le> dt_min t \<and> dt_min t < 60 \<and> 0 \<le> dt_sec t \<and> dt_sec t < 60 \<and>
    0 \<le> dt_ms t \<and> dt_ms t < 1000 \<and>
    days_from_epoch (dt_year t) (dt_month t) (dt_day t) = Some (n div 86400000) \<and>
    n = (n div 86400000) * 86400000 + dt_hour t * 3600000 + dt_min t * 60000 + dt_sec t * 1000 + dt_ms t"
proof -
  define s0 s1 s2 d0 where "s0 = n div 1000" and "s1 = s0 div 60" and "s2 = s1 div 60" and "d0 = s2 div 24"
  have nn: "0 \<le> s0" "0 \<le> s1" "0 \<le> s2" "0 \<le> d0"
    using assms(1) by (simp_all add: s0_def s1_def s2_def d0_def pos_imp_zdiv_nonneg_iff)
  have d0: "d0 = n div 86400000" by (simp add: s0_def s1_def s2_def d0_def zdiv_zmult2_eq[symmetric])
  have lim: "d0 < 2932897" using assms(2) by (simp add: d0 DATE_LIMIT_def div_less_iff_less_mult)
  have "d_to_int64 (ddiv (dint n) (dint 1000)) = Some s0"
    unfolding s0_def using assms by (intro ddiv_floor[where b = 38]) (simp_all add: DATE_LIMIT_def)
  note c1 = this
  have c2: "d_to_int64 (dint n) = Some n" using assms by (intro d_to_int64_dint) (simp_all add: DATE_LIMIT_def)
  obtain y r where y: "year_up 1970 d0 = (y, r)" "1970 \<le> y" "0 \<le> r" "r < year_len y" "d0 = years_days y + r"
    using year_up_ok[OF nn(4), of 1970] by (auto simp: years_days_simps)
  obtain k q where k: "month_loop (month_lens y) 0 r = (int k, q)" "k < 12" "0 \<le> q" "q < month_lens y ! k"
    "r = sum_list (take k (month_lens y)) + q"
    using month_loop_ok[of r "month_lens y" 0] y(3,4) month_lens_ok[of y] by auto
  have "y \<le> 9999"
  proof (rule ccontr)
    assume "\<not> y \<le> 9999"
    then have "2932897 \<le> years_days y" using years_days_mono[of 10000 y] years_to_10000 by simp
    then show False using lim y(3,5) by linarith
  qed
  have q: "q < 31" using k(4) month_len_le[OF k(2), of y] by linarith
  have "year_down y r = (y, r)" using y(3) by (simp add: year_down.simps[of y r])
  moreover have "to_int y = y" "to_int q = q" using y(2) \<open>y \<le> 9999\<close> k(3) q by (auto intro!: to_int_id fits32I simp: int32_max_def)
  ultimately have t: "timestamp_to_components (dint n) = Some \<lparr>dt_year = y, dt_month = int k + 1, dt_day = q + 1,
      dt_hour = s2 mod 24, dt_min = s1 mod 60, dt_sec = s0 mod 60, dt_ms = n mod 1000\<rparr>"
    using nn assms(1) c1 c2 y(1) k(1)
    by (simp add: timestamp_to_components_def Let_def s1_def[symmetric] s2_def[symmetric] d0_def[symmetric])
  have "days_from_epoch y (int k + 1) (q + 1) = ck32 d0"
    using k(2,5) y(5) by (simp add: days_from_epoch_def years_days_def add.assoc)
  then have de: "days_from_epoch y (int k + 1) (q + 1) = Some (n div 86400000)"
    using nn(4) lim by (simp add: d0 fits32I int32_max_def)
  have "n = d0 * 86400000 + s2 mod 24 * 3600000 + s1 mod 60 * 60000 + s0 mod 60 * 1000 + n mod 1000"
    using mult_div_mod_eq[of 1000 n] mult_div_mod_eq[of 60 s0] mult_div_mod_eq[of 60 s1] mult_div_mod_eq[of 24 s2]
    unfolding s0_def[symmetric] s1_def[symmetric] s2_def[symmetric] d0_def[symmetric] by linarith
  with t de \<open>y \<le> 9999\<close> y(2) k(2,3) q show ?thesis unfolding d0
    by (intro exI[of _ "\<lparr>dt_year = y, dt_month = int k + 1, dt_day = q + 1,
      dt_hour = s2 mod 24, dt_min = s1 mod 60, dt_sec = s0 mod 60, dt_ms = n mod 1000\<rparr>"]) simp
qed

subsection \<open>The ISO text\<close>

lemma dec_str_1: "n < 10 \<Longrightarrow> dec_str n = [digit_char n]"
  by (simp add: dec_str.simps)

lemma dec_str_2: "10 \<le> n \<Longrightarrow> n < 100 \<Longrightarrow> dec_str n = [digit_char (n div 10), digit_char (n mod 10)]"
  by (simp add: dec_str.simps[of n] dec_str_1)

lemma dec_str_3: "100 \<le> n \<Longrightarrow> n < 1000 \<Longrightarrow>
    dec_str n = [digit_char (n div 100), digit_char (n div 10 mod 10), digit_char (n mod 10)]"
  by (simp add: dec_str.simps[of n] dec_str_2 div_mult2_eq[symmetric])

lemma zpad_2: "0 \<le> n \<Longrightarrow> n < 100 \<Longrightarrow> zpad 2 n = [digit_char (nat n div 10), digit_char (nat n mod 10)]"
  by (cases "nat n < 10") (simp_all add: zpad_def dec_str_1 dec_str_2 digit_char_0)

lemma zpad_3: "0 \<le> n \<Longrightarrow> n < 1000 \<Longrightarrow>
    zpad 3 n = [digit_char (nat n div 100), digit_char (nat n div 10 mod 10), digit_char (nat n mod 10)]"
proof -
  assume n: "0 \<le> n" "n < 1000"
  consider "nat n < 10" | "10 \<le> nat n" "nat n < 100" | "100 \<le> nat n" by linarith
  then show ?thesis
    using n by cases (auto simp: zpad_def dec_str_1 dec_str_2 dec_str_3 digit_char_0 numeral_3_eq_3)
qed

lemma zpad_4: "1000 \<le> n \<Longrightarrow> n < 10000 \<Longrightarrow> zpad 4 n =
    [digit_char (nat n div 1000), digit_char (nat n div 100 mod 10), digit_char (nat n div 10 mod 10), digit_char (nat n mod 10)]"
proof -
  assume n: "1000 \<le> n" "n < 10000"
  have "dec_str (nat n) = dec_str (nat n div 10) @ [digit_char (nat n mod 10)]" using n by (simp add: dec_str.simps[of "nat n"])
  also have "dec_str (nat n div 10) = [digit_char (nat n div 1000), digit_char (nat n div 100 mod 10), digit_char (nat n div 10 mod 10)]"
    using n by (subst dec_str_3) (auto simp: div_mult2_eq[symmetric])
  finally show ?thesis using n by (simp add: zpad_def)
qed


text \<open>Reading back a text made of the right digits.\<close>

lemma digit_char_NUL: "d < 10 \<Longrightarrow> digit_char d \<noteq> NUL"
proof -
  assume "d < 10"
  moreover have "\<not> is_digit NUL" by code_simp
  ultimately show ?thesis using is_digit_digit_char[of d] by metis
qed

definition iso_digits :: "nat list \<Rightarrow> string" where
  "iso_digits ds = (let c = (\<lambda>i. digit_char (ds ! i)) in
     [c 0, c 1, c 2, c 3, CHR ''-'', c 4, c 5, CHR ''-'', c 6, c 7, CHR ''T'', c 8, c 9, CHR '':'', c 10, c 11, CHR '':'',
      c 12, c 13, CHR ''.'', c 14, c 15, c 16, CHR ''Z''])"

lemma parse_digits:
  assumes "\<forall>i < 17. ds ! i < 10"
  shows "parse_iso_date (iso_digits ds) =
    Some \<lparr>dt_year = int (ds ! 0 * 1000 + ds ! 1 * 100 + ds ! 2 * 10 + ds ! 3), dt_month = int (ds ! 4 * 10 + ds ! 5),
      dt_day = int (ds ! 6 * 10 + ds ! 7), dt_hour = int (ds ! 8 * 10 + ds ! 9), dt_min = int (ds ! 10 * 10 + ds ! 11),
      dt_sec = int (ds ! 12 * 10 + ds ! 13), dt_ms = int (ds ! 14 * 100 + ds ! 15 * 10 + ds ! 16)\<rparr>"
    "NUL \<notin> set (iso_digits ds)" "length (iso_digits ds) = 24"
proof -
  have v: "int (of_char (digit_char (ds ! i))) - 48 = int (ds ! i)" "digit_char (ds ! i) \<noteq> NUL" if "i < 17" for i
    using assms that digit_char_NUL by simp_all
  show "parse_iso_date (iso_digits ds) =
    Some \<lparr>dt_year = int (ds ! 0 * 1000 + ds ! 1 * 100 + ds ! 2 * 10 + ds ! 3), dt_month = int (ds ! 4 * 10 + ds ! 5),
      dt_day = int (ds ! 6 * 10 + ds ! 7), dt_hour = int (ds ! 8 * 10 + ds ! 9), dt_min = int (ds ! 10 * 10 + ds ! 11),
      dt_sec = int (ds ! 12 * 10 + ds ! 13), dt_ms = int (ds ! 14 * 100 + ds ! 15 * 10 + ds ! 16)\<rparr>"
    by (simp add: parse_iso_date_def digits2_def digit_at_def iso_digits_def Let_def v)
  show "NUL \<notin> set (iso_digits ds)" "length (iso_digits ds) = 24"
    using v(2)[THEN not_sym] by (simp_all add: iso_digits_def Let_def)
qed

lemma split_digits:
  fixes n :: nat
  shows "n < 100 \<Longrightarrow> n div 10 * 10 + n mod 10 = n" "n div 100 * 100 + n div 10 mod 10 * 10 + n mod 10 = n"
    "n div 1000 * 1000 + n div 100 mod 10 * 100 + n div 10 mod 10 * 10 + n mod 10 = n"
proof -
  note a = div_mult_mod_eq[of n 10] and b = div_mult_mod_eq[of "n div 10" 10] and c = div_mult_mod_eq[of "n div 100" 10]
  have d: "n div 10 div 10 = n div 100" "n div 100 div 10 = n div 1000" by (simp_all flip: div_mult2_eq)
  show "n div 10 * 10 + n mod 10 = n" using a by simp
  show "n div 100 * 100 + n div 10 mod 10 * 10 + n mod 10 = n" using a b unfolding d by linarith
  show "n div 1000 * 1000 + n div 100 mod 10 * 100 + n div 10 mod 10 * 10 + n mod 10 = n"
    using a b c unfolding d by linarith
qed

lemma int_digits:
  "0 \<le> v \<Longrightarrow> v < 100 \<Longrightarrow> int (nat v div 10 * 10 + nat v mod 10) = v"
  "0 \<le> v \<Longrightarrow> int (nat v div 100 * 100 + nat v div 10 mod 10 * 10 + nat v mod 10) = v"
  "0 \<le> v \<Longrightarrow> int (nat v div 1000 * 1000 + nat v div 100 mod 10 * 100 + nat v div 10 mod 10 * 10 + nat v mod 10) = v"
  using split_digits[of "nat v"] by (simp_all only: nat_less_iff int_nat_eq if_True)

lemma parse_iso_text:
  assumes "1000 \<le> dt_year t" "dt_year t < 10000" "0 \<le> dt_month t" "dt_month t < 100" "0 \<le> dt_day t" "dt_day t < 100"
    and "0 \<le> dt_hour t" "dt_hour t < 100" "0 \<le> dt_min t" "dt_min t < 100" "0 \<le> dt_sec t" "dt_sec t < 100"
    and "0 \<le> dt_ms t" "dt_ms t < 1000"
  shows "parse_iso_date (iso_text t) = Some t" "NUL \<notin> set (iso_text t)" "length (iso_text t) = 24"
proof -
  let ?y = "nat (dt_year t)" and ?k = "nat (dt_ms t)"
  define ds where "ds = [?y div 1000, ?y div 100 mod 10, ?y div 10 mod 10, ?y mod 10, nat (dt_month t) div 10, nat (dt_month t) mod 10,
      nat (dt_day t) div 10, nat (dt_day t) mod 10, nat (dt_hour t) div 10, nat (dt_hour t) mod 10, nat (dt_min t) div 10,
      nat (dt_min t) mod 10, nat (dt_sec t) div 10, nat (dt_sec t) mod 10, ?k div 100, ?k div 10 mod 10, ?k mod 10]"
  have e: "iso_text t = iso_digits ds"
    using assms by (simp add: iso_text_def zpad_2 zpad_3 zpad_4 iso_digits_def ds_def)
  have "\<forall>d \<in> set ds. d < 10"
    using assms by (simp add: ds_def div_less_iff_less_mult nat_less_iff)
  moreover have "length ds = 17" by (simp add: ds_def)
  ultimately have d: "\<forall>i < 17. ds ! i < 10" by (metis nth_mem)
  have nth: "ds ! 0 = ?y div 1000" "ds ! 1 = ?y div 100 mod 10" "ds ! 2 = ?y div 10 mod 10" "ds ! 3 = ?y mod 10"
    "ds ! 4 = nat (dt_month t) div 10" "ds ! 5 = nat (dt_month t) mod 10" "ds ! 6 = nat (dt_day t) div 10"
    "ds ! 7 = nat (dt_day t) mod 10" "ds ! 8 = nat (dt_hour t) div 10" "ds ! 9 = nat (dt_hour t) mod 10"
    "ds ! 10 = nat (dt_min t) div 10" "ds ! 11 = nat (dt_min t) mod 10" "ds ! 12 = nat (dt_sec t) div 10"
    "ds ! 13 = nat (dt_sec t) mod 10" "ds ! 14 = ?k div 100" "ds ! 15 = ?k div 10 mod 10" "ds ! 16 = ?k mod 10"
    by (simp_all add: ds_def)
  have n: "int (ds ! 0 * 1000 + ds ! 1 * 100 + ds ! 2 * 10 + ds ! 3) = dt_year t" "int (ds ! 4 * 10 + ds ! 5) = dt_month t"
    "int (ds ! 6 * 10 + ds ! 7) = dt_day t" "int (ds ! 8 * 10 + ds ! 9) = dt_hour t" "int (ds ! 10 * 10 + ds ! 11) = dt_min t"
    "int (ds ! 12 * 10 + ds ! 13) = dt_sec t" "int (ds ! 14 * 100 + ds ! 15 * 10 + ds ! 16) = dt_ms t"
    unfolding nth by (intro int_digits; use assms in simp)+
  show "parse_iso_date (iso_text t) = Some t" unfolding e parse_digits(1)[OF d] n by simp
  show "NUL \<notin> set (iso_text t)" "length (iso_text t) = 24" unfolding e by (rule parse_digits[OF d])+
qed

lemma date_sum:
  assumes "0 \<le> d" "d < 2932897" "0 \<le> h" "h < 24" "0 \<le> mi" "mi < 60" "0 \<le> sc" "sc < 60" "0 \<le> ms" "ms < 1000"
  shows "dadd (dadd (dadd (dadd (dmul (dint d) (dint 86400000)) (dmul (dint h) (dint 3600000))) (dmul (dint mi) (dint 60000)))
      (dmul (dint sc) (dint 1000))) (dint ms) = dint (d * 86400000 + h * 3600000 + mi * 60000 + sc * 1000 + ms)"
proof -
  have m: "dmul (dint d) (dint 86400000) = dint (d * 86400000)" "dmul (dint h) (dint 3600000) = dint (h * 3600000)"
    "dmul (dint mi) (dint 60000) = dint (mi * 60000)" "dmul (dint sc) (dint 1000) = dint (sc * 1000)"
    by (rule dmul_int; use assms in simp)+
  have a: "dadd (dint (d * 86400000)) (dint (h * 3600000)) = dint (d * 86400000 + h * 3600000)"
    "dadd (dint (d * 86400000 + h * 3600000)) (dint (mi * 60000)) = dint (d * 86400000 + h * 3600000 + mi * 60000)"
    "dadd (dint (d * 86400000 + h * 3600000 + mi * 60000)) (dint (sc * 1000)) = dint (d * 86400000 + h * 3600000 + mi * 60000 + sc * 1000)"
    "dadd (dint (d * 86400000 + h * 3600000 + mi * 60000 + sc * 1000)) (dint ms) =
      dint (d * 86400000 + h * 3600000 + mi * 60000 + sc * 1000 + ms)"
    by (rule dadd_int; use assms in simp)+
  show ?thesis unfolding m a ..
qed

text \<open>C28. Parsing the ISO text of a timestamp gives the timestamp back, to the millisecond, from 1970
  to the end of the year 9999.\<close>

theorem date_iso_roundtrip:
  assumes "heap_ok h" "0 \<le> n" "n < DATE_LIMIT"
  shows "\<exists>p h'. date_toISOString_ts h (dint n) = Some (p, h') \<and> date_parse_ts h' p = Some (dint n)"
proof -
  obtain t where t: "timestamp_to_components (dint n) = Some t" "1970 \<le> dt_year t" "dt_year t \<le> 9999"
    "1 \<le> dt_month t" "dt_month t \<le> 12" "1 \<le> dt_day t" "dt_day t \<le> 31"
    "0 \<le> dt_hour t" "dt_hour t < 24" "0 \<le> dt_min t" "dt_min t < 60" "0 \<le> dt_sec t" "dt_sec t < 60" "0 \<le> dt_ms t" "dt_ms t < 1000"
    "days_from_epoch (dt_year t) (dt_month t) (dt_day t) = Some (n div 86400000)"
    "n = (n div 86400000) * 86400000 + dt_hour t * 3600000 + dt_min t * 60000 + dt_sec t * 1000 + dt_ms t"
    using components_ok[OF assms(2,3)] by blast
  have iso: "parse_iso_date (iso_text t) = Some t" "NUL \<notin> set (iso_text t)" "length (iso_text t) = 24"
    using parse_iso_text[of t] t(2-15) by simp_all
  then have "snprintf 32 (iso_text t) = iso_text t" by (simp add: snprintf_def cstr_id)
  then have new: "date_toISOString_ts h (dint n) = Some (new_str h (iso_text t))"
    using t(1) iso by (simp add: date_toISOString_ts_def ts_string_new_eq int32_max_def)
  define d where "d = n div 86400000"
  have d: "0 \<le> d" "d < 2932897" using assms(2,3) by (simp_all add: d_def DATE_LIMIT_def pos_imp_zdiv_nonneg_iff div_less_iff_less_mult)
  have "date_parse_ts (snd (new_str h (iso_text t))) (nxt h) =
      Some (dadd (dadd (dadd (dadd (dmul (dint d) (dint 86400000)) (dmul (dint (dt_hour t)) (dint 3600000)))
                              (dmul (dint (dt_min t)) (dint 60000)))
                        (dmul (dint (dt_sec t)) (dint 1000)))
                  (dint (dt_ms t)))"
    using str_at_new[OF assms(1), of "iso_text t"] iso(1,2) t(16)[folded d_def]
    by (simp add: date_parse_ts_def cstr_id str_at_nonnull)
  also have "\<dots> = Some (dint (d * 86400000 + dt_hour t * 3600000 + dt_min t * 60000 + dt_sec t * 1000 + dt_ms t))"
    by (rule arg_cong[of _ _ Some], rule date_sum) (use d t(8-15) in auto)
  finally have "date_parse_ts (snd (new_str h (iso_text t))) (nxt h) =
      Some (dint (d * 86400000 + dt_hour t * 3600000 + dt_min t * 60000 + dt_sec t * 1000 + dt_ms t))" .
  then show ?thesis using new t(17)[folded d_def] by (auto simp: new_str_def)
qed

lemma date_iso_roundtrip_witness:
  "\<exists>p h'. date_toISOString_ts empty_heap (dint 1709210096789) = Some (p, h') \<and> date_parse_ts h' p = Some (dint 1709210096789)"
  using date_iso_roundtrip[OF heap_ok_empty, of 1709210096789] by (simp add: DATE_LIMIT_def)


subsection \<open>The calendar in closed form, and the day of the week\<close>

text \<open>Counting the years and months from 1970 gives the Gregorian calendar: 365 days a year, one
  more for each leap year before, then the days of the months before.\<close>

theorem days_from_epoch_gregorian:
  assumes "1970 \<le> y" "y < 1000000" "1 \<le> m" "m \<le> 12" "1 \<le> d" "d \<le> 31"
  shows "days_from_epoch y m d = Some (365 * (y - 1970) + (y - 1) div 4 - (y - 1) div 100 + (y - 1) div 400 - 477 +
    sum_list (take (nat (m - 1)) (month_lens y)) + (d - 1))"
proof -
  define a where "a = (y - 1) div 4 - (y - 1) div 100 + (y - 1) div 400"
  define b where "b = sum_list (take (nat (m - 1)) (month_lens y))"
  have y: "years_days y = 365 * (y - 1970) + a - 477" using years_days_eq[OF assms(1)] by (simp add: leaps_def a_def)
  have "month_lens y = take (nat (m - 1)) (month_lens y) @ drop (nat (m - 1)) (month_lens y)" by simp
  then have "sum_list (month_lens y) = b + sum_list (drop (nat (m - 1)) (month_lens y))" by (metis b_def sum_list_append)
  moreover have "0 \<le> sum_list (drop (nat (m - 1)) (month_lens y))"
    by (intro sum_list_nonneg) (auto simp: month_lens_def dest!: in_set_dropD)
  ultimately have b: "0 \<le> b" "b \<le> 366"
    using days_sum_nonneg(2)[of "nat (m - 1)" y] assms(4) month_lens_ok(1)[of y] year_len_bounds(2)[of y]
    by (simp_all add: b_def)
  have "years_days y \<le> 366 * (y - 1970)"
    using assms(1) by (induction y rule: int_ge_induct) (simp_all add: years_days_simps year_len_def)
  then have "fits32 (years_days y + b + (d - 1))"
    using b days_sum_nonneg(1)[of y] assms by (intro fits32I) (auto simp: int32_max_def)
  then show ?thesis
    using assms(4) y by (simp add: days_from_epoch_def years_days_def[symmetric] b_def[symmetric] a_def add.assoc)
qed

lemma days_from_epoch_gregorian_witness:
  "days_from_epoch 2024 3 1 = Some 19783"
  using days_from_epoch_gregorian[of 2024 3 1] by (simp add: month_lens_def is_leap_year_def numeral_eq_Suc)

text \<open>The day of the week counts from the Thursday of 1970-01-01; before the Sunday before it, it is
  negative on every day but the Sundays, and the table of names is read outside its bounds.\<close>

theorem date_getDay_before_epoch:
  shows "(0 \<le> n \<and> n < DATE_LIMIT \<longrightarrow> date_getDay_ts (dint n) = Some ((n div 86400000 + 4) mod 7)) \<and>
    (4 \<le> k \<and> k < 1000000 \<longrightarrow> date_getDay_ts (dint (- (86400000 * k))) = Some (- ((k - 4) mod 7)) \<and>
      ((k - 4) mod 7 \<noteq> 0 \<longrightarrow> date_toDateString_ts h (dint (- (86400000 * k))) = None))"
proof (intro conjI impI; (elim conjE)?)
  assume n: "0 \<le> n" "n < DATE_LIMIT"
  then have "d_to_int64 (ddiv (dint n) (dint 86400000)) = Some (n div 86400000)"
    by (intro ddiv_floor[where b = 22]) (simp_all add: DATE_LIMIT_def)
  moreover have "\<not> dlt (dint n) (DFin 0)" using n by (simp add: dlt_def)
  ultimately show "date_getDay_ts (dint n) = Some ((n div 86400000 + 4) mod 7)"
    using n by (simp add: date_getDay_ts_def pos_imp_zdiv_nonneg_iff)
next
  assume k: "4 \<le> k" "k < 1000000"
  let ?t = "dint (- (86400000 * k))"
  have "ddiv ?t (dint 86400000) = dint (- k)"
    using rnd_of_int[of "- k"] k by (simp add: ddiv_def)
  moreover have "d_to_int64 (dint (- k)) = Some (- k)" "d_to_int64 ?t = Some (- (86400000 * k))"
    using k by (simp_all add: d_to_int64_def rtrunc_of_int[of "- k", simplified] rtrunc_of_int[of "- (86400000 * k)", simplified])
  moreover have "c_mod (- (86400000 * k)) 86400000 = 0" using k by (simp add: c_mod_minus)
  moreover have "c_mod (- k + 4) 7 = - ((k - 4) mod 7)" using c_mod_minus[of "k - 4" 7] k by simp
  ultimately show day: "date_getDay_ts ?t = Some (- ((k - 4) mod 7))"
    by (simp only: date_getDay_ts_def Option.bind.simps) simp
  assume "(k - 4) mod 7 \<noteq> 0"
  then have "0 < (k - 4) mod 7" using pos_mod_sign[of 7 "k - 4"] by linarith
  then have "name_at dayNames (- ((k - 4) mod 7)) = None" by (simp add: name_at_def)
  then show "date_toDateString_ts h ?t = None"
    using day by (simp add: date_toDateString_ts_def bind_eq_None_conv del: of_int_minus of_int_mult)
qed

lemma date_getDay_before_epoch_witness:
  "date_getDay_ts (dint 1709210096789) = Some 4 \<and> date_getDay_ts (dint (- (86400000 * 5))) = Some (- 1) \<and>
   date_toDateString_ts empty_heap (dint (- (86400000 * 5))) = None"
  using date_getDay_before_epoch[of 1709210096789 5 empty_heap] by (simp add: DATE_LIMIT_def)

end
