(* ===== verification/Ts_Join.thy ===== *)
theory Ts_Join
  imports Ts_Objmap
begin

text \<open>
  \<^verbatim>\<open>ts_array_join\<close> of \<^verbatim>\<open>runtime/src/array_ops.c\<close>, which prints its elements with the coercions, and
  what strings, arrays and the two directions between them come to as operations on lists:
  splitting and joining, splicing, and the loops with a callback.
\<close>

subsection \<open>Join\<close>

text \<open>Printing an element leaves the arrays alone, so the length and the elements are those at the start.\<close>

definition join_step :: "tsvalue tsarray \<Rightarrow> addr \<Rightarrow> addr \<times> heap \<Rightarrow> int \<Rightarrow> (addr \<times> heap) option" where
  "join_step a separator s i = do {
     (r1, h1) \<leftarrow> ts_string_concat (snd s) (fst s) separator;
     v \<leftarrow> read_item (a_items a) i;
     (e, h2) \<leftarrow> ts_to_string h1 v;
     ts_string_concat h2 r1 e }"

definition ts_array_join :: "heap \<Rightarrow> addr \<Rightarrow> addr \<Rightarrow> (addr \<times> heap) option" where
  "ts_array_join h p separator =
    (if p = 0 then ts_string_new h []
     else do {
       a \<leftarrow> arrs h p;
       if a_length a = 0 then ts_string_new h []
       else do {
         v \<leftarrow> read_item (a_items a) 0;
         s \<leftarrow> ts_to_string h v;
         foldo (join_step a separator) s [1..a_length a - 1] } })"

text \<open>An array of live strings with these texts.\<close>

definition texts_at :: "heap \<Rightarrow> addr \<Rightarrow> string list \<Rightarrow> bool" where
  "texts_at h r ss \<longleftrightarrow> r \<noteq> 0 \<and> (\<exists>a. arrs h r = Some a \<and> arr_ok a \<and>
     list_all2 (\<lambda>v s. \<exists>p. v = VString p \<and> str_at h p s) (arr_vals a) ss)"

lemma ts_string_concat_step:
  assumes "heap_ok h" "str_at h r x" "str_at h q y" "int (length x) + int (length y) \<le> int32_max"
  shows "\<exists>t h'. ts_string_concat h r q = Some (t, h') \<and> heap_ok h' \<and> heap_ext h h' \<and> str_at h' t (x @ y)"
proof -
  have "ts_string_concat h r q = Some (nxt h, snd (new_str h (x @ y)))"
    using assms ts_string_concat_eq [of h r x q y] by (simp add: prod_eq_iff heap_simps)
  then show ?thesis using assms(1) by (simp add: heap_simps heap_ext_new)
qed

lemma join_steps:
  assumes "arr_ok a" "heap_ok h" "str_at h r acc" "str_at h q sep"
    and "list_all2 (\<lambda>v s. \<exists>p. v = VString p \<and> str_at h p s) (arr_vals a) ss" "k \<le> length ss"
    and "int (length (acc @ concat (map (\<lambda>s. sep @ s) (drop k ss)))) \<le> int32_max"
  shows "\<exists>t h'. foldo (join_step a q) (r, h) [int k..a_length a - 1] = Some (t, h') \<and>
    str_at h' t (acc @ concat (map (\<lambda>s. sep @ s) (drop k ss)))"
  using assms
proof (induction "length ss - k" arbitrary: k r h acc)
  case 0
  then have "a_length a \<le> int k" using length_arr_vals [OF 0(2)] list_all2_lengthD [OF 0(6)] by simp
  with 0 show ?case by (intro exI [of _ r] exI [of _ h]) simp
next
  case (Suc n)
  have len: "length (arr_vals a) = length ss" using list_all2_lengthD [OF Suc.prems(5)] .
  have k: "k < length ss" using Suc.hyps(2) by simp
  obtain p where p: "arr_vals a ! k = VString p" "str_at h p (ss ! k)"
    using list_all2_nthD [OF Suc.prems(5), of k] k len by auto
  have dr: "drop k ss = ss ! k # drop (Suc k) ss" using k by (simp add: Cons_nth_drop_Suc)
  from ts_string_concat_step [OF Suc.prems(2,3,4)] Suc.prems(7) obtain r1 h1 where 1:
    "ts_string_concat h r q = Some (r1, h1)" "heap_ok h1" "heap_ext h h1" "str_at h1 r1 (acc @ sep)"
    by (auto simp: dr)
  from ts_string_concat_step [OF 1(2,4) str_at_ext [OF 1(3) p(2)]] Suc.prems(7) obtain r2 h2 where 2:
    "ts_string_concat h1 r1 p = Some (r2, h2)" "heap_ok h2" "heap_ext h1 h2"
    "str_at h2 r2 ((acc @ sep) @ ss ! k)" by (auto simp: dr)
  have ext: "heap_ext h h2" using 1 2 heap_ext_trans by blast
  have rd: "read_item (a_items a) (int k) = Some (VString p)"
    using read_item_arr [OF Suc.prems(1), of "int k"] length_arr_vals [OF Suc.prems(1)] k len p by simp
  have step: "join_step a q (r, h) (int k) = Some (r2, h2)"
    using 1 2 rd p by (simp add: join_step_def ts_to_string.simps [of h1 "VString p"])
  have "list_all2 (\<lambda>v s. \<exists>p. v = VString p \<and> str_at h2 p s) (arr_vals a) ss"
    using Suc.prems(5) by (rule list_all2_mono) (use ext str_at_ext in blast)
  with Suc.hyps(1) [of "Suc k" h2 r2 "(acc @ sep) @ ss ! k"] Suc.prems Suc.hyps(2) 2 k ext
  obtain t h' where t: "foldo (join_step a q) (r2, h2) [int (Suc k)..a_length a - 1] = Some (t, h')"
    "str_at h' t (((acc @ sep) @ ss ! k) @ concat (map (\<lambda>s. sep @ s) (drop (Suc k) ss)))"
    by (force simp: dr intro: str_at_ext)
  have "[int k..a_length a - 1] = int k # [int (Suc k)..a_length a - 1]"
    using k len length_arr_vals [OF Suc.prems(1)] by (subst upto.simps) (simp add: add.commute)
  with t step show ?case by (simp add: dr)
qed

lemma join_concat: "ss \<noteq> [] \<Longrightarrow> join_strs sep ss = hd ss @ concat (map (\<lambda>s. sep @ s) (tl ss))"
  by (induction ss rule: join_strs.induct [of _ sep]) auto

lemma ts_array_join_ok:
  assumes "heap_ok h" "texts_at h r ss" "ss \<noteq> []" "str_at h q sep" "int (length (join_strs sep ss)) \<le> int32_max"
  shows "\<exists>t h'. ts_array_join h r q = Some (t, h') \<and> str_at h' t (join_strs sep ss)"
proof -
  from assms(2) obtain a where a: "r \<noteq> 0" "arrs h r = Some a" "arr_ok a"
    "list_all2 (\<lambda>v s. \<exists>p. v = VString p \<and> str_at h p s) (arr_vals a) ss" by (auto simp: texts_at_def)
  have len: "length (arr_vals a) = length ss" using list_all2_lengthD [OF a(4)] .
  obtain p where p: "arr_vals a ! 0 = VString p" "str_at h p (ss ! 0)"
    using list_all2_nthD [OF a(4), of 0] assms(3) len by auto
  have jc: "join_strs sep ss = ss ! 0 @ concat (map (\<lambda>s. sep @ s) (drop 1 ss))"
    using assms(3) by (cases ss) (simp_all add: join_concat)
  have le: "1 \<le> length ss" using assms(3) by (cases ss) auto
  from join_steps [OF a(3) assms(1) p(2) assms(4) a(4) le] assms(5) obtain t h' where
    "foldo (join_step a q) (p, h) [1..a_length a - 1] = Some (t, h')" "str_at h' t (join_strs sep ss)"
    by (auto simp: jc)
  moreover have "read_item (a_items a) 0 = Some (VString p)"
    using read_item_arr [OF a(3), of 0] length_arr_vals [OF a(3)] le len p by simp
  moreover have "0 < a_length a" using length_arr_vals [OF a(3)] le len by simp
  ultimately show ?thesis using a(1,2)
    by (simp add: ts_array_join_def ts_to_string.simps [of h "VString p"])
qed

subsection \<open>Split\<close>

lemma texts_at_push:
  assumes "heap_ok h" "texts_at h r ss" "length ss < ARR_LIMIT"
  shows "\<exists>h'. push_str r h s = Some h' \<and> heap_ok h' \<and> texts_at h' r (ss @ [s]) \<and>
    (\<forall>p t. str_at h p t \<longrightarrow> str_at h' p t)"
proof -
  from assms(2) obtain a where a: "r \<noteq> 0" "arrs h r = Some a" "arr_ok a"
    "list_all2 (\<lambda>v s. \<exists>p. v = VString p \<and> str_at h p s) (arr_vals a) ss" by (auto simp: texts_at_def)
  let ?h1 = "snd (new_str h s)"
  have "length (arr_vals a) < ARR_LIMIT" using list_all2_lengthD [OF a(4)] assms(3) by simp
  with arr_push_at_ok [of ?h1 r a "VString (nxt h)"] a obtain b where b:
    "arr_push_at ?h1 r (VString (nxt h)) = Some (put_arr ?h1 r b)" "arr_ok b"
    "arr_vals b = arr_vals a @ [VString (nxt h)]" by (auto simp: heap_simps)
  have ps: "push_str r h s = Some (put_arr ?h1 r b)"
    using b(1) by (simp add: push_str_def) (simp add: new_str_def)
  have keep: "str_at h p t \<Longrightarrow> str_at (put_arr ?h1 r b) p t" for p t
    using str_at_new_other [OF assms(1), of p t s] by (simp add: str_at_def heap_simps)
  have new: "str_at (put_arr ?h1 r b) (nxt h) s"
    using str_at_new [OF assms(1), of s] by (simp add: str_at_def heap_simps)
  have "list_all2 (\<lambda>v s. \<exists>p. v = VString p \<and> str_at (put_arr ?h1 r b) p s) (arr_vals b) (ss @ [s])"
    unfolding b(3) by (rule list_all2_appendI) (use a(4) keep new in \<open>auto elim!: list_all2_mono\<close>)
  then have "texts_at (put_arr ?h1 r b) r (ss @ [s])" using a(1) b(2) by (simp add: texts_at_def heap_simps)
  moreover have "heap_ok (put_arr ?h1 r b)" using assms(1) a(2) by (intro heap_ok_put heap_ok_new) (simp_all add: heap_simps)
  ultimately show ?thesis using ps keep by blast
qed

lemma texts_at_pushes:
  assumes "heap_ok h" "texts_at h r ss" "length ss + length ts \<le> ARR_LIMIT"
  shows "\<exists>h'. foldo (push_str r) h ts = Some h' \<and> heap_ok h' \<and> texts_at h' r (ss @ ts) \<and>
    (\<forall>p t. str_at h p t \<longrightarrow> str_at h' p t)"
  using assms
proof (induction ts arbitrary: h ss)
  case (Cons t ts)
  then obtain h1 where h1: "push_str r h t = Some h1" "heap_ok h1" "texts_at h1 r (ss @ [t])"
    "\<forall>p t. str_at h p t \<longrightarrow> str_at h1 p t" using texts_at_push [of h r ss t] by auto
  with Cons.IH [of h1 "ss @ [t]"] Cons.prems(3) show ?case by force
qed simp

lemma length_split_loop: "sep \<noteq> [] \<Longrightarrow> start \<le> length x \<Longrightarrow> length (split_loop x sep start) \<le> Suc (length x - start)"
proof (induction x sep start rule: split_loop.induct)
  case (1 x sep start)
  show ?case
  proof (cases "strstr (drop start x) sep")
    case None
    then show ?thesis using "1.prems" by (subst split_loop.simps) simp
  next
    case (Some i)
    have i: "i + length sep \<le> length x - start" using strstr_Some [OF Some] by simp
    have pos: "1 \<le> length sep" using "1.prems" by (cases sep) auto
    have "length (split_loop x sep (start + i + length sep)) \<le> Suc (length x - (start + i + length sep))"
      using "1.IH" [of i] Some "1.prems" i by simp
    also have "\<dots> \<le> length x - start" using pos i by linarith
    finally show ?thesis using Some "1.prems" by (subst split_loop.simps) simp
  qed
qed

lemma ts_string_split_ok:
  assumes "heap_ok h" "str_at h s x" "str_at h q sep" "length (split_segs x sep) \<le> ARR_LIMIT"
  shows "\<exists>r h'. ts_string_split h s q = Some (r, h') \<and> heap_ok h' \<and> texts_at h' r (split_segs x sep) \<and>
    (\<forall>p t. str_at h p t \<longrightarrow> str_at h' p t)"
proof -
  let ?h1 = "snd (new_arr h ts_array_new)"
  have t: "texts_at ?h1 (nxt h) []" using heap_ok_fresh(4) [OF assms(1)] by (simp add: texts_at_def heap_simps)
  have k: "str_at ?h1 p t = str_at h p t" for p t by (simp add: str_at_def heap_simps)
  from texts_at_pushes [OF heap_ok_new(2) [OF assms(1)] t, of "split_segs x sep"] assms(4) obtain h' where
    "foldo (push_str (nxt h)) ?h1 (split_segs x sep) = Some h'" "heap_ok h'" "texts_at h' (nxt h) (split_segs x sep)"
    "\<forall>p t. str_at ?h1 p t \<longrightarrow> str_at h' p t" by auto
  then show ?thesis using assms(2,3) by (simp add: ts_string_split_def k case_prod_beta heap_simps)
qed

text \<open>C13. Splitting a string by a separator gives fresh strings without the separator in them, and
  joining them by the separator gives the string back.\<close>

theorem split_join_roundtrip:
  assumes "heap_ok h" "str_at h s x" "str_at h q sep" "sep \<noteq> []" "length x < ARR_LIMIT"
  shows "\<exists>r h1 ss t h2. ts_string_split h s q = Some (r, h1) \<and> texts_at h1 r ss \<and>
    list_all (\<lambda>y. \<not> sublist sep y) ss \<and> ts_array_join h1 r q = Some (t, h2) \<and> str_at h2 t x"
proof -
  let ?ss = "split_segs x sep"
  have ss: "?ss = split_loop x sep 0"
  proof (cases "x = []")
    case True
    have "strstr [] sep = None" using assms(4) by (simp add: strstr_None)
    then show ?thesis using True assms(4) by (simp add: split_segs_def) (subst split_loop.simps, simp)
  qed (use assms(4) in \<open>simp add: split_segs_def\<close>)
  have jn: "join_strs sep ?ss = x" "?ss \<noteq> []"
    using split_loop_join [OF assms(4), of 0 x] split_loop_not_Nil [OF assms(4), of 0 x] by (simp_all add: ss)
  have len: "length ?ss \<le> ARR_LIMIT" using length_split_loop [OF assms(4), of 0 x] assms(5) by (simp add: ss)
  from ts_string_split_ok [OF assms(1-3) len] obtain r h1 where 1: "ts_string_split h s q = Some (r, h1)"
    "heap_ok h1" "texts_at h1 r ?ss" "\<forall>p t. str_at h p t \<longrightarrow> str_at h1 p t" by blast
  have sep: "str_at h1 q sep" using 1(4) assms(3) by blast
  have "int (length (join_strs sep ?ss)) \<le> int32_max" using assms(5) by (simp add: jn(1) ARR_LIMIT_def int32_max_def)
  from ts_array_join_ok [OF 1(2,3) jn(2) sep this] obtain t h2 where
    "ts_array_join h1 r q = Some (t, h2)" "str_at h2 t x" by (auto simp: jn(1))
  moreover have "list_all (\<lambda>y. \<not> sublist sep y) ?ss"
    using split_loop_no_sep [OF assms(4)] by (auto simp: list_all_iff ss)
  ultimately show ?thesis using 1 by blast
qed

lemma split_join_roundtrip_witness:
  defines "h \<equiv> snd (new_str (snd (new_str empty_heap ''a, b'')) '', '')"
  shows "\<exists>r h1 ss t h2. ts_string_split h 1 2 = Some (r, h1) \<and> texts_at h1 r ss \<and>
    list_all (\<lambda>y. \<not> sublist '', '' y) ss \<and> ts_array_join h1 r 2 = Some (t, h2) \<and> str_at h2 t ''a, b''"
proof (rule split_join_roundtrip)
  show "heap_ok h" by (simp add: h_def heap_simps)
  show "str_at h 1 ''a, b''" "str_at h 2 '', ''" by (simp_all add: h_def str_at_def heap_simps empty_heap_def)
qed (simp_all add: ARR_LIMIT_def)

text \<open>\<^verbatim>\<open>splice\<close> replaces the given number of elements from the clamped start by the new ones and
  keeps the array well-formed, growing its buffer when the new length needs it.\<close>

theorem ts_array_splice_spec:
  assumes "arr_ok a" "0 \<le> deleteCount" "int (length (arr_vals a)) + int (length items) \<le> int32_max"
  shows "\<exists>a'. ts_array_splice a start deleteCount items = Some a' \<and> arr_ok a' \<and>
    (let st = nat (min (max start 0) (int (length (arr_vals a)))) in
     arr_vals a' = take st (arr_vals a) @ items @ drop (st + nat deleteCount) (arr_vals a))"
  using ts_array_splice_ok [OF assms, of start] length_arr_vals [OF assms(1)]
  by (simp add: splice_start_def Let_def)

lemma ts_array_splice_spec_witness:
  defines "a \<equiv> the (ts_array_from_values [1, 2, 3 :: nat])"
  shows "\<exists>a'. ts_array_splice a 1 1 [8, 9] = Some a' \<and> arr_ok a' \<and>
    (let st = nat (min (max 1 0) (int (length (arr_vals a)))) in
     arr_vals a' = take st (arr_vals a) @ [8, 9] @ drop (st + nat 1) (arr_vals a))"
proof (rule ts_array_splice_spec)
  have a: "a = \<lparr>a_refcount = 1, a_length = 3, a_capacity = 16,
      a_items = map Some [1, 2, 3] @ replicate 13 None\<rparr>"
    by (simp add: a_def ts_array_from_values_def ts_array_new_def INITIAL_CAPACITY_def ck32_def fits32_def
        int32_max_def int32_min_def realloc_items_def copy_in_def)
  then show "arr_ok a" by (simp add: arr_ok_def int32_max_def)
  from a show "int (length (arr_vals a)) + int (length [8, 9 :: nat]) \<le> int32_max"
    by (simp add: arr_vals_def int32_max_def)
qed simp

lemma find_nth: "find P xs = map_option (\<lambda>j. xs ! j) (find (\<lambda>j. P (xs ! j)) [0..<length xs])"
proof (induction xs)
  case (Cons x xs)
  have up: "[0..<length (x # xs)] = 0 # map Suc [0..<length xs]"
    by (simp add: upt_conv_Cons map_Suc_upt del: upt_Suc)
  have "find (\<lambda>j. P ((x # xs) ! j)) (map Suc js) = map_option Suc (find (\<lambda>j. P (xs ! j)) js)" for js
    by (induction js) auto
  then show ?case unfolding up using Cons by (simp add: option.map_comp comp_def)
qed simp

lemma find_None_nth: "find (\<lambda>j. P (xs ! j)) [0..<length xs] = None \<longleftrightarrow> (\<forall>x \<in> set xs. \<not> P x)"
  by (auto simp: find_None_iff all_set_conv_all_nth)

lemma array_search_ok:
  assumes "arrs h p = Some a" "arr_ok a"
  shows "search_loop (pure_cb P) want p 0 h =
    Some (map_option int (find (\<lambda>j. P (arr_vals a ! j) = want) [0..<length (arr_vals a)]), h)"
  using search_loop_pure [OF assms, of 0 P want] by (simp add: option.case_eq_if map_option_case)

text \<open>With a callback that only computes, the loops are the list functions: \<^verbatim>\<open>filter\<close> and \<^verbatim>\<open>map\<close> give
  a new array with the selected or transformed elements and leave the one they run over as it
  is, \<^verbatim>\<open>some\<close>, \<^verbatim>\<open>every\<close> and \<^verbatim>\<open>find\<close> stop at the first hit, and \<^verbatim>\<open>reduce\<close> folds from the left.\<close>

theorem array_loops_are_list_functions:
  assumes "heap_ok h" "arrs h p = Some a" "arr_ok a" "length (arr_vals a) \<le> ARR_LIMIT"
  shows "(\<exists>r h1 b. ts_array_filter (pure_cb P) h p = Some (r, h1) \<and> r \<noteq> p \<and> arrs h1 r = Some b \<and> arr_ok b \<and>
      arr_vals b = filter P (arr_vals a) \<and> arrs h1 p = Some a) \<and>
    (\<exists>r h1 b. ts_array_map (pure_cb f) h p = Some (r, h1) \<and> r \<noteq> p \<and> arrs h1 r = Some b \<and> arr_ok b \<and>
      arr_vals b = map f (arr_vals a) \<and> arrs h1 p = Some a) \<and>
    ts_array_some (pure_cb P) h p = Some (list_ex P (arr_vals a), h) \<and>
    ts_array_every (pure_cb P) h p = Some (list_all P (arr_vals a), h) \<and>
    ts_array_find (pure_cb P) h p =
      Some (case find P (arr_vals a) of Some v \<Rightarrow> v | None \<Rightarrow> ts_value_undefined, h) \<and>
    ts_array_reduce (\<lambda>acc. pure_cb (g acc)) h p v = Some (foldl g v (arr_vals a), h)"
proof -
  let ?h = "snd (new_arr h ts_array_new)"
  have ne: "nxt h \<noteq> p" using heap_ok_dom(2) [OF assms(1,2)] by simp
  have st: "arrs ?h p = Some a" "arrs ?h (nxt h) = Some ts_array_new" using assms(2) ne by (simp_all add: heap_simps)
  from filter_loop_pure [OF st(1) assms(3) ne [symmetric] st(2), of 0 P] assms(4) obtain b where b:
    "filter_loop (pure_cb P) p (nxt h) 0 ?h = Some (put_arr ?h (nxt h) b)" "arr_ok b" "arr_vals b = filter P (arr_vals a)"
    by auto
  from map_loop_pure [OF st(1) assms(3) ne [symmetric] st(2), of 0 f] assms(4) obtain c where c:
    "map_loop (pure_cb f) p (nxt h) 0 ?h = Some (put_arr ?h (nxt h) c)" "arr_ok c" "arr_vals c = map f (arr_vals a)"
    by auto
  note search = array_search_ok [OF assms(2,3)]
  have reads: "j < length (arr_vals a) \<Longrightarrow> read_item (a_items a) (int j) = Some (arr_vals a ! j)" for j
    using read_item_arr [OF assms(3), of "int j"] length_arr_vals [OF assms(3)] by simp
  have "ts_array_some (pure_cb P) h p = Some (list_ex P (arr_vals a), h)"
    using find_None_nth [of P "arr_vals a"] by (auto simp: ts_array_some_def search list_ex_iff simp del: not_None_eq)
  moreover have "ts_array_every (pure_cb P) h p = Some (list_all P (arr_vals a), h)"
    using find_None_nth [of "\<lambda>x. \<not> P x" "arr_vals a"] by (simp add: ts_array_every_def search list_all_iff)
  moreover have "ts_array_find (pure_cb P) h p =
      Some (case find P (arr_vals a) of Some v \<Rightarrow> v | None \<Rightarrow> ts_value_undefined, h)"
  proof (cases "find (\<lambda>j. P (arr_vals a ! j)) [0..<length (arr_vals a)]")
    case None
    then show ?thesis by (simp add: ts_array_find_def search find_nth [of P "arr_vals a"])
  next
    case (Some j)
    then have "j < length (arr_vals a)" by (auto simp: find_Some_iff)
    with Some show ?thesis
      using reads assms(2) by (simp add: ts_array_find_def search find_nth [of P "arr_vals a"])
  qed
  moreover have "ts_array_reduce (\<lambda>acc. pure_cb (g acc)) h p v = Some (foldl g v (arr_vals a), h)"
    using reduce_loop_pure [OF assms(2,3), of 0 g v] by (simp add: ts_array_reduce_def)
  moreover have "ts_array_filter (pure_cb P) h p = Some (nxt h, put_arr ?h (nxt h) b)"
    "ts_array_map (pure_cb f) h p = Some (nxt h, put_arr ?h (nxt h) c)"
    using b(1) c(1) by (simp_all add: ts_array_filter_def ts_array_map_def case_prod_beta heap_simps)
  ultimately show ?thesis using b c ne assms(2) by (auto simp: heap_simps)
qed

lemma nxt_empty: "nxt empty_heap = 1"
  by (simp add: empty_heap_def)

lemma array_loops_are_list_functions_witness:
  defines "h \<equiv> snd (new_arr empty_heap \<lparr>a_refcount = 1, a_length = 2, a_capacity = 16,
      a_items = [Some VNull, Some (VBoolean 1)] @ replicate 14 None\<rparr>)"
  shows "\<exists>a. arrs h 1 = Some a \<and> arr_vals a = [VNull, VBoolean 1] \<and>
    ts_array_some (pure_cb (\<lambda>v. v = VNull)) h 1 = Some (True, h) \<and>
    (\<exists>r h1 b. ts_array_filter (pure_cb (\<lambda>v. v = VNull)) h 1 = Some (r, h1) \<and> arrs h1 r = Some b \<and> arr_vals b = [VNull])"
proof -
  define a where "a = \<lparr>a_refcount = 1, a_length = 2, a_capacity = 16,
      a_items = [Some VNull, Some (VBoolean 1)] @ replicate 14 None\<rparr>"
  have a: "heap_ok h" "arrs h 1 = Some a" "arr_ok a" "arr_vals a = [VNull, VBoolean 1]" "length (arr_vals a) \<le> ARR_LIMIT"
    by (simp_all add: h_def a_def heap_simps arr_ok_def int32_max_def arr_vals_def ARR_LIMIT_def nxt_empty)
  from array_loops_are_list_functions [OF a(1,2,3,5), where P = "\<lambda>v. v = VNull" and f = id and g = "\<lambda>_ v. v" and v = VNull]
  show ?thesis using a(2,4) by auto
qed

end
