(* ===== verification/Ts_Fifo.thy ===== *)
theory Ts_Fifo
  imports Ts_Prelude
begin

text \<open>
  The interface of a first-in-first-out queue kept in some state, as the runtime has them in
  the thread pool and in the streams of \<^verbatim>\<open>fetch\<close>: \<open>rep s xs\<close> says that the queue in \<open>s\<close> holds \<open>xs\<close>,
  \<open>ok s x\<close> that \<open>x\<close> may be put into it, \<open>sep xs\<close> that the elements may be in it together.
\<close>

text \<open>\<open>n\<close> turns of taking the first element.\<close>

fun pops :: "('s \<Rightarrow> ('x \<times> 's) option) \<Rightarrow> nat \<Rightarrow> 's \<Rightarrow> ('x list \<times> 's) option" where
  "pops pop 0 s = Some ([], s)"
| "pops pop (Suc n) s = do { (x, s1) \<leftarrow> pop s; (xs, s2) \<leftarrow> pops pop n s1; Some (x # xs, s2) }"

locale fifo =
  fixes rep :: "'s \<Rightarrow> 'x list \<Rightarrow> bool" and ok :: "'s \<Rightarrow> 'x \<Rightarrow> bool" and sep :: "'x list \<Rightarrow> bool"
    and limit :: nat and push :: "'s \<Rightarrow> 'x \<Rightarrow> 's option" and pop :: "'s \<Rightarrow> ('x \<times> 's) option"
  assumes push_ok: "rep s xs \<Longrightarrow> ok s x \<Longrightarrow> sep (xs @ [x]) \<Longrightarrow> length xs < limit \<Longrightarrow>
      \<exists>s'. push s x = Some s' \<and> rep s' (xs @ [x]) \<and> (\<forall>y. ok s y \<longrightarrow> ok s' y)"
    and pop_ok: "rep s (x # xs) \<Longrightarrow> \<exists>s'. pop s = Some (x, s') \<and> rep s' xs"
    and sep_prefix: "sep (xs @ ys) \<Longrightarrow> sep xs"
begin

lemma push_all:
  "rep s xs \<Longrightarrow> \<forall>y \<in> set ys. ok s y \<Longrightarrow> sep (xs @ ys) \<Longrightarrow> length xs + length ys \<le> limit \<Longrightarrow>
   \<exists>s'. foldo push s ys = Some s' \<and> rep s' (xs @ ys)"
proof (induction ys arbitrary: s xs)
  case (Cons y ys)
  then have "sep (xs @ [y])" using sep_prefix [of "xs @ [y]" ys] by simp
  with Cons.prems obtain s1 where s1: "push s y = Some s1" "rep s1 (xs @ [y])" "\<forall>y. ok s y \<longrightarrow> ok s1 y"
    using push_ok [of s xs y] by auto
  with Cons.IH [of s1 "xs @ [y]"] Cons.prems show ?case by auto
qed simp

lemma pop_all: "rep s (xs @ ys) \<Longrightarrow> \<exists>s'. pops pop (length xs) s = Some (xs, s') \<and> rep s' ys"
proof (induction xs arbitrary: s)
  case (Cons x xs)
  then obtain s1 where "pop s = Some (x, s1)" "rep s1 (xs @ ys)" using pop_ok [of s x "xs @ ys"] by auto
  with Cons.IH [of s1] show ?case by auto
qed simp

text \<open>What goes in comes out, in the same order.\<close>

lemma in_order:
  assumes "rep s []" "\<forall>y \<in> set ys. ok s y" "sep ys" "length ys \<le> limit"
  shows "\<exists>s' s''. foldo push s ys = Some s' \<and> pops pop (length ys) s' = Some (ys, s'') \<and> rep s'' []"
proof -
  from push_all [of s "[]" ys] assms obtain s' where "foldo push s ys = Some s'" "rep s' ys" by auto
  with pop_all [of s' ys "[]"] show ?thesis by auto
qed

end

end
