(* ===== verification/Ts_Pool.thy ===== *)
theory Ts_Pool
  imports Ts_Fifo "HOL-Library.Multiset" "HOL-Library.Sublist"
begin

text \<open>
  \<^verbatim>\<open>runtime/src/thread_pool.c\<close>: the queues of jobs, linked lists through \<^verbatim>\<open>TsJob.next\<close>, the worker
  threads and the completions on the main thread. A critical section is one step; the steps of
  the workers and of the main thread interleave in any order. A callback runs on the main thread
  between the two sections of its completion, and may submit jobs and poll, so the main thread has
  a stack of the submissions and completions it is in.
\<close>

subsection \<open>Jobs and queues\<close>

type_synonym jaddr = nat

record job =
  j_work :: nat
  j_complete :: nat
  j_userdata :: nat
  j_next :: jaddr

type_synonym jobs = "jaddr \<Rightarrow> job option"

record jqueue =
  q_head :: jaddr
  q_tail :: jaddr
  q_count :: int

definition q_init :: jqueue where
  "q_init = \<lparr>q_head = 0, q_tail = 0, q_count = 0\<rparr>"

definition q_push :: "jobs \<Rightarrow> jqueue \<Rightarrow> jaddr \<Rightarrow> (jobs \<times> jqueue) option" where
  "q_push js q p = do {
     j \<leftarrow> js p;
     let js1 = js(p \<mapsto> j\<lparr>j_next := 0\<rparr>);
     n \<leftarrow> ck32 (q_count q + 1);
     if q_tail q \<noteq> 0 then do {
       t \<leftarrow> js1 (q_tail q);
       Some (js1(q_tail q \<mapsto> t\<lparr>j_next := p\<rparr>), q\<lparr>q_tail := p, q_count := n\<rparr>) }
     else Some (js1, q\<lparr>q_head := p, q_tail := p, q_count := n\<rparr>) }"

text \<open>The end of \<^verbatim>\<open>q_pop\<close>, when there is a job.\<close>

definition q_take :: "jobs \<Rightarrow> jqueue \<Rightarrow> (jaddr \<times> jobs \<times> jqueue) option" where
  "q_take js q = do {
     j \<leftarrow> js (q_head q);
     n \<leftarrow> ck32 (q_count q - 1);
     Some (q_head q, js(q_head q \<mapsto> j\<lparr>j_next := 0\<rparr>),
           q\<lparr>q_head := j_next j, q_tail := (if j_next j = 0 then 0 else q_tail q), q_count := n\<rparr>) }"

text \<open>
  One turn of \<^verbatim>\<open>q_pop\<close>, from taking the lock, or waking up with it, to giving it back: a job, a
  NULL, or another wait. \<open>expired\<close> is what the timed wait before it returned.
\<close>

datatype pop_result = Popped jaddr | PopNull | PopWait

definition q_pop ::
  "int \<Rightarrow> bool \<Rightarrow> bool \<Rightarrow> jobs \<Rightarrow> jqueue \<Rightarrow> (pop_result \<times> jobs \<times> jqueue) option" where
  "q_pop timeout_ms shutdown expired js q =
    (if q_head q \<noteq> 0 then do { (p, js', q') \<leftarrow> q_take js q; Some (Popped p, js', q') }
     else if timeout_ms = 0 then Some (PopNull, js, q)
     else if shutdown \<or> timeout_ms > 0 \<and> expired then Some (PopNull, js, q)
     else Some (PopWait, js, q))"

subsection \<open>The pool\<close>

definition TS_POOL_WORKERS :: nat where
  "TS_POOL_WORKERS = 4"

datatype worker = WIdle | WRunning jaddr | WExited

text \<open>What the main thread is in the middle of, the innermost first.\<close>

datatype frame = FSubmit jaddr | FComplete jaddr | FShutdown

record pool =
  p_jobs :: jobs
  g_work :: jqueue
  g_done :: jqueue
  g_inflight :: int
  g_pool_inited :: bool
  g_pool_shutdown :: bool
  g_workers :: "worker list"
  p_main :: "frame list"

definition pool_start :: pool where
  "pool_start = \<lparr>p_jobs = Map.empty, g_work = q_init, g_done = q_init, g_inflight = 0,
     g_pool_inited = False, g_pool_shutdown = False, g_workers = [], p_main = []\<rparr>"

definition ts_thread_pool_init :: "pool \<Rightarrow> pool" where
  "ts_thread_pool_init s = (if g_pool_inited s then s
     else s\<lparr>g_pool_inited := True, g_pool_shutdown := False, g_inflight := 0, g_work := q_init,
            g_done := q_init, g_workers := replicate TS_POOL_WORKERS WIdle\<rparr>)"

text \<open>The two sections of \<^verbatim>\<open>ts_thread_pool_submit\<close>.\<close>

definition submit_begin :: "jaddr \<Rightarrow> pool \<Rightarrow> pool option" where
  "submit_begin p s =
    (if p = 0 then Some s
     else do {
       let s1 = ts_thread_pool_init s;
       n \<leftarrow> ck32 (g_inflight s1 + 1);
       Some (s1\<lparr>g_inflight := n, p_main := FSubmit p # p_main s1\<rparr>) })"

definition submit_end :: "pool \<Rightarrow> pool option" where
  "submit_end s = (case p_main s of
     FSubmit p # fs \<Rightarrow> do {
       (js, q) \<leftarrow> q_push (p_jobs s) (g_work s) p;
       Some (s\<lparr>p_jobs := js, g_work := q, p_main := fs\<rparr>) }
   | _ \<Rightarrow> None)"

text \<open>
  \<^verbatim>\<open>worker_main\<close>: taking a job, or leaving when there is none and the pool is shut down; and
  handing it on once its work is done.
\<close>

definition worker_take :: "nat \<Rightarrow> pool \<Rightarrow> pool option" where
  "worker_take i s = do {
     (r, js, q) \<leftarrow> q_pop (- 1) (g_pool_shutdown s) False (p_jobs s) (g_work s);
     Some (case r of
         Popped p \<Rightarrow> s\<lparr>p_jobs := js, g_work := q, g_workers := (g_workers s)[i := WRunning p]\<rparr>
       | PopNull \<Rightarrow> s\<lparr>g_workers := (g_workers s)[i := WExited]\<rparr>
       | PopWait \<Rightarrow> s) }"

definition worker_done :: "nat \<Rightarrow> jaddr \<Rightarrow> pool \<Rightarrow> pool option" where
  "worker_done i p s = do {
     (js, q) \<leftarrow> q_push (p_jobs s) (g_done s) p;
     Some (s\<lparr>p_jobs := js, g_done := q, g_workers := (g_workers s)[i := WIdle]\<rparr>) }"

text \<open>
  A turn of the loop of \<^verbatim>\<open>ts_completion_poll\<close>: taking a finished job; and what follows its
  \<^verbatim>\<open>complete\<close> callback.
\<close>

definition poll_take :: "pool \<Rightarrow> (jaddr option \<times> pool) option" where
  "poll_take s = do {
     (r, js, q) \<leftarrow> q_pop 0 False False (p_jobs s) (g_done s);
     Some (case r of
         Popped p \<Rightarrow> (Some p, s\<lparr>p_jobs := js, g_done := q, p_main := FComplete p # p_main s\<rparr>)
       | _ \<Rightarrow> (None, s)) }"

definition poll_end :: "pool \<Rightarrow> pool option" where
  "poll_end s = (case p_main s of
     FComplete p # fs \<Rightarrow>
       Some (s\<lparr>g_inflight := (if g_inflight s > 0 then g_inflight s - 1 else g_inflight s),
               p_jobs := (p_jobs s)(p := None), p_main := fs\<rparr>)
   | _ \<Rightarrow> None)"

definition ts_jobs_pending :: "pool \<Rightarrow> bool" where
  "ts_jobs_pending s \<longleftrightarrow> g_pool_inited s \<and> g_inflight s > 0"

text \<open>\<^verbatim>\<open>ts_thread_pool_shutdown\<close> around the joining of the workers and the last poll.\<close>

definition shutdown_begin :: "pool \<Rightarrow> pool" where
  "shutdown_begin s = (if g_pool_inited s then s\<lparr>g_pool_shutdown := True, p_main := FShutdown # p_main s\<rparr> else s)"

definition shutdown_end :: "pool \<Rightarrow> pool option" where
  "shutdown_end s = (case p_main s of
     FShutdown # fs \<Rightarrow> Some (s\<lparr>g_pool_inited := False, p_main := fs\<rparr>)
   | _ \<Rightarrow> None)"

text \<open>
  A whole \<^verbatim>\<open>ts_completion_poll\<close> without the workers in between, \<open>run\<close> the effect of a callback:
  the number of the jobs it completed.
\<close>

partial_function (option) completion_loop ::
  "(job \<Rightarrow> pool \<Rightarrow> pool option) \<Rightarrow> int \<Rightarrow> pool \<Rightarrow> (int \<times> pool) option" where
  "completion_loop run n s = do {
     r \<leftarrow> poll_take s;
     case fst r of
       None \<Rightarrow> Some (n, snd r)
     | Some p \<Rightarrow> do {
         j \<leftarrow> p_jobs (snd r) p;
         s2 \<leftarrow> (if j_complete j \<noteq> 0 then run j (snd r) else Some (snd r));
         s3 \<leftarrow> poll_end s2;
         m \<leftarrow> ck32 (n + 1);
         completion_loop run m s3 } }"

definition ts_completion_poll ::
  "(job \<Rightarrow> pool \<Rightarrow> pool option) \<Rightarrow> pool \<Rightarrow> (int \<times> pool) option" where
  "ts_completion_poll run s = (if \<not> g_pool_inited s then Some (0, s) else completion_loop run 0 s)"

subsection \<open>Linked lists\<close>

text \<open>The jobs from \<open>p\<close> along \<^verbatim>\<open>next\<close>, up to the NULL.\<close>

fun chain :: "jobs \<Rightarrow> jaddr \<Rightarrow> jaddr list \<Rightarrow> bool" where
  "chain js p [] \<longleftrightarrow> p = 0"
| "chain js p (a # as) \<longleftrightarrow> p = a \<and> a \<noteq> 0 \<and> (\<exists>j. js a = Some j \<and> chain js (j_next j) as)"

definition queue_rep :: "jobs \<Rightarrow> jqueue \<Rightarrow> jaddr list \<Rightarrow> bool" where
  "queue_rep js q ps \<longleftrightarrow> chain js (q_head q) ps \<and> distinct ps \<and>
     q_tail q = (if ps = [] then 0 else last ps) \<and> q_count q = int (length ps) \<and>
     int (length ps) \<le> int32_max"

text \<open>What a job is apart from its place in a queue.\<close>

type_synonym content = "nat \<times> nat \<times> nat"

definition content_of :: "job \<Rightarrow> content" where
  "content_of j = (j_work j, j_complete j, j_userdata j)"

definition contents :: "jobs \<Rightarrow> jaddr list \<Rightarrow> content list" where
  "contents js ps = map (\<lambda>p. content_of (the (js p))) ps"

text \<open>\<open>js'\<close> is \<open>js\<close> but for the links of the jobs in \<open>A\<close>.\<close>

definition relinked :: "jaddr set \<Rightarrow> jobs \<Rightarrow> jobs \<Rightarrow> bool" where
  "relinked A js js' \<longleftrightarrow> (\<forall>p. p \<notin> A \<longrightarrow> js' p = js p) \<and>
     (\<forall>p. map_option content_of (js' p) = map_option content_of (js p))"

lemma chain_live: "chain js p ps \<Longrightarrow> a \<in> set ps \<Longrightarrow> js a \<noteq> None \<and> a \<noteq> 0"
  by (induction ps arbitrary: p) auto

lemma chain_upd: "p \<notin> set ps \<Longrightarrow> chain (js(p := x)) a ps = chain js a ps"
  by (induction ps arbitrary: a) auto

lemma chain_head: "chain js p ps \<Longrightarrow> p = 0 \<longleftrightarrow> ps = []"
  by (cases ps) auto

lemma chain_snoc:
  "chain js a (ps @ [t]) \<Longrightarrow> t \<notin> set ps \<Longrightarrow> p \<notin> set (ps @ [t]) \<Longrightarrow> p \<noteq> 0 \<Longrightarrow> js t = Some jt \<Longrightarrow> js p = Some jp \<Longrightarrow> j_next jp = 0 \<Longrightarrow>
   chain (js(t \<mapsto> jt\<lparr>j_next := p\<rparr>)) a (ps @ [t, p])"
  by (induction ps arbitrary: a) auto

lemma queue_rep_empty [simp]: "queue_rep js q [] \<longleftrightarrow> q_head q = 0 \<and> q_tail q = 0 \<and> q_count q = 0"
  by (auto simp: queue_rep_def int32_max_def)

lemma queue_rep_init [simp]: "queue_rep js q_init []"
  by (simp add: q_init_def)

lemma queue_rep_upd: "p \<notin> set ps \<Longrightarrow> queue_rep (js(p := x)) q ps = queue_rep js q ps"
  by (simp add: queue_rep_def chain_upd)

lemma queue_rep_relinked:
  assumes "relinked A js js'" "A \<inter> set ps = {}" "queue_rep js q ps" shows "queue_rep js' q ps"
proof -
  have "chain js a ps \<Longrightarrow> chain js' a ps" for a
    using assms(1,2) by (induction ps arbitrary: a) (auto simp: relinked_def)
  with assms(3) show ?thesis by (simp add: queue_rep_def)
qed

lemma relinked_live: "relinked A js js' \<Longrightarrow> js' p = None \<longleftrightarrow> js p = None"
  unfolding relinked_def by (metis option.map_disc_iff)

lemma relinked_contents: "relinked A js js' \<Longrightarrow> \<forall>p \<in> set ps. js p \<noteq> None \<Longrightarrow> contents js' ps = contents js ps"
  by (auto simp: contents_def relinked_def) (metis option.map_sel option.map_disc_iff)

lemma q_push_ok:
  assumes "queue_rep js q ps" "js p = Some j" "p \<noteq> 0" "p \<notin> set ps" "int (length ps) < int32_max"
  shows "\<exists>js' q'. q_push js q p = Some (js', q') \<and> queue_rep js' q' (ps @ [p]) \<and> relinked (insert p (set ps)) js js'"
proof -
  let ?js = "js(p \<mapsto> j\<lparr>j_next := 0\<rparr>)"
  have fit: "fits32 (q_count q + 1)" using assms(1,5) by (intro fits32I) (auto simp: queue_rep_def)
  have rl: "relinked {p} js ?js" using assms(2) by (auto simp: relinked_def content_of_def)
  show ?thesis
  proof (cases ps rule: rev_cases)
    case Nil
    then show ?thesis using assms fit rl by (auto simp: q_push_def queue_rep_def Let_def)
  next
    case (snoc qs t)
    have ch: "chain js (q_head q) (qs @ [t])" "distinct (qs @ [t])" "q_tail q = t" "t \<noteq> p" "p \<notin> set (qs @ [t])"
      using assms(1,4) snoc by (auto simp: queue_rep_def)
    then obtain jt where jt: "js t = Some jt" "t \<noteq> 0" using chain_live [OF ch(1), of t] by auto
    have ch1: "chain ?js (q_head q) (qs @ [t])" using ch by (simp add: chain_upd)
    have "chain (?js(t \<mapsto> jt\<lparr>j_next := p\<rparr>)) (q_head q) (qs @ [t, p])"
      using ch jt assms(3) by (intro chain_snoc [OF ch1]) auto
    moreover have "q_push js q p = Some (?js(t \<mapsto> jt\<lparr>j_next := p\<rparr>), q\<lparr>q_tail := p, q_count := q_count q + 1\<rparr>)"
      using ch jt assms(2) fit by (simp add: q_push_def Let_def)
    moreover have "relinked (insert p (set ps)) js (?js(t \<mapsto> jt\<lparr>j_next := p\<rparr>))"
      using ch jt assms(2) snoc by (auto simp: relinked_def content_of_def)
    ultimately show ?thesis using ch assms(1,5) snoc by (auto simp: queue_rep_def)
  qed
qed

lemma q_take_ok:
  assumes "queue_rep js q (p # ps)"
  shows "\<exists>js' q'. q_take js q = Some (p, js', q') \<and> queue_rep js' q' ps \<and> relinked {p} js js'"
proof -
  from assms(1) obtain j where j: "q_head q = p" "js p = Some j" "chain js (j_next j) ps" "p \<notin> set ps" "distinct ps"
    "q_count q = int (length ps) + 1" "q_tail q = last (p # ps)" "int (length ps) < int32_max" by (auto simp: queue_rep_def)
  have fit: "fits32 (q_count q - 1)" using j(6,8) by (intro fits32I) auto
  have "q_take js q = Some (p, js(p \<mapsto> j\<lparr>j_next := 0\<rparr>),
      q\<lparr>q_head := j_next j, q_tail := (if j_next j = 0 then 0 else q_tail q), q_count := q_count q - 1\<rparr>)"
    using j fit by (simp add: q_take_def)
  moreover have "relinked {p} js (js(p \<mapsto> j\<lparr>j_next := 0\<rparr>))" using j by (auto simp: relinked_def content_of_def)
  ultimately show ?thesis using j chain_head [OF j(3)] by (auto simp: queue_rep_def chain_upd)
qed

text \<open>A queue of jobs is a first-in-first-out queue of their addresses.\<close>

interpretation jq: fifo "\<lambda>s. queue_rep (fst s) (snd s)" "\<lambda>s p. p \<noteq> 0 \<and> fst s p \<noteq> None" distinct "2147483647"
  "\<lambda>s p. q_push (fst s) (snd s) p" "\<lambda>s. q_take (fst s) (snd s)"
proof unfold_locales
  fix s :: "jobs \<times> jqueue" and xs x
  assume a: "queue_rep (fst s) (snd s) xs" "x \<noteq> 0 \<and> fst s x \<noteq> None" "distinct (xs @ [x])" "length xs < 2147483647"
  then obtain j where j: "fst s x = Some j" by auto
  from q_push_ok [OF a(1) j, of] a obtain js' q' where "q_push (fst s) (snd s) x = Some (js', q')"
    "queue_rep js' q' (xs @ [x])" "relinked (insert x (set xs)) (fst s) js'" by (auto simp: int32_max_def)
  then show "\<exists>s'. q_push (fst s) (snd s) x = Some s' \<and> queue_rep (fst s') (snd s') (xs @ [x]) \<and>
      (\<forall>y. y \<noteq> 0 \<and> fst s y \<noteq> None \<longrightarrow> y \<noteq> 0 \<and> fst s' y \<noteq> None)"
    using relinked_live by (intro exI [of _ "(js', q')"]) auto
next
  fix s :: "jobs \<times> jqueue" and x xs
  assume a: "queue_rep (fst s) (snd s) (x # xs)"
  show "\<exists>s'. q_take (fst s) (snd s) = Some (x, s') \<and> queue_rep (fst s') (snd s') xs"
    using q_take_ok [OF a] by auto
qed simp

subsection \<open>Interleavings\<close>

text \<open>
  The steps of the main thread and of the workers, with what can be observed of them. A job is
  freshly allocated when it is submitted, by the main thread outside of the operations of the pool or by a
  callback. The pool is shut down by the main thread outside of the callbacks; when the workers have
  left it polls once more, and the callbacks of that poll may still submit: such a job is \<open>Late\<close>.
\<close>

datatype event = Submitted content | Late content | Taken content | Worked content | Polled content | Completed content

abbreviation submitting :: "pool \<Rightarrow> bool" where
  "submitting s \<equiv> (\<exists>p fs. p_main s = FSubmit p # fs)"

abbreviation joining :: "pool \<Rightarrow> bool" where
  "joining s \<equiv> (\<exists>fs. p_main s = FShutdown # fs)"

inductive pool_step :: "pool \<Rightarrow> event list \<Rightarrow> pool \<Rightarrow> bool" where
  submit: "p \<noteq> 0 \<Longrightarrow> p_jobs s p = None \<Longrightarrow> \<not> submitting s \<Longrightarrow> \<not> joining s \<Longrightarrow>
     submit_begin p (s\<lparr>p_jobs := (p_jobs s)(p \<mapsto> j)\<rparr>) = Some s' \<Longrightarrow>
     pool_step s [if FShutdown \<in> set (p_main s) then Late (content_of j) else Submitted (content_of j)] s'"
| submitted: "submit_end s = Some s' \<Longrightarrow> pool_step s [] s'"
| idle: "i < length (g_workers s) \<Longrightarrow> g_workers s ! i = WIdle \<Longrightarrow> worker_take i s = Some s' \<Longrightarrow>
     g_workers s' ! i \<in> {WIdle, WExited} \<Longrightarrow> pool_step s [] s'"
| take: "i < length (g_workers s) \<Longrightarrow> g_workers s ! i = WIdle \<Longrightarrow> worker_take i s = Some s' \<Longrightarrow>
     g_workers s' ! i = WRunning p \<Longrightarrow> p_jobs s p = Some j \<Longrightarrow> pool_step s [Taken (content_of j)] s'"
| worked: "i < length (g_workers s) \<Longrightarrow> g_workers s ! i = WRunning p \<Longrightarrow> worker_done i p s = Some s' \<Longrightarrow>
     p_jobs s p = Some j \<Longrightarrow> pool_step s [Worked (content_of j)] s'"
| poll: "g_pool_inited s \<Longrightarrow> \<not> submitting s \<Longrightarrow> (FShutdown \<in> set (p_main s) \<longrightarrow> set (g_workers s) \<subseteq> {WExited}) \<Longrightarrow>
     poll_take s = Some (Some p, s') \<Longrightarrow> p_jobs s p = Some j \<Longrightarrow> pool_step s [Polled (content_of j)] s'"
| completed: "p_main s = FComplete p # fs \<Longrightarrow> poll_end s = Some s' \<Longrightarrow> p_jobs s p = Some j \<Longrightarrow>
     pool_step s [Completed (content_of j)] s'"
| shutdown: "p_main s = [] \<Longrightarrow> pool_step s [] (shutdown_begin s)"
| joined: "set (g_workers s) \<subseteq> {WExited} \<Longrightarrow> poll_take s = Some (None, s1) \<Longrightarrow> shutdown_end s = Some s' \<Longrightarrow>
     pool_step s [] s'"

inductive pool_run :: "event list \<Rightarrow> pool \<Rightarrow> bool" where
  start: "pool_run [] pool_start"
| step: "pool_run es s \<Longrightarrow> pool_step s e s' \<Longrightarrow> pool_run (es @ e) s'"

definition running :: "worker list \<Rightarrow> jaddr list" where
  "running ws = concat (map (\<lambda>w. case w of WRunning p \<Rightarrow> [p] | _ \<Rightarrow> []) ws)"

definition entering :: "frame list \<Rightarrow> jaddr list" where
  "entering fs = concat (map (\<lambda>f. case f of FSubmit p \<Rightarrow> [p] | _ \<Rightarrow> []) fs)"

definition leaving :: "frame list \<Rightarrow> jaddr list" where
  "leaving fs = concat (map (\<lambda>f. case f of FComplete p \<Rightarrow> [p] | _ \<Rightarrow> []) fs)"

text \<open>
  The jobs the pool holds: \<open>ws\<close> and \<open>ds\<close> are those that wait for a worker and for the main thread.
\<close>

definition held :: "pool \<Rightarrow> jaddr list \<Rightarrow> jaddr list \<Rightarrow> jaddr list" where
  "held s ws ds = ws @ ds @ running (g_workers s) @ entering (p_main s) @ leaving (p_main s)"

text \<open>No worker is left; what is submitted then waits in vain.\<close>

definition deserted :: "pool \<Rightarrow> bool" where
  "deserted s \<longleftrightarrow> set (g_workers s) \<subseteq> {WExited}"

lemma deserted_simps [simp]:
  "deserted (s\<lparr>p_main := fs\<rparr>) = deserted s" "deserted (s\<lparr>p_jobs := js\<rparr>) = deserted s"
  "deserted (s\<lparr>g_work := q\<rparr>) = deserted s" "deserted (s\<lparr>g_done := q\<rparr>) = deserted s"
  "deserted (s\<lparr>g_inflight := n\<rparr>) = deserted s" "deserted (s\<lparr>g_pool_inited := b\<rparr>) = deserted s"
  "deserted (s\<lparr>g_pool_shutdown := b\<rparr>) = deserted s"
  by (simp_all add: deserted_def)

definition control_ok :: "pool \<Rightarrow> bool" where
  "control_ok s \<longleftrightarrow> entering (tl (p_main s)) = [] \<and>
     (FShutdown \<in> set (p_main s) \<longleftrightarrow> g_pool_inited s \<and> g_pool_shutdown s) \<and>
     (g_pool_inited s \<and> g_pool_shutdown s \<longrightarrow> (\<not> deserted s \<longrightarrow> p_main s = [FShutdown]) \<and>
        last (p_main s) = FShutdown \<and> FShutdown \<notin> set (butlast (p_main s))) \<and>
     (g_pool_inited s \<longrightarrow> length (g_workers s) = TS_POOL_WORKERS) \<and>
     (\<not> g_pool_inited s \<longrightarrow> deserted s \<and> p_main s = []) \<and>
     (WExited \<in> set (g_workers s) \<and> g_pool_inited s \<longrightarrow> g_pool_shutdown s)"

definition pool_inv :: "pool \<Rightarrow> jaddr list \<Rightarrow> jaddr list \<Rightarrow> bool" where
  "pool_inv s ws ds \<longleftrightarrow>
     queue_rep (p_jobs s) (g_work s) ws \<and> queue_rep (p_jobs s) (g_done s) ds \<and>
     distinct (held s ws ds) \<and> (\<forall>p \<in> set (held s ws ds). p \<noteq> 0 \<and> p_jobs s p \<noteq> None) \<and>
     (g_pool_inited s \<longrightarrow> g_inflight s = int (length (held s ws ds))) \<and> g_inflight s \<le> int32_max \<and> control_ok s \<and>
     (\<not> g_pool_inited s \<longrightarrow> ds = []) \<and> (WExited \<in> set (g_workers s) \<and> \<not> deserted s \<longrightarrow> ws = [])"

text \<open>The jobs that a worker will still take: those that came while there were workers.\<close>

definition waiting :: "pool \<Rightarrow> jaddr list \<Rightarrow> jaddr list" where
  "waiting s ws = (if deserted s then [] else ws @ entering (p_main s))"

text \<open>What was observed of the jobs: they wait in the order in which they came.\<close>

definition pool_hist :: "event list \<Rightarrow> pool \<Rightarrow> jaddr list \<Rightarrow> jaddr list \<Rightarrow> bool" where
  "pool_hist es s ws ds \<longleftrightarrow>
     [c. Submitted c \<leftarrow> es] = [c. Taken c \<leftarrow> es] @ contents (p_jobs s) (waiting s ws) \<and>
     [c. Worked c \<leftarrow> es] = [c. Polled c \<leftarrow> es] @ contents (p_jobs s) ds \<and>
     mset [c. Taken c \<leftarrow> es] = mset [c. Worked c \<leftarrow> es] + mset (contents (p_jobs s) (running (g_workers s))) \<and>
     mset [c. Polled c \<leftarrow> es] = mset [c. Completed c \<leftarrow> es] + mset (contents (p_jobs s) (leaving (p_main s))) \<and>
     (deserted s \<and> [c. Late c \<leftarrow> es] = [] \<longrightarrow> ws @ entering (p_main s) = [])"

lemma frames_simps [simp]:
  "entering [] = []" "entering (FSubmit p # fs) = p # entering fs" "entering (FComplete p # fs) = entering fs"
  "entering (FShutdown # fs) = entering fs" "leaving [] = []" "leaving (FSubmit p # fs) = leaving fs"
  "leaving (FComplete p # fs) = p # leaving fs" "leaving (FShutdown # fs) = leaving fs"
  by (simp_all add: entering_def leaving_def)

lemma running_simps [simp]:
  "running [] = []" "running (ws @ vs) = running ws @ running vs" "running (WIdle # ws) = running ws"
  "running (WExited # ws) = running ws" "running (WRunning p # ws) = p # running ws"
  by (simp_all add: running_def)

lemma running_replicate [simp]: "running (replicate n WIdle) = []"
  by (induction n) auto

lemma running_exited: "set ws \<subseteq> {WExited} \<Longrightarrow> running ws = []"
  by (induction ws) auto

lemma running_upd:
  assumes "i < length ws"
  obtains A B where "running ws = running A @ running [ws ! i] @ running B"
    "\<And>w. running (ws[i := w]) = running A @ running [w] @ running B" "set ws = insert (ws ! i) (set A \<union> set B)"
proof
  show "running ws = running (take i ws) @ running [ws ! i] @ running (drop (Suc i) ws)"
    using assms by (metis id_take_nth_drop running_simps(2) append_Cons append_Nil)
  show "running (ws[i := w]) = running (take i ws) @ running [w] @ running (drop (Suc i) ws)" for w
    using assms by (metis upd_conv_take_nth_drop running_simps(2) append_Cons append_Nil)
  show "set ws = insert (ws ! i) (set (take i ws) \<union> set (drop (Suc i) ws))"
    using assms by (metis id_take_nth_drop list.simps(15) set_append Un_insert_right)
qed

lemma contents_simps [simp]:
  "contents js [] = []" "contents js (p # ps) = content_of (the (js p)) # contents js ps"
  "contents js (ps @ qs) = contents js ps @ contents js qs"
  by (simp_all add: contents_def)

lemma contents_upd: "p \<notin> set ps \<Longrightarrow> contents (js(p := x)) ps = contents js ps"
  by (auto simp: contents_def)

lemma pool_inv_live: "pool_inv s ws ds \<Longrightarrow> p \<in> set (held s ws ds) \<Longrightarrow> p_jobs s p \<noteq> None \<and> p \<noteq> 0"
  by (simp add: pool_inv_def)

lemma hist_relinked:
  assumes "relinked A (p_jobs s) js'" "pool_inv s ws ds" "set ps \<subseteq> set (held s ws ds)"
  shows "contents js' ps = contents (p_jobs s) ps"
  using relinked_contents [OF assms(1), of ps] pool_inv_live [OF assms(2)] assms(3) by blast

lemma pool_start_inv: "pool_inv pool_start [] []" "pool_hist [] pool_start [] []"
  by (simp_all add: pool_inv_def pool_hist_def pool_start_def held_def control_ok_def int32_max_def q_init_def deserted_def waiting_def)

lemma not_deserted:
  assumes "control_ok s" "g_pool_inited s" "\<not> g_pool_shutdown s" shows "\<not> deserted s"
proof -
  have "g_workers s \<noteq> []" "WExited \<notin> set (g_workers s)" using assms by (auto simp: control_ok_def TS_POOL_WORKERS_def)
  then show ?thesis by (cases "g_workers s") (auto simp: deserted_def)
qed

lemma deserted_nth: "i < length (g_workers s) \<Longrightarrow> g_workers s ! i \<noteq> WExited \<Longrightarrow> \<not> deserted s"
  using nth_mem by (fastforce simp: deserted_def)

lemma init_ok:
  assumes "pool_inv s ws ds" "pool_hist es s ws ds"
  shows "\<exists>ws'. pool_inv (ts_thread_pool_init s) ws' ds \<and> pool_hist es (ts_thread_pool_init s) ws' ds \<and> g_pool_inited (ts_thread_pool_init s)"
proof (cases "g_pool_inited s")
  case True
  then show ?thesis using assms by (auto simp: ts_thread_pool_init_def)
next
  case False
  have c: "deserted s" "p_main s = []" "ds = []" "\<not> deserted (ts_thread_pool_init s)"
    using assms(1) False by (auto simp: pool_inv_def control_ok_def deserted_def ts_thread_pool_init_def TS_POOL_WORKERS_def)
  then have "running (g_workers s) = []" using running_exited by (simp add: deserted_def)
  then have "pool_hist es (ts_thread_pool_init s) [] []"
    using assms(2) c False by (simp add: pool_hist_def waiting_def ts_thread_pool_init_def)
  moreover have "pool_inv (ts_thread_pool_init s) [] []"
    using c False by (auto simp: pool_inv_def control_ok_def ts_thread_pool_init_def held_def q_init_def int32_max_def)
  moreover have "g_pool_inited (ts_thread_pool_init s)" by (simp add: ts_thread_pool_init_def)
  ultimately show ?thesis using c by blast
qed

text \<open>Every step keeps the invariant and the order; one lemma for each.\<close>

definition pool_ok :: "event list \<Rightarrow> pool \<Rightarrow> bool" where
  "pool_ok es s \<longleftrightarrow> (\<exists>ws ds. pool_inv s ws ds \<and> pool_hist es s ws ds)"

lemma not_submitting:
  assumes "control_ok s" "\<not> submitting s" shows "entering (p_main s) = []"
proof (cases "p_main s")
  case (Cons f fs)
  have "entering fs = []" using assms(1) Cons by (simp add: control_ok_def)
  with Cons assms(2) show ?thesis by (cases f) auto
qed simp

lemma submit_ok:
  assumes "pool_ok es s" "p \<noteq> 0" "p_jobs s p = None" "\<not> submitting s" "\<not> joining s"
    and "submit_begin p (s\<lparr>p_jobs := (p_jobs s)(p \<mapsto> j)\<rparr>) = Some s'"
  shows "pool_ok (es @ [if FShutdown \<in> set (p_main s) then Late (content_of j) else Submitted (content_of j)]) s'"
proof -
  let ?s0 = "ts_thread_pool_init s"
  obtain ws ds where a: "pool_inv s ws ds" "pool_hist es s ws ds" using assms(1) by (auto simp: pool_ok_def)
  from init_ok [OF a] obtain vs where i: "pool_inv ?s0 vs ds" "pool_hist es ?s0 vs ds" "g_pool_inited ?s0" by blast
  have js: "p_jobs ?s0 = p_jobs s" "p_main ?s0 = p_main s" by (simp_all add: ts_thread_pool_init_def)
  have ini: "ts_thread_pool_init (s\<lparr>p_jobs := (p_jobs s)(p \<mapsto> j)\<rparr>) = ?s0\<lparr>p_jobs := (p_jobs s)(p \<mapsto> j)\<rparr>"
    by (simp add: ts_thread_pool_init_def)
  have new: "p \<notin> set (held ?s0 vs ds)" using pool_inv_live [of ?s0 vs ds p] i assms(3) by (auto simp: js)
  have ctl: "control_ok ?s0" using i(1) by (simp add: pool_inv_def)
  then have ent: "entering (p_main s) = []" using not_submitting [of ?s0] assms(4) by (simp add: js)
  have des: "deserted ?s0 \<longleftrightarrow> FShutdown \<in> set (p_main s)"
    using ctl i(3) assms(5) not_deserted [OF ctl i(3)] by (auto simp: control_ok_def js)
  from assms(2,6) have s': "s' = ?s0\<lparr>p_jobs := (p_jobs s)(p \<mapsto> j), g_inflight := g_inflight ?s0 + 1, p_main := FSubmit p # p_main s\<rparr>"
    "fits32 (g_inflight ?s0 + 1)"
    by (auto simp: submit_begin_def Let_def ini js bind_eq_Some_conv ck32_eq_Some)
  have h: "mset (held s' vs ds) = mset (p # held ?s0 vs ds)" by (simp add: s' held_def js)
  have "distinct (held s' vs ds)" using h new i by (metis distinct.simps(2) mset_eq_imp_distinct_iff pool_inv_def)
  moreover have "set (held s' vs ds) = insert p (set (held ?s0 vs ds))" "length (held s' vs ds) = Suc (length (held ?s0 vs ds))"
    using h by (metis set_mset_mset list.simps(15), metis size_mset length_Cons)
  moreover have "control_ok s'" using ctl i(3) ent des by (auto simp: control_ok_def s' js)
  moreover have "queue_rep (p_jobs s') (g_work s') vs" "queue_rep (p_jobs s') (g_done s') ds"
    using i new by (auto simp: pool_inv_def s' js held_def queue_rep_upd)
  ultimately have "pool_inv s' vs ds" using i s' assms(2) by (auto simp: pool_inv_def js fits32_def)
  moreover have "pool_hist (es @ [if FShutdown \<in> set (p_main s) then Late (content_of j) else Submitted (content_of j)]) s' vs ds"
    using i(2) new ent des by (auto simp: pool_hist_def waiting_def s' js held_def contents_upd)
  ultimately show ?thesis unfolding pool_ok_def by blast
qed

text \<open>A step that moves a job from one place to another.\<close>

lemma move_ok:
  assumes "pool_inv s ws ds" "relinked A (p_jobs s) (p_jobs s')" "mset (held s' ws' ds') = mset (held s ws ds)"
    and "queue_rep (p_jobs s') (g_work s') ws'" "queue_rep (p_jobs s') (g_done s') ds'" "control_ok s'"
    and "g_inflight s' = g_inflight s" "g_pool_inited s" "g_pool_inited s'"
    and "WExited \<in> set (g_workers s') \<and> \<not> deserted s' \<longrightarrow> ws' = []"
  shows "pool_inv s' ws' ds'"
proof -
  have m: "set (held s' ws' ds') = set (held s ws ds)" "length (held s' ws' ds') = length (held s ws ds)"
    "distinct (held s' ws' ds') = distinct (held s ws ds)"
    using assms(3) by (metis set_mset_mset, metis size_mset, metis mset_eq_imp_distinct_iff)
  from m assms show ?thesis using relinked_live [OF assms(2)] by (auto simp: pool_inv_def)
qed

lemma control_cong:
  assumes "control_ok s" "p_main s' = p_main s" "g_pool_inited s' = g_pool_inited s"
    and "g_pool_shutdown s' = g_pool_shutdown s" "length (g_workers s') = length (g_workers s)"
    and "WExited \<in> set (g_workers s') \<Longrightarrow> WExited \<in> set (g_workers s)" "deserted s' = deserted s"
  shows "control_ok s'"
  using assms(1,6) unfolding control_ok_def assms(2-5,7) by blast

lemma inited_main: "control_ok s \<Longrightarrow> p_main s \<noteq> [] \<Longrightarrow> g_pool_inited s"
  by (auto simp: control_ok_def)

lemma inited_worker: "control_ok s \<Longrightarrow> \<not> deserted s \<Longrightarrow> g_pool_inited s"
  by (auto simp: control_ok_def)

lemma entering_tl: "entering fs = [] \<Longrightarrow> entering (tl fs) = []"
  by (cases fs) (auto simp: entering_def)

lemma control_pop:
  assumes "control_ok s" "p_main s = f # fs" "f \<noteq> FShutdown"
  shows "control_ok (s\<lparr>p_main := fs\<rparr>)"
proof -
  have "entering fs = []" using assms(1,2) by (simp add: control_ok_def)
  then have "entering (tl fs) = []" by (rule entering_tl)
  then show ?thesis using assms \<open>entering fs = []\<close> by (cases fs) (auto simp: control_ok_def)
qed

lemma set_list_update: "x \<in> set (xs[i := y]) \<Longrightarrow> x \<noteq> y \<Longrightarrow> x \<in> set xs"
  by (meson insertE set_update_subset_insert subsetD)

lemma submitted_ok:
  assumes "pool_ok es s" "submit_end s = Some s'"
  shows "pool_ok es s'"
proof -
  obtain ws ds where a: "pool_inv s ws ds" "pool_hist es s ws ds" using assms(1) by (auto simp: pool_ok_def)
  from assms(2) obtain p fs js q where p: "p_main s = FSubmit p # fs" "q_push (p_jobs s) (g_work s) p = Some (js, q)"
    "s' = s\<lparr>p_jobs := js, g_work := q, p_main := fs\<rparr>"
    by (auto simp: submit_end_def bind_eq_Some_conv split: list.splits frame.splits)
  have ctl: "control_ok s" using a(1) by (simp add: pool_inv_def)
  have ini: "g_pool_inited s" using inited_main [OF ctl] p(1) by simp
  have not: "\<not> (WExited \<in> set (g_workers s) \<and> \<not> deserted s)" using ctl ini p(1) by (auto simp: control_ok_def)
  have inv: "p \<in> set (held s ws ds)" "entering fs = []" "p \<notin> set ws" "p \<notin> set ds" "set ws \<inter> set ds = {}"
    using a(1) by (auto simp: held_def p(1) pool_inv_def control_ok_def)
  obtain j where j: "p_jobs s p = Some j" "p \<noteq> 0" using pool_inv_live [OF a(1) inv(1)] by auto
  have "length ws < length (held s ws ds)" by (simp add: held_def p(1))
  then have "int (length ws) < int32_max" using a(1) ini by (simp add: pool_inv_def)
  with q_push_ok [of "p_jobs s" "g_work s" ws p j] j inv(3) a(1) p(2) have q: "queue_rep js q (ws @ [p])"
    "relinked (insert p (set ws)) (p_jobs s) js" by (auto simp: pool_inv_def)
  have d: "queue_rep js (g_done s) ds" using a(1) inv by (intro queue_rep_relinked [OF q(2)]) (auto simp: pool_inv_def)
  have "pool_inv s' (ws @ [p]) ds"
  proof (rule move_ok [OF a(1)])
    show "relinked (insert p (set ws)) (p_jobs s) (p_jobs s')" using q by (simp add: p)
    show "mset (held s' (ws @ [p]) ds) = mset (held s ws ds)" by (simp add: held_def p)
    from control_pop [OF ctl p(1)] show "control_ok s'" by (rule control_cong) (simp_all add: p(3))
    show "WExited \<in> set (g_workers s') \<and> \<not> deserted s' \<longrightarrow> ws @ [p] = []" using not by (simp add: p(3))
  qed (use q d ini in \<open>simp_all add: p(3)\<close>)
  moreover have "contents js ws = contents (p_jobs s) ws" "contents js ds = contents (p_jobs s) ds"
    "contents js (running (g_workers s)) = contents (p_jobs s) (running (g_workers s))"
    "contents js (leaving fs) = contents (p_jobs s) (leaving fs)" "contents js [p] = contents (p_jobs s) [p]"
    by (rule hist_relinked [OF q(2) a(1)]; auto simp: held_def p)+
  then have "pool_hist es s' (ws @ [p]) ds" using a(2) inv(2) by (auto simp: pool_hist_def waiting_def p)
  ultimately show ?thesis by (auto simp: pool_ok_def)
qed

lemma worker_take_cases:
  assumes "pool_inv s ws ds" "worker_take i s = Some s'"
  shows "(ws = [] \<and> (s' = s \<or> g_pool_shutdown s \<and> s' = s\<lparr>g_workers := (g_workers s)[i := WExited]\<rparr>)) \<or>
    (\<exists>p vs js q. ws = p # vs \<and> s' = s\<lparr>p_jobs := js, g_work := q, g_workers := (g_workers s)[i := WRunning p]\<rparr> \<and>
       queue_rep js q vs \<and> relinked {p} (p_jobs s) js)"
proof (cases ws)
  case Nil
  then have "q_head (g_work s) = 0" using assms(1) by (simp add: pool_inv_def)
  with Nil assms(2) show ?thesis by (auto simp: worker_take_def q_pop_def split: if_splits)
next
  case (Cons p vs)
  then have rep: "queue_rep (p_jobs s) (g_work s) (p # vs)" "q_head (g_work s) \<noteq> 0"
    using assms(1) by (auto simp: pool_inv_def queue_rep_def)
  from q_take_ok [OF rep(1)] obtain js q where "q_take (p_jobs s) (g_work s) = Some (p, js, q)" "queue_rep js q vs"
    "relinked {p} (p_jobs s) js" by blast
  with rep(2) assms(2) Cons show ?thesis by (auto simp: worker_take_def q_pop_def)
qed

lemma idle_ok:
  assumes "pool_ok es s" "i < length (g_workers s)" "g_workers s ! i = WIdle" "worker_take i s = Some s'"
    and "g_workers s' ! i \<in> {WIdle, WExited}"
  shows "pool_ok es s'"
proof -
  obtain ws ds where a: "pool_inv s ws ds" "pool_hist es s ws ds" using assms(1) by (auto simp: pool_ok_def)
  from worker_take_cases [OF a(1) assms(4)] assms(2,5) consider "s' = s"
    | "ws = []" "g_pool_shutdown s" "s' = s\<lparr>g_workers := (g_workers s)[i := WExited]\<rparr>" by auto
  then show ?thesis
  proof cases
    case 2
    obtain A B where AB: "running (g_workers s) = running A @ running [g_workers s ! i] @ running B"
      "running ((g_workers s)[i := WExited]) = running A @ running [WExited] @ running B"
      using running_upd [OF assms(2)] by metis
    have h: "held s' ws ds = held s ws ds" using AB assms(3) 2 by (simp add: held_def)
    have nd: "\<not> deserted s" using deserted_nth [OF assms(2)] assms(3) by simp
    have m: "g_pool_inited s" "p_main s = [FShutdown]" using a(1) nd 2 by (auto simp: pool_inv_def control_ok_def)
    have "control_ok s'" using a(1) 2 m by (auto simp: pool_inv_def control_ok_def)
    then have "pool_inv s' ws ds" using a(1) 2 h m by (simp add: pool_inv_def)
    moreover have "pool_hist es s' ws ds" using a(2) 2 AB assms(3) nd m by (simp add: pool_hist_def waiting_def)
    ultimately show ?thesis by (auto simp: pool_ok_def)
  qed (use assms in simp)
qed

lemma take_ok:
  assumes "pool_ok es s" "i < length (g_workers s)" "g_workers s ! i = WIdle" "worker_take i s = Some s'"
    and "g_workers s' ! i = WRunning p" "p_jobs s p = Some j"
  shows "pool_ok (es @ [Taken (content_of j)]) s'"
proof -
  obtain ws ds where a: "pool_inv s ws ds" "pool_hist es s ws ds" using assms(1) by (auto simp: pool_ok_def)
  from worker_take_cases [OF a(1) assms(4)] assms(2,3,5) obtain vs js q where s': "ws = p # vs"
    "s' = s\<lparr>p_jobs := js, g_work := q, g_workers := (g_workers s)[i := WRunning p]\<rparr>"
    "queue_rep js q vs" "relinked {p} (p_jobs s) js" by auto
  obtain A B where AB: "running (g_workers s) = running A @ running [g_workers s ! i] @ running B"
    "running ((g_workers s)[i := WRunning p]) = running A @ running [WRunning p] @ running B"
    using running_upd [OF assms(2)] by metis
  have d: "queue_rep js (g_done s) ds"
    using a(1) by (intro queue_rep_relinked [OF s'(4)]) (auto simp: pool_inv_def s'(1) held_def)
  have nd: "\<not> deserted s" "\<not> deserted s'" using deserted_nth [OF assms(2)] deserted_nth [of i s'] assms(2,3,5)
    by (simp_all add: s'(2))
  have ctl: "control_ok s" using a(1) by (simp add: pool_inv_def)
  have "pool_inv s' vs ds"
  proof (rule move_ok [OF a(1)])
    show "relinked {p} (p_jobs s) (p_jobs s')" using s' by simp
    show "mset (held s' vs ds) = mset (held s ws ds)" using AB assms(3) by (simp add: held_def s'(1,2))
    show "control_ok s'"
      using ctl nd by (intro control_cong [of s s']) (auto simp: s'(2) dest: set_list_update)
    show "WExited \<in> set (g_workers s') \<and> \<not> deserted s' \<longrightarrow> vs = []"
      using a(1) nd by (auto simp: pool_inv_def s'(1,2) dest!: set_list_update)
  qed (use s' d inited_worker [OF ctl nd(1)] in simp_all)
  moreover have "contents js vs = contents (p_jobs s) vs" "contents js ds = contents (p_jobs s) ds"
    "contents js (running A) = contents (p_jobs s) (running A)" "contents js (running B) = contents (p_jobs s) (running B)"
    "contents js (leaving (p_main s)) = contents (p_jobs s) (leaving (p_main s))"
    "contents js (entering (p_main s)) = contents (p_jobs s) (entering (p_main s))" "contents js [p] = contents (p_jobs s) [p]"
    by (rule hist_relinked [OF s'(4) a(1)]; auto simp: held_def s'(1) AB(1))+
  then have "pool_hist (es @ [Taken (content_of j)]) s' vs ds"
    using a(2) assms(3,6) nd by (simp add: pool_hist_def waiting_def s'(1,2) AB)
  ultimately show ?thesis by (auto simp: pool_ok_def)
qed

lemma worked_ok:
  assumes "pool_ok es s" "i < length (g_workers s)" "g_workers s ! i = WRunning p" "worker_done i p s = Some s'"
    and "p_jobs s p = Some j"
  shows "pool_ok (es @ [Worked (content_of j)]) s'"
proof -
  obtain ws ds where a: "pool_inv s ws ds" "pool_hist es s ws ds" using assms(1) by (auto simp: pool_ok_def)
  from assms(4) obtain js q where s': "q_push (p_jobs s) (g_done s) p = Some (js, q)"
    "s' = s\<lparr>p_jobs := js, g_done := q, g_workers := (g_workers s)[i := WIdle]\<rparr>"
    by (auto simp: worker_done_def bind_eq_Some_conv)
  obtain A B where AB: "running (g_workers s) = running A @ running [g_workers s ! i] @ running B"
    "running ((g_workers s)[i := WIdle]) = running A @ running [WIdle] @ running B"
    using running_upd [OF assms(2)] by metis
  have p: "p \<in> set (held s ws ds)" using AB assms(3) by (simp add: held_def)
  then have n: "p \<noteq> 0" "p \<notin> set ws" "p \<notin> set ds" "set ws \<inter> set ds = {}"
    using pool_inv_live [OF a(1) p] a(1) AB assms(3) by (auto simp: pool_inv_def held_def)
  have nd: "\<not> deserted s" "\<not> deserted s'" using deserted_nth [OF assms(2)] deserted_nth [of i s'] assms(2,3)
    by (simp_all add: s'(2))
  have ctl: "control_ok s" using a(1) by (simp add: pool_inv_def)
  have "length ds < length (held s ws ds)" using AB assms(3) by (simp add: held_def)
  then have "int (length ds) < int32_max" using a(1) inited_worker [OF ctl nd(1)] by (simp add: pool_inv_def)
  with q_push_ok [of "p_jobs s" "g_done s" ds p j] n assms(5) a(1) s'(1) have q: "queue_rep js q (ds @ [p])"
    "relinked (insert p (set ds)) (p_jobs s) js" by (auto simp: pool_inv_def)
  have w: "queue_rep js (g_work s) ws" using a(1) n by (intro queue_rep_relinked [OF q(2)]) (auto simp: pool_inv_def)
  have "pool_inv s' ws (ds @ [p])"
  proof (rule move_ok [OF a(1)])
    show "relinked (insert p (set ds)) (p_jobs s) (p_jobs s')" using q s' by simp
    show "mset (held s' ws (ds @ [p])) = mset (held s ws ds)" using AB assms(3) by (simp add: held_def s'(2))
    show "control_ok s'"
      using ctl nd by (intro control_cong [of s s']) (auto simp: s'(2) dest: set_list_update)
    show "WExited \<in> set (g_workers s') \<and> \<not> deserted s' \<longrightarrow> ws = []"
      using a(1) nd by (auto simp: pool_inv_def s'(2) dest!: set_list_update)
  qed (use q w s' inited_worker [OF ctl nd(1)] in simp_all)
  moreover have "contents js ws = contents (p_jobs s) ws" "contents js ds = contents (p_jobs s) ds"
    "contents js (running A) = contents (p_jobs s) (running A)" "contents js (running B) = contents (p_jobs s) (running B)"
    "contents js (leaving (p_main s)) = contents (p_jobs s) (leaving (p_main s))"
    "contents js (entering (p_main s)) = contents (p_jobs s) (entering (p_main s))" "contents js [p] = contents (p_jobs s) [p]"
    by (rule hist_relinked [OF q(2) a(1)]; auto simp: held_def AB(1) assms(3))+
  then have "pool_hist (es @ [Worked (content_of j)]) s' ws (ds @ [p])"
    using a(2) assms(3,5) nd by (simp add: pool_hist_def waiting_def s'(2) AB)
  ultimately show ?thesis by (auto simp: pool_ok_def)
qed

lemma poll_take_cases:
  assumes "pool_inv s ws ds" "poll_take s = Some (r, s')"
  shows "(ds = [] \<and> r = None \<and> s' = s) \<or>
    (\<exists>p es js q. ds = p # es \<and> r = Some p \<and> s' = s\<lparr>p_jobs := js, g_done := q, p_main := FComplete p # p_main s\<rparr> \<and>
       queue_rep js q es \<and> relinked {p} (p_jobs s) js)"
proof (cases ds)
  case Nil
  then have "q_head (g_done s) = 0" using assms(1) by (simp add: pool_inv_def)
  with Nil assms(2) show ?thesis by (auto simp: poll_take_def q_pop_def)
next
  case (Cons p es)
  then have rep: "queue_rep (p_jobs s) (g_done s) (p # es)" "q_head (g_done s) \<noteq> 0"
    using assms(1) by (auto simp: pool_inv_def queue_rep_def)
  from q_take_ok [OF rep(1)] obtain js q where "q_take (p_jobs s) (g_done s) = Some (p, js, q)" "queue_rep js q es"
    "relinked {p} (p_jobs s) js" by blast
  with rep(2) assms(2) Cons show ?thesis by (auto simp: poll_take_def q_pop_def)
qed

lemma poll_ok:
  assumes "pool_ok es s" "g_pool_inited s" "\<not> submitting s" "FShutdown \<in> set (p_main s) \<longrightarrow> set (g_workers s) \<subseteq> {WExited}"
    and "poll_take s = Some (Some p, s')" "p_jobs s p = Some j"
  shows "pool_ok (es @ [Polled (content_of j)]) s'"
proof -
  obtain ws ds where a: "pool_inv s ws ds" "pool_hist es s ws ds" using assms(1) by (auto simp: pool_ok_def)
  from poll_take_cases [OF a(1) assms(5)] obtain bs js q where s': "ds = p # bs"
    "s' = s\<lparr>p_jobs := js, g_done := q, p_main := FComplete p # p_main s\<rparr>"
    "queue_rep js q bs" "relinked {p} (p_jobs s) js" by auto
  have ctl: "control_ok s" using a(1) by (simp add: pool_inv_def)
  have ent: "entering (p_main s) = []" using not_submitting [OF ctl assms(3)] .
  have w: "queue_rep js (g_work s) ws"
    using a(1) by (intro queue_rep_relinked [OF s'(4)]) (auto simp: pool_inv_def s'(1) held_def)
  have "pool_inv s' ws bs"
  proof (rule move_ok [OF a(1)])
    show "relinked {p} (p_jobs s) (p_jobs s')" using s' by simp
    show "mset (held s' ws bs) = mset (held s ws ds)" by (simp add: held_def s'(1,2))
    show "control_ok s'" using ctl ent assms(2,4) by (cases "p_main s = []") (auto simp: control_ok_def s'(2) deserted_def)
    show "WExited \<in> set (g_workers s') \<and> \<not> deserted s' \<longrightarrow> ws = []"
      using a(1) by (auto simp: pool_inv_def s'(2) deserted_def)
  qed (use s' w assms(2) in simp_all)
  moreover have "contents js ws = contents (p_jobs s) ws" "contents js bs = contents (p_jobs s) bs"
    "contents js (running (g_workers s)) = contents (p_jobs s) (running (g_workers s))"
    "contents js (leaving (p_main s)) = contents (p_jobs s) (leaving (p_main s))" "contents js [p] = contents (p_jobs s) [p]"
    by (rule hist_relinked [OF s'(4) a(1)]; auto simp: held_def s'(1))+
  then have "pool_hist (es @ [Polled (content_of j)]) s' ws bs"
    using a(2) assms(6) ent by (auto simp: pool_hist_def waiting_def deserted_def s'(1,2))
  ultimately show ?thesis by (auto simp: pool_ok_def)
qed

lemma completed_ok:
  assumes "pool_ok es s" "p_main s = FComplete p # fs" "poll_end s = Some s'" "p_jobs s p = Some j"
  shows "pool_ok (es @ [Completed (content_of j)]) s'"
proof -
  obtain ws ds where a: "pool_inv s ws ds" "pool_hist es s ws ds" using assms(1) by (auto simp: pool_ok_def)
  have h: "mset (held s ws ds) = mset (p # ws @ ds @ running (g_workers s) @ entering fs @ leaving fs)"
    by (simp add: held_def assms(2))
  then have len: "length (held s ws ds) = Suc (length (ws @ ds @ running (g_workers s) @ entering fs @ leaving fs))"
    by (metis size_mset length_Cons)
  have ctl: "control_ok s" using a(1) by (simp add: pool_inv_def)
  have ini: "g_pool_inited s" using inited_main [OF ctl] assms(2) by simp
  have "0 < g_inflight s" using a(1) len ini by (simp add: pool_inv_def)
  then have s': "s' = s\<lparr>g_inflight := g_inflight s - 1, p_jobs := (p_jobs s)(p := None), p_main := fs\<rparr>"
    using assms(2,3) by (simp add: poll_end_def)
  have d: "distinct (p # ws @ ds @ running (g_workers s) @ entering fs @ leaving fs)"
    using a(1) h by (metis mset_eq_imp_distinct_iff pool_inv_def)
  have live: "x \<in> set (ws @ ds @ running (g_workers s) @ entering fs @ leaving fs) \<Longrightarrow> p_jobs s x \<noteq> None \<and> x \<noteq> 0" for x
    using pool_inv_live [OF a(1), of x] h by (metis list.set_intros(2) set_mset_mset)
  have hs: "held s' ws ds = ws @ ds @ running (g_workers s) @ entering fs @ leaving fs" by (simp add: held_def s')
  have alive: "\<forall>x \<in> set (held s' ws ds). x \<noteq> 0 \<and> p_jobs s' x \<noteq> None"
  proof
    fix x assume "x \<in> set (held s' ws ds)"
    with hs d have "x \<noteq> p" "x \<in> set (ws @ ds @ running (g_workers s) @ entering fs @ leaving fs)" by auto
    with live [of x] show "x \<noteq> 0 \<and> p_jobs s' x \<noteq> None" by (simp add: s')
  qed
  from control_pop [OF ctl assms(2)] have "control_ok s'" by (rule control_cong) (simp_all add: s')
  moreover have "queue_rep (p_jobs s') (g_work s') ws" "queue_rep (p_jobs s') (g_done s') ds"
    using a(1) d by (simp_all add: pool_inv_def s' queue_rep_upd)
  ultimately have "pool_inv s' ws ds"
    using a(1) d alive len hs ini by (simp add: pool_inv_def) (simp add: s')
  moreover have "pool_hist (es @ [Completed (content_of j)]) s' ws ds"
    using a(2) d assms(2,4) by (simp add: pool_hist_def waiting_def s' contents_upd)
  ultimately show ?thesis by (auto simp: pool_ok_def)
qed

lemma shutdown_ok:
  assumes "pool_ok es s" "p_main s = []"
  shows "pool_ok es (shutdown_begin s)"
proof (cases "g_pool_inited s")
  case True
  then have s': "shutdown_begin s = s\<lparr>g_pool_shutdown := True, p_main := [FShutdown]\<rparr>"
    using assms(2) by (simp add: shutdown_begin_def)
  obtain ws ds where a: "pool_inv s ws ds" "pool_hist es s ws ds" using assms(1) by (auto simp: pool_ok_def)
  have h: "held (shutdown_begin s) ws ds = held s ws ds" using assms(2) by (simp add: held_def s')
  have "control_ok (shutdown_begin s)" using a(1) True assms(2) by (simp add: pool_inv_def control_ok_def s')
  then have "pool_inv (shutdown_begin s) ws ds" using a(1) h by (simp add: pool_inv_def) (simp add: s')
  moreover have "pool_hist es (shutdown_begin s) ws ds" using a(2) assms(2) by (simp add: pool_hist_def waiting_def s')
  ultimately show ?thesis by (auto simp: pool_ok_def)
qed (use assms(1) in \<open>simp add: shutdown_begin_def\<close>)

lemma joined_ok:
  assumes "pool_ok es s" "set (g_workers s) \<subseteq> {WExited}" "poll_take s = Some (None, s1)" "shutdown_end s = Some s'"
  shows "pool_ok es s'"
proof -
  obtain ws ds where a: "pool_inv s ws ds" "pool_hist es s ws ds" using assms(1) by (auto simp: pool_ok_def)
  from assms(4) obtain fs where fs: "p_main s = FShutdown # fs" "s' = s\<lparr>g_pool_inited := False, p_main := fs\<rparr>"
    by (auto simp: shutdown_end_def split: list.splits frame.splits)
  have c: "control_ok s" "g_pool_inited s" using a(1) fs by (auto simp: pool_inv_def control_ok_def)
  then have "fs = []" using fs by (cases fs) (auto simp: control_ok_def)
  have des: "deserted s" "deserted s'" using assms(2) by (simp_all add: deserted_def fs(2))
  have "ds = []" using poll_take_cases [OF a(1) assms(3)] by auto
  have h: "held s' ws ds = held s ws ds" by (simp add: held_def fs \<open>fs = []\<close>)
  have "control_ok s'" using c des by (simp add: control_ok_def fs(2) \<open>fs = []\<close>)
  then have "pool_inv s' ws ds" using a(1) h des \<open>ds = []\<close> by (simp add: pool_inv_def) (simp add: fs)
  moreover have "pool_hist es s' ws ds" using a(2) des by (simp add: pool_hist_def waiting_def) (simp add: fs)
  ultimately show ?thesis by (auto simp: pool_ok_def)
qed

lemma pool_run_ok: "pool_run es s \<Longrightarrow> pool_ok es s"
proof (induction rule: pool_run.induct)
  case start
  then show ?case using pool_start_inv by (auto simp: pool_ok_def)
next
  case (step es s e s')
  note ok = step.IH
  show ?case using step(2)
  proof cases
    case (submit p j)
    show ?thesis unfolding submit(1) by (rule submit_ok [OF ok submit(2-6)])
  next
    case submitted
    then show ?thesis using submitted_ok [OF ok] by simp
  next
    case (idle i)
    show ?thesis using idle_ok [OF ok idle(2-5)] by (simp add: idle(1))
  next
    case (take i p j)
    show ?thesis unfolding take(1) by (rule take_ok [OF ok take(2-6)])
  next
    case (worked i p j)
    show ?thesis unfolding worked(1) by (rule worked_ok [OF ok worked(2-5)])
  next
    case (poll p j)
    show ?thesis unfolding poll(1) by (rule poll_ok [OF ok poll(2-6)])
  next
    case (completed p fs j)
    show ?thesis unfolding completed(1) by (rule completed_ok [OF ok completed(2-4)])
  next
    case shutdown
    then show ?thesis using shutdown_ok [OF ok] by simp
  next
    case (joined s1)
    then show ?thesis using joined_ok [OF ok] by simp
  qed
qed

subsection \<open>What the pool promises\<close>

text \<open>C7. Whatever the interleaving of the workers with the main thread, jobs are taken by the
  workers in the order in which they were submitted and completed on the main thread in the order in
  which the workers handed them on; no job is done that was not submitted, none twice.\<close>

theorem pool_order:
  assumes "pool_run es s"
  shows "prefix [c. Taken c \<leftarrow> es] [c. Submitted c \<leftarrow> es] \<and> prefix [c. Polled c \<leftarrow> es] [c. Worked c \<leftarrow> es] \<and>
    mset [c. Worked c \<leftarrow> es] \<subseteq># mset [c. Taken c \<leftarrow> es] \<and> mset [c. Completed c \<leftarrow> es] \<subseteq># mset [c. Submitted c \<leftarrow> es]"
proof -
  from pool_run_ok [OF assms] obtain ws ds where h: "pool_hist es s ws ds" by (auto simp: pool_ok_def)
  have "mset [c. Submitted c \<leftarrow> es] = mset [c. Completed c \<leftarrow> es] +
     (mset (contents (p_jobs s) (leaving (p_main s))) + mset (contents (p_jobs s) ds) +
      mset (contents (p_jobs s) (running (g_workers s))) + mset (contents (p_jobs s) (waiting s ws)))"
    using h by (simp add: pool_hist_def)
  then have "mset [c. Completed c \<leftarrow> es] \<subseteq># mset [c. Submitted c \<leftarrow> es]" by simp
  with h show ?thesis by (simp add: pool_hist_def)
qed

text \<open>C6. When \<^verbatim>\<open>ts_jobs_pending\<close> says that nothing is pending, whatever the interleaving of the
  workers with the main thread, every job submitted has been taken, worked and completed exactly once,
  in the order of the submissions as to the taking, and no job is left to be completed. A job is
  submitted here from anywhere but a callback that the shutting down of the pool runs, after the workers
  have left: such a late job is never taken, and a queue holds a job only when there was one.\<close>

theorem pool_drained:
  assumes "pool_run es s" "\<not> ts_jobs_pending s"
  shows "mset [c. Completed c \<leftarrow> es] = mset [c. Submitted c \<leftarrow> es] \<and> [c. Taken c \<leftarrow> es] = [c. Submitted c \<leftarrow> es] \<and>
    q_head (g_done s) = 0 \<and> ([c. Late c \<leftarrow> es] = [] \<longrightarrow> q_head (g_work s) = 0)"
proof -
  from pool_run_ok [OF assms(1)] obtain ws ds where h: "pool_inv s ws ds" "pool_hist es s ws ds" by (auto simp: pool_ok_def)
  have e: "waiting s ws = [] \<and> ds = [] \<and> running (g_workers s) = [] \<and> leaving (p_main s) = [] \<and>
    ([c. Late c \<leftarrow> es] = [] \<longrightarrow> ws = [])"
  proof (cases "g_pool_inited s")
    case True
    then have "held s ws ds = []" using h(1) assms(2) by (auto simp: pool_inv_def ts_jobs_pending_def)
    then show ?thesis by (simp add: held_def waiting_def)
  next
    case False
    then have "deserted s" "p_main s = []" "ds = []" using h(1) by (auto simp: pool_inv_def control_ok_def)
    then show ?thesis using h(2) running_exited by (simp add: pool_hist_def waiting_def deserted_def)
  qed
  then show ?thesis using h by (auto simp: pool_inv_def pool_hist_def)
qed

text \<open>A job comes in, is worked on and completed.\<close>

definition one_job :: job where
  "one_job = \<lparr>j_work = 1, j_complete = 2, j_userdata = 3, j_next = 9\<rparr>"

lemma one_job_run:
  "\<exists>s. pool_run [Submitted (1, 2, 3), Taken (1, 2, 3), Worked (1, 2, 3), Polled (1, 2, 3), Completed (1, 2, 3)] s \<and>
     \<not> ts_jobs_pending s"
proof -
  let ?j = "one_job\<lparr>j_next := 0\<rparr>"
  define s1 where "s1 = \<lparr>p_jobs = [7 \<mapsto> one_job], g_work = q_init, g_done = q_init, g_inflight = 1,
     g_pool_inited = True, g_pool_shutdown = False, g_workers = [WIdle, WIdle, WIdle, WIdle], p_main = [FSubmit 7]\<rparr>"
  define one where "one = \<lparr>q_head = 7::nat, q_tail = 7::nat, q_count = 1\<rparr>"
  define s2 where "s2 = s1\<lparr>p_jobs := [7 \<mapsto> ?j], g_work := one, p_main := []\<rparr>"
  define s3 where "s3 = s2\<lparr>g_work := q_init, g_workers := [WIdle, WRunning 7, WIdle, WIdle]\<rparr>"
  define s4 where "s4 = s3\<lparr>g_done := one, g_workers := [WIdle, WIdle, WIdle, WIdle]\<rparr>"
  define s5 where "s5 = s4\<lparr>g_done := q_init, p_main := [FComplete 7]\<rparr>"
  define s6 where "s6 = s5\<lparr>g_inflight := 0, p_jobs := Map.empty, p_main := []\<rparr>"
  note d = s1_def s2_def s3_def s4_def s5_def s6_def one_def one_job_def content_of_def q_init_def
  note o = submit_begin_def submit_end_def ts_thread_pool_init_def pool_start_def TS_POOL_WORKERS_def q_push_def
    worker_take_def worker_done_def poll_take_def poll_end_def q_pop_def q_take_def fits32_def int32_max_def int32_min_def
    Let_def numeral_eq_Suc
  have st: "pool_step pool_start [Submitted (content_of one_job)] s1" "pool_step s1 [] s2"
    "pool_step s2 [Taken (content_of ?j)] s3" "pool_step s3 [Worked (content_of ?j)] s4"
    "pool_step s4 [Polled (content_of ?j)] s5" "pool_step s5 [Completed (content_of ?j)] s6"
    subgoal using pool_step.submit [of 7 pool_start one_job s1] by (simp add: d o)
    subgoal by (rule pool_step.submitted) (simp add: d o)
    subgoal by (rule pool_step.take [of 1 _ _ 7]) (simp_all add: d o)
    subgoal by (rule pool_step.worked [of 1 _ 7]) (simp_all add: d o)
    subgoal by (rule pool_step.poll [of _ 7]) (simp_all add: d o)
    subgoal by (rule pool_step.completed [of _ 7 "[]"]) (simp_all add: d o)
    done
  have c: "content_of one_job = (1, 2, 3)" "content_of ?j = (1, 2, 3)" by (simp_all add: content_of_def one_job_def)
  have "pool_run [Submitted (1, 2, 3), Taken (1, 2, 3), Worked (1, 2, 3), Polled (1, 2, 3), Completed (1, 2, 3)] s6"
    using pool_run.step [OF pool_run.step [OF pool_run.step [OF pool_run.step [OF pool_run.step [OF pool_run.step
      [OF pool_run.start st(1)] st(2)] st(3)] st(4)] st(5)] st(6)] by (simp add: c)
  moreover have "\<not> ts_jobs_pending s6" by (simp add: ts_jobs_pending_def d)
  ultimately show ?thesis by blast
qed

text \<open>A job that the callback of another submits while the pool is being shut down is lost: the workers
  have left, and \<^verbatim>\<open>ts_thread_pool_shutdown\<close> ends with the job in the queue.\<close>

lemma late_job_lost:
  "\<exists>s. pool_run [Submitted (1, 2, 3), Taken (1, 2, 3), Worked (1, 2, 3), Polled (1, 2, 3), Late (4, 2, 3), Completed (1, 2, 3)] s \<and>
     \<not> ts_jobs_pending s \<and> q_head (g_work s) = 8"
proof -
  let ?j = "one_job\<lparr>j_next := 0\<rparr>" and ?k = "one_job\<lparr>j_work := 4, j_next := 0\<rparr>"
  define s1 where "s1 = \<lparr>p_jobs = [7 \<mapsto> one_job], g_work = q_init, g_done = q_init, g_inflight = 1,
     g_pool_inited = True, g_pool_shutdown = False, g_workers = [WIdle, WIdle, WIdle, WIdle], p_main = [FSubmit 7]\<rparr>"
  define one where "one = (\<lambda>p::nat. \<lparr>q_head = p, q_tail = p, q_count = 1\<rparr>)"
  define s2 where "s2 = s1\<lparr>p_jobs := [7 \<mapsto> ?j], g_work := one 7, p_main := []\<rparr>"
  define s3 where "s3 = s2\<lparr>g_work := q_init, g_workers := [WRunning 7, WIdle, WIdle, WIdle]\<rparr>"
  define s4 where "s4 = s3\<lparr>g_pool_shutdown := True, p_main := [FShutdown]\<rparr>"
  define s5 where "s5 = s4\<lparr>g_done := one 7, g_workers := [WIdle, WIdle, WIdle, WIdle]\<rparr>"
  define s6 where "s6 = s5\<lparr>g_workers := [WExited, WIdle, WIdle, WIdle]\<rparr>"
  define s7 where "s7 = s5\<lparr>g_workers := [WExited, WExited, WIdle, WIdle]\<rparr>"
  define s8 where "s8 = s5\<lparr>g_workers := [WExited, WExited, WExited, WIdle]\<rparr>"
  define s9 where "s9 = s5\<lparr>g_workers := [WExited, WExited, WExited, WExited]\<rparr>"
  define s10 where "s10 = s9\<lparr>g_done := q_init, p_main := [FComplete 7, FShutdown]\<rparr>"
  define s11 where "s11 = s10\<lparr>p_jobs := [7 \<mapsto> ?j, 8 \<mapsto> ?k], g_inflight := 2, p_main := [FSubmit 8, FComplete 7, FShutdown]\<rparr>"
  define s12 where "s12 = s11\<lparr>g_work := one 8, p_main := [FComplete 7, FShutdown]\<rparr>"
  define s13 where "s13 = s12\<lparr>p_jobs := [8 \<mapsto> ?k], g_inflight := 1, p_main := [FShutdown]\<rparr>"
  define s14 where "s14 = s13\<lparr>g_pool_inited := False, p_main := []\<rparr>"
  note d = s1_def s2_def s3_def s4_def s5_def s6_def s7_def s8_def s9_def s10_def s11_def s12_def s13_def s14_def one_def
    one_job_def content_of_def q_init_def
  note o = submit_begin_def submit_end_def ts_thread_pool_init_def pool_start_def TS_POOL_WORKERS_def q_push_def
    worker_take_def worker_done_def poll_take_def poll_end_def q_pop_def q_take_def fits32_def int32_max_def int32_min_def
    shutdown_begin_def shutdown_end_def Let_def numeral_eq_Suc
  have st: "pool_step pool_start [Submitted (content_of one_job)] s1" using pool_step.submit [of 7 pool_start one_job s1] by (simp add: d o)
  have st2: "pool_step s1 [] s2" by (rule pool_step.submitted) (simp add: d o)
  have st3: "pool_step s2 [Taken (content_of ?j)] s3" by (rule pool_step.take [of 0 _ _ 7]) (simp_all add: d o)
  have st4: "pool_step s3 [] s4" using pool_step.shutdown [of s3] by (simp add: d o)
  have st5: "pool_step s4 [Worked (content_of ?j)] s5" by (rule pool_step.worked [of 0 _ 7]) (simp_all add: d o)
  have st6: "pool_step s5 [] s6" by (rule pool_step.idle [of 0]) (simp_all add: d o)
  have st7: "pool_step s6 [] s7" by (rule pool_step.idle [of 1]) (simp_all add: d o)
  have st8: "pool_step s7 [] s8" by (rule pool_step.idle [of 2]) (simp_all add: d o)
  have st9: "pool_step s8 [] s9" by (rule pool_step.idle [of 3]) (simp_all add: d o)
  have st10: "pool_step s9 [Polled (content_of ?j)] s10" by (rule pool_step.poll [of _ 7]) (simp_all add: d o)
  have st11: "pool_step s10 [Late (content_of ?k)] s11"
    using pool_step.submit [of 8 s10 ?k s11] by (simp add: d o)
  have st12: "pool_step s11 [] s12" by (rule pool_step.submitted) (auto simp: d o)
  have st13: "pool_step s12 [Completed (content_of ?j)] s13"
    by (rule pool_step.completed [of _ 7 "[FShutdown]"]) (auto simp: d o)
  have st14: "pool_step s13 [] s14" by (rule pool_step.joined [of _ s13]) (simp_all add: d o)
  note r = pool_run.step
  have "pool_run ([Submitted (content_of one_job), Taken (content_of ?j), Worked (content_of ?j), Polled (content_of ?j),
      Late (content_of ?k), Completed (content_of ?j)]) s14"
    using pool_run.start [THEN r, OF st, THEN r, OF st2, THEN r, OF st3, THEN r, OF st4, THEN r, OF st5, THEN r, OF st6, THEN r, OF st7,
      THEN r, OF st8, THEN r, OF st9, THEN r, OF st10, THEN r, OF st11, THEN r, OF st12, THEN r, OF st13, THEN r, OF st14] by simp
  moreover have "\<not> ts_jobs_pending s14 \<and> q_head (g_work s14) = 8" by (simp add: ts_jobs_pending_def d)
  ultimately show ?thesis by (auto simp: content_of_def one_job_def)
qed

theorem pool_order_witness:
  "\<exists>es s. pool_run es s \<and> [c. Submitted c \<leftarrow> es] = [(1, 2, 3)] \<and> prefix [c. Taken c \<leftarrow> es] [(1, 2, 3)]"
proof -
  from one_job_run obtain s where "pool_run [Submitted (1, 2, 3), Taken (1, 2, 3), Worked (1, 2, 3), Polled (1, 2, 3),
    Completed (1, 2, 3)] s" by auto
  with pool_order [OF this] show ?thesis by fastforce
qed

theorem pool_drained_witness:
  "\<exists>es s. pool_run es s \<and> \<not> ts_jobs_pending s \<and> [c. Submitted c \<leftarrow> es] = [(1, 2, 3)] \<and>
     mset [c. Completed c \<leftarrow> es] = {#(1, 2, 3)#}"
proof -
  from one_job_run obtain s where "pool_run [Submitted (1, 2, 3), Taken (1, 2, 3), Worked (1, 2, 3), Polled (1, 2, 3),
    Completed (1, 2, 3)] s" "\<not> ts_jobs_pending s" by auto
  with pool_drained [OF this] show ?thesis by fastforce
qed

text \<open>Jobs pushed onto an empty queue, distinct and as many as an int can count, are taken off in
  the same order, and then the queue is empty.\<close>

theorem job_queue_in_order:
  assumes "queue_rep js q []" "\<forall>p \<in> set ps. p \<noteq> 0 \<and> js p \<noteq> None" "distinct ps" "length ps \<le> 2147483647"
  shows "\<exists>s' js'' q''. foldo (\<lambda>s p. q_push (fst s) (snd s) p) (js, q) ps = Some s' \<and>
     pops (\<lambda>s. q_take (fst s) (snd s)) (length ps) s' = Some (ps, js'', q'') \<and> queue_rep js'' q'' []"
  using jq.in_order [of "(js, q)" ps] assms by fastforce

theorem job_queue_in_order_witness:
  "\<exists>s' js'' q''. foldo (\<lambda>s p. q_push (fst s) (snd s) p) ([5 \<mapsto> one_job, 7 \<mapsto> one_job], q_init) [7, 5] = Some s' \<and>
     pops (\<lambda>s. q_take (fst s) (snd s)) 2 s' = Some ([7, 5], js'', q'') \<and> queue_rep js'' q'' []"
  using job_queue_in_order [of "[5 \<mapsto> one_job, 7 \<mapsto> one_job]" q_init "[7, 5]"] by (simp add: numeral_2_eq_2 q_init_def)

subsection \<open>The event loop\<close>

text \<open>
  \<^verbatim>\<open>ts_async_run\<close> over the operations it calls, on a state \<open>'s\<close> of the pool, the timers, the garbage
  collector and what the callbacks and the workers change.
\<close>

record 's loop_ops =
  jobs_pending :: "'s \<Rightarrow> bool"
  timers_pending :: "'s \<Rightarrow> bool"
  completion_poll :: "'s \<Rightarrow> (int \<times> 's) option"
  completion_wait :: "'s \<Rightarrow> 's"
  timers_run :: "'s \<Rightarrow> 's option"
  collect_idle :: "'s \<Rightarrow> 's"

definition ts_async_pending :: "'s loop_ops \<Rightarrow> 's \<Rightarrow> bool" where
  "ts_async_pending ops s \<longleftrightarrow> jobs_pending ops s \<or> timers_pending ops s"

partial_function (option) async_loop :: "'s loop_ops \<Rightarrow> 's \<Rightarrow> 's option" where
  "async_loop ops s =
    (if \<not> ts_async_pending ops s then Some s
     else do {
       r \<leftarrow> completion_poll ops s;
       let s1 = snd r;
       if timers_pending ops s1 \<and> \<not> jobs_pending ops s1 then timers_run ops s1
       else if fst r = 0 \<and> jobs_pending ops s1 then async_loop ops (collect_idle ops (completion_wait ops s1))
       else if fst r = 0 then Some s1
       else async_loop ops (collect_idle ops s1) })"

definition ts_async_run :: "'s loop_ops \<Rightarrow> 's \<Rightarrow> 's option" where
  "ts_async_run ops s = do {
     s1 \<leftarrow> async_loop ops s;
     s2 \<leftarrow> (if timers_pending ops s1 then timers_run ops s1 else Some s1);
     r \<leftarrow> completion_poll ops s2;
     Some (collect_idle ops (snd r)) }"

text \<open>A program whose last timer submits a job, a \<^verbatim>\<open>fetch\<close> in a \<^verbatim>\<open>setTimeout\<close>, ends before the job is
  completed: \<^verbatim>\<open>ts_async_run\<close> leaves its loop after the timers have run, and then polls once only.\<close>

theorem async_run_leaves_jobs:
  assumes "timers_pending ops s" "completion_poll ops s = Some (n, s1)" "timers_pending ops s1" "\<not> jobs_pending ops s1"
    and "timers_run ops s1 = Some s2" "\<not> timers_pending ops s2" "completion_poll ops s2 = Some (m, s3)"
  shows "ts_async_run ops s = Some (collect_idle ops s3)"
  using assms by (simp add: ts_async_run_def async_loop.simps [of ops s] ts_async_pending_def)

text \<open>Without timers the loop returns, and then no job is pending, when every turn brings the
  program closer to its end: \<open>m\<close> goes down with each poll that completed a job, and with each wait.\<close>

theorem async_run_drains:
  assumes "ok s" "\<And>s. ok s \<Longrightarrow> \<not> timers_pending ops s \<and> (\<exists>n s1. completion_poll ops s = Some (n, s1) \<and> ok s1 \<and>
      ok (collect_idle ops s1) \<and> ok (collect_idle ops (completion_wait ops s1)) \<and>
      (jobs_pending ops (collect_idle ops s1) \<longleftrightarrow> jobs_pending ops s1) \<and> (jobs_pending ops s1 \<longrightarrow> jobs_pending ops s) \<and>
      (jobs_pending ops s \<longrightarrow> (if n = 0 then jobs_pending ops s1 \<and> m (collect_idle ops (completion_wait ops s1)) < (m s :: nat)
                        else m (collect_idle ops s1) < m s)))"
  shows "\<exists>s'. ts_async_run ops s = Some s' \<and> \<not> jobs_pending ops s'"
proof -
  have "\<exists>s'. async_loop ops s = Some s' \<and> ok s' \<and> \<not> jobs_pending ops s'"
    using assms(1)
  proof (induction "m s" arbitrary: s rule: less_induct)
    case less
    from assms(2) [OF less.prems] obtain n s1 where s1: "completion_poll ops s = Some (n, s1)" "ok s1" "\<not> timers_pending ops s"
      "ok (collect_idle ops s1)" "ok (collect_idle ops (completion_wait ops s1))"
      "jobs_pending ops s \<longrightarrow> (if n = 0 then jobs_pending ops s1 \<and> m (collect_idle ops (completion_wait ops s1)) < m s
         else m (collect_idle ops s1) < m s)" by blast
    have t: "\<not> timers_pending ops s1" using assms(2) [OF s1(2)] by blast
    show ?case
    proof (cases "jobs_pending ops s")
      case False
      then show ?thesis using less.prems s1(3) by (simp add: async_loop.simps [of ops s] ts_async_pending_def)
    next
      case True
      then show ?thesis using less.hyps [OF _ s1(4)] less.hyps [OF _ s1(5)] s1 t
        by (cases "n = 0") (simp_all add: async_loop.simps [of ops s] ts_async_pending_def)
    qed
  qed
  then obtain s' where s': "async_loop ops s = Some s'" "ok s'" "\<not> jobs_pending ops s'" by blast
  from assms(2) [OF s'(2)] s' show ?thesis by (auto simp: ts_async_run_def)
qed

definition countdown :: "nat \<Rightarrow> nat loop_ops" where
  "countdown k = \<lparr>jobs_pending = (\<lambda>n. 0 < n \<and> n \<le> k), timers_pending = (\<lambda>n. n > k), completion_poll = (\<lambda>n. Some (0, n)),
     completion_wait = (\<lambda>n. n - 1), timers_run = (\<lambda>n. Some k), collect_idle = (\<lambda>n. n)\<rparr>"

theorem async_run_leaves_jobs_witness:
  "ts_async_run (countdown 1) 2 = Some 1 \<and> jobs_pending (countdown 1) 1"
  using async_run_leaves_jobs [of "countdown 1" 2 0 2 1 0 1] by (simp add: countdown_def)

theorem async_run_drains_witness: "\<exists>s'. ts_async_run (countdown 5) 3 = Some s' \<and> \<not> jobs_pending (countdown 5) s'"
  by (rule async_run_drains [of "\<lambda>n. n \<le> 5" _ _ "\<lambda>n. n"]) (auto simp: countdown_def)

end
