(* ===== verification/Ts_Block_Hash.thy ===== *)
theory Ts_Block_Hash
  imports Ts_Prelude Ts_Standards
begin

unbundle bit_operations_syntax

text \<open>
  Hash functions over blocks, as \<^verbatim>\<open>websocket.c\<close> and \<^verbatim>\<open>node_crypto.c\<close> write each of theirs: a
  context with a state, a count of bytes and a buffer of one block; \<open>B\<close> is the size of a block, \<open>L\<close>
  the place of the length in the last one and \<open>tr\<close> the step that digests a block. The locale states
  what they share: pieces add up, and the end pads the message as the standards say.
\<close>

subsection \<open>The context and its operations\<close>

record 's hash_ctx =
  h_state :: 's
  h_count :: "64 word"
  h_buffer :: "8 word list"

definition hash_init :: "nat \<Rightarrow> 's \<Rightarrow> 's hash_ctx" where
  "hash_init B iv = \<lparr>h_state = iv, h_count = 0, h_buffer = replicate B 0\<rparr>"

text \<open>The loop over the bytes of an update.\<close>

fun feed :: "nat \<Rightarrow> ('s \<Rightarrow> 8 word list \<Rightarrow> 's) \<Rightarrow> nat \<Rightarrow> 8 word list \<Rightarrow> 's \<times> 8 word list \<Rightarrow> 's \<times> 8 word list" where
  "feed B tr idx [] (st, buf) = (st, buf)"
| "feed B tr idx (x # xs) (st, buf) =
    (let buf' = buf[idx := x]
     in if idx + 1 = B then feed B tr 0 xs (tr st buf', buf') else feed B tr (idx + 1) xs (st, buf'))"

definition hash_index :: "nat \<Rightarrow> 's hash_ctx \<Rightarrow> nat" where
  "hash_index B h = unat (h_count h AND word_of_nat (B - 1))"

definition hash_update :: "nat \<Rightarrow> ('s \<Rightarrow> 8 word list \<Rightarrow> 's) \<Rightarrow> 's hash_ctx \<Rightarrow> 8 word list \<Rightarrow> 's hash_ctx" where
  "hash_update B tr h data =
    (let (st, buf) = feed B tr (hash_index B h) data (h_state h, h_buffer h)
     in h\<lparr>h_count := h_count h + word_of_nat (length data), h_state := st, h_buffer := buf\<rparr>)"

text \<open>\<^verbatim>\<open>while (idx < n) buffer[idx++] = 0\<close>\<close>

function zero_fill :: "8 word list \<Rightarrow> nat \<Rightarrow> nat \<Rightarrow> 8 word list" where
  "zero_fill buf idx n = (if idx < n then zero_fill (buf[idx := 0]) (idx + 1) n else buf)"
  by auto
termination by (relation "measure (\<lambda>(_, idx, n). n - idx)") auto

declare zero_fill.simps [simp del]

text \<open>The end of a message up to the place of the length: the mark, and the zeros after it.\<close>

definition hash_pad :: "nat \<Rightarrow> nat \<Rightarrow> ('s \<Rightarrow> 8 word list \<Rightarrow> 's) \<Rightarrow> 's hash_ctx \<Rightarrow> 's \<times> 8 word list" where
  "hash_pad B L tr h =
    (let idx = hash_index B h; buf = (h_buffer h)[idx := 0x80]; idx = idx + 1;
         (st, buf, idx) = (if idx > L then let b = zero_fill buf idx B in (tr (h_state h) b, b, 0)
                           else (h_state h, buf, idx))
     in (st, zero_fill buf idx L))"

subsection \<open>Blocks\<close>

text \<open>The blocks of a message digested one by one, and what is left of it.\<close>

function absorb :: "nat \<Rightarrow> ('s \<Rightarrow> 8 word list \<Rightarrow> 's) \<Rightarrow> 's \<Rightarrow> 8 word list \<Rightarrow> 's \<times> 8 word list" where
  "absorb B f s m = (if length m < B \<or> B = 0 then (s, m) else absorb B f (f s (take B m)) (drop B m))"
  by auto
termination by (relation "measure (\<lambda>(_, _, _, m). length m)") auto

declare absorb.simps [simp del]

definition pad_zeros :: "nat \<Rightarrow> nat \<Rightarrow> nat \<Rightarrow> 8 word list" where
  "pad_zeros B L n = replicate ((B + L - 1 - n mod B) mod B) 0"

text \<open>The context stands for the message \<open>m\<close>.\<close>

definition hash_rep :: "nat \<Rightarrow> ('s \<Rightarrow> 8 word list \<Rightarrow> 's) \<Rightarrow> 's \<Rightarrow> 's hash_ctx \<Rightarrow> 8 word list \<Rightarrow> bool" where
  "hash_rep B tr iv h m \<longleftrightarrow> h_count h = word_of_nat (length m) \<and> length (h_buffer h) = B \<and>
     absorb B tr iv m = (h_state h, take (length m mod B) (h_buffer h))"

lemma absorb_short [simp]: "length m < B \<Longrightarrow> absorb B f s m = (s, m)"
  by (simp add: absorb.simps)

lemma absorb_block: "length b = B \<Longrightarrow> 0 < B \<Longrightarrow> absorb B f s (b @ m) = absorb B f (f s b) m"
  by (simp add: absorb.simps [of B f s "b @ m"])

lemma absorb_rest: "0 < B \<Longrightarrow> length (snd (absorb B f s m)) = length m mod B"
proof (induction B f s m rule: absorb.induct)
  case (1 B f s m)
  show ?case
  proof (cases "length m < B")
    case False
    with 1 show ?thesis by (simp add: absorb.simps [of B f s m] le_mod_geq)
  qed simp
qed

lemma absorb_append: "0 < B \<Longrightarrow> absorb B f s (m @ n) = (case absorb B f s m of (s', r) \<Rightarrow> absorb B f s' (r @ n))"
proof (induction B f s m rule: absorb.induct)
  case (1 B f s m)
  show ?case
  proof (cases "length m < B")
    case False
    with 1 show ?thesis
      by (simp add: absorb.simps [of B f s m] absorb.simps [of B f s "m @ n"])
  qed simp
qed

lemma zero_fill_eq: "idx \<le> n \<Longrightarrow> n \<le> length buf \<Longrightarrow> zero_fill buf idx n = take idx buf @ replicate (n - idx) 0 @ drop n buf"
proof (induction buf idx n rule: zero_fill.induct)
  case (1 buf idx n)
  show ?case
  proof (cases "idx < n")
    case True
    then have "n - idx = Suc (n - Suc idx)" by simp
    with True 1 show ?thesis
      by (simp add: zero_fill.simps [of buf idx n] take_Suc_conv_app_nth)
  next
    case False
    then have "idx = n" using 1(2) by simp
    then show ?thesis by (subst zero_fill.simps) simp
  qed
qed

text \<open>The buffer begins with what is left over of the message.\<close>

lemma feed_absorb:
  assumes "0 < B" "length buf = B" "take idx buf = r" "idx < B"
  shows "\<exists>buf'. feed B tr idx xs (st, buf) = (fst (absorb B tr st (r @ xs)), buf') \<and> length buf' = B \<and>
    take ((idx + length xs) mod B) buf' = snd (absorb B tr st (r @ xs))"
  using assms(2-4)
proof (induction xs arbitrary: idx st buf r)
  case Nil
  then have "length r < B" by auto
  with Nil show ?case by simp
next
  case (Cons x xs)
  have r: "take (Suc idx) (buf[idx := x]) = r @ [x]" using Cons.prems by (simp add: take_Suc_conv_app_nth take_update_cancel)
  show ?case
  proof (cases "Suc idx = B")
    case True
    then have b: "buf[idx := x] = r @ [x]" "length r = B - 1" using r Cons.prems by auto
    then have "absorb B tr st (r @ x # xs) = absorb B tr (tr st (r @ [x])) xs"
      using absorb_block [of "r @ [x]" B tr st xs] Cons.prems True by force
    moreover have "(idx + length (x # xs)) mod B = length xs mod B" using True by (simp add: mod_add_self1 flip: add_Suc)
    ultimately show ?thesis using Cons.IH [of "r @ [x]" 0 "[]"] True b Cons.prems assms(1) by (simp add: Let_def)
  next
    case False
    then show ?thesis using Cons.IH [of "buf[idx := x]" "Suc idx" "r @ [x]" st] r Cons.prems by (simp add: Let_def)
  qed
qed

subsection \<open>The interface\<close>

locale block_hash =
  fixes B L :: nat and tr :: "'s \<Rightarrow> 8 word list \<Rightarrow> 's" and iv :: 's
  assumes place: "0 < L" "L < B"
    and index_mod: "unat (word_of_nat n AND (word_of_nat (B - 1) :: 64 word)) = n mod B"
begin

lemma rep_init: "hash_rep B tr iv (hash_init B iv) []"
  using place by (simp add: hash_rep_def hash_init_def)

lemma rep_index: "hash_rep B tr iv h m \<Longrightarrow> hash_index B h = length m mod B"
  by (auto simp only: hash_rep_def hash_index_def index_mod)

lemma rep_update:
  assumes "hash_rep B tr iv h m" shows "hash_rep B tr iv (hash_update B tr h data) (m @ data)"
proof -
  let ?k = "length m mod B"
  let ?r = "take ?k (h_buffer h)"
  have B: "0 < B" "?k < B" using place by simp_all
  have h: "length (h_buffer h) = B" "absorb B tr iv m = (h_state h, ?r)" "h_count h = word_of_nat (length m)"
    using assms by (simp_all add: hash_rep_def)
  from feed_absorb [OF B(1) h(1) refl B(2), of tr data "h_state h"] obtain buf where buf:
    "feed B tr ?k data (h_state h, h_buffer h) = (fst (absorb B tr (h_state h) (?r @ data)), buf)"
    "length buf = B" "take ((?k + length data) mod B) buf = snd (absorb B tr (h_state h) (?r @ data))" by blast
  have "hash_update B tr h data = h\<lparr>h_count := h_count h + word_of_nat (length data),
      h_state := fst (absorb B tr (h_state h) (?r @ data)), h_buffer := buf\<rparr>"
    unfolding hash_update_def rep_index [OF assms] buf(1) by simp
  moreover have "take (length (m @ data) mod B) buf = snd (absorb B tr (h_state h) (?r @ data))"
    unfolding buf(3) [symmetric] by (simp add: mod_add_left_eq)
  ultimately show ?thesis
    using absorb_append [OF B(1), of tr iv m data] buf(2) h(3) by (simp add: hash_rep_def h(2))
qed

lemma rep_pieces: "hash_rep B tr iv h m \<Longrightarrow> hash_rep B tr iv (foldl (hash_update B tr) h pieces) (m @ concat pieces)"
  by (induction pieces arbitrary: h m) (use rep_update in fastforce)+

lemma rep_more: "hash_rep B tr iv h m \<Longrightarrow> absorb B tr iv (m @ w) = absorb B tr (h_state h) (take (length m mod B) (h_buffer h) @ w)"
  using absorb_append [of B tr iv m w] place by (simp add: hash_rep_def)

lemma pad_short:
  assumes "hash_rep B tr iv h m" "length m mod B < L" "length l = B - L"
  shows "(case hash_pad B L tr h of (st, buf) \<Rightarrow> tr st (take L buf @ l)) =
    fst (absorb B tr iv (m @ [0x80] @ pad_zeros B L (length m) @ l))"
proof -
  let ?k = "length m mod B"
  let ?r = "take ?k (h_buffer h)"
  have h: "length (h_buffer h) = B" "absorb B tr iv m = (h_state h, ?r)" using assms(1) by (simp_all add: hash_rep_def)
  have "B + L - 1 - ?k = (L - 1 - ?k) + B" "L - 1 - ?k < B" using assms(2) place by auto
  then have z: "pad_zeros B L (length m) = replicate (L - 1 - ?k) 0" unfolding pad_zeros_def by (metis mod_add_self2 mod_less)
  have "L - ?k = Suc (L - 1 - ?k)" using assms(2) by simp
  then have fill: "take L (zero_fill ((h_buffer h)[?k := 0x80]) (?k + 1) L) = ?r @ [0x80] @ replicate (L - 1 - ?k) 0"
    using assms(2) h(1) place by (simp add: zero_fill_eq take_Suc_conv_app_nth)
  have "length (?r @ [0x80] @ replicate (L - 1 - ?k) 0 @ l) = B" using assms(2,3) h(1) place by simp
  then have "absorb B tr (h_state h) (?r @ [0x80] @ pad_zeros B L (length m) @ l) =
      (tr (h_state h) (?r @ [0x80] @ replicate (L - 1 - ?k) 0 @ l), [])"
    using absorb_block [of "?r @ [0x80] @ replicate (L - 1 - ?k) 0 @ l" B tr "h_state h" "[]"] place by (simp add: z)
  moreover have "hash_pad B L tr h = (h_state h, zero_fill ((h_buffer h)[?k := 0x80]) (?k + 1) L)"
    using assms(2) by (simp add: hash_pad_def rep_index [OF assms(1)] Let_def)
  ultimately show ?thesis using fill rep_more [OF assms(1)] by simp
qed

lemma pad_long:
  assumes "hash_rep B tr iv h m" "L \<le> length m mod B" "length l = B - L"
  shows "(case hash_pad B L tr h of (st, buf) \<Rightarrow> tr st (take L buf @ l)) =
    fst (absorb B tr iv (m @ [0x80] @ pad_zeros B L (length m) @ l))"
proof -
  let ?k = "length m mod B"
  let ?r = "take ?k (h_buffer h)"
  let ?b = "?r @ [0x80] @ replicate (B - 1 - ?k) 0"
  have h: "length (h_buffer h) = B" "absorb B tr iv m = (h_state h, ?r)" using assms(1) by (simp_all add: hash_rep_def)
  have k: "?k < B" using place by simp
  then have "B + L - 1 - ?k = (B - 1 - ?k) + L" "(B - 1 - ?k) + L < B" using assms(2) place by linarith+
  then have z: "pad_zeros B L (length m) = replicate (B - 1 - ?k) 0 @ replicate L 0" by (simp add: pad_zeros_def replicate_add)
  have b: "zero_fill ((h_buffer h)[?k := 0x80]) (?k + 1) B = ?b" "length ?b = B"
    using k h(1) by (simp_all add: zero_fill_eq take_Suc_conv_app_nth)
  have pad: "hash_pad B L tr h = (tr (h_state h) ?b, zero_fill ?b 0 L)"
    using assms(2) b(1) by (simp add: hash_pad_def rep_index [OF assms(1)] Let_def)
  have fill: "take L (zero_fill ?b 0 L) = replicate L 0" using b(2) place by (simp add: zero_fill_eq)
  have "absorb B tr (h_state h) (?b @ replicate L 0 @ l) = (tr (tr (h_state h) ?b) (replicate L 0 @ l), [])"
    using absorb_block [OF b(2), of tr "h_state h" "replicate L 0 @ l"]
      absorb_block [of "replicate L 0 @ l" B tr "tr (h_state h) ?b" "[]"] assms(3) place by simp
  then show ?thesis using pad fill rep_more [OF assms(1), of "[0x80] @ pad_zeros B L (length m) @ l"] by (simp add: z)
qed

text \<open>What is digested at the end is the padded message.\<close>

lemma pad_ok:
  "hash_rep B tr iv h m \<Longrightarrow> length l = B - L \<Longrightarrow>
   (case hash_pad B L tr h of (st, buf) \<Rightarrow> tr st (take L buf @ l)) =
    fst (absorb B tr iv (m @ [0x80] @ pad_zeros B L (length m) @ l))"
  using pad_short pad_long by (metis not_le)

end

text \<open>The index is the count modulo the size of a block.\<close>

lemma index_mod_64: "unat (word_of_nat n AND (word_of_nat (64 - 1) :: 64 word)) = n mod 64"
proof -
  have "word_of_nat n AND (63 :: 64 word) = word_of_nat n mod 64"
    using take_bit_eq_mod [of 6 "word_of_nat n :: 64 word"] by (simp add: take_bit_eq_mask mask_eq_exp_minus_1)
  moreover have "n mod 18446744073709551616 mod 64 = n mod 64" by (rule mod_mod_cancel) (simp add: dvd_def)
  ultimately show ?thesis by (simp add: unat_mod_distrib unat_of_nat)
qed

lemma index_mod_128: "unat (word_of_nat n AND (word_of_nat (128 - 1) :: 64 word)) = n mod 128"
proof -
  have "word_of_nat n AND (127 :: 64 word) = word_of_nat n mod 128"
    using take_bit_eq_mod [of 7 "word_of_nat n :: 64 word"] by (simp add: take_bit_eq_mask mask_eq_exp_minus_1)
  moreover have "n mod 18446744073709551616 mod 128 = n mod 128" by (rule mod_mod_cancel) (simp add: dvd_def)
  ultimately show ?thesis by (simp add: unat_mod_distrib unat_of_nat)
qed

subsection \<open>Bit operations\<close>

lemma rotl_shifts:
  fixes x :: "'a::len word"
  assumes "0 < n" "n < LENGTH('a)"
  shows "push_bit n x OR drop_bit (LENGTH('a) - n) x = word_rotl n x"
proof (rule bit_word_eqI)
  fix i assume i: "i < LENGTH('a)"
  have "bit (word_rotl n x) i \<longleftrightarrow> bit x ((i + (LENGTH('a) - n mod LENGTH('a))) mod LENGTH('a))"
    using i by (simp add: bit_word_rotl_iff)
  with i assms show "bit (push_bit n x OR drop_bit (LENGTH('a) - n) x) i \<longleftrightarrow> bit (word_rotl n x) i"
    by (cases "n \<le> i") (auto simp: bit_simps mod_if not_le add.commute [of "LENGTH('a)" i] dest: bit_imp_le_length)
qed

lemma rotr_shifts:
  fixes x :: "'a::len word"
  assumes "0 < n" "n < LENGTH('a)"
  shows "drop_bit n x OR push_bit (LENGTH('a) - n) x = word_rotr n x"
proof (rule bit_word_eqI)
  fix i assume i: "i < LENGTH('a)"
  have "bit (word_rotr n x) i \<longleftrightarrow> bit x ((i + n) mod LENGTH('a))"
    using i assms by (simp add: bit_word_rotr_iff)
  with i assms show "bit (drop_bit n x OR push_bit (LENGTH('a) - n) x) i \<longleftrightarrow> bit (word_rotr n x) i"
    by (cases "i + n < LENGTH('a)") (auto simp: bit_simps mod_if not_less add.commute dest: bit_imp_le_length)
qed

lemma choose_xor: "(x AND y) OR (NOT x AND z) = (x AND y) XOR (NOT x AND (z :: 'a::len word))"
  by (rule bit_word_eqI) (auto simp: bit_simps)

lemma majority_xor: "((x AND y) OR (x AND z)) OR (y AND z) = (x AND y) XOR (x AND z) XOR (y AND (z :: 'a::len word))"
  by (rule bit_word_eqI) (auto simp: bit_simps)

subsection \<open>The standards\<close>

text \<open>Digesting the padded message block by block is what the standards do.\<close>

lemma std_blocks_step: "length b = B \<Longrightarrow> 0 < B \<Longrightarrow> std_blocks B (b @ m) = b # std_blocks B m"
proof -
  assume b: "length b = B" "0 < B"
  then have "block_bytes B (b @ m) (Suc i) = block_bytes B m i" for i by (simp add: block_bytes_def)
  moreover have "length (b @ m) div B = Suc (length m div B)" using b by simp
  ultimately show ?thesis using b by (simp add: std_blocks_def upt_conv_Cons map_Suc_upt [symmetric] o_def block_bytes_def del: upt_Suc)
qed

lemma absorb_blocks: "0 < B \<Longrightarrow> B dvd length m \<Longrightarrow> absorb B f s m = (foldl f s (std_blocks B m), [])"
proof (induction B f s m rule: absorb.induct)
  case (1 B f s m)
  show ?case
  proof (cases "length m < B")
    case True
    with 1(3) have "m = []" using nat_dvd_not_less by blast
    with 1(2) show ?thesis by (simp add: std_blocks_def)
  next
    case False
    have "m = take B m @ drop B m" by simp
    then have "std_blocks B m = take B m # std_blocks B (drop B m)"
      using std_blocks_step [of "take B m" B "drop B m"] False 1(2) by simp
    with False 1 show ?thesis by (simp add: absorb.simps [of B f s m] dvd_diff_nat)
  qed
qed

lemma foldl_blocks:
  assumes "\<And>s b. length b = B \<Longrightarrow> f s b = g s b" shows "foldl f s (std_blocks B m) = foldl g s (std_blocks B m)"
proof -
  have "length b = B" if "b \<in> set (std_blocks B m)" for b
  proof -
    from that obtain i where i: "i < length m div B" "b = block_bytes B m i" by (auto simp: std_blocks_def)
    then have "Suc i * B \<le> length m" by (metis Suc_leI le_trans mult_le_mono1 div_times_less_eq_dividend)
    with i(2) show ?thesis by (simp add: block_bytes_def mult.commute)
  qed
  with assms show ?thesis by (intro foldl_cong) auto
qed

lemma absorb_std:
  assumes "0 < L" "L < B" "\<And>n. length (len n) = B - L" "\<And>s b. length b = B \<Longrightarrow> f s b = g s b"
  shows "fst (absorb B f s (m @ [0x80] @ pad_zeros B L (length m) @ len (8 * length m))) = foldl g s (std_blocks B (std_pad B L len m))"
proof -
  have e: "m @ [0x80] @ pad_zeros B L (length m) @ len (8 * length m) = std_pad B L len m"
    by (simp add: std_pad_def pad_zeros_def std_zeros_eq [OF assms(1,2)])
  have "(length m + 1 + std_zeros B L (length m)) mod B = L"
    using zeros_unique [OF assms(1,2), of "std_zeros B L (length m)" "length m"] assms(2) by (simp add: std_zeros_eq [OF assms(1,2)])
  then have "(length m + 1 + std_zeros B L (length m) + (B - L)) mod B = (L + (B - L)) mod B" by (metis mod_add_left_eq)
  then have "B dvd length m + 1 + std_zeros B L (length m) + (B - L)" using assms(2) by (simp add: mod_eq_0_iff_dvd)
  then have "B dvd length (std_pad B L len m)" using assms(3) by (simp add: std_pad_def add.assoc)
  with assms(2) show ?thesis unfolding e by (simp add: absorb_blocks foldl_blocks [OF assms(4)])
qed

end
