(* ===== verification/Ts_Sha1.thy ===== *)
theory Ts_Sha1
  imports Ts_Buffer Ts_String Ts_Block_Hash
begin

unbundle bit_operations_syntax

text \<open>
  The digest of the opening handshake in \<^verbatim>\<open>runtime/src/websocket.c\<close>: SHA-1 over bytes that
  come in pieces, and the base64 text of its result.
\<close>

subsection \<open>SHA-1\<close>

definition SHA1_BLOCK :: nat where
  "SHA1_BLOCK = 64"

type_synonym sha_state = "32 word \<times> 32 word \<times> 32 word \<times> 32 word \<times> 32 word"

type_synonym ws_sha1 = "sha_state hash_ctx"

text \<open>The first sixteen words of a block, and the loop that extends them to eighty.\<close>

definition load_word :: "8 word list \<Rightarrow> nat \<Rightarrow> 32 word" where
  "load_word block i = ((push_bit 24 (ucast (block ! (i*4))) OR push_bit 16 (ucast (block ! (i*4 + 1)))) OR
     push_bit 8 (ucast (block ! (i*4 + 2)))) OR ucast (block ! (i*4 + 3))"

definition extend_w :: "nat \<Rightarrow> 32 word list \<Rightarrow> 32 word list" where
  "extend_w i w = (let tmp = ((w ! (i-3) XOR w ! (i-8)) XOR w ! (i-14)) XOR w ! (i-16) in
     w @ [push_bit 1 tmp OR drop_bit 31 tmp])"

definition schedule :: "8 word list \<Rightarrow> 32 word list" where
  "schedule block = fold extend_w [16..<80] (map (load_word block) [0..<16])"

definition sha_round :: "32 word list \<Rightarrow> nat \<Rightarrow> sha_state \<Rightarrow> sha_state" where
  "sha_round w i s = (case s of (a, b, c, d, e) \<Rightarrow>
     let (f, t) = (if i < 20 then ((b AND c) OR (NOT b AND d), 0x5A827999)
                   else if i < 40 then ((b XOR c) XOR d, 0x6ED9EBA1)
                   else if i < 60 then (((b AND c) OR (b AND d)) OR (c AND d), 0x8F1BBCDC)
                   else ((b XOR c) XOR d, 0xCA62C1D6));
         tmp = (push_bit 5 a OR drop_bit 27 a) + f + e + t + w ! i
     in (tmp, a, push_bit 30 b OR drop_bit 2 b, c, d))"

definition sha1_transform :: "sha_state \<Rightarrow> 8 word list \<Rightarrow> sha_state" where
  "sha1_transform s block = (case s of (s0, s1, s2, s3, s4) \<Rightarrow>
     case fold (sha_round (schedule block)) [0..<80] s of (a, b, c, d, e) \<Rightarrow>
       (s0 + a, s1 + b, s2 + c, s3 + d, s4 + e))"

definition ws_sha1_init :: ws_sha1 where
  "ws_sha1_init = \<lparr>h_state = (0x67452301, 0xEFCDAB89, 0x98BADCFE, 0x10325476, 0xC3D2E1F0),
     h_count = 0, h_buffer = replicate SHA1_BLOCK 0\<rparr>"

definition ws_sha1_update :: "ws_sha1 \<Rightarrow> 8 word list \<Rightarrow> ws_sha1" where
  "ws_sha1_update h data = hash_update SHA1_BLOCK sha1_transform h data"

definition length_bytes :: "64 word \<Rightarrow> 8 word list" where
  "length_bytes bits = map (\<lambda>k. ucast (drop_bit k bits)) [56, 48, 40, 32, 24, 16, 8, 0]"

definition state_bytes :: "32 word \<Rightarrow> 8 word list" where
  "state_bytes x = [ucast (drop_bit 24 x), ucast (drop_bit 16 x), ucast (drop_bit 8 x), ucast x]"

definition ws_sha1_final :: "ws_sha1 \<Rightarrow> 8 word list" where
  "ws_sha1_final h =
    (let bits = h_count h * 8; (st, buf) = hash_pad SHA1_BLOCK 56 sha1_transform h
     in case sha1_transform st (take 56 buf @ length_bytes bits) of (a, b, c, d, e) \<Rightarrow>
       state_bytes a @ state_bytes b @ state_bytes c @ state_bytes d @ state_bytes e)"

subsection \<open>The handshake\<close>

definition WS_GUID :: string where
  "WS_GUID = ''258EAFA5-E914-47DA-95CA-C5AB0DC85B11''"

text \<open>The four characters for the bytes from \<open>i\<close> on.\<close>

definition base64_quad :: "8 word list \<Rightarrow> nat \<Rightarrow> string" where
  "base64_quad data i =
    (let a = ucast (data ! i); b = (if i + 1 < length data then ucast (data ! (i + 1)) else 0);
         c = (if i + 2 < length data then ucast (data ! (i + 2)) else 0);
         triple = (push_bit 16 a OR push_bit 8 b) OR c
     in [b64_table ! unat (drop_bit 18 triple AND 0x3F), b64_table ! unat (drop_bit 12 triple AND 0x3F),
         if i + 1 < length data then b64_table ! unat (drop_bit 6 triple AND 0x3F) else CHR ''='',
         if i + 2 < length data then b64_table ! unat (triple AND (0x3F :: 32 word)) else CHR ''=''])"

definition base64_encode :: "8 word list \<Rightarrow> string" where
  "base64_encode data = concat (map (\<lambda>k. base64_quad data (3 * k)) [0..<(length data + 2) div 3])"

definition sha1_digest :: "8 word list \<Rightarrow> 8 word list" where
  "sha1_digest m = ws_sha1_final (ws_sha1_update ws_sha1_init m)"

definition compute_accept_key :: "heap \<Rightarrow> addr \<Rightarrow> (addr \<times> heap) option" where
  "compute_accept_key h key =
    (if key = 0 then ts_string_new h []
     else do {
       s \<leftarrow> str_data h key;
       ts_string_new h (base64_encode (sha1_digest (map byte_of (s @ WS_GUID)))) })"

subsection \<open>The digest of a block\<close>

text \<open>The words and bytes of the code are those of the standard.\<close>

lemma block_bytes4:
  assumes "4 * t + 3 < length b"
  shows "block_bytes 4 b t = [b ! (4*t), b ! (4*t + 1), b ! (4*t + 2), b ! (4*t + 3)]"
proof -
  have "drop (4*t) b = b ! (4*t) # b ! (4*t + 1) # b ! (4*t + 2) # b ! (4*t + 3) # drop (4*t + 4) b"
    using assms by (simp add: Cons_nth_drop_Suc [symmetric] numeral_eq_Suc)
  then show ?thesis by (simp add: block_bytes_def)
qed

lemma load_word_std: "4 * t + 3 < length b \<Longrightarrow> load_word b t = word_of_nat (be_nat (block_bytes 4 b t))"
  by (simp add: block_bytes4 be_word4 load_word_def or.assoc mult.commute)

lemma state_bytes_std: "state_bytes x = be_bytes 4 (unat x)"
  by (simp add: state_bytes_def be_bytes_shifts upt_rec)

lemma length_bytes_std: "length_bytes (word_of_nat n) = be_bytes 8 n"
  by (subst be_bytes_wrap [symmetric]) (simp add: length_bytes_def be_bytes_shifts upt_rec)

lemma length_extend [simp]: "length (fold extend_w [16..<n] (map (load_word b) [0..<16])) = (if n \<le> 16 then 16 else n)"
proof (induction n)
  case (Suc n)
  then show ?case by (cases "n < 16") (auto simp: extend_w_def Let_def)
qed simp

lemma extend_std: "length b = 64 \<Longrightarrow> 16 \<le> n \<Longrightarrow> fold extend_w [16..<n] (map (load_word b) [0..<16]) = map (std_sha1_w b) [0..<n]"
proof (induction n)
  case (Suc n)
  show ?case
  proof (cases "n < 16")
    case True
    with Suc.prems have "n = 15" by simp
    have "map (load_word b) [0..<16] = map (std_sha1_w b) [0..<16]"
      using Suc.prems(1) by (intro map_cong refl) (simp add: std_sha1_w.simps load_word_std)
    with \<open>n = 15\<close> show ?thesis by simp
  next
    case False
    with Suc have step: "fold extend_w [16..<Suc n] (map (load_word b) [0..<16]) = extend_w n (map (std_sha1_w b) [0..<n])" by simp
    show ?thesis unfolding step
      using False rotl_shifts [where 'a = 32, of 1] by (simp add: extend_w_def Let_def std_sha1_w.simps [of b n] xor.assoc)
  qed
qed simp

lemma schedule_std: "length b = 64 \<Longrightarrow> i < 80 \<Longrightarrow> schedule b ! i = std_sha1_w b i"
  using extend_std [of b 80] by (simp add: schedule_def)

lemma round_std:
  assumes "length b = 64" "i < 80" shows "sha_round (schedule b) i s = std_sha1_round b i s"
proof -
  have "i div 20 \<in> {0, 1, 2, 3}" using assms(2) by auto
  then have k: "std_sha1_fk i = (if i < 20 then (std_ch, 0x5A827999) else if i < 40 then (std_parity, 0x6ED9EBA1)
      else if i < 60 then (std_maj, 0x8F1BBCDC) else (std_parity, 0xCA62C1D6))" using assms(2) by (auto simp: std_sha1_fk_def)
  show ?thesis
    using assms rotl_shifts [where 'a = 32, of 5] rotl_shifts [where 'a = 32, of 30]
    by (auto simp: sha_round_def std_sha1_round_def k schedule_std std_ch_def std_maj_def std_parity_def choose_xor majority_xor xor.assoc
        split: prod.splits)
qed

lemma transform_std:
  assumes "length b = 64" shows "sha1_transform s b = std_sha1_block s b"
proof -
  have "fold (sha_round (schedule b)) [0..<80] s = fold (std_sha1_round b) [0..<80] s"
    by (intro fold_cong ext) (simp_all add: round_std [OF assms])
  then show ?thesis by (simp add: sha1_transform_def std_sha1_block_def add.commute split: prod.splits)
qed

subsection \<open>Pieces\<close>

text \<open>It is a hash over blocks of 64 bytes, with the length at 56.\<close>

interpretation ws: block_hash 64 56 sha1_transform "h_state ws_sha1_init"
  by (unfold_locales, simp, simp, rule index_mod_64)

lemma sha1_init_rep: "hash_rep 64 sha1_transform (h_state ws_sha1_init) ws_sha1_init []"
  using ws.rep_init by (simp add: hash_init_def ws_sha1_init_def SHA1_BLOCK_def)

lemma ws_iv: "h_state ws_sha1_init = (0x67452301, 0xefcdab89, 0x98badcfe, 0x10325476, 0xc3d2e1f0)"
  by (simp add: ws_sha1_init_def)

lemma sha_rep_final:
  assumes "hash_rep 64 sha1_transform (h_state ws_sha1_init) h m" shows "ws_sha1_final h = std_sha1 m"
proof -
  let ?l = "length_bytes (h_count h * 8)"
  have l: "?l = be_bytes 8 (8 * length m)" "length ?l = 64 - 56"
    using assms length_bytes_std [of "8 * length m"] by (simp_all add: hash_rep_def mult.commute)
  obtain st buf where pad: "hash_pad 64 56 sha1_transform h = (st, buf)" by fastforce
  have "sha1_transform st (take 56 buf @ ?l) =
      fst (absorb 64 sha1_transform (h_state ws_sha1_init) (m @ [0x80] @ pad_zeros 64 56 (length m) @ be_bytes 8 (8 * length m)))"
    using ws.pad_ok [OF assms l(2)] pad l(1) by simp
  also have "\<dots> = foldl std_sha1_block (h_state ws_sha1_init) (std_blocks 64 (std_pad 64 56 (be_bytes 8) m))"
    by (rule absorb_std) (simp_all add: transform_std)
  finally show ?thesis
    by (simp add: ws_sha1_final_def SHA1_BLOCK_def std_sha1_def pad ws_iv state_bytes_std)
qed

lemma sha1_pieces: "ws_sha1_final (foldl ws_sha1_update ws_sha1_init pieces) = std_sha1 (concat pieces)"
proof -
  have "ws_sha1_update = hash_update 64 sha1_transform" by (intro ext) (simp add: ws_sha1_update_def SHA1_BLOCK_def)
  with sha_rep_final [OF ws.rep_pieces [OF sha1_init_rep]] show ?thesis by simp
qed

text \<open>C17. A message fed to the hash in any pieces gives the digest that FIPS 180-4 defines for the whole
  message, as \<open>std_sha1\<close> of the theory of the standards has it.\<close>

theorem sha1_is_fips: "ws_sha1_final (foldl ws_sha1_update ws_sha1_init pieces) = std_sha1 (concat pieces)"
  by (rule sha1_pieces)

subsection \<open>The accept key\<close>

lemma base64_quad_drop: "base64_quad (a # b # c # bs) (i + 3) = base64_quad bs i"
  by (simp add: base64_quad_def Let_def numeral_3_eq_3)

text \<open>The encoder of the handshake and the encoder of buffers agree.\<close>

lemma base64_encode_loop: "base64_encode bs = b64_loop bs"
proof (induction bs rule: b64_loop.induct)
  case (4 a b c bs)
  have "(length (a # b # c # bs) + 2) div 3 = Suc ((length bs + 2) div 3)" by simp
  then have "[0..<(length (a # b # c # bs) + 2) div 3] = 0 # map Suc [0..<(length bs + 2) div 3]"
    by (simp only: upt_conv_Cons map_Suc_upt zero_less_Suc)
  then have "base64_encode (a # b # c # bs) = base64_quad (a # b # c # bs) 0 @ base64_encode bs"
    using base64_quad_drop [of a b c bs, unfolded add.commute [of _ 3]]
    by (simp add: base64_encode_def o_def del: add_2_eq_Suc')
  with 4 show ?case by (simp add: base64_quad_def b64_char_def b64_triple_def Let_def)
qed (simp_all add: base64_encode_def base64_quad_def b64_char_def b64_triple_def Let_def)

lemma length_std_sha1: "length (std_sha1 m) = 20"
  by (simp add: std_sha1_def split: prod.splits)

text \<open>The accept key that the server sends is the base64 text of the SHA-1 digest of the client's
  key and the GUID of RFC 6455: 28 characters that decode to the digest.\<close>

theorem compute_accept_key_rfc:
  assumes "str_at h key k" "heap_ok h"
  shows "\<exists>p h' s. compute_accept_key h key = Some (p, h') \<and> str_at h' p s \<and> length s = 28 \<and>
    std_b64_decode s = std_sha1 (map byte_of (k @ ''258EAFA5-E914-47DA-95CA-C5AB0DC85B11''))"
proof -
  let ?d = "sha1_digest (map byte_of (k @ WS_GUID))"
  have d: "?d = std_sha1 (map byte_of (k @ WS_GUID))"
    using sha1_pieces [of "[map byte_of (k @ WS_GUID)]"] by (simp add: sha1_digest_def)
  have s: "NUL \<notin> set (base64_encode ?d)" "length (base64_encode ?d) = 28" "std_b64_decode (base64_encode ?d) = ?d"
    using b64_loop_text [of ?d] std_b64_loop [of ?d] by (simp_all only: base64_encode_loop d length_std_sha1) simp_all
  have "ts_string_new h (base64_encode ?d) = Some (new_str h (base64_encode ?d))"
    using s(1,2) by (intro ts_string_new_eq) (simp_all add: int32_max_def)
  then have "compute_accept_key h key = Some (new_str h (base64_encode ?d))"
    using assms by (simp add: compute_accept_key_def str_at_nonnull)
  then show ?thesis using assms(2) s d str_at_new [OF assms(2)]
    by (metis WS_GUID_def prod.collapse new_reads(1))
qed

theorem compute_accept_key_rfc_witness:
  "\<exists>p h' s. compute_accept_key (snd (new_str empty_heap ''x3JJHMbDL1EzLkh9GBhXDw==''))  1 = Some (p, h') \<and> str_at h' p s \<and>
    length s = 28 \<and> std_b64_decode s = std_sha1 (map byte_of (''x3JJHMbDL1EzLkh9GBhXDw=='' @ ''258EAFA5-E914-47DA-95CA-C5AB0DC85B11''))"
  by (rule compute_accept_key_rfc) (simp_all add: str_at_def new_str_def empty_heap_def heap_ok_def)

subsection \<open>The example of RFC 6455\<close>

text \<open>To evaluate the rounds the results are brought back below 2 to the 32 one by one.\<close>

definition word32 :: "nat \<Rightarrow> 32 word" where
  "word32 n = word_of_nat n"

lemma word32_numeral [simp]: "word32 0 = 0" "word32 (Suc 0) = 1" "word32 (numeral k) = numeral k"
  by (simp_all add: word32_def)

lemma word32_unat: "word32 (unat x) = x"
  by (simp add: word32_def)

lemma sha_round_eval: "sha_round w i (a, b, c, d, e) =
    (word32 (unat ((word32 (unat (push_bit 5 a)) OR drop_bit 27 a) +
       (if i < 20 then (b AND c) OR (NOT b AND d) else if 40 \<le> i \<and> i < 60 then ((b AND c) OR (b AND d)) OR (c AND d)
        else (b XOR c) XOR d) + e +
       (if i < 20 then 0x5A827999 else if i < 40 then 0x6ED9EBA1 else if i < 60 then 0x8F1BBCDC else 0xCA62C1D6) + w ! i)),
     a, word32 (unat (push_bit 30 b OR drop_bit 2 b)), c, d)"
  by (simp add: sha_round_def word32_unat)

lemma extend_eval: "extend_w i w = (let tmp = ((w ! (i-3) XOR w ! (i-8)) XOR w ! (i-14)) XOR w ! (i-16) in
     w @ [word32 (unat (push_bit 1 tmp OR drop_bit 31 tmp))])"
  by (simp add: extend_w_def word32_unat)

definition rfc_block1 :: "8 word list" where
  "rfc_block1 = [100, 71, 104, 108, 73, 72, 78, 104, 98, 88, 66, 115, 90, 83, 66, 117, 98,
  50, 53, 106, 90, 81, 61, 61, 50, 53, 56, 69, 65, 70, 65, 53, 45, 69, 57,
  49, 52, 45, 52, 55, 68, 65, 45, 57, 53, 67, 65, 45, 67, 53, 65, 66, 48,
  68, 67, 56, 53, 66, 49, 49, 128, 0, 0, 0]"

definition rfc_block2 :: "8 word list" where
  "rfc_block2 = [0, 0, 0, 0, 0, 0, 0, 0, 0, 0, 0, 0, 0, 0, 0, 0, 0, 0, 0, 0,
  0, 0, 0, 0, 0, 0, 0, 0, 0, 0, 0, 0, 0, 0, 0, 0, 0, 0, 0, 0, 0,
  0, 0, 0, 0, 0, 0, 0, 0, 0, 0, 0, 0, 0, 0, 0, 0, 0, 0, 0, 0, 0, 1, 224]"

lemma transform_eval:
  "map (load_word b) [0..<16] = v \<Longrightarrow> fold extend_w [16..<80] v = w \<Longrightarrow> fold (sha_round w) [0..<80] (a, b', c, d, e) = (p, q, r, s, t) \<Longrightarrow>
   sha1_transform (a, b', c, d, e) b = (a + p, b' + q, c + r, d + s, e + t)"
  by (simp add: sha1_transform_def schedule_def)

lemma replicate_eval: "replicate (numeral k) x = x # replicate (pred_numeral k) x"
  by (simp add: numeral_eq_Suc)

lemma rfc_transform1: "sha1_transform (0x67452301, 0xEFCDAB89, 0x98BADCFE, 0x10325476, 0xC3D2E1F0) rfc_block1 =
     (1540323111, 1931952490, 3195796473, 1517820024, 1581688034)"
  by (rule transform_eval [THEN trans], simp add: load_word_def rfc_block1_def rfc_block2_def upt_rec, simp add: upt_rec,
      simp add: extend_eval, simp add: upt_rec, simp add: sha_round_eval, simp)

lemma rfc_transform2: "sha1_transform (1540323111, 1931952490, 3195796473, 1517820024, 1581688034) rfc_block2 =
     (3011137324, 3227668246, 2432058886, 3476576581, 2998846698)"
  by (rule transform_eval [THEN trans], simp add: load_word_def rfc_block1_def rfc_block2_def upt_rec, simp add: upt_rec,
      simp add: extend_eval, simp add: upt_rec, simp add: sha_round_eval, simp)

text \<open>The example of RFC 6455, computed: the key of a client and the accept key for it.\<close>

theorem accept_key_example:
  "base64_encode (sha1_digest (map byte_of (''dGhlIHNhbXBsZSBub25jZQ=='' @ WS_GUID))) = ''s3pPLMBiTxaQ9kYGzzhZRbK+xOo=''"
proof -
  let ?m = "map byte_of (''dGhlIHNhbXBsZSBub25jZQ=='' @ WS_GUID)"
  have len: "length rfc_block1 = 64" "length rfc_block2 = 64" by (simp_all add: rfc_block1_def rfc_block2_def)
  have "std_pad 64 56 (be_bytes 8) ?m = rfc_block1 @ rfc_block2"
    by (simp add: std_pad_def std_zeros_eq rfc_block1_def rfc_block2_def WS_GUID_def byte_of_def be_bytes_def upt_rec replicate_eval)
  then have "std_blocks 64 (std_pad 64 56 (be_bytes 8) ?m) = [rfc_block1, rfc_block2]"
    using std_blocks_step [OF len(1), of rfc_block2] std_blocks_step [OF len(2), of "[]"] by (simp add: std_blocks_def)
  then have "sha1_digest ?m = concat (map state_bytes [3011137324, 3227668246, 2432058886, 3476576581, 2998846698])"
    using sha1_pieces [of "[?m]"] rfc_transform1 rfc_transform2
    by (simp add: sha1_digest_def std_sha1_def transform_std [OF len(1), symmetric] transform_std [OF len(2), symmetric] state_bytes_std)
  then show ?thesis by (simp add: state_bytes_def base64_encode_loop b64_char_def b64_triple_def b64_table_def Let_def)
qed

end
