(* ===== verification/Ts_Websocket.thy ===== *)
theory Ts_Websocket
  imports Ts_Sha1 Ts_Objmap Ts_Promise
begin

text \<open>
  \<^verbatim>\<open>runtime/src/websocket.c\<close>: the list of WebSockets, their handlers, the frames they send and
  receive, and the poll that drives them. The sockets of the operating system are a parameter \<open>net\<close>
  on a state of their own.
\<close>

subsection \<open>Sockets\<close>

text \<open>
  What \<^verbatim>\<open>recv\<close> gives: bytes, none when the peer has closed, or an error, which is \<open>NotReady\<close>
  for \<^verbatim>\<open>EWOULDBLOCK\<close>. \<^verbatim>\<open>send\<close> returns a count. \<open>net_connect\<close> stands for the name lookup, the socket and
  its connection to a host and port.
\<close>

datatype recv_result = Received "8 word list" | NotReady | RecvFailed

datatype connect_result = NoHost | NoSocket | NoConnection | Connected int

record 'n net =
  net_recv :: "int \<Rightarrow> nat \<Rightarrow> 'n \<Rightarrow> recv_result \<times> 'n"
  net_send :: "int \<Rightarrow> 8 word list \<Rightarrow> 'n \<Rightarrow> int \<times> 'n"
  net_close :: "int \<Rightarrow> 'n \<Rightarrow> 'n"
  net_connect :: "string \<Rightarrow> int \<Rightarrow> 'n \<Rightarrow> connect_result \<times> 'n"
  net_rand :: "'n \<Rightarrow> int \<times> 'n"
  net_sleep :: "'n \<Rightarrow> 'n"

function ws_send_raw :: "'n net \<Rightarrow> int \<Rightarrow> 8 word list \<Rightarrow> int \<Rightarrow> 'n \<Rightarrow> int \<times> 'n" where
  "ws_send_raw net fd data sent s =
    (if data = [] then (sent, s)
     else let (n, s1) = net_send net fd data s
          in if n \<le> 0 then (- 1, s1) else ws_send_raw net fd (drop (nat n) data) (sent + n) s1)"
  by pat_completeness auto
termination by (relation "measure (\<lambda>(_, _, data, _, _). length data)") (auto simp: neq_Nil_conv)

declare ws_send_raw.simps [simp del]

fun rands :: "'n net \<Rightarrow> nat \<Rightarrow> 'n \<Rightarrow> 8 word list \<times> 'n" where
  "rands net 0 s = ([], s)"
| "rands net (Suc k) s = (let (r, s1) = net_rand net s; (bs, s2) = rands net k s1 in (word_of_int r # bs, s2))"

subsection \<open>WebSockets\<close>

definition WEBSOCKET_TAG :: int where "WEBSOCKET_TAG = 0x57534F43"
definition WEBSOCKET_SERVER_TAG :: int where "WEBSOCKET_SERVER_TAG = 0x57535356"
definition WS_CONNECTING :: int where "WS_CONNECTING = 0"
definition WS_OPEN :: int where "WS_OPEN = 1"
definition WS_CLOSING :: int where "WS_CLOSING = 2"
definition WS_CLOSED :: int where "WS_CLOSED = 3"

record websocket =
  w_type_tag :: int
  w_fd :: int
  w_readyState :: int
  w_is_server :: bool
  w_onopen :: "tsvalue"
  w_onmessage :: "tsvalue"
  w_onerror :: "tsvalue"
  w_onclose :: "tsvalue"
  w_listeners :: addr
  w_url :: addr
  w_handshake_done :: bool
  w_next :: addr

record 'n wss =
  ws_heap :: heap
  ws_socks :: "addr \<Rightarrow> websocket option"
  g_ws_list :: addr
  g_ws_count :: int
  g_ws_polling :: bool
  ws_net :: 'n

type_synonym 'n ws_code = "addr \<Rightarrow> tsvalue list \<Rightarrow> 'n wss \<Rightarrow> 'n wss option"

definition set_ws :: "addr \<Rightarrow> (websocket \<Rightarrow> websocket) \<Rightarrow> 'n wss \<Rightarrow> 'n wss option" where
  "set_ws p f s = do { w \<leftarrow> ws_socks s p; Some (s\<lparr>ws_socks := (ws_socks s)(p \<mapsto> f w)\<rparr>) }"

definition ws_list_add :: "addr \<Rightarrow> 'n wss \<Rightarrow> 'n wss option" where
  "ws_list_add p s = do {
     let (l, h) = new_map (ws_heap s);
     s1 \<leftarrow> set_ws p (\<lambda>w. w\<lparr>w_type_tag := (if w_is_server w then WEBSOCKET_SERVER_TAG else WEBSOCKET_TAG),
         w_onopen := ts_value_undefined, w_onmessage := ts_value_undefined, w_onerror := ts_value_undefined,
         w_onclose := ts_value_undefined, w_listeners := l, w_next := g_ws_list s\<rparr>) s;
     n \<leftarrow> ck32 (g_ws_count s + 1);
     Some (s1\<lparr>ws_heap := h, g_ws_list := p, g_ws_count := n\<rparr>) }"

text \<open>The link that the loop of \<^verbatim>\<open>ws_list_remove\<close> is at: the head of the list, or the \<^verbatim>\<open>next\<close> of a socket.\<close>

partial_function (option) unlink :: "addr \<Rightarrow> addr option \<Rightarrow> 'n wss \<Rightarrow> 'n wss option" where
  "unlink p prev s = do {
     cur \<leftarrow> (case prev of None \<Rightarrow> Some (g_ws_list s) | Some q \<Rightarrow> map_option w_next (ws_socks s q));
     if cur = 0 then Some s
     else if cur = p then do {
       w \<leftarrow> ws_socks s p;
       s1 \<leftarrow> (case prev of None \<Rightarrow> Some (s\<lparr>g_ws_list := w_next w\<rparr>) | Some q \<Rightarrow> set_ws q (\<lambda>x. x\<lparr>w_next := w_next w\<rparr>) s);
       n \<leftarrow> ck32 (g_ws_count s - 1);
       Some (s1\<lparr>g_ws_count := n\<rparr>) }
     else unlink p (Some cur) s }"

definition ws_list_remove :: "addr \<Rightarrow> 'n wss \<Rightarrow> 'n wss option" where
  "ws_list_remove p s = unlink p None s"

subsection \<open>Events\<close>

text \<open>\<^verbatim>\<open>ts_value_call\<close> of a function or a bound function; nothing is called otherwise.\<close>

definition call_handler :: "'n ws_code \<Rightarrow> tsvalue \<Rightarrow> tsvalue \<Rightarrow> 'n wss \<Rightarrow> 'n wss option" where
  "call_handler call fn ev s = (case fn of
     VFunction f \<Rightarrow> if f = 0 then Some s else call f (pad4 [ev]) s
   | VObject p \<Rightarrow>
       if p = 0 \<or> ws_socks s p \<noteq> None then Some s
       else do {
         x \<leftarrow> objs (ws_heap s) p;
         case x of
           OBound b \<Rightarrow> if b_fn b = 0 then Some s else call (b_fn b) (pad4 (take (nat (b_ncaps b)) (b_caps b) @ [ev])) s
         | _ \<Rightarrow> Some s }
   | _ \<Rightarrow> Some s)"

partial_function (option) listeners_loop :: "'n ws_code \<Rightarrow> addr \<Rightarrow> tsvalue \<Rightarrow> int \<Rightarrow> 'n wss \<Rightarrow> 'n wss option" where
  "listeners_loop call arr ev i s = do {
     a \<leftarrow> arrs (ws_heap s) arr;
     if i < a_length a then do {
       fn \<leftarrow> ts_array_get a i;
       s1 \<leftarrow> call_handler call fn ev s;
       n \<leftarrow> ck32 (i + 1);
       listeners_loop call arr ev n s1 }
     else Some s }"

definition ws_fire_listeners :: "'n ws_code \<Rightarrow> addr \<Rightarrow> string \<Rightarrow> tsvalue \<Rightarrow> 'n wss \<Rightarrow> 'n wss option" where
  "ws_fire_listeners call p key ev s = do {
     w \<leftarrow> ws_socks s p;
     if w_listeners w = 0 then Some s
     else do {
       v \<leftarrow> map_get (ws_heap s) (w_listeners w) key;
       case v of VArray arr \<Rightarrow> if arr = 0 then Some s else listeners_loop call arr ev 0 s | _ \<Rightarrow> Some s } }"

definition handler_of :: "websocket \<Rightarrow> string \<Rightarrow> tsvalue" where
  "handler_of w event = (if event = ''onopen'' then w_onopen w else if event = ''onmessage'' then w_onmessage w
     else if event = ''onerror'' then w_onerror w else if event = ''onclose'' then w_onclose w
     else ts_value_undefined)"

definition ws_fire_event :: "'n ws_code \<Rightarrow> addr \<Rightarrow> string \<Rightarrow> tsvalue \<Rightarrow> 'n wss \<Rightarrow> 'n wss option" where
  "ws_fire_event call p event ev s =
    (if p = 0 then Some s
     else do {
       w \<leftarrow> ws_socks s p;
       s1 \<leftarrow> call_handler call (handler_of w event) ev s;
       s2 \<leftarrow> ws_fire_listeners call p event ev s1;
       if event = ''onopen'' then ws_fire_listeners call p ''open'' ev s2
       else if event = ''onmessage'' then ws_fire_listeners call p ''message'' ev s2
       else if event = ''onerror'' then ws_fire_listeners call p ''error'' ev s2
       else if event = ''onclose'' then ws_fire_listeners call p ''close'' ev s2
       else Some s2 })"

definition ws_make_event :: "heap \<Rightarrow> string \<Rightarrow> tsvalue \<Rightarrow> (tsvalue \<times> heap) option" where
  "ws_make_event h type data = do {
     let (ev, h1) = new_map h;
     (t, h2) \<leftarrow> new_text h1 type;
     h3 \<leftarrow> map_set h2 ev ''type'' t;
     h4 \<leftarrow> map_set h3 ev ''data'' data;
     Some (VObject ev, h4) }"

subsection \<open>Frames\<close>

text \<open>\<^verbatim>\<open>x >> k\<close> for an int of 32 bits, undefined when \<open>k\<close> is not below 32.\<close>

definition c_shr :: "int \<Rightarrow> int \<Rightarrow> int option" where
  "c_shr x k = (if 0 \<le> k \<and> k < 32 then Some (drop_bit (nat k) x) else None)"

text \<open>The header after its first byte, without the mask.\<close>

definition frame_length :: "int \<Rightarrow> bool \<Rightarrow> 8 word list option" where
  "frame_length len masked =
    (let mask_bit = (if masked then 0x80 else 0)
     in if len < 126 then Some [mask_bit OR word_of_int len]
        else if len \<le> 0xFFFF then Some [mask_bit OR 126, word_of_int (drop_bit 8 len), word_of_int (len AND 0xFF)]
        else foldo (\<lambda>bs i. do { x \<leftarrow> c_shr len (56 - i * 8); Some (bs @ [word_of_int x]) }) [mask_bit OR 127] [0..7])"

definition xor_mask :: "8 word list \<Rightarrow> 8 word list \<Rightarrow> 8 word list" where
  "xor_mask key bs = map (\<lambda>i. bs ! i XOR key ! (i mod 4)) [0..<length bs]"

definition ws_send_frame :: "'n net \<Rightarrow> int \<Rightarrow> 8 word list \<Rightarrow> int \<Rightarrow> bool \<Rightarrow> 'n \<Rightarrow> (int \<times> 'n) option" where
  "ws_send_frame net fd data len masked s = do {
     l \<leftarrow> frame_length len masked;
     let (mask_key, s1) = (if masked then rands net 4 s else ([], s));
     let header = [0x81] @ l @ mask_key;
     let (r, s2) = ws_send_raw net fd header 0 s1;
     if r < 0 then Some (- 1, s2)
     else if len > 0 then do {
       let payload = take (nat len) data;
       let (r, s3) = ws_send_raw net fd (if masked then xor_mask mask_key payload else payload) 0 s2;
       if r < 0 then Some (- 1, s3) else Some (0, s3) }
     else Some (0, s2) }"

definition ws_send_close :: "'n net \<Rightarrow> int \<Rightarrow> 'n \<Rightarrow> 'n" where
  "ws_send_close net fd s = snd (ws_send_raw net fd [0x88, 0x02, 0x03, 0xE8] 0 s)"

text \<open>\<^verbatim>\<open>CLOSE_SOCKET(ws->fd); ws->fd = -1\<close> with the new state of the socket.\<close>

definition drop_socket :: "'n net \<Rightarrow> addr \<Rightarrow> int \<Rightarrow> 'n wss \<Rightarrow> 'n wss option" where
  "drop_socket net p st s = do {
     w \<leftarrow> ws_socks s p;
     set_ws p (\<lambda>w. w\<lparr>w_readyState := st, w_fd := - 1\<rparr>) (s\<lparr>ws_net := net_close net (w_fd w) (ws_net s)\<rparr>) }"

text \<open>A read that gives up when there are fewer bytes than it asks for.\<close>

definition read_exact :: "'n net \<Rightarrow> int \<Rightarrow> nat \<Rightarrow> 'n \<Rightarrow> 8 word list option \<times> 'n" where
  "read_exact net fd n s = (case net_recv net fd n s of
     (Received bs, s1) \<Rightarrow> (if length bs < n then (None, s1) else (Some bs, s1))
   | (_, s1) \<Rightarrow> (None, s1))"

text \<open>The payload; \<open>None\<close> when the peer has closed. What is missing when no more is there stays unwritten.\<close>

function read_payload :: "'n net \<Rightarrow> int \<Rightarrow> nat \<Rightarrow> 8 word list \<Rightarrow> 'n \<Rightarrow> 8 word list option \<times> 'n" where
  "read_payload net fd n got s =
    (if length got < n then
       (case net_recv net fd (n - length got) s of
          (Received bs, s1) \<Rightarrow> (if bs = [] then (None, s1) else read_payload net fd n (got @ bs) s1)
        | (_, s1) \<Rightarrow> (Some got, s1))
     else (Some got, s))"
  by pat_completeness auto
termination by (relation "measure (\<lambda>(_, _, n, got, _). n - length got)") (auto simp: neq_Nil_conv)

declare read_payload.simps [simp del]

text \<open>The bytes of an integer in network order.\<close>

definition net_order :: "8 word list \<Rightarrow> nat" where
  "net_order bs = foldl (\<lambda>n b. n * 256 + unat b) 0 bs"

definition read_length :: "'n net \<Rightarrow> int \<Rightarrow> nat \<Rightarrow> 'n \<Rightarrow> nat option \<times> 'n" where
  "read_length net fd len7 s =
    (if len7 = 126 then (let (r, s1) = read_exact net fd 2 s in (map_option net_order r, s1))
     else if len7 = 127 then (let (r, s1) = read_exact net fd 8 s in (map_option net_order r, s1))
     else (Some len7, s))"

definition MAX_PAYLOAD :: nat where
  "MAX_PAYLOAD = 1024 * 1024"

text \<open>The frame that is read: its opcode, and its payload, \<open>None\<close> for a NULL, in which an unwritten byte is \<open>None\<close>.\<close>

record ws_frame =
  fr_opcode :: nat
  fr_length :: nat
  fr_payload :: "8 word option list option"

datatype frame_result = NoFrame | PeerGone | Frame ws_frame

definition unmask :: "8 word list \<Rightarrow> 8 word option list \<Rightarrow> 8 word option list option" where
  "unmask key ps = (if None \<in> set ps then None
     else Some (map Some (xor_mask key (map the ps))))"

definition read_frame :: "'n net \<Rightarrow> int \<Rightarrow> 'n \<Rightarrow> (frame_result \<times> 'n) option" where
  "read_frame net fd s = (case net_recv net fd 2 s of
     (Received hdr, s1) \<Rightarrow>
       if hdr = [] then Some (PeerGone, s1)
       else if length hdr < 2 then Some (NoFrame, s1)
       else (let opcode = unat (hdr ! 0 AND 0x0F); masked = (hdr ! 1 AND 0x80 \<noteq> 0); len7 = unat (hdr ! 1 AND 0x7F)
         in case read_length net fd len7 s1 of
           (None, s2) \<Rightarrow> Some (NoFrame, s2)
         | (Some n, s2) \<Rightarrow>
             (case (if masked then read_exact net fd 4 s2 else (Some [0, 0, 0, 0], s2)) of
                (None, s3) \<Rightarrow> Some (NoFrame, s3)
              | (Some key, s3) \<Rightarrow>
                  if 0 < n \<and> n < MAX_PAYLOAD then
                    (case read_payload net fd n [] s3 of
                       (None, s4) \<Rightarrow> Some (PeerGone, s4)
                     | (Some got, s4) \<Rightarrow> do {
                         let buf = map Some got @ replicate (n - length got) None;
                         ps \<leftarrow> (if masked then unmask key buf else Some buf);
                         Some (Frame \<lparr>fr_opcode = opcode, fr_length = n, fr_payload = Some ps\<rparr>, s4) })
                  else Some (Frame \<lparr>fr_opcode = opcode, fr_length = n, fr_payload = None\<rparr>, s3)))
   | (_, s1) \<Rightarrow> Some (NoFrame, s1))"

text \<open>\<^verbatim>\<open>ts_string_new_len(payload, (int32_t)payload_len)\<close>; nothing may be read through a NULL.\<close>

definition payload_string :: "heap \<Rightarrow> ws_frame \<Rightarrow> (tsvalue \<times> heap) option" where
  "payload_string h f = do {
     let n = sint (word_of_nat (fr_length f) :: 32 word);
     bs \<leftarrow> (case fr_payload f of None \<Rightarrow> Some []
           | Some ps \<Rightarrow> if None \<in> set ps then None else Some (map the ps));
     (q, h1) \<leftarrow> ts_string_new_len h (map char_of_byte bs) n;
     Some (VString q, h1) }"

definition fire_message :: "'n ws_code \<Rightarrow> addr \<Rightarrow> tsvalue \<Rightarrow> 'n wss \<Rightarrow> 'n wss option" where
  "fire_message call p data s = do {
     (ev, h) \<leftarrow> ws_make_event (ws_heap s) ''message'' data;
     ws_fire_event call p ''onmessage'' ev (s\<lparr>ws_heap := h\<rparr>) }"

definition handle_frame :: "'n net \<Rightarrow> 'n ws_code \<Rightarrow> addr \<Rightarrow> ws_frame \<Rightarrow> 'n wss \<Rightarrow> 'n wss option" where
  "handle_frame net call p f s =
    (if fr_opcode f = 1 then do {
       (data, h) \<leftarrow> (if fr_payload f = None then new_text (ws_heap s) [] else payload_string (ws_heap s) f);
       fire_message call p data (s\<lparr>ws_heap := h\<rparr>) }
     else if fr_opcode f = 2 then do {
       (data, h) \<leftarrow> payload_string (ws_heap s) f;
       fire_message call p data (s\<lparr>ws_heap := h\<rparr>) }
     else if fr_opcode f = 8 then do {
       w \<leftarrow> ws_socks s p;
       s1 \<leftarrow> (if w_fd w \<ge> 0 then drop_socket net p WS_CLOSED s else set_ws p (\<lambda>w. w\<lparr>w_readyState := WS_CLOSED\<rparr>) s);
       ws_fire_event call p ''onclose'' ts_value_undefined s1 }
     else if fr_opcode f = 9 then do {
       w \<leftarrow> ws_socks s p;
       if w_fd w \<ge> 0 then Some (s\<lparr>ws_net := snd (ws_send_raw net (w_fd w) [0x8A, 0x00] 0 (ws_net s))\<rparr>) else Some s }
     else Some s)"

definition ws_recv_frames :: "'n net \<Rightarrow> 'n ws_code \<Rightarrow> addr \<Rightarrow> 'n wss \<Rightarrow> 'n wss option" where
  "ws_recv_frames net call p s =
    (if p = 0 then Some s
     else do {
       w \<leftarrow> ws_socks s p;
       if w_fd w < 0 \<or> w_readyState w \<noteq> WS_OPEN then Some s
       else do {
         (r, n) \<leftarrow> read_frame net (w_fd w) (ws_net s);
         let s1 = s\<lparr>ws_net := n\<rparr>;
         case r of
           NoFrame \<Rightarrow> Some s1
         | PeerGone \<Rightarrow> do {
             s2 \<leftarrow> drop_socket net p WS_CLOSED s1;
             ws_fire_event call p ''onclose'' ts_value_undefined s2 }
         | Frame f \<Rightarrow> handle_frame net call p f s1 } })"

subsection \<open>The handshake of a client\<close>

definition CRLF :: string where
  "CRLF = [CHR 0x0D, CHR 0x0A]"

text \<open>\<^verbatim>\<open>atoi\<close>, undefined when the number does not fit.\<close>

definition c_atoi :: "string \<Rightarrow> int option" where
  "c_atoi s0 = (let s = dropWhile is_space s0;
       neg = (s \<noteq> [] \<and> hd s = CHR ''-''); r = (if s \<noteq> [] \<and> hd s \<in> {CHR ''-'', CHR ''+''} then tl s else s);
       n = int (digits_val 0 (takeWhile is_digit r))
     in ck32 (if neg then - n else n))"

text \<open>Host, port and path of \<^verbatim>\<open>ws://host[:port][/path]\<close>.\<close>

definition ws_target :: "string \<Rightarrow> (string \<times> int \<times> string) option option" where
  "ws_target url = (case strstr url ''://'' of
     None \<Rightarrow> Some None
   | Some i \<Rightarrow>
       (let r = drop (i + 3) url; slash = strchr r CHR ''/''; colon = strchr r CHR '':'';
            path = (case slash of Some k \<Rightarrow> drop k r | None \<Rightarrow> ''/'')
        in case colon of
             Some c \<Rightarrow>
               if (case slash of None \<Rightarrow> True | Some k \<Rightarrow> c < k) then do {
                 n \<leftarrow> c_atoi (drop (c + 1) r);
                 Some (Some (take (min c 255) r, if n \<le> 0 \<or> n > 65535 then 80 else n, path)) }
               else Some (Some (take (min (case slash of Some k \<Rightarrow> k | None \<Rightarrow> length r) 255) r, 80, path))
           | None \<Rightarrow> Some (Some (take (min (case slash of Some k \<Rightarrow> k | None \<Rightarrow> length r) 255) r, 80, path))))"

definition upgrade_request :: "string \<Rightarrow> string \<Rightarrow> string \<Rightarrow> string" where
  "upgrade_request path host key =
     ''GET '' @ path @ '' HTTP/1.1'' @ CRLF @ ''Host: '' @ host @ CRLF @ ''Upgrade: websocket'' @ CRLF @
     ''Connection: Upgrade'' @ CRLF @ ''Sec-WebSocket-Key: '' @ key @ CRLF @ ''Sec-WebSocket-Version: 13'' @ CRLF @
     ''Origin: http://'' @ host @ CRLF @ CRLF"

text \<open>
  The answer is collected in at most 50 reads, until an empty line or until the buffer of 4095 bytes
  is full, when \<^verbatim>\<open>recv\<close> of no bytes looks like a closed connection.
\<close>

datatype answer = Answer "8 word list" | PeerHungUp | ReadFailed

fun read_answer :: "'n net \<Rightarrow> int \<Rightarrow> nat \<Rightarrow> 8 word list \<Rightarrow> 'n \<Rightarrow> answer \<times> 'n" where
  "read_answer net fd 0 got s = (Answer got, s)"
| "read_answer net fd (Suc k) got s =
    (if length got \<ge> 4095 then (PeerHungUp, s)
     else case net_recv net fd (4095 - length got) s of
       (Received bs, s1) \<Rightarrow>
         (if bs = [] then (PeerHungUp, s1)
          else let got' = got @ bs
            in if strstr (cstr (map char_of_byte got')) (CRLF @ CRLF) \<noteq> None then (Answer got', s1)
               else read_answer net fd k got' s1)
     | (NotReady, s1) \<Rightarrow> read_answer net fd k got (net_sleep net s1)
     | (RecvFailed, s1) \<Rightarrow> (ReadFailed, s1))"

definition fire_error :: "'n ws_code \<Rightarrow> addr \<Rightarrow> string \<Rightarrow> 'n wss \<Rightarrow> 'n wss option" where
  "fire_error call p msg s = do {
     (t, h1) \<leftarrow> new_text (ws_heap s) msg;
     (ev, h2) \<leftarrow> ws_make_event h1 ''error'' t;
     s1 \<leftarrow> ws_fire_event call p ''onerror'' ev (s\<lparr>ws_heap := h2\<rparr>);
     ws_fire_event call p ''onclose'' ts_value_undefined s1 }"

definition ws_state :: "addr \<Rightarrow> int \<Rightarrow> 'n wss \<Rightarrow> 'n wss option" where
  "ws_state p st = set_ws p (\<lambda>w. w\<lparr>w_readyState := st\<rparr>)"

definition ws_handshake :: "'n net \<Rightarrow> 'n ws_code \<Rightarrow> addr \<Rightarrow> string \<Rightarrow> string \<Rightarrow> int \<Rightarrow> 'n wss \<Rightarrow> 'n wss option" where
  "ws_handshake net call p host path sock s = do {
     s1 \<leftarrow> set_ws p (\<lambda>w. w\<lparr>w_fd := sock\<rparr>) s;
     let (key_raw, n1) = rands net 16 (ws_net s1);
     let req = upgrade_request path host (base64_encode key_raw);
     if length req \<ge> 2048 then None
     else do {
       let (r, n2) = ws_send_raw net sock (map byte_of req) 0 n1;
       if r < 0 then do {
         s2 \<leftarrow> ws_state p WS_CLOSED (s1\<lparr>ws_net := net_close net sock n2\<rparr>);
         fire_error call p ''Upgrade request send failed'' s2 }
       else do {
         s2 \<leftarrow> ws_state p WS_CONNECTING s1;
         let (a, n3) = read_answer net sock 50 [] n2;
         let s3 = s2\<lparr>ws_net := n3\<rparr>;
         case a of
           PeerHungUp \<Rightarrow> do {
             s4 \<leftarrow> drop_socket net p WS_CLOSED s3;
             fire_error call p ''Connection closed during handshake'' s4 }
         | ReadFailed \<Rightarrow> do {
             s4 \<leftarrow> drop_socket net p WS_CLOSED s3;
             fire_error call p ''Handshake recv failed'' s4 }
         | Answer got \<Rightarrow>
             if got = [] then None
             else if strstr (cstr (map char_of_byte got)) '' 101'' \<noteq> None then do {
               s4 \<leftarrow> set_ws p (\<lambda>w. w\<lparr>w_readyState := WS_OPEN, w_handshake_done := True\<rparr>) s3;
               ws_fire_event call p ''onopen'' ts_value_undefined s4 }
             else do {
               s4 \<leftarrow> drop_socket net p WS_CLOSED s3;
               fire_error call p ''Handshake failed (non-101)'' s4 } } } }"

definition ws_client_connect :: "'n net \<Rightarrow> 'n ws_code \<Rightarrow> addr \<Rightarrow> 'n wss \<Rightarrow> 'n wss option" where
  "ws_client_connect net call p s =
    (if p = 0 then Some s
     else do {
       w \<leftarrow> ws_socks s p;
       if w_url w = 0 then Some s
       else do {
         url \<leftarrow> str_data (ws_heap s) (w_url w);
         t \<leftarrow> ws_target (cstr url);
         case t of
           None \<Rightarrow> ws_state p WS_CLOSED s
         | Some (host, port, path) \<Rightarrow>
             (case net_connect net host port (ws_net s) of
                (Connected sock, n) \<Rightarrow> ws_handshake net call p host path sock (s\<lparr>ws_net := n\<rparr>)
              | (r, n) \<Rightarrow> do {
                  s1 \<leftarrow> ws_state p WS_CLOSED (s\<lparr>ws_net := n\<rparr>);
                  fire_error call p (case r of NoHost \<Rightarrow> ''DNS resolution failed''
                      | NoSocket \<Rightarrow> ''Socket creation failed'' | _ \<Rightarrow> ''Connection failed'') s1 }) } })"

subsection \<open>The handshake of a server\<close>

text \<open>\<^verbatim>\<open>ws_get_header\<close>: the lines after the first, up to an empty one.\<close>

function header_scan :: "string \<Rightarrow> string \<Rightarrow> string option" where
  "header_scan p name =
    (if p = [] \<or> prefix CRLF p then None
     else if map lower (take (length name) p) = map lower name \<and> length name < length p \<and> p ! length name = CHR '':''
     then Some (takeWhile (\<lambda>c. c \<noteq> CHR 0x0D) (dropWhile (\<lambda>c. c = CHR '' '') (drop (length name + 1) p)))
     else case strstr p CRLF of None \<Rightarrow> None | Some i \<Rightarrow> header_scan (drop (i + 2) p) name)"
  by pat_completeness auto
termination by (relation "measure (\<lambda>(p, _). length p)") auto

declare header_scan.simps [simp del]

definition ws_get_header :: "string \<Rightarrow> string \<Rightarrow> nat \<Rightarrow> string option" where
  "ws_get_header req name bufsz = (case strstr (cstr req) CRLF of
     None \<Rightarrow> None
   | Some i \<Rightarrow> map_option (take (bufsz - 1)) (header_scan (drop (i + 2) (cstr req)) name))"

text \<open>
  The key is looked for in up to 20 further reads of at most 4096 bytes each. They are gathered in a
  buffer that has room for the request and one read.
\<close>

fun read_key :: "'n net \<Rightarrow> int \<Rightarrow> nat \<Rightarrow> nat \<Rightarrow> string \<Rightarrow> 'n \<Rightarrow> (string option \<times> 'n) option" where
  "read_key net fd 0 room full s = Some (None, s)"
| "read_key net fd (Suc k) room full s = (case net_recv net fd 4096 s of
     (Received bs, s1) \<Rightarrow>
       if bs = [] then read_key net fd k room full (net_sleep net s1)
       else let full' = full @ map char_of_byte bs
         in if length full' > room then None
            else (case ws_get_header full' ''Sec-WebSocket-Key'' 256 of
                    Some key \<Rightarrow> Some (Some key, s1)
                  | None \<Rightarrow> read_key net fd k room full' s1)
   | (_, s1) \<Rightarrow> read_key net fd k room full (net_sleep net s1))"

definition upgrade_response :: "string \<Rightarrow> string \<Rightarrow> string" where
  "upgrade_response accept proto =
     ''HTTP/1.1 101 Switching Protocols'' @ CRLF @ ''Upgrade: websocket'' @ CRLF @ ''Connection: Upgrade'' @ CRLF @
     ''Sec-WebSocket-Accept: '' @ accept @ CRLF @ proto @ CRLF"

text \<open>The header for the subprotocol, when the client has offered one and the response names one.\<close>

definition proto_header :: "heap \<Rightarrow> fetch_response \<Rightarrow> string \<Rightarrow> string option" where
  "proto_header h fr req =
    (if f_headers fr = 0 \<or> ws_get_header req ''Sec-WebSocket-Protocol'' 256 = None then Some []
     else do {
       v \<leftarrow> map_get h (f_headers fr) ''Sec-WebSocket-Protocol'';
       case v of
         VString q \<Rightarrow> if q = 0 then Some []
           else do { t \<leftarrow> str_data h q; Some (snprintf 512 (''Sec-WebSocket-Protocol: '' @ cstr t @ CRLF)) }
       | _ \<Rightarrow> Some [] })"

definition bad_request :: string where
  "bad_request = ''HTTP/1.1 400 Bad Request'' @ CRLF @ ''Content-Length: 0'' @ CRLF @ ''Connection: close'' @ CRLF @ CRLF"

definition ws_accept :: "'n net \<Rightarrow> 'n ws_code \<Rightarrow> int \<Rightarrow> fetch_response \<Rightarrow> string \<Rightarrow> string \<Rightarrow> 'n wss \<Rightarrow> 'n wss option" where
  "ws_accept net call fd fr req key s = do {
     (kq, h1) \<leftarrow> ts_string_new (ws_heap s) key;
     (aq, h2) \<leftarrow> compute_accept_key h1 kq;
     accept \<leftarrow> str_data h2 aq;
     proto \<leftarrow> proto_header h2 fr req;
     let n = snd (ws_send_raw net fd (map byte_of (upgrade_response accept proto)) 0 (ws_net s));
     s1 \<leftarrow> set_ws (f_stream fr) (\<lambda>w. w\<lparr>w_fd := fd, w_readyState := WS_OPEN, w_handshake_done := True,
         w_is_server := True, w_type_tag := WEBSOCKET_SERVER_TAG\<rparr>) (s\<lparr>ws_heap := h2, ws_net := n\<rparr>);
     ws_fire_event call (f_stream fr) ''onopen'' ts_value_undefined s1 }"

definition ts_websocket_http_upgrade ::
  "'n net \<Rightarrow> 'n ws_code \<Rightarrow> int \<Rightarrow> fetch_response \<Rightarrow> string \<Rightarrow> 'n wss \<Rightarrow> 'n wss option" where
  "ts_websocket_http_upgrade net call fd fr req s =
    (if f_stream fr = 0 then Some s
     else do {
       w \<leftarrow> ws_socks s (f_stream fr);
       if w_type_tag w \<noteq> WEBSOCKET_SERVER_TAG \<and> w_type_tag w \<noteq> WEBSOCKET_TAG then Some s
       else (case ws_get_header req ''Sec-WebSocket-Key'' 256 of
         Some key \<Rightarrow> ws_accept net call fd fr req key s
       | None \<Rightarrow> do {
           (r, n) \<leftarrow> read_key net fd 20 (length req + 4096) req (ws_net s);
           case r of
             Some key \<Rightarrow> ws_accept net call fd fr req key (s\<lparr>ws_net := n\<rparr>)
           | None \<Rightarrow> Some (s\<lparr>ws_net := net_close net fd (snd (ws_send_raw net fd (map byte_of bad_request) 0 n))\<rparr>) }) })"

subsection \<open>Operations\<close>

definition new_ws :: "bool \<Rightarrow> int \<Rightarrow> addr \<Rightarrow> 'n wss \<Rightarrow> (tsvalue \<times> 'n wss) option" where
  "new_ws server st url s = do {
     let p = nxt (ws_heap s);
     s1 \<leftarrow> ws_list_add p (s\<lparr>ws_heap := (ws_heap s)\<lparr>nxt := Suc p\<rparr>, ws_socks := (ws_socks s)(p \<mapsto>
         \<lparr>w_type_tag = (if server then WEBSOCKET_SERVER_TAG else WEBSOCKET_TAG), w_fd = - 1, w_readyState = st, w_is_server = server,
          w_onopen = VNull, w_onmessage = VNull, w_onerror = VNull, w_onclose = VNull, w_listeners = 0, w_url = url,
          w_handshake_done = False, w_next = 0\<rparr>)\<rparr>);
     Some (VObject p, s1) }"

definition ts_websocket_new :: "addr \<Rightarrow> 'n wss \<Rightarrow> (tsvalue \<times> 'n wss) option" where
  "ts_websocket_new url s = do {
     t \<leftarrow> (if url = 0 then Some [] else str_data (ws_heap s) url);
     (u, h) \<leftarrow> ts_string_new (ws_heap s) t;
     new_ws False WS_CONNECTING u (s\<lparr>ws_heap := h\<rparr>) }"

definition ts_websocket_server_new :: "'n wss \<Rightarrow> (tsvalue \<times> 'n wss) option" where
  "ts_websocket_server_new s = do {
     (u, h) \<leftarrow> ts_string_new (ws_heap s) [];
     new_ws True WS_OPEN u (s\<lparr>ws_heap := h\<rparr>) }"

text \<open>The first word of an object: the tag of a WebSocket, or something else.\<close>

definition ws_tag_is :: "int \<Rightarrow> 'n wss \<Rightarrow> tsvalue \<Rightarrow> bool option" where
  "ws_tag_is tag s v = (case v of
     VObject p \<Rightarrow> if p = 0 then Some False
       else (case ws_socks s p of Some w \<Rightarrow> Some (w_type_tag w = tag)
             | None \<Rightarrow> map_option (\<lambda>_. False) (objs (ws_heap s) p))
   | _ \<Rightarrow> Some False)"

definition ts_websocket_is :: "'n wss \<Rightarrow> tsvalue \<Rightarrow> bool option" where
  "ts_websocket_is = ws_tag_is WEBSOCKET_TAG"

definition ts_websocket_server_is :: "'n wss \<Rightarrow> tsvalue \<Rightarrow> bool option" where
  "ts_websocket_server_is = ws_tag_is WEBSOCKET_SERVER_TAG"

definition ts_websocket_from_value :: "tsvalue \<Rightarrow> addr" where
  "ts_websocket_from_value v = (case v of VObject p \<Rightarrow> p | _ \<Rightarrow> 0)"

definition ts_websocket_send :: "'n net \<Rightarrow> tsvalue \<Rightarrow> tsvalue \<Rightarrow> 'n wss \<Rightarrow> 'n wss option" where
  "ts_websocket_send net wsVal data s =
    (if ts_websocket_from_value wsVal = 0 then Some s
     else do {
       w \<leftarrow> ws_socks s (ts_websocket_from_value wsVal);
       if w_fd w < 0 \<or> w_readyState w \<noteq> WS_OPEN then Some s
       else do {
         (q, h) \<leftarrow> ts_to_string (ws_heap s) data;
         t \<leftarrow> (if q = 0 then Some [] else str_data h q);
         if t = [] then Some (s\<lparr>ws_heap := h\<rparr>)
         else do {
           (_, n) \<leftarrow> ws_send_frame net (w_fd w) (map byte_of t) (int (length t)) (\<not> w_is_server w) (ws_net s);
           Some (s\<lparr>ws_heap := h, ws_net := n\<rparr>) } } })"

definition ts_websocket_close :: "'n net \<Rightarrow> 'n ws_code \<Rightarrow> tsvalue \<Rightarrow> 'n wss \<Rightarrow> 'n wss option" where
  "ts_websocket_close net call wsVal s =
    (let p = ts_websocket_from_value wsVal
     in if p = 0 then Some s
        else do {
          w \<leftarrow> ws_socks s p;
          if w_fd w < 0 then Some s
          else if w_readyState w = WS_OPEN \<or> w_readyState w = WS_CONNECTING then do {
            s1 \<leftarrow> drop_socket net p WS_CLOSED (s\<lparr>ws_net := ws_send_close net (w_fd w) (ws_net s)\<rparr>);
            ws_fire_event call p ''onclose'' ts_value_undefined s1 }
          else Some s })"

definition ts_websocket_readyState :: "'n wss \<Rightarrow> tsvalue \<Rightarrow> int option" where
  "ts_websocket_readyState s wsVal =
    (if ts_websocket_from_value wsVal = 0 then Some (- 1)
     else map_option w_readyState (ws_socks s (ts_websocket_from_value wsVal)))"

definition set_handler :: "string \<Rightarrow> tsvalue \<Rightarrow> websocket \<Rightarrow> websocket" where
  "set_handler n fn w = (if n = ''onopen'' then w\<lparr>w_onopen := fn\<rparr> else if n = ''onmessage'' then w\<lparr>w_onmessage := fn\<rparr>
     else if n = ''onerror'' then w\<lparr>w_onerror := fn\<rparr> else if n = ''onclose'' then w\<lparr>w_onclose := fn\<rparr> else w)"

definition ts_websocket_set_handler :: "tsvalue \<Rightarrow> addr \<Rightarrow> tsvalue \<Rightarrow> 'n wss \<Rightarrow> 'n wss option" where
  "ts_websocket_set_handler wsVal name fn s =
    (if ts_websocket_from_value wsVal = 0 \<or> name = 0 then Some s
     else do { n \<leftarrow> str_data (ws_heap s) name; set_ws (ts_websocket_from_value wsVal) (set_handler (cstr n) fn) s })"

definition ts_websocket_get_handler :: "tsvalue \<Rightarrow> addr \<Rightarrow> 'n wss \<Rightarrow> tsvalue option" where
  "ts_websocket_get_handler wsVal name s =
    (if ts_websocket_from_value wsVal = 0 \<or> name = 0 then Some ts_value_undefined
     else do {
       n \<leftarrow> str_data (ws_heap s) name;
       w \<leftarrow> ws_socks s (ts_websocket_from_value wsVal);
       Some (handler_of w (cstr n)) })"

definition ts_websocket_add_event_listener :: "tsvalue \<Rightarrow> addr \<Rightarrow> tsvalue \<Rightarrow> 'n wss \<Rightarrow> 'n wss option" where
  "ts_websocket_add_event_listener wsVal type fn s =
    (if ts_websocket_from_value wsVal = 0 \<or> type = 0 then Some s
     else do {
       w \<leftarrow> ws_socks s (ts_websocket_from_value wsVal);
       t \<leftarrow> str_data (ws_heap s) type;
       v \<leftarrow> map_get (ws_heap s) (w_listeners w) t;
       h \<leftarrow> (case v of
           VArray (Suc k) \<Rightarrow> arr_push_at (ws_heap s) (Suc k) fn
         | _ \<Rightarrow> do {
             let (a, h1) = new_arr (ws_heap s) ts_array_new;
             h2 \<leftarrow> arr_push_at h1 a fn;
             map_set h2 (w_listeners w) t (VArray a) });
       Some (s\<lparr>ws_heap := h\<rparr>) })"

text \<open>The pointers in the unions of two values compared.\<close>

definition same_word :: "tsvalue \<Rightarrow> tsvalue \<Rightarrow> bool option" where
  "same_word v w = (let word = (\<lambda>x. case x of VFunction p \<Rightarrow> Some p | VObject p \<Rightarrow> Some p | VArray p \<Rightarrow> Some p | VString p \<Rightarrow> Some p
      | _ \<Rightarrow> None)
    in do { a \<leftarrow> word v; b \<leftarrow> word w; Some (a = b \<and> (a = 0 \<or> vtag v = vtag w)) })"

definition ts_websocket_remove_event_listener :: "tsvalue \<Rightarrow> addr \<Rightarrow> tsvalue \<Rightarrow> 'n wss \<Rightarrow> 'n wss option" where
  "ts_websocket_remove_event_listener wsVal type fn s =
    (if ts_websocket_from_value wsVal = 0 \<or> type = 0 then Some s
     else do {
       w \<leftarrow> ws_socks s (ts_websocket_from_value wsVal);
       t \<leftarrow> str_data (ws_heap s) type;
       v \<leftarrow> map_get (ws_heap s) (w_listeners w) t;
       case v of
         VArray arr \<Rightarrow> if arr = 0 then Some s else do {
           let (filtered, h1) = new_arr (ws_heap s) ts_array_new;
           a \<leftarrow> arrs h1 arr;
           h2 \<leftarrow> foldo (\<lambda>h i. do {
               entry \<leftarrow> ts_array_get a i;
               eq \<leftarrow> same_word entry fn;
               if \<not> eq then arr_push_at h filtered entry else Some h }) h1 [0..a_length a - 1];
           h3 \<leftarrow> map_set h2 (w_listeners w) t (VArray filtered);
           Some (s\<lparr>ws_heap := h3\<rparr>) }
       | _ \<Rightarrow> Some s })"

subsection \<open>The event loop\<close>

partial_function (option) pending_from :: "addr \<Rightarrow> 'n wss \<Rightarrow> bool option" where
  "pending_from p s =
    (if p = 0 then Some False
     else do {
       w \<leftarrow> ws_socks s p;
       if w_readyState w = WS_CONNECTING then Some True
       else if (w_readyState w = WS_OPEN \<or> w_readyState w = WS_CLOSING) \<and> w_fd w \<ge> 0 then Some True
       else pending_from (w_next w) s })"

definition ts_websocket_pending :: "'n wss \<Rightarrow> bool option" where
  "ts_websocket_pending s = pending_from (g_ws_list s) s"

definition poll_one :: "'n net \<Rightarrow> 'n ws_code \<Rightarrow> addr \<Rightarrow> websocket \<Rightarrow> 'n wss \<Rightarrow> 'n wss option" where
  "poll_one net call p w s =
    (if w_readyState w = WS_CONNECTING \<and> \<not> w_is_server w \<and> w_fd w < 0 then ws_client_connect net call p s
     else if w_readyState w = WS_OPEN \<and> w_fd w \<ge> 0 then ws_recv_frames net call p s
     else if w_readyState w = WS_CONNECTING \<and> w_fd w \<ge> 0 then
       (case net_recv net (w_fd w) 4095 (ws_net s) of
          (Received bs, n) \<Rightarrow>
            (let s1 = s\<lparr>ws_net := n\<rparr>
             in if bs \<noteq> [] \<and> strstr (cstr (map char_of_byte bs)) '' 101'' \<noteq> None then do {
                  s2 \<leftarrow> set_ws p (\<lambda>w. w\<lparr>w_readyState := WS_OPEN, w_handshake_done := True\<rparr>) s1;
                  ws_fire_event call p ''onopen'' ts_value_undefined s2 }
                else do {
                  s2 \<leftarrow> drop_socket net p WS_CLOSED s1;
                  ws_fire_event call p ''onclose'' ts_value_undefined s2 })
        | (_, n) \<Rightarrow> Some (s\<lparr>ws_net := n\<rparr>))
     else Some s)"

partial_function (option) ws_poll_loop :: "'n net \<Rightarrow> 'n ws_code \<Rightarrow> addr \<Rightarrow> 'n wss \<Rightarrow> 'n wss option" where
  "ws_poll_loop net call p s =
    (if p = 0 then Some s
     else do {
       w \<leftarrow> ws_socks s p;
       s1 \<leftarrow> poll_one net call p w s;
       ws_poll_loop net call (w_next w) s1 })"

definition ts_websocket_poll :: "'n net \<Rightarrow> 'n ws_code \<Rightarrow> 'n wss \<Rightarrow> 'n wss option" where
  "ts_websocket_poll net call s =
    (if g_ws_polling s then Some s
     else do {
       s1 \<leftarrow> ws_poll_loop net call (g_ws_list s) (s\<lparr>g_ws_polling := True\<rparr>);
       Some (s1\<lparr>g_ws_polling := False\<rparr>) })"

end
