(* ===== verification/Ts_Ws_Frames.thy ===== *)
theory Ts_Ws_Frames
  imports Ts_Websocket
begin

unbundle bit_operations_syntax

text \<open>
  What a WebSocket sends is what its peer receives: the frames of \<^verbatim>\<open>websocket.c\<close> over sockets that
  keep their documented contract.
\<close>

subsection \<open>Sockets that work\<close>

text \<open>
  \<open>sent\<close> is what was handed to a connection so far; \<open>send\<close> takes at least one byte of what it is given.
  \<open>avail\<close> tells which bytes have arrived; a \<open>recv\<close> of no more than these gives the first of them.
\<close>

definition accepts :: "'n net \<Rightarrow> int \<Rightarrow> ('n \<Rightarrow> 8 word list) \<Rightarrow> bool" where
  "accepts net fd sent \<longleftrightarrow> (\<forall>s. sent (snd (net_rand net s)) = sent s) \<and>
     (\<forall>s data. data \<noteq> [] \<longrightarrow> (\<exists>n s'. net_send net fd data s = (int n, s') \<and> 0 < n \<and> n \<le> length data \<and>
        sent s' = sent s @ take n data))"

definition delivers :: "'n net \<Rightarrow> int \<Rightarrow> ('n \<Rightarrow> 8 word list \<Rightarrow> bool) \<Rightarrow> bool" where
  "delivers net fd avail \<longleftrightarrow> (\<forall>s bs n. avail s bs \<longrightarrow> 0 < n \<longrightarrow> n \<le> length bs \<longrightarrow>
     (\<exists>s'. net_recv net fd n s = (Received (take n bs), s') \<and> avail s' (drop n bs)))"

lemma accepts_send:
  "accepts net fd sent \<Longrightarrow> data \<noteq> [] \<Longrightarrow> \<exists>n s'. net_send net fd data s = (int n, s') \<and> 0 < n \<and> n \<le> length data \<and>
     sent s' = sent s @ take n data"
  by (simp add: accepts_def)

lemma delivers_recv:
  assumes "delivers net fd avail" "avail s (bs @ rest)" "bs \<noteq> []"
  shows "\<exists>s'. net_recv net fd (length bs) s = (Received bs, s') \<and> avail s' rest"
proof -
  have "0 < length bs" "length bs \<le> length (bs @ rest)" using assms(3) by simp_all
  with assms(1,2) have "\<exists>s'. net_recv net fd (length bs) s = (Received (take (length bs) (bs @ rest)), s') \<and>
      avail s' (drop (length bs) (bs @ rest))" unfolding delivers_def by blast
  then show ?thesis by simp
qed

lemma send_raw_Nil [simp]: "ws_send_raw net fd [] k s = (k, s)"
  by (simp add: ws_send_raw.simps)

lemma send_raw_ok:
  assumes "accepts net fd sent"
  shows "\<exists>s'. ws_send_raw net fd data k s = (k + int (length data), s') \<and> sent s' = sent s @ data"
proof (induction "length data" arbitrary: data k s rule: less_induct)
  case less
  show ?case
  proof (cases "data = []")
    case False
    from accepts_send [OF assms False, of s] obtain n s1 where n: "net_send net fd data s = (int n, s1)" "0 < n" "n \<le> length data"
      "sent s1 = sent s @ take n data" by blast
    with False have "length (drop n data) < length data" by simp
    from less [OF this, of "k + int n" s1] n False show ?thesis by (auto simp: ws_send_raw.simps [of net fd data k s])
  qed simp
qed

lemma rands_ok:
  assumes "accepts net fd sent"
  shows "length (fst (rands net k s)) = k \<and> sent (snd (rands net k s)) = sent s"
proof (induction k arbitrary: s)
  case (Suc k)
  show ?case using assms Suc [of "snd (net_rand net s)"] by (simp add: case_prod_beta Let_def accepts_def)
qed simp

lemma read_exact_ok:
  assumes "delivers net fd avail" "avail s (bs @ rest)" "length bs = n" "0 < n"
  shows "\<exists>s'. read_exact net fd n s = (Some bs, s') \<and> avail s' rest"
proof -
  from delivers_recv [OF assms(1,2)] assms(3,4) obtain s' where "net_recv net fd n s = (Received bs, s')" "avail s' rest" by auto
  then show ?thesis using assms(3) by (simp add: read_exact_def)
qed

subsection \<open>Encoding and decoding\<close>

definition frame_bytes :: "bool \<Rightarrow> 8 word list \<Rightarrow> 8 word list \<Rightarrow> 8 word list" where
  "frame_bytes masked key data = [0x81] @ the (frame_length (int (length data)) masked) @
     (if masked then key @ xor_mask key data else data)"

lemma xor_mask_twice: "length key = 4 \<Longrightarrow> xor_mask key (xor_mask key bs) = bs"
  by (intro nth_equalityI) (simp_all add: xor_mask_def xor.assoc)

lemma length_xor_mask [simp]: "length (xor_mask key bs) = length bs"
  by (simp add: xor_mask_def)

lemma frame_length_small: "n \<le> 65535 \<Longrightarrow> frame_length (int n) masked \<noteq> None"
  by (simp add: frame_length_def)

lemma send_frame_ok:
  assumes "accepts net fd sent" "length data \<le> 65535"
  shows "\<exists>key s'. length key = 4 \<and> ws_send_frame net fd data (int (length data)) masked s = Some (0, s') \<and>
    sent s' = sent s @ frame_bytes masked key data"
proof -
  obtain l where l: "frame_length (int (length data)) masked = Some l" using frame_length_small [OF assms(2)] by blast
  obtain key s1 where k: "rands net 4 s = (key, s1)" by fastforce
  with rands_ok [OF assms(1), of 4 s] have k4: "length key = 4" "sent s1 = sent s" by simp_all
  let ?key = "if masked then key else []" and ?s1 = "if masked then s1 else s"
  let ?body = "if masked then xor_mask key data else data"
  from send_raw_ok [OF assms(1)] obtain s2 where s2: "ws_send_raw net fd ([0x81] @ l @ ?key) 0 ?s1 =
      (0 + int (length ([0x81] @ l @ ?key)), s2)" "sent s2 = sent ?s1 @ [0x81] @ l @ ?key" by metis
  from send_raw_ok [OF assms(1)] obtain s3 where s3: "ws_send_raw net fd ?body 0 s2 = (0 + int (length ?body), s3)"
    "sent s3 = sent s2 @ ?body" by metis
  show ?thesis
  proof (cases masked)
    case True
    then show ?thesis using l k k4 s2 s3
      by (intro exI [of _ key] exI [of _ s3]) (cases "data = []"; simp add: ws_send_frame_def frame_bytes_def xor_mask_def)
  next
    case False
    then show ?thesis using l k4 s2 s3
      by (intro exI [of _ key] exI [of _ s3]) (cases "data = []"; simp add: ws_send_frame_def frame_bytes_def)
  qed
qed

lemma low_byte:
  fixes x :: "8 word"
  assumes "unat x < 128"
  shows "(0x80 OR x) AND 0x7F = x" "(0x80 OR x) AND 0x80 = 0x80" "x AND 0x7F = x" "x AND 0x80 = 0"
proof -
  have "unat (take_bit 7 x) = unat x" using assms by (simp add: unsigned_take_bit_eq take_bit_nat_eq_self_iff)
  then show x: "x AND 0x7F = x" by (simp add: take_bit_eq_mask mask_eq_exp_minus_1 word_unat_eq_iff)
  then have "x AND 0x80 = x AND (0x7F AND 0x80)" by (metis and.assoc)
  then show y: "x AND 0x80 = 0" by simp
  show "(0x80 OR x) AND 0x7F = x" "(0x80 OR x) AND 0x80 = 0x80" using x y by (simp_all add: bit.conj_disj_distrib2)
qed

text \<open>The length field that a header begins with, and what is read from it.\<close>

lemma frame_length_cases:
  assumes "n \<le> 65535"
  obtains b where "n < 126" "frame_length (int n) masked = Some [(if masked then 0x80 else 0) OR b]" "unat b = n"
  | c d where "frame_length (int n) masked = Some [(if masked then 0x80 else 0) OR 126, c, d]" "net_order [c, d] = n"
proof (cases "n < 126")
  case True
  then have "unat (word_of_int (int n) :: 8 word) = n" by (simp add: unat_of_nat)
  with True that(1) show ?thesis by (simp add: frame_length_def)
next
  case False
  let ?c = "word_of_nat (n div 256) :: 8 word" and ?d = "word_of_nat (n mod 256) :: 8 word"
  have "drop_bit 8 (int n) = int (n div 256)" "int n AND 255 = int (n mod 256)"
    using take_bit_eq_mod [of 8 "int n"] by (simp_all add: drop_bit_eq_div take_bit_eq_mask mask_eq_exp_minus_1 zdiv_int zmod_int)
  then have "frame_length (int n) masked = Some [(if masked then 0x80 else 0) OR 126, ?c, ?d]"
    using False assms by (simp add: frame_length_def)
  moreover have "net_order [?c, ?d] = n" using assms by (simp add: net_order_def unat_of_nat)
  ultimately show ?thesis using that(2) by blast
qed

lemma read_length_ok:
  assumes "delivers net fd avail" "n \<le> 65535" "frame_length (int n) masked = Some (b # l)" "avail s (l @ rest)"
  shows "(b AND 0x80 \<noteq> 0 \<longleftrightarrow> masked) \<and> (\<exists>s'. read_length net fd (unat (b AND 0x7F)) s = (Some n, s') \<and> avail s' rest)"
  using assms(2)
proof (rule frame_length_cases [of n masked])
  fix x assume x: "n < 126" "frame_length (int n) masked = Some [(if masked then 0x80 else 0) OR x]" "unat x = n"
  then have "b = (if masked then 0x80 else 0) OR x" "l = []" using assms(3) by auto
  with x assms(4) low_byte [of x] show ?thesis by (auto simp: read_length_def)
next
  fix c d assume x: "frame_length (int n) masked = Some [(if masked then 0x80 else 0) OR 126, c, d]" "net_order [c, d] = n"
  then have b: "b = (if masked then 0x80 else 0) OR 126" "l = [c, d]" using assms(3) by auto
  with read_exact_ok [OF assms(1), of s "[c, d]" rest 2] assms(4) obtain s' where
    "read_exact net fd 2 s = (Some [c, d], s')" "avail s' rest" by auto
  with x b show ?thesis by (cases masked) (auto simp: read_length_def)
qed

lemma read_payload_ok:
  assumes "delivers net fd avail" "avail s (data @ rest)" "data \<noteq> []"
  shows "\<exists>s'. read_payload net fd (length data) [] s = (Some data, s') \<and> avail s' rest"
proof -
  from delivers_recv [OF assms] obtain s' where "net_recv net fd (length data) s = (Received data, s')" "avail s' rest" by blast
  then show ?thesis using assms(3) by (simp add: read_payload.simps)
qed

lemma read_frame_ok:
  assumes "delivers net fd avail" "avail s (frame_bytes masked key data @ rest)" "length key = 4" "length data \<le> 65535"
  shows "\<exists>s'. read_frame net fd s = Some (Frame \<lparr>fr_opcode = 1, fr_length = length data,
      fr_payload = (if data = [] then None else Some (map Some data))\<rparr>, s') \<and> avail s' rest"
proof -
  obtain b l where l: "frame_length (int (length data)) masked = Some (b # l)"
    using frame_length_cases [OF assms(4), of masked] by metis
  let ?body = "if masked then xor_mask key data else data"
  let ?tail = "(if masked then key else []) @ ?body @ rest"
  have "avail s ([0x81, b] @ l @ ?tail)" using assms(2) l by (cases masked) (simp_all add: frame_bytes_def)
  from delivers_recv [OF assms(1) this] obtain s1 where s1: "net_recv net fd 2 s = (Received [0x81, b], s1)" "avail s1 (l @ ?tail)"
    by (auto simp: numeral_2_eq_2)
  from read_length_ok [OF assms(1,4) l s1(2)] obtain s2 where s2: "b AND 0x80 \<noteq> 0 \<longleftrightarrow> masked"
    "read_length net fd (unat (b AND 0x7F)) s1 = (Some (length data), s2)" "avail s2 ?tail" by blast
  obtain s3 where s3: "(if masked then read_exact net fd 4 s2 else (Some [0, 0, 0, 0], s2)) =
      (Some (if masked then key else [0, 0, 0, 0]), s3)" "avail s3 (?body @ rest)"
  proof (cases masked)
    case True
    with read_exact_ok [OF assms(1), of s2 key "?body @ rest" 4] s2(3) assms(3) that show ?thesis by auto
  qed (use s2 that in auto)
  have lt: "length data < MAX_PAYLOAD" using assms(4) by (simp add: MAX_PAYLOAD_def)
  show ?thesis
  proof (cases "data = []")
    case True
    then show ?thesis using s1 s2 s3 by (cases masked) (simp_all add: read_frame_def Let_def xor_mask_def)
  next
    case False
    then have "?body \<noteq> []" by (auto simp: xor_mask_def)
    from read_payload_ok [OF assms(1) s3(2) this] obtain s4 where s4:
      "read_payload net fd (length data) [] s3 = (Some ?body, s4)" "avail s4 rest" by (cases masked) auto
    have "unmask key (map Some (xor_mask key data)) = Some (map Some data)"
      by (simp add: unmask_def xor_mask_twice [OF assms(3)] o_def)
    with False s1 s2 s3 s4 lt show ?thesis by (cases masked) (simp_all add: read_frame_def Let_def)
  qed
qed

lemma byte_char [simp]: "char_of_byte (byte_of c) = c"
  by (simp add: byte_of_def char_of_byte_def unat_of_nat)

text \<open>C16. A text of 1 to 65535 bytes that one side sends, masked or not, over a connection that takes
  at least a byte at every call, arrives at the other side as one text frame with the same bytes, whatever
  the mask and however the network splits what is sent, when all of the frame has arrived by the time it
  is read; what follows it on the connection is left there.\<close>

theorem ws_frame_roundtrip:
  assumes "accepts net fd sent" "delivers net' fd' avail" "text \<noteq> []" "length text \<le> 65535"
  shows "\<exists>s' frame. ws_send_frame net fd (map byte_of text) (int (length text)) masked s = Some (0, s') \<and>
    sent s' = sent s @ frame \<and>
    (\<forall>t rest h. avail t (frame @ rest) \<longrightarrow> (\<exists>t' f. read_frame net' fd' t = Some (Frame f, t') \<and> avail t' rest \<and>
       fr_opcode f = 1 \<and> payload_string h f = Some (VString (fst (new_str h text)), snd (new_str h text))))"
proof -
  let ?data = "map byte_of text"
  have len: "length ?data \<le> 65535" "length ?data = length text" using assms(4) by simp_all
  from send_frame_ok [OF assms(1) len(1)] obtain key s' where s': "length key = 4"
    "ws_send_frame net fd ?data (int (length text)) masked s = Some (0, s')" "sent s' = sent s @ frame_bytes masked key ?data"
    unfolding len(2) by blast
  let ?f = "\<lparr>fr_opcode = 1, fr_length = length text, fr_payload = Some (map Some ?data)\<rparr>"
  have "sint (word_of_nat (length text) :: 32 word) = int (length text)"
    using assms(4) by (simp add: signed_of_nat signed_take_bit_int_eq_self)
  then have "payload_string h ?f = Some (VString (fst (new_str h text)), snd (new_str h text))" for h
    by (simp add: payload_string_def image_iff case_prod_beta o_def)
  then show ?thesis using read_frame_ok [OF assms(2) _ s'(1) len(1)] s' assms(3)
    by (intro exI [of _ s'] exI [of _ "frame_bytes masked key ?data"]) fastforce
qed

text \<open>A connection that is a queue of bytes.\<close>

definition pipe :: "8 word list net" where
  "pipe = \<lparr>net_recv = (\<lambda>fd n s. if s = [] then (NotReady, s) else (Received (take n s), drop n s)),
     net_send = (\<lambda>fd bs s. (int (length bs), s @ bs)), net_close = (\<lambda>fd s. s),
     net_connect = (\<lambda>host port s. (Connected 1, s)), net_rand = (\<lambda>s. (7, s)), net_sleep = (\<lambda>s. s)\<rparr>"

lemma pipe_works: "accepts pipe fd (\<lambda>s. s)" "delivers pipe fd (=)"
proof -
  have "\<exists>n s'. net_send pipe fd data s = (int n, s') \<and> 0 < n \<and> n \<le> length data \<and> s' = s @ take n data" if "data \<noteq> []" for s data
    using that by (intro exI [of _ "length data"]) (simp add: pipe_def)
  then show "accepts pipe fd (\<lambda>s. s)" by (simp add: accepts_def) (simp add: pipe_def)
  show "delivers pipe fd (=)" by (auto simp: delivers_def pipe_def)
qed

theorem ws_frame_roundtrip_witness:
  "\<exists>s' frame. ws_send_frame pipe 3 (map byte_of ''hello'') 5 True [] = Some (0, s') \<and> s' = [] @ frame \<and>
    (\<forall>t rest h. t = frame @ rest \<longrightarrow> (\<exists>t' f. read_frame pipe 4 t = Some (Frame f, t') \<and> t' = rest \<and>
       fr_opcode f = 1 \<and> payload_string h f = Some (VString (fst (new_str h ''hello'')), snd (new_str h ''hello''))))"
  using ws_frame_roundtrip [OF pipe_works, of "''hello''" 3 True "[]" 4] by simp

text \<open>Sending a text of more than 65535 bytes is undefined: its length is shifted by more bits than an
  int has.\<close>

theorem ws_send_long_undefined:
  assumes "65535 < len"
  shows "ws_send_frame net fd data len masked s = None"
proof -
  have "[0..7] = 0 # [1..7::int]" by (simp add: upto_rec1)
  then have "frame_length len masked = None" using assms by (simp add: frame_length_def c_shr_def Let_def)
  then show ?thesis by (simp add: ws_send_frame_def)
qed

theorem ws_send_long_undefined_witness:
  "ws_send_frame pipe 3 (replicate 65536 0) 65536 False [] = None"
  by (rule ws_send_long_undefined) simp

text \<open>The payload of a text frame of a mebibyte or more is not read: an empty message is reported,
  and the bytes of the payload are taken for the frames that follow.\<close>

theorem ws_long_frame_desync:
  assumes "delivers net fd avail" "avail s ([0x81, 127] @ len @ payload)" "length len = 8" "MAX_PAYLOAD \<le> net_order len"
  shows "\<exists>s' f. read_frame net fd s = Some (Frame f, s') \<and> avail s' payload \<and> fr_opcode f = 1 \<and> fr_payload f = None"
proof -
  from delivers_recv [OF assms(1,2)] obtain s1 where s1: "net_recv net fd 2 s = (Received [0x81, 127], s1)" "avail s1 (len @ payload)"
    by (auto simp: numeral_2_eq_2)
  from read_exact_ok [OF assms(1) s1(2) assms(3)] obtain s2 where s2: "read_exact net fd 8 s1 = (Some len, s2)"
    "avail s2 payload" by auto
  have "MAX_PAYLOAD \<le> net_order len \<longleftrightarrow> \<not> net_order len < MAX_PAYLOAD" by auto
  with s1 s2 assms(4) show ?thesis by (simp add: read_frame_def read_length_def Let_def)
qed

theorem ws_long_frame_desync_witness:
  "\<exists>s' f. read_frame pipe 3 ([0x81, 127] @ [0, 0, 0, 0, 0, 16, 0, 0] @ [0x88, 0]) = Some (Frame f, s') \<and> s' = [0x88, 0] \<and>
     fr_opcode f = 1 \<and> fr_payload f = None"
  using ws_long_frame_desync [OF pipe_works(2), of "[0x81, 127] @ [0, 0, 0, 0, 0, 16, 0, 0] @ [0x88, 0]" "[0, 0, 0, 0, 0, 16, 0, 0]"]
  by (simp add: net_order_def MAX_PAYLOAD_def)

end
