(* ===== verification/Ts_Ws_State.thy ===== *)
theory Ts_Ws_State
  imports Ts_Websocket
begin

text \<open>
  The life of a WebSocket: its state only goes forward, through every operation of \<^verbatim>\<open>websocket.c\<close> and
  whatever the handlers do, and the list of all sockets stays whole.
\<close>

subsection \<open>What every step keeps\<close>

text \<open>A client moves on from connecting to open, and from anywhere to closed; a socket may become a server.\<close>

definition state_step :: "int \<Rightarrow> int \<Rightarrow> bool" where
  "state_step a b \<longleftrightarrow> a = b \<or> b = WS_CLOSED \<or> a = WS_CONNECTING \<and> b = WS_OPEN"

definition socket_step :: "websocket \<Rightarrow> websocket \<Rightarrow> bool" where
  "socket_step w w' \<longleftrightarrow> (w_is_server w \<longrightarrow> w_is_server w') \<and> (\<not> w_is_server w' \<longrightarrow> state_step (w_readyState w) (w_readyState w')) \<and>
     w_next w' = w_next w"

definition ws_forward :: "'n wss \<Rightarrow> 'n wss \<Rightarrow> bool" where
  "ws_forward s s' \<longleftrightarrow> (\<forall>p w. ws_socks s p = Some w \<longrightarrow> (\<exists>w'. ws_socks s' p = Some w' \<and> socket_step w w'))"

fun ws_chain :: "(addr \<Rightarrow> websocket option) \<Rightarrow> addr \<Rightarrow> addr list \<Rightarrow> bool" where
  "ws_chain m p [] \<longleftrightarrow> p = 0"
| "ws_chain m p (a # as) \<longleftrightarrow> p = a \<and> a \<noteq> 0 \<and> (\<exists>w. m a = Some w \<and> ws_chain m (w_next w) as)"

definition ws_ok :: "'n wss \<Rightarrow> bool" where
  "ws_ok s \<longleftrightarrow> (\<exists>ps. ws_chain (ws_socks s) (g_ws_list s) ps \<and> distinct ps \<and> set ps = dom (ws_socks s) \<and>
     g_ws_count s = int (length ps))"

definition ws_keeps :: "'n wss \<Rightarrow> 'n wss \<Rightarrow> bool" where
  "ws_keeps s s' \<longleftrightarrow> ws_forward s s' \<and> (ws_ok s \<longrightarrow> ws_ok s')"

definition code_forward :: "'n ws_code \<Rightarrow> bool" where
  "code_forward call \<longleftrightarrow> (\<forall>f args s s'. call f args s = Some s' \<longrightarrow> ws_keeps s s')"

lemma socket_step_refl [simp]: "socket_step w w"
  by (simp add: socket_step_def state_step_def)

lemma socket_step_trans: "socket_step a b \<Longrightarrow> socket_step b c \<Longrightarrow> socket_step a c"
  by (auto simp: socket_step_def state_step_def WS_CLOSED_def WS_CONNECTING_def WS_OPEN_def)

lemma ws_keeps_trans: "ws_keeps a b \<Longrightarrow> ws_keeps b c \<Longrightarrow> ws_keeps a c"
  unfolding ws_keeps_def ws_forward_def by (meson socket_step_trans)

text \<open>The heap and the network do not matter.\<close>

lemma keeps_same [intro]:
  "ws_socks s' = ws_socks s \<Longrightarrow> g_ws_list s' = g_ws_list s \<Longrightarrow> g_ws_count s' = g_ws_count s \<Longrightarrow> ws_keeps s s'"
  by (auto simp: ws_keeps_def ws_forward_def ws_ok_def)

lemma chain_set:
  "m p = Some w \<Longrightarrow> w_next w' = w_next w \<Longrightarrow> ws_chain (m(p \<mapsto> w')) a ps = ws_chain m a ps"
  by (induction ps arbitrary: a) auto

lemma keeps_set:
  assumes "set_ws p f s = Some s'" "\<And>w. ws_socks s p = Some w \<Longrightarrow> socket_step w (f w)"
  shows "ws_keeps s s'"
proof -
  from assms(1) obtain w where w: "ws_socks s p = Some w" "s' = s\<lparr>ws_socks := (ws_socks s)(p \<mapsto> f w)\<rparr>"
    by (auto simp: set_ws_def bind_eq_Some_conv)
  have "ws_forward s s'" using w assms(2) [OF w(1)] by (auto simp: ws_forward_def)
  moreover have "insert p (dom (ws_socks s)) = dom (ws_socks s)" using w by auto
  ultimately show ?thesis
    using w chain_set [of "ws_socks s" p w "f w"] assms(2) [OF w(1)] by (simp add: ws_keeps_def ws_ok_def socket_step_def)
qed

lemma keeps_upd [simp]:
  "ws_keeps s0 (s\<lparr>ws_heap := h\<rparr>) = ws_keeps s0 s" "ws_keeps s0 (s\<lparr>ws_net := n\<rparr>) = ws_keeps s0 s"
  "ws_keeps s0 (s\<lparr>g_ws_polling := b\<rparr>) = ws_keeps s0 s"
  by (simp_all add: ws_keeps_def ws_forward_def ws_ok_def)

lemma ws_keeps_refl [simp]: "ws_keeps s s"
  by (simp add: ws_keeps_def ws_forward_def)

text \<open>An operation that may fail is safe when all its results keep what is kept since \<open>s0\<close>.\<close>

definition ws_safe :: "'n wss \<Rightarrow> 'n wss option \<Rightarrow> bool" where
  "ws_safe s0 r \<longleftrightarrow> (\<forall>s'. r = Some s' \<longrightarrow> ws_keeps s0 s')"

named_theorems safe_rules

lemma safe_simps [simp]: "ws_safe s0 None" "ws_safe s0 (Some s) \<longleftrightarrow> ws_keeps s0 s"
  by (simp_all add: ws_safe_def)

lemma safe_if [safe_rules]: "(b \<Longrightarrow> ws_safe s0 x) \<Longrightarrow> (\<not> b \<Longrightarrow> ws_safe s0 y) \<Longrightarrow> ws_safe s0 (if b then x else y)"
  by simp

lemma safe_pair [safe_rules]: "(\<And>x h. r = Some (x, h) \<Longrightarrow> ws_safe s0 (g x h)) \<Longrightarrow> ws_safe s0 (r \<bind> (\<lambda>(x, h). g x h))"
  by (cases r) auto

lemma safe_val: "(\<And>x. r = Some x \<Longrightarrow> ws_safe s0 (g x)) \<Longrightarrow> ws_safe s0 (r \<bind> g)"
  by (cases r) simp_all

lemma safe_reads [safe_rules]:
  "(\<And>w. ws_socks s p = Some w \<Longrightarrow> ws_safe s0 (f w)) \<Longrightarrow> ws_safe s0 (ws_socks s p \<bind> f)"
  "(\<And>v. map_get h m k = Some v \<Longrightarrow> ws_safe s0 (g v)) \<Longrightarrow> ws_safe s0 (map_get h m k \<bind> g)"
  "(\<And>t. str_data h q = Some t \<Longrightarrow> ws_safe s0 (k' t)) \<Longrightarrow> ws_safe s0 (str_data h q \<bind> k')"
  by (rule safe_val, assumption)+

lemma safe_step [safe_rules]: "ws_safe s0 r \<Longrightarrow> (\<And>s1. r = Some s1 \<Longrightarrow> ws_keeps s0 s1 \<Longrightarrow> ws_safe s0 (g s1)) \<Longrightarrow> ws_safe s0 (r \<bind> g)"
  by (cases r) simp_all

lemma safe_set:
  assumes "ws_keeps s0 s" "\<And>w. ws_socks s p = Some w \<Longrightarrow> socket_step w (f w)"
  shows "ws_safe s0 (set_ws p f s)"
  using keeps_set [OF _ assms(2)] ws_keeps_trans [OF assms(1)] by (auto simp: ws_safe_def)

subsection \<open>Events\<close>

lemma set_ws_reads:
  "set_ws p f s = Some s' \<Longrightarrow> \<exists>w. ws_socks s p = Some w \<and> ws_socks s' p = Some (f w)"
  by (auto simp: set_ws_def bind_eq_Some_conv)

lemma code_safe: "code_forward call \<Longrightarrow> ws_keeps s0 s \<Longrightarrow> ws_safe s0 (call f args s)"
  unfolding code_forward_def ws_safe_def using ws_keeps_trans by blast

lemma call_handler_safe [safe_rules]: "code_forward call \<Longrightarrow> ws_keeps s0 s \<Longrightarrow> ws_safe s0 (call_handler call fn ev s)"
  by (auto simp: call_handler_def code_safe intro!: safe_val split: "tsvalue.splits" object.splits)

lemma listeners_loop_safe [safe_rules]:
  assumes "code_forward call" "ws_keeps s0 s"
  shows "ws_safe s0 (listeners_loop call arr ev i s)"
proof -
  let ?P = "\<lambda>call (arr :: addr) (ev :: tsvalue) (i :: int) s s'. code_forward call \<longrightarrow> ws_keeps s0 s \<longrightarrow> ws_keeps s0 s'"
  have "?P call arr ev i s s'" if "listeners_loop call arr ev i s = Some s'" for s'
  proof (rule listeners_loop.raw_induct [OF _ that, where P = ?P], intro impI, goal_cases)
    case (1 loop call arr ev i s s')
    then have "ws_keeps s0 s \<Longrightarrow> ws_safe s0 (loop call arr ev n s)" for arr ev n s by (auto simp: ws_safe_def)
    with 1(3,4) have "ws_safe s0 (do {
        a \<leftarrow> arrs (ws_heap s) arr;
        if i < a_length a then do {
          fn \<leftarrow> ts_array_get a i; s1 \<leftarrow> call_handler call fn ev s; n \<leftarrow> ck32 (i + 1); loop call arr ev n s1 }
        else Some s })"
      by (intro safe_val safe_if safe_step call_handler_safe) simp_all
    with 1(2) show ?case by (simp add: ws_safe_def)
  qed
  with assms show ?thesis by (simp add: ws_safe_def)
qed

lemma fire_listeners_safe [safe_rules]: "code_forward call \<Longrightarrow> ws_keeps s0 s \<Longrightarrow> ws_safe s0 (ws_fire_listeners call p key ev s)"
  by (auto simp: ws_fire_listeners_def listeners_loop_safe intro!: safe_val split: "tsvalue.splits")

lemma fire_event_safe [safe_rules]:
  "code_forward call \<Longrightarrow> ws_keeps s0 s \<Longrightarrow> ws_safe s0 (ws_fire_event call p event ev s)"
  unfolding ws_fire_event_def by (intro safe_rules) simp_all

subsection \<open>Frames and the poll\<close>

lemma closed_step [simp]: "socket_step w (w\<lparr>w_readyState := WS_CLOSED\<rparr>)" "socket_step w (w\<lparr>w_readyState := WS_CLOSED, w_fd := k\<rparr>)"
  "socket_step w (w\<lparr>w_fd := k\<rparr>)"
  by (simp_all add: socket_step_def state_step_def)

lemma close_safe [safe_rules]:
  "ws_keeps s0 s \<Longrightarrow> ws_safe s0 (drop_socket net p WS_CLOSED s)" "ws_keeps s0 s \<Longrightarrow> ws_safe s0 (ws_state p WS_CLOSED s)"
  unfolding drop_socket_def ws_state_def by (intro safe_reads safe_set; simp)+

lemma fire_message_safe [safe_rules]: "code_forward call \<Longrightarrow> ws_keeps s0 s \<Longrightarrow> ws_safe s0 (fire_message call p data s)"
  unfolding fire_message_def by (intro safe_rules) simp_all

lemma fire_error_safe [safe_rules]: "code_forward call \<Longrightarrow> ws_keeps s0 s \<Longrightarrow> ws_safe s0 (fire_error call p msg s)"
  unfolding fire_error_def by (intro safe_rules) simp_all

lemma handle_frame_safe [safe_rules]:
  "code_forward call \<Longrightarrow> ws_keeps s0 s \<Longrightarrow> ws_safe s0 (handle_frame net call p f s)"
  unfolding handle_frame_def by (intro safe_rules safe_set) simp_all

lemma recv_frames_safe [safe_rules]:
  "code_forward call \<Longrightarrow> ws_keeps s0 s \<Longrightarrow> ws_safe s0 (ws_recv_frames net call p s)"
  unfolding ws_recv_frames_def
  by (intro safe_rules) (auto split: frame_result.splits simp: Let_def intro!: safe_rules)

lemma open_step [simp]:
  "w_readyState w = WS_CONNECTING \<Longrightarrow> socket_step w (w\<lparr>w_readyState := WS_OPEN, w_handshake_done := b\<rparr>)"
  "w_readyState w = WS_CONNECTING \<Longrightarrow> socket_step w (w\<lparr>w_readyState := WS_CONNECTING\<rparr>)"
  "socket_step (w\<lparr>w_readyState := WS_CONNECTING\<rparr>) (w\<lparr>w_readyState := WS_OPEN, w_handshake_done := b\<rparr>)"
  by (simp_all add: socket_step_def state_step_def)

lemma handshake_safe:
  assumes "code_forward call" "ws_keeps s0 s" "ws_socks s p = Some w" "w_readyState w = WS_CONNECTING"
  shows "ws_safe s0 (ws_handshake net call p host path sock s)"
proof -
  have open_it: "ws_safe s0 (set_ws p (\<lambda>w. w\<lparr>w_readyState := WS_OPEN, w_handshake_done := True\<rparr>) (t\<lparr>ws_net := n\<rparr>))"
    if "ws_keeps s0 t" "ws_state p WS_CONNECTING t' = Some t" for t t' n
    using that set_ws_reads [OF that(2) [unfolded ws_state_def]] by (intro safe_set) auto
  have conn: "ws_safe s0 (ws_state p WS_CONNECTING t)" if "ws_keeps s0 t" "set_ws p (\<lambda>w. w\<lparr>w_fd := sock\<rparr>) s = Some t" for t
    unfolding ws_state_def using that set_ws_reads [OF that(2)] assms(3,4) by (intro safe_set) auto
  show ?thesis
    unfolding ws_handshake_def using assms(1,2)
    by (auto simp: Let_def case_prod_beta intro!: safe_if safe_step [OF safe_set] safe_step [OF conn] safe_step [OF close_safe(1)]
        safe_step [OF close_safe(2)] safe_step [OF open_it] fire_error_safe fire_event_safe split: answer.splits)
qed

lemma client_connect_safe:
  assumes "code_forward call" "ws_keeps s0 s" "ws_socks s p = Some w" "w_readyState w = WS_CONNECTING"
  shows "ws_safe s0 (ws_client_connect net call p s)"
proof -
  have "ws_safe s0 (ws_handshake net call p host path sock (s\<lparr>ws_net := n\<rparr>))" for host path sock n
    using assms by (intro handshake_safe) simp_all
  then show ?thesis
    unfolding ws_client_connect_def using assms(1,2)
    by (auto intro!: safe_reads safe_val [where r = "ws_target _"] safe_step [OF close_safe(2)] close_safe(2) fire_error_safe
        split: option.splits prod.splits connect_result.splits)
qed

lemma poll_one_safe:
  assumes "code_forward call" "ws_keeps s0 s" "ws_socks s p = Some w"
  shows "ws_safe s0 (poll_one net call p w s)"
proof -
  have "w_readyState w = WS_CONNECTING \<Longrightarrow>
      ws_safe s0 (set_ws p (\<lambda>w. w\<lparr>w_readyState := WS_OPEN, w_handshake_done := True\<rparr>) (s\<lparr>ws_net := n\<rparr>))" for n
    using assms(2,3) by (intro safe_set) auto
  then show ?thesis
    unfolding poll_one_def using assms
    by (auto simp: Let_def intro!: client_connect_safe recv_frames_safe safe_step fire_event_safe close_safe(1)
        split: recv_result.splits prod.splits)
qed

lemma poll_loop_safe:
  assumes "code_forward call" "ws_keeps s0 s"
  shows "ws_safe s0 (ws_poll_loop net call p s)"
proof -
  let ?P = "\<lambda>(net :: 'a net) call (p :: addr) s s'. code_forward call \<longrightarrow> ws_keeps s0 s \<longrightarrow> ws_keeps s0 s'"
  have "?P net call p s s'" if "ws_poll_loop net call p s = Some s'" for s'
  proof (rule ws_poll_loop.raw_induct [OF _ that, where P = ?P], intro impI, goal_cases)
    case (1 loop net call p s s')
    then have "ws_keeps s0 s \<Longrightarrow> ws_safe s0 (loop net call p s)" for p s by (auto simp: ws_safe_def)
    with 1(3,4) have "ws_safe s0 (if p = 0 then Some s
      else do { w \<leftarrow> ws_socks s p; s1 \<leftarrow> poll_one net call p w s; loop net call (w_next w) s1 })"
      by (intro safe_if safe_reads safe_step poll_one_safe) simp_all
    with 1(2) show ?case by (simp add: ws_safe_def)
  qed
  with assms show ?thesis by (simp add: ws_safe_def)
qed

lemma poll_safe: "code_forward call \<Longrightarrow> ws_keeps s0 s \<Longrightarrow> ws_safe s0 (ts_websocket_poll net call s)"
  unfolding ts_websocket_poll_def by (intro safe_if safe_step poll_loop_safe) simp_all

subsection \<open>The operations\<close>

lemma upgrade_safe:
  assumes "code_forward call" "ws_keeps s0 s"
  shows "ws_safe s0 (ts_websocket_http_upgrade net call fd fr req s)"
proof -
  have a: "ws_safe s0 (ws_accept net call fd fr req key s)" if "ws_keeps s0 s" for key s
    unfolding ws_accept_def Let_def using assms(1) that
    by (intro safe_pair safe_val [where r = "proto_header _ _ _"] safe_reads(3) safe_step [OF safe_set] fire_event_safe)
      (simp_all add: socket_step_def)
  show ?thesis unfolding ts_websocket_http_upgrade_def using assms a
    by (auto intro!: safe_reads safe_pair split: option.splits)
qed

lemma api_safe:
  assumes "ws_keeps s0 s"
  shows "ws_safe s0 (ts_websocket_send net v d s)" "ws_safe s0 (ts_websocket_set_handler v name fn s)"
    "ws_safe s0 (ts_websocket_add_event_listener v name fn s)" "ws_safe s0 (ts_websocket_remove_event_listener v name fn s)"
    "code_forward call \<Longrightarrow> ws_safe s0 (ts_websocket_close net call v s)"
  subgoal unfolding ts_websocket_send_def using assms by (auto intro!: safe_reads safe_pair safe_val [where r = "if _ then _ else _"])
  subgoal unfolding ts_websocket_set_handler_def using assms
    by (auto intro!: safe_reads safe_set simp: socket_step_def set_handler_def state_step_def)
  subgoal unfolding ts_websocket_add_event_listener_def using assms by (auto intro!: safe_reads safe_val)
  subgoal unfolding ts_websocket_remove_event_listener_def Let_def using assms
    by (auto intro!: safe_reads safe_val split: "tsvalue.splits" prod.splits)
  subgoal unfolding ts_websocket_close_def Let_def using assms
    by (auto intro!: safe_reads safe_step [OF close_safe(1)] fire_event_safe)
  done

text \<open>A new socket gets an address that has not been handed out.\<close>

definition fresh_addrs :: "'n wss \<Rightarrow> bool" where
  "fresh_addrs s \<longleftrightarrow> 0 < nxt (ws_heap s) \<and> (\<forall>p \<ge> nxt (ws_heap s). ws_socks s p = None)"

lemma chain_new: "p \<notin> set ps \<Longrightarrow> ws_chain (m(p \<mapsto> w)) a ps = ws_chain m a ps"
  by (induction ps arbitrary: a) auto

lemma new_ws_keeps:
  assumes "new_ws server st url s = Some (v, s')" "fresh_addrs s"
  shows "ws_keeps s s'"
proof -
  let ?p = "nxt (ws_heap s)"
  from assms(1) obtain w where w: "ws_socks s' = (ws_socks s)(?p \<mapsto> w)" "w_next w = g_ws_list s" "g_ws_list s' = ?p"
    "g_ws_count s' = g_ws_count s + 1"
    by (auto simp: new_ws_def ws_list_add_def set_ws_def bind_eq_Some_conv case_prod_beta Let_def split: if_splits)
  have f: "ws_socks s ?p = None" "0 < ?p" using assms(2) by (simp_all add: fresh_addrs_def)
  have "ws_forward s s'" using f(1) by (auto simp: ws_forward_def w(1))
  moreover have "ws_ok s'" if "ws_ok s"
  proof -
    from that obtain ps where ps: "ws_chain (ws_socks s) (g_ws_list s) ps" "distinct ps" "set ps = dom (ws_socks s)"
      "g_ws_count s = int (length ps)" by (auto simp: ws_ok_def)
    have "?p \<notin> set ps" using ps(3) f(1) by auto
    with ps f(2) w show ?thesis by (auto simp: ws_ok_def chain_new intro!: exI [of _ "?p # ps"])
  qed
  ultimately show ?thesis by (simp add: ws_keeps_def)
qed

lemma new_safe:
  assumes "fresh_addrs s"
  shows "ts_websocket_new url s = Some (v, s') \<Longrightarrow> ws_keeps s s'" "ts_websocket_server_new s = Some (v, s') \<Longrightarrow> ws_keeps s s'"
proof -
  have k: "ws_keeps s s'" if "ts_string_new (ws_heap s) t = Some (u, h)" "new_ws server st u (s\<lparr>ws_heap := h\<rparr>) = Some (v, s')" for server st t u h
  proof -
    have "fresh_addrs (s\<lparr>ws_heap := h\<rparr>)" using that(1) assms
      by (auto simp: fresh_addrs_def ts_string_new_def ts_string_new_len_def bind_eq_Some_conv new_str_def Let_def split: if_splits)
    from new_ws_keeps [OF that(2) this] show ?thesis by (simp add: ws_keeps_def ws_forward_def ws_ok_def)
  qed
  show "ws_keeps s s'" if "ts_websocket_new url s = Some (v, s')"
    using that k by (auto simp: ts_websocket_new_def bind_eq_Some_conv)
  show "ws_keeps s s'" if "ts_websocket_server_new s = Some (v, s')"
    using that k [of "[]"] by (auto simp: ts_websocket_server_new_def bind_eq_Some_conv split: prod.splits)
qed

inductive ws_step :: "'n net \<Rightarrow> 'n ws_code \<Rightarrow> 'n wss \<Rightarrow> 'n wss \<Rightarrow> bool" for net call where
  new: "fresh_addrs s \<Longrightarrow> ts_websocket_new url s = Some (v, s') \<Longrightarrow> ws_step net call s s'"
| server_new: "fresh_addrs s \<Longrightarrow> ts_websocket_server_new s = Some (v, s') \<Longrightarrow> ws_step net call s s'"
| send: "ts_websocket_send net v d s = Some s' \<Longrightarrow> ws_step net call s s'"
| close: "ts_websocket_close net call v s = Some s' \<Longrightarrow> ws_step net call s s'"
| set_handler: "ts_websocket_set_handler v name fn s = Some s' \<Longrightarrow> ws_step net call s s'"
| add_listener: "ts_websocket_add_event_listener v name fn s = Some s' \<Longrightarrow> ws_step net call s s'"
| remove_listener: "ts_websocket_remove_event_listener v name fn s = Some s' \<Longrightarrow> ws_step net call s s'"
| upgrade: "ts_websocket_http_upgrade net call fd fr req s = Some s' \<Longrightarrow> ws_step net call s s'"
| poll: "ts_websocket_poll net call s = Some s' \<Longrightarrow> ws_step net call s s'"

lemma ws_step_keeps:
  assumes "code_forward call" "ws_step net call s s'" shows "ws_keeps s s'"
  using assms(2)
proof cases
  case (new url v)
  then show ?thesis by (rule new_safe(1))
next
  case (server_new v)
  then show ?thesis by (rule new_safe(2))
qed (use assms(1) api_safe [of s s] upgrade_safe [of call s s] poll_safe [of call s s] in \<open>auto simp: ws_safe_def\<close>)

lemma ws_run_keeps: "code_forward call \<Longrightarrow> (ws_step net call)\<^sup>*\<^sup>* s s' \<Longrightarrow> ws_keeps s s'"
proof (rotate_tac, induction rule: rtranclp_induct)
  case (step t u)
  then show ?case using ws_step_keeps ws_keeps_trans by blast
qed simp

subsection \<open>Properties\<close>


text \<open>A program whose socket connects to a host that is not there.\<close>

definition no_net :: "unit net" where
  "no_net = \<lparr>net_recv = (\<lambda>fd n s. (NotReady, s)), net_send = (\<lambda>fd bs s. (- 1, s)), net_close = (\<lambda>fd s. s),
     net_connect = (\<lambda>host port s. (NoHost, s)), net_rand = (\<lambda>s. (0, s)), net_sleep = (\<lambda>s. s)\<rparr>"

definition ws_start :: "unit wss" where
  "ws_start = \<lparr>ws_heap = empty_heap, ws_socks = Map.empty, g_ws_list = 0, g_ws_count = 0, g_ws_polling = False, ws_net = ()\<rparr>"

lemma ws_start_ok: "ws_ok ws_start" "fresh_addrs ws_start"
  by (auto simp: ws_ok_def ws_start_def fresh_addrs_def empty_heap_def intro!: exI [of _ "[]"])


lemma pending_from_chain:
  "ws_chain (ws_socks s) p ps \<Longrightarrow> pending_from p s = Some (\<exists>a \<in> set ps. \<exists>w. ws_socks s a = Some w \<and>
     (w_readyState w = WS_CONNECTING \<or> (w_readyState w = WS_OPEN \<or> w_readyState w = WS_CLOSING) \<and> w_fd w \<ge> 0))"
proof (induction ps arbitrary: p)
  case Nil
  then show ?case by (simp add: pending_from.simps)
next
  case (Cons a ps)
  then obtain w where w: "p = a" "a \<noteq> 0" "ws_socks s a = Some w" "ws_chain (ws_socks s) (w_next w) ps" by auto
  with Cons.IH [OF w(4)] show ?case by (auto simp: pending_from.simps [of a s])
qed

text \<open>\<^verbatim>\<open>ts_websocket_pending\<close> always answers, and says that something is pending exactly when some socket
  is connecting, or open or closing with a connection.\<close>

theorem ws_pending_exact:
  assumes "ws_ok s"
  shows "ts_websocket_pending s = Some (\<exists>p w. ws_socks s p = Some w \<and>
     (w_readyState w = WS_CONNECTING \<or> (w_readyState w = WS_OPEN \<or> w_readyState w = WS_CLOSING) \<and> w_fd w \<ge> 0))"
proof -
  from assms obtain ps where "ws_chain (ws_socks s) (g_ws_list s) ps" "set ps = dom (ws_socks s)" by (auto simp: ws_ok_def)
  with pending_from_chain [OF this(1)] show ?thesis by (auto simp: ts_websocket_pending_def dom_def)
qed

theorem ws_pending_exact_witness:
  "ts_websocket_pending ws_start = Some (\<exists>p w. ws_socks ws_start p = Some w \<and>
     (w_readyState w = WS_CONNECTING \<or> (w_readyState w = WS_OPEN \<or> w_readyState w = WS_CLOSING) \<and> w_fd w \<ge> 0))"
  by (rule ws_pending_exact) (rule ws_start_ok)

end
