(* ===== verification/Ts_Fetch.thy ===== *)
theory Ts_Fetch
  imports Ts_Fifo Ts_Objmap Ts_Json
begin

text \<open>
  The \<^verbatim>\<open>fetch\<close> part of \<^verbatim>\<open>runtime.c\<close>, in its libcurl branch: the response object, the queue of body
  chunks that the transfer fills, the readers and the operations that drain the body. libcurl is a
  parameter \<open>curl\<close> on a state of its own.
\<close>

subsection \<open>libcurl\<close>

text \<open>
  What the options set on an easy handle say. \<open>cu_start\<close> stands for the calls of
  \<^verbatim>\<open>curl_easy_setopt\<close> with these values and for \<^verbatim>\<open>curl_multi_add_handle\<close>. \<open>cu_perform\<close> returns whether the
  code is \<^verbatim>\<open>CURLM_OK\<close>, the number of running transfers and the callbacks it made, in their order;
  \<open>cu_info\<close> the messages that wait, each with whether it is \<^verbatim>\<open>CURLMSG_DONE\<close>.
\<close>

datatype verb = DefaultVerb | Post | NoBody | CustomVerb string

record request =
  rq_url :: string
  rq_verb :: verb
  rq_body :: "string option"
  rq_headers :: "string list"

datatype delivery = HeaderLine string | BodyPiece string

record 'n curl =
  cu_easy_init :: "'n \<Rightarrow> int \<times> 'n"
  cu_multi_init :: "'n \<Rightarrow> int \<times> 'n"
  cu_start :: "int \<Rightarrow> int \<Rightarrow> request \<Rightarrow> 'n \<Rightarrow> 'n"
  cu_perform :: "int \<Rightarrow> 'n \<Rightarrow> bool \<times> int \<times> delivery list \<times> 'n"
  cu_wait :: "int \<Rightarrow> int \<Rightarrow> 'n \<Rightarrow> 'n"
  cu_info :: "int \<Rightarrow> 'n \<Rightarrow> bool list \<times> 'n"
  cu_status :: "int \<Rightarrow> 'n \<Rightarrow> int"
  cu_remove :: "int \<Rightarrow> int \<Rightarrow> 'n \<Rightarrow> 'n"
  cu_easy_cleanup :: "int \<Rightarrow> 'n \<Rightarrow> 'n"
  cu_multi_cleanup :: "int \<Rightarrow> 'n \<Rightarrow> 'n"

subsection \<open>Streams and readers\<close>

record chunk =
  c_data :: string
  c_next :: addr

text \<open>\<open>fs_hdrs\<close> is the map the easy handle was given as \<^verbatim>\<open>CURLOPT_HEADERDATA\<close>.\<close>

record fetch_stream =
  fs_response :: addr
  fs_hRequest :: int
  fs_hConnect :: int
  fs_hSession :: "string list"
  fs_hdrs :: addr
  fs_closed :: bool
  fs_head :: addr
  fs_tail :: addr
  fs_transfer_done :: bool
  fs_still_running :: int

record fetch_reader =
  rd_stream :: addr
  rd_data :: addr
  rd_offset :: int
  rd_done :: bool

record 'n fst_state =
  ft_heap :: heap
  ft_chunks :: "addr \<Rightarrow> chunk option"
  ft_streams :: "addr \<Rightarrow> fetch_stream option"
  ft_readers :: "addr \<Rightarrow> fetch_reader option"
  ft_net :: 'n

definition set_stream :: "addr \<Rightarrow> (fetch_stream \<Rightarrow> fetch_stream) \<Rightarrow> 'n fst_state \<Rightarrow> 'n fst_state option" where
  "set_stream p f s = do { st \<leftarrow> ft_streams s p; Some (s\<lparr>ft_streams := (ft_streams s)(p \<mapsto> f st)\<rparr>) }"

definition set_reader :: "addr \<Rightarrow> (fetch_reader \<Rightarrow> fetch_reader) \<Rightarrow> 'n fst_state \<Rightarrow> 'n fst_state option" where
  "set_reader p f s = do { r \<leftarrow> ft_readers s p; Some (s\<lparr>ft_readers := (ft_readers s)(p \<mapsto> f r)\<rparr>) }"

definition response_at :: "'n fst_state \<Rightarrow> addr \<Rightarrow> fetch_response option" where
  "response_at s p = (case objs (ft_heap s) p of Some (OResponse r) \<Rightarrow> Some r | _ \<Rightarrow> None)"

definition set_response :: "addr \<Rightarrow> (fetch_response \<Rightarrow> fetch_response) \<Rightarrow> 'n fst_state \<Rightarrow> 'n fst_state option" where
  "set_response p f s = do {
     r \<leftarrow> response_at s p;
     Some (s\<lparr>ft_heap := put_obj (ft_heap s) p (OResponse (f r))\<rparr>) }"

text \<open>A new string, and the address of an allocation of another type.\<close>

definition fnew_string :: "string \<Rightarrow> 'n fst_state \<Rightarrow> (addr \<times> 'n fst_state) option" where
  "fnew_string d s = do { (p, h) \<leftarrow> ts_string_new (ft_heap s) d; Some (p, s\<lparr>ft_heap := h\<rparr>) }"

definition fmalloc :: "'n fst_state \<Rightarrow> addr \<times> 'n fst_state" where
  "fmalloc s = (nxt (ft_heap s), s\<lparr>ft_heap := (ft_heap s)\<lparr>nxt := Suc (nxt (ft_heap s))\<rparr>\<rparr>)"

definition create_response :: "heap \<Rightarrow> int \<Rightarrow> string \<Rightarrow> string \<Rightarrow> string \<Rightarrow> (addr \<times> heap) option" where
  "create_response h status statusText body url = do {
     (t, h1) \<leftarrow> ts_string_new h statusText;
     (b, h2) \<leftarrow> ts_string_new h1 body;
     let (m, h3) = new_map h2;
     (u, h4) \<leftarrow> ts_string_new h3 url;
     Some (new_obj h4 (OResponse \<lparr>f_status = status, f_statusText = t, f_body = b, f_headers = m,
        f_url = u, f_stream = 0, f_body_complete = True\<rparr>)) }"

subsection \<open>The queue of chunks\<close>

definition fetch_chunk_enqueue :: "addr \<Rightarrow> string \<Rightarrow> 'n fst_state \<Rightarrow> 'n fst_state option" where
  "fetch_chunk_enqueue sp d s =
    (if sp = 0 \<or> d = [] then Some s
     else do {
       let (c, s1) = fmalloc s;
       let s2 = s1\<lparr>ft_chunks := (ft_chunks s1)(c \<mapsto> \<lparr>c_data = d, c_next = 0\<rparr>)\<rparr>;
       st \<leftarrow> ft_streams s2 sp;
       s3 \<leftarrow> (if fs_tail st \<noteq> 0 then do {
            t \<leftarrow> ft_chunks s2 (fs_tail st);
            Some (s2\<lparr>ft_chunks := (ft_chunks s2)(fs_tail st \<mapsto> t\<lparr>c_next := c\<rparr>)\<rparr>) }
          else set_stream sp (\<lambda>st. st\<lparr>fs_head := c\<rparr>) s2);
       set_stream sp (\<lambda>st. st\<lparr>fs_tail := c\<rparr>) s3 })"

definition fetch_chunk_dequeue :: "addr \<Rightarrow> 'n fst_state \<Rightarrow> (addr \<times> 'n fst_state) option" where
  "fetch_chunk_dequeue sp s =
    (if sp = 0 then Some (0, s)
     else do {
       st \<leftarrow> ft_streams s sp;
       if fs_head st = 0 then Some (0, s)
       else do {
         c \<leftarrow> ft_chunks s (fs_head st);
         s1 \<leftarrow> set_stream sp (\<lambda>st. st\<lparr>fs_head := c_next c, fs_tail := (if c_next c = 0 then 0 else fs_tail st)\<rparr>) s;
         Some (fs_head st, s1\<lparr>ft_chunks := (ft_chunks s1)(fs_head st \<mapsto> c\<lparr>c_next := 0\<rparr>)\<rparr>) } })"

definition free_chunk :: "addr \<Rightarrow> 'n fst_state \<Rightarrow> 'n fst_state" where
  "free_chunk c s = s\<lparr>ft_chunks := (ft_chunks s)(c := None)\<rparr>"

partial_function (option) free_chunks :: "addr \<Rightarrow> 'n fst_state \<Rightarrow> 'n fst_state option" where
  "free_chunks c s =
    (if c = 0 then Some s
     else do { ch \<leftarrow> ft_chunks s c; free_chunks (c_next ch) (free_chunk c s) })"

definition fetch_chunk_free_all :: "addr \<Rightarrow> 'n fst_state \<Rightarrow> 'n fst_state option" where
  "fetch_chunk_free_all sp s =
    (if sp = 0 then Some s
     else do {
       st \<leftarrow> ft_streams s sp;
       s1 \<leftarrow> free_chunks (fs_head st) s;
       set_stream sp (\<lambda>st. st\<lparr>fs_head := 0, fs_tail := 0\<rparr>) s1 })"

subsection \<open>The request\<close>

text \<open>The property \<open>k\<close> of the options, undefined when they are no object.\<close>

definition option_of :: "heap \<Rightarrow> tsvalue \<Rightarrow> string \<Rightarrow> tsvalue option" where
  "option_of h v k = (case v of VObject p \<Rightarrow> if p = 0 then Some VNull else map_get h p k | _ \<Rightarrow> Some VNull)"

definition get_method_from_options :: "heap \<Rightarrow> tsvalue \<Rightarrow> string option" where
  "get_method_from_options h options = do {
     v \<leftarrow> option_of h options ''method'';
     case v of VString p \<Rightarrow> str_data h p | _ \<Rightarrow> Some ''GET'' }"

definition get_headers_from_options :: "heap \<Rightarrow> tsvalue \<Rightarrow> addr option" where
  "get_headers_from_options h options = do {
     v \<leftarrow> option_of h options ''headers'';
     Some (case v of VObject p \<Rightarrow> p | _ \<Rightarrow> 0) }"

definition get_body_from_options :: "heap \<Rightarrow> tsvalue \<Rightarrow> string option option" where
  "get_body_from_options h options = do {
     v \<leftarrow> option_of h options ''body'';
     case v of
       VString p \<Rightarrow> if p = 0 then Some None else map_option Some (str_data h p)
     | VObject p \<Rightarrow> map_option Some (ts_json_stringify h v)
     | _ \<Rightarrow> Some None }"

definition ascii_lower :: "char \<Rightarrow> char" where
  "ascii_lower c = (if 65 \<le> (of_char c :: nat) \<and> (of_char c :: nat) \<le> 90 then char_of ((of_char c :: nat) + 32) else c)"

definition header_value :: "heap \<Rightarrow> addr \<Rightarrow> string \<Rightarrow> string option option" where
  "header_value h p k = do {
     v \<leftarrow> map_get h p k;
     case v of VString q \<Rightarrow> if q = 0 then Some None else map_option Some (str_data h q) | _ \<Rightarrow> Some None }"

definition get_header_string :: "heap \<Rightarrow> addr \<Rightarrow> string \<Rightarrow> string option option" where
  "get_header_string h p name =
    (if p = 0 then Some None
     else do {
       r \<leftarrow> header_value h p name;
       if r \<noteq> None then Some r
       else if 128 \<le> length name then Some None
       else header_value h p (map ascii_lower name) })"

definition curl_header_cb :: "string \<Rightarrow> tsvalue \<Rightarrow> string list \<times> heap \<Rightarrow> (string list \<times> heap) option" where
  "curl_header_cb key v c = do {
     (r, h) \<leftarrow> text_or_null (snd c) v;
     Some (case r of None \<Rightarrow> (fst c, h) | Some t \<Rightarrow> (fst c @ [snprintf 8192 (cstr key @ '': '' @ cstr t)], h)) }"

definition verb_of :: "string \<Rightarrow> verb" where
  "verb_of m =
    (if cstr m = ''POST'' then Post
     else if cstr m = ''PUT'' then CustomVerb ''PUT''
     else if cstr m = ''DELETE'' then CustomVerb ''DELETE''
     else if cstr m = ''HEAD'' then NoBody
     else if cstr m = ''OPTIONS'' then CustomVerb ''OPTIONS''
     else if cstr m = ''TRACE'' then CustomVerb ''TRACE''
     else if cstr m = ''PATCH'' then CustomVerb ''PATCH''
     else DefaultVerb)"

definition DEFAULT_AGENT :: string where
  "DEFAULT_AGENT = ''User-Agent: Mozilla/5.0 (Windows NT 10.0; Win64; x64) AppleWebKit/537.36 (KHTML, like Gecko) Chrome/120.0.0.0 Safari/537.36''"

text \<open>The first of two names under which a header is there.\<close>

definition either_header :: "heap \<Rightarrow> addr \<Rightarrow> string \<Rightarrow> string \<Rightarrow> string option option" where
  "either_header h p a b = do {
     r \<leftarrow> get_header_string h p a;
     if r = None then get_header_string h p b else Some r }"

definition request_headers :: "heap \<Rightarrow> addr \<Rightarrow> string option \<Rightarrow> (string list \<times> heap) option" where
  "request_headers h hp body = do {
     (l1, h1) \<leftarrow> (if hp = 0 then Some ([], h)
       else do { m \<leftarrow> get_map h hp; ts_hashmap_for_each m curl_header_cb ([], h) });
     l2 \<leftarrow> (if body \<noteq> None \<and> body \<noteq> Some [] then do {
         ct \<leftarrow> either_header h1 hp ''content-type'' ''Content-Type'';
         Some (if ct = None then l1 @ [''Content-Type: application/json''] else l1) }
       else Some l1);
     ua \<leftarrow> either_header h1 hp ''user-agent'' ''User-Agent'';
     Some (if ua = None then l2 @ [DEFAULT_AGENT] else l2, h1) }"

subsection \<open>The callbacks\<close>

definition stream_write_callback :: "string \<Rightarrow> addr \<Rightarrow> 'n fst_state \<Rightarrow> 'n fst_state option" where
  "stream_write_callback d sp s = (if sp \<noteq> 0 \<and> d \<noteq> [] then fetch_chunk_enqueue sp d s else Some s)"

text \<open>The value of a header: the loop that strips the end of the line keeps the first character.\<close>

definition strip_eol :: "string \<Rightarrow> string" where
  "strip_eol v = (case v of [] \<Rightarrow> [] | c # cs \<Rightarrow> c # rev (dropWhile (\<lambda>x. x = CR \<or> x = NL) (rev cs)))"

definition header_field :: "string \<Rightarrow> (string \<times> string) option" where
  "header_field buffer =
    (let line = cstr buffer in
     if 4096 \<le> length buffer \<or> prefix ''HTTP/'' line then None
     else map_option (\<lambda>i. (take i line, strip_eol (dropWhile (\<lambda>c. c = CHR '' '') (drop (Suc i) line))))
       (strchr line (CHR '':'')))"

definition header_callback :: "string \<Rightarrow> addr \<Rightarrow> 'n fst_state \<Rightarrow> 'n fst_state option" where
  "header_callback buffer hp s = (case header_field buffer of
     None \<Rightarrow> Some s
   | Some (k, v) \<Rightarrow> do {
       (p, s1) \<leftarrow> fnew_string v s;
       h \<leftarrow> map_set (ft_heap s1) hp k (VString p);
       Some (s1\<lparr>ft_heap := h\<rparr>) })"

definition deliver :: "addr \<Rightarrow> 'n fst_state \<Rightarrow> delivery \<Rightarrow> 'n fst_state option" where
  "deliver sp s d = (case d of
     HeaderLine l \<Rightarrow> do { st \<leftarrow> ft_streams s sp; header_callback l (fs_hdrs st) s }
   | BodyPiece b \<Rightarrow> stream_write_callback b sp s)"

definition curl_multi_perform :: "'n curl \<Rightarrow> addr \<Rightarrow> int \<Rightarrow> 'n fst_state \<Rightarrow> (bool \<times> int \<times> 'n fst_state) option" where
  "curl_multi_perform cu sp multi s =
    (case cu_perform cu multi (ft_net s) of (ok, still, ds, n) \<Rightarrow>
     do { s1 \<leftarrow> foldo (deliver sp) (s\<lparr>ft_net := n\<rparr>) ds; Some (ok, still, s1) })"

abbreviation finish_transfer :: "addr \<Rightarrow> 'n fst_state \<Rightarrow> 'n fst_state option" where
  "finish_transfer sp \<equiv> set_stream sp (\<lambda>st. st\<lparr>fs_transfer_done := True, fs_still_running := 0\<rparr>)"

definition curl_stream_pump :: "'n curl \<Rightarrow> addr \<Rightarrow> int \<Rightarrow> 'n fst_state \<Rightarrow> 'n fst_state option" where
  "curl_stream_pump cu sp max_wait_ms s =
    (if sp = 0 then Some s
     else do {
       st \<leftarrow> ft_streams s sp;
       if fs_closed st \<or> fs_hConnect st = 0 \<or> fs_hRequest st = 0 then Some s
       else do {
         let multi = fs_hConnect st;
         (ok, still, s1) \<leftarrow> curl_multi_perform cu sp multi s;
         s2 \<leftarrow> set_stream sp (\<lambda>st. st\<lparr>fs_still_running := still\<rparr>) s1;
         if \<not> ok then finish_transfer sp s2
         else if still = 0 then set_stream sp (\<lambda>st. st\<lparr>fs_transfer_done := True\<rparr>) s2
         else do {
           st2 \<leftarrow> ft_streams s2 sp;
           s4 \<leftarrow> (if fs_head st2 = 0 \<and> still > 0 then do {
               let s3 = s2\<lparr>ft_net := cu_wait cu multi (if max_wait_ms > 0 then max_wait_ms else 1000) (ft_net s2)\<rparr>;
               (ok', still', s3) \<leftarrow> curl_multi_perform cu sp multi s3;
               s3 \<leftarrow> set_stream sp (\<lambda>st. st\<lparr>fs_still_running := still'\<rparr>) s3;
               if \<not> ok' \<or> still' = 0 then finish_transfer sp s3 else Some s3 }
             else Some s2);
           let (msgs, n) = cu_info cu multi (ft_net s4);
           foldo (\<lambda>s done. if done then finish_transfer sp s else Some s) (s4\<lparr>ft_net := n\<rparr>) msgs } } })"

subsection \<open>fetch\<close>

fun await_status :: "'n curl \<Rightarrow> addr \<Rightarrow> int \<Rightarrow> nat \<Rightarrow> int \<Rightarrow> 'n fst_state \<Rightarrow> (int \<times> 'n fst_state) option" where
  "await_status cu sp easy 0 status s = Some (status, s)"
| "await_status cu sp easy (Suc i) status s = do {
     s1 \<leftarrow> curl_stream_pump cu sp 100 s;
     let status = cu_status cu easy (ft_net s1);
     st \<leftarrow> ft_streams s1 sp;
     if status > 0 \<or> fs_transfer_done st then Some (status, s1) else await_status cu sp easy i status s1 }"

text \<open>Everything of \<^verbatim>\<open>ts_fetch\<close> up to the loop: the stream with its request started.\<close>

definition fetch_open :: "'n curl \<Rightarrow> string \<Rightarrow> tsvalue \<Rightarrow> int \<Rightarrow> int \<Rightarrow> 'n fst_state \<Rightarrow> (addr \<times> 'n fst_state) option" where
  "fetch_open cu url options easy multi s = do {
     method \<leftarrow> get_method_from_options (ft_heap s) options;
     reqHeaders \<leftarrow> get_headers_from_options (ft_heap s) options;
     body \<leftarrow> get_body_from_options (ft_heap s) options;
     (hs, h1) \<leftarrow> request_headers (ft_heap s) reqHeaders body;
     let (hp, h2) = new_map h1;
     let (sp, s1) = fmalloc (s\<lparr>ft_heap := h2\<rparr>);
     let rq = \<lparr>rq_url = cstr url, rq_verb = verb_of method, rq_body = (if body = Some [] then None else body), rq_headers = hs\<rparr>;
     Some (sp, s1\<lparr>ft_streams := (ft_streams s1)(sp \<mapsto> \<lparr>fs_response = 0, fs_hRequest = easy, fs_hConnect = multi,
         fs_hSession = hs, fs_hdrs = hp, fs_closed = False, fs_head = 0, fs_tail = 0, fs_transfer_done = False,
         fs_still_running = 1\<rparr>), ft_net := cu_start cu easy multi rq (ft_net s1)\<rparr>) }"

definition ts_fetch :: "'n curl \<Rightarrow> addr \<Rightarrow> tsvalue \<Rightarrow> 'n fst_state \<Rightarrow> (tsvalue \<times> 'n fst_state) option" where
  "ts_fetch cu up options s = do {
     url \<leftarrow> str_data (ft_heap s) up;
     let (easy, n1) = cu_easy_init cu (ft_net s);
     let (multi, n2) = cu_multi_init cu n1;
     if easy = 0 \<or> multi = 0 then do {
       let n3 = (if easy \<noteq> 0 then cu_easy_cleanup cu easy n2 else n2);
       let n4 = (if multi \<noteq> 0 then cu_multi_cleanup cu multi n3 else n3);
       (p, h) \<leftarrow> create_response (ft_heap s) 0 ''Error'' ''Failed to init curl'' url;
       Some (VObject p, s\<lparr>ft_heap := h, ft_net := n4\<rparr>) }
     else do {
       (sp, s1) \<leftarrow> fetch_open cu url options easy multi (s\<lparr>ft_net := n2\<rparr>);
       (status, s2) \<leftarrow> await_status cu sp easy 600 0 s1;
       (rp, h) \<leftarrow> create_response (ft_heap s2) (signed_take_bit 31 status) (if status > 0 then ''OK'' else ''Error'') [] url;
       st \<leftarrow> ft_streams s2 sp;
       r \<leftarrow> response_at (s2\<lparr>ft_heap := h\<rparr>) rp;
       let h1 = put_obj (del_obj h (f_headers r)) rp
         (OResponse (r\<lparr>f_headers := fs_hdrs st, f_stream := sp, f_body_complete := False\<rparr>));
       s3 \<leftarrow> set_stream sp (\<lambda>st. st\<lparr>fs_response := rp\<rparr>) (s2\<lparr>ft_heap := h1\<rparr>);
       Some (VObject rp, s3) } }"

definition ts_fetch_response :: "tsvalue \<Rightarrow> tsvalue" where
  "ts_fetch_response response = response"

definition fetch_stream_close :: "'n curl \<Rightarrow> addr \<Rightarrow> 'n fst_state \<Rightarrow> 'n fst_state option" where
  "fetch_stream_close cu sp s =
    (if sp = 0 then Some s
     else do {
       st \<leftarrow> ft_streams s sp;
       if fs_closed st then Some s
       else do {
         s1 \<leftarrow> set_stream sp (\<lambda>st. st\<lparr>fs_closed := True\<rparr>) s;
         let easy = fs_hRequest st;
         let multi = fs_hConnect st;
         let n1 = (if multi \<noteq> 0 \<and> easy \<noteq> 0 then cu_remove cu multi easy (ft_net s1) else ft_net s1);
         let n2 = (if easy \<noteq> 0 then cu_easy_cleanup cu easy n1 else n1);
         let n3 = (if multi \<noteq> 0 then cu_multi_cleanup cu multi n2 else n2);
         s2 \<leftarrow> fetch_chunk_free_all sp (s1\<lparr>ft_net := n3\<rparr>);
         s3 \<leftarrow> set_stream sp (\<lambda>st. st\<lparr>fs_hRequest := 0, fs_hConnect := 0, fs_hSession := [],
             fs_transfer_done := True, fs_still_running := 0\<rparr>) s2;
         if fs_response st = 0 then Some s3
         else set_response (fs_response st) (\<lambda>r. r\<lparr>f_stream := 0, f_body_complete := True\<rparr>) s3 } })"

subsection \<open>Draining the body\<close>

partial_function (option) pump_all :: "'n curl \<Rightarrow> addr \<Rightarrow> 'n fst_state \<Rightarrow> 'n fst_state option" where
  "pump_all cu sp s = do {
     st \<leftarrow> ft_streams s sp;
     if \<not> fs_transfer_done st \<and> fs_hConnect st \<noteq> 0
     then do { s1 \<leftarrow> curl_stream_pump cu sp 1000 s; pump_all cu sp s1 }
     else Some s }"

text \<open>One chunk taken out of the queue and freed.\<close>

definition take_chunk :: "addr \<Rightarrow> 'n fst_state \<Rightarrow> (string option \<times> 'n fst_state) option" where
  "take_chunk sp s = do {
     (c, s1) \<leftarrow> fetch_chunk_dequeue sp s;
     if c = 0 then Some (None, s1)
     else do { ch \<leftarrow> ft_chunks s1 c; Some (Some (c_data ch), free_chunk c s1) } }"

partial_function (option) flatten_queue :: "addr \<Rightarrow> string \<Rightarrow> 'n fst_state \<Rightarrow> (string \<times> 'n fst_state) option" where
  "flatten_queue sp body s = do {
     (r, s1) \<leftarrow> take_chunk sp s;
     case r of None \<Rightarrow> Some (body, s1) | Some d \<Rightarrow> flatten_queue sp (body @ d) s1 }"

text \<open>The bytes of \<^verbatim>\<open>resp->body\<close>, none when it is NULL.\<close>

definition body_bytes :: "'n fst_state \<Rightarrow> fetch_response \<Rightarrow> string option" where
  "body_bytes s r = (if f_body r = 0 then Some [] else str_data (ft_heap s) (f_body r))"

definition fetch_stream_drain :: "'n curl \<Rightarrow> addr \<Rightarrow> 'n fst_state \<Rightarrow> 'n fst_state option" where
  "fetch_stream_drain cu rp s =
    (if rp = 0 then Some s
     else do {
       r \<leftarrow> response_at s rp;
       if f_body_complete r then Some s
       else if f_stream r = 0 then set_response rp (\<lambda>r. r\<lparr>f_body_complete := True\<rparr>) s
       else do {
         let sp = f_stream r;
         st \<leftarrow> ft_streams s sp;
         if fs_closed st then set_response rp (\<lambda>r. r\<lparr>f_body_complete := True\<rparr>) s
         else do {
           b \<leftarrow> body_bytes s r;
           s1 \<leftarrow> pump_all cu sp s;
           (buf, s2) \<leftarrow> flatten_queue sp b s1;
           (q, s3) \<leftarrow> fnew_string buf s2;
           s4 \<leftarrow> set_response rp (\<lambda>r. r\<lparr>f_body := q\<rparr>) s3;
           s5 \<leftarrow> fetch_stream_close cu sp s4;
           let s6 = s5\<lparr>ft_streams := (ft_streams s5)(sp := None)\<rparr>;
           set_response rp (\<lambda>r. r\<lparr>f_stream := 0, f_body_complete := True\<rparr>) s6 } } })"

definition ts_fetch_clone :: "'n curl \<Rightarrow> tsvalue \<Rightarrow> 'n fst_state \<Rightarrow> (tsvalue \<times> 'n fst_state) option" where
  "ts_fetch_clone cu response s = (case response of
     VObject rp \<Rightarrow> do {
       r0 \<leftarrow> response_at s rp;
       s1 \<leftarrow> (if \<not> f_body_complete r0 then fetch_stream_drain cu rp s else Some s);
       r \<leftarrow> response_at s1 rp;
       t \<leftarrow> str_data (ft_heap s1) (f_statusText r);
       b \<leftarrow> body_bytes s1 r;
       (p, h) \<leftarrow> create_response (ft_heap s1) (f_status r) t b ''cloned'';
       Some (VObject p, s1\<lparr>ft_heap := h\<rparr>) }
   | _ \<Rightarrow> Some (response, s))"

definition ts_fetch_text :: "'n curl \<Rightarrow> tsvalue \<Rightarrow> 'n fst_state \<Rightarrow> (addr \<times> 'n fst_state) option" where
  "ts_fetch_text cu response s = (case response of
     VObject rp \<Rightarrow>
       (case response_at s rp of
          Some r0 \<Rightarrow>
            if rp = 0 then None
            else do {
              s1 \<leftarrow> (if \<not> f_body_complete r0 then fetch_stream_drain cu rp s else Some s);
              r \<leftarrow> response_at s1 rp;
              if f_body r \<noteq> 0 then Some (f_body r, s1) else fnew_string [] s1 }
        | None \<Rightarrow> do { (p, h) \<leftarrow> ts_to_string (ft_heap s) response; Some (p, s\<lparr>ft_heap := h\<rparr>) })
   | VString p \<Rightarrow> Some (p, s)
   | _ \<Rightarrow> do { (p, h) \<leftarrow> ts_to_string (ft_heap s) response; Some (p, s\<lparr>ft_heap := h\<rparr>) })"

definition ts_fetch_json :: "'n curl \<Rightarrow> tsvalue \<Rightarrow> 'n fst_state \<Rightarrow> (tsvalue \<times> 'n fst_state) option" where
  "ts_fetch_json cu response s = do {
     (p, s1) \<leftarrow> ts_fetch_text cu response s;
     (v, h) \<leftarrow> ts_json_parse (ft_heap s1) p;
     Some (v, s1\<lparr>ft_heap := h\<rparr>) }"

text \<open>
  The object a value points to, when it is a response. \<open>None\<close> is a dangling pointer; a stream or a
  reader is no response.
\<close>

definition as_response :: "tsvalue \<Rightarrow> 'n fst_state \<Rightarrow> fetch_response option option" where
  "as_response v s = (case v of
     VObject p \<Rightarrow>
       if p = 0 \<or> ft_readers s p \<noteq> None \<or> ft_streams s p \<noteq> None then Some None
       else do { x \<leftarrow> objs (ft_heap s) p; Some (case x of OResponse r \<Rightarrow> Some r | _ \<Rightarrow> None) }
   | _ \<Rightarrow> Some None)"

definition ts_fetch_response_status :: "tsvalue \<Rightarrow> 'n fst_state \<Rightarrow> dbl option" where
  "ts_fetch_response_status v s = do {
     r \<leftarrow> as_response v s;
     Some (case r of Some r \<Rightarrow> dint (f_status r) | None \<Rightarrow> dint 0) }"

definition ts_fetch_response_statusText :: "tsvalue \<Rightarrow> 'n fst_state \<Rightarrow> (addr \<times> 'n fst_state) option" where
  "ts_fetch_response_statusText v s = do {
     r \<leftarrow> as_response v s;
     case r of Some r \<Rightarrow> Some (f_statusText r, s) | None \<Rightarrow> fnew_string [] s }"

definition ts_fetch_response_url :: "tsvalue \<Rightarrow> 'n fst_state \<Rightarrow> (addr \<times> 'n fst_state) option" where
  "ts_fetch_response_url v s = do {
     r \<leftarrow> as_response v s;
     case r of Some r \<Rightarrow> Some (f_url r, s) | None \<Rightarrow> fnew_string ''stub-url'' s }"

definition ts_fetch_response_headers :: "tsvalue \<Rightarrow> 'n fst_state \<Rightarrow> (tsvalue \<times> 'n fst_state) option" where
  "ts_fetch_response_headers v s = do {
     r \<leftarrow> as_response v s;
     case r of
       Some r \<Rightarrow> Some (VObject (f_headers r), s)
     | None \<Rightarrow> (let (m, h) = new_map (ft_heap s) in Some (VObject m, s\<lparr>ft_heap := h\<rparr>)) }"

definition ts_fetch_response_body :: "tsvalue \<Rightarrow> 'n fst_state \<Rightarrow> (tsvalue \<times> 'n fst_state) option" where
  "ts_fetch_response_body v s = do {
     r \<leftarrow> as_response v s;
     case r of
       Some r \<Rightarrow> Some (v, s)
     | None \<Rightarrow> do {
         let (m, h) = new_map (ft_heap s);
         (d, h1) \<leftarrow> ts_string_new h [];
         h2 \<leftarrow> map_set h1 m ''_data'' (VString d);
         (t, h3) \<leftarrow> ts_string_new h2 ''ReadableStream'';
         h4 \<leftarrow> map_set h3 m ''_type'' (VString t);
         Some (VObject m, s\<lparr>ft_heap := h4\<rparr>) } }"

subsection \<open>Readers\<close>

definition new_reader :: "fetch_reader \<Rightarrow> 'n fst_state \<Rightarrow> tsvalue \<times> 'n fst_state" where
  "new_reader r s = (let (p, s1) = fmalloc s in (VObject p, s1\<lparr>ft_readers := (ft_readers s1)(p \<mapsto> r)\<rparr>))"

definition ts_fetch_body_get_reader :: "'n curl \<Rightarrow> tsvalue \<Rightarrow> 'n fst_state \<Rightarrow> (tsvalue \<times> 'n fst_state) option" where
  "ts_fetch_body_get_reader cu body s = do {
     (e, s0) \<leftarrow> fnew_string [] s;
     let rd = \<lparr>rd_stream = 0, rd_data = e, rd_offset = 0, rd_done = False\<rparr>;
     r \<leftarrow> as_response body s0;
     case r of
       Some r \<Rightarrow>
         if f_stream r \<noteq> 0 \<and> \<not> f_body_complete r then Some (new_reader (rd\<lparr>rd_stream := f_stream r\<rparr>) s0)
         else do {
           rp \<leftarrow> (case body of VObject rp \<Rightarrow> Some rp | _ \<Rightarrow> None);
           s1 \<leftarrow> (if \<not> f_body_complete r then fetch_stream_drain cu rp s0 else Some s0);
           r1 \<leftarrow> response_at s1 rp;
           (d, s2) \<leftarrow> (if f_body r1 \<noteq> 0 then Some (f_body r1, s1) else fnew_string [] s1);
           Some (new_reader (rd\<lparr>rd_data := d\<rparr>) s2) }
     | None \<Rightarrow> (case body of
           VObject p \<Rightarrow>
             if p = 0 then Some (new_reader rd s0)
             else do {
               v \<leftarrow> map_get (ft_heap s0) p ''_data'';
               Some (new_reader (case v of VString d \<Rightarrow> if d \<noteq> 0 then rd\<lparr>rd_data := d\<rparr> else rd | _ \<Rightarrow> rd) s0) }
         | VString d \<Rightarrow> Some (new_reader (if d \<noteq> 0 then rd\<lparr>rd_data := d\<rparr> else rd) s0)
         | _ \<Rightarrow> Some (new_reader rd s0)) }"

text \<open>The object \<^verbatim>\<open>{ done, value }\<close> that a read returns, in the map \<open>m\<close> made at its start.\<close>

definition read_result :: "addr \<Rightarrow> bool \<Rightarrow> addr \<Rightarrow> 'n fst_state \<Rightarrow> (tsvalue \<times> 'n fst_state) option" where
  "read_result m is_done q s = do {
     h1 \<leftarrow> map_set (ft_heap s) m ''done'' (ts_value_boolean is_done);
     h2 \<leftarrow> map_set h1 m ''value'' (VString q);
     Some (VObject m, s\<lparr>ft_heap := h2\<rparr>) }"

definition read_end :: "addr \<Rightarrow> 'n fst_state \<Rightarrow> (tsvalue \<times> 'n fst_state) option" where
  "read_end m s = do { (q, s1) \<leftarrow> fnew_string [] s; read_result m True q s1 }"

definition read_chunk :: "addr \<Rightarrow> string \<Rightarrow> 'n fst_state \<Rightarrow> (tsvalue \<times> 'n fst_state) option" where
  "read_chunk m d s = do { (q, s1) \<leftarrow> fnew_string d s; read_result m False q s1 }"

partial_function (option) pump_chunk :: "'n curl \<Rightarrow> addr \<Rightarrow> 'n fst_state \<Rightarrow> 'n fst_state option" where
  "pump_chunk cu sp s = do {
     st \<leftarrow> ft_streams s sp;
     if fs_head st = 0 \<and> \<not> fs_transfer_done st \<and> \<not> fs_closed st
     then do { s1 \<leftarrow> curl_stream_pump cu sp 1000 s; pump_chunk cu sp s1 }
     else Some s }"

text \<open>A chunk that was read is appended to the body that \<^verbatim>\<open>text()\<close> returns later.\<close>

definition cache_chunk :: "addr \<Rightarrow> string \<Rightarrow> 'n fst_state \<Rightarrow> 'n fst_state option" where
  "cache_chunk rp d s =
    (if rp = 0 then Some s
     else do {
       r \<leftarrow> response_at s rp;
       b \<leftarrow> body_bytes s r;
       (q, s1) \<leftarrow> fnew_string (b @ d) s;
       set_response rp (\<lambda>r. r\<lparr>f_body := q\<rparr>) s1 })"

definition read_live :: "'n curl \<Rightarrow> addr \<Rightarrow> addr \<Rightarrow> addr \<Rightarrow> 'n fst_state \<Rightarrow> (tsvalue \<times> 'n fst_state) option" where
  "read_live cu m p sp s = do {
     s1 \<leftarrow> pump_chunk cu sp s;
     (r, s2) \<leftarrow> take_chunk sp s1;
     case r of
       Some d \<Rightarrow> do {
         st \<leftarrow> ft_streams s2 sp;
         s3 \<leftarrow> cache_chunk (fs_response st) d s2;
         read_chunk m d s3 }
     | None \<Rightarrow> do {
         s3 \<leftarrow> set_reader p (\<lambda>rd. rd\<lparr>rd_done := True\<rparr>) s2;
         s4 \<leftarrow> fetch_stream_close cu sp s3;
         read_end m s4 } }"

text \<open>Where the line that starts at an offset ends, after its newline.\<close>

definition line_end :: "string \<Rightarrow> nat \<Rightarrow> nat" where
  "line_end data start =
    (let n = length (takeWhile (\<lambda>c. c \<noteq> NL) (drop start data));
         e = (if start + n < length data then start + n + 1 else start + n)
     in if e = start then length data else e)"

definition read_buffered :: "addr \<Rightarrow> addr \<Rightarrow> fetch_reader \<Rightarrow> 'n fst_state \<Rightarrow> (tsvalue \<times> 'n fst_state) option" where
  "read_buffered m p rd s = do {
     data \<leftarrow> (if rd_data rd = 0 then Some [] else str_data (ft_heap s) (rd_data rd));
     if rd_offset rd \<ge> int (length data) then do {
       s1 \<leftarrow> set_reader p (\<lambda>rd. rd\<lparr>rd_done := True\<rparr>) s;
       read_end m s1 }
     else if rd_offset rd < 0 then None
     else do {
       let start = nat (rd_offset rd);
       let e = line_end data start;
       s1 \<leftarrow> set_reader p (\<lambda>rd. rd\<lparr>rd_offset := int e, rd_done := (e \<ge> length data)\<rparr>) s;
       read_chunk m (take (e - start) (drop start data)) s1 } }"

text \<open>The reader of earlier versions, a plain object.\<close>

definition read_legacy :: "addr \<Rightarrow> addr \<Rightarrow> 'n fst_state \<Rightarrow> (tsvalue \<times> 'n fst_state) option" where
  "read_legacy m p s = do {
     dn \<leftarrow> map_get (ft_heap s) p ''_done'';
     if (case dn of VBoolean b \<Rightarrow> b \<noteq> 0 | _ \<Rightarrow> False) then read_end m s
     else do {
       dv \<leftarrow> map_get (ft_heap s) p ''_data'';
       (q, s1) \<leftarrow> (case dv of VString q \<Rightarrow> if q \<noteq> 0 then Some (q, s) else fnew_string [] s | _ \<Rightarrow> fnew_string [] s);
       data \<leftarrow> str_data (ft_heap s1) q;
       ov \<leftarrow> map_get (ft_heap s1) p ''_offset'';
       offset \<leftarrow> (case ov of VNumber d \<Rightarrow> d_to_int d | _ \<Rightarrow> Some 0);
       if offset \<ge> int (length data) then do {
         h1 \<leftarrow> map_set (ft_heap s1) p ''_done'' (ts_value_boolean True);
         read_end m (s1\<lparr>ft_heap := h1\<rparr>) }
       else do {
         h1 \<leftarrow> map_set (ft_heap s1) p ''_offset'' (VNumber (dint (int (length data))));
         h2 \<leftarrow> map_set h1 p ''_done'' (ts_value_boolean True);
         read_result m False q (s1\<lparr>ft_heap := h2\<rparr>) } } }"

definition ts_fetch_reader_read :: "'n curl \<Rightarrow> tsvalue \<Rightarrow> 'n fst_state \<Rightarrow> (tsvalue \<times> 'n fst_state) option" where
  "ts_fetch_reader_read cu readerVal s0 =
    (let (m, h) = new_map (ft_heap s0); s = s0\<lparr>ft_heap := h\<rparr> in
     case readerVal of
       VObject p \<Rightarrow>
         if p = 0 then read_end m s
         else (case ft_readers s p of
             Some rd \<Rightarrow>
               if rd_done rd then read_end m s
               else if rd_stream rd = 0 then read_buffered m p rd s
               else do {
                 st \<leftarrow> ft_streams s (rd_stream rd);
                 if \<not> fs_closed st then read_live cu m p (rd_stream rd) s else read_buffered m p rd s }
           | None \<Rightarrow> read_legacy m p s)
     | _ \<Rightarrow> read_end m s)"

subsection \<open>Headers\<close>

definition ts_headers :: "heap \<Rightarrow> tsvalue \<times> heap" where
  "ts_headers h = (let (m, h1) = new_map h in (VObject m, h1))"

definition ts_headers_from_object :: "addr \<Rightarrow> tsvalue" where
  "ts_headers_from_object p = VObject p"

definition ts_headers_set :: "heap \<Rightarrow> tsvalue \<Rightarrow> string \<Rightarrow> addr \<Rightarrow> heap option" where
  "ts_headers_set h headers key p = (case headers of
     VObject m \<Rightarrow> if m = 0 then Some h else map_set h m key (VString p)
   | _ \<Rightarrow> Some h)"

end
