(* ===== verification/Ts_Fetch_Body.thy ===== *)
theory Ts_Fetch_Body
  imports Ts_Fetch
begin

text \<open>
  The body of a response: the queue of chunks is a first-in-first-out queue, and under a transfer
  that ends, \<^verbatim>\<open>text()\<close> and a reader that is read to its end both give the bytes the server sent, in
  order.
\<close>

subsection \<open>The queue\<close>

fun cchain :: "(addr \<Rightarrow> chunk option) \<Rightarrow> addr \<Rightarrow> (addr \<times> string) list \<Rightarrow> bool" where
  "cchain cs p [] \<longleftrightarrow> p = 0"
| "cchain cs p ((a, d) # ns) \<longleftrightarrow> p = a \<and> a \<noteq> 0 \<and> (\<exists>n. cs a = Some \<lparr>c_data = d, c_next = n\<rparr> \<and> cchain cs n ns)"

definition queue_at :: "'n fst_state \<Rightarrow> fetch_stream \<Rightarrow> (addr \<times> string) list \<Rightarrow> bool" where
  "queue_at s st ns \<longleftrightarrow> cchain (ft_chunks s) (fs_head st) ns \<and> distinct (map fst ns) \<and>
     fs_tail st = (if ns = [] then 0 else fst (last ns)) \<and> (\<forall>a \<in> fst ` set ns. a < nxt (ft_heap s))"

definition chunks_rep :: "addr \<Rightarrow> 'n fst_state \<Rightarrow> string list \<Rightarrow> bool" where
  "chunks_rep sp s xs \<longleftrightarrow> sp \<noteq> 0 \<and> 0 < nxt (ft_heap s) \<and>
     (\<exists>st ns. ft_streams s sp = Some st \<and> queue_at s st ns \<and> map snd ns = xs)"

text \<open>What a change of the queue leaves as it was.\<close>

definition qstep :: "addr \<Rightarrow> 'n fst_state \<Rightarrow> 'n fst_state \<Rightarrow> bool" where
  "qstep sp s s' \<longleftrightarrow> ft_readers s' = ft_readers s \<and> ft_net s' = ft_net s \<and>
     (\<forall>p. p \<noteq> sp \<longrightarrow> ft_streams s' p = ft_streams s p) \<and>
     (\<forall>st. ft_streams s sp = Some st \<longrightarrow> (\<exists>a b. ft_streams s' sp = Some (st\<lparr>fs_head := a, fs_tail := b\<rparr>))) \<and>
     (\<exists>k \<ge> nxt (ft_heap s). ft_heap s' = (ft_heap s)\<lparr>nxt := k\<rparr>)"

lemma cchain_upd: "p \<notin> fst ` set ns \<Longrightarrow> cchain (cs(p := x)) a ns = cchain cs a ns"
  by (induction cs a ns rule: cchain.induct) auto

lemma cchain_snoc:
  "cchain cs p (ns @ [(t, d)]) \<Longrightarrow> distinct (map fst (ns @ [(t, d)])) \<Longrightarrow> c \<notin> fst ` set (ns @ [(t, d)]) \<Longrightarrow> c \<noteq> 0 \<Longrightarrow>
   cchain (cs(c \<mapsto> \<lparr>c_data = e, c_next = 0\<rparr>, t \<mapsto> \<lparr>c_data = d, c_next = c\<rparr>)) p (ns @ [(t, d), (c, e)])"
proof (induction ns arbitrary: p)
  case (Cons n ns)
  then show ?case by (cases n) (auto simp: fun_upd_twist)
qed auto

lemma cchain_nonzero: "cchain cs p ns \<Longrightarrow> n \<in> set ns \<Longrightarrow> fst n \<noteq> 0"
  by (induction cs p ns rule: cchain.induct) auto

lemma cchain_last: "cchain cs p (ns @ [(t, d)]) \<Longrightarrow> cs t = Some \<lparr>c_data = d, c_next = 0\<rparr>"
  by (induction ns arbitrary: p) auto

lemma chunks_repI:
  "ft_streams s sp = Some st \<Longrightarrow> queue_at s st ns \<Longrightarrow> map snd ns = xs \<Longrightarrow> sp \<noteq> 0 \<Longrightarrow> 0 < nxt (ft_heap s) \<Longrightarrow> chunks_rep sp s xs"
  by (auto simp: chunks_rep_def)

lemma qstepI:
  "ft_streams s sp = Some st \<Longrightarrow> ft_streams s' = (ft_streams s)(sp \<mapsto> st\<lparr>fs_head := a, fs_tail := b\<rparr>) \<Longrightarrow>
   ft_readers s' = ft_readers s \<Longrightarrow> ft_net s' = ft_net s \<Longrightarrow> ft_heap s' = (ft_heap s)\<lparr>nxt := k\<rparr> \<Longrightarrow>
   nxt (ft_heap s) \<le> k \<Longrightarrow> qstep sp s s'"
  by (auto simp: qstep_def)

lemma enqueue_ok:
  assumes "chunks_rep sp s xs" "d \<noteq> []"
  shows "\<exists>s'. fetch_chunk_enqueue sp d s = Some s' \<and> chunks_rep sp s' (xs @ [d]) \<and> qstep sp s s'"
proof -
  let ?c = "nxt (ft_heap s)"
  let ?h = "(ft_heap s)\<lparr>nxt := Suc ?c\<rparr>"
  obtain st ns where st: "ft_streams s sp = Some st" "queue_at s st ns" "map snd ns = xs" "sp \<noteq> 0" "0 < ?c"
    using assms(1) by (auto simp: chunks_rep_def)
  have lt: "\<forall>a \<in> fst ` set ns. a < Suc ?c" "?c \<notin> fst ` set ns" using st(2) by (auto simp: queue_at_def)
  show ?thesis
  proof (cases ns rule: rev_cases)
    case Nil
    let ?st = "st\<lparr>fs_head := ?c, fs_tail := ?c\<rparr>"
    let ?s = "s\<lparr>ft_heap := ?h, ft_chunks := (ft_chunks s)(?c \<mapsto> \<lparr>c_data = d, c_next = 0\<rparr>), ft_streams := (ft_streams s)(sp \<mapsto> ?st)\<rparr>"
    have "fs_tail st = 0" using st(2) Nil by (simp add: queue_at_def)
    then have "fetch_chunk_enqueue sp d s = Some ?s"
      using st assms(2) by (simp add: fetch_chunk_enqueue_def fmalloc_def set_stream_def)
    moreover have "queue_at ?s ?st [(?c, d)]" using st(5) by (simp add: queue_at_def)
    then have "chunks_rep sp ?s (xs @ [d])" by (rule chunks_repI [rotated]) (use st Nil in auto)
    moreover have "qstep sp s ?s" by (rule qstepI [OF st(1), of _ _ _ "Suc ?c"]) simp_all
    ultimately show ?thesis by blast
  next
    case (snoc ms x)
    obtain t e where x: "x = (t, e)" by (cases x)
    let ?ns = "ms @ [(t, e), (?c, d)]"
    let ?st = "st\<lparr>fs_tail := ?c\<rparr>"
    let ?s = "s\<lparr>ft_heap := ?h, ft_chunks := (ft_chunks s)(?c \<mapsto> \<lparr>c_data = d, c_next = 0\<rparr>, t \<mapsto> \<lparr>c_data = e, c_next = ?c\<rparr>),
       ft_streams := (ft_streams s)(sp \<mapsto> ?st)\<rparr>"
    have ch: "cchain (ft_chunks s) (fs_head st) (ms @ [(t, e)])" "distinct (map fst (ms @ [(t, e)]))" "fs_tail st = t"
      using st(2) by (auto simp: queue_at_def snoc x)
    have t: "ft_chunks s t = Some \<lparr>c_data = e, c_next = 0\<rparr>" "t \<noteq> 0" "t \<noteq> ?c"
      using cchain_last [OF ch(1)] cchain_nonzero [OF ch(1), of "(t, e)"] lt(2) by (auto simp: snoc x)
    have "fetch_chunk_enqueue sp d s = Some ?s"
      using st assms(2) t ch(3) by (simp add: fetch_chunk_enqueue_def fmalloc_def set_stream_def)
    moreover have "queue_at ?s ?st ?ns"
      using cchain_snoc [OF ch(1,2), of ?c d] ch(2) lt st(5) by (auto simp: queue_at_def snoc x)
    then have "chunks_rep sp ?s (xs @ [d])" by (rule chunks_repI [rotated]) (use st snoc x in auto)
    moreover have "qstep sp s ?s" by (rule qstepI [OF st(1), of _ ?c "fs_head st" "Suc ?c"]) (simp_all add: fetch_stream.equality)
    ultimately show ?thesis by blast
  qed
qed

lemma take_chunk_Nil: "chunks_rep sp s [] \<Longrightarrow> take_chunk sp s = Some (None, s)"
  by (auto simp: chunks_rep_def queue_at_def take_chunk_def fetch_chunk_dequeue_def)

lemma take_chunk_ok:
  assumes "chunks_rep sp s (d # xs)"
  shows "\<exists>s'. take_chunk sp s = Some (Some d, s') \<and> chunks_rep sp s' xs \<and> qstep sp s s'"
proof -
  obtain st a ns where st: "ft_streams s sp = Some st" "queue_at s st ((a, d) # ns)" "map snd ns = xs"
      "sp \<noteq> 0" "0 < nxt (ft_heap s)"
    using assms by (auto simp: chunks_rep_def)
  obtain n where n: "ft_chunks s a = Some \<lparr>c_data = d, c_next = n\<rparr>" "cchain (ft_chunks s) n ns" "fs_head st = a" "a \<noteq> 0"
      "a \<notin> fst ` set ns"
    using st(2) by (auto simp: queue_at_def)
  let ?st = "st\<lparr>fs_head := n, fs_tail := (if n = 0 then 0 else fs_tail st)\<rparr>"
  let ?s = "s\<lparr>ft_chunks := (ft_chunks s)(a := None), ft_streams := (ft_streams s)(sp \<mapsto> ?st)\<rparr>"
  have "take_chunk sp s = Some (Some d, ?s)"
    using st n by (simp add: take_chunk_def fetch_chunk_dequeue_def set_stream_def free_chunk_def)
  moreover have "n = 0 \<longleftrightarrow> ns = []" using n(2) by (cases ns) auto
  then have "queue_at ?s ?st ns" using st(2) n by (auto simp: queue_at_def cchain_upd)
  then have "chunks_rep sp ?s xs" by (rule chunks_repI [rotated]) (use st in auto)
  moreover have "qstep sp s ?s" by (rule qstepI [OF st(1), of _ _ _ "nxt (ft_heap s)"]) (simp_all add: heap.equality)
  ultimately show ?thesis by blast
qed

text \<open>A queue of chunks is a first-in-first-out queue of their bytes.\<close>

interpretation cq: fifo "chunks_rep sp" "\<lambda>s d. d \<noteq> []" "\<lambda>xs. True" n
  "\<lambda>s d. fetch_chunk_enqueue sp d s" "\<lambda>s. do { (r, s1) \<leftarrow> take_chunk sp s; d \<leftarrow> r; Some (d, s1) }" for sp n
proof unfold_locales
  fix s :: "'a fst_state" and xs and d :: string
  assume "chunks_rep sp s xs" "d \<noteq> []"
  with enqueue_ok [of sp s xs d] show "\<exists>s'. fetch_chunk_enqueue sp d s = Some s' \<and> chunks_rep sp s' (xs @ [d]) \<and>
      (\<forall>y. y \<noteq> [] \<longrightarrow> y \<noteq> [])" by auto
next
  fix s :: "'a fst_state" and xs and d :: string
  assume "chunks_rep sp s (d # xs)"
  with take_chunk_ok [of sp s d xs] show "\<exists>s'. do { (r, s1) \<leftarrow> take_chunk sp s; d \<leftarrow> r; Some (d, s1) } = Some (d, s') \<and>
      chunks_rep sp s' xs" by auto
qed

subsection \<open>The transfer\<close>

text \<open>
  What is relied on of libcurl for one transfer. \<open>todo\<close> is what the server will still send, as it
  will be delivered: a perform delivers a part of it, in order; when no transfer is running any more,
  or a message says that it is done, everything has been delivered; and it ends, because each perform
  that leaves it running makes \<open>waits\<close> smaller.
\<close>

definition curl_ok :: "'n curl \<Rightarrow> int \<Rightarrow> ('n \<Rightarrow> delivery list) \<Rightarrow> ('n \<Rightarrow> nat) \<Rightarrow> bool" where
  "curl_ok cu m todo waits \<longleftrightarrow>
     (\<forall>n ok still ds n'. cu_perform cu m n = (ok, still, ds, n') \<longrightarrow>
        ok \<and> 0 \<le> still \<and> todo n = ds @ todo n' \<and> (still = 0 \<longrightarrow> todo n' = []) \<and> (still \<noteq> 0 \<longrightarrow> waits n' < waits n)) \<and>
     (\<forall>k n. todo (cu_wait cu m k n) = todo n \<and> waits (cu_wait cu m k n) \<le> waits n) \<and>
     (\<forall>n msgs n'. cu_info cu m n = (msgs, n') \<longrightarrow>
        todo n' = todo n \<and> waits n' \<le> waits n \<and> (True \<in> set msgs \<longrightarrow> todo n = []))"

text \<open>The bytes and the header fields of what is delivered.\<close>

fun pieces :: "delivery list \<Rightarrow> string list" where
  "pieces [] = []"
| "pieces (HeaderLine l # ds) = pieces ds"
| "pieces (BodyPiece b # ds) = (if b = [] then pieces ds else b # pieces ds)"

fun fields :: "(string \<rightharpoonup> string) \<Rightarrow> delivery list \<Rightarrow> (string \<rightharpoonup> string)" where
  "fields g [] = g"
| "fields g (HeaderLine l # ds) = fields (case header_field l of None \<Rightarrow> g | Some (k, v) \<Rightarrow> g(k \<mapsto> v)) ds"
| "fields g (BodyPiece b # ds) = fields g ds"

lemma pieces_append [simp]: "pieces (a @ b) = pieces a @ pieces b"
  by (induction a rule: pieces.induct) auto

lemma fields_append [simp]: "fields g (a @ b) = fields (fields g a) b"
  by (induction g a rule: fields.induct) auto

definition headers_at :: "heap \<Rightarrow> addr \<Rightarrow> (string \<rightharpoonup> string) \<Rightarrow> bool" where
  "headers_at h hp g \<longleftrightarrow> (\<exists>f. map_at h hp f \<and> dom f = dom g \<and>
     (\<forall>k v. g k = Some v \<longrightarrow> (\<exists>q. f k = Some (VString q) \<and> str_at h q v)))"

text \<open>
  A live stream: the chunks \<open>xs\<close> are queued, and the header fields \<open>g\<close> are in the map \<open>hp\<close>.
\<close>

definition live :: "('n \<Rightarrow> delivery list) \<Rightarrow> int \<Rightarrow> addr \<Rightarrow> addr \<Rightarrow> addr \<Rightarrow> 'n fst_state \<Rightarrow> string list \<Rightarrow> (string \<rightharpoonup> string) \<Rightarrow> bool" where
  "live todo m sp rp hp s xs g \<longleftrightarrow> chunks_rep sp s xs \<and> heap_ok (ft_heap s) \<and> headers_at (ft_heap s) hp g \<and>
     card (dom g) + length (todo (ft_net s)) \<le> HM_LIMIT \<and>
     (\<exists>st. ft_streams s sp = Some st \<and> fs_hConnect st = m \<and> m \<noteq> 0 \<and> fs_hRequest st \<noteq> 0 \<and> fs_response st = rp \<and>
        fs_hdrs st = hp \<and> \<not> fs_closed st \<and> (fs_transfer_done st \<longrightarrow> todo (ft_net s) = []))"

definition ended :: "addr \<Rightarrow> 'n fst_state \<Rightarrow> bool" where
  "ended sp s \<longleftrightarrow> (\<exists>st. ft_streams s sp = Some st \<and> fs_transfer_done st)"

text \<open>What the operations of a stream leave as it was.\<close>

definition fstep :: "addr \<Rightarrow> addr \<Rightarrow> 'n fst_state \<Rightarrow> 'n fst_state \<Rightarrow> bool" where
  "fstep sp hp s s' \<longleftrightarrow> ft_readers s' = ft_readers s \<and> (\<forall>p. p \<noteq> sp \<longrightarrow> ft_streams s' p = ft_streams s p) \<and>
     nxt (ft_heap s) \<le> nxt (ft_heap s') \<and> strs (ft_heap s) \<subseteq>\<^sub>m strs (ft_heap s') \<and>
     (\<forall>p. p \<noteq> hp \<longrightarrow> objs (ft_heap s') p = objs (ft_heap s) p)"

lemma fstep_refl [simp]: "fstep sp hp s s"
  by (simp add: fstep_def)

lemma fstep_trans: "fstep sp hp s s1 \<Longrightarrow> fstep sp hp s1 s2 \<Longrightarrow> fstep sp hp s s2"
  by (auto simp: fstep_def intro: map_le_trans)

lemma heap_nxt_simps [simp]:
  "strs (h\<lparr>nxt := k\<rparr>) = strs h" "arrs (h\<lparr>nxt := k\<rparr>) = arrs h" "objs (h\<lparr>nxt := k\<rparr>) = objs h" "nxt (h\<lparr>nxt := k\<rparr>) = k"
  by simp_all

lemma qstep_fstep: "qstep sp s s' \<Longrightarrow> fstep sp hp s s'"
  by (auto simp: qstep_def fstep_def)

lemma heap_ok_nxt: "heap_ok h \<Longrightarrow> nxt h \<le> k \<Longrightarrow> heap_ok (h\<lparr>nxt := k\<rparr>)"
  by (auto simp: heap_ok_def)

lemma headers_at_cong:
  "headers_at h hp g \<Longrightarrow> strs h \<subseteq>\<^sub>m strs h' \<Longrightarrow> objs h' hp = objs h hp \<Longrightarrow> headers_at h' hp g"
  unfolding headers_at_def map_at_def str_at_def map_le_def dom_def by (elim exE conjE, rule exI) (auto, metis option.simps(3))

text \<open>A change of the queue of a live stream.\<close>

lemma live_queue:
  assumes "live todo m sp rp hp s xs g" "qstep sp s s'" "chunks_rep sp s' ys"
  shows "live todo m sp rp hp s' ys g \<and> (ended sp s' \<longleftrightarrow> ended sp s) \<and> ft_net s' = ft_net s \<and> fstep sp hp s s'"
proof -
  obtain k where k: "ft_heap s' = (ft_heap s)\<lparr>nxt := k\<rparr>" "nxt (ft_heap s) \<le> k" using assms(2) by (auto simp: qstep_def)
  have "headers_at (ft_heap s') hp g" using assms(1) headers_at_cong [of "ft_heap s" hp g "ft_heap s'"] k by (auto simp: live_def)
  moreover obtain st a b where "ft_streams s sp = Some st" "ft_streams s' sp = Some (st\<lparr>fs_head := a, fs_tail := b\<rparr>)"
    using assms(1,2) by (auto simp: live_def qstep_def)
  moreover have "ft_net s' = ft_net s" using assms(2) by (simp add: qstep_def)
  ultimately show ?thesis using assms k qstep_fstep [OF assms(2)] heap_ok_nxt [of "ft_heap s" k] by (auto simp: live_def ended_def)
qed

subsection \<open>One pump\<close>

lemma header_field_NUL: "header_field l = Some (k, v) \<Longrightarrow> NUL \<notin> set v \<and> length v \<le> 5000"
proof -
  assume h: "header_field l = Some (k, v)"
  then obtain i where v: "v = strip_eol (dropWhile (\<lambda>c. c = CHR '' '') (drop (Suc i) (cstr l)))" and l: "length l < 4096"
    by (auto simp: header_field_def Let_def split: if_splits)
  let ?w = "dropWhile (\<lambda>c. c = CHR '' '') (drop (Suc i) (cstr l))"
  have strip: "set (strip_eol w) \<subseteq> set w" "length (strip_eol w) \<le> length w" for w
    by (auto simp: strip_eol_def length_dropWhile_le split: list.split dest: set_dropWhileD)
       (metis (no_types, lifting) length_dropWhile_le length_rev)
  have "length ?w \<le> length l" using length_dropWhile_le [of "\<lambda>c. c = CHR '' ''" "drop (Suc i) (cstr l)"] length_cstr_le [of l] by simp
  with strip(2) [of ?w] l have "length v \<le> 5000" unfolding v by linarith
  moreover have "set ?w \<subseteq> set (cstr l)" by (meson set_dropWhileD set_drop_subset subset_iff)
  then have "NUL \<notin> set v" using strip(1) [of ?w] NUL_notin_cstr [of l] unfolding v by blast
  ultimately show ?thesis by simp
qed

lemma headers_at_set:
  assumes "headers_at h hp g" "heap_ok h" "card (dom g) < HM_LIMIT" "NUL \<notin> set v" "length v \<le> 5000"
  shows "\<exists>q h'. ts_string_new h v = Some (q, snd (new_str h v)) \<and> map_set (snd (new_str h v)) hp k (VString q) = Some h' \<and>
    headers_at h' hp (g(k \<mapsto> v)) \<and> heap_ok h' \<and> strs h \<subseteq>\<^sub>m strs h' \<and> nxt h \<le> nxt h' \<and> (\<forall>p. p \<noteq> hp \<longrightarrow> objs h' p = objs h p)"
proof -
  let ?h = "snd (new_str h v)"
  have ext: "heap_ext h ?h" using assms(2) by (rule heap_ext_new)
  have new: "ts_string_new h v = Some (nxt h, ?h)" using assms(4,5) by (simp add: ts_string_new_eq int32_max_def) (simp add: new_str_def)
  obtain f where f: "map_at h hp f" "dom f = dom g" "\<And>k v. g k = Some v \<Longrightarrow> \<exists>q. f k = Some (VString q) \<and> str_at h q v"
    using assms(1) by (auto simp: headers_at_def)
  from map_set_step [OF map_at_ext [OF ext f(1)], of k "VString (nxt h)"] assms(2,3) f(2) obtain h' where h':
    "map_set ?h hp k (VString (nxt h)) = Some h'" "map_at h' hp (f(k \<mapsto> VString (nxt h)))" "heap_ok h'" "strs h' = strs ?h"
    "nxt h' = nxt ?h" "\<forall>q. q \<noteq> hp \<longrightarrow> objs h' q = objs ?h q" by (auto simp: heap_simps)
  have "str_at h' q w" if "str_at h q w" for q w using str_at_ext [OF ext that] str_at_cong [OF h'(4)] by simp
  moreover have "str_at h' (nxt h) v" using str_at_new [OF assms(2)] str_at_cong [OF h'(4)] by simp
  ultimately have "headers_at h' hp (g(k \<mapsto> v))" using f h'(2) unfolding headers_at_def
    by (intro exI [of _ "f(k \<mapsto> VString (nxt h))"]) fastforce
  with new h' ext show ?thesis by (auto simp: heap_ext_def heap_simps)
qed

lemma live_heap:
  assumes "live todo m sp rp hp s xs g" "headers_at h hp g'" "heap_ok h" "nxt (ft_heap s) \<le> nxt h"
    "card (dom g') + length (todo (ft_net s)) \<le> HM_LIMIT"
  shows "live todo m sp rp hp (s\<lparr>ft_heap := h\<rparr>) xs g'"
  using assms by (fastforce simp: live_def chunks_rep_def queue_at_def)

lemma card_dom_upd_le: "finite (dom g) \<Longrightarrow> card (dom (g(k \<mapsto> v))) \<le> Suc (card (dom g))"
  by (simp add: card_insert_if)

lemma headers_finite: "headers_at h hp g \<Longrightarrow> finite (dom g)"
  unfolding headers_at_def map_at_def hm_lookup_def by (metis finite_dom_map_of)

lemma deliver_ok:
  assumes "live todo m sp rp hp s xs g" "card (dom g) + length (todo (ft_net s)) < HM_LIMIT"
  shows "\<exists>s'. deliver sp s d = Some s' \<and> live todo m sp rp hp s' (xs @ pieces [d]) (fields g [d]) \<and>
    (ended sp s' \<longleftrightarrow> ended sp s) \<and> ft_net s' = ft_net s \<and> fstep sp hp s s' \<and> card (dom (fields g [d])) \<le> Suc (card (dom g))"
proof (cases d)
  case (BodyPiece b)
  show ?thesis
  proof (cases "b = []")
    case False
    with assms(1) enqueue_ok [of sp s xs b] obtain s' where
      "fetch_chunk_enqueue sp b s = Some s'" "chunks_rep sp s' (xs @ [b])" "qstep sp s s'" by (auto simp: live_def)
    with live_queue [OF assms(1), of s' "xs @ [b]"] assms(1) False BodyPiece show ?thesis
      by (auto simp: deliver_def stream_write_callback_def live_def chunks_rep_def)
  qed (use assms BodyPiece in \<open>simp add: deliver_def stream_write_callback_def\<close>)
next
  case (HeaderLine l)
  obtain st where st: "ft_streams s sp = Some st" "fs_hdrs st = hp" using assms(1) by (auto simp: live_def)
  show ?thesis
  proof (cases "header_field l")
    case None
    then show ?thesis using assms HeaderLine st by (simp add: deliver_def header_callback_def)
  next
    case (Some kv)
    obtain k v where kv: "kv = (k, v)" by (cases kv)
    have h: "headers_at (ft_heap s) hp g" "heap_ok (ft_heap s)" using assms(1) by (auto simp: live_def)
    from headers_at_set [OF h, of v k] header_field_NUL [of l k v] Some kv assms(2) obtain q h' where q:
      "ts_string_new (ft_heap s) v = Some (q, snd (new_str (ft_heap s) v))"
      "map_set (snd (new_str (ft_heap s) v)) hp k (VString q) = Some h'" "headers_at h' hp (g(k \<mapsto> v))" "heap_ok h'"
      "strs (ft_heap s) \<subseteq>\<^sub>m strs h'" "nxt (ft_heap s) \<le> nxt h'" "\<forall>p. p \<noteq> hp \<longrightarrow> objs h' p = objs (ft_heap s) p" by auto
    note card = card_dom_upd_le [OF headers_finite [OF h(1)], of k v]
    have "live todo m sp rp hp (s\<lparr>ft_heap := h'\<rparr>) xs (g(k \<mapsto> v))"
      using live_heap [OF assms(1) q(3,4,6)] card assms(2) by simp
    moreover have "deliver sp s d = Some (s\<lparr>ft_heap := h'\<rparr>)"
      using HeaderLine st Some kv q(1,2) by (simp add: deliver_def header_callback_def fnew_string_def)
    moreover have "fstep sp hp s (s\<lparr>ft_heap := h'\<rparr>)" using q by (simp add: fstep_def)
    ultimately show ?thesis using HeaderLine Some kv card by (auto simp: ended_def)
  qed
qed

lemma delivers_ok:
  "live todo m sp rp hp s xs g \<Longrightarrow> card (dom g) + length ds + length (todo (ft_net s)) \<le> HM_LIMIT \<Longrightarrow>
   \<exists>s'. foldo (deliver sp) s ds = Some s' \<and> live todo m sp rp hp s' (xs @ pieces ds) (fields g ds) \<and>
     (ended sp s' \<longleftrightarrow> ended sp s) \<and> ft_net s' = ft_net s \<and> fstep sp hp s s'"
proof (induction ds arbitrary: s xs g)
  case (Cons d ds)
  from Cons.prems deliver_ok [of todo m sp rp hp s xs g d] obtain s1 where s1: "deliver sp s d = Some s1"
    "live todo m sp rp hp s1 (xs @ pieces [d]) (fields g [d])" "ended sp s1 \<longleftrightarrow> ended sp s" "ft_net s1 = ft_net s"
    "fstep sp hp s s1" "card (dom (fields g [d])) \<le> Suc (card (dom g))" by auto
  from Cons.IH [OF s1(2)] s1(4,6) Cons.prems(2) obtain s2 where s2: "foldo (deliver sp) s1 ds = Some s2"
    "live todo m sp rp hp s2 ((xs @ pieces [d]) @ pieces ds) (fields (fields g [d]) ds)"
    "ended sp s2 \<longleftrightarrow> ended sp s1" "ft_net s2 = ft_net s1" "fstep sp hp s1 s2" by auto
  have "(xs @ pieces [d]) @ pieces ds = xs @ pieces (d # ds)" "fields (fields g [d]) ds = fields g (d # ds)"
    using pieces_append [of "[d]" ds] fields_append [of g "[d]" ds] by simp_all
  with s1 s2 show ?case using fstep_trans [OF s1(5) s2(5)] by auto
qed auto

lemma perform_ok:
  assumes "live todo m sp rp hp s xs g" "curl_ok cu m todo waits"
  shows "\<exists>still ds s'. curl_multi_perform cu sp m s = Some (True, still, s') \<and> 0 \<le> still \<and>
    live todo m sp rp hp s' (xs @ pieces ds) (fields g ds) \<and> (ended sp s' \<longleftrightarrow> ended sp s) \<and>
    todo (ft_net s) = ds @ todo (ft_net s') \<and> fstep sp hp s s' \<and> (still = 0 \<longrightarrow> todo (ft_net s') = []) \<and>
    (still \<noteq> 0 \<longrightarrow> waits (ft_net s') < waits (ft_net s))"
proof -
  obtain ok still ds n where p: "cu_perform cu m (ft_net s) = (ok, still, ds, n)" by (cases "cu_perform cu m (ft_net s)") auto
  with assms(2) have n: "ok" "0 \<le> still" "todo (ft_net s) = ds @ todo n" "still = 0 \<longrightarrow> todo n = []"
    "still \<noteq> 0 \<longrightarrow> waits n < waits (ft_net s)" unfolding curl_ok_def by metis+
  have "live todo m sp rp hp (s\<lparr>ft_net := n\<rparr>) xs g" using assms(1) n(3) by (auto simp: live_def chunks_rep_def queue_at_def)
  from delivers_ok [OF this, of ds] assms(1) n(3) obtain s' where
    "foldo (deliver sp) (s\<lparr>ft_net := n\<rparr>) ds = Some s'" "live todo m sp rp hp s' (xs @ pieces ds) (fields g ds)"
    "ended sp s' \<longleftrightarrow> ended sp (s\<lparr>ft_net := n\<rparr>)" "ft_net s' = n" "fstep sp hp (s\<lparr>ft_net := n\<rparr>) s'" by (auto simp: live_def)
  with p n show ?thesis by (intro exI [of _ still] exI [of _ ds] exI [of _ s']) (auto simp: curl_multi_perform_def fstep_def ended_def)
qed

text \<open>A change of the flags of a live stream.\<close>

definition flags_only :: "(fetch_stream \<Rightarrow> fetch_stream) \<Rightarrow> bool" where
  "flags_only f \<longleftrightarrow> (\<forall>st. fs_head (f st) = fs_head st \<and> fs_tail (f st) = fs_tail st \<and> fs_hConnect (f st) = fs_hConnect st \<and>
     fs_hRequest (f st) = fs_hRequest st \<and> fs_response (f st) = fs_response st \<and> fs_hdrs (f st) = fs_hdrs st \<and>
     fs_closed (f st) = fs_closed st \<and> (fs_transfer_done st \<longrightarrow> fs_transfer_done (f st)))"

lemma flags_ok:
  assumes "live todo m sp rp hp s xs g" "flags_only f"
    and "\<And>st. fs_transfer_done (f st) \<Longrightarrow> \<not> fs_transfer_done st \<Longrightarrow> todo (ft_net s) = []"
  shows "\<exists>st s'. set_stream sp f s = Some s' \<and> live todo m sp rp hp s' xs g \<and> ft_streams s sp = Some st \<and>
    (ended sp s' \<longleftrightarrow> fs_transfer_done (f st)) \<and> ft_net s' = ft_net s \<and> fstep sp hp s s'"
  using assms by (fastforce simp: live_def chunks_rep_def queue_at_def set_stream_def ended_def fstep_def flags_only_def)

text \<open>The messages at the end of a pump.\<close>

lemma messages_ok:
  assumes "live todo m sp rp hp s xs g" "True \<in> set msgs \<longrightarrow> todo (ft_net s) = []"
  shows "\<exists>s'. foldo (\<lambda>s done. if done then finish_transfer sp s else Some s) s msgs = Some s' \<and>
    live todo m sp rp hp s' xs g \<and> ft_net s' = ft_net s \<and> fstep sp hp s s' \<and> (ended sp s \<longrightarrow> ended sp s')"
  using assms
proof (induction msgs arbitrary: s)
  case (Cons b msgs)
  show ?case
  proof (cases b)
    case True
    with Cons.prems flags_ok [OF Cons.prems(1), of "\<lambda>st. st\<lparr>fs_transfer_done := True, fs_still_running := 0\<rparr>"] obtain s1 where
      s1: "finish_transfer sp s = Some s1" "live todo m sp rp hp s1 xs g" "ft_net s1 = ft_net s" "fstep sp hp s s1"
      "ended sp s1" by (auto simp: flags_only_def)
    with Cons.IH [OF s1(2)] Cons.prems(2) True show ?thesis using fstep_trans [OF s1(4)] by fastforce
  qed (use Cons in auto)
qed auto

lemma live_net:
  "live todo m sp rp hp s xs g \<Longrightarrow> todo n = todo (ft_net s) \<Longrightarrow> live todo m sp rp hp (s\<lparr>ft_net := n\<rparr>) xs g"
  by (auto simp: live_def chunks_rep_def queue_at_def)

text \<open>A perform with what the pump does about its result.\<close>

lemma perform_flags_ok:
  assumes "live todo m sp rp hp s xs g" "curl_ok cu m todo waits"
  shows "\<exists>still ds s1 s2. curl_multi_perform cu sp m s = Some (True, still, s1) \<and>
    set_stream sp (\<lambda>st. st\<lparr>fs_still_running := still\<rparr>) s1 = Some s2 \<and> 0 \<le> still \<and>
    live todo m sp rp hp s2 (xs @ pieces ds) (fields g ds) \<and> todo (ft_net s) = ds @ todo (ft_net s2) \<and> fstep sp hp s s2 \<and>
    (still \<noteq> 0 \<longrightarrow> waits (ft_net s2) < waits (ft_net s)) \<and>
    (still = 0 \<longrightarrow> todo (ft_net s2) = [] \<and>
      (\<exists>s3. set_stream sp (\<lambda>st. st\<lparr>fs_transfer_done := True\<rparr>) s2 = Some s3 \<and> ended sp s3 \<and>
        live todo m sp rp hp s3 (xs @ pieces ds) (fields g ds) \<and> ft_net s3 = ft_net s2 \<and> fstep sp hp s2 s3) \<and>
      (\<exists>s3. finish_transfer sp s2 = Some s3 \<and> ended sp s3 \<and> live todo m sp rp hp s3 (xs @ pieces ds) (fields g ds) \<and>
        ft_net s3 = ft_net s2 \<and> fstep sp hp s2 s3))"
proof -
  from perform_ok [OF assms] obtain still ds s1 where s1: "curl_multi_perform cu sp m s = Some (True, still, s1)" "0 \<le> still"
    "live todo m sp rp hp s1 (xs @ pieces ds) (fields g ds)" "todo (ft_net s) = ds @ todo (ft_net s1)" "fstep sp hp s s1"
    "still = 0 \<longrightarrow> todo (ft_net s1) = []" "still \<noteq> 0 \<longrightarrow> waits (ft_net s1) < waits (ft_net s)" by blast
  from flags_ok [OF s1(3), of "\<lambda>st. st\<lparr>fs_still_running := still\<rparr>"] obtain s2 where
    s2: "set_stream sp (\<lambda>st. st\<lparr>fs_still_running := still\<rparr>) s1 = Some s2" "live todo m sp rp hp s2 (xs @ pieces ds) (fields g ds)"
    "ft_net s2 = ft_net s1" "fstep sp hp s1 s2" by (auto simp: flags_only_def)
  have "\<exists>s3. set_stream sp f s2 = Some s3 \<and> ended sp s3 \<and> live todo m sp rp hp s3 (xs @ pieces ds) (fields g ds) \<and>
      ft_net s3 = ft_net s2 \<and> fstep sp hp s2 s3" if "still = 0" "flags_only f" "\<And>st. fs_transfer_done (f st)" for f
    using flags_ok [OF s2(2) that(2)] s1(6) s2(3) that(1,3) by fastforce
  from this [of "\<lambda>st. st\<lparr>fs_transfer_done := True\<rparr>"]
    this [of "\<lambda>st. st\<lparr>fs_transfer_done := True, fs_still_running := 0\<rparr>"] s1 s2 fstep_trans [OF s1(5) s2(4)]
  show ?thesis by (intro exI [of _ still] exI [of _ ds] exI [of _ s1] exI [of _ s2]) (simp add: flags_only_def)
qed

text \<open>The middle of a pump: it waits, and performs again, when no chunk is there yet.\<close>

definition pump_wait :: "'n curl \<Rightarrow> addr \<Rightarrow> int \<Rightarrow> int \<Rightarrow> int \<Rightarrow> 'n fst_state \<Rightarrow> 'n fst_state option" where
  "pump_wait cu sp multi still w s = do {
     st2 \<leftarrow> ft_streams s sp;
     if fs_head st2 = 0 \<and> still > 0 then do {
       let s3 = s\<lparr>ft_net := cu_wait cu multi w (ft_net s)\<rparr>;
       (ok', still', s3) \<leftarrow> curl_multi_perform cu sp multi s3;
       s3 \<leftarrow> set_stream sp (\<lambda>st. st\<lparr>fs_still_running := still'\<rparr>) s3;
       if \<not> ok' \<or> still' = 0 then finish_transfer sp s3 else Some s3 }
     else Some s }"

lemma pump_wait_ok:
  assumes "live todo m sp rp hp s xs g" "curl_ok cu m todo waits" "waits (ft_net s) < b"
  shows "\<exists>ds s'. pump_wait cu sp m still w s = Some s' \<and> live todo m sp rp hp s' (xs @ pieces ds) (fields g ds) \<and>
    todo (ft_net s) = ds @ todo (ft_net s') \<and> fstep sp hp s s' \<and> (ended sp s' \<or> waits (ft_net s') < b)"
proof -
  obtain st where st: "ft_streams s sp = Some st" using assms(1) by (auto simp: live_def)
  show ?thesis
  proof (cases "fs_head st = 0 \<and> still > 0")
    case True
    let ?s = "s\<lparr>ft_net := cu_wait cu m w (ft_net s)\<rparr>"
    have wt: "todo (ft_net ?s) = todo (ft_net s)" "waits (ft_net ?s) \<le> waits (ft_net s)" "fstep sp hp s ?s"
      using assms(2) by (simp_all add: curl_ok_def fstep_def)
    have "live todo m sp rp hp ?s xs g" using live_net [OF assms(1)] wt(1) by simp
    from perform_flags_ok [OF this assms(2)] obtain still' ds s1 s2 where
      p: "curl_multi_perform cu sp m ?s = Some (True, still', s1)" "set_stream sp (\<lambda>st. st\<lparr>fs_still_running := still'\<rparr>) s1 = Some s2"
      "live todo m sp rp hp s2 (xs @ pieces ds) (fields g ds)" "todo (ft_net ?s) = ds @ todo (ft_net s2)" "fstep sp hp ?s s2"
      "still' \<noteq> 0 \<longrightarrow> waits (ft_net s2) < waits (ft_net ?s)"
      "still' = 0 \<longrightarrow> (\<exists>s3. finish_transfer sp s2 = Some s3 \<and> ended sp s3 \<and>
         live todo m sp rp hp s3 (xs @ pieces ds) (fields g ds) \<and> ft_net s3 = ft_net s2 \<and> fstep sp hp s2 s3)" by blast
    show ?thesis
    proof (cases "still' = 0")
      case True': True
      with p(7) obtain s3 where s3: "finish_transfer sp s2 = Some s3" "ended sp s3"
         "live todo m sp rp hp s3 (xs @ pieces ds) (fields g ds)" "ft_net s3 = ft_net s2" "fstep sp hp s2 s3" by blast
      with p(1,2,4) wt(1) st True True' fstep_trans [OF fstep_trans [OF wt(3) p(5)] s3(5)] show ?thesis by (auto simp: pump_wait_def)
    next
      case False
      with p(1-4,6) st True wt(1,2) assms(3) fstep_trans [OF wt(3) p(5)] show ?thesis
        by (intro exI [of _ ds] exI [of _ s2]) (auto simp: pump_wait_def)
    qed
  next
    case False
    with assms(1,3) st show ?thesis by (intro exI [of _ "[]"] exI [of _ s]) (auto simp: pump_wait_def)
  qed
qed

lemma curl_stream_pump_eq:
  "ft_streams s sp = Some st \<Longrightarrow> sp \<noteq> 0 \<Longrightarrow> \<not> fs_closed st \<Longrightarrow> fs_hConnect st = m \<Longrightarrow> m \<noteq> 0 \<Longrightarrow> fs_hRequest st \<noteq> 0 \<Longrightarrow>
   curl_multi_perform cu sp m s = Some (True, still, s1) \<Longrightarrow>
   set_stream sp (\<lambda>st. st\<lparr>fs_still_running := still\<rparr>) s1 = Some s2 \<Longrightarrow>
   curl_stream_pump cu sp w s = (if still = 0 then set_stream sp (\<lambda>st. st\<lparr>fs_transfer_done := True\<rparr>) s2
     else do {
       s4 \<leftarrow> pump_wait cu sp m still (if w > 0 then w else 1000) s2;
       let (msgs, n) = cu_info cu m (ft_net s4);
       foldo (\<lambda>s done. if done then finish_transfer sp s else Some s) (s4\<lparr>ft_net := n\<rparr>) msgs })"
  by (simp add: curl_stream_pump_def pump_wait_def Let_def bind_assoc cong: if_cong)

lemma pump_ok:
  assumes "live todo m sp rp hp s xs g" "curl_ok cu m todo waits"
  shows "\<exists>ds s'. curl_stream_pump cu sp w s = Some s' \<and> live todo m sp rp hp s' (xs @ pieces ds) (fields g ds) \<and>
    todo (ft_net s) = ds @ todo (ft_net s') \<and> fstep sp hp s s' \<and> (ended sp s' \<or> waits (ft_net s') < waits (ft_net s))"
proof -
  obtain st where st: "ft_streams s sp = Some st" "sp \<noteq> 0" "\<not> fs_closed st" "fs_hConnect st = m" "m \<noteq> 0" "fs_hRequest st \<noteq> 0"
    using assms(1) by (auto simp: live_def chunks_rep_def)
  from perform_flags_ok [OF assms] obtain still ds s1 s2 where
    p: "curl_multi_perform cu sp m s = Some (True, still, s1)" "set_stream sp (\<lambda>st. st\<lparr>fs_still_running := still\<rparr>) s1 = Some s2"
    "live todo m sp rp hp s2 (xs @ pieces ds) (fields g ds)" "todo (ft_net s) = ds @ todo (ft_net s2)" "fstep sp hp s s2"
    "still \<noteq> 0 \<longrightarrow> waits (ft_net s2) < waits (ft_net s)"
    "still = 0 \<longrightarrow> (\<exists>s3. set_stream sp (\<lambda>st. st\<lparr>fs_transfer_done := True\<rparr>) s2 = Some s3 \<and> ended sp s3 \<and>
       live todo m sp rp hp s3 (xs @ pieces ds) (fields g ds) \<and> ft_net s3 = ft_net s2 \<and> fstep sp hp s2 s3)" by blast
  note eq = curl_stream_pump_eq [OF st p(1,2), of w]
  show ?thesis
  proof (cases "still = 0")
    case True
    with p(7) obtain s3 where "set_stream sp (\<lambda>st. st\<lparr>fs_transfer_done := True\<rparr>) s2 = Some s3" "ended sp s3"
       "live todo m sp rp hp s3 (xs @ pieces ds) (fields g ds)" "ft_net s3 = ft_net s2" "fstep sp hp s2 s3" by blast
    with True p(4) fstep_trans [OF p(5)] show ?thesis by (auto simp: eq)
  next
    case False
    with pump_wait_ok [OF p(3) assms(2), of "waits (ft_net s)" still "if w > 0 then w else 1000"] p(6) obtain ds' s4 where
      q: "pump_wait cu sp m still (if w > 0 then w else 1000) s2 = Some s4"
      "live todo m sp rp hp s4 ((xs @ pieces ds) @ pieces ds') (fields (fields g ds) ds')"
      "todo (ft_net s2) = ds' @ todo (ft_net s4)" "fstep sp hp s2 s4" "ended sp s4 \<or> waits (ft_net s4) < waits (ft_net s)" by blast
    obtain msgs n where i: "cu_info cu m (ft_net s4) = (msgs, n)" by fastforce
    then have n: "todo n = todo (ft_net s4)" "waits n \<le> waits (ft_net s4)" "True \<in> set msgs \<longrightarrow> todo (ft_net s4) = []"
      using assms(2) unfolding curl_ok_def by blast+
    have "True \<in> set msgs \<longrightarrow> todo (ft_net (s4\<lparr>ft_net := n\<rparr>)) = []" using n(1,3) by simp
    from messages_ok [OF live_net [where n = n, OF q(2) n(1)] this] obtain s5 where
      r: "foldo (\<lambda>s done. if done then finish_transfer sp s else Some s) (s4\<lparr>ft_net := n\<rparr>) msgs = Some s5"
      "live todo m sp rp hp s5 ((xs @ pieces ds) @ pieces ds') (fields (fields g ds) ds')" "ft_net s5 = ft_net (s4\<lparr>ft_net := n\<rparr>)"
      "fstep sp hp (s4\<lparr>ft_net := n\<rparr>) s5" "ended sp (s4\<lparr>ft_net := n\<rparr>) \<longrightarrow> ended sp s5" by blast
    have "fstep sp hp s5' s5" if "ft_heap s5' = ft_heap s4" "ft_streams s5' = ft_streams s4" "ft_readers s5' = ft_readers s4" for s5'
      using r(4) that unfolding fstep_def by simp
    from fstep_trans [OF fstep_trans [OF p(5) q(4)] this] have "fstep sp hp s s5" by blast
    moreover have "ended sp s5 \<or> waits n < waits (ft_net s)" using q(5) r(5) n(2) by (auto simp: ended_def)
    moreover have "curl_stream_pump cu sp w s = Some s5" using False q(1) i r(1) by (simp add: eq Let_def)
    moreover have "todo (ft_net s) = (ds @ ds') @ todo (ft_net s5)" using p(4) q(3) r(3) n(1) by simp
    moreover have "live todo m sp rp hp s5 (xs @ pieces (ds @ ds')) (fields g (ds @ ds'))" using r(2) by simp
    moreover have "ft_net s5 = n" using r(3) by simp
    ultimately show ?thesis by blast
  qed
qed

subsection \<open>Draining\<close>

lemma pump_all_ok:
  assumes "live todo m sp rp hp s xs g" "curl_ok cu m todo waits"
  shows "\<exists>s'. pump_all cu sp s = Some s' \<and> live todo m sp rp hp s' (xs @ pieces (todo (ft_net s))) (fields g (todo (ft_net s))) \<and>
    todo (ft_net s') = [] \<and> fstep sp hp s s'"
  using assms(1)
proof (induction "waits (ft_net s)" arbitrary: s xs g rule: less_induct)
  case less
  obtain st where st: "ft_streams s sp = Some st" "fs_hConnect st \<noteq> 0" "fs_transfer_done st \<longrightarrow> todo (ft_net s) = []"
    using less.prems by (auto simp: live_def)
  show ?case
  proof (cases "fs_transfer_done st")
    case True
    with st less.prems show ?thesis by (subst pump_all.simps) simp
  next
    case False
    with st have step: "pump_all cu sp s = do { s1 \<leftarrow> curl_stream_pump cu sp 1000 s; pump_all cu sp s1 }"
      by (subst pump_all.simps) simp
    from pump_ok [OF less.prems assms(2), of 1000] obtain ds s1 where s1: "curl_stream_pump cu sp 1000 s = Some s1"
      "live todo m sp rp hp s1 (xs @ pieces ds) (fields g ds)" "todo (ft_net s) = ds @ todo (ft_net s1)" "fstep sp hp s s1"
      "ended sp s1 \<or> waits (ft_net s1) < waits (ft_net s)" by blast
    have "\<exists>s'. pump_all cu sp s1 = Some s' \<and>
      live todo m sp rp hp s' ((xs @ pieces ds) @ pieces (todo (ft_net s1))) (fields (fields g ds) (todo (ft_net s1))) \<and>
      todo (ft_net s') = [] \<and> fstep sp hp s1 s'"
    proof (cases "ended sp s1")
      case True
      then have "todo (ft_net s1) = []" using s1(2) by (auto simp: live_def ended_def)
      moreover have "pump_all cu sp s1 = Some s1" using True by (subst pump_all.simps) (auto simp: ended_def)
      ultimately show ?thesis using s1(2) by simp
    next
      case False
      with s1(5) less.hyps [OF _ s1(2)] show ?thesis by blast
    qed
    then obtain s' where "pump_all cu sp s1 = Some s'" "todo (ft_net s') = []" "fstep sp hp s1 s'"
      "live todo m sp rp hp s' ((xs @ pieces ds) @ pieces (todo (ft_net s1))) (fields (fields g ds) (todo (ft_net s1)))" by blast
    with step s1(1,3) fstep_trans [OF s1(4)] show ?thesis by auto
  qed
qed

lemma flatten_ok:
  "live todo m sp rp hp s xs g \<Longrightarrow>
   \<exists>s'. flatten_queue sp b s = Some (b @ concat xs, s') \<and> live todo m sp rp hp s' [] g \<and> fstep sp hp s s' \<and> ft_net s' = ft_net s"
proof (induction xs arbitrary: b s)
  case Nil
  then have "take_chunk sp s = Some (None, s)" by (intro take_chunk_Nil) (simp add: live_def)
  with Nil show ?case by (subst flatten_queue.simps) simp
next
  case (Cons d xs)
  then have "chunks_rep sp s (d # xs)" by (simp add: live_def)
  from take_chunk_ok [OF this] obtain s1 where s1: "take_chunk sp s = Some (Some d, s1)" "chunks_rep sp s1 xs" "qstep sp s s1" by blast
  from live_queue [OF Cons.prems s1(3,2)] have l: "live todo m sp rp hp s1 xs g" "ft_net s1 = ft_net s" "fstep sp hp s s1" by blast+
  from Cons.IH [OF l(1), of "b @ d"] obtain s2 where s2: "flatten_queue sp (b @ d) s1 = Some ((b @ d) @ concat xs, s2)"
    "live todo m sp rp hp s2 [] g" "fstep sp hp s1 s2" "ft_net s2 = ft_net s1" by blast
  have "flatten_queue sp b s = flatten_queue sp (b @ d) s1" by (subst flatten_queue.simps) (simp add: s1(1))
  with s2 l(2) fstep_trans [OF l(3) s2(3)] show ?case by auto
qed

lemma free_chunks_ok:
  "cchain (ft_chunks s) p ns \<Longrightarrow> distinct (map fst ns) \<Longrightarrow> \<exists>cs. free_chunks p s = Some (s\<lparr>ft_chunks := cs\<rparr>)"
proof (induction ns arbitrary: p s)
  case Nil
  then show ?case by (subst free_chunks.simps) (auto intro: exI [of _ "ft_chunks s"])
next
  case (Cons n ns)
  obtain a d where n: "n = (a, d)" by (cases n)
  with Cons.prems obtain c where c: "ft_chunks s a = Some c" "cchain (ft_chunks s) (c_next c) ns" "p = a" "a \<noteq> 0" "a \<notin> fst ` set ns"
    by auto
  then have "cchain (ft_chunks (free_chunk a s)) (c_next c) ns" by (simp add: free_chunk_def cchain_upd)
  from Cons.IH [OF this] Cons.prems(2) obtain cs where "free_chunks (c_next c) (free_chunk a s) = Some ((free_chunk a s)\<lparr>ft_chunks := cs\<rparr>)" by auto
  with c show ?case by (subst free_chunks.simps) (auto simp: free_chunk_def)
qed

lemma response_at_Some: "response_at s p = Some r \<longleftrightarrow> objs (ft_heap s) p = Some (OResponse r)"
  by (auto simp: response_at_def split: option.splits object.splits)

text \<open>The state after a stream was closed: its handles and chunks are gone, and its response is complete.\<close>

definition after_close :: "addr \<Rightarrow> addr \<Rightarrow> fetch_response \<Rightarrow> 'n fst_state \<Rightarrow> 'n fst_state \<Rightarrow> bool" where
  "after_close sp rp r s s' \<longleftrightarrow>
     (\<exists>st. ft_streams s' sp = Some st \<and> fs_closed st \<and> fs_hRequest st = 0 \<and> fs_hConnect st = 0 \<and> fs_hSession st = [] \<and>
        fs_head st = 0 \<and> fs_transfer_done st) \<and>
     ft_heap s' = put_obj (ft_heap s) rp (OResponse (r\<lparr>f_stream := 0, f_body_complete := True\<rparr>)) \<and>
     ft_readers s' = ft_readers s \<and> (\<forall>p. p \<noteq> sp \<longrightarrow> ft_streams s' p = ft_streams s p)"

lemma close_ok:
  assumes "live todo m sp rp hp s xs g" "response_at s rp = Some r" "rp \<noteq> 0"
  shows "\<exists>s'. fetch_stream_close cu sp s = Some s' \<and> after_close sp rp r s s'"
proof -
  obtain st ns where st: "ft_streams s sp = Some st" "sp \<noteq> 0" "\<not> fs_closed st" "fs_response st = rp"
    "cchain (ft_chunks s) (fs_head st) ns" "distinct (map fst ns)"
    using assms(1) by (auto simp: live_def chunks_rep_def queue_at_def)
  have "\<exists>cs. free_chunks (fs_head st) s' = Some (s'\<lparr>ft_chunks := cs\<rparr>)" if "ft_chunks s' = ft_chunks s" for s' :: "'a fst_state"
    using free_chunks_ok [of s' "fs_head st" ns] st(5,6) that by simp
  then obtain F where "free_chunks (fs_head st) s' = Some (s'\<lparr>ft_chunks := F s'\<rparr>)" if "ft_chunks s' = ft_chunks s" for s' :: "'a fst_state"
    by metis
  moreover have "response_at s' rp = Some r" if "ft_heap s' = ft_heap s" for s' :: "'a fst_state"
    using assms(2) that by (simp add: response_at_def)
  ultimately show ?thesis using st(1-4) assms(3)
    by (simp add: fetch_stream_close_def set_stream_def fetch_chunk_free_all_def Let_def set_response_def after_close_def)
qed

lemma live_response:
  "live todo m sp rp hp s xs g \<Longrightarrow> response_at s rp = Some r \<Longrightarrow> rp \<noteq> hp"
  by (auto simp: live_def headers_at_def map_at_def response_at_Some)

lemma fstep_response: "fstep sp hp s s' \<Longrightarrow> rp \<noteq> hp \<Longrightarrow> response_at s' rp = response_at s rp"
  by (simp add: fstep_def response_at_def)

lemma fstep_str: "fstep sp hp s s' \<Longrightarrow> str_at (ft_heap s) p b \<Longrightarrow> str_at (ft_heap s') p b"
  by (auto simp: fstep_def str_at_def map_le_def dom_def)

text \<open>A new string in a live state: a text ends at its first NUL.\<close>

lemma fnew_ok:
  assumes "heap_ok (ft_heap s)" "int (length d) \<le> int32_max"
  shows "\<exists>q. fnew_string d s = Some (q, s\<lparr>ft_heap := snd (new_str (ft_heap s) (cstr d))\<rparr>) \<and>
    str_at (snd (new_str (ft_heap s) (cstr d))) q (cstr d)"
proof -
  have "length (cstr d) \<le> length d" by (simp add: cstr_def length_takeWhile_le)
  then have "int (length (cstr d)) \<le> int32_max" using assms(2) by linarith
  then have "ts_string_new (ft_heap s) d = Some (new_str (ft_heap s) (cstr d))"
    by (simp add: ts_string_new_def strlen_def fits32I)
  then show ?thesis using str_at_new [OF assms(1), of "cstr d"] by (simp add: fnew_string_def) (simp add: new_str_def)
qed

text \<open>Everything that is still to come is appended to the body, and the stream is freed.\<close>

lemma drain_ok:
  assumes l: "live todo m sp rp hp s xs g" "curl_ok cu m todo waits" and r: "response_at s rp = Some r" "rp \<noteq> 0"
    and f: "f_stream r = sp" "\<not> f_body_complete r" and b: "str_at (ft_heap s) (f_body r) b"
    and d: "d = b @ concat xs @ concat (pieces (todo (ft_net s)))" "int (length d) \<le> int32_max"
  shows "\<exists>s' q. fetch_stream_drain cu rp s = Some s' \<and>
    response_at s' rp = Some (r\<lparr>f_body := q, f_stream := 0, f_body_complete := True\<rparr>) \<and> str_at (ft_heap s') q (cstr d) \<and>
    headers_at (ft_heap s') hp (fields g (todo (ft_net s))) \<and> heap_ok (ft_heap s') \<and>
    ft_streams s' sp = None \<and> ft_readers s' = ft_readers s"
proof -
  note ne = live_response [OF l(1) r(1)]
  obtain st where st: "ft_streams s sp = Some st" "\<not> fs_closed st" "sp \<noteq> 0" using l(1) by (auto simp: live_def chunks_rep_def)
  from pump_all_ok [OF l] obtain s1 where s1: "pump_all cu sp s = Some s1" "fstep sp hp s s1"
    "live todo m sp rp hp s1 (xs @ pieces (todo (ft_net s))) (fields g (todo (ft_net s)))" by blast
  from flatten_ok [OF s1(3), of b] obtain s2 where s2: "flatten_queue sp b s1 = Some (d, s2)"
    "live todo m sp rp hp s2 [] (fields g (todo (ft_net s)))" "fstep sp hp s1 s2" by (auto simp: d(1))
  note t2 = fstep_trans [OF s1(2) s2(3)]
  have ok2: "heap_ok (ft_heap s2)" "headers_at (ft_heap s2) hp (fields g (todo (ft_net s)))" using s2(2) by (auto simp: live_def)
  let ?h3 = "snd (new_str (ft_heap s2) (cstr d))"
  from fnew_ok [OF ok2(1) d(2)] obtain q where q: "fnew_string d s2 = Some (q, s2\<lparr>ft_heap := ?h3\<rparr>)" "str_at ?h3 q (cstr d)" by blast
  have r2: "objs (ft_heap s2) rp = Some (OResponse r)" using fstep_response [OF t2 ne] r(1) by (simp add: response_at_Some)
  let ?h4 = "put_obj ?h3 rp (OResponse (r\<lparr>f_body := q\<rparr>))"
  let ?s4 = "s2\<lparr>ft_heap := ?h4\<rparr>"
  have ext: "heap_ext (ft_heap s2) ?h3" using ok2(1) by (rule heap_ext_new)
  have h4: "headers_at ?h4 hp (fields g (todo (ft_net s)))"
    using headers_at_cong [OF ok2(2)] ext ne by (simp add: heap_simps heap_ext_def)
  have ok4: "heap_ok ?h4" using ok2(1) r2 by (simp add: heap_simps)
  have l4: "live todo m sp rp hp ?s4 [] (fields g (todo (ft_net s)))"
    using live_heap [OF s2(2) h4 ok4] s2(2) by (simp add: heap_simps live_def)
  have r4: "response_at ?s4 rp = Some (r\<lparr>f_body := q\<rparr>)" by (simp add: response_at_Some heap_simps)
  from close_ok [OF l4 r4 r(2)] obtain s5 where s5: "fetch_stream_close cu sp ?s4 = Some s5" "after_close sp rp (r\<lparr>f_body := q\<rparr>) ?s4 s5" by blast
  let ?r5 = "r\<lparr>f_body := q, f_stream := 0, f_body_complete := True\<rparr>"
  have r5: "response_at s5 rp = Some ?r5" "ft_heap s5 = put_obj ?h4 rp (OResponse ?r5)" "ft_readers s5 = ft_readers s"
    using s5(2) t2 by (simp_all add: after_close_def response_at_Some heap_simps fstep_def)
  have str: "str_data (ft_heap s) (f_body r) = Some b" "f_body r \<noteq> 0" using b by (auto simp: str_at_nonnull)
  have "fetch_stream_drain cu rp s = Some (s5\<lparr>ft_heap := put_obj (ft_heap s5) rp (OResponse ?r5), ft_streams := (ft_streams s5)(sp := None)\<rparr>)"
    using r f st s1(1) s2(1) q(1) r2 s5(1) r5(1) str
    by (simp add: fetch_stream_drain_def Let_def body_bytes_def set_response_def response_at_def heap_simps)
  moreover have "headers_at (put_obj ?h4 rp (OResponse ?r5)) hp (fields g (todo (ft_net s)))"
    using headers_at_cong [OF h4] ne by (simp add: heap_simps)
  moreover have "str_at (put_obj ?h4 rp (OResponse ?r5)) q (cstr d)" using q(2) by (simp add: str_at_def heap_simps)
  moreover have "heap_ok (put_obj ?h4 rp (OResponse ?r5))" using ok2(1) r2 by (simp add: heap_simps)
  ultimately show ?thesis using r5 by (intro exI [of _ q] exI) (auto simp: response_at_Some heap_simps)
qed

subsection \<open>Reading\<close>

lemma pump_chunk_ok:
  assumes "live todo m sp rp hp s xs g" "curl_ok cu m todo waits"
  shows "\<exists>ds s'. pump_chunk cu sp s = Some s' \<and> live todo m sp rp hp s' (xs @ pieces ds) (fields g ds) \<and>
    todo (ft_net s) = ds @ todo (ft_net s') \<and> fstep sp hp s s' \<and> (xs @ pieces ds = [] \<longrightarrow> todo (ft_net s') = [])"
  using assms(1)
proof (induction "waits (ft_net s)" arbitrary: s xs g rule: less_induct)
  case less
  obtain st ns where st: "ft_streams s sp = Some st" "\<not> fs_closed st" "fs_transfer_done st \<longrightarrow> todo (ft_net s) = []"
    "cchain (ft_chunks s) (fs_head st) ns" "map snd ns = xs"
    using less.prems by (auto simp: live_def chunks_rep_def queue_at_def)
  have hd: "fs_head st = 0 \<longleftrightarrow> xs = []" using st(4,5) by (cases ns) auto
  show ?case
  proof (cases "xs = [] \<and> \<not> fs_transfer_done st")
    case False
    then have "pump_chunk cu sp s = Some s" using st hd by (subst pump_chunk.simps) auto
    with False st(3) less.prems show ?thesis by (intro exI [of _ "[]"] exI [of _ s]) auto
  next
    case True
    with st hd have step: "pump_chunk cu sp s = do { s1 \<leftarrow> curl_stream_pump cu sp 1000 s; pump_chunk cu sp s1 }"
      by (subst pump_chunk.simps) simp
    from pump_ok [OF less.prems assms(2), of 1000] obtain ds s1 where s1: "curl_stream_pump cu sp 1000 s = Some s1"
      "live todo m sp rp hp s1 (xs @ pieces ds) (fields g ds)" "todo (ft_net s) = ds @ todo (ft_net s1)" "fstep sp hp s s1"
      "ended sp s1 \<or> waits (ft_net s1) < waits (ft_net s)" by blast
    have "\<exists>ds' s'. pump_chunk cu sp s1 = Some s' \<and> live todo m sp rp hp s' ((xs @ pieces ds) @ pieces ds') (fields (fields g ds) ds') \<and>
      todo (ft_net s1) = ds' @ todo (ft_net s') \<and> fstep sp hp s1 s' \<and> ((xs @ pieces ds) @ pieces ds' = [] \<longrightarrow> todo (ft_net s') = [])"
    proof (cases "ended sp s1")
      case True
      then have "todo (ft_net s1) = []" using s1(2) by (auto simp: live_def ended_def)
      moreover have "pump_chunk cu sp s1 = Some s1" using True by (subst pump_chunk.simps) (auto simp: ended_def)
      ultimately show ?thesis using s1(2) by (intro exI [of _ "[]"] exI [of _ s1]) simp
    next
      case False
      with s1(5) less.hyps [OF _ s1(2)] show ?thesis by blast
    qed
    then obtain ds' s' where "pump_chunk cu sp s1 = Some s'" "live todo m sp rp hp s' ((xs @ pieces ds) @ pieces ds') (fields (fields g ds) ds')"
      "todo (ft_net s1) = ds' @ todo (ft_net s')" "fstep sp hp s1 s'" "(xs @ pieces ds) @ pieces ds' = [] \<longrightarrow> todo (ft_net s') = []" by blast
    with step s1(1,3) fstep_trans [OF s1(4)] show ?thesis by (intro exI [of _ "ds @ ds'"] exI [of _ s']) auto
  qed
qed

text \<open>The object that a read returns.\<close>

definition result_at :: "heap \<Rightarrow> addr \<Rightarrow> bool \<Rightarrow> string \<Rightarrow> bool" where
  "result_at h m dn d \<longleftrightarrow>
     (\<exists>q. map_at h m [''done'' \<mapsto> ts_value_boolean dn, ''value'' \<mapsto> VString q] \<and> str_at h q d)"

definition grown :: "addr set \<Rightarrow> heap \<Rightarrow> heap \<Rightarrow> bool" where
  "grown ms h h' \<longleftrightarrow> heap_ok h' \<and> strs h \<subseteq>\<^sub>m strs h' \<and> nxt h \<le> nxt h' \<and> (\<forall>p. p \<notin> ms \<longrightarrow> p < nxt h \<longrightarrow> objs h' p = objs h p)"

lemma grown_trans: "grown ms h h1 \<Longrightarrow> grown ms h1 h2 \<Longrightarrow> grown ms h h2"
  by (fastforce simp: grown_def intro: map_le_trans)

lemma grown_new: "heap_ok h \<Longrightarrow> grown {} h (snd (new_str h d))" "heap_ok h \<Longrightarrow> grown {} h (snd (new_map h))"
  using heap_ext_new [of h] by (auto simp: grown_def heap_ext_def heap_simps new_map_def)

lemma grown_mono: "grown ms h h' \<Longrightarrow> ms \<subseteq> ns \<Longrightarrow> grown ns h h'"
  by (auto simp: grown_def)

lemma grown_str: "grown ms h h' \<Longrightarrow> str_at h p d \<Longrightarrow> str_at h' p d"
  by (auto simp: grown_def str_at_def map_le_def dom_def)

lemma read_result_ok:
  assumes "heap_ok (ft_heap s)" "map_at (ft_heap s) m Map.empty" "str_at (ft_heap s) q d"
  shows "\<exists>h. read_result m dn q s = Some (VObject m, s\<lparr>ft_heap := h\<rparr>) \<and> result_at h m dn d \<and> grown {m} (ft_heap s) h"
proof -
  from map_set_step [OF assms(2,1), of "''done''" "ts_value_boolean dn"] obtain h1 where h1:
    "map_set (ft_heap s) m ''done'' (ts_value_boolean dn) = Some h1" "map_at h1 m [''done'' \<mapsto> ts_value_boolean dn]" "heap_ok h1"
    "strs h1 = strs (ft_heap s)" "nxt h1 = nxt (ft_heap s)" "\<forall>q. q \<noteq> m \<longrightarrow> objs h1 q = objs (ft_heap s) q" by (auto simp: HM_LIMIT_def)
  from map_set_step [OF h1(2,3), of "''value''" "VString q"] obtain h2 where
    "map_set h1 m ''value'' (VString q) = Some h2" "map_at h2 m [''done'' \<mapsto> ts_value_boolean dn, ''value'' \<mapsto> VString q]" "heap_ok h2"
    "strs h2 = strs h1" "nxt h2 = nxt h1" "\<forall>q. q \<noteq> m \<longrightarrow> objs h2 q = objs h1 q" by (auto simp: HM_LIMIT_def)
  with h1 assms(3) show ?thesis
    by (intro exI [of _ h2]) (auto simp: read_result_def result_at_def grown_def str_at_def)
qed

lemma read_chunk_ok:
  assumes "heap_ok (ft_heap s)" "map_at (ft_heap s) m Map.empty" "int (length d) \<le> int32_max"
  shows "\<exists>h. read_chunk m d s = Some (VObject m, s\<lparr>ft_heap := h\<rparr>) \<and> result_at h m False (cstr d) \<and> grown {m} (ft_heap s) h"
    and "d = [] \<Longrightarrow> \<exists>h. read_end m s = Some (VObject m, s\<lparr>ft_heap := h\<rparr>) \<and> result_at h m True d \<and> grown {m} (ft_heap s) h"
proof -
  let ?h = "snd (new_str (ft_heap s) (cstr d))"
  from fnew_ok [OF assms(1,3)] obtain q where q: "fnew_string d s = Some (q, s\<lparr>ft_heap := ?h\<rparr>)" "str_at ?h q (cstr d)" by blast
  have m: "heap_ok ?h" "map_at ?h m Map.empty" using assms(1,2) map_at_ext [OF heap_ext_new(1)] by (simp_all add: heap_simps)
  have g: "grown {m} (ft_heap s) ?h" using grown_mono [OF grown_new(1) [OF assms(1)]] by simp
  have *: "\<exists>h. read_result m dn q (s\<lparr>ft_heap := ?h\<rparr>) = Some (VObject m, s\<lparr>ft_heap := h\<rparr>) \<and> result_at h m dn (cstr d) \<and> grown {m} (ft_heap s) h" for dn
    using read_result_ok [of "s\<lparr>ft_heap := ?h\<rparr>" m q "cstr d" dn] m q(2) grown_trans [OF g] by auto
  show "\<exists>h. read_chunk m d s = Some (VObject m, s\<lparr>ft_heap := h\<rparr>) \<and> result_at h m False (cstr d) \<and> grown {m} (ft_heap s) h"
    using * [of False] q(1) by (simp add: read_chunk_def)
  show "\<exists>h. read_end m s = Some (VObject m, s\<lparr>ft_heap := h\<rparr>) \<and> result_at h m True d \<and> grown {m} (ft_heap s) h" if "d = []"
    using * [of True] q(1) that by (simp add: read_end_def)
qed

lemma live_grown:
  assumes "live todo m sp rp hp s xs g" "grown ms (ft_heap s) h" "hp \<notin> ms"
  shows "live todo m sp rp hp (s\<lparr>ft_heap := h\<rparr>) xs g"
proof -
  have l: "heap_ok (ft_heap s)" "headers_at (ft_heap s) hp g" using assms(1) by (auto simp: live_def)
  then have "hp < nxt (ft_heap s)" using heap_ok_dom(3) by (fastforce simp: headers_at_def map_at_def)
  then have "headers_at h hp g" using headers_at_cong [OF l(2), of h] assms(2,3) by (simp add: grown_def)
  with live_heap [OF assms(1), of h g] assms(1,2) show ?thesis by (simp add: grown_def live_def)
qed

lemma grown_obj: "grown ms h h' \<Longrightarrow> p \<notin> ms \<Longrightarrow> heap_ok h \<Longrightarrow> objs h p = Some x \<Longrightarrow> objs h' p = Some x"
  using heap_ok_dom(3) by (fastforce simp: grown_def)

lemma cache_chunk_ok:
  assumes "heap_ok (ft_heap s)" "response_at s rp = Some r" "rp \<noteq> 0" "str_at (ft_heap s) (f_body r) b"
    "int (length (b @ d)) \<le> int32_max"
  shows "\<exists>h q. cache_chunk rp d s = Some (s\<lparr>ft_heap := h\<rparr>) \<and> grown {rp} (ft_heap s) h \<and>
    objs h rp = Some (OResponse (r\<lparr>f_body := q\<rparr>)) \<and> str_at h q (cstr (b @ d))"
proof -
  let ?h = "snd (new_str (ft_heap s) (cstr (b @ d)))"
  from fnew_ok [OF assms(1,5)] obtain q where q: "fnew_string (b @ d) s = Some (q, s\<lparr>ft_heap := ?h\<rparr>)" "str_at ?h q (cstr (b @ d))" by blast
  have o: "objs (ft_heap s) rp = Some (OResponse r)" using assms(2) by (simp add: response_at_Some)
  have "cache_chunk rp d s = Some (s\<lparr>ft_heap := put_obj ?h rp (OResponse (r\<lparr>f_body := q\<rparr>))\<rparr>)"
    using assms(2,3,4) str_at_nonnull [OF assms(4)] q(1) o
    by (simp add: cache_chunk_def body_bytes_def set_response_def response_at_def heap_simps)
  moreover have "grown {rp} (ft_heap s) (put_obj ?h rp (OResponse (r\<lparr>f_body := q\<rparr>)))"
    using grown_new(1) [OF assms(1), of "cstr (b @ d)"] o by (auto simp: grown_def heap_simps)
  ultimately show ?thesis using q(2) by (intro exI [of _ "put_obj ?h rp (OResponse (r\<lparr>f_body := q\<rparr>))"] exI [of _ q])
      (simp add: heap_simps str_at_def)
qed

text \<open>
  A reader in the middle of a live stream: the text \<open>b\<close> has been read, the chunks \<open>rest\<close> are still to come,
  and in the end the headers are \<open>G\<close>.
\<close>

definition reading ::
  "('n \<Rightarrow> delivery list) \<Rightarrow> int \<Rightarrow> addr \<Rightarrow> addr \<Rightarrow> addr \<Rightarrow> addr \<Rightarrow> 'n fst_state \<Rightarrow> string \<Rightarrow> string list \<Rightarrow> (string \<rightharpoonup> string) \<Rightarrow> bool" where
  "reading todo m sp rp hp p s b rest G \<longleftrightarrow> p \<noteq> 0 \<and> rp \<noteq> 0 \<and> NUL \<notin> set b \<and>
     (\<exists>xs g r rd. live todo m sp rp hp s xs g \<and> xs @ pieces (todo (ft_net s)) = rest \<and> fields g (todo (ft_net s)) = G \<and>
        response_at s rp = Some r \<and> f_stream r = sp \<and> \<not> f_body_complete r \<and> str_at (ft_heap s) (f_body r) b \<and>
        ft_readers s p = Some rd \<and> rd_stream rd = sp \<and> \<not> rd_done rd)"

definition read_over :: "addr \<Rightarrow> addr \<Rightarrow> addr \<Rightarrow> 'n fst_state \<Rightarrow> string \<Rightarrow> (string \<rightharpoonup> string) \<Rightarrow> bool" where
  "read_over rp hp p s b G \<longleftrightarrow> heap_ok (ft_heap s) \<and> headers_at (ft_heap s) hp G \<and>
     (\<exists>r rd. response_at s rp = Some r \<and> f_body_complete r \<and> str_at (ft_heap s) (f_body r) b \<and>
        ft_readers s p = Some rd \<and> rd_done rd)"

lemma read_begin:
  assumes "reading todo m sp rp hp p s b rest G" "curl_ok cu m todo waits"
  shows "\<exists>n xs g s1 r rd. ts_fetch_reader_read cu (VObject p) s = do {
       (c, s2) \<leftarrow> take_chunk sp s1;
       case c of Some d \<Rightarrow> do { st \<leftarrow> ft_streams s2 sp; s3 \<leftarrow> cache_chunk (fs_response st) d s2; read_chunk n d s3 }
       | None \<Rightarrow> do { s3 \<leftarrow> set_reader p (\<lambda>rd. rd\<lparr>rd_done := True\<rparr>) s2; s4 \<leftarrow> fetch_stream_close cu sp s3; read_end n s4 } } \<and>
     live todo m sp rp hp s1 xs g \<and> xs @ pieces (todo (ft_net s1)) = rest \<and> fields g (todo (ft_net s1)) = G \<and>
     (xs = [] \<longrightarrow> todo (ft_net s1) = []) \<and> response_at s1 rp = Some r \<and> f_stream r = sp \<and> \<not> f_body_complete r \<and>
     str_at (ft_heap s1) (f_body r) b \<and> ft_readers s1 p = Some rd \<and> rd_stream rd = sp \<and> \<not> rd_done rd \<and>
     map_at (ft_heap s1) n Map.empty \<and> n \<noteq> rp \<and> n \<noteq> hp"
proof -
  from assms(1) obtain xs g r rd where a: "p \<noteq> 0" "rp \<noteq> 0" "live todo m sp rp hp s xs g" "xs @ pieces (todo (ft_net s)) = rest"
    "fields g (todo (ft_net s)) = G" "response_at s rp = Some r" "f_stream r = sp" "\<not> f_body_complete r" "str_at (ft_heap s) (f_body r) b"
    "ft_readers s p = Some rd" "rd_stream rd = sp" "\<not> rd_done rd" by (auto simp: reading_def)
  have ok: "heap_ok (ft_heap s)" using a(3) by (simp add: live_def)
  obtain n h where n: "new_map (ft_heap s) = (n, h)" by fastforce
  let ?s = "s\<lparr>ft_heap := h\<rparr>"
  have h: "grown {} (ft_heap s) h" "map_at h n Map.empty" "n = nxt (ft_heap s)"
    using grown_new(2) [OF ok] map_at_new [of "ft_heap s"] by (simp_all add: n)
  have ne: "n \<noteq> rp" "n \<noteq> hp" using a(3,6) heap_ok_dom(3) [OF ok] h(3)
    by (auto simp: live_def headers_at_def map_at_def response_at_Some) blast+
  have l: "live todo m sp rp hp ?s xs g" using live_grown [OF a(3) h(1)] by simp
  obtain st where st: "ft_streams s sp = Some st" "\<not> fs_closed st" "sp \<noteq> 0" using a(3) by (auto simp: live_def chunks_rep_def)
  from pump_chunk_ok [OF l assms(2)] obtain ds s1 where s1: "pump_chunk cu sp ?s = Some s1" "live todo m sp rp hp s1 (xs @ pieces ds) (fields g ds)"
    "todo (ft_net s) = ds @ todo (ft_net s1)" "fstep sp hp ?s s1" "xs @ pieces ds = [] \<longrightarrow> todo (ft_net s1) = []" by auto
  have "objs h rp = Some (OResponse r)" using grown_obj [OF h(1) _ ok] a(6) by (simp add: response_at_Some)
  then have r: "response_at s1 rp = Some r"
    using fstep_response [OF s1(4) live_response [OF a(3,6)]] by (simp add: response_at_def)
  moreover have "str_at (ft_heap s1) (f_body r) b" using fstep_str [OF s1(4)] grown_str [OF h(1) a(9)] by simp
  moreover have "ft_readers s1 p = Some rd" using s1(4) a(10) by (simp add: fstep_def)
  moreover have "map_at (ft_heap s1) n Map.empty"
    using s1(4) ne h(2) map_at_cong [of "ft_heap s1" n h] by (simp add: fstep_def)
  moreover have "ts_fetch_reader_read cu (VObject p) s = read_live cu n p sp ?s"
    using a(1,10-12) st by (simp add: ts_fetch_reader_read_def n Let_def)
  ultimately show ?thesis using a(4,5,7,8,11,12) s1 ne
    by (intro exI [of _ n] exI [of _ "xs @ pieces ds"] exI [of _ "fields g ds"] exI [of _ s1] exI [of _ r] exI [of _ rd])
       (simp add: read_live_def)
qed

lemma read_next:
  assumes "reading todo m sp rp hp p s b (d # rest) G" "curl_ok cu m todo waits"
    and "int (length (b @ d)) \<le> int32_max"
  shows "\<exists>n s'. ts_fetch_reader_read cu (VObject p) s = Some (VObject n, s') \<and> result_at (ft_heap s') n False (cstr d) \<and>
    reading todo m sp rp hp p s' (b @ cstr d) rest G"
proof -
  from read_begin [OF assms(1,2)] obtain n xs g s1 r rd where a:
    "ts_fetch_reader_read cu (VObject p) s = do {
       (c, s2) \<leftarrow> take_chunk sp s1;
       case c of Some d \<Rightarrow> do { st \<leftarrow> ft_streams s2 sp; s3 \<leftarrow> cache_chunk (fs_response st) d s2; read_chunk n d s3 }
       | None \<Rightarrow> do { s3 \<leftarrow> set_reader p (\<lambda>rd. rd\<lparr>rd_done := True\<rparr>) s2; s4 \<leftarrow> fetch_stream_close cu sp s3; read_end n s4 } }"
    "live todo m sp rp hp s1 xs g" "xs @ pieces (todo (ft_net s1)) = d # rest" "fields g (todo (ft_net s1)) = G"
    "xs = [] \<longrightarrow> todo (ft_net s1) = []" "response_at s1 rp = Some r" "f_stream r = sp" "\<not> f_body_complete r"
    "str_at (ft_heap s1) (f_body r) b" "ft_readers s1 p = Some rd" "rd_stream rd = sp" "\<not> rd_done rd"
    "map_at (ft_heap s1) n Map.empty" "n \<noteq> rp" "n \<noteq> hp" by blast
  have nz: "p \<noteq> 0" "rp \<noteq> 0" "NUL \<notin> set b" using assms(1) by (auto simp: reading_def)
  from a(3,5) obtain ys where ys: "xs = d # ys" "ys @ pieces (todo (ft_net s1)) = rest" by (cases xs) auto
  from a(2) ys have "chunks_rep sp s1 (d # ys)" by (simp add: live_def)
  from take_chunk_ok [OF this] obtain s2 where s2: "take_chunk sp s1 = Some (Some d, s2)" "chunks_rep sp s2 ys" "qstep sp s1 s2" by blast
  from live_queue [OF a(2) s2(3,2)] have l2: "live todo m sp rp hp s2 ys g" "ft_net s2 = ft_net s1" "fstep sp hp s1 s2" by blast+
  have ne: "rp \<noteq> hp" using live_response [OF a(2,6)] .
  have r2: "response_at s2 rp = Some r" "str_at (ft_heap s2) (f_body r) b" "ft_readers s2 p = Some rd" "map_at (ft_heap s2) n Map.empty"
    using fstep_response [OF l2(3) ne] fstep_str [OF l2(3)] l2(3) a(6,9,10,13,15) map_at_cong [of "ft_heap s2" n "ft_heap s1"]
    by (auto simp: fstep_def)
  have ok2: "heap_ok (ft_heap s2)" using l2(1) by (simp add: live_def)
  from cache_chunk_ok [OF ok2 r2(1) nz(2) r2(2) assms(3)] obtain h3 q where h3: "cache_chunk rp d s2 = Some (s2\<lparr>ft_heap := h3\<rparr>)"
    "grown {rp} (ft_heap s2) h3" "objs h3 rp = Some (OResponse (r\<lparr>f_body := q\<rparr>))" "str_at h3 q (b @ cstr d)"
    unfolding cstr_append [OF nz(3)] by blast
  have n3: "map_at h3 n Map.empty" using r2(4) grown_obj [OF h3(2) _ ok2, of n] a(14) by (auto simp: map_at_def)
  have ok3: "heap_ok h3" using h3(2) by (simp add: grown_def)
  have len: "int (length d) \<le> int32_max" using assms(3) by simp
  from read_chunk_ok(1) [of "s2\<lparr>ft_heap := h3\<rparr>" n d] ok3 n3 len obtain h4 where h4:
    "read_chunk n d (s2\<lparr>ft_heap := h3\<rparr>) = Some (VObject n, s2\<lparr>ft_heap := h4\<rparr>)" "result_at h4 n False (cstr d)" "grown {n} h3 h4" by auto
  have g4: "grown {rp, n} (ft_heap s2) h4" by (rule grown_trans [OF grown_mono [OF h3(2)] grown_mono [OF h4(3)]]) auto
  have "live todo m sp rp hp (s2\<lparr>ft_heap := h4\<rparr>) ys g" using live_grown [OF l2(1) g4] ne a(15) by auto
  moreover have "response_at (s2\<lparr>ft_heap := h4\<rparr>) rp = Some (r\<lparr>f_body := q\<rparr>)"
    using grown_obj [OF h4(3) _ ok3 h3(3)] a(14) by (simp add: response_at_Some)
  moreover have "str_at h4 q (b @ cstr d)" using grown_str [OF h4(3) h3(4)] .
  ultimately have "reading todo m sp rp hp p (s2\<lparr>ft_heap := h4\<rparr>) (b @ cstr d) rest G"
    using nz ys(2) a(4,7,8,11,12) r2(3) l2(2) unfolding reading_def
    by (intro conjI exI [of _ ys] exI [of _ g] exI [of _ "r\<lparr>f_body := q\<rparr>"] exI [of _ rd]) simp_all
  moreover obtain st where "ft_streams s2 sp = Some st" "fs_response st = rp" using l2(1) by (auto simp: live_def)
  ultimately show ?thesis using a(1) s2(1) h3(1) h4(1,2) by (intro exI [of _ n] exI [of _ "s2\<lparr>ft_heap := h4\<rparr>"]) simp
qed

lemma read_last:
  assumes "reading todo m sp rp hp p s b [] G" "curl_ok cu m todo waits"
  shows "\<exists>n s'. ts_fetch_reader_read cu (VObject p) s = Some (VObject n, s') \<and> result_at (ft_heap s') n True [] \<and>
    read_over rp hp p s' b G"
proof -
  from read_begin [OF assms(1,2)] obtain n xs g s1 r rd where a:
    "ts_fetch_reader_read cu (VObject p) s = do {
       (c, s2) \<leftarrow> take_chunk sp s1;
       case c of Some d \<Rightarrow> do { st \<leftarrow> ft_streams s2 sp; s3 \<leftarrow> cache_chunk (fs_response st) d s2; read_chunk n d s3 }
       | None \<Rightarrow> do { s3 \<leftarrow> set_reader p (\<lambda>rd. rd\<lparr>rd_done := True\<rparr>) s2; s4 \<leftarrow> fetch_stream_close cu sp s3; read_end n s4 } }"
    "live todo m sp rp hp s1 xs g" "xs @ pieces (todo (ft_net s1)) = []" "fields g (todo (ft_net s1)) = G"
    "xs = [] \<longrightarrow> todo (ft_net s1) = []" "response_at s1 rp = Some r"
    "str_at (ft_heap s1) (f_body r) b" "ft_readers s1 p = Some rd" "map_at (ft_heap s1) n Map.empty" "n \<noteq> rp" "n \<noteq> hp" by blast
  have nz: "rp \<noteq> 0" using assms(1) by (auto simp: reading_def)
  have e: "xs = []" "g = G" using a(3,4,5) by auto
  have ne: "rp \<noteq> hp" using live_response [OF a(2,6)] .
  have t: "take_chunk sp s1 = Some (None, s1)" using a(2) e by (intro take_chunk_Nil) (simp add: live_def)
  let ?rd = "rd\<lparr>rd_done := True\<rparr>"
  let ?s3 = "s1\<lparr>ft_readers := (ft_readers s1)(p \<mapsto> ?rd)\<rparr>"
  have "live todo m sp rp hp ?s3 xs g" using a(2) by (simp add: live_def chunks_rep_def queue_at_def)
  moreover have "response_at ?s3 rp = Some r" using a(6) by (simp add: response_at_def)
  ultimately obtain s4 where s4: "fetch_stream_close cu sp ?s3 = Some s4" "after_close sp rp r ?s3 s4" using close_ok nz by blast
  let ?h = "put_obj (ft_heap s1) rp (OResponse (r\<lparr>f_stream := 0, f_body_complete := True\<rparr>))"
  have ok: "heap_ok (ft_heap s1)" "headers_at (ft_heap s1) hp G" using a(2) e by (auto simp: live_def)
  have h4: "ft_heap s4 = ?h" "ft_readers s4 p = Some ?rd" using s4(2) by (simp_all add: after_close_def)
  have ok4: "heap_ok ?h" "headers_at ?h hp G" "map_at ?h n Map.empty" "str_at ?h (f_body r) b"
    using ok a(6,7,9,10) headers_at_cong [OF ok(2), of ?h] ne
    by (simp_all add: heap_simps response_at_Some map_at_def str_at_def)
  from read_chunk_ok(2) [of s4 n "[]"] ok4(1,3) h4(1) obtain h5 where h5: "read_end n s4 = Some (VObject n, s4\<lparr>ft_heap := h5\<rparr>)"
    "result_at h5 n True []" "grown {n} ?h h5" by (auto simp: int32_max_def)
  have "objs h5 rp = Some (OResponse (r\<lparr>f_stream := 0, f_body_complete := True\<rparr>))"
    using grown_obj [OF h5(3) _ ok4(1), of rp] a(10) by (simp add: heap_simps)
  moreover have "headers_at h5 hp G"
    using headers_at_cong [OF ok4(2), of h5] h5(3) a(11) ok4(1,2) grown_obj [OF h5(3) _ ok4(1), of hp]
    by (fastforce simp: grown_def headers_at_def map_at_def)
  ultimately have "read_over rp hp p (s4\<lparr>ft_heap := h5\<rparr>) b G"
    using h5(3) h4(2) grown_str [OF h5(3) ok4(4)] by (simp add: read_over_def response_at_Some grown_def)
  with a(1) t a(8) s4(1) h5(1,2) show ?thesis by (intro exI [of _ n] exI [of _ "s4\<lparr>ft_heap := h5\<rparr>"]) (simp add: set_reader_def)
qed

subsection \<open>A request\<close>

lemma await_status_ok:
  assumes "live todo m sp rp hp s xs g" "curl_ok cu m todo waits"
  shows "\<exists>ds status s'. await_status cu sp easy i st0 s = Some (status, s') \<and>
    live todo m sp rp hp s' (xs @ pieces ds) (fields g ds) \<and> todo (ft_net s) = ds @ todo (ft_net s') \<and> fstep sp hp s s'"
  using assms(1)
proof (induction i arbitrary: st0 s xs g)
  case 0
  then show ?case by (intro exI [of _ "[]"]) auto
next
  case (Suc i)
  from pump_ok [OF Suc.prems assms(2), of 100] obtain ds s1 where s1: "curl_stream_pump cu sp 100 s = Some s1"
    "live todo m sp rp hp s1 (xs @ pieces ds) (fields g ds)" "todo (ft_net s) = ds @ todo (ft_net s1)" "fstep sp hp s s1" by blast
  then obtain st where st: "ft_streams s1 sp = Some st" by (auto simp: live_def)
  let ?c = "cu_status cu easy (ft_net s1)"
  show ?case
  proof (cases "?c > 0 \<or> fs_transfer_done st")
    case True
    with s1 st show ?thesis by (intro exI [of _ ds] exI [of _ ?c] exI [of _ s1]) (simp add: Let_def)
  next
    case False
    from Suc.IH [OF s1(2), of ?c] obtain ds' status s2 where s2: "await_status cu sp easy i ?c s1 = Some (status, s2)"
      "live todo m sp rp hp s2 ((xs @ pieces ds) @ pieces ds') (fields (fields g ds) ds')" "todo (ft_net s1) = ds' @ todo (ft_net s2)"
      "fstep sp hp s1 s2" by blast
    with s1 st False fstep_trans [OF s1(4) s2(4)] show ?thesis
      by (intro exI [of _ "ds @ ds'"] exI [of _ status] exI [of _ s2]) (simp add: Let_def)
  qed
qed

lemma create_response_ok:
  assumes "heap_ok h" "NUL \<notin> set t" "NUL \<notin> set b" "NUL \<notin> set u" "int (length t) \<le> int32_max"
    "int (length b) \<le> int32_max" "int (length u) \<le> int32_max"
  shows "\<exists>rp h' r. create_response h c t b u = Some (rp, h') \<and> heap_ok h' \<and> heap_ext h h' \<and> rp = nxt h + 4 \<and>
    objs h' rp = Some (OResponse r) \<and> str_at h' (f_body r) b \<and> f_headers r \<ge> nxt h \<and> f_headers r \<noteq> rp \<and> f_status r = c \<and>
    str_at h' (f_statusText r) t \<and> str_at h' (f_url r) u \<and> f_body_complete r \<and> f_stream r = 0"
proof -
  let ?h1 = "snd (new_str h t)"
  let ?h2 = "snd (new_str ?h1 b)"
  let ?h3 = "snd (new_map ?h2)"
  let ?h4 = "snd (new_str ?h3 u)"
  let ?r = "\<lparr>f_status = c, f_statusText = nxt h, f_body = Suc (nxt h), f_headers = Suc (Suc (nxt h)),
     f_url = Suc (Suc (Suc (nxt h))), f_stream = 0, f_body_complete = True\<rparr>"
  have eq: "create_response h c t b u = Some (nxt ?h4, snd (new_obj ?h4 (OResponse ?r)))"
    using assms(2-7) by (simp add: create_response_def ts_string_new_eq new_map_def) (simp add: new_defs)
  have n: "nxt ?h4 = nxt h + 4" by (simp add: heap_simps new_map_def)
  have ok: "heap_ok ?h1" "heap_ok ?h2" "heap_ok ?h3" "heap_ok ?h4" using assms(1) by (simp_all add: heap_simps new_map_def)
  let ?h5 = "snd (new_obj ?h4 (OResponse ?r))"
  have e: "heap_ext h ?h1" "heap_ext ?h1 ?h2" "heap_ext ?h2 ?h3" "heap_ext ?h3 ?h4" "heap_ext ?h4 ?h5"
    using assms(1) ok heap_ext_new by (simp_all add: new_map_def)
  have s: "str_at ?h1 (nxt h) t" "str_at ?h2 (Suc (nxt h)) b" "str_at ?h4 (Suc (Suc (Suc (nxt h)))) u"
    using str_at_new [OF assms(1)] str_at_new [OF ok(1)] str_at_new [OF ok(3)] by (simp_all add: heap_simps new_map_def)
  note e35 = heap_ext_trans [OF e(4) e(5)]
  note e25 = heap_ext_trans [OF e(3) e35]
  note e15 = heap_ext_trans [OF e(2) e25]
  have "objs ?h5 (nxt ?h4) = Some (OResponse ?r)" by (simp add: heap_simps)
  moreover have "heap_ok ?h5" using ok(4) by (simp add: heap_simps)
  moreover note heap_ext_trans [OF e(1) e15] str_at_ext [OF e15 s(1)] str_at_ext [OF e25 s(2)] str_at_ext [OF e(5) s(3)]
  ultimately show ?thesis using eq n
    by (intro exI [of _ "nxt ?h4"] exI [of _ ?h5] exI [of _ ?r]) simp
qed

text \<open>The request of a fetch without headers of its own.\<close>

definition plain_headers :: "string option \<Rightarrow> string list" where
  "plain_headers body =
    (if body = None \<or> body = Some [] then [DEFAULT_AGENT] else [''Content-Type: application/json'', DEFAULT_AGENT])"

definition plain_request :: "string \<Rightarrow> string \<Rightarrow> string option \<Rightarrow> request" where
  "plain_request url mt body =
    \<lparr>rq_url = url, rq_verb = verb_of mt, rq_body = (if body = Some [] then None else body), rq_headers = plain_headers body\<rparr>"

lemma request_headers_plain: "request_headers h 0 body = Some (plain_headers body, h)"
  by (auto simp: request_headers_def either_header_def get_header_string_def plain_headers_def)

text \<open>Nothing is at the addresses that were not handed out yet.\<close>

definition fst_ok :: "'n fst_state \<Rightarrow> bool" where
  "fst_ok s \<longleftrightarrow> heap_ok (ft_heap s) \<and>
     (\<forall>p \<ge> nxt (ft_heap s). ft_streams s p = None \<and> ft_readers s p = None)"

lemma fetch_open_ok:
  assumes "heap_ok (ft_heap s)" "NUL \<notin> set url" and o: "get_method_from_options (ft_heap s) options = Some mt"
    "get_headers_from_options (ft_heap s) options = Some 0" "get_body_from_options (ft_heap s) options = Some body"
    and "easy \<noteq> 0" "multi \<noteq> 0" "todo (cu_start cu easy multi (plain_request url mt body) (ft_net s)) = ds" "length ds \<le> HM_LIMIT"
  shows "\<exists>s'. fetch_open cu url options easy multi s = Some (Suc (nxt (ft_heap s)), s') \<and>
    live todo multi (Suc (nxt (ft_heap s))) 0 (nxt (ft_heap s)) s' [] Map.empty \<and> todo (ft_net s') = ds \<and>
    nxt (ft_heap s') = Suc (Suc (nxt (ft_heap s))) \<and> ft_readers s' = ft_readers s \<and>
    (\<forall>p. p \<noteq> Suc (nxt (ft_heap s)) \<longrightarrow> ft_streams s' p = ft_streams s p)"
proof -
  let ?h = "snd (new_map (ft_heap s))"
  let ?sp = "Suc (nxt (ft_heap s))"
  have h: "heap_ok ?h" "heap_ext (ft_heap s) ?h" "nxt ?h = ?sp" "fst (new_map (ft_heap s)) = nxt (ft_heap s)"
    "map_at ?h (nxt (ft_heap s)) Map.empty"
    using assms(1) heap_ext_new(3) [OF assms(1)] map_at_new [of "ft_heap s"] by (simp_all add: new_map_def heap_simps)
  let ?s = "s\<lparr>ft_heap := ?h\<lparr>nxt := Suc ?sp\<rparr>,
     ft_streams := (ft_streams s)(?sp \<mapsto> \<lparr>fs_response = 0, fs_hRequest = easy, fs_hConnect = multi,
         fs_hSession = plain_headers body, fs_hdrs = nxt (ft_heap s), fs_closed = False, fs_head = 0, fs_tail = 0, fs_transfer_done = False,
         fs_still_running = 1\<rparr>), ft_net := cu_start cu easy multi (plain_request url mt body) (ft_net s)\<rparr>"
  have "fetch_open cu url options easy multi s = Some (?sp, ?s)"
    using o h by (cases "new_map (ft_heap s)")
      (simp add: fetch_open_def request_headers_plain fmalloc_def Let_def plain_request_def cstr_id [OF assms(2)])
  moreover have "headers_at (?h\<lparr>nxt := Suc ?sp\<rparr>) (nxt (ft_heap s)) Map.empty"
    using h(5) by (auto simp: headers_at_def map_at_def)
  then have "live todo multi ?sp 0 (nxt (ft_heap s)) ?s [] Map.empty"
    using assms(6-9) heap_ok_nxt [OF h(1), of "Suc ?sp"] h(3) by (auto simp: live_def chunks_rep_def queue_at_def)
  ultimately show ?thesis using assms(8) by (intro exI [of _ ?s]) simp
qed

definition fetched ::
  "('n \<Rightarrow> delivery list) \<Rightarrow> int \<Rightarrow> addr \<Rightarrow> addr \<Rightarrow> addr \<Rightarrow> 'n fst_state \<Rightarrow> string list \<Rightarrow> (string \<rightharpoonup> string) \<Rightarrow> bool" where
  "fetched todo m sp rp hp s ps G \<longleftrightarrow> rp \<noteq> 0 \<and> ft_readers s rp = None \<and> ft_streams s rp = None \<and>
     (\<exists>xs g r. live todo m sp rp hp s xs g \<and> xs @ pieces (todo (ft_net s)) = ps \<and> fields g (todo (ft_net s)) = G \<and>
        response_at s rp = Some r \<and> f_stream r = sp \<and> \<not> f_body_complete r \<and> f_headers r = hp \<and> str_at (ft_heap s) (f_body r) [])"

lemma live_set_response:
  assumes "live todo m sp rp0 hp s xs g"
  shows "\<exists>s'. set_stream sp (\<lambda>st. st\<lparr>fs_response := rp\<rparr>) s = Some s' \<and> live todo m sp rp hp s' xs g \<and>
    ft_heap s' = ft_heap s \<and> ft_net s' = ft_net s \<and> ft_readers s' = ft_readers s \<and> (\<forall>p. p \<noteq> sp \<longrightarrow> ft_streams s' p = ft_streams s p)"
  using assms by (fastforce simp: live_def chunks_rep_def queue_at_def set_stream_def)

text \<open>The hypotheses of a request: it has no headers of its own, and the transfer \<open>ds\<close> answers it.\<close>

definition fetch_setup ::
  "'n curl \<Rightarrow> ('n \<Rightarrow> delivery list) \<Rightarrow> ('n \<Rightarrow> nat) \<Rightarrow> addr \<Rightarrow> tsvalue \<Rightarrow> 'n fst_state \<Rightarrow> delivery list \<Rightarrow> bool" where
  "fetch_setup cu todo waits up options s ds \<longleftrightarrow> fst_ok s \<and> length ds \<le> HM_LIMIT \<and>
     (\<exists>url mt body easy multi n1 n2. str_at (ft_heap s) up url \<and> NUL \<notin> set url \<and> int (length url) \<le> int32_max \<and>
        get_method_from_options (ft_heap s) options = Some mt \<and> get_headers_from_options (ft_heap s) options = Some 0 \<and>
        get_body_from_options (ft_heap s) options = Some body \<and>
        cu_easy_init cu (ft_net s) = (easy, n1) \<and> cu_multi_init cu n1 = (multi, n2) \<and> easy \<noteq> 0 \<and> multi \<noteq> 0 \<and>
        curl_ok cu multi todo waits \<and> todo (cu_start cu easy multi (plain_request url mt body) n2) = ds)"

lemma fetch_start:
  assumes "fetch_setup cu todo waits up options s ds"
  shows "\<exists>m sp rp hp s'. ts_fetch cu up options s = Some (VObject rp, s') \<and> curl_ok cu m todo waits \<and>
    fetched todo m sp rp hp s' (pieces ds) (fields Map.empty ds)"
proof -
  from assms obtain url mt body easy multi n1 n2 where a: "heap_ok (ft_heap s)" "length ds \<le> HM_LIMIT"
    "\<forall>p \<ge> nxt (ft_heap s). ft_streams s p = None \<and> ft_readers s p = None"
    "str_at (ft_heap s) up url" "NUL \<notin> set url" "int (length url) \<le> int32_max" "get_method_from_options (ft_heap s) options = Some mt"
    "get_headers_from_options (ft_heap s) options = Some 0" "get_body_from_options (ft_heap s) options = Some body"
    "cu_easy_init cu (ft_net s) = (easy, n1)" "cu_multi_init cu n1 = (multi, n2)" "easy \<noteq> 0" "multi \<noteq> 0"
    "curl_ok cu multi todo waits" "todo (cu_start cu easy multi (plain_request url mt body) n2) = ds"
    by (auto simp: fetch_setup_def fst_ok_def)
  let ?hp = "nxt (ft_heap s)" and ?sp = "Suc (nxt (ft_heap s))"
  from fetch_open_ok [where s = "s\<lparr>ft_net := n2\<rparr>" and url = url and options = options and mt = mt and body = body
      and easy = easy and multi = multi and cu = cu and todo = todo and ds = ds] a(1,2,5,7-9,12,13,15) obtain s1 where s1:
    "fetch_open cu url options easy multi (s\<lparr>ft_net := n2\<rparr>) = Some (?sp, s1)" "live todo multi ?sp 0 ?hp s1 [] Map.empty"
    "todo (ft_net s1) = ds" "nxt (ft_heap s1) = Suc ?sp" "ft_readers s1 = ft_readers s"
    "\<forall>p. p \<noteq> ?sp \<longrightarrow> ft_streams s1 p = ft_streams s p" by auto
  from await_status_ok [OF s1(2) a(14), of easy 600 0] obtain ds1 status s2 where s2:
    "await_status cu ?sp easy 600 0 s1 = Some (status, s2)" "live todo multi ?sp 0 ?hp s2 (pieces ds1) (fields Map.empty ds1)"
    "ds = ds1 @ todo (ft_net s2)" "fstep ?sp ?hp s1 s2" using s1(3) by auto
  have ok2: "heap_ok (ft_heap s2)" using s2(2) by (simp add: live_def)
  let ?t = "if status > 0 then ''OK'' else ''Error''"
  have t: "NUL \<notin> set ?t" "int (length ?t) \<le> int32_max" by (simp_all add: int32_max_def)
  from create_response_ok [OF ok2 t(1) _ a(5) t(2) _ a(6), of "[]" "signed_take_bit 31 status"] a(5,6) obtain rp h r where r:
    "create_response (ft_heap s2) (signed_take_bit 31 status) ?t [] url = Some (rp, h)" "heap_ok h" "heap_ext (ft_heap s2) h"
    "rp = nxt (ft_heap s2) + 4" "objs h rp = Some (OResponse r)" "str_at h (f_body r) []" "nxt (ft_heap s2) \<le> f_headers r" "f_headers r \<noteq> rp"
    by (fastforce simp: int32_max_def)
  have n2: "Suc ?sp \<le> nxt (ft_heap s2)" using s1(4) s2(4) by (simp add: fstep_def)
  obtain st where st: "ft_streams s2 ?sp = Some st" "fs_hdrs st = ?hp" using s2(2) by (auto simp: live_def)
  let ?r = "r\<lparr>f_headers := ?hp, f_stream := ?sp, f_body_complete := False\<rparr>"
  let ?h = "put_obj (del_obj h (f_headers r)) rp (OResponse ?r)"
  have h: "heap_ok ?h" "strs ?h = strs h" "objs ?h rp = Some (OResponse ?r)" "objs ?h ?hp = objs h ?hp" "nxt ?h = nxt h"
    using r(2,4,5,7) n2 by (auto simp: put_defs heap_ok_def)
  have hs: "headers_at (ft_heap s2) ?hp (fields Map.empty ds1)" using s2(2) by (simp add: live_def)
  then obtain x where "objs (ft_heap s2) ?hp = Some x" by (auto simp: headers_at_def map_at_def)
  then have "objs h ?hp = objs (ft_heap s2) ?hp" using r(3) unfolding heap_ext_def map_le_def by (metis domI)
  with hs have "headers_at ?h ?hp (fields Map.empty ds1)"
    using h(2,4) r(3) by (elim headers_at_cong) (simp_all add: heap_ext_def)
  then have "live todo multi ?sp 0 ?hp (s2\<lparr>ft_heap := ?h\<rparr>) (pieces ds1) (fields Map.empty ds1)"
    using live_heap [OF s2(2) _ h(1)] h(5) r(3) s2(2) by (simp add: heap_ext_def live_def)
  from live_set_response [OF this, of rp] obtain s3 where s3: "set_stream ?sp (\<lambda>st. st\<lparr>fs_response := rp\<rparr>) (s2\<lparr>ft_heap := ?h\<rparr>) = Some s3"
    "live todo multi ?sp rp ?hp s3 (pieces ds1) (fields Map.empty ds1)" "ft_heap s3 = ?h" "ft_net s3 = ft_net s2"
    "ft_readers s3 = ft_readers s2" "\<forall>p. p \<noteq> ?sp \<longrightarrow> ft_streams s3 p = ft_streams s2 p" by auto
  have url: "str_data (ft_heap s) up = Some url" using a(4) by simp
  have "ts_fetch cu up options s = Some (VObject rp, s3)"
    using url a(10-13) s1(1) s2(1) r(1,5) st s3(1) by (simp add: ts_fetch_def Let_def response_at_def)
  moreover have "ft_readers s3 rp = None" "ft_streams s3 rp = None"
    using a(3) s1(5,6) s2(4) s3(5,6) n2 r(4) by (auto simp: fstep_def)
  then have "fetched todo multi ?sp rp ?hp s3 (pieces ds) (fields Map.empty ds)"
    using s2(3) s3(2-4) h(2,3) r(4,6) n2 unfolding fetched_def
    by (intro conjI exI [of _ "pieces ds1"] exI [of _ "fields Map.empty ds1"] exI [of _ ?r]) (auto simp: response_at_Some str_at_def)
  ultimately show ?thesis using a(14) by blast
qed

subsection \<open>The text and the reader\<close>

lemma text_complete:
  assumes "response_at s rp = Some r" "rp \<noteq> 0" "f_body_complete r" "f_body r \<noteq> 0"
  shows "ts_fetch_text cu (VObject rp) s = Some (f_body r, s)"
  using assms by (simp add: ts_fetch_text_def)

text \<open>A client that reads until the reader is done; the chunks it was given.\<close>

partial_function (option) read_all :: "'n curl \<Rightarrow> tsvalue \<Rightarrow> 'n fst_state \<Rightarrow> (string list \<times> 'n fst_state) option" where
  "read_all cu rv s = do {
     (res, s1) \<leftarrow> ts_fetch_reader_read cu rv s;
     m \<leftarrow> (case res of VObject m \<Rightarrow> Some m | _ \<Rightarrow> None);
     dn \<leftarrow> map_get (ft_heap s1) m ''done'';
     v \<leftarrow> map_get (ft_heap s1) m ''value'';
     d \<leftarrow> (case v of VString q \<Rightarrow> str_data (ft_heap s1) q | _ \<Rightarrow> None);
     if dn = ts_value_boolean True then Some ([], s1)
     else do { (ds, s2) \<leftarrow> read_all cu rv s1; Some (d # ds, s2) } }"

lemma result_get:
  "result_at h m dn d \<Longrightarrow> map_get h m ''done'' = Some (ts_value_boolean dn) \<and>
     (\<exists>q. map_get h m ''value'' = Some (VString q) \<and> str_data h q = Some d)"
  by (auto simp: result_at_def map_get_at prop_of_def)

lemma read_all_ok:
  "reading todo m sp rp hp p s b rest G \<Longrightarrow> curl_ok cu m todo waits \<Longrightarrow> int (length (b @ concat rest)) \<le> int32_max \<Longrightarrow>
   \<exists>s'. read_all cu (VObject p) s = Some (map cstr rest, s') \<and> read_over rp hp p s' (b @ concat (map cstr rest)) G"
proof (induction rest arbitrary: s b)
  case Nil
  from read_last [OF Nil(1,2)] obtain n s' where "ts_fetch_reader_read cu (VObject p) s = Some (VObject n, s')"
    "result_at (ft_heap s') n True []" "read_over rp hp p s' b G" by blast
  with result_get [of "ft_heap s'" n True "[]"] show ?case by (subst read_all.simps) auto
next
  case (Cons d rest)
  from read_next [OF Cons.prems(1,2)] Cons.prems(3) obtain n s1 where s1: "ts_fetch_reader_read cu (VObject p) s = Some (VObject n, s1)"
    "result_at (ft_heap s1) n False (cstr d)" "reading todo m sp rp hp p s1 (b @ cstr d) rest G" by auto
  have "length (cstr d) \<le> length d" by (simp add: cstr_def length_takeWhile_le)
  with Cons.IH [OF s1(3) Cons.prems(2)] Cons.prems(3) obtain s2 where "read_all cu (VObject p) s1 = Some (map cstr rest, s2)"
    "read_over rp hp p s2 (b @ cstr d @ concat (map cstr rest)) G" by auto
  with s1 result_get [OF s1(2)] show ?case by (subst read_all.simps) (auto simp: ts_value_boolean_def)
qed

lemma get_reader_ok:
  assumes "fetched todo m sp rp hp s ps G"
  shows "\<exists>p s'. ts_fetch_body_get_reader cu (VObject rp) s = Some (VObject p, s') \<and> reading todo m sp rp hp p s' [] ps G"
proof -
  from assms obtain xs g r where a: "rp \<noteq> 0" "ft_readers s rp = None" "ft_streams s rp = None" "live todo m sp rp hp s xs g"
    "xs @ pieces (todo (ft_net s)) = ps" "fields g (todo (ft_net s)) = G" "response_at s rp = Some r" "f_stream r = sp"
    "\<not> f_body_complete r" "str_at (ft_heap s) (f_body r) []" by (auto simp: fetched_def)
  have ok: "heap_ok (ft_heap s)" "sp \<noteq> 0" using a(4) by (auto simp: live_def chunks_rep_def)
  let ?h = "snd (new_str (ft_heap s) [])"
  let ?h2 = "?h\<lparr>nxt := Suc (nxt ?h)\<rparr>"
  let ?rd = "\<lparr>rd_stream = sp, rd_data = nxt (ft_heap s), rd_offset = 0, rd_done = False\<rparr>"
  let ?s = "s\<lparr>ft_heap := ?h2, ft_readers := (ft_readers s)(nxt ?h \<mapsto> ?rd)\<rparr>"
  have r: "objs (ft_heap s) rp = Some (OResponse r)" using a(7) by (simp add: response_at_Some)
  have "ts_fetch_body_get_reader cu (VObject rp) s = Some (VObject (nxt ?h), ?s)"
    using a(1-3,8,9) ok(2) r
    by (simp add: ts_fetch_body_get_reader_def fnew_string_def as_response_def new_reader_def fmalloc_def Let_def heap_simps)
       (simp add: new_str_def new_reader_def fmalloc_def)
  moreover have "grown {} (ft_heap s) ?h2"
    using grown_new(1) [OF ok(1), of "[]"] heap_ok_nxt [of ?h "Suc (nxt ?h)"] by (simp add: grown_def)
  from live_grown [OF a(4) this] grown_str [OF this a(10)] have "live todo m sp rp hp (s\<lparr>ft_heap := ?h2\<rparr>) xs g" "str_at ?h2 (f_body r) []" by simp_all
  then have "reading todo m sp rp hp (nxt ?h) ?s [] ps G"
    using a r unfolding reading_def
    by (intro conjI exI [of _ xs] exI [of _ g] exI [of _ r] exI [of _ ?rd])
       (auto simp: live_def chunks_rep_def queue_at_def response_at_Some heap_simps)
  ultimately show ?thesis by blast
qed

lemma text_fetched:
  assumes "fetched todo m sp rp hp s ps G" "curl_ok cu m todo waits" "int (length (concat ps)) \<le> int32_max"
  shows "\<exists>q s' r. ts_fetch_text cu (VObject rp) s = Some (q, s') \<and> str_at (ft_heap s') q (cstr (concat ps)) \<and>
    response_at s' rp = Some r \<and> f_body_complete r \<and> f_stream r = 0 \<and> f_headers r = hp \<and> headers_at (ft_heap s') hp G \<and>
    ft_streams s' sp = None \<and> ft_readers s' = ft_readers s"
proof -
  from assms(1) obtain xs g r where a: "rp \<noteq> 0" "live todo m sp rp hp s xs g"
    "xs @ pieces (todo (ft_net s)) = ps" "fields g (todo (ft_net s)) = G" "response_at s rp = Some r" "f_stream r = sp"
    "\<not> f_body_complete r" "f_headers r = hp" "str_at (ft_heap s) (f_body r) []" by (auto simp: fetched_def)
  from drain_ok [OF a(2) assms(2) a(5,1,6,7,9), of "concat ps"] a(3) assms(3) obtain s' q where d: "fetch_stream_drain cu rp s = Some s'"
    "response_at s' rp = Some (r\<lparr>f_body := q, f_stream := 0, f_body_complete := True\<rparr>)" "str_at (ft_heap s') q (cstr (concat ps))"
    "headers_at (ft_heap s') hp (fields g (todo (ft_net s)))" "ft_streams s' sp = None" "ft_readers s' = ft_readers s" by auto
  with a str_at_nonnull [OF d(3)] show ?thesis
    by (intro exI [of _ q] exI [of _ s'] exI [of _ "r\<lparr>f_body := q, f_stream := 0, f_body_complete := True\<rparr>"]) (simp add: ts_fetch_text_def)
qed

end
