(* ===== verification/Ts_Fetch_Text.thy ===== *)
theory Ts_Fetch_Text
  imports Ts_Fetch_Body
begin

text \<open>
  The promises of \<^verbatim>\<open>fetch\<close>: the whole body arrives, by \<^verbatim>\<open>text()\<close> or through a reader; what a
  buffered reader splits a text into; the fields of a header line; and the reader that outlives its
  stream.
\<close>

subsection \<open>A server for the examples\<close>

definition demo_curl :: "delivery list list \<Rightarrow> delivery list list curl" where
  "demo_curl reply = \<lparr>cu_easy_init = (\<lambda>n. (1, n)), cu_multi_init = (\<lambda>n. (2, n)), cu_start = (\<lambda>e m rq n. reply),
     cu_perform = (\<lambda>m n. (True, if length n \<le> 1 then 0 else 1, concat (take 1 n), drop 1 n)),
     cu_wait = (\<lambda>m k n. n), cu_info = (\<lambda>m n. ([], n)), cu_status = (\<lambda>e n. 200), cu_remove = (\<lambda>m e n. n),
     cu_easy_cleanup = (\<lambda>e n. n), cu_multi_cleanup = (\<lambda>m n. n)\<rparr>"

definition demo_reply :: "delivery list list" where
  "demo_reply = [[HeaderLine (''HTTP/1.1 200 OK'' @ [CR, NL]), HeaderLine (''Server: demo'' @ [CR, NL]), BodyPiece ''hello ''],
     [BodyPiece ''world'']]"

definition demo_fetch :: "delivery list list fst_state" where
  "demo_fetch = \<lparr>ft_heap = snd (new_str empty_heap ''http://h/''), ft_chunks = Map.empty, ft_streams = Map.empty,
     ft_readers = Map.empty, ft_net = []\<rparr>"

lemma demo_setup:
  "fetch_setup (demo_curl demo_reply) concat length 1 VNull demo_fetch (concat demo_reply)"
proof -
  have perf: "ok \<and> 0 \<le> still \<and> concat n = ds @ concat n' \<and> (still = 0 \<longrightarrow> concat n' = []) \<and> (still \<noteq> 0 \<longrightarrow> length n' < length n)"
    if "cu_perform (demo_curl demo_reply) 2 n = (ok, still, ds, n')" for n ok still ds n'
    using that by (cases n) (auto simp: demo_curl_def split: if_splits)
  have ok: "curl_ok (demo_curl demo_reply) 2 concat length"
    unfolding curl_ok_def by (intro conjI, use perf in blast) (simp_all add: demo_curl_def)
  have url: "str_at (ft_heap demo_fetch) 1 ''http://h/''" "fst_ok demo_fetch"
    by (simp_all add: demo_fetch_def fst_ok_def empty_heap_def new_str_def str_at_def heap_ok_def)
  have opt: "get_method_from_options h VNull = Some ''GET''" "get_headers_from_options h VNull = Some 0"
    "get_body_from_options h VNull = Some None" for h
    by (simp_all add: get_method_from_options_def get_headers_from_options_def get_body_from_options_def option_of_def)
  have start: "cu_easy_init (demo_curl demo_reply) n = (1, n)" "cu_multi_init (demo_curl demo_reply) n = (2, n)"
    "concat (cu_start (demo_curl demo_reply) e m rq n) = concat demo_reply" for n e m rq
    by (simp_all add: demo_curl_def)
  have "length (concat demo_reply) \<le> HM_LIMIT" by (simp add: demo_reply_def HM_LIMIT_def)
  then show ?thesis unfolding fetch_setup_def
    using ok url opt start by (intro conjI exI [of _ "''http://h/''"] exI [of _ "''GET''"] exI [of _ None] exI [of _ 1]
        exI [of _ 2] exI [of _ "ft_net demo_fetch"]) (simp_all add: int32_max_def)
qed

lemma demo_pieces:
  "pieces (concat demo_reply) = [''hello '', ''world'']" "concat (pieces (concat demo_reply)) = ''hello world''"
  by (simp_all add: demo_reply_def)

lemma demo_size: "int (length ''hello world'') \<le> int32_max"
  by (simp add: int32_max_def)

subsection \<open>The whole body\<close>

text \<open>C9. For a request without headers of its own and a transfer that comes to an end without an error of
  the library, of at most \<open>HM_LIMIT\<close> deliveries and 2^31-1 bytes of body, \<^verbatim>\<open>fetch\<close> followed by \<^verbatim>\<open>text()\<close> returns and gives what the server sent, the bodies of all
  deliveries in their order up to the first NUL, at which a text ends; and the headers of the response
  are the fields of the header lines.
\<close>

theorem fetch_text_complete:
  assumes "fetch_setup cu todo waits up options s ds" and "int (length (concat (pieces ds))) \<le> int32_max"
  shows "\<exists>rp s1 q s2 r. ts_fetch cu up options s = Some (VObject rp, s1) \<and>
    ts_fetch_text cu (VObject rp) s1 = Some (q, s2) \<and> str_at (ft_heap s2) q (takeWhile (\<lambda>c. c \<noteq> CHR 0x00) (concat (pieces ds))) \<and>
    response_at s2 rp = Some r \<and> f_body_complete r \<and> headers_at (ft_heap s2) (f_headers r) (fields Map.empty ds)"
proof -
  from fetch_start [OF assms(1)] obtain m sp rp hp s1 where f: "ts_fetch cu up options s = Some (VObject rp, s1)"
    "curl_ok cu m todo waits" "fetched todo m sp rp hp s1 (pieces ds) (fields Map.empty ds)" by blast
  from text_fetched [OF f(3,2) assms(2)] f(1) show ?thesis unfolding cstr_def by blast
qed

lemma fetch_text_complete_witness:
  "\<exists>rp s1 q s2. ts_fetch (demo_curl demo_reply) 1 VNull demo_fetch = Some (VObject rp, s1) \<and>
    ts_fetch_text (demo_curl demo_reply) (VObject rp) s1 = Some (q, s2) \<and> str_at (ft_heap s2) q ''hello world''"
proof -
  have "takeWhile (\<lambda>c. c \<noteq> CHR 0x00) ''hello world'' = ''hello world''" by simp
  with fetch_text_complete [OF demo_setup, unfolded demo_pieces(2), OF demo_size] show ?thesis by metis
qed

text \<open>C15. For a request and a transfer as above, a reader of the response that is read until it is done gives
  the pieces of the body as they arrived, each up to its first NUL, and \<^verbatim>\<open>text()\<close> afterwards gives these
  texts one behind the other: the same text as without the reader, when no byte is NUL.
\<close>

theorem fetch_reader_complete:
  assumes "fetch_setup cu todo waits up options s ds" and "int (length (concat (pieces ds))) \<le> int32_max"
  shows "\<exists>rp s1 rv s2 s3 q. ts_fetch cu up options s = Some (VObject rp, s1) \<and>
    ts_fetch_body_get_reader cu (VObject rp) s1 = Some (rv, s2) \<and>
    read_all cu rv s2 = Some (map (takeWhile (\<lambda>c. c \<noteq> CHR 0x00)) (pieces ds), s3) \<and>
    ts_fetch_text cu (VObject rp) s3 = Some (q, s3) \<and>
    str_at (ft_heap s3) q (concat (map (takeWhile (\<lambda>c. c \<noteq> CHR 0x00)) (pieces ds)))"
proof -
  from fetch_start [OF assms(1)] obtain m sp rp hp s1 where f: "ts_fetch cu up options s = Some (VObject rp, s1)"
    "curl_ok cu m todo waits" "fetched todo m sp rp hp s1 (pieces ds) (fields Map.empty ds)" by blast
  from get_reader_ok [OF f(3)] obtain p s2 where r: "ts_fetch_body_get_reader cu (VObject rp) s1 = Some (VObject p, s2)"
    "reading todo m sp rp hp p s2 [] (pieces ds) (fields Map.empty ds)" by blast
  let ?b = "concat (map cstr (pieces ds))"
  from read_all_ok [OF r(2) f(2)] assms(2) obtain s3 where a: "read_all cu (VObject p) s2 = Some (map cstr (pieces ds), s3)"
    "read_over rp hp p s3 ?b (fields Map.empty ds)" by auto
  have "rp \<noteq> 0" using f(3) by (simp add: fetched_def)
  moreover from a(2) obtain r' where r': "response_at s3 rp = Some r'" "f_body_complete r'" "str_at (ft_heap s3) (f_body r') ?b"
    by (auto simp: read_over_def)
  ultimately have "ts_fetch_text cu (VObject rp) s3 = Some (f_body r', s3)" by (intro text_complete) (auto dest: str_at_nonnull)
  moreover have "cstr = takeWhile (\<lambda>c. c \<noteq> CHR 0x00)" by (rule ext) (simp add: cstr_def)
  ultimately show ?thesis using f(1) r(1) a(1) r'(3) by metis
qed

lemma fetch_reader_complete_witness:
  "\<exists>rp s1 rv s2 s3. ts_fetch (demo_curl demo_reply) 1 VNull demo_fetch = Some (VObject rp, s1) \<and>
    ts_fetch_body_get_reader (demo_curl demo_reply) (VObject rp) s1 = Some (rv, s2) \<and>
    read_all (demo_curl demo_reply) rv s2 = Some ([''hello '', ''world''], s3)"
proof -
  have "map (takeWhile (\<lambda>c. c \<noteq> CHR 0x00)) [''hello '', ''world''] = [''hello '', ''world'']" by simp
  with fetch_reader_complete [OF demo_setup, unfolded demo_pieces(2), OF demo_size] show ?thesis unfolding demo_pieces(1) by metis
qed

text \<open>\<^verbatim>\<open>text()\<close> frees the stream that a reader of the same response still points to: the next read of
  the reader is a use after free.
\<close>

theorem fetch_reader_after_text:
  assumes "fetch_setup cu todo waits up options s ds"
    and "int (length (concat (pieces ds))) \<le> int32_max"
  shows "\<exists>rp s1 rv s2 q s3. ts_fetch cu up options s = Some (VObject rp, s1) \<and>
    ts_fetch_body_get_reader cu (VObject rp) s1 = Some (rv, s2) \<and> ts_fetch_text cu (VObject rp) s2 = Some (q, s3) \<and>
    ts_fetch_reader_read cu rv s3 = None"
proof -
  from fetch_start [OF assms(1)] obtain m sp rp hp s1 where f: "ts_fetch cu up options s = Some (VObject rp, s1)"
    "curl_ok cu m todo waits" "fetched todo m sp rp hp s1 (pieces ds) (fields Map.empty ds)" by blast
  from get_reader_ok [OF f(3)] obtain p s2 where r: "ts_fetch_body_get_reader cu (VObject rp) s1 = Some (VObject p, s2)"
    "reading todo m sp rp hp p s2 [] (pieces ds) (fields Map.empty ds)" by blast
  from r(2) obtain xs g r' rd where a: "p \<noteq> 0" "rp \<noteq> 0" "live todo m sp rp hp s2 xs g" "xs @ pieces (todo (ft_net s2)) = pieces ds"
    "response_at s2 rp = Some r'" "f_stream r' = sp" "\<not> f_body_complete r'" "str_at (ft_heap s2) (f_body r') []"
    "ft_readers s2 p = Some rd" "rd_stream rd = sp" "\<not> rd_done rd" by (auto simp: reading_def)
  from drain_ok [OF a(3) f(2) a(5,2,6,7,8), of "concat (pieces ds)"] a(4) [symmetric] assms(2) obtain s3 q where d:
    "fetch_stream_drain cu rp s2 = Some s3"
    "response_at s3 rp = Some (r'\<lparr>f_body := q, f_stream := 0, f_body_complete := True\<rparr>)" "str_at (ft_heap s3) q (cstr (concat (pieces ds)))"
    "ft_streams s3 sp = None" "ft_readers s3 = ft_readers s2" by auto
  have "ts_fetch_text cu (VObject rp) s2 = Some (q, s3)"
    using a(2,5,7) d(1,2) str_at_nonnull [OF d(3)] by (simp add: ts_fetch_text_def)
  moreover have "sp \<noteq> 0" using a(3) by (auto simp: live_def chunks_rep_def)
  with a(1,9-11) d(4,5) have "ts_fetch_reader_read cu (VObject p) s3 = None"
    by (simp add: ts_fetch_reader_read_def Let_def split: prod.split)
  ultimately show ?thesis using f(1) r(1) by blast
qed

lemma fetch_reader_after_text_witness:
  "\<exists>rp s1 rv s2 q s3. ts_fetch (demo_curl demo_reply) 1 VNull demo_fetch = Some (VObject rp, s1) \<and>
    ts_fetch_body_get_reader (demo_curl demo_reply) (VObject rp) s1 = Some (rv, s2) \<and>
    ts_fetch_text (demo_curl demo_reply) (VObject rp) s2 = Some (q, s3) \<and>
    ts_fetch_reader_read (demo_curl demo_reply) rv s3 = None"
  using fetch_reader_after_text [OF demo_setup, unfolded demo_pieces(2), OF demo_size] by blast

subsection \<open>A buffered reader\<close>

lemma line_end_split:
  assumes "off < length data"
  shows "off < line_end data off" "line_end data off \<le> length data"
    "NL \<notin> set (butlast (take (line_end data off - off) (drop off data)))"
    "line_end data off < length data \<Longrightarrow> last (take (line_end data off - off) (drop off data)) = NL"
proof -
  let ?r = "drop off data"
  let ?w = "takeWhile (\<lambda>c. c \<noteq> NL) ?r"
  have ne: "?r \<noteq> []" using assms by simp
  have w: "length ?w \<le> length data - off" using length_takeWhile_le [of "\<lambda>c. c \<noteq> NL" ?r] by simp
  have nw: "NL \<notin> set ?w" by (auto dest: set_takeWhileD)
  have tw: "take (length ?w) ?r = ?w" by (metis takeWhile_eq_take)
  have "off < line_end data off \<and> line_end data off \<le> length data \<and>
    NL \<notin> set (butlast (take (line_end data off - off) ?r)) \<and>
    (line_end data off < length data \<longrightarrow> last (take (line_end data off - off) ?r) = NL)"
  proof (cases "off + length ?w < length data")
    case True
    then have e: "line_end data off - off = Suc (length ?w)" "off < line_end data off" "line_end data off \<le> length data"
      by (auto simp: line_end_def Let_def)
    have "?r ! length ?w = NL" using True nth_length_takeWhile [of "\<lambda>c. c \<noteq> NL" ?r] by simp
    then have "take (Suc (length ?w)) ?r = ?w @ [NL]" using True tw by (simp add: take_Suc_conv_app_nth)
    with e nw show ?thesis by simp
  next
    case False
    then have len: "length ?w = length data - off" using w assms by simp
    then have e: "line_end data off = length data" using assms by (simp add: line_end_def Let_def)
    have "take (length data - off) ?r = ?w" using tw len by metis
    moreover have "NL \<notin> set (butlast ?w)" using nw in_set_butlastD by fast
    ultimately show ?thesis using e assms by simp
  qed
  then show "off < line_end data off" "line_end data off \<le> length data"
    "NL \<notin> set (butlast (take (line_end data off - off) ?r))"
    "line_end data off < length data \<Longrightarrow> last (take (line_end data off - off) ?r) = NL" by blast+
qed

lemma read_line:
  assumes "heap_ok (ft_heap s)" "p \<noteq> 0" "ft_readers s p = Some rd" "rd_stream rd = 0" "rd_offset rd = int off" "\<not> rd_done rd"
    "str_at (ft_heap s) (rd_data rd) data" "off < length data" "NUL \<notin> set data" "int (length data) \<le> int32_max"
  shows "\<exists>n s'. ts_fetch_reader_read cu (VObject p) s = Some (VObject n, s') \<and>
    result_at (ft_heap s') n False (take (line_end data off - off) (drop off data)) \<and> heap_ok (ft_heap s') \<and>
    ft_readers s' p = Some (rd\<lparr>rd_offset := int (line_end data off), rd_done := (line_end data off \<ge> length data)\<rparr>) \<and>
    str_at (ft_heap s') (rd_data rd) data"
proof -
  obtain n h where n: "new_map (ft_heap s) = (n, h)" by fastforce
  have h: "grown {} (ft_heap s) h" "map_at h n Map.empty" "heap_ok h"
    using grown_new(2) [OF assms(1)] map_at_new [of "ft_heap s"] by (simp_all add: n grown_def)
  let ?d = "take (line_end data off - off) (drop off data)"
  let ?rd = "rd\<lparr>rd_offset := int (line_end data off), rd_done := (line_end data off \<ge> length data)\<rparr>"
  let ?s = "s\<lparr>ft_heap := h, ft_readers := (ft_readers s)(p \<mapsto> ?rd)\<rparr>"
  have d: "NUL \<notin> set ?d" "int (length ?d) \<le> int32_max" using assms(9,10) by (auto dest: in_set_takeD in_set_dropD)
  from read_chunk_ok(1) [of ?s n ?d] h(2,3) d cstr_id [OF d(1)] obtain h' where h': "read_chunk n ?d ?s = Some (VObject n, ?s\<lparr>ft_heap := h'\<rparr>)"
    "result_at h' n False ?d" "grown {n} h h'" by auto
  have st: "str_at h (rd_data rd) data" using grown_str [OF h(1) assms(7)] .
  have "ts_fetch_reader_read cu (VObject p) s = Some (VObject n, ?s\<lparr>ft_heap := h'\<rparr>)"
    using assms(2-6,8) n st str_at_nonnull [OF st] h'(1)
    by (simp add: ts_fetch_reader_read_def read_buffered_def set_reader_def Let_def)
  with h' grown_str [OF h'(3) st] show ?thesis by (auto simp: grown_def)
qed

lemma read_done:
  assumes "heap_ok (ft_heap s)" "p \<noteq> 0" "ft_readers s p = Some rd" "rd_stream rd = 0" "str_at (ft_heap s) (rd_data rd) data"
    "rd_done rd \<or> rd_offset rd \<ge> int (length data)"
  shows "\<exists>n s'. ts_fetch_reader_read cu (VObject p) s = Some (VObject n, s') \<and> result_at (ft_heap s') n True []"
proof -
  obtain n h where n: "new_map (ft_heap s) = (n, h)" by fastforce
  have h: "grown {} (ft_heap s) h" "map_at h n Map.empty" "heap_ok h"
    using grown_new(2) [OF assms(1)] map_at_new [of "ft_heap s"] by (simp_all add: n grown_def)
  have st: "str_at h (rd_data rd) data" using grown_str [OF h(1) assms(5)] .
  have e: "\<exists>n' s''. read_end n s' = Some (VObject n', s'') \<and> result_at (ft_heap s'') n' True []" if "ft_heap s' = h" for s' :: "'a fst_state"
    using read_chunk_ok(2) [of s' n "[]"] h(2,3) that by (auto simp: int32_max_def)
  let ?s = "s\<lparr>ft_heap := h\<rparr>"
  show ?thesis
  proof (cases "rd_done rd")
    case True
    then have "ts_fetch_reader_read cu (VObject p) s = read_end n ?s" using assms(2,3) n by (simp add: ts_fetch_reader_read_def)
    with e [of ?s] show ?thesis by simp
  next
    case False
    then have "ts_fetch_reader_read cu (VObject p) s = read_end n (?s\<lparr>ft_readers := (ft_readers s)(p \<mapsto> rd\<lparr>rd_done := True\<rparr>)\<rparr>)"
      using assms(2-4,6) n st str_at_nonnull [OF st]
      by (simp add: ts_fetch_reader_read_def read_buffered_def set_reader_def)
    with e [of "?s\<lparr>ft_readers := (ft_readers s)(p \<mapsto> rd\<lparr>rd_done := True\<rparr>)\<rparr>"] show ?thesis by simp
  qed
qed

lemma read_all_end:
  "ts_fetch_reader_read cu rv s = Some (VObject n, s') \<Longrightarrow> result_at (ft_heap s') n True [] \<Longrightarrow> read_all cu rv s = Some ([], s')"
  using result_get [of "ft_heap s'" n True "[]"] by (subst read_all.simps) auto

lemma read_all_step:
  "ts_fetch_reader_read cu rv s = Some (VObject n, s') \<Longrightarrow> result_at (ft_heap s') n False d \<Longrightarrow>
   read_all cu rv s' = Some (ds, s2) \<Longrightarrow> read_all cu rv s = Some (d # ds, s2)"
  using result_get [of "ft_heap s'" n False d] by (subst read_all.simps) (auto simp: ts_value_boolean_def)

definition text_lines :: "string \<Rightarrow> string list \<Rightarrow> bool" where
  "text_lines data ls \<longleftrightarrow> concat ls = data \<and> (\<forall>l \<in> set ls. l \<noteq> [] \<and> NL \<notin> set (butlast l)) \<and> (\<forall>l \<in> set (butlast ls). last l = NL)"

lemma read_lines:
  "heap_ok (ft_heap s) \<Longrightarrow> p \<noteq> 0 \<Longrightarrow> ft_readers s p = Some rd \<Longrightarrow> rd_stream rd = 0 \<Longrightarrow> rd_offset rd = int off \<Longrightarrow>
   rd_done rd \<longrightarrow> off = length data \<Longrightarrow> off \<le> length data \<Longrightarrow> str_at (ft_heap s) (rd_data rd) data \<Longrightarrow>
   NUL \<notin> set data \<Longrightarrow> int (length data) \<le> int32_max \<Longrightarrow>
   \<exists>ls s'. read_all cu (VObject p) s = Some (ls, s') \<and> text_lines (drop off data) ls"
proof (induction "length data - off" arbitrary: s rd off rule: less_induct)
  case less
  show ?case
  proof (cases "off = length data")
    case True
    with read_done [OF less.prems(1-4,8)] less.prems(5) obtain n s' where
      "ts_fetch_reader_read cu (VObject p) s = Some (VObject n, s')" "result_at (ft_heap s') n True []" by fastforce
    from read_all_end [OF this] True show ?thesis by (auto simp: text_lines_def)
  next
    case False
    with less.prems have lt: "off < length data" "\<not> rd_done rd" by auto
    let ?e = "line_end data off"
    let ?d = "take (?e - off) (drop off data)"
    note le = line_end_split [OF lt(1)]
    from read_line [OF less.prems(1-5) lt(2) less.prems(8) lt(1) less.prems(9,10)] obtain n s1 where r:
      "ts_fetch_reader_read cu (VObject p) s = Some (VObject n, s1)" "result_at (ft_heap s1) n False ?d" "heap_ok (ft_heap s1)"
      "ft_readers s1 p = Some (rd\<lparr>rd_offset := int ?e, rd_done := (?e \<ge> length data)\<rparr>)" "str_at (ft_heap s1) (rd_data rd) data" by blast
    have "length data - ?e < length data - off" using le(1) lt(1) by linarith
    from less.hyps [OF this r(3) less.prems(2) r(4)] le(2) less.prems(4,9,10) r(5) obtain ls s2 where
      ls: "read_all cu (VObject p) s1 = Some (ls, s2)" "text_lines (drop ?e data) ls" by auto
    have split: "drop off data = ?d @ drop ?e data" using le(1) append_take_drop_id [of "?e - off" "drop off data"] by simp
    have "?e = length data \<Longrightarrow> ls = []" using ls(2) by (cases ls) (auto simp: text_lines_def)
    then have "ls \<noteq> [] \<longrightarrow> ?e < length data" using le(2) by (metis le_neq_implies_less)
    then have "text_lines (drop off data) (?d # ls)"
      using ls(2) le lt(1) split unfolding text_lines_def by auto
    with read_all_step [OF r(1,2) ls(1)] show ?thesis by blast
  qed
qed

text \<open>
  A reader of a response that is complete gives its text line by line, each line with its newline, and
  nothing is lost: the lines put together are the text.
\<close>

theorem fetch_reader_lines:
  assumes "heap_ok (ft_heap s)" "response_at s rp = Some r" "rp \<noteq> 0" "f_body_complete r" "str_at (ft_heap s) (f_body r) data"
    and "NUL \<notin> set data" "int (length data) \<le> int32_max" "ft_readers s rp = None" "ft_streams s rp = None"
  shows "\<exists>rv s1 ls s2. ts_fetch_body_get_reader cu (VObject rp) s = Some (rv, s1) \<and> read_all cu rv s1 = Some (ls, s2) \<and>
    concat ls = data \<and> (\<forall>l \<in> set ls. l \<noteq> [] \<and> NL \<notin> set (butlast l)) \<and> (\<forall>l \<in> set (butlast ls). last l = NL)"
proof -
  let ?h = "snd (new_str (ft_heap s) [])"
  let ?h2 = "?h\<lparr>nxt := Suc (nxt ?h)\<rparr>"
  let ?rd = "\<lparr>rd_stream = 0, rd_data = f_body r, rd_offset = 0, rd_done = False\<rparr>"
  let ?s = "s\<lparr>ft_heap := ?h2, ft_readers := (ft_readers s)(nxt ?h \<mapsto> ?rd)\<rparr>"
  have "ts_fetch_body_get_reader cu (VObject rp) s = Some (VObject (nxt ?h), ?s)"
    using assms(2-4,8,9) str_at_nonnull [OF assms(5)]
    by (simp add: ts_fetch_body_get_reader_def fnew_string_def as_response_def new_reader_def fmalloc_def Let_def heap_simps response_at_Some)
       (simp add: new_str_def new_reader_def fmalloc_def response_at_def)
  moreover have "grown {} (ft_heap s) ?h2"
    using grown_new(1) [OF assms(1), of "[]"] heap_ok_nxt [of ?h "Suc (nxt ?h)"] by (simp add: grown_def)
  from read_lines [of ?s "nxt ?h" ?rd 0 data cu] grown_str [OF this assms(5)] assms(6,7) this obtain ls s2 where
    "read_all cu (VObject (nxt ?h)) ?s = Some (ls, s2)" "text_lines data ls" by (auto simp: grown_def heap_simps)
  ultimately show ?thesis unfolding text_lines_def by blast
qed

lemma fetch_reader_lines_witness:
  "\<exists>s rp rv s1 ls s2. ts_fetch_body_get_reader (demo_curl demo_reply) (VObject rp) s = Some (rv, s1) \<and>
    read_all (demo_curl demo_reply) rv s1 = Some (ls, s2) \<and> concat ls = ''a'' @ [NL] @ ''b''"
proof -
  let ?d = "''a'' @ [NL] @ ''b''"
  have d: "NUL \<notin> set ?d" "int (length ?d) \<le> int32_max" by (simp_all add: int32_max_def)
  have "\<exists>rp h' r. create_response empty_heap 200 ''OK'' ?d [] = Some (rp, h') \<and> heap_ok h' \<and> heap_ext empty_heap h' \<and>
    rp = nxt empty_heap + 4 \<and> objs h' rp = Some (OResponse r) \<and> str_at h' (f_body r) ?d \<and> f_headers r \<ge> nxt empty_heap \<and>
    f_headers r \<noteq> rp \<and> f_status r = 200 \<and> str_at h' (f_statusText r) ''OK'' \<and> str_at h' (f_url r) [] \<and> f_body_complete r \<and> f_stream r = 0"
    by (rule create_response_ok [OF heap_ok_empty _ d(1) _ _ d(2)]) (simp_all add: int32_max_def)
  then obtain rp h r where h: "heap_ok h" "rp = nxt empty_heap + 4" "objs h rp = Some (OResponse r)" "str_at h (f_body r) ?d" "f_body_complete r"
    by blast
  let ?s = "demo_fetch\<lparr>ft_heap := h\<rparr>"
  have "response_at ?s rp = Some r" "heap_ok (ft_heap ?s)" "str_at (ft_heap ?s) (f_body r) ?d" "ft_readers ?s rp = None" "ft_streams ?s rp = None" "rp \<noteq> 0"
    using h by (simp_all add: response_at_Some demo_fetch_def)
  from fetch_reader_lines [OF this(2,1,6) h(5) this(3) d this(4,5), of "demo_curl demo_reply"]
  show ?thesis by (elim exE conjE) (intro exI conjI)
qed

subsection \<open>Header lines\<close>

lemma prefix_before: "prefix xs (k @ c # r) \<Longrightarrow> c \<notin> set xs \<Longrightarrow> prefix xs k"
  by (auto simp: prefix_append prefix_Cons)

lemma header_field_line:
  assumes "CHR '':'' \<notin> set k" "NUL \<notin> set (k @ v)" "\<not> prefix ''HTTP/'' k" "length k + length v < 4090"
    "v = [] \<or> hd v \<noteq> CHR '' ''"
  shows "header_field (k @ '': '' @ v @ [CR, NL]) = Some (k, strip_eol (v @ [CR, NL]))"
proof -
  let ?l = "k @ '': '' @ v @ [CR, NL]"
  have "cstr ?l = ?l" using assms(2) by (intro cstr_id) auto
  moreover have "\<not> prefix ''HTTP/'' ?l" using prefix_before [of "''HTTP/''" k "CHR '':''"] assms(3) by auto
  moreover have "dropWhile (\<lambda>c. c = CHR '' '') (v @ [CR, NL]) = v @ [CR, NL]" using assms(5) by (cases v) auto
  ultimately show ?thesis using assms(1,4) by (simp add: header_field_def Let_def strchr_append_notin)
qed

text \<open>A header line is split at its colon, and the value is without the end of the line.\<close>

theorem header_field_roundtrip:
  assumes "CHR '':'' \<notin> set k" "NUL \<notin> set (k @ v)" "\<not> prefix ''HTTP/'' k" "length k + length v < 4090"
    and "v \<noteq> []" "hd v \<noteq> CHR '' ''" "last v \<noteq> CR" "last v \<noteq> NL"
  shows "header_field (k @ '': '' @ v @ [CR, NL]) = Some (k, v)"
proof -
  obtain c cs where v: "v = c # cs" using assms(5) by (cases v) auto
  have "dropWhile (\<lambda>x. x = CR \<or> x = NL) (rev (cs @ [CR, NL])) = rev cs"
    using assms(7,8) v by (cases cs rule: rev_cases) auto
  then have "strip_eol (v @ [CR, NL]) = v" by (simp add: v strip_eol_def)
  with header_field_line [OF assms(1-4)] assms(6) show ?thesis by simp
qed

lemma header_field_roundtrip_witness:
  "header_field (''Content-Type'' @ '': '' @ ''text/html'' @ [CR, NL]) = Some (''Content-Type'', ''text/html'')"
  by (rule header_field_roundtrip) simp_all

text \<open>
  The loop that strips the end of the line keeps the first character of the value, so a header with an
  empty value is stored with a carriage return as its value.
\<close>

theorem header_field_empty_value:
  assumes "CHR '':'' \<notin> set k" "NUL \<notin> set k" "\<not> prefix ''HTTP/'' k" "length k < 4090"
  shows "header_field (k @ '': '' @ [CR, NL]) = Some (k, [CR])"
  using header_field_line [of k "[]"] assms by (simp add: strip_eol_def)

lemma header_field_empty_value_witness: "header_field (''X-Empty'' @ '': '' @ [CR, NL]) = Some (''X-Empty'', [CR])"
  by (rule header_field_empty_value) simp_all

end
