(* ===== verification/Ts_Response.thy ===== *)
theory Ts_Response
  imports Ts_Fetch_Text Ts_Websocket
begin

text \<open>
  The \<^verbatim>\<open>Response\<close> constructor of \<^verbatim>\<open>runtime.c\<close> and the writable streams that serve as its body. A
  WebSocket is no object of the store; the parameter \<open>sock\<close> tells its addresses.
\<close>

subsection \<open>The constructor\<close>

definition status_text :: "int \<Rightarrow> string option" where
  "status_text n =
    (if n = 201 then Some ''Created'' else if n = 204 then Some ''No Content'' else if n = 404 then Some ''Not Found''
     else if n = 500 then Some ''Internal Server Error'' else None)"

text \<open>The loop that copies the headers, entry by entry.\<close>

definition copy_headers :: "heap \<Rightarrow> addr \<Rightarrow> tsvalue hashmap \<Rightarrow> heap option" where
  "copy_headers h hp m = foldo (\<lambda>h e. case e of None \<Rightarrow> Some h | Some (k, v) \<Rightarrow> map_set h hp k v) h (m_entries m)"

definition apply_init :: "heap \<Rightarrow> tsvalue hashmap \<Rightarrow> fetch_response \<Rightarrow> (fetch_response \<times> heap) option" where
  "apply_init h m r = do {
     st \<leftarrow> ts_hashmap_get m ''status'';
     (r1, h1) \<leftarrow> (case st of
        VNumber d \<Rightarrow> do {
          n \<leftarrow> d_to_int d;
          case status_text n of
            None \<Rightarrow> Some (r\<lparr>f_status := n\<rparr>, h)
          | Some t \<Rightarrow> do { (p, h1) \<leftarrow> ts_string_new h t; Some (r\<lparr>f_status := n, f_statusText := p\<rparr>, h1) } }
      | _ \<Rightarrow> Some (r, h));
     stt \<leftarrow> ts_hashmap_get m ''statusText'';
     let r2 = (case stt of VString p \<Rightarrow> if p \<noteq> 0 then r1\<lparr>f_statusText := p\<rparr> else r1 | _ \<Rightarrow> r1);
     hdrs \<leftarrow> ts_hashmap_get m ''headers'';
     h2 \<leftarrow> (case hdrs of
        VObject hp \<Rightarrow>
          if hp = 0 then Some h1
          else do {
            x \<leftarrow> objs h1 hp;
            case x of
              OBuffer _ \<Rightarrow> Some h1
            | OResponse _ \<Rightarrow> Some h1
            | OMap hm \<Rightarrow> copy_headers h1 (f_headers r2) hm
            | _ \<Rightarrow> None }
      | _ \<Rightarrow> Some h1);
     Some (r2, h2) }"

text \<open>The pause between the chunks that a header asks for; \<open>cur\<close> when there is no such header.\<close>

definition stream_delay :: "heap \<Rightarrow> addr \<Rightarrow> int \<Rightarrow> int option" where
  "stream_delay h hp cur = do {
     d0 \<leftarrow> map_get h hp ''X-Stream-Delay-Ms'';
     d \<leftarrow> (if vtag d0 \<noteq> TAG_STRING \<and> vtag d0 \<noteq> TAG_NUMBER then map_get h hp ''x-stream-delay-ms'' else Some d0);
     n \<leftarrow> (case d of
        VString p \<Rightarrow> if p = 0 then Some cur else do { s \<leftarrow> str_data h p; c_atoi (cstr s) }
      | VNumber x \<Rightarrow> d_to_int x
      | _ \<Rightarrow> Some cur);
     Some (if n < 0 then 0 else n) }"

definition buffer_body :: "heap \<Rightarrow> buffer \<Rightarrow> fetch_response \<Rightarrow> (fetch_response \<times> heap) option" where
  "buffer_body h b r = do {
     (p, h1) \<leftarrow> ts_string_new_len h (map char_of_byte (bf_data b)) (bf_length b);
     m \<leftarrow> get_map h1 (f_headers r);
     has1 \<leftarrow> ts_hashmap_has m ''Content-Type'';
     has2 \<leftarrow> (if has1 then Some True else ts_hashmap_has m ''content-type'');
     h2 \<leftarrow> (if has2 then Some h1
       else do { (q, h2) \<leftarrow> ts_string_new h1 ''application/octet-stream''; map_set h2 (f_headers r) ''Content-Type'' (VString q) });
     Some (r\<lparr>f_body := p, f_body_complete := True\<rparr>, h2) }"

definition stream_response :: "heap \<Rightarrow> addr \<Rightarrow> fetch_response \<Rightarrow> (fetch_response \<times> heap) option" where
  "stream_response h sp r = do {
     (q, h1) \<leftarrow> ts_string_new h [];
     Some (r\<lparr>f_stream := sp, f_body_complete := False, f_body := q\<rparr>, h1) }"

definition object_body :: "(addr \<Rightarrow> bool) \<Rightarrow> heap \<Rightarrow> addr \<Rightarrow> fetch_response \<Rightarrow> (fetch_response \<times> heap) option" where
  "object_body sock h p r =
    (if sock p then do {
       (r1, h1) \<leftarrow> stream_response h p r;
       if f_status r1 = 200 then do {
         (q, h2) \<leftarrow> ts_string_new h1 ''Switching Protocols'';
         Some (r1\<lparr>f_status := 101, f_statusText := q\<rparr>, h2) }
       else Some (r1, h1) }
     else do {
       x \<leftarrow> objs h p;
       case x of
         OBuffer b \<Rightarrow> buffer_body h b r
       | OBlob b \<Rightarrow> do {
           let r1 = (if bl_data b \<noteq> 0 then r\<lparr>f_body := bl_data b\<rparr> else r);
           h1 \<leftarrow> (if bl_type b \<noteq> 0 then map_set h (f_headers r) ''Content-Type'' (VString (bl_type b)) else Some h);
           Some (r1\<lparr>f_body_complete := True\<rparr>, h1) }
       | OStream sb \<Rightarrow> do {
           n \<leftarrow> stream_delay h (f_headers r) (sb_delay sb);
           stream_response (put_obj h p (OStream (sb\<lparr>sb_delay := n\<rparr>))) p r }
       | _ \<Rightarrow> do {
           (q, h1) \<leftarrow> ts_to_string h (VObject p);
           Some (r\<lparr>f_body := q, f_body_complete := True\<rparr>, h1) } })"

definition response_body :: "(addr \<Rightarrow> bool) \<Rightarrow> heap \<Rightarrow> tsvalue \<Rightarrow> fetch_response \<Rightarrow> (fetch_response \<times> heap) option" where
  "response_body sock h body r =
    (if (\<exists>p. body = VString p \<and> p \<noteq> 0) then
       (case body of VString p \<Rightarrow> Some (r\<lparr>f_body := p, f_body_complete := True\<rparr>, h) | _ \<Rightarrow> None)
     else if (\<exists>p. body = VObject p \<and> p \<noteq> 0) then
       (case body of VObject p \<Rightarrow> object_body sock h p r | _ \<Rightarrow> None)
     else if (\<exists>p. body = VArray p \<and> p \<noteq> 0) then
       (case body of
          VArray p \<Rightarrow> do {
            n \<leftarrow> stream_delay h (f_headers r) 0;
            let (sp, h1) = new_obj h (OStream \<lparr>sb_chunks = p, sb_delay = n\<rparr>);
            stream_response h1 sp r }
        | _ \<Rightarrow> None)
     else if body = VNull then do { (q, h1) \<leftarrow> ts_string_new h []; Some (r\<lparr>f_body := q\<rparr>, h1) }
     else do { (q, h1) \<leftarrow> ts_to_string h body; Some (r\<lparr>f_body := q\<rparr>, h1) })"

definition init_fields :: "(addr \<Rightarrow> bool) \<Rightarrow> heap \<Rightarrow> tsvalue \<Rightarrow> fetch_response \<Rightarrow> (fetch_response \<times> heap) option" where
  "init_fields sock h init r = (case init of
     VObject p \<Rightarrow>
       if p = 0 then Some (r, h)
       else if sock p then None
       else do {
         x \<leftarrow> objs h p;
         case x of
           OBuffer _ \<Rightarrow> Some (r, h) | OResponse _ \<Rightarrow> Some (r, h) | OBlob _ \<Rightarrow> Some (r, h)
         | OUrl _ \<Rightarrow> Some (r, h) | OStream _ \<Rightarrow> Some (r, h)
         | OMap m \<Rightarrow> apply_init h m r
         | _ \<Rightarrow> None }
   | _ \<Rightarrow> Some (r, h))"

definition ts_response_new :: "(addr \<Rightarrow> bool) \<Rightarrow> heap \<Rightarrow> tsvalue \<Rightarrow> tsvalue \<Rightarrow> (tsvalue \<times> heap) option" where
  "ts_response_new sock h body init = do {
     (t, h1) \<leftarrow> ts_string_new h ''OK'';
     (b, h2) \<leftarrow> ts_string_new h1 [];
     let (m, h3) = new_map h2;
     (u, h4) \<leftarrow> ts_string_new h3 [];
     (r1, h5) \<leftarrow> init_fields sock h4 init \<lparr>f_status = 200, f_statusText = t, f_body = b, f_headers = m,
        f_url = u, f_stream = 0, f_body_complete = True\<rparr>;
     (r2, h6) \<leftarrow> response_body sock h5 body r1;
     let (rp, h7) = new_obj h6 (OResponse r2);
     Some (VObject rp, h7) }"

text \<open>The object behind a value, when it is one of the store.\<close>

definition ts_response_is_stream :: "(addr \<Rightarrow> bool) \<Rightarrow> heap \<Rightarrow> tsvalue \<Rightarrow> bool option" where
  "ts_response_is_stream sock h v = (case v of
     VObject p \<Rightarrow>
       if p = 0 \<or> sock p then Some False
       else do {
         x \<leftarrow> objs h p;
         Some (case x of OResponse r \<Rightarrow> f_stream r \<noteq> 0 \<and> \<not> f_body_complete r | _ \<Rightarrow> False) }
   | _ \<Rightarrow> Some False)"

definition stream_body_at :: "(addr \<Rightarrow> bool) \<Rightarrow> heap \<Rightarrow> addr \<Rightarrow> addr option" where
  "stream_body_at sock h p =
    (if p = 0 \<or> sock p then Some 0
     else do { x \<leftarrow> objs h p; Some (case x of OStream _ \<Rightarrow> p | _ \<Rightarrow> 0) })"

definition ts_response_stream_body :: "(addr \<Rightarrow> bool) \<Rightarrow> heap \<Rightarrow> tsvalue \<Rightarrow> addr option" where
  "ts_response_stream_body sock h v = do {
     b \<leftarrow> ts_response_is_stream sock h v;
     if \<not> b then Some 0
     else (case v of
         VObject p \<Rightarrow> do {
           x \<leftarrow> objs h p;
           case x of OResponse r \<Rightarrow> stream_body_at sock h (f_stream r) | _ \<Rightarrow> None }
       | _ \<Rightarrow> None) }"

subsection \<open>Writable streams\<close>

definition stream_body_from_value :: "(addr \<Rightarrow> bool) \<Rightarrow> heap \<Rightarrow> tsvalue \<Rightarrow> addr option" where
  "stream_body_from_value sock h v = (case v of VObject p \<Rightarrow> stream_body_at sock h p | _ \<Rightarrow> Some 0)"

definition ts_writable_stream_new :: "heap \<Rightarrow> tsvalue \<times> heap" where
  "ts_writable_stream_new h =
    (let (a, h1) = new_arr h ts_array_new; (p, h2) = new_obj h1 (OStream \<lparr>sb_chunks = a, sb_delay = 0\<rparr>) in (VObject p, h2))"

definition ts_writable_stream_get_writer :: "(addr \<Rightarrow> bool) \<Rightarrow> heap \<Rightarrow> tsvalue \<Rightarrow> (tsvalue \<times> heap) option" where
  "ts_writable_stream_get_writer sock h stream = do {
     p \<leftarrow> stream_body_from_value sock h stream;
     Some (if p \<noteq> 0 then (stream, h) else ts_writable_stream_new h) }"

definition ts_writable_stream_write :: "(addr \<Rightarrow> bool) \<Rightarrow> heap \<Rightarrow> tsvalue \<Rightarrow> tsvalue \<Rightarrow> heap option" where
  "ts_writable_stream_write sock h writer chunk = do {
     p \<leftarrow> stream_body_from_value sock h writer;
     if p = 0 then Some h
     else do {
       x \<leftarrow> objs h p;
       sb \<leftarrow> (case x of OStream sb \<Rightarrow> Some sb | _ \<Rightarrow> None);
       let (a, h1) = (if sb_chunks sb \<noteq> 0 then (sb_chunks sb, h)
         else (let (a, h1) = new_arr h ts_array_new in (a, put_obj h1 p (OStream (sb\<lparr>sb_chunks := a\<rparr>)))));
       if vtag chunk = TAG_STRING \<or> vtag chunk = TAG_OBJECT then arr_push_at h1 a chunk
       else do { (q, h2) \<leftarrow> ts_to_string h1 chunk; arr_push_at h2 a (VString q) } } }"

definition ts_writable_stream_close :: "tsvalue \<Rightarrow> tsvalue" where
  "ts_writable_stream_close writer = ts_value_undefined"

subsection \<open>What they promise\<close>

text \<open>The chunks of a stream.\<close>

definition stream_chunks :: "heap \<Rightarrow> addr \<Rightarrow> tsvalue list \<Rightarrow> bool" where
  "stream_chunks h p vs \<longleftrightarrow> p \<noteq> 0 \<and> (\<exists>sb a. objs h p = Some (OStream sb) \<and> sb_chunks sb \<noteq> 0 \<and>
     arrs h (sb_chunks sb) = Some a \<and> arr_ok a \<and> arr_vals a = vs)"

definition chunk_value :: "tsvalue \<Rightarrow> bool" where
  "chunk_value v \<longleftrightarrow> vtag v = TAG_STRING \<or> vtag v = TAG_OBJECT"

lemma stream_write_eq:
  assumes "objs h p = Some (OStream sb)" "p \<noteq> 0" "sb_chunks sb \<noteq> 0" "\<not> sock p" "chunk_value v"
  shows "ts_writable_stream_write sock h (VObject p) v = arr_push_at h (sb_chunks sb) v"
  using assms by (auto simp: ts_writable_stream_write_def stream_body_from_value_def stream_body_at_def chunk_value_def)

lemma arr_push_at_objs: "arr_push_at h a v = Some h' \<Longrightarrow> objs h' = objs h"
  by (auto simp: arr_push_at_def heap_simps split: bind_splits)

lemma stream_writes_eq:
  assumes "p \<noteq> 0" "sb_chunks sb \<noteq> 0" "\<not> sock p"
  shows "objs h p = Some (OStream sb) \<Longrightarrow> \<forall>v \<in> set vs. chunk_value v \<Longrightarrow>
    foldo (\<lambda>h v. ts_writable_stream_write sock h (VObject p) v) h vs = foldo (\<lambda>h v. arr_push_at h (sb_chunks sb) v) h vs"
proof (induction vs arbitrary: h)
  case (Cons v vs)
  have "ts_writable_stream_write sock h (VObject p) v = arr_push_at h (sb_chunks sb) v"
    using stream_write_eq [where sock = sock, OF Cons.prems(1) assms] Cons.prems(2) by simp
  then show ?case using Cons arr_push_at_objs [of h "sb_chunks sb" v] by (cases "arr_push_at h (sb_chunks sb) v") auto
qed simp

lemma stream_writes:
  assumes "stream_chunks h p us" "\<not> sock p" "\<forall>v \<in> set vs. chunk_value v" "length us + length vs \<le> ARR_LIMIT"
  shows "\<exists>h'. foldo (\<lambda>h v. ts_writable_stream_write sock h (VObject p) v) h vs = Some h' \<and> stream_chunks h' p (us @ vs)"
proof -
  from assms(1) obtain sb a where a: "objs h p = Some (OStream sb)" "p \<noteq> 0" "sb_chunks sb \<noteq> 0" "arrs h (sb_chunks sb) = Some a"
    "arr_ok a" "arr_vals a = us" by (auto simp: stream_chunks_def)
  from foldo_push_at [OF a(4,5), of vs] a(6) assms(4) obtain b where
    "foldo (\<lambda>h v. arr_push_at h (sb_chunks sb) v) h vs = Some (put_arr h (sb_chunks sb) b)" "arr_ok b" "arr_vals b = us @ vs" by auto
  with stream_writes_eq [OF a(2,3), of sock h vs] a assms(2,3) show ?thesis
    by (intro exI [of _ "put_arr h (sb_chunks sb) b"]) (simp add: stream_chunks_def heap_simps)
qed

text \<open>A writable stream serves the chunks that were written to it, in the order they were written.\<close>

theorem writable_stream_order:
  assumes "heap_ok h" "\<forall>v \<in> set vs. chunk_value v" "length vs \<le> ARR_LIMIT" "\<not> sock (Suc (nxt h))"
  shows "\<exists>w h1 h2. ts_writable_stream_new h = (w, h1) \<and>
    foldo (\<lambda>h v. ts_writable_stream_write sock h w v) h1 vs = Some h2 \<and>
    (\<exists>p. w = VObject p \<and> stream_chunks h2 p vs)"
proof -
  let ?h1 = "snd (new_arr h ts_array_new)"
  let ?h2 = "snd (new_obj ?h1 (OStream \<lparr>sb_chunks = nxt h, sb_delay = 0\<rparr>))"
  have "ts_writable_stream_new h = (VObject (Suc (nxt h)), ?h2)"
    by (simp add: ts_writable_stream_new_def new_defs)
  moreover have "stream_chunks ?h2 (Suc (nxt h)) []"
    using assms(1) by (auto simp: stream_chunks_def heap_simps heap_ok_def)
  from stream_writes [where sock = sock, OF this assms(4,2)] assms(3) obtain h3 where
    "foldo (\<lambda>g v. ts_writable_stream_write sock g (VObject (Suc (nxt h))) v) ?h2 vs = Some h3"
    "stream_chunks h3 (Suc (nxt h)) vs" by auto
  ultimately show ?thesis by blast
qed

lemma writable_stream_order_witness:
  "\<exists>w h1 h2. ts_writable_stream_new empty_heap = (w, h1) \<and>
    foldo (\<lambda>h v. ts_writable_stream_write (\<lambda>_. False) h w v) h1 [VString 7, VObject 8] = Some h2 \<and>
    (\<exists>p. w = VObject p \<and> stream_chunks h2 p [VString 7, VObject 8])"
  by (rule writable_stream_order) (simp_all add: chunk_value_def ARR_LIMIT_def)

text \<open>The state in which the constructor of a response without options gets to the body.\<close>

lemma response_new_plain:
  assumes "heap_ok h"
  shows "\<exists>h4 r. ts_response_new sock h body VNull = do {
       (r2, h6) \<leftarrow> response_body sock h4 body r;
       let (rp, h7) = new_obj h6 (OResponse r2);
       Some (VObject rp, h7) } \<and> heap_ok h4 \<and> heap_ext h h4 \<and> map_at h4 (f_headers r) Map.empty \<and>
     f_status r = 200 \<and> f_stream r = 0 \<and> f_body_complete r \<and> nxt h4 = nxt h + 4"
proof -
  let ?h1 = "snd (new_str h ''OK'')"
  let ?h2 = "snd (new_str ?h1 [])"
  let ?h3 = "snd (new_map ?h2)"
  let ?h4 = "snd (new_str ?h3 [])"
  let ?r = "\<lparr>f_status = 200, f_statusText = nxt h, f_body = Suc (nxt h), f_headers = Suc (Suc (nxt h)),
     f_url = Suc (Suc (Suc (nxt h))), f_stream = 0, f_body_complete = True\<rparr>"
  have ok: "heap_ok ?h1" "heap_ok ?h2" "heap_ok ?h3" "heap_ok ?h4" using assms by (simp_all add: heap_simps new_map_def)
  have e: "heap_ext h ?h1" "heap_ext ?h1 ?h2" "heap_ext ?h2 ?h3" "heap_ext ?h3 ?h4"
    using assms ok heap_ext_new by (simp_all add: new_map_def)
  have "map_at ?h3 (Suc (Suc (nxt h))) Map.empty" using map_at_new [of ?h2] by (simp add: heap_simps)
  then have "map_at ?h4 (f_headers ?r) Map.empty" using map_at_ext [OF e(4)] by simp
  moreover have "ts_response_new sock h body VNull = do {
       (r2, h6) \<leftarrow> response_body sock ?h4 body ?r;
       let (rp, h7) = new_obj h6 (OResponse r2);
       Some (VObject rp, h7) }"
    using ts_string_new_eq [of "''OK''" h]
    by (simp add: ts_response_new_def init_fields_def int32_max_def new_map_def Let_def) (simp add: new_defs)
  moreover have "nxt ?h4 = nxt h + 4" by (simp add: heap_simps new_map_def)
  ultimately show ?thesis
    using ok(4) heap_ext_trans [OF e(1) heap_ext_trans [OF e(2) heap_ext_trans [OF e(3,4)]]]
    by (intro exI [of _ ?h4] exI [of _ ?r]) simp
qed

text \<open>
  A response on an array is a stream: it serves the array itself, and the state to which it belongs
  knows no transfer for its stream.
\<close>

lemma response_array:
  assumes "heap_ok h" "a \<noteq> 0" "\<forall>q \<ge> nxt h. \<not> sock q"
  shows "\<exists>rp h' sp r. ts_response_new sock h (VArray a) VNull = Some (VObject rp, h') \<and> nxt h \<le> rp \<and> nxt h \<le> sp \<and>
    objs h' rp = Some (OResponse r) \<and> f_stream r = sp \<and> \<not> f_body_complete r \<and> rp \<noteq> 0 \<and> sp \<noteq> 0 \<and>
    objs h' sp = Some (OStream \<lparr>sb_chunks = a, sb_delay = 0\<rparr>) \<and> f_body r \<noteq> 0"
proof -
  from response_new_plain [OF assms(1), of sock "VArray a"] obtain h4 r where r:
    "ts_response_new sock h (VArray a) VNull = do {
       (r2, h6) \<leftarrow> response_body sock h4 (VArray a) r;
       let (rp, h7) = new_obj h6 (OResponse r2);
       Some (VObject rp, h7) }" "heap_ok h4" "map_at h4 (f_headers r) Map.empty" "nxt h4 = nxt h + 4" by blast
  have d: "stream_delay h4 (f_headers r) 0 = Some 0"
    using map_get_at [OF r(3)] by (simp add: stream_delay_def)
  let ?h5 = "snd (new_obj h4 (OStream \<lparr>sb_chunks = a, sb_delay = 0\<rparr>))"
  let ?h6 = "snd (new_str ?h5 [])"
  let ?r = "r\<lparr>f_stream := nxt h4, f_body_complete := False, f_body := nxt ?h5\<rparr>"
  have "response_body sock h4 (VArray a) r = Some (?r, ?h6)"
    using d assms(2) by (simp add: response_body_def stream_response_def Let_def) (simp add: new_defs)
  then have "ts_response_new sock h (VArray a) VNull = Some (VObject (nxt ?h6), snd (new_obj ?h6 (OResponse ?r)))"
    by (simp add: r(1)) (simp add: new_defs)
  then show ?thesis using r(2,4) assms(1)
    by (intro exI [of _ "nxt ?h6"] exI [of _ "snd (new_obj ?h6 (OResponse ?r))"] exI [of _ "nxt h4"] exI [of _ ?r])
       (simp add: heap_simps heap_ok_def)
qed

theorem response_array_streams:
  assumes "heap_ok h" "a \<noteq> 0" "\<forall>q \<ge> nxt h. \<not> sock q"
  shows "\<exists>v h' sp. ts_response_new sock h (VArray a) VNull = Some (v, h') \<and> ts_response_is_stream sock h' v = Some True \<and>
    ts_response_stream_body sock h' v = Some sp \<and> objs h' sp = Some (OStream \<lparr>sb_chunks = a, sb_delay = 0\<rparr>)"
proof -
  from response_array [OF assms] obtain rp h' sp r where
    "ts_response_new sock h (VArray a) VNull = Some (VObject rp, h')" "nxt h \<le> rp" "nxt h \<le> sp" "objs h' rp = Some (OResponse r)"
    "f_stream r = sp" "\<not> f_body_complete r" "rp \<noteq> 0" "sp \<noteq> 0" "objs h' sp = Some (OStream \<lparr>sb_chunks = a, sb_delay = 0\<rparr>)" by blast
  with assms(3) show ?thesis
    by (intro exI [of _ "VObject rp"] exI [of _ h'] exI [of _ sp])
       (simp add: ts_response_is_stream_def ts_response_stream_body_def stream_body_at_def)
qed

lemma response_array_streams_witness:
  "\<exists>v h' sp. ts_response_new (\<lambda>_. False) empty_heap (VArray 5) VNull = Some (v, h') \<and>
    ts_response_is_stream (\<lambda>_. False) h' v = Some True \<and> ts_response_stream_body (\<lambda>_. False) h' v = Some sp \<and>
    objs h' sp = Some (OStream \<lparr>sb_chunks = 5, sb_delay = 0\<rparr>)"
  by (rule response_array_streams) simp_all

text \<open>\<^verbatim>\<open>text()\<close> of such a response takes its \<^verbatim>\<open>StreamBody\<close> for the stream of a transfer and reads fields it
  does not have.
\<close>

theorem response_array_text_undefined:
  assumes "heap_ok h" "a \<noteq> 0" "\<forall>q \<ge> nxt h. \<not> sock q" "\<forall>q \<ge> nxt h. ft_streams s q = None"
  shows "\<exists>v h'. ts_response_new sock h (VArray a) VNull = Some (v, h') \<and> ts_fetch_text cu v (s\<lparr>ft_heap := h'\<rparr>) = None"
proof -
  from response_array [OF assms(1-3)] obtain rp h' sp r where
    "ts_response_new sock h (VArray a) VNull = Some (VObject rp, h')" "nxt h \<le> rp" "nxt h \<le> sp" "objs h' rp = Some (OResponse r)"
    "f_stream r = sp" "\<not> f_body_complete r" "rp \<noteq> 0" "sp \<noteq> 0" by blast
  with assms(4) show ?thesis
    by (intro exI [of _ "VObject rp"] exI [of _ h']) (simp add: ts_fetch_text_def fetch_stream_drain_def response_at_def Let_def)
qed

lemma response_array_text_undefined_witness:
  "\<exists>v h'. ts_response_new (\<lambda>_. False) empty_heap (VArray 5) VNull = Some (v, h') \<and>
    ts_fetch_text (demo_curl demo_reply) v (demo_fetch\<lparr>ft_heap := h'\<rparr>) = None"
  by (rule response_array_text_undefined) (simp_all add: demo_fetch_def)

text \<open>A response on a string is complete, and \<^verbatim>\<open>text()\<close> gives the string back.\<close>

theorem response_string_text:
  assumes "heap_ok h" "p \<noteq> 0" "\<forall>q \<ge> nxt h. \<not> sock q"
  shows "\<exists>v h'. ts_response_new sock h (VString p) VNull = Some (v, h') \<and> ts_response_is_stream sock h' v = Some False \<and>
    ts_fetch_text cu v (s\<lparr>ft_heap := h'\<rparr>) = Some (p, s\<lparr>ft_heap := h'\<rparr>)"
proof -
  from response_new_plain [OF assms(1), of sock "VString p"] obtain h4 r where r:
    "ts_response_new sock h (VString p) VNull = do {
       (r2, h6) \<leftarrow> response_body sock h4 (VString p) r;
       let (rp, h7) = new_obj h6 (OResponse r2);
       Some (VObject rp, h7) }" "nxt h4 = nxt h + 4" by blast
  let ?r = "r\<lparr>f_body := p, f_body_complete := True\<rparr>"
  have "response_body sock h4 (VString p) r = Some (?r, h4)" using assms(2) by (simp add: response_body_def)
  then have "ts_response_new sock h (VString p) VNull = Some (VObject (nxt h4), snd (new_obj h4 (OResponse ?r)))"
    by (simp add: r(1)) (simp add: new_defs)
  with r(2) assms(2,3) show ?thesis
    by (intro exI [of _ "VObject (nxt h4)"] exI [of _ "snd (new_obj h4 (OResponse ?r))"])
       (simp add: ts_response_is_stream_def ts_fetch_text_def response_at_def heap_simps)
qed

lemma response_string_text_witness:
  "\<exists>v h'. ts_response_new (\<lambda>_. False) empty_heap (VString 5) VNull = Some (v, h') \<and>
    ts_response_is_stream (\<lambda>_. False) h' v = Some False \<and>
    ts_fetch_text (demo_curl demo_reply) v (demo_fetch\<lparr>ft_heap := h'\<rparr>) = Some (5, demo_fetch\<lparr>ft_heap := h'\<rparr>)"
  by (rule response_string_text) simp_all

end
