(* ===== verification/Ts_Hashes.thy ===== *)
theory Ts_Hashes
  imports Ts_Sha1
begin

text \<open>
  The hash functions of \<^verbatim>\<open>builtins/node_crypto.c\<close>, MD5, SHA-1, SHA-256 and SHA-512, against RFC 1321
  and FIPS 180-4. MD5 and SHA-256 are the standard's functions; SHA-1 and SHA-512 put the length of
  the message in the wrong place.
\<close>

subsection \<open>MD5\<close>

type_synonym md5_state = "32 word \<times> 32 word \<times> 32 word \<times> 32 word"

definition MD5_F :: "32 word \<Rightarrow> 32 word \<Rightarrow> 32 word \<Rightarrow> 32 word" where
  "MD5_F x y z = (x AND y) OR (NOT x AND z)"

definition MD5_G :: "32 word \<Rightarrow> 32 word \<Rightarrow> 32 word \<Rightarrow> 32 word" where
  "MD5_G x y z = (x AND z) OR (y AND NOT z)"

definition MD5_H :: "32 word \<Rightarrow> 32 word \<Rightarrow> 32 word \<Rightarrow> 32 word" where
  "MD5_H x y z = (x XOR y) XOR z"

definition MD5_I :: "32 word \<Rightarrow> 32 word \<Rightarrow> 32 word \<Rightarrow> 32 word" where
  "MD5_I x y z = y XOR (x OR NOT z)"

definition MD5_ROL :: "32 word \<Rightarrow> nat \<Rightarrow> 32 word" where
  "MD5_ROL x n = push_bit n x OR drop_bit (32 - n) x"

definition MD5_STEP ::
  "(32 word \<Rightarrow> 32 word \<Rightarrow> 32 word \<Rightarrow> 32 word) \<Rightarrow> 32 word \<Rightarrow> 32 word \<Rightarrow> 32 word \<Rightarrow> 32 word \<Rightarrow> 32 word \<Rightarrow> 32 word \<Rightarrow> nat \<Rightarrow> 32 word" where
  "MD5_STEP f a b c d x t s = MD5_ROL (a + (f b c d + x + t)) s + b"

text \<open>
  The sixty-four lines of \<^verbatim>\<open>md5_transform\<close>: the function, the index into the block, the constant and
  the rotation. From line to line the four variables change their places, a, b, c, d becoming d, a,
  b, c.
\<close>

datatype md5_fun = FunF | FunG | FunH | FunI

fun md5_apply :: "md5_fun \<Rightarrow> 32 word \<Rightarrow> 32 word \<Rightarrow> 32 word \<Rightarrow> 32 word" where
  "md5_apply FunF = MD5_F" | "md5_apply FunG = MD5_G" | "md5_apply FunH = MD5_H" | "md5_apply FunI = MD5_I"

definition md5_lines :: "(md5_fun \<times> nat \<times> 32 word \<times> nat) list" where
  "md5_lines = [
     (FunF, 0, 0xd76aa478, 7), (FunF, 1, 0xe8c7b756, 12), (FunF, 2, 0x242070db, 17), (FunF, 3, 0xc1bdceee, 22),
     (FunF, 4, 0xf57c0faf, 7), (FunF, 5, 0x4787c62a, 12), (FunF, 6, 0xa8304613, 17), (FunF, 7, 0xfd469501, 22),
     (FunF, 8, 0x698098d8, 7), (FunF, 9, 0x8b44f7af, 12), (FunF, 10, 0xffff5bb1, 17), (FunF, 11, 0x895cd7be, 22),
     (FunF, 12, 0x6b901122, 7), (FunF, 13, 0xfd987193, 12), (FunF, 14, 0xa679438e, 17), (FunF, 15, 0x49b40821, 22),
     (FunG, 1, 0xf61e2562, 5), (FunG, 6, 0xc040b340, 9), (FunG, 11, 0x265e5a51, 14), (FunG, 0, 0xe9b6c7aa, 20),
     (FunG, 5, 0xd62f105d, 5), (FunG, 10, 0x02441453, 9), (FunG, 15, 0xd8a1e681, 14), (FunG, 4, 0xe7d3fbc8, 20),
     (FunG, 9, 0x21e1cde6, 5), (FunG, 14, 0xc33707d6, 9), (FunG, 3, 0xf4d50d87, 14), (FunG, 8, 0x455a14ed, 20),
     (FunG, 13, 0xa9e3e905, 5), (FunG, 2, 0xfcefa3f8, 9), (FunG, 7, 0x676f02d9, 14), (FunG, 12, 0x8d2a4c8a, 20),
     (FunH, 5, 0xfffa3942, 4), (FunH, 8, 0x8771f681, 11), (FunH, 11, 0x6d9d6122, 16), (FunH, 14, 0xfde5380c, 23),
     (FunH, 1, 0xa4beea44, 4), (FunH, 4, 0x4bdecfa9, 11), (FunH, 7, 0xf6bb4b60, 16), (FunH, 10, 0xbebfbc70, 23),
     (FunH, 13, 0x289b7ec6, 4), (FunH, 0, 0xeaa127fa, 11), (FunH, 3, 0xd4ef3085, 16), (FunH, 6, 0x04881d05, 23),
     (FunH, 9, 0xd9d4d039, 4), (FunH, 12, 0xe6db99e5, 11), (FunH, 15, 0x1fa27cf8, 16), (FunH, 2, 0xc4ac5665, 23),
     (FunI, 0, 0xf4292244, 6), (FunI, 7, 0x432aff97, 10), (FunI, 14, 0xab9423a7, 15), (FunI, 5, 0xfc93a039, 21),
     (FunI, 12, 0x655b59c3, 6), (FunI, 3, 0x8f0ccc92, 10), (FunI, 10, 0xffeff47d, 15), (FunI, 1, 0x85845dd1, 21),
     (FunI, 8, 0x6fa87e4f, 6), (FunI, 15, 0xfe2ce6e0, 10), (FunI, 6, 0xa3014314, 15), (FunI, 13, 0x4e0811a1, 21),
     (FunI, 4, 0xf7537e82, 6), (FunI, 11, 0xbd3af235, 10), (FunI, 2, 0x2ad7d2bb, 15), (FunI, 9, 0xeb86d391, 21)]"

definition md5_line :: "32 word list \<Rightarrow> md5_fun \<times> nat \<times> 32 word \<times> nat \<Rightarrow> md5_state \<Rightarrow> md5_state" where
  "md5_line x l v = (case l of (f, k, t, s) \<Rightarrow> case v of (a, b, c, d) \<Rightarrow>
     (d, MD5_STEP (md5_apply f) a b c d (x ! k) t s, b, c))"

definition load_le :: "8 word list \<Rightarrow> nat \<Rightarrow> 32 word" where
  "load_le block i = ((ucast (block ! (i*4)) OR push_bit 8 (ucast (block ! (i*4 + 1)))) OR
     push_bit 16 (ucast (block ! (i*4 + 2)))) OR push_bit 24 (ucast (block ! (i*4 + 3)))"

definition md5_transform :: "md5_state \<Rightarrow> 8 word list \<Rightarrow> md5_state" where
  "md5_transform s block = (case s of (s0, s1, s2, s3) \<Rightarrow>
     case fold (md5_line (map (load_le block) [0..<16])) md5_lines s of (a, b, c, d) \<Rightarrow> (s0 + a, s1 + b, s2 + c, s3 + d))"

definition md5_init :: "md5_state hash_ctx" where
  "md5_init = hash_init 64 (0x67452301, 0xefcdab89, 0x98badcfe, 0x10325476)"

definition md5_update :: "md5_state hash_ctx \<Rightarrow> 8 word list \<Rightarrow> md5_state hash_ctx" where
  "md5_update h data = hash_update 64 md5_transform h data"

definition length_bytes_le :: "64 word \<Rightarrow> 8 word list" where
  "length_bytes_le bits = map (\<lambda>k. ucast (drop_bit k bits)) [0, 8, 16, 24, 32, 40, 48, 56]"

definition state_bytes_le :: "32 word \<Rightarrow> 8 word list" where
  "state_bytes_le x = [ucast x, ucast (drop_bit 8 x), ucast (drop_bit 16 x), ucast (drop_bit 24 x)]"

definition md5_final :: "md5_state hash_ctx \<Rightarrow> 8 word list" where
  "md5_final h =
    (let bits = h_count h * 8; (st, buf) = hash_pad 64 56 md5_transform h
     in case md5_transform st (take 56 buf @ length_bytes_le bits) of (a, b, c, d) \<Rightarrow>
       concat (map state_bytes_le [a, b, c, d]))"

subsection \<open>SHA-1\<close>

text \<open>The digest of a block is, word for word, the one of \<^verbatim>\<open>websocket.c\<close>; the end of a message is not.\<close>

definition node_sha1_transform :: "sha_state \<Rightarrow> 8 word list \<Rightarrow> sha_state" where
  "node_sha1_transform = sha1_transform"

definition sha1_init :: "sha_state hash_ctx" where
  "sha1_init = hash_init 64 (0x67452301, 0xEFCDAB89, 0x98BADCFE, 0x10325476, 0xC3D2E1F0)"

definition sha1_update :: "sha_state hash_ctx \<Rightarrow> 8 word list \<Rightarrow> sha_state hash_ctx" where
  "sha1_update h data = hash_update 64 node_sha1_transform h data"

text \<open>Four bytes of the length are stored from 56 on; the last four bytes of the buffer stay what they were.\<close>

definition length_bytes_32 :: "64 word \<Rightarrow> 8 word list" where
  "length_bytes_32 bits = map (\<lambda>k. ucast (drop_bit k bits)) [24, 16, 8, 0]"

definition sha1_final :: "sha_state hash_ctx \<Rightarrow> 8 word list" where
  "sha1_final h =
    (let bits = h_count h * 8; (st, buf) = hash_pad 64 56 node_sha1_transform h
     in case node_sha1_transform st (take 56 buf @ length_bytes_32 bits @ drop 60 buf) of (a, b, c, d, e) \<Rightarrow>
       concat (map state_bytes [a, b, c, d, e]))"

subsection \<open>SHA-256 and SHA-512\<close>

text \<open>
  The two functions are the same but for the width of a word, the constants, the number of rounds and
  the amounts of the rotations. \<open>RR\<close>, \<open>CH\<close> and \<open>MAJ\<close> stand for the macros of both widths.
\<close>

definition RR :: "'a::len word \<Rightarrow> nat \<Rightarrow> 'a word" where
  "RR x n = drop_bit n x OR push_bit (LENGTH('a) - n) x"

definition CH :: "'a::len word \<Rightarrow> 'a word \<Rightarrow> 'a word \<Rightarrow> 'a word" where
  "CH x y z = (x AND y) XOR (NOT x AND z)"

definition MAJ :: "'a::len word \<Rightarrow> 'a word \<Rightarrow> 'a word \<Rightarrow> 'a word" where
  "MAJ x y z = ((x AND y) XOR (x AND z)) XOR (y AND z)"

type_synonym 'w sha2_state = "'w \<times> 'w \<times> 'w \<times> 'w \<times> 'w \<times> 'w \<times> 'w \<times> 'w"

text \<open>The functions of one width: the first two for a round, the others for the schedule.\<close>

record 'w sha2 =
  EP0 :: "'w \<Rightarrow> 'w"
  EP1 :: "'w \<Rightarrow> 'w"
  SIG0 :: "'w \<Rightarrow> 'w"
  SIG1 :: "'w \<Rightarrow> 'w"
  sha2_k :: "'w list"

definition sha2_extend :: "'a::len word sha2 \<Rightarrow> nat \<Rightarrow> 'a word list \<Rightarrow> 'a word list" where
  "sha2_extend p i w = w @ [SIG1 p (w ! (i-2)) + w ! (i-7) + SIG0 p (w ! (i-15)) + w ! (i-16)]"

definition sha2_round :: "'a::len word sha2 \<Rightarrow> 'a word list \<Rightarrow> nat \<Rightarrow> 'a word sha2_state \<Rightarrow> 'a word sha2_state" where
  "sha2_round p w i s = (case s of (a, b, c, d, e, f, g, h) \<Rightarrow>
     let t1 = h + EP1 p e + CH e f g + sha2_k p ! i + w ! i; t2 = EP0 p a + MAJ a b c
     in (t1 + t2, a, b, c, d + t1, e, f, g))"

fun sha2_add :: "'a::len word sha2_state \<Rightarrow> 'a word sha2_state \<Rightarrow> 'a word sha2_state" where
  "sha2_add (a, b, c, d, e, f, g, h) (a', b', c', d', e', f', g', h') =
     (a + a', b + b', c + c', d + d', e + e', f + f', g + g', h + h')"

definition sha2_transform :: "'a::len word sha2 \<Rightarrow> (8 word list \<Rightarrow> nat \<Rightarrow> 'a word) \<Rightarrow> nat \<Rightarrow> 'a word sha2_state \<Rightarrow> 8 word list \<Rightarrow> 'a word sha2_state" where
  "sha2_transform p load n s block =
    (let w = fold (sha2_extend p) [16..<n] (map (load block) [0..<16])
     in sha2_add s (fold (sha2_round p w) [0..<n] s))"

definition sha256 :: "32 word sha2" where
  "sha256 = \<lparr>EP0 = (\<lambda>x. (RR x 2 XOR RR x 13) XOR RR x 22), EP1 = (\<lambda>x. (RR x 6 XOR RR x 11) XOR RR x 25),
     SIG0 = (\<lambda>x. (RR x 7 XOR RR x 18) XOR drop_bit 3 x), SIG1 = (\<lambda>x. (RR x 17 XOR RR x 19) XOR drop_bit 10 x),
     sha2_k = concat
    [[0x428a2f98, 0x71374491, 0xb5c0fbcf, 0xe9b5dba5, 0x3956c25b, 0x59f111f1, 0x923f82a4, 0xab1c5ed5],
     [0xd807aa98, 0x12835b01, 0x243185be, 0x550c7dc3, 0x72be5d74, 0x80deb1fe, 0x9bdc06a7, 0xc19bf174],
     [0xe49b69c1, 0xefbe4786, 0x0fc19dc6, 0x240ca1cc, 0x2de92c6f, 0x4a7484aa, 0x5cb0a9dc, 0x76f988da],
     [0x983e5152, 0xa831c66d, 0xb00327c8, 0xbf597fc7, 0xc6e00bf3, 0xd5a79147, 0x06ca6351, 0x14292967],
     [0x27b70a85, 0x2e1b2138, 0x4d2c6dfc, 0x53380d13, 0x650a7354, 0x766a0abb, 0x81c2c92e, 0x92722c85],
     [0xa2bfe8a1, 0xa81a664b, 0xc24b8b70, 0xc76c51a3, 0xd192e819, 0xd6990624, 0xf40e3585, 0x106aa070],
     [0x19a4c116, 0x1e376c08, 0x2748774c, 0x34b0bcb5, 0x391c0cb3, 0x4ed8aa4a, 0x5b9cca4f, 0x682e6ff3],
     [0x748f82ee, 0x78a5636f, 0x84c87814, 0x8cc70208, 0x90befffa, 0xa4506ceb, 0xbef9a3f7, 0xc67178f2]]\<rparr>"

definition sha256_transform :: "32 word sha2_state \<Rightarrow> 8 word list \<Rightarrow> 32 word sha2_state" where
  "sha256_transform = sha2_transform sha256 load_word 64"

definition sha256_init :: "32 word sha2_state hash_ctx" where
  "sha256_init = hash_init 64 (0x6a09e667, 0xbb67ae85, 0x3c6ef372, 0xa54ff53a, 0x510e527f, 0x9b05688c, 0x1f83d9ab, 0x5be0cd19)"

definition sha256_update :: "32 word sha2_state hash_ctx \<Rightarrow> 8 word list \<Rightarrow> 32 word sha2_state hash_ctx" where
  "sha256_update h data = hash_update 64 sha256_transform h data"

fun sha2_bytes :: "('a word \<Rightarrow> 8 word list) \<Rightarrow> 'a word sha2_state \<Rightarrow> 8 word list" where
  "sha2_bytes f (a, b, c, d, e, g, h, i) = concat (map f [a, b, c, d, e, g, h, i])"

definition sha256_final :: "32 word sha2_state hash_ctx \<Rightarrow> 8 word list" where
  "sha256_final h =
    (let bits = h_count h * 8; (st, buf) = hash_pad 64 56 sha256_transform h
     in sha2_bytes state_bytes (sha256_transform st (take 56 buf @ length_bytes bits)))"

definition sha512 :: "64 word sha2" where
  "sha512 = \<lparr>EP0 = (\<lambda>x. (RR x 28 XOR RR x 34) XOR RR x 39), EP1 = (\<lambda>x. (RR x 14 XOR RR x 18) XOR RR x 41),
     SIG0 = (\<lambda>x. (RR x 1 XOR RR x 8) XOR drop_bit 7 x), SIG1 = (\<lambda>x. (RR x 19 XOR RR x 61) XOR drop_bit 6 x),
     sha2_k = concat
    [[0x428a2f98d728ae22, 0x7137449123ef65cd, 0xb5c0fbcfec4d3b2f, 0xe9b5dba58189dbbc],
     [0x3956c25bf348b538, 0x59f111f1b605d019, 0x923f82a4af194f9b, 0xab1c5ed5da6d8118],
     [0xd807aa98a3030242, 0x12835b0145706fbe, 0x243185be4ee4b28c, 0x550c7dc3d5ffb4e2],
     [0x72be5d74f27b896f, 0x80deb1fe3b1696b1, 0x9bdc06a725c71235, 0xc19bf174cf692694],
     [0xe49b69c19ef14ad2, 0xefbe4786384f25e3, 0x0fc19dc68b8cd5b5, 0x240ca1cc77ac9c65],
     [0x2de92c6f592b0275, 0x4a7484aa6ea6e483, 0x5cb0a9dcbd41fbd4, 0x76f988da831153b5],
     [0x983e5152ee66dfab, 0xa831c66d2db43210, 0xb00327c898fb213f, 0xbf597fc7beef0ee4],
     [0xc6e00bf33da88fc2, 0xd5a79147930aa725, 0x06ca6351e003826f, 0x142929670a0e6e70],
     [0x27b70a8546d22ffc, 0x2e1b21385c26c926, 0x4d2c6dfc5ac42aed, 0x53380d139d95b3df],
     [0x650a73548baf63de, 0x766a0abb3c77b2a8, 0x81c2c92e47edaee6, 0x92722c851482353b],
     [0xa2bfe8a14cf10364, 0xa81a664bbc423001, 0xc24b8b70d0f89791, 0xc76c51a30654be30],
     [0xd192e819d6ef5218, 0xd69906245565a910, 0xf40e35855771202a, 0x106aa07032bbd1b8],
     [0x19a4c116b8d2d0c8, 0x1e376c085141ab53, 0x2748774cdf8eeb99, 0x34b0bcb5e19b48a8],
     [0x391c0cb3c5c95a63, 0x4ed8aa4ae3418acb, 0x5b9cca4f7763e373, 0x682e6ff3d6b2b8a3],
     [0x748f82ee5defb2fc, 0x78a5636f43172f60, 0x84c87814a1f0ab72, 0x8cc702081a6439ec],
     [0x90befffa23631e28, 0xa4506cebde82bde9, 0xbef9a3f7b2c67915, 0xc67178f2e372532b],
     [0xca273eceea26619c, 0xd186b8c721c0c207, 0xeada7dd6cde0eb1e, 0xf57d4f7fee6ed178],
     [0x06f067aa72176fba, 0x0a637dc5a2c898a6, 0x113f9804bef90dae, 0x1b710b35131c471b],
     [0x28db77f523047d84, 0x32caab7b40c72493, 0x3c9ebe0a15c9bebc, 0x431d67c49c100d4c],
     [0x4cc5d4becb3e42b6, 0x597f299cfc657e2a, 0x5fcb6fab3ad6faec, 0x6c44198c4a475817]]\<rparr>"

definition load_word64 :: "8 word list \<Rightarrow> nat \<Rightarrow> 64 word" where
  "load_word64 block i = ((((((push_bit 56 (ucast (block ! (i*8))) OR push_bit 48 (ucast (block ! (i*8 + 1)))) OR
     push_bit 40 (ucast (block ! (i*8 + 2)))) OR push_bit 32 (ucast (block ! (i*8 + 3)))) OR
     push_bit 24 (ucast (block ! (i*8 + 4)))) OR push_bit 16 (ucast (block ! (i*8 + 5)))) OR
     push_bit 8 (ucast (block ! (i*8 + 6)))) OR ucast (block ! (i*8 + 7))"

definition sha512_transform :: "64 word sha2_state \<Rightarrow> 8 word list \<Rightarrow> 64 word sha2_state" where
  "sha512_transform = sha2_transform sha512 load_word64 80"

definition sha512_init :: "64 word sha2_state hash_ctx" where
  "sha512_init = hash_init 128 (0x6a09e667f3bcc908, 0xbb67ae8584caa73b, 0x3c6ef372fe94f82b, 0xa54ff53a5f1d36f1,
     0x510e527fade682d1, 0x9b05688c2b3e6c1f, 0x1f83d9abfb41bd6b, 0x5be0cd19137e2179)"

definition sha512_update :: "64 word sha2_state hash_ctx \<Rightarrow> 8 word list \<Rightarrow> 64 word sha2_state hash_ctx" where
  "sha512_update h data = hash_update 128 sha512_transform h data"

text \<open>The eight bytes of the length are stored from 112 on; the last eight bytes of the buffer stay what they were.\<close>

definition sha512_final :: "64 word sha2_state hash_ctx \<Rightarrow> 8 word list" where
  "sha512_final h =
    (let bits = h_count h * 8; (st, buf) = hash_pad 128 112 sha512_transform h
     in sha2_bytes length_bytes (sha512_transform st (take 112 buf @ length_bytes bits @ drop 120 buf)))"

end
