(* ===== verification/Ts_Hash_Std.thy ===== *)
theory Ts_Hash_Std
  imports Ts_Hashes
begin

text \<open>
  MD5 as RFC 1321 has it, SHA-256 as FIPS 180-4 has it, and the hash functions of \<^verbatim>\<open>node_crypto.c\<close>
  against them: the first two agree for every message in any pieces, SHA-1 and SHA-512 do not.
\<close>

subsection \<open>MD5\<close>

definition md5_fun_of :: "nat \<Rightarrow> md5_fun" where
  "md5_fun_of i = (if i < 16 then FunF else if i < 32 then FunG else if i < 48 then FunH else FunI)"

lemma md5_lines_std: "md5_lines = map (\<lambda>i. (md5_fun_of i, std_md5_index i, std_md5_T ! i, std_md5_shift i)) [0..<64]"
  by (simp add: md5_lines_def upt_rec md5_fun_of_def std_md5_index_def std_md5_T_def std_md5_shift_def)

lemma md5_fun_std: "md5_apply (md5_fun_of i) x y z = std_md5_fun i x y z"
  by (simp add: md5_fun_of_def std_md5_fun_def MD5_F_def MD5_G_def MD5_H_def MD5_I_def xor.assoc)

lemma std_md5_shift_range: "i < 64 \<Longrightarrow> 0 < std_md5_shift i \<and> std_md5_shift i < 32"
proof -
  assume "i < 64"
  then have "i div 16 \<in> {0, 1, 2, 3}" "i mod 4 \<in> {0, 1, 2, 3}" by auto
  then show ?thesis by (auto simp: std_md5_shift_def)
qed

lemma load_le_std: "4 * t + 3 < length b \<Longrightarrow> load_le b t = le_word (block_bytes 4 b t)"
  by (simp add: block_bytes4 le_word_def be_word4 load_le_def ac_simps)

lemma state_bytes_le_std: "state_bytes_le x = rev (be_bytes 4 (unat x))"
  by (simp add: state_bytes_le_def be_bytes_shifts upt_rec)

lemma length_bytes_le_std: "length_bytes_le (word_of_nat n) = rev (be_bytes 8 n)"
  by (subst be_bytes_wrap [symmetric]) (simp add: length_bytes_le_def be_bytes_shifts upt_rec)

lemma md5_line_std:
  assumes "i < 64" "length b = 64"
  shows "md5_line (map (load_le b) [0..<16]) (md5_fun_of i, std_md5_index i, std_md5_T ! i, std_md5_shift i) v = std_md5_step b i v"
proof -
  have "std_md5_index i < 16" by (simp add: std_md5_index_def)
  moreover have "MD5_ROL x (std_md5_shift i) = word_rotl (std_md5_shift i) x" for x
    using rotl_shifts [of "std_md5_shift i" x] std_md5_shift_range [OF assms(1)] by (simp add: MD5_ROL_def)
  ultimately show ?thesis
    using assms(2) by (simp add: md5_line_def std_md5_step_def MD5_STEP_def md5_fun_std load_le_std ac_simps split: prod.split)
qed

lemma md5_transform_std:
  assumes "length b = 64" shows "md5_transform s b = std_md5_block s b"
proof -
  have "fold (md5_line (map (load_le b) [0..<16])) md5_lines s = fold (std_md5_step b) [0..<64] s"
    unfolding md5_lines_std fold_map o_def by (intro fold_cong ext) (simp_all add: md5_line_std [OF _ assms])
  then show ?thesis by (simp add: md5_transform_def std_md5_block_def)
qed

lemma std_md5_iv_eq: "std_md5_iv = (0x67452301, 0xefcdab89, 0x98badcfe, 0x10325476)"
  by (simp add: std_md5_iv_def le_word_def be_nat_def)

interpretation md5: block_hash 64 56 md5_transform "h_state md5_init"
  by (unfold_locales, simp, simp, rule index_mod_64)

lemma md5_update_fun: "md5_update = hash_update 64 md5_transform"
  by (intro ext) (simp add: md5_update_def)

lemma md5_pieces: "md5_final (foldl md5_update md5_init pieces) = std_md5 (concat pieces)"
proof -
  let ?h = "foldl md5_update md5_init pieces"
  let ?m = "concat pieces"
  let ?l = "length_bytes_le (h_count ?h * 8)"
  have i: "hash_init 64 (h_state md5_init) = md5_init" "h_state md5_init = std_md5_iv"
    by (simp_all add: md5_init_def hash_init_def std_md5_iv_eq)
  have r: "hash_rep 64 md5_transform (h_state md5_init) ?h ?m"
    using md5.rep_pieces [OF md5.rep_init, of pieces] by (simp add: md5_update_fun i(1))
  have l: "?l = rev (be_bytes 8 (8 * length ?m))" "length ?l = 64 - 56"
    using r length_bytes_le_std [of "8 * length ?m"] by (simp_all add: hash_rep_def mult.commute)
  obtain st buf where pad: "hash_pad 64 56 md5_transform ?h = (st, buf)" by fastforce
  have "md5_transform st (take 56 buf @ ?l) = fst (absorb 64 md5_transform (h_state md5_init)
      (?m @ [0x80] @ pad_zeros 64 56 (length ?m) @ rev (be_bytes 8 (8 * length ?m))))"
    using md5.pad_ok [OF r l(2)] pad l(1) by simp
  also have "\<dots> = foldl std_md5_block (h_state md5_init) (std_blocks 64 (std_pad 64 56 (\<lambda>n. rev (be_bytes 8 n)) ?m))"
    by (rule absorb_std [where len = "\<lambda>n. rev (be_bytes 8 n)"]) (simp_all add: md5_transform_std)
  finally show ?thesis by (simp add: md5_final_def std_md5_def pad i(2) state_bytes_le_std)
qed

text \<open>C12. The digest of a message fed in any pieces is the MD5 digest of RFC 1321, as \<open>std_md5\<close> of the theory
  of the standards has it.\<close>

theorem md5_is_rfc1321: "md5_final (foldl md5_update md5_init pieces) = std_md5 (concat pieces)"
  by (rule md5_pieces)

subsection \<open>SHA-256\<close>

text \<open>
  The constants of the code are the roots of the standard: the word \<open>w\<close>, with the integer part \<open>i\<close> of
  the root of \<open>p\<close> before it, is a lower bound of the root, and the next number is not.
\<close>

definition root_word :: "nat \<Rightarrow> nat \<Rightarrow> nat \<Rightarrow> 32 word \<Rightarrow> bool" where
  "root_word k i p w \<longleftrightarrow> (let r = i * 2 ^ 32 + unat w in r ^ k \<le> p * 2 ^ (32 * k) \<and> p * 2 ^ (32 * k) < (r + 1) ^ k)"

lemma word_of_nat_32: "(word_of_nat (2 ^ 32) :: 32 word) = 0"
  by (simp add: word_of_nat_eq_0_iff)

lemma root_word_bits:
  assumes "0 < k" "root_word k i p w" shows "root_bits k p = w"
proof -
  have "root_bits k p = word_of_nat (i * 2 ^ 32 + unat w)"
    using assms by (intro root_bits_eq) (simp_all only: root_word_def Let_def)
  also have "\<dots> = w" by (simp only: of_nat_add of_nat_mult word_of_nat_32) simp
  finally show ?thesis .
qed

definition cube_part :: "nat \<Rightarrow> nat" where
  "cube_part p = (if p < 8 then 1 else if p < 27 then 2 else if p < 64 then 3 else if p < 125 then 4 else if p < 216 then 5 else 6)"

lemma sha256_k_words: "list_all2 (\<lambda>p w. root_word 3 (cube_part p) p w) std_primes (sha2_k sha256)"
  by (simp add: std_primes_def sha256_def root_word_def cube_part_def)

lemma sha256_k_std: "sha2_k sha256 = map std_sha256_k [0..<64]"
proof (rule nth_equalityI)
  have len: "length std_primes = 64" by (simp add: std_primes_def)
  with sha256_k_words show "length (sha2_k sha256) = length (map std_sha256_k [0..<64])" by (simp add: list_all2_conv_all_nth)
  fix i assume "i < length (sha2_k sha256)"
  with len sha256_k_words have i: "i < 64" "root_word 3 (cube_part (std_primes ! i)) (std_primes ! i) (sha2_k sha256 ! i)"
    by (simp_all add: list_all2_conv_all_nth)
  then have "root_bits 3 (std_primes ! i) = sha2_k sha256 ! i" by (intro root_word_bits) simp_all
  with i(1) show "sha2_k sha256 ! i = map std_sha256_k [0..<64] ! i" by (simp add: std_sha256_k_def)
qed

lemma sha256_iv_std: "h_state sha256_init = std_sha256_iv"
proof -
  have "root_word 2 1 2 0x6a09e667" "root_word 2 1 3 0xbb67ae85" "root_word 2 2 5 0x3c6ef372" "root_word 2 2 7 0xa54ff53a"
    "root_word 2 3 11 0x510e527f" "root_word 2 3 13 0x9b05688c" "root_word 2 4 17 0x1f83d9ab" "root_word 2 4 19 0x5be0cd19"
    by (simp_all add: root_word_def)
  then show ?thesis by (simp add: sha256_init_def hash_init_def std_sha256_iv_def root_word_bits [of 2])
qed

text \<open>The schedule and the rounds.\<close>

lemma RR_rotr: "0 < n \<Longrightarrow> n < LENGTH('a) \<Longrightarrow> RR (x :: 'a::len word) n = word_rotr n x"
  by (simp add: RR_def rotr_shifts)

lemma sha256_fun_std:
  "EP0 sha256 x = word_rotr 2 x XOR word_rotr 13 x XOR word_rotr 22 x" "EP1 sha256 x = word_rotr 6 x XOR word_rotr 11 x XOR word_rotr 25 x"
  "SIG0 sha256 x = word_rotr 7 x XOR word_rotr 18 x XOR drop_bit 3 x" "SIG1 sha256 x = word_rotr 17 x XOR word_rotr 19 x XOR drop_bit 10 x"
  by (simp_all add: sha256_def RR_rotr xor.assoc)

lemma sha256_extend_std:
  "length b = 64 \<Longrightarrow> 16 \<le> n \<Longrightarrow> fold (sha2_extend sha256) [16..<n] (map (load_word b) [0..<16]) = map (std_sha256_w b) [0..<n]"
proof (induction n)
  case (Suc n)
  show ?case
  proof (cases "n < 16")
    case True
    with Suc.prems have "n = 15" by simp
    have "map (load_word b) [0..<16] = map (std_sha256_w b) [0..<16]"
      using Suc.prems(1) by (intro map_cong refl) (simp add: std_sha256_w.simps load_word_std)
    with \<open>n = 15\<close> show ?thesis by simp
  next
    case False
    with Suc have step: "fold (sha2_extend sha256) [16..<Suc n] (map (load_word b) [0..<16]) = sha2_extend sha256 n (map (std_sha256_w b) [0..<n])" by simp
    show ?thesis unfolding step using False by (simp add: sha2_extend_def sha256_fun_std std_sha256_w.simps [of b n] Let_def)
  qed
qed simp

lemma sha256_round_std:
  assumes "i < 64" shows "sha2_round sha256 (map (std_sha256_w b) [0..<64]) i s = std_sha256_round b i s"
  using assms by (simp add: sha2_round_def std_sha256_round_def sha256_fun_std sha256_k_std CH_def MAJ_def std_ch_def std_maj_def xor.assoc
      Let_def split: prod.split)

lemma sha256_transform_std:
  assumes "length b = 64" shows "sha256_transform s b = std_sha256_block s b"
proof -
  have "fold (sha2_round sha256 (map (std_sha256_w b) [0..<64])) [0..<64] s = fold (std_sha256_round b) [0..<64] s"
    by (intro fold_cong ext refl) (simp add: sha256_round_std)
  moreover have "fold (sha2_extend sha256) [16..<64] (map (load_word b) [0..<16]) = map (std_sha256_w b) [0..<64]"
    using sha256_extend_std [OF assms, of 64] by linarith
  ultimately show ?thesis
    by (simp only: sha256_transform_def sha2_transform_def std_sha256_block_def Let_def) (simp add: add.commute split: prod.split)
qed

interpretation s256: block_hash 64 56 sha256_transform "h_state sha256_init"
  by (unfold_locales, simp, simp, rule index_mod_64)

lemma sha256_update_fun: "sha256_update = hash_update 64 sha256_transform"
  by (intro ext) (simp add: sha256_update_def)

lemma sha256_pieces: "sha256_final (foldl sha256_update sha256_init pieces) = std_sha256 (concat pieces)"
proof -
  let ?h = "foldl sha256_update sha256_init pieces"
  let ?m = "concat pieces"
  let ?l = "length_bytes (h_count ?h * 8)"
  have "hash_init 64 (h_state sha256_init) = sha256_init" by (simp add: sha256_init_def hash_init_def)
  then have r: "hash_rep 64 sha256_transform (h_state sha256_init) ?h ?m"
    using s256.rep_pieces [OF s256.rep_init, of pieces] by (simp add: sha256_update_fun)
  have l: "?l = be_bytes 8 (8 * length ?m)" "length ?l = 64 - 56"
    using r length_bytes_std [of "8 * length ?m"] by (simp_all add: hash_rep_def mult.commute)
  obtain st buf where pad: "hash_pad 64 56 sha256_transform ?h = (st, buf)" by fastforce
  have "sha256_transform st (take 56 buf @ ?l) =
      fst (absorb 64 sha256_transform (h_state sha256_init) (?m @ [0x80] @ pad_zeros 64 56 (length ?m) @ be_bytes 8 (8 * length ?m)))"
    using s256.pad_ok [OF r l(2)] pad l(1) by simp
  also have "\<dots> = foldl std_sha256_block (h_state sha256_init) (std_blocks 64 (std_pad 64 56 (be_bytes 8) ?m))"
    by (rule absorb_std) (simp_all add: sha256_transform_std)
  finally show ?thesis by (simp add: sha256_final_def std_sha256_def pad sha256_iv_std state_bytes_std split: prod.split)
qed

text \<open>C11. The digest of a message fed in any pieces is the SHA-256 digest of FIPS 180-4, as \<open>std_sha256\<close> of the
  theory of the standards has it: its constants are the roots of primes that the standard defines them to be.\<close>

theorem sha256_is_fips: "sha256_final (foldl sha256_update sha256_init pieces) = std_sha256 (concat pieces)"
  by (rule sha256_pieces)

subsection \<open>SHA-1 and SHA-512\<close>

lemma feed_short:
  "idx + length xs < B \<Longrightarrow> length buf = B \<Longrightarrow> feed B tr idx xs (st, buf) = (st, take idx buf @ xs @ drop (idx + length xs) buf)"
proof (induction xs arbitrary: idx buf)
  case (Cons x xs)
  have "take (Suc idx) (buf[idx := x]) = take idx buf @ [x]" using Cons.prems by (simp add: take_Suc_conv_app_nth take_update_cancel)
  moreover have "drop (Suc idx + length xs) (buf[idx := x]) = drop (Suc idx + length xs) buf" by simp
  ultimately show ?case using Cons.IH [of "Suc idx" "buf[idx := x]"] Cons.prems by (simp add: Let_def)
qed simp

text \<open>What the end of a message that fits into one block digests, up to the place of the length.\<close>

lemma pad_one_block:
  assumes "length m < L" "L < B" "hash_index B (hash_update B tr (hash_init B iv) m) = length m"
    "hash_index B (hash_init B iv) = 0"
  shows "hash_pad B L tr (hash_update B tr (hash_init B iv) m) = (iv, m @ [0x80] @ replicate (B - 1 - length m) 0)"
proof -
  have u: "hash_update B tr (hash_init B iv) m = \<lparr>h_state = iv, h_count = word_of_nat (length m), h_buffer = m @ replicate (B - length m) 0\<rparr>"
    using feed_short [of 0 m B "replicate B 0" tr iv] assms(1,2,4) by (simp add: hash_update_def hash_init_def)
  have r: "B - length m = Suc (B - 1 - length m)" using assms(1,2) by simp
  have "zero_fill (m @ 0x80 # replicate (B - 1 - length m) 0) (Suc (length m)) L = m @ [0x80] @ replicate (B - 1 - length m) 0"
  proof -
    have "L - Suc (length m) + (B - L) = B - 1 - length m" using assms(1,2) by simp
    then have "replicate (L - Suc (length m)) 0 @ replicate (B - L) 0 = (replicate (B - 1 - length m) 0 :: 8 word list)"
      by (metis replicate_add)
    moreover have "L - length m = Suc (L - Suc (length m))" using assms(1) by simp
    ultimately show ?thesis using assms(1,2) by (simp add: zero_fill_eq)
  qed
  with assms(1,3) show ?thesis by (simp add: hash_pad_def u Let_def r list_update_append)
qed

lemma one_block_parts:
  assumes "length m < L" "L + k \<le> B"
  shows "take L (m @ [x] @ replicate (B - 1 - length m) y) = m @ [x] @ replicate (L - 1 - length m) y"
    "drop (L + k) (m @ [x] @ replicate (B - 1 - length m) y) = replicate (B - L - k) y"
proof -
  have "L - length m = Suc (L - 1 - length m)" "L + k - length m = Suc (L + k - 1 - length m)" using assms by simp_all
  then show "take L (m @ [x] @ replicate (B - 1 - length m) y) = m @ [x] @ replicate (L - 1 - length m) y"
    "drop (L + k) (m @ [x] @ replicate (B - 1 - length m) y) = replicate (B - L - k) y"
    using assms by simp_all
qed

interpretation s1: block_hash 64 56 node_sha1_transform "h_state sha1_init"
  by (unfold_locales, simp, simp, rule index_mod_64)

interpretation s512: block_hash 128 112 sha512_transform "h_state sha512_init"
  by (unfold_locales, simp, simp, rule index_mod_128)

text \<open>
  A message of less than 56 bytes: the standard's last eight bytes are the length in bits, here its
  four low bytes come four bytes too early and zeros follow.
\<close>

lemma sha1_one_block:
  assumes "length m < 56"
  shows "sha1_final (sha1_update sha1_init m) =
    (case sha1_transform (h_state sha1_init) (m @ [0x80] @ replicate (55 - length m) 0 @ length_bytes_32 (word_of_nat (8 * length m)) @ replicate 4 0)
     of (a, b, c, d, e) \<Rightarrow> concat (map state_bytes [a, b, c, d, e]))"
proof -
  have i: "hash_init 64 (h_state sha1_init) = sha1_init" by (simp add: sha1_init_def hash_init_def)
  have r: "hash_rep 64 node_sha1_transform (h_state sha1_init) (hash_update 64 node_sha1_transform sha1_init m) m"
    using s1.rep_update [OF s1.rep_init, of m] by (simp add: i)
  have idx: "hash_index 64 (hash_update 64 node_sha1_transform sha1_init m) = length m" "hash_index 64 sha1_init = 0"
    using s1.rep_index [OF r] s1.rep_index [OF s1.rep_init] assms by (simp_all add: i)
  have "hash_pad 64 56 node_sha1_transform (hash_update 64 node_sha1_transform sha1_init m) =
      (h_state sha1_init, m @ [0x80] @ replicate (63 - length m) 0)"
    using pad_one_block [of m 56 64 node_sha1_transform "h_state sha1_init"] assms idx by (simp add: i)
  moreover have "take 56 (m @ [0x80] @ replicate (63 - length m) 0) = m @ [0x80] @ replicate (55 - length m) 0"
    "drop 60 (m @ [0x80] @ replicate (63 - length m) 0) = replicate 4 0"
    using one_block_parts [where m = m and L = 56 and k = 4 and B = 64 and x = "0x80 :: 8 word" and y = 0] assms by simp_all
  moreover have "h_count (hash_update 64 node_sha1_transform sha1_init m) * 8 = word_of_nat (8 * length m)"
    using r by (simp add: hash_rep_def mult.commute)
  ultimately show ?thesis using assms by (simp add: sha1_final_def sha1_update_def node_sha1_transform_def del: take_append drop_append)
qed

lemma sha512_one_block:
  assumes "length m < 112"
  shows "sha512_final (sha512_update sha512_init m) = sha2_bytes length_bytes (sha512_transform (h_state sha512_init)
    (m @ [0x80] @ replicate (111 - length m) 0 @ length_bytes (word_of_nat (8 * length m)) @ replicate 8 0))"
proof -
  have i: "hash_init 128 (h_state sha512_init) = sha512_init" by (simp add: sha512_init_def hash_init_def)
  have r: "hash_rep 128 sha512_transform (h_state sha512_init) (hash_update 128 sha512_transform sha512_init m) m"
    using s512.rep_update [OF s512.rep_init, of m] by (simp add: i)
  have idx: "hash_index 128 (hash_update 128 sha512_transform sha512_init m) = length m" "hash_index 128 sha512_init = 0"
    using s512.rep_index [OF r] s512.rep_index [OF s512.rep_init] assms by (simp_all add: i)
  have "hash_pad 128 112 sha512_transform (hash_update 128 sha512_transform sha512_init m) =
      (h_state sha512_init, m @ [0x80] @ replicate (127 - length m) 0)"
    using pad_one_block [of m 112 128 sha512_transform "h_state sha512_init"] assms idx by (simp add: i)
  moreover have "take 112 (m @ [0x80] @ replicate (127 - length m) 0) = m @ [0x80] @ replicate (111 - length m) 0"
    "drop 120 (m @ [0x80] @ replicate (127 - length m) 0) = replicate 8 0"
    using one_block_parts [where m = m and L = 112 and k = 8 and B = 128 and x = "0x80 :: 8 word" and y = 0] assms by simp_all
  moreover have "h_count (hash_update 128 sha512_transform sha512_init m) * 8 = word_of_nat (8 * length m)"
    using r by (simp add: hash_rep_def mult.commute)
  ultimately show ?thesis using assms by (simp add: sha512_final_def sha512_update_def del: take_append drop_append)
qed

definition abc_block :: "8 word list \<Rightarrow> 8 word list" where
  "abc_block l = [97, 98, 99, 0x80] @ replicate 52 0 @ l"

lemma abc_node: "sha1_transform (0x67452301, 0xEFCDAB89, 0x98BADCFE, 0x10325476, 0xC3D2E1F0) (abc_block [0, 0, 0, 24, 0, 0, 0, 0]) =
     (0xc3173c3d, 0x7b4696ef, 0x04e545ec, 0x4217b48d, 0x12dd38dc)"
  by (rule transform_eval [THEN trans], simp add: load_word_def abc_block_def replicate_eval upt_rec, simp add: upt_rec,
      simp add: extend_eval, simp add: upt_rec, simp add: sha_round_eval, simp)

lemma abc_fips: "sha1_transform (0x67452301, 0xEFCDAB89, 0x98BADCFE, 0x10325476, 0xC3D2E1F0) (abc_block [0, 0, 0, 0, 0, 0, 0, 24]) =
     (0xa9993e36, 0x4706816a, 0xba3e2571, 0x7850c26c, 0x9cd0d89d)"
  by (rule transform_eval [THEN trans], simp add: load_word_def abc_block_def replicate_eval upt_rec, simp add: upt_rec,
      simp add: extend_eval, simp add: upt_rec, simp add: sha_round_eval, simp)

text \<open>The SHA-1 digest of the three bytes abc begins with c3 17 3c 3d; in the standard's example it begins
  with a9 99 3e 36.
\<close>

theorem sha1_of_abc:
  "sha1_final (sha1_update sha1_init [97, 98, 99]) =
     concat (map state_bytes [0xc3173c3d, 0x7b4696ef, 0x04e545ec, 0x4217b48d, 0x12dd38dc]) \<and>
   std_sha1 [97, 98, 99] = concat (map state_bytes [0xa9993e36, 0x4706816a, 0xba3e2571, 0x7850c26c, 0x9cd0d89d]) \<and>
   sha1_final (sha1_update sha1_init [97, 98, 99]) \<noteq> std_sha1 [97, 98, 99]"
proof -
  have iv: "h_state sha1_init = (0x67452301, 0xEFCDAB89, 0x98BADCFE, 0x10325476, 0xC3D2E1F0)"
    by (simp add: sha1_init_def hash_init_def)
  have "[97, 98, 99] @ [0x80] @ replicate (55 - length [97, 98, 99 :: 8 word]) 0 @
      length_bytes_32 (word_of_nat (8 * length [97, 98, 99 :: 8 word])) @ replicate 4 0 = abc_block [0, 0, 0, 24, 0, 0, 0, 0]"
    by (simp add: abc_block_def length_bytes_32_def replicate_eval)
  then have a: "sha1_final (sha1_update sha1_init [97, 98, 99]) =
      concat (map state_bytes [0xc3173c3d, 0x7b4696ef, 0x04e545ec, 0x4217b48d, 0x12dd38dc])"
    using sha1_one_block [of "[97, 98, 99]"] by (simp add: iv abc_node)
  let ?b = "abc_block [0, 0, 0, 0, 0, 0, 0, 24]"
  have len: "length ?b = 64" by (simp add: abc_block_def)
  have "std_pad 64 56 (be_bytes 8) [97, 98, 99] = ?b"
    by (simp add: std_pad_def std_zeros_eq abc_block_def be_bytes_def upt_rec replicate_eval)
  then have "std_blocks 64 (std_pad 64 56 (be_bytes 8) [97, 98, 99]) = [?b]"
    using std_blocks_step [OF len, of "[]"] by (simp add: std_blocks_def)
  then have b: "std_sha1 [97, 98, 99] = concat (map state_bytes [0xa9993e36, 0x4706816a, 0xba3e2571, 0x7850c26c, 0x9cd0d89d])"
    by (simp add: std_sha1_def transform_std [OF len, symmetric] abc_fips state_bytes_std)
  show ?thesis unfolding a b by (simp add: state_bytes_def)
qed

text \<open>
  A message of less than 112 bytes: SHA-512 of the standard ends the block with sixteen bytes of
  length, here the eight low bytes of the length come eight bytes too early and zeros follow.
\<close>

theorem sha512_misplaces_length:
  assumes "length m < 112"
  shows "sha512_final (sha512_update sha512_init m) = sha2_bytes length_bytes (sha512_transform (h_state sha512_init)
    (m @ [0x80] @ replicate (111 - length m) 0 @ length_bytes (word_of_nat (8 * length m)) @ replicate 8 0))"
  by (rule sha512_one_block [OF assms])

lemma sha512_misplaces_length_witness:
  "sha512_final (sha512_update sha512_init [97, 98, 99]) = sha2_bytes length_bytes (sha512_transform (h_state sha512_init)
    ([97, 98, 99] @ [0x80] @ replicate 108 0 @ [0, 0, 0, 0, 0, 0, 0, 24] @ replicate 8 0))"
  using sha512_misplaces_length [of "[97, 98, 99]"] by (simp add: length_bytes_def)

end
