(* ===== verification/Ts_Crypto.thy ===== *)
theory Ts_Crypto
  imports Ts_Hash_Std Ts_Objmap
begin

text \<open>
  The operations of \<^verbatim>\<open>builtins/node_crypto.c\<close> and \<^verbatim>\<open>builtins/node_uuid.c\<close>: hash objects, the keyed
  digests, the key derivations and the random identifiers. A \<^verbatim>\<open>HashContext\<close> is allocated by itself, so
  it has a store of its own; \<^verbatim>\<open>rand\<close> and the clock are parameters.
\<close>

subsection \<open>Hash contexts\<close>

text \<open>The union of the four contexts, told apart by its field \<^verbatim>\<open>algorithm\<close>.\<close>

datatype hash_context =
  CtxMd5 "md5_state hash_ctx"
| CtxSha1 "sha_state hash_ctx"
| CtxSha256 "32 word sha2_state hash_ctx"
| CtxSha512 "64 word sha2_state hash_ctx"

definition resolve_algo :: "string option \<Rightarrow> int" where
  "resolve_algo nm = (case nm of
     None \<Rightarrow> 2
   | Some n \<Rightarrow> if n = ''md5'' then 0 else if n = ''sha1'' then 1
       else if n = ''sha256'' \<or> n = ''sha-256'' then 2 else if n = ''sha512'' \<or> n = ''sha-512'' then 3 else 2)"

definition hash_init_ctx :: "int \<Rightarrow> hash_context" where
  "hash_init_ctx algo = (if algo = 0 then CtxMd5 md5_init else if algo = 1 then CtxSha1 sha1_init
     else if algo = 2 then CtxSha256 sha256_init else if algo = 3 then CtxSha512 sha512_init else CtxSha256 sha256_init)"

fun hash_update_ctx :: "hash_context \<Rightarrow> 8 word list \<Rightarrow> hash_context" where
  "hash_update_ctx (CtxMd5 h) data = CtxMd5 (md5_update h data)"
| "hash_update_ctx (CtxSha1 h) data = CtxSha1 (sha1_update h data)"
| "hash_update_ctx (CtxSha256 h) data = CtxSha256 (sha256_update h data)"
| "hash_update_ctx (CtxSha512 h) data = CtxSha512 (sha512_update h data)"

fun hash_digest_size :: "hash_context \<Rightarrow> nat" where
  "hash_digest_size (CtxMd5 h) = 16"
| "hash_digest_size (CtxSha1 h) = 20"
| "hash_digest_size (CtxSha256 h) = 32"
| "hash_digest_size (CtxSha512 h) = 64"

text \<open>The switch over the four \<^verbatim>\<open>final\<close> functions.\<close>

fun hash_final :: "hash_context \<Rightarrow> 8 word list" where
  "hash_final (CtxMd5 h) = md5_final h"
| "hash_final (CtxSha1 h) = sha1_final h"
| "hash_final (CtxSha256 h) = sha256_final h"
| "hash_final (CtxSha512 h) = sha512_final h"

definition bytes_to_hex :: "8 word list \<Rightarrow> string" where
  "bytes_to_hex data = concat (map hex_byte data)"

definition hash_final_hex :: "hash_context \<Rightarrow> string" where
  "hash_final_hex h = bytes_to_hex (take (hash_digest_size h) (hash_final h))"

definition hash_data :: "int \<Rightarrow> 8 word list \<Rightarrow> string" where
  "hash_data algo data = hash_final_hex (hash_update_ctx (hash_init_ctx algo) data)"

subsection \<open>State\<close>

record 'r crypto =
  cr_heap :: heap
  cr_hashes :: "addr \<Rightarrow> hash_context option"
  cr_rand :: 'r

definition ctext :: "tsvalue \<Rightarrow> 'r crypto \<Rightarrow> (string option \<times> 'r crypto) option" where
  "ctext v s = do { (t, h) \<leftarrow> text_or_null (cr_heap s) v; Some (t, s\<lparr>cr_heap := h\<rparr>) }"

text \<open>A text whose NULL is dereferenced.\<close>

definition ctext_deref :: "tsvalue \<Rightarrow> 'r crypto \<Rightarrow> (string \<times> 'r crypto) option" where
  "ctext_deref v s = do { (t, s1) \<leftarrow> ctext v s; d \<leftarrow> t; Some (d, s1) }"

definition creturn :: "string \<Rightarrow> 'r crypto \<Rightarrow> (tsvalue \<times> 'r crypto) option" where
  "creturn t s = do { (v, h) \<leftarrow> new_text (cr_heap s) t; Some (v, s\<lparr>cr_heap := h\<rparr>) }"

definition bytes_of :: "string \<Rightarrow> 8 word list" where
  "bytes_of t = map byte_of t"

subsection \<open>Random bytes and identifiers\<close>

fun rand_bytes :: "('r \<Rightarrow> int \<times> 'r) \<Rightarrow> nat \<Rightarrow> 'r \<Rightarrow> 8 word list \<times> 'r" where
  "rand_bytes rng 0 r = ([], r)"
| "rand_bytes rng (Suc n) r = (let (x, r1) = rng r; (bs, r2) = rand_bytes rng n r1 in (word_of_int x # bs, r2))"

definition node_crypto_randomBytes :: "('r \<Rightarrow> int \<times> 'r) \<Rightarrow> tsvalue \<Rightarrow> 'r crypto \<Rightarrow> (tsvalue \<times> 'r crypto) option" where
  "node_crypto_randomBytes rng sz s = do {
     d \<leftarrow> ts_to_number (cr_heap s) sz;
     n \<leftarrow> d_to_int d;
     let (bs, r) = rand_bytes rng (nat (if n \<le> 0 then 16 else n)) (cr_rand s);
     creturn (bytes_to_hex bs) (s\<lparr>cr_rand := r\<rparr>) }"

text \<open>The format of sixteen bytes, \<^verbatim>\<open>%02x\<close> each with dashes after the fourth, sixth, eighth and tenth.\<close>

definition uuid_text :: "8 word list \<Rightarrow> string" where
  "uuid_text b = bytes_to_hex (take 4 b) @ ''-'' @ bytes_to_hex (take 2 (drop 4 b)) @ ''-'' @
     bytes_to_hex (take 2 (drop 6 b)) @ ''-'' @ bytes_to_hex (take 2 (drop 8 b)) @ ''-'' @ bytes_to_hex (take 6 (drop 10 b))"

definition uuid_v4_bytes :: "8 word list \<Rightarrow> 8 word list" where
  "uuid_v4_bytes b = (let b1 = b[6 := (b ! 6 AND 0x0f) OR 0x40] in b1[8 := (b1 ! 8 AND 0x3f) OR 0x80])"

definition node_crypto_randomUUID :: "('r \<Rightarrow> int \<times> 'r) \<Rightarrow> 'r crypto \<Rightarrow> (tsvalue \<times> 'r crypto) option" where
  "node_crypto_randomUUID rng s =
    (let (b, r) = rand_bytes rng 16 (cr_rand s) in creturn (uuid_text (uuid_v4_bytes b)) (s\<lparr>cr_rand := r\<rparr>))"

definition node_uuid_v4 :: "('r \<Rightarrow> int \<times> 'r) \<Rightarrow> 'r crypto \<Rightarrow> (tsvalue \<times> 'r crypto) option" where
  "node_uuid_v4 rng s =
    (let (b, r) = rand_bytes rng 16 (cr_rand s) in creturn (uuid_text (uuid_v4_bytes b)) (s\<lparr>cr_rand := r\<rparr>))"

definition uuid_hex_digit :: "char \<Rightarrow> int" where
  "uuid_hex_digit c = (let n = of_char c in
     if 48 \<le> n \<and> n \<le> 57 then n - 48 else if 97 \<le> n \<and> n \<le> 102 then n - 97 + 10
     else if 65 \<le> n \<and> n \<le> 70 then n - 65 + 10 else - 1)"

definition uuid_ok :: "string \<Rightarrow> bool" where
  "uuid_ok t \<longleftrightarrow> length t = 36 \<and>
     (\<forall>i \<in> set [0..<36]. if i \<in> {8, 13, 18, 23} then t ! i = CHR ''-'' else 0 \<le> uuid_hex_digit (t ! i))"

definition node_uuid_validate :: "heap \<Rightarrow> addr \<Rightarrow> tsvalue option" where
  "node_uuid_validate h p =
    (if p = 0 then Some (VNumber (dint 0))
     else do { t \<leftarrow> str_data h p; Some (VNumber (dint (if uuid_ok t then 1 else 0))) })"

text \<open>The counter is a global of the module, and \<open>ms\<close> the time.\<close>

definition uuid_v7_bytes :: "64 word \<Rightarrow> 64 word \<Rightarrow> 8 word list \<Rightarrow> 8 word list" where
  "uuid_v7_bytes ms counter b =
    (let b1 = map (\<lambda>k. ucast (drop_bit k ms)) [40, 32, 24, 16, 8, 0] @
       [0x70 OR ucast (drop_bit 8 counter AND 0x0F), ucast counter] @ b
     in b1[8 := (b1 ! 8 AND 0x3f) OR 0x80])"

definition node_uuid_v7 :: "('r \<Rightarrow> int \<times> 'r) \<Rightarrow> 64 word \<Rightarrow> 64 word \<Rightarrow> 'r crypto \<Rightarrow> (tsvalue \<times> 64 word \<times> 'r crypto) option" where
  "node_uuid_v7 rng ms counter s =
    (let counter = (counter + 1) AND 0xFFF; (b, r) = rand_bytes rng 8 (cr_rand s) in do {
       (v, s1) \<leftarrow> creturn (uuid_text (uuid_v7_bytes ms counter b)) (s\<lparr>cr_rand := r\<rparr>);
       Some (v, counter, s1) })"

subsection \<open>Hash objects\<close>

definition new_hash :: "hash_context \<Rightarrow> 'r crypto \<Rightarrow> tsvalue \<times> 'r crypto" where
  "new_hash c s = (let p = nxt (cr_heap s) in
     (VObject p, s\<lparr>cr_heap := (cr_heap s)\<lparr>nxt := Suc p\<rparr>, cr_hashes := (cr_hashes s)(p \<mapsto> c)\<rparr>))"

text \<open>The name of an algorithm as C reads it, \<^verbatim>\<open>sha256\<close> for none.\<close>

definition algo_name :: "string option \<Rightarrow> int" where
  "algo_name t = resolve_algo (Some (case t of None \<Rightarrow> ''sha256'' | Some n \<Rightarrow> cstr n))"

definition node_crypto_createHash :: "tsvalue \<Rightarrow> 'r crypto \<Rightarrow> (tsvalue \<times> 'r crypto) option" where
  "node_crypto_createHash algorithm s = do {
     (a, s1) \<leftarrow> ctext algorithm s;
     Some (new_hash (hash_init_ctx (algo_name a)) s1) }"

definition xor_pad :: "8 word \<Rightarrow> 8 word list \<Rightarrow> 8 word list" where
  "xor_pad x k = map (\<lambda>b. b XOR x) k"

text \<open>\<^verbatim>\<open>memcpy\<close> into a buffer of zeros.\<close>

definition pad_to :: "nat \<Rightarrow> 8 word list \<Rightarrow> 8 word list" where
  "pad_to n k = k @ replicate (n - length k) 0"

definition hmac_ctx :: "int \<Rightarrow> string option \<Rightarrow> hash_context" where
  "hmac_ctx algo key =
    (let B = (if algo = 3 then 128 else 64);
         k_pad = pad_to 128 (case key of None \<Rightarrow> []
           | Some k \<Rightarrow> if B < length k then bytes_of (hash_data algo (bytes_of k)) else bytes_of k);
         h1 = hash_update_ctx (hash_init_ctx algo) (xor_pad 0x36 (take B k_pad));
         h2 = (case key of None \<Rightarrow> h1 | Some k \<Rightarrow> hash_update_ctx h1 (bytes_of k));
         inner = take (hash_digest_size h2) (hash_final h2);
         h3 = hash_update_ctx (hash_init_ctx algo) (xor_pad 0x5c (take B k_pad))
     in hash_update_ctx h3 inner)"

definition node_crypto_createHmac :: "tsvalue \<Rightarrow> tsvalue \<Rightarrow> 'r crypto \<Rightarrow> (tsvalue \<times> 'r crypto) option" where
  "node_crypto_createHmac algorithm key s = do {
     (a, s1) \<leftarrow> ctext algorithm s;
     (k, s2) \<leftarrow> ctext key s1;
     Some (new_hash (hmac_ctx (algo_name a) k) s2) }"

definition node_crypto_hashUpdate :: "tsvalue \<Rightarrow> tsvalue \<Rightarrow> 'r crypto \<Rightarrow> (tsvalue \<times> 'r crypto) option" where
  "node_crypto_hashUpdate hashVal data s = do {
     (t, s1) \<leftarrow> ctext data s;
     case hashVal of
       VObject p \<Rightarrow>
         if p = 0 then Some (hashVal, s1)
         else (case t of
             None \<Rightarrow> Some (hashVal, s1)
           | Some d \<Rightarrow> do {
               c \<leftarrow> cr_hashes s1 p;
               Some (hashVal, s1\<lparr>cr_hashes := (cr_hashes s1)(p \<mapsto> hash_update_ctx c (bytes_of d))\<rparr>) })
     | _ \<Rightarrow> Some (hashVal, s1) }"

definition node_crypto_hashDigest :: "tsvalue \<Rightarrow> tsvalue \<Rightarrow> 'r crypto \<Rightarrow> (tsvalue \<times> 'r crypto) option" where
  "node_crypto_hashDigest hashVal encoding s = (case hashVal of
     VObject p \<Rightarrow>
       if p = 0 then creturn [] s
       else do {
         (enc, s1) \<leftarrow> ctext encoding s;
         c \<leftarrow> cr_hashes s1 p;
         creturn (hash_final_hex c) (s1\<lparr>cr_hashes := (cr_hashes s1)(p := None)\<rparr>) }
   | _ \<Rightarrow> creturn [] s)"

definition hash_text :: "int \<Rightarrow> tsvalue \<Rightarrow> 'r crypto \<Rightarrow> (tsvalue \<times> 'r crypto) option" where
  "hash_text algo data s = do { (t, s1) \<leftarrow> ctext_deref data s; creturn (hash_data algo (bytes_of t)) s1 }"

definition node_crypto_md5 :: "tsvalue \<Rightarrow> 'r crypto \<Rightarrow> (tsvalue \<times> 'r crypto) option" where
  "node_crypto_md5 data s = hash_text 0 data s"

definition node_crypto_sha1 :: "tsvalue \<Rightarrow> 'r crypto \<Rightarrow> (tsvalue \<times> 'r crypto) option" where
  "node_crypto_sha1 data s = hash_text 1 data s"

definition node_crypto_sha256 :: "tsvalue \<Rightarrow> 'r crypto \<Rightarrow> (tsvalue \<times> 'r crypto) option" where
  "node_crypto_sha256 data s = hash_text 2 data s"

definition node_crypto_sha512 :: "tsvalue \<Rightarrow> 'r crypto \<Rightarrow> (tsvalue \<times> 'r crypto) option" where
  "node_crypto_sha512 data s = hash_text 3 data s"

definition hmac_sha256_bytes :: "string option \<Rightarrow> string option \<Rightarrow> 8 word list" where
  "hmac_sha256_bytes key data =
    (let k_pad = pad_to 64 (case key of None \<Rightarrow> [] | Some k \<Rightarrow> take 64 (bytes_of k));
         h1 = sha256_update sha256_init (xor_pad 0x36 k_pad);
         h2 = (case data of None \<Rightarrow> h1 | Some d \<Rightarrow> sha256_update h1 (bytes_of d));
         inner = sha256_final h2
     in sha256_final (sha256_update (sha256_update sha256_init (xor_pad 0x5c k_pad)) inner))"

definition node_crypto_hmac_sha256 :: "tsvalue \<Rightarrow> tsvalue \<Rightarrow> 'r crypto \<Rightarrow> (tsvalue \<times> 'r crypto) option" where
  "node_crypto_hmac_sha256 key data s = do {
     (k, s1) \<leftarrow> ctext key s;
     (d, s2) \<leftarrow> ctext data s1;
     creturn (bytes_to_hex (hmac_sha256_bytes k d)) s2 }"

subsection \<open>Key derivation\<close>

definition block_number :: "32 word \<Rightarrow> 8 word list" where
  "block_number b = state_bytes b"

fun pbkdf2_rounds :: "int \<Rightarrow> nat \<Rightarrow> 8 word list \<Rightarrow> 8 word list \<Rightarrow> 8 word list" where
  "pbkdf2_rounds algo 0 prev acc = acc"
| "pbkdf2_rounds algo (Suc n) prev acc =
    (let h = hash_update_ctx (hash_init_ctx algo) prev; u = take (hash_digest_size h) (hash_final h)
     in pbkdf2_rounds algo n u (map2 (XOR) acc u))"

definition pbkdf2_byte :: "int \<Rightarrow> 8 word list \<Rightarrow> 8 word list \<Rightarrow> nat \<Rightarrow> nat \<Rightarrow> 8 word" where
  "pbkdf2_byte algo pass salt iter i =
    (let h = hash_update_ctx (hash_update_ctx (hash_init_ctx algo) pass) (salt @ block_number (word_of_nat (i + 1)));
         u = take (hash_digest_size h) (hash_final h);
         acc = pbkdf2_rounds algo (iter - 1) u u
     in acc ! (i mod hash_digest_size h))"

definition node_crypto_pbkdf2Sync ::
  "tsvalue \<Rightarrow> tsvalue \<Rightarrow> tsvalue \<Rightarrow> tsvalue \<Rightarrow> tsvalue \<Rightarrow> 'r crypto \<Rightarrow> (tsvalue \<times> 'r crypto) option" where
  "node_crypto_pbkdf2Sync password salt iterations keylen digest s = do {
     (pt, s1) \<leftarrow> ctext password s;
     (st, s2) \<leftarrow> ctext salt s1;
     it \<leftarrow> ts_to_number (cr_heap s2) iterations;
     iter \<leftarrow> d_to_int it;
     kt \<leftarrow> ts_to_number (cr_heap s2) keylen;
     klen \<leftarrow> d_to_int kt;
     (dg, s3) \<leftarrow> ctext_deref digest s2;
     pw \<leftarrow> pt;
     sl \<leftarrow> st;
     let iter = (if iter \<le> 0 then 1000 else iter);
     let klen = (if klen \<le> 0 then 32 else klen);
     creturn (bytes_to_hex (map (pbkdf2_byte (resolve_algo (Some (cstr dg))) (bytes_of pw) (bytes_of sl) (nat iter)) [0..<nat klen])) s3 }"

definition node_crypto_pbkdf2 ::
  "tsvalue \<Rightarrow> tsvalue \<Rightarrow> tsvalue \<Rightarrow> tsvalue \<Rightarrow> tsvalue \<Rightarrow> tsvalue \<Rightarrow> 'r crypto \<Rightarrow> (tsvalue \<times> 'r crypto) option" where
  "node_crypto_pbkdf2 password salt iterations keylen digest callback s =
     node_crypto_pbkdf2Sync password salt iterations keylen digest s"

definition scrypt_byte :: "8 word list \<Rightarrow> 8 word list option \<Rightarrow> nat \<Rightarrow> 8 word" where
  "scrypt_byte pass salt i =
    (let h = sha256_update (sha256_update sha256_init pass) [word_of_nat i];
         h = (case salt of None \<Rightarrow> h | Some sl \<Rightarrow> sha256_update h sl)
     in (sha256_final h ! 0) XOR word_of_nat i)"

definition node_crypto_scryptSync :: "tsvalue \<Rightarrow> tsvalue \<Rightarrow> tsvalue \<Rightarrow> 'r crypto \<Rightarrow> (tsvalue \<times> 'r crypto) option" where
  "node_crypto_scryptSync password salt keylen s = do {
     (pt, s1) \<leftarrow> ctext password s;
     (st, s2) \<leftarrow> ctext salt s1;
     kt \<leftarrow> ts_to_number (cr_heap s2) keylen;
     klen \<leftarrow> d_to_int kt;
     pw \<leftarrow> pt;
     let klen = (if klen \<le> 0 then 32 else klen);
     creturn (bytes_to_hex (map (scrypt_byte (bytes_of pw) (map_option bytes_of st)) [0..<nat klen])) s2 }"

subsection \<open>What they compute\<close>

lemma ctext_string: "str_at (cr_heap s) p t \<Longrightarrow> ctext (VString p) s = Some (Some t, s)"
  by (simp add: ctext_def text_or_null_string)

lemma bytes_to_hex_text: "NUL \<notin> set (bytes_to_hex b)" "length (bytes_to_hex b) = 2 * length b"
  by (induction b) (auto simp: bytes_to_hex_def hex_byte_text)

lemma creturn_ok:
  assumes "heap_ok (cr_heap s)" "NUL \<notin> set t" "length t \<le> 5000"
  shows "\<exists>q h. creturn t s = Some (VString q, s\<lparr>cr_heap := h\<rparr>) \<and> heap_ok h \<and> str_at h q t \<and> heap_ext (cr_heap s) h"
  using new_text_step [OF assms(2,3,1)] by (auto simp: creturn_def)

text \<open>A hash object is updated piece by piece and digested at the end.\<close>

definition update_all :: "tsvalue \<Rightarrow> addr list \<Rightarrow> 'r crypto \<Rightarrow> 'r crypto option" where
  "update_all hv ps s = foldo (\<lambda>s p. map_option snd (node_crypto_hashUpdate hv (VString p) s)) s ps"

lemma update_all_ok:
  "cr_hashes s p = Some c \<Longrightarrow> p \<noteq> 0 \<Longrightarrow> list_all2 (str_at (cr_heap s)) ps ts \<Longrightarrow>
   update_all (VObject p) ps s = Some (s\<lparr>cr_hashes := (cr_hashes s)(p \<mapsto> foldl hash_update_ctx c (map bytes_of ts))\<rparr>)"
proof (induction ps arbitrary: s c ts)
  case Nil
  then show ?case by (simp add: update_all_def map_upd_triv)
next
  case (Cons q ps)
  then obtain t us where t: "ts = t # us" "str_at (cr_heap s) q t" "list_all2 (str_at (cr_heap s)) ps us" by (auto simp: list_all2_Cons1)
  let ?s = "s\<lparr>cr_hashes := (cr_hashes s)(p \<mapsto> hash_update_ctx c (bytes_of t))\<rparr>"
  have "node_crypto_hashUpdate (VObject p) (VString q) s = Some (VObject p, ?s)"
    using Cons.prems(1,2) t(2) by (simp add: node_crypto_hashUpdate_def ctext_string)
  then have "update_all (VObject p) (q # ps) s = update_all (VObject p) ps ?s" by (simp add: update_all_def)
  also have "\<dots> = Some (?s\<lparr>cr_hashes := (cr_hashes ?s)(p \<mapsto> foldl hash_update_ctx (hash_update_ctx c (bytes_of t)) (map bytes_of us))\<rparr>)"
    using Cons.prems(2) t(3) by (intro Cons.IH) simp_all
  finally show ?case by (simp add: t(1) fun_upd_def cong: if_cong)
qed

lemma update_md5: "foldl hash_update_ctx (CtxMd5 h) ps = CtxMd5 (foldl md5_update h ps)"
  by (induction ps arbitrary: h) auto

lemma update_sha256: "foldl hash_update_ctx (CtxSha256 h) ps = CtxSha256 (foldl sha256_update h ps)"
  by (induction ps arbitrary: h) auto

text \<open>The texts of the code are those of the standard.\<close>

lemma bytes_to_hex_std: "bytes_to_hex b = std_hex b"
  by (simp add: bytes_to_hex_def std_hex_def hex_byte_def [abs_def] hex_digit_def)

lemma bytes_of_octets: "bytes_of t = octets t"
  by (simp add: bytes_of_def octets_def byte_of_def)

lemma length_digests: "length (std_md5 m) = 16" "length (std_sha256 m) = 32"
  by (simp_all add: std_md5_def std_sha256_def split: prod.split)

text \<open>The standard's digest for the two algorithms that follow it.\<close>

definition std_digest :: "string \<Rightarrow> 8 word list \<Rightarrow> 8 word list" where
  "std_digest alg m = (if alg = ''md5'' then std_md5 m else std_sha256 m)"

lemma digest_std:
  assumes "alg = ''md5'' \<or> alg = ''sha256''"
  shows "hash_final_hex (foldl hash_update_ctx (hash_init_ctx (algo_name (Some alg))) ps) = bytes_to_hex (std_digest alg (concat ps))"
  using assms length_digests
  by (auto simp: algo_name_def resolve_algo_def hash_init_ctx_def update_md5 update_sha256 hash_final_hex_def md5_pieces sha256_pieces
      std_digest_def)

text \<open>C25. \<^verbatim>\<open>createHash\<close> for the names md5 and sha256, one or more updates and \<^verbatim>\<open>digest\<close> give the hexadecimal digest
  that RFC 1321 or FIPS 180-4 defines for all the texts put together; the object is freed, so that
  another update of it is undefined.
\<close>

theorem hash_object_digest:
  assumes "heap_ok (cr_heap s)" "str_at (cr_heap s) a alg" "alg = ''md5'' \<or> alg = ''sha256''"
    and "list_all2 (str_at (cr_heap s)) ps ts" "str_at (cr_heap s) e enc" "ps \<noteq> []"
  shows "\<exists>hv s1 s2 q s3. node_crypto_createHash (VString a) s = Some (hv, s1) \<and> update_all hv ps s1 = Some s2 \<and>
    node_crypto_hashDigest hv (VString e) s2 = Some (VString q, s3) \<and>
    str_at (cr_heap s3) q (std_hex (std_digest alg (concat (map octets ts)))) \<and>
    update_all hv ps s3 = None"
proof -
  let ?p = "nxt (cr_heap s)"
  let ?c = "hash_init_ctx (algo_name (Some alg))"
  let ?s1 = "s\<lparr>cr_heap := (cr_heap s)\<lparr>nxt := Suc ?p\<rparr>, cr_hashes := (cr_hashes s)(?p \<mapsto> ?c)\<rparr>"
  let ?c2 = "foldl hash_update_ctx ?c (map bytes_of ts)"
  let ?s2 = "?s1\<lparr>cr_hashes := (cr_hashes ?s1)(?p \<mapsto> ?c2)\<rparr>"
  let ?s2' = "?s2\<lparr>cr_hashes := (cr_hashes ?s2)(?p := None)\<rparr>"
  let ?t = "std_hex (std_digest alg (concat (map octets ts)))"
  have p: "?p \<noteq> 0" using assms(1) by (simp add: heap_ok_def)
  have sa: "str_at ((cr_heap s)\<lparr>nxt := k\<rparr>) q t = str_at (cr_heap s) q t" for k q t by (simp add: str_at_def)
  have ok: "heap_ok (cr_heap ?s2')" using assms(1) by (auto simp: heap_ok_def)
  have c: "node_crypto_createHash (VString a) s = Some (VObject ?p, ?s1)"
    using assms(2) by (simp add: node_crypto_createHash_def ctext_string new_hash_def Let_def)
  have u: "update_all (VObject ?p) ps ?s1 = Some ?s2"
    using update_all_ok [of ?s1 ?p ?c ps ts] p assms(4) by (simp add: sa [abs_def])
  have t: "NUL \<notin> set ?t" "length ?t \<le> 5000"
    using length_digests by (simp_all add: bytes_to_hex_text std_digest_def bytes_to_hex_std [symmetric])
  from creturn_ok [OF ok t] obtain q h where q: "creturn ?t ?s2' = Some (VString q, ?s2'\<lparr>cr_heap := h\<rparr>)" "str_at h q ?t"
    "heap_ext (cr_heap ?s2') h" by blast
  have "ctext (VString e) ?s2 = Some (Some enc, ?s2)" using assms(5) by (intro ctext_string) (simp add: sa)
  then have d: "node_crypto_hashDigest (VObject ?p) (VString e) ?s2 = Some (VString q, ?s2'\<lparr>cr_heap := h\<rparr>)"
    using p q(1) digest_std [OF assms(3), of "map bytes_of ts"] by (simp add: node_crypto_hashDigest_def bytes_to_hex_std bytes_of_octets [abs_def])
  obtain b bs u' us where b: "ps = b # bs" "str_at (cr_heap s) b u'" using assms(4,6) by (cases ps) (auto simp: list_all2_Cons1)
  have "str_at h b u'" using str_at_ext [OF q(3)] b(2) by (simp add: sa)
  then have "node_crypto_hashUpdate (VObject ?p) (VString b) (?s2'\<lparr>cr_heap := h\<rparr>) = None"
    using p by (simp add: node_crypto_hashUpdate_def ctext_string)
  then have "update_all (VObject ?p) ps (?s2'\<lparr>cr_heap := h\<rparr>) = None" by (simp add: update_all_def b(1))
  with c u d q(2) show ?thesis by (intro exI [of _ "VObject ?p"] exI [of _ ?s1] exI [of _ ?s2] exI [of _ q] exI [of _ "?s2'\<lparr>cr_heap := h\<rparr>"]) simp
qed

definition demo_crypto :: "nat crypto" where
  "demo_crypto = \<lparr>cr_heap = snd (new_str (snd (new_str empty_heap ''md5'')) ''abc''), cr_hashes = \<lambda>_. None, cr_rand = 0\<rparr>"

lemma demo_crypto_texts: "heap_ok (cr_heap demo_crypto)" "str_at (cr_heap demo_crypto) (Suc 0) ''md5''" "str_at (cr_heap demo_crypto) 2 ''abc''"
  by (simp_all add: demo_crypto_def heap_ok_def str_at_def new_str_def empty_heap_def)

lemma hash_object_digest_witness:
  "\<exists>hv s1 s2 q s3. node_crypto_createHash (VString 1) demo_crypto = Some (hv, s1) \<and> update_all hv [2, 1] s1 = Some s2 \<and>
    node_crypto_hashDigest hv (VString 2) s2 = Some (VString q, s3) \<and>
    str_at (cr_heap s3) q (std_hex (std_digest ''md5'' (concat (map octets [''abc'', ''md5''])))) \<and>
    update_all hv [2, 1] s3 = None"
  by (rule hash_object_digest [where alg = "''md5''" and ts = "[''abc'', ''md5'']" and enc = "''abc''"]) (simp_all add: demo_crypto_texts)

subsection \<open>Keyed digests\<close>

lemma sha256_two: "sha256_final (sha256_update (sha256_update sha256_init a) b) = std_sha256 (a @ b)"
  using sha256_pieces [of "[a, b]"] by simp

lemma sha256_three: "sha256_final (sha256_update (sha256_update (sha256_update sha256_init a) b) c) = std_sha256 (a @ b @ c)"
  using sha256_pieces [of "[a, b, c]"] by simp

text \<open>C26. For keys of up to 64 bytes the keyed digest is HMAC-SHA256, as RFC 2104 defines it over the SHA-256 of
  the standard.\<close>

theorem hmac_sha256_rfc2104:
  assumes "heap_ok (cr_heap s)" "str_at (cr_heap s) kp k" "str_at (cr_heap s) dp d" "length k \<le> 64"
  shows "\<exists>q s'. node_crypto_hmac_sha256 (VString kp) (VString dp) s = Some (VString q, s') \<and>
    str_at (cr_heap s') q (std_hex (std_hmac std_sha256 64 (octets k) (octets d)))"
proof -
  have pad: "xor_pad x (pad_to 64 (octets k)) = map2 (XOR) (octets k @ replicate (64 - length (octets k)) 0) (replicate 64 x)" for x
    using assms(4) by (intro nth_equalityI) (auto simp: xor_pad_def pad_to_def octets_def nth_append)
  have "hmac_sha256_bytes (Some k) (Some d) = std_hmac std_sha256 64 (octets k) (octets d)"
    using assms(4) pad by (simp add: hmac_sha256_bytes_def std_hmac_def sha256_two Let_def bytes_of_octets) (simp add: octets_def)
  moreover have "length (std_hmac std_sha256 64 (octets k) (octets d)) = 32" by (simp add: std_hmac_def Let_def length_digests)
  ultimately show ?thesis
    using creturn_ok [OF assms(1), of "bytes_to_hex (std_hmac std_sha256 64 (octets k) (octets d))"] assms(2,3)
    by (auto simp: node_crypto_hmac_sha256_def ctext_string bytes_to_hex_text bytes_to_hex_std [symmetric])
qed

lemma hmac_sha256_rfc2104_witness:
  "\<exists>q s'. node_crypto_hmac_sha256 (VString 1) (VString 2) demo_crypto = Some (VString q, s') \<and>
    str_at (cr_heap s') q (std_hex (std_hmac std_sha256 64 (octets ''md5'') (octets ''abc'')))"
  by (rule hmac_sha256_rfc2104) (simp_all add: demo_crypto_texts)

text \<open>The object of \<^verbatim>\<open>createHmac\<close> does not compute HMAC: the key is in the inner digest, in the place of
  the message, and the message goes to the outer digest.
\<close>

theorem create_hmac_digest:
  assumes "length k \<le> 64"
  shows "hash_final_hex (hash_update_ctx (hmac_ctx 2 (Some k)) m) =
    (let k0 = pad_to 64 (bytes_of k) in bytes_to_hex (std_sha256 (xor_pad 0x5c k0 @ std_sha256 (xor_pad 0x36 k0 @ bytes_of k) @ m)))"
proof -
  have "take 64 (pad_to 128 (bytes_of k)) = pad_to 64 (bytes_of k)"
    using assms by (simp add: pad_to_def bytes_of_def min_def)
  then show ?thesis using assms
    by (simp add: hmac_ctx_def hash_init_ctx_def Let_def hash_final_hex_def sha256_two sha256_three length_digests)
qed

lemma create_hmac_digest_witness:
  "hash_final_hex (hash_update_ctx (hmac_ctx 2 (Some ''key'')) [1, 2]) =
    (let k0 = pad_to 64 (bytes_of ''key'') in bytes_to_hex (std_sha256 (xor_pad 0x5c k0 @ std_sha256 (xor_pad 0x36 k0 @ bytes_of ''key'') @ [1, 2])))"
  by (rule create_hmac_digest) simp

subsection \<open>Identifiers\<close>

lemma uuid_hex_digit_digit: "n < 16 \<Longrightarrow> 0 \<le> uuid_hex_digit (hex_digit n)"
  by (auto simp: less_Suc_eq numeral_eq_Suc hex_digit_def uuid_hex_digit_def)

lemma length_rand_bytes: "length (fst (rand_bytes rng n r)) = n"
  by (induction n arbitrary: r) (simp_all add: split_beta Let_def)

lemma sixteen_bytes:
  assumes "length (b :: 8 word list) = 16"
  obtains b0 b1 b2 b3 b4 b5 b6 b7 b8 b9 b10 b11 b12 b13 b14 b15 where
    "b = [b0, b1, b2, b3, b4, b5, b6, b7, b8, b9, b10, b11, b12, b13, b14, b15]"
  using assms by (auto simp: length_Suc_conv numeral_eq_Suc)

lemma uuid_text_ok:
  assumes "length b = 16"
  shows "uuid_ok (uuid_text b)" "uuid_text b ! 14 = hex_digit (unat (b ! 6) div 16)" "uuid_text b ! 19 = hex_digit (unat (b ! 8) div 16)"
    "length (uuid_text b) = 36" "NUL \<notin> set (uuid_text b)"
proof -
  have d: "0 \<le> uuid_hex_digit (hex_digit (unat x div 16))" "0 \<le> uuid_hex_digit (hex_digit (unat x mod 16))" for x :: "8 word"
    using unat_byte [of x] by (auto intro!: uuid_hex_digit_digit)
  from assms show "uuid_ok (uuid_text b)" "uuid_text b ! 14 = hex_digit (unat (b ! 6) div 16)" "uuid_text b ! 19 = hex_digit (unat (b ! 8) div 16)"
    by (auto elim!: sixteen_bytes simp: uuid_text_def bytes_to_hex_def hex_byte_def uuid_ok_def d upt_rec)
  show "length (uuid_text b) = 36" "NUL \<notin> set (uuid_text b)"
    using assms by (auto simp: uuid_text_def bytes_to_hex_text)
qed

lemma high_nibble: "unat (x :: 8 word) div 16 = unat (drop_bit 4 x)"
  by (simp add: unat_drop_bit_eq drop_bit_eq_div [of 4 "unat x"])

lemma low_bits: "(x :: 8 word) AND 3 \<in> {0, 1, 2, 3}"
proof -
  have "x AND 3 = take_bit 2 x" by (simp add: take_bit_eq_mask mask_eq_exp_minus_1)
  moreover have "unat (take_bit 2 x) < 2 ^ 2" by (simp add: take_bit_eq_mod unat_mod_distrib)
  ultimately have "unat (x AND 3) \<in> {0, 1, 2, 3}" by auto
  then show ?thesis by (auto simp: word_unat_eq_iff)
qed

lemma version_nibbles:
  "unat (((x :: 8 word) AND 0x0f) OR 0x40) div 16 = 4" "unat (0x70 OR (x AND 0x0f)) div 16 = 7"
  "unat ((x AND 0x3f) OR 0x80) div 16 \<in> {8, 9, 10, 11}"
  using low_bits [of "drop_bit 4 x"] by (auto simp: high_nibble)
lemma variant_digit: "n \<in> {8, 9, 10, 11} \<Longrightarrow> hex_digit n \<in> set ''89ab''"
  by (auto simp: hex_digit_def)

definition uuid_bytes_ok :: "nat \<Rightarrow> 8 word list \<Rightarrow> bool" where
  "uuid_bytes_ok v b \<longleftrightarrow> length b = 16 \<and> unat (b ! 6) div 16 = v \<and> unat (b ! 8) div 16 \<in> {8, 9, 10, 11}"

lemma uuid_v4_bytes_ok: "length b = 16 \<Longrightarrow> uuid_bytes_ok 4 (uuid_v4_bytes b)"
  using version_nibbles(1,3) by (simp add: uuid_v4_bytes_def uuid_bytes_ok_def Let_def)

lemma uuid_v7_bytes_ok: "length b = 8 \<Longrightarrow> uuid_bytes_ok 7 (uuid_v7_bytes ms c b)"
proof -
  have "ucast (drop_bit 8 c AND 0x0F) = (ucast (drop_bit 8 c) :: 8 word) AND 0x0F" by (simp add: unsigned_and_eq)
  then show "length b = 8 \<Longrightarrow> uuid_bytes_ok 7 (uuid_v7_bytes ms c b)"
    using version_nibbles(2) [of "ucast (drop_bit 8 c)"] version_nibbles(3)
    by (simp add: uuid_v7_bytes_def uuid_bytes_ok_def Let_def nth_append)
qed

lemma uuid_made:
  assumes "heap_ok (cr_heap s)" "uuid_bytes_ok v b"
  shows "\<exists>p t s'. creturn (uuid_text b) (s\<lparr>cr_rand := r\<rparr>) = Some (VString p, s') \<and> str_at (cr_heap s') p t \<and>
      node_uuid_validate (cr_heap s') p = Some (VNumber (dint 1)) \<and> t ! 14 = hex_digit v \<and> t ! 19 \<in> set ''89ab''"
proof -
  have l: "length b = 16" and n: "uuid_text b ! 14 = hex_digit v" "uuid_text b ! 19 \<in> set ''89ab''"
    using assms(2) uuid_text_ok(2,3) [of b] variant_digit by (simp_all add: uuid_bytes_ok_def)
  obtain q h where q: "creturn (uuid_text b) (s\<lparr>cr_rand := r\<rparr>) = Some (VString q, s\<lparr>cr_rand := r, cr_heap := h\<rparr>)" "str_at h q (uuid_text b)"
    using creturn_ok [of "s\<lparr>cr_rand := r\<rparr>" "uuid_text b"] assms(1) uuid_text_ok [OF l] by auto
  then have "node_uuid_validate h q = Some (VNumber (dint 1))"
    using uuid_text_ok(1) [OF l] by (simp add: node_uuid_validate_def) (simp add: str_at_def)
  with q n show ?thesis by (intro exI [of _ q] exI [of _ "uuid_text b"] exI [of _ "s\<lparr>cr_rand := r, cr_heap := h\<rparr>"]) simp
qed

text \<open>C36. Whatever \<^verbatim>\<open>rand\<close> gives, the identifiers pass \<^verbatim>\<open>validate\<close>, and the version and the variant of RFC 9562
  are in their places.
\<close>

theorem uuid_valid:
  assumes "heap_ok (cr_heap s)"
  shows "(\<exists>p t s'. node_uuid_v4 rng s = Some (VString p, s') \<and> str_at (cr_heap s') p t \<and>
      node_uuid_validate (cr_heap s') p = Some (VNumber (dint 1)) \<and> t ! 14 = CHR ''4'' \<and> t ! 19 \<in> set ''89ab'') \<and>
    (\<exists>p t s'. node_uuid_v7 rng ms counter s = Some (VString p, (counter + 1) AND 0xFFF, s') \<and> str_at (cr_heap s') p t \<and>
      node_uuid_validate (cr_heap s') p = Some (VNumber (dint 1)) \<and> t ! 14 = CHR ''7'' \<and> t ! 19 \<in> set ''89ab'')"
proof -
  obtain b r where b: "rand_bytes rng 16 (cr_rand s) = (b, r)" "length b = 16" using length_rand_bytes by (metis surj_pair fst_conv)
  obtain b' r' where b': "rand_bytes rng 8 (cr_rand s) = (b', r')" "length b' = 8" using length_rand_bytes by (metis surj_pair fst_conv)
  show ?thesis
    using uuid_made [OF assms uuid_v4_bytes_ok [OF b(2)], of r] uuid_made [OF assms uuid_v7_bytes_ok [OF b'(2)], of ms "(counter + 1) AND 0xFFF" r']
    by (fastforce simp: node_uuid_v4_def node_uuid_v7_def b(1) b'(1) hex_digit_def Let_def simp del: One_nat_def)
qed

lemma uuid_valid_witness:
  "(\<exists>p t s'. node_uuid_v4 (\<lambda>n. (int n, n + 77)) demo_crypto = Some (VString p, s') \<and> str_at (cr_heap s') p t \<and>
      node_uuid_validate (cr_heap s') p = Some (VNumber (dint 1)) \<and> t ! 14 = CHR ''4'' \<and> t ! 19 \<in> set ''89ab'') \<and>
    (\<exists>p t s'. node_uuid_v7 (\<lambda>n. (int n, n + 77)) 1000 4095 demo_crypto = Some (VString p, (4095 + 1) AND 0xFFF, s') \<and> str_at (cr_heap s') p t \<and>
      node_uuid_validate (cr_heap s') p = Some (VNumber (dint 1)) \<and> t ! 14 = CHR ''7'' \<and> t ! 19 \<in> set ''89ab'')"
  by (rule uuid_valid) (rule demo_crypto_texts)

end
