(* ===== verification/Ts_Assert.thy ===== *)
theory Ts_Assert
  imports Ts_Objmap Ts_Json
begin

text \<open>
  \<^verbatim>\<open>runtime/src/builtins/node_assert.c\<close>: the three equalities and the assertions over them. An
  assertion that fails writes to the error stream and throws. The runtime has one jump buffer:
  \<^verbatim>\<open>TS_TRY\<close> stores the current frame in it with \<^verbatim>\<open>setjmp\<close>, \<^verbatim>\<open>TS_THROW\<close> jumps to the frame that is in
  it, and nothing restores what a \<^verbatim>\<open>TS_TRY\<close> has overwritten. The model keeps the frame in the buffer
  and the frames that are still active, newest first; a jump to a frame that has returned is
  undefined.
\<close>

subsection \<open>The jump buffer\<close>

record ast =
  as_heap :: heap
  as_err :: string
  as_error :: "tsvalue"
  as_jump :: "nat option"
  as_frames :: "nat list"
  as_next :: nat

text \<open>A call returns, or a jump to a frame is under way.\<close>

datatype exit = Done | Jump nat

type_synonym as_code = "addr \<Rightarrow> ast \<Rightarrow> (exit \<times> ast) option"

definition ts_throw :: "tsvalue \<Rightarrow> ast \<Rightarrow> (exit \<times> ast) option" where
  "ts_throw v s = (case as_jump s of
     None \<Rightarrow> None
   | Some f \<Rightarrow> if f \<in> set (as_frames s) then Some (Jump f, s\<lparr>as_error := v\<rparr>) else None)"

definition ts_try :: "ast \<Rightarrow> nat \<times> ast" where
  "ts_try s = (as_next s, s\<lparr>as_next := Suc (as_next s), as_frames := as_next s # as_frames s, as_jump := Some (as_next s)\<rparr>)"

text \<open>The function that holds the frame is left, by returning or by a jump to an older frame.\<close>

definition leave_frame :: "nat \<Rightarrow> exit \<Rightarrow> ast \<Rightarrow> (exit \<times> ast) option" where
  "leave_frame k e s = Some (e, s\<lparr>as_frames := remove1 k (as_frames s)\<rparr>)"

subsection \<open>Equality\<close>

fun values_strict_equal :: "heap \<Rightarrow> tsvalue \<Rightarrow> tsvalue \<Rightarrow> bool option" where
  "values_strict_equal h (VNumber a) v = Some (case v of VNumber b \<Rightarrow> (d_isnan a \<and> d_isnan b) \<or> deq a b | _ \<Rightarrow> False)"
| "values_strict_equal h (VBoolean a) v = Some (v = VBoolean a)"
| "values_strict_equal h (VString a) v = (case v of
     VString b \<Rightarrow> if a = 0 \<or> b = 0 then Some (a = b) else ts_string_equals h a b
   | _ \<Rightarrow> Some False)"
| "values_strict_equal h VNull v = Some (v = VNull)"
| "values_strict_equal h (VFunction a) v = Some (v = VFunction a)"
| "values_strict_equal h (VSymbol a) v = Some (v = VSymbol a)"
| "values_strict_equal h (VArray a) v = Some (v = VArray a)"
| "values_strict_equal h (VObject a) v = Some (v = VObject a)"

text \<open>The pairs of tags that are compared as numbers.\<close>

definition as_numbers :: "value_tag \<Rightarrow> value_tag \<Rightarrow> bool" where
  "as_numbers s t \<longleftrightarrow> (s, t) \<in> {(TAG_NUMBER, TAG_STRING), (TAG_STRING, TAG_NUMBER), (TAG_BOOLEAN, TAG_NUMBER), (TAG_NUMBER, TAG_BOOLEAN)}"

definition values_loose_equal :: "heap \<Rightarrow> tsvalue \<Rightarrow> tsvalue \<Rightarrow> (bool \<times> heap) option" where
  "values_loose_equal h a b =
    (if vtag a = vtag b then map_option (\<lambda>e. (e, h)) (values_strict_equal h a b)
     else if as_numbers (vtag a) (vtag b) then do {
       x \<leftarrow> ts_to_number h a;
       y \<leftarrow> ts_to_number h b;
       Some (deq x y, h) }
     else if vtag a = TAG_NULL \<or> vtag b = TAG_NULL then Some (vtag a = TAG_NULL \<and> vtag b = TAG_NULL, h)
     else do {
       (p, h1) \<leftarrow> ts_to_string h a;
       (q, h2) \<leftarrow> ts_to_string h1 b;
       if p \<noteq> 0 \<and> q \<noteq> 0 then do { e \<leftarrow> ts_string_equals h2 p q; Some (e, h2) } else Some (False, h2) })"

text \<open>
  The deep comparison; the equality of the parts is the recursive call. A comparison of the parts
  may convert values to text, so that the store is passed on. An object is taken for a hash map
  whatever it is.
\<close>

type_synonym equality = "heap \<Rightarrow> tsvalue \<Rightarrow> tsvalue \<Rightarrow> (bool \<times> heap) option"

definition elems_equal :: "equality \<Rightarrow> addr \<Rightarrow> addr \<Rightarrow> bool \<times> heap \<Rightarrow> int \<Rightarrow> (bool \<times> heap) option" where
  "elems_equal eq aa bb r i = (case r of (ok, h) \<Rightarrow>
     if \<not> ok then Some (False, h)
     else do {
       a \<leftarrow> arrs h aa;
       b \<leftarrow> arrs h bb;
       x \<leftarrow> ts_array_get a i;
       y \<leftarrow> ts_array_get b i;
       eq h x y })"

definition arrays_deep_equal :: "equality \<Rightarrow> heap \<Rightarrow> addr \<Rightarrow> addr \<Rightarrow> (bool \<times> heap) option" where
  "arrays_deep_equal eq h aa bb =
    (if aa = 0 \<and> bb = 0 then Some (True, h)
     else if aa = 0 \<or> bb = 0 then Some (False, h)
     else do {
       a \<leftarrow> arrs h aa;
       b \<leftarrow> arrs h bb;
       if a_length a \<noteq> a_length b then Some (False, h)
       else foldo (elems_equal eq aa bb) (True, h) [0..a_length a - 1] })"

definition deep_map_check :: "equality \<Rightarrow> addr \<Rightarrow> string \<Rightarrow> tsvalue \<Rightarrow> bool \<times> heap \<Rightarrow> (bool \<times> heap) option" where
  "deep_map_check eq other key v ctx = (case ctx of (ok, h) \<Rightarrow>
     if \<not> ok then Some (False, h)
     else do {
       m \<leftarrow> get_map h other;
       has \<leftarrow> ts_hashmap_has m key;
       if \<not> has then Some (False, h)
       else do { ov \<leftarrow> ts_hashmap_get m key; eq h v ov } })"

definition map_covers :: "equality \<Rightarrow> heap \<Rightarrow> addr \<Rightarrow> addr \<Rightarrow> (bool \<times> heap) option" where
  "map_covers eq h a b = do { m \<leftarrow> get_map h a; ts_hashmap_for_each m (deep_map_check eq b) (True, h) }"

definition maps_deep_equal :: "equality \<Rightarrow> heap \<Rightarrow> addr \<Rightarrow> addr \<Rightarrow> (bool \<times> heap) option" where
  "maps_deep_equal eq h a b =
    (if a = 0 \<and> b = 0 then Some (True, h)
     else if a = 0 \<or> b = 0 then Some (False, h)
     else do {
       (ok, h1) \<leftarrow> map_covers eq h a b;
       if \<not> ok then Some (False, h1) else map_covers eq h1 b a })"

lemma deep_parts_mono [partial_function_mono]:
  "mono_option (\<lambda>f. arrays_deep_equal (\<lambda>h x y. f (((st, h), x), y)) h a b)"
  "mono_option (\<lambda>f. maps_deep_equal (\<lambda>h x y. f (((st, h), x), y)) h a b)"
proof -
  have c: "mono_option (\<lambda>f. f (((st, h), x), y))" for h x y by (rule partial_function_mono)
  have e: "mono_option (\<lambda>f. elems_equal (\<lambda>h x y. f (((st, h), x), y)) a b r i)" for a b r i
    unfolding elems_equal_def by (cases r) (auto intro!: bind_mono option.const_mono if_mono_opt c)
  then show "mono_option (\<lambda>f. arrays_deep_equal (\<lambda>h x y. f (((st, h), x), y)) h a b)"
    unfolding arrays_deep_equal_def by (auto intro!: bind_mono option.const_mono if_mono_opt foldo_mono)
  have d: "mono_option (\<lambda>f. deep_map_check (\<lambda>h x y. f (((st, h), x), y)) b k v r)" for b k v r
    unfolding deep_map_check_def by (cases r) (auto intro!: bind_mono option.const_mono if_mono_opt c)
  have o: "mono_option (\<lambda>f. case e of None \<Rightarrow> Some r | Some (k, v) \<Rightarrow> deep_map_check (\<lambda>h x y. f (((st, h), x), y)) b k v r)" for e b r
    by (cases e) (auto intro: option.const_mono d)
  have m: "mono_option (\<lambda>f. map_covers (\<lambda>h x y. f (((st, h), x), y)) h a b)" for h a b
    unfolding map_covers_def ts_hashmap_for_each_def by (intro bind_mono option.const_mono foldo_mono o)
  have s: "mono_option (\<lambda>f. case r of (ok, h1) \<Rightarrow> if \<not> ok then Some (False, h1) else map_covers (\<lambda>h x y. f (((st, h), x), y)) h1 b a)" for r
    by (cases r) (auto intro!: if_mono_opt option.const_mono m)
  show "mono_option (\<lambda>f. maps_deep_equal (\<lambda>h x y. f (((st, h), x), y)) h a b)"
    unfolding maps_deep_equal_def by (auto intro!: bind_mono option.const_mono if_mono_opt m s)
qed

partial_function (option) deep_equal_impl :: "bool \<Rightarrow> equality" where
  "deep_equal_impl strict h a b = (case (a, b) of
     (VArray p, VArray q) \<Rightarrow> arrays_deep_equal (\<lambda>h x y. deep_equal_impl strict h x y) h p q
   | (VObject p, VObject q) \<Rightarrow> maps_deep_equal (\<lambda>h x y. deep_equal_impl strict h x y) h p q
   | _ \<Rightarrow> if strict then map_option (\<lambda>e. (e, h)) (values_strict_equal h a b) else values_loose_equal h a b)"

subsection \<open>Failing\<close>

text \<open>A message reaches the functions below as a C string.\<close>

definition msg_or :: "tsvalue \<Rightarrow> string \<Rightarrow> ast \<Rightarrow> (string \<times> ast) option" where
  "msg_or message fallback s =
    (if vtag message = TAG_NULL then Some (fallback, s)
     else do {
       (t, h) \<leftarrow> text_or_null (as_heap s) message;
       Some (case t of None \<Rightarrow> fallback | Some m \<Rightarrow> if cstr m = [] then fallback else cstr m, s\<lparr>as_heap := h\<rparr>) })"

definition ERR_ASSERTION :: string where
  "ERR_ASSERTION = ''AssertionError [ERR_ASSERTION]: ''"

definition assert_fail :: "string \<Rightarrow> ast \<Rightarrow> (exit \<times> ast) option" where
  "assert_fail msg s = do {
     let s1 = s\<lparr>as_err := as_err s @ ERR_ASSERTION @ msg @ [NL]\<rparr>;
     (v, h) \<leftarrow> new_text (as_heap s1) msg;
     ts_throw v (s1\<lparr>as_heap := h\<rparr>) }"

definition fail_with :: "tsvalue \<Rightarrow> string \<Rightarrow> ast \<Rightarrow> (exit \<times> ast) option" where
  "fail_with message fallback s = do { (m, s1) \<leftarrow> msg_or message fallback s; assert_fail m s1 }"

definition text_or_query :: "tsvalue \<Rightarrow> ast \<Rightarrow> (string \<times> ast) option" where
  "text_or_query v s = do {
     (t, h) \<leftarrow> text_or_null (as_heap s) v;
     Some (case t of None \<Rightarrow> ''?'' | Some m \<Rightarrow> cstr m, s\<lparr>as_heap := h\<rparr>) }"

definition fail_eq :: "tsvalue \<Rightarrow> tsvalue \<Rightarrow> tsvalue \<Rightarrow> string \<Rightarrow> ast \<Rightarrow> (exit \<times> ast) option" where
  "fail_eq actual expected message fallback s =
    (if vtag message \<noteq> TAG_NULL then fail_with message fallback s
     else do {
       (sa, s1) \<leftarrow> text_or_query actual s;
       (se, s2) \<leftarrow> text_or_query expected s1;
       assert_fail (snprintf 1024 (fallback @ [NL] @ ''+ actual - expected'' @ [NL] @ ''+ '' @ [CHR 0x27] @ sa @ [CHR 0x27, NL] @
         ''- '' @ [CHR 0x27] @ se @ [CHR 0x27])) s2 })"

subsection \<open>Assertions\<close>

definition node_assert_ok :: "tsvalue \<Rightarrow> tsvalue \<Rightarrow> ast \<Rightarrow> (exit \<times> ast) option" where
  "node_assert_ok v message s = do {
     b \<leftarrow> ts_to_boolean (as_heap s) v;
     if \<not> b then fail_with message ''The expression evaluated to a falsy value'' s else Some (Done, s) }"

definition node_assert_assert :: "tsvalue \<Rightarrow> tsvalue \<Rightarrow> ast \<Rightarrow> (exit \<times> ast) option" where
  "node_assert_assert v message s = node_assert_ok v message s"

text \<open>The pattern the others share: compare, and fail unless the result is the wanted one.\<close>

definition compare_then :: "(bool \<times> heap) option \<Rightarrow> bool \<Rightarrow> (ast \<Rightarrow> (exit \<times> ast) option) \<Rightarrow> ast \<Rightarrow> (exit \<times> ast) option" where
  "compare_then c wanted fl s = do {
     (e, h) \<leftarrow> c;
     if e = wanted then Some (Done, s\<lparr>as_heap := h\<rparr>) else fl (s\<lparr>as_heap := h\<rparr>) }"

definition strict_result :: "heap \<Rightarrow> tsvalue \<Rightarrow> tsvalue \<Rightarrow> (bool \<times> heap) option" where
  "strict_result h a b = map_option (\<lambda>e. (e, h)) (values_strict_equal h a b)"

definition node_assert_equal :: "tsvalue \<Rightarrow> tsvalue \<Rightarrow> tsvalue \<Rightarrow> ast \<Rightarrow> (exit \<times> ast) option" where
  "node_assert_equal actual expected message s = compare_then (values_loose_equal (as_heap s) actual expected) True
     (fail_eq actual expected message ''Expected values to be loosely equal'') s"

definition node_assert_notEqual :: "tsvalue \<Rightarrow> tsvalue \<Rightarrow> tsvalue \<Rightarrow> ast \<Rightarrow> (exit \<times> ast) option" where
  "node_assert_notEqual actual expected message s = compare_then (values_loose_equal (as_heap s) actual expected) False
     (fail_with message ''Expected values to be loosely unequal'') s"

definition node_assert_strictEqual :: "tsvalue \<Rightarrow> tsvalue \<Rightarrow> tsvalue \<Rightarrow> ast \<Rightarrow> (exit \<times> ast) option" where
  "node_assert_strictEqual actual expected message s = compare_then (strict_result (as_heap s) actual expected) True
     (fail_eq actual expected message ''Expected values to be strictly equal'') s"

definition node_assert_notStrictEqual :: "tsvalue \<Rightarrow> tsvalue \<Rightarrow> tsvalue \<Rightarrow> ast \<Rightarrow> (exit \<times> ast) option" where
  "node_assert_notStrictEqual actual expected message s = compare_then (strict_result (as_heap s) actual expected) False
     (fail_with message ''Expected values to be strictly unequal'') s"

definition node_assert_deepEqual :: "tsvalue \<Rightarrow> tsvalue \<Rightarrow> tsvalue \<Rightarrow> ast \<Rightarrow> (exit \<times> ast) option" where
  "node_assert_deepEqual actual expected message s = compare_then (deep_equal_impl False (as_heap s) actual expected) True
     (fail_eq actual expected message ''Expected values to be deeply equal'') s"

definition node_assert_deepStrictEqual :: "tsvalue \<Rightarrow> tsvalue \<Rightarrow> tsvalue \<Rightarrow> ast \<Rightarrow> (exit \<times> ast) option" where
  "node_assert_deepStrictEqual actual expected message s = compare_then (deep_equal_impl True (as_heap s) actual expected) True
     (fail_eq actual expected message ''Expected values to be deeply and strictly equal'') s"

definition node_assert_notDeepEqual :: "tsvalue \<Rightarrow> tsvalue \<Rightarrow> tsvalue \<Rightarrow> ast \<Rightarrow> (exit \<times> ast) option" where
  "node_assert_notDeepEqual actual expected message s = compare_then (deep_equal_impl False (as_heap s) actual expected) False
     (fail_with message ''Expected values not to be deeply equal'') s"

definition node_assert_notDeepStrictEqual :: "tsvalue \<Rightarrow> tsvalue \<Rightarrow> tsvalue \<Rightarrow> ast \<Rightarrow> (exit \<times> ast) option" where
  "node_assert_notDeepStrictEqual actual expected message s = compare_then (deep_equal_impl True (as_heap s) actual expected) False
     (fail_with message ''Expected values not to be deeply and strictly equal'') s"

definition node_assert_fail :: "tsvalue \<Rightarrow> ast \<Rightarrow> (exit \<times> ast) option" where
  "node_assert_fail message s = fail_with message ''Failed'' s"

definition node_assert_ifError :: "tsvalue \<Rightarrow> ast \<Rightarrow> (exit \<times> ast) option" where
  "node_assert_ifError v s =
    (if v = VNull \<or> v = VBoolean 0 then Some (Done, s)
     else do {
       (t, h) \<leftarrow> text_or_null (as_heap s) v;
       assert_fail (case t of None \<Rightarrow> ''ifError got truthy value'' | Some m \<Rightarrow> cstr m) (s\<lparr>as_heap := h\<rparr>) })"

definition NOT_A_FUNCTION :: string where
  "NOT_A_FUNCTION = ''The '' @ [DQUOTE] @ ''fn'' @ [DQUOTE] @ '' argument must be of type function''"

definition function_addr :: "tsvalue \<Rightarrow> addr" where
  "function_addr v = (case v of VFunction f \<Rightarrow> f | _ \<Rightarrow> 0)"

text \<open>
  The frame of \<^verbatim>\<open>throws\<close> is still in the jump buffer when it reports that nothing was thrown: the
  jump of \<^verbatim>\<open>assert_fail\<close> then leads back to its own \<^verbatim>\<open>TS_CATCH\<close>, which sets \<^verbatim>\<open>threw\<close>.
\<close>

definition node_assert_throws :: "as_code \<Rightarrow> tsvalue \<Rightarrow> tsvalue \<Rightarrow> ast \<Rightarrow> (exit \<times> ast) option" where
  "node_assert_throws call fn errorOrMessage s =
    (if function_addr fn = 0 then assert_fail NOT_A_FUNCTION s
     else do {
       let (k, s0) = ts_try s;
       (e, s1) \<leftarrow> call (function_addr fn) s0;
       (e, s2) \<leftarrow> (if e = Done then fail_with errorOrMessage ''Missing expected exception'' s1 else Some (e, s1));
       leave_frame k (if e = Jump k then Done else e) s2 })"

text \<open>In \<^verbatim>\<open>doesNotThrow\<close> the jump leads back to the branch that has just called \<^verbatim>\<open>assert_fail\<close>.\<close>

partial_function (option) unwanted_loop :: "nat \<Rightarrow> tsvalue \<Rightarrow> ast \<Rightarrow> (exit \<times> ast) option" where
  "unwanted_loop k message s = do {
     (e, s1) \<leftarrow> fail_with message ''Got unwanted exception'' s;
     if e = Jump k then unwanted_loop k message s1 else Some (e, s1) }"

definition node_assert_doesNotThrow :: "as_code \<Rightarrow> tsvalue \<Rightarrow> tsvalue \<Rightarrow> ast \<Rightarrow> (exit \<times> ast) option" where
  "node_assert_doesNotThrow call fn message s =
    (if function_addr fn = 0 then assert_fail NOT_A_FUNCTION s
     else do {
       let (k, s0) = ts_try s;
       (e, s1) \<leftarrow> call (function_addr fn) s0;
       (e, s2) \<leftarrow> (if e = Jump k then unwanted_loop k message s1 else Some (e, s1));
       leave_frame k e s2 })"

text \<open>\<^verbatim>\<open>strstr\<close> on the two texts, NULL for a text that is missing.\<close>

definition match_texts :: "tsvalue \<Rightarrow> tsvalue \<Rightarrow> ast \<Rightarrow> (bool option \<times> ast) option" where
  "match_texts str regexp s = do {
     (t, h1) \<leftarrow> text_or_null (as_heap s) str;
     (p, h2) \<leftarrow> text_or_null h1 regexp;
     Some (case (t, p) of (Some a, Some b) \<Rightarrow> Some (strstr (cstr a) (cstr b) \<noteq> None) | _ \<Rightarrow> None, s\<lparr>as_heap := h2\<rparr>) }"

definition node_assert_match :: "tsvalue \<Rightarrow> tsvalue \<Rightarrow> tsvalue \<Rightarrow> ast \<Rightarrow> (exit \<times> ast) option" where
  "node_assert_match str regexp message s = do {
     (r, s1) \<leftarrow> match_texts str regexp s;
     if r = Some True then Some (Done, s1)
     else fail_with message ''The input did not match the regular expression'' s1 }"

definition node_assert_doesNotMatch :: "tsvalue \<Rightarrow> tsvalue \<Rightarrow> tsvalue \<Rightarrow> ast \<Rightarrow> (exit \<times> ast) option" where
  "node_assert_doesNotMatch str regexp message s = do {
     (r, s1) \<leftarrow> match_texts str regexp s;
     if r \<noteq> Some True then Some (Done, s1)
     else fail_with message ''The input was expected to not match the regular expression'' s1 }"

subsection \<open>Deep equality of trees\<close>

text \<open>
  The value \<open>v\<close> in the store stands for the tree; two trees are the same when their numbers are equal
  or both NaN and their objects have the same keys with the same members, in any order.
\<close>

inductive tree_of :: "heap \<Rightarrow> tsvalue \<Rightarrow> json \<Rightarrow> bool" for h where
  null: "tree_of h VNull JNull"
| bool: "tree_of h (VBoolean (if b then 1 else 0)) (JBool b)"
| num: "tree_of h (VNumber d) (JNum d)"
| str: "str_at h p s \<Longrightarrow> tree_of h (VString p) (JStr s)"
| arr: "p \<noteq> 0 \<Longrightarrow> arrs h p = Some a \<Longrightarrow> arr_ok a \<Longrightarrow> list_all2 (tree_of h) (arr_vals a) ts \<Longrightarrow> tree_of h (VArray p) (JArrT ts)"
| obj: "p \<noteq> 0 \<Longrightarrow> objs h p = Some (OMap m) \<Longrightarrow> hm_inv m \<Longrightarrow>
        list_all2 (\<lambda>kv kt. fst kv = fst kt \<and> tree_of h (snd kv) (snd kt)) (hm_pairs (m_entries m)) kts \<Longrightarrow>
        tree_of h (VObject p) (JObjT kts)"

inductive_cases tree_ofE: "tree_of h v t"

fun same :: "json \<Rightarrow> json \<Rightarrow> bool" where
  "same JNull JNull \<longleftrightarrow> True"
| "same (JBool a) (JBool b) \<longleftrightarrow> a = b"
| "same (JNum a) (JNum b) \<longleftrightarrow> (d_isnan a \<and> d_isnan b) \<or> deq a b"
| "same (JStr a) (JStr b) \<longleftrightarrow> a = b"
| "same (JArrT ts) (JArrT us) \<longleftrightarrow> list_all2 same ts us"
| "same (JObjT xs) (JObjT ys) \<longleftrightarrow> fst ` set xs = fst ` set ys \<and>
     (\<forall>kt \<in> set xs. case map_of ys (fst kt) of None \<Rightarrow> False | Some u \<Rightarrow> same (snd kt) u)"
| "same _ _ \<longleftrightarrow> False"

lemma foldo_all:
  assumes "\<And>i. F (False, h) i = Some (False, h)"
  shows "(\<And>i. i \<in> set js \<Longrightarrow> F (True, h) i = Some (P i, h)) \<Longrightarrow> foldo F (ok, h) js = Some (ok \<and> list_all P js, h)"
proof (induction js arbitrary: ok)
  case (Cons i js)
  then show ?case by (cases ok) (simp_all add: assms)
qed simp

lemma arrays_equal:
  assumes "p \<noteq> 0" "q \<noteq> 0" "arrs h p = Some a" "arrs h q = Some b" "arr_ok a" "arr_ok b"
    and "\<And>i. i < length (arr_vals a) \<Longrightarrow> length (arr_vals a) = length (arr_vals b) \<Longrightarrow> eq h (arr_vals a ! i) (arr_vals b ! i) = Some (P i, h)"
  shows "arrays_deep_equal eq h p q = Some (length (arr_vals a) = length (arr_vals b) \<and> (\<forall>i < length (arr_vals a). P i), h)"
proof (cases "length (arr_vals a) = length (arr_vals b)")
  case True
  then have l: "a_length a = int (length (arr_vals a))" "a_length b = int (length (arr_vals a))"
    using length_arr_vals [OF assms(5)] length_arr_vals [OF assms(6)] by simp_all
  have "foldo (elems_equal eq p q) (True, h) [0..a_length a - 1] = Some (True \<and> list_all (\<lambda>i. P (nat i)) [0..a_length a - 1], h)"
  proof (rule foldo_all)
    show "elems_equal eq p q (False, h) i = Some (False, h)" for i by (simp add: elems_equal_def)
    fix i assume "i \<in> set [0..a_length a - 1]"
    then have i: "0 \<le> i" "i < a_length a" by auto
    then have "ts_array_get a i = Some (arr_vals a ! nat i)" "ts_array_get b i = Some (arr_vals b ! nat i)"
      using assms(5,6) l by (simp_all add: ts_array_get_ok)
    with i l True assms(3,4) assms(7) [of "nat i"] show "elems_equal eq p q (True, h) i = Some (P (nat i), h)"
      by (simp add: elems_equal_def)
  qed
  moreover have "list_all (\<lambda>i. P (nat i)) [0..a_length a - 1] \<longleftrightarrow> (\<forall>i < length (arr_vals a). P i)"
    unfolding list_all_iff l(1) by (auto dest: bspec [of _ _ "int _"])
  ultimately show ?thesis using assms(1-4) True l by (simp add: arrays_deep_equal_def)
next
  case False
  then have "a_length a \<noteq> a_length b" using length_arr_vals [OF assms(5)] length_arr_vals [OF assms(6)] by auto
  then show ?thesis using False assms(1-4) by (simp add: arrays_deep_equal_def)
qed

lemma map_covers_eq:
  assumes "objs h p = Some (OMap m)" "objs h q = Some (OMap n)" "hm_inv n"
    and "\<And>k x y. (k, x) \<in> set (hm_pairs (m_entries m)) \<Longrightarrow> hm_lookup n k = Some y \<Longrightarrow> eq h x y = Some (P k, h)"
  shows "map_covers eq h p q = Some (\<forall>k \<in> fst ` set (hm_pairs (m_entries m)). hm_lookup n k \<noteq> None \<and> P k, h)"
proof -
  have "foldo (\<lambda>c (k, v). deep_map_check eq q k v c) (True, h) (hm_pairs (m_entries m)) =
      Some (True \<and> list_all (\<lambda>(k, v). hm_lookup n k \<noteq> None \<and> P k) (hm_pairs (m_entries m)), h)"
  proof (rule foldo_all)
    show "(case i of (k, v) \<Rightarrow> deep_map_check eq q k v (False, h)) = Some (False, h)" for i
      by (cases i) (simp add: deep_map_check_def)
    fix i assume i: "i \<in> set (hm_pairs (m_entries m))"
    obtain k v where kv: "i = (k, v)" by (cases i)
    have f: "ts_hashmap_find n k = Some (hm_lookup n k)" using assms(3) by (simp add: hm_find_ok hm_inv_ok)
    show "(case i of (k, v) \<Rightarrow> deep_map_check eq q k v (True, h)) = Some (case i of (k, v) \<Rightarrow> hm_lookup n k \<noteq> None \<and> P k, h)"
      using assms(4) [of k v] i assms(2) f
      by (cases "hm_lookup n k") (auto simp: kv deep_map_check_def get_map_def ts_hashmap_has_def ts_hashmap_get_def)
  qed
  then show ?thesis
    using assms(1) by (auto simp: map_covers_def get_map_def hm_for_each_ok list_all_iff split_beta)
qed

lemma map_of_rel:
  "list_all2 (\<lambda>kv kt. fst kv = fst kt \<and> R (snd kv) (snd kt)) kvs kts \<Longrightarrow> rel_option R (map_of kvs k) (map_of kts k)"
  by (induction rule: list_all2_induct) auto

lemma keys_rel:
  "list_all2 (\<lambda>kv kt. fst kv = fst kt \<and> R (snd kv) (snd kt)) kvs kts \<Longrightarrow> map fst kvs = map fst kts"
  by (induction rule: list_all2_induct) auto

definition decides :: "heap \<Rightarrow> tsvalue \<Rightarrow> json \<Rightarrow> bool" where
  "decides h a t \<longleftrightarrow> (\<forall>b u. tree_of h b u \<longrightarrow> deep_equal_impl True h a b = Some (same t u, h) \<and>
     deep_equal_impl True h b a = Some (same t u, h))"

lemma deq_commute: "deq x y = deq y x"
  by (cases x; cases y) auto

lemma deep_equal_parts:
  "deep_equal_impl st h (VArray p) (VArray q) = arrays_deep_equal (deep_equal_impl st) h p q"
  "deep_equal_impl st h (VObject p) (VObject q) = maps_deep_equal (deep_equal_impl st) h p q"
  by (subst deep_equal_impl.simps, simp)+

lemma decides_leaf:
  assumes "\<And>b u. tree_of h b u \<Longrightarrow> values_strict_equal h a b = Some (same t u) \<and> values_strict_equal h b a = Some (same t u)"
    and "\<forall>p. a \<noteq> VArray p" "\<forall>p. a \<noteq> VObject p"
  shows "decides h a t"
proof -
  have "deep_equal_impl True h a b = map_option (\<lambda>e. (e, h)) (values_strict_equal h a b)"
    "deep_equal_impl True h b a = map_option (\<lambda>e. (e, h)) (values_strict_equal h b a)" for b
    using assms(2,3) by (subst deep_equal_impl.simps; cases a; cases b; simp)+
  then show ?thesis using assms(1) by (simp add: decides_def)
qed

lemma decides_scalar:
  "decides h VNull JNull" "decides h (VBoolean (if b then 1 else 0)) (JBool b)" "decides h (VNumber d) (JNum d)"
  "str_at h p s \<Longrightarrow> decides h (VString p) (JStr s)"
  by (rule decides_leaf; (elim tree_ofE)?; auto simp: deq_commute ts_string_equals_def dest: str_at_data str_at_nonnull)+

lemma decides_array:
  assumes "p \<noteq> 0" "arrs h p = Some a" "arr_ok a" "list_all2 (decides h) (arr_vals a) ts"
  shows "decides h (VArray p) (JArrT ts)"
  unfolding decides_def
proof (intro allI impI)
  fix b u assume u: "tree_of h b u"
  show "deep_equal_impl True h (VArray p) b = Some (same (JArrT ts) u, h) \<and> deep_equal_impl True h b (VArray p) = Some (same (JArrT ts) u, h)"
  proof (cases "\<exists>q. b = VArray q")
    case False
    with u show ?thesis by (subst (1 2) deep_equal_impl.simps) (auto elim: tree_ofE)
  next
    case True
    with u obtain q c us where q: "b = VArray q" "u = JArrT us" "q \<noteq> 0" "arrs h q = Some c" "arr_ok c" "list_all2 (tree_of h) (arr_vals c) us"
      by (auto elim: tree_ofE)
    have l: "length ts = length (arr_vals a)" "length us = length (arr_vals c)" using assms(4) q(6) by (simp_all add: list_all2_lengthD)
    have d: "deep_equal_impl True h (arr_vals a ! i) (arr_vals c ! i) = Some (same (ts ! i) (us ! i), h)"
      "deep_equal_impl True h (arr_vals c ! i) (arr_vals a ! i) = Some (same (ts ! i) (us ! i), h)"
      if "i < length (arr_vals a)" "length (arr_vals a) = length (arr_vals c)" for i
      using that assms(4) q(6) by (auto simp: list_all2_conv_all_nth decides_def)
    have s: "same (JArrT ts) u \<longleftrightarrow> length (arr_vals a) = length (arr_vals c) \<and> (\<forall>i < length (arr_vals a). same (ts ! i) (us ! i))"
      using l by (auto simp: q(2) list_all2_conv_all_nth)
    have "arrays_deep_equal (deep_equal_impl True) h p q = Some (same (JArrT ts) u, h)"
      unfolding s using assms(1-3) q(3-5) d(1) by (intro arrays_equal) simp_all
    moreover have "arrays_deep_equal (deep_equal_impl True) h q p = Some (length (arr_vals c) = length (arr_vals a) \<and>
        (\<forall>i < length (arr_vals c). same (ts ! i) (us ! i)), h)"
      by (rule arrays_equal [OF q(3) assms(1) q(4) assms(2) q(5) assms(3)]) (rule d(2); simp)
    moreover have "(length (arr_vals c) = length (arr_vals a) \<and> (\<forall>i < length (arr_vals c). same (ts ! i) (us ! i))) = same (JArrT ts) u"
      unfolding s by (rule conj_cong [OF eq_commute]) simp
    ultimately show ?thesis by (simp only: q(1) deep_equal_parts)
  qed
qed

lemma maps_both:
  "p \<noteq> 0 \<Longrightarrow> q \<noteq> 0 \<Longrightarrow> map_covers eq h p q = Some (A, h) \<Longrightarrow> map_covers eq h q p = Some (B, h) \<Longrightarrow>
   maps_deep_equal eq h p q = Some (A \<and> B, h)"
  by (simp add: maps_deep_equal_def)

lemma both_cover: "(\<forall>k \<in> K. k \<in> L \<and> P k) \<and> (\<forall>k \<in> L. k \<in> K \<and> P k) \<longleftrightarrow> K = L \<and> (\<forall>k \<in> K. P k)"
  by blast

lemma decides_object:
  assumes "p \<noteq> 0" "objs h p = Some (OMap m)" "hm_inv m"
    and l: "list_all2 (\<lambda>kv kt. fst kv = fst kt \<and> decides h (snd kv) (snd kt)) (hm_pairs (m_entries m)) kts"
  shows "decides h (VObject p) (JObjT kts)"
  unfolding decides_def
proof (intro allI impI)
  fix b u assume u: "tree_of h b u"
  show "deep_equal_impl True h (VObject p) b = Some (same (JObjT kts) u, h) \<and> deep_equal_impl True h b (VObject p) = Some (same (JObjT kts) u, h)"
  proof (cases "\<exists>q. b = VObject q")
    case False
    with u show ?thesis by (subst (1 2) deep_equal_impl.simps) (auto elim: tree_ofE)
  next
    case True
    with u obtain q n us where q: "b = VObject q" "u = JObjT us" "q \<noteq> 0" "objs h q = Some (OMap n)" "hm_inv n"
      and r: "list_all2 (\<lambda>kv kt. fst kv = fst kt \<and> tree_of h (snd kv) (snd kt)) (hm_pairs (m_entries n)) us"
      by (auto elim: tree_ofE)
    let ?xs = "hm_pairs (m_entries m)" and ?ys = "hm_pairs (m_entries n)"
    let ?P = "\<lambda>k. same (the (map_of kts k)) (the (map_of us k))"
    have dist: "distinct (map fst ?xs)" "distinct (map fst ?ys)"
      using assms(3) q(5) by (auto dest!: hm_inv_ok simp: hm_ok_def distinct_hm_pairs)
    have keys: "map fst kts = map fst ?xs" "map fst us = map fst ?ys" using keys_rel [OF l] keys_rel [OF r] by simp_all
    have d: "deep_equal_impl True h x y = Some (?P k, h) \<and> deep_equal_impl True h y x = Some (?P k, h)"
      if "map_of ?xs k = Some x" "map_of ?ys k = Some y" for k x y
      using map_of_rel [OF l, of k] map_of_rel [OF r, of k] that by (auto simp: option_rel_Some1 decides_def)
    have a: "map_covers (deep_equal_impl True) h p q = Some (\<forall>k \<in> fst ` set ?xs. hm_lookup n k \<noteq> None \<and> ?P k, h)"
      by (rule map_covers_eq [OF assms(2) q(4,5)]) (use d dist in \<open>auto simp: hm_lookup_def\<close>)
    have a': "map_covers (deep_equal_impl True) h q p = Some (\<forall>k \<in> fst ` set ?ys. hm_lookup m k \<noteq> None \<and> ?P k, h)"
      by (rule map_covers_eq [OF q(4) assms(2,3)]) (use d dist in \<open>auto simp: hm_lookup_def\<close>)
    have k: "hm_lookup n k \<noteq> None \<longleftrightarrow> k \<in> fst ` set ?ys" "hm_lookup m k \<noteq> None \<longleftrightarrow> k \<in> fst ` set ?xs" for k
      by (simp_all add: hm_lookup_def map_of_eq_None_iff)
    have s: "same (JObjT kts) u \<longleftrightarrow> fst ` set ?xs = fst ` set ?ys \<and> (\<forall>k \<in> fst ` set ?xs. ?P k)"
    proof -
      have "same (JObjT kts) u \<longleftrightarrow> fst ` set ?xs = fst ` set ?ys \<and> (\<forall>kt \<in> set kts. case map_of us (fst kt) of None \<Rightarrow> False | Some w \<Rightarrow> same (snd kt) w)"
        using arg_cong [OF keys(1), of set] arg_cong [OF keys(2), of set] by (simp add: q(2))
      also have "\<dots> \<longleftrightarrow> fst ` set ?xs = fst ` set ?ys \<and> (\<forall>k \<in> fst ` set ?xs. ?P k)"
      proof (rule conj_cong [OF refl])
        assume eq: "fst ` set ?xs = fst ` set ?ys"
        have ks: "fst ` set kts = fst ` set ?xs" "fst ` set us = fst ` set ?xs"
          using arg_cong [OF keys(1), of set] arg_cong [OF keys(2), of set] eq by simp_all
        have dk: "distinct (map fst kts)" using keys(1) dist(1) by simp
        have e: "(case map_of us (fst kt) of None \<Rightarrow> False | Some w \<Rightarrow> same (snd kt) w) = ?P (fst kt)" if kt: "kt \<in> set kts" for kt
        proof -
          have "fst kt \<in> fst ` set us" using kt ks by auto
          then obtain w where "map_of us (fst kt) = Some w" by (metis map_of_eq_None_iff not_None_eq)
          moreover have "map_of kts (fst kt) = Some (snd kt)" using dk kt by simp
          ultimately show ?thesis by simp
        qed
        then show "(\<forall>kt \<in> set kts. case map_of us (fst kt) of None \<Rightarrow> False | Some w \<Rightarrow> same (snd kt) w) \<longleftrightarrow> (\<forall>k \<in> fst ` set ?xs. ?P k)"
          unfolding ks(1) [symmetric] ball_simps by (rule ball_cong [OF refl])
      qed
      finally show ?thesis .
    qed
    have "maps_deep_equal (deep_equal_impl True) h p q = Some (same (JObjT kts) u, h)"
      "maps_deep_equal (deep_equal_impl True) h q p = Some (same (JObjT kts) u, h)"
      using maps_both [OF assms(1) q(3) a [unfolded k] a' [unfolded k]] maps_both [OF q(3) assms(1) a' [unfolded k] a [unfolded k]]
      unfolding s both_cover both_cover [of "fst ` set ?ys" "fst ` set ?xs"] by (simp_all add: eq_commute cong: conj_cong)
    then show ?thesis by (simp only: q(1) deep_equal_parts)
  qed
qed

lemma tree_decides: "tree_of h a t \<Longrightarrow> decides h a t"
proof (induction rule: tree_of.induct)
  case (arr p a ts)
  then show ?case by (intro decides_array) (auto elim: list_all2_mono)
next
  case (obj p m kts)
  then show ?case by (intro decides_object) (auto elim: list_all2_mono)
qed (rule decides_scalar; assumption?)+

subsection \<open>What a failing assertion does\<close>

definition can_throw :: "ast \<Rightarrow> nat \<Rightarrow> bool" where
  "can_throw s f \<longleftrightarrow> as_jump s = Some f \<and> f \<in> set (as_frames s)"

lemma assert_fail_ok:
  assumes "can_throw s f" "heap_ok (as_heap s)" "NUL \<notin> set m" "length m \<le> 5000"
  shows "\<exists>q h. assert_fail m s = Some (Jump f, s\<lparr>as_err := as_err s @ ERR_ASSERTION @ m @ [NL], as_heap := h,
      as_error := VString q\<rparr>) \<and> heap_ok h \<and> str_at h q m"
proof -
  from new_text_step [OF assms(3,4,2)] obtain q h where "new_text (as_heap s) m = Some (VString q, h)" "heap_ok h" "str_at h q m" by blast
  with assms(1) show ?thesis
    by (intro exI [of _ q] exI [of _ h]) (simp add: assert_fail_def ts_throw_def can_throw_def Let_def)
qed

lemma fail_with_string:
  assumes "str_at (as_heap s) p m" "NUL \<notin> set m" "m \<noteq> []"
  shows "fail_with (VString p) fb s = assert_fail m s"
  using assms by (simp add: fail_with_def msg_or_def text_or_null_string cstr_id)

text \<open>C14. \<^verbatim>\<open>deepStrictEqual\<close> of two values that stand for trees returns, without a change of the state, when
  the trees are the same; otherwise it prints its message and throws it to the innermost active
  \<^verbatim>\<open>TS_TRY\<close>.
\<close>

theorem deep_strict_equal_decides:
  assumes "tree_of (as_heap s) a t" "tree_of (as_heap s) b u" "heap_ok (as_heap s)" "can_throw s f"
    and "str_at (as_heap s) mp m" "NUL \<notin> set m" "m \<noteq> []" "length m \<le> 5000"
  shows "if same t u then node_assert_deepStrictEqual a b (VString mp) s = Some (Done, s)
    else \<exists>s' q. node_assert_deepStrictEqual a b (VString mp) s = Some (Jump f, s') \<and> as_error s' = VString q \<and>
      str_at (as_heap s') q m \<and> as_err s' = as_err s @ ERR_ASSERTION @ m @ [NL]"
proof -
  have d: "deep_equal_impl True (as_heap s) a b = Some (same t u, as_heap s)"
    using tree_decides [OF assms(1)] assms(2) by (simp add: decides_def)
  have "fail_eq a b (VString mp) fb s = assert_fail m s" for fb
    using assms(5-7) by (simp add: fail_eq_def fail_with_string)
  with d assert_fail_ok [OF assms(4,3,6,8)] show ?thesis
    by (auto simp: node_assert_deepStrictEqual_def compare_then_def)
qed

definition one_array :: "tsvalue \<Rightarrow> tsvalue tsarray" where
  "one_array v = \<lparr>a_refcount = 1, a_length = 1, a_capacity = 4, a_items = [Some v, None, None, None]\<rparr>"

lemma one_array_ok: "arr_ok (one_array v)" "arr_vals (one_array v) = [v]"
  by (simp_all add: one_array_def arr_ok_def arr_vals_def int32_max_def)

definition demo_assert :: ast where
  "demo_assert = \<lparr>as_heap = \<lparr>nxt = 5, strs = [1 \<mapsto> \<lparr>s_refcount = 1, s_data = ''differ''\<rparr>],
       arrs = [2 \<mapsto> one_array (VNumber (DFin 1)), 3 \<mapsto> one_array (VNumber (DFin 2)), 4 \<mapsto> one_array (VArray 4)], objs = Map.empty\<rparr>,
     as_err = [], as_error = VNull, as_jump = Some 0, as_frames = [0], as_next = 1\<rparr>"

lemma demo_assert_simps [simp]:
  "arrs (as_heap demo_assert) 2 = Some (one_array (VNumber (DFin 1)))" "arrs (as_heap demo_assert) 3 = Some (one_array (VNumber (DFin 2)))"
  "arrs (as_heap demo_assert) 4 = Some (one_array (VArray 4))" "heap_ok (as_heap demo_assert)" "as_jump demo_assert = Some 0"
  "as_frames demo_assert = [0]" "as_next demo_assert = 1" "str_at (as_heap demo_assert) (Suc 0) ''differ''"
  by (simp_all add: demo_assert_def heap_ok_def str_at_def)

lemma deep_strict_equal_decides_witness:
  "if same (JArrT [JNum (DFin 1)]) (JArrT [JNum (DFin 2)]) then node_assert_deepStrictEqual (VArray 2) (VArray 3) (VString (Suc 0)) demo_assert = Some (Done, demo_assert)
    else \<exists>s' q. node_assert_deepStrictEqual (VArray 2) (VArray 3) (VString (Suc 0)) demo_assert = Some (Jump 0, s') \<and> as_error s' = VString q \<and>
      str_at (as_heap s') q ''differ'' \<and> as_err s' = as_err demo_assert @ ERR_ASSERTION @ ''differ'' @ [NL]"
proof (rule deep_strict_equal_decides)
  show "tree_of (as_heap demo_assert) (VArray 2) (JArrT [JNum (DFin 1)])"
    by (rule tree_of.arr [where a = "one_array (VNumber (DFin 1))"]) (simp_all add: one_array_ok tree_of.num)
  show "tree_of (as_heap demo_assert) (VArray 3) (JArrT [JNum (DFin 2)])"
    by (rule tree_of.arr [where a = "one_array (VNumber (DFin 2))"]) (simp_all add: one_array_ok tree_of.num)
qed (simp_all add: can_throw_def)

text \<open>\<^verbatim>\<open>throws\<close> of a function that does not throw reports the failure on the error stream and then
  returns as if the function had thrown; after it nothing can be thrown any more, although the
  caller's \<^verbatim>\<open>TS_TRY\<close> is still active.
\<close>

theorem throws_never_fails:
  assumes "f \<noteq> 0" "call f (snd (ts_try s)) = Some (Done, s1)" "heap_ok (as_heap s1)"
    and "as_jump s1 = Some (as_next s)" "as_frames s1 = as_next s # as_frames s" "\<forall>k \<in> set (as_frames s). k < as_next s"
  shows "\<exists>s'. node_assert_throws call (VFunction f) VNull s = Some (Done, s') \<and> as_frames s' = as_frames s \<and>
    as_err s' = as_err s1 @ ERR_ASSERTION @ ''Missing expected exception'' @ [NL] \<and> (\<forall>v. ts_throw v s' = None)"
proof -
  have c: "can_throw s1 (as_next s)" using assms(4,5) by (simp add: can_throw_def)
  have "as_next s \<notin> set (as_frames s)" using assms(6) by auto
  with assert_fail_ok [OF c assms(3), of "''Missing expected exception''"] assms(1,2,4,5) show ?thesis
    by (auto simp: node_assert_throws_def function_addr_def ts_try_def fail_with_def msg_or_def leave_frame_def ts_throw_def)
qed

lemma throws_never_fails_witness:
  "\<exists>s'. node_assert_throws (\<lambda>f s. Some (Done, s)) (VFunction 7) VNull demo_assert = Some (Done, s') \<and> as_frames s' = as_frames demo_assert \<and>
    as_err s' = as_err (snd (ts_try demo_assert)) @ ERR_ASSERTION @ ''Missing expected exception'' @ [NL] \<and> (\<forall>v. ts_throw v s' = None)"
  by (rule throws_never_fails) (simp_all add: ts_try_def)

lemma unwanted_loop_stuck:
  assumes "unwanted_loop k message s = Some r"
  shows "\<not> can_throw s k"
proof (rule unwanted_loop.raw_induct [OF _ assms, where P = "\<lambda>k message s r. \<not> can_throw s k"], goal_cases)
  case (1 rec k message s r)
  show ?case
  proof
    assume c: "can_throw s k"
    from 1(2) obtain e s1 where s1: "fail_with message ''Got unwanted exception'' s = Some (e, s1)"
      "(if e = Jump k then rec k message s1 else Some (e, s1)) = Some r" by (auto simp: bind_eq_Some_conv)
    have "e = Jump k \<and> can_throw s1 k"
      using s1(1) c by (auto simp: fail_with_def msg_or_def assert_fail_def ts_throw_def can_throw_def new_text_def bind_eq_Some_conv
          split: if_splits)
    with 1(1) s1(2) show False by auto
  qed
qed

text \<open>C31. \<^verbatim>\<open>doesNotThrow\<close> of a function that throws never returns: it reports the failure again and again.\<close>

theorem doesNotThrow_diverges:
  assumes "call f (snd (ts_try s)) = Some (Jump (as_next s), s1)" "can_throw s1 (as_next s)" "f \<noteq> 0"
  shows "node_assert_doesNotThrow call (VFunction f) message s = None"
proof -
  have "unwanted_loop (as_next s) message s1 = None"
    using unwanted_loop_stuck assms(2) by (cases "unwanted_loop (as_next s) message s1") auto
  then show ?thesis using assms(1,3) by (simp add: node_assert_doesNotThrow_def function_addr_def ts_try_def)
qed

lemma doesNotThrow_diverges_witness:
  "node_assert_doesNotThrow (\<lambda>f. ts_throw VNull) (VFunction 7) VNull demo_assert = None"
  by (rule doesNotThrow_diverges) (simp add: ts_try_def ts_throw_def, simp_all add: can_throw_def)

lemma deep_equal_stuck:
  assumes "deep_equal_impl st h0 v w = Some r" "arrs h p = Some a" "arr_ok a" "arr_vals a = VArray p # vs" "p \<noteq> 0"
  shows "\<not> (h0 = h \<and> v = VArray p \<and> w = VArray p)"
proof (rule deep_equal_impl.raw_induct [OF _ assms(1), where P = "\<lambda>st h0 v w r. \<not> (h0 = h \<and> v = VArray p \<and> w = VArray p)"], goal_cases)
  case (1 rec st h0 v w r)
  show ?case
  proof
    assume e: "h0 = h \<and> v = VArray p \<and> w = VArray p"
    have r: "rec st h (VArray p) (VArray p) = None" 
      by (cases "rec st h (VArray p) (VArray p)") (simp, blast dest: 1(1))
    have l: "0 < a_length a" using length_arr_vals [OF assms(3)] assms(4) by simp
    then have u: "[0..a_length a - 1] = 0 # [1..a_length a - 1]" by (simp add: upto_rec1)
    have "ts_array_get a 0 = Some (VArray p)" using ts_array_get_ok [OF assms(3), of 0] l assms(4) by simp
    with 1(2) e r assms(2,5) show False by (simp add: arrays_deep_equal_def elems_equal_def u)
  qed
qed

text \<open>An array that is its own first element is never found equal, nor different, to itself.\<close>

theorem deep_equal_cyclic_diverges:
  assumes "arrs (as_heap s) p = Some a" "arr_ok a" "arr_vals a = VArray p # vs" "p \<noteq> 0"
  shows "node_assert_deepEqual (VArray p) (VArray p) message s = None"
proof -
  have "deep_equal_impl False (as_heap s) (VArray p) (VArray p) = None"
    by (cases "deep_equal_impl False (as_heap s) (VArray p) (VArray p)") (simp, blast dest: deep_equal_stuck [OF _ assms])
  then show ?thesis by (simp add: node_assert_deepEqual_def compare_then_def)
qed

lemma deep_equal_cyclic_diverges_witness: "node_assert_deepEqual (VArray 4) (VArray 4) VNull demo_assert = None"
  by (rule deep_equal_cyclic_diverges [where a = "one_array (VArray 4)" and vs = "[]"]) (simp_all add: one_array_ok)

end
