(* ===== verification/Ts_Chalk.thy ===== *)
theory Ts_Chalk
  imports Ts_Objmap Ts_Console
begin

text \<open>
  \<^verbatim>\<open>runtime/src/builtins/node_chalk.c\<close>: texts between the escape sequences of a terminal. What the
  sequences mean is a small interpreter of the terminal, against which the functions are proved.
\<close>

subsection \<open>The functions\<close>

text \<open>\<^verbatim>\<open>\033[\<close> parameters \<^verbatim>\<open>m\<close>: select graphic rendition.\<close>

definition sgr :: "string \<Rightarrow> string" where
  "sgr params = [ESC, CHR ''[''] @ params @ ''m''"

definition get_fg_code :: "string \<Rightarrow> string" where
  "get_fg_code nm = (if nm = ''black'' then sgr ''30''
     else if nm = ''red'' then sgr ''31''
     else if nm = ''green'' then sgr ''32''
     else if nm = ''yellow'' then sgr ''33''
     else if nm = ''blue'' then sgr ''34''
     else if nm = ''magenta'' then sgr ''35''
     else if nm = ''cyan'' then sgr ''36''
     else if nm = ''white'' then sgr ''37''
     else if nm = ''gray'' \<or> nm = ''grey'' then sgr ''90''
     else if nm = ''redBright'' then sgr ''91''
     else if nm = ''greenBright'' then sgr ''92''
     else if nm = ''yellowBright'' then sgr ''93''
     else if nm = ''blueBright'' then sgr ''94''
     else if nm = ''magentaBright'' then sgr ''95''
     else if nm = ''cyanBright'' then sgr ''96''
     else if nm = ''whiteBright'' then sgr ''97''
     else sgr ''37'')"

definition get_bg_code :: "string \<Rightarrow> string" where
  "get_bg_code nm = (if nm = ''black'' then sgr ''40''
     else if nm = ''red'' then sgr ''41''
     else if nm = ''green'' then sgr ''42''
     else if nm = ''yellow'' then sgr ''43''
     else if nm = ''blue'' then sgr ''44''
     else if nm = ''magenta'' then sgr ''45''
     else if nm = ''cyan'' then sgr ''46''
     else if nm = ''white'' then sgr ''47''
     else sgr ''47'')"

definition get_mod_code :: "string \<Rightarrow> string" where
  "get_mod_code nm = (if nm = ''bold'' then sgr ''1''
     else if nm = ''dim'' then sgr ''2''
     else if nm = ''italic'' then sgr ''3''
     else if nm = ''underline'' then sgr ''4''
     else if nm = ''strikethrough'' then sgr ''9''
     else if nm = ''visible'' then sgr ''28''
     else if nm = ''reset'' then sgr ''0''
     else [])"

definition wrap_ansi :: "heap \<Rightarrow> tsvalue \<Rightarrow> string \<Rightarrow> string \<Rightarrow> (tsvalue \<times> heap) option" where
  "wrap_ansi h text op cl = do {
     (s, h1) \<leftarrow> ts_to_string h text;
     if s = 0 then new_text h1 []
     else do {
       (openStr, h2) \<leftarrow> ts_string_new h1 op;
       (closeStr, h3) \<leftarrow> ts_string_new h2 cl;
       (result, h4) \<leftarrow> ts_string_concat h3 openStr s;
       (final, h5) \<leftarrow> ts_string_concat h4 result closeStr;
       h6 \<leftarrow> ts_string_free h5 openStr;
       h7 \<leftarrow> ts_string_free h6 closeStr;
       h8 \<leftarrow> ts_string_free h7 result;
       Some (VString final, h8) } }"

definition chalk_style :: "heap \<Rightarrow> tsvalue \<Rightarrow> string \<Rightarrow> string \<Rightarrow> (tsvalue \<times> heap) option" where
  "chalk_style h text op cl = wrap_ansi h text op cl"

definition node_chalk_red :: "heap \<Rightarrow> tsvalue \<Rightarrow> (tsvalue \<times> heap) option" where
  "node_chalk_red h text = chalk_style h text (sgr ''31'') (sgr ''39'')"

definition node_chalk_green :: "heap \<Rightarrow> tsvalue \<Rightarrow> (tsvalue \<times> heap) option" where
  "node_chalk_green h text = chalk_style h text (sgr ''32'') (sgr ''39'')"

definition node_chalk_blue :: "heap \<Rightarrow> tsvalue \<Rightarrow> (tsvalue \<times> heap) option" where
  "node_chalk_blue h text = chalk_style h text (sgr ''34'') (sgr ''39'')"

definition node_chalk_yellow :: "heap \<Rightarrow> tsvalue \<Rightarrow> (tsvalue \<times> heap) option" where
  "node_chalk_yellow h text = chalk_style h text (sgr ''33'') (sgr ''39'')"

definition node_chalk_magenta :: "heap \<Rightarrow> tsvalue \<Rightarrow> (tsvalue \<times> heap) option" where
  "node_chalk_magenta h text = chalk_style h text (sgr ''35'') (sgr ''39'')"

definition node_chalk_cyan :: "heap \<Rightarrow> tsvalue \<Rightarrow> (tsvalue \<times> heap) option" where
  "node_chalk_cyan h text = chalk_style h text (sgr ''36'') (sgr ''39'')"

definition node_chalk_white :: "heap \<Rightarrow> tsvalue \<Rightarrow> (tsvalue \<times> heap) option" where
  "node_chalk_white h text = chalk_style h text (sgr ''37'') (sgr ''39'')"

definition node_chalk_gray :: "heap \<Rightarrow> tsvalue \<Rightarrow> (tsvalue \<times> heap) option" where
  "node_chalk_gray h text = chalk_style h text (sgr ''90'') (sgr ''39'')"

definition node_chalk_grey :: "heap \<Rightarrow> tsvalue \<Rightarrow> (tsvalue \<times> heap) option" where
  "node_chalk_grey h text = chalk_style h text (sgr ''90'') (sgr ''39'')"

definition node_chalk_black :: "heap \<Rightarrow> tsvalue \<Rightarrow> (tsvalue \<times> heap) option" where
  "node_chalk_black h text = chalk_style h text (sgr ''30'') (sgr ''39'')"

definition node_chalk_redBright :: "heap \<Rightarrow> tsvalue \<Rightarrow> (tsvalue \<times> heap) option" where
  "node_chalk_redBright h text = chalk_style h text (sgr ''91'') (sgr ''39'')"

definition node_chalk_greenBright :: "heap \<Rightarrow> tsvalue \<Rightarrow> (tsvalue \<times> heap) option" where
  "node_chalk_greenBright h text = chalk_style h text (sgr ''92'') (sgr ''39'')"

definition node_chalk_blueBright :: "heap \<Rightarrow> tsvalue \<Rightarrow> (tsvalue \<times> heap) option" where
  "node_chalk_blueBright h text = chalk_style h text (sgr ''94'') (sgr ''39'')"

definition node_chalk_yellowBright :: "heap \<Rightarrow> tsvalue \<Rightarrow> (tsvalue \<times> heap) option" where
  "node_chalk_yellowBright h text = chalk_style h text (sgr ''93'') (sgr ''39'')"

definition node_chalk_magentaBright :: "heap \<Rightarrow> tsvalue \<Rightarrow> (tsvalue \<times> heap) option" where
  "node_chalk_magentaBright h text = chalk_style h text (sgr ''95'') (sgr ''39'')"

definition node_chalk_cyanBright :: "heap \<Rightarrow> tsvalue \<Rightarrow> (tsvalue \<times> heap) option" where
  "node_chalk_cyanBright h text = chalk_style h text (sgr ''96'') (sgr ''39'')"

definition node_chalk_whiteBright :: "heap \<Rightarrow> tsvalue \<Rightarrow> (tsvalue \<times> heap) option" where
  "node_chalk_whiteBright h text = chalk_style h text (sgr ''97'') (sgr ''39'')"

definition node_chalk_bgRed :: "heap \<Rightarrow> tsvalue \<Rightarrow> (tsvalue \<times> heap) option" where
  "node_chalk_bgRed h text = chalk_style h text (sgr ''41'') (sgr ''49'')"

definition node_chalk_bgGreen :: "heap \<Rightarrow> tsvalue \<Rightarrow> (tsvalue \<times> heap) option" where
  "node_chalk_bgGreen h text = chalk_style h text (sgr ''42'') (sgr ''49'')"

definition node_chalk_bgBlue :: "heap \<Rightarrow> tsvalue \<Rightarrow> (tsvalue \<times> heap) option" where
  "node_chalk_bgBlue h text = chalk_style h text (sgr ''44'') (sgr ''49'')"

definition node_chalk_bgYellow :: "heap \<Rightarrow> tsvalue \<Rightarrow> (tsvalue \<times> heap) option" where
  "node_chalk_bgYellow h text = chalk_style h text (sgr ''43'') (sgr ''49'')"

definition node_chalk_bgMagenta :: "heap \<Rightarrow> tsvalue \<Rightarrow> (tsvalue \<times> heap) option" where
  "node_chalk_bgMagenta h text = chalk_style h text (sgr ''45'') (sgr ''49'')"

definition node_chalk_bgCyan :: "heap \<Rightarrow> tsvalue \<Rightarrow> (tsvalue \<times> heap) option" where
  "node_chalk_bgCyan h text = chalk_style h text (sgr ''46'') (sgr ''49'')"

definition node_chalk_bgWhite :: "heap \<Rightarrow> tsvalue \<Rightarrow> (tsvalue \<times> heap) option" where
  "node_chalk_bgWhite h text = chalk_style h text (sgr ''47'') (sgr ''49'')"

definition node_chalk_bgBlack :: "heap \<Rightarrow> tsvalue \<Rightarrow> (tsvalue \<times> heap) option" where
  "node_chalk_bgBlack h text = chalk_style h text (sgr ''40'') (sgr ''49'')"

definition node_chalk_bold :: "heap \<Rightarrow> tsvalue \<Rightarrow> (tsvalue \<times> heap) option" where
  "node_chalk_bold h text = chalk_style h text (sgr ''1'') (sgr ''22'')"

definition node_chalk_dim :: "heap \<Rightarrow> tsvalue \<Rightarrow> (tsvalue \<times> heap) option" where
  "node_chalk_dim h text = chalk_style h text (sgr ''2'') (sgr ''22'')"

definition node_chalk_italic :: "heap \<Rightarrow> tsvalue \<Rightarrow> (tsvalue \<times> heap) option" where
  "node_chalk_italic h text = chalk_style h text (sgr ''3'') (sgr ''23'')"

definition node_chalk_underline :: "heap \<Rightarrow> tsvalue \<Rightarrow> (tsvalue \<times> heap) option" where
  "node_chalk_underline h text = chalk_style h text (sgr ''4'') (sgr ''24'')"

definition node_chalk_strikethrough :: "heap \<Rightarrow> tsvalue \<Rightarrow> (tsvalue \<times> heap) option" where
  "node_chalk_strikethrough h text = chalk_style h text (sgr ''9'') (sgr ''29'')"

definition node_chalk_reset :: "heap \<Rightarrow> tsvalue \<Rightarrow> (tsvalue \<times> heap) option" where
  "node_chalk_reset h text = chalk_style h text (sgr ''0'') []"

definition node_chalk_visible :: "tsvalue \<Rightarrow> tsvalue" where
  "node_chalk_visible text = text"

text \<open>
  \<^verbatim>\<open>strtol\<close> with base 16 on a text this short: blanks, a sign, \<^verbatim>\<open>0x\<close> before a digit, and the digits; the
  rest of the text with it, the whole of it when there is no digit.
\<close>

definition strtol16 :: "string \<Rightarrow> int \<times> string" where
  "strtol16 s = (let s1 = dropWhile is_space s;
     (neg, s2) = (case s1 of
        c # r \<Rightarrow> if c = CHR ''-'' then (True, r) else if c = CHR ''+'' then (False, r) else (False, s1)
      | [] \<Rightarrow> (False, s1));
     s3 = (case s2 of
        a # b # c # r \<Rightarrow> if a = CHR ''0'' \<and> lower b = CHR ''x'' \<and> hex_val c \<noteq> None then c # r else s2
      | _ \<Rightarrow> s2);
     ds = takeWhile (\<lambda>c. hex_val c \<noteq> None) s3; n = int (hex_digits_val 0 ds)
   in if ds = [] then (0, s) else (if neg then - n else n, dropWhile (\<lambda>c. hex_val c \<noteq> None) s3))"

definition parse_hex_color :: "string \<Rightarrow> (int \<times> int \<times> int) option" where
  "parse_hex_color color = (let hex = (case color of c # r \<Rightarrow> if c = CHR ''#'' then r else color | [] \<Rightarrow> color) in
     if length hex \<noteq> 6 then None
     else (let (v, end) = strtol16 hex in
       if end \<noteq> [] \<or> v < 0 \<or> v > 0xFFFFFF then None
       else Some (v div 2 ^ 16 mod 256, v div 2 ^ 8 mod 256, v mod 256)))"

text \<open>\<^verbatim>\<open>"\033[%d;2;%d;%d;%dm"\<close> with the first parameter 38 for the text and 48 for the ground.\<close>

definition rgb_code :: "string \<Rightarrow> int \<Rightarrow> int \<Rightarrow> int \<Rightarrow> string" where
  "rgb_code ground r g b = sgr (ground @ '';2;'' @ int_str r @ '';'' @ int_str g @ '';'' @ int_str b)"

definition hex_style :: "string \<Rightarrow> string \<Rightarrow> heap \<Rightarrow> tsvalue \<Rightarrow> tsvalue \<Rightarrow> (tsvalue \<times> heap) option" where
  "hex_style ground reset h color text = do {
     (cs, h1) \<leftarrow> text_or_null h color;
     case cs of
       None \<Rightarrow> Some (text, h1)
     | Some c \<Rightarrow> (case parse_hex_color (cstr c) of
           None \<Rightarrow> Some (text, h1)
         | Some (r, g, b) \<Rightarrow> wrap_ansi h1 text (snprintf 32 (rgb_code ground r g b)) (snprintf 32 (sgr reset))) }"

definition node_chalk_hex :: "heap \<Rightarrow> tsvalue \<Rightarrow> tsvalue \<Rightarrow> (tsvalue \<times> heap) option" where
  "node_chalk_hex h color text = hex_style ''38'' ''39'' h color text"

definition node_chalk_bgHex :: "heap \<Rightarrow> tsvalue \<Rightarrow> tsvalue \<Rightarrow> (tsvalue \<times> heap) option" where
  "node_chalk_bgHex h color text = hex_style ''48'' ''49'' h color text"

definition clamp_byte :: "int \<Rightarrow> int" where
  "clamp_byte n = (let n = (if n < 0 then 0 else n) in if n > 255 then 255 else n)"

definition color_byte :: "heap \<Rightarrow> tsvalue \<Rightarrow> int option" where
  "color_byte h v = do { d \<leftarrow> ts_to_number h v; n \<leftarrow> d_to_int d; Some (clamp_byte n) }"

definition rgb_style :: "string \<Rightarrow> string \<Rightarrow> heap \<Rightarrow> tsvalue \<Rightarrow> tsvalue \<Rightarrow> tsvalue \<Rightarrow> tsvalue \<Rightarrow> (tsvalue \<times> heap) option" where
  "rgb_style ground reset h r g b text = do {
     ri \<leftarrow> color_byte h r;
     gi \<leftarrow> color_byte h g;
     bi \<leftarrow> color_byte h b;
     wrap_ansi h text (snprintf 32 (rgb_code ground ri gi bi)) (snprintf 32 (sgr reset)) }"

definition node_chalk_rgb :: "heap \<Rightarrow> tsvalue \<Rightarrow> tsvalue \<Rightarrow> tsvalue \<Rightarrow> tsvalue \<Rightarrow> (tsvalue \<times> heap) option" where
  "node_chalk_rgb h r g b text = rgb_style ''38'' ''39'' h r g b text"

definition node_chalk_bgRgb :: "heap \<Rightarrow> tsvalue \<Rightarrow> tsvalue \<Rightarrow> tsvalue \<Rightarrow> tsvalue \<Rightarrow> (tsvalue \<times> heap) option" where
  "node_chalk_bgRgb h r g b text = rgb_style ''48'' ''49'' h r g b text"

definition node_chalk_ansi256 :: "heap \<Rightarrow> tsvalue \<Rightarrow> tsvalue \<Rightarrow> (tsvalue \<times> heap) option" where
  "node_chalk_ansi256 h code text = do {
     c \<leftarrow> color_byte h code;
     wrap_ansi h text (snprintf 32 (sgr (''38;5;'' @ int_str c))) (snprintf 32 (sgr ''39'')) }"

definition node_chalk_level :: "tsvalue" where
  "node_chalk_level = VNumber (dint 3)"

definition node_chalk_enabled :: "tsvalue" where
  "node_chalk_enabled = ts_value_boolean True"

subsection \<open>The terminal\<close>

text \<open>
  The attributes of a character, and what a sequence does to them: the parameters 39, 49, 22, 23,
  24, 29 and 0 take attributes back, every other sets its own.
\<close>

datatype attribute = Ink | Ground | Weight | Faint | Slant | Line | Strike

type_synonym style = "attribute \<Rightarrow> string option"

definition default_style :: style where
  "default_style = (\<lambda>_. None)"

definition attribute_of :: "string \<Rightarrow> attribute" where
  "attribute_of p = (if p = ''1'' then Weight else if p = ''2'' then Faint else if p = ''3'' then Slant else if p = ''4'' then Line
     else if p = ''9'' then Strike else if hd p = CHR ''4'' then Ground else Ink)"

definition rendition :: "string \<Rightarrow> style \<Rightarrow> style" where
  "rendition p st = (if p = ''0'' then default_style else if p = ''39'' then st(Ink := None) else if p = ''49'' then st(Ground := None)
     else if p = ''22'' then st(Weight := None, Faint := None) else if p = ''23'' then st(Slant := None)
     else if p = ''24'' then st(Line := None) else if p = ''29'' then st(Strike := None)
     else st(attribute_of p := Some p))"

lemma dropped_shorter: "length (dropWhile P (tl s)) - Suc 0 \<le> length s"
  using length_dropWhile_le [of P "tl s"] by simp

text \<open>The characters a terminal shows, each with its style, and the style it is left in.\<close>

function display :: "style \<Rightarrow> string \<Rightarrow> (char \<times> style) list \<times> style" where
  "display st [] = ([], st)"
| "display st (c # s) =
    (if c = ESC \<and> s \<noteq> [] \<and> hd s = CHR ''[''
     then display (rendition (takeWhile (\<lambda>x. x \<noteq> CHR ''m'') (tl s)) st) (drop 1 (dropWhile (\<lambda>x. x \<noteq> CHR ''m'') (tl s)))
     else (let (shown, st') = display st s in ((c, st) # shown, st')))"
  by pat_completeness auto
termination
  by (relation "measure (length \<circ> snd)") (auto simp: less_Suc_eq_le dropped_shorter)

lemma display_plain: "ESC \<notin> set t \<Longrightarrow> display st (t @ s) = (let (shown, st') = display st s in (map (\<lambda>c. (c, st)) t @ shown, st'))"
  by (induction t) (auto split: prod.split)

lemma display_sgr: "CHR ''m'' \<notin> set p \<Longrightarrow> display st (sgr p @ s) = display (rendition p st) s"
  by (simp add: sgr_def takeWhile_append dropWhile_append)

lemma display_wrapped:
  assumes "ESC \<notin> set t" "CHR ''m'' \<notin> set p" "CHR ''m'' \<notin> set q"
  shows "display st (sgr p @ t @ sgr q) = (map (\<lambda>c. (c, rendition p st)) t, rendition q (rendition p st))"
  using display_sgr [OF assms(3), of _ "[]"] assms(1,2) by (simp add: display_sgr display_plain)

lemma wrap_ansi_ok:
  assumes "heap_ok h" "str_at h p t" "NUL \<notin> set a" "NUL \<notin> set b" "length a \<le> 100" "length b \<le> 100" "length t \<le> 2000000000"
  shows "\<exists>q h'. wrap_ansi h (VString p) a b = Some (VString q, h') \<and> heap_ok h' \<and> str_at h' q (a @ t @ b) \<and>
    (\<forall>r x. str_at h r x \<longrightarrow> str_at h' r x)"
proof -
  let ?n = "nxt h"
  let ?h2 = "snd (new_str h a)"
  let ?h3 = "snd (new_str ?h2 b)"
  let ?h4 = "snd (new_str ?h3 (a @ t))"
  let ?h5 = "snd (new_str ?h4 (a @ t @ b))"
  have ok: "heap_ok ?h2" "heap_ok ?h3" "heap_ok ?h4" "heap_ok ?h5" using assms(1) by (simp_all add: heap_simps)
  have p: "p < ?n" "p \<noteq> 0" using heap_ok_dom(1) [OF assms(1)] assms(2) by (auto simp: str_at_def)
  have n: "0 < ?n" using assms(1) by (simp add: heap_ok_def)
  have s: "ts_to_string h (VString p) = Some (p, h)" by (simp add: ts_to_string.simps [of h "VString p"])
  have 1: "ts_string_new h a = Some (?n, ?h2)" "ts_string_new ?h2 b = Some (Suc ?n, ?h3)"
    using assms(3-6) by (simp_all add: ts_string_new_eq int32_max_def) (simp_all add: new_str_def)
  have 2: "ts_string_concat ?h3 ?n p = Some (Suc (Suc ?n), ?h4)"
    using assms(1,2,5,7) ok p by (subst ts_string_concat_eq [where x = a and y = t]) (auto simp: int32_max_def heap_simps, auto simp: new_str_def)
  have 3: "ts_string_concat ?h4 (Suc (Suc ?n)) (Suc ?n) = Some (Suc (Suc (Suc ?n)), ?h5)"
    using assms(1,2,5-7) ok p by (subst ts_string_concat_eq [where x = "a @ t" and y = b]) (auto simp: int32_max_def heap_simps, auto simp: new_str_def data_or_empty_def str_data_def)
  let ?h6 = "del_str ?h5 ?n" and ?h7 = "del_str (del_str ?h5 ?n) (Suc ?n)"
  let ?h8 = "del_str ?h7 (Suc (Suc ?n))"
  have 4: "ts_string_free ?h5 ?n = Some ?h6" "ts_string_free ?h6 (Suc ?n) = Some ?h7" "ts_string_free ?h7 (Suc (Suc ?n)) = Some ?h8"
    using n by (simp_all add: ts_string_free_def new_str_def del_str_def)
  have "heap_ok ?h8" using ok(4) by (simp add: heap_simps)
  moreover have "str_at ?h8 (Suc (Suc (Suc ?n))) (a @ t @ b)" by (simp add: str_at_def new_str_def del_str_def)
  moreover have "str_at ?h8 r x" if "str_at h r x" for r x
  proof -
    have "r < ?n" using heap_ok_dom(1) [OF assms(1)] that by (auto simp: str_at_def)
    with that show ?thesis by (auto simp: str_at_def new_str_def del_str_def)
  qed
  ultimately show ?thesis
    using p s 1 2 3 4 by (intro exI [of _ "Suc (Suc (Suc ?n))"] exI [of _ ?h8]) (simp add: wrap_ansi_def)
qed

definition chalk_table :: "((heap \<Rightarrow> tsvalue \<Rightarrow> (tsvalue \<times> heap) option) \<times> attribute \<times> string \<times> string) list" where
  "chalk_table = [(node_chalk_red, Ink, ''31'', ''39''),
     (node_chalk_green, Ink, ''32'', ''39''),
     (node_chalk_blue, Ink, ''34'', ''39''),
     (node_chalk_yellow, Ink, ''33'', ''39''),
     (node_chalk_magenta, Ink, ''35'', ''39''),
     (node_chalk_cyan, Ink, ''36'', ''39''),
     (node_chalk_white, Ink, ''37'', ''39''),
     (node_chalk_gray, Ink, ''90'', ''39''),
     (node_chalk_grey, Ink, ''90'', ''39''),
     (node_chalk_black, Ink, ''30'', ''39''),
     (node_chalk_redBright, Ink, ''91'', ''39''),
     (node_chalk_greenBright, Ink, ''92'', ''39''),
     (node_chalk_blueBright, Ink, ''94'', ''39''),
     (node_chalk_yellowBright, Ink, ''93'', ''39''),
     (node_chalk_magentaBright, Ink, ''95'', ''39''),
     (node_chalk_cyanBright, Ink, ''96'', ''39''),
     (node_chalk_whiteBright, Ink, ''97'', ''39''),
     (node_chalk_bgRed, Ground, ''41'', ''49''),
     (node_chalk_bgGreen, Ground, ''42'', ''49''),
     (node_chalk_bgBlue, Ground, ''44'', ''49''),
     (node_chalk_bgYellow, Ground, ''43'', ''49''),
     (node_chalk_bgMagenta, Ground, ''45'', ''49''),
     (node_chalk_bgCyan, Ground, ''46'', ''49''),
     (node_chalk_bgWhite, Ground, ''47'', ''49''),
     (node_chalk_bgBlack, Ground, ''40'', ''49''),
     (node_chalk_bold, Weight, ''1'', ''22''),
     (node_chalk_dim, Faint, ''2'', ''22''),
     (node_chalk_italic, Slant, ''3'', ''23''),
     (node_chalk_underline, Line, ''4'', ''24''),
     (node_chalk_strikethrough, Strike, ''9'', ''29'')]"

lemmas chalk_defs = node_chalk_red_def [abs_def] node_chalk_green_def [abs_def] node_chalk_blue_def [abs_def] node_chalk_yellow_def [abs_def] node_chalk_magenta_def [abs_def] node_chalk_cyan_def [abs_def] node_chalk_white_def [abs_def] node_chalk_gray_def [abs_def] node_chalk_grey_def [abs_def] node_chalk_black_def [abs_def] node_chalk_redBright_def [abs_def] node_chalk_greenBright_def [abs_def] node_chalk_blueBright_def [abs_def] node_chalk_yellowBright_def [abs_def] node_chalk_magentaBright_def [abs_def] node_chalk_cyanBright_def [abs_def] node_chalk_whiteBright_def [abs_def] node_chalk_bgRed_def [abs_def] node_chalk_bgGreen_def [abs_def] node_chalk_bgBlue_def [abs_def] node_chalk_bgYellow_def [abs_def] node_chalk_bgMagenta_def [abs_def] node_chalk_bgCyan_def [abs_def] node_chalk_bgWhite_def [abs_def] node_chalk_bgBlack_def [abs_def] node_chalk_bold_def [abs_def] node_chalk_dim_def [abs_def] node_chalk_italic_def [abs_def] node_chalk_underline_def [abs_def] node_chalk_strikethrough_def [abs_def]

definition plain_wrap :: "(heap \<Rightarrow> tsvalue \<Rightarrow> (tsvalue \<times> heap) option) \<Rightarrow> attribute \<Rightarrow> string \<Rightarrow> string \<Rightarrow> bool" where
  "plain_wrap f a p q \<longleftrightarrow> f = (\<lambda>h text. wrap_ansi h text (sgr p) (sgr q)) \<and> rendition p default_style = default_style(a := Some p) \<and>
     rendition q (default_style(a := Some p)) = default_style \<and> NUL \<notin> set (p @ q) \<and> CHR ''m'' \<notin> set (p @ q) \<and> length (p @ q) \<le> 30"

lemma default_undo [simp]: "default_style(a := None) = default_style" "default_style(a := x, a := None) = default_style"
  "default_style(a := x, a := None, b := None) = default_style" "default_style(a := x, b := None, a := None) = default_style"
  by (auto simp: default_style_def)

lemma chalk_table_plain: "list_all (\<lambda>(f, a, p, q). plain_wrap f a p q) chalk_table"
  by (simp add: chalk_table_def chalk_defs chalk_style_def [abs_def] plain_wrap_def rendition_def attribute_of_def)

lemma plain_wrap_shows:
  assumes "plain_wrap f a p q" "heap_ok h" "str_at h r t" "ESC \<notin> set t" "length t \<le> 2000000000"
  shows "\<exists>s h' y. f h (VString r) = Some (VString s, h') \<and> heap_ok h' \<and> str_at h' s y \<and>
    display default_style y = (map (\<lambda>c. (c, default_style(a := Some p))) t, default_style)"
proof -
  have n: "NUL \<notin> set (sgr p)" "NUL \<notin> set (sgr q)" "length (sgr p) \<le> 100" "length (sgr q) \<le> 100" "CHR ''m'' \<notin> set p" "CHR ''m'' \<notin> set q"
    using assms(1) by (auto simp: plain_wrap_def sgr_def ESC_def)
  from wrap_ansi_ok [OF assms(2,3) n(1-4) assms(5)] display_wrapped [OF assms(4) n(5,6), of default_style] assms(1) show ?thesis
    by (fastforce simp: plain_wrap_def)
qed

subsection \<open>What is shown\<close>

text \<open>Each of the functions for a colour or a weight shows exactly the characters of its text, with
  that one attribute, and leaves the terminal in the style it was in.
\<close>

theorem chalk_shows:
  assumes "(f, a, p, q) \<in> set chalk_table" "heap_ok h" "str_at h r t" "ESC \<notin> set t" "length t \<le> 2000000000"
  shows "\<exists>s h' y. f h (VString r) = Some (VString s, h') \<and> heap_ok h' \<and> str_at h' s y \<and>
    display default_style y = (map (\<lambda>c. (c, default_style(a := Some p))) t, default_style)"
  using chalk_table_plain assms by (intro plain_wrap_shows) (auto simp: list_all_iff)

definition demo_text :: "string \<Rightarrow> heap" where
  "demo_text t = snd (new_str empty_heap t)"

lemma demo_text_at: "heap_ok (demo_text t)" "str_at (demo_text t) (Suc 0) t"
  by (simp_all add: demo_text_def heap_simps) (simp add: str_at_def new_str_def empty_heap_def)

lemma chalk_shows_witness:
  "\<exists>s h' y. node_chalk_bgBlue (demo_text ''hi'') (VString (Suc 0)) = Some (VString s, h') \<and> heap_ok h' \<and> str_at h' s y \<and>
    display default_style y = (map (\<lambda>c. (c, default_style(Ground := Some ''44''))) ''hi'', default_style)"
  by (rule chalk_shows [where q = "''49''"]) (simp_all add: chalk_table_def demo_text_at ESC_def)

text \<open>A text within a text: what follows the inner one has lost the outer colour.\<close>

lemma chalk_nested_loses_color:
  "display default_style (sgr ''31'' @ ''a'' @ (sgr ''32'' @ ''b'' @ sgr ''39'') @ ''c'' @ sgr ''39'') =
    ([(CHR ''a'', default_style(Ink := Some ''31'')), (CHR ''b'', default_style(Ink := Some ''32'')), (CHR ''c'', default_style)], default_style)"
proof -
  have "display default_style (''c'' @ sgr ''39'' @ []) = ([(CHR ''c'', default_style)], default_style)"
    using display_sgr [of "''39''" default_style "[]"] by (simp add: ESC_def rendition_def)
  then show ?thesis by (simp add: display_sgr rendition_def attribute_of_def ESC_def)
qed

subsection \<open>Hexadecimal colours\<close>

lemma hex_val_char:
  assumes "hex_val c \<noteq> None"
  shows "\<not> is_space c" "c \<noteq> CHR ''-''" "c \<noteq> CHR ''+''" "lower c \<noteq> CHR ''x''" "c \<noteq> CHR ''#''" "c \<noteq> NUL"
  using assms by (auto simp: hex_val_def is_space_def lower_def is_digit_def Let_def split: if_splits
      dest: arg_cong [where f = "of_char :: char \<Rightarrow> nat"])

lemma hex_byte_chars: "c \<in> set (hex_byte b) \<Longrightarrow> hex_val c \<noteq> None"
  using hex_val_digit [of "unat b div 16"] hex_val_digit [of "unat b mod 16"] unat_byte [of b]
  by (auto simp: hex_byte_def less_mult_imp_div_less)

lemma strtol16_hex:
  assumes "\<And>c. c \<in> set s \<Longrightarrow> hex_val c \<noteq> None" "s \<noteq> []"
  shows "strtol16 s = (int (hex_digits_val 0 s), [])"
proof -
  obtain c r where s: "s = c # r" using assms(2) by (cases s) auto
  have c: "\<not> is_space c" "c \<noteq> CHR ''-''" "c \<noteq> CHR ''+''" using assms(1) [of c] hex_val_char [of c] by (auto simp: s)
  have x: "(case s of a # b # c # r \<Rightarrow> if a = CHR ''0'' \<and> lower b = CHR ''x'' \<and> hex_val c \<noteq> None then c # r else s | _ \<Rightarrow> s) = s"
    using assms(1) hex_val_char(4) by (auto split: list.split)
  have "takeWhile (\<lambda>c. hex_val c \<noteq> None) s = s" "dropWhile (\<lambda>c. hex_val c \<noteq> None) s = []" using assms(1) by auto
  with c x show ?thesis unfolding strtol16_def Let_def s by simp
qed

lemma hex_digits_byte: "hex_digits_val acc (hex_byte b @ s) = hex_digits_val (256 * acc + unat b) s"
  using hex_val_digit [of "unat b div 16"] hex_val_digit [of "unat b mod 16"] unat_byte [of b]
  by (simp add: hex_byte_def less_mult_imp_div_less add.commute add.left_commute)

lemma three_bytes:
  fixes r g b :: int
  assumes "0 \<le> r" "r < 256" "0 \<le> g" "g < 256" "0 \<le> b" "b < 256"
  shows "(256 * (256 * r + g) + b) div 65536 mod 256 = r" "(256 * (256 * r + g) + b) div 256 mod 256 = g" "(256 * (256 * r + g) + b) mod 256 = b"
    "256 * (256 * r + g) + b \<le> 0xFFFFFF" "0 \<le> 256 * (256 * r + g) + b"
proof -
  have d: "(256 * x + y) div 256 = x" if "0 \<le> y" "y < 256" for x y :: int using that by simp
  show e: "(256 * (256 * r + g) + b) div 256 mod 256 = g" using assms d [of b "256 * r + g"] by simp
  have "(256 * (256 * r + g) + b) div (256 * 256) = (256 * (256 * r + g) + b) div 256 div 256" by (rule zdiv_zmult2_eq) simp
  with assms d [of b "256 * r + g"] d [of g r] show "(256 * (256 * r + g) + b) div 65536 mod 256 = r" by simp
  show "(256 * (256 * r + g) + b) mod 256 = b" using assms mod_mult_self4 [of 256 "256 * r + g" b] by simp
  show "256 * (256 * r + g) + b \<le> 0xFFFFFF" "0 \<le> 256 * (256 * r + g) + b" using assms by simp_all
qed

lemma parse_hex_color_bytes:
  "parse_hex_color (''#'' @ hex_byte r @ hex_byte g @ hex_byte b) = Some (uint r, uint g, uint b)"
proof -
  let ?c = "hex_byte r @ hex_byte g @ hex_byte b"
  have c: "hex_val c \<noteq> None" if "c \<in> set ?c" for c using that hex_byte_chars by auto
  have "hex_digits_val 0 ?c = 256 * (256 * unat r + unat g) + unat b"
    using hex_digits_byte [of _ b "[]"] by (simp only: hex_digits_byte append_Nil2 hex_digits_val.simps) simp
  then have "strtol16 ?c = (int (256 * (256 * unat r + unat g) + unat b), [])"
    by (subst strtol16_hex [OF c]) (simp_all add: hex_byte_def)
  then have s: "strtol16 ?c = (256 * (256 * uint r + uint g) + uint b, [])" by simp
  have u: "uint x < 256" for x :: "8 word" using unsigned_less [where ?'a = int, of x] by simp
  have "length ?c = 6" by (simp add: hex_byte_def)
  then show ?thesis
    using three_bytes [of "uint r" "uint g" "uint b"] u s by (simp add: parse_hex_color_def Let_def)
qed

lemma int_str_byte:
  assumes "0 \<le> n" "n < 256"
  shows "length (int_str n) \<le> 3" "NUL \<notin> set (int_str n)" "CHR ''m'' \<notin> set (int_str n)"
proof -
  have "nat n div 10 div 10 < 10" using assms by simp
  then show "length (int_str n) \<le> 3"
    using assms by (simp add: int_str_def dec_str.simps [of "nat n"] dec_str.simps [of "nat n div 10"] dec_str.simps [of "nat n div 10 div 10"])
  show "NUL \<notin> set (int_str n)" "CHR ''m'' \<notin> set (int_str n)"
    using assms by (auto simp: int_str_def is_digit_def dest: dec_str_digits)
qed

lemma rgb_plain_wrap:
  assumes "0 \<le> r" "r < 256" "0 \<le> g" "g < 256" "0 \<le> b" "b < 256"
  shows "plain_wrap (\<lambda>h text. wrap_ansi h text (snprintf 32 (rgb_code ''38'' r g b)) (snprintf 32 (sgr ''39''))) Ink
      (''38;2;'' @ int_str r @ '';'' @ int_str g @ '';'' @ int_str b) ''39''"
proof -
  let ?p = "''38;2;'' @ int_str r @ '';'' @ int_str g @ '';'' @ int_str b"
  have l: "length ?p \<le> 16" "NUL \<notin> set ?p" "CHR ''m'' \<notin> set ?p"
    using int_str_byte [OF assms(1,2)] int_str_byte [OF assms(3,4)] int_str_byte [OF assms(5,6)] by simp_all
  then have "NUL \<notin> set (sgr ?p)" "length (sgr ?p) < 32" by (auto simp: sgr_def ESC_def)
  then have "snprintf 32 (rgb_code ''38'' r g b) = sgr ?p" by (simp add: rgb_code_def snprintf_id)
  moreover have "snprintf 32 (sgr ''39'') = sgr ''39''" by (rule snprintf_id) (simp_all add: sgr_def ESC_def)
  moreover have "rendition ?p default_style = default_style(Ink := Some ?p)" by (simp add: rendition_def attribute_of_def)
  ultimately show ?thesis using l by (simp add: plain_wrap_def rendition_def)
qed

text \<open>
  \<^verbatim>\<open>chalk.hex\<close> of a colour in two hexadecimal digits each for red, green and blue shows the text in
  that colour, and leaves the terminal in the style it was in.
\<close>

theorem chalk_hex_shows:
  assumes "heap_ok h" "str_at h cp (''#'' @ hex_byte r @ hex_byte g @ hex_byte b)" "str_at h tp t" "ESC \<notin> set t" "length t \<le> 2000000000"
  shows "\<exists>s h' y. node_chalk_hex h (VString cp) (VString tp) = Some (VString s, h') \<and> str_at h' s y \<and>
    display default_style y = (map (\<lambda>c. (c, default_style(Ink := Some (''38;2;'' @ int_str (uint r) @ '';'' @ int_str (uint g) @ '';'' @ int_str (uint b))))) t,
      default_style)"
proof -
  have u: "0 \<le> uint x" "uint x < 256" for x :: "8 word" using unsigned_less [where ?'a = int, of x] by simp_all
  have "NUL \<notin> set (''#'' @ hex_byte r @ hex_byte g @ hex_byte b)" by (auto simp: hex_byte_text)
  then have "node_chalk_hex h (VString cp) (VString tp) =
      wrap_ansi h (VString tp) (snprintf 32 (rgb_code ''38'' (uint r) (uint g) (uint b))) (snprintf 32 (sgr ''39''))"
    using parse_hex_color_bytes [of r g b] assms(2) by (simp add: node_chalk_hex_def hex_style_def text_or_null_string cstr_id)
  with plain_wrap_shows [OF rgb_plain_wrap assms(1,3,4,5)] u show ?thesis by fastforce
qed

definition demo_hex :: heap where
  "demo_hex = snd (new_str (demo_text ''hi'') (''#'' @ hex_byte 255 @ hex_byte 128 @ hex_byte 7))"

lemma demo_hex_at: "heap_ok demo_hex" "str_at demo_hex (Suc 0) ''hi''" "str_at demo_hex 2 (''#'' @ hex_byte 255 @ hex_byte 128 @ hex_byte 7)"
  by (simp_all add: demo_hex_def demo_text_at heap_simps) (simp add: str_at_def new_str_def demo_text_def empty_heap_def)

lemma chalk_hex_shows_witness:
  "\<exists>s h' y. node_chalk_hex demo_hex (VString 2) (VString (Suc 0)) = Some (VString s, h') \<and> str_at h' s y \<and>
    display default_style y = (map (\<lambda>c. (c, default_style(Ink := Some (''38;2;'' @ int_str (uint (255 :: 8 word)) @ '';'' @
      int_str (uint (128 :: 8 word)) @ '';'' @ int_str (uint (7 :: 8 word)))))) ''hi'', default_style)"
  by (rule chalk_hex_shows [OF demo_hex_at(1,3,2)]) (simp_all add: ESC_def)

end
