(* ===== verification/Ts_Ctype.thy ===== *)
theory Ts_Ctype
  imports Ts_Objmap
begin

text \<open>
  \<^verbatim>\<open>runtime/src/builtins/node_ctype.c\<close> and \<^verbatim>\<open>runtime/src/closure.c\<close>: descriptions of C types, what the
  runtime answers about the C type of a value, and the records of a function with the values it
  captured. Both kinds of object are allocated by the collector; each has a store of its own here,
  over the same addresses.
\<close>

subsection \<open>C types\<close>

definition CTYPE_TAG :: int where
  "CTYPE_TAG = 0x43595450"

record ctype =
  ct_type_tag :: int
  ct_name :: addr
  ct_size :: int
  ct_alignment :: int
  ct_is_signed :: int

record cts =
  ct_heap :: heap
  ct_types :: "addr \<Rightarrow> ctype option"

fun get_value_type_size :: "tsvalue \<Rightarrow> int" where
  "get_value_type_size (VString _) = 1"
| "get_value_type_size (VNumber _) = 4"
| "get_value_type_size (VBoolean _) = 1"
| "get_value_type_size VNull = 0"
| "get_value_type_size (VObject _) = 8"
| "get_value_type_size (VArray _) = 8"
| "get_value_type_size (VFunction _) = 8"
| "get_value_type_size (VSymbol _) = 4"

fun get_value_type_alignment :: "tsvalue \<Rightarrow> int" where
  "get_value_type_alignment (VString _) = 1"
| "get_value_type_alignment (VNumber _) = 4"
| "get_value_type_alignment (VBoolean _) = 1"
| "get_value_type_alignment VNull = 1"
| "get_value_type_alignment (VObject _) = 8"
| "get_value_type_alignment (VArray _) = 8"
| "get_value_type_alignment (VFunction _) = 8"
| "get_value_type_alignment (VSymbol _) = 4"

fun get_value_type_signed :: "tsvalue \<Rightarrow> int" where
  "get_value_type_signed (VNumber _) = 1"
| "get_value_type_signed _ = 0"

fun get_value_type_name :: "tsvalue \<Rightarrow> string" where
  "get_value_type_name (VString _) = ''char''"
| "get_value_type_name (VNumber _) = ''int''"
| "get_value_type_name (VBoolean _) = ''bool''"
| "get_value_type_name VNull = ''null''"
| "get_value_type_name (VObject _) = ''pointer''"
| "get_value_type_name (VArray _) = ''array''"
| "get_value_type_name (VFunction _) = ''function''"
| "get_value_type_name (VSymbol _) = ''symbol''"

definition node_ctype_new_ctype :: "addr \<Rightarrow> dbl \<Rightarrow> dbl \<Rightarrow> int \<Rightarrow> cts \<Rightarrow> (tsvalue \<times> cts) option" where
  "node_ctype_new_ctype name sz alignment isSigned s = do {
     n \<leftarrow> d_to_int sz;
     a \<leftarrow> d_to_int alignment;
     let p = nxt (ct_heap s);
     Some (VObject p, s\<lparr>ct_heap := (ct_heap s)\<lparr>nxt := Suc p\<rparr>, ct_types := (ct_types s)(p \<mapsto>
       \<lparr>ct_type_tag = CTYPE_TAG, ct_name = name, ct_size = n, ct_alignment = a, ct_is_signed = isSigned\<rparr>)\<rparr>) }"

text \<open>
  The object read as a C type when its first word is the tag. A hash map begins with its reference
  count; the other objects with tags of their own, which are all different.
\<close>

definition sel_ctype :: "cts \<Rightarrow> tsvalue \<Rightarrow> ctype option option" where
  "sel_ctype s v = (case v of
     VObject p \<Rightarrow>
       if p = 0 then Some None
       else (case ct_types s p of
           Some c \<Rightarrow> Some (if ct_type_tag c = CTYPE_TAG then Some c else None)
         | None \<Rightarrow> (case objs (ct_heap s) p of
               None \<Rightarrow> None
             | Some (OMap m) \<Rightarrow> if m_refcount m = CTYPE_TAG then None else Some None
             | Some _ \<Rightarrow> Some None))
   | _ \<Rightarrow> Some None)"

definition node_ctype_sizeof :: "cts \<Rightarrow> tsvalue \<Rightarrow> tsvalue option" where
  "node_ctype_sizeof s v = do {
     c \<leftarrow> sel_ctype s v;
     Some (VNumber (dint (case c of Some c \<Rightarrow> ct_size c | None \<Rightarrow> get_value_type_size v))) }"

definition node_ctype_alignof :: "cts \<Rightarrow> tsvalue \<Rightarrow> tsvalue option" where
  "node_ctype_alignof s v = do {
     c \<leftarrow> sel_ctype s v;
     Some (VNumber (dint (case c of Some c \<Rightarrow> ct_alignment c | None \<Rightarrow> get_value_type_alignment v))) }"

definition node_ctype_get_name :: "cts \<Rightarrow> tsvalue \<Rightarrow> (tsvalue \<times> cts) option" where
  "node_ctype_get_name s v = do {
     c \<leftarrow> sel_ctype s v;
     case c of
       Some c \<Rightarrow> Some (VString (ct_name c), s)
     | None \<Rightarrow> do { (t, h) \<leftarrow> new_text (ct_heap s) (get_value_type_name v); Some (t, s\<lparr>ct_heap := h\<rparr>) } }"

definition node_ctype_get_size :: "cts \<Rightarrow> tsvalue \<Rightarrow> tsvalue option" where
  "node_ctype_get_size s v = do {
     c \<leftarrow> sel_ctype s v;
     Some (VNumber (dint (case c of Some c \<Rightarrow> ct_size c | None \<Rightarrow> get_value_type_size v))) }"

definition node_ctype_get_alignment :: "cts \<Rightarrow> tsvalue \<Rightarrow> tsvalue option" where
  "node_ctype_get_alignment s v = do {
     c \<leftarrow> sel_ctype s v;
     Some (VNumber (dint (case c of Some c \<Rightarrow> ct_alignment c | None \<Rightarrow> get_value_type_alignment v))) }"

definition node_ctype_get_signed :: "cts \<Rightarrow> tsvalue \<Rightarrow> tsvalue option" where
  "node_ctype_get_signed s v = do {
     c \<leftarrow> sel_ctype s v;
     Some (VBoolean (case c of Some c \<Rightarrow> ct_is_signed c | None \<Rightarrow> get_value_type_signed v)) }"

text \<open>\<open>ptr\<close> is what \<^verbatim>\<open>%p\<close> prints for the address of the parameter.\<close>

definition node_ctype_getptr :: "string \<Rightarrow> cts \<Rightarrow> (tsvalue \<times> cts) option" where
  "node_ctype_getptr ptr s = do { (t, h) \<leftarrow> new_text (ct_heap s) (snprintf 32 (''0x'' @ ptr)); Some (t, s\<lparr>ct_heap := h\<rparr>) }"

fun node_ctype_equal :: "heap \<Rightarrow> tsvalue \<Rightarrow> tsvalue \<Rightarrow> tsvalue option" where
  "node_ctype_equal h (VNumber a) v = Some (ts_value_boolean (case v of VNumber b \<Rightarrow> deq a b | _ \<Rightarrow> False))"
| "node_ctype_equal h (VString a) v =
    (case v of VString b \<Rightarrow> map_option ts_value_boolean (ts_string_equals h a b) | _ \<Rightarrow> Some (ts_value_boolean False))"
| "node_ctype_equal h (VBoolean a) v = Some (ts_value_boolean (v = VBoolean a))"
| "node_ctype_equal h VNull v = Some (ts_value_boolean (v = VNull))"
| "node_ctype_equal h (VObject a) v = Some (ts_value_boolean (v = VObject a))"
| "node_ctype_equal h (VArray a) v = Some (ts_value_boolean (v = VArray a))"
| "node_ctype_equal h (VFunction a) v = Some (ts_value_boolean (v = VFunction a))"
| "node_ctype_equal h (VSymbol a) v = Some (ts_value_boolean (v = VSymbol a))"

subsection \<open>Closures\<close>

record closure =
  cl_function_ptr :: addr
  cl_captured_vars :: "tsvalue list"
  cl_captured_count :: int

record cls =
  cl_next :: addr
  cl_closures :: "addr \<Rightarrow> closure option"

text \<open>\<open>captures\<close> is the caller's array, \<open>None\<close> for NULL; \<^verbatim>\<open>memcpy\<close> reads \<^verbatim>\<open>count\<close> values of it.\<close>

definition ts_closure_new :: "addr \<Rightarrow> tsvalue list option \<Rightarrow> int \<Rightarrow> cls \<Rightarrow> (addr \<times> cls) option" where
  "ts_closure_new fn captures count s = do {
     vs \<leftarrow> (case captures of
        None \<Rightarrow> Some []
      | Some cs \<Rightarrow> if count > 0 then (if nat count \<le> length cs then Some (take (nat count) cs) else None) else Some []);
     Some (cl_next s, s\<lparr>cl_next := Suc (cl_next s), cl_closures := (cl_closures s)(cl_next s \<mapsto>
       \<lparr>cl_function_ptr = fn, cl_captured_vars = vs, cl_captured_count = count\<rparr>)\<rparr>) }"

definition ts_closure_call :: "addr \<Rightarrow> tsvalue list \<Rightarrow> int \<Rightarrow> tsvalue" where
  "ts_closure_call closure args arg_count = ts_value_undefined"

definition ts_closure_free :: "addr \<Rightarrow> cls \<Rightarrow> cls option" where
  "ts_closure_free p s =
    (if p = 0 then Some s
     else do { c \<leftarrow> cl_closures s p; Some (s\<lparr>cl_closures := (cl_closures s)(p := None)\<rparr>) })"

subsection \<open>Types of values\<close>

text \<open>What \<^verbatim>\<open>sizeof\<close>, \<^verbatim>\<open>alignof\<close> and \<^verbatim>\<open>signed\<close> answer is a number and a boolean; for a value that is not a
  C type the alignment is that of a C type and divides the size, and only numbers are signed.
\<close>

theorem ctype_answers_typed:
  assumes "sel_ctype s v = Some None"
  shows "\<exists>n a. node_ctype_sizeof s v = Some (VNumber (dint n)) \<and> node_ctype_alignof s v = Some (VNumber (dint a)) \<and>
    a \<in> {1, 4, 8} \<and> a dvd n \<and> 0 \<le> n \<and> n \<le> 8 \<and>
    node_ctype_get_signed s v = Some (ts_value_boolean (vtag v = TAG_NUMBER))"
  using assms by (cases v) (auto simp: ts_value_boolean_def node_ctype_sizeof_def node_ctype_alignof_def node_ctype_get_signed_def)

lemma ctype_answers_typed_witness:
  "\<exists>n a. node_ctype_sizeof \<lparr>ct_heap = empty_heap, ct_types = Map.empty\<rparr> (VArray 3) = Some (VNumber (dint n)) \<and>
    node_ctype_alignof \<lparr>ct_heap = empty_heap, ct_types = Map.empty\<rparr> (VArray 3) = Some (VNumber (dint a)) \<and>
    a \<in> {1, 4, 8} \<and> a dvd n \<and> 0 \<le> n \<and> n \<le> 8 \<and>
    node_ctype_get_signed \<lparr>ct_heap = empty_heap, ct_types = Map.empty\<rparr> (VArray 3) = Some (ts_value_boolean (vtag (VArray 3) = TAG_NUMBER))"
  by (rule ctype_answers_typed) (simp add: sel_ctype_def)

text \<open>A C type answers with what it was made of.\<close>

lemma ctype_made:
  assumes "node_ctype_new_ctype name sz alignment isSigned s = Some (v, s')" "d_to_int sz = Some n" "d_to_int alignment = Some a"
    and "heap_ok (ct_heap s)"
  shows "node_ctype_sizeof s' v = Some (VNumber (dint n))" "node_ctype_alignof s' v = Some (VNumber (dint a))"
    "node_ctype_get_name s' v = Some (VString name, s')" "node_ctype_get_signed s' v = Some (VBoolean isSigned)"
  using assms
  by (auto simp: node_ctype_new_ctype_def node_ctype_sizeof_def node_ctype_alignof_def node_ctype_get_name_def node_ctype_get_signed_def
      sel_ctype_def heap_ok_def Let_def)

end
