(* ===== verification/Ts_Readline.thy ===== *)
theory Ts_Readline
  imports Ts_Objmap Ts_Builtins Ts_Console
begin

text \<open>
  \<^verbatim>\<open>runtime/src/builtins/node_readline.c\<close>: an interface object reads lines from the standard input,
  prints prompts on the standard output and calls the functions it was given. The state is the
  store, what is left of the input and what was printed; \<open>rl_user\<close> is whatever the functions of the
  program keep, who may do anything to the state.
\<close>

record 'u rls =
  rl_heap :: heap
  rl_in :: string
  rl_out :: string
  rl_user :: 'u

type_synonym 'u rl_code = "addr \<Rightarrow> tsvalue list \<Rightarrow> 'u rls \<Rightarrow> (tsvalue \<times> 'u rls) option"

definition rl_as_map :: "tsvalue \<Rightarrow> addr" where
  "rl_as_map v = (case v of VObject p \<Rightarrow> p | _ \<Rightarrow> 0)"

definition is_rl :: "heap \<Rightarrow> tsvalue \<Rightarrow> bool option" where
  "is_rl h v =
    (if rl_as_map v = 0 then Some False
     else do {
       t \<leftarrow> map_get h (rl_as_map v) ''_type'';
       case t of
         VString p \<Rightarrow> if p \<noteq> 0 then do { s \<leftarrow> str_data h p; Some (cstr s = ''ReadlineInterface'') } else Some False
       | _ \<Rightarrow> Some False })"

definition rl_call :: "'u rl_code \<Rightarrow> tsvalue \<Rightarrow> tsvalue list \<Rightarrow> 'u rls \<Rightarrow> 'u rls option" where
  "rl_call call cb args s = (case cb of
     VFunction f \<Rightarrow> if f \<noteq> 0 then map_option snd (call f args s) else Some s
   | _ \<Rightarrow> Some s)"

text \<open>The loop of \<^verbatim>\<open>trim_crlf\<close>, from the end.\<close>

definition trim_crlf :: "string \<Rightarrow> string" where
  "trim_crlf s = rev (dropWhile (\<lambda>c. c = NL \<or> c = CR) (rev (cstr s)))"

definition read_line_stdin :: "'u rls \<Rightarrow> (bool \<times> addr \<times> 'u rls) option" where
  "read_line_stdin s =
    (if rl_in s = [] then do { (p, h) \<leftarrow> ts_string_new (rl_heap s) []; Some (True, p, s\<lparr>rl_heap := h\<rparr>) }
     else (let (l, r) = fgets 4095 (rl_in s) in do {
       (p, h) \<leftarrow> ts_string_new (rl_heap s) (trim_crlf l);
       Some (False, p, s\<lparr>rl_heap := h, rl_in := r\<rparr>) }))"

definition emit_line :: "'u rl_code \<Rightarrow> addr \<Rightarrow> addr \<Rightarrow> 'u rls \<Rightarrow> 'u rls option" where
  "emit_line call p line s = do { cb \<leftarrow> map_get (rl_heap s) p ''_line_cb''; rl_call call cb [VString line] s }"

definition emit_close :: "'u rl_code \<Rightarrow> addr \<Rightarrow> 'u rls \<Rightarrow> 'u rls option" where
  "emit_close call p s = do { cb \<leftarrow> map_get (rl_heap s) p ''_close_cb''; rl_call call cb [] s }"

definition set_prop :: "addr \<Rightarrow> string \<Rightarrow> tsvalue \<Rightarrow> 'u rls \<Rightarrow> 'u rls option" where
  "set_prop p k v s = do { h \<leftarrow> map_set (rl_heap s) p k v; Some (s\<lparr>rl_heap := h\<rparr>) }"

definition rl_closed :: "addr \<Rightarrow> 'u rls \<Rightarrow> bool option" where
  "rl_closed p s = do { v \<leftarrow> map_get (rl_heap s) p ''_closed''; ts_to_boolean (rl_heap s) v }"

definition node_readline_createInterface :: "tsvalue \<Rightarrow> 'u rls \<Rightarrow> (tsvalue \<times> 'u rls) option" where
  "node_readline_createInterface options s = do {
     let (rl, h) = new_map (rl_heap s);
     (t, h1) \<leftarrow> new_text h ''ReadlineInterface'';
     h2 \<leftarrow> map_set h1 rl ''_type'' t;
     (p, h3) \<leftarrow> new_text h2 ''> '';
     h4 \<leftarrow> map_set h3 rl ''_prompt'' p;
     h5 \<leftarrow> map_set h4 rl ''_closed'' (ts_value_boolean False);
     h6 \<leftarrow> map_set h5 rl ''_line_cb'' ts_value_null;
     h7 \<leftarrow> map_set h6 rl ''_close_cb'' ts_value_null;
     Some (VObject rl, s\<lparr>rl_heap := h7\<rparr>) }"

definition node_readline_setPrompt :: "tsvalue \<Rightarrow> tsvalue \<Rightarrow> 'u rls \<Rightarrow> (tsvalue \<times> 'u rls) option" where
  "node_readline_setPrompt rl prompt s = do {
     ok \<leftarrow> is_rl (rl_heap s) rl;
     if \<not> ok then Some (rl, s)
     else do {
       (p, h1) \<leftarrow> ts_to_string (rl_heap s) prompt;
       (v, h2) \<leftarrow> (if p \<noteq> 0 then Some (VString p, h1) else new_text h1 []);
       h3 \<leftarrow> map_set h2 (rl_as_map rl) ''_prompt'' v;
       Some (rl, s\<lparr>rl_heap := h3\<rparr>) } }"

definition node_readline_getPrompt :: "tsvalue \<Rightarrow> 'u rls \<Rightarrow> (tsvalue \<times> 'u rls) option" where
  "node_readline_getPrompt rl s = do {
     ok \<leftarrow> is_rl (rl_heap s) rl;
     v \<leftarrow> (if \<not> ok then Some VNull else map_get (rl_heap s) (rl_as_map rl) ''_prompt'');
     if ok \<and> vtag v = TAG_STRING then Some (v, s)
     else do { (t, h) \<leftarrow> new_text (rl_heap s) (if ok then ''> '' else []); Some (t, s\<lparr>rl_heap := h\<rparr>) } }"

text \<open>\<^verbatim>\<open>fputs\<close> of a text, or of the second argument when there is none.\<close>

definition put_text :: "tsvalue \<Rightarrow> string \<Rightarrow> 'u rls \<Rightarrow> 'u rls option" where
  "put_text v otherwise s = do {
     (t, h) \<leftarrow> text_or_null (rl_heap s) v;
     Some (s\<lparr>rl_heap := h, rl_out := rl_out s @ (case t of Some x \<Rightarrow> cstr x | None \<Rightarrow> otherwise)\<rparr>) }"

definition node_readline_prompt :: "tsvalue \<Rightarrow> 'u rls \<Rightarrow> (tsvalue \<times> 'u rls) option" where
  "node_readline_prompt rl s = do {
     ok \<leftarrow> is_rl (rl_heap s) rl;
     if \<not> ok then Some (ts_value_undefined, s)
     else do {
       closed \<leftarrow> rl_closed (rl_as_map rl) s;
       if closed then Some (ts_value_undefined, s)
       else do {
         v \<leftarrow> map_get (rl_heap s) (rl_as_map rl) ''_prompt'';
         s1 \<leftarrow> put_text v ''> '' s;
         Some (ts_value_undefined, s1) } } }"

definition node_readline_question :: "'u rl_code \<Rightarrow> tsvalue \<Rightarrow> tsvalue \<Rightarrow> tsvalue \<Rightarrow> 'u rls \<Rightarrow> (tsvalue \<times> 'u rls) option" where
  "node_readline_question call rl query callback s = do {
     ok \<leftarrow> is_rl (rl_heap s) rl;
     if \<not> ok then Some (ts_value_undefined, s)
     else do {
       closed \<leftarrow> rl_closed (rl_as_map rl) s;
       if closed then Some (ts_value_undefined, s)
       else do {
         s1 \<leftarrow> put_text query [] s;
         (eof, line, s2) \<leftarrow> read_line_stdin s1;
         s3 \<leftarrow> emit_line call (rl_as_map rl) line s2;
         s4 \<leftarrow> rl_call call callback [VString line] s3;
         s5 \<leftarrow> (if eof then do {
              t \<leftarrow> set_prop (rl_as_map rl) ''_closed'' (ts_value_boolean True) s4;
              emit_close call (rl_as_map rl) t }
            else Some s4);
         Some (ts_value_undefined, s5) } } }"

definition node_readline_close :: "'u rl_code \<Rightarrow> tsvalue \<Rightarrow> 'u rls \<Rightarrow> (tsvalue \<times> 'u rls) option" where
  "node_readline_close call rl s = do {
     ok \<leftarrow> is_rl (rl_heap s) rl;
     if \<not> ok then Some (ts_value_undefined, s)
     else do {
       closed \<leftarrow> rl_closed (rl_as_map rl) s;
       if closed then Some (ts_value_undefined, s)
       else do {
         s1 \<leftarrow> set_prop (rl_as_map rl) ''_closed'' (ts_value_boolean True) s;
         s2 \<leftarrow> emit_close call (rl_as_map rl) s1;
         Some (ts_value_undefined, s2) } } }"

definition node_readline_on :: "'u rl_code \<Rightarrow> tsvalue \<Rightarrow> tsvalue \<Rightarrow> tsvalue \<Rightarrow> 'u rls \<Rightarrow> (tsvalue \<times> 'u rls) option" where
  "node_readline_on call rl event callback s = do {
     ok \<leftarrow> is_rl (rl_heap s) rl;
     if \<not> ok then Some (rl, s)
     else do {
       (ev, h) \<leftarrow> text_or_null (rl_heap s) event;
       let s1 = s\<lparr>rl_heap := h\<rparr>;
       case ev of
         None \<Rightarrow> Some (rl, s1)
       | Some e \<Rightarrow>
           if cstr e = ''line'' then do { s2 \<leftarrow> set_prop (rl_as_map rl) ''_line_cb'' callback s1; Some (rl, s2) }
           else if cstr e = ''close'' then do {
             s2 \<leftarrow> set_prop (rl_as_map rl) ''_close_cb'' callback s1;
             closed \<leftarrow> rl_closed (rl_as_map rl) s2;
             s3 \<leftarrow> (if closed then rl_call call callback [] s2 else Some s2);
             Some (rl, s3) }
           else Some (rl, s1) } }"

definition node_readline_write :: "tsvalue \<Rightarrow> tsvalue \<Rightarrow> 'u rls \<Rightarrow> (tsvalue \<times> 'u rls) option" where
  "node_readline_write rl data s = do { s1 \<leftarrow> put_text data [] s; Some (ts_value_undefined, s1) }"

definition node_readline_pause :: "tsvalue \<Rightarrow> 'u rls \<Rightarrow> tsvalue \<times> 'u rls" where
  "node_readline_pause rl s = (ts_value_undefined, s)"

definition node_readline_resume :: "tsvalue \<Rightarrow> 'u rls \<Rightarrow> tsvalue \<times> 'u rls" where
  "node_readline_resume rl s = (ts_value_undefined, s)"

definition int_of :: "'u rls \<Rightarrow> tsvalue \<Rightarrow> int option" where
  "int_of s v = do { d \<leftarrow> ts_to_number (rl_heap s) v; d_to_int d }"

definition rl_puts :: "string \<Rightarrow> 'u rls \<Rightarrow> 'u rls" where
  "rl_puts t s = s\<lparr>rl_out := rl_out s @ t\<rparr>"

definition CSI :: string where
  "CSI = [ESC, CHR ''['']"

definition node_readline_clearLine :: "tsvalue \<Rightarrow> tsvalue \<Rightarrow> 'u rls \<Rightarrow> 'u rls option" where
  "node_readline_clearLine stream dir s = do {
     d \<leftarrow> int_of s dir;
     Some (rl_puts (if d = 0 then CR # CSI @ ''2K'' else if d < 0 then CSI @ ''1K'' else CSI @ ''0K'') s) }"

definition node_readline_cursorTo :: "tsvalue \<Rightarrow> tsvalue \<Rightarrow> tsvalue \<Rightarrow> 'u rls \<Rightarrow> 'u rls option" where
  "node_readline_cursorTo stream x y s = do {
     c \<leftarrow> int_of s x;
     col \<leftarrow> ck32 (c + 1);
     row \<leftarrow> (if vtag y = TAG_NULL then Some (- 1) else do { r \<leftarrow> int_of s y; ck32 (r + 1) });
     Some (rl_puts (if row > 0 then CSI @ int_str row @ '';'' @ int_str col @ ''H'' else CSI @ int_str col @ ''G'') s) }"

definition node_readline_moveCursor :: "tsvalue \<Rightarrow> tsvalue \<Rightarrow> tsvalue \<Rightarrow> 'u rls \<Rightarrow> 'u rls option" where
  "node_readline_moveCursor stream dx dy s = do {
     x \<leftarrow> int_of s dx;
     y \<leftarrow> int_of s dy;
     up \<leftarrow> (if y < 0 then do { n \<leftarrow> ck32 (- y); Some (CSI @ int_str n @ ''A'') } else Some (if y > 0 then CSI @ int_str y @ ''B'' else []));
     left \<leftarrow> (if x < 0 then do { n \<leftarrow> ck32 (- x); Some (CSI @ int_str n @ ''D'') } else Some (if x > 0 then CSI @ int_str x @ ''C'' else []));
     Some (rl_puts (up @ left) s) }"

subsection \<open>A conversation\<close>

definition interface :: "'u rls \<Rightarrow> addr \<Rightarrow> bool \<Rightarrow> tsvalue \<Rightarrow> tsvalue \<Rightarrow> bool" where
  "interface s p c lcb ccb \<longleftrightarrow> heap_ok (rl_heap s) \<and> p \<noteq> 0 \<and> (\<exists>f t. map_at (rl_heap s) p f \<and> card (dom f) < HM_LIMIT \<and>
     f ''_type'' = Some (VString t) \<and> str_at (rl_heap s) t ''ReadlineInterface'' \<and> f ''_closed'' = Some (ts_value_boolean c) \<and>
     f ''_line_cb'' = Some lcb \<and> f ''_close_cb'' = Some ccb)"

lemma interface_reads:
  assumes "interface s p c lcb ccb"
  shows "is_rl (rl_heap s) (VObject p) = Some True" "rl_as_map (VObject p) = p" "rl_closed p s = Some c"
    "emit_line call p line s = rl_call call lcb [VString line] s" "emit_close call p s = rl_call call ccb [] s"
  using assms
  by (auto simp: interface_def is_rl_def rl_as_map_def rl_closed_def emit_line_def emit_close_def map_get_at prop_of_def str_at_nonnull
      cstr_id ts_to_boolean_def ts_value_boolean_def)

lemma interface_other: "interface (s\<lparr>rl_in := i, rl_out := out\<rparr>) p c l k = interface s p c l k"
  "interface (s\<lparr>rl_user := u\<rparr>) p c l k = interface s p c l k" "interface (s\<lparr>rl_out := out\<rparr>) p c l k = interface s p c l k"
  "interface (s\<lparr>rl_in := i\<rparr>) p c l k = interface s p c l k"
  by (simp_all add: interface_def)

lemma interface_ext:
  assumes "interface s p c l k" "heap_ext (rl_heap s) h" "heap_ok h"
  shows "interface (s\<lparr>rl_heap := h\<rparr>) p c l k"
  using assms map_at_ext [OF assms(2)] str_at_ext [OF assms(2)] by (fastforce simp: interface_def)

lemma interface_close:
  assumes "interface s p c l k"
  shows "\<exists>h. set_prop p ''_closed'' (ts_value_boolean True) s = Some (s\<lparr>rl_heap := h\<rparr>) \<and> interface (s\<lparr>rl_heap := h\<rparr>) p True l k \<and>
    strs h = strs (rl_heap s)"
proof -
  obtain f t where f: "heap_ok (rl_heap s)" "p \<noteq> 0" "map_at (rl_heap s) p f" "card (dom f) < HM_LIMIT"
     "f ''_type'' = Some (VString t)" "str_at (rl_heap s) t ''ReadlineInterface''" "f ''_closed'' = Some (ts_value_boolean c)"
     "f ''_line_cb'' = Some l" "f ''_close_cb'' = Some k"
    using assms by (auto simp: interface_def)
  obtain h where h: "map_set (rl_heap s) p ''_closed'' (ts_value_boolean True) = Some h" "map_at h p (f(''_closed'' \<mapsto> ts_value_boolean True))"
    "heap_ok h" "strs h = strs (rl_heap s)"
    using map_set_step [OF f(3,1,4)] by blast
  have "insert ''_closed'' (dom f) = dom f" using f(7) by auto
  then have "card (dom (f(''_closed'' \<mapsto> ts_value_boolean True))) < HM_LIMIT" using f(4) by simp
  with h f show ?thesis
    by (intro exI [of _ h]) (auto simp: set_prop_def interface_def str_at_def intro!: exI [of _ "f(''_closed'' \<mapsto> ts_value_boolean True)"] exI [of _ t])
qed

text \<open>Functions that keep a record of their calls.\<close>

definition logging :: "(addr \<times> tsvalue list) list rl_code" where
  "logging f args s = Some (VNull, s\<lparr>rl_user := rl_user s @ [(f, args)]\<rparr>)"

lemma rl_fgets_line:
  "NL \<notin> set l \<Longrightarrow> length l < n \<Longrightarrow> fgets n (l @ NL # r) = (l @ [NL], r)"
proof (induction l arbitrary: n)
  case Nil
  then show ?case by (cases n) auto
next
  case (Cons c l)
  then show ?case by (cases n) auto
qed

lemma trim_crlf_line: "NUL \<notin> set l \<Longrightarrow> NL \<notin> set l \<Longrightarrow> CR \<notin> set l \<Longrightarrow> trim_crlf (l @ [NL]) = l"
proof -
  assume l: "NUL \<notin> set l" "NL \<notin> set l" "CR \<notin> set l"
  then have "cstr (l @ [NL]) = l @ [NL]" by (simp add: cstr_id)
  moreover have "dropWhile (\<lambda>c. c = NL \<or> c = CR) (rev l) = rev l" using l by (intro dropWhile_eq_self_iff [THEN iffD2]) (metis hd_in_set set_rev)
  ultimately show "trim_crlf (l @ [NL]) = l" by (simp add: trim_crlf_def)
qed

text \<open>A question prints its text, takes one line of the input without its line end, and hands it first
  to the line listener and then to the callback.
\<close>

theorem question_exchange:
  assumes "interface s p False (VFunction lf) ccb" "lf \<noteq> 0" "cf \<noteq> 0"
    and "str_at (rl_heap s) qp q" "NUL \<notin> set q" "rl_in s = l @ NL # rest" "{NUL, NL, CR} \<inter> set l = {}" "length l < 4095"
  shows "\<exists>s' a. node_readline_question logging (VObject p) (VString qp) (VFunction cf) s = Some (VNull, s') \<and>
    interface s' p False (VFunction lf) ccb \<and> rl_in s' = rest \<and> rl_out s' = rl_out s @ q \<and>
    rl_user s' = rl_user s @ [(lf, [VString a]), (cf, [VString a])] \<and> str_at (rl_heap s') a l"
proof -
  have ok: "heap_ok (rl_heap s)" using assms(1) by (simp add: interface_def)
  have l: "NUL \<notin> set l" "NL \<notin> set l" "CR \<notin> set l" using assms(7) by auto
  let ?h = "snd (new_str (rl_heap s) l)"
  let ?s1 = "s\<lparr>rl_out := rl_out s @ q\<rparr>" and ?s2 = "s\<lparr>rl_out := rl_out s @ q, rl_heap := ?h, rl_in := rest\<rparr>"
  have 1: "put_text (VString qp) [] s = Some ?s1" using assms(4,5) by (simp add: put_text_def text_or_null_string cstr_id)
  have 2: "read_line_stdin ?s1 = Some (False, nxt (rl_heap s), ?s2)"
    using assms(6,8) l by (simp add: read_line_stdin_def rl_fgets_line trim_crlf_line ts_string_new_eq int32_max_def) (simp add: new_str_def)
  have i: "interface (s\<lparr>rl_heap := ?h\<rparr>) p False (VFunction lf) ccb"
    using ok by (intro interface_ext [OF assms(1)]) (simp_all add: heap_ext_new heap_simps)
  then have i2: "interface (?s2\<lparr>rl_user := u\<rparr>) p False (VFunction lf) ccb" "interface ?s2 p False (VFunction lf) ccb" for u
    by (simp_all add: interface_def)
  show ?thesis
    using interface_reads(1-3) [OF assms(1)] interface_reads(4) [OF i2(2)] 1 2 i2(1) assms(2,3) ok
    by (simp add: node_readline_question_def rl_call_def logging_def ts_value_undefined_def str_at_new)
qed

text \<open>At the end of the input the question is answered with an empty text and the interface closes:
  the close listener runs once, and from then on prompts, questions and closing have no effect.
\<close>

theorem question_end_of_input:
  assumes "interface s p False (VFunction lf) (VFunction kf)" "lf \<noteq> 0" "cf \<noteq> 0" "kf \<noteq> 0"
    and "str_at (rl_heap s) qp q" "NUL \<notin> set q" "rl_in s = []"
  shows "\<exists>s' a. node_readline_question logging (VObject p) (VString qp) (VFunction cf) s = Some (VNull, s') \<and>
    rl_out s' = rl_out s @ q \<and> rl_user s' = rl_user s @ [(lf, [VString a]), (cf, [VString a]), (kf, [])] \<and> str_at (rl_heap s') a [] \<and>
    node_readline_prompt (VObject p) s' = Some (VNull, s') \<and> node_readline_close logging (VObject p) s' = Some (VNull, s') \<and>
    (\<forall>call query cb. node_readline_question call (VObject p) query cb s' = Some (VNull, s'))"
proof -
  have ok: "heap_ok (rl_heap s)" using assms(1) by (simp add: interface_def)
  let ?h = "snd (new_str (rl_heap s) [])"
  let ?a = "nxt (rl_heap s)"
  let ?s1 = "s\<lparr>rl_out := rl_out s @ q\<rparr>" and ?s2 = "s\<lparr>rl_out := rl_out s @ q, rl_heap := ?h\<rparr>"
  let ?s4 = "?s2\<lparr>rl_user := rl_user s @ [(lf, [VString ?a]), (cf, [VString ?a])]\<rparr>"
  have 1: "put_text (VString qp) [] s = Some ?s1" using assms(5,6) by (simp add: put_text_def text_or_null_string cstr_id)
  have 2: "read_line_stdin ?s1 = Some (True, ?a, ?s2)"
    using assms(7) by (simp add: read_line_stdin_def) (simp add: new_str_def)
  have i: "interface (s\<lparr>rl_heap := ?h\<rparr>) p False (VFunction lf) (VFunction kf)"
    using ok by (intro interface_ext [OF assms(1)]) (simp_all add: heap_ext_new heap_simps)
  then have i2: "interface ?s4 p False (VFunction lf) (VFunction kf)" "interface ?s2 p False (VFunction lf) (VFunction kf)"
    by (simp_all add: interface_def)
  obtain h where h: "set_prop p ''_closed'' (ts_value_boolean True) ?s4 = Some (?s4\<lparr>rl_heap := h\<rparr>)"
    "interface (?s4\<lparr>rl_heap := h\<rparr>) p True (VFunction lf) (VFunction kf)" "strs h = strs (rl_heap ?s4)"
    using interface_close [OF i2(1)] by blast
  let ?s5 = "?s4\<lparr>rl_heap := h, rl_user := rl_user ?s4 @ [(kf, [])]\<rparr>"
  have i5: "interface ?s5 p True (VFunction lf) (VFunction kf)" using h(2) by (simp add: interface_def)
  have "str_at (rl_heap ?s5) ?a []" using h(3) ok str_at_new [of "rl_heap s" "[]"] by (simp add: str_at_def)
  moreover have "node_readline_question logging (VObject p) (VString qp) (VFunction cf) s = Some (VNull, ?s5)"
    using interface_reads(1-3) [OF assms(1)] interface_reads(4) [OF i2(2)] interface_reads(5) [OF h(2)] 1 2 h(1) assms(2-4)
    by (simp add: node_readline_question_def rl_call_def logging_def ts_value_undefined_def)
  moreover have "node_readline_prompt (VObject p) ?s5 = Some (VNull, ?s5)" "node_readline_close logging (VObject p) ?s5 = Some (VNull, ?s5)"
    "node_readline_question call (VObject p) query cb ?s5 = Some (VNull, ?s5)" for call query cb
    using interface_reads(1-3) [OF i5]
    by (simp_all add: node_readline_prompt_def node_readline_close_def node_readline_question_def ts_value_undefined_def)
  ultimately show ?thesis by (intro exI [of _ ?s5] exI [of _ ?a]) simp
qed

text \<open>A callback that closes its interface, as the last line of a program usually does.\<close>

definition closing :: "addr \<Rightarrow> addr \<Rightarrow> (addr \<times> tsvalue list) list rl_code" where
  "closing p cf f args s = (if f = cf then node_readline_close logging (VObject p) s else logging f args s)"

text \<open>When the input ends with the question that the callback answers by closing, the close listener runs twice.\<close>

theorem close_listener_twice:
  assumes "interface s p False VNull (VFunction kf)" "cf \<noteq> 0" "kf \<noteq> 0" "cf \<noteq> kf"
    and "str_at (rl_heap s) qp q" "NUL \<notin> set q" "rl_in s = []"
  shows "\<exists>s'. node_readline_question (closing p cf) (VObject p) (VString qp) (VFunction cf) s = Some (VNull, s') \<and>
    rl_user s' = rl_user s @ [(kf, []), (kf, [])]"
proof -
  have ok: "heap_ok (rl_heap s)" using assms(1) by (simp add: interface_def)
  let ?h = "snd (new_str (rl_heap s) [])"
  let ?s1 = "s\<lparr>rl_out := rl_out s @ q\<rparr>" and ?s2 = "s\<lparr>rl_out := rl_out s @ q, rl_heap := ?h\<rparr>"
  have 1: "put_text (VString qp) [] s = Some ?s1" using assms(5,6) by (simp add: put_text_def text_or_null_string cstr_id)
  have 2: "read_line_stdin ?s1 = Some (True, nxt (rl_heap s), ?s2)"
    using assms(7) by (simp add: read_line_stdin_def) (simp add: new_str_def)
  have i: "interface (s\<lparr>rl_heap := ?h\<rparr>) p False VNull (VFunction kf)"
    using ok by (intro interface_ext [OF assms(1)]) (simp_all add: heap_ext_new heap_simps)
  then have i2: "interface ?s2 p False VNull (VFunction kf)" by (simp add: interface_def)
  obtain h where h: "set_prop p ''_closed'' (ts_value_boolean True) ?s2 = Some (?s2\<lparr>rl_heap := h\<rparr>)"
    "interface (?s2\<lparr>rl_heap := h\<rparr>) p True VNull (VFunction kf)" using interface_close [OF i2] by blast
  let ?s4 = "?s2\<lparr>rl_heap := h, rl_user := rl_user s @ [(kf, [])]\<rparr>"
  have i4: "interface ?s4 p True VNull (VFunction kf)" using h(2) by (simp add: interface_def)
  have c: "node_readline_close logging (VObject p) ?s2 = Some (VNull, ?s4)"
    using interface_reads(1-3) [OF i2] interface_reads(5) [OF h(2)] h(1) assms(3)
    by (simp add: node_readline_close_def rl_call_def logging_def ts_value_undefined_def)
  obtain h' where h': "set_prop p ''_closed'' (ts_value_boolean True) ?s4 = Some (?s4\<lparr>rl_heap := h'\<rparr>)"
    "interface (?s4\<lparr>rl_heap := h'\<rparr>) p True VNull (VFunction kf)" using interface_close [OF i4] by blast
  show ?thesis
    using interface_reads(1-3) [OF assms(1)] interface_reads(4) [OF i2] interface_reads(5) [OF h'(2)] 1 2 c h'(1) assms(2-4)
    by (simp add: node_readline_question_def rl_call_def closing_def logging_def ts_value_undefined_def)
qed

lemma demo_interface:
  "\<exists>s :: (addr \<times> tsvalue list) list rls. interface s 3 False l k \<and> str_at (rl_heap s) 1 ''name? '' \<and> rl_in s = i"
proof -
  let ?kvs = "[(''_type'', VString 2), (''_prompt'', VString 1), (''_closed'', ts_value_boolean False), (''_line_cb'', l), (''_close_cb'', k)]"
  obtain m :: "tsvalue hashmap" where m: "hm_inv m" "hm_lookup m = map_of (rev ?kvs)"
    using hm.update_all [OF hm_inv_new, of ?kvs] by (fastforce simp: HM_LIMIT_def)
  define h where "h = \<lparr>nxt = 4, strs = [1 \<mapsto> \<lparr>s_refcount = 1, s_data = ''name? ''\<rparr>, 2 \<mapsto> \<lparr>s_refcount = 1, s_data = ''ReadlineInterface''\<rparr>],
    arrs = Map.empty, objs = [3 \<mapsto> OMap m]\<rparr>"
  have "card (dom (hm_lookup m)) \<le> 5"
    using card_image_le [of "set (rev ?kvs)" fst] card_length [of "rev ?kvs"] unfolding m(2) dom_map_of_conv_image_fst by simp
  then have "card (dom (hm_lookup m)) < HM_LIMIT" by (simp add: HM_LIMIT_def)
  then have "interface \<lparr>rl_heap = h, rl_in = i, rl_out = [], rl_user = []\<rparr> 3 False l k"
    using m by (auto simp: interface_def map_at_def h_def heap_ok_def str_at_def intro!: exI [of _ "hm_lookup m"])
  then show ?thesis
    by (intro exI [of _ "\<lparr>rl_heap = h, rl_in = i, rl_out = [], rl_user = []\<rparr>"]) (simp add: h_def str_at_def)
qed

lemma question_exchange_witness:
  "\<exists>s s' a. node_readline_question logging (VObject 3) (VString 1) (VFunction 8) s = Some (VNull, s') \<and>
    rl_in s = ''ada'' @ [NL] @ ''x'' \<and> rl_in s' = ''x'' \<and> rl_user s' = rl_user s @ [(7, [VString a]), (8, [VString a])] \<and>
    str_at (rl_heap s') a ''ada''"
proof -
  obtain s :: "(addr \<times> tsvalue list) list rls" where s: "interface s 3 False (VFunction 7) VNull" "str_at (rl_heap s) 1 ''name? ''" "rl_in s = ''ada'' @ [NL] @ ''x''"
    using demo_interface [of "VFunction 7" VNull "''ada'' @ [NL] @ ''x''"] by blast
  from question_exchange [OF s(1) _ _ s(2), of 8 "''ada''" "''x''"] s(3) show ?thesis by simp metis
qed

lemma question_end_of_input_witness:
  "\<exists>s s' a. node_readline_question logging (VObject 3) (VString 1) (VFunction 8) s = Some (VNull, s') \<and>
    rl_user s' = rl_user s @ [(7, [VString a]), (8, [VString a]), (9, [])] \<and> node_readline_prompt (VObject 3) s' = Some (VNull, s')"
proof -
  obtain s :: "(addr \<times> tsvalue list) list rls" where s: "interface s 3 False (VFunction 7) (VFunction 9)" "str_at (rl_heap s) 1 ''name? ''" "rl_in s = []"
    using demo_interface [of "VFunction 7" "VFunction 9" "[]"] by blast
  from question_end_of_input [OF s(1) _ _ _ s(2) _ s(3), of 8] show ?thesis by simp metis
qed

lemma close_listener_twice_witness:
  "\<exists>s s'. node_readline_question (closing 3 8) (VObject 3) (VString 1) (VFunction 8) s = Some (VNull, s') \<and>
    rl_user s' = rl_user s @ [(9, []), (9, [])]"
proof -
  obtain s :: "(addr \<times> tsvalue list) list rls" where s: "interface s 3 False VNull (VFunction 9)" "str_at (rl_heap s) 1 ''name? ''" "rl_in s = []"
    using demo_interface [of VNull "VFunction 9" "[]"] by blast
  from close_listener_twice [OF s(1) _ _ _ s(2) _ s(3), of 8] show ?thesis by simp metis
qed

end
