(* ===== verification/Ts_Texts.thy ===== *)
theory Ts_Texts
  imports Ts_Objmap
begin

text \<open>
  Objects whose properties are texts, as the modules make them for headers and for the environment: one
  property is set at a time, each with a new string.
\<close>

definition set_text :: "addr \<Rightarrow> heap \<Rightarrow> string \<times> string \<Rightarrow> heap option" where
  "set_text p h kv = do { (v, h1) \<leftarrow> new_text h (snd kv); map_set h1 p (fst kv) v }"

text \<open>The same for an array of texts.\<close>

definition push_text :: "addr \<Rightarrow> heap \<Rightarrow> string \<Rightarrow> heap option" where
  "push_text p h t = do { (v, h1) \<leftarrow> new_text h t; arr_push_at h1 p v }"

subsection \<open>Objects of texts\<close>

text \<open>The object at \<open>p\<close> holds the texts \<open>g\<close> and nothing else.\<close>

definition texts_at :: "heap \<Rightarrow> addr \<Rightarrow> (string \<rightharpoonup> string) \<Rightarrow> bool" where
  "texts_at h p g \<longleftrightarrow> (\<exists>f. map_at h p f \<and> dom f = dom g \<and> (\<forall>k x. g k = Some x \<longrightarrow> (\<exists>q. f k = Some (VString q) \<and> str_at h q x)))"

lemma texts_at_new: "texts_at (snd (new_map h)) (nxt h) Map.empty"
  using map_at_new by (auto simp: texts_at_def)

lemma str_at_le: "strs h \<subseteq>\<^sub>m strs h' \<Longrightarrow> str_at h q x \<Longrightarrow> str_at h' q x"
  by (auto simp: str_at_def map_le_def dom_def)

lemma texts_at_cong: "objs h' p = objs h p \<Longrightarrow> strs h \<subseteq>\<^sub>m strs h' \<Longrightarrow> texts_at h p g \<Longrightarrow> texts_at h' p g"
  unfolding texts_at_def using map_at_cong str_at_le by (metis (no_types, lifting))

lemma set_text_ok:
  assumes "texts_at h p g" "heap_ok h" "card (dom g) < HM_LIMIT" "NUL \<notin> set v" "length v \<le> 5000"
  shows "\<exists>h'. set_text p h (k, v) = Some h' \<and> texts_at h' p (g(k \<mapsto> v)) \<and> heap_ok h' \<and> strs h \<subseteq>\<^sub>m strs h' \<and>
    (\<forall>q. q \<noteq> p \<longrightarrow> objs h' q = objs h q)"
proof -
  obtain f where f: "map_at h p f" "dom f = dom g" "\<forall>k x. g k = Some x \<longrightarrow> (\<exists>q. f k = Some (VString q) \<and> str_at h q x)"
    using assms(1) by (auto simp: texts_at_def)
  from new_text_step [OF assms(4,5,2)] obtain q h1 where h1: "new_text h v = Some (VString q, h1)" "heap_ok h1"
    "str_at h1 q v" "heap_ext h h1" "objs h1 = objs h" by blast
  have m1: "map_at h1 p f" using f(1) h1(5) by (simp add: map_at_def)
  from map_set_step [OF m1 h1(2), of k "VString q"] assms(3) f(2) obtain h2 where h2: "map_set h1 p k (VString q) = Some h2"
    "map_at h2 p (f(k \<mapsto> VString q))" "heap_ok h2" "strs h2 = strs h1" "\<forall>q. q \<noteq> p \<longrightarrow> objs h2 q = objs h1 q" by auto
  have le: "strs h \<subseteq>\<^sub>m strs h2" using h1(4) h2(4) by (simp add: heap_ext_def)
  have v: "str_at h2 q v" using h1(3) str_at_cong [OF h2(4)] by simp
  have "\<exists>q. f j = Some (VString q) \<and> str_at h2 q x" if "g j = Some x" for j x
  proof -
    from f(3) that obtain q where "f j = Some (VString q)" "str_at h q x" by blast
    with str_at_le [OF le] show ?thesis by (intro exI [of _ q]) simp
  qed
  with v have "texts_at h2 p (g(k \<mapsto> v))"
    unfolding texts_at_def using h2(2) f(2) by (intro exI [of _ "f(k \<mapsto> VString q)"]) auto
  then show ?thesis using h1(1,5) h2 le by (auto simp: set_text_def)
qed

lemma set_texts_ok:
  assumes "texts_at h p g" "heap_ok h" "card (dom g) + length kvs \<le> HM_LIMIT" "\<forall>(k, v) \<in> set kvs. NUL \<notin> set v \<and> length v \<le> 5000"
  shows "\<exists>h'. foldo (set_text p) h kvs = Some h' \<and> texts_at h' p (g ++ map_of (rev kvs)) \<and> heap_ok h' \<and> strs h \<subseteq>\<^sub>m strs h' \<and>
    (\<forall>q. q \<noteq> p \<longrightarrow> objs h' q = objs h q)"
  using assms
proof (induction kvs arbitrary: h g)
  case (Cons kv kvs)
  obtain k v where kv: "kv = (k, v)" by (cases kv)
  from set_text_ok [OF Cons.prems(1,2), of v k] Cons.prems kv obtain h1 where h1: "set_text p h (k, v) = Some h1"
    "texts_at h1 p (g(k \<mapsto> v))" "heap_ok h1" "strs h \<subseteq>\<^sub>m strs h1" "\<forall>q. q \<noteq> p \<longrightarrow> objs h1 q = objs h q" by auto
  have "finite (dom g)" using Cons.prems(1) by (auto simp: texts_at_def map_at_def hm_lookup_def finite_dom_map_of dest!: sym [of _ "dom g"])
  then have "card (dom (g(k \<mapsto> v))) + length kvs \<le> HM_LIMIT" using Cons.prems(3) by (simp add: card_insert_if)
  moreover have "\<forall>(k, v) \<in> set kvs. NUL \<notin> set v \<and> length v \<le> 5000" using Cons.prems(4) by simp
  ultimately obtain h2 where h2: "foldo (set_text p) h1 kvs = Some h2"
    "texts_at h2 p (g(k \<mapsto> v) ++ map_of (rev kvs))" "heap_ok h2" "strs h1 \<subseteq>\<^sub>m strs h2" "\<forall>q. q \<noteq> p \<longrightarrow> objs h2 q = objs h1 q"
    using Cons.IH [OF h1(2,3)] by blast
  have "g(k \<mapsto> v) ++ map_of (rev kvs) = g ++ map_of (rev (kv # kvs))"
    by (simp add: kv map_add_def fun_eq_iff split: option.split)
  with h2(2) have "texts_at h2 p (g ++ map_of (rev (kv # kvs)))" by (simp only:)
  moreover have "foldo (set_text p) h (kv # kvs) = Some h2" using h1(1) h2(1) kv by simp
  moreover have "strs h \<subseteq>\<^sub>m strs h2" using h1(4) h2(4) by (rule map_le_trans)
  moreover have "\<forall>q. q \<noteq> p \<longrightarrow> objs h2 q = objs h q" using h1(5) h2(5) by (metis (full_types))
  ultimately show ?case using h2(3) by blast
qed simp

lemma texts_at_None: "texts_at h p g \<Longrightarrow> objs h p \<noteq> None"
  by (auto simp: texts_at_def map_at_def)

lemma texts_at_two:
  assumes "texts_at h p [a \<mapsto> x, b \<mapsto> y]" "a \<noteq> b"
  obtains q r where "map_at h p [a \<mapsto> VString q, b \<mapsto> VString r]" "str_at h q x" "str_at h r y"
proof -
  from assms obtain f where f: "map_at h p f" "dom f = dom [a \<mapsto> x, b \<mapsto> y]" and
    t: "\<forall>k z. [a \<mapsto> x, b \<mapsto> y] k = Some z \<longrightarrow> (\<exists>q. f k = Some (VString q) \<and> str_at h q z)" unfolding texts_at_def by blast
  from t assms(2) obtain q r where qr: "f a = Some (VString q)" "str_at h q x" "f b = Some (VString r)" "str_at h r y"
    by (metis fun_upd_apply)
  moreover have "f = [a \<mapsto> VString q, b \<mapsto> VString r]"
  proof
    fix k
    have "f k = None" if "k \<noteq> a" "k \<noteq> b" using f(2) that by (auto simp: dom_def set_eq_iff split: if_splits)
    with qr show "f k = [a \<mapsto> VString q, b \<mapsto> VString r] k" using assms(2) by auto
  qed
  ultimately show thesis using f(1) by (intro that [of q r]) auto
qed

end
