(* ===== verification/Ts_Http.thy ===== *)
theory Ts_Http
  imports Ts_Response Ts_Texts
begin

text \<open>
  The texts of \<^verbatim>\<open>runtime/src/builtins/node_http.c\<close>: reading a request into an object, and writing a
  response, whole or in chunks. The sockets are the parameter \<open>net\<close> of the WebSockets.
\<close>

subsection \<open>Requests\<close>

text \<open>One \<^verbatim>\<open>%15s\<close> of \<^verbatim>\<open>sscanf\<close>: blanks are skipped, then at most \<open>n\<close> other characters are taken.\<close>

definition scan_word :: "nat \<Rightarrow> string \<Rightarrow> string \<times> string" where
  "scan_word n s = (let s1 = dropWhile is_space s; w = take n (takeWhile (\<lambda>c. \<not> is_space c) s1) in (w, drop (length w) s1))"

definition request_line :: "string \<Rightarrow> string \<times> string" where
  "request_line buf = (let (m, r) = scan_word 15 buf; (p, r') = scan_word 255 r in (m, p))"

definition host_header :: "string \<Rightarrow> string" where
  "host_header buf =
    (case (case strstr buf ''Host:'' of None \<Rightarrow> strstr buf ''host:'' | i \<Rightarrow> i) of
       None \<Rightarrow> ''localhost''
     | Some i \<Rightarrow> take 255 (takeWhile (\<lambda>c. c \<noteq> CR \<and> c \<noteq> NL) (dropWhile (\<lambda>c. c = CHR '' '') (drop (i + 5) buf))))"

definition is_blank :: "char \<Rightarrow> bool" where
  "is_blank c \<longleftrightarrow> c = CHR '' '' \<or> c = TAB"

text \<open>
  The field of the line that \<open>line\<close> begins with, whose end is at \<open>next\<close>: the name in lower case when
  it has 1 to 127 characters, and the value without its blanks, at most 511 characters of it.
\<close>

definition header_kv :: "string \<Rightarrow> nat option \<Rightarrow> (string \<times> string) option" where
  "header_kv line next =
    (case strchr line (CHR '':'') of
       None \<Rightarrow> None
     | Some colon \<Rightarrow>
         if (case next of None \<Rightarrow> True | Some n \<Rightarrow> colon < n) \<and> 0 < colon \<and> colon < 128
         then (let rest = drop (Suc colon) line; blanks = length (takeWhile is_blank rest); vstart = drop blanks rest;
                   v = (case next of None \<Rightarrow> vstart | Some n \<Rightarrow> take (n - (Suc colon + blanks)) vstart);
                   v = rev (dropWhile is_blank (rev v))
               in Some (map to_lower_char (take colon line), take 511 v))
         else None)"

function header_lines :: "string \<Rightarrow> (string \<times> string) list" where
  "header_lines line =
    (if line = [] \<or> prefix CRLF line then []
     else (let next = strstr line CRLF; kvs = (case header_kv line next of None \<Rightarrow> [] | Some kv \<Rightarrow> [kv])
       in case next of None \<Rightarrow> kvs | Some n \<Rightarrow> kvs @ header_lines (drop (n + 2) line)))"
  by pat_completeness auto
termination by (relation "measure length") auto

declare header_lines.simps [simp del]

text \<open>The fields of the request, from the line after the first.\<close>

definition request_fields :: "string \<Rightarrow> (string \<times> string) list" where
  "request_fields buf = (case strstr buf CRLF of None \<Rightarrow> [] | Some n \<Rightarrow> header_lines (drop (n + 2) buf))"

definition http_parse_request :: "string \<Rightarrow> heap \<Rightarrow> (tsvalue \<times> heap) option" where
  "http_parse_request raw h =
    (let buf = cstr raw; (meth, path) = request_line buf; (req, h1) = new_map h in do {
       h2 \<leftarrow> set_text req h1 (''method'', meth);
       h3 \<leftarrow> set_text req h2 (''url'', path);
       let (headers, h4) = new_map h3;
       h5 \<leftarrow> set_text headers h4 (''host'', host_header buf);
       h6 \<leftarrow> foldo (set_text headers) h5 (request_fields buf);
       h7 \<leftarrow> map_set h6 req ''headers'' (VObject headers);
       Some (VObject req, h7) })"

subsection \<open>Sending\<close>

function http_send_all :: "'n net \<Rightarrow> int \<Rightarrow> 8 word list \<Rightarrow> 'n \<Rightarrow> 'n" where
  "http_send_all net fd data s =
    (if data = [] then s
     else (let (n, s1) = net_send net fd data s in if n \<le> 0 then s1 else http_send_all net fd (drop (nat n) data) s1))"
  by pat_completeness auto
termination by (relation "measure (\<lambda>(_, _, data, _). length data)") (auto simp: neq_Nil_conv)

declare http_send_all.simps [simp del]

definition send_text :: "'n net \<Rightarrow> int \<Rightarrow> string \<Rightarrow> 'n \<Rightarrow> 'n" where
  "send_text net fd t s = http_send_all net fd (map byte_of t) s"

definition http_status_text :: "int \<Rightarrow> string" where
  "http_status_text status =
    (if status = 404 then ''Not Found'' else if status = 500 then ''Internal Server Error'' else if status = 201 then ''Created''
     else if status = 204 then ''No Content'' else ''OK'')"

text \<open>
  The bytes that are sent from a buffer of \<open>cap\<close> characters that \<^verbatim>\<open>snprintf\<close> has filled with \<open>t\<close>, when
  the length sent is that of the whole text: the terminating NUL takes the last place, and beyond
  that \<^verbatim>\<open>send\<close> reads outside the buffer.
\<close>

definition printed :: "nat \<Rightarrow> string \<Rightarrow> string option" where
  "printed cap t = (if length t < cap then Some t else if length t = cap then Some (take (cap - 1) t @ [NUL]) else None)"

definition response_head :: "int \<Rightarrow> string \<Rightarrow> nat \<Rightarrow> string" where
  "response_head status ctype n =
     ''HTTP/1.1 '' @ int_str status @ '' '' @ http_status_text status @ CRLF @ ''Content-Type: '' @ ctype @ CRLF @
     ''Content-Length: '' @ dec_str n @ CRLF @ ''Connection: close'' @ CRLF @ CRLF"

definition http_respond :: "'n net \<Rightarrow> int \<Rightarrow> int \<Rightarrow> string \<Rightarrow> 8 word list \<Rightarrow> 'n \<Rightarrow> 'n option" where
  "http_respond net fd status ctype body s = do {
     header \<leftarrow> printed 1024 (response_head status (cstr ctype) (length body));
     Some (http_send_all net fd body (send_text net fd header s)) }"

text \<open>The names that the server sets itself; \<^verbatim>\<open>strcasecmp\<close>.\<close>

definition own_header :: "string \<Rightarrow> bool" where
  "own_header k \<longleftrightarrow> map lower k \<in> set (map (map lower)
     [''Content-Length'', ''Content-Type'', ''Transfer-Encoding'', ''Connection'', ''Cache-Control'', ''X-Stream-Delay-Ms''])"

text \<open>The loop over the table, with \<open>out\<close> the text so far and \<open>pos\<close> its length.\<close>

fun append_headers :: "nat \<Rightarrow> (string \<times> tsvalue) option list \<Rightarrow> string \<Rightarrow> heap \<Rightarrow> (string \<times> heap) option" where
  "append_headers cap [] out h = Some (out, h)"
| "append_headers cap (None # es) out h = append_headers cap es out h"
| "append_headers cap (Some (k, v) # es) out h =
    (if own_header (cstr k) then append_headers cap es out h
     else do {
       (t, h1) \<leftarrow> text_or_null h v;
       case t of
         None \<Rightarrow> append_headers cap es out h1
       | Some x \<Rightarrow>
           if length out + length k + length x + 8 \<ge> cap then Some (out, h1)
           else append_headers cap es (out @ cstr k @ '': '' @ cstr x @ CRLF) h1 })"

definition http_append_custom_headers :: "nat \<Rightarrow> string \<Rightarrow> addr \<Rightarrow> heap \<Rightarrow> (string \<times> heap) option" where
  "http_append_custom_headers cap out headers h =
    (if headers = 0 then Some (out, h) else do { m \<leftarrow> get_map h headers; append_headers cap (m_entries m) out h })"

text \<open>\<^verbatim>\<open>%zx\<close>.\<close>

fun hex_str :: "nat \<Rightarrow> string" where
  "hex_str n = (if n < 16 then [hex_digit n] else hex_str (n div 16) @ [hex_digit (n mod 16)])"

declare hex_str.simps [simp del]

definition http_send_chunk :: "'n net \<Rightarrow> int \<Rightarrow> 8 word list \<Rightarrow> 'n \<Rightarrow> 'n" where
  "http_send_chunk net fd data s =
     send_text net fd CRLF (http_send_all net fd data (send_text net fd (hex_str (length data) @ CRLF) s))"

text \<open>The bytes of an item of a stream; a negative length of a buffer counts as none.\<close>

definition item_bytes :: "heap \<Rightarrow> tsvalue \<Rightarrow> (8 word list \<times> heap) option" where
  "item_bytes h item = (case item of
     VString p \<Rightarrow> if p = 0 then do { (t, h1) \<leftarrow> text_or_null h item; Some (map byte_of (case t of None \<Rightarrow> [] | Some x \<Rightarrow> x), h1) }
       else do { t \<leftarrow> str_data h p; Some (map byte_of t, h) }
   | _ \<Rightarrow> do {
       b \<leftarrow> as_buffer h item;
       case b of
         Some bf \<Rightarrow> do { bs \<leftarrow> bytes_at bf 0 (if bf_length bf > 0 then bf_length bf else 0); Some (bs, h) }
       | None \<Rightarrow> do { (t, h1) \<leftarrow> text_or_null h item; Some (map byte_of (case t of None \<Rightarrow> [] | Some x \<Rightarrow> x), h1) } })"

text \<open>The loop of \<^verbatim>\<open>http_respond_chunked\<close>: what it calls besides, the timers, is a parameter.\<close>

record 'n timer_hooks =
  th_pending :: "'n wss \<Rightarrow> bool"
  th_poll :: "'n wss \<Rightarrow> 'n wss option"

definition stream_at :: "heap \<Rightarrow> addr \<Rightarrow> stream_body option" where
  "stream_at h p = do { x \<leftarrow> objs h p; case x of OStream sb \<Rightarrow> Some sb | _ \<Rightarrow> None }"

definition chunks_length :: "heap \<Rightarrow> addr \<Rightarrow> int option" where
  "chunks_length h p = (if p = 0 then Some 0 else map_option a_length (arrs h p))"

definition http_send_stream_item :: "'n net \<Rightarrow> int \<Rightarrow> addr \<Rightarrow> int \<Rightarrow> int \<Rightarrow> 'n wss \<Rightarrow> int \<Rightarrow> 'n wss option" where
  "http_send_stream_item net fd chunks delay len s i = do {
     a \<leftarrow> arrs (ws_heap s) chunks;
     item \<leftarrow> ts_array_get a i;
     (bs, h) \<leftarrow> item_bytes (ws_heap s) item;
     let n = http_send_chunk net fd bs (ws_net s);
     Some (s\<lparr>ws_heap := h, ws_net := (if delay > 0 \<and> i + 1 < len then net_sleep net n else n)\<rparr>) }"

partial_function (option) stream_loop :: "'n net \<Rightarrow> 'n timer_hooks \<Rightarrow> int \<Rightarrow> addr \<Rightarrow> int \<Rightarrow> int \<Rightarrow> 'n wss \<Rightarrow> 'n wss option" where
  "stream_loop net th fd sp delay sent s = do {
     sb \<leftarrow> stream_at (ws_heap s) sp;
     len \<leftarrow> chunks_length (ws_heap s) (sb_chunks sb);
     s1 \<leftarrow> foldo (http_send_stream_item net fd (sb_chunks sb) delay len) s [sent..len - 1];
     let sent' = max sent len;
     if th_pending th s1 then do { s2 \<leftarrow> th_poll th s1; stream_loop net th fd sp delay sent' s2 }
     else do {
       now \<leftarrow> chunks_length (ws_heap s1) (sb_chunks sb);
       if sent' \<ge> now then Some s1 else stream_loop net th fd sp delay sent' s1 } }"

text \<open>The content type in a table of headers, or the one given.\<close>

definition content_type :: "heap \<Rightarrow> addr \<Rightarrow> string \<Rightarrow> string option" where
  "content_type h headers otherwise =
    (if headers = 0 then Some otherwise
     else do {
       v \<leftarrow> map_get h headers ''Content-Type'';
       v \<leftarrow> (if vtag v \<noteq> TAG_STRING then map_get h headers ''content-type'' else Some v);
       case v of VString p \<Rightarrow> if p \<noteq> 0 then str_data h p else Some otherwise | _ \<Rightarrow> Some otherwise })"

definition status_line :: "heap \<Rightarrow> fetch_response \<Rightarrow> string option" where
  "status_line h fr = do {
     t \<leftarrow> (if f_statusText fr \<noteq> 0 then map_option cstr (str_data h (f_statusText fr)) else Some (http_status_text (f_status fr)));
     Some (''HTTP/1.1 '' @ int_str (f_status fr) @ '' '' @ t @ CRLF) }"

definition stream_head :: "string \<Rightarrow> string \<Rightarrow> string" where
  "stream_head line ctype =
    (if strstr ctype ''text/event-stream'' \<noteq> None
     then line @ ''Content-Type: text/event-stream; charset=utf-8'' @ CRLF @ ''Transfer-Encoding: chunked'' @ CRLF @
       ''Connection: keep-alive'' @ CRLF @ ''Cache-Control: no-cache, no-transform'' @ CRLF @ ''X-Accel-Buffering: no'' @ CRLF
     else line @ ''Content-Type: '' @ ctype @ CRLF @ ''Transfer-Encoding: chunked'' @ CRLF @
       ''Connection: close'' @ CRLF @ ''Cache-Control: no-cache'' @ CRLF @ ''X-Accel-Buffering: no'' @ CRLF)"

definition http_respond_chunked :: "'n net \<Rightarrow> 'n timer_hooks \<Rightarrow> int \<Rightarrow> fetch_response \<Rightarrow> 'n wss \<Rightarrow> 'n wss option" where
  "http_respond_chunked net th fd fr s = (let sp = f_stream fr in
     case objs (ws_heap s) sp of
       Some (OStream sb) \<Rightarrow> do {
         let h0 = (if sb_chunks sb \<noteq> 0 then ws_heap s
           else (let (p, h) = new_arr (ws_heap s) ts_array_new in put_obj h sp (OStream (sb\<lparr>sb_chunks := p\<rparr>))));
         ctype \<leftarrow> content_type h0 (f_headers fr) ''text/plain; charset=utf-8'';
         line \<leftarrow> status_line h0 fr;
         (out, h1) \<leftarrow> http_append_custom_headers 2048 (stream_head line (cstr ctype)) (f_headers fr) h0;
         header \<leftarrow> printed 2048 (if length out + 3 < 2048 then out @ CRLF else out);
         s1 \<leftarrow> stream_loop net th fd sp (if sb_delay sb < 0 then 0 else sb_delay sb) 0
           (s\<lparr>ws_heap := h1, ws_net := send_text net fd header (ws_net s)\<rparr>);
         Some (s1\<lparr>ws_net := send_text net fd (''0'' @ CRLF @ CRLF) (ws_net s1)\<rparr>) }
     | _ \<Rightarrow> do { n \<leftarrow> http_respond net fd (f_status fr) ''text/plain'' [] (ws_net s); Some (s\<lparr>ws_net := n\<rparr>) })"

subsection \<open>The answer of a handler\<close>

datatype reply = Whole int string "8 word list" | Chunked fetch_response

definition text_bytes :: "heap \<Rightarrow> addr \<Rightarrow> 8 word list option" where
  "text_bytes h p = map_option (map byte_of) (str_data h p)"

definition whole_buffer :: "buffer \<Rightarrow> 8 word list option" where
  "whole_buffer b = bytes_at b 0 (if bf_length b > 0 then bf_length b else 0)"

definition reply_of_response :: "(addr \<Rightarrow> bool) \<Rightarrow> heap \<Rightarrow> fetch_response \<Rightarrow> reply option" where
  "reply_of_response sock h fr = do {
     ctype \<leftarrow> content_type h (f_headers fr) ''text/plain'';
     stream \<leftarrow> (if f_stream fr \<noteq> 0 \<and> \<not> f_body_complete fr \<and> \<not> sock (f_stream fr)
        then do { x \<leftarrow> objs h (f_stream fr); Some (case x of OStream _ \<Rightarrow> True | _ \<Rightarrow> False) } else Some False);
     if stream then Some (Chunked fr)
     else do {
       body \<leftarrow> (if f_body fr \<noteq> 0 then text_bytes h (f_body fr) else Some []);
       Some (Whole (if f_status fr > 0 then f_status fr else 200) ctype body) } }"

definition reply_of_map :: "heap \<Rightarrow> addr \<Rightarrow> reply option" where
  "reply_of_map h p = do {
     bodyVal \<leftarrow> map_get h p ''body'';
     (body, ctype) \<leftarrow> (case bodyVal of
        VString q \<Rightarrow> if q \<noteq> 0 then do { bs \<leftarrow> text_bytes h q; Some (bs, ''text/plain'') } else Some ([], ''text/plain'')
      | _ \<Rightarrow> do {
          b \<leftarrow> as_buffer h bodyVal;
          case b of
            None \<Rightarrow> Some ([], ''text/plain'')
          | Some bf \<Rightarrow> do { bs \<leftarrow> whole_buffer bf; Some (bs, ''application/octet-stream'') } });
     headersVal \<leftarrow> map_get h p ''headers'';
     ctype \<leftarrow> (case headersVal of VObject hp \<Rightarrow> content_type h hp ctype | _ \<Rightarrow> Some ctype);
     Some (Whole 200 ctype body) }"

definition extract_response :: "(addr \<Rightarrow> bool) \<Rightarrow> heap \<Rightarrow> tsvalue \<Rightarrow> (reply \<times> heap) option" where
  "extract_response sock h result =
    (if result = VNull then Some (Whole 200 ''text/plain'' [], h)
     else if vtag result = TAG_STRING \<and> result \<noteq> VString 0 then
       (case result of VString p \<Rightarrow> do { bs \<leftarrow> text_bytes h p; Some (Whole 200 ''text/plain'' bs, h) } | _ \<Rightarrow> None)
     else if vtag result = TAG_OBJECT \<and> result \<noteq> VObject 0 then
       (case result of
          VObject p \<Rightarrow> do {
            x \<leftarrow> objs h p;
            r \<leftarrow> (case x of
               OBuffer b \<Rightarrow> do { bs \<leftarrow> whole_buffer b; Some (Whole 200 ''application/octet-stream'' bs) }
             | OResponse fr \<Rightarrow> reply_of_response sock h fr
             | _ \<Rightarrow> reply_of_map h p);
            Some (r, h) }
        | _ \<Rightarrow> None)
     else do {
       (t, h1) \<leftarrow> text_or_null h result;
       Some (Whole 200 ''text/plain'' (map byte_of (case t of None \<Rightarrow> [] | Some x \<Rightarrow> x)), h1) })"

definition http_handle_response :: "'n net \<Rightarrow> 'n timer_hooks \<Rightarrow> int \<Rightarrow> tsvalue \<Rightarrow> 'n wss \<Rightarrow> 'n wss option" where
  "http_handle_response net th fd result s = do {
     (r, h) \<leftarrow> extract_response (\<lambda>p. ws_socks s p \<noteq> None) (ws_heap s) result;
     let s1 = s\<lparr>ws_heap := h\<rparr>;
     case r of
       Chunked fr \<Rightarrow> http_respond_chunked net th fd fr s1
     | Whole st ctype body \<Rightarrow> do { n \<leftarrow> http_respond net fd st ctype body (ws_net s1); Some (s1\<lparr>ws_net := n\<rparr>) } }"

end
