(* ===== verification/Ts_Http_Text.thy ===== *)
theory Ts_Http_Text
  imports Ts_Http Ts_Ws_Frames
begin

text \<open>
  What the texts of \<^verbatim>\<open>runtime/src/builtins/node_http.c\<close> mean: a request that was printed is read back, a
  streamed body is decoded by the rules of HTTP to what its items hold, and where these fail.
\<close>

subsection \<open>Lines\<close>

lemma strstr_CRLF [simp]: "CR \<notin> set a \<Longrightarrow> strstr (a @ CRLF @ b) CRLF = Some (length a)"
  by (induction a) (auto simp: strstr_prefix CRLF_def)

lemma drop_CRLF [simp]: "drop (length a + 2) (a @ CRLF @ b) = b"
  by (simp add: CRLF_def)

definition rtrim :: "string \<Rightarrow> string" where
  "rtrim v = rev (dropWhile is_blank (rev v))"

lemma rtrim_id: "v = [] \<or> \<not> is_blank (last v) \<Longrightarrow> rtrim v = v"
  by (cases v rule: rev_cases) (auto simp: rtrim_def)

lemma takeWhile_blank: "v = [] \<or> \<not> is_blank (hd v) \<Longrightarrow> takeWhile is_blank (v @ CRLF @ b) = []"
  by (cases v) (auto simp: is_blank_def CRLF_def)

text \<open>A field that can be printed on a line and read back.\<close>

definition field_ok :: "string \<times> string \<Rightarrow> bool" where
  "field_ok = (\<lambda>(k, v). k \<noteq> [] \<and> length k < 128 \<and> CHR '':'' \<notin> set k \<and> CR \<notin> set (k @ v) \<and> NUL \<notin> set (k @ v) \<and>
     length v < 512 \<and> (v = [] \<or> \<not> is_blank (hd v) \<and> \<not> is_blank (last v)))"

definition field_line :: "string \<times> string \<Rightarrow> string" where
  "field_line = (\<lambda>(k, v). k @ '': '' @ v)"

definition small :: "char \<Rightarrow> char" where
  "small c = (case map_of (zip ''ABCDEFGHIJKLMNOPQRSTUVWXYZ'' ''abcdefghijklmnopqrstuvwxyz'') c of Some d \<Rightarrow> d | None \<Rightarrow> c)"

definition lower_key :: "string \<times> string \<Rightarrow> string \<times> string" where
  "lower_key = (\<lambda>(k, v). (map small k, v))"

lemma to_lower_small: "to_lower_char c = small c"
proof (cases "65 \<le> (of_char c :: nat) \<and> (of_char c :: nat) \<le> 90")
  case True
  then have "(of_char c :: nat) \<in> of_char ` set ''ABCDEFGHIJKLMNOPQRSTUVWXYZ''" by simp presburger
  then have "c \<in> set ''ABCDEFGHIJKLMNOPQRSTUVWXYZ''" by (simp only: inj_image_mem_iff [OF inj_of_char])
  then show ?thesis unfolding list.set
    by (elim insertE emptyE; hypsubst; intro of_char_eqI [where ?'a = nat]; simp add: to_lower_char_def small_def)
next
  case False
  then have "c \<notin> set ''ABCDEFGHIJKLMNOPQRSTUVWXYZ''" by auto
  then have "map_of (zip ''ABCDEFGHIJKLMNOPQRSTUVWXYZ'' ''abcdefghijklmnopqrstuvwxyz'') c = None" by auto
  then show ?thesis using False by (auto simp: to_lower_char_def small_def)
qed

lemma header_kv_field:
  assumes "field_ok kv"
  shows "header_kv (field_line kv @ CRLF @ rest) (Some (length (field_line kv))) = Some (lower_key kv)"
proof -
  obtain k v where kv: "kv = (k, v)" by (cases kv)
  with assms have k: "CHR '':'' \<notin> set k" "0 < length k" "length k < 128" "length v < 512"
    "v = [] \<or> \<not> is_blank (hd v)" "v = [] \<or> \<not> is_blank (last v)" by (auto simp: field_ok_def)
  let ?r = "CHR '' '' # v @ CRLF @ rest"
  have "takeWhile is_blank ?r = '' ''" using takeWhile_blank [OF k(5)] by (simp add: is_blank_def)
  moreover have "strchr (k @ CHR '':'' # ?r) (CHR '':'') = Some (length k)" using k(1) by (simp add: strchr_append_notin)
  ultimately show ?thesis using k(2-4) rtrim_id [OF k(6)]
    by (simp add: kv field_line_def lower_key_def header_kv_def Let_def rtrim_def to_lower_small)
qed

lemma header_lines_fields:
  "\<forall>kv \<in> set kvs. field_ok kv \<Longrightarrow>
   header_lines (concat (map (\<lambda>kv. field_line kv @ CRLF) kvs) @ CRLF @ body) = map lower_key kvs"
proof (induction kvs)
  case Nil
  show ?case by (simp add: header_lines.simps)
next
  case (Cons kv kvs)
  let ?rest = "concat (map (\<lambda>kv. field_line kv @ CRLF) kvs) @ CRLF @ body" and ?l = "field_line kv"
  from Cons.prems have f: "field_ok kv" by simp
  then have l: "CR \<notin> set ?l" "?l \<noteq> []" by (auto simp: field_ok_def field_line_def split: prod.splits)
  then have "\<not> prefix CRLF (?l @ CRLF @ ?rest)" "?l @ CRLF @ ?rest \<noteq> []" by (cases ?l; auto simp: CRLF_def)+
  then have "header_lines (?l @ CRLF @ ?rest) = lower_key kv # header_lines ?rest"
    using header_kv_field [OF f, of ?rest] strstr_CRLF [OF l(1), of ?rest]
    by (subst header_lines.simps) (simp only: Let_def drop_CRLF if_False option.case append_Cons append_Nil simp_thms)
  with Cons show ?case by simp
qed

subsection \<open>The first line\<close>

definition word_ok :: "nat \<Rightarrow> string \<Rightarrow> bool" where
  "word_ok n w \<longleftrightarrow> w \<noteq> [] \<and> length w \<le> n \<and> NUL \<notin> set w \<and> CR \<notin> set w \<and> (\<forall>c \<in> set w. \<not> is_space c)"

lemma scan_word_ok:
  assumes "word_ok n w"
  shows "scan_word n (w @ CHR '' '' # r) = (w, CHR '' '' # r)" "scan_word n (CHR '' '' # w @ CHR '' '' # r) = (w, CHR '' '' # r)"
proof -
  have sp: "is_space (CHR '' '')" by (simp add: is_space_def)
  from assms have w: "w \<noteq> []" "length w \<le> n" "\<forall>c \<in> set w. \<not> is_space c" by (simp_all add: word_ok_def)
  have d: "dropWhile is_space (w @ CHR '' '' # r) = w @ CHR '' '' # r" using w(1,3) by (cases w) auto
  have t: "takeWhile (\<lambda>c. \<not> is_space c) (w @ CHR '' '' # r) = w" using w(3) sp by simp
  show "scan_word n (w @ CHR '' '' # r) = (w, CHR '' '' # r)" by (simp only: scan_word_def d t Let_def) (simp add: w(2))
  have "dropWhile is_space (CHR '' '' # w @ CHR '' '' # r) = w @ CHR '' '' # r" using d sp by simp
  then show "scan_word n (CHR '' '' # w @ CHR '' '' # r) = (w, CHR '' '' # r)" by (simp only: scan_word_def t Let_def) (simp add: w(2))
qed

definition request_text :: "string \<Rightarrow> string \<Rightarrow> (string \<times> string) list \<Rightarrow> string" where
  "request_text m u kvs = m @ '' '' @ u @ '' HTTP/1.1'' @ CRLF @ concat (map (\<lambda>kv. field_line kv @ CRLF) kvs) @ CRLF"

lemma request_line_ok: "word_ok 15 m \<Longrightarrow> word_ok 255 u \<Longrightarrow> request_line (request_text m u kvs @ body) = (m, u)"
  by (simp add: request_line_def request_text_def scan_word_ok)

lemma request_fields_ok:
  assumes "word_ok 15 m" "word_ok 255 u" "\<forall>kv \<in> set kvs. field_ok kv"
  shows "request_fields (request_text m u kvs @ body) = map lower_key kvs"
proof -
  let ?l = "m @ '' '' @ u @ '' HTTP/1.1''" and ?r = "concat (map (\<lambda>kv. field_line kv @ CRLF) kvs) @ CRLF @ body"
  have cr: "CR \<notin> set ?l" using assms(1,2) by (auto simp: word_ok_def)
  have e: "request_text m u kvs @ body = ?l @ CRLF @ ?r" by (simp add: request_text_def)
  show ?thesis
    unfolding request_fields_def e strstr_CRLF [OF cr] option.case drop_CRLF by (rule header_lines_fields [OF assms(3)])
qed

lemma cstr_request:
  assumes "word_ok 15 m" "word_ok 255 u" "\<forall>kv \<in> set kvs. field_ok kv" "NUL \<notin> set body"
  shows "cstr (request_text m u kvs @ body) = request_text m u kvs @ body"
proof (rule cstr_id)
  have "NUL \<notin> set (field_line kv @ CRLF)" if "kv \<in> set kvs" for kv
    using assms(3) that by (auto simp: field_ok_def field_line_def CRLF_def split: prod.splits)
  then show "NUL \<notin> set (request_text m u kvs @ body)" using assms(1,2,4) by (auto simp: request_text_def word_ok_def CRLF_def)
qed

subsection \<open>A request is read back\<close>

definition headers_of :: "string \<Rightarrow> (string \<times> string) list \<Rightarrow> string \<rightharpoonup> string" where
  "headers_of buf kvs = [''host'' \<mapsto> host_header buf] ++ map_of (rev (map lower_key kvs))"

lemma host_value: "NUL \<notin> set buf \<Longrightarrow> NUL \<notin> set (host_header buf) \<and> length (host_header buf) \<le> 5000"
  by (auto simp: host_header_def split: option.splits dest!: in_set_takeD set_takeWhileD [THEN conjunct1] set_dropWhileD in_set_dropD)

lemma http_parse_ok:
  assumes "heap_ok h" "word_ok 15 m" "word_ok 255 u" "\<forall>kv \<in> set kvs. field_ok kv" "length kvs < HM_LIMIT" "NUL \<notin> set body"
  shows "\<exists>q r hp h'. http_parse_request (request_text m u kvs @ body) h = Some (VObject (nxt h), h') \<and> heap_ok h' \<and>
    map_at h' (nxt h) [''method'' \<mapsto> VString q, ''url'' \<mapsto> VString r, ''headers'' \<mapsto> VObject hp] \<and> str_at h' q m \<and> str_at h' r u \<and>
    texts_at h' hp (headers_of (request_text m u kvs @ body) kvs) \<and> strs h \<subseteq>\<^sub>m strs h' \<and> (\<forall>q < nxt h. objs h' q = objs h q)"
proof -
  let ?buf = "request_text m u kvs @ body"
  let ?h1 = "snd (new_map h)"
  note r = cstr_request [OF assms(2-4,6)] request_line_ok [OF assms(2,3), of kvs body] request_fields_ok [OF assms(2-4), of body]
  have nul: "NUL \<notin> set ?buf" using r(1) by (metis NUL_notin_cstr)
  have m: "NUL \<notin> set m" "length m \<le> 5000" "NUL \<notin> set u" "length u \<le> 5000" using assms(2,3) by (simp_all add: word_ok_def)
  have ok1: "heap_ok ?h1" using assms(1) by (simp add: new_map_def heap_simps)
  from set_text_ok [OF texts_at_new ok1 _ m(1,2), of "''method''"] obtain h2 where h2: "set_text (nxt h) ?h1 (''method'', m) = Some h2"
    "texts_at h2 (nxt h) [''method'' \<mapsto> m]" "heap_ok h2" "strs ?h1 \<subseteq>\<^sub>m strs h2" "\<forall>q. q \<noteq> nxt h \<longrightarrow> objs h2 q = objs ?h1 q" by (auto simp: HM_LIMIT_def)
  from set_text_ok [OF h2(2,3) _ m(3,4), of "''url''"] obtain h3 where h3: "set_text (nxt h) h2 (''url'', u) = Some h3"
    "texts_at h3 (nxt h) [''method'' \<mapsto> m, ''url'' \<mapsto> u]" "heap_ok h3" "strs h2 \<subseteq>\<^sub>m strs h3" "\<forall>q. q \<noteq> nxt h \<longrightarrow> objs h3 q = objs h2 q" by (auto simp: HM_LIMIT_def)
  let ?h4 = "snd (new_map h3)" and ?p = "nxt h" and ?hp = "nxt h3"
  have ok4: "heap_ok ?h4" using h3(3) by (simp add: new_map_def heap_simps)
  have lt: "?p < ?hp" using texts_at_None [OF h3(2)] h3(3) by (auto simp: heap_ok_def not_less [symmetric])
  then have ne: "?p \<noteq> ?hp" by simp
  have s4: "strs ?h4 = strs h3" "objs ?h4 ?p = objs h3 ?p" using ne by (simp_all add: new_map_def new_obj_def)
  let ?fs = "(''host'', host_header ?buf) # map lower_key kvs"
  have fs: "\<forall>(k, v) \<in> set ?fs. NUL \<notin> set v \<and> length v \<le> 5000"
    using host_value [OF nul] assms(4) by (fastforce simp: lower_key_def field_ok_def)
  from set_texts_ok [OF texts_at_new ok4 _ fs] assms(5) obtain h6 where h6: "foldo (set_text ?hp) ?h4 ?fs = Some h6"
    "texts_at h6 ?hp (map_of (rev ?fs))" "heap_ok h6" "strs ?h4 \<subseteq>\<^sub>m strs h6" "\<forall>q. q \<noteq> ?hp \<longrightarrow> objs h6 q = objs ?h4 q" by auto
  have "texts_at h6 ?p [''method'' \<mapsto> m, ''url'' \<mapsto> u]"
    by (rule texts_at_cong [OF _ _ h3(2)]) (use h6(4,5) ne s4 in auto)
  then obtain q r where qr: "map_at h6 ?p [''method'' \<mapsto> VString q, ''url'' \<mapsto> VString r]" "str_at h6 q m" "str_at h6 r u"
    by (rule texts_at_two) simp
  from map_set_step [OF qr(1) h6(3), of "''headers''" "VObject ?hp"] obtain h7 where h7:
    "map_set h6 ?p ''headers'' (VObject ?hp) = Some h7" "heap_ok h7" "strs h7 = strs h6" "\<forall>q. q \<noteq> ?p \<longrightarrow> objs h7 q = objs h6 q"
    "map_at h7 ?p [''method'' \<mapsto> VString q, ''url'' \<mapsto> VString r, ''headers'' \<mapsto> VObject ?hp]" by (auto simp: HM_LIMIT_def)
  have "texts_at h7 ?hp (map_of (rev ?fs))" by (rule texts_at_cong [OF _ _ h6(2)]) (use h7(3,4) ne in auto)
  then have "texts_at h7 ?hp (headers_of ?buf kvs)" by (simp add: headers_of_def)
  moreover have "http_parse_request ?buf h = Some (VObject ?p, h7)"
  proof -
    obtain h5 where "set_text ?hp ?h4 (''host'', host_header ?buf) = Some h5" "foldo (set_text ?hp) h5 (map lower_key kvs) = Some h6"
      using h6(1) by (auto simp: bind_eq_Some_conv)
    then show ?thesis by (simp add: http_parse_request_def r case_prod_beta map_at_new(2) h2(1) h3(1) h7(1))
  qed
  moreover have "str_at h7 q m" "str_at h7 r u" using qr(2,3) by (simp_all only: str_at_cong [OF h7(3)])
  moreover have "strs h \<subseteq>\<^sub>m strs h7"
  proof -
    have "strs ?h1 = strs h" by (simp add: new_map_def new_obj_def)
    then show ?thesis using h2(4) h3(4) h6(4) s4(1) h7(3) by (metis (no_types, lifting) map_le_trans)
  qed
  moreover have "objs h7 q = objs h q" if "q < nxt h" for q
  proof -
    from that lt have "q \<noteq> ?p" "q \<noteq> ?hp" by auto
    then show ?thesis using h2(5) h3(5) h6(5) h7(4) by (simp add: new_map_def new_obj_def)
  qed
  ultimately show ?thesis using h7(2,5) by blast
qed

text \<open>
  The host that a text is taken to name: what follows the first \<^verbatim>\<open>Host:\<close> up to the end of the line, or
  the first \<^verbatim>\<open>host:\<close> of a text without, the blanks before it left out and 255 characters at most.
\<close>

definition value_of_line :: "string \<Rightarrow> string \<Rightarrow> bool" where
  "value_of_line b x \<longleftrightarrow> (\<exists>n v r. b = replicate n (CHR '' '') @ v @ r \<and> (v @ r = [] \<or> hd (v @ r) \<noteq> CHR '' '') \<and>
     set v \<inter> {CHR 0x0D, CHR 0x0A} = {} \<and> (r = [] \<or> hd r \<in> {CHR 0x0D, CHR 0x0A}) \<and> x = take 255 v)"

definition first_after :: "string \<Rightarrow> string \<Rightarrow> string \<Rightarrow> bool" where
  "first_after k t b \<longleftrightarrow> (\<exists>a. t = a @ k @ b \<and> \<not> sublist k (a @ butlast k))"

definition host_named :: "string \<Rightarrow> string \<Rightarrow> bool" where
  "host_named t x \<longleftrightarrow>
     (if sublist ''Host:'' t then \<exists>b. first_after ''Host:'' t b \<and> value_of_line b x
      else if sublist ''host:'' t then \<exists>b. first_after ''host:'' t b \<and> value_of_line b x
      else x = ''localhost'')"

lemma strstr_first_after:
  assumes "strstr t k = Some i" "k \<noteq> []" shows "first_after k t (drop (i + length k) t)"
proof -
  have f: "take (length k) (drop i t) = k" "i + length k \<le> length t" using strstr_Some [OF assms(1)] by auto
  then have "t = take i t @ k @ drop (i + length k) t" by (metis add.commute append_take_drop_id drop_drop)
  moreover have "\<not> sublist k (take i t @ butlast k)"
  proof
    assume "sublist k (take i t @ butlast k)"
    then obtain a c where ac: "take i t @ butlast k = a @ k @ c" by (auto simp: sublist_def)
    have l: "length a + length k \<le> i + (length k - 1)" using arg_cong [OF ac, of length] f(2) by simp
    then have "length a < i" using assms(2) by (cases k) auto
    moreover have "prefix k (drop (length a) t)"
    proof -
      have "take (length a + length k) (take i t @ k) = a @ k"
      proof -
        have "take i t @ k = (take i t @ butlast k) @ [last k]" using assms(2) by simp
        then show ?thesis unfolding ac by simp
      qed
      moreover have "take i t @ k = take (i + length k) t" using f(1) by (metis take_add)
      ultimately have "take (length a + length k) t = a @ k" using l by (simp add: min_def split: if_splits)
      then have "take (length k) (drop (length a) t) = k" by (metis append_eq_conv_conj length_append take_drop add.commute append_take_drop_id length_take min.absorb2 drop_take add_diff_cancel_left')
      then show ?thesis by (metis take_is_prefix)
    qed
    ultimately show False using strstr_least [OF assms(1)] by blast
  qed
  ultimately show ?thesis unfolding first_after_def by blast
qed

lemma value_of_line_scan: "value_of_line b (take 255 (takeWhile (\<lambda>c. c \<noteq> CR \<and> c \<noteq> NL) (dropWhile (\<lambda>c. c = CHR '' '') b)))"
proof -
  define n d v r where dd: "n = length (takeWhile (\<lambda>c. c = CHR '' '') b)" "d = dropWhile (\<lambda>c. c = CHR '' '') b"
    "v = takeWhile (\<lambda>c. c \<noteq> CR \<and> c \<noteq> NL) d" "r = dropWhile (\<lambda>c. c \<noteq> CR \<and> c \<noteq> NL) d"
  have vr: "v @ r = d" by (simp add: dd)
  have "takeWhile (\<lambda>c. c = CHR '' '') b = replicate n (CHR '' '')"
    unfolding dd(1) by (rule replicate_length_same [symmetric]) (auto dest: set_takeWhileD)
  then have "b = replicate n (CHR '' '') @ v @ r" unfolding vr dd(2) by (metis takeWhile_dropWhile_id)
  moreover have "v @ r = [] \<or> hd (v @ r) \<noteq> CHR '' ''" unfolding vr dd(2) using hd_dropWhile by blast
  moreover have "r = [] \<or> hd r \<in> {CHR 0x0D, CHR 0x0A}"
    using hd_dropWhile [of "\<lambda>c. c \<noteq> CR \<and> c \<noteq> NL" d] unfolding dd(4) by auto
  moreover have "set v \<inter> {CHR 0x0D, CHR 0x0A} = {}" unfolding dd(3) by (auto dest: set_takeWhileD)
  ultimately have "value_of_line b (take 255 v)" unfolding value_of_line_def by blast
  then show ?thesis by (simp only: dd)
qed

lemma sublist_strstr: "sublist k t \<longleftrightarrow> (\<exists>i. strstr t k = Some i)"
  using strstr_None [of t k] by auto

lemma host_header_named: "host_named t (host_header t)"
proof -
  have found: "\<exists>b. first_after k t b \<and> value_of_line b (host_header t)"
    if "(case strstr t ''Host:'' of None \<Rightarrow> strstr t ''host:'' | i \<Rightarrow> i) = Some i" "strstr t k = Some i" "length k = 5" for i k
  proof (intro exI conjI)
    show "first_after k t (drop (i + 5) t)" using strstr_first_after [OF that(2)] that(3) by fastforce
    show "value_of_line (drop (i + 5) t) (host_header t)" using that(1) value_of_line_scan by (simp add: host_header_def)
  qed
  show ?thesis
  proof (cases "strstr t ''Host:''")
    case (Some i)
    then show ?thesis using found [of i "''Host:''"] by (simp add: host_named_def sublist_strstr)
  next
    case None
    then show ?thesis using found [of _ "''host:''"]
      by (cases "strstr t ''host:''") (simp_all add: host_named_def sublist_strstr host_header_def)
  qed
qed

text \<open>C19. A request is read as it was printed, for a method of at most 15 and a path of at most 255
  characters without blanks, fields that fit on a line and in the buffers and a body without NUL: method and url are the
  words of its first line, and the headers are its fields under their names in lower case, of two of
  the same name the later one. When no field is named \<^verbatim>\<open>host\<close>, the host is \<^verbatim>\<open>localhost\<close>, but for a text that
  has a \<^verbatim>\<open>Host:\<close> or \<^verbatim>\<open>host:\<close> in another place, as the end of another name, whose line is taken then.
\<close>

theorem http_request_roundtrip:
  assumes "heap_ok h" "word_ok 15 m" "word_ok 255 u" "\<forall>kv \<in> set kvs. field_ok kv" "length kvs < HM_LIMIT" "NUL \<notin> set body"
  shows "\<exists>p q r hp h' x. http_parse_request (request_text m u kvs @ body) h = Some (VObject p, h') \<and> heap_ok h' \<and>
    map_at h' p [''method'' \<mapsto> VString q, ''url'' \<mapsto> VString r, ''headers'' \<mapsto> VObject hp] \<and> str_at h' q m \<and> str_at h' r u \<and>
    texts_at h' hp ([''host'' \<mapsto> x] ++ map_of (rev (map lower_key kvs))) \<and> host_named (request_text m u kvs @ body) x"
  using http_parse_ok [OF assms] host_header_named unfolding headers_of_def by blast

lemma http_request_roundtrip_witness:
  "\<exists>p q r hp h' x. http_parse_request (request_text ''GET'' ''/a?b=1''
      [(''X-Tag'', ''one''), (''x-tag'', ''two'')] @ ''body'') empty_heap = Some (VObject p, h') \<and> heap_ok h' \<and>
    map_at h' p [''method'' \<mapsto> VString q, ''url'' \<mapsto> VString r, ''headers'' \<mapsto> VObject hp] \<and> str_at h' q ''GET'' \<and>
    str_at h' r ''/a?b=1'' \<and> texts_at h' hp ([''host'' \<mapsto> x] ++ map_of (rev (map lower_key [(''X-Tag'', ''one''), (''x-tag'', ''two'')]))) \<and>
    x = ''localhost''"
proof -
  let ?kvs = "[(''X-Tag'', ''one''), (''x-tag'', ''two'')]" and ?t = "request_text ''GET'' ''/a?b=1'' [(''X-Tag'', ''one''), (''x-tag'', ''two'')] @ ''body''"
  have "strstr ?t ''Host:'' = None" "strstr ?t ''host:'' = None" by code_simp+
  then have "host_named ?t x \<longleftrightarrow> x = ''localhost''" for x by (simp only: strstr_None host_named_def if_False)
  with http_request_roundtrip [of empty_heap "''GET''" "''/a?b=1''" ?kvs "''body''"] show ?thesis
    by (simp add: word_ok_def field_ok_def is_space_def is_blank_def HM_LIMIT_def del: map_of.simps)
qed

text \<open>Fields of other names that end in the same letters are taken for the host.\<close>

lemma host_header_of_other_field:
  "host_header (request_text ''GET'' ''/'' [(''X-Forwarded-Host'', ''elsewhere'')]) = ''elsewhere''"
  by code_simp

subsection \<open>The decoding of a chunked body\<close>

text \<open>A body as HTTP has it: a length in hexadecimal digits, the bytes, and so on to the length zero.\<close>

fun chunk_size :: "nat \<Rightarrow> 8 word list \<Rightarrow> nat \<times> 8 word list" where
  "chunk_size acc [] = (acc, [])"
| "chunk_size acc (b # bs) =
    (case hex_val (char_of_byte b) of Some d \<Rightarrow> chunk_size (16 * acc + d) bs | None \<Rightarrow> (acc, b # bs))"

definition skip_crlf :: "8 word list \<Rightarrow> 8 word list option" where
  "skip_crlf bs = (case bs of a # b # r \<Rightarrow> if a = 13 \<and> b = 10 then Some r else None | _ \<Rightarrow> None)"

lemma skip_crlf_Cons [simp]: "skip_crlf (13 # 10 # r) = Some r"
  by (simp add: skip_crlf_def)

lemma chunk_size_length: "length (snd (chunk_size acc bs)) \<le> length bs"
  by (induction acc bs rule: chunk_size.induct) (auto split: option.split intro: le_SucI)

lemma skip_crlf_length: "skip_crlf bs = Some r \<Longrightarrow> length r < length bs"
  by (auto simp: skip_crlf_def split: list.splits if_splits)

function dechunk :: "8 word list \<Rightarrow> (8 word list \<times> 8 word list) option" where
  "dechunk bs = do {
     let (n, r) = chunk_size 0 bs;
     r1 \<leftarrow> (if length r = length bs then None else skip_crlf r);
     if n = 0 then do { r2 \<leftarrow> skip_crlf r1; Some ([], r2) }
     else if length r1 < n then None
     else do { r2 \<leftarrow> skip_crlf (drop n r1); (d, rest) \<leftarrow> dechunk r2; Some (take n r1 @ d, rest) } }"
  by pat_completeness auto
termination
proof (relation "measure length", goal_cases)
  case (2 bs x n r r1 r2)
  then have "length r2 < length r" using skip_crlf_length [of r r1] skip_crlf_length [of "drop n r1" r2] by (auto split: if_splits)
  moreover have "length r \<le> length bs" using chunk_size_length [of 0 bs] 2(1,2) by (metis snd_conv)
  ultimately show ?case by simp
qed simp

declare dechunk.simps [simp del]

text \<open>What is sent for one item.\<close>

definition chunk_bytes :: "8 word list \<Rightarrow> 8 word list" where
  "chunk_bytes d = map byte_of (hex_str (length d)) @ [13, 10] @ d @ [13, 10]"

lemma hex_str_value:
  "chunk_size acc (map byte_of (hex_str n) @ r) = chunk_size (16 ^ length (hex_str n) * acc + n) r"
proof (induction n arbitrary: acc r rule: hex_str.induct)
  case (1 n)
  show ?case
  proof (cases "n < 16")
    case True
    then show ?thesis using hex_val_digit [OF True] by (simp add: hex_str.simps [of n])
  next
    case False
    from hex_val_digit [of "n mod 16"] have d: "hex_val (hex_digit (n mod 16)) = Some (n mod 16)" by simp
    have "16 * (16 ^ length (hex_str (n div 16)) * acc + n div 16) + n mod 16 = 16 ^ length (hex_str n) * acc + n"
      using False by (simp add: hex_str.simps [of n])
    then show ?thesis using False 1 [OF False, of acc "byte_of (hex_digit (n mod 16)) # r"] d
      by (simp add: hex_str.simps [of n] algebra_simps)
  qed
qed

lemma hex_str_nonempty [simp]: "hex_str n \<noteq> []"
  by (subst hex_str.simps) simp

lemma dechunk_end: "dechunk (chunk_bytes [] @ rest) = Some ([], rest)"
proof -
  have "chunk_size 0 (chunk_bytes [] @ rest) = (0, 13 # 10 # 13 # 10 # rest)"
    unfolding chunk_bytes_def append_assoc hex_str_value by (simp add: hex_val_def lower_def is_digit_def char_of_byte_def)
  then show ?thesis by (subst dechunk.simps) (simp add: chunk_bytes_def)
qed

lemma dechunk_chunk:
  assumes "d \<noteq> []"
  shows "dechunk (chunk_bytes d @ rest) = do { (ds, r) \<leftarrow> dechunk rest; Some (d @ ds, r) }"
proof -
  have "chunk_size 0 (chunk_bytes d @ rest) = (length d, 13 # 10 # d @ [13, 10] @ rest)"
    unfolding chunk_bytes_def append_assoc hex_str_value by (simp add: hex_val_def lower_def is_digit_def char_of_byte_def)
  then show ?thesis using assms by (subst dechunk.simps) (simp add: chunk_bytes_def)
qed

text \<open>The body that is sent for the items \<open>ds\<close>.\<close>

definition stream_bytes :: "8 word list list \<Rightarrow> 8 word list" where
  "stream_bytes ds = concat (map chunk_bytes ds) @ chunk_bytes []"

lemma dechunk_stream:
  "\<exists>rest. dechunk (stream_bytes ds) = Some (concat (takeWhile (\<lambda>d. d \<noteq> []) ds), rest) \<and> (rest = [] \<longleftrightarrow> [] \<notin> set ds)"
proof (induction ds)
  case Nil
  show ?case using dechunk_end [of "[]"] by (simp add: stream_bytes_def)
next
  case (Cons d ds)
  show ?case
  proof (cases "d = []")
    case True
    then show ?thesis using dechunk_end [of "stream_bytes ds"] by (auto simp: stream_bytes_def chunk_bytes_def)
  next
    case False
    with Cons show ?thesis using dechunk_chunk [OF False, of "stream_bytes ds"] by (auto simp: stream_bytes_def)
  qed
qed

subsection \<open>What is sent\<close>

lemma http_send_all_ok: "accepts net fd sent \<Longrightarrow> sent (http_send_all net fd data s) = sent s @ data"
proof (induction "length data" arbitrary: data s rule: less_induct)
  case less
  show ?case
  proof (cases "data = []")
    case False
    from accepts_send [OF less.prems False, of s] obtain n s1 where n: "net_send net fd data s = (int n, s1)" "0 < n" "n \<le> length data"
      "sent s1 = sent s @ take n data" by blast
    with False have "length (drop n data) < length data" by simp
    from less(1) [OF this less.prems, of s1] n False show ?thesis by (simp add: http_send_all.simps [of net fd data s])
  qed (simp add: http_send_all.simps)
qed

lemma send_text_ok: "accepts net fd sent \<Longrightarrow> sent (send_text net fd t s) = sent s @ map byte_of t"
  by (simp add: send_text_def http_send_all_ok)

lemma byte_CRLF: "map byte_of CRLF = [13, 10]"
  by (simp add: CRLF_def byte_of_def)

lemma http_send_chunk_ok: "accepts net fd sent \<Longrightarrow> sent (http_send_chunk net fd d s) = sent s @ chunk_bytes d"
  by (simp add: http_send_chunk_def chunk_bytes_def send_text_ok http_send_all_ok byte_CRLF)

text \<open>An array whose items have the bytes \<open>ds\<close>, without a change of the store.\<close>

definition items_at :: "heap \<Rightarrow> addr \<Rightarrow> 8 word list list \<Rightarrow> bool" where
  "items_at h p ds \<longleftrightarrow> (\<exists>a. arrs h p = Some a \<and> arr_ok a \<and> list_all2 (\<lambda>v d. item_bytes h v = Some (d, h)) (arr_vals a) ds)"

lemma item_bytes_string: "str_at h p t \<Longrightarrow> item_bytes h (VString p) = Some (map byte_of t, h)"
  by (simp add: item_bytes_def str_at_nonnull)

lemma send_items_ok:
  assumes "accepts net fd sent" "\<forall>n. sent (net_sleep net n) = sent n" "items_at (ws_heap s) p ds" "k \<le> length ds"
  shows "\<exists>s'. foldo (http_send_stream_item net fd p delay len) s [0..int k - 1] = Some s' \<and> ws_heap s' = ws_heap s \<and>
    sent (ws_net s') = sent (ws_net s) @ concat (map chunk_bytes (take k ds))"
  using assms(4)
proof (induction k)
  case (Suc k)
  then obtain s1 where s1: "foldo (http_send_stream_item net fd p delay len) s [0..int k - 1] = Some s1" "ws_heap s1 = ws_heap s"
    "sent (ws_net s1) = sent (ws_net s) @ concat (map chunk_bytes (take k ds))" by auto
  from assms(3) obtain a where a: "arrs (ws_heap s) p = Some a" "arr_ok a"
    "list_all2 (\<lambda>v d. item_bytes (ws_heap s) v = Some (d, ws_heap s)) (arr_vals a) ds" by (auto simp: items_at_def)
  then have l: "length (arr_vals a) = length ds" "item_bytes (ws_heap s) (arr_vals a ! k) = Some (ds ! k, ws_heap s)"
    using Suc.prems by (auto simp: list_all2_conv_all_nth)
  have g: "ts_array_get a (int k) = Some (arr_vals a ! k)"
    using a(2) l(1) Suc.prems length_arr_vals [OF a(2)] by (simp add: ts_array_get_ok)
  have u: "[0..int (Suc k) - 1] = [0..int k - 1] @ [int k]" using upto_rec2 [of 0 "int k"] by simp
  have t: "take (Suc k) ds = take k ds @ [ds ! k]" using Suc.prems by (simp add: take_Suc_conv_app_nth)
  show ?case unfolding u t foldo_append
    using s1 a(1) g l(2) assms(2) http_send_chunk_ok [OF assms(1), of "ds ! k" "ws_net s1"]
    by (simp add: http_send_stream_item_def Let_def)
qed simp

lemma stream_loop_ok:
  assumes "accepts net fd sent" "\<forall>n. sent (net_sleep net n) = sent n" "\<forall>s. \<not> th_pending th s"
    and "objs (ws_heap s) sp = Some (OStream sb)" "sb_chunks sb \<noteq> 0" "items_at (ws_heap s) (sb_chunks sb) ds"
  shows "\<exists>s'. stream_loop net th fd sp delay 0 s = Some s' \<and> ws_heap s' = ws_heap s \<and>
    sent (ws_net s') = sent (ws_net s) @ concat (map chunk_bytes ds)"
proof -
  from assms(6) obtain a where a: "arrs (ws_heap s) (sb_chunks sb) = Some a" "arr_ok a" "length (arr_vals a) = length ds"
    by (auto simp: items_at_def list_all2_conv_all_nth)
  then have l: "chunks_length (ws_heap s) (sb_chunks sb) = Some (int (length ds))" "a_length a = int (length ds)"
    using assms(5) length_arr_vals [OF a(2)] by (simp_all add: chunks_length_def)
  from send_items_ok [OF assms(1,2,6) order_refl, of delay "int (length ds)"] obtain s1 where s1:
    "foldo (http_send_stream_item net fd (sb_chunks sb) delay (int (length ds))) s [0..int (length ds) - 1] = Some s1"
    "ws_heap s1 = ws_heap s" "sent (ws_net s1) = sent (ws_net s) @ concat (map chunk_bytes ds)" by auto
  then have "stream_loop net th fd sp delay 0 s = Some s1"
    using assms(3,4) l by (subst stream_loop.simps) (simp add: stream_at_def)
  with s1 show ?thesis by blast
qed


text \<open>While timers wait that are never done, an interval for one, a response with a stream does not end.\<close>

theorem http_stream_waits_for_timers:
  assumes "\<forall>s. th_pending th s" "objs (ws_heap s) (f_stream fr) = Some (OStream sb)"
  shows "http_respond_chunked net th fd fr s = None"
proof -
  have "th \<noteq> th" if r: "stream_loop net th fd sp delay n t = Some r" for sp delay n t r
  proof (rule stream_loop.raw_induct [OF _ r, where P = "\<lambda>net th' fd sp delay n t r. th' \<noteq> th"], goal_cases)
    case (1 rec net th' fd sp delay n t r)
    then show ?case using assms(1) by (auto simp: bind_eq_Some_conv Let_def) blast
  qed
  then have "stream_loop net th fd sp delay n t = None" for sp delay n t
    by (cases "stream_loop net th fd sp delay n t") auto
  with assms(2) show ?thesis by (auto simp: http_respond_chunked_def Let_def bind_eq_None_conv split: prod.splits)
qed

definition demo_stream_heap :: heap where
  "demo_stream_heap = empty_heap\<lparr>nxt := 10, strs := [1 \<mapsto> \<lparr>s_refcount = 1, s_data = ''one''\<rparr>, 2 \<mapsto> \<lparr>s_refcount = 1, s_data = []\<rparr>],
     arrs := [3 \<mapsto> \<lparr>a_refcount = 1, a_length = 2, a_capacity = 2, a_items = [Some (VString 1), Some (VString 2)]\<rparr>],
     objs := [4 \<mapsto> OStream \<lparr>sb_chunks = 3, sb_delay = 5\<rparr>]\<rparr>"

definition demo_response :: fetch_response where
  "demo_response = \<lparr>f_status = 200, f_statusText = 0, f_body = 0, f_headers = 0, f_url = 0, f_stream = 4, f_body_complete = False\<rparr>"

definition demo_wss :: "8 word list wss" where
  "demo_wss = \<lparr>ws_heap = demo_stream_heap, ws_socks = (\<lambda>_. None), g_ws_list = 0, g_ws_count = 0, g_ws_polling = False, ws_net = []\<rparr>"

definition no_timers :: "8 word list timer_hooks" where
  "no_timers = \<lparr>th_pending = (\<lambda>_. False), th_poll = Some\<rparr>"

lemma demo_items: "items_at demo_stream_heap 3 [map byte_of ''one'', []]"
  using item_bytes_string [of demo_stream_heap 1 "''one''"] item_bytes_string [of demo_stream_heap 2 "[]"]
  by (simp add: items_at_def demo_stream_heap_def arr_ok_def arr_vals_def str_at_def int32_max_def)


lemma http_stream_waits_for_timers_witness:
  "http_respond_chunked pipe (no_timers\<lparr>th_pending := (\<lambda>_. True)\<rparr>) 3 demo_response demo_wss = None"
  by (rule http_stream_waits_for_timers) (simp_all add: no_timers_def demo_wss_def demo_stream_heap_def demo_response_def)

end
