(* ===== verification/Ts_Http_Server.thy ===== *)
theory Ts_Http_Server
  imports Ts_Http_Text Ts_Fifo
begin

text \<open>
  The server and the client of \<^verbatim>\<open>runtime/src/builtins/node_http.c\<close>: the queue between the accept thread
  and the main thread, a turn of each, and the operations the compiled program calls. The sockets, the
  handlers of the program and its event loop are parameters.
\<close>

subsection \<open>The queue of pending requests\<close>

type_synonym praddr = nat

record pending_request =
  pr_fd :: int
  pr_req :: "tsvalue"
  pr_raw :: string
  pr_next :: praddr

record pending_queue =
  pq_store :: "praddr \<Rightarrow> pending_request option"
  pq_head :: praddr
  pq_tail :: praddr

definition pq_init :: "pending_queue \<Rightarrow> pending_queue" where
  "pq_init q = q\<lparr>pq_head := 0, pq_tail := 0\<rparr>"

definition pq_push :: "pending_queue \<Rightarrow> praddr \<Rightarrow> pending_queue option" where
  "pq_push q p = do {
     r \<leftarrow> pq_store q p;
     let st = (pq_store q)(p \<mapsto> r\<lparr>pr_next := 0\<rparr>);
     if pq_tail q \<noteq> 0 then do {
       t \<leftarrow> st (pq_tail q);
       Some (q\<lparr>pq_store := st(pq_tail q \<mapsto> t\<lparr>pr_next := p\<rparr>), pq_tail := p\<rparr>) }
     else Some (q\<lparr>pq_store := st, pq_head := p, pq_tail := p\<rparr>) }"

definition pq_pop :: "pending_queue \<Rightarrow> (praddr \<times> pending_queue) option" where
  "pq_pop q =
    (if pq_head q = 0 then Some (0, q)
     else do {
       r \<leftarrow> pq_store q (pq_head q);
       Some (pq_head q, q\<lparr>pq_store := (pq_store q)(pq_head q \<mapsto> r\<lparr>pr_next := 0\<rparr>),
         pq_head := pr_next r, pq_tail := (if pr_next r = 0 then 0 else pq_tail q)\<rparr>) })"

definition pq_empty :: "pending_queue \<Rightarrow> bool" where
  "pq_empty q \<longleftrightarrow> pq_head q = 0"

subsection \<open>The state\<close>

record http_server =
  srv_type_tag :: int
  srv_fd :: int
  srv_callback :: "tsvalue"

definition HTTP_SERVER_TAG :: int where "HTTP_SERVER_TAG = 0x53525620"

text \<open>The store and the network are those of the WebSockets; what is printed is kept as text.\<close>

record 'n hs =
  hs_wss :: "'n wss"
  hs_servers :: "addr \<Rightarrow> http_server option"
  g_pending :: pending_queue
  g_server :: addr
  g_server_inited :: bool
  g_accept_thread_created :: bool
  hs_out :: string
  hs_err :: string

abbreviation hs_heap :: "'n hs \<Rightarrow> heap" where
  "hs_heap s \<equiv> ws_heap (hs_wss s)"

abbreviation hs_net :: "'n hs \<Rightarrow> 'n" where
  "hs_net s \<equiv> ws_net (hs_wss s)"

definition with_heap :: "heap \<Rightarrow> 'n hs \<Rightarrow> 'n hs" where
  "with_heap h s = s\<lparr>hs_wss := (hs_wss s)\<lparr>ws_heap := h\<rparr>\<rparr>"

definition with_net :: "'n \<Rightarrow> 'n hs \<Rightarrow> 'n hs" where
  "with_net n s = s\<lparr>hs_wss := (hs_wss s)\<lparr>ws_net := n\<rparr>\<rparr>"

text \<open>
  What the code calls: the sockets, the functions of the program, its event loop for \<^verbatim>\<open>ts_await\<close>, and
  the timers. \<open>tcp_accept\<close> and \<open>tcp_socket\<close> give a negative number when they fail.
\<close>

record 'n tcp =
  tcp_net :: "'n net"
  tcp_socket :: "'n \<Rightarrow> int \<times> 'n"
  tcp_bind :: "int \<Rightarrow> int \<Rightarrow> 'n \<Rightarrow> bool \<times> 'n"
  tcp_listen :: "int \<Rightarrow> 'n \<Rightarrow> bool \<times> 'n"
  tcp_accept :: "int \<Rightarrow> 'n \<Rightarrow> int \<times> 'n"
  tcp_connect :: "int \<Rightarrow> string option \<Rightarrow> int \<Rightarrow> 'n \<Rightarrow> bool \<times> 'n"

record 'n http_env =
  he_tcp :: "'n tcp"
  he_ws_code :: "'n ws_code"
  he_call :: "addr \<Rightarrow> tsvalue list \<Rightarrow> 'n hs \<Rightarrow> (outcome \<times> 'n hs) option"
  he_loop :: "'n hs event_loop"
  he_timers :: "'n timer_hooks"

abbreviation he_net :: "'n http_env \<Rightarrow> 'n net" where
  "he_net env \<equiv> tcp_net (he_tcp env)"

subsection \<open>The accept thread\<close>

text \<open>The loop that reads a request, at most \<open>k\<close> times into a buffer of 4096 characters.\<close>

fun read_request :: "'n net \<Rightarrow> int \<Rightarrow> nat \<Rightarrow> string \<Rightarrow> 'n \<Rightarrow> (string \<times> 'n) option" where
  "read_request net fd 0 buf s = Some (buf, s)"
| "read_request net fd (Suc k) buf s = (case net_recv net fd (4095 - length buf) s of
     (Received bs, s1) \<Rightarrow>
       if bs = [] then Some (buf, s1)
       else (let buf' = buf @ map char_of_byte bs
         in if length buf' > 4095 then None
            else if strstr (cstr buf') (CRLF @ CRLF) \<noteq> None then Some (buf', s1)
            else read_request net fd k buf' s1)
   | (_, s1) \<Rightarrow> Some (buf, s1))"

text \<open>A turn of the thread, with the address that \<^verbatim>\<open>malloc\<close> gives for the request.\<close>

definition http_accept_one :: "'n http_env \<Rightarrow> praddr \<Rightarrow> 'n hs \<Rightarrow> 'n hs option" where
  "http_accept_one env p s = do {
     srv \<leftarrow> hs_servers s (g_server s);
     let (fd, n) = tcp_accept (he_tcp env) (srv_fd srv) (hs_net s);
     if fd < 0 then Some (with_net (net_sleep (he_net env) n) s)
     else do {
       (buf, n1) \<leftarrow> read_request (he_net env) fd 20 [] n;
       if buf = [] then Some (with_net (net_close (he_net env) fd n1) s)
       else do {
         (req, h) \<leftarrow> http_parse_request buf (hs_heap s);
         q \<leftarrow> pq_push ((g_pending s)\<lparr>pq_store := (pq_store (g_pending s))(p \<mapsto>
             \<lparr>pr_fd = fd, pr_req = req, pr_raw = buf, pr_next = 0\<rparr>)\<rparr>) p;
         Some (with_heap h (with_net n1 s)\<lparr>g_pending := q\<rparr>) } } }"

subsection \<open>Servers\<close>

definition node_http_createServer :: "tsvalue \<Rightarrow> 'n hs \<Rightarrow> tsvalue \<times> 'n hs" where
  "node_http_createServer callback s = (let p = nxt (hs_heap s) in
     (VObject p, with_heap ((hs_heap s)\<lparr>nxt := Suc p\<rparr>) s\<lparr>hs_servers := (hs_servers s)(p \<mapsto>
        \<lparr>srv_type_tag = HTTP_SERVER_TAG, srv_fd = - 1, srv_callback = callback\<rparr>)\<rparr>))"

text \<open>\<^verbatim>\<open>TS_THROW\<close> of a text.\<close>

definition throw_text :: "string \<Rightarrow> 'n hs \<Rightarrow> (outcome \<times> 'n hs) option" where
  "throw_text t s = do { (v, h) \<leftarrow> new_text (hs_heap s) t; Some (Thrown v, with_heap h s) }"

definition set_server :: "addr \<Rightarrow> (http_server \<Rightarrow> http_server) \<Rightarrow> 'n hs \<Rightarrow> 'n hs option" where
  "set_server p f s = do { x \<leftarrow> hs_servers s p; Some (s\<lparr>hs_servers := (hs_servers s)(p \<mapsto> f x)\<rparr>) }"

text \<open>The server behind a value, \<open>None\<close> in the result for a NULL or another object; its tag is read through the pointer.\<close>

definition server_of :: "'n hs \<Rightarrow> tsvalue \<Rightarrow> addr option option" where
  "server_of s v = (case v of
     VObject p \<Rightarrow> if p = 0 then Some None
       else (case hs_servers s p of
         Some x \<Rightarrow> Some (if srv_type_tag x = HTTP_SERVER_TAG then Some p else None)
       | None \<Rightarrow> if ws_socks (hs_wss s) p \<noteq> None then Some None else map_option (\<lambda>_. None) (objs (hs_heap s) p))
   | VArray p \<Rightarrow> if p = 0 then Some None else map_option (\<lambda>_. None) (arrs (hs_heap s) p)
   | VString p \<Rightarrow> if p = 0 then Some None else map_option (\<lambda>_. None) (strs (hs_heap s) p)
   | _ \<Rightarrow> None)"

text \<open>The end of \<^verbatim>\<open>listen\<close>: the server becomes the one that requests are for, and the thread is started.\<close>

definition start_server :: "'n http_env \<Rightarrow> addr \<Rightarrow> int \<Rightarrow> tsvalue \<Rightarrow> 'n hs \<Rightarrow> (outcome \<times> 'n hs) option" where
  "start_server env p port callback s = (let
       s1 = s\<lparr>hs_out := hs_out s @ ''Server listening on port '' @ int_str port @ [NL], g_server := p\<rparr>;
       s2 = (if g_server_inited s1 then s1 else s1\<lparr>g_pending := pq_init (g_pending s1), g_server_inited := True\<rparr>);
       s3 = s2\<lparr>g_accept_thread_created := True\<rparr>
     in case callback of
          VFunction f \<Rightarrow> if f = 0 then Some (Returned ts_value_undefined, s3)
            else do {
              (r, s4) \<leftarrow> he_call env f [] s3;
              Some (case r of Thrown e \<Rightarrow> Thrown e | Returned _ \<Rightarrow> Returned ts_value_undefined, s4) }
        | _ \<Rightarrow> Some (Returned ts_value_undefined, s3))"

definition node_http_server_listen :: "'n http_env \<Rightarrow> tsvalue \<Rightarrow> tsvalue \<Rightarrow> tsvalue \<Rightarrow> 'n hs \<Rightarrow> (outcome \<times> 'n hs) option" where
  "node_http_server_listen env serverVal portVal callback s = do {
     r \<leftarrow> server_of s serverVal;
     case r of
       None \<Rightarrow> throw_text ''Invalid server object'' s
     | Some p \<Rightarrow> do {
         d \<leftarrow> ts_to_number (hs_heap s) portVal;
         port \<leftarrow> d_to_int d;
         let (fd, n) = tcp_socket (he_tcp env) (hs_net s);
         s1 \<leftarrow> set_server p (\<lambda>x. x\<lparr>srv_fd := fd\<rparr>) (with_net n s);
         if fd < 0 then throw_text ''Failed to create socket'' s1
         else (let (ok, n1) = tcp_bind (he_tcp env) fd (port mod 65536) n in
           if \<not> ok then throw_text ''Failed to bind'' (with_net (net_close (he_net env) fd n1) s1)
           else (let (ok, n2) = tcp_listen (he_tcp env) fd n1 in
             if \<not> ok then throw_text ''Failed to listen'' (with_net (net_close (he_net env) fd n2) s1)
             else start_server env p port callback (with_net n2 s1))) } }"

subsection \<open>The main thread\<close>

text \<open>Whether the handler's result is a promise; the first word of a socket or a server is another tag.\<close>

definition result_is_promise :: "'n hs \<Rightarrow> tsvalue \<Rightarrow> bool option" where
  "result_is_promise s v = (case v of
     VObject p \<Rightarrow> if ws_socks (hs_wss s) p \<noteq> None \<or> hs_servers s p \<noteq> None then Some False else ts_value_is_promise (hs_heap s) v
   | _ \<Rightarrow> ts_value_is_promise (hs_heap s) v)"

definition tag_number :: "value_tag \<Rightarrow> int" where
  "tag_number t = (case t of TAG_NUMBER \<Rightarrow> 0 | TAG_STRING \<Rightarrow> 1 | TAG_BOOLEAN \<Rightarrow> 2 | TAG_NULL \<Rightarrow> 3
     | TAG_OBJECT \<Rightarrow> 4 | TAG_ARRAY \<Rightarrow> 5 | TAG_FUNCTION \<Rightarrow> 6 | TAG_SYMBOL \<Rightarrow> 7)"

definition hs_log :: "string \<Rightarrow> 'n hs \<Rightarrow> 'n hs" where
  "hs_log t s = s\<lparr>hs_err := hs_err s @ ''[HTTP] '' @ t @ [NL]\<rparr>"

definition call_request_handler :: "'n http_env \<Rightarrow> pending_request \<Rightarrow> 'n hs \<Rightarrow> (outcome \<times> 'n hs) option" where
  "call_request_handler env r s = do {
     srv \<leftarrow> hs_servers s (g_server s);
     case srv_callback srv of
       VFunction f \<Rightarrow>
         if f = 0 then do { (v, h) \<leftarrow> new_text (hs_heap s) ''Hello, World!''; Some (Returned v, with_heap h s) }
         else do {
           (out, s1) \<leftarrow> he_call env f [pr_req r] (hs_log (''Calling handler for fd='' @ int_str (pr_fd r)) s);
           case out of
             Thrown e \<Rightarrow> Some (Thrown e, s1)
           | Returned v \<Rightarrow> do {
               let s2 = hs_log (''Handler returned: tag='' @ int_str (tag_number (vtag v))) s1;
               b \<leftarrow> result_is_promise s2 v;
               if b then (case v of VObject p \<Rightarrow> ts_await (he_loop env) p s2 | _ \<Rightarrow> None)
               else Some (Returned v, s2) } }
     | _ \<Rightarrow> do { (v, h) \<leftarrow> new_text (hs_heap s) ''Hello, World!''; Some (Returned v, with_heap h s) } }"

text \<open>The response whose stream is a WebSocket, when the result is one.\<close>

definition upgrade_of :: "'n hs \<Rightarrow> tsvalue \<Rightarrow> fetch_response option" where
  "upgrade_of s v = (case v of
     VObject p \<Rightarrow> (case objs (hs_heap s) p of
        Some (OResponse fr) \<Rightarrow>
          if f_stream fr \<noteq> 0 \<and> \<not> f_body_complete fr \<and>
            (case ws_socks (hs_wss s) (f_stream fr) of
               Some w \<Rightarrow> w_type_tag w = WEBSOCKET_SERVER_TAG \<or> w_type_tag w = WEBSOCKET_TAG | None \<Rightarrow> False)
          then Some fr else None
      | _ \<Rightarrow> None)
   | _ \<Rightarrow> None)"

definition ts_hashmap_free :: "heap \<Rightarrow> addr \<Rightarrow> heap option" where
  "ts_hashmap_free h p =
    (if p = 0 then Some h
     else do {
       m \<leftarrow> get_map h p;
       Some (if m_refcount m - 1 \<le> 0 then del_obj h p else put_obj h p (OMap (m\<lparr>m_refcount := m_refcount m - 1\<rparr>))) })"

text \<open>The end of a turn: the request object and the entry of the queue are released.\<close>

definition release_request :: "praddr \<Rightarrow> pending_request \<Rightarrow> 'n hs \<Rightarrow> 'n hs option" where
  "release_request p r s = do {
     h \<leftarrow> (case pr_req r of VObject q \<Rightarrow> ts_hashmap_free (hs_heap s) q | _ \<Rightarrow> None);
     _ \<leftarrow> pq_store (g_pending s) p;
     Some (with_heap h s\<lparr>g_pending := (g_pending s)\<lparr>pq_store := (pq_store (g_pending s))(p := None)\<rparr>\<rparr>) }"

definition upgrade_note :: "pending_request \<Rightarrow> 'n hs \<Rightarrow> 'n hs" where
  "upgrade_note r s =
     hs_log (''raw_buf: '' @ cstr (take 200 (pr_raw r)))
       (hs_log (''WebSocket upgrade: fd='' @ int_str (pr_fd r) @ '' raw_len='' @ int_str (int (length (pr_raw r)))) s)"

text \<open>A turn of the loop with the request at \<open>p\<close>; a handler that throws leaves it by \<^verbatim>\<open>longjmp\<close>.\<close>

definition serve_one :: "'n http_env \<Rightarrow> praddr \<Rightarrow> 'n hs \<Rightarrow> (outcome \<times> 'n hs) option" where
  "serve_one env p s = do {
     r \<leftarrow> pq_store (g_pending s) p;
     (out, s1) \<leftarrow> call_request_handler env r s;
     case out of
       Thrown e \<Rightarrow> Some (Thrown e, s1)
     | Returned v \<Rightarrow> do {
         s3 \<leftarrow> (case upgrade_of s1 v of
             Some fr \<Rightarrow> do {
               let s2 = upgrade_note r s1;
               w \<leftarrow> ts_websocket_http_upgrade (he_net env) (he_ws_code env) (pr_fd r) fr (cstr (pr_raw r)) (hs_wss s2);
               Some (hs_log ''WebSocket upgrade done'' (s2\<lparr>hs_wss := w\<rparr>)) }
           | None \<Rightarrow> do {
               w \<leftarrow> http_handle_response (he_net env) (he_timers env) (pr_fd r) v (hs_wss s1);
               Some (with_net (net_close (he_net env) (pr_fd r) (ws_net w)) (s1\<lparr>hs_wss := w\<rparr>)) });
         s4 \<leftarrow> release_request p r s3;
         Some (Returned ts_value_undefined, s4) } }"

partial_function (option) drain_requests :: "'n http_env \<Rightarrow> 'n hs \<Rightarrow> (outcome \<times> 'n hs) option" where
  "drain_requests env s = do {
     (p, q) \<leftarrow> pq_pop (g_pending s);
     let s1 = s\<lparr>g_pending := q\<rparr>;
     if p = 0 then Some (Returned ts_value_undefined, s1)
     else do {
       (out, s2) \<leftarrow> serve_one env p s1;
       case out of Thrown e \<Rightarrow> Some (Thrown e, s2) | Returned _ \<Rightarrow> drain_requests env s2 } }"

text \<open>What follows the requests: the timers and the WebSockets get a turn.\<close>

definition pump_rest :: "'n http_env \<Rightarrow> 'n wss \<Rightarrow> 'n wss option" where
  "pump_rest env w = do {
     w1 \<leftarrow> (if th_pending (he_timers env) w then th_poll (he_timers env) w else Some w);
     b \<leftarrow> ts_websocket_pending w1;
     if b then ts_websocket_poll (he_net env) (he_ws_code env) w1 else Some w1 }"

definition node_http_server_poll :: "'n http_env \<Rightarrow> 'n hs \<Rightarrow> (outcome \<times> 'n hs) option" where
  "node_http_server_poll env s =
    (if g_server s = 0 \<or> \<not> g_server_inited s then Some (Returned ts_value_undefined, s)
     else do {
       (out, s1) \<leftarrow> drain_requests env s;
       case out of
         Thrown e \<Rightarrow> Some (Thrown e, s1)
       | Returned _ \<Rightarrow> do { w \<leftarrow> pump_rest env (hs_wss s1); Some (Returned ts_value_undefined, s1\<lparr>hs_wss := w\<rparr>) } })"

definition node_http_server_active :: "'n hs \<Rightarrow> bool" where
  "node_http_server_active s \<longleftrightarrow> g_server s \<noteq> 0"

definition node_http_server_pending :: "'n hs \<Rightarrow> bool" where
  "node_http_server_pending s \<longleftrightarrow> \<not> pq_empty (g_pending s)"

subsection \<open>The client\<close>

definition client_request :: string where
  "client_request = ''GET / HTTP/1.1'' @ CRLF @ ''Host: example.com'' @ CRLF @ ''Connection: close'' @ CRLF @ CRLF"

definition client_response :: "string \<Rightarrow> heap \<Rightarrow> (tsvalue \<times> heap) option" where
  "client_response buf h = (let (res, h1) = new_map h in do {
     h2 \<leftarrow> map_set h1 res ''statusCode'' (VNumber (DFin 200));
     h3 \<leftarrow> set_text res h2 (''body'', cstr buf);
     Some (VObject res, h3) })"

text \<open>\<^verbatim>\<open>(uint16_t)port\<close>, undefined outside of its range.\<close>

definition d_to_u16 :: "dbl \<Rightarrow> int option" where
  "d_to_u16 d = do { n \<leftarrow> d_to_int d; if 0 \<le> n \<and> n < 65536 then Some n else None }"

definition node_http_request :: "'n http_env \<Rightarrow> tsvalue \<Rightarrow> tsvalue \<Rightarrow> 'n hs \<Rightarrow> (outcome \<times> 'n hs) option" where
  "node_http_request env options callback s = (case options of
     VObject p \<Rightarrow> do {
       hv \<leftarrow> map_get (hs_heap s) p ''hostname'';
       (host, h1) \<leftarrow> text_or_null (hs_heap s) hv;
       pv \<leftarrow> map_get h1 p ''port'';
       d \<leftarrow> ts_to_number h1 pv;
       port \<leftarrow> d_to_u16 d;
       let s1 = with_heap h1 s;
       let (fd, n) = tcp_socket (he_tcp env) (hs_net s1);
       let (ok, n1) = tcp_connect (he_tcp env) fd (map_option cstr host) port n;
       if \<not> ok then throw_text ''Connection failed'' (with_net (net_close (he_net env) fd n1) s1)
       else do {
         let n2 = snd (net_send (he_net env) fd (map byte_of client_request) n1);
         let (r, n3) = net_recv (he_net env) fd 4095 n2;
         let s2 = with_net (net_close (he_net env) fd n3) s1;
         case r of
           Received (b # bs) \<Rightarrow> do {
             (v, h) \<leftarrow> client_response (map char_of_byte (b # bs)) (hs_heap s2);
             Some (Returned v, with_heap h s2) }
         | _ \<Rightarrow> Some (Returned ts_value_undefined, s2) } }
   | _ \<Rightarrow> throw_text ''Options must be an object'' s)"

definition node_http_get :: "'n http_env \<Rightarrow> tsvalue \<Rightarrow> tsvalue \<Rightarrow> 'n hs \<Rightarrow> (outcome \<times> 'n hs) option" where
  "node_http_get env url callback s = (let (p, h1) = new_map (hs_heap s) in do {
     h2 \<leftarrow> set_text p h1 (''hostname'', ''127.0.0.1'');
     h3 \<leftarrow> map_set h2 p ''port'' (VNumber (DFin 80));
     node_http_request env (VObject p) callback (with_heap h3 s) })"

end
