(* ===== verification/Ts_Http_Queue.thy ===== *)
theory Ts_Http_Queue
  imports Ts_Http_Server
begin

text \<open>
  The queue of pending requests is a first-in-first-out queue, and what the main thread makes of it: each
  request is answered on its own connection, in the order of arrival.
\<close>

subsection \<open>The linked list\<close>

text \<open>What a request is apart from its place in the queue.\<close>

type_synonym request = "int \<times> tsvalue \<times> string"

definition request_of :: "pending_request \<Rightarrow> request" where
  "request_of r = (pr_fd r, pr_req r, pr_raw r)"

lemma request_of_next [simp]: "request_of (r\<lparr>pr_next := n\<rparr>) = request_of r"
  by (simp add: request_of_def)

text \<open>The requests from \<open>p\<close> along \<^verbatim>\<open>next\<close>, with their addresses, up to the NULL.\<close>

fun pchain :: "(praddr \<Rightarrow> pending_request option) \<Rightarrow> praddr \<Rightarrow> (praddr \<times> request) list \<Rightarrow> bool" where
  "pchain st p [] \<longleftrightarrow> p = 0"
| "pchain st p ((a, c) # xs) \<longleftrightarrow> p = a \<and> a \<noteq> 0 \<and> (\<exists>r. st a = Some r \<and> request_of r = c \<and> pchain st (pr_next r) xs)"

definition pq_rep :: "pending_queue \<Rightarrow> (praddr \<times> request) list \<Rightarrow> bool" where
  "pq_rep q xs \<longleftrightarrow> pchain (pq_store q) (pq_head q) xs \<and> distinct (map fst xs) \<and>
     pq_tail q = (if xs = [] then 0 else fst (last xs))"

lemma pchain_upd: "p \<notin> fst ` set xs \<Longrightarrow> pchain (st(p := x)) a xs = pchain st a xs"
  by (induction xs arbitrary: a) auto

lemma pchain_live: "pchain st p xs \<Longrightarrow> (a, c) \<in> set xs \<Longrightarrow> a \<noteq> 0 \<and> (\<exists>r. st a = Some r \<and> request_of r = c)"
  by (induction xs arbitrary: p) auto

lemma pchain_snoc:
  "pchain st a (xs @ [(t, c)]) \<Longrightarrow> t \<notin> fst ` set xs \<Longrightarrow> p \<notin> fst ` set (xs @ [(t, c)]) \<Longrightarrow> p \<noteq> 0 \<Longrightarrow> st t = Some rt \<Longrightarrow>
   st p = Some rp \<Longrightarrow> pr_next rp = 0 \<Longrightarrow> pchain (st(t \<mapsto> rt\<lparr>pr_next := p\<rparr>)) a (xs @ [(t, c), (p, request_of rp)])"
  by (induction xs arbitrary: a) auto

lemma pq_rep_empty [simp]: "pq_rep q [] \<longleftrightarrow> pq_head q = 0 \<and> pq_tail q = 0"
  by (auto simp: pq_rep_def)

text \<open>A request that was allocated may be put into the queue.\<close>

definition allocated :: "pending_queue \<Rightarrow> praddr \<times> request \<Rightarrow> bool" where
  "allocated q x \<longleftrightarrow> fst x \<noteq> 0 \<and> map_option request_of (pq_store q (fst x)) = Some (snd x)"

lemma pq_push_ok:
  assumes "pq_rep q xs" "allocated q x" "distinct (map fst (xs @ [x]))"
  shows "\<exists>q'. pq_push q (fst x) = Some q' \<and> pq_rep q' (xs @ [x]) \<and> (\<forall>y. allocated q y \<longrightarrow> allocated q' y)"
proof -
  obtain p c where x: "x = (p, c)" by (cases x)
  with assms(2) obtain r where r: "p \<noteq> 0" "pq_store q p = Some r" "request_of r = c" by (auto simp: allocated_def)
  let ?st = "(pq_store q)(p \<mapsto> r\<lparr>pr_next := 0\<rparr>)"
  show ?thesis
  proof (cases xs rule: rev_cases)
    case Nil
    then show ?thesis using assms(1) r x by (auto simp: pq_push_def pq_rep_def allocated_def)
  next
    case (snoc ys t)
    obtain tp tc where t: "t = (tp, tc)" by (cases t)
    have ch: "pchain (pq_store q) (pq_head q) (ys @ [(tp, tc)])" "tp \<notin> fst ` set ys" "p \<notin> fst ` set (ys @ [(tp, tc)])" "pq_tail q = tp"
      using assms(1,3) snoc t x by (auto simp: pq_rep_def)
    then obtain rt where rt: "pq_store q tp = Some rt" "request_of rt = tc" "tp \<noteq> 0" using pchain_live [OF ch(1), of tp tc] by auto
    have ch1: "pchain ?st (pq_head q) (ys @ [(tp, tc)])" using ch(1,3) by (simp add: pchain_upd)
    have ne: "tp \<noteq> p" using ch(3) by auto
    let ?q = "q\<lparr>pq_store := ?st(tp \<mapsto> rt\<lparr>pr_next := p\<rparr>), pq_tail := p\<rparr>"
    have "pq_push q (fst x) = Some ?q" using r rt ch(4) ne x by (simp add: pq_push_def)
    moreover have "pchain (?st(tp \<mapsto> rt\<lparr>pr_next := p\<rparr>)) (pq_head q) (ys @ [(tp, tc), (p, c)])"
      using pchain_snoc [OF ch1 ch(2,3) r(1), of rt "r\<lparr>pr_next := 0\<rparr>"] rt ne r(3) by simp
    then have "pq_rep ?q (xs @ [x])" using assms(3) snoc t x by (auto simp: pq_rep_def)
    moreover have "\<forall>y. allocated q y \<longrightarrow> allocated ?q y" using r rt ne by (auto simp: allocated_def)
    ultimately show ?thesis by blast
  qed
qed

text \<open>A pop that finds something.\<close>

definition pq_take :: "pending_queue \<Rightarrow> ((praddr \<times> request) \<times> pending_queue) option" where
  "pq_take q = do {
     (p, q') \<leftarrow> pq_pop q;
     if p = 0 then None else do { r \<leftarrow> pq_store q' p; Some ((p, request_of r), q') } }"

lemma pq_take_ok:
  assumes "pq_rep q (x # xs)"
  shows "\<exists>q'. pq_take q = Some (x, q') \<and> pq_pop q = Some (fst x, q') \<and> pq_rep q' xs \<and> allocated q' x"
proof -
  obtain p c where x: "x = (p, c)" by (cases x)
  with assms obtain r where r: "pq_head q = p" "p \<noteq> 0" "pq_store q p = Some r" "request_of r = c" "pchain (pq_store q) (pr_next r) xs"
    "p \<notin> fst ` set xs" "distinct (map fst xs)" "pq_tail q = fst (last (x # xs))" by (auto simp: pq_rep_def)
  have "pr_next r = 0 \<longleftrightarrow> xs = []" using r(5) by (cases xs) auto
  with r x show ?thesis by (auto simp: pq_take_def pq_pop_def pq_rep_def pchain_upd allocated_def)
qed

interpretation pq: fifo pq_rep allocated "\<lambda>xs. distinct (map fst xs)" "2147483647" "\<lambda>q x. pq_push q (fst x)" pq_take
proof unfold_locales
  fix q and xs :: "(praddr \<times> request) list" and x
  assume "pq_rep q xs" "allocated q x" "distinct (map fst (xs @ [x]))" "length xs < 2147483647"
  then show "\<exists>q'. pq_push q (fst x) = Some q' \<and> pq_rep q' (xs @ [x]) \<and> (\<forall>y. allocated q y \<longrightarrow> allocated q' y)"
    by (intro pq_push_ok)
next
  fix q and x :: "praddr \<times> request" and xs
  assume "pq_rep q (x # xs)"
  then show "\<exists>q'. pq_take q = Some (x, q') \<and> pq_rep q' xs" using pq_take_ok by blast
qed simp

lemma pq_pop_empty: "pq_rep q [] \<Longrightarrow> pq_pop q = Some (0, q)"
  by (simp add: pq_pop_def)

subsection \<open>Connections\<close>

text \<open>
  \<open>out fd\<close> is what was sent on a connection so far, \<open>cl\<close> which connections were closed, in order; what
  happens on one connection does not concern the others.
\<close>

definition connections :: "'n net \<Rightarrow> (int \<Rightarrow> 'n \<Rightarrow> 8 word list) \<Rightarrow> ('n \<Rightarrow> int list) \<Rightarrow> bool" where
  "connections net out cl \<longleftrightarrow> (\<forall>fd. accepts net fd (out fd)) \<and>
     (\<forall>fd fd' d n. fd' \<noteq> fd \<longrightarrow> out fd' (snd (net_send net fd d n)) = out fd' n) \<and>
     (\<forall>fd d n. cl (snd (net_send net fd d n)) = cl n) \<and>
     (\<forall>fd fd' n. out fd' (net_close net fd n) = out fd' n \<and> cl (net_close net fd n) = cl n @ [fd])"

lemma send_all_keeps:
  assumes "\<And>d n. P (snd (net_send net fd d n)) = P n"
  shows "P (http_send_all net fd data s) = P s"
proof (induction "length data" arbitrary: data s rule: less_induct)
  case less
  obtain n s1 where n: "net_send net fd data s = (n, s1)" by fastforce
  with assms [of data s] have p: "P s1 = P s" by simp
  show ?case
  proof (cases "data = [] \<or> n \<le> 0")
    case True
    then show ?thesis using n p by (auto simp: http_send_all.simps [of net fd data s])
  next
    case False
    then have "length (drop (nat n) data) < length data" by (cases data) auto
    from less [OF this, of s1] n p False show ?thesis by (simp add: http_send_all.simps [of net fd data s])
  qed
qed

lemma send_all_connections:
  assumes "connections net out cl"
  shows "out fd (http_send_all net fd data s) = out fd s @ data"
    and "fd' \<noteq> fd \<Longrightarrow> out fd' (http_send_all net fd data s) = out fd' s"
    and "cl (http_send_all net fd data s) = cl s"
proof -
  show "out fd (http_send_all net fd data s) = out fd s @ data"
    using assms by (intro http_send_all_ok) (simp add: connections_def)
  show "cl (http_send_all net fd data s) = cl s"
    by (rule send_all_keeps) (use assms in \<open>simp add: connections_def\<close>)
  show "out fd' (http_send_all net fd data s) = out fd' s" if "fd' \<noteq> fd"
    by (rule send_all_keeps [of "out fd'"]) (use assms that in \<open>simp add: connections_def\<close>)
qed

lemma length_dec_str_le: "n \<le> 2147483647 \<Longrightarrow> length (dec_str n) \<le> 10"
  using length_dec_str [of n] ndig_le [of 10 n 10] by (cases "n = 0") (auto simp: dec_str.simps)

lemma http_respond_ok:
  assumes "connections net out cl" "length (response_head st (cstr ct) (length body)) < 1024"
  shows "\<exists>n'. http_respond net fd st ct body n = Some n' \<and>
    out fd n' = out fd n @ map byte_of (response_head st (cstr ct) (length body)) @ body \<and>
    (\<forall>fd'. fd' \<noteq> fd \<longrightarrow> out fd' n' = out fd' n) \<and> cl n' = cl n"
  using assms(2) send_all_connections [OF assms(1)] by (simp add: http_respond_def printed_def send_text_def)

subsection \<open>One request\<close>

text \<open>The answer to a text, as it is to be on the wire.\<close>

definition text_answer :: "string \<Rightarrow> 8 word list" where
  "text_answer t = (let eol = [CHR 0x0D, CHR 0x0A] in
     map byte_of (''HTTP/1.1 200 OK'' @ eol @ ''Content-Type: text/plain'' @ eol @
       ''Content-Length: '' @ dec_str (length t) @ eol @ ''Connection: close'' @ eol @ eol @ t))"

lemma int_str_200: "int_str 200 = ''200''"
  by code_simp

lemma text_answer_head: "text_answer t = map byte_of (response_head 200 ''text/plain'' (length t)) @ map byte_of t"
  by (simp add: text_answer_def response_head_def http_status_text_def CRLF_def int_str_200)

lemma text_head_length: "int (length t) \<le> int32_max \<Longrightarrow> length (response_head 200 ''text/plain'' (length t)) < 1024"
proof -
  assume "int (length t) \<le> int32_max"
  then have "length (dec_str (length t)) \<le> 10" by (intro length_dec_str_le) (simp add: int32_max_def)
  moreover have "length (int_str 200) = 3" by code_simp
  ultimately show ?thesis by (simp add: response_head_def http_status_text_def CRLF_def)
qed

lemma handle_text:
  assumes "connections net out cl" "str_at (ws_heap w) q t" "int (length t) \<le> int32_max"
  shows "\<exists>n'. http_handle_response net th fd (VString q) w = Some (w\<lparr>ws_net := n'\<rparr>) \<and>
    out fd n' = out fd (ws_net w) @ text_answer t \<and> (\<forall>fd'. fd' \<noteq> fd \<longrightarrow> out fd' n' = out fd' (ws_net w)) \<and> cl n' = cl (ws_net w)"
proof -
  have "extract_response sock (ws_heap w) (VString q) = Some (Whole 200 ''text/plain'' (map byte_of t), ws_heap w)" for sock
    using assms(2) str_at_nonnull [OF assms(2)] by (simp add: extract_response_def text_bytes_def)
  moreover obtain n' where "http_respond net fd 200 ''text/plain'' (map byte_of t) (ws_net w) = Some n'"
    "out fd n' = out fd (ws_net w) @ text_answer t" "\<forall>fd'. fd' \<noteq> fd \<longrightarrow> out fd' n' = out fd' (ws_net w)" "cl n' = cl (ws_net w)"
    using http_respond_ok [OF assms(1), of 200 "''text/plain''" "map byte_of t" fd "ws_net w"] text_head_length [OF assms(3)]
    by (auto simp: text_answer_head)
  ultimately show ?thesis by (intro exI [of _ n']) (simp add: http_handle_response_def)
qed

text \<open>A request object with its method and its url.\<close>

definition request_at :: "heap \<Rightarrow> tsvalue \<Rightarrow> string \<Rightarrow> string \<Rightarrow> bool" where
  "request_at h v m u \<longleftrightarrow> (\<exists>p f a b. v = VObject p \<and> map_at h p f \<and> f ''method'' = Some (VString a) \<and> str_at h a m \<and>
     f ''url'' = Some (VString b) \<and> str_at h b u)"

lemma request_at_ext: "heap_ext h h' \<Longrightarrow> request_at h v m u \<Longrightarrow> request_at h' v m u"
proof -
  assume e: "heap_ext h h'" and "request_at h v m u"
  then obtain p f a b where x: "v = VObject p" "map_at h p f" "f ''method'' = Some (VString a)" "str_at h a m"
    "f ''url'' = Some (VString b)" "str_at h b u" unfolding request_at_def by blast
  have "strs h \<subseteq>\<^sub>m strs h'" using e by (simp add: heap_ext_def)
  from str_at_le [OF this x(4)] str_at_le [OF this x(6)] map_at_ext [OF e x(2)] x(1,3,5)
  show ?thesis unfolding request_at_def by blast
qed

lemma hs_log_simps [simp]: "hs_wss (hs_log t s) = hs_wss s" "hs_servers (hs_log t s) = hs_servers s"
  "g_server (hs_log t s) = g_server s" "g_pending (hs_log t s) = g_pending s" "g_server_inited (hs_log t s) = g_server_inited s"
  by (simp_all add: hs_log_def)

lemma with_simps [simp]:
  "hs_wss (with_heap h s) = (hs_wss s)\<lparr>ws_heap := h\<rparr>" "hs_servers (with_heap h s) = hs_servers s"
  "g_server (with_heap h s) = g_server s" "g_pending (with_heap h s) = g_pending s" "g_server_inited (with_heap h s) = g_server_inited s"
  "hs_wss (with_net n s) = (hs_wss s)\<lparr>ws_net := n\<rparr>" "hs_servers (with_net n s) = hs_servers s"
  "g_server (with_net n s) = g_server s" "g_pending (with_net n s) = g_pending s" "g_server_inited (with_net n s) = g_server_inited s"
  by (simp_all add: with_heap_def with_net_def)

text \<open>A handler that answers with a text made of the method and the url.\<close>

definition answers :: "'n http_env \<Rightarrow> addr \<Rightarrow> (string \<Rightarrow> string \<Rightarrow> string) \<Rightarrow> bool" where
  "answers env f ans \<longleftrightarrow> (\<forall>s v m u. heap_ok (hs_heap s) \<longrightarrow> request_at (hs_heap s) v m u \<longrightarrow>
     (\<exists>q h. he_call env f [v] s = Some (Returned (VString q), with_heap h s) \<and> heap_ok h \<and> heap_ext (hs_heap s) h \<and>
        str_at h q (ans m u)))"

lemma answersD:
  "answers env f ans \<Longrightarrow> heap_ok (hs_heap s) \<Longrightarrow> request_at (hs_heap s) v m u \<Longrightarrow>
   \<exists>q h. he_call env f [v] s = Some (Returned (VString q), with_heap h s) \<and> heap_ok h \<and> heap_ext (hs_heap s) h \<and> str_at h q (ans m u)"
  unfolding answers_def by blast

text \<open>What serving one request leaves as it was.\<close>

definition same_server :: "'n hs \<Rightarrow> 'n hs \<Rightarrow> bool" where
  "same_server s s' \<longleftrightarrow> g_server s' = g_server s \<and> g_server_inited s' = g_server_inited s \<and> hs_servers s' = hs_servers s \<and>
     g_ws_list (hs_wss s') = g_ws_list (hs_wss s)"

lemma free_request:
  assumes "map_at h p f" "heap_ok h"
  shows "\<exists>h'. ts_hashmap_free h p = Some h' \<and> heap_ok h' \<and> strs h' = strs h \<and> (\<forall>q. q \<noteq> p \<longrightarrow> objs h' q = objs h q)"
proof -
  from assms(1) obtain m where m: "objs h p = Some (OMap m)" by (auto simp: map_at_def)
  then show ?thesis using assms(2)
    by (auto simp: ts_hashmap_free_def get_map_def del_obj_def put_obj_def heap_ok_def)
qed

lemma serve_text:
  assumes "hs_servers s (g_server s) = Some srv" "srv_callback srv = VFunction f" "f \<noteq> 0" "answers env f ans"
    and "connections (he_net env) out cl" "heap_ok (hs_heap s)" "request_at (hs_heap s) v m u"
    and "allocated (g_pending s) (p, fd, v, raw)" "int (length (ans m u)) \<le> int32_max"
  shows "\<exists>s'. serve_one env p s = Some (Returned ts_value_undefined, s') \<and> same_server s s' \<and> heap_ok (hs_heap s') \<and>
    g_pending s' = (g_pending s)\<lparr>pq_store := (pq_store (g_pending s))(p := None)\<rparr> \<and>
    out fd (hs_net s') = out fd (hs_net s) @ text_answer (ans m u) \<and> (\<forall>fd'. fd' \<noteq> fd \<longrightarrow> out fd' (hs_net s') = out fd' (hs_net s)) \<and>
    cl (hs_net s') = cl (hs_net s) @ [fd] \<and> (\<forall>v' m' u'. v' \<noteq> v \<longrightarrow> request_at (hs_heap s) v' m' u' \<longrightarrow> request_at (hs_heap s') v' m' u')"
proof -
  obtain r where r: "pq_store (g_pending s) p = Some r" "pr_fd r = fd" "pr_req r = v" "pr_raw r = raw"
    using assms(8) by (auto simp: allocated_def request_of_def)
  let ?s0 = "hs_log (''Calling handler for fd='' @ int_str fd) s"
  from answersD [OF assms(4), of ?s0 v m u] assms(6,7) obtain q h where h: "he_call env f [v] ?s0 = Some (Returned (VString q), with_heap h ?s0)" "heap_ok h"
    "heap_ext (hs_heap s) h" "str_at h q (ans m u)" by auto
  let ?s2 = "hs_log (''Handler returned: tag='' @ int_str (tag_number TAG_STRING)) (with_heap h ?s0)"
  have c: "call_request_handler env r s = Some (Returned (VString q), ?s2)"
    using assms(1-3) r h(1) by (simp add: call_request_handler_def result_is_promise_def ts_value_is_promise_def as_promise_def tagged_def)
  have w: "ws_heap (hs_wss ?s2) = h" "hs_net ?s2 = hs_net s" "hs_wss ?s2 = (hs_wss s)\<lparr>ws_heap := h\<rparr>"
    by simp_all
  obtain n' where n': "http_handle_response (he_net env) (he_timers env) fd (VString q) (hs_wss ?s2) = Some ((hs_wss ?s2)\<lparr>ws_net := n'\<rparr>)"
    "out fd n' = out fd (hs_net s) @ text_answer (ans m u)" "\<forall>fd'. fd' \<noteq> fd \<longrightarrow> out fd' n' = out fd' (hs_net s)" "cl n' = cl (hs_net s)"
    using handle_text [OF assms(5), of "hs_wss ?s2" q "ans m u" "he_timers env" fd] h(4) assms(9) w by auto
  obtain rp g a b where v: "v = VObject rp" "map_at h rp g" using request_at_ext [OF h(3) assms(7)] by (auto simp: request_at_def)
  from free_request [OF v(2) h(2)] obtain h' where h': "ts_hashmap_free h rp = Some h'" "heap_ok h'" "strs h' = strs h"
    "\<forall>q. q \<noteq> rp \<longrightarrow> objs h' q = objs h q" by blast
  let ?s3 = "with_net (net_close (he_net env) fd n') (?s2\<lparr>hs_wss := (hs_wss ?s2)\<lparr>ws_net := n'\<rparr>\<rparr>)"
  let ?s4 = "with_heap h' ?s3\<lparr>g_pending := (g_pending s)\<lparr>pq_store := (pq_store (g_pending s))(p := None)\<rparr>\<rparr>"
  have "serve_one env p s = Some (Returned ts_value_undefined, ?s4)"
    using r c n'(1) h' v(1)
    by (simp add: serve_one_def upgrade_of_def release_request_def)
  moreover have "request_at h' v' m' u'" if "v' \<noteq> v" "request_at (hs_heap s) v' m' u'" for v' m' u'
  proof -
    from request_at_ext [OF h(3) that(2)] obtain p' f' a b where x: "v' = VObject p'" "map_at h p' f'" "f' ''method'' = Some (VString a)" "str_at h a m'"
     "f' ''url'' = Some (VString b)" "str_at h b u'" unfolding request_at_def by blast
    then have "map_at h' p' f'" using that(1) v(1) h'(4) by (simp add: map_at_def)
    moreover have "str_at h' a m'" "str_at h' b u'" using x(4,6) by (simp_all only: str_at_cong [OF h'(3)])
    ultimately show ?thesis using x unfolding request_at_def by blast
  qed
  moreover have "same_server s ?s4" by (simp add: same_server_def)
  moreover have "hs_heap ?s4 = h'" "hs_net ?s4 = net_close (he_net env) fd n'" "g_pending ?s4 = (g_pending s)\<lparr>pq_store := (pq_store (g_pending s))(p := None)\<rparr>"
    by simp_all
  moreover have "out fd' (net_close (he_net env) fd n') = out fd' n'" "cl (net_close (he_net env) fd n') = cl n' @ [fd]" for fd'
    using assms(5) by (simp_all add: connections_def)
  ultimately show ?thesis using h'(2) n'(2-4) by (intro exI [of _ ?s4]) simp
qed

subsection \<open>All requests\<close>

text \<open>The requests of the queue are for \<open>rs\<close>, pairs of method and url; each has an object of its own.\<close>

definition req_fd :: "praddr \<times> request \<Rightarrow> int" where
  "req_fd x = fst (snd x)"

definition req_value :: "praddr \<times> request \<Rightarrow> tsvalue" where
  "req_value x = fst (snd (snd x))"

lemma req_simps [simp]: "req_fd (p, fd, v, raw) = fd" "req_value (p, fd, v, raw) = v"
  by (simp_all add: req_fd_def req_value_def)

definition requests_at :: "heap \<Rightarrow> (praddr \<times> request) list \<Rightarrow> (string \<times> string) list \<Rightarrow> bool" where
  "requests_at h xs rs \<longleftrightarrow> list_all2 (\<lambda>(p, fd, v, raw) (m, u). request_at h v m u) xs rs \<and> distinct (map req_value xs)"

text \<open>What is sent on the connection \<open>fd\<close>.\<close>

fun sent_on :: "(string \<Rightarrow> string \<Rightarrow> string) \<Rightarrow> int \<Rightarrow> (praddr \<times> request) list \<Rightarrow> (string \<times> string) list \<Rightarrow> 8 word list" where
  "sent_on ans fd ((p, fd', v, raw) # xs) ((m, u) # rs) = (if fd' = fd then text_answer (ans m u) else []) @ sent_on ans fd xs rs"
| "sent_on ans fd _ _ = []"

lemma requests_at_member:
  assumes "requests_at h xs rs" "z \<in> set xs" shows "\<exists>m u. request_at h (req_value z) m u"
proof -
  have "list_all2 (\<lambda>(p, fd, v, raw) (m, u). request_at h v m u) xs rs" using assms(1) by (simp add: requests_at_def)
  then show ?thesis using assms(2)
  proof (induction rule: list_all2_induct)
    case (Cons x xs y ys)
    obtain m u where y: "y = (m, u)" by (cases y)
    with Cons.hyps(1) have "request_at h (req_value x) m u" by (cases x) simp
    with Cons.IH Cons.prems show ?case by auto
  qed simp
qed

lemma requests_at_other:
  assumes "requests_at h xs rs" "v \<notin> req_value ` set xs"
    and "\<And>v' m u. v' \<noteq> v \<Longrightarrow> request_at h v' m u \<Longrightarrow> request_at h' v' m u"
  shows "requests_at h' xs rs"
proof -
  have "list_all2 (\<lambda>(p, fd, v, raw) (m, u). request_at h v m u) xs rs" using assms(1) by (simp add: requests_at_def)
  then have "list_all2 (\<lambda>(p, fd, v, raw) (m, u). request_at h' v m u) xs rs"
    using assms(2)
  proof (induction rule: list_all2_induct)
    case (Cons x xs y ys)
    then show ?case using assms(3) by (cases x; cases y) auto
  qed simp
  with assms(1) show ?thesis by (simp add: requests_at_def)
qed

lemma pq_rep_free: "pq_rep q xs \<Longrightarrow> p \<notin> fst ` set xs \<Longrightarrow> pq_rep (q\<lparr>pq_store := (pq_store q)(p := None)\<rparr>) xs"
  by (simp add: pq_rep_def pchain_upd)

lemma drain_texts:
  assumes "hs_servers s (g_server s) = Some srv" "srv_callback srv = VFunction f" "f \<noteq> 0" "answers env f ans"
    and "connections (he_net env) out cl"
    and "pq_rep (g_pending s) xs" "heap_ok (hs_heap s)" "requests_at (hs_heap s) xs rs" "\<forall>(m, u) \<in> set rs. int (length (ans m u)) \<le> int32_max"
  shows "\<exists>s'. drain_requests env s = Some (Returned ts_value_undefined, s') \<and> same_server s s' \<and> pq_rep (g_pending s') [] \<and>
    (\<forall>fd. out fd (hs_net s') = out fd (hs_net s) @ sent_on ans fd xs rs) \<and>
    cl (hs_net s') = cl (hs_net s) @ map req_fd xs"
  using assms(1,6-9)
proof (induction xs arbitrary: s rs)
  case Nil
  then show ?case by (subst drain_requests.simps) (simp add: pq_pop_empty same_server_def)
next
  case (Cons x xs)
  obtain p fd v raw where x: "x = (p, fd, v, raw)" by (cases x)
  from Cons.prems(4) x obtain m u rs' where rs: "rs = (m, u) # rs'" "request_at (hs_heap s) v m u" "requests_at (hs_heap s) xs rs'"
    "v \<notin> req_value ` set xs" by (auto simp: requests_at_def list_all2_Cons1)
  from pq_take_ok [OF Cons.prems(2)] x obtain q where q: "pq_pop (g_pending s) = Some (p, q)" "pq_rep q xs" "allocated q (p, fd, v, raw)"
    by auto
  let ?s = "s\<lparr>g_pending := q\<rparr>"
  from serve_text [of ?s srv f env ans out cl v m u p fd raw] assms(2-5) Cons.prems(1,3,5) rs(1,2) q(3) obtain s1 where s1:
    "serve_one env p ?s = Some (Returned ts_value_undefined, s1)" "same_server ?s s1" "heap_ok (hs_heap s1)"
    "g_pending s1 = q\<lparr>pq_store := (pq_store q)(p := None)\<rparr>"
    "out fd (hs_net s1) = out fd (hs_net s) @ text_answer (ans m u)" "\<forall>fd'. fd' \<noteq> fd \<longrightarrow> out fd' (hs_net s1) = out fd' (hs_net s)"
    "cl (hs_net s1) = cl (hs_net s) @ [fd]"
    "\<forall>v' m' u'. v' \<noteq> v \<longrightarrow> request_at (hs_heap s) v' m' u' \<longrightarrow> request_at (hs_heap s1) v' m' u'" by auto
  have "p \<notin> fst ` set xs" using Cons.prems(2) x by (auto simp: pq_rep_def)
  then have "pq_rep (g_pending s1) xs" using q(2) s1(4) by (simp add: pq_rep_free)
  moreover have "requests_at (hs_heap s1) xs rs'"
    by (rule requests_at_other [OF rs(3,4)]) (use s1(8) in blast)
  moreover have "hs_servers s1 (g_server s1) = Some srv" using s1(2) Cons.prems(1) by (simp add: same_server_def)
  moreover have "\<forall>(m, u) \<in> set rs'. int (length (ans m u)) \<le> int32_max" using Cons.prems(5) rs(1) by simp
  ultimately obtain s' where s': "drain_requests env s1 = Some (Returned ts_value_undefined, s')" "same_server s1 s'" "pq_rep (g_pending s') []"
    "\<forall>fd. out fd (hs_net s') = out fd (hs_net s1) @ sent_on ans fd xs rs'" "cl (hs_net s') = cl (hs_net s1) @ map req_fd xs"
    using Cons.IH s1(3) by blast
  have "p \<noteq> 0" using q(3) by (simp add: allocated_def)
  then have "drain_requests env s = Some (Returned ts_value_undefined, s')"
    using q(1) s1(1) s'(1) by (subst drain_requests.simps) simp
  moreover have "same_server s s'" using s1(2) s'(2) by (simp add: same_server_def)
  moreover have "out fd' (hs_net s') = out fd' (hs_net s) @ sent_on ans fd' (x # xs) rs" for fd'
    using s1(5,6) s'(4) by (cases "fd' = fd") (auto simp: x rs(1))
  ultimately show ?case using s'(3,5) s1(7) x by (intro exI [of _ s']) simp
qed

lemma poll_texts:
  assumes "g_server s \<noteq> 0" "g_server_inited s" "hs_servers s (g_server s) = Some srv" "srv_callback srv = VFunction f" "f \<noteq> 0"
    and "answers env f ans" "connections (he_net env) out cl" "\<forall>(m, u) \<in> set rs. int (length (ans m u)) \<le> int32_max"
    and "pq_rep (g_pending s) xs" "heap_ok (hs_heap s)" "requests_at (hs_heap s) xs rs"
    and "\<forall>w. \<not> th_pending (he_timers env) w" "g_ws_list (hs_wss s) = 0"
  shows "\<exists>s'. node_http_server_poll env s = Some (Returned ts_value_undefined, s') \<and> \<not> node_http_server_pending s' \<and>
    (\<forall>fd. out fd (hs_net s') = out fd (hs_net s) @ sent_on ans fd xs rs) \<and>
    cl (hs_net s') = cl (hs_net s) @ map req_fd xs"
proof -
  from drain_texts [OF assms(3-7,9-11,8)] obtain s' where s': "drain_requests env s = Some (Returned ts_value_undefined, s')" "same_server s s'"
    "pq_rep (g_pending s') []" "\<forall>fd. out fd (hs_net s') = out fd (hs_net s) @ sent_on ans fd xs rs"
    "cl (hs_net s') = cl (hs_net s) @ map req_fd xs" by blast
  have "pump_rest env (hs_wss s') = Some (hs_wss s')"
    using assms(12,13) s'(2) by (simp add: pump_rest_def same_server_def ts_websocket_pending_def pending_from.simps)
  then show ?thesis using assms(1,2) s' by (simp add: node_http_server_poll_def node_http_server_pending_def pq_empty_def)
qed


text \<open>
  C1. A turn of the server empties the queue: with a handler that answers with a text each request is
  answered with that text on its own connection, in the order of arrival, and each connection is closed.
\<close>

theorem http_poll_answers:
  assumes "g_server s \<noteq> 0" "g_server_inited s" "hs_servers s (g_server s) = Some srv" "srv_callback srv = VFunction f" "f \<noteq> 0"
    and "answers env f ans" "connections (he_net env) out cl" "\<forall>(m, u) \<in> set rs. int (length (ans m u)) \<le> int32_max"
    and "pq_rep (g_pending s) xs" "heap_ok (hs_heap s)" "requests_at (hs_heap s) xs rs"
    and "\<forall>w. \<not> th_pending (he_timers env) w" "g_ws_list (hs_wss s) = 0"
  shows "\<exists>s'. node_http_server_poll env s = Some (Returned ts_value_undefined, s') \<and> \<not> node_http_server_pending s' \<and>
    (\<forall>fd. out fd (hs_net s') = out fd (hs_net s) @ sent_on ans fd xs rs) \<and>
    cl (hs_net s') = cl (hs_net s) @ map req_fd xs"
  by (rule poll_texts [OF assms])

subsection \<open>From the socket to the answer\<close>

lemma request_at_live: "request_at h v m u \<Longrightarrow> heap_ok h \<Longrightarrow> \<exists>p. v = VObject p \<and> p < nxt h"
  unfolding request_at_def heap_ok_def map_at_def by (metis not_le option.distinct(1))

lemma accept_request:
  assumes "hs_servers s (g_server s) = Some srv" "tcp_accept (he_tcp env) (srv_fd srv) (hs_net s) = (fd, n)" "0 \<le> fd"
    and "read_request (he_net env) fd 20 [] n = Some (request_text m u kvs @ body, n1)"
    and "word_ok 15 m" "word_ok 255 u" "\<forall>kv \<in> set kvs. field_ok kv" "length kvs < HM_LIMIT" "NUL \<notin> set body"
    and "p \<noteq> 0" "pq_store (g_pending s) p = None" "pq_rep (g_pending s) xs" "heap_ok (hs_heap s)" "requests_at (hs_heap s) xs rs"
  shows "\<exists>s' x. http_accept_one env p s = Some s' \<and> pq_rep (g_pending s') (xs @ [x]) \<and> req_fd x = fd \<and> heap_ok (hs_heap s') \<and>
    requests_at (hs_heap s') (xs @ [x]) (rs @ [(m, u)]) \<and> same_server s s' \<and> hs_net s' = n1"
proof -
  let ?h = "hs_heap s" and ?buf = "request_text m u kvs @ body"
  from http_parse_ok [OF assms(13,5-9)] obtain q r hp h' where h': "http_parse_request ?buf ?h = Some (VObject (nxt ?h), h')" "heap_ok h'"
    "map_at h' (nxt ?h) [''method'' \<mapsto> VString q, ''url'' \<mapsto> VString r, ''headers'' \<mapsto> VObject hp]" "str_at h' q m" "str_at h' r u"
    "strs ?h \<subseteq>\<^sub>m strs h'" "\<forall>q < nxt ?h. objs h' q = objs ?h q" by blast
  let ?x = "(p, fd, VObject (nxt ?h), ?buf)" and ?r = "\<lparr>pr_fd = fd, pr_req = VObject (nxt ?h), pr_raw = ?buf, pr_next = 0\<rparr>"
  let ?q = "(g_pending s)\<lparr>pq_store := (pq_store (g_pending s))(p \<mapsto> ?r)\<rparr>"
  have p: "p \<notin> fst ` set xs" using assms(11,12) pchain_live unfolding pq_rep_def by fastforce
  then have "pq_rep ?q xs" "allocated ?q ?x" "distinct (map fst (xs @ [?x]))"
    using assms(10,12) by (auto simp: pq_rep_def pchain_upd allocated_def request_of_def)
  from pq_push_ok [OF this] obtain q' where q': "pq_push ?q p = Some q'" "pq_rep q' (xs @ [?x])" by auto
  have ne: "request_text m u kvs \<noteq> []" using assms(5) by (simp add: request_text_def word_ok_def)
  let ?s = "with_heap h' (with_net n1 s)\<lparr>g_pending := q'\<rparr>"
  have "http_accept_one env p s = Some ?s"
    using assms(1-4) ne h'(1) q'(1) by (simp add: http_accept_one_def)
  moreover have keep: "request_at h' v' m' u'" if "request_at ?h v' m' u'" for v' m' u'
  proof -
    from that obtain p' g a b where x: "v' = VObject p'" "map_at ?h p' g" "g ''method'' = Some (VString a)" "str_at ?h a m'"
      "g ''url'' = Some (VString b)" "str_at ?h b u'" unfolding request_at_def by blast
    moreover have "map_at h' p' g" using request_at_live [OF that assms(13)] h'(7) x(1,2) by (auto simp: map_at_def)
    ultimately show ?thesis using str_at_le [OF h'(6)] unfolding request_at_def by blast
  qed
  have "requests_at h' (xs @ [?x]) (rs @ [(m, u)])"
  proof -
    have live: "req_value y \<noteq> VObject (nxt ?h)" if "y \<in> set xs" for y
    proof -
      from requests_at_member [OF assms(14) that] obtain m u where "request_at ?h (req_value y) m u" by blast
      from request_at_live [OF this assms(13)] show ?thesis by auto
    qed
    have l: "list_all2 (\<lambda>(p, fd, v, raw) (m, u). request_at h' v m u) xs rs"
      using assms(14) keep unfolding requests_at_def by (auto elim!: list_all2_mono)
    have "request_at h' (VObject (nxt ?h)) m u" unfolding request_at_def using h'(3-5) by fastforce
    then have "list_all2 (\<lambda>(p, fd, v, raw) (m, u). request_at h' v m u) (xs @ [?x]) (rs @ [(m, u)])"
      by (intro list_all2_appendI [OF l]) (simp only: list_all2_Cons list_all2_Nil prod.case simp_thms)
    moreover have "VObject (nxt ?h) \<notin> req_value ` set xs" using live by force
    then have "distinct (map req_value (xs @ [?x]))" using assms(14) by (simp add: requests_at_def)
    ultimately show ?thesis unfolding requests_at_def by blast
  qed
  moreover have "same_server s ?s" by (simp add: same_server_def)
  ultimately show ?thesis using q'(2) h'(2) by (intro exI [of _ ?s] exI [of _ ?x]) simp
qed

text \<open>C8. A request, with words and fields that fit the buffers of the parser and a body without NUL, that
  arrives at a server whose handler answers every request with a text, made of the method and the url and of
  at most 2^31-1 bytes, and changes nothing but the heap, is answered when no timer and no WebSocket is
  there and the connections take what is sent: the accept thread reads the request and puts it into the
  queue, and the next turn of the main thread sends the handler's text on the connection, with status
  200 and its length, behind the answers to the requests that were there before, closes the connections
  and leaves no request.
\<close>

theorem http_request_is_answered:
  assumes "g_server s \<noteq> 0" "g_server_inited s" "hs_servers s (g_server s) = Some srv" "srv_callback srv = VFunction f" "f \<noteq> 0"
    and "answers env f ans" "connections (he_net env) out cl" "\<forall>(m, u) \<in> set (rs @ [(m, u)]). int (length (ans m u)) \<le> int32_max"
    and "pq_rep (g_pending s) xs" "heap_ok (hs_heap s)" "requests_at (hs_heap s) xs rs"
    and "\<forall>w. \<not> th_pending (he_timers env) w" "g_ws_list (hs_wss s) = 0"
    and "tcp_accept (he_tcp env) (srv_fd srv) (hs_net s) = (fd, n)" "0 \<le> fd"
    and "read_request (he_net env) fd 20 [] n = Some (request_text m u kvs @ body, n')"
    and "word_ok 15 m" "word_ok 255 u" "\<forall>kv \<in> set kvs. field_ok kv" "length kvs < HM_LIMIT" "NUL \<notin> set body"
    and "p \<noteq> 0" "pq_store (g_pending s) p = None"
  shows "\<exists>s1 s'. http_accept_one env p s = Some s1 \<and> node_http_server_pending s1 \<and>
    node_http_server_poll env s1 = Some (Returned ts_value_undefined, s') \<and> \<not> node_http_server_pending s' \<and>
    out fd (hs_net s') = out fd n' @ sent_on ans fd xs rs @ text_answer (ans m u) \<and>
    cl (hs_net s') = cl n' @ map req_fd xs @ [fd]"
proof -
  from accept_request [OF assms(3,14-23,9-11)] obtain s1 x where s1: "http_accept_one env p s = Some s1" "pq_rep (g_pending s1) (xs @ [x])"
    "req_fd x = fd" "heap_ok (hs_heap s1)" "requests_at (hs_heap s1) (xs @ [x]) (rs @ [(m, u)])" "same_server s s1" "hs_net s1 = n'" by blast
  have g: "g_server s1 \<noteq> 0" "g_server_inited s1" "hs_servers s1 (g_server s1) = Some srv" "g_ws_list (hs_wss s1) = 0"
    using assms(1-3,13) s1(6) by (simp_all add: same_server_def)
  from poll_texts [OF g(1-3) assms(4-8) s1(2,4,5) assms(12) g(4)] obtain s' where
    "node_http_server_poll env s1 = Some (Returned ts_value_undefined, s')" "\<not> node_http_server_pending s'"
    "\<forall>fd. out fd (hs_net s') = out fd n' @ sent_on ans fd (xs @ [x]) (rs @ [(m, u)])" "cl (hs_net s') = cl n' @ map req_fd (xs @ [x])"
    unfolding s1(7) by blast
  moreover have "sent_on ans fd (xs @ [x]) (rs @ [(m, u)]) = sent_on ans fd xs rs @ text_answer (ans m u)"
  proof -
    have "length xs = length rs" using assms(11) by (auto simp: requests_at_def list_all2_lengthD)
    then have "sent_on ans fd (xs @ ys) (rs @ zs) = sent_on ans fd xs rs @ sent_on ans fd ys zs" for ys zs
      by (induction xs rs rule: list_induct2) (auto split: prod.splits)
    then show ?thesis using s1(3) by (cases x) simp
  qed
  moreover have "node_http_server_pending s1"
    using s1(2) by (cases xs; cases x) (auto simp: node_http_server_pending_def pq_empty_def pq_rep_def)
  ultimately show ?thesis using s1(1,3) by auto
qed


subsection \<open>A server that echoes\<close>

text \<open>A network of queues of bytes: what was sent on each connection, which were closed, what arrives.\<close>

type_synonym wires = "(int \<Rightarrow> 8 word list) \<times> int list \<times> 8 word list"

definition wires_net :: "wires net" where
  "wires_net = \<lparr>net_recv = (\<lambda>fd n (o', c, i). (Received (take n i), (o', c, drop n i))),
     net_send = (\<lambda>fd d (o', c, i). (int (length d), (o'(fd := o' fd @ d), c, i))), net_close = (\<lambda>fd (o', c, i). (o', c @ [fd], i)),
     net_connect = (\<lambda>_ _ w. (NoHost, w)), net_rand = (\<lambda>w. (4, w)), net_sleep = (\<lambda>w. w)\<rparr>"

definition wires_tcp :: "wires tcp" where
  "wires_tcp = \<lparr>tcp_net = wires_net, tcp_socket = (\<lambda>w. (3, w)), tcp_bind = (\<lambda>_ _ w. (True, w)), tcp_listen = (\<lambda>_ w. (True, w)),
     tcp_accept = (\<lambda>_ w. (7, w)), tcp_connect = (\<lambda>_ _ _ w. (False, w))\<rparr>"

text \<open>The handler at address 5 answers with the url.\<close>

definition echo_call :: "addr \<Rightarrow> tsvalue list \<Rightarrow> wires hs \<Rightarrow> (outcome \<times> wires hs) option" where
  "echo_call f args s = (case args of
     [VObject p] \<Rightarrow> do { v \<leftarrow> map_get (hs_heap s) p ''url''; Some (Returned v, s) }
   | _ \<Rightarrow> Some (Returned VNull, s))"

definition echo_env :: "wires http_env" where
  "echo_env = \<lparr>he_tcp = wires_tcp, he_ws_code = (\<lambda>_ _. Some), he_call = echo_call,
     he_loop = \<lparr>el_promise = (\<lambda>_ _. None), el_timers_pending = (\<lambda>_. False), el_timers_poll = Pair 0, el_completion_poll = Pair 0,
       el_jobs_pending = (\<lambda>_. False), el_completion_wait = (\<lambda>s. s)\<rparr>,
     he_timers = \<lparr>th_pending = (\<lambda>_. False), th_poll = Some\<rparr>\<rparr>"

definition echo_state :: "heap \<Rightarrow> string \<Rightarrow> wires hs" where
  "echo_state h inbox = \<lparr>hs_wss = \<lparr>ws_heap = h, ws_socks = (\<lambda>_. None), g_ws_list = 0, g_ws_count = 0, g_ws_polling = False,
       ws_net = (\<lambda>_. [], [], map byte_of inbox)\<rparr>,
     hs_servers = [9 \<mapsto> \<lparr>srv_type_tag = HTTP_SERVER_TAG, srv_fd = 3, srv_callback = VFunction 5\<rparr>],
     g_pending = \<lparr>pq_store = Map.empty, pq_head = 0, pq_tail = 0\<rparr>, g_server = 9, g_server_inited = True,
     g_accept_thread_created = True, hs_out = [], hs_err = []\<rparr>"

lemma wires_connections: "connections wires_net (\<lambda>fd w. fst w fd) (\<lambda>w. fst (snd w))"
proof -
  have "\<exists>n s'. net_send wires_net fd d s = (int n, s') \<and> 0 < n \<and> n \<le> length d \<and> fst s' fd = fst s fd @ take n d" if "d \<noteq> []" for fd d s
    using that by (intro exI [of _ "length d"]) (simp add: wires_net_def split: prod.splits)
  then have "accepts wires_net fd (\<lambda>w. fst w fd)" for fd
    by (simp add: accepts_def) (simp add: wires_net_def)
  then show ?thesis by (simp add: connections_def) (auto simp: wires_net_def)
qed

lemma echo_answers: "answers echo_env 5 (\<lambda>m u. u)"
  unfolding answers_def
proof (intro allI impI)
  fix s :: "wires hs" and v m u
  assume h: "heap_ok (hs_heap s)" and "request_at (hs_heap s) v m u"
  then obtain p f b where r: "v = VObject p" "map_at (hs_heap s) p f" "f ''url'' = Some (VString b)" "str_at (hs_heap s) b u"
    unfolding request_at_def by blast
  then have "he_call echo_env 5 [v] s = Some (Returned (VString b), s)"
    by (simp add: echo_env_def echo_call_def map_get_at prop_of_def)
  moreover have "with_heap (hs_heap s) s = s" by (simp add: with_heap_def)
  ultimately show "\<exists>q h. he_call echo_env 5 [v] s = Some (Returned (VString q), with_heap h s) \<and> heap_ok h \<and> heap_ext (hs_heap s) h \<and>
      str_at h q u" using h r(4) by (intro exI [of _ b] exI [of _ "hs_heap s"]) simp
qed

abbreviation demo_request :: string where
  "demo_request \<equiv> request_text ''GET'' ''/page'' [(''Host'', ''example.org'')]"

lemma echo_reads: "read_request wires_net 7 20 [] (o', c, map byte_of demo_request) = Some (demo_request @ [], (o', c, []))"
proof -
  let ?bs = "map byte_of demo_request"
  have l: "length ?bs \<le> 4095" "?bs \<noteq> []" by (simp_all add: request_text_def field_line_def CRLF_def)
  then have recv: "net_recv wires_net 7 (4095 - length []) (o', c, ?bs) = (Received ?bs, (o', c, []))" by (simp add: wires_net_def)
  have c: "[] @ map char_of_byte ?bs = demo_request" by (simp add: comp_def)
  have e: "strstr (cstr demo_request) (CRLF @ CRLF) = Some 37" by code_simp
  have n: "(20::nat) = Suc 19" by simp
  have "length demo_request \<le> 4095" using l(1) by (simp only: length_map)
  then show ?thesis
    unfolding n read_request.simps recv prod.case recv_result.case c Let_def e using l(2) by (simp only: if_False option.simps append_Nil2 not_less [symmetric]) simp
qed

lemma echo_simps:
  "g_server (echo_state h t) = 9" "g_server_inited (echo_state h t)" "pq_rep (g_pending (echo_state h t)) []"
  "hs_servers (echo_state h t) 9 = Some \<lparr>srv_type_tag = HTTP_SERVER_TAG, srv_fd = 3, srv_callback = VFunction 5\<rparr>"
  "hs_heap (echo_state h t) = h" "hs_net (echo_state h t) = (\<lambda>_. [], [], map byte_of t)" "g_ws_list (hs_wss (echo_state h t)) = 0"
  "pq_store (g_pending (echo_state h t)) p = None" "he_net echo_env = wires_net" "he_tcp echo_env = wires_tcp"
  "tcp_net wires_tcp = wires_net" "pq_head (g_pending (echo_state h t)) = 0" "pq_tail (g_pending (echo_state h t)) = 0"
  "th_pending (he_timers echo_env) w = False" "tcp_accept wires_tcp k n = (7, n)"
  by (simp_all add: echo_state_def echo_env_def wires_tcp_def)

lemma http_request_is_answered_witness:
  "\<exists>s1 s'. http_accept_one echo_env 1 (echo_state empty_heap demo_request) = Some s1 \<and> node_http_server_pending s1 \<and>
    node_http_server_poll echo_env s1 = Some (Returned ts_value_undefined, s') \<and> \<not> node_http_server_pending s' \<and>
    fst (hs_net s') 7 = text_answer ''/page'' \<and> fst (snd (hs_net s')) = [7]"
  using http_request_is_answered [where s = "echo_state empty_heap demo_request" and f = 5 and env = echo_env and ans = "\<lambda>m u. u"
      and out = "\<lambda>fd w. fst w fd" and cl = "\<lambda>w. fst (snd w)" and xs = "[]" and rs = "[]" and fd = 7
      and n = "(\<lambda>_. [], [], map byte_of demo_request)" and m = "''GET''" and u = "''/page''" and kvs = "[(''Host'', ''example.org'')]"
      and body = "[]" and n' = "(\<lambda>_. [], [], [])" and p = 1]
    echo_answers wires_connections echo_reads [of "\<lambda>_. []" "[]"]
  by (simp add: echo_simps requests_at_def word_ok_def field_ok_def is_space_def is_blank_def HM_LIMIT_def int32_max_def)

lemma echo_accepts:
  "\<exists>s1 x. http_accept_one echo_env 1 (echo_state empty_heap demo_request) = Some s1 \<and> pq_rep (g_pending s1) [x] \<and> req_fd x = 7 \<and>
    heap_ok (hs_heap s1) \<and> requests_at (hs_heap s1) [x] [(''GET'', ''/page'')] \<and> same_server (echo_state empty_heap demo_request) s1 \<and>
    hs_net s1 = (\<lambda>_. [], [], [])"
  using accept_request [where s = "echo_state empty_heap demo_request" and env = echo_env and xs = "[]" and rs = "[]" and fd = 7
      and n = "(\<lambda>_. [], [], map byte_of demo_request)" and m = "''GET''" and u = "''/page''" and kvs = "[(''Host'', ''example.org'')]"
      and body = "[]" and p = 1] echo_reads [of "\<lambda>_. []" "[]"]
  by (simp add: echo_simps requests_at_def word_ok_def field_ok_def is_space_def is_blank_def HM_LIMIT_def)

lemma http_poll_answers_witness:
  "\<exists>s x s'. pq_rep (g_pending s) [x] \<and> req_fd x = 7 \<and> node_http_server_poll echo_env s = Some (Returned ts_value_undefined, s') \<and>
    \<not> node_http_server_pending s' \<and> fst (hs_net s') 7 = text_answer ''/page'' \<and> fst (hs_net s') 8 = [] \<and> fst (snd (hs_net s')) = [7]"
proof -
  from echo_accepts obtain s1 x where s1: "pq_rep (g_pending s1) [x]" "req_fd x = 7" "heap_ok (hs_heap s1)"
    "requests_at (hs_heap s1) [x] [(''GET'', ''/page'')]" "same_server (echo_state empty_heap demo_request) s1" "hs_net s1 = (\<lambda>_. [], [], [])" by blast
  have g: "g_server s1 \<noteq> 0" "g_server_inited s1" "g_ws_list (hs_wss s1) = 0"
    "hs_servers s1 (g_server s1) = Some \<lparr>srv_type_tag = HTTP_SERVER_TAG, srv_fd = 3, srv_callback = VFunction 5\<rparr>"
    using s1(5) by (simp_all add: same_server_def echo_simps)
  have c: "connections (he_net echo_env) (\<lambda>fd w. fst w fd) (\<lambda>w. fst (snd w))" using wires_connections by (simp only: echo_simps)
  from http_poll_answers [OF g(1,2,4) _ _ echo_answers c _ s1(1,3,4) _ g(3)] obtain s' where
    "node_http_server_poll echo_env s1 = Some (Returned ts_value_undefined, s')" "\<not> node_http_server_pending s'"
    "\<forall>fd. fst (hs_net s') fd = fst (hs_net s1) fd @ sent_on (\<lambda>m u. u) fd [x] [(''GET'', ''/page'')]"
    "fst (snd (hs_net s')) = fst (snd (hs_net s1)) @ map req_fd [x]" by (auto simp: echo_simps int32_max_def)
  with s1(1,2,6) show ?thesis by (cases x) (intro exI [of _ s1] exI [of _ x] exI [of _ s'], simp)
qed

definition failing_env :: "wires http_env" where
  "failing_env = echo_env\<lparr>he_call := (\<lambda>_ _ t. Some (Thrown VNull, t))\<rparr>"

definition waiting_state :: "wires hs" where
  "waiting_state = (echo_state empty_heap [])\<lparr>g_pending :=
     \<lparr>pq_store = [1 \<mapsto> \<lparr>pr_fd = 7, pr_req = VObject 1, pr_raw = [], pr_next = 0\<rparr>], pq_head = 1, pq_tail = 1\<rparr>\<rparr>"


end
