(* ===== verification/Ts_Workers.thy ===== *)
theory Ts_Workers
  imports Ts_Objmap Ts_Fifo
begin

text \<open>
  \<^verbatim>\<open>runtime/src/builtins/node_worker_threads.c\<close>: message queues, ports, channels, workers, broadcast channels
  and the data of the environment. An operation is atomic: what it does to a queue it does under the
  lock of the queue. The entry function of the program is a parameter.
\<close>

subsection \<open>Message queues\<close>

text \<open>
  An entry belongs to one queue from \<^verbatim>\<open>malloc\<close> to \<^verbatim>\<open>free\<close>, so each queue has a store of its own entries;
  \<open>mq_fresh\<close> is the next address of it.
\<close>

type_synonym meaddr = nat

record msg_entry =
  me_data :: "tsvalue"
  me_next :: meaddr

record msg_queue =
  mq_store :: "meaddr \<Rightarrow> msg_entry option"
  mq_fresh :: meaddr
  mq_head :: meaddr
  mq_tail :: meaddr
  mq_count :: int

definition mq_create :: msg_queue where
  "mq_create = \<lparr>mq_store = Map.empty, mq_fresh = 1, mq_head = 0, mq_tail = 0, mq_count = 0\<rparr>"

definition mq_push :: "msg_queue \<Rightarrow> tsvalue \<Rightarrow> msg_queue option" where
  "mq_push q v = do {
     let p = mq_fresh q;
     let st = (mq_store q)(p \<mapsto> \<lparr>me_data = v, me_next = 0\<rparr>);
     n \<leftarrow> ck32 (mq_count q + 1);
     let q1 = q\<lparr>mq_fresh := Suc p, mq_tail := p, mq_count := n\<rparr>;
     if mq_tail q \<noteq> 0 then do {
       t \<leftarrow> st (mq_tail q);
       Some (q1\<lparr>mq_store := st(mq_tail q \<mapsto> t\<lparr>me_next := p\<rparr>)\<rparr>) }
     else Some (q1\<lparr>mq_store := st, mq_head := p\<rparr>) }"

text \<open>The end of \<^verbatim>\<open>mq_pop\<close>, when there is an entry.\<close>

definition mq_take :: "msg_queue \<Rightarrow> (tsvalue \<times> msg_queue) option" where
  "mq_take q = do {
     e \<leftarrow> mq_store q (mq_head q);
     n \<leftarrow> ck32 (mq_count q - 1);
     Some (me_data e, q\<lparr>mq_store := (mq_store q)(mq_head q := None), mq_head := me_next e,
       mq_tail := (if me_next e = 0 then 0 else mq_tail q), mq_count := n\<rparr>) }"

text \<open>
  A turn of \<^verbatim>\<open>mq_pop\<close> from taking the lock, or waking up with it: a value, or another wait.
  \<open>expired\<close> is whether the timed wait before it has ended by the clock.
\<close>

datatype mq_result = MGot "tsvalue" | MWait

definition mq_pop :: "int \<Rightarrow> bool \<Rightarrow> msg_queue \<Rightarrow> (mq_result \<times> msg_queue) option" where
  "mq_pop timeout_ms expired q =
    (if mq_head q \<noteq> 0 then do { (v, q') \<leftarrow> mq_take q; Some (MGot v, q') }
     else if timeout_ms = 0 then Some (MGot ts_value_undefined, q)
     else if timeout_ms > 0 \<and> expired then Some (MGot ts_value_undefined, q)
     else Some (MWait, q))"

text \<open>With the timeout zero, as all its callers have it, it does not wait.\<close>

definition mq_poll :: "msg_queue \<Rightarrow> (tsvalue \<times> msg_queue) option" where
  "mq_poll q = do { (r, q') \<leftarrow> mq_pop 0 False q; case r of MGot v \<Rightarrow> Some (v, q') | MWait \<Rightarrow> None }"

definition mq_pending :: "msg_queue \<Rightarrow> int" where
  "mq_pending q = mq_count q"

subsection \<open>Objects\<close>

record msg_port =
  mp_refcount :: int
  mp_inbox :: msg_queue
  mp_onmessage :: "tsvalue"
  mp_onmessageerror :: "tsvalue"
  mp_closed :: bool
  mp_refed :: bool

record worker =
  wk_refcount :: int
  wk_thread_id :: int
  wk_thread_name :: bool
  wk_filename :: addr
  wk_port :: addr
  wk_workerData :: "tsvalue"
  wk_onmessage :: "tsvalue"
  wk_onmessageerror :: "tsvalue"
  wk_onerror :: "tsvalue"
  wk_onexit :: "tsvalue"
  wk_started :: bool
  wk_terminated :: bool
  wk_refed :: bool

record broadcast =
  bc_refcount :: int
  bc_name :: addr
  bc_onmessage :: "tsvalue"
  bc_onmessageerror :: "tsvalue"

text \<open>
  What stands at the address of an object of this module, told apart by its tag. \<open>wk_threads\<close> are the
  workers whose thread runs; \<open>g_entry_fn\<close> is whether the program has registered its entry.
\<close>

datatype wobject = WPort msg_port | WWorker worker | WBroadcast broadcast

record wks =
  wk_heap :: heap
  wk_objs :: "addr \<Rightarrow> wobject option"
  wk_threads :: "addr list"
  g_is_main_thread :: bool
  g_next_thread_id :: int
  g_parent_port :: addr
  g_worker_data :: "tsvalue"
  g_current_thread_id :: int
  g_current_thread_name :: addr
  g_entry_fn :: bool
  g_env_data :: addr

definition wk_start :: wks where
  "wk_start = \<lparr>wk_heap = empty_heap, wk_objs = Map.empty, wk_threads = [], g_is_main_thread = True, g_next_thread_id = 1,
     g_parent_port = 0, g_worker_data = VNull, g_current_thread_id = 0, g_current_thread_name = 0, g_entry_fn = False, g_env_data = 0\<rparr>"

definition wk_alloc :: "wobject \<Rightarrow> wks \<Rightarrow> addr \<times> wks" where
  "wk_alloc x s = (let p = nxt (wk_heap s) in
     (p, s\<lparr>wk_heap := (wk_heap s)\<lparr>nxt := Suc p\<rparr>, wk_objs := (wk_objs s)(p \<mapsto> x)\<rparr>))"

definition new_port :: msg_port where
  "new_port = \<lparr>mp_refcount = 1, mp_inbox = mq_create, mp_onmessage = ts_value_undefined, mp_onmessageerror = ts_value_undefined,
     mp_closed = False, mp_refed = True\<rparr>"

definition port_create :: "wks \<Rightarrow> addr \<times> wks" where
  "port_create s = wk_alloc (WPort new_port) s"

definition get_port :: "wks \<Rightarrow> addr \<Rightarrow> msg_port option" where
  "get_port s p = (case wk_objs s p of Some (WPort x) \<Rightarrow> Some x | _ \<Rightarrow> None)"

definition put_wobj :: "addr \<Rightarrow> wobject \<Rightarrow> wks \<Rightarrow> wks" where
  "put_wobj p x s = s\<lparr>wk_objs := (wk_objs s)(p \<mapsto> x)\<rparr>"

text \<open>The loop that empties the inbox of a port that is released.\<close>

partial_function (option) drain_inbox :: "msg_queue \<Rightarrow> msg_queue option" where
  "drain_inbox q = (if mq_pending q \<noteq> 0 then do { (_, q') \<leftarrow> mq_poll q; drain_inbox q' } else Some q)"

definition port_free :: "addr \<Rightarrow> wks \<Rightarrow> wks option" where
  "port_free p s =
    (if p = 0 then Some s
     else do {
       x \<leftarrow> get_port s p;
       n \<leftarrow> ck32 (mp_refcount x - 1);
       if n > 0 then Some (put_wobj p (WPort (x\<lparr>mp_refcount := n\<rparr>)) s)
       else do { _ \<leftarrow> drain_inbox (mp_inbox x); Some (s\<lparr>wk_objs := (wk_objs s)(p := None)\<rparr>) } })"

definition node_worker_threads_MessagePort :: "wks \<Rightarrow> tsvalue \<times> wks" where
  "node_worker_threads_MessagePort s = (let (p, s1) = port_create s in (VObject p, s1))"

definition set_prop :: "addr \<Rightarrow> string \<Rightarrow> tsvalue \<Rightarrow> wks \<Rightarrow> wks option" where
  "set_prop p k v s = do { h \<leftarrow> map_set (wk_heap s) p k v; Some (s\<lparr>wk_heap := h\<rparr>) }"

definition new_table :: "wks \<Rightarrow> addr \<times> wks" where
  "new_table s = (let (p, h) = new_map (wk_heap s) in (p, s\<lparr>wk_heap := h\<rparr>))"

definition new_string :: "string \<Rightarrow> wks \<Rightarrow> (tsvalue \<times> wks) option" where
  "new_string t s = do { (v, h) \<leftarrow> new_text (wk_heap s) t; Some (v, s\<lparr>wk_heap := h\<rparr>) }"

definition node_worker_threads_MessageChannel :: "wks \<Rightarrow> (tsvalue \<times> wks) option" where
  "node_worker_threads_MessageChannel s =
    (let (p1, s1) = port_create s; (p2, s2) = port_create s1; (ch, s3) = new_table s2 in do {
       (t, s4) \<leftarrow> new_string ''MessageChannel'' s3;
       s5 \<leftarrow> set_prop ch ''_type'' t s4;
       s6 \<leftarrow> set_prop ch ''port1'' (VObject p1) s5;
       s7 \<leftarrow> set_prop ch ''port2'' (VObject p2) s6;
       Some (VObject ch, s7) })"

subsection \<open>Workers\<close>

definition worker_create :: "wks \<Rightarrow> (addr \<times> wks) option" where
  "worker_create s = do {
     n \<leftarrow> ck32 (g_next_thread_id s + 1);
     let (port, s1) = port_create (s\<lparr>g_next_thread_id := n\<rparr>);
     Some (wk_alloc (WWorker \<lparr>wk_refcount = 1, wk_thread_id = g_next_thread_id s, wk_thread_name = False, wk_filename = 0, wk_port = port,
       wk_workerData = ts_value_undefined, wk_onmessage = ts_value_undefined, wk_onmessageerror = ts_value_undefined,
       wk_onerror = ts_value_undefined, wk_onexit = ts_value_undefined, wk_started = False, wk_terminated = False, wk_refed = True\<rparr>) s1) }"

text \<open>The file name is a string of the collector: giving it to \<^verbatim>\<open>free\<close> is undefined.\<close>

definition worker_free :: "addr \<Rightarrow> wks \<Rightarrow> wks option" where
  "worker_free p s =
    (if p = 0 then Some s
     else (case wk_objs s p of
       Some (WWorker w) \<Rightarrow> do {
         n \<leftarrow> ck32 (wk_refcount w - 1);
         if n > 0 then Some (put_wobj p (WWorker (w\<lparr>wk_refcount := n\<rparr>)) s)
         else do {
           s1 \<leftarrow> port_free (wk_port w) s;
           if wk_filename w \<noteq> 0 then None else Some (s1\<lparr>wk_objs := (wk_objs s1)(p := None)\<rparr>) } }
     | _ \<Rightarrow> None))"

text \<open>
  The object of this module behind a value: \<open>None\<close> in the result when the value is not an object, is NULL,
  or is another object, whose first word is no tag of this module.
\<close>

definition self_of :: "wks \<Rightarrow> tsvalue \<Rightarrow> (addr \<times> wobject) option option" where
  "self_of s v = (case v of
     VObject p \<Rightarrow> if p = 0 then Some None
       else (case wk_objs s p of Some x \<Rightarrow> Some (Some (p, x)) | None \<Rightarrow> map_option (\<lambda>_. None) (objs (wk_heap s) p))
   | _ \<Rightarrow> Some None)"

definition on_worker :: "wks \<Rightarrow> tsvalue \<Rightarrow> (addr \<Rightarrow> worker \<Rightarrow> wks option) \<Rightarrow> (tsvalue \<times> wks) option" where
  "on_worker s v f = do {
     r \<leftarrow> self_of s v;
     case r of Some (p, WWorker w) \<Rightarrow> do { s' \<leftarrow> f p w; Some (ts_value_undefined, s') } | _ \<Rightarrow> Some (ts_value_undefined, s) }"

definition node_worker_threads_Worker :: "tsvalue \<Rightarrow> tsvalue \<Rightarrow> wks \<Rightarrow> (tsvalue \<times> wks) option" where
  "node_worker_threads_Worker filename options s = do {
     (fn, h) \<leftarrow> ts_to_string (wk_heap s) filename;
     if fn = 0 then Some (ts_value_undefined, s\<lparr>wk_heap := h\<rparr>)
     else do {
       (p, s1) \<leftarrow> worker_create (s\<lparr>wk_heap := h\<rparr>);
       (data, named) \<leftarrow> (case options of
          VObject q \<Rightarrow> if q = 0 then Some (ts_value_undefined, False)
            else do {
              d \<leftarrow> map_get (wk_heap s1) q ''workerData'';
              n \<leftarrow> map_get (wk_heap s1) q ''name'';
              Some (if d \<noteq> VNull then d else ts_value_undefined, case n of VString a \<Rightarrow> a \<noteq> 0 | _ \<Rightarrow> False) }
        | _ \<Rightarrow> Some (ts_value_undefined, False));
       case wk_objs s1 p of
         Some (WWorker w) \<Rightarrow>
           Some (VObject p, put_wobj p (WWorker (w\<lparr>wk_filename := fn, wk_workerData := data, wk_thread_name := named\<rparr>)) s1)
       | _ \<Rightarrow> None } }"

text \<open>The thread that is started is one more in \<open>wk_threads\<close>; \<open>worker_thread_main\<close> is what it does.\<close>

definition node_worker_threads_start :: "tsvalue \<Rightarrow> wks \<Rightarrow> (tsvalue \<times> wks) option" where
  "node_worker_threads_start self s = on_worker s self (\<lambda>p w.
     if wk_started w then Some s
     else Some (put_wobj p (WWorker (w\<lparr>wk_started := True\<rparr>)) s\<lparr>wk_threads := wk_threads s @ [p]\<rparr>))"

definition worker_thread_main :: "(wks \<Rightarrow> wks option) \<Rightarrow> addr \<Rightarrow> wks \<Rightarrow> wks option" where
  "worker_thread_main entry p s = (case wk_objs s p of
     Some (WWorker w) \<Rightarrow> (let s1 = s\<lparr>g_is_main_thread := False, g_current_thread_id := wk_thread_id w, g_parent_port := wk_port w,
         g_worker_data := wk_workerData w\<rparr>
       in if g_entry_fn s then entry s1 else Some s1)
   | _ \<Rightarrow> None)"

text \<open>\<^verbatim>\<open>pthread_cancel\<close> and \<^verbatim>\<open>pthread_join\<close>: the thread is gone when it returns.\<close>

definition node_worker_threads_terminate :: "tsvalue \<Rightarrow> wks \<Rightarrow> (tsvalue \<times> wks) option" where
  "node_worker_threads_terminate self s = on_worker s self (\<lambda>p w.
     if \<not> wk_started w \<or> wk_terminated w then Some s
     else Some (put_wobj p (WWorker (w\<lparr>wk_terminated := True\<rparr>)) s\<lparr>wk_threads := removeAll p (wk_threads s)\<rparr>))"

definition node_worker_threads_close :: "tsvalue \<Rightarrow> wks \<Rightarrow> (tsvalue \<times> wks) option" where
  "node_worker_threads_close self s = on_worker s self (\<lambda>p w. do {
     x \<leftarrow> get_port s (wk_port w);
     Some (put_wobj (wk_port w) (WPort (x\<lparr>mp_closed := True\<rparr>)) s) })"

definition set_refed :: "bool \<Rightarrow> tsvalue \<Rightarrow> wks \<Rightarrow> (tsvalue \<times> wks) option" where
  "set_refed b self s = do {
     r \<leftarrow> self_of s self;
     Some (ts_value_undefined, case r of
         Some (p, WWorker w) \<Rightarrow> put_wobj p (WWorker (w\<lparr>wk_refed := b\<rparr>)) s
       | Some (p, WPort x) \<Rightarrow> put_wobj p (WPort (x\<lparr>mp_refed := b\<rparr>)) s
       | _ \<Rightarrow> s) }"

definition node_worker_threads_ref :: "tsvalue \<Rightarrow> wks \<Rightarrow> (tsvalue \<times> wks) option" where
  "node_worker_threads_ref = set_refed True"

definition node_worker_threads_unref :: "tsvalue \<Rightarrow> wks \<Rightarrow> (tsvalue \<times> wks) option" where
  "node_worker_threads_unref = set_refed False"

definition node_worker_threads_get_threadId :: "tsvalue \<Rightarrow> wks \<Rightarrow> tsvalue option" where
  "node_worker_threads_get_threadId self s = do {
     r \<leftarrow> self_of s self;
     Some (VNumber (case r of Some (p, WWorker w) \<Rightarrow> dint (wk_thread_id w) | _ \<Rightarrow> dint 0)) }"

definition node_worker_threads_get_threadName :: "tsvalue \<Rightarrow> wks \<Rightarrow> (tsvalue \<times> wks) option" where
  "node_worker_threads_get_threadName self s = do {
     r \<leftarrow> self_of s self;
     new_string (case r of Some (p, WWorker w) \<Rightarrow> if wk_thread_name w then ''worker'' else [] | _ \<Rightarrow> []) s }"

subsection \<open>Listeners\<close>

definition set_worker_handler :: "string \<Rightarrow> tsvalue \<Rightarrow> worker \<Rightarrow> worker" where
  "set_worker_handler ev f w = (if ev = ''message'' then w\<lparr>wk_onmessage := f\<rparr> else if ev = ''error'' then w\<lparr>wk_onerror := f\<rparr>
     else if ev = ''exit'' then w\<lparr>wk_onexit := f\<rparr> else w)"

definition set_port_handler :: "string \<Rightarrow> tsvalue \<Rightarrow> msg_port \<Rightarrow> msg_port" where
  "set_port_handler ev f x = (if ev = ''message'' then x\<lparr>mp_onmessage := f\<rparr>
     else if ev = ''messageerror'' then x\<lparr>mp_onmessageerror := f\<rparr> else x)"

definition set_broadcast_handler :: "string \<Rightarrow> tsvalue \<Rightarrow> broadcast \<Rightarrow> broadcast" where
  "set_broadcast_handler ev f b = (if ev = ''message'' then b\<lparr>bc_onmessage := f\<rparr>
     else if ev = ''messageerror'' then b\<lparr>bc_onmessageerror := f\<rparr> else b)"

definition node_worker_threads_on :: "tsvalue \<Rightarrow> tsvalue \<Rightarrow> tsvalue \<Rightarrow> wks \<Rightarrow> (tsvalue \<times> wks) option" where
  "node_worker_threads_on self event callback s = do {
     r \<leftarrow> self_of s self;
     case r of
       None \<Rightarrow> Some (self, s)
     | Some (p, x) \<Rightarrow> do {
         (t, h) \<leftarrow> text_of (wk_heap s) event;
         let ev = cstr t;
         Some (self, put_wobj p (case x of
             WWorker w \<Rightarrow> WWorker (set_worker_handler ev callback w)
           | WPort y \<Rightarrow> WPort (set_port_handler ev callback y)
           | WBroadcast b \<Rightarrow> WBroadcast (set_broadcast_handler ev callback b)) (s\<lparr>wk_heap := h\<rparr>)) } }"

definition node_worker_threads_once :: "tsvalue \<Rightarrow> tsvalue \<Rightarrow> tsvalue \<Rightarrow> wks \<Rightarrow> (tsvalue \<times> wks) option" where
  "node_worker_threads_once = node_worker_threads_on"

definition node_worker_threads_off :: "tsvalue \<Rightarrow> tsvalue \<Rightarrow> tsvalue \<Rightarrow> wks \<Rightarrow> (tsvalue \<times> wks) option" where
  "node_worker_threads_off self event callback = node_worker_threads_on self event ts_value_undefined"

definition node_worker_threads_addListener :: "tsvalue \<Rightarrow> tsvalue \<Rightarrow> tsvalue \<Rightarrow> wks \<Rightarrow> (tsvalue \<times> wks) option" where
  "node_worker_threads_addListener = node_worker_threads_on"

definition node_worker_threads_removeListener :: "tsvalue \<Rightarrow> tsvalue \<Rightarrow> tsvalue \<Rightarrow> wks \<Rightarrow> (tsvalue \<times> wks) option" where
  "node_worker_threads_removeListener = node_worker_threads_off"

subsection \<open>Messages\<close>

definition post_to :: "addr \<Rightarrow> tsvalue \<Rightarrow> wks \<Rightarrow> wks option" where
  "post_to p v s = do { x \<leftarrow> get_port s p; q \<leftarrow> mq_push (mp_inbox x) v; Some (put_wobj p (WPort (x\<lparr>mp_inbox := q\<rparr>)) s) }"

definition node_worker_threads_postMessage :: "tsvalue \<Rightarrow> tsvalue \<Rightarrow> tsvalue \<Rightarrow> wks \<Rightarrow> (tsvalue \<times> wks) option" where
  "node_worker_threads_postMessage self v transferList s = do {
     r \<leftarrow> self_of s self;
     s' \<leftarrow> (case r of
         Some (p, WWorker w) \<Rightarrow> if wk_port w \<noteq> 0 then post_to (wk_port w) v s else Some s
       | Some (p, WPort x) \<Rightarrow> post_to p v s
       | _ \<Rightarrow> Some s);
     Some (ts_value_undefined, s') }"

definition node_worker_threads_postMessageToThread :: "tsvalue \<Rightarrow> tsvalue \<Rightarrow> tsvalue \<Rightarrow> wks \<Rightarrow> tsvalue \<times> wks" where
  "node_worker_threads_postMessageToThread threadId v transferList s = (ts_value_undefined, s)"

definition node_worker_threads_receiveMessageOnPort :: "tsvalue \<Rightarrow> wks \<Rightarrow> (tsvalue \<times> wks) option" where
  "node_worker_threads_receiveMessageOnPort port s = do {
     r \<leftarrow> self_of s port;
     case r of
       Some (p, WPort x) \<Rightarrow> do {
         (msg, q) \<leftarrow> mq_poll (mp_inbox x);
         let s1 = put_wobj p (WPort (x\<lparr>mp_inbox := q\<rparr>)) s;
         if msg = VNull then Some (ts_value_undefined, s1)
         else (let (m, s2) = new_table s1 in do {
           s3 \<leftarrow> set_prop m ''message'' msg s2;
           Some (VObject m, s3) }) }
     | _ \<Rightarrow> Some (ts_value_undefined, s) }"

subsection \<open>The module\<close>

definition node_worker_threads_isMainThread :: "wks \<Rightarrow> tsvalue" where
  "node_worker_threads_isMainThread s = ts_value_boolean (g_is_main_thread s)"

definition node_worker_threads_parentPort :: "wks \<Rightarrow> tsvalue \<times> wks" where
  "node_worker_threads_parentPort s =
    (if g_parent_port s = 0 then (let (p, s1) = port_create s in (VObject p, s1\<lparr>g_parent_port := p\<rparr>)) else (VObject (g_parent_port s), s))"

definition node_worker_threads_workerData :: "wks \<Rightarrow> tsvalue" where
  "node_worker_threads_workerData s = g_worker_data s"

definition node_worker_threads_threadId :: "wks \<Rightarrow> tsvalue" where
  "node_worker_threads_threadId s = VNumber (dint (g_current_thread_id s))"

definition node_worker_threads_threadName :: "wks \<Rightarrow> (tsvalue \<times> wks) option" where
  "node_worker_threads_threadName s =
    (if g_current_thread_name s \<noteq> 0 then Some (VString (g_current_thread_name s), s) else new_string [] s)"

definition node_worker_threads_isInternalThread :: "tsvalue" where
  "node_worker_threads_isInternalThread = ts_value_boolean False"

definition node_worker_threads_SHARE_ENV :: "tsvalue" where
  "node_worker_threads_SHARE_ENV = VNumber (dint (- 1))"

definition node_worker_threads_resourceLimits :: "wks \<Rightarrow> (tsvalue \<times> wks) option" where
  "node_worker_threads_resourceLimits s = (let (p, s0) = new_table s in do {
     s1 \<leftarrow> set_prop p ''maxYoungGenerationSizeMb'' (VNumber (dint 64)) s0;
     s2 \<leftarrow> set_prop p ''maxOldGenerationSizeMb'' (VNumber (dint 512)) s1;
     s3 \<leftarrow> set_prop p ''codeRangeSizeMb'' (VNumber (dint 32)) s2;
     s4 \<leftarrow> set_prop p ''stackSizeMb'' (VNumber (dint 4)) s3;
     Some (VObject p, s4) })"

definition node_worker_threads_locks :: "wks \<Rightarrow> (tsvalue \<times> wks) option" where
  "node_worker_threads_locks s = (let (p, s0) = new_table s in do {
     (t, s1) \<leftarrow> new_string ''locks'' s0;
     s2 \<leftarrow> set_prop p ''_type'' t s1;
     Some (VObject p, s2) })"

definition node_worker_threads_BroadcastChannel :: "tsvalue \<Rightarrow> wks \<Rightarrow> (tsvalue \<times> wks) option" where
  "node_worker_threads_BroadcastChannel name s = do {
     (n, h) \<leftarrow> ts_to_string (wk_heap s) name;
     if n = 0 then Some (ts_value_undefined, s\<lparr>wk_heap := h\<rparr>)
     else (let (p, s1) = wk_alloc (WBroadcast \<lparr>bc_refcount = 1, bc_name = n, bc_onmessage = ts_value_undefined,
         bc_onmessageerror = ts_value_undefined\<rparr>) (s\<lparr>wk_heap := h\<rparr>) in Some (VObject p, s1)) }"

definition node_worker_threads_getEnvironmentData :: "tsvalue \<Rightarrow> wks \<Rightarrow> (tsvalue \<times> wks) option" where
  "node_worker_threads_getEnvironmentData key s =
    (if g_env_data s = 0 then Some (ts_value_undefined, s)
     else do {
       (k, h) \<leftarrow> text_of (wk_heap s) key;
       v \<leftarrow> map_get h (g_env_data s) k;
       Some (v, s\<lparr>wk_heap := h\<rparr>) })"

definition node_worker_threads_setEnvironmentData :: "tsvalue \<Rightarrow> tsvalue \<Rightarrow> wks \<Rightarrow> (tsvalue \<times> wks) option" where
  "node_worker_threads_setEnvironmentData key v s = do {
     let s1 = (if g_env_data s = 0 then (let (p, s0) = new_table s in s0\<lparr>g_env_data := p\<rparr>) else s);
     (k, h) \<leftarrow> text_of (wk_heap s1) key;
     s3 \<leftarrow> set_prop (g_env_data s1) k v (s1\<lparr>wk_heap := h\<rparr>);
     Some (ts_value_undefined, s3) }"

text \<open>The marks are properties: an object that is no hash map is taken for one.\<close>

definition mark_object :: "string \<Rightarrow> tsvalue \<Rightarrow> wks \<Rightarrow> (tsvalue \<times> wks) option" where
  "mark_object k v s = (case v of
     VObject p \<Rightarrow> if p = 0 then Some (v, s) else do { s1 \<leftarrow> set_prop p k (ts_value_boolean True) s; Some (v, s1) }
   | _ \<Rightarrow> Some (v, s))"

definition node_worker_threads_markAsUntransferable :: "tsvalue \<Rightarrow> wks \<Rightarrow> (tsvalue \<times> wks) option" where
  "node_worker_threads_markAsUntransferable = mark_object ''_untransferable''"

definition node_worker_threads_isMarkedAsUntransferable :: "tsvalue \<Rightarrow> wks \<Rightarrow> tsvalue option" where
  "node_worker_threads_isMarkedAsUntransferable v s = (case v of
     VObject p \<Rightarrow> if p = 0 then Some (ts_value_boolean False)
       else do { x \<leftarrow> map_get (wk_heap s) p ''_untransferable''; b \<leftarrow> ts_to_boolean (wk_heap s) x; Some (ts_value_boolean b) }
   | _ \<Rightarrow> Some (ts_value_boolean False))"

definition node_worker_threads_markAsUncloneable :: "tsvalue \<Rightarrow> wks \<Rightarrow> (tsvalue \<times> wks) option" where
  "node_worker_threads_markAsUncloneable = mark_object ''_uncloneable''"

definition node_worker_threads_moveMessagePortToContext :: "tsvalue \<Rightarrow> tsvalue \<Rightarrow> tsvalue" where
  "node_worker_threads_moveMessagePortToContext port ctx = port"

definition node_worker_threads_set_entry :: "wks \<Rightarrow> wks" where
  "node_worker_threads_set_entry s = s\<lparr>g_entry_fn := True\<rparr>"

definition ts_worker_pending :: int where "ts_worker_pending = 0"

definition ts_worker_poll :: int where "ts_worker_poll = 0"

end
