(* ===== verification/Ts_Messages.thy ===== *)
theory Ts_Messages
  imports Ts_Workers
begin

text \<open>
  What the ports of \<^verbatim>\<open>runtime/src/builtins/node_worker_threads.c\<close> deliver: the queue of a port is a
  first-in-first-out queue, so what is posted to a port is received from it in order; but the two ports of
  a channel are not connected.
\<close>

subsection \<open>The queue\<close>

fun mchain :: "(meaddr \<Rightarrow> msg_entry option) \<Rightarrow> meaddr \<Rightarrow> (meaddr \<times> tsvalue) list \<Rightarrow> bool" where
  "mchain st p [] \<longleftrightarrow> p = 0"
| "mchain st p ((a, v) # xs) \<longleftrightarrow> p = a \<and> a \<noteq> 0 \<and> (\<exists>e. st a = Some e \<and> me_data e = v \<and> mchain st (me_next e) xs)"

definition mq_at :: "msg_queue \<Rightarrow> (meaddr \<times> tsvalue) list \<Rightarrow> bool" where
  "mq_at q xs \<longleftrightarrow> mchain (mq_store q) (mq_head q) xs \<and> distinct (map fst xs) \<and> (\<forall>x \<in> set xs. fst x < mq_fresh q) \<and> 0 < mq_fresh q \<and>
     mq_tail q = (if xs = [] then 0 else fst (last xs)) \<and> mq_count q = int (length xs) \<and> int (length xs) \<le> int32_max"

definition mq_rep :: "msg_queue \<Rightarrow> tsvalue list \<Rightarrow> bool" where
  "mq_rep q vs \<longleftrightarrow> (\<exists>xs. mq_at q xs \<and> map snd xs = vs)"

lemma mchain_upd: "p \<notin> fst ` set xs \<Longrightarrow> mchain (st(p := x)) a xs = mchain st a xs"
  by (induction xs arbitrary: a) auto

lemma mchain_live: "mchain st p xs \<Longrightarrow> (a, v) \<in> set xs \<Longrightarrow> a \<noteq> 0 \<and> (\<exists>e. st a = Some e \<and> me_data e = v)"
  by (induction xs arbitrary: p) auto

lemma mchain_snoc:
  "mchain st a (xs @ [(t, v)]) \<Longrightarrow> t \<notin> fst ` set xs \<Longrightarrow> p \<notin> fst ` set (xs @ [(t, v)]) \<Longrightarrow> p \<noteq> 0 \<Longrightarrow> st t = Some et \<Longrightarrow>
   st p = Some ep \<Longrightarrow> me_next ep = 0 \<Longrightarrow> mchain (st(t \<mapsto> et\<lparr>me_next := p\<rparr>)) a (xs @ [(t, v), (p, me_data ep)])"
  by (induction xs arbitrary: a) auto

lemma mq_rep_create: "mq_rep mq_create []"
  by (auto simp: mq_rep_def mq_at_def mq_create_def int32_max_def)

lemma mq_push_ok:
  assumes "mq_rep q vs" "int (length vs) < int32_max"
  shows "\<exists>q'. mq_push q v = Some q' \<and> mq_rep q' (vs @ [v])"
proof -
  from assms(1) obtain xs where xs: "mq_at q xs" "map snd xs = vs" by (auto simp: mq_rep_def)
  then have n: "length xs = length vs" by auto
  let ?p = "mq_fresh q" and ?e = "\<lparr>me_data = v, me_next = 0\<rparr>"
  let ?st = "(mq_store q)(mq_fresh q \<mapsto> ?e)"
  have fr: "?p \<notin> fst ` set xs" "?p \<noteq> 0" using xs(1) by (auto simp: mq_at_def)
  have ck: "ck32 (mq_count q + 1) = Some (mq_count q + 1)" "int (length xs) + 1 \<le> int32_max"
    using xs(1) assms(2) n by (auto simp: mq_at_def ck32_def fits32_def int32_max_def int32_min_def)
  have "\<exists>q'. mq_push q v = Some q' \<and> mq_at q' (xs @ [(?p, v)])"
  proof (cases xs rule: rev_cases)
    case Nil
    then show ?thesis using xs(1) fr ck by (auto simp: mq_push_def mq_at_def Let_def)
  next
    case (snoc ys t)
    obtain a w where t: "t = (a, w)" by (cases t)
    have ch: "mchain (mq_store q) (mq_head q) (ys @ [(a, w)])" "a \<notin> fst ` set ys" "mq_tail q = a"
      using xs(1) snoc t by (auto simp: mq_at_def)
    then obtain e where e: "mq_store q a = Some e" "a \<noteq> 0" using mchain_live [OF ch(1), of a w] by auto
    have ne: "a \<noteq> ?p" using fr snoc t by auto
    have ch1: "mchain ?st (mq_head q) (ys @ [(a, w)])" using ch(1) fr snoc t by (simp add: mchain_upd)
    let ?q = "q\<lparr>mq_fresh := Suc ?p, mq_tail := ?p, mq_count := mq_count q + 1, mq_store := ?st(a \<mapsto> e\<lparr>me_next := ?p\<rparr>)\<rparr>"
    have "mq_push q v = Some ?q" using e ch(3) ne ck by (simp add: mq_push_def Let_def)
    moreover have "mchain (?st(a \<mapsto> e\<lparr>me_next := ?p\<rparr>)) (mq_head q) (ys @ [(a, w), (?p, v)])"
      using mchain_snoc [OF ch1 ch(2), of ?p e ?e] fr e ne snoc t by simp
    then have "mq_at ?q (xs @ [(?p, v)])" using xs(1) snoc t fr ck(2) by (auto simp: mq_at_def intro: less_SucI)
    ultimately show ?thesis by blast
  qed
  then obtain q' where "mq_push q v = Some q'" "mq_at q' (xs @ [(?p, v)])" by blast
  then show ?thesis using xs(2) unfolding mq_rep_def by (intro exI [of _ q'] conjI exI [of _ "xs @ [(?p, v)]"]) simp_all
qed

lemma mq_take_ok:
  assumes "mq_rep q (v # vs)"
  shows "\<exists>q'. mq_take q = Some (v, q') \<and> mq_head q \<noteq> 0 \<and> mq_rep q' vs"
proof -
  from assms obtain p xs where xs: "mq_at q ((p, v) # xs)" "map snd xs = vs" by (auto simp: mq_rep_def)
  then obtain e where e: "mq_head q = p" "p \<noteq> 0" "mq_store q p = Some e" "me_data e = v" "mchain (mq_store q) (me_next e) xs"
    "p \<notin> fst ` set xs" "mq_count q = int (length xs) + 1" "int (length xs) + 1 \<le> int32_max" by (auto simp: mq_at_def)
  have "me_next e = 0 \<longleftrightarrow> xs = []" using e(5) by (cases xs) auto
  moreover have "ck32 (mq_count q - 1) = Some (int (length xs))"
    using e(7,8) by (simp add: ck32_def fits32_def int32_max_def int32_min_def)
  ultimately have "\<exists>q'. mq_take q = Some (v, q') \<and> mq_at q' xs"
    using xs(1) e by (auto simp: mq_take_def mq_at_def mchain_upd)
  then show ?thesis using e(1,2) xs(2) by (auto simp: mq_rep_def)
qed

interpretation mq: fifo mq_rep "\<lambda>_ _. True" "\<lambda>_. True" "2147483647" mq_push mq_take
proof unfold_locales
  fix q vs v
  assume "mq_rep q vs" "length vs < 2147483647"
  then show "\<exists>q'. mq_push q v = Some q' \<and> mq_rep q' (vs @ [v]) \<and> (\<forall>y. True \<longrightarrow> True)"
    using mq_push_ok [of q vs v] by (simp add: int32_max_def)
next
  fix q v vs
  assume "mq_rep q (v # vs)"
  then show "\<exists>q'. mq_take q = Some (v, q') \<and> mq_rep q' vs" using mq_take_ok by blast
qed simp

lemma mq_poll_ok: "mq_rep q (v # vs) \<Longrightarrow> \<exists>q'. mq_poll q = Some (v, q') \<and> mq_rep q' vs"
  using mq_take_ok [of q v vs] by (auto simp: mq_poll_def mq_pop_def)

lemma mq_poll_empty: "mq_rep q [] \<Longrightarrow> mq_poll q = Some (VNull, q)"
  by (auto simp: mq_rep_def mq_at_def mq_poll_def mq_pop_def ts_value_undefined_def)

text \<open>The release of a port ends, and takes every message.\<close>

lemma drain_inbox_ends: "mq_rep q vs \<Longrightarrow> \<exists>q'. drain_inbox q = Some q' \<and> mq_rep q' []"
proof (induction vs arbitrary: q)
  case Nil
  then have "mq_pending q = 0" by (auto simp: mq_rep_def mq_at_def mq_pending_def)
  with Nil show ?case by (subst drain_inbox.simps) simp
next
  case (Cons v vs)
  then have "mq_pending q \<noteq> 0" by (auto simp: mq_rep_def mq_at_def mq_pending_def)
  moreover from mq_poll_ok [OF Cons.prems] obtain q1 where "mq_poll q = Some (v, q1)" "mq_rep q1 vs" by blast
  ultimately show ?case using Cons.IH [of q1] by (subst drain_inbox.simps) simp
qed

subsection \<open>Ports\<close>

text \<open>The port at \<open>p\<close> has the messages \<open>vs\<close> waiting.\<close>

definition holds :: "wks \<Rightarrow> addr \<Rightarrow> tsvalue list \<Rightarrow> bool" where
  "holds s p vs \<longleftrightarrow> p \<noteq> 0 \<and> (\<exists>x. wk_objs s p = Some (WPort x) \<and> mq_rep (mp_inbox x) vs)"

text \<open>The answer \<open>r\<close> carries the message \<open>v\<close>; a null is not told from no message.\<close>

definition delivered :: "heap \<Rightarrow> tsvalue \<Rightarrow> tsvalue \<Rightarrow> bool" where
  "delivered h r v \<longleftrightarrow> (if v = VNull then r = VNull else \<exists>m. r = VObject m \<and> map_at h m [''message'' \<mapsto> v])"

lemma post_ok:
  assumes "holds s p vs" "int (length vs) < int32_max"
  shows "\<exists>s'. node_worker_threads_postMessage (VObject p) v t s = Some (VNull, s') \<and> holds s' p (vs @ [v]) \<and> wk_heap s' = wk_heap s \<and>
    (\<forall>q. q \<noteq> p \<longrightarrow> wk_objs s' q = wk_objs s q)"
proof -
  from assms(1) obtain x where x: "p \<noteq> 0" "wk_objs s p = Some (WPort x)" "mq_rep (mp_inbox x) vs" by (auto simp: holds_def)
  from mq_push_ok [OF x(3) assms(2), of v] obtain q where "mq_push (mp_inbox x) v = Some q" "mq_rep q (vs @ [v])" by blast
  with x(1,2) show ?thesis
    by (auto simp: node_worker_threads_postMessage_def self_of_def post_to_def get_port_def put_wobj_def holds_def ts_value_undefined_def)
qed

lemma receive_empty:
  assumes "holds s p []"
  shows "\<exists>s'. node_worker_threads_receiveMessageOnPort (VObject p) s = Some (VNull, s') \<and> holds s' p [] \<and>
    wk_heap s' = wk_heap s \<and> (\<forall>q. q \<noteq> p \<longrightarrow> wk_objs s' q = wk_objs s q)"
proof -
  from assms obtain x where x: "p \<noteq> 0" "wk_objs s p = Some (WPort x)" "mq_rep (mp_inbox x) []" by (auto simp: holds_def)
  with mq_poll_empty [OF x(3)] show ?thesis
    by (auto simp: node_worker_threads_receiveMessageOnPort_def self_of_def put_wobj_def holds_def ts_value_undefined_def)
qed

lemma receive_ok:
  assumes "holds s p (v # vs)" "heap_ok (wk_heap s)"
  shows "\<exists>r s'. node_worker_threads_receiveMessageOnPort (VObject p) s = Some (r, s') \<and> holds s' p vs \<and> heap_ok (wk_heap s') \<and>
    delivered (wk_heap s') r v \<and> (\<forall>r' v'. delivered (wk_heap s) r' v' \<longrightarrow> delivered (wk_heap s') r' v')"
proof -
  from assms(1) obtain x where x: "p \<noteq> 0" "wk_objs s p = Some (WPort x)" "mq_rep (mp_inbox x) (v # vs)" by (auto simp: holds_def)
  from mq_poll_ok [OF x(3)] obtain q where q: "mq_poll (mp_inbox x) = Some (v, q)" "mq_rep q vs" by blast
  let ?s1 = "put_wobj p (WPort (x\<lparr>mp_inbox := q\<rparr>)) s"
  have s1: "holds ?s1 p vs" "wk_heap ?s1 = wk_heap s" using x(1) q(2) by (simp_all add: holds_def put_wobj_def)
  show ?thesis
  proof (cases "v = VNull")
    case True
    then have "node_worker_threads_receiveMessageOnPort (VObject p) s = Some (VNull, ?s1)"
      using x(1,2) q(1) by (simp add: node_worker_threads_receiveMessageOnPort_def self_of_def ts_value_undefined_def)
    with True s1 assms(2) show ?thesis by (auto simp: delivered_def)
  next
    case False
    let ?h = "wk_heap s" and ?h1 = "snd (new_map (wk_heap s))"
    have h1: "map_at ?h1 (nxt ?h) Map.empty" "heap_ok ?h1" "\<forall>q. q \<noteq> nxt ?h \<longrightarrow> objs ?h1 q = objs ?h q"
      using map_at_new assms(2) by (auto simp: new_map_def heap_simps)
    from map_set_step [OF h1(1,2), of "''message''" v] obtain h2 where h2: "map_set ?h1 (nxt ?h) ''message'' v = Some h2"
      "map_at h2 (nxt ?h) [''message'' \<mapsto> v]" "heap_ok h2" "\<forall>q. q \<noteq> nxt ?h \<longrightarrow> objs h2 q = objs ?h1 q" by (auto simp: HM_LIMIT_def)
    have "node_worker_threads_receiveMessageOnPort (VObject p) s = Some (VObject (nxt ?h), ?s1\<lparr>wk_heap := h2\<rparr>)"
      using x(1,2) q(1) False h2(1) s1(2)
      by (simp add: node_worker_threads_receiveMessageOnPort_def self_of_def new_table_def set_prop_def case_prod_beta map_at_new(2))
    moreover have "map_at h2 m f" if "map_at ?h m f" for m f
    proof -
      have "m \<noteq> nxt ?h" using that assms(2) by (auto simp: map_at_def heap_ok_def)
      then have "objs h2 m = objs ?h m" using h1(3) h2(4) by simp
      with that show ?thesis by (simp add: map_at_def)
    qed
    ultimately show ?thesis using s1(1) h2(2,3) False by (auto simp: delivered_def holds_def)
  qed
qed

definition post_all :: "addr \<Rightarrow> tsvalue list \<Rightarrow> wks \<Rightarrow> wks option" where
  "post_all p vs s = foldo (\<lambda>s v. map_option snd (node_worker_threads_postMessage (VObject p) v VNull s)) s vs"

lemma post_all_ok:
  "holds s p us \<Longrightarrow> int (length us + length vs) \<le> int32_max \<Longrightarrow>
   \<exists>s'. post_all p vs s = Some s' \<and> holds s' p (us @ vs) \<and> wk_heap s' = wk_heap s"
proof (induction vs arbitrary: s us)
  case (Cons v vs)
  from post_ok [OF Cons.prems(1), of v VNull] Cons.prems(2) obtain s1 where s1:
    "node_worker_threads_postMessage (VObject p) v VNull s = Some (VNull, s1)" "holds s1 p (us @ [v])" "wk_heap s1 = wk_heap s" by auto
  from Cons.IH [OF s1(2)] Cons.prems(2) s1(1,3) show ?case by (auto simp: post_all_def)
qed (simp add: post_all_def)

lemma receive_all_ok:
  "holds s p (vs @ us) \<Longrightarrow> heap_ok (wk_heap s) \<Longrightarrow>
   \<exists>rs s'. pops (node_worker_threads_receiveMessageOnPort (VObject p)) (length vs) s = Some (rs, s') \<and> holds s' p us \<and>
     list_all2 (delivered (wk_heap s')) rs vs \<and> (\<forall>r' v'. delivered (wk_heap s) r' v' \<longrightarrow> delivered (wk_heap s') r' v')"
proof (induction vs arbitrary: s)
  case (Cons v vs)
  from receive_ok [of s p v "vs @ us"] Cons.prems obtain r s1 where s1:
    "node_worker_threads_receiveMessageOnPort (VObject p) s = Some (r, s1)" "holds s1 p (vs @ us)" "heap_ok (wk_heap s1)"
    "delivered (wk_heap s1) r v" "\<forall>r' v'. delivered (wk_heap s) r' v' \<longrightarrow> delivered (wk_heap s1) r' v'" by auto
  from Cons.IH [OF s1(2,3)] obtain rs s' where s': "pops (node_worker_threads_receiveMessageOnPort (VObject p)) (length vs) s1 = Some (rs, s')"
    "holds s' p us" "list_all2 (delivered (wk_heap s')) rs vs" "\<forall>r' v'. delivered (wk_heap s1) r' v' \<longrightarrow> delivered (wk_heap s') r' v'"
    by blast
  then have "pops (node_worker_threads_receiveMessageOnPort (VObject p)) (length (v # vs)) s = Some (r # rs, s')"
    using s1(1) by simp
  with s1(4,5) s'(2-4) show ?case by (intro exI [of _ "r # rs"] exI [of _ s']) simp
qed simp

text \<open>C30. What is posted to a port is received from it, each message once and in the order of posting; then the
  port has no message. Closing does not matter; a null that was posted is received as no message.
\<close>

theorem port_messages_in_order:
  assumes "holds s p []" "heap_ok (wk_heap s)" "int (length vs) \<le> int32_max"
  shows "\<exists>s1 rs s2. post_all p vs s = Some s1 \<and>
    pops (node_worker_threads_receiveMessageOnPort (VObject p)) (length vs) s1 = Some (rs, s2) \<and>
    list_all2 (delivered (wk_heap s2)) rs vs \<and> holds s2 p []"
proof -
  from post_all_ok [OF assms(1), of vs] assms(3) obtain s1 where s1: "post_all p vs s = Some s1" "holds s1 p (vs @ [])" "wk_heap s1 = wk_heap s"
    by auto
  with receive_all_ok [OF s1(2)] assms(2) show ?thesis by auto
qed

lemma channel_new:
  assumes "heap_ok (wk_heap s)"
  shows "\<exists>ch s' p1 p2. node_worker_threads_MessageChannel s = Some (VObject ch, s') \<and> heap_ok (wk_heap s') \<and>
    map_get (wk_heap s') ch ''port1'' = Some (VObject p1) \<and> map_get (wk_heap s') ch ''port2'' = Some (VObject p2) \<and> p1 \<noteq> p2 \<and>
    holds s' p1 [] \<and> holds s' p2 []"
proof -
  let ?h = "wk_heap s" and ?p1 = "nxt (wk_heap s)" and ?p2 = "Suc (nxt (wk_heap s))" and ?ch = "Suc (Suc (nxt (wk_heap s)))"
  let ?h2 = "?h\<lparr>nxt := ?ch\<rparr>" and ?os = "(wk_objs s)(?p1 \<mapsto> WPort new_port, ?p2 \<mapsto> WPort new_port)"
  let ?h3 = "snd (new_map ?h2)"
  have ok3: "heap_ok ?h3" using assms by (auto simp: heap_ok_def new_map_def new_obj_def)
  have m3: "map_at ?h3 ?ch Map.empty" using map_at_new(1) [of ?h2] by simp
  obtain q h4 where h4: "new_text ?h3 ''MessageChannel'' = Some (VString q, h4)" "heap_ok h4" "objs h4 = objs ?h3"
    using new_text_step [OF _ _ ok3, of "''MessageChannel''"] by auto
  have m4: "map_at h4 ?ch Map.empty" using m3 h4(3) by (simp add: map_at_def)
  from map_set_step [OF m4 h4(2), of "''_type''" "VString q"] obtain h5 where h5: "map_set h4 ?ch ''_type'' (VString q) = Some h5"
    "map_at h5 ?ch [''_type'' \<mapsto> VString q]" "heap_ok h5" by (auto simp: HM_LIMIT_def)
  from map_set_step [OF h5(2,3), of "''port1''" "VObject ?p1"] obtain h6 where h6: "map_set h5 ?ch ''port1'' (VObject ?p1) = Some h6"
    "map_at h6 ?ch [''_type'' \<mapsto> VString q, ''port1'' \<mapsto> VObject ?p1]" "heap_ok h6" by (auto simp: HM_LIMIT_def)
  from map_set_step [OF h6(2,3), of "''port2''" "VObject ?p2"] obtain h7 where h7: "map_set h6 ?ch ''port2'' (VObject ?p2) = Some h7"
    "map_at h7 ?ch [''_type'' \<mapsto> VString q, ''port1'' \<mapsto> VObject ?p1, ''port2'' \<mapsto> VObject ?p2]" "heap_ok h7" by (auto simp: HM_LIMIT_def)
  let ?s = "s\<lparr>wk_objs := ?os, wk_heap := h7\<rparr>"
  have "node_worker_threads_MessageChannel s = Some (VObject ?ch, ?s)"
    using h4(1) h5(1) h6(1) h7(1)
    by (simp add: node_worker_threads_MessageChannel_def port_create_def wk_alloc_def Let_def new_table_def new_string_def set_prop_def
        case_prod_beta map_at_new(2))
  moreover have "holds ?s ?p1 []" "holds ?s ?p2 []"
    using mq_rep_create assms by (auto simp: holds_def new_port_def heap_ok_def)
  ultimately show ?thesis using h7(3) map_get_at [OF h7(2)] by (intro exI [of _ ?ch] exI [of _ ?s] exI [of _ ?p1] exI [of _ ?p2]) simp
qed

text \<open>The two ports of a channel are not connected: a message that is posted to one is received from the
  same port, and not from the other.
\<close>

theorem channel_not_connected:
  assumes "heap_ok (wk_heap s)"
  shows "\<exists>ch s1 p1 p2 s2 s3 r s4. node_worker_threads_MessageChannel s = Some (VObject ch, s1) \<and>
    map_get (wk_heap s1) ch ''port1'' = Some (VObject p1) \<and> map_get (wk_heap s1) ch ''port2'' = Some (VObject p2) \<and> p1 \<noteq> p2 \<and>
    node_worker_threads_postMessage (VObject p1) v VNull s1 = Some (VNull, s2) \<and>
    node_worker_threads_receiveMessageOnPort (VObject p2) s2 = Some (VNull, s3) \<and>
    node_worker_threads_receiveMessageOnPort (VObject p1) s3 = Some (r, s4) \<and> delivered (wk_heap s4) r v"
proof -
  from channel_new [OF assms] obtain ch s1 p1 p2 where c: "node_worker_threads_MessageChannel s = Some (VObject ch, s1)"
    "heap_ok (wk_heap s1)" "map_get (wk_heap s1) ch ''port1'' = Some (VObject p1)" "map_get (wk_heap s1) ch ''port2'' = Some (VObject p2)"
    "p1 \<noteq> p2" "holds s1 p1 []" "holds s1 p2 []" by blast
  from post_ok [OF c(6), of v VNull] obtain s2 where s2: "node_worker_threads_postMessage (VObject p1) v VNull s1 = Some (VNull, s2)"
    "holds s2 p1 [v]" "wk_heap s2 = wk_heap s1" "\<forall>q. q \<noteq> p1 \<longrightarrow> wk_objs s2 q = wk_objs s1 q" by (auto simp: int32_max_def)
  have "holds s2 p2 []" using c(5,7) s2(4) by (simp add: holds_def)
  from receive_empty [OF this] obtain s3 where s3: "node_worker_threads_receiveMessageOnPort (VObject p2) s2 = Some (VNull, s3)"
    "wk_heap s3 = wk_heap s2" "\<forall>q. q \<noteq> p2 \<longrightarrow> wk_objs s3 q = wk_objs s2 q" by blast
  have "holds s3 p1 [v]" using s2(2) s3(3) c(5) by (simp add: holds_def)
  from receive_ok [OF this] c(2) s2(3) s3(2) obtain r s4 where
    "node_worker_threads_receiveMessageOnPort (VObject p1) s3 = Some (r, s4)" "delivered (wk_heap s4) r v" by auto
  with c s2(1) s3(1) show ?thesis by blast
qed

lemma channel_not_connected_witness:
  "\<exists>ch s1 p1 p2 s2 s3 r s4. node_worker_threads_MessageChannel wk_start = Some (VObject ch, s1) \<and>
    map_get (wk_heap s1) ch ''port1'' = Some (VObject p1) \<and> map_get (wk_heap s1) ch ''port2'' = Some (VObject p2) \<and> p1 \<noteq> p2 \<and>
    node_worker_threads_postMessage (VObject p1) (VBoolean 1) VNull s1 = Some (VNull, s2) \<and>
    node_worker_threads_receiveMessageOnPort (VObject p2) s2 = Some (VNull, s3) \<and>
    node_worker_threads_receiveMessageOnPort (VObject p1) s3 = Some (r, s4) \<and> delivered (wk_heap s4) r (VBoolean 1)"
  by (rule channel_not_connected) (simp add: wk_start_def)

lemma port_messages_in_order_witness:
  "\<exists>s1 rs s2. post_all 1 [VNull, VBoolean 1, VBoolean 0] (snd (port_create wk_start)) = Some s1 \<and>
    pops (node_worker_threads_receiveMessageOnPort (VObject 1)) (length [VNull, VBoolean 1, VBoolean 0]) s1 = Some (rs, s2) \<and>
    list_all2 (delivered (wk_heap s2)) rs [VNull, VBoolean 1, VBoolean 0] \<and> holds s2 1 []"
  using mq_rep_create
  by (intro port_messages_in_order)
    (auto simp: wk_start_def port_create_def wk_alloc_def holds_def new_port_def empty_heap_def heap_ok_def int32_max_def)

subsection \<open>The environment and the threads\<close>

text \<open>
  C1. Data set for the environment is got back under its key, whatever was set before; under another key
  there is what was there.
\<close>

theorem environment_data_roundtrip:
  assumes "str_at (wk_heap s) q k" "str_at (wk_heap s) r j" "g_env_data s \<noteq> 0" "map_at (wk_heap s) (g_env_data s) f" "heap_ok (wk_heap s)"
    and "card (dom f) < HM_LIMIT"
  shows "\<exists>s1. node_worker_threads_setEnvironmentData (VString q) v s = Some (VNull, s1) \<and>
    node_worker_threads_getEnvironmentData (VString r) s1 = Some (if j = k then v else prop_of f j, s1)"
proof -
  from map_set_step [OF assms(4-6), of k v] obtain h where h: "map_set (wk_heap s) (g_env_data s) k v = Some h"
    "map_at h (g_env_data s) (f(k \<mapsto> v))" "strs h = strs (wk_heap s)" by auto
  have "str_at h r j" using assms(2) by (simp only: str_at_cong [OF h(3)])
  then show ?thesis using assms(1,3) h(1) map_get_at [OF h(2), of j]
    by (simp add: node_worker_threads_setEnvironmentData_def node_worker_threads_getEnvironmentData_def text_of_string set_prop_def ts_value_undefined_def)
qed

lemma environment_data_roundtrip_witness:
  "\<exists>s1. node_worker_threads_setEnvironmentData (VString 1) (VBoolean 1) (wk_start\<lparr>wk_heap := snd (new_map (snd (new_str empty_heap ''k''))), g_env_data := 2\<rparr>) = Some (VNull, s1) \<and>
    node_worker_threads_getEnvironmentData (VString 1) s1 = Some (if ''k'' = ''k'' then VBoolean 1 else prop_of Map.empty ''k'', s1)"
  by (rule environment_data_roundtrip)
    (use map_at_new(1) [of "snd (new_str empty_heap ''k'')"] in
      \<open>simp_all add: wk_start_def new_map_def new_obj_def new_str_def empty_heap_def str_at_def heap_ok_def HM_LIMIT_def numeral_2_eq_2\<close>)

text \<open>
  C1. The state of a thread is not its own: once a worker has run, the main thread is told that it is not
  the main thread, and that it has the number, the port and the data of the worker.
\<close>

theorem worker_overwrites_main:
  assumes "wk_objs s p = Some (WWorker w)" "p \<noteq> 0" "\<not> wk_started w" "\<not> g_entry_fn s" "wk_port w \<noteq> 0"
  shows "\<exists>s1 s2. node_worker_threads_start (VObject p) s = Some (VNull, s1) \<and> p \<in> set (wk_threads s1) \<and>
    worker_thread_main entry p s1 = Some s2 \<and> node_worker_threads_isMainThread s2 = ts_value_boolean False \<and>
    node_worker_threads_threadId s2 = VNumber (dint (wk_thread_id w)) \<and> node_worker_threads_workerData s2 = wk_workerData w \<and>
    node_worker_threads_parentPort s2 = (VObject (wk_port w), s2)"
  using assms
  by (simp add: node_worker_threads_start_def on_worker_def self_of_def put_wobj_def worker_thread_main_def ts_value_undefined_def
      node_worker_threads_isMainThread_def node_worker_threads_threadId_def node_worker_threads_workerData_def node_worker_threads_parentPort_def)

lemma worker_overwrites_main_witness:
  "\<exists>w s. wk_objs s 2 = Some (WWorker w) \<and> (\<exists>s1 s2. node_worker_threads_start (VObject 2) s = Some (VNull, s1) \<and> 2 \<in> set (wk_threads s1) \<and>
    worker_thread_main Some 2 s1 = Some s2 \<and> node_worker_threads_isMainThread s2 = ts_value_boolean False \<and>
    node_worker_threads_threadId s2 = VNumber (dint (wk_thread_id w)) \<and> node_worker_threads_workerData s2 = wk_workerData w \<and>
    node_worker_threads_parentPort s2 = (VObject (wk_port w), s2))"
proof -
  let ?s = "snd (the (worker_create wk_start))"
  obtain w where "wk_objs ?s 2 = Some (WWorker w)" "\<not> wk_started w" "\<not> g_entry_fn ?s" "wk_port w \<noteq> 0"
    by (simp add: worker_create_def wk_start_def port_create_def wk_alloc_def Let_def empty_heap_def fits32_def int32_min_def int32_max_def)
  from worker_overwrites_main [OF this(1) _ this(2-4), of Some] this(1) show ?thesis by (intro exI [of _ w] exI [of _ ?s]) simp
qed

end
