(* ===== verification/Ts_Process.thy ===== *)
theory Ts_Process
  imports Ts_Texts Ts_Console
begin

text \<open>
  \<^verbatim>\<open>runtime/src/builtins/node_process.c\<close>, in its POSIX build: the environment and the arguments of the process,
  its streams and the control sequences written to a terminal. The operating system is a parameter.
\<close>

subsection \<open>The process\<close>

text \<open>
  \<open>ps_environ\<close> are the strings of \<^verbatim>\<open>environ\<close>, \<open>ps_argv\<close> what \<^verbatim>\<open>main\<close> has saved, \<open>None\<close> for a NULL among
  them. \<open>os_winsize\<close> is what the \<^verbatim>\<open>ioctl\<close> gives, when it succeeds; \<open>os_read\<close> gives no bytes at the end and
  on errors.
\<close>

record 'w pss =
  ps_heap :: heap
  ps_out :: string
  ps_err :: string
  ps_argv :: "string option list"
  ps_world :: 'w

record 'w os =
  os_environ :: "'w \<Rightarrow> string list"
  os_getcwd :: "'w \<Rightarrow> string option"
  os_chdir :: "string \<Rightarrow> 'w \<Rightarrow> int \<times> 'w"
  os_exit :: "int \<Rightarrow> 'w \<Rightarrow> 'w"
  os_getpid :: "'w \<Rightarrow> int"
  os_winsize :: "int \<Rightarrow> 'w \<Rightarrow> (int \<times> int) option"
  os_isatty :: "int \<Rightarrow> 'w \<Rightarrow> bool"
  os_read :: "int \<Rightarrow> nat \<Rightarrow> 'w \<Rightarrow> string \<times> 'w"
  os_system :: "string \<Rightarrow> 'w \<Rightarrow> 'w"

type_synonym 'w ps_code = "addr \<Rightarrow> tsvalue list \<Rightarrow> 'w pss \<Rightarrow> (tsvalue \<times> 'w pss) option"

text \<open>One string of the environment: name and value, when it has an equals sign.\<close>

definition env_entry :: "string \<Rightarrow> (string \<times> string) option" where
  "env_entry e = map_option (\<lambda>i. (take i e, drop (Suc i) e)) (strchr e (CHR ''=''))"

fun env_entries :: "string list \<Rightarrow> (string \<times> string) list" where
  "env_entries [] = []"
| "env_entries (e # es) = (case env_entry e of None \<Rightarrow> env_entries es | Some kv \<Rightarrow> kv # env_entries es)"

definition node_process_env :: "'w os \<Rightarrow> 'w pss \<Rightarrow> (tsvalue \<times> 'w pss) option" where
  "node_process_env os s = (let (p, h) = new_map (ps_heap s) in do {
     h1 \<leftarrow> foldo (set_text p) h (env_entries (os_environ os (ps_world s)));
     Some (VObject p, s\<lparr>ps_heap := h1\<rparr>) })"

definition node_process_set_argv :: "string option list \<Rightarrow> 'w pss \<Rightarrow> 'w pss" where
  "node_process_set_argv argv s = s\<lparr>ps_argv := argv\<rparr>"

definition node_process_argv :: "'w pss \<Rightarrow> (tsvalue \<times> 'w pss) option" where
  "node_process_argv s = (let (p, h) = new_arr (ps_heap s) ts_array_new in do {
     h1 \<leftarrow> foldo (push_text p) h (if ps_argv s = [] then [''''] else map (\<lambda>a. case a of None \<Rightarrow> '''' | Some t \<Rightarrow> t) (ps_argv s));
     Some (VArray p, s\<lparr>ps_heap := h1\<rparr>) })"

definition node_process_cwd :: "'w os \<Rightarrow> 'w pss \<Rightarrow> (tsvalue \<times> 'w pss) option" where
  "node_process_cwd os s = do {
     (v, h) \<leftarrow> new_text (ps_heap s) (case os_getcwd os (ps_world s) of Some d \<Rightarrow> d | None \<Rightarrow> ''.'');
     Some (v, s\<lparr>ps_heap := h\<rparr>) }"

definition node_process_chdir :: "'w os \<Rightarrow> tsvalue \<Rightarrow> 'w pss \<Rightarrow> (int \<times> 'w pss) option" where
  "node_process_chdir os dir s = do {
     (t, h) \<leftarrow> text_of (ps_heap s) dir;
     let (r, w) = os_chdir os (cstr t) (ps_world s);
     Some (r, s\<lparr>ps_heap := h, ps_world := w\<rparr>) }"

text \<open>The process ends with \<^verbatim>\<open>exit\<close>: what the world is then.\<close>

definition node_process_exit :: "'w os \<Rightarrow> tsvalue \<Rightarrow> 'w pss \<Rightarrow> 'w option" where
  "node_process_exit os code s = do { d \<leftarrow> ts_to_number (ps_heap s) code; n \<leftarrow> d_to_int d; Some (os_exit os n (ps_world s)) }"

definition node_process_pid :: "'w os \<Rightarrow> 'w pss \<Rightarrow> int" where
  "node_process_pid os s = os_getpid os (ps_world s)"

subsection \<open>Stream objects\<close>

definition stream_get_size :: "'w os \<Rightarrow> int \<Rightarrow> 'w \<Rightarrow> int \<times> int" where
  "stream_get_size os fd w = (case os_winsize os fd w of
     Some (rows, cols) \<Rightarrow> if rows > 0 \<and> cols > 0 then (rows, cols) else (24, 80)
   | None \<Rightarrow> (24, 80))"

definition make_stream :: "'w os \<Rightarrow> string \<Rightarrow> int \<Rightarrow> 'w pss \<Rightarrow> (tsvalue \<times> 'w pss) option" where
  "make_stream os fdName fd s = (let (p, h) = new_map (ps_heap s); (rows, cols) = stream_get_size os fd (ps_world s) in do {
     h1 \<leftarrow> map_set h p ''fd'' (VNumber (dint fd));
     h2 \<leftarrow> map_set h1 p ''isTTY'' (ts_value_boolean (os_isatty os fd (ps_world s)));
     h3 \<leftarrow> map_set h2 p ''rows'' (VNumber (dint rows));
     h4 \<leftarrow> map_set h3 p ''columns'' (VNumber (dint cols));
     h5 \<leftarrow> set_text p h4 (''_type'', fdName);
     Some (VObject p, s\<lparr>ps_heap := h5\<rparr>) })"

definition node_process_stdin :: "'w os \<Rightarrow> 'w pss \<Rightarrow> (tsvalue \<times> 'w pss) option" where
  "node_process_stdin os = make_stream os ''stdin'' 0"

definition node_process_stdout :: "'w os \<Rightarrow> 'w pss \<Rightarrow> (tsvalue \<times> 'w pss) option" where
  "node_process_stdout os = make_stream os ''stdout'' 1"

definition node_process_stderr :: "'w os \<Rightarrow> 'w pss \<Rightarrow> (tsvalue \<times> 'w pss) option" where
  "node_process_stderr os = make_stream os ''stderr'' 2"

text \<open>The loop that reads to the end and calls back with each piece, up to its first NUL.\<close>

partial_function (option) read_loop :: "'w os \<Rightarrow> 'w ps_code \<Rightarrow> int \<Rightarrow> addr \<Rightarrow> 'w pss \<Rightarrow> 'w pss option" where
  "read_loop os call fd f s = (let (bs, w) = os_read os fd 4095 (ps_world s); s1 = s\<lparr>ps_world := w\<rparr> in
     if bs = [] then Some s1
     else do {
       (v, h) \<leftarrow> new_text (ps_heap s1) (cstr bs);
       (_, s2) \<leftarrow> call f [v] (s1\<lparr>ps_heap := h\<rparr>);
       read_loop os call fd f s2 })"

definition stream_on_read :: "'w os \<Rightarrow> 'w ps_code \<Rightarrow> int \<Rightarrow> tsvalue \<Rightarrow> tsvalue \<Rightarrow> 'w pss \<Rightarrow> (tsvalue \<times> 'w pss) option" where
  "stream_on_read os call fd event callback s = do {
     (ev, h) \<leftarrow> text_or_null (ps_heap s) event;
     let s1 = s\<lparr>ps_heap := h\<rparr>;
     if map_option cstr ev \<noteq> Some ''data'' then Some (ts_value_undefined, s1)
     else (case callback of
       VFunction f \<Rightarrow> if f = 0 then Some (ts_value_undefined, s1)
         else do { s2 \<leftarrow> read_loop os call fd f s1; Some (ts_value_undefined, s2) }
     | _ \<Rightarrow> Some (ts_value_undefined, s1)) }"

definition node_process_stdin_on :: "'w os \<Rightarrow> 'w ps_code \<Rightarrow> tsvalue \<Rightarrow> tsvalue \<Rightarrow> 'w pss \<Rightarrow> (tsvalue \<times> 'w pss) option" where
  "node_process_stdin_on os call = stream_on_read os call 0"

definition node_process_stdout_on :: "'w os \<Rightarrow> 'w ps_code \<Rightarrow> tsvalue \<Rightarrow> tsvalue \<Rightarrow> 'w pss \<Rightarrow> (tsvalue \<times> 'w pss) option" where
  "node_process_stdout_on os call = stream_on_read os call 1"

definition node_process_stderr_on :: "'w os \<Rightarrow> 'w ps_code \<Rightarrow> tsvalue \<Rightarrow> tsvalue \<Rightarrow> 'w pss \<Rightarrow> (tsvalue \<times> 'w pss) option" where
  "node_process_stderr_on os call = stream_on_read os call 2"

definition node_process_stream_toString :: "tsvalue \<Rightarrow> 'w pss \<Rightarrow> (tsvalue \<times> 'w pss) option" where
  "node_process_stream_toString v s = do { (p, h) \<leftarrow> ts_to_string (ps_heap s) v; Some (VString p, s\<lparr>ps_heap := h\<rparr>) }"

subsection \<open>Output\<close>

text \<open>The stream \<^verbatim>\<open>stdout\<close> or \<^verbatim>\<open>stderr\<close>.\<close>

datatype stream_file = Out | Err

definition fput :: "stream_file \<Rightarrow> string \<Rightarrow> 'w pss \<Rightarrow> 'w pss" where
  "fput fp t s = (case fp of Out \<Rightarrow> s\<lparr>ps_out := ps_out s @ t\<rparr> | Err \<Rightarrow> s\<lparr>ps_err := ps_err s @ t\<rparr>)"

definition stream_write :: "stream_file \<Rightarrow> tsvalue \<Rightarrow> 'w pss \<Rightarrow> (tsvalue \<times> 'w pss) option" where
  "stream_write fp data s = do {
     (t, h) \<leftarrow> text_or_null (ps_heap s) data;
     let s1 = s\<lparr>ps_heap := h\<rparr>;
     Some (ts_value_boolean True, case t of None \<Rightarrow> s1 | Some x \<Rightarrow> fput fp (cstr x) s1) }"

definition to_int :: "heap \<Rightarrow> tsvalue \<Rightarrow> int option" where
  "to_int h v = do { d \<leftarrow> ts_to_number h v; d_to_int d }"

definition stream_cursor_to :: "stream_file \<Rightarrow> tsvalue \<Rightarrow> tsvalue \<Rightarrow> 'w pss \<Rightarrow> (tsvalue \<times> 'w pss) option" where
  "stream_cursor_to fp x y s = do {
     cx \<leftarrow> to_int (ps_heap s) x;
     col \<leftarrow> ck32 (cx + 1);
     cy \<leftarrow> to_int (ps_heap s) y;
     row \<leftarrow> ck32 (cy + 1);
     Some (ts_value_boolean True,
       fput fp ([ESC] @ ''['' @ int_str (if row < 1 then 1 else row) @ '';'' @ int_str (if col < 1 then 1 else col) @ ''H'') s) }"

definition csi1 :: "int \<Rightarrow> string \<Rightarrow> string option" where
  "csi1 n c = do { m \<leftarrow> ck32 n; Some ([ESC] @ ''['' @ int_str m @ c) }"

definition stream_move_cursor :: "stream_file \<Rightarrow> tsvalue \<Rightarrow> tsvalue \<Rightarrow> 'w pss \<Rightarrow> (tsvalue \<times> 'w pss) option" where
  "stream_move_cursor fp dx dy s = do {
     x \<leftarrow> to_int (ps_heap s) dx;
     y \<leftarrow> to_int (ps_heap s) dy;
     v \<leftarrow> (if y < 0 then csi1 (- y) ''A'' else if y > 0 then csi1 y ''B'' else Some []);
     h \<leftarrow> (if x > 0 then csi1 x ''C'' else if x < 0 then csi1 (- x) ''D'' else Some []);
     Some (ts_value_boolean True, fput fp (v @ h) s) }"

definition stream_clear_screen_down :: "stream_file \<Rightarrow> 'w pss \<Rightarrow> tsvalue \<times> 'w pss" where
  "stream_clear_screen_down fp s = (ts_value_boolean True, fput fp ([ESC] @ ''[J'') s)"

definition stream_clear_line :: "stream_file \<Rightarrow> tsvalue \<Rightarrow> 'w pss \<Rightarrow> (tsvalue \<times> 'w pss) option" where
  "stream_clear_line fp dir s = do {
     d \<leftarrow> to_int (ps_heap s) dir;
     Some (ts_value_boolean True, fput fp ([ESC] @ (if d < 0 then ''[1K'' else if d > 0 then ''[0K'' else ''[2K'')) s) }"

definition node_process_stdout_write :: "tsvalue \<Rightarrow> 'w pss \<Rightarrow> (tsvalue \<times> 'w pss) option" where
  "node_process_stdout_write = stream_write Out"

definition node_process_stderr_write :: "tsvalue \<Rightarrow> 'w pss \<Rightarrow> (tsvalue \<times> 'w pss) option" where
  "node_process_stderr_write = stream_write Err"

definition node_process_stdout_cursorTo :: "tsvalue \<Rightarrow> tsvalue \<Rightarrow> 'w pss \<Rightarrow> (tsvalue \<times> 'w pss) option" where
  "node_process_stdout_cursorTo = stream_cursor_to Out"

definition node_process_stderr_cursorTo :: "tsvalue \<Rightarrow> tsvalue \<Rightarrow> 'w pss \<Rightarrow> (tsvalue \<times> 'w pss) option" where
  "node_process_stderr_cursorTo = stream_cursor_to Err"

definition node_process_stdout_moveCursor :: "tsvalue \<Rightarrow> tsvalue \<Rightarrow> 'w pss \<Rightarrow> (tsvalue \<times> 'w pss) option" where
  "node_process_stdout_moveCursor = stream_move_cursor Out"

definition node_process_stderr_moveCursor :: "tsvalue \<Rightarrow> tsvalue \<Rightarrow> 'w pss \<Rightarrow> (tsvalue \<times> 'w pss) option" where
  "node_process_stderr_moveCursor = stream_move_cursor Err"

definition node_process_stdout_clearScreenDown :: "'w pss \<Rightarrow> tsvalue \<times> 'w pss" where
  "node_process_stdout_clearScreenDown = stream_clear_screen_down Out"

definition node_process_stderr_clearScreenDown :: "'w pss \<Rightarrow> tsvalue \<times> 'w pss" where
  "node_process_stderr_clearScreenDown = stream_clear_screen_down Err"

definition node_process_stdout_clearLine :: "tsvalue \<Rightarrow> 'w pss \<Rightarrow> (tsvalue \<times> 'w pss) option" where
  "node_process_stdout_clearLine = stream_clear_line Out"

definition node_process_stderr_clearLine :: "tsvalue \<Rightarrow> 'w pss \<Rightarrow> (tsvalue \<times> 'w pss) option" where
  "node_process_stderr_clearLine = stream_clear_line Err"

text \<open>The command is cut off at 4095 characters; which one it is depends on the platform, here that of Linux.\<close>

definition node_process_openUrl :: "'w os \<Rightarrow> tsvalue \<Rightarrow> 'w pss \<Rightarrow> (tsvalue \<times> 'w pss) option" where
  "node_process_openUrl os url s = do {
     (t, h) \<leftarrow> text_or_null (ps_heap s) url;
     let s1 = s\<lparr>ps_heap := h\<rparr>;
     Some (case t of
         None \<Rightarrow> (ts_value_boolean False, s1)
       | Some u \<Rightarrow> (ts_value_boolean True,
           s1\<lparr>ps_world := os_system os (snprintf 4096 (''xdg-open '' @ [CHR 0x27] @ cstr u @ [CHR 0x27] @ '' &'')) (ps_world s1)\<rparr>)) }"

end
