(* ===== verification/Ts_Terminal.thy ===== *)
theory Ts_Terminal
  imports Ts_Process
begin

text \<open>
  What \<^verbatim>\<open>runtime/src/builtins/node_process.c\<close> does, seen from outside: the environment as an object, what a
  reader of a stream is given, what a terminal does with the control sequences, and what a shell makes of
  the command that opens a URL.
\<close>

subsection \<open>The environment\<close>

definition env_string :: "string \<times> string \<Rightarrow> string" where
  "env_string = (\<lambda>(k, v). k @ ''='' @ v)"

lemma env_entries_strings: "\<forall>(k, v) \<in> set kvs. CHR ''='' \<notin> set k \<Longrightarrow> env_entries (map env_string kvs) = kvs"
  by (induction kvs) (auto simp: env_string_def env_entry_def strchr_append_notin)

text \<open>
  C1. The environment is read as it was set: the object has the variables and their values and nothing else;
  of two of the same name the later one.
\<close>

theorem process_env_roundtrip:
  assumes "os_environ os (ps_world s) = map env_string kvs" "\<forall>(k, v) \<in> set kvs. CHR ''='' \<notin> set k \<and> NUL \<notin> set v \<and> length v \<le> 5000"
    and "length kvs \<le> HM_LIMIT" "heap_ok (ps_heap s)"
  shows "\<exists>p s'. node_process_env os s = Some (VObject p, s') \<and> heap_ok (ps_heap s') \<and> texts_at (ps_heap s') p (map_of (rev kvs))"
proof -
  let ?h = "snd (new_map (ps_heap s))" and ?p = "nxt (ps_heap s)"
  have ok: "heap_ok ?h" using assms(4) by (simp add: new_map_def heap_simps)
  have "env_entries (os_environ os (ps_world s)) = kvs" unfolding assms(1) by (rule env_entries_strings) (use assms(2) in auto)
  moreover obtain h' where "foldo (set_text ?p) ?h kvs = Some h'" "texts_at h' ?p (map_of (rev kvs))" "heap_ok h'"
    using set_texts_ok [OF texts_at_new ok, of kvs] assms(2,3) by fastforce
  ultimately show ?thesis by (simp add: node_process_env_def case_prod_beta map_at_new(2))
qed

definition demo_os :: "string list os" where
  "demo_os = \<lparr>os_environ = (\<lambda>_. [''HOME=/root'', ''PATH=/bin'', ''PATH=/usr/bin'']), os_getcwd = (\<lambda>_. None), os_chdir = (\<lambda>_ w. (- 1, w)),
     os_exit = (\<lambda>_ w. w), os_getpid = (\<lambda>_. 1), os_winsize = (\<lambda>_ _. None), os_isatty = (\<lambda>_ _. False),
     os_read = (\<lambda>fd n w. (case w of [] \<Rightarrow> ([], []) | d # ds \<Rightarrow> (d, ds))), os_system = (\<lambda>line w. w @ [line])\<rparr>"

definition demo_process :: "string list \<Rightarrow> string list pss" where
  "demo_process w = \<lparr>ps_heap = snd (new_str (snd (new_str empty_heap ''data'')) ''x';reboot;'y''), ps_out = [], ps_err = [], ps_argv = [], ps_world = w\<rparr>"

lemma demo_process_heap: "heap_ok (ps_heap (demo_process w))" "str_at (ps_heap (demo_process w)) 1 ''data''"
  "str_at (ps_heap (demo_process w)) 2 ''x';reboot;'y''"
  by (simp_all add: demo_process_def new_str_def empty_heap_def heap_ok_def str_at_def)

lemma process_env_roundtrip_witness:
  "\<exists>p s'. node_process_env demo_os (demo_process []) = Some (VObject p, s') \<and> heap_ok (ps_heap s') \<and>
    texts_at (ps_heap s') p (map_of (rev [(''HOME'', ''/root''), (''PATH'', ''/bin''), (''PATH'', ''/usr/bin'')]))"
  by (rule process_env_roundtrip)
    (use demo_process_heap in \<open>simp_all add: demo_os_def env_string_def HM_LIMIT_def\<close>)

subsection \<open>Reading a stream\<close>

text \<open>Reads that give the pieces \<open>ds\<close> one after the other and then nothing; what is left is in the state.\<close>

definition feeds :: "'w os \<Rightarrow> int \<Rightarrow> ('w \<Rightarrow> string list \<Rightarrow> bool) \<Rightarrow> bool" where
  "feeds os fd left \<longleftrightarrow> (\<forall>w. left w [] \<longrightarrow> (\<exists>w'. os_read os fd 4095 w = ([], w'))) \<and>
     (\<forall>w d ds. left w (d # ds) \<longrightarrow> (\<exists>w'. os_read os fd 4095 w = (d, w') \<and> left w' ds))"

text \<open>A handler that takes a note of the texts it is called with.\<close>

definition takes_notes :: "'w ps_code \<Rightarrow> addr \<Rightarrow> ('w pss \<Rightarrow> string list) \<Rightarrow> bool" where
  "takes_notes call f seen \<longleftrightarrow> (\<forall>s q t. str_at (ps_heap s) q t \<longrightarrow> heap_ok (ps_heap s) \<longrightarrow>
     (\<exists>r s'. call f [VString q] s = Some (r, s') \<and> seen s' = seen s @ [t] \<and> ps_world s' = ps_world s \<and> heap_ok (ps_heap s'))) \<and>
   (\<forall>s w h. seen (s\<lparr>ps_world := w, ps_heap := h\<rparr>) = seen s)"

lemma takes_notesD:
  "takes_notes call f seen \<Longrightarrow> heap_ok (ps_heap s) \<Longrightarrow> str_at (ps_heap s) q t \<Longrightarrow>
   \<exists>r s'. call f [VString q] s = Some (r, s') \<and> seen s' = seen s @ [t] \<and> ps_world s' = ps_world s \<and> heap_ok (ps_heap s')"
  unfolding takes_notes_def by blast

lemma read_loop_ok:
  assumes "feeds os fd left" "takes_notes call f seen"
  shows "left (ps_world s) ds \<Longrightarrow> heap_ok (ps_heap s) \<Longrightarrow> \<forall>d \<in> set ds. d \<noteq> [] \<and> length d \<le> 4095 \<Longrightarrow>
    \<exists>s'. read_loop os call fd f s = Some s' \<and> seen s' = seen s @ map cstr ds"
proof (induction ds arbitrary: s)
  case Nil
  then obtain w where "os_read os fd 4095 (ps_world s) = ([], w)" using assms(1) by (auto simp: feeds_def)
  moreover have "seen (s\<lparr>ps_world := w\<rparr>) = seen s"
  proof -
    have "s\<lparr>ps_world := w\<rparr> = s\<lparr>ps_world := w, ps_heap := ps_heap s\<rparr>" by simp
    then show ?thesis using assms(2) unfolding takes_notes_def by metis
  qed
  ultimately show ?case by (subst read_loop.simps) simp
next
  case (Cons d ds)
  then obtain w where w: "os_read os fd 4095 (ps_world s) = (d, w)" "left w ds" using assms(1) unfolding feeds_def by blast
  have d: "d \<noteq> []" "length (cstr d) \<le> 5000" using Cons.prems(3) length_cstr_le [of d] by auto
  obtain q h where h: "new_text (ps_heap s) (cstr d) = Some (VString q, h)" "heap_ok h" "str_at h q (cstr d)"
    using new_text_step [of "cstr d" "ps_heap s"] d(2) Cons.prems(2) by auto
  let ?s = "s\<lparr>ps_world := w, ps_heap := h\<rparr>"
  obtain r s1 where s1: "call f [VString q] ?s = Some (r, s1)" "seen s1 = seen ?s @ [cstr d]" "ps_world s1 = w" "heap_ok (ps_heap s1)"
    using takes_notesD [OF assms(2), of ?s q "cstr d"] h(2,3) by auto
  have e: "seen ?s = seen s" using assms(2) unfolding takes_notes_def by blast
  from Cons.IH [of s1] s1(3,4) w(2) Cons.prems(3) obtain s' where "read_loop os call fd f s1 = Some s'" "seen s' = seen s1 @ map cstr ds" by auto
  then show ?case using w(1) d(1) h(1) s1(1,2) e by (subst read_loop.simps) simp
qed

text \<open>
  C1. A handler of data on a stream is called with each piece that is read, in order, up to the end of the
  stream; of a piece with a NUL byte it is given what stands before.
\<close>

theorem stream_data_in_order:
  assumes "feeds os fd left" "takes_notes call f seen" "left (ps_world s) ds" "heap_ok (ps_heap s)" "\<forall>d \<in> set ds. d \<noteq> [] \<and> length d \<le> 4095"
    and "str_at (ps_heap s) e ''data''" "f \<noteq> 0"
  shows "\<exists>s'. stream_on_read os call fd (VString e) (VFunction f) s = Some (VNull, s') \<and> seen s' = seen s @ map cstr ds"
  using read_loop_ok [OF assms(1-5)] assms(6,7)
  by (auto simp: stream_on_read_def text_or_null_string ts_value_undefined_def)

definition note_call :: "string list ps_code" where
  "note_call f args s = (case args of
     [VString q] \<Rightarrow> do { t \<leftarrow> str_data (ps_heap s) q; Some (VNull, s\<lparr>ps_argv := ps_argv s @ [Some t]\<rparr>) }
   | _ \<Rightarrow> Some (VNull, s))"

lemma stream_data_in_order_witness:
  "\<exists>s'. stream_on_read demo_os note_call 0 (VString 1) (VFunction 7) (demo_process [''one'', ''two'']) = Some (VNull, s') \<and>
    map the (ps_argv s') = map the (ps_argv (demo_process [''one'', ''two''])) @ map cstr [''one'', ''two'']"
proof (rule stream_data_in_order [where left = "(=)"])
  show "feeds demo_os 0 (=)" by (simp add: feeds_def demo_os_def)
  show "takes_notes note_call 7 (\<lambda>s. map the (ps_argv s))" by (simp add: takes_notes_def note_call_def)
qed (use demo_process_heap in \<open>simp_all add: demo_process_def\<close>)

subsection \<open>A terminal\<close>

text \<open>
  A screen of cells and a cursor, counted from 1, as ECMA-48 has the control sequences that are used: \<^verbatim>\<open>CUP\<close>,
  \<^verbatim>\<open>CUU\<close>, \<^verbatim>\<open>CUD\<close>, \<^verbatim>\<open>CUF\<close>, \<^verbatim>\<open>CUB\<close>, \<^verbatim>\<open>ED\<close> and \<^verbatim>\<open>EL\<close>.
\<close>

record screen =
  sc_rows :: int
  sc_cols :: int
  sc_row :: int
  sc_col :: int
  sc_cell :: "int \<Rightarrow> int \<Rightarrow> char"

fun csi_numbers :: "int \<Rightarrow> string \<Rightarrow> int list" where
  "csi_numbers acc [] = [acc]"
| "csi_numbers acc (c # cs) = (if c = CHR '';'' then acc # csi_numbers 0 cs else csi_numbers (10 * acc + int (digit_val c)) cs)"

definition clamp :: "int \<Rightarrow> int \<Rightarrow> int \<Rightarrow> int" where
  "clamp lo hi n = max lo (min hi n)"

text \<open>\<open>blank\<close> empties the cells that satisfy \<open>P\<close>.\<close>

definition blank :: "(int \<Rightarrow> int \<Rightarrow> bool) \<Rightarrow> screen \<Rightarrow> screen" where
  "blank P t = t\<lparr>sc_cell := (\<lambda>r c. if P r c then CHR '' '' else sc_cell t r c)\<rparr>"

definition csi :: "int list \<Rightarrow> char \<Rightarrow> screen \<Rightarrow> screen" where
  "csi ns c t = (let n = hd ns in
     if c = CHR ''A'' then t\<lparr>sc_row := clamp 1 (sc_rows t) (sc_row t - n)\<rparr>
     else if c = CHR ''B'' then t\<lparr>sc_row := clamp 1 (sc_rows t) (sc_row t + n)\<rparr>
     else if c = CHR ''C'' then t\<lparr>sc_col := clamp 1 (sc_cols t) (sc_col t + n)\<rparr>
     else if c = CHR ''D'' then t\<lparr>sc_col := clamp 1 (sc_cols t) (sc_col t - n)\<rparr>
     else if c = CHR ''H'' then t\<lparr>sc_row := clamp 1 (sc_rows t) n, sc_col := clamp 1 (sc_cols t) (ns ! 1)\<rparr>
     else if c = CHR ''J'' \<and> n = 0 then blank (\<lambda>r k. r > sc_row t \<or> r = sc_row t \<and> k \<ge> sc_col t) t
     else if c = CHR ''K'' \<and> n = 0 then blank (\<lambda>r k. r = sc_row t \<and> k \<ge> sc_col t) t
     else if c = CHR ''K'' \<and> n = 1 then blank (\<lambda>r k. r = sc_row t \<and> k \<le> sc_col t) t
     else if c = CHR ''K'' \<and> n = 2 then blank (\<lambda>r k. r = sc_row t) t
     else t)"

definition is_param :: "char \<Rightarrow> bool" where
  "is_param c \<longleftrightarrow> is_digit c \<or> c = CHR '';''"

text \<open>Other characters are put at the cursor.\<close>

function interp :: "string \<Rightarrow> screen \<Rightarrow> screen" where
  "interp s t = (case s of
     [] \<Rightarrow> t
   | c # r \<Rightarrow>
       if c = ESC \<and> r \<noteq> [] \<and> hd r = CHR ''['' \<and> dropWhile is_param (tl r) \<noteq> [] then
         (let ps = takeWhile is_param (tl r); q = dropWhile is_param (tl r) in interp (tl q) (csi (csi_numbers 0 ps) (hd q) t))
       else interp r (t\<lparr>sc_cell := (sc_cell t)(sc_row t := (sc_cell t (sc_row t))(sc_col t := c)), sc_col := min (sc_cols t) (sc_col t + 1)\<rparr>))"
  by pat_completeness auto
termination
proof (relation "measure (\<lambda>(s, t). length s)", simp, goal_cases)
  case (1 s t c r)
  have "length (dropWhile is_param (tl r)) \<le> length r" by (metis length_dropWhile_le length_tl diff_le_self le_trans)
  with 1 show ?case by auto
qed auto

declare interp.simps [simp del]

lemma interp_Nil [simp]: "interp [] t = t"
  by (subst interp.simps) simp

lemma interp_csi:
  assumes "\<forall>c \<in> set ps. is_param c" "\<not> is_param c"
  shows "interp ([ESC] @ ''['' @ ps @ c # r) t = interp r (csi (csi_numbers 0 ps) c t)"
  using assms by (subst interp.simps) (simp add: Let_def)

lemma csi_dec: "csi_numbers acc (dec_str n @ r) = csi_numbers (10 ^ length (dec_str n) * acc + int n) r"
proof (induction n arbitrary: acc r rule: dec_str.induct)
  case (1 n)
  have ne: "digit_char d \<noteq> CHR '';''" if "d < 10" for d using is_digit_digit_char [OF that] by (auto simp: is_digit_def)
  show ?case
  proof (cases "n < 10")
    case True
    then show ?thesis using ne [OF True] by (simp add: dec_str.simps [of n])
  next
    case False
    have "int n = 10 * int (n div 10) + int (n mod 10)" by presburger
    then show ?thesis using False ne [of "n mod 10"] 1 [OF False, of acc "digit_char (n mod 10) # r"]
      by (simp add: dec_str.simps [of n] algebra_simps)
  qed
qed

lemma csi_int: "0 \<le> n \<Longrightarrow> csi_numbers 0 (int_str n) = [n]" "0 \<le> n \<Longrightarrow> csi_numbers 0 (int_str n @ '';'' @ r) = n # csi_numbers 0 r"
  using csi_dec [of 0 "nat n" "[]"] csi_dec [of 0 "nat n" "'';'' @ r"] by (simp_all add: int_str_def)

lemma int_str_param: "0 \<le> n \<Longrightarrow> \<forall>c \<in> set (int_str n). is_param c"
  by (auto simp: int_str_def is_param_def dest: dec_str_digits)

lemma interp_csi1:
  assumes "0 < n" "csi1 n [c] = Some e" "\<not> is_param c"
  shows "interp (e @ r) t = interp r (csi [n] c t)"
  using assms interp_csi [of "int_str n" c r t] int_str_param [of n] by (auto simp: csi1_def csi_int bind_eq_Some_conv)

definition on_screen :: "screen \<Rightarrow> bool" where
  "on_screen t \<longleftrightarrow> 1 \<le> sc_row t \<and> sc_row t \<le> sc_rows t \<and> 1 \<le> sc_col t \<and> sc_col t \<le> sc_cols t"

lemma finals [simp]: "\<not> is_param (CHR ''A'')" "\<not> is_param (CHR ''B'')" "\<not> is_param (CHR ''C'')" "\<not> is_param (CHR ''D'')"
  "\<not> is_param (CHR ''H'')" "\<not> is_param (CHR ''J'')" "\<not> is_param (CHR ''K'')"
  by (simp_all add: is_param_def is_digit_def)

lemma to_int_number: "fits32 n \<Longrightarrow> to_int h (VNumber (dint n)) = Some n"
  by (simp add: to_int_def ts_to_number_def)

text \<open>C38. The cursor goes where it is told: to the cell of the given column and row, counted from 0, or by the
  given distances, and never off the screen.
\<close>

theorem terminal_cursor:
  assumes "on_screen t" "int32_min < x" "x < int32_max" "int32_min < y" "y < int32_max"
  shows "\<exists>a b. stream_cursor_to fp (VNumber (dint x)) (VNumber (dint y)) s = Some (ts_value_boolean True, fput fp a s) \<and>
    interp a t = t\<lparr>sc_row := clamp 1 (sc_rows t) (y + 1), sc_col := clamp 1 (sc_cols t) (x + 1)\<rparr> \<and>
    stream_move_cursor fp (VNumber (dint x)) (VNumber (dint y)) s = Some (ts_value_boolean True, fput fp b s) \<and>
    interp b t = t\<lparr>sc_row := clamp 1 (sc_rows t) (sc_row t + y), sc_col := clamp 1 (sc_cols t) (sc_col t + x)\<rparr>"
proof -
  have f: "fits32 x" "fits32 y" "fits32 (x + 1)" "fits32 (y + 1)" "fits32 (- x)" "fits32 (- y)"
    using assms(2-5) by (simp_all add: fits32_def int32_min_def int32_max_def)
  let ?row = "if y + 1 < 1 then 1 else y + 1" and ?col = "if x + 1 < 1 then 1 else x + 1"
  let ?a = "[ESC] @ ''['' @ (int_str ?row @ '';'' @ int_str ?col) @ CHR ''H'' # []"
  have a: "stream_cursor_to fp (VNumber (dint x)) (VNumber (dint y)) s = Some (ts_value_boolean True, fput fp ?a s)"
    using f by (simp add: stream_cursor_to_def to_int_number)
  have p: "0 \<le> ?row" "0 \<le> ?col" by simp_all
  have "\<forall>c \<in> set (int_str ?row @ '';'' @ int_str ?col). is_param c"
    using int_str_param [OF p(1)] int_str_param [OF p(2)] by (auto simp: is_param_def)
  then have "interp ?a t = csi [?row, ?col] (CHR ''H'') t"
    using interp_csi [of "int_str ?row @ '';'' @ int_str ?col" "CHR ''H''" "[]" t] p by (simp only: csi_int interp_Nil finals simp_thms)
  then have ia: "interp ?a t = t\<lparr>sc_row := clamp 1 (sc_rows t) (y + 1), sc_col := clamp 1 (sc_cols t) (x + 1)\<rparr>"
    using assms(1) by (auto simp: csi_def clamp_def on_screen_def)
  have "\<exists>v. (if y < 0 then csi1 (- y) ''A'' else if y > 0 then csi1 y ''B'' else Some []) = Some v" using f by (simp add: csi1_def)
  then obtain v where v: "(if y < 0 then csi1 (- y) ''A'' else if y > 0 then csi1 y ''B'' else Some []) = Some v" ..
  have "\<exists>h. (if x > 0 then csi1 x ''C'' else if x < 0 then csi1 (- x) ''D'' else Some []) = Some h" using f by (simp add: csi1_def)
  then obtain h where h: "(if x > 0 then csi1 x ''C'' else if x < 0 then csi1 (- x) ''D'' else Some []) = Some h" ..
  have iv: "interp (v @ r) t = interp r (t\<lparr>sc_row := clamp 1 (sc_rows t) (sc_row t + y)\<rparr>)" for r
    using v assms(1) interp_csi1 [of "- y" "CHR ''A''" v r t] interp_csi1 [of y "CHR ''B''" v r t]
    by (cases y "0 :: int" rule: linorder_cases) (auto simp: csi_def on_screen_def clamp_def)
  have ih: "interp h u = u\<lparr>sc_col := clamp 1 (sc_cols u) (sc_col u + x)\<rparr>" if "on_screen u" for u
    using h that interp_csi1 [of x "CHR ''C''" h "[]" u] interp_csi1 [of "- x" "CHR ''D''" h "[]" u]
    by (cases x "0 :: int" rule: linorder_cases) (auto simp: csi_def on_screen_def clamp_def)
  have "on_screen (t\<lparr>sc_row := clamp 1 (sc_rows t) (sc_row t + y)\<rparr>)" using assms(1) by (simp add: on_screen_def clamp_def)
  then have "interp (v @ h) t = t\<lparr>sc_row := clamp 1 (sc_rows t) (sc_row t + y), sc_col := clamp 1 (sc_cols t) (sc_col t + x)\<rparr>"
    by (simp add: iv ih)
  moreover have "stream_move_cursor fp (VNumber (dint x)) (VNumber (dint y)) s = Some (ts_value_boolean True, fput fp (v @ h) s)"
    using f v h by (simp add: stream_move_cursor_def to_int_number)
  ultimately show ?thesis using a ia by blast
qed

definition demo_screen :: screen where
  "demo_screen = \<lparr>sc_rows = 24, sc_cols = 80, sc_row = 3, sc_col = 5, sc_cell = (\<lambda>_ _. CHR ''x'')\<rparr>"

lemma terminal_cursor_witness:
  "\<exists>a b. stream_cursor_to Out (VNumber (dint 100)) (VNumber (dint (- 2))) (demo_process []) = Some (ts_value_boolean True, fput Out a (demo_process [])) \<and>
    interp a demo_screen = demo_screen\<lparr>sc_row := clamp 1 (sc_rows demo_screen) ((- 2) + 1), sc_col := clamp 1 (sc_cols demo_screen) (100 + 1)\<rparr> \<and>
    stream_move_cursor Out (VNumber (dint 100)) (VNumber (dint (- 2))) (demo_process []) = Some (ts_value_boolean True, fput Out b (demo_process [])) \<and>
    interp b demo_screen = demo_screen\<lparr>sc_row := clamp 1 (sc_rows demo_screen) (sc_row demo_screen + (- 2)),
      sc_col := clamp 1 (sc_cols demo_screen) (sc_col demo_screen + 100)\<rparr>"
  by (rule terminal_cursor) (simp_all add: on_screen_def demo_screen_def int32_min_def int32_max_def)

text \<open>The line of the cursor, or the part of it in the given direction, is made blank, or all that follows.\<close>

theorem terminal_clear:
  assumes "fits32 d"
  shows "\<exists>a. stream_clear_line fp (VNumber (dint d)) s = Some (ts_value_boolean True, fput fp a s) \<and>
    interp a t = blank (\<lambda>r c. r = sc_row t \<and> (0 < d \<longrightarrow> sc_col t \<le> c) \<and> (d < 0 \<longrightarrow> c \<le> sc_col t)) t \<and>
    (\<exists>b. stream_clear_screen_down fp s = (ts_value_boolean True, fput fp b s) \<and>
      interp b t = blank (\<lambda>r c. sc_row t < r \<or> r = sc_row t \<and> sc_col t \<le> c) t)"
proof -
  let ?a = "[ESC] @ (if d < 0 then ''[1K'' else if d > 0 then ''[0K'' else ''[2K'')" and ?b = "[ESC] @ ''[J''"
  have n: "is_param (CHR ''0'')" "is_param (CHR ''1'')" "is_param (CHR ''2'')" by (simp_all add: is_param_def is_digit_def)
  have d: "int (digit_val (CHR ''0'')) = 0" "int (digit_val (CHR ''1'')) = 1" "int (digit_val (CHR ''2'')) = 2" by code_simp+
  have "interp ?a t = blank (\<lambda>r c. r = sc_row t \<and> (0 < d \<longrightarrow> sc_col t \<le> c) \<and> (d < 0 \<longrightarrow> c \<le> sc_col t)) t"
    using interp_csi [of "''0''" "CHR ''K''" "[]" t] interp_csi [of "''1''" "CHR ''K''" "[]" t] interp_csi [of "''2''" "CHR ''K''" "[]" t] n d
    by (cases d "0 :: int" rule: linorder_cases) (auto simp: csi_def)
  moreover have "interp ?b t = blank (\<lambda>r c. sc_row t < r \<or> r = sc_row t \<and> sc_col t \<le> c) t"
    using interp_csi [of "[]" "CHR ''J''" "[]" t] by (simp add: csi_def)
  moreover have "stream_clear_line fp (VNumber (dint d)) s = Some (ts_value_boolean True, fput fp ?a s)"
    "stream_clear_screen_down fp s = (ts_value_boolean True, fput fp ?b s)"
    using assms by (simp_all add: stream_clear_line_def stream_clear_screen_down_def to_int_number)
  ultimately show ?thesis by blast
qed

lemma terminal_clear_witness:
  "\<exists>a. stream_clear_line Err (VNumber (dint 0)) (demo_process []) = Some (ts_value_boolean True, fput Err a (demo_process [])) \<and>
    interp a demo_screen = blank (\<lambda>r c. r = sc_row demo_screen \<and> (0 < (0 :: int) \<longrightarrow> sc_col demo_screen \<le> c) \<and> ((0 :: int) < 0 \<longrightarrow> c \<le> sc_col demo_screen)) demo_screen \<and>
    (\<exists>b. stream_clear_screen_down Err (demo_process []) = (ts_value_boolean True, fput Err b (demo_process [])) \<and>
      interp b demo_screen = blank (\<lambda>r c. sc_row demo_screen < r \<or> r = sc_row demo_screen \<and> sc_col demo_screen \<le> c) demo_screen)"
  by (rule terminal_clear) (simp add: fits32_def int32_min_def int32_max_def)

subsection \<open>A shell\<close>

text \<open>
  The words of the commands of a line, as a shell reads quotes, blanks and the ends of commands; the state is
  whether it is within quotes, the word so far and whether there is one, and the words before.
\<close>

abbreviation SQ :: char where
  "SQ \<equiv> CHR 0x27"

fun sh_read :: "bool \<Rightarrow> string \<Rightarrow> bool \<Rightarrow> string list \<Rightarrow> string \<Rightarrow> string list list" where
  "sh_read q w has ws [] = [if has then ws @ [w] else ws]"
| "sh_read q w has ws (c # cs) =
    (if q then (if c = SQ then sh_read False w True ws cs else sh_read True (w @ [c]) True ws cs)
     else if c = SQ then sh_read True w True ws cs
     else if c = CHR '';'' \<or> c = CHR ''&'' then (if has then ws @ [w] else ws) # sh_read False [] False [] cs
     else if c = CHR '' '' then sh_read False [] False (if has then ws @ [w] else ws) cs
     else sh_read False (w @ [c]) True ws cs)"

definition sh_commands :: "string \<Rightarrow> string list list" where
  "sh_commands line = sh_read False [] False [] line"

lemma sh_quoted: "SQ \<notin> set u \<Longrightarrow> sh_read True w True ws (u @ r) = sh_read True (w @ u) True ws r"
  by (induction u arbitrary: w) auto

lemma sh_plain: "\<forall>c \<in> set u. c \<noteq> SQ \<and> c \<noteq> CHR '';'' \<and> c \<noteq> CHR ''&'' \<Longrightarrow>
  sh_read False w has ws (u @ CHR '';'' # r) = sh_read False w has ws u @ sh_read False [] False [] r"
  by (induction u arbitrary: w has ws) auto

lemma sh_xdg: "sh_commands (''xdg-open '' @ r) = sh_read False [] False [''xdg-open''] r"
  by (simp add: sh_commands_def)

text \<open>The command that opens a URL is one command with the URL as its one argument only when there is no quote
  in the URL: with quotes a URL can carry any command of its own.
\<close>

theorem open_url_command:
  assumes "str_at (ps_heap s) q u" "NUL \<notin> set u" "length u < 4080"
  shows "\<exists>line s'. node_process_openUrl os (VString q) s = Some (ts_value_boolean True, s') \<and> ps_world s' = os_system os line (ps_world s) \<and>
    (SQ \<notin> set u \<longrightarrow> sh_commands line = [[''xdg-open'', u], []]) \<and>
    (\<forall>a c b. u = a @ [SQ] @ '';'' @ c @ '';'' @ [SQ] @ b \<longrightarrow> SQ \<notin> set a \<longrightarrow> SQ \<notin> set b \<longrightarrow>
      (\<forall>x \<in> set c. x \<noteq> SQ \<and> x \<noteq> CHR '';'' \<and> x \<noteq> CHR ''&'') \<longrightarrow>
      sh_commands line = [[''xdg-open'', a]] @ sh_commands c @ [[b], []])"
proof -
  let ?line = "''xdg-open '' @ [SQ] @ u @ [SQ] @ '' &''"
  have l: "snprintf 4096 ?line = ?line" using assms(2,3) by (intro snprintf_id) auto
  have "node_process_openUrl os (VString q) s = Some (ts_value_boolean True, s\<lparr>ps_world := os_system os ?line (ps_world s)\<rparr>)"
    using assms(1,2) l by (simp add: node_process_openUrl_def text_or_null_string cstr_id)
  moreover have "sh_commands ?line = [[''xdg-open'', u], []]" if "SQ \<notin> set u"
    using sh_quoted [OF that, of "[]" "[''xdg-open'']" "[SQ] @ '' &''"] unfolding sh_xdg by simp
  moreover have "sh_commands ?line = [[''xdg-open'', a]] @ sh_commands c @ [[b], []]"
    if u: "u = a @ [SQ] @ '';'' @ c @ '';'' @ [SQ] @ b" "SQ \<notin> set a" "SQ \<notin> set b" "\<forall>x \<in> set c. x \<noteq> SQ \<and> x \<noteq> CHR '';'' \<and> x \<noteq> CHR ''&''" for a c b
  proof -
    have "sh_commands ?line = sh_read True a True [''xdg-open''] ([SQ] @ '';'' @ c @ '';'' @ [SQ] @ b @ [SQ] @ '' &'')"
      using sh_quoted [OF u(2), of "[]" "[''xdg-open'']" "[SQ] @ '';'' @ c @ '';'' @ [SQ] @ b @ [SQ] @ '' &''"] u(1) unfolding sh_xdg by simp
    also have "\<dots> = [''xdg-open'', a] # sh_read False [] False [] c @ sh_read True b True [] ([SQ] @ '' &'')"
      using sh_plain [OF u(4), of "[]" False "[]" "[SQ] @ b @ [SQ] @ '' &''"] sh_quoted [OF u(3), of "[]" "[]" "[SQ] @ '' &''"] by simp
    finally show ?thesis by (simp add: sh_commands_def)
  qed
  ultimately show ?thesis by (intro exI [of _ ?line] exI conjI) (assumption | simp | blast)+
qed

lemma open_url_command_witness:
  "\<exists>line s'. node_process_openUrl demo_os (VString 2) (demo_process []) = Some (ts_value_boolean True, s') \<and> ps_world s' = [line] \<and>
    sh_commands line = [[''xdg-open'', ''x''], [''reboot''], [''y''], []]"
proof -
  have r: "sh_commands ''reboot'' = [[''reboot'']]" by code_simp
  obtain line s' where l: "node_process_openUrl demo_os (VString 2) (demo_process []) = Some (ts_value_boolean True, s')"
    "ps_world s' = os_system demo_os line (ps_world (demo_process []))" and
    c: "\<forall>a c b. ''x';reboot;'y'' = a @ [SQ] @ '';'' @ c @ '';'' @ [SQ] @ b \<longrightarrow> SQ \<notin> set a \<longrightarrow> SQ \<notin> set b \<longrightarrow>
      (\<forall>x \<in> set c. x \<noteq> SQ \<and> x \<noteq> CHR '';'' \<and> x \<noteq> CHR ''&'') \<longrightarrow> sh_commands line = [[''xdg-open'', a]] @ sh_commands c @ [[b], []]"
    using open_url_command [OF demo_process_heap(3), of demo_os "[]"] by auto
  have "sh_commands line = [[''xdg-open'', ''x''], [''reboot''], [''y''], []]"
    using c [THEN spec, of "''x''", THEN spec, of "''reboot''", THEN spec, of "''y''"] r by simp
  moreover have "ps_world s' = [line]" using l(2) by (simp add: demo_os_def demo_process_def)
  ultimately show ?thesis using l(1) by blast
qed

end
