(* ===== verification/Ts_Fs.thy ===== *)
theory Ts_Fs
  imports Ts_Texts Ts_Promise Ts_Join Ts_Builtins
begin

text \<open>
  \<^verbatim>\<open>runtime/src/builtins/node_fs.c\<close>, in its POSIX build: the synchronous operations on files, and the
  asynchronous ones, which hand a job to the thread pool. A worker does the first part of a job and the
  main thread the second, which settles the promise. The file system is a parameter.
\<close>

subsection \<open>The file system\<close>

text \<open>
  \<open>sys_read\<close> is \<^verbatim>\<open>fopen\<close> for reading: when it succeeds, what \<^verbatim>\<open>ftell\<close> says at the end and the bytes there
  are. \<open>sys_open\<close> is \<^verbatim>\<open>fopen\<close> for writing, which empties the file; \<open>sys_write\<close> writes and closes. The integer
  operations give zero when they succeed. \<open>sys_malloc\<close> is whether so much memory can be had: the size of
  a directory is more than that on some systems.
\<close>

record file_stat =
  st_size :: int
  st_mtime :: int
  st_isreg :: bool
  st_isdir :: bool

record 'w fsys =
  sys_read :: "string \<Rightarrow> 'w \<Rightarrow> (int \<times> 8 word list) option"
  sys_open :: "string \<Rightarrow> 'w \<Rightarrow> bool \<times> 'w"
  sys_write :: "string \<Rightarrow> 8 word list \<Rightarrow> 'w \<Rightarrow> 'w"
  sys_stat :: "string \<Rightarrow> 'w \<Rightarrow> file_stat option"
  sys_readdir :: "string \<Rightarrow> 'w \<Rightarrow> string list option"
  sys_readlink :: "string \<Rightarrow> nat \<Rightarrow> 'w \<Rightarrow> string option"
  sys_mkdir :: "string \<Rightarrow> int \<Rightarrow> 'w \<Rightarrow> int \<times> 'w"
  sys_unlink :: "string \<Rightarrow> 'w \<Rightarrow> int \<times> 'w"
  sys_rmdir :: "string \<Rightarrow> 'w \<Rightarrow> int \<times> 'w"
  sys_rename :: "string \<Rightarrow> string \<Rightarrow> 'w \<Rightarrow> int \<times> 'w"
  sys_symlink :: "string \<Rightarrow> string \<Rightarrow> 'w \<Rightarrow> int \<times> 'w"
  sys_chmod :: "string \<Rightarrow> int \<Rightarrow> 'w \<Rightarrow> int \<times> 'w"
  sys_malloc :: "int \<Rightarrow> bool"

subsection \<open>What both kinds share\<close>

definition fs_options_has_encoding :: "heap \<Rightarrow> tsvalue \<Rightarrow> bool option" where
  "fs_options_has_encoding h options = (case options of
     VString q \<Rightarrow> Some (q \<noteq> 0)
   | VObject q \<Rightarrow> if q = 0 then Some False
       else do {
         enc \<leftarrow> map_get h q ''encoding'';
         case enc of VString e \<Rightarrow> if e = 0 then Some False else do { t \<leftarrow> str_data h e; Some (t \<noteq> []) } | _ \<Rightarrow> Some False }
   | _ \<Rightarrow> Some False)"

text \<open>The conversion of a length to \<^verbatim>\<open>int32_t\<close>.\<close>

definition int32_of :: "nat \<Rightarrow> int" where
  "int32_of n = sint (word_of_nat n :: 32 word)"

text \<open>The buffer and the string that are made of the bytes read, which a NUL follows in memory.\<close>

definition file_buffer :: "8 word list \<Rightarrow> buffer" where
  "file_buffer bs = (let n = int32_of (length bs) in
     \<lparr>bf_data = bs @ [0], bf_length = n, bf_capacity = (if n > 0 then n else 16)\<rparr>)"

definition file_value :: "bool \<Rightarrow> 8 word list \<Rightarrow> heap \<Rightarrow> (tsvalue \<times> heap) option" where
  "file_value as_string bs h =
    (if \<not> as_string then Some (new_value h (OBuffer (file_buffer bs)))
     else do { (p, h1) \<leftarrow> ts_string_new_len h (map char_of_byte (bs @ [0])) (int32_of (length bs)); Some (VString p, h1) })"

text \<open>The bytes of what is written: those of a buffer, or of the text of any other value.\<close>

definition written_bytes :: "heap \<Rightarrow> tsvalue \<Rightarrow> (8 word list \<times> heap) option" where
  "written_bytes h data = do {
     r \<leftarrow> as_buffer h data;
     case r of
       Some b \<Rightarrow> if bf_length b > 0 then do { bs \<leftarrow> bytes_at b 0 (bf_length b); Some (bs, h) } else Some ([], h)
     | None \<Rightarrow> do {
         (t, h1) \<leftarrow> text_or_null h data;
         Some (case t of None \<Rightarrow> [] | Some x \<Rightarrow> map byte_of x, h1) } }"

definition dot_name :: "string \<Rightarrow> bool" where
  "dot_name n \<longleftrightarrow> n = ''.'' \<or> n = ''..''"

definition dir_names :: "string list option \<Rightarrow> string list" where
  "dir_names r = (case r of None \<Rightarrow> [] | Some ns \<Rightarrow> filter (\<lambda>n. \<not> dot_name n) ns)"

definition names_value :: "string list \<Rightarrow> heap \<Rightarrow> (tsvalue \<times> heap) option" where
  "names_value ns h = (let (p, h1) = new_arr h ts_array_new in do {
     h2 \<leftarrow> foldo (push_text p) h1 ns;
     Some (VArray p, h2) })"

definition mtime_ms :: "file_stat \<Rightarrow> dbl" where
  "mtime_ms st = dmul (rnd (of_int (st_mtime st))) (DFin 1000)"

definition stat_value :: "int \<Rightarrow> dbl \<Rightarrow> bool \<Rightarrow> bool \<Rightarrow> heap \<Rightarrow> (tsvalue \<times> heap) option" where
  "stat_value n ms is_file is_dir h = (let (p, h1) = new_map h in do {
     h2 \<leftarrow> map_set h1 p ''size'' (VNumber (rnd (of_int n)));
     h3 \<leftarrow> map_set h2 p ''mtime'' (VNumber ms);
     h4 \<leftarrow> map_set h3 p ''isFile'' (ts_value_boolean is_file);
     h5 \<leftarrow> map_set h4 p ''isDirectory'' (ts_value_boolean is_dir);
     Some (VObject p, h5) })"

subsection \<open>The state\<close>

record read_job =
  rj_path :: string
  rj_as_string :: bool
  rj_promise :: "tsvalue"
  rj_ok :: bool
  rj_data :: "8 word list"
  rj_err :: "string option"

record write_job =
  wj_path :: string
  wj_data :: "8 word list"
  wj_promise :: "tsvalue"
  wj_ok :: bool

record access_job =
  aj_path :: string
  aj_promise :: "tsvalue"
  aj_exists :: bool

record int_job =
  ij_path :: string
  ij_path2 :: "string option"
  ij_mode :: int
  ij_op :: nat
  ij_promise :: "tsvalue"
  ij_result :: int

record readdir_job =
  dj_path :: string
  dj_promise :: "tsvalue"
  dj_names :: "string list"
  dj_ok :: bool

record stat_job =
  sj_path :: string
  sj_promise :: "tsvalue"
  sj_ok :: bool
  sj_size :: int
  sj_mtime_ms :: dbl
  sj_is_file :: bool
  sj_is_dir :: bool

record readlink_job =
  lj_path :: string
  lj_promise :: "tsvalue"
  lj_ok :: bool
  lj_target :: "string option"

text \<open>A job is one of these with the two functions that belong to it.\<close>

datatype fs_job = ReadFile read_job | WriteFile write_job | Access access_job | IntOp int_job
  | Readdir readdir_job | Stat stat_job | Readlink readlink_job

text \<open>The store, the files, and the jobs that have been handed to the thread pool, in their order.\<close>

record 'w fss =
  fs_heap :: heap
  fs_world :: 'w
  fs_submitted :: "fs_job list"

subsection \<open>Synchronous operations\<close>

definition node_fs_readFileSync :: "'w fsys \<Rightarrow> tsvalue \<Rightarrow> tsvalue \<Rightarrow> 'w fss \<Rightarrow> (outcome \<times> 'w fss) option" where
  "node_fs_readFileSync sys path options s = do {
     (p, h1) \<leftarrow> ts_to_string (fs_heap s) path;
     t \<leftarrow> str_data h1 p;
     case sys_read sys (cstr t) (fs_world s) of
       None \<Rightarrow> do {
         (e, h2) \<leftarrow> ts_string_new h1 ''File not found: '';
         (m, h3) \<leftarrow> ts_string_concat h2 e p;
         Some (Thrown (VString m), s\<lparr>fs_heap := h3\<rparr>) }
     | Some (told, bs) \<Rightarrow> (let n = (if told < 0 then 0 else told) in
         if \<not> sys_malloc sys (n + 1) then None
         else do {
           enc \<leftarrow> fs_options_has_encoding h1 options;
           (v, h2) \<leftarrow> file_value enc (take (nat n) bs) h1;
           Some (Returned v, s\<lparr>fs_heap := h2\<rparr>) }) }"

definition node_fs_writeFileSync :: "'w fsys \<Rightarrow> tsvalue \<Rightarrow> tsvalue \<Rightarrow> tsvalue \<Rightarrow> 'w fss \<Rightarrow> (int \<times> 'w fss) option" where
  "node_fs_writeFileSync sys path data options s = do {
     (t, h1) \<leftarrow> text_of (fs_heap s) path;
     let (ok, w) = sys_open sys (cstr t) (fs_world s);
     if \<not> ok then Some (- 1, s\<lparr>fs_heap := h1, fs_world := w\<rparr>)
     else do {
       (bs, h2) \<leftarrow> written_bytes h1 data;
       Some (0, s\<lparr>fs_heap := h2, fs_world := (if bs \<noteq> [] then sys_write sys (cstr t) bs w else w)\<rparr>) } }"

definition node_fs_existsSync :: "'w fsys \<Rightarrow> tsvalue \<Rightarrow> 'w fss \<Rightarrow> (bool \<times> 'w fss) option" where
  "node_fs_existsSync sys path s = do {
     (t, h1) \<leftarrow> text_of (fs_heap s) path;
     Some (sys_stat sys (cstr t) (fs_world s) \<noteq> None, s\<lparr>fs_heap := h1\<rparr>) }"

text \<open>The operations that pass the answer of the system on.\<close>

definition int_op :: "tsvalue \<Rightarrow> (string \<Rightarrow> 'w \<Rightarrow> int \<times> 'w) \<Rightarrow> 'w fss \<Rightarrow> (int \<times> 'w fss) option" where
  "int_op path f s = do {
     (t, h1) \<leftarrow> text_of (fs_heap s) path;
     let (r, w) = f (cstr t) (fs_world s);
     Some (r, s\<lparr>fs_heap := h1, fs_world := w\<rparr>) }"

definition int_op2 :: "tsvalue \<Rightarrow> tsvalue \<Rightarrow> (string \<Rightarrow> string \<Rightarrow> 'w \<Rightarrow> int \<times> 'w) \<Rightarrow> 'w fss \<Rightarrow> (int \<times> 'w fss) option" where
  "int_op2 a b f s = do {
     (t, h1) \<leftarrow> text_of (fs_heap s) a;
     (u, h2) \<leftarrow> text_of h1 b;
     let (r, w) = f (cstr t) (cstr u) (fs_world s);
     Some (r, s\<lparr>fs_heap := h2, fs_world := w\<rparr>) }"

text \<open>\<^verbatim>\<open>0755\<close>\<close>

definition MKDIR_MODE :: int where "MKDIR_MODE = 493"

definition node_fs_mkdirSync :: "'w fsys \<Rightarrow> tsvalue \<Rightarrow> tsvalue \<Rightarrow> 'w fss \<Rightarrow> (int \<times> 'w fss) option" where
  "node_fs_mkdirSync sys path options = int_op path (\<lambda>t. sys_mkdir sys t MKDIR_MODE)"

definition node_fs_unlinkSync :: "'w fsys \<Rightarrow> tsvalue \<Rightarrow> 'w fss \<Rightarrow> (int \<times> 'w fss) option" where
  "node_fs_unlinkSync sys path = int_op path (sys_unlink sys)"

definition node_fs_rmdirSync :: "'w fsys \<Rightarrow> tsvalue \<Rightarrow> 'w fss \<Rightarrow> (int \<times> 'w fss) option" where
  "node_fs_rmdirSync sys path = int_op path (sys_rmdir sys)"

definition node_fs_renameSync :: "'w fsys \<Rightarrow> tsvalue \<Rightarrow> tsvalue \<Rightarrow> 'w fss \<Rightarrow> (int \<times> 'w fss) option" where
  "node_fs_renameSync sys oldPath newPath = int_op2 oldPath newPath (sys_rename sys)"

definition node_fs_symlinkSync :: "'w fsys \<Rightarrow> tsvalue \<Rightarrow> tsvalue \<Rightarrow> 'w fss \<Rightarrow> (int \<times> 'w fss) option" where
  "node_fs_symlinkSync sys target path = int_op2 target path (sys_symlink sys)"

definition mode_of :: "heap \<Rightarrow> tsvalue \<Rightarrow> int option" where
  "mode_of h mode = do { d \<leftarrow> ts_to_number h mode; d_to_int d }"

definition node_fs_chmodSync :: "'w fsys \<Rightarrow> tsvalue \<Rightarrow> tsvalue \<Rightarrow> 'w fss \<Rightarrow> (int \<times> 'w fss) option" where
  "node_fs_chmodSync sys path mode s = do {
     (t, h1) \<leftarrow> text_of (fs_heap s) path;
     m \<leftarrow> mode_of h1 mode;
     let (r, w) = sys_chmod sys (cstr t) m (fs_world s);
     Some (r, s\<lparr>fs_heap := h1, fs_world := w\<rparr>) }"

definition node_fs_readdirSync :: "'w fsys \<Rightarrow> tsvalue \<Rightarrow> 'w fss \<Rightarrow> (tsvalue \<times> 'w fss) option" where
  "node_fs_readdirSync sys path s = do {
     (t, h1) \<leftarrow> text_of (fs_heap s) path;
     (v, h2) \<leftarrow> names_value (dir_names (sys_readdir sys (cstr t) (fs_world s))) h1;
     Some (v, s\<lparr>fs_heap := h2\<rparr>) }"

text \<open>\<^verbatim>\<open>TS_THROW\<close> of a text.\<close>

definition fs_throw :: "string \<Rightarrow> 'w fss \<Rightarrow> (outcome \<times> 'w fss) option" where
  "fs_throw t s = do { (v, h) \<leftarrow> new_text (fs_heap s) t; Some (Thrown v, s\<lparr>fs_heap := h\<rparr>) }"

definition node_fs_statSync :: "'w fsys \<Rightarrow> tsvalue \<Rightarrow> 'w fss \<Rightarrow> (outcome \<times> 'w fss) option" where
  "node_fs_statSync sys path s = do {
     (t, h1) \<leftarrow> text_of (fs_heap s) path;
     let s1 = s\<lparr>fs_heap := h1\<rparr>;
     case sys_stat sys (cstr t) (fs_world s) of
       None \<Rightarrow> fs_throw ''File not found'' s1
     | Some st \<Rightarrow> do {
         (v, h2) \<leftarrow> stat_value (st_size st) (mtime_ms st) (st_isreg st) (st_isdir st) h1;
         Some (Returned v, s1\<lparr>fs_heap := h2\<rparr>) } }"

text \<open>A target of more than 4095 characters is cut off.\<close>

definition node_fs_readlinkSync :: "'w fsys \<Rightarrow> tsvalue \<Rightarrow> 'w fss \<Rightarrow> (outcome \<times> 'w fss) option" where
  "node_fs_readlinkSync sys path s = do {
     (t, h1) \<leftarrow> text_of (fs_heap s) path;
     let s1 = s\<lparr>fs_heap := h1\<rparr>;
     case sys_readlink sys (cstr t) 4095 (fs_world s) of
       None \<Rightarrow> fs_throw ''Not a symbolic link'' s1
     | Some target \<Rightarrow> do { (v, h2) \<leftarrow> new_text h1 target; Some (Returned v, s1\<lparr>fs_heap := h2\<rparr>) } }"

subsection \<open>Asynchronous operations\<close>

definition fs_path_dup :: "heap \<Rightarrow> tsvalue \<Rightarrow> (string \<times> heap) option" where
  "fs_path_dup h path = do { (t, h1) \<leftarrow> text_or_null h path; Some (case t of None \<Rightarrow> [] | Some x \<Rightarrow> cstr x, h1) }"

definition fs_submit :: "fs_job \<Rightarrow> 'w fss \<Rightarrow> 'w fss" where
  "fs_submit j s = s\<lparr>fs_submitted := fs_submitted s @ [j]\<rparr>"

definition node_fs_readFile :: "tsvalue \<Rightarrow> tsvalue \<Rightarrow> 'w fss \<Rightarrow> (tsvalue \<times> 'w fss) option" where
  "node_fs_readFile path options s = (let (p, h1) = ts_promise_new (fs_heap s) in do {
     (t, h2) \<leftarrow> fs_path_dup h1 path;
     enc \<leftarrow> fs_options_has_encoding h2 options;
     Some (p, fs_submit (ReadFile \<lparr>rj_path = t, rj_as_string = enc, rj_promise = p, rj_ok = False, rj_data = [], rj_err = None\<rparr>)
       (s\<lparr>fs_heap := h2\<rparr>)) })"

definition node_fs_writeFile :: "tsvalue \<Rightarrow> tsvalue \<Rightarrow> tsvalue \<Rightarrow> 'w fss \<Rightarrow> (tsvalue \<times> 'w fss) option" where
  "node_fs_writeFile path data options s = (let (p, h1) = ts_promise_new (fs_heap s) in do {
     (t, h2) \<leftarrow> fs_path_dup h1 path;
     (bs, h3) \<leftarrow> written_bytes h2 data;
     Some (p, fs_submit (WriteFile \<lparr>wj_path = t, wj_data = bs, wj_promise = p, wj_ok = False\<rparr>) (s\<lparr>fs_heap := h3\<rparr>)) })"

definition node_fs_access :: "tsvalue \<Rightarrow> tsvalue \<Rightarrow> 'w fss \<Rightarrow> (tsvalue \<times> 'w fss) option" where
  "node_fs_access path mode s = (let (p, h1) = ts_promise_new (fs_heap s) in do {
     (t, h2) \<leftarrow> fs_path_dup h1 path;
     Some (p, fs_submit (Access \<lparr>aj_path = t, aj_promise = p, aj_exists = False\<rparr>) (s\<lparr>fs_heap := h2\<rparr>)) })"

definition fs_int_async :: "tsvalue \<Rightarrow> tsvalue \<Rightarrow> int \<Rightarrow> nat \<Rightarrow> 'w fss \<Rightarrow> (tsvalue \<times> 'w fss) option" where
  "fs_int_async path path2 mode op s = (let (p, h1) = ts_promise_new (fs_heap s) in do {
     (t, h2) \<leftarrow> fs_path_dup h1 path;
     (u, h3) \<leftarrow> (if op = 3 \<or> op = 4 then do { (u, h3) \<leftarrow> fs_path_dup h2 path2; Some (Some u, h3) } else Some (None, h2));
     Some (p, fs_submit (IntOp \<lparr>ij_path = t, ij_path2 = u, ij_mode = mode, ij_op = op, ij_promise = p, ij_result = 0\<rparr>)
       (s\<lparr>fs_heap := h3\<rparr>)) })"

definition node_fs_mkdir :: "tsvalue \<Rightarrow> tsvalue \<Rightarrow> 'w fss \<Rightarrow> (tsvalue \<times> 'w fss) option" where
  "node_fs_mkdir path options = fs_int_async path VNull 0 0"

definition node_fs_unlink :: "tsvalue \<Rightarrow> 'w fss \<Rightarrow> (tsvalue \<times> 'w fss) option" where
  "node_fs_unlink path = fs_int_async path VNull 0 1"

definition node_fs_rmdir :: "tsvalue \<Rightarrow> 'w fss \<Rightarrow> (tsvalue \<times> 'w fss) option" where
  "node_fs_rmdir path = fs_int_async path VNull 0 2"

definition node_fs_rename :: "tsvalue \<Rightarrow> tsvalue \<Rightarrow> 'w fss \<Rightarrow> (tsvalue \<times> 'w fss) option" where
  "node_fs_rename oldPath newPath = fs_int_async oldPath newPath 0 3"

definition node_fs_symlink :: "tsvalue \<Rightarrow> tsvalue \<Rightarrow> 'w fss \<Rightarrow> (tsvalue \<times> 'w fss) option" where
  "node_fs_symlink target path = fs_int_async target path 0 4"

definition node_fs_chmod :: "tsvalue \<Rightarrow> tsvalue \<Rightarrow> 'w fss \<Rightarrow> (tsvalue \<times> 'w fss) option" where
  "node_fs_chmod path mode s = do { m \<leftarrow> mode_of (fs_heap s) mode; fs_int_async path VNull m 5 s }"

definition node_fs_readdir :: "tsvalue \<Rightarrow> 'w fss \<Rightarrow> (tsvalue \<times> 'w fss) option" where
  "node_fs_readdir path s = (let (p, h1) = ts_promise_new (fs_heap s) in do {
     (t, h2) \<leftarrow> fs_path_dup h1 path;
     Some (p, fs_submit (Readdir \<lparr>dj_path = t, dj_promise = p, dj_names = [], dj_ok = False\<rparr>) (s\<lparr>fs_heap := h2\<rparr>)) })"

definition node_fs_stat :: "tsvalue \<Rightarrow> 'w fss \<Rightarrow> (tsvalue \<times> 'w fss) option" where
  "node_fs_stat path s = (let (p, h1) = ts_promise_new (fs_heap s) in do {
     (t, h2) \<leftarrow> fs_path_dup h1 path;
     Some (p, fs_submit (Stat \<lparr>sj_path = t, sj_promise = p, sj_ok = False, sj_size = 0, sj_mtime_ms = DFin 0,
       sj_is_file = False, sj_is_dir = False\<rparr>) (s\<lparr>fs_heap := h2\<rparr>)) })"

definition node_fs_readlink :: "tsvalue \<Rightarrow> 'w fss \<Rightarrow> (tsvalue \<times> 'w fss) option" where
  "node_fs_readlink path s = (let (p, h1) = ts_promise_new (fs_heap s) in do {
     (t, h2) \<leftarrow> fs_path_dup h1 path;
     Some (p, fs_submit (Readlink \<lparr>lj_path = t, lj_promise = p, lj_ok = False, lj_target = None\<rparr>) (s\<lparr>fs_heap := h2\<rparr>)) })"

subsection \<open>The work of a job\<close>

definition fs_read_work :: "'w fsys \<Rightarrow> read_job \<Rightarrow> 'w \<Rightarrow> read_job" where
  "fs_read_work sys j w = (case sys_read sys (rj_path j) w of
     None \<Rightarrow> j\<lparr>rj_ok := False, rj_err := Some ''File not found''\<rparr>
   | Some (told, bs) \<Rightarrow> (let n = (if told < 0 then 0 else told) in
       if \<not> sys_malloc sys (n + 1) then j\<lparr>rj_ok := False, rj_err := Some ''Out of memory''\<rparr>
       else j\<lparr>rj_ok := True, rj_data := take (nat n) bs\<rparr>))"

definition fs_write_work :: "'w fsys \<Rightarrow> write_job \<Rightarrow> 'w \<Rightarrow> write_job \<times> 'w" where
  "fs_write_work sys j w = (let (ok, w1) = sys_open sys (wj_path j) w in
     if \<not> ok then (j\<lparr>wj_ok := False\<rparr>, w1)
     else (j\<lparr>wj_ok := True\<rparr>, if wj_data j \<noteq> [] then sys_write sys (wj_path j) (wj_data j) w1 else w1))"

definition fs_access_work :: "'w fsys \<Rightarrow> access_job \<Rightarrow> 'w \<Rightarrow> access_job" where
  "fs_access_work sys j w = j\<lparr>aj_exists := (sys_stat sys (aj_path j) w \<noteq> None)\<rparr>"

text \<open>The second path is there for the operations that read it.\<close>

definition path2 :: "int_job \<Rightarrow> string" where
  "path2 j = (case ij_path2 j of None \<Rightarrow> [] | Some p \<Rightarrow> p)"

definition fs_int_work :: "'w fsys \<Rightarrow> int_job \<Rightarrow> 'w \<Rightarrow> int_job \<times> 'w" where
  "fs_int_work sys j w = (let (r, w1) =
      (if ij_op j = 0 then sys_mkdir sys (ij_path j) MKDIR_MODE w
       else if ij_op j = 1 then sys_unlink sys (ij_path j) w
       else if ij_op j = 2 then sys_rmdir sys (ij_path j) w
       else if ij_op j = 3 then sys_rename sys (ij_path j) (path2 j) w
       else if ij_op j = 4 then sys_symlink sys (ij_path j) (path2 j) w
       else if ij_op j = 5 then sys_chmod sys (ij_path j) (ij_mode j) w
       else (- 1, w))
     in (j\<lparr>ij_result := r\<rparr>, w1))"

definition fs_readdir_work :: "'w fsys \<Rightarrow> readdir_job \<Rightarrow> 'w \<Rightarrow> readdir_job" where
  "fs_readdir_work sys j w = j\<lparr>dj_ok := True, dj_names := dir_names (sys_readdir sys (dj_path j) w)\<rparr>"

definition fs_stat_work :: "'w fsys \<Rightarrow> stat_job \<Rightarrow> 'w \<Rightarrow> stat_job" where
  "fs_stat_work sys j w = (case sys_stat sys (sj_path j) w of
     None \<Rightarrow> j\<lparr>sj_ok := False\<rparr>
   | Some st \<Rightarrow> j\<lparr>sj_ok := True, sj_size := st_size st, sj_mtime_ms := mtime_ms st, sj_is_file := st_isreg st, sj_is_dir := st_isdir st\<rparr>)"

definition fs_readlink_work :: "'w fsys \<Rightarrow> readlink_job \<Rightarrow> 'w \<Rightarrow> readlink_job" where
  "fs_readlink_work sys j w = (case sys_readlink sys (lj_path j) 4095 w of
     None \<Rightarrow> j\<lparr>lj_ok := False\<rparr>
   | Some t \<Rightarrow> j\<lparr>lj_ok := True, lj_target := Some (cstr t)\<rparr>)"

definition fs_work :: "'w fsys \<Rightarrow> fs_job \<Rightarrow> 'w \<Rightarrow> fs_job \<times> 'w" where
  "fs_work sys j w = (case j of
     ReadFile r \<Rightarrow> (ReadFile (fs_read_work sys r w), w)
   | WriteFile r \<Rightarrow> (let (r', w1) = fs_write_work sys r w in (WriteFile r', w1))
   | Access r \<Rightarrow> (Access (fs_access_work sys r w), w)
   | IntOp r \<Rightarrow> (let (r', w1) = fs_int_work sys r w in (IntOp r', w1))
   | Readdir r \<Rightarrow> (Readdir (fs_readdir_work sys r w), w)
   | Stat r \<Rightarrow> (Stat (fs_stat_work sys r w), w)
   | Readlink r \<Rightarrow> (Readlink (fs_readlink_work sys r w), w))"

subsection \<open>The completion of a job\<close>

definition fs_resolve :: "code \<Rightarrow> tsvalue \<Rightarrow> tsvalue \<Rightarrow> heap \<Rightarrow> heap option" where
  "fs_resolve call p v h = map_option snd (ts_promise_resolve call h p v)"

definition fs_reject :: "code \<Rightarrow> tsvalue \<Rightarrow> string \<Rightarrow> heap \<Rightarrow> heap option" where
  "fs_reject call p t h = do { (v, h1) \<leftarrow> new_text h t; map_option snd (ts_promise_reject call h1 p v) }"

definition fs_read_complete :: "code \<Rightarrow> read_job \<Rightarrow> heap \<Rightarrow> heap option" where
  "fs_read_complete call j h =
    (if rj_ok j then do { (v, h1) \<leftarrow> file_value (rj_as_string j) (rj_data j) h; fs_resolve call (rj_promise j) v h1 }
     else fs_reject call (rj_promise j) (case rj_err j of Some e \<Rightarrow> e | None \<Rightarrow> ''readFile failed'') h)"

definition fs_write_complete :: "code \<Rightarrow> write_job \<Rightarrow> heap \<Rightarrow> heap option" where
  "fs_write_complete call j h = fs_resolve call (wj_promise j) (ts_value_boolean (wj_ok j)) h"

definition fs_access_complete :: "code \<Rightarrow> access_job \<Rightarrow> heap \<Rightarrow> heap option" where
  "fs_access_complete call j h = fs_resolve call (aj_promise j) (ts_value_boolean (aj_exists j)) h"

definition fs_int_complete :: "code \<Rightarrow> int_job \<Rightarrow> heap \<Rightarrow> heap option" where
  "fs_int_complete call j h = fs_resolve call (ij_promise j) (ts_value_boolean (ij_result j = 0)) h"

definition fs_readdir_complete :: "code \<Rightarrow> readdir_job \<Rightarrow> heap \<Rightarrow> heap option" where
  "fs_readdir_complete call j h = do { (v, h1) \<leftarrow> names_value (dj_names j) h; fs_resolve call (dj_promise j) v h1 }"

definition fs_stat_complete :: "code \<Rightarrow> stat_job \<Rightarrow> heap \<Rightarrow> heap option" where
  "fs_stat_complete call j h =
    (if \<not> sj_ok j then fs_reject call (sj_promise j) ''File not found'' h
     else do {
       (v, h1) \<leftarrow> stat_value (sj_size j) (sj_mtime_ms j) (sj_is_file j) (sj_is_dir j) h;
       fs_resolve call (sj_promise j) v h1 })"

definition fs_readlink_complete :: "code \<Rightarrow> readlink_job \<Rightarrow> heap \<Rightarrow> heap option" where
  "fs_readlink_complete call j h =
    (if \<not> lj_ok j then fs_reject call (lj_promise j) ''Not a symbolic link'' h
     else do {
       t \<leftarrow> lj_target j;
       (v, h1) \<leftarrow> new_text h t;
       fs_resolve call (lj_promise j) v h1 })"

definition fs_complete :: "code \<Rightarrow> fs_job \<Rightarrow> heap \<Rightarrow> heap option" where
  "fs_complete call j = (case j of
     ReadFile r \<Rightarrow> fs_read_complete call r
   | WriteFile r \<Rightarrow> fs_write_complete call r
   | Access r \<Rightarrow> fs_access_complete call r
   | IntOp r \<Rightarrow> fs_int_complete call r
   | Readdir r \<Rightarrow> fs_readdir_complete call r
   | Stat r \<Rightarrow> fs_stat_complete call r
   | Readlink r \<Rightarrow> fs_readlink_complete call r)"

end
