(* ===== verification/Ts_Files.thy ===== *)
theory Ts_Files
  imports Ts_Fs
begin

text \<open>
  What the operations on files do: what is written is read back, and an asynchronous operation gives the
  answer that the synchronous one would have given at the moment a worker took the job, however the
  program went on meanwhile.
\<close>

subsection \<open>Answers in two stores\<close>

text \<open>The same text, buffer, object or array of texts, each in its own store.\<close>

definition alike :: "heap \<Rightarrow> tsvalue \<Rightarrow> heap \<Rightarrow> tsvalue \<Rightarrow> bool" where
  "alike g u h v \<longleftrightarrow>
    (\<exists>q r x. u = VString q \<and> v = VString r \<and> str_at g q x \<and> str_at h r x) \<or>
    (\<exists>q r b. u = VObject q \<and> v = VObject r \<and> q \<noteq> 0 \<and> r \<noteq> 0 \<and> objs g q = Some (OBuffer b) \<and> objs h r = Some (OBuffer b)) \<or>
    (\<exists>q r f. u = VObject q \<and> v = VObject r \<and> map_at g q f \<and> map_at h r f) \<or>
    (\<exists>q r ns. u = VArray q \<and> v = VArray r \<and> Ts_Join.texts_at g q ns \<and> Ts_Join.texts_at h r ns)"

lemma alike_put:
  assumes "alike g u h v" "objs h p = Some (OPromise x)"
  shows "alike g u (put_obj h p (OPromise y)) v"
proof -
  have m: "map_at (put_obj h p (OPromise y)) r f" if "map_at h r f" for r f
    using that assms(2) by (auto simp: map_at_def heap_simps)
  have b: "objs (put_obj h p (OPromise y)) r = Some (OBuffer b)" if "objs h r = Some (OBuffer b)" for r b
    using that assms(2) by (auto simp: heap_simps)
  have "str_at (put_obj h p (OPromise y)) r t = str_at h r t" "Ts_Join.texts_at (put_obj h p (OPromise y)) r ns = Ts_Join.texts_at h r ns" for r t ns
    by (simp_all add: str_at_def Ts_Join.texts_at_def heap_simps)
  note keep = m b this
  from assms(1) show ?thesis unfolding alike_def
  proof (elim disjE exE conjE, goal_cases)
    case (1 q r x)
    then show ?case using keep(3) by blast
  next
    case (2 q r x)
    then show ?case using keep(2) by blast
  next
    case (3 q r f)
    then show ?case using keep(1) by blast
  next
    case (4 q r ns)
    then show ?case using keep(4) by blast
  qed
qed

text \<open>A computation that makes a new value out of itself: it gives the same in every store.\<close>

definition makes :: "(heap \<Rightarrow> (tsvalue \<times> heap) option) \<Rightarrow> bool" where
  "makes mk \<longleftrightarrow> (\<forall>g h. heap_ok g \<longrightarrow> heap_ok h \<longrightarrow> (\<exists>u g' v h'. mk g = Some (u, g') \<and> mk h = Some (v, h') \<and>
     alike g' u h' v \<and> (\<forall>p. objs h p \<noteq> None \<longrightarrow> objs h' p = objs h p)))"

lemma int32_of_le: "nat (int32_of n) \<le> n"
proof -
  have "unat (word_of_nat n :: 32 word) \<le> n" by (simp add: unat_of_nat)
  moreover have "sint (w :: 32 word) \<le> int (unat w)" for w using order_trans [OF _ uint_ge_0, of "- 2147483648" w]
    by (simp add: sint_uint signed_take_bit_int_less_eq_self_iff)
  ultimately have "sint (word_of_nat n :: 32 word) \<le> int n" using order_trans by (metis of_nat_mono)
  then show ?thesis by (simp add: int32_of_def nat_le_iff)
qed

lemma makes_file: "makes (file_value as_string bs)"
proof -
  have n: "(if int32_of (length bs) < 0 then 0 else nat (int32_of (length bs))) \<le> length (map char_of_byte (bs @ [0]))"
    using int32_of_le [of "length bs"] by auto
  have o: "objs (snd (new_obj h x)) p = objs h p" if "heap_ok h" "objs h p \<noteq> None" for h p x
    using heap_ok_fresh(3) [OF that(1)] that(2) by (auto simp: heap_simps)
  show ?thesis unfolding makes_def
  proof (intro allI impI)
    fix g h
    assume ok: "heap_ok g" "heap_ok h"
    show "\<exists>u g' v h'. file_value as_string bs g = Some (u, g') \<and> file_value as_string bs h = Some (v, h') \<and>
        alike g' u h' v \<and> (\<forall>p. objs h p \<noteq> None \<longrightarrow> objs h' p = objs h p)"
    proof (cases as_string)
      case False
      then show ?thesis using o [OF ok(2)] heap_ok_fresh(4) [OF ok(1)] heap_ok_fresh(4) [OF ok(2)]
        by (auto simp: file_value_def new_value_def case_prod_beta alike_def heap_simps)
    next
      case True
      let ?t = "take (if int32_of (length bs) < 0 then 0 else nat (int32_of (length bs))) (map char_of_byte (bs @ [0]))"
      have s: "file_value as_string bs k = Some (VString (nxt k), snd (new_str k ?t))" for k
        using True n by (simp only: file_value_def ts_string_new_len_def Let_def if_True not_True_eq_False if_False) (simp add: new_str_def)
      show ?thesis unfolding s using str_at_new [OF ok(1)] str_at_new [OF ok(2)] by (auto simp: alike_def heap_simps)
    qed
  qed
qed

lemma makes_text:
  assumes "length t \<le> 5000"
  shows "makes (\<lambda>h. new_text h t)"
  unfolding makes_def
proof (intro allI impI)
  fix g h assume ok: "heap_ok g" "heap_ok h"
  have c: "new_text k t = new_text k (cstr t)" for k by (simp add: new_text_def ts_string_new_def strlen_def)
  have l: "length (cstr t) \<le> 5000" using assms length_takeWhile_le [of _ t] by (metis cstr_def le_trans)
  from new_text_step [OF _ l ok(1)] new_text_step [OF _ l ok(2)]
  show "\<exists>u g' v h'. new_text g t = Some (u, g') \<and> new_text h t = Some (v, h') \<and> alike g' u h' v \<and>
      (\<forall>p. objs h p \<noteq> None \<longrightarrow> objs h' p = objs h p)"
    unfolding c [of g] c [of h] by (fastforce simp: alike_def)
qed

lemma stat_value_ok:
  assumes "heap_ok h"
  shows "\<exists>h'. stat_value n ms a b h = Some (VObject (nxt h), h') \<and>
    map_at h' (nxt h) [''size'' \<mapsto> VNumber (rnd (of_int n)), ''mtime'' \<mapsto> VNumber ms, ''isFile'' \<mapsto> ts_value_boolean a,
      ''isDirectory'' \<mapsto> ts_value_boolean b] \<and> (\<forall>p. objs h p \<noteq> None \<longrightarrow> objs h' p = objs h p)"
proof -
  let ?p = "nxt h" and ?h1 = "snd (new_map h)"
  let ?kvs = "[(''size'', VNumber (rnd (of_int n))), (''mtime'', VNumber ms), (''isFile'', ts_value_boolean a), (''isDirectory'', ts_value_boolean b)]"
  from map_sets_at [OF map_at_new(1) [of h], of ?kvs] obtain x where
    x: "foldo (\<lambda>h (k, v). map_set h ?p k v) ?h1 ?kvs = Some (put_obj ?h1 ?p x)" "map_at (put_obj ?h1 ?p x) ?p (map_of (rev ?kvs))"
    by (auto simp: HM_LIMIT_def)
  have "stat_value n ms a b h = do { h' \<leftarrow> foldo (\<lambda>h (k, v). map_set h ?p k v) ?h1 ?kvs; Some (VObject ?p, h') }"
    by (simp add: stat_value_def case_prod_beta map_at_new(2))
  then have "stat_value n ms a b h = Some (VObject ?p, put_obj ?h1 ?p x)" by (simp only: x(1) Option.bind.simps)
  moreover have "objs (put_obj ?h1 ?p x) p = objs h p" if "objs h p \<noteq> None" for p
    using that heap_ok_fresh(3) [OF assms] by (auto simp: heap_simps new_map_def)
  moreover have "map_of (rev ?kvs) = [''size'' \<mapsto> VNumber (rnd (of_int n)), ''mtime'' \<mapsto> VNumber ms, ''isFile'' \<mapsto> ts_value_boolean a,
      ''isDirectory'' \<mapsto> ts_value_boolean b]" by (auto simp: fun_eq_iff)
  ultimately show ?thesis using x(2) by (metis (no_types, lifting))
qed

lemma makes_stat: "makes (stat_value n ms a b)"
  unfolding makes_def
proof (intro allI impI)
  fix g h assume ok: "heap_ok g" "heap_ok h"
  from stat_value_ok [OF ok(1), of n ms a b] stat_value_ok [OF ok(2), of n ms a b]
  show "\<exists>u g' v h'. stat_value n ms a b g = Some (u, g') \<and> stat_value n ms a b h = Some (v, h') \<and> alike g' u h' v \<and>
      (\<forall>p. objs h p \<noteq> None \<longrightarrow> objs h' p = objs h p)"
    unfolding alike_def by blast
qed

lemma push_text_eq:
  assumes "NUL \<notin> set t" "length t \<le> 5000"
  shows "push_text p h t = push_str p h t"
proof -
  have "new_text h t = Some (VString (nxt h), snd (new_str h t))"
    using assms by (intro new_text_eq) (simp_all add: int32_max_def)
  moreover have "ts_string_new_len h t (int (length t)) = Some (nxt h, snd (new_str h t))"
    by (simp add: ts_string_new_len_def) (simp add: new_str_def)
  ultimately show ?thesis by (simp only: push_text_def push_str_def Option.bind.simps prod.case)
qed

lemma push_str_objs: "push_str p h t = Some h' \<Longrightarrow> objs h' = objs h"
  by (auto simp: push_str_def ts_string_new_len_def arr_push_at_def new_str_def put_arr_def Let_def split: bind_splits if_splits)

definition names_ok :: "string list \<Rightarrow> bool" where
  "names_ok ns \<longleftrightarrow> length ns \<le> ARR_LIMIT \<and> (\<forall>n \<in> set ns. NUL \<notin> set n \<and> length n \<le> 5000)"

lemma names_value_ok:
  assumes "heap_ok h" "names_ok ns"
  shows "\<exists>h'. names_value ns h = Some (VArray (nxt h), h') \<and> Ts_Join.texts_at h' (nxt h) ns \<and> objs h' = objs h"
proof -
  let ?h1 = "snd (new_arr h ts_array_new)"
  have e: "foldo (push_text p) k ms = foldo (push_str p) k ms" if "\<forall>n \<in> set ms. NUL \<notin> set n \<and> length n \<le> 5000" for p k ms
    using that by (induction ms arbitrary: k) (auto simp: push_text_eq intro!: Option.bind_cong)
  have o: "foldo (push_str p) k ms = Some k' \<Longrightarrow> objs k' = objs k" for p k ms k'
  proof (induction ms arbitrary: k)
    case (Cons m ms)
    then show ?case by (auto split: bind_splits dest!: push_str_objs)
  qed simp
  have "Ts_Join.texts_at ?h1 (nxt h) []"
    using heap_ok_fresh(4) [OF assms(1)] by (simp add: Ts_Join.texts_at_def heap_simps)
  with texts_at_pushes [of ?h1 "nxt h" "[]" ns] assms obtain h' where
    h': "foldo (push_str (nxt h)) ?h1 ns = Some h'" "Ts_Join.texts_at h' (nxt h) ns" by (auto simp: names_ok_def heap_simps)
  have "objs h' = objs h" using o [OF h'(1)] by (simp add: heap_simps)
  moreover have "names_value ns h = Some (VArray (nxt h), h')"
    using h'(1) e [of ns "nxt h" ?h1] assms(2) by (simp add: names_value_def names_ok_def new_arr_def)
  ultimately show ?thesis using h'(2) by blast
qed

lemma makes_names: "names_ok ns \<Longrightarrow> makes (names_value ns)"
  unfolding makes_def
proof (intro allI impI)
  fix g h assume ns: "names_ok ns" and ok: "heap_ok g" "heap_ok h"
  from names_value_ok [OF ok(1) ns] names_value_ok [OF ok(2) ns]
  show "\<exists>u g' v h'. names_value ns g = Some (u, g') \<and> names_value ns h = Some (v, h') \<and> alike g' u h' v \<and>
      (\<forall>p. objs h p \<noteq> None \<longrightarrow> objs h' p = objs h p)"
    unfolding alike_def by (metis (no_types, lifting))
qed

subsection \<open>Settling\<close>

definition settled :: "heap \<Rightarrow> addr \<Rightarrow> promise_state \<Rightarrow> tsvalue \<Rightarrow> bool" where
  "settled h p st v \<longleftrightarrow> (\<exists>x. objs h p = Some (OPromise x) \<and> p_state x = st \<and> p_result x = v)"

text \<open>A promise that waits, as it does while the program awaits it.\<close>

definition waits :: "heap \<Rightarrow> addr \<Rightarrow> bool" where
  "waits h p \<longleftrightarrow> promise_chain h [p]"

lemma settle_waiting:
  assumes "waits h p" "st \<noteq> PROMISE_PENDING"
  shows "\<exists>y. settle call st h (VObject p) v = Some (VObject p, put_obj h p (OPromise y)) \<and> p_state y = st \<and> p_result y = v"
proof -
  obtain x where x: "p \<noteq> 0" "objs h p = Some (OPromise x)" "no_handlers x" "p_then x = 0" using assms(1) by (auto simp: waits_def)
  let ?x = "x\<lparr>p_state := st, p_result := v\<rparr>"
  have "run_handlers_with call (put_obj h p (OPromise ?x)) p = Some (put_obj h p (OPromise ?x))"
    using x assms(2) by (subst run_handlers_with.simps) (simp add: get_promise_def heap_simps dispatch_def no_handlers_def)
  then show ?thesis using x by (intro exI [of _ ?x])
    (simp add: settle_def as_promise_def tagged_def settle_with_def get_promise_def no_handlers_def run_handlers_def)
qed

lemma settled_put: "settled (put_obj h p (OPromise y)) p (p_state y) (p_result y)"
  by (simp add: settled_def heap_simps)

lemma resolve_waiting: "waits h p \<Longrightarrow> \<exists>h'. fs_resolve call (VObject p) v h = Some h' \<and> settled h' p PROMISE_FULFILLED v"
proof -
  assume "waits h p"
  from settle_waiting [OF this, of PROMISE_FULFILLED call v] obtain y where
    y: "settle call PROMISE_FULFILLED h (VObject p) v = Some (VObject p, put_obj h p (OPromise y))" "p_state y = PROMISE_FULFILLED" "p_result y = v"
    by auto
  then have "settled (put_obj h p (OPromise y)) p PROMISE_FULFILLED v" using settled_put by metis
  with y(1) show ?thesis by (auto simp: fs_resolve_def ts_promise_resolve_def)
qed

text \<open>Making a value and settling with it.\<close>

lemma makes_resolve:
  assumes "makes mk" "heap_ok g" "heap_ok h" "waits h p"
  shows "\<exists>u g' h' v. mk g = Some (u, g') \<and> do { (v, h1) \<leftarrow> mk h; fs_resolve call (VObject p) v h1 } = Some h' \<and>
    settled h' p PROMISE_FULFILLED v \<and> alike g' u h' v"
proof -
  from assms(1-3) obtain u g' v h1 where m: "mk g = Some (u, g')" "mk h = Some (v, h1)" "alike g' u h1 v"
    "\<forall>p. objs h p \<noteq> None \<longrightarrow> objs h1 p = objs h p" unfolding makes_def by blast
  from assms(4) obtain x where "objs h p = Some (OPromise x)" by (auto simp: waits_def)
  then have o: "objs h1 p = objs h p" "objs h1 p = Some (OPromise x)" using m(4) by auto
  then have "waits h1 p" using assms(4) by (simp add: waits_def)
  from settle_waiting [OF this, of PROMISE_FULFILLED call v] obtain y where
    y: "settle call PROMISE_FULFILLED h1 (VObject p) v = Some (VObject p, put_obj h1 p (OPromise y))" "p_state y = PROMISE_FULFILLED" "p_result y = v"
    by auto
  then have "settled (put_obj h1 p (OPromise y)) p PROMISE_FULFILLED v" using settled_put by metis
  with y(1) m alike_put [OF m(3) o(2)] show ?thesis by (auto simp: fs_resolve_def ts_promise_resolve_def)
qed

lemma reject_waiting:
  assumes "heap_ok h" "waits h p" "NUL \<notin> set t" "length t \<le> 5000"
  shows "\<exists>h' r. fs_reject call (VObject p) t h = Some h' \<and> settled h' p PROMISE_REJECTED (VString r) \<and> str_at h' r t"
proof -
  from new_text_step [OF assms(3,4,1)] obtain r h1 where h1: "new_text h t = Some (VString r, h1)" "str_at h1 r t" "objs h1 = objs h" by blast
  then have "waits h1 p" using assms(2) by (simp add: waits_def)
  from settle_waiting [OF this, of PROMISE_REJECTED call "VString r"] obtain y where
    y: "settle call PROMISE_REJECTED h1 (VObject p) (VString r) = Some (VObject p, put_obj h1 p (OPromise y))" "p_state y = PROMISE_REJECTED" "p_result y = VString r"
    by auto
  then have "settled (put_obj h1 p (OPromise y)) p PROMISE_REJECTED (VString r)" using settled_put by metis
  with y(1) h1 show ?thesis by (auto simp: fs_reject_def ts_promise_reject_def str_at_def heap_simps)
qed

subsection \<open>Asynchronous as synchronous\<close>

text \<open>
  What an asynchronous operation does in the state \<open>s\<close>: it returns a promise that waits and submits one
  job; a worker that takes the job when the files are \<open>w\<close> leaves them as they are, and its completion settles the promise
  the way the synchronous operation answers on \<open>w\<close>, in every store that still holds the promise.
\<close>

definition answers_as :: "'w fsys \<Rightarrow> code \<Rightarrow> 'w \<Rightarrow> 'w fss \<Rightarrow> ('w fss \<Rightarrow> (tsvalue \<times> 'w fss) option) \<Rightarrow>
    ('w fss \<Rightarrow> (outcome \<times> 'w fss) option) \<Rightarrow> bool" where
  "answers_as sys call w s async sync \<longleftrightarrow> (\<exists>p j s1 r s2. async s = Some (VObject p, s1) \<and> fs_submitted s1 = fs_submitted s @ [j] \<and>
     fs_world s1 = fs_world s \<and> waits (fs_heap s1) p \<and> sync (s\<lparr>fs_world := w\<rparr>) = Some (r, s2) \<and> snd (fs_work sys j w) = w \<and>
     (\<forall>h. heap_ok h \<longrightarrow> waits h p \<longrightarrow> (\<exists>h' v. fs_complete call (fst (fs_work sys j w)) h = Some h' \<and>
        (case r of Returned u \<Rightarrow> settled h' p PROMISE_FULFILLED v \<and> alike (fs_heap s2) u h' v
         | Thrown e \<Rightarrow> settled h' p PROMISE_REJECTED v))))"

lemma promise_new:
  assumes "heap_ok h"
  shows "fst (ts_promise_new h) = VObject (nxt h)" "heap_ok (snd (ts_promise_new h))" "waits (snd (ts_promise_new h)) (nxt h)"
    "strs (snd (ts_promise_new h)) = strs h" "objs h q \<noteq> None \<Longrightarrow> objs (snd (ts_promise_new h)) q = objs h q"
  using assms heap_ok_fresh [OF assms]
  by (auto simp: ts_promise_new_def new_value_def case_prod_beta waits_def no_handlers_def fresh_promise_def ts_value_undefined_def
      heap_simps heap_ok_new)

lemma answers_asI:
  assumes "async s = Some (VObject (nxt (fs_heap s)), fs_submit j (s\<lparr>fs_heap := snd (ts_promise_new (fs_heap s))\<rparr>))" "heap_ok (fs_heap s)"
    and "sync (s\<lparr>fs_world := w\<rparr>) = Some (r, s2)" "snd (fs_work sys j w) = w"
    and "\<And>h. heap_ok h \<Longrightarrow> waits h (nxt (fs_heap s)) \<Longrightarrow> \<exists>h' v. fs_complete call (fst (fs_work sys j w)) h = Some h' \<and>
        (case r of Returned u \<Rightarrow> settled h' (nxt (fs_heap s)) PROMISE_FULFILLED v \<and> alike (fs_heap s2) u h' v
         | Thrown e \<Rightarrow> settled h' (nxt (fs_heap s)) PROMISE_REJECTED v)"
  shows "answers_as sys call w s async sync"
  unfolding answers_as_def using assms promise_new(3) [OF assms(2)] by (auto simp: fs_submit_def)

lemma path_dup: "str_at h q t \<Longrightarrow> heap_ok h \<Longrightarrow> fs_path_dup (snd (ts_promise_new h)) (VString q) = Some (cstr t, snd (ts_promise_new h))"
  using str_at_cong [OF promise_new(4), of h q t] by (simp add: fs_path_dup_def text_or_null_string)

lemma encoding_new:
  assumes "fs_options_has_encoding h options = Some e" "heap_ok h"
  shows "fs_options_has_encoding (snd (ts_promise_new h)) options = Some e"
proof -
  have "map_get h p k = Some v \<Longrightarrow> map_get (snd (ts_promise_new h)) p k = Some v" for p k v
    using promise_new(5) [OF assms(2), of p] by (auto simp: map_get_def get_map_def split: bind_splits option.splits)
  moreover have "str_data (snd (ts_promise_new h)) p = str_data h p" for p by (simp add: str_data_def promise_new(4) [OF assms(2)])
  ultimately show ?thesis using assms(1)
    by (cases options) (auto simp: fs_options_has_encoding_def split: bind_splits if_splits "tsvalue.splits")
qed

lemma readFile_answers:
  assumes "heap_ok (fs_heap s)" "str_at (fs_heap s) q t" "length t \<le> 5000" "fs_options_has_encoding (fs_heap s) options = Some e"
    and "\<forall>n. sys_malloc sys n"
  shows "answers_as sys call w s (node_fs_readFile (VString q) options) (node_fs_readFileSync sys (VString q) options)"
proof -
  let ?h = "fs_heap s" and ?j = "\<lparr>rj_path = cstr t, rj_as_string = e, rj_promise = VObject (nxt (fs_heap s)), rj_ok = False, rj_data = [], rj_err = None\<rparr>"
  note pn = promise_new [OF assms(1)]
  have a: "node_fs_readFile (VString q) options s = Some (VObject (nxt ?h), fs_submit (ReadFile ?j) (s\<lparr>fs_heap := snd (ts_promise_new ?h)\<rparr>))"
    using path_dup [OF assms(2,1)] encoding_new [OF assms(4,1)] pn(1) by (simp add: node_fs_readFile_def case_prod_beta)
  have st: "ts_to_string ?h (VString q) = Some (q, ?h)" "str_data ?h q = Some t"
    using assms(2) by (auto simp: ts_to_string.simps [of ?h "VString q"] str_at_def str_data_def)
  show ?thesis
  proof (cases "sys_read sys (cstr t) w")
    case None
    obtain e1 h2 where e: "ts_string_new ?h ''File not found: '' = Some (e1, h2)" "str_at h2 e1 ''File not found: ''" "str_at h2 q t" "e1 \<noteq> 0"
      using assms(1,2) heap_ok_fresh(4) [OF assms(1)]
      by (simp add: ts_string_new_eq int32_max_def) (metis (no_types, lifting) new_str_def fst_conv snd_conv str_at_new str_at_new_other str_at_nonnull)
    then have "data_or_empty h2 e1 = Some ''File not found: ''" "data_or_empty h2 q = Some t"
      by (auto simp: data_or_empty_def str_at_def str_data_def)
    with ts_string_concat_eq [OF this] assms(3) obtain m h3 where "ts_string_concat h2 e1 q = Some (m, h3)"
      by (auto simp: int32_max_def new_str_def)
    then have sy: "node_fs_readFileSync sys (VString q) options (s\<lparr>fs_world := w\<rparr>) = Some (Thrown (VString m), s\<lparr>fs_world := w, fs_heap := h3\<rparr>)"
      using None st e(1) by (simp add: node_fs_readFileSync_def)
    have c: "\<exists>h' v. fs_complete call (fst (fs_work sys (ReadFile ?j) w)) h = Some h' \<and> settled h' (nxt ?h) PROMISE_REJECTED v"
      if "heap_ok h" "waits h (nxt ?h)" for h
      using reject_waiting [OF that, of "''File not found''" call] None
      by (auto simp: fs_work_def fs_read_work_def fs_complete_def fs_read_complete_def)
    show ?thesis by (rule answers_asI, rule a, rule assms(1), rule sy) (use c in \<open>auto simp: fs_work_def\<close>)
  next
    case (Some r)
    then obtain told bs where r: "sys_read sys (cstr t) w = Some (told, bs)" by (cases r) auto
    let ?bs = "take (nat (if told < 0 then 0 else told)) bs"
    from makes_file assms(1) obtain u g where u: "file_value e ?bs ?h = Some (u, g)" unfolding makes_def by blast
    then have sy: "node_fs_readFileSync sys (VString q) options (s\<lparr>fs_world := w\<rparr>) = Some (Returned u, s\<lparr>fs_world := w, fs_heap := g\<rparr>)"
      using r st assms(4,5) by (simp add: node_fs_readFileSync_def Let_def)
    have c: "\<exists>h' v. fs_complete call (fst (fs_work sys (ReadFile ?j) w)) h = Some h' \<and> settled h' (nxt ?h) PROMISE_FULFILLED v \<and> alike g u h' v"
      if "heap_ok h" "waits h (nxt ?h)" for h
      using makes_resolve [OF makes_file assms(1) that, of e ?bs call] r u assms(5)
      by (auto simp: fs_work_def fs_read_work_def fs_complete_def fs_read_complete_def Let_def)
    show ?thesis by (rule answers_asI, rule a, rule assms(1), rule sy) (use c in \<open>auto simp: fs_work_def\<close>)
  qed
qed

text \<open>The other operations that only read.\<close>

lemma stat_answers:
  assumes "heap_ok (fs_heap s)" "str_at (fs_heap s) q t"
  shows "answers_as sys call w s (node_fs_stat (VString q)) (node_fs_statSync sys (VString q))"
proof -
  let ?h = "fs_heap s" and ?j = "\<lparr>sj_path = cstr t, sj_promise = VObject (nxt (fs_heap s)), sj_ok = False, sj_size = 0, sj_mtime_ms = DFin 0,
       sj_is_file = False, sj_is_dir = False\<rparr>"
  have a: "node_fs_stat (VString q) s = Some (VObject (nxt ?h), fs_submit (Stat ?j) (s\<lparr>fs_heap := snd (ts_promise_new ?h)\<rparr>))"
    using path_dup [OF assms(2,1)] promise_new(1) [OF assms(1)] by (simp add: node_fs_stat_def case_prod_beta)
  have w: "snd (fs_work sys (Stat ?j) w) = w" by (simp add: fs_work_def)
  show ?thesis
  proof (cases "sys_stat sys (cstr t) w")
    case None
    obtain v g where "new_text ?h ''File not found'' = Some (v, g)"
      using new_text_step [of "''File not found''" ?h] assms(1) by auto
    then have sy: "node_fs_statSync sys (VString q) (s\<lparr>fs_world := w\<rparr>) = Some (Thrown v, s\<lparr>fs_world := w, fs_heap := g\<rparr>)"
      using None assms(2) by (simp add: node_fs_statSync_def text_of_string fs_throw_def)
    show ?thesis
      by (rule answers_asI, rule a, rule assms(1), rule sy, rule w)
        (use None reject_waiting [of _ "nxt ?h" "''File not found''" call] in \<open>fastforce simp: fs_work_def fs_stat_work_def fs_complete_def fs_stat_complete_def\<close>)
  next
    case (Some st)
    let ?mk = "stat_value (st_size st) (mtime_ms st) (st_isreg st) (st_isdir st)"
    from makes_stat assms(1) obtain u g where u: "?mk ?h = Some (u, g)" unfolding makes_def by blast
    then have sy: "node_fs_statSync sys (VString q) (s\<lparr>fs_world := w\<rparr>) = Some (Returned u, s\<lparr>fs_world := w, fs_heap := g\<rparr>)"
      using Some assms(2) by (simp add: node_fs_statSync_def text_of_string)
    show ?thesis
      by (rule answers_asI, rule a, rule assms(1), rule sy, rule w)
        (use Some u makes_resolve [OF makes_stat assms(1), of _ "nxt ?h"] in \<open>fastforce simp: fs_work_def fs_stat_work_def fs_complete_def fs_stat_complete_def\<close>)
  qed
qed

lemma readlink_answers:
  assumes "heap_ok (fs_heap s)" "str_at (fs_heap s) q t" "\<forall>x. sys_readlink sys (cstr t) 4095 w = Some x \<longrightarrow> length x \<le> 4095"
  shows "answers_as sys call w s (node_fs_readlink (VString q)) (node_fs_readlinkSync sys (VString q))"
proof -
  let ?h = "fs_heap s" and ?j = "\<lparr>lj_path = cstr t, lj_promise = VObject (nxt (fs_heap s)), lj_ok = False, lj_target = None\<rparr>"
  have a: "node_fs_readlink (VString q) s = Some (VObject (nxt ?h), fs_submit (Readlink ?j) (s\<lparr>fs_heap := snd (ts_promise_new ?h)\<rparr>))"
    using path_dup [OF assms(2,1)] promise_new(1) [OF assms(1)] by (simp add: node_fs_readlink_def case_prod_beta)
  have w: "snd (fs_work sys (Readlink ?j) w) = w" by (simp add: fs_work_def)
  show ?thesis
  proof (cases "sys_readlink sys (cstr t) 4095 w")
    case None
    obtain v g where "new_text ?h ''Not a symbolic link'' = Some (v, g)"
      using new_text_step [of "''Not a symbolic link''" ?h] assms(1) by auto
    then have sy: "node_fs_readlinkSync sys (VString q) (s\<lparr>fs_world := w\<rparr>) = Some (Thrown v, s\<lparr>fs_world := w, fs_heap := g\<rparr>)"
      using None assms(2) by (simp add: node_fs_readlinkSync_def text_of_string fs_throw_def)
    show ?thesis
      by (rule answers_asI, rule a, rule assms(1), rule sy, rule w)
        (use None reject_waiting [of _ "nxt ?h" "''Not a symbolic link''" call] in \<open>fastforce simp: fs_work_def fs_readlink_work_def fs_complete_def fs_readlink_complete_def\<close>)
  next
    case (Some x)
    have m: "makes (\<lambda>h. new_text h x)" using Some assms(3) by (intro makes_text) auto
    have c: "new_text h (cstr x) = new_text h x" for h by (simp add: new_text_def ts_string_new_def strlen_def)
    from m assms(1) obtain u g where u: "new_text ?h x = Some (u, g)" unfolding makes_def by blast
    then have sy: "node_fs_readlinkSync sys (VString q) (s\<lparr>fs_world := w\<rparr>) = Some (Returned u, s\<lparr>fs_world := w, fs_heap := g\<rparr>)"
      using Some assms(2) by (simp add: node_fs_readlinkSync_def text_of_string)
    show ?thesis
      by (rule answers_asI, rule a, rule assms(1), rule sy, rule w)
        (use Some u makes_resolve [OF m assms(1), of _ "nxt ?h"] in \<open>fastforce simp: fs_work_def fs_readlink_work_def fs_complete_def fs_readlink_complete_def c\<close>)
  qed
qed

lemma readdir_answers:
  assumes "heap_ok (fs_heap s)" "str_at (fs_heap s) q t" "names_ok (dir_names (sys_readdir sys (cstr t) w))"
  shows "answers_as sys call w s (node_fs_readdir (VString q)) (\<lambda>s. map_option (\<lambda>(v, s'). (Returned v, s')) (node_fs_readdirSync sys (VString q) s))"
proof -
  let ?h = "fs_heap s" and ?j = "\<lparr>dj_path = cstr t, dj_promise = VObject (nxt (fs_heap s)), dj_names = [], dj_ok = False\<rparr>"
  have a: "node_fs_readdir (VString q) s = Some (VObject (nxt ?h), fs_submit (Readdir ?j) (s\<lparr>fs_heap := snd (ts_promise_new ?h)\<rparr>))"
    using path_dup [OF assms(2,1)] promise_new(1) [OF assms(1)] by (simp add: node_fs_readdir_def case_prod_beta)
  have w: "snd (fs_work sys (Readdir ?j) w) = w" by (simp add: fs_work_def)
  note m = makes_names [OF assms(3)]
  from m assms(1) obtain u g where u: "names_value (dir_names (sys_readdir sys (cstr t) w)) ?h = Some (u, g)" unfolding makes_def by blast
  then have sy: "map_option (\<lambda>(v, s'). (Returned v, s')) (node_fs_readdirSync sys (VString q) (s\<lparr>fs_world := w\<rparr>)) =
      Some (Returned u, s\<lparr>fs_world := w, fs_heap := g\<rparr>)"
    using assms(2) by (simp add: node_fs_readdirSync_def text_of_string)
  show ?thesis
      by (rule answers_asI, rule a, rule assms(1), rule sy, rule w)
        (use u makes_resolve [OF m assms(1), of _ "nxt ?h"] in \<open>fastforce simp: fs_work_def fs_readdir_work_def fs_complete_def fs_readdir_complete_def\<close>)
qed

text \<open>C21. Reading a file, its properties, the target of a link and the names in a directory: the asynchronous operation answers as the
  synchronous one does on the files that the worker finds, and where the one throws the other rejects. The file fits into memory,
  and names and paths are texts of the usual lengths.
\<close>

theorem fs_async_as_sync:
  assumes "heap_ok (fs_heap s)" "str_at (fs_heap s) q t" "length t \<le> 5000" "fs_options_has_encoding (fs_heap s) options = Some e"
    and "\<forall>n. sys_malloc sys n" "\<forall>x. sys_readlink sys (cstr t) 4095 w = Some x \<longrightarrow> length x \<le> 4095"
    and "names_ok (dir_names (sys_readdir sys (cstr t) w))"
  shows "answers_as sys call w s (node_fs_readFile (VString q) options) (node_fs_readFileSync sys (VString q) options) \<and>
    answers_as sys call w s (node_fs_stat (VString q)) (node_fs_statSync sys (VString q)) \<and>
    answers_as sys call w s (node_fs_readlink (VString q)) (node_fs_readlinkSync sys (VString q)) \<and>
    answers_as sys call w s (node_fs_readdir (VString q)) (\<lambda>s. map_option (\<lambda>(v, s'). (Returned v, s')) (node_fs_readdirSync sys (VString q) s))"
  using readFile_answers [OF assms(1-5)] stat_answers [OF assms(1,2)] readlink_answers [OF assms(1,2,6)] readdir_answers [OF assms(1,2,7)]
  by simp

subsection \<open>Operations that change files\<close>

text \<open>
  The same for an operation that gives a number: the promise is fulfilled in any case, with whether the number is zero, and the
  files are changed as the synchronous operation changes them.
\<close>

definition flags_as :: "'w fsys \<Rightarrow> code \<Rightarrow> 'w \<Rightarrow> 'w fss \<Rightarrow> ('w fss \<Rightarrow> (tsvalue \<times> 'w fss) option) \<Rightarrow> ('w fss \<Rightarrow> (int \<times> 'w fss) option) \<Rightarrow> bool" where
  "flags_as sys call w s async sync \<longleftrightarrow> (\<exists>p j s1 r s2. async s = Some (VObject p, s1) \<and> fs_submitted s1 = fs_submitted s @ [j] \<and>
     fs_world s1 = fs_world s \<and> waits (fs_heap s1) p \<and> sync (s\<lparr>fs_world := w\<rparr>) = Some (r, s2) \<and> snd (fs_work sys j w) = fs_world s2 \<and>
     (\<forall>h. waits h p \<longrightarrow> (\<exists>h'. fs_complete call (fst (fs_work sys j w)) h = Some h' \<and>
        settled h' p PROMISE_FULFILLED (ts_value_boolean (r = 0)))))"

lemma flags_asI:
  assumes "async s = Some (VObject (nxt (fs_heap s)), fs_submit j (s\<lparr>fs_heap := snd (ts_promise_new (fs_heap s))\<rparr>))" "heap_ok (fs_heap s)"
    and "sync (s\<lparr>fs_world := w\<rparr>) = Some (r, s2)" "snd (fs_work sys j w) = fs_world s2"
    and "\<And>h. fs_complete call (fst (fs_work sys j w)) h = fs_resolve call (VObject (nxt (fs_heap s))) (ts_value_boolean (r = 0)) h"
  shows "flags_as sys call w s async sync"
  unfolding flags_as_def using assms promise_new(3) [OF assms(2)] resolve_waiting by (fastforce simp: fs_submit_def)

lemma int_async_eq:
  assumes "heap_ok (fs_heap s)" "str_at (fs_heap s) q t" "op \<noteq> 3" "op \<noteq> 4"
  shows "fs_int_async (VString q) v m op s = Some (VObject (nxt (fs_heap s)), fs_submit (IntOp \<lparr>ij_path = cstr t, ij_path2 = None, ij_mode = m, ij_op = op,
    ij_promise = VObject (nxt (fs_heap s)), ij_result = 0\<rparr>) (s\<lparr>fs_heap := snd (ts_promise_new (fs_heap s))\<rparr>))"
  using path_dup [OF assms(2,1)] promise_new(1) [OF assms(1)] assms(3,4) by (simp add: fs_int_async_def case_prod_beta)

lemma int_async2_eq:
  assumes "heap_ok (fs_heap s)" "str_at (fs_heap s) q t" "str_at (fs_heap s) r u" "op = 3 \<or> op = 4"
  shows "fs_int_async (VString q) (VString r) m op s = Some (VObject (nxt (fs_heap s)), fs_submit (IntOp \<lparr>ij_path = cstr t, ij_path2 = Some (cstr u),
    ij_mode = m, ij_op = op, ij_promise = VObject (nxt (fs_heap s)), ij_result = 0\<rparr>) (s\<lparr>fs_heap := snd (ts_promise_new (fs_heap s))\<rparr>))"
  using path_dup [OF assms(2,1)] path_dup [OF assms(3,1)] promise_new(1) [OF assms(1)] assms(4) by (auto simp: fs_int_async_def case_prod_beta)

lemmas int_work = fs_work_def fs_int_work_def fs_complete_def fs_int_complete_def path2_def case_prod_beta

lemma int_op_eq: "str_at (fs_heap s) q t \<Longrightarrow> int_op (VString q) f (s\<lparr>fs_world := w\<rparr>) = Some (fst (f (cstr t) w), s\<lparr>fs_world := snd (f (cstr t) w)\<rparr>)"
  by (simp add: int_op_def text_of_string case_prod_beta)

lemma int_op2_eq:
  "str_at (fs_heap s) q t \<Longrightarrow> str_at (fs_heap s) r u \<Longrightarrow>
    int_op2 (VString q) (VString r) f (s\<lparr>fs_world := w\<rparr>) = Some (fst (f (cstr t) (cstr u) w), s\<lparr>fs_world := snd (f (cstr t) (cstr u) w)\<rparr>)"
  by (simp add: int_op2_def text_of_string case_prod_beta)

lemma mkdir_flags:
  assumes "heap_ok (fs_heap s)" "str_at (fs_heap s) q t"
  shows "flags_as sys call w s (node_fs_mkdir (VString q) o1) (node_fs_mkdirSync sys (VString q) o2)"
  unfolding node_fs_mkdir_def node_fs_mkdirSync_def
  by (rule flags_asI, rule int_async_eq [OF assms], simp, simp, rule assms(1), rule int_op_eq [OF assms(2)]) (simp_all add: int_work)

lemma unlink_flags:
  assumes "heap_ok (fs_heap s)" "str_at (fs_heap s) q t"
  shows "flags_as sys call w s (node_fs_unlink (VString q)) (node_fs_unlinkSync sys (VString q))"
    and "flags_as sys call w s (node_fs_rmdir (VString q)) (node_fs_rmdirSync sys (VString q))"
  unfolding node_fs_unlink_def node_fs_unlinkSync_def node_fs_rmdir_def node_fs_rmdirSync_def
  by (rule flags_asI, rule int_async_eq [OF assms], simp, simp, rule assms(1), rule int_op_eq [OF assms(2)]; simp add: int_work)+

lemma rename_flags:
  assumes "heap_ok (fs_heap s)" "str_at (fs_heap s) q t" "str_at (fs_heap s) r u"
  shows "flags_as sys call w s (node_fs_rename (VString q) (VString r)) (node_fs_renameSync sys (VString q) (VString r))"
    and "flags_as sys call w s (node_fs_symlink (VString q) (VString r)) (node_fs_symlinkSync sys (VString q) (VString r))"
  unfolding node_fs_rename_def node_fs_renameSync_def node_fs_symlink_def node_fs_symlinkSync_def
  by (rule flags_asI, rule int_async2_eq [OF assms], simp, rule assms(1), rule int_op2_eq [OF assms(2,3)]; simp add: int_work)+

lemma chmod_flags:
  assumes "heap_ok (fs_heap s)" "str_at (fs_heap s) q t" "mode_of (fs_heap s) mode = Some m"
  shows "flags_as sys call w s (node_fs_chmod (VString q) mode) (node_fs_chmodSync sys (VString q) mode)"
proof (rule flags_asI)
  show "node_fs_chmod (VString q) mode s = Some (VObject (nxt (fs_heap s)), fs_submit (IntOp \<lparr>ij_path = cstr t, ij_path2 = None, ij_mode = m, ij_op = 5,
      ij_promise = VObject (nxt (fs_heap s)), ij_result = 0\<rparr>) (s\<lparr>fs_heap := snd (ts_promise_new (fs_heap s))\<rparr>))"
    using int_async_eq [OF assms(1,2), of 5] assms(3) by (simp add: node_fs_chmod_def)
  show "node_fs_chmodSync sys (VString q) mode (s\<lparr>fs_world := w\<rparr>) = Some (fst (sys_chmod sys (cstr t) m w), s\<lparr>fs_world := snd (sys_chmod sys (cstr t) m w)\<rparr>)"
    using assms(2,3) by (simp add: node_fs_chmodSync_def text_of_string case_prod_beta)
qed (use assms(1) in \<open>simp_all add: int_work\<close>)

text \<open>What can be written: a buffer with its bytes, or a text.\<close>

definition source :: "heap \<Rightarrow> tsvalue \<Rightarrow> 8 word list \<Rightarrow> bool" where
  "source h v bs \<longleftrightarrow> (\<exists>q x. v = VString q \<and> str_at h q x \<and> bs = map byte_of x) \<or>
    (\<exists>p b. v = VObject p \<and> p \<noteq> 0 \<and> objs h p = Some (OBuffer b) \<and> 0 \<le> bf_length b \<and> bytes_at b 0 (bf_length b) = Some bs)"

lemma written_bytes_source: "source h v bs \<Longrightarrow> written_bytes h v = Some (bs, h)"
  by (auto simp: source_def written_bytes_def as_buffer_def tagged_def text_or_null_string bytes_at_def)

lemma source_new:
  assumes "source h v bs" "heap_ok h"
  shows "source (snd (ts_promise_new h)) v bs"
proof -
  have "objs h p = Some x \<Longrightarrow> objs (snd (ts_promise_new h)) p = Some x" for p x using promise_new(5) [OF assms(2), of p] by simp
  then show ?thesis using assms(1) unfolding source_def str_at_cong [OF promise_new(4) [OF assms(2)]] by blast
qed

lemma writeFile_flags:
  assumes "heap_ok (fs_heap s)" "str_at (fs_heap s) q t" "source (fs_heap s) data bs"
  shows "flags_as sys call w s (node_fs_writeFile (VString q) data o1) (node_fs_writeFileSync sys (VString q) data o2)"
proof (rule flags_asI)
  let ?o = "sys_open sys (cstr t) w"
  show "node_fs_writeFile (VString q) data o1 s = Some (VObject (nxt (fs_heap s)), fs_submit (WriteFile \<lparr>wj_path = cstr t, wj_data = bs,
      wj_promise = VObject (nxt (fs_heap s)), wj_ok = False\<rparr>) (s\<lparr>fs_heap := snd (ts_promise_new (fs_heap s))\<rparr>))"
    using path_dup [OF assms(2,1)] promise_new(1) [OF assms(1)] written_bytes_source [OF source_new [OF assms(3,1)]]
    by (simp add: node_fs_writeFile_def case_prod_beta)
  show "node_fs_writeFileSync sys (VString q) data o2 (s\<lparr>fs_world := w\<rparr>) = Some (if fst ?o then 0 else - 1,
      s\<lparr>fs_world := if fst ?o \<and> bs \<noteq> [] then sys_write sys (cstr t) bs (snd ?o) else snd ?o\<rparr>)"
    using assms(2) written_bytes_source [OF assms(3)] by (simp add: node_fs_writeFileSync_def text_of_string case_prod_beta)
qed (use assms(1) in \<open>simp_all add: fs_work_def fs_write_work_def fs_complete_def fs_write_complete_def case_prod_beta\<close>)

text \<open>C39. Writing a file, making and removing directories, removing, renaming and linking files and changing their modes: the asynchronous operation
  changes the files as the synchronous one does on what the worker finds, and its promise is never rejected: it is fulfilled with
  whether the synchronous operation would have given zero.
\<close>

theorem fs_failures_resolve:
  assumes "heap_ok (fs_heap s)" "str_at (fs_heap s) q t" "str_at (fs_heap s) r u" "source (fs_heap s) data bs" "mode_of (fs_heap s) mode = Some m"
  shows "flags_as sys call w s (node_fs_writeFile (VString q) data opts) (node_fs_writeFileSync sys (VString q) data opts) \<and>
    flags_as sys call w s (node_fs_mkdir (VString q) opts) (node_fs_mkdirSync sys (VString q) opts) \<and>
    flags_as sys call w s (node_fs_unlink (VString q)) (node_fs_unlinkSync sys (VString q)) \<and>
    flags_as sys call w s (node_fs_rmdir (VString q)) (node_fs_rmdirSync sys (VString q)) \<and>
    flags_as sys call w s (node_fs_rename (VString q) (VString r)) (node_fs_renameSync sys (VString q) (VString r)) \<and>
    flags_as sys call w s (node_fs_symlink (VString q) (VString r)) (node_fs_symlinkSync sys (VString q) (VString r)) \<and>
    flags_as sys call w s (node_fs_chmod (VString q) mode) (node_fs_chmodSync sys (VString q) mode)"
  using writeFile_flags [OF assms(1,2,4)] mkdir_flags [OF assms(1,2)] unlink_flags [OF assms(1,2)] rename_flags [OF assms(1-3)]
    chmod_flags [OF assms(1,2,5)] by simp

text \<open>Whether a file is there.\<close>

lemma access_is_existsSync:
  assumes "heap_ok (fs_heap s)" "str_at (fs_heap s) q t" "waits h (nxt (fs_heap s))"
  shows "\<exists>j s1 b s2 h'. node_fs_access (VString q) mode s = Some (VObject (nxt (fs_heap s)), s1) \<and> fs_submitted s1 = fs_submitted s @ [j] \<and>
    node_fs_existsSync sys (VString q) (s\<lparr>fs_world := w\<rparr>) = Some (b, s2) \<and>
    fs_complete call (fst (fs_work sys j w)) h = Some h' \<and> settled h' (nxt (fs_heap s)) PROMISE_FULFILLED (ts_value_boolean b)"
proof -
  let ?j = "Access \<lparr>aj_path = cstr t, aj_promise = VObject (nxt (fs_heap s)), aj_exists = False\<rparr>"
  have "node_fs_access (VString q) mode s = Some (VObject (nxt (fs_heap s)), fs_submit ?j (s\<lparr>fs_heap := snd (ts_promise_new (fs_heap s))\<rparr>))"
    using path_dup [OF assms(2,1)] promise_new(1) [OF assms(1)] by (simp add: node_fs_access_def case_prod_beta)
  moreover have "node_fs_existsSync sys (VString q) (s\<lparr>fs_world := w\<rparr>) = Some (sys_stat sys (cstr t) w \<noteq> None, s\<lparr>fs_world := w\<rparr>)"
    using assms(2) by (simp add: node_fs_existsSync_def text_of_string)
  moreover have "fs_complete call (fst (fs_work sys ?j w)) h =
      fs_resolve call (VObject (nxt (fs_heap s))) (ts_value_boolean (sys_stat sys (cstr t) w \<noteq> None)) h"
    by (simp add: fs_work_def fs_access_work_def fs_complete_def fs_access_complete_def)
  ultimately show ?thesis using resolve_waiting [OF assms(3)] by (fastforce simp: fs_submit_def)
qed

subsection \<open>What is written is read\<close>

text \<open>A file system whose files hold \<open>f\<close>.\<close>

definition stores :: "'w fsys \<Rightarrow> ('w \<Rightarrow> string \<Rightarrow> 8 word list option) \<Rightarrow> bool" where
  "stores sys f \<longleftrightarrow> (\<forall>p w. sys_read sys p w = map_option (\<lambda>bs. (int (length bs), bs)) (f w p)) \<and>
     (\<forall>p w. fst (sys_open sys p w) \<longrightarrow> f (snd (sys_open sys p w)) p = Some []) \<and>
     (\<forall>p bs w. f (sys_write sys p bs w) p = Some bs) \<and> (\<forall>n. sys_malloc sys n)"

definition shows_file :: "bool \<Rightarrow> heap \<Rightarrow> tsvalue \<Rightarrow> 8 word list \<Rightarrow> bool" where
  "shows_file as_string h v bs \<longleftrightarrow>
    (if as_string then \<exists>r. v = VString r \<and> str_at h r (map char_of_byte bs)
     else \<exists>p b. v = VObject p \<and> p \<noteq> 0 \<and> objs h p = Some (OBuffer b) \<and> bytes_at b 0 (bf_length b) = Some bs)"

lemma int32_of_small: "int n \<le> int32_max \<Longrightarrow> int32_of n = int n"
proof -
  assume "int n \<le> int32_max"
  then have "uint (word_of_nat n :: 32 word) = int n" by (simp add: int32_max_def unsigned_of_nat take_bit_nat_eq_self flip: of_nat_take_bit)
  then show ?thesis using \<open>int n \<le> int32_max\<close> by (simp add: int32_of_def int32_max_def sint_uint signed_take_bit_int_eq_self)
qed

lemma file_value_shows:
  assumes "heap_ok h" "int (length bs) \<le> int32_max"
  shows "\<exists>v h'. file_value e bs h = Some (v, h') \<and> shows_file e h' v bs"
proof (cases e)
  case True
  have "file_value e bs h = Some (VString (nxt h), snd (new_str h (map char_of_byte bs)))"
    using True int32_of_small [OF assms(2)] by (simp add: file_value_def ts_string_new_len_def) (simp add: new_str_def)
  then show ?thesis using True str_at_new [OF assms(1)] by (auto simp: shows_file_def)
next
  case False
  then show ?thesis using int32_of_small [OF assms(2)] heap_ok_fresh(4) [OF assms(1)]
    by (auto simp: file_value_def shows_file_def new_value_def case_prod_beta heap_simps file_buffer_def bytes_at_def Let_def)
qed

lemma readFileSync_shows:
  assumes "sys_read sys (cstr t) (fs_world s) = Some (int (length bs), bs)" "\<forall>n. sys_malloc sys n"
    and "heap_ok (fs_heap s)" "str_at (fs_heap s) q t" "int (length bs) \<le> int32_max" "fs_options_has_encoding (fs_heap s) options = Some e"
  shows "\<exists>v s2. node_fs_readFileSync sys (VString q) options s = Some (Returned v, s2) \<and> shows_file e (fs_heap s2) v bs"
proof -
  have st: "ts_to_string (fs_heap s) (VString q) = Some (q, fs_heap s)" "str_data (fs_heap s) q = Some t"
    using assms(4) by (auto simp: ts_to_string.simps [of "fs_heap s" "VString q"] str_at_def str_data_def)
  from file_value_shows [OF assms(3,5), of e] obtain v h' where "file_value e bs (fs_heap s) = Some (v, h')" "shows_file e h' v bs" by blast
  then show ?thesis using assms(1,2,6) st by (simp add: node_fs_readFileSync_def Let_def)
qed

text \<open>C22. What \<^verbatim>\<open>writeFileSync\<close> writes, a text or the bytes of a buffer, \<^verbatim>\<open>readFileSync\<close> reads: as a text when an encoding is given, and
  otherwise as a buffer, whatever bytes they are.
\<close>

theorem fs_write_read:
  assumes "stores sys f" "fst (sys_open sys (cstr t) (fs_world s))" "heap_ok (fs_heap s)" "str_at (fs_heap s) q t"
    and "source (fs_heap s) data bs" "int (length bs) \<le> int32_max" "fs_options_has_encoding (fs_heap s) options = Some e"
  shows "\<exists>s1 v s2. node_fs_writeFileSync sys (VString q) data opts s = Some (0, s1) \<and>
    node_fs_readFileSync sys (VString q) options s1 = Some (Returned v, s2) \<and> shows_file e (fs_heap s2) v bs"
proof -
  let ?w = "snd (sys_open sys (cstr t) (fs_world s))"
  let ?s1 = "s\<lparr>fs_world := if bs \<noteq> [] then sys_write sys (cstr t) bs ?w else ?w\<rparr>"
  have "node_fs_writeFileSync sys (VString q) data opts s = Some (0, ?s1)"
    using assms(2,4) written_bytes_source [OF assms(5)] by (simp add: node_fs_writeFileSync_def text_of_string case_prod_beta)
  moreover have r: "sys_read sys (cstr t) (fs_world ?s1) = Some (int (length bs), bs)"
    using assms(1,2) by (cases "bs = []") (simp_all add: stores_def)
  have m: "\<forall>n. sys_malloc sys n" using assms(1) by (simp add: stores_def)
  have h: "fs_heap ?s1 = fs_heap s" by simp
  from readFileSync_shows [OF r m] assms(3,4,6,7) have
    "\<exists>v s2. node_fs_readFileSync sys (VString q) options ?s1 = Some (Returned v, s2) \<and> shows_file e (fs_heap s2) v bs" unfolding h by blast
  ultimately show ?thesis by blast
qed

subsection \<open>An example\<close>

text \<open>Files in one directory, without links.\<close>

definition demo_sys :: "(string \<Rightarrow> 8 word list option) fsys" where
  "demo_sys = \<lparr>sys_read = (\<lambda>p w. map_option (\<lambda>bs. (int (length bs), bs)) (w p)), sys_open = (\<lambda>p w. (True, w(p \<mapsto> []))),
     sys_write = (\<lambda>p bs w. w(p \<mapsto> bs)),
     sys_stat = (\<lambda>p w. map_option (\<lambda>bs. \<lparr>st_size = int (length bs), st_mtime = 0, st_isreg = True, st_isdir = False\<rparr>) (w p)),
     sys_readdir = (\<lambda>p w. Some [''.'', ''..'', ''a'']), sys_readlink = (\<lambda>p n w. None), sys_mkdir = (\<lambda>p m w. (- 1, w)),
     sys_unlink = (\<lambda>p w. (0, w(p := None))), sys_rmdir = (\<lambda>p w. (- 1, w)), sys_rename = (\<lambda>p q w. (0, (w(q := w p))(p := None))),
     sys_symlink = (\<lambda>p q w. (- 1, w)), sys_chmod = (\<lambda>p m w. (0, w)), sys_malloc = (\<lambda>n. True)\<rparr>"

definition demo_files :: "(string \<Rightarrow> 8 word list option) fss" where
  "demo_files = \<lparr>fs_heap = snd (new_str (snd (new_str empty_heap ''a'')) ''hi''), fs_world = Map.empty, fs_submitted = []\<rparr>"

lemma demo_files_ok: "heap_ok (fs_heap demo_files)" "str_at (fs_heap demo_files) 1 ''a''" "str_at (fs_heap demo_files) 2 ''hi''"
  "fs_options_has_encoding (fs_heap demo_files) (VString 2) = Some True" "fs_options_has_encoding (fs_heap demo_files) VNull = Some False"
  by (simp add: demo_files_def heap_ok_new)
    (simp_all add: demo_files_def str_at_def empty_heap_def new_str_def fs_options_has_encoding_def)

lemma demo_sys_stores: "stores demo_sys (\<lambda>w. w)"
  by (simp add: stores_def demo_sys_def)

lemma fs_write_read_witness:
  "\<exists>s1 v s2. node_fs_writeFileSync demo_sys (VString 1) (VString 2) VNull demo_files = Some (0, s1) \<and>
    node_fs_readFileSync demo_sys (VString 1) (VString 2) s1 = Some (Returned v, s2) \<and>
    shows_file True (fs_heap s2) v (map byte_of ''hi'')"
  by (rule fs_write_read [OF demo_sys_stores _ demo_files_ok(1,2) _ _ demo_files_ok(4)])
    (use demo_files_ok(3) in \<open>auto simp: demo_sys_def source_def int32_max_def\<close>)

lemma fs_async_as_sync_witness:
  "answers_as demo_sys no_code [''a'' \<mapsto> [1, 2]] demo_files (node_fs_readFile (VString 1) VNull) (node_fs_readFileSync demo_sys (VString 1) VNull)"
  using fs_async_as_sync [OF demo_files_ok(1,2) _ demo_files_ok(5), of demo_sys "[''a'' \<mapsto> [1, 2]]" no_code]
  by (simp add: demo_sys_def names_ok_def dir_names_def dot_name_def ARR_LIMIT_def)

lemma fs_failures_resolve_witness:
  "flags_as demo_sys no_code Map.empty demo_files (node_fs_mkdir (VString 1) VNull) (node_fs_mkdirSync demo_sys (VString 1) VNull)"
proof -
  have "source (fs_heap demo_files) (VString 2) (map byte_of ''hi'')" using demo_files_ok(3) by (auto simp: source_def)
  moreover have "mode_of (fs_heap demo_files) (VNumber (DFin 0)) = Some 0"
    using rtrunc_of_int [of 0] by (simp add: mode_of_def ts_to_number_def fits32_def int32_min_def int32_max_def)
  ultimately show ?thesis using fs_failures_resolve [OF demo_files_ok(1-3)] by blast
qed

end
