(* ===== verification/Ts_Child.thy ===== *)
theory Ts_Child
  imports Ts_Texts Ts_Promise Ts_Join
begin

text \<open>
  \<^verbatim>\<open>runtime/src/builtins/node_child_process.c\<close>, in its POSIX build: command lines with their quoting, running a
  command to its end, and the objects that stand for children. The processes are a parameter. The file
  uses the function \<^verbatim>\<open>is_callable\<close> above its definition without declaring it; it is modelled as if it were declared.
\<close>

subsection \<open>A buffer that grows\<close>

record dynbuf =
  db_data :: string
  db_cap :: nat

definition buf_init :: dynbuf where
  "buf_init = \<lparr>db_data = [], db_cap = 256\<rparr>"

function grow_cap :: "nat \<Rightarrow> nat \<Rightarrow> nat" where
  "grow_cap ncap need = (if 0 < ncap \<and> ncap < need then grow_cap (ncap * 2) need else ncap)"
  by pat_completeness auto
termination by (relation "measure (\<lambda>(ncap, need). need - ncap)") auto

declare grow_cap.simps [simp del]

definition buf_grow :: "nat \<Rightarrow> dynbuf \<Rightarrow> dynbuf" where
  "buf_grow need b =
    (if length (db_data b) + need + 1 \<le> db_cap b then b
     else b\<lparr>db_cap := grow_cap (if db_cap b \<noteq> 0 then db_cap b else 256) (length (db_data b) + need + 1)\<rparr>)"

definition buf_append :: "dynbuf \<Rightarrow> string \<Rightarrow> dynbuf" where
  "buf_append b s = (if s = [] then b else (buf_grow (length s) b)\<lparr>db_data := db_data b @ s\<rparr>)"

definition buf_append_cstr :: "dynbuf \<Rightarrow> string \<Rightarrow> dynbuf" where
  "buf_append_cstr b s = buf_append b (cstr s)"

subsection \<open>Quoting\<close>

definition shell_special :: string where
  "shell_special = [CHR 0x22, CHR 0x27, CHR 0x60, CHR ''$'', CHR 0x5C] @ ''!#&*|<>()[]{};?''"

definition needs_quote :: "char \<Rightarrow> bool" where
  "needs_quote c \<longleftrightarrow> (of_char c :: nat) \<le> 0x20 \<or> c \<in> set shell_special"

abbreviation SQUOTE :: char where
  "SQUOTE \<equiv> CHR 0x27"

definition append_quoted_char :: "char \<Rightarrow> dynbuf \<Rightarrow> dynbuf" where
  "append_quoted_char c b = (if c = SQUOTE then buf_append_cstr b [SQUOTE, CHR 0x5C, SQUOTE, SQUOTE] else buf_append b [c])"

definition append_posix_quoted :: "dynbuf \<Rightarrow> string \<Rightarrow> dynbuf" where
  "append_posix_quoted b arg =
    (if \<not> list_ex needs_quote arg then buf_append_cstr b arg
     else buf_append_cstr (fold append_quoted_char arg (buf_append_cstr b [SQUOTE])) [SQUOTE])"

definition text_or_empty :: "heap \<Rightarrow> tsvalue \<Rightarrow> (string \<times> heap) option" where
  "text_or_empty h v = do { (t, h1) \<leftarrow> text_or_null h v; Some (case t of None \<Rightarrow> [] | Some x \<Rightarrow> cstr x, h1) }"

text \<open>One argument: the element \<open>i\<close> of the array at \<open>p\<close>.\<close>

definition append_arg :: "addr \<Rightarrow> dynbuf \<times> heap \<Rightarrow> int \<Rightarrow> (dynbuf \<times> heap) option" where
  "append_arg p st i = do {
     let (b, h) = st;
     a \<leftarrow> arrs h p;
     v \<leftarrow> ts_array_get a i;
     (t, h1) \<leftarrow> text_or_empty h v;
     Some (append_posix_quoted (buf_append_cstr b '' '') t, h1) }"

definition build_cmdline :: "heap \<Rightarrow> string \<Rightarrow> tsvalue \<Rightarrow> (string \<times> heap) option" where
  "build_cmdline h file args = do {
     let b = append_posix_quoted buf_init file;
     (b', h') \<leftarrow> (case args of
        VArray p \<Rightarrow> if p = 0 then Some (b, h) else do { a \<leftarrow> arrs h p; foldo (append_arg p) (b, h) [0..a_length a - 1] }
      | _ \<Rightarrow> Some (b, h));
     Some (db_data b', h') }"

subsection \<open>Running a command\<close>

text \<open>
  \<open>pr_run\<close> runs \<^verbatim>\<open>/bin/sh -c\<close> on a line: \<open>None\<close> when there is no pipe or no process; otherwise the process,
  the pieces read from its two outputs, one to its end and then the other, and what \<^verbatim>\<open>waitpid\<close> says.
\<close>

datatype wait_status = WaitFailed | Exited int | Signaled int | Other

record 'w procs =
  pr_run :: "string \<Rightarrow> 'w \<Rightarrow> (int \<times> string list \<times> string list \<times> wait_status) option \<times> 'w"
  pr_kill :: "int \<Rightarrow> int \<Rightarrow> 'w \<Rightarrow> bool \<times> 'w"

record 'w cps =
  cp_heap :: heap
  cp_world :: 'w

record run_result =
  rr_stdout :: addr
  rr_stderr :: addr
  rr_exit_code :: int
  rr_signal :: int
  rr_pid :: int

definition run_result_empty :: "int \<Rightarrow> heap \<Rightarrow> (run_result \<times> heap) option" where
  "run_result_empty code h = do {
     (o1, h1) \<leftarrow> ts_string_new h [];
     (e1, h2) \<leftarrow> ts_string_new h1 [];
     Some (\<lparr>rr_stdout = o1, rr_stderr = e1, rr_exit_code = code, rr_signal = 0, rr_pid = 0\<rparr>, h2) }"

definition read_fd_all :: "string list \<Rightarrow> dynbuf \<Rightarrow> dynbuf" where
  "read_fd_all pieces b = foldl buf_append b pieces"

definition buf_to_tsstring :: "heap \<Rightarrow> dynbuf \<Rightarrow> (addr \<times> heap) option" where
  "buf_to_tsstring h b = ts_string_new h (db_data b)"

definition set_status :: "wait_status \<Rightarrow> run_result \<Rightarrow> run_result" where
  "set_status st r = (case st of
     Exited c \<Rightarrow> r\<lparr>rr_exit_code := c, rr_signal := 0\<rparr>
   | Signaled n \<Rightarrow> r\<lparr>rr_exit_code := 1, rr_signal := n\<rparr>
   | _ \<Rightarrow> r\<lparr>rr_exit_code := 1\<rparr>)"

definition run_process_capture :: "'w procs \<Rightarrow> string \<Rightarrow> 'w cps \<Rightarrow> (run_result \<times> 'w cps) option" where
  "run_process_capture sys cmdline s = do {
     (r, h) \<leftarrow> run_result_empty 1 (cp_heap s);
     let (out, w) = pr_run sys cmdline (cp_world s);
     case out of
       None \<Rightarrow> Some (r, s\<lparr>cp_heap := h, cp_world := w\<rparr>)
     | Some (pid, outs, errs, st) \<Rightarrow> do {
         (o1, h1) \<leftarrow> buf_to_tsstring h (read_fd_all outs buf_init);
         (e1, h2) \<leftarrow> buf_to_tsstring h1 (read_fd_all errs buf_init);
         Some (set_status st (r\<lparr>rr_pid := pid, rr_stdout := o1, rr_stderr := e1\<rparr>), s\<lparr>cp_heap := h2, cp_world := w\<rparr>) } }"

subsection \<open>Values\<close>

definition make_error_value :: "heap \<Rightarrow> string \<Rightarrow> int \<Rightarrow> (tsvalue \<times> heap) option" where
  "make_error_value h msg code = (let (p, h1) = new_map h in do {
     h2 \<leftarrow> set_text p h1 (''message'', msg);
     h3 \<leftarrow> map_set h2 p ''code'' (VNumber (dint code));
     h4 \<leftarrow> set_text p h3 (''_type'', ''Error'');
     Some (VObject p, h4) })"

text \<open>The object for one of the streams of a child.\<close>

definition stream_object :: "addr \<Rightarrow> string \<Rightarrow> heap \<Rightarrow> heap option" where
  "stream_object child name h = (let (p, h1) = new_map h in do {
     h2 \<leftarrow> set_text p h1 (''_type'', name);
     map_set h2 child name (VObject p) })"

definition make_child_object :: "heap \<Rightarrow> run_result \<Rightarrow> (tsvalue \<times> heap) option" where
  "make_child_object h r = (let (p, h1) = new_map h in do {
     h2 \<leftarrow> map_set h1 p ''pid'' (VNumber (dint (rr_pid r)));
     h3 \<leftarrow> map_set h2 p ''status'' (VNumber (dint (rr_exit_code r)));
     h4 \<leftarrow> map_set h3 p ''signalCode'' (if rr_signal r \<noteq> 0 then VNumber (dint (rr_signal r)) else VNull);
     h5 \<leftarrow> map_set h4 p ''_stdout'' (VString (rr_stdout r));
     h6 \<leftarrow> map_set h5 p ''_stderr'' (VString (rr_stderr r));
     h7 \<leftarrow> set_text p h6 (''_type'', ''ChildProcess'');
     h8 \<leftarrow> stream_object p ''stdout'' h7;
     h9 \<leftarrow> stream_object p ''stderr'' h8;
     Some (VObject p, h9) })"

definition is_callable :: "heap \<Rightarrow> tsvalue \<Rightarrow> bool option" where
  "is_callable h v = (case v of
     VFunction f \<Rightarrow> Some (f \<noteq> 0)
   | VObject p \<Rightarrow> if p = 0 then Some False else do { x \<leftarrow> objs h p; Some (case x of OBound b \<Rightarrow> True | _ \<Rightarrow> False) }
   | _ \<Rightarrow> Some False)"

text \<open>Calling a callback, when it is one.\<close>

definition call_back :: "code \<Rightarrow> tsvalue \<Rightarrow> tsvalue list \<Rightarrow> 'w cps \<Rightarrow> 'w cps option" where
  "call_back call f args s = do {
     b \<leftarrow> is_callable (cp_heap s) f;
     if b then do { (_, h) \<leftarrow> ts_value_call call (cp_heap s) f args; Some (s\<lparr>cp_heap := h\<rparr>) } else Some s }"

subsection \<open>Operations\<close>

definition node_child_process_execSync :: "'w procs \<Rightarrow> tsvalue \<Rightarrow> tsvalue \<Rightarrow> 'w cps \<Rightarrow> (tsvalue \<times> 'w cps) option" where
  "node_child_process_execSync sys command options s = do {
     (cmd, h) \<leftarrow> text_or_empty (cp_heap s) command;
     (r, s1) \<leftarrow> run_process_capture sys cmd (s\<lparr>cp_heap := h\<rparr>);
     Some (VString (rr_stdout r), s1) }"

text \<open>The end of \<^verbatim>\<open>exec\<close> and \<^verbatim>\<open>execFile\<close>.\<close>

definition report :: "code \<Rightarrow> tsvalue \<Rightarrow> run_result \<Rightarrow> 'w cps \<Rightarrow> (tsvalue \<times> 'w cps) option" where
  "report call callback r s = do {
     (err, h) \<leftarrow> (if rr_exit_code r \<noteq> 0 then make_error_value (cp_heap s) ''Command failed'' (rr_exit_code r) else Some (VNull, cp_heap s));
     s1 \<leftarrow> call_back call callback [err, VString (rr_stdout r), VString (rr_stderr r)] (s\<lparr>cp_heap := h\<rparr>);
     Some (VString (rr_stdout r), s1) }"

definition node_child_process_exec :: "'w procs \<Rightarrow> code \<Rightarrow> tsvalue \<Rightarrow> tsvalue \<Rightarrow> tsvalue \<Rightarrow> 'w cps \<Rightarrow> (tsvalue \<times> 'w cps) option" where
  "node_child_process_exec sys call command options callback s = do {
     (cmd, h) \<leftarrow> text_or_empty (cp_heap s) command;
     (r, s1) \<leftarrow> run_process_capture sys cmd (s\<lparr>cp_heap := h\<rparr>);
     report call callback r s1 }"

definition node_child_process_execFile ::
  "'w procs \<Rightarrow> code \<Rightarrow> tsvalue \<Rightarrow> tsvalue \<Rightarrow> tsvalue \<Rightarrow> tsvalue \<Rightarrow> 'w cps \<Rightarrow> (tsvalue \<times> 'w cps) option" where
  "node_child_process_execFile sys call file args options callback s = do {
     (f, h) \<leftarrow> text_or_empty (cp_heap s) file;
     (line, h1) \<leftarrow> build_cmdline h f args;
     (r, s1) \<leftarrow> run_process_capture sys line (s\<lparr>cp_heap := h1\<rparr>);
     report call callback r s1 }"

definition node_child_process_spawn :: "'w procs \<Rightarrow> tsvalue \<Rightarrow> tsvalue \<Rightarrow> tsvalue \<Rightarrow> 'w cps \<Rightarrow> (tsvalue \<times> 'w cps) option" where
  "node_child_process_spawn sys command args options s = do {
     (cmd, h) \<leftarrow> text_or_empty (cp_heap s) command;
     (line, h1) \<leftarrow> (if vtag args = TAG_ARRAY then build_cmdline h cmd args else Some (db_data (buf_append_cstr buf_init cmd), h));
     (r, s1) \<leftarrow> run_process_capture sys line (s\<lparr>cp_heap := h1\<rparr>);
     (v, h2) \<leftarrow> make_child_object (cp_heap s1) r;
     Some (v, s1\<lparr>cp_heap := h2\<rparr>) }"

definition node_child_process_fork :: "'w procs \<Rightarrow> tsvalue \<Rightarrow> tsvalue \<Rightarrow> tsvalue \<Rightarrow> 'w cps \<Rightarrow> (tsvalue \<times> 'w cps) option" where
  "node_child_process_fork sys modulePath args options s = do {
     (path, h) \<leftarrow> text_or_empty (cp_heap s) modulePath;
     let (p, h1) = new_arr h ts_array_new;
     h2 \<leftarrow> push_text p h1 path;
     (line, h3) \<leftarrow> build_cmdline h2 ''node'' (VArray p);
     (r, s1) \<leftarrow> run_process_capture sys line (s\<lparr>cp_heap := h3\<rparr>);
     (v, h4) \<leftarrow> make_child_object (cp_heap s1) r;
     h5 \<leftarrow> (case v of VObject q \<Rightarrow> if q = 0 then Some h4 else map_set h4 q ''_fork'' (ts_value_boolean True) | _ \<Rightarrow> Some h4);
     Some (v, s1\<lparr>cp_heap := h5\<rparr>) }"

subsection \<open>Children\<close>

definition map_has :: "heap \<Rightarrow> addr \<Rightarrow> string \<Rightarrow> bool option" where
  "map_has h p k = do { m \<leftarrow> get_map h p; ts_hashmap_has m k }"

text \<open>What happens when a stored property is there and there is a callback for it.\<close>

definition call_with :: "code \<Rightarrow> addr \<Rightarrow> string \<Rightarrow> tsvalue \<Rightarrow> 'w cps \<Rightarrow> 'w cps option" where
  "call_with call p k callback s = do {
     b \<leftarrow> map_has (cp_heap s) p k;
     if b then do { v \<leftarrow> map_get (cp_heap s) p k; call_back call callback [v] s } else Some s }"

definition node_child_process_on :: "code \<Rightarrow> tsvalue \<Rightarrow> tsvalue \<Rightarrow> tsvalue \<Rightarrow> 'w cps \<Rightarrow> (tsvalue \<times> 'w cps) option" where
  "node_child_process_on call child event callback s = (case child of
     VObject p \<Rightarrow> if p = 0 then Some (ts_value_undefined, s)
       else do {
         (ev, h) \<leftarrow> text_or_null (cp_heap s) event;
         let s0 = s\<lparr>cp_heap := h\<rparr>;
         s1 \<leftarrow> (case map_option cstr ev of
             None \<Rightarrow> Some s0
           | Some e \<Rightarrow>
               if e = ''close'' \<or> e = ''exit'' then do {
                 status \<leftarrow> map_get h p ''status'';
                 signal \<leftarrow> map_get h p ''signalCode'';
                 call_back call callback [status, signal] s0 }
               else if e = ''message'' then do {
                 h1 \<leftarrow> map_set h p ''_message_cb'' callback;
                 call_with call p ''_message'' callback (s0\<lparr>cp_heap := h1\<rparr>) }
               else if e = ''error'' then call_with call p ''_error'' callback s0
               else Some s0);
         Some (ts_value_undefined, s1) }
   | _ \<Rightarrow> Some (ts_value_undefined, s))"

definition node_child_process_stream_on :: "code \<Rightarrow> tsvalue \<Rightarrow> tsvalue \<Rightarrow> tsvalue \<Rightarrow> tsvalue \<Rightarrow> 'w cps \<Rightarrow> (tsvalue \<times> 'w cps) option" where
  "node_child_process_stream_on call child streamName event callback s = (case child of
     VObject p \<Rightarrow> if p = 0 then Some (ts_value_undefined, s)
       else do {
         (st, h) \<leftarrow> text_or_null (cp_heap s) streamName;
         (ev, h1) \<leftarrow> text_or_null h event;
         let s0 = s\<lparr>cp_heap := h1\<rparr>;
         s1 \<leftarrow> (if st = None \<or> map_option cstr ev \<noteq> Some ''data'' then Some s0
           else do {
             data \<leftarrow> map_get h1 p (if map_option cstr st = Some ''stderr'' then ''_stderr'' else ''_stdout'');
             some \<leftarrow> (case data of VString q \<Rightarrow> if q = 0 then Some False else do { t \<leftarrow> str_data h1 q; Some (t \<noteq> []) } | _ \<Rightarrow> Some False);
             if some then call_back call callback [data] s0 else Some s0 });
         Some (ts_value_undefined, s1) }
   | _ \<Rightarrow> Some (ts_value_undefined, s))"

definition node_child_process_send :: "code \<Rightarrow> tsvalue \<Rightarrow> tsvalue \<Rightarrow> 'w cps \<Rightarrow> (tsvalue \<times> 'w cps) option" where
  "node_child_process_send call child message s = (case child of
     VObject p \<Rightarrow> if p = 0 then Some (ts_value_boolean False, s)
       else do {
         h \<leftarrow> map_set (cp_heap s) p ''_message'' message;
         cb \<leftarrow> map_get h p ''_message_cb'';
         h1 \<leftarrow> (case cb of
             VFunction f \<Rightarrow> if f = 0 then Some h else do { (_, h1) \<leftarrow> call f [message] h; Some h1 }
           | _ \<Rightarrow> Some h);
         Some (ts_value_boolean True, s\<lparr>cp_heap := h1\<rparr>) }
   | _ \<Rightarrow> Some (ts_value_boolean False, s))"

definition signal_number :: "string \<Rightarrow> int" where
  "signal_number t = (if t = ''SIGTERM'' then 15 else if t = ''SIGKILL'' then 9 else if t = ''SIGHUP'' then 1 else if t = ''SIGINT'' then 2
     else if t = ''SIGQUIT'' then 3 else 15)"

definition node_child_process_kill :: "'w procs \<Rightarrow> tsvalue \<Rightarrow> tsvalue \<Rightarrow> 'w cps \<Rightarrow> (tsvalue \<times> 'w cps) option" where
  "node_child_process_kill sys child signal s = (case child of
     VObject p \<Rightarrow> if p = 0 then Some (ts_value_undefined, s)
       else do {
         pv \<leftarrow> map_get (cp_heap s) p ''pid'';
         case pv of
           VNumber d \<Rightarrow> do {
             pid \<leftarrow> d_to_int d;
             if pid \<le> 0 then Some (ts_value_boolean False, s)
             else do {
               sig \<leftarrow> (case signal of
                  VString q \<Rightarrow> if q = 0 then Some 15 else do { t \<leftarrow> str_data (cp_heap s) q; Some (signal_number (cstr t)) }
                | _ \<Rightarrow> Some 15);
               let (ok, w) = pr_kill sys pid sig (cp_world s);
               Some (ts_value_boolean ok, s\<lparr>cp_world := w\<rparr>) } }
         | _ \<Rightarrow> Some (ts_value_boolean False, s) }
   | _ \<Rightarrow> Some (ts_value_undefined, s))"

end
