(* ===== verification/Ts_Shell.thy ===== *)
theory Ts_Shell
  imports Ts_Child
begin

text \<open>
  The command lines of \<^verbatim>\<open>node_child_process.c\<close> as a shell reads them: which words it sees, and what comes back
  from a command.
\<close>

subsection \<open>Buffers\<close>

text \<open>There is always room for the terminating NUL.\<close>

definition db_ok :: "dynbuf \<Rightarrow> bool" where
  "db_ok b \<longleftrightarrow> length (db_data b) < db_cap b"

lemma grow_cap_ge: "0 < n \<Longrightarrow> need \<le> grow_cap n need"
proof (induction n need rule: grow_cap.induct)
  case (1 n need)
  then show ?case by (subst grow_cap.simps) auto
qed

lemma db_append [simp]: "db_data (buf_append b s) = db_data b @ s"
  by (simp add: buf_append_def)

lemma db_append_cstr [simp]: "db_data (buf_append_cstr b s) = db_data b @ cstr s"
  by (simp add: buf_append_cstr_def)

lemma db_init [simp]: "db_data buf_init = []"
  by (simp add: buf_init_def)

lemma db_ok_init: "db_ok buf_init"
  by (simp add: db_ok_def buf_init_def)

lemma db_ok_append: "db_ok b \<Longrightarrow> db_ok (buf_append b s)"
  using grow_cap_ge [of "if db_cap b \<noteq> 0 then db_cap b else 256" "length (db_data b) + length s + 1"]
  by (auto simp: db_ok_def buf_append_def buf_grow_def)

lemma db_ok_quoted: "db_ok b \<Longrightarrow> db_ok (append_posix_quoted b arg)"
proof -
  have "db_ok c \<Longrightarrow> db_ok (fold append_quoted_char arg c)" for c
    by (induction arg arbitrary: c) (auto simp: append_quoted_char_def buf_append_cstr_def db_ok_append)
  then show "db_ok b \<Longrightarrow> db_ok (append_posix_quoted b arg)"
    by (simp add: append_posix_quoted_def buf_append_cstr_def db_ok_append)
qed

lemma db_read [simp]: "db_data (read_fd_all pieces b) = db_data b @ concat pieces"
  unfolding read_fd_all_def by (induction pieces arbitrary: b) auto

subsection \<open>The words of a line\<close>

text \<open>
  The words of a simple command as a POSIX shell splits a line: quotes and backslashes keep what follows from
  being read as anything else, blanks end words. The result is \<open>None\<close> when the line is more than plain words: for an
  open quote, and for any character outside quotes that can mean an operator, an expansion, an
  assignment or a comment.
\<close>

definition sh_actives :: string where
  "sh_actives = [NL, CHR 0x22, CHR 0x60] @ ''$!#&*|<>()[]{};?~=''"

definition sh_active :: "char \<Rightarrow> bool" where
  "sh_active c \<longleftrightarrow> c \<in> set sh_actives"

fun lex :: "bool \<Rightarrow> string \<Rightarrow> bool \<Rightarrow> string list \<Rightarrow> string \<Rightarrow> string list option" where
  "lex q w has ws [] = (if q then None else Some (if has then ws @ [w] else ws))"
| "lex q w has ws (c # cs) =
    (if q then (if c = SQUOTE then lex False w True ws cs else lex True (w @ [c]) True ws cs)
     else if c = SQUOTE then lex True w True ws cs
     else if c = CHR 0x5C then (case cs of [] \<Rightarrow> None | d # ds \<Rightarrow> if d = NL then None else lex False (w @ [d]) True ws ds)
     else if c = CHR '' '' \<or> c = TAB then lex False [] False (if has then ws @ [w] else ws) cs
     else if sh_active c then None
     else lex False (w @ [c]) True ws cs)"

definition sh_words :: "string \<Rightarrow> string list option" where
  "sh_words line = lex False [] False [] line"

definition quote_char :: "char \<Rightarrow> string" where
  "quote_char c = (if c = SQUOTE then [SQUOTE, CHR 0x5C, SQUOTE, SQUOTE] else [c])"

definition quote_text :: "string \<Rightarrow> string" where
  "quote_text arg = (if \<not> list_ex needs_quote arg then arg else SQUOTE # concat (map quote_char arg) @ [SQUOTE])"

text \<open>A word that is not quoted has no tilde and no equals sign.\<close>

definition sh_plain_word :: "string \<Rightarrow> bool" where
  "sh_plain_word a \<longleftrightarrow> NUL \<notin> set a \<and> (list_ex needs_quote a \<or> CHR ''~'' \<notin> set a \<and> CHR ''='' \<notin> set a)"

lemma db_quoted:
  assumes "NUL \<notin> set arg"
  shows "db_data (append_posix_quoted b arg) = db_data b @ quote_text arg"
proof -
  have "db_data (fold append_quoted_char arg c) = db_data c @ concat (map quote_char arg)" for c
    using assms by (induction arg arbitrary: c) (auto simp: append_quoted_char_def quote_char_def)
  with assms show ?thesis by (simp add: append_posix_quoted_def quote_text_def cstr_id)
qed

lemma needs_quotes [simp]: "needs_quote SQUOTE" "needs_quote (CHR 0x5C)" "needs_quote (CHR '' '')" "needs_quote TAB" "needs_quote NL"
  by (simp_all add: needs_quote_def shell_special_def)

lemma sh_active_needs: "sh_active c \<Longrightarrow> needs_quote c \<or> c = CHR ''~'' \<or> c = CHR ''=''"
proof -
  have "list_all (\<lambda>c. needs_quote c \<or> c = CHR ''~'' \<or> c = CHR ''='') sh_actives" by code_simp
  then show "sh_active c \<Longrightarrow> needs_quote c \<or> c = CHR ''~'' \<or> c = CHR ''=''" by (auto simp: sh_active_def list_all_iff)
qed

lemma lex_plain:
  assumes "\<forall>c \<in> set a. \<not> needs_quote c \<and> c \<noteq> CHR ''~'' \<and> c \<noteq> CHR ''=''" "a \<noteq> []"
  shows "lex False w has ws (a @ r) = lex False (w @ a) True ws r"
  using assms
proof (induction a arbitrary: w has)
  case (Cons c a)
  have c: "c \<noteq> SQUOTE" "c \<noteq> CHR 0x5C" "c \<noteq> CHR '' ''" "c \<noteq> TAB" "\<not> sh_active c"
    using Cons.prems(1) needs_quotes sh_active_needs [of c] by (metis list.set_intros(1))+
  show ?case
  proof (cases "a = []")
    case True
    with c show ?thesis by simp
  next
    case False
    then show ?thesis using c Cons.IH [of "w @ [c]" True] Cons.prems(1) by simp
  qed
qed simp

lemma lex_in_quotes: "lex True w True ws (concat (map quote_char a) @ SQUOTE # r) = lex False (w @ a) True ws r"
  by (induction a arbitrary: w) (auto simp: quote_char_def)

lemma lex_word:
  assumes "sh_plain_word a"
  shows "lex False [] False ws (quote_text a @ r) = (if a = [] then lex False [] False ws r else lex False a True ws r)"
proof (cases "list_ex needs_quote a")
  case True
  then show ?thesis using lex_in_quotes [of "[]" ws a r] by (auto simp: quote_text_def)
next
  case False
  then have "\<forall>c \<in> set a. \<not> needs_quote c \<and> c \<noteq> CHR ''~'' \<and> c \<noteq> CHR ''=''"
    using assms by (auto simp: sh_plain_word_def list_ex_iff)
  with False lex_plain [of a "[]" False ws r] show ?thesis by (auto simp: quote_text_def)
qed

definition command_line :: "string \<Rightarrow> string list \<Rightarrow> string" where
  "command_line f args = quote_text f @ concat (map (\<lambda>a. '' '' @ quote_text a) args)"

text \<open>The shell sees the words that are not empty.\<close>

lemma sh_words_command_line:
  assumes "\<forall>a \<in> set (f # args). sh_plain_word a"
  shows "sh_words (command_line f args) = Some (filter (\<lambda>a. a \<noteq> []) (f # args))"
proof -
  have "lex False w has ws (concat (map (\<lambda>a. '' '' @ quote_text a) as)) = Some ((if has then ws @ [w] else ws) @ filter (\<lambda>a. a \<noteq> []) as)"
    if "\<forall>a \<in> set as. sh_plain_word a" for w has ws as
    using that
  proof (induction as arbitrary: w has ws)
    case (Cons a as)
    have "lex False w has ws (concat (map (\<lambda>a. '' '' @ quote_text a) (a # as))) =
        lex False [] False (if has then ws @ [w] else ws) (quote_text a @ concat (map (\<lambda>a. '' '' @ quote_text a) as))" by simp
    also have "\<dots> = Some ((if has then ws @ [w] else ws) @ filter (\<lambda>a. a \<noteq> []) (a # as))"
      using lex_word [of a "if has then ws @ [w] else ws" "concat (map (\<lambda>a. '' '' @ quote_text a) as)"] Cons by simp
    finally show ?case .
  qed simp
  from this [of args] lex_word [of f "[]" "concat (map (\<lambda>a. '' '' @ quote_text a) args)"] assms
  show ?thesis by (simp add: sh_words_def command_line_def)
qed

subsection \<open>From the arguments to the words\<close>

definition string_arg :: "dynbuf \<times> heap \<Rightarrow> tsvalue \<Rightarrow> (dynbuf \<times> heap) option" where
  "string_arg st v = (case v of
     VString q \<Rightarrow> do { t \<leftarrow> str_data (snd st) q; Some (append_posix_quoted (buf_append_cstr (fst st) '' '') (cstr t), snd st) }
   | _ \<Rightarrow> None)"

lemma append_arg_string:
  assumes "arrs h p = Some a" "ts_array_get a i = Some (VString q)" "str_at h q t"
  shows "append_arg p (b, h) i = string_arg (b, h) (VString q)"
proof -
  have "str_data h q = Some t" using assms(3) by (auto simp: str_at_def str_data_def)
  then show ?thesis using assms by (simp add: append_arg_def string_arg_def text_or_empty_def text_or_null_string)
qed

lemma string_args:
  assumes "list_all2 (\<lambda>v s. \<exists>q. v = VString q \<and> str_at h q s) vs args" "\<forall>a \<in> set args. NUL \<notin> set a"
  shows "\<exists>b'. foldo string_arg (b, h) vs = Some (b', h) \<and> db_data b' = db_data b @ concat (map (\<lambda>a. '' '' @ quote_text a) args)"
  using assms
proof (induction vs args arbitrary: b rule: list_all2_induct)
  case (Cons v vs a args)
  then obtain q where q: "v = VString q" "str_at h q a" by blast
  let ?b = "append_posix_quoted (buf_append_cstr b '' '') a"
  have "string_arg (b, h) v = Some (?b, h)"
    using q Cons.prems by (auto simp: string_arg_def str_at_def str_data_def cstr_id)
  with Cons.IH [of ?b] Cons.prems show ?case by (auto simp: db_quoted)
qed simp

lemma build_cmdline_ok:
  assumes "Ts_Join.texts_at h p args" "\<forall>a \<in> set (f # args). NUL \<notin> set a"
  shows "build_cmdline h f (VArray p) = Some (command_line f args, h)"
proof -
  let ?b = "append_posix_quoted buf_init f"
  from assms(1) obtain a where a: "p \<noteq> 0" "arrs h p = Some a" "arr_ok a"
    "list_all2 (\<lambda>v s. \<exists>q. v = VString q \<and> str_at h q s) (arr_vals a) args" by (auto simp: Ts_Join.texts_at_def)
  have "foldo (append_arg p) (?b, h) [0..int (length (arr_vals a)) - 1] = foldo string_arg (?b, h) (arr_vals a)"
  proof (rule foldo_index [where I = "\<lambda>st. snd st = h"])
    fix st :: "dynbuf \<times> heap" and i assume st: "snd st = h" and i: "i < length (arr_vals a)"
    from list_all2_nthD [OF a(4) i] obtain q t where q: "arr_vals a ! i = VString q" "str_at h q t" by blast
    have "ts_array_get a (int i) = Some (VString q)"
      using i q(1) a(3) length_arr_vals [OF a(3)] by (simp add: ts_array_get_def read_item_arr)
    with append_arg_string [OF a(2) _ q(2), of "int i" "fst st"] st q(1)
    show "append_arg p st (int i) = string_arg st (arr_vals a ! i)" by (cases st) simp
  qed (auto simp: string_arg_def split: "tsvalue.splits" bind_splits)
  with string_args [OF a(4), of ?b] assms(2) obtain b' where
    "foldo (append_arg p) (?b, h) [0..a_length a - 1] = Some (b', h)" "db_data b' = command_line f args"
    using length_arr_vals [OF a(3)] by (auto simp: command_line_def db_quoted)
  with a(1,2) show ?thesis by (simp add: build_cmdline_def)
qed

subsection \<open>Running\<close>

lemma new_cstr:
  assumes "heap_ok h" "int (length t) \<le> int32_max"
  shows "\<exists>q h'. ts_string_new h t = Some (q, h') \<and> heap_ok h' \<and> str_at h' q (cstr t) \<and> heap_ext h h'"
proof -
  have "int (length (cstr t)) \<le> int32_max" using assms(2) length_cstr_le [of t] by linarith
  then have "ts_string_new h t = Some (new_str h (cstr t))"
    using ts_string_new_eq [of "cstr t" h] by (simp add: ts_string_new_def strlen_def)
  moreover have "new_str h (cstr t) = (nxt h, snd (new_str h (cstr t)))" by (simp add: new_str_def)
  ultimately show ?thesis using assms(1) heap_ext_new(1) [OF assms(1)] str_at_new [OF assms(1)] heap_ok_new(1) [OF assms(1)] by metis
qed

lemma run_ok:
  assumes "heap_ok (cp_heap s)" "pr_run sys line (cp_world s) = (Some (pid, outs, errs, st), w)"
    and "int (length (concat outs)) \<le> int32_max" "int (length (concat errs)) \<le> int32_max"
  shows "\<exists>r s'. run_process_capture sys line s = Some (r, s') \<and> cp_world s' = w \<and> heap_ok (cp_heap s') \<and>
    str_at (cp_heap s') (rr_stdout r) (cstr (concat outs)) \<and> str_at (cp_heap s') (rr_stderr r) (cstr (concat errs)) \<and> rr_pid r = pid \<and>
    rr_exit_code r = (case st of Exited c \<Rightarrow> c | _ \<Rightarrow> 1) \<and> rr_signal r = (case st of Signaled n \<Rightarrow> n | _ \<Rightarrow> 0) \<and> heap_ext (cp_heap s) (cp_heap s')"
proof -
  from new_cstr [OF assms(1), of "[]"] obtain q1 h1 where h1: "ts_string_new (cp_heap s) [] = Some (q1, h1)" "heap_ok h1" "heap_ext (cp_heap s) h1"
    by (auto simp: int32_max_def)
  from new_cstr [OF h1(2), of "[]"] obtain q2 h2 where h2: "ts_string_new h1 [] = Some (q2, h2)" "heap_ok h2" "heap_ext h1 h2"
    by (auto simp: int32_max_def)
  from new_cstr [OF h2(2) assms(3)] obtain q3 h3 where h3: "ts_string_new h2 (concat outs) = Some (q3, h3)" "heap_ok h3"
    "str_at h3 q3 (cstr (concat outs))" "heap_ext h2 h3" by blast
  from new_cstr [OF h3(2) assms(4)] obtain q4 h4 where h4: "ts_string_new h3 (concat errs) = Some (q4, h4)" "heap_ok h4"
    "str_at h4 q4 (cstr (concat errs))" "heap_ext h3 h4" by blast
  let ?r = "set_status st \<lparr>rr_stdout = q3, rr_stderr = q4, rr_exit_code = 1, rr_signal = 0, rr_pid = pid\<rparr>"
  have "run_process_capture sys line s = Some (?r, s\<lparr>cp_heap := h4, cp_world := w\<rparr>)"
    using h1(1) h2(1) h3(1) h4(1) assms(2)
    by (simp add: run_process_capture_def run_result_empty_def buf_to_tsstring_def del: ts_string_new_Nil)
  moreover have "heap_ext (cp_heap s) h4" using h1(3) h2(3) h3(4) h4(4) by (meson heap_ext_trans)
  ultimately show ?thesis using h4(2,3) str_at_ext [OF h4(4) h3(3)]
    by (intro exI [of _ ?r] exI [of _ "s\<lparr>cp_heap := h4, cp_world := w\<rparr>"]) (auto simp: set_status_def split: wait_status.splits)
qed

text \<open>C24. A file is run with its arguments through a shell. When no word has a tilde or an equals sign outside quotes, the shell sees the file and
  the arguments as its words, whatever blanks, quotes and operators are in them, but for empty ones, which it does not see;
  what is returned is the text the command has written, up to its first NUL.
\<close>

theorem execFile_words:
  assumes "heap_ok (cp_heap s)" "str_at (cp_heap s) q f" "Ts_Join.texts_at (cp_heap s) p args" "\<forall>a \<in> set (f # args). sh_plain_word a"
    and "pr_run sys (command_line f args) (cp_world s) = (Some (pid, outs, errs, Exited 0), w)"
    and "int (length (concat outs)) \<le> int32_max" "int (length (concat errs)) \<le> int32_max"
  shows "sh_words (command_line f args) = Some (filter (\<lambda>a. a \<noteq> []) (f # args)) \<and>
    (\<exists>r s'. node_child_process_execFile sys call (VString q) (VArray p) opts VNull s = Some (VString r, s') \<and>
      cp_world s' = w \<and> str_at (cp_heap s') r (cstr (concat outs)))"
proof -
  have n: "\<forall>a \<in> set (f # args). NUL \<notin> set a" using assms(4) by (auto simp: sh_plain_word_def)
  have "text_or_empty (cp_heap s) (VString q) = Some (f, cp_heap s)"
    using assms(2) n by (simp add: text_or_empty_def text_or_null_string cstr_id)
  moreover have "build_cmdline (cp_heap s) f (VArray p) = Some (command_line f args, cp_heap s)" by (rule build_cmdline_ok [OF assms(3) n])
  moreover from run_ok [OF assms(1,5-7)] obtain r s1 where
    "run_process_capture sys (command_line f args) s = Some (r, s1)" "cp_world s1 = w" "str_at (cp_heap s1) (rr_stdout r) (cstr (concat outs))"
    "rr_exit_code r = 0" by auto
  ultimately have "node_child_process_execFile sys call (VString q) (VArray p) opts VNull s = Some (VString (rr_stdout r), s1)"
    by (simp add: node_child_process_execFile_def report_def call_back_def is_callable_def)
  then show ?thesis using sh_words_command_line [OF assms(4)] \<open>cp_world s1 = w\<close> \<open>str_at (cp_heap s1) (rr_stdout r) (cstr (concat outs))\<close> by blast
qed

text \<open>An argument that is a tilde, or a file with an equals sign, is left for the shell to expand or to take for an assignment.\<close>

lemma tilde_not_quoted: "command_line ''ls'' [''~''] = ''ls ~'' \<and> sh_words (command_line ''ls'' [''~'']) = None"
  "command_line ''A=b'' [''c''] = ''A=b c''"
  by code_simp+

definition demo_procs :: "string list procs" where
  "demo_procs = \<lparr>pr_run = (\<lambda>line w. (Some (7, [''one '', ''two'' @ [NL]], [], Exited 0), w @ [line])), pr_kill = (\<lambda>p n w. (True, w))\<rparr>"

definition demo_args :: "string list cps" where
  "demo_args = (let h = snd (new_str (snd (new_str (snd (new_str empty_heap ''printf'')) ''it's'')) ''a; b''); (p, h1) = new_arr h ts_array_new in
     \<lparr>cp_heap = (case do { h2 \<leftarrow> arr_push_at h1 p (VString 2); arr_push_at h2 p (VString 3) } of Some h3 \<Rightarrow> h3 | None \<Rightarrow> h1), cp_world = []\<rparr>)"

lemma demo_args_ok: "heap_ok (cp_heap demo_args)" "str_at (cp_heap demo_args) 1 ''printf''" "Ts_Join.texts_at (cp_heap demo_args) 4 [''it's'', ''a; b'']"
proof -
  let ?h = "snd (new_str (snd (new_str (snd (new_str empty_heap ''printf'')) ''it's'')) ''a; b'')"
  let ?h1 = "snd (new_arr ?h ts_array_new)"
  have n: "nxt ?h = 4" by (simp add: new_str_def empty_heap_def)
  have ok: "heap_ok ?h1" by (simp add: heap_ok_new)
  have st: "str_at ?h1 1 ''printf''" "str_at ?h1 2 ''it's''" "str_at ?h1 3 ''a; b''" by (simp_all add: str_at_def new_str_def new_arr_def empty_heap_def)
  have a: "arrs ?h1 4 = Some ts_array_new" using n by (simp add: heap_simps)
  from foldo_push_at [OF a, of "[VString 2, VString 3]"] obtain b where
    b: "foldo (\<lambda>h v. arr_push_at h 4 v) ?h1 [VString 2, VString 3] = Some (put_arr ?h1 4 b)" "arr_ok b" "arr_vals b = [VString 2, VString 3]"
    by (auto simp: ARR_LIMIT_def)
  have e: "cp_heap demo_args = put_arr ?h1 4 b"
    using b(1) n by (simp add: demo_args_def Let_def case_prod_beta new_arr_def)
  show "heap_ok (cp_heap demo_args)" unfolding e using ok a by (simp add: heap_ok_put)
  show "str_at (cp_heap demo_args) 1 ''printf''" unfolding e using st(1) by (simp add: str_at_def heap_simps)
  show "Ts_Join.texts_at (cp_heap demo_args) 4 [''it's'', ''a; b'']"
    unfolding e Ts_Join.texts_at_def using b(2,3) st(2,3) by (simp add: str_at_def heap_simps)
qed

lemma execFile_words_witness:
  "sh_words (command_line ''printf'' [''it's'', ''a; b'']) = Some [''printf'', ''it's'', ''a; b''] \<and>
    (\<exists>r s'. node_child_process_execFile demo_procs no_code (VString 1) (VArray 4) VNull VNull demo_args = Some (VString r, s') \<and>
      cp_world s' = [command_line ''printf'' [''it's'', ''a; b'']] \<and> str_at (cp_heap s') r (''one two'' @ [NL]))"
proof -
  have p: "\<forall>a \<in> set (''printf'' # [''it's'', ''a; b'']). sh_plain_word a"
    by (simp add: sh_plain_word_def needs_quote_def shell_special_def)
  have c: "cstr (concat [''one '', ''two'' @ [NL]]) = ''one two'' @ [NL]" by (simp add: cstr_def)
  have r: "pr_run demo_procs l (cp_world demo_args) = (Some (7, [''one '', ''two'' @ [NL]], [], Exited 0), [l])" for l
    by (simp add: demo_procs_def demo_args_def Let_def case_prod_beta)
  show ?thesis using execFile_words [OF demo_args_ok p r, of no_code VNull] c by (simp add: int32_max_def)
qed

end
