(* ===== verification/Ts_Ffi.thy ===== *)
theory Ts_Ffi
  imports Ts_Texts Ts_Promise
begin

text \<open>
  \<^verbatim>\<open>runtime/src/builtins/node_ffi.c\<close>, in its POSIX build: libraries, the functions found in them, and calls with
  arguments that are converted to the types of C. The dynamic linker and the functions of the
  libraries are a parameter.
\<close>

subsection \<open>The state\<close>

text \<open>
  Handles and addresses of foreign functions are numbers. The last part of the parameter is what a foreign function does, by
  the type it is called with and the arguments it is given: \<open>None\<close> where such a call is undefined, as after its
  library has been unloaded or when it is not a function of that type in C. A text it returns is \<open>None\<close> for a NULL.
\<close>

record 'w linker =
  dl_open :: "string \<Rightarrow> 'w \<Rightarrow> nat option \<times> 'w"
  dl_error :: "'w \<Rightarrow> string option"
  dl_sym :: "nat \<Rightarrow> string \<Rightarrow> 'w \<Rightarrow> nat option"
  dl_close :: "nat \<Rightarrow> 'w \<Rightarrow> 'w"
  fn_int :: "nat \<Rightarrow> int list \<Rightarrow> 'w \<Rightarrow> (int \<times> 'w) option"
  fn_double :: "nat \<Rightarrow> dbl list \<Rightarrow> 'w \<Rightarrow> (dbl \<times> 'w) option"
  fn_string :: "nat \<Rightarrow> string list \<Rightarrow> 'w \<Rightarrow> (string option \<times> 'w) option"
  fn_pointer :: "nat \<Rightarrow> addr list \<Rightarrow> 'w \<Rightarrow> (addr \<times> 'w) option"
  fn_void :: "nat \<Rightarrow> int list \<Rightarrow> 'w \<Rightarrow> 'w option"

record ffi_func =
  ff_ptr :: nat
  ff_owner :: addr

datatype ffi_object = FfiLib nat | FfiFunc ffi_func

record 'w ffs =
  ff_heap :: heap
  ff_objs :: "addr \<Rightarrow> ffi_object option"
  ff_world :: 'w

definition ffi_alloc :: "ffi_object \<Rightarrow> 'w ffs \<Rightarrow> tsvalue \<times> 'w ffs" where
  "ffi_alloc x s = (let p = nxt (ff_heap s) in
     (VObject p, s\<lparr>ff_heap := (ff_heap s)\<lparr>nxt := Suc p\<rparr>, ff_objs := (ff_objs s)(p \<mapsto> x)\<rparr>))"

text \<open>The object of this module behind a value; the tag of any other live object is another one.\<close>

definition ffi_object_of :: "'w ffs \<Rightarrow> tsvalue \<Rightarrow> (addr \<times> ffi_object) option option" where
  "ffi_object_of s v = (case v of
     VObject p \<Rightarrow> if p = 0 then Some None
       else (case ff_objs s p of Some x \<Rightarrow> Some (Some (p, x)) | None \<Rightarrow> map_option (\<lambda>_. None) (objs (ff_heap s) p))
   | _ \<Rightarrow> Some None)"

definition as_lib :: "'w ffs \<Rightarrow> tsvalue \<Rightarrow> (addr \<times> nat) option option" where
  "as_lib s v = do { r \<leftarrow> ffi_object_of s v; Some (case r of Some (p, FfiLib x) \<Rightarrow> Some (p, x) | _ \<Rightarrow> None) }"

definition as_func :: "'w ffs \<Rightarrow> tsvalue \<Rightarrow> ffi_func option option" where
  "as_func s v = do { r \<leftarrow> ffi_object_of s v; Some (case r of Some (p, FfiFunc x) \<Rightarrow> Some x | _ \<Rightarrow> None) }"

definition ffi_throw :: "string \<Rightarrow> 'w ffs \<Rightarrow> (outcome \<times> 'w ffs) option" where
  "ffi_throw msg s = do { (v, h) \<leftarrow> new_text (ff_heap s) msg; Some (Thrown v, s\<lparr>ff_heap := h\<rparr>) }"

text \<open>The text of a value that is a string.\<close>

definition ffi_text :: "heap \<Rightarrow> tsvalue \<Rightarrow> string option option" where
  "ffi_text h v = (case v of VString q \<Rightarrow> if q = 0 then Some None else map_option (\<lambda>t. Some (cstr t)) (str_data h q) | _ \<Rightarrow> Some None)"

subsection \<open>Libraries\<close>

definition node_ffi_dlopen :: "'w linker \<Rightarrow> tsvalue \<Rightarrow> 'w ffs \<Rightarrow> (outcome \<times> 'w ffs) option" where
  "node_ffi_dlopen dl path s = do {
     t \<leftarrow> ffi_text (ff_heap s) path;
     case t of
       None \<Rightarrow> ffi_throw ''dlopen: path must be a string'' s
     | Some cpath \<Rightarrow> (let (h, w) = dl_open dl cpath (ff_world s); s1 = s\<lparr>ff_world := w\<rparr> in
         case h of
           None \<Rightarrow> (let err = (case dl_error dl w of Some e \<Rightarrow> cstr e | None \<Rightarrow> ''unknown error'') in
             ffi_throw (snprintf 512 (''dlopen: failed to load '' @ [CHR 0x27] @ cpath @ [CHR 0x27] @ '': '' @ err)) s1)
         | Some x \<Rightarrow> (let (v, s2) = ffi_alloc (FfiLib x) s1 in Some (Returned v, s2))) }"

definition node_ffi_dlsym :: "'w linker \<Rightarrow> tsvalue \<Rightarrow> tsvalue \<Rightarrow> 'w ffs \<Rightarrow> (outcome \<times> 'w ffs) option" where
  "node_ffi_dlsym dl handle symbol s = do {
     lib \<leftarrow> as_lib s handle;
     case lib of
       None \<Rightarrow> ffi_throw ''dlsym: invalid library handle'' s
     | Some (p, x) \<Rightarrow> do {
         t \<leftarrow> ffi_text (ff_heap s) symbol;
         case t of
           None \<Rightarrow> ffi_throw ''dlsym: symbol must be a string'' s
         | Some csym \<Rightarrow> (case dl_sym dl x csym (ff_world s) of
             None \<Rightarrow> ffi_throw (snprintf 256 (''dlsym: symbol '' @ [CHR 0x27] @ csym @ [CHR 0x27] @ '' not found'')) s
           | Some fn \<Rightarrow> (let (v, s1) = ffi_alloc (FfiFunc \<lparr>ff_ptr = fn, ff_owner = p\<rparr>) s in Some (Returned v, s1))) } }"

definition node_ffi_dlclose :: "'w linker \<Rightarrow> tsvalue \<Rightarrow> 'w ffs \<Rightarrow> (outcome \<times> 'w ffs) option" where
  "node_ffi_dlclose dl handle s = do {
     lib \<leftarrow> as_lib s handle;
     case lib of
       None \<Rightarrow> ffi_throw ''dlclose: invalid library handle'' s
     | Some (p, x) \<Rightarrow> Some (Returned ts_value_undefined, s\<lparr>ff_world := dl_close dl x (ff_world s), ff_objs := (ff_objs s)(p := None)\<rparr>) }"

subsection \<open>Arguments\<close>

text \<open>
  The four arrays that the arguments are converted into, one entry each; \<open>None\<close> is an entry that is left
  uninitialised. A number that is no \<^verbatim>\<open>int\<close> makes the conversion undefined. The characters of a string stand at its address.
\<close>

record ffi_arg =
  arg_i :: "int option"
  arg_d :: "dbl option"
  arg_s :: "string option"
  arg_p :: "addr option"

definition no_arg :: ffi_arg where
  "no_arg = \<lparr>arg_i = None, arg_d = None, arg_s = None, arg_p = None\<rparr>"

definition marshal :: "heap \<Rightarrow> tsvalue \<Rightarrow> ffi_arg option" where
  "marshal h v = (case v of
     VNumber d \<Rightarrow> do { n \<leftarrow> d_to_int d; Some (no_arg\<lparr>arg_i := Some n, arg_d := Some d\<rparr>) }
   | VBoolean b \<Rightarrow> Some (no_arg\<lparr>arg_i := Some b, arg_d := Some (if b \<noteq> 0 then DFin 1 else DFin 0)\<rparr>)
   | VString q \<Rightarrow> if q = 0 then Some (no_arg\<lparr>arg_s := Some [], arg_p := Some 0\<rparr>)
       else do { t \<leftarrow> str_data h q; Some (no_arg\<lparr>arg_s := Some (cstr t), arg_p := Some q\<rparr>) }
   | VObject q \<Rightarrow> Some (no_arg\<lparr>arg_i := Some 0, arg_d := Some (DFin 0), arg_p := Some q\<rparr>)
   | _ \<Rightarrow> Some (no_arg\<lparr>arg_i := Some 0, arg_d := Some (DFin 0), arg_p := Some 0\<rparr>))"

text \<open>At most eight arguments are taken from the array.\<close>

definition ffi_args :: "heap \<Rightarrow> tsvalue \<Rightarrow> tsvalue list option" where
  "ffi_args h args = (case args of
     VArray p \<Rightarrow> if p = 0 then Some []
       else do {
         a \<leftarrow> arrs h p;
         let argc = (if a_length a > 8 then 8 else a_length a);
         those (map (ts_array_get a) [0..argc - 1]) }
   | _ \<Rightarrow> Some [])"

text \<open>
  The arguments a call takes from one of the arrays: all of them when there are fewer than \<open>most\<close>, and \<open>most\<close> of them
  otherwise. Reading an uninitialised entry is undefined.
\<close>

definition taken :: "nat \<Rightarrow> (ffi_arg \<Rightarrow> 'a option) \<Rightarrow> ffi_arg list \<Rightarrow> 'a list option" where
  "taken most f args = those (map f (take most args))"

subsection \<open>Calls\<close>

definition node_ffi_call :: "'w linker \<Rightarrow> tsvalue \<Rightarrow> tsvalue \<Rightarrow> tsvalue \<Rightarrow> 'w ffs \<Rightarrow> (outcome \<times> 'w ffs) option" where
  "node_ffi_call dl funcPtr returnType args s = do {
     fn \<leftarrow> as_func s funcPtr;
     case fn of
       None \<Rightarrow> ffi_throw ''call: invalid function pointer'' s
     | Some f \<Rightarrow> do {
         t \<leftarrow> ffi_text (ff_heap s) returnType;
         case t of
           None \<Rightarrow> ffi_throw ''call: returnType must be a string'' s
         | Some retType \<Rightarrow> do {
             vs \<leftarrow> ffi_args (ff_heap s) args;
             as \<leftarrow> those (map (marshal (ff_heap s)) vs);
             if retType = ''int'' then do {
               xs \<leftarrow> taken 8 arg_i as;
               (r, w) \<leftarrow> fn_int dl (ff_ptr f) xs (ff_world s);
               Some (Returned (VNumber (dint r)), s\<lparr>ff_world := w\<rparr>) }
             else if retType = ''double'' then do {
               xs \<leftarrow> taken 8 arg_d as;
               (r, w) \<leftarrow> fn_double dl (ff_ptr f) xs (ff_world s);
               Some (Returned (VNumber r), s\<lparr>ff_world := w\<rparr>) }
             else if retType = ''string'' then do {
               xs \<leftarrow> taken 4 arg_s as;
               (r, w) \<leftarrow> fn_string dl (ff_ptr f) xs (ff_world s);
               case r of
                 None \<Rightarrow> Some (Returned VNull, s\<lparr>ff_world := w\<rparr>)
               | Some x \<Rightarrow> do { (v, h) \<leftarrow> new_text (ff_heap s) x; Some (Returned v, s\<lparr>ff_heap := h, ff_world := w\<rparr>) } }
             else if retType = ''pointer'' \<or> retType = ''void*'' then do {
               xs \<leftarrow> taken 3 arg_p as;
               (r, w) \<leftarrow> fn_pointer dl (ff_ptr f) xs (ff_world s);
               Some (Returned (if r \<noteq> 0 then VObject r else VNull), s\<lparr>ff_world := w\<rparr>) }
             else if retType = ''void'' then do {
               xs \<leftarrow> taken 4 arg_i as;
               w \<leftarrow> fn_void dl (ff_ptr f) xs (ff_world s);
               Some (Returned ts_value_undefined, s\<lparr>ff_world := w\<rparr>) }
             else ffi_throw (snprintf 256 (''call: unsupported return type '' @ [CHR 0x27] @ retType @ [CHR 0x27])) s } } }"

subsection \<open>When a call is defined\<close>

lemma those_defined: "(\<exists>ys. those xs = Some ys) \<longleftrightarrow> None \<notin> set xs"
  by (induction xs) (auto split: option.splits)

lemma those_length: "those xs = Some ys \<Longrightarrow> length ys = length xs \<and> (\<forall>i < length xs. xs ! i = Some (ys ! i))"
proof (induction xs arbitrary: ys)
  case (Cons x xs)
  then obtain y zs where y: "x = Some y" "those xs = Some zs" "ys = y # zs" by (auto split: option.splits)
  with Cons.IH [OF y(2)] show ?case by (auto simp: nth_Cons split: nat.splits)
qed simp

text \<open>A value that can be converted: a number must be an \<^verbatim>\<open>int\<close>, a string must be live.\<close>

definition converts :: "heap \<Rightarrow> tsvalue \<Rightarrow> bool" where
  "converts h v \<longleftrightarrow> (case v of VNumber d \<Rightarrow> d_to_int d \<noteq> None | VString q \<Rightarrow> q = 0 \<or> str_data h q \<noteq> None | _ \<Rightarrow> True)"

text \<open>The arguments that a call of the given type reads, and which kinds of values leave something to read.\<close>

definition reads_ok :: "string \<Rightarrow> tsvalue list \<Rightarrow> bool" where
  "reads_ok ret vs \<longleftrightarrow>
    (if ret = ''int'' \<or> ret = ''double'' then \<forall>v \<in> set vs. vtag v \<noteq> TAG_STRING
     else if ret = ''string'' then \<forall>v \<in> set (take 4 vs). vtag v = TAG_STRING
     else if ret = ''pointer'' \<or> ret = ''void*'' then \<forall>v \<in> set (take 3 vs). vtag v \<noteq> TAG_NUMBER \<and> vtag v \<noteq> TAG_BOOLEAN
     else if ret = ''void'' then \<forall>v \<in> set (take 4 vs). vtag v \<noteq> TAG_STRING
     else True)"

text \<open>What is passed on for a value as an \<^verbatim>\<open>int\<close>, a \<^verbatim>\<open>double\<close>, a text and a pointer.\<close>

definition pass_i :: "tsvalue \<Rightarrow> int" where
  "pass_i v = (case v of VNumber d \<Rightarrow> the (d_to_int d) | VBoolean b \<Rightarrow> b | _ \<Rightarrow> 0)"

definition pass_d :: "tsvalue \<Rightarrow> dbl" where
  "pass_d v = (case v of VNumber d \<Rightarrow> d | VBoolean b \<Rightarrow> if b = 0 then DFin 0 else DFin 1 | _ \<Rightarrow> DFin 0)"

definition pass_s :: "heap \<Rightarrow> tsvalue \<Rightarrow> string" where
  "pass_s h v = (case v of VString q \<Rightarrow> if q = 0 then [] else cstr (the (str_data h q)) | _ \<Rightarrow> [])"

definition pass_p :: "tsvalue \<Rightarrow> addr" where
  "pass_p v = (case v of VString q \<Rightarrow> q | VObject q \<Rightarrow> q | _ \<Rightarrow> 0)"

text \<open>The foreign function is defined, as a function of the given type, on what it is given.\<close>

definition foreign_ok :: "'w linker \<Rightarrow> string \<Rightarrow> nat \<Rightarrow> heap \<Rightarrow> tsvalue list \<Rightarrow> 'w \<Rightarrow> bool" where
  "foreign_ok dl ret fn h vs w \<longleftrightarrow>
    (if ret = ''int'' then fn_int dl fn (map pass_i vs) w \<noteq> None
     else if ret = ''double'' then fn_double dl fn (map pass_d vs) w \<noteq> None
     else if ret = ''string'' then fn_string dl fn (map (pass_s h) (take 4 vs)) w \<noteq> None
     else if ret = ''pointer'' \<or> ret = ''void*'' then fn_pointer dl fn (map pass_p (take 3 vs)) w \<noteq> None
     else if ret = ''void'' then fn_void dl fn (map pass_i (take 4 vs)) w \<noteq> None
     else True)"

lemma marshal_defined: "(\<exists>a. marshal h v = Some a) \<longleftrightarrow> converts h v"
  by (cases v) (auto simp: marshal_def converts_def bind_eq_Some_conv)

lemma marshal_entries:
  assumes "marshal h v = Some a"
  shows "arg_i a = (if vtag v \<noteq> TAG_STRING then Some (pass_i v) else None)"
    "arg_d a = (if vtag v \<noteq> TAG_STRING then Some (pass_d v) else None)"
    "arg_s a = (if vtag v = TAG_STRING then Some (pass_s h v) else None)"
    "arg_p a = (if vtag v \<noteq> TAG_NUMBER \<and> vtag v \<noteq> TAG_BOOLEAN then Some (pass_p v) else None)"
  using assms
  by (cases v; auto simp: marshal_def no_arg_def pass_i_def pass_d_def pass_s_def pass_p_def split: if_splits bind_splits)+

lemma taken_entries:
  assumes "those (map (marshal h) vs) = Some as" "\<And>v a. marshal h v = Some a \<Longrightarrow> f a = (if P v then Some (g v) else None)"
  shows "taken n f as = (if \<forall>v \<in> set (take n vs). P v then Some (map g (take n vs)) else None)"
  using assms(1)
proof (induction vs arbitrary: as n)
  case (Cons v vs)
  then obtain a bs where a: "marshal h v = Some a" "those (map (marshal h) vs) = Some bs" "as = a # bs" by (auto split: option.splits)
  from assms(2) [OF a(1)] Cons.IH [OF a(2)] a(3) show ?case by (cases n) (auto simp: taken_def)
qed (simp add: taken_def)


text \<open>A linker with one library, that is loaded in the world 0; its function returns the text it is given.\<close>

definition demo_linker :: "nat linker" where
  "demo_linker = \<lparr>dl_open = (\<lambda>t w. (Some 1, 0)), dl_error = (\<lambda>w. None), dl_sym = (\<lambda>h t w. Some 5), dl_close = (\<lambda>h w. 1),
     fn_int = (\<lambda>n xs w. None), fn_double = (\<lambda>n xs w. None),
     fn_string = (\<lambda>n xs w. if w = 0 then Some (Some (take 5000 (concat xs)), w) else None),
     fn_pointer = (\<lambda>n xs w. None), fn_void = (\<lambda>n xs w. None)\<rparr>"

text \<open>A library object at 5, its function at 4, and at 3 an array with one string.\<close>

definition demo_ffi :: "nat ffs" where
  "demo_ffi = (let h = snd (new_str (snd (new_str empty_heap ''string'')) ''7'');
       h1 = snd (new_arr h (case ts_array_push ts_array_new (VString 2) of Some a \<Rightarrow> a | None \<Rightarrow> ts_array_new));
       s = \<lparr>ff_heap = h1, ff_objs = Map.empty, ff_world = 0\<rparr>
     in snd (ffi_alloc (FfiLib 1) (snd (ffi_alloc (FfiFunc \<lparr>ff_ptr = 5, ff_owner = 5\<rparr>) s))))"

lemma demo_ffi_ok: "as_func demo_ffi (VObject 4) = Some (Some \<lparr>ff_ptr = 5, ff_owner = 5\<rparr>)" "str_at (ff_heap demo_ffi) 1 ''string''"
  "ffi_args (ff_heap demo_ffi) (VArray 3) = Some [VString 2]" "str_data (ff_heap demo_ffi) 2 = Some ''7''" "ff_world demo_ffi = 0"
proof -
  obtain a where a: "ts_array_push ts_array_new (VString 2) = Some a" "arr_ok a" "arr_vals a = [VString 2]"
    using ts_array_push_ok [of ts_array_new "VString 2"] by (auto simp: ARR_LIMIT_def)
  have l: "a_length a = 1" using length_arr_vals [OF a(2)] a(3) by simp
  then have "ts_array_get a 0 = Some (VString 2)" using a(2,3) by (simp add: ts_array_get_def read_item_arr)
  moreover have "[0..0 :: int] = [0]" by simp
  ultimately show "ffi_args (ff_heap demo_ffi) (VArray 3) = Some [VString 2]"
    using a(1) l by (simp add: demo_ffi_def ffi_alloc_def new_str_def new_arr_def empty_heap_def Let_def ffi_args_def)
qed (simp_all add: demo_ffi_def ffi_alloc_def as_func_def ffi_object_of_def str_at_def str_data_def new_str_def new_arr_def empty_heap_def Let_def)


end
