(* ===== verification/Spec2Isabelle.thy ===== *)
theory Spec2Isabelle
  imports Ts_Gc Ts_Console Ts_Json Ts_Promise Ts_Builtins Ts_Timers Ts_Path Ts_Events Ts_Url Ts_Date
    Ts_Join Ts_Pool Ts_Ws_Frames Ts_Ws_State Ts_Fetch_Text Ts_Response Ts_Crypto Ts_Assert Ts_Chalk Ts_Ctype
    Ts_Readline Ts_Http_Queue Ts_Messages Ts_Terminal Ts_Files
    Ts_Shell Ts_Ffi
begin

text \<open>
  mini-tsc compiles TypeScript to C. This library models the C runtime that the compiled programs
  are linked with, \<^verbatim>\<open>src/runtime\<close>, and proves what its parts do.

  \<^bold>\<open>Parts.\<close>

  \<^item> \<^verbatim>\<open>runtime/include/runtime.h\<close>: \<^theory_text>\<open>Ts_Heap\<close> holds the tagged union \<^verbatim>\<open>Value\<close> as a datatype, the
    objects it points to as records with the source's fields, and the store: three finite maps from
    addresses to strings, arrays and other objects, with the next fresh address. Aliasing and use
    after free are visible in it: an operation on an address the store does not hold is \<open>None\<close>.
    \<^theory_text>\<open>Ts_Double\<close> holds the C double as a rational with signed zero, infinities and NaN, with
    rounding to 53 bits, \<^verbatim>\<open>%g\<close> and \<^verbatim>\<open>strtod\<close>.

  \<^item> \<^verbatim>\<open>string_ops.c\<close> (\<^theory_text>\<open>Ts_String\<close>), \<^verbatim>\<open>array_ops.c\<close> (\<^theory_text>\<open>Ts_Array\<close>), \<^verbatim>\<open>hashmap.c\<close> (\<^theory_text>\<open>Ts_Hashmap\<close>): the
    containers. Each operation has its contract for live arguments; arrays implement a growable
    sequence (locale \<open>growable\<close>), with the loops over callbacks and the round trip of
    split and join in \<^theory_text>\<open>Ts_Join\<close>; hash maps a finite map from strings (locale \<open>string_map\<close>). The
    probing loop is total on the tables the operations build, because they are never full.

  \<^item> \<^verbatim>\<open>gc.c\<close> (\<^theory_text>\<open>Ts_Gc\<close>): the list of headers, the roots and the counters as a record; marking by a
    measure on the unmarked headers; the step relation \<open>gc_step\<close> of everything that may happen to
    the heap, with its invariant. The words in static data, on the stack and in the root slots are
    the parameter \<open>gc_env\<close>.

  \<^item> \<^verbatim>\<open>runtime.c\<close>: buffers (\<^theory_text>\<open>Ts_Buffer\<close>), the coercions and blobs (\<^theory_text>\<open>Ts_Coerce\<close>), inspection and the
    console (\<^theory_text>\<open>Ts_Console\<close>, over the text of the two output streams), JSON (\<^theory_text>\<open>Ts_Json\<close>), URLs
    (\<^theory_text>\<open>Ts_Url\<close>) and dates (\<^theory_text>\<open>Ts_Date\<close>).

  \<^item> \<^verbatim>\<open>promise.c\<close> and \<^verbatim>\<open>ts_value_call\<close> (\<^theory_text>\<open>Ts_Promise\<close>): the functions of the compiled program are a
    parameter, a map from the address of a function and its arguments to a result and a new store,
    so that handlers may call back into the promises. That a promise settles once is shown for the
    functions of a program: bodies that look at the store, run the operations on promises, call each
    other to any depth and change what is no promise (\<open>program\<close>).

  \<^item> \<^verbatim>\<open>builtins.c\<close>: arithmetic, base conversion and dialogs (\<^theory_text>\<open>Ts_Builtins\<close>) and the timers
    (\<^theory_text>\<open>Ts_Timers\<close>, over a clock that is a sequence of readings).

  \<^item> \<^verbatim>\<open>thread_pool.c\<close> (\<^theory_text>\<open>Ts_Pool\<close>): the queues are linked lists in a store of jobs, each a
    first-in-first-out queue (locale \<open>fifo\<close> of \<^theory_text>\<open>Ts_Fifo\<close>); each critical section is a step, and
    \<open>pool_step\<close> interleaves the steps of the workers with those of the main thread, callbacks that
    submit and poll among them. What a callback submits in the last poll of a shutdown is observed as
    late: no worker is left to take it. The event loop is modelled over the operations it calls.

  \<^item> The HTTP client of \<^verbatim>\<open>runtime.c\<close>, in its libcurl build: requests, the queue of body chunks, pumping
    and the readers (\<^theory_text>\<open>Ts_Fetch\<close>), with libcurl a parameter that delivers pieces of a body in turns;
    the queue is the same first-in-first-out interface as the job queues, and the invariant of a
    transfer is kept by every operation (\<^theory_text>\<open>Ts_Fetch_Body\<close>); what text and the readers return
    (\<^theory_text>\<open>Ts_Fetch_Text\<close>); \<^verbatim>\<open>Response\<close> and writable streams (\<^theory_text>\<open>Ts_Response\<close>).

  \<^item> \<^verbatim>\<open>builtins/node_crypto.c\<close> and \<^verbatim>\<open>builtins/node_uuid.c\<close>: the hash functions are instances of one
    streaming construction over blocks (\<^theory_text>\<open>Ts_Block_Hash\<close>, locale \<open>block_hash\<close>), defined in \<^theory_text>\<open>Ts_Hashes\<close> and
    compared with the standards in \<^theory_text>\<open>Ts_Hash_Std\<close>. The standards are written down by themselves in
    \<^theory_text>\<open>Ts_Standards\<close>, which imports nothing of the code's model: FIPS 180-4 with its constants as roots
    of primes, RFC 1321, RFC 2104 and the base64 of RFC 4648. Hash objects, keyed digests, key derivation and
    identifiers are \<^theory_text>\<open>Ts_Crypto\<close>, over a parameter for \<^verbatim>\<open>rand\<close>.

  \<^item> \<^verbatim>\<open>websocket.c\<close>: the SHA-1 and base64 of the handshake (\<^theory_text>\<open>Ts_Sha1\<close>), all operations over a
    network that is a parameter (\<^theory_text>\<open>Ts_Websocket\<close>), frames between two peers (\<^theory_text>\<open>Ts_Ws_Frames\<close>) and
    the life of a socket as a step relation (\<^theory_text>\<open>Ts_Ws_State\<close>).

  \<^item> \<^verbatim>\<open>builtins/node_path.c\<close> (\<^theory_text>\<open>Ts_Path\<close>) and \<^verbatim>\<open>builtins/node_events.c\<close> (\<^theory_text>\<open>Ts_Events\<close>), over what
    they share with other modules on plain objects (\<^theory_text>\<open>Ts_Objmap\<close>).

  \<^item> \<^verbatim>\<open>builtins/node_assert.c\<close> (\<^theory_text>\<open>Ts_Assert\<close>): deep equality as a partial function over the store, and
    the assertions over the single jump buffer of the runtime, modelled as the frame it holds and
    the frames that are active; \<^verbatim>\<open>builtins/node_chalk.c\<close> (\<^theory_text>\<open>Ts_Chalk\<close>), with a terminal that shows what the
    escape sequences mean; \<^verbatim>\<open>builtins/node_readline.c\<close> (\<^theory_text>\<open>Ts_Readline\<close>), over the text of the standard
    input and output; \<^verbatim>\<open>builtins/node_ctype.c\<close> and \<^verbatim>\<open>closure.c\<close> (\<^theory_text>\<open>Ts_Ctype\<close>).

  \<^item> \<^verbatim>\<open>builtins/node_http.c\<close>: the texts of requests and answers (\<^theory_text>\<open>Ts_Http\<close>) with what a reader makes of
    them (\<^theory_text>\<open>Ts_Http_Text\<close>, objects of texts in \<^theory_text>\<open>Ts_Texts\<close>); the server and the client
    (\<^theory_text>\<open>Ts_Http_Server\<close>) over the network of the WebSockets and the handlers of the program; the queue
    between the accept thread and the main thread, which is a first-in-first-out queue again, and the
    way of a request from the socket to its answer (\<^theory_text>\<open>Ts_Http_Queue\<close>).

  \<^item> \<^verbatim>\<open>builtins/node_worker_threads.c\<close> (\<^theory_text>\<open>Ts_Workers\<close>), with the messages of ports in \<^theory_text>\<open>Ts_Messages\<close>; and
    \<^verbatim>\<open>builtins/node_process.c\<close> (\<^theory_text>\<open>Ts_Process\<close>) over an operating system that is a parameter, with a
    terminal and a shell that read what it writes (\<^theory_text>\<open>Ts_Terminal\<close>).

  \<^item> \<^verbatim>\<open>builtins/node_fs.c\<close> (\<^theory_text>\<open>Ts_Fs\<close>) over a file system that is a parameter: the synchronous operations,
    and the jobs of the asynchronous ones, whose first part is a function of the files that a worker finds
    and whose second part is a function of the store that the main thread has then; \<^theory_text>\<open>Ts_Files\<close> compares the two.

  \<^item> \<^verbatim>\<open>builtins/node_child_process.c\<close> (\<^theory_text>\<open>Ts_Child\<close>), with running a command as a parameter and a shell that
    reads its lines (\<^theory_text>\<open>Ts_Shell\<close>); \<^verbatim>\<open>builtins/node_ffi.c\<close> (\<^theory_text>\<open>Ts_Ffi\<close>), over the dynamic linker and foreign
    functions, which are partial (a library may be closed, a function may have another type in C), with
    the uninitialised entries of its argument arrays.

  \<^bold>\<open>Conventions.\<close> An operation returns \<open>None\<close> where the C is undefined (a dangling or unchecked NULL
  pointer, an index out of bounds, a signed overflow, a conversion out of range) and where it does
  not return; loops that may run for ever are \<open>partial_function\<close>s, all others are total, so no fuel
  is used. A theorem that an operation gives \<open>Some\<close> therefore says that it returns and is defined.
  \<^verbatim>\<open>int32_t\<close> values are integers with the overflow checked (\<open>ck32\<close>), hashes and base64 triples are
  machine words. \<^verbatim>\<open>malloc\<close> succeeds. Keys of hash maps are taken by contents. Temporary strings are
  modelled by contents where their release cannot be observed. All \<^verbatim>\<open>TS_NEED\<close> features are switched
  on, and \<^verbatim>\<open>long\<close> has 64 bits.

  \<^bold>\<open>What is shown.\<close> Safety and exactness of the collector; that every job submitted to the thread
  pool, but by a callback of the end of a shutdown, is completed once, and taken in order, for every
  interleaving; that the text of a response, and the readers, give the bytes of all deliveries in order,
  up to a NUL, when the transfer comes to an end; that MD5, SHA-256 and the handshake's SHA-1
  are those of the standards however a message is split, and that the other SHA-1 and SHA-512 are
  not; round trips of JSON, base64, hex, ISO dates, base conversion, paths, HTTP requests and WebSocket frames; that a
  request read from a connection is answered by the next poll when the handler returns a text, and what a streamed answer decodes to;
  that messages arrive once and in order; what the escape sequences do to a terminal; that
  what is written to a file is read back, and an asynchronous operation on files answers as the synchronous one; which words a shell
  sees of a command line; that
  a promise settles once and a settlement runs down a chain; what a poll of the timers fires and
  that the event loop drains, when the callbacks leave the timers alone; that deep equality decides the equality of trees; what adding a
  listener and emitting an event do; the life of a WebSocket and of a line reader; the parts of a
  URL; the Gregorian calendar; termination of the dialogs and of probing; and, where the code is
  undefined or does not do what it is meant to, theorems that say exactly when: strings released
  twice or read after their release, buffers that are overrun, JSON texts that are misread or never
  finish, promises that are never settled, assertions that catch their own failure.

  \<^bold>\<open>Not modelled.\<close> \<^verbatim>\<open>node_os.c\<close>, which asks the operating system for its properties, and the windows and the
  mouse, which are only calls of it; \<^verbatim>\<open>node_net.c\<close>, which is not a C program as it stands; the
  builds for Windows and the HTTP client over WinHTTP; the bindings to and the sources of the third-party code
  (SQLite, QuickJS, 7-Zip, WebView2, libcurl); and the compiler itself, which is written in TypeScript.
\<close>

end
